(* ===== verification/Amber_Prelude.thy ===== *)
theory Amber_Prelude
  imports Complex_Main "HOL-Library.AList" "HOL-Library.Sublist" "HOL-Library.Multiset"
    "HOL-Library.Char_ord" "HOL-Library.List_Lexorder"
begin

text \<open>
  Shared vocabulary of the development: the Python values the code manipulates (floats read as
  exact rationals, insertion-ordered dictionaries, JSON values, strings), the result type of
  operations that may raise, and two interfaces stated as locales: a keyed store, which every
  manager of the program keeps, and a state machine with an invariant, which every stateful
  component is.
\<close>

section \<open>Collections of rules\<close>

named_theorems dict_rules \<open>reading a dictionary after an update\<close>
named_theorems op_defs \<open>definitions of the operations of the components\<close>

section \<open>Values\<close>

text \<open>
  Python floats are read as exact rationals: every comparison, sum and product below is the
  code's, without the rounding of binary floating point. Timestamps are floats too.
\<close>

type_synonym pyfloat = rat
type_synonym timestamp = rat

datatype json =
    JNull
  | JBool bool
  | JInt int
  | JFloat pyfloat
  | JStr string
  | JList "json list"
  | JObj "(string \<times> json) list"

text \<open>An operation that may raise returns \<open>Inl\<close> of the exception or \<open>Inr\<close> of its result.\<close>

fun is_error :: "'e + 'a \<Rightarrow> bool" where
  "is_error (Inl e) = True"
| "is_error (Inr a) = False"

section \<open>Dictionaries\<close>

text \<open>
  A Python \<open>dict\<close> (and \<open>OrderedDict\<close>) is an association list in insertion order:
  assignment to an existing key keeps its place, a new key goes to the end.
\<close>

type_synonym ('k, 'v) pydict = "('k \<times> 'v) list"

abbreviation dget :: "('k, 'v) pydict \<Rightarrow> 'k \<Rightarrow> 'v option" where
  "dget \<equiv> map_of"

abbreviation dset :: "'k \<Rightarrow> 'v \<Rightarrow> ('k, 'v) pydict \<Rightarrow> ('k, 'v) pydict" where
  "dset \<equiv> AList.update"

abbreviation dpop :: "'k \<Rightarrow> ('k, 'v) pydict \<Rightarrow> ('k, 'v) pydict" where
  "dpop \<equiv> AList.delete"

abbreviation dkeys :: "('k, 'v) pydict \<Rightarrow> 'k list" where
  "dkeys d \<equiv> map fst d"

abbreviation dvals :: "('k, 'v) pydict \<Rightarrow> 'v list" where
  "dvals d \<equiv> map snd d"

definition dhas :: "('k, 'v) pydict \<Rightarrow> 'k \<Rightarrow> bool" where
  "dhas d k = (dget d k \<noteq> None)"

text \<open>\<open>d.get(k, default)\<close>.\<close>

definition dgetd :: "('k, 'v) pydict \<Rightarrow> 'k \<Rightarrow> 'v \<Rightarrow> 'v" where
  "dgetd d k x = (case dget d k of None \<Rightarrow> x | Some v \<Rightarrow> v)"

definition dict_ok :: "('k, 'v) pydict \<Rightarrow> bool" where
  "dict_ok d = distinct (dkeys d)"

lemma dget_dset [simp, dict_rules]: "dget (dset k v d) j = (if j = k then Some v else dget d j)"
  by (simp add: update_conv')

lemma dget_dpop [simp, dict_rules]: "dget (dpop k d) j = (if j = k then None else dget d j)"
  by (simp add: delete_conv')

lemma dgetd_dset [simp, dict_rules]: "dgetd (dset k v d) j x = (if j = k then v else dgetd d j x)"
  by (simp add: dgetd_def)

lemma dgetd_dpop [simp, dict_rules]: "dgetd (dpop k d) j x = (if j = k then x else dgetd d j x)"
  by (simp add: dgetd_def)

lemma dgetd_nil [simp]: "dgetd [] k x = x"
  by (simp add: dgetd_def)

lemma dhas_iff_mem: "dhas d k \<longleftrightarrow> k \<in> set (dkeys d)"
  by (simp add: dhas_def map_of_eq_None_iff)

lemma dhas_dset [simp, dict_rules]: "dhas (dset k v d) j \<longleftrightarrow> j = k \<or> dhas d j"
  by (simp add: dhas_def)

lemma dhas_dpop [simp, dict_rules]: "dhas (dpop k d) j \<longleftrightarrow> j \<noteq> k \<and> dhas d j"
  by (simp add: dhas_def)

lemma dict_ok_nil [simp]: "dict_ok []"
  by (simp add: dict_ok_def)

lemma dict_ok_dset [simp, intro]: "dict_ok d \<Longrightarrow> dict_ok (dset k v d)"
  by (simp add: dict_ok_def distinct_update)

lemma dict_ok_dpop [simp, intro]: "dict_ok d \<Longrightarrow> dict_ok (dpop k d)"
  by (simp add: dict_ok_def distinct_delete)

lemma dict_ok_dget_iff: "dict_ok d \<Longrightarrow> dget d k = Some v \<longleftrightarrow> (k, v) \<in> set d"
  by (auto simp: dict_ok_def dest: map_of_SomeD)

lemma dset_fresh: "\<not> dhas d k \<Longrightarrow> dset k v d = d @ [(k, v)]"
  by (induction d) (auto simp: dhas_def split: if_splits)

lemma length_dset: "length (dset k v d) = (if dhas d k then length d else Suc (length d))"
  by (induction d) (auto simp: dhas_def)

lemma dpop_fresh: "\<not> dhas d k \<Longrightarrow> dpop k d = d"
  by (simp add: dhas_iff_mem)

lemma length_dpop:
  assumes "dict_ok d" and "dhas d k"
  shows "Suc (length (dpop k d)) = length d"
  using assms
proof (induction d)
  case Nil
  then show ?case by (simp add: dhas_def)
next
  case (Cons p d)
  show ?case
  proof (cases "fst p = k")
    case True
    with Cons.prems have "\<not> dhas d k" by (auto simp: dict_ok_def dhas_iff_mem)
    with True show ?thesis by (simp add: dpop_fresh)
  next
    case False
    with Cons.prems have "dict_ok d" and "dhas d k" by (auto simp: dict_ok_def dhas_def)
    with Cons.IH False show ?thesis by simp
  qed
qed

lemma set_dpop: "dict_ok d \<Longrightarrow> set (dpop k d) = {p \<in> set d. fst p \<noteq> k}"
  by (induction d) (auto simp: dict_ok_def)

lemma dvals_dset: "set (dvals (dset k v d)) \<subseteq> insert v (set (dvals d))"
  by (induction d) auto

section \<open>Interface: a keyed store\<close>

text \<open>
  What the managers rely on: a lookup sees the last write to its key and no other, removal
  removes exactly its key, and a representation invariant is kept.
\<close>

locale keyed_store =
  fixes lookup :: "'m \<Rightarrow> 'k \<Rightarrow> 'v option"
    and put :: "'k \<Rightarrow> 'v \<Rightarrow> 'm \<Rightarrow> 'm"
    and remove :: "'k \<Rightarrow> 'm \<Rightarrow> 'm"
    and ok :: "'m \<Rightarrow> bool"
  assumes lookup_put: "ok m \<Longrightarrow> lookup (put k v m) j = (if j = k then Some v else lookup m j)"
    and lookup_remove: "ok m \<Longrightarrow> lookup (remove k m) j = (if j = k then None else lookup m j)"
    and ok_put: "ok m \<Longrightarrow> ok (put k v m)"
    and ok_remove: "ok m \<Longrightarrow> ok (remove k m)"
begin

lemma ok_puts: "ok m \<Longrightarrow> ok (fold (\<lambda>(k, v). put k v) kvs m)"
  by (induction kvs arbitrary: m) (auto intro: ok_put)

lemma lookup_puts:
  "ok m \<Longrightarrow> lookup (fold (\<lambda>(k, v). put k v) kvs m) j =
     (case map_of (rev kvs) j of Some v \<Rightarrow> Some v | None \<Rightarrow> lookup m j)"
proof (induction kvs arbitrary: m)
  case Nil
  then show ?case by simp
next
  case (Cons p kvs)
  obtain k v where p: "p = (k, v)" by (cases p)
  from Cons.prems have "ok (put k v m)" by (rule ok_put)
  then have "lookup (fold (\<lambda>(k, v). put k v) kvs (put k v m)) j =
     (case map_of (rev kvs) j of Some v \<Rightarrow> Some v | None \<Rightarrow> lookup (put k v m) j)"
    by (rule Cons.IH)
  with Cons.prems p show ?case
    by (auto simp: lookup_put map_add_def split: option.splits)
qed

lemma put_remove_absent: "ok m \<Longrightarrow> lookup (remove k (put k v m)) k = None"
  by (simp add: lookup_remove ok_put)

end

interpretation dict: keyed_store dget dset dpop dict_ok
  by unfold_locales auto

section \<open>Interface: a state machine with an invariant\<close>

text \<open>
  Every component is a state and a set of calls on it. A component whose calls keep an
  invariant keeps it along every sequence of calls; a component with a measured quantity that no
  call decreases never decreases it.
\<close>

locale machine =
  fixes step :: "'e \<Rightarrow> 's \<Rightarrow> 's"
    and inv :: "'s \<Rightarrow> bool"
  assumes step_inv: "inv s \<Longrightarrow> inv (step e s)"
begin

lemma run_inv: "inv s \<Longrightarrow> inv (fold step es s)"
  by (induction es arbitrary: s) (auto intro: step_inv)

lemma run_prefix_inv: "inv s \<Longrightarrow> inv (fold step (take n es) s)"
  by (rule run_inv)

end

locale measured_machine = machine step inv
  for step :: "'e \<Rightarrow> 's \<Rightarrow> 's" and inv :: "'s \<Rightarrow> bool" +
  fixes gauge :: "'s \<Rightarrow> 'a::order"
  assumes step_gauge: "inv s \<Longrightarrow> gauge s \<le> gauge (step e s)"
begin

lemma run_gauge: "inv s \<Longrightarrow> gauge s \<le> gauge (fold step es s)"
proof (induction es arbitrary: s)
  case Nil
  then show ?case by simp
next
  case (Cons e es)
  have "gauge s \<le> gauge (step e s)" by (rule step_gauge [OF Cons.prems])
  also have "\<dots> \<le> gauge (fold step es (step e s))"
    by (rule Cons.IH [OF step_inv [OF Cons.prems]])
  finally show ?case by simp
qed

end

section \<open>Strings\<close>

text \<open>
  Strings are lists of characters. \<open>str.lower\<close>, \<open>str.strip\<close> and the tests below are modelled on
  ASCII: letters \<open>A\<close> to \<open>Z\<close> are lowered and the six ASCII blanks are stripped.
\<close>

definition lower_char :: "char \<Rightarrow> char" where
  "lower_char c = (if 65 \<le> (of_char c :: nat) \<and> (of_char c :: nat) \<le> 90
                   then char_of ((of_char c :: nat) + 32) else c)"

definition lower :: "string \<Rightarrow> string" where
  "lower s = map lower_char s"

definition is_blank :: "char \<Rightarrow> bool" where
  "is_blank c = ((of_char c :: nat) = 32 \<or> 9 \<le> (of_char c :: nat) \<and> (of_char c :: nat) \<le> 13)"

text \<open>The bits of a character decide these tests, which is what evaluation uses.\<close>

lemma lower_char_code [code]:
  "lower_char (Char b0 b1 b2 b3 b4 b5 b6 b7) =
     (if b6 \<and> \<not> b5 \<and> \<not> b7 \<and> (b0 \<or> b1 \<or> b2 \<or> b3 \<or> b4) \<and> \<not> (b4 \<and> b3 \<and> (b2 \<or> (b1 \<and> b0)))
      then Char b0 b1 b2 b3 b4 True b6 b7 else Char b0 b1 b2 b3 b4 b5 b6 b7)"
  by (cases b0; cases b1; cases b2; cases b3; cases b4; cases b5; cases b6; cases b7; simp add: lower_char_def; simp add: char_of_def bit_0)

lemma is_blank_code [code]:
  "is_blank (Char b0 b1 b2 b3 b4 b5 b6 b7) =
     (\<not> b4 \<and> \<not> b6 \<and> \<not> b7 \<and> (if b5 then \<not> b0 \<and> \<not> b1 \<and> \<not> b2 \<and> \<not> b3 else b3 \<and> (b0 \<or> b1 \<or> b2) \<and> \<not> (b2 \<and> b1)))"
  by (cases b0; cases b1; cases b2; cases b3; cases b4; cases b5; cases b6; cases b7; simp add: is_blank_def)

definition strip :: "string \<Rightarrow> string" where
  "strip s = rev (dropWhile is_blank (rev (dropWhile is_blank s)))"

definition startswith :: "string \<Rightarrow> string \<Rightarrow> bool" where
  "startswith s p = (take (length p) s = p)"

definition endswith :: "string \<Rightarrow> string \<Rightarrow> bool" where
  "endswith s p = (drop (length s - length p) s = p)"

text \<open>\<open>p in s\<close> for strings.\<close>

fun str_in :: "string \<Rightarrow> string \<Rightarrow> bool" where
  "str_in p [] = (p = [])"
| "str_in p (c # s) = (startswith (c # s) p \<or> str_in p s)"

lemma startswith_iff: "startswith s p \<longleftrightarrow> (\<exists>r. s = p @ r)"
  by (auto simp: startswith_def) (metis append_take_drop_id)

lemma str_in_iff: "str_in p s \<longleftrightarrow> (\<exists>a b. s = a @ p @ b)"
proof (induction s)
  case Nil
  then show ?case by simp
next
  case (Cons c s)
  show ?case
  proof
    assume "str_in p (c # s)"
    then consider "startswith (c # s) p" | "str_in p s" by auto
    then show "\<exists>a b. c # s = a @ p @ b"
    proof cases
      case 1
      then obtain r where "c # s = [] @ p @ r" by (auto simp: startswith_iff)
      then show ?thesis by blast
    next
      case 2
      then obtain a b where "s = a @ p @ b" using Cons.IH by blast
      then have "c # s = (c # a) @ p @ b" by simp
      then show ?thesis by blast
    qed
  next
    assume "\<exists>a b. c # s = a @ p @ b"
    then obtain a b where ab: "c # s = a @ p @ b" by blast
    show "str_in p (c # s)"
    proof (cases a)
      case Nil
      with ab have "startswith (c # s) p" by (simp add: startswith_iff)
      then show ?thesis by simp
    next
      case (Cons x a')
      with ab have "s = a' @ p @ b" by simp
      then show ?thesis using Cons.IH by auto
    qed
  qed
qed

text \<open>Decimal rendering of an integer, as \<open>str(n)\<close>.\<close>

fun show_nat :: "nat \<Rightarrow> string" where
  "show_nat n = (if n < 10 then [char_of (48 + n)]
                 else show_nat (n div 10) @ [char_of (48 + n mod 10)])"

declare show_nat.simps [simp del]

definition show_int :: "int \<Rightarrow> string" where
  "show_int i = (if i < 0 then CHR ''-'' # show_nat (nat (- i)) else show_nat (nat i))"

section \<open>Sorting\<close>

text \<open>
  \<open>sorted(xs, key=f)\<close> is stable, as \<open>sort_key\<close> is; \<open>reverse=True\<close> keeps the order of equal keys.
\<close>

definition sorted_desc :: "('a \<Rightarrow> 'b::linorder) \<Rightarrow> 'a list \<Rightarrow> 'a list" where
  "sorted_desc f xs = rev (sort_key f (rev xs))"

lemma set_sorted_desc [simp]: "set (sorted_desc f xs) = set xs"
  by (simp add: sorted_desc_def)

lemma mset_sorted_desc [simp]: "mset (sorted_desc f xs) = mset xs"
  by (simp add: sorted_desc_def)

lemma sorted_sorted_desc: "sorted (map f (rev (sorted_desc f xs)))"
  by (simp add: sorted_desc_def)

lemma find_snoc: "find P xs = None \<Longrightarrow> P x \<Longrightarrow> find P (xs @ [x]) = Some x"
  by (induction xs) (auto split: if_splits)

lemma length_filter_less_iff: "length (filter P xs) < length xs \<longleftrightarrow> (\<exists>x \<in> set xs. \<not> P x)"
  by (induction xs) (auto simp: less_Suc_eq_le)

section \<open>Slices and bounded queues\<close>

text \<open>Python's \<open>xs[-n:]\<close>: the last \<open>n\<close> elements, and all of them for \<open>n = 0\<close>.\<close>

definition slice_last :: "int \<Rightarrow> 'a list \<Rightarrow> 'a list" where
  "slice_last n xs =
     (if n = 0 then xs
      else if n > 0 then drop (length xs - nat n) xs
      else drop (nat (- n)) xs)"

text \<open>\<open>deque(maxlen=n).append(x)\<close>: the oldest elements fall off.\<close>

definition deque_push :: "nat \<Rightarrow> 'a \<Rightarrow> 'a list \<Rightarrow> 'a list" where
  "deque_push n x xs = drop (length (xs @ [x]) - n) (xs @ [x])"

lemma length_deque_push: "length (deque_push n x xs) = min n (Suc (length xs))"
  by (auto simp: deque_push_def)

lemma set_deque_push: "set (deque_push n x xs) \<subseteq> insert x (set xs)"
  by (auto simp: deque_push_def dest: in_set_dropD)

section \<open>Rounding\<close>

text \<open>\<open>int(x)\<close> of a float: truncation towards zero.\<close>

definition py_int :: "rat \<Rightarrow> int" where
  "py_int x = (if x \<ge> 0 then \<lfloor>x\<rfloor> else \<lceil>x\<rceil>)"

text \<open>\<open>round(x, n)\<close>: to the nearest multiple of \<open>10^-n\<close>, ties to even.\<close>

definition round_half_even :: "rat \<Rightarrow> int" where
  "round_half_even x =
     (let f = \<lfloor>x\<rfloor>; d = x - of_int f
      in if d < 1/2 then f else if d > 1/2 then f + 1 else if even f then f else f + 1)"

definition py_round :: "nat \<Rightarrow> rat \<Rightarrow> rat" where
  "py_round n x = of_int (round_half_even (x * 10 ^ n)) / 10 ^ n"

lemma round_half_even_bound:
  assumes "x \<le> of_int k"
  shows "round_half_even x \<le> k"
proof -
  have fl: "\<lfloor>x\<rfloor> \<le> k" using assms by (simp add: floor_le_iff)
  show ?thesis
  proof (cases "\<lfloor>x\<rfloor> = k")
    case True
    have "of_int \<lfloor>x\<rfloor> \<le> x" by simp
    with True assms have "x = of_int k" by simp
    then show ?thesis by (simp add: round_half_even_def)
  next
    case False
    with fl show ?thesis by (auto simp: round_half_even_def Let_def)
  qed
qed

lemma py_round_upper:
  assumes "x \<le> of_int k / 10 ^ n"
  shows "py_round n x \<le> of_int k / 10 ^ n"
proof -
  have "x * 10 ^ n \<le> of_int k" using assms by (simp add: field_simps)
  then have "round_half_even (x * 10 ^ n) \<le> k" by (rule round_half_even_bound)
  then have "(of_int (round_half_even (x * 10 ^ n)) :: rat) \<le> of_int k" by simp
  then show ?thesis unfolding py_round_def by (rule divide_right_mono) simp
qed

end
