(* ===== verification/Provider_Resilience.thy ===== *)
theory Provider_Resilience
  imports Amber_Prelude
begin

text \<open>
  \<open>providers/resilience.py\<close>: the circuit breaker of a model provider with its health tracker
  (sliding window of call results, health score), the registry of breakers, and the bulkhead.
  Every operation that reads the clock takes the reading as the argument \<open>now\<close>.
\<close>

section \<open>Circuit states and the health tracker\<close>

datatype circuit_state = CLOSED | OPEN | HALF_OPEN

record health_tracker =
  ht_name :: string
  ht_window :: nat
  ht_history :: "(timestamp \<times> bool \<times> pyfloat) list"
  ht_total_calls :: nat
  ht_total_failures :: nat
  ht_consecutive :: nat

definition new_health_tracker :: "string \<Rightarrow> health_tracker" where
  "new_health_tracker n = \<lparr>ht_name = n, ht_window = 50, ht_history = [], ht_total_calls = 0,
     ht_total_failures = 0, ht_consecutive = 0\<rparr>"

definition record_call :: "timestamp \<Rightarrow> bool \<Rightarrow> pyfloat \<Rightarrow> health_tracker \<Rightarrow> health_tracker" where
  "record_call now success latency_ms t =
     (let t = t\<lparr>ht_total_calls := ht_total_calls t + 1\<rparr>;
          t = (if success then t\<lparr>ht_consecutive := 0\<rparr>
               else t\<lparr>ht_total_failures := ht_total_failures t + 1,
                      ht_consecutive := ht_consecutive t + 1\<rparr>)
      in t\<lparr>ht_history := deque_push (ht_window t) (now, success, latency_ms) (ht_history t)\<rparr>)"

definition successes :: "health_tracker \<Rightarrow> nat" where
  "successes t = length (filter (\<lambda>(_, s, _). s) (ht_history t))"

definition sorted_latencies :: "health_tracker \<Rightarrow> pyfloat list" where
  "sorted_latencies t =
     sort (filter (\<lambda>l. l > 0) (map (\<lambda>(_, _, l). l) (ht_history t)))"

text \<open>\<open>latencies[int(len(latencies) * p)] if latencies else 0.0\<close>.\<close>

definition percentile :: "pyfloat \<Rightarrow> pyfloat list \<Rightarrow> pyfloat" where
  "percentile p ls = (if ls = [] then 0 else ls ! nat \<lfloor>of_nat (length ls) * p\<rfloor>)"

definition latency_penalty :: "health_tracker \<Rightarrow> pyfloat" where
  "latency_penalty t =
     (let p95 = percentile (95/100) (sorted_latencies t)
      in if p95 > 2000 then min (3/10) ((p95 - 2000) / 10000) else 0)"

definition compute_health_score :: "circuit_state \<Rightarrow> health_tracker \<Rightarrow> pyfloat" where
  "compute_health_score cs t =
     (if cs = OPEN then 0
      else if ht_history t = [] then (if cs = CLOSED then 1 else 1/2)
      else let success_rate = of_nat (successes t) / of_nat (length (ht_history t));
               consec_penalty = min (1/2) (of_nat (ht_consecutive t) * (1/10));
               base = success_rate - latency_penalty t - consec_penalty;
               base = (if cs = HALF_OPEN then min base (1/2) else base)
           in max 0 (min 1 (py_round 3 base)))"

record health_metrics =
  hm_circuit_state :: circuit_state
  hm_health_score :: pyfloat
  hm_total_calls :: nat
  hm_total_failures :: nat
  hm_consecutive :: nat
  hm_success_rate :: pyfloat
  hm_failure_rate :: pyfloat
  hm_p50 :: pyfloat
  hm_p95 :: pyfloat

definition tracker_success_rate :: "health_tracker \<Rightarrow> pyfloat" where
  "tracker_success_rate t =
     (if ht_history t = [] then 1
      else of_nat (successes t) / of_nat (length (ht_history t)))"

definition get_health_metrics :: "circuit_state \<Rightarrow> health_tracker \<Rightarrow> health_metrics" where
  "get_health_metrics cs t =
     \<lparr>hm_circuit_state = cs,
      hm_health_score = compute_health_score cs t,
      hm_total_calls = ht_total_calls t,
      hm_total_failures = ht_total_failures t,
      hm_consecutive = ht_consecutive t,
      hm_success_rate = py_round 3 (tracker_success_rate t),
      hm_failure_rate = py_round 3 (1 - tracker_success_rate t),
      hm_p50 = py_round 2 (percentile (1/2) (sorted_latencies t)),
      hm_p95 = py_round 2 (percentile (95/100) (sorted_latencies t))\<rparr>"

section \<open>The circuit breaker\<close>

record breaker =
  cb_name :: string
  cb_failure_threshold :: nat
  cb_recovery_timeout :: pyfloat
  cb_half_open_threshold :: nat
  cb_state :: circuit_state
  cb_failure_count :: nat
  cb_success_count :: nat
  cb_last_failure :: timestamp
  cb_tracker :: health_tracker

definition new_breaker :: "string \<Rightarrow> nat \<Rightarrow> pyfloat \<Rightarrow> nat \<Rightarrow> breaker" where
  "new_breaker n thr rec half =
     \<lparr>cb_name = n, cb_failure_threshold = thr, cb_recovery_timeout = rec,
      cb_half_open_threshold = half, cb_state = CLOSED, cb_failure_count = 0,
      cb_success_count = 0, cb_last_failure = 0, cb_tracker = new_health_tracker n\<rparr>"

text \<open>The \<open>state\<close> property: an open circuit reads as half-open once the cool-down has passed.\<close>

definition circuit_state_at :: "timestamp \<Rightarrow> breaker \<Rightarrow> circuit_state" where
  "circuit_state_at now b =
     (if cb_state b = OPEN \<and> now - cb_last_failure b \<ge> cb_recovery_timeout b
      then HALF_OPEN else cb_state b)"

definition health_score :: "timestamp \<Rightarrow> breaker \<Rightarrow> pyfloat" where
  "health_score now b = compute_health_score (circuit_state_at now b) (cb_tracker b)"

definition can_execute :: "timestamp \<Rightarrow> breaker \<Rightarrow> bool" where
  "can_execute now b = (circuit_state_at now b \<in> {CLOSED, HALF_OPEN})"

definition record_success :: "timestamp \<Rightarrow> pyfloat \<Rightarrow> breaker \<Rightarrow> breaker" where
  "record_success now latency b =
     (let b = b\<lparr>cb_tracker := record_call now True latency (cb_tracker b)\<rparr>;
          current = circuit_state_at now b
      in if current = HALF_OPEN then
           (let b = b\<lparr>cb_success_count := cb_success_count b + 1\<rparr>
            in if cb_success_count b \<ge> cb_half_open_threshold b
               then b\<lparr>cb_state := CLOSED, cb_failure_count := 0, cb_success_count := 0\<rparr>
               else b)
         else if current = CLOSED then b\<lparr>cb_failure_count := 0\<rparr>
         else b)"

definition record_failure :: "timestamp \<Rightarrow> pyfloat \<Rightarrow> breaker \<Rightarrow> breaker" where
  "record_failure now latency b =
     (let b = b\<lparr>cb_tracker := record_call now False latency (cb_tracker b),
                cb_last_failure := now,
                cb_failure_count := cb_failure_count b + 1,
                cb_success_count := 0\<rparr>;
          current = circuit_state_at now b
      in if current = HALF_OPEN \<or> cb_failure_count b \<ge> cb_failure_threshold b
         then b\<lparr>cb_state := OPEN\<rparr> else b)"

definition breaker_reset :: "breaker \<Rightarrow> breaker" where
  "breaker_reset b = b\<lparr>cb_state := CLOSED, cb_failure_count := 0, cb_success_count := 0,
     cb_last_failure := 0\<rparr>"

definition breaker_metrics :: "timestamp \<Rightarrow> breaker \<Rightarrow> health_metrics" where
  "breaker_metrics now b = get_health_metrics (circuit_state_at now b) (cb_tracker b)"

text \<open>
  \<open>call_async\<close>: the wrapped coroutine either returns a value or raises, at the time \<open>done\<close>; the
  fallback, when there is one, is a function of its own.
\<close>

datatype ('a, 'x) call_error = CircuitOpenError string pyfloat | Raised 'x

definition call_async ::
  "timestamp \<Rightarrow> timestamp \<Rightarrow> ('x + 'a) \<Rightarrow> ('x + 'a) option \<Rightarrow> breaker
     \<Rightarrow> (('a, 'x) call_error + 'a) \<times> breaker" where
  "call_async now done outcome fallback b =
     (if \<not> can_execute now b then
        (case fallback of
           Some (Inr v) \<Rightarrow> (Inr v, b)
         | Some (Inl x) \<Rightarrow> (Inl (Raised x), b)
         | None \<Rightarrow>
             (Inl (CircuitOpenError (cb_name b)
                     (max 0 (cb_recovery_timeout b - (now - cb_last_failure b)))), b))
      else
        (case outcome of
           Inr v \<Rightarrow> (Inr v, record_success done ((done - now) * 1000) b)
         | Inl x \<Rightarrow> (Inl (Raised x), record_failure done ((done - now) * 1000) b)))"

type_synonym breaker_registry = "(string, breaker) pydict"

definition get_circuit_breaker ::
  "string \<Rightarrow> nat \<Rightarrow> pyfloat \<Rightarrow> breaker_registry \<Rightarrow> breaker \<times> breaker_registry" where
  "get_circuit_breaker n thr rec reg =
     (case dget reg n of
        Some b \<Rightarrow> (b, reg)
      | None \<Rightarrow> (let b = new_breaker n thr rec 2 in (b, dset n b reg)))"

definition get_all_provider_health_metrics ::
  "timestamp \<Rightarrow> breaker_registry \<Rightarrow> (string, health_metrics) pydict" where
  "get_all_provider_health_metrics now reg = map (\<lambda>(n, b). (n, breaker_metrics now b)) reg"

section \<open>The bulkhead\<close>

record bulkhead =
  bh_max_concurrent :: nat
  bh_semaphore :: nat
  bh_active :: nat

datatype bulkhead_error = BulkheadExhausted

definition new_bulkhead :: "nat \<Rightarrow> bulkhead" where
  "new_bulkhead m = \<lparr>bh_max_concurrent = m, bh_semaphore = m, bh_active = 0\<rparr>"

text \<open>
  \<open>acquire\<close> checks the count, then awaits the semaphore: \<open>None\<close> is a call that waits (no permit
  left), which the invariant below rules out.
\<close>

definition bh_acquire :: "bulkhead \<Rightarrow> (bulkhead_error + bulkhead) option" where
  "bh_acquire h =
     (if bh_active h \<ge> bh_max_concurrent h then Some (Inl BulkheadExhausted)
      else if bh_semaphore h = 0 then None
      else Some (Inr (h\<lparr>bh_semaphore := bh_semaphore h - 1, bh_active := bh_active h + 1\<rparr>)))"

definition bh_release :: "bulkhead \<Rightarrow> bulkhead" where
  "bh_release h = h\<lparr>bh_active := bh_active h - 1, bh_semaphore := bh_semaphore h + 1\<rparr>"

section \<open>Invariants of the breaker\<close>

datatype breaker_event =
    Success timestamp pyfloat
  | Failure timestamp pyfloat
  | Reset

fun breaker_step :: "breaker_event \<Rightarrow> breaker \<Rightarrow> breaker" where
  "breaker_step (Success now l) b = record_success now l b"
| "breaker_step (Failure now l) b = record_failure now l b"
| "breaker_step Reset b = breaker_reset b"

text \<open>
  The stored state is never half-open, and an open circuit has reached the failure threshold:
  the fact that makes a failed probe trip the circuit again.
\<close>

definition breaker_inv :: "breaker \<Rightarrow> bool" where
  "breaker_inv b \<longleftrightarrow> cb_state b \<noteq> HALF_OPEN
     \<and> (cb_state b = OPEN \<longrightarrow> cb_failure_count b \<ge> cb_failure_threshold b)
     \<and> length (ht_history (cb_tracker b)) \<le> ht_window (cb_tracker b)
     \<and> ht_total_failures (cb_tracker b) \<le> ht_total_calls (cb_tracker b)
     \<and> ht_consecutive (cb_tracker b) \<le> ht_total_failures (cb_tracker b)"

lemmas breaker_ops = record_success_def record_failure_def breaker_reset_def record_call_def
  circuit_state_at_def Let_def

lemma new_breaker_inv: "breaker_inv (new_breaker n thr rec half)"
  by (simp add: new_breaker_def breaker_inv_def new_health_tracker_def)

lemma breaker_step_inv: "breaker_inv b \<Longrightarrow> breaker_inv (breaker_step e b)"
  by (cases e) (auto simp: breaker_inv_def breaker_ops length_deque_push)

interpretation breaker: measured_machine breaker_step breaker_inv
  "\<lambda>b. ht_total_calls (cb_tracker b)"
proof
  fix b e
  assume "breaker_inv b"
  then show "breaker_inv (breaker_step e b)" by (rule breaker_step_inv)
  show "ht_total_calls (cb_tracker b) \<le> ht_total_calls (cb_tracker (breaker_step e b))"
    by (cases e) (auto simp: breaker_ops)
qed

lemma breaker_threshold_step [simp]:
  "cb_failure_threshold (breaker_step e b) = cb_failure_threshold b"
  "cb_recovery_timeout (breaker_step e b) = cb_recovery_timeout b"
  "cb_half_open_threshold (breaker_step e b) = cb_half_open_threshold b"
  by (cases e; auto simp: breaker_ops)+

section \<open>Tripping, cooling down and recovering\<close>

lemma failure_run_count:
  "cb_failure_count (fold breaker_step (map (\<lambda>(t, l). Failure t l) fs) b)
     = cb_failure_count b + length fs"
  by (induction fs arbitrary: b) (auto simp: breaker_ops)

lemma closed_failures_below:
  assumes "cb_state b = CLOSED" and "cb_failure_count b + length fs < cb_failure_threshold b"
  shows "cb_state (fold breaker_step (map (\<lambda>(t, l). Failure t l) fs) b) = CLOSED"
  using assms
proof (induction fs arbitrary: b)
  case Nil
  then show ?case by simp
next
  case (Cons f fs)
  obtain t l where f: "f = (t, l)" by (cases f)
  have "cb_state (record_failure t l b) = CLOSED"
    using Cons.prems by (auto simp: breaker_ops)
  moreover have "cb_failure_count (record_failure t l b) + length fs
      < cb_failure_threshold (record_failure t l b)"
    using Cons.prems by (auto simp: breaker_ops)
  ultimately show ?case using Cons.IH f by simp
qed

lemma failure_opens:
  "breaker_inv b \<Longrightarrow> Suc (cb_failure_count b) \<ge> cb_failure_threshold b
    \<Longrightarrow> cb_state (record_failure t l b) = OPEN \<and> cb_last_failure (record_failure t l b) = t"
  by (auto simp: breaker_ops)

text \<open>
  C1. A closed circuit opens at exactly the configured number of consecutive failures: any
  shorter run of failures leaves it closed (calls pass), a run of that length leaves it open, and
  every call before the cool-down has passed since the last failure is rejected.
\<close>

theorem breaker_trips_at_threshold:
  assumes "cb_state b = CLOSED" and "cb_failure_count b = 0" and "breaker_inv b"
    and "0 < cb_failure_threshold b"
  shows "(length fs < cb_failure_threshold b \<longrightarrow>
            can_execute now (fold breaker_step (map (\<lambda>(t, l). Failure t l) fs) b))
       \<and> (Suc (length fs) = cb_failure_threshold b \<and> now - t < cb_recovery_timeout b \<longrightarrow>
            \<not> can_execute now (record_failure t l
                 (fold breaker_step (map (\<lambda>(t, l). Failure t l) fs) b)))"
proof (intro conjI impI)
  let ?b = "fold breaker_step (map (\<lambda>(t, l). Failure t l) fs) b"
  assume "length fs < cb_failure_threshold b"
  with assms have "cb_state ?b = CLOSED" by (intro closed_failures_below) simp_all
  then show "can_execute now ?b" by (simp add: can_execute_def circuit_state_at_def)
next
  let ?b = "fold breaker_step (map (\<lambda>(t, l). Failure t l) fs) b"
  assume len: "Suc (length fs) = cb_failure_threshold b \<and> now - t < cb_recovery_timeout b"
  have thr: "cb_failure_threshold ?b = cb_failure_threshold b"
    by (induction fs rule: rev_induct) auto
  have rt: "cb_recovery_timeout ?b = cb_recovery_timeout b"
    by (induction fs rule: rev_induct) auto
  have "Suc (cb_failure_count ?b) \<ge> cb_failure_threshold ?b"
    using len assms(2) by (simp add: failure_run_count thr)
  then have "cb_state (record_failure t l ?b) = OPEN" "cb_last_failure (record_failure t l ?b) = t"
    using failure_opens [OF breaker.run_inv [OF assms(3)]] by auto
  moreover have "cb_recovery_timeout (record_failure t l ?b) = cb_recovery_timeout b"
    using breaker_threshold_step(2) [of "Failure t l" ?b] rt by simp
  ultimately show "\<not> can_execute now (record_failure t l ?b)"
    using len by (simp add: can_execute_def circuit_state_at_def)
qed

theorem breaker_trips_at_threshold_witness:
  "can_execute 100 (fold breaker_step (map (\<lambda>(t, l). Failure t l) [(1, 5), (2, 5)])
       (new_breaker ''gpt'' 3 30 2))
   \<and> \<not> can_execute 20 (record_failure 3 5 (fold breaker_step
         (map (\<lambda>(t, l). Failure t l) [(1, 5), (2, 5)]) (new_breaker ''gpt'' 3 30 2)))"
proof -
  let ?b = "new_breaker ''gpt'' 3 30 2"
  have h: "cb_state ?b = CLOSED" "cb_failure_count ?b = 0" "breaker_inv ?b"
      "0 < cb_failure_threshold ?b"
    using new_breaker_inv by (simp_all add: new_breaker_def)
  show ?thesis
    using breaker_trips_at_threshold [OF h, of "[(1, 5), (2, 5)]" 100 0 0]
      breaker_trips_at_threshold [OF h, of "[(1, 5), (2, 5)]" 20 3 5]
    by (simp add: new_breaker_def)
qed

abbreviation probes :: "(timestamp \<times> pyfloat) list \<Rightarrow> breaker \<Rightarrow> breaker" where
  "probes ss b \<equiv> fold breaker_step (map (\<lambda>(t, l). Success t l) ss) b"

lemma probe_success:
  assumes "cb_state b = OPEN" and "t - cb_last_failure b \<ge> cb_recovery_timeout b"
  shows "Suc (cb_success_count b) < cb_half_open_threshold b \<Longrightarrow>
      cb_state (record_success t l b) = OPEN \<and> cb_last_failure (record_success t l b) = cb_last_failure b
      \<and> cb_success_count (record_success t l b) = Suc (cb_success_count b)
      \<and> cb_half_open_threshold (record_success t l b) = cb_half_open_threshold b
      \<and> cb_recovery_timeout (record_success t l b) = cb_recovery_timeout b"
    and "Suc (cb_success_count b) \<ge> cb_half_open_threshold b \<Longrightarrow>
      cb_state (record_success t l b) = CLOSED \<and> cb_failure_count (record_success t l b) = 0
      \<and> cb_success_count (record_success t l b) = 0"
  using assms by (auto simp: breaker_ops)

lemma probes_below:
  assumes "cb_state b = OPEN" and "\<forall>(t, l) \<in> set ss. t - cb_last_failure b \<ge> cb_recovery_timeout b"
    and "cb_success_count b + length ss < cb_half_open_threshold b"
  shows "cb_state (probes ss b) = OPEN \<and> cb_last_failure (probes ss b) = cb_last_failure b
    \<and> cb_success_count (probes ss b) = cb_success_count b + length ss
    \<and> cb_half_open_threshold (probes ss b) = cb_half_open_threshold b
    \<and> cb_recovery_timeout (probes ss b) = cb_recovery_timeout b"
  using assms
proof (induction ss arbitrary: b)
  case (Cons p ss)
  obtain t l where p: "p = (t, l)" by (cases p)
  have "Suc (cb_success_count b) < cb_half_open_threshold b" "t - cb_last_failure b \<ge> cb_recovery_timeout b"
    using Cons.prems p by auto
  from probe_success(1) [OF Cons.prems(1) this(2,1), of l] Cons.IH [of "record_success t l b"] Cons.prems p
  show ?case by simp
qed simp

lemma probes_enough:
  assumes "cb_state b = OPEN" and "\<forall>(t, l) \<in> set ss. t - cb_last_failure b \<ge> cb_recovery_timeout b"
    and "ss \<noteq> []" and "cb_success_count b + length ss = cb_half_open_threshold b"
  shows "cb_state (probes ss b) = CLOSED \<and> cb_failure_count (probes ss b) = 0 \<and> cb_success_count (probes ss b) = 0"
proof -
  obtain xs t l where ss: "ss = xs @ [(t, l)]" using assms(3) by (metis rev_exhaust surj_pair)
  have below: "\<forall>(t, l) \<in> set xs. t - cb_last_failure b \<ge> cb_recovery_timeout b"
    "cb_success_count b + length xs < cb_half_open_threshold b" using assms(2,4) ss by auto
  note pb = probes_below [OF assms(1) below]
  have "t - cb_last_failure (probes xs b) \<ge> cb_recovery_timeout (probes xs b)"
    "Suc (cb_success_count (probes xs b)) \<ge> cb_half_open_threshold (probes xs b)" using pb assms(2,4) ss by auto
  from probe_success(2) [OF _ this, of l] pb show ?thesis by (simp add: ss)
qed

text \<open>
  C3. Recovery from an open circuit goes through probes. In every reachable state in which the circuit reads
  half-open: a failed probe opens it for exactly one further cool-down, after which it is half-open again and
  no successful probe is counted any more; successful probes are counted, the circuit stays half-open while
  they are fewer than the half-open threshold, and the one that reaches the threshold closes it with both
  counters at zero. In a closed circuit a success sets the count of consecutive failures back to zero.
\<close>

theorem breaker_probe_outcomes:
  fixes b0 :: breaker and es :: "breaker_event list"
  defines "b \<equiv> fold breaker_step es b0"
  assumes "breaker_inv b0" and "circuit_state_at now b = HALF_OPEN"
  shows "(\<forall>later. circuit_state_at later (record_failure now l b)
            = (if later - now < cb_recovery_timeout b then OPEN else HALF_OPEN))
       \<and> cb_success_count (record_failure now l b) = 0
       \<and> (\<forall>ss later. (\<forall>(t, l) \<in> set ss. t \<ge> now) \<and> later \<ge> now
            \<and> cb_success_count b + length ss < cb_half_open_threshold b \<longrightarrow>
            circuit_state_at later (probes ss b) = HALF_OPEN
            \<and> cb_success_count (probes ss b) = cb_success_count b + length ss)
       \<and> (\<forall>ss later. (\<forall>(t, l) \<in> set ss. t \<ge> now) \<and> ss \<noteq> []
            \<and> cb_success_count b + length ss = cb_half_open_threshold b \<longrightarrow>
            circuit_state_at later (probes ss b) = CLOSED
            \<and> cb_failure_count (probes ss b) = 0 \<and> cb_success_count (probes ss b) = 0)
       \<and> (\<forall>c later. cb_state c = CLOSED \<longrightarrow> circuit_state_at later (record_success now l c) = CLOSED
            \<and> cb_failure_count (record_success now l c) = 0)"
proof -
  have inv: "breaker_inv b" unfolding b_def using assms(2) by (rule breaker.run_inv)
  have op: "cb_state b = OPEN" "now - cb_last_failure b \<ge> cb_recovery_timeout b" using inv assms(3)
    by (auto simp: circuit_state_at_def breaker_inv_def split: if_splits)
  have full: "cb_failure_count b \<ge> cb_failure_threshold b"
    using inv op by (simp add: breaker_inv_def)
  have trip: "cb_state (record_failure now l b) = OPEN" "cb_last_failure (record_failure now l b) = now"
    "cb_recovery_timeout (record_failure now l b) = cb_recovery_timeout b"
    using failure_opens [OF inv] full breaker_threshold_step(2) [of "Failure now l" b] by auto
  have late: "\<forall>(t, l) \<in> set ss. t - cb_last_failure b \<ge> cb_recovery_timeout b"
    if "\<forall>(t, l) \<in> set ss. t \<ge> now" for ss :: "(timestamp \<times> pyfloat) list" using that op(2) by fastforce
  have below: "circuit_state_at later (probes ss b) = HALF_OPEN
      \<and> cb_success_count (probes ss b) = cb_success_count b + length ss"
    if "\<forall>(t, l) \<in> set ss. t \<ge> now" "later \<ge> now" "cb_success_count b + length ss < cb_half_open_threshold b" for ss later
    using probes_below [OF op(1) late [OF that(1)] that(3)] op(2) that(2) by (simp add: circuit_state_at_def)
  have enough: "circuit_state_at later (probes ss b) = CLOSED \<and> cb_failure_count (probes ss b) = 0 \<and> cb_success_count (probes ss b) = 0"
    if "\<forall>(t, l) \<in> set ss. t \<ge> now" "ss \<noteq> []" "cb_success_count b + length ss = cb_half_open_threshold b" for ss later
    using probes_enough [OF op(1) late [OF that(1)] that(2,3)] by (simp add: circuit_state_at_def)
  have "cb_success_count (record_failure now l b) = 0" by (simp add: breaker_ops)
  moreover have "\<forall>later. circuit_state_at later (record_failure now l b)
      = (if later - now < cb_recovery_timeout b then OPEN else HALF_OPEN)"
    using trip by (simp add: circuit_state_at_def)
  moreover have "\<forall>c later. cb_state c = CLOSED \<longrightarrow> circuit_state_at later (record_success now l c) = CLOSED
      \<and> cb_failure_count (record_success now l c) = 0" by (simp add: breaker_ops)
  ultimately show ?thesis using below enough by blast
qed

text \<open>Two failures open the circuit; at time 40 two successful probes close it, and one failed probe does not.\<close>

theorem breaker_probe_outcomes_witness:
  "let b = fold breaker_step [Failure 1 5, Failure 2 5] (new_breaker ''gpt'' 2 30 2) in
     circuit_state_at 69 (record_failure 40 7 b) = OPEN \<and> circuit_state_at 70 (record_failure 40 7 b) = HALF_OPEN
     \<and> circuit_state_at 50 (probes [(41, 1)] b) = HALF_OPEN \<and> circuit_state_at 50 (probes [(41, 1), (42, 1)] b) = CLOSED"
proof -
  let ?es = "[Failure 1 5, Failure 2 5]" and ?b = "new_breaker ''gpt'' 2 30 2"
  have h: "circuit_state_at 40 (fold breaker_step ?es ?b) = HALF_OPEN"
    and f: "cb_recovery_timeout (fold breaker_step ?es ?b) = 30" "cb_success_count (fold breaker_step ?es ?b) = 0"
      "cb_half_open_threshold (fold breaker_step ?es ?b) = 2"
    by (simp_all add: breaker_ops new_breaker_def)
  note t = breaker_probe_outcomes [OF new_breaker_inv h, of 7, unfolded f]
  have "circuit_state_at 69 (record_failure 40 7 (fold breaker_step ?es ?b)) = OPEN"
    "circuit_state_at 70 (record_failure 40 7 (fold breaker_step ?es ?b)) = HALF_OPEN"
    using conjunct1 [OF t, rule_format, of 69] conjunct1 [OF t, rule_format, of 70] by simp_all
  moreover have "circuit_state_at 50 (probes [(41, 1)] (fold breaker_step ?es ?b)) = HALF_OPEN"
    using conjunct1 [OF conjunct2 [OF conjunct2 [OF t]], rule_format, of "[(41, 1)]" 50] by simp
  moreover have "circuit_state_at 50 (probes [(41, 1), (42, 1)] (fold breaker_step ?es ?b)) = CLOSED"
    using conjunct1 [OF conjunct2 [OF conjunct2 [OF conjunct2 [OF t]]], rule_format, of "[(41, 1), (42, 1)]" 50] by simp
  ultimately show ?thesis by (simp only: Let_def)
qed

section \<open>The health score\<close>

text \<open>
  The health score is a number between 0 and 1, it is 0 for an open circuit and never above
  one half for a circuit that is being probed, whatever the recorded calls and the rounding.
\<close>

theorem health_score_bounds:
  "0 \<le> compute_health_score cs t \<and> compute_health_score cs t \<le> 1
   \<and> compute_health_score OPEN t = 0 \<and> compute_health_score HALF_OPEN t \<le> 1/2"
proof -
  have half: "py_round 3 (min x (1/2)) \<le> 1/2" for x
    using py_round_upper [of "min x (1/2)" 500 3] by simp
  have clip: "x \<le> 1/2 \<Longrightarrow> max 0 (min 1 x) \<le> 1/2" for x :: rat by simp
  have "compute_health_score HALF_OPEN t \<le> 1/2"
    unfolding compute_health_score_def Let_def using clip [OF half] by simp
  then show ?thesis by (simp add: compute_health_score_def Let_def)
qed

section \<open>The bulkhead\<close>

definition bulkhead_inv :: "bulkhead \<Rightarrow> bool" where
  "bulkhead_inv h \<longleftrightarrow> bh_semaphore h + bh_active h = bh_max_concurrent h"

fun bulkhead_step :: "bool \<Rightarrow> bulkhead \<Rightarrow> bulkhead" where
  "bulkhead_step True h = (case bh_acquire h of Some (Inr h') \<Rightarrow> h' | _ \<Rightarrow> h)"
| "bulkhead_step False h = (if bh_active h = 0 then h else bh_release h)"

lemma bulkhead_step_inv: "bulkhead_inv h \<Longrightarrow> bulkhead_inv (bulkhead_step a h)"
  by (cases a) (auto simp: bulkhead_inv_def bh_acquire_def bh_release_def)

interpretation bulkhead: machine bulkhead_step bulkhead_inv
  by unfold_locales (rule bulkhead_step_inv)

lemma new_bulkhead_inv: "bulkhead_inv (new_bulkhead m)"
  by (simp add: new_bulkhead_def bulkhead_inv_def)

lemma bulkhead_max_step: "bh_max_concurrent (bulkhead_step a h) = bh_max_concurrent h"
  by (cases a) (auto simp: bh_acquire_def bh_release_def split: option.splits sum.splits)

lemma bulkhead_max_run: "bh_max_concurrent (fold bulkhead_step as h) = bh_max_concurrent h"
  by (induction as arbitrary: h) (auto simp: bulkhead_max_step)

text \<open>
  Along every sequence of acquisitions and matching releases, at most the configured number
  of calls is active, and an acquisition either succeeds at once or raises \<open>BulkheadExhausted\<close>:
  it never waits on the semaphore.
\<close>

theorem bulkhead_never_waits:
  "bh_active (fold bulkhead_step as (new_bulkhead m)) \<le> m
   \<and> bh_acquire (fold bulkhead_step as (new_bulkhead m)) \<noteq> None"
proof -
  have "bulkhead_inv (fold bulkhead_step as (new_bulkhead m))"
    by (rule bulkhead.run_inv [OF new_bulkhead_inv])
  moreover have "bh_max_concurrent (fold bulkhead_step as (new_bulkhead m)) = m"
    by (simp add: bulkhead_max_run) (simp add: new_bulkhead_def)
  ultimately show ?thesis by (auto simp: bulkhead_inv_def bh_acquire_def)
qed

end
