(* ===== verification/Resilient_Cache.thy ===== *)
theory Resilient_Cache
  imports Amber_Prelude
begin

text \<open>
  \<open>cache/resilience.py\<close>: the two-tier cache. The L1 tier is an ordered dictionary with least
  recently used eviction and a tag index; the L2 tier is a Redis server, which is not part of the
  repository and is a parameter: its commands are functions on an opaque server state that may
  fail. The clock readings of one call are one instant \<open>now\<close>. The order in which a Python set is
  iterated is left open by the language; deletions of a tag's keys are issued in sorted order.
\<close>

datatype cache_state = NORMAL | DEGRADED | RECOVERING

record cache_entry =
  ce_key :: string
  ce_value :: json
  ce_created :: timestamp
  ce_ttl :: "pyfloat option"
  ce_tags :: "string set"

definition new_entry :: "timestamp \<Rightarrow> string \<Rightarrow> json \<Rightarrow> pyfloat option \<Rightarrow> string set \<Rightarrow> cache_entry" where
  "new_entry now k v ttl ts = \<lparr>ce_key = k, ce_value = v, ce_created = now, ce_ttl = ttl, ce_tags = ts\<rparr>"

definition entry_expired :: "timestamp \<Rightarrow> cache_entry \<Rightarrow> bool" where
  "entry_expired now e = (case ce_ttl e of None \<Rightarrow> False | Some ttl \<Rightarrow> now - ce_created e \<ge> ttl)"

text \<open>The Redis commands the cache uses: \<open>False\<close> and \<open>Inl ()\<close> are an exception of the client.\<close>

record 'r redis_api =
  rd_set :: "string \<Rightarrow> json \<times> string set \<Rightarrow> int option \<Rightarrow> 'r \<Rightarrow> bool \<times> 'r"
  rd_get :: "string \<Rightarrow> 'r \<Rightarrow> (unit + (json \<times> string set) option) \<times> 'r"
  rd_delete :: "string \<Rightarrow> 'r \<Rightarrow> bool \<times> 'r"

type_synonym tag_index = "string \<Rightarrow> string set option"
type_synonym l1_tier = "(string, cache_entry) pydict"

record 'r cache =
  cm_redis :: "'r option"
  cm_max_l1 :: int
  cm_threshold :: int
  cm_probe_interval :: pyfloat
  cm_l1 :: l1_tier
  cm_tags :: tag_index
  cm_state :: cache_state
  cm_failures :: int
  cm_last_failure :: timestamp
  cm_hits :: nat
  cm_misses :: nat
  cm_l1_hits :: nat
  cm_l2_hits :: nat
  cm_redis_errors :: nat
  cm_fallbacks :: nat
  cm_invalidations :: nat

definition new_cache :: "'r option \<Rightarrow> int \<Rightarrow> int \<Rightarrow> pyfloat \<Rightarrow> 'r cache" where
  "new_cache r mx thr probe =
     \<lparr>cm_redis = r, cm_max_l1 = mx, cm_threshold = thr, cm_probe_interval = probe, cm_l1 = [],
      cm_tags = (\<lambda>_. None), cm_state = (if r = None then DEGRADED else NORMAL), cm_failures = 0,
      cm_last_failure = 0, cm_hits = 0, cm_misses = 0, cm_l1_hits = 0, cm_l2_hits = 0,
      cm_redis_errors = 0, cm_fallbacks = 0, cm_invalidations = 0\<rparr>"

definition on_redis_failure :: "timestamp \<Rightarrow> 'r cache \<Rightarrow> 'r cache" where
  "on_redis_failure now c =
     (let c = c\<lparr>cm_redis_errors := cm_redis_errors c + 1, cm_failures := cm_failures c + 1,
                cm_last_failure := now\<rparr>
      in if cm_failures c \<ge> cm_threshold c \<and> cm_state c \<noteq> DEGRADED
         then c\<lparr>cm_state := DEGRADED, cm_fallbacks := cm_fallbacks c + 1\<rparr> else c)"

definition on_redis_success :: "'r cache \<Rightarrow> 'r cache" where
  "on_redis_success c =
     (if cm_state c = DEGRADED \<or> cm_failures c > 0
      then c\<lparr>cm_state := NORMAL, cm_failures := 0\<rparr> else c)"

section \<open>The tag index\<close>

definition index_add :: "string \<Rightarrow> string set \<Rightarrow> tag_index \<Rightarrow> tag_index" where
  "index_add k ts idx =
     (\<lambda>t. if t \<in> ts then Some (insert k (case idx t of None \<Rightarrow> {} | Some s \<Rightarrow> s)) else idx t)"

definition index_discard :: "string \<Rightarrow> string set \<Rightarrow> tag_index \<Rightarrow> tag_index" where
  "index_discard k ts idx =
     (\<lambda>t. if t \<in> ts then map_option (\<lambda>s. s - {k}) (idx t) else idx t)"

text \<open>Eviction also drops a tag whose set of keys became empty.\<close>

definition index_prune :: "string \<Rightarrow> string set \<Rightarrow> tag_index \<Rightarrow> tag_index" where
  "index_prune k ts idx =
     (\<lambda>t. if t \<in> ts then (case idx t of None \<Rightarrow> None
                           | Some s \<Rightarrow> if s - {k} = {} then None else Some (s - {k}))
           else idx t)"

text \<open>
  \<open>_evict_l1_lru_if_needed\<close>: pop the oldest entry while the tier is full. With a capacity that is
  not positive the loop pops from the empty dictionary, which raises: the flag is \<open>False\<close>.
\<close>

fun evict_l1 :: "int \<Rightarrow> l1_tier \<Rightarrow> tag_index \<Rightarrow> bool \<times> l1_tier \<times> tag_index" where
  "evict_l1 mx [] idx = (0 < mx, [], idx)"
| "evict_l1 mx ((k, e) # l1) idx =
     (if int (length ((k, e) # l1)) \<ge> mx then evict_l1 mx l1 (index_prune k (ce_tags e) idx)
      else (True, (k, e) # l1, idx))"

section \<open>Operations\<close>

definition l1_insert :: "string \<Rightarrow> cache_entry \<Rightarrow> string set \<Rightarrow> 'r cache \<Rightarrow> 'r cache" where
  "l1_insert k e ts c =
     c\<lparr>cm_l1 := dset k e (cm_l1 c), cm_tags := index_add k ts (cm_tags c)\<rparr>"

text \<open>The L2 half of \<open>set\<close>: nothing without a client or in the degraded state.\<close>

definition l2_store ::
  "'r redis_api \<Rightarrow> timestamp \<Rightarrow> string \<Rightarrow> json \<Rightarrow> pyfloat option \<Rightarrow> string set \<Rightarrow> 'r cache \<Rightarrow> 'r cache" where
  "l2_store api now k v ttl ts c =
     (case cm_redis c of
        None \<Rightarrow> c
      | Some r \<Rightarrow>
          if cm_state c = DEGRADED then c
          else (let ex = (case ttl of None \<Rightarrow> None | Some t \<Rightarrow> if t = 0 then None else Some (py_int t));
                    (ok, r') = rd_set api k (v, ts) ex r;
                    c = c\<lparr>cm_redis := Some r'\<rparr>
                in if ok then on_redis_success c else on_redis_failure now c))"

text \<open>\<open>set\<close>: the flag is \<open>False\<close> when the call raises (capacity not positive).\<close>

definition cache_set ::
  "'r redis_api \<Rightarrow> timestamp \<Rightarrow> string \<Rightarrow> json \<Rightarrow> pyfloat option \<Rightarrow> string set \<Rightarrow> 'r cache
     \<Rightarrow> bool \<times> 'r cache" where
  "cache_set api now k v ttl ts c =
     (let e = new_entry now k v ttl ts;
          (ok, l1, idx) = (if dhas (cm_l1 c) k then (True, dpop k (cm_l1 c), cm_tags c)
                           else evict_l1 (cm_max_l1 c) (cm_l1 c) (cm_tags c));
          c = c\<lparr>cm_l1 := l1, cm_tags := idx\<rparr>
      in if ok then (True, l2_store api now k v ttl ts (l1_insert k e ts c)) else (False, c))"

text \<open>The L1 half of \<open>get\<close>: a live hit moves to the end, an expired entry is dropped.\<close>

definition l1_lookup :: "timestamp \<Rightarrow> string \<Rightarrow> 'r cache \<Rightarrow> json option \<times> 'r cache" where
  "l1_lookup now k c =
     (case dget (cm_l1 c) k of
        None \<Rightarrow> (None, c)
      | Some e \<Rightarrow>
          if entry_expired now e
          then (None, c\<lparr>cm_l1 := dpop k (cm_l1 c),
                        cm_tags := index_discard k (ce_tags e) (cm_tags c)\<rparr>)
          else (Some (ce_value e),
                c\<lparr>cm_l1 := dset k e (dpop k (cm_l1 c)),
                  cm_hits := cm_hits c + 1, cm_l1_hits := cm_l1_hits c + 1\<rparr>))"

text \<open>Promotion of an L2 hit: the new L1 entry carries no time to live.\<close>

definition promote :: "timestamp \<Rightarrow> string \<Rightarrow> json \<Rightarrow> string set \<Rightarrow> 'r cache \<Rightarrow> bool \<times> 'r cache" where
  "promote now k v ts c =
     (let (ok, l1, idx) = evict_l1 (cm_max_l1 c) (cm_l1 c) (cm_tags c);
          c = c\<lparr>cm_l1 := l1, cm_tags := idx\<rparr>
      in if ok then (True, l1_insert k (new_entry now k v None ts) ts c) else (False, c))"

text \<open>A degraded cache whose probe interval has passed starts to recover.\<close>

definition enter_probe :: "timestamp \<Rightarrow> 'r cache \<Rightarrow> 'r cache" where
  "enter_probe now c =
     (if cm_state c = DEGRADED \<and> now - cm_last_failure c > cm_probe_interval c
      then c\<lparr>cm_state := RECOVERING\<rparr> else c)"

text \<open>What the answer of the server does: an exception, a miss, or a hit that is promoted.\<close>

definition l2_answer ::
  "timestamp \<Rightarrow> string \<Rightarrow> unit + (json \<times> string set) option \<Rightarrow> 'r cache \<Rightarrow> json option \<times> 'r cache" where
  "l2_answer now k res c =
     (case res of
        Inl _ \<Rightarrow> (None, on_redis_failure now c)
      | Inr None \<Rightarrow> (None, c)
      | Inr (Some (v, ts)) \<Rightarrow>
          (let (ok, c) = promote now k v ts c
           in if ok then
                (Some v, on_redis_success
                   (c\<lparr>cm_hits := cm_hits c + 1, cm_l2_hits := cm_l2_hits c + 1\<rparr>))
              else (None, on_redis_failure now c)))"

definition l2_lookup ::
  "'r redis_api \<Rightarrow> timestamp \<Rightarrow> string \<Rightarrow> 'r cache \<Rightarrow> json option \<times> 'r cache" where
  "l2_lookup api now k c =
     (case cm_redis c of
        None \<Rightarrow> (None, c)
      | Some r \<Rightarrow>
          (let (res, r') = rd_get api k r
           in l2_answer now k res ((enter_probe now c)\<lparr>cm_redis := Some r'\<rparr>)))"

text \<open>\<open>get\<close> returns \<open>None\<close> both for a miss and for a stored \<open>None\<close>: here \<open>JNull\<close>.\<close>

definition cache_get :: "'r redis_api \<Rightarrow> timestamp \<Rightarrow> string \<Rightarrow> 'r cache \<Rightarrow> json \<times> 'r cache" where
  "cache_get api now k c =
     (case l1_lookup now k c of
        (Some v, c) \<Rightarrow> (v, c)
      | (None, c) \<Rightarrow>
          (case l2_lookup api now k c of
             (Some v, c) \<Rightarrow> (v, c)
           | (None, c) \<Rightarrow> (JNull, c\<lparr>cm_misses := cm_misses c + 1\<rparr>)))"

definition redis_delete :: "'r redis_api \<Rightarrow> timestamp \<Rightarrow> string \<Rightarrow> 'r cache \<Rightarrow> 'r cache" where
  "redis_delete api now k c =
     (case cm_redis c of
        None \<Rightarrow> c
      | Some r \<Rightarrow> (let (ok, r') = rd_delete api k r; c = c\<lparr>cm_redis := Some r'\<rparr>
                   in if ok then c else on_redis_failure now c))"

definition l1_drop :: "string \<Rightarrow> 'r cache \<Rightarrow> 'r cache" where
  "l1_drop k c =
     (case dget (cm_l1 c) k of
        None \<Rightarrow> c
      | Some e \<Rightarrow> c\<lparr>cm_l1 := dpop k (cm_l1 c),
                     cm_tags := index_discard k (ce_tags e) (cm_tags c)\<rparr>)"

definition invalidate :: "'r redis_api \<Rightarrow> timestamp \<Rightarrow> string \<Rightarrow> 'r cache \<Rightarrow> 'r cache" where
  "invalidate api now k c =
     (let c = l1_drop k c in
      redis_delete api now k (c\<lparr>cm_invalidations := cm_invalidations c + 1\<rparr>))"

definition invalidate_by_tag ::
  "'r redis_api \<Rightarrow> timestamp \<Rightarrow> string \<Rightarrow> 'r cache \<Rightarrow> nat \<times> 'r cache" where
  "invalidate_by_tag api now t c =
     (case cm_tags c t of
        None \<Rightarrow> (0, c)
      | Some ks \<Rightarrow>
          (let l1 = filter (\<lambda>(k, _). k \<notin> ks) (cm_l1 c);
               evicted = length (cm_l1 c) - length l1;
               c = c\<lparr>cm_l1 := l1, cm_tags := (cm_tags c)(t := None)\<rparr>;
               c = fold (redis_delete api now) (sorted_list_of_set ks) c
           in (evicted, c\<lparr>cm_invalidations := cm_invalidations c + evicted\<rparr>)))"

text \<open>The deletions of a prefix stop at the first Redis error.\<close>

fun redis_delete_all :: "'r redis_api \<Rightarrow> timestamp \<Rightarrow> string list \<Rightarrow> 'r \<Rightarrow> bool \<times> 'r" where
  "redis_delete_all api now [] r = (True, r)"
| "redis_delete_all api now (k # ks) r =
     (case rd_delete api k r of (True, r') \<Rightarrow> redis_delete_all api now ks r' | (False, r') \<Rightarrow> (False, r'))"

definition invalidate_prefix ::
  "'r redis_api \<Rightarrow> timestamp \<Rightarrow> string \<Rightarrow> 'r cache \<Rightarrow> nat \<times> 'r cache" where
  "invalidate_prefix api now p c =
     (let ks = filter (\<lambda>k. startswith k p) (dkeys (cm_l1 c));
          c = fold l1_drop ks c;
          c = (case cm_redis c of
                 None \<Rightarrow> c
               | Some r \<Rightarrow> (let (ok, r') = redis_delete_all api now ks r;
                                c = c\<lparr>cm_redis := Some r'\<rparr>
                            in if ok then c else on_redis_failure now c))
      in (length ks, c\<lparr>cm_invalidations := cm_invalidations c + length ks\<rparr>))"

definition get_or_compute ::
  "'r redis_api \<Rightarrow> timestamp \<Rightarrow> string \<Rightarrow> ('x + json) \<Rightarrow> pyfloat option \<Rightarrow> string set \<Rightarrow> 'r cache
     \<Rightarrow> ('x option + json) \<times> 'r cache" where
  "get_or_compute api now k computed ttl ts c =
     (let (v, c) = cache_get api now k c
      in if v \<noteq> JNull then (Inr v, c)
         else case computed of
                Inl x \<Rightarrow> (Inl (Some x), c)
              | Inr v \<Rightarrow> (case cache_set api now k v ttl ts c of
                            (True, c) \<Rightarrow> (Inr v, c)
                          | (False, c) \<Rightarrow> (Inl None, c)))"

definition cache_clear :: "'r cache \<Rightarrow> 'r cache" where
  "cache_clear c = c\<lparr>cm_l1 := [], cm_tags := (\<lambda>_. None)\<rparr>"

section \<open>Invariant: capacity and a complete tag index\<close>

definition tags_indexed :: "l1_tier \<Rightarrow> tag_index \<Rightarrow> bool" where
  "tags_indexed l1 idx \<longleftrightarrow>
     (\<forall>(k, e) \<in> set l1. \<forall>t \<in> ce_tags e. \<exists>s. idx t = Some s \<and> k \<in> s)"

definition tier_ok :: "int \<Rightarrow> l1_tier \<Rightarrow> tag_index \<Rightarrow> bool" where
  "tier_ok mx l1 idx \<longleftrightarrow> dict_ok l1 \<and> tags_indexed l1 idx \<and> int (length l1) \<le> mx"

definition cache_inv :: "'r cache \<Rightarrow> bool" where
  "cache_inv c \<longleftrightarrow> 0 < cm_max_l1 c \<and> tier_ok (cm_max_l1 c) (cm_l1 c) (cm_tags c)"

lemma tier_ok_nil [simp]: "0 \<le> mx \<Longrightarrow> tier_ok mx [] idx"
  by (simp add: tier_ok_def tags_indexed_def)

lemma tier_ok_tail:
  assumes "tier_ok mx ((k, e) # l1) idx"
  shows "tier_ok mx l1 (index_prune k (ce_tags e) idx)"
proof -
  have "tags_indexed l1 (index_prune k (ce_tags e) idx)"
    unfolding tags_indexed_def
  proof (clarify)
    fix k' e' t
    assume mem: "(k', e') \<in> set l1" and t: "t \<in> ce_tags e'"
    then obtain s where s: "idx t = Some s" "k' \<in> s"
      using assms by (fastforce simp: tier_ok_def tags_indexed_def)
    have "k' \<noteq> k" using assms mem by (force simp: tier_ok_def dict_ok_def)
    with s show "\<exists>s. index_prune k (ce_tags e) idx t = Some s \<and> k' \<in> s"
      by (auto simp: index_prune_def)
  qed
  then show ?thesis using assms by (simp add: tier_ok_def dict_ok_def)
qed

lemma tier_ok_drop:
  "tier_ok mx l1 idx \<Longrightarrow> tier_ok mx (dpop k l1) (index_discard k ts idx)"
  unfolding tier_ok_def
proof (intro conjI)
  assume t: "dict_ok l1 \<and> tags_indexed l1 idx \<and> int (length l1) \<le> mx"
  then show "dict_ok (dpop k l1)" by simp
  have "int (length (dpop k l1)) \<le> int (length l1)" by (simp add: length_delete_le)
  with t show "int (length (dpop k l1)) \<le> mx" by linarith
  show "tags_indexed (dpop k l1) (index_discard k ts idx)"
    using t by (fastforce simp: tags_indexed_def index_discard_def set_dpop)
qed

lemma tier_ok_dpop: "tier_ok mx l1 idx \<Longrightarrow> tier_ok mx (dpop k l1) idx"
  using tier_ok_drop [of mx l1 idx k "{}"] by (simp add: index_discard_def)

lemma tier_ok_insert:
  assumes "tier_ok mx l1 idx" and "int (length l1) < mx \<or> dhas l1 k"
  shows "tier_ok mx (dset k e l1) (index_add k (ce_tags e) idx)"
  unfolding tier_ok_def
proof (intro conjI)
  from assms(1) have ok: "dict_ok l1" and ti: "tags_indexed l1 idx" and le: "int (length l1) \<le> mx"
    by (auto simp: tier_ok_def)
  from ok show ok': "dict_ok (dset k e l1)" by simp
  from le assms(2) show "int (length (dset k e l1)) \<le> mx" by (auto simp: length_dset)
  show "tags_indexed (dset k e l1) (index_add k (ce_tags e) idx)"
    unfolding tags_indexed_def
  proof (clarify)
    fix k' e' t
    assume mem: "(k', e') \<in> set (dset k e l1)" and t: "t \<in> ce_tags e'"
    then have "dget (dset k e l1) k' = Some e'" using dict_ok_dget_iff [OF ok'] by blast
    then show "\<exists>s. index_add k (ce_tags e) idx t = Some s \<and> k' \<in> s"
      using ti t dict_ok_dget_iff [OF ok]
      by (fastforce simp: tags_indexed_def index_add_def split: if_splits option.splits)
  qed
qed

lemma evict_l1_ok:
  assumes "tier_ok mx l1 idx" and "0 < mx" and "evict_l1 mx l1 idx = (ok, l1', idx')"
  shows "ok \<and> tier_ok mx l1' idx' \<and> int (length l1') < mx"
  using assms
proof (induction mx l1 idx rule: evict_l1.induct)
  case (1 mx idx)
  then show ?case by auto
next
  case (2 mx k e l1 idx)
  show ?case
  proof (cases "int (length ((k, e) # l1)) \<ge> mx")
    case True
    with "2.prems" have "evict_l1 mx l1 (index_prune k (ce_tags e) idx) = (ok, l1', idx')" by simp
    then show ?thesis using "2.IH" [OF True tier_ok_tail [OF "2.prems"(1)] "2.prems"(2)] by blast
  next
    case False
    with "2.prems" show ?thesis by auto
  qed
qed

lemma tier_ok_filter: "tier_ok mx l1 idx \<Longrightarrow> idx t = Some ks \<Longrightarrow>
    tier_ok mx (filter (\<lambda>(k, _). k \<notin> ks) l1) (idx(t := None))"
proof -
  assume t: "tier_ok mx l1 idx" and ks: "idx t = Some ks"
  have "dict_ok (filter (\<lambda>(k, _). k \<notin> ks) l1)"
    using t by (auto simp: tier_ok_def dict_ok_def intro: distinct_map_filter)
  moreover have "int (length (filter (\<lambda>(k, _). k \<notin> ks) l1)) \<le> mx"
    using t length_filter_le [of "\<lambda>(k, _). k \<notin> ks" l1] unfolding tier_ok_def by linarith
  moreover have "tags_indexed (filter (\<lambda>(k, _). k \<notin> ks) l1) (idx(t := None))"
    using t ks by (fastforce simp: tier_ok_def tags_indexed_def)
  ultimately show ?thesis by (simp add: tier_ok_def)
qed

section \<open>Every operation keeps the invariant\<close>

lemma cm_tiers_redis [simp]:
  "cm_l1 (on_redis_failure now c) = cm_l1 c" "cm_tags (on_redis_failure now c) = cm_tags c"
  "cm_max_l1 (on_redis_failure now c) = cm_max_l1 c"
  "cm_l1 (on_redis_success c) = cm_l1 c" "cm_tags (on_redis_success c) = cm_tags c"
  "cm_max_l1 (on_redis_success c) = cm_max_l1 c"
  by (auto simp: on_redis_failure_def on_redis_success_def Let_def)

lemma cm_tiers_delete [simp]:
  "cm_l1 (redis_delete api now k c) = cm_l1 c" "cm_tags (redis_delete api now k c) = cm_tags c"
  "cm_max_l1 (redis_delete api now k c) = cm_max_l1 c"
  by (auto simp: redis_delete_def Let_def split: option.splits prod.splits)

lemma cm_tiers_deletes [simp]:
  "cm_l1 (fold (redis_delete api now) ks c) = cm_l1 c"
  "cm_tags (fold (redis_delete api now) ks c) = cm_tags c"
  "cm_max_l1 (fold (redis_delete api now) ks c) = cm_max_l1 c"
  by (induction ks arbitrary: c) auto

lemma cm_tiers_l2_store [simp]:
  "cm_l1 (l2_store api now k v ttl ts c) = cm_l1 c"
  "cm_tags (l2_store api now k v ttl ts c) = cm_tags c"
  "cm_max_l1 (l2_store api now k v ttl ts c) = cm_max_l1 c"
  by (auto simp: l2_store_def Let_def split: option.splits prod.splits)

lemma l1_insert_inv:
  assumes "cache_inv c" and "int (length (cm_l1 c)) < cm_max_l1 c \<or> dhas (cm_l1 c) k"
  shows "cache_inv (l1_insert k (new_entry now k v ttl ts) ts c)"
  using assms tier_ok_insert [of "cm_max_l1 c" "cm_l1 c" "cm_tags c" k "new_entry now k v ttl ts"]
  by (simp add: cache_inv_def l1_insert_def new_entry_def)

lemma evicted_inv:
  assumes "cache_inv c" and "evict_l1 (cm_max_l1 c) (cm_l1 c) (cm_tags c) = (ok, l1, idx)"
  shows "ok \<and> cache_inv (c\<lparr>cm_l1 := l1, cm_tags := idx\<rparr>) \<and> int (length l1) < cm_max_l1 c"
  using assms evict_l1_ok [of "cm_max_l1 c" "cm_l1 c" "cm_tags c" ok l1 idx]
  by (simp add: cache_inv_def)

lemma cache_inv_tiers:
  "cm_l1 c' = cm_l1 c \<Longrightarrow> cm_tags c' = cm_tags c \<Longrightarrow> cm_max_l1 c' = cm_max_l1 c
    \<Longrightarrow> cache_inv c' = cache_inv c"
  by (simp add: cache_inv_def)

lemma cache_set_inv:
  assumes inv: "cache_inv c"
  shows "fst (cache_set api now k v ttl ts c) \<and> cache_inv (snd (cache_set api now k v ttl ts c))"
proof (cases "dhas (cm_l1 c) k")
  case True
  let ?c = "c\<lparr>cm_l1 := dpop k (cm_l1 c), cm_tags := cm_tags c\<rparr>"
  have "Suc (length (dpop k (cm_l1 c))) = length (cm_l1 c)"
    using inv True by (intro length_dpop) (auto simp: cache_inv_def tier_ok_def)
  then have "int (length (cm_l1 ?c)) < cm_max_l1 ?c"
    using inv by (simp add: cache_inv_def tier_ok_def)
  moreover have "cache_inv ?c" using inv by (simp add: cache_inv_def tier_ok_dpop)
  ultimately have "cache_inv (l1_insert k (new_entry now k v ttl ts) ts ?c)"
    using l1_insert_inv by blast
  with True show ?thesis by (simp add: cache_set_def Let_def cache_inv_def)
next
  case False
  obtain ok l1 idx where e: "evict_l1 (cm_max_l1 c) (cm_l1 c) (cm_tags c) = (ok, l1, idx)"
    by (cases "evict_l1 (cm_max_l1 c) (cm_l1 c) (cm_tags c)")
  let ?c = "c\<lparr>cm_l1 := l1, cm_tags := idx\<rparr>"
  have "ok" "cache_inv ?c" "int (length (cm_l1 ?c)) < cm_max_l1 ?c"
    using evicted_inv [OF inv e] by auto
  moreover from this have "cache_inv (l1_insert k (new_entry now k v ttl ts) ts ?c)"
    using l1_insert_inv by blast
  ultimately show ?thesis using False e by (simp add: cache_set_def Let_def cache_inv_def)
qed

lemma l1_drop_inv: "cache_inv c \<Longrightarrow> cache_inv (l1_drop k c)"
  by (auto simp: cache_inv_def l1_drop_def intro: tier_ok_drop split: option.splits)

lemma l1_drops_inv: "cache_inv c \<Longrightarrow> cache_inv (fold l1_drop ks c)"
  by (induction ks arbitrary: c) (auto intro: l1_drop_inv)

lemma l1_lookup_inv:
  assumes "cache_inv c"
  shows "cache_inv (snd (l1_lookup now k c))"
proof (cases "dget (cm_l1 c) k")
  case None
  with assms show ?thesis by (simp add: l1_lookup_def)
next
  case (Some e)
  show ?thesis
  proof (cases "entry_expired now e")
    case True
    with assms Some show ?thesis by (simp add: l1_lookup_def cache_inv_def tier_ok_drop)
  next
    case False
    have has: "dhas (cm_l1 c) k" using Some by (simp add: dhas_def)
    have sz: "Suc (length (dpop k (cm_l1 c))) = length (cm_l1 c)"
      using assms has by (intro length_dpop) (auto simp: cache_inv_def tier_ok_def)
    have "tier_ok (cm_max_l1 c) (dset k e (dpop k (cm_l1 c)))
        (index_add k (ce_tags e) (cm_tags c))"
      using assms sz by (intro tier_ok_insert tier_ok_dpop) (auto simp: cache_inv_def tier_ok_def)
    moreover have "index_add k (ce_tags e) (cm_tags c) = cm_tags c"
    proof
      fix t
      have "(k, e) \<in> set (cm_l1 c)" using Some by (rule map_of_SomeD)
      then show "index_add k (ce_tags e) (cm_tags c) t = cm_tags c t"
        using assms by (fastforce simp: index_add_def cache_inv_def tier_ok_def tags_indexed_def
            split: option.splits)
    qed
    ultimately show ?thesis using assms Some False by (simp add: l1_lookup_def cache_inv_def)
  qed
qed

lemma promote_inv:
  assumes "cache_inv c"
  shows "fst (promote now k v ts c) \<and> cache_inv (snd (promote now k v ts c))"
proof -
  obtain ok l1 idx where e: "evict_l1 (cm_max_l1 c) (cm_l1 c) (cm_tags c) = (ok, l1, idx)"
    by (cases "evict_l1 (cm_max_l1 c) (cm_l1 c) (cm_tags c)")
  let ?c = "c\<lparr>cm_l1 := l1, cm_tags := idx\<rparr>"
  have "ok" "cache_inv ?c" "int (length (cm_l1 ?c)) < cm_max_l1 ?c"
    using evicted_inv [OF assms e] by auto
  moreover from this have "cache_inv (l1_insert k (new_entry now k v None ts) ts ?c)"
    using l1_insert_inv by blast
  ultimately show ?thesis using e by (simp add: promote_def Let_def)
qed

lemma l2_answer_inv:
  assumes "cache_inv c"
  shows "cache_inv (snd (l2_answer now k res c))"
proof (cases "\<exists>v ts. res = Inr (Some (v, ts))")
  case True
  then obtain v ts where res: "res = Inr (Some (v, ts))" by blast
  obtain ok d where p: "promote now k v ts c = (ok, d)" by (cases "promote now k v ts c")
  then have "ok" "cache_inv d" using promote_inv [OF assms, of now k v ts] by auto
  then show ?thesis using res p by (simp add: l2_answer_def cache_inv_def)
next
  case False
  then show ?thesis using assms
    by (auto simp: l2_answer_def cache_inv_def split: sum.splits option.splits)
qed

lemma l2_lookup_inv: "cache_inv c \<Longrightarrow> cache_inv (snd (l2_lookup api now k c))"
  by (auto simp: l2_lookup_def enter_probe_def cache_inv_def intro!: l2_answer_inv [unfolded cache_inv_def]
      split: option.splits prod.splits)

lemma cache_get_inv: "cache_inv c \<Longrightarrow> cache_inv (snd (cache_get api now k c))"
  using l1_lookup_inv [of c now k] l2_lookup_inv [of "snd (l1_lookup now k c)" api now k]
  by (auto simp: cache_get_def cache_inv_def split: prod.splits option.splits)

lemma invalidate_inv: "cache_inv c \<Longrightarrow> cache_inv (invalidate api now k c)"
  using l1_drop_inv [of c k] by (simp add: invalidate_def Let_def cache_inv_def)

lemma invalidate_by_tag_inv: "cache_inv c \<Longrightarrow> cache_inv (snd (invalidate_by_tag api now t c))"
  by (auto simp: invalidate_by_tag_def Let_def cache_inv_def intro: tier_ok_filter
      split: option.splits)

lemma invalidate_prefix_inv: "cache_inv c \<Longrightarrow> cache_inv (snd (invalidate_prefix api now p c))"
  using l1_drops_inv [of c "filter (\<lambda>k. startswith k p) (dkeys (cm_l1 c))"]
  by (auto simp: invalidate_prefix_def Let_def cache_inv_def split: option.splits prod.splits)

datatype cache_event =
    CSet timestamp string json "pyfloat option" "string set"
  | CGet timestamp string
  | CInvalidate timestamp string
  | CInvalidateTag timestamp string
  | CInvalidatePrefix timestamp string
  | CClear

fun cache_step :: "'r redis_api \<Rightarrow> cache_event \<Rightarrow> 'r cache \<Rightarrow> 'r cache" where
  "cache_step api (CSet now k v ttl ts) c = snd (cache_set api now k v ttl ts c)"
| "cache_step api (CGet now k) c = snd (cache_get api now k c)"
| "cache_step api (CInvalidate now k) c = invalidate api now k c"
| "cache_step api (CInvalidateTag now t) c = snd (invalidate_by_tag api now t c)"
| "cache_step api (CInvalidatePrefix now p) c = snd (invalidate_prefix api now p c)"
| "cache_step api CClear c = cache_clear c"

lemma cache_clear_inv: "cache_inv c \<Longrightarrow> cache_inv (cache_clear c)"
  by (simp add: cache_clear_def cache_inv_def)

lemma cache_step_inv: "cache_inv c \<Longrightarrow> cache_inv (cache_step api e c)"
  by (cases e) (simp_all add: cache_set_inv cache_get_inv invalidate_inv invalidate_by_tag_inv
      invalidate_prefix_inv cache_clear_inv)

interpretation cache: machine "cache_step api" cache_inv for api
  by unfold_locales (rule cache_step_inv)

lemma new_cache_inv: "0 < mx \<Longrightarrow> cache_inv (new_cache r mx thr probe)"
  by (simp add: new_cache_def cache_inv_def)

lemma cache_max_step: "cm_max_l1 (cache_step api e c) = cm_max_l1 c"
proof -
  have drops: "cm_max_l1 (fold l1_drop ks c) = cm_max_l1 c" for ks :: "string list" and c :: "'a cache"
    by (induction ks arbitrary: c) (auto simp: l1_drop_def split: option.splits)
  show ?thesis
    by (cases e) (auto simp: drops cache_set_def cache_get_def l1_lookup_def l2_lookup_def
        promote_def l1_insert_def enter_probe_def l2_answer_def invalidate_def l1_drop_def invalidate_by_tag_def
        invalidate_prefix_def cache_clear_def Let_def
        split: option.splits prod.splits sum.splits bool.splits)
qed

lemma cache_max_run: "cm_max_l1 (fold (cache_step api) es c) = cm_max_l1 c"
  by (induction es arbitrary: c) (auto simp: cache_max_step)

section \<open>Properties\<close>

text \<open>
  C10. Whatever the calls made on a new cache and whatever Redis does, the memory tier never holds
  more than its capacity, and no \<open>set\<close> raises.
\<close>

theorem cache_capacity:
  assumes "0 < mx"
  shows "int (length (cm_l1 (fold (cache_step api) es (new_cache r mx thr probe)))) \<le> mx
       \<and> fst (cache_set api now k v ttl ts (fold (cache_step api) es (new_cache r mx thr probe)))"
proof -
  let ?c = "fold (cache_step api) es (new_cache r mx thr probe)"
  have inv: "cache_inv ?c" by (rule cache.run_inv [OF new_cache_inv [OF assms]])
  moreover have "cm_max_l1 ?c = mx" by (simp add: cache_max_run) (simp add: new_cache_def)
  ultimately show ?thesis using cache_set_inv [OF inv] by (auto simp: cache_inv_def tier_ok_def)
qed

definition dead_redis :: "unit redis_api" where
  "dead_redis = \<lparr>rd_set = (\<lambda>_ _ _ r. (False, r)), rd_get = (\<lambda>_ r. (Inl (), r)),
     rd_delete = (\<lambda>_ r. (False, r))\<rparr>"

theorem cache_capacity_witness:
  "int (length (cm_l1 (fold (cache_step dead_redis)
      [CSet 0 ''a'' JNull None {}, CSet 1 ''b'' JNull None {}] (new_cache (Some ()) 1 3 30)))) \<le> 1"
  using cache_capacity [of 1 dead_redis] by (metis zero_less_one)

text \<open>
  C6. In every reachable state, invalidating a tag removes every memory entry that carries the tag
  and answers how many entries it removed; an entry whose key was never indexed under the tag stays.
\<close>

theorem cache_invalidate_tag_complete:
  fixes api :: "'r redis_api" and es :: "cache_event list" and r :: "'r option"
    and mx thr :: int and probe :: pyfloat
  defines "c \<equiv> fold (cache_step api) es (new_cache r mx thr probe)"
  assumes "0 < mx" and "invalidate_by_tag api now t c = (n, c')"
  shows "(\<forall>(k, e) \<in> set (cm_l1 c'). t \<notin> ce_tags e)
       \<and> length (cm_l1 c') + n = length (cm_l1 c)
       \<and> (\<forall>k e. dget (cm_l1 c) k = Some e \<and> (\<forall>ks. cm_tags c t = Some ks \<longrightarrow> k \<notin> ks)
            \<longrightarrow> dget (cm_l1 c') k = Some e)"
proof -
  have inv: "cache_inv c" unfolding c_def by (rule cache.run_inv [OF new_cache_inv [OF assms(2)]])
  have ti: "\<And>k e. (k, e) \<in> set (cm_l1 c) \<Longrightarrow> t \<in> ce_tags e \<Longrightarrow> \<exists>s. cm_tags c t = Some s \<and> k \<in> s"
    using inv by (fastforce simp: cache_inv_def tier_ok_def tags_indexed_def)
  show ?thesis
  proof (cases "cm_tags c t")
    case None
    with assms(3) ti show ?thesis by (fastforce simp: invalidate_by_tag_def)
  next
    case (Some ks)
    then have l1: "cm_l1 c' = filter (\<lambda>(k, _). k \<notin> ks) (cm_l1 c)"
      and n: "n = length (cm_l1 c) - length (cm_l1 c')"
      using assms(3) by (auto simp: invalidate_by_tag_def Let_def)
    have "length (cm_l1 c') \<le> length (cm_l1 c)" by (simp add: l1)
    moreover have "\<forall>(k, e) \<in> set (cm_l1 c'). t \<notin> ce_tags e" using ti Some by (fastforce simp: l1)
    moreover have "dget (cm_l1 c') k = Some e" if "dget (cm_l1 c) k = Some e" "k \<notin> ks" for k e
    proof -
      have "dict_ok (cm_l1 c')" using invalidate_by_tag_inv [OF inv, of api now t] assms(3)
        by (simp add: cache_inv_def tier_ok_def)
      moreover have "(k, e) \<in> set (cm_l1 c')" using that by (auto simp: l1 dest: map_of_SomeD)
      ultimately show ?thesis by (simp add: dict_ok_dget_iff)
    qed
    ultimately show ?thesis using Some n by auto
  qed
qed

theorem cache_invalidate_tag_complete_witness:
  "let c = fold (cache_step dead_redis) [CSet 0 ''a'' (JInt 1) None {''x''}, CSet 1 ''b'' (JInt 2) None {}]
         (new_cache None 10 3 30)
   in \<forall>(k, e) \<in> set (cm_l1 (snd (invalidate_by_tag dead_redis 5 ''x'' c))). ''x'' \<notin> ce_tags e"
  using cache_invalidate_tag_complete [of 10 dead_redis 5 "''x''"
      "[CSet 0 ''a'' (JInt 1) None {''x''}, CSet 1 ''b'' (JInt 2) None {}]" None 3 30]
  by (metis (no_types, lifting) prod.collapse zero_less_numeral)

text \<open>
  A value found in Redis is promoted to the memory tier without its time to live: once a
  promoted entry is in the memory tier it is a hit at every later instant, so a value that Redis
  was told to forget after \<open>ttl\<close> seconds is served until it is evicted or invalidated.
\<close>

theorem cache_promotion_loses_ttl:
  assumes "cache_inv c" and "cm_redis c = Some r" and "dget (cm_l1 c) k = None"
    and "rd_get api k r = (Inr (Some (v, ts)), r')"
  shows "fst (cache_get api now k c) = v
       \<and> (\<forall>later. fst (l1_lookup later k (snd (cache_get api now k c))) = Some v)"
proof -
  let ?d = "(enter_probe now c)\<lparr>cm_redis := Some r'\<rparr>"
  have d: "cache_inv ?d" using assms(1) by (simp add: cache_inv_def enter_probe_def)
  obtain ok l1 idx where e: "evict_l1 (cm_max_l1 ?d) (cm_l1 ?d) (cm_tags ?d) = (ok, l1, idx)"
    by (cases "evict_l1 (cm_max_l1 ?d) (cm_l1 ?d) (cm_tags ?d)")
  then have ok: "ok" using evicted_inv [OF d] by blast
  let ?p = "l1_insert k (new_entry now k v None ts) ts (?d\<lparr>cm_l1 := l1, cm_tags := idx\<rparr>)"
  have g: "cache_get api now k c =
      (v, on_redis_success (?p\<lparr>cm_hits := cm_hits ?p + 1, cm_l2_hits := cm_l2_hits ?p + 1\<rparr>))"
    using assms e ok by (simp add: cache_get_def l1_lookup_def l2_lookup_def l2_answer_def promote_def)
  have "dget (cm_l1 (snd (cache_get api now k c))) k = Some (new_entry now k v None ts)"
    by (simp add: g) (simp add: l1_insert_def)
  then show ?thesis using g by (simp add: l1_lookup_def entry_expired_def new_entry_def)
qed

definition one_value_redis :: "unit redis_api" where
  "one_value_redis = \<lparr>rd_set = (\<lambda>_ _ _ r. (True, r)), rd_get = (\<lambda>_ r. (Inr (Some (JInt 7, {})), r)),
     rd_delete = (\<lambda>_ r. (True, r))\<rparr>"

theorem cache_promotion_loses_ttl_witness:
  "fst (l1_lookup 1000000 ''k'' (snd (cache_get one_value_redis 1 ''k''
      (new_cache (Some ()) 10 3 30)))) = Some (JInt 7)"
proof -
  have h: "cache_inv (new_cache (Some ()) 10 3 30)" by (rule new_cache_inv) simp
  have h2: "cm_redis (new_cache (Some ()) 10 3 30) = Some ()"
    "dget (cm_l1 (new_cache (Some ()) 10 3 30)) ''k'' = None"
    "rd_get one_value_redis ''k'' () = (Inr (Some (JInt 7, {})), ())"
    by (simp_all add: new_cache_def one_value_redis_def)
  show ?thesis using cache_promotion_loses_ttl [OF h h2, of 1] by blast
qed

end
