(* ===== verification/Governance_Policies.thy ===== *)
theory Governance_Policies
  imports Amber_Prelude
begin

text \<open>
  \<open>governance/policies.py\<close> and \<open>governance/policy_packs.py\<close>: declarative policy rules, the engine
  that evaluates an action against them, and the compliance packs. The reasons of a result are
  kept as data (which rule, whether a token or the cost was hit) instead of rendered text.
\<close>

section \<open>Rules and results\<close>

datatype enforcement_action = ALLOW | DENY | REQUIRE_APPROVAL | WARN

text \<open>The order in which the evaluation loop lets one enforcement override another.\<close>

fun severity :: "enforcement_action \<Rightarrow> nat" where
  "severity ALLOW = 0"
| "severity WARN = 1"
| "severity REQUIRE_APPROVAL = 2"
| "severity DENY = 3"

lemma severity_inj: "severity a = severity b \<Longrightarrow> a = b"
  by (cases a; cases b) auto

instantiation enforcement_action :: linorder
begin

definition less_eq_enforcement_action :: "enforcement_action \<Rightarrow> enforcement_action \<Rightarrow> bool" where
  "less_eq_enforcement_action a b = (severity a \<le> severity b)"

definition less_enforcement_action :: "enforcement_action \<Rightarrow> enforcement_action \<Rightarrow> bool" where
  "less_enforcement_action a b = (severity a < severity b)"

instance
  by standard (auto simp: less_eq_enforcement_action_def less_enforcement_action_def
      dest: severity_inj)

end

record policy_rule =
  pr_id :: string
  pr_name :: string
  pr_description :: string
  pr_target_actions :: "string list"
  pr_max_cost :: "pyfloat option"
  pr_forbidden_tokens :: "string list"
  pr_enforcement :: enforcement_action
  pr_enabled :: bool

text \<open>
  A rule built with the fields given by the code and the defaults of the model; descriptions do
  not influence the evaluation and are left empty.
\<close>

definition mk_rule ::
  "string \<Rightarrow> string \<Rightarrow> string list \<Rightarrow> pyfloat option \<Rightarrow> string list \<Rightarrow> enforcement_action \<Rightarrow> policy_rule" where
  "mk_rule i n targets cost tokens enf =
     \<lparr>pr_id = i, pr_name = n, pr_description = [], pr_target_actions = targets, pr_max_cost = cost,
      pr_forbidden_tokens = tokens, pr_enforcement = enf, pr_enabled = True\<rparr>"

datatype trigger_reason =
  Triggered (reason_name: string) (reason_token: "string option")
    (reason_cost: "(pyfloat \<times> pyfloat) option")

record policy_result =
  res_is_allowed :: bool
  res_requires_approval :: bool
  res_enforcement :: enforcement_action
  res_triggered :: "string list"
  res_reasons :: "trigger_reason list"

type_synonym policy_engine = "(string, policy_rule) pydict"

section \<open>The engine\<close>

definition add_policy :: "policy_rule \<Rightarrow> policy_engine \<Rightarrow> policy_engine" where
  "add_policy p eng = dset (pr_id p) p eng"

definition remove_policy :: "string \<Rightarrow> policy_engine \<Rightarrow> bool \<times> policy_engine" where
  "remove_policy i eng = (dhas eng i, dpop i eng)"

definition list_policies :: "policy_engine \<Rightarrow> policy_rule list" where
  "list_policies eng = dvals eng"

definition default_policies :: policy_engine where
  "default_policies =
     add_policy (mk_rule ''POL-003-PROD-DEPLOY'' ''Require Human Approval For Production Deploys''
         [''deploy'', ''git'', ''bash''] None [''deploy:prod'', ''production'', ''main --force'']
         REQUIRE_APPROVAL)
       (add_policy (mk_rule ''POL-002-COST-LIMIT'' ''Enforce Max Single Turn Cost''
           [''*''] (Some 5) [] REQUIRE_APPROVAL)
         (add_policy (mk_rule ''POL-001-ROOT-EXEC'' ''Deny Root Execution''
             [''bash'', ''exec'', ''terminal''] None [''sudo '', ''su -'', ''root@''] DENY) []))"

definition action_matches :: "string \<Rightarrow> policy_rule \<Rightarrow> bool" where
  "action_matches action p =
     (''*'' \<in> set (pr_target_actions p)
      \<or> (\<exists>a \<in> set (pr_target_actions p). lower a = lower action))"

definition token_hit :: "string \<Rightarrow> policy_rule \<Rightarrow> bool" where
  "token_hit content p = (\<exists>t \<in> set (pr_forbidden_tokens p). str_in (lower t) (lower content))"

definition cost_hit :: "pyfloat \<Rightarrow> policy_rule \<Rightarrow> bool" where
  "cost_hit cost p = (case pr_max_cost p of None \<Rightarrow> False | Some m \<Rightarrow> cost > m)"

definition has_constraints :: "policy_rule \<Rightarrow> bool" where
  "has_constraints p = (pr_forbidden_tokens p \<noteq> [] \<or> pr_max_cost p \<noteq> None)"

text \<open>The guards of one iteration of the loop: the rule is skipped or it triggers.\<close>

definition rule_triggers :: "string \<Rightarrow> string \<Rightarrow> pyfloat \<Rightarrow> policy_rule \<Rightarrow> bool" where
  "rule_triggers action content cost p =
     (if \<not> pr_enabled p then False
      else if \<not> action_matches action p then False
      else \<not> has_constraints p \<or> token_hit content p \<or> cost_hit cost p)"

definition rule_reason :: "string \<Rightarrow> string \<Rightarrow> pyfloat \<Rightarrow> policy_rule \<Rightarrow> trigger_reason" where
  "rule_reason action content cost p =
     Triggered (pr_name p) (if token_hit content p then Some action else None)
       (if cost_hit cost p then map_option (\<lambda>m. (cost, m)) (pr_max_cost p) else None)"

definition override :: "enforcement_action \<Rightarrow> enforcement_action \<Rightarrow> enforcement_action" where
  "override enf final =
     (if enf = DENY then DENY
      else if enf = REQUIRE_APPROVAL \<and> final \<noteq> DENY then REQUIRE_APPROVAL
      else if enf = WARN \<and> final = ALLOW then WARN
      else final)"

fun eval_loop ::
  "string \<Rightarrow> string \<Rightarrow> pyfloat \<Rightarrow> policy_rule list
     \<Rightarrow> string list \<times> trigger_reason list \<times> enforcement_action
     \<Rightarrow> string list \<times> trigger_reason list \<times> enforcement_action" where
  "eval_loop action content cost [] acc = acc"
| "eval_loop action content cost (p # ps) (triggered, reasons, final) =
     (if rule_triggers action content cost p
      then eval_loop action content cost ps
             (triggered @ [pr_id p], reasons @ [rule_reason action content cost p],
              override (pr_enforcement p) final)
      else eval_loop action content cost ps (triggered, reasons, final))"

definition evaluate :: "policy_engine \<Rightarrow> string \<Rightarrow> string \<Rightarrow> pyfloat \<Rightarrow> policy_result" where
  "evaluate eng action content cost =
     (let (triggered, reasons, final) =
            eval_loop action content cost (list_policies eng) ([], [], ALLOW)
      in \<lparr>res_is_allowed = (final \<noteq> DENY),
          res_requires_approval = (final = REQUIRE_APPROVAL),
          res_enforcement = final, res_triggered = triggered, res_reasons = reasons\<rparr>)"

section \<open>Compliance packs\<close>

datatype compliance_standard = HIPAA | SOC2_TYPE2 | GDPR | AIR_GAPPED | FINRA

record policy_pack =
  pk_standard :: compliance_standard
  pk_name :: string
  pk_rules :: "policy_rule list"

definition get_hipaa_pack :: policy_pack where
  "get_hipaa_pack =
     \<lparr>pk_standard = HIPAA, pk_name = ''HIPAA Security & Privacy Rule Pack'',
      pk_rules =
       [mk_rule ''HIPAA-001-PHI-BLOCK'' ''Block Unredacted PHI Egress''
          [''message'', ''email'', ''export'', ''webhook''] None
          [''ssn:'', ''mrn:'', ''patient_id:'', ''diagnosis:''] DENY,
        mk_rule ''HIPAA-002-HEALTH-DATA-EXPORT'' ''Require Approval for Health Record Export''
          [''export_data'', ''sql_query'', ''download''] None
          [''clinical_records'', ''patient_table'', ''ephi''] REQUIRE_APPROVAL]\<rparr>"

definition get_soc2_pack :: policy_pack where
  "get_soc2_pack =
     \<lparr>pk_standard = SOC2_TYPE2, pk_name = ''SOC2 Type 2 Security & Availability Pack'',
      pk_rules =
       [mk_rule ''SOC2-001-PROD-MUTATION'' ''Require Approval for Production Schema Alterations''
          [''db_migrate'', ''sql_exec'', ''deploy''] None
          [''DROP TABLE'', ''ALTER TABLE'', ''TRUNCATE''] REQUIRE_APPROVAL,
        mk_rule ''SOC2-002-IAM-ESCALATION'' ''Block Autonomous IAM Privilege Escalation''
          [''grant_role'', ''assign_permission'', ''sudo''] None
          [''role:admin'', ''grant_all'', ''chmod 777''] DENY]\<rparr>"

definition get_gdpr_pack :: policy_pack where
  "get_gdpr_pack =
     \<lparr>pk_standard = GDPR, pk_name = ''GDPR Data Privacy & Right-to-be-Forgotten Pack'',
      pk_rules =
       [mk_rule ''GDPR-001-CROSS-BORDER-TRANSFER''
          ''Require Approval for Cross-Border Data Transfers''
          [''cloud_sync'', ''s3_upload'', ''export''] None
          [''region:us-'', ''cross_region_replicate''] REQUIRE_APPROVAL,
        mk_rule ''GDPR-002-PII-MINIMIZATION'' ''Block Direct Passport & National ID Extraction''
          [''store_memory'', ''save_contact''] None [''passport_num'', ''national_id''] DENY]\<rparr>"

definition get_airgapped_pack :: policy_pack where
  "get_airgapped_pack =
     \<lparr>pk_standard = AIR_GAPPED, pk_name = ''Air-Gapped & Zero-Egress High Assurance Pack'',
      pk_rules =
       [mk_rule ''AIRGAP-001-ZERO-EGRESS'' ''Deny External Network Sockets''
          [''bash'', ''exec'', ''http_request''] None
          [''curl '', ''wget '', ''http://'', ''https://''] DENY]\<rparr>"

fun get_pack :: "compliance_standard \<Rightarrow> policy_pack" where
  "get_pack HIPAA = get_hipaa_pack"
| "get_pack SOC2_TYPE2 = get_soc2_pack"
| "get_pack GDPR = get_gdpr_pack"
| "get_pack AIR_GAPPED = get_airgapped_pack"
| "get_pack FINRA = get_soc2_pack"

definition apply_pack :: "compliance_standard \<Rightarrow> policy_engine \<Rightarrow> nat \<times> policy_engine" where
  "apply_pack std eng =
     (let pack = get_pack std
      in (length (pk_rules pack), fold add_policy (pk_rules pack) eng))"

section \<open>The evaluation is a deny-overrides combination\<close>

lemma override_max: "override enf final = max enf final"
  by (cases enf; cases final)
     (auto simp: override_def max_def less_eq_enforcement_action_def)

lemma eval_loop_eq:
  "eval_loop action content cost ps (tr, rs, f) =
     (let hit = filter (rule_triggers action content cost) ps
      in (tr @ map pr_id hit, rs @ map (rule_reason action content cost) hit,
          fold (\<lambda>p. max (pr_enforcement p)) hit f))"
  by (induction ps arbitrary: tr rs f) (auto simp: Let_def override_max)

lemma fold_max_Max:
  fixes g :: "'b \<Rightarrow> 'a::linorder"
  shows "fold (\<lambda>p. max (g p)) ps f = Max (insert f (g ` set ps))"
proof (induction ps arbitrary: f)
  case Nil
  then show ?case by simp
next
  case (Cons p ps)
  have "Max (insert f (insert (g p) (g ` set ps))) = Max (insert (max (g p) f) (g ` set ps))"
    by (cases "set ps = {}") (auto simp: max.assoc max.commute max.left_commute)
  with Cons show ?case by simp
qed

lemma ALLOW_least [simp]: "ALLOW \<le> e"
  by (simp add: less_eq_enforcement_action_def)

lemma DENY_greatest [simp]: "e \<le> DENY"
  by (cases e) (simp_all add: less_eq_enforcement_action_def)

lemma Max_enforcement_DENY:
  "finite S \<Longrightarrow> Max (insert ALLOW S) = DENY \<longleftrightarrow> DENY \<in> S"
proof
  assume fin: "finite S" and "Max (insert ALLOW S) = DENY"
  then have "DENY \<in> insert ALLOW S" using Max_in [of "insert ALLOW S"] by simp
  then show "DENY \<in> S" by simp
next
  assume fin: "finite S" and "DENY \<in> S"
  then have "DENY \<le> Max (insert ALLOW S)" by simp
  then show "Max (insert ALLOW S) = DENY" by (simp add: antisym)
qed

lemma evaluate_combines:
  fixes action content :: string and cost :: pyfloat
  defines "hit \<equiv> \<lambda>eng. filter (rule_triggers action content cost) (list_policies eng)"
  shows "res_enforcement (evaluate eng action content cost) = Max (insert ALLOW (pr_enforcement ` set (hit eng)))"
    and "res_is_allowed (evaluate eng action content cost) \<longleftrightarrow> (\<forall>p \<in> set (hit eng). pr_enforcement p \<noteq> DENY)"
    and "res_triggered (evaluate eng action content cost) = map pr_id (hit eng)"
    and "res_requires_approval (evaluate eng action content cost)
      = (res_enforcement (evaluate eng action content cost) = REQUIRE_APPROVAL)"
proof -
  show enf: "res_enforcement (evaluate eng action content cost) = Max (insert ALLOW (pr_enforcement ` set (hit eng)))"
    by (simp add: evaluate_def eval_loop_eq fold_max_Max hit_def Let_def)
  have "res_is_allowed (evaluate eng action content cost) = (res_enforcement (evaluate eng action content cost) \<noteq> DENY)"
    by (simp add: evaluate_def split: prod.splits)
  then show "res_is_allowed (evaluate eng action content cost) \<longleftrightarrow> (\<forall>p \<in> set (hit eng). pr_enforcement p \<noteq> DENY)"
    by (auto simp: enf Max_enforcement_DENY image_iff)
  show "res_triggered (evaluate eng action content cost) = map pr_id (hit eng)"
    by (simp add: evaluate_def eval_loop_eq hit_def Let_def)
  show "res_requires_approval (evaluate eng action content cost)
      = (res_enforcement (evaluate eng action content cost) = REQUIRE_APPROVAL)"
    by (simp add: evaluate_def split: prod.splits)
qed





section \<open>What a pack guarantees\<close>

lemma fold_add_policy_get:
  "dget (fold add_policy ps eng) i =
     (case map_of (rev (map (\<lambda>p. (pr_id p, p)) ps)) i of Some p \<Rightarrow> Some p | None \<Rightarrow> dget eng i)"
proof -
  have "fold add_policy ps eng = fold (\<lambda>(k, v). dset k v) (map (\<lambda>p. (pr_id p, p)) ps) eng"
    by (induction ps arbitrary: eng) (auto simp: add_policy_def)
  moreover have "dget (fold (\<lambda>(k, v). dset k v) kvs eng) i =
      (case map_of (rev kvs) i of Some p \<Rightarrow> Some p | None \<Rightarrow> dget eng i)" for kvs
    by (induction kvs arbitrary: eng) (auto simp: map_add_def split: option.splits)
  ultimately show ?thesis by simp
qed

lemma triggered_deny_blocks:
  assumes "dget eng i = Some p" and "rule_triggers action content cost p" and "pr_enforcement p = DENY"
  shows "\<not> res_is_allowed (evaluate eng action content cost)"
proof -
  have "p \<in> set (list_policies eng)"
    using assms(1) by (force simp: list_policies_def dest: map_of_SomeD)
  with assms show ?thesis using evaluate_combines(2) [of eng action content cost] by auto
qed

lemma pack_rules_distinct: "distinct (map pr_id (pk_rules (get_pack std)))"
  by (cases std) (simp_all add: get_hipaa_pack_def get_soc2_pack_def get_gdpr_pack_def
      get_airgapped_pack_def mk_rule_def)

lemma map_of_rev_rules:
  "distinct (map pr_id ps) \<Longrightarrow> p \<in> set ps \<Longrightarrow> map_of (rev (map (\<lambda>p. (pr_id p, p)) ps)) (pr_id p) = Some p"
  by (rule map_of_is_SomeI) (auto simp: rev_map [symmetric] comp_def)

text \<open>
  Applying a compliance pack to any engine puts every rule of the pack in force under its
  identifier, whatever was registered before, and answers their number: an action that triggers a
  denying rule of the pack is then rejected, at every cost.
\<close>

theorem apply_pack_in_force:
  assumes "apply_pack std eng = (n, eng')" and "p \<in> set (pk_rules (get_pack std))"
  shows "dget eng' (pr_id p) = Some p
       \<and> n = length (pk_rules (get_pack std))
       \<and> (pr_enforcement p = DENY \<and> rule_triggers action content cost p \<longrightarrow>
            \<not> res_is_allowed (evaluate eng' action content cost))"
proof -
  have "dget eng' (pr_id p) = Some p"
    using assms map_of_rev_rules [OF pack_rules_distinct assms(2)]
    by (auto simp: apply_pack_def Let_def fold_add_policy_get)
  then show ?thesis using assms triggered_deny_blocks by (auto simp: apply_pack_def Let_def)
qed

theorem apply_pack_in_force_witness:
  "\<not> res_is_allowed (evaluate (snd (apply_pack HIPAA default_policies)) ''Email'' ''her SSN: 1'' 0)"
proof -
  let ?r = "mk_rule ''HIPAA-001-PHI-BLOCK'' ''Block Unredacted PHI Egress''
          [''message'', ''email'', ''export'', ''webhook''] None
          [''ssn:'', ''mrn:'', ''patient_id:'', ''diagnosis:''] DENY"
  have r: "?r \<in> set (pk_rules (get_pack HIPAA))" by (simp add: get_hipaa_pack_def)
  have "rule_triggers ''Email'' ''her SSN: 1'' 0 ?r" by code_simp
  moreover have "pr_enforcement ?r = DENY" by (simp add: mk_rule_def)
  ultimately show ?thesis
    using apply_pack_in_force [OF prod.collapse [symmetric] r, of default_policies] by blast
qed

end
