(* ===== verification/State_Store.thy ===== *)
theory State_Store
  imports Amber_Prelude
begin

text \<open>
  \<open>storage/persistence.py\<close>: \<open>JSONStateStore\<close>, a dictionary of Pydantic models written through to
  a JSON file. The model class is not part of the repository's own code: its \<open>model_dump\<close> and
  \<open>model_validate\<close> are the parameters \<open>dump\<close> and \<open>validate\<close>. Whether a write of the file
  succeeds is an argument of the operations that write.
\<close>

text \<open>What the path holds: nothing, bytes that are not a JSON object, or a JSON object.\<close>

datatype file_content = Missing | Corrupt | Content "(string, json) pydict"

record 'v store =
  st_items :: "(string, 'v) pydict"
  st_file :: file_content

section \<open>Operations\<close>

text \<open>\<open>_load\<close> skips the items that do not validate, and starts empty on an unreadable file.\<close>

fun load_items :: "(json \<Rightarrow> 'v option) \<Rightarrow> (string, json) pydict \<Rightarrow> (string, 'v) pydict" where
  "load_items validate [] = []"
| "load_items validate ((k, j) # d) =
     (case validate j of None \<Rightarrow> load_items validate d
                       | Some v \<Rightarrow> (k, v) # load_items validate d)"

definition store_load :: "(json \<Rightarrow> 'v option) \<Rightarrow> file_content \<Rightarrow> 'v store" where
  "store_load validate f =
     \<lparr>st_items = (case f of Content d \<Rightarrow> load_items validate d | _ \<Rightarrow> []), st_file = f\<rparr>"

text \<open>
  \<open>_save\<close> writes a temporary file and renames it: a failed write leaves the old file in place.
\<close>

definition store_save :: "('v \<Rightarrow> json) \<Rightarrow> bool \<Rightarrow> 'v store \<Rightarrow> 'v store" where
  "store_save dump wok s =
     (if wok then s\<lparr>st_file := Content (map (\<lambda>(k, v). (k, dump v)) (st_items s))\<rparr> else s)"

definition store_get :: "'v store \<Rightarrow> string \<Rightarrow> 'v option" where
  "store_get s k = dget (st_items s) k"

definition store_get_all :: "'v store \<Rightarrow> (string, 'v) pydict" where
  "store_get_all s = st_items s"

definition store_set :: "('v \<Rightarrow> json) \<Rightarrow> bool \<Rightarrow> string \<Rightarrow> 'v \<Rightarrow> 'v store \<Rightarrow> 'v store" where
  "store_set dump wok k v s = store_save dump wok (s\<lparr>st_items := dset k v (st_items s)\<rparr>)"

definition store_delete :: "('v \<Rightarrow> json) \<Rightarrow> bool \<Rightarrow> string \<Rightarrow> 'v store \<Rightarrow> bool \<times> 'v store" where
  "store_delete dump wok k s =
     (if dhas (st_items s) k
      then (True, store_save dump wok (s\<lparr>st_items := dpop k (st_items s)\<rparr>))
      else (False, s))"

definition store_contains :: "string \<Rightarrow> 'v store \<Rightarrow> bool" where
  "store_contains k s = dhas (st_items s) k"

definition store_count :: "'v store \<Rightarrow> nat" where
  "store_count s = length (st_items s)"

definition store_clear :: "('v \<Rightarrow> json) \<Rightarrow> bool \<Rightarrow> 'v store \<Rightarrow> 'v store" where
  "store_clear dump wok s = store_save dump wok (s\<lparr>st_items := []\<rparr>)"

definition store_ok :: "'v store \<Rightarrow> bool" where
  "store_ok s = dict_ok (st_items s)"

section \<open>The store is a keyed store\<close>

lemma st_items_save [simp]: "st_items (store_save dump wok s) = st_items s"
  by (simp add: store_save_def)

lemma st_items_set [simp]: "st_items (store_set dump wok k v s) = dset k v (st_items s)"
  by (simp add: store_set_def)

lemma st_items_delete [simp]: "st_items (snd (store_delete dump wok k s)) = dpop k (st_items s)"
  by (auto simp: store_delete_def dpop_fresh)

interpretation json_store: keyed_store store_get "store_set dump wok"
    "\<lambda>k s. snd (store_delete dump wok k s)" store_ok for dump wok
  by unfold_locales (simp_all add: store_get_def store_ok_def)

lemma store_get_set [simp]:
  "store_get (store_set dump wok k v s) j = (if j = k then Some v else store_get s j)"
  by (simp add: store_get_def)

lemma store_ok_set [simp, intro]: "store_ok s \<Longrightarrow> store_ok (store_set dump wok k v s)"
  by (rule json_store.ok_put)

section \<open>Durability\<close>

lemma load_items_dump:
  "(\<And>v. validate (dump v) = Some v) \<Longrightarrow>
     load_items validate (map (\<lambda>(k, v). (k, dump v)) d) = d"
  by (induction d) auto

text \<open>
  C26. A restart loses nothing that was written: after a \<open>set\<close> or \<open>delete\<close> whose write succeeded,
  loading the file again gives the same items, provided the model class validates what it dumps;
  a failed write changes the memory only and leaves the previous file intact.
\<close>

theorem store_restart_durable:
  assumes "\<And>v. validate (dump v) = Some v" and "dhas (st_items s) j"
  shows "store_load validate (st_file (store_set dump True k v s)) = store_set dump True k v s
       \<and> store_load validate (st_file (snd (store_delete dump True j s)))
           = snd (store_delete dump True j s)
       \<and> st_file (store_set dump False k v s) = st_file s
       \<and> store_get (store_set dump False k v s) k = Some v"
  using assms
  by (simp add: store_load_def store_set_def store_save_def store_delete_def load_items_dump
      store_get_def)

theorem store_restart_durable_witness:
  "store_load (\<lambda>j. case j of JInt n \<Rightarrow> Some n | _ \<Rightarrow> None)
      (st_file (store_set JInt True ''k'' 7 \<lparr>st_items = [(''a'', 1)], st_file = Missing\<rparr>))
    = store_set JInt True ''k'' 7 \<lparr>st_items = [(''a'', 1)], st_file = Missing\<rparr>"
  using store_restart_durable [of "\<lambda>j. case j of JInt n \<Rightarrow> Some n | _ \<Rightarrow> None" JInt
      "\<lparr>st_items = [(''a'', 1)], st_file = Missing\<rparr>" "''a''" "''k''" 7]
  by (simp add: dhas_def)

end
