(* ===== verification/Governance_Board.thy ===== *)
theory Governance_Board
  imports State_Store
begin

text \<open>
  \<open>governance/tickets.py\<close> and \<open>governance/board.py\<close>: approval tickets kept in a persistent store,
  and the board that approves an action by itself or waits for the resolution of a ticket. The
  waiting loop polls fifty times; what other coroutines do between two polls is the argument
  \<open>env\<close>. Identifiers drawn from \<open>uuid4\<close> and clock readings are arguments.
\<close>

section \<open>Tickets\<close>

datatype ticket_priority = TP_LOW | TP_MEDIUM | TP_HIGH | TP_CRITICAL

datatype ticket_status = PENDING | APPROVED | REJECTED

record ticket =
  tk_id :: string
  tk_requester :: string
  tk_description :: string
  tk_priority :: ticket_priority
  tk_status :: ticket_status
  tk_context :: "(string, json) pydict"
  tk_created :: timestamp
  tk_resolved :: "timestamp option"
  tk_reviewer :: "string option"

type_synonym ticket_store = "ticket store"

definition create_ticket ::
  "(ticket \<Rightarrow> json) \<Rightarrow> bool \<Rightarrow> string \<Rightarrow> timestamp \<Rightarrow> string \<Rightarrow> string \<Rightarrow> ticket_priority
     \<Rightarrow> (string, json) pydict \<Rightarrow> ticket_store \<Rightarrow> ticket \<times> ticket_store" where
  "create_ticket dump wok tid now requester description priority context s =
     (let t = \<lparr>tk_id = tid, tk_requester = requester, tk_description = description,
               tk_priority = priority, tk_status = PENDING, tk_context = context,
               tk_created = now, tk_resolved = None, tk_reviewer = None\<rparr>
      in (t, store_set dump wok tid t s))"

definition get_ticket :: "ticket_store \<Rightarrow> string \<Rightarrow> ticket option" where
  "get_ticket s tid = store_get s tid"

definition resolve_ticket ::
  "(ticket \<Rightarrow> json) \<Rightarrow> bool \<Rightarrow> timestamp \<Rightarrow> string \<Rightarrow> ticket_status \<Rightarrow> string option \<Rightarrow> ticket_store
     \<Rightarrow> ticket option \<times> ticket_store" where
  "resolve_ticket dump wok now tid status reviewer s =
     (case get_ticket s tid of
        None \<Rightarrow> (None, s)
      | Some t \<Rightarrow>
          (let t' = t\<lparr>tk_status := status, tk_resolved := Some now, tk_reviewer := reviewer\<rparr>
           in (Some t', store_set dump wok tid t' s)))"

definition get_pending_tickets :: "ticket_store \<Rightarrow> ticket list" where
  "get_pending_tickets s = filter (\<lambda>t. tk_status t = PENDING) (dvals (store_get_all s))"

definition list_tickets ::
  "ticket_status option \<Rightarrow> ticket_priority option \<Rightarrow> ticket_store \<Rightarrow> ticket list" where
  "list_tickets status priority s =
     (let ts = dvals (store_get_all s);
          ts = (case status of None \<Rightarrow> ts | Some x \<Rightarrow> filter (\<lambda>t. tk_status t = x) ts);
          ts = (case priority of None \<Rightarrow> ts | Some x \<Rightarrow> filter (\<lambda>t. tk_priority t = x) ts)
      in sorted_desc tk_created ts)"

section \<open>The board\<close>

datatype risk_level = LOW | MEDIUM | HIGH | CRITICAL

fun risk_value :: "risk_level \<Rightarrow> nat" where
  "risk_value LOW = 1"
| "risk_value MEDIUM = 2"
| "risk_value HIGH = 3"
| "risk_value CRITICAL = 4"

text \<open>The string value of a risk level.\<close>

fun risk_name :: "risk_level \<Rightarrow> string" where
  "risk_name LOW = ''low''"
| "risk_name MEDIUM = ''medium''"
| "risk_name HIGH = ''high''"
| "risk_name CRITICAL = ''critical''"

record action_proposal =
  ap_action_id :: string
  ap_agent_id :: string
  ap_description :: string
  ap_risk_level :: risk_level
  ap_cost_estimate :: pyfloat

text \<open>The state of the board and of the global ticket system it uses.\<close>

record board =
  gb_require_above :: risk_level
  gb_max_auto_budget :: pyfloat
  gb_pending :: "action_proposal list"
  gb_tickets :: ticket_store

text \<open>One of at most fifty polls of the ticket, each after the environment has run.\<close>

fun poll_ticket ::
  "nat \<Rightarrow> (nat \<Rightarrow> board \<Rightarrow> board) \<Rightarrow> nat \<Rightarrow> string \<Rightarrow> board \<Rightarrow> ticket_status \<times> board" where
  "poll_ticket 0 env i tid b = (PENDING, b)"
| "poll_ticket (Suc n) env i tid b =
     (let b = env i b in
      case get_ticket (gb_tickets b) tid of
        None \<Rightarrow> poll_ticket n env (Suc i) tid b
      | Some t \<Rightarrow> if tk_status t \<noteq> PENDING then (tk_status t, b)
                   else poll_ticket n env (Suc i) tid b)"

definition ticket_context :: "action_proposal \<Rightarrow> (string, json) pydict" where
  "ticket_context p =
     [(''proposal_id'', JStr (ap_action_id p)), (''cost_estimate'', JFloat (ap_cost_estimate p)),
      (''risk_level'', JStr (risk_name (ap_risk_level p)))]"

text \<open>
  The text of the ticket for each of the two reasons; \<open>fmt\<close> is Python's rendering of a float.
\<close>

definition budget_text :: "(pyfloat \<Rightarrow> string) \<Rightarrow> action_proposal \<Rightarrow> string" where
  "budget_text fmt p = ''Action proposal '' @ ap_action_id p @ '' exceeds auto-budget: ''
     @ ap_description p @ '' (Estimated cost: $'' @ fmt (ap_cost_estimate p) @ '')''"

definition risk_text :: "action_proposal \<Rightarrow> string" where
  "risk_text p = ''Action proposal '' @ ap_action_id p @ '' requires high risk approval: ''
     @ ap_description p @ '' (Risk level: '' @ risk_name (ap_risk_level p) @ '')''"

text \<open>The two review branches of \<open>evaluate_proposal\<close> differ in the ticket's text only.\<close>

definition await_review ::
  "(ticket \<Rightarrow> json) \<Rightarrow> (nat \<Rightarrow> board \<Rightarrow> board) \<Rightarrow> string \<Rightarrow> timestamp \<Rightarrow> string \<Rightarrow> action_proposal \<Rightarrow> board
     \<Rightarrow> bool \<times> board" where
  "await_review dump env tid now descr p b =
     (let b = b\<lparr>gb_pending := gb_pending b @ [p]\<rparr>;
          (_, ts) = create_ticket dump True tid now (ap_agent_id p) descr TP_MEDIUM
                      (ticket_context p) (gb_tickets b);
          (resolved, b) = poll_ticket 50 env 0 tid (b\<lparr>gb_tickets := ts\<rparr>);
          b = (if p \<in> set (gb_pending b) then b\<lparr>gb_pending := remove1 p (gb_pending b)\<rparr> else b)
      in (resolved = APPROVED, b))"

definition evaluate_proposal ::
  "(pyfloat \<Rightarrow> string) \<Rightarrow> (ticket \<Rightarrow> json) \<Rightarrow> (nat \<Rightarrow> board \<Rightarrow> board) \<Rightarrow> string \<Rightarrow> timestamp \<Rightarrow> action_proposal
     \<Rightarrow> board \<Rightarrow> bool \<times> board" where
  "evaluate_proposal fmt dump env tid now p b =
     (if ap_cost_estimate p > gb_max_auto_budget b
      then await_review dump env tid now (budget_text fmt p) p b
      else if risk_value (ap_risk_level p) \<ge> risk_value (gb_require_above b)
      then await_review dump env tid now (risk_text p) p b
      else (True, b))"

definition proposal_ticket :: "string \<Rightarrow> ticket \<Rightarrow> bool" where
  "proposal_ticket aid t = (dget (tk_context t) ''proposal_id'' = Some (JStr aid))"

definition approve_action ::
  "(ticket \<Rightarrow> json) \<Rightarrow> timestamp \<Rightarrow> string \<Rightarrow> board \<Rightarrow> bool \<times> board" where
  "approve_action dump now aid b =
     (case find (\<lambda>p. ap_action_id p = aid) (gb_pending b) of
        None \<Rightarrow> (False, b)
      | Some p \<Rightarrow>
          (case find (proposal_ticket aid) (get_pending_tickets (gb_tickets b)) of
             Some t \<Rightarrow>
               (True, b\<lparr>gb_tickets := snd (resolve_ticket dump True now (tk_id t) APPROVED
                                            (Some ''board_operator'') (gb_tickets b))\<rparr>)
           | None \<Rightarrow> (True, b\<lparr>gb_pending := remove1 p (gb_pending b)\<rparr>)))"

section \<open>What an approval means\<close>

lemma poll_ticket_resolved:
  "poll_ticket n env i tid b = (st, b') \<Longrightarrow> st \<noteq> PENDING \<Longrightarrow>
     \<exists>t. get_ticket (gb_tickets b') tid = Some t \<and> tk_status t = st"
  by (induction n env i tid b rule: poll_ticket.induct)
     (auto simp: Let_def split: option.splits if_splits)

lemma poll_ticket_quiet:
  "(\<And>i b. env i b = b) \<Longrightarrow> get_ticket (gb_tickets b) tid = Some t \<Longrightarrow> tk_status t = PENDING \<Longrightarrow>
     poll_ticket n env i tid b = (PENDING, b)"
  by (induction n arbitrary: i) (simp_all add: Let_def)

definition auto_approvable :: "action_proposal \<Rightarrow> board \<Rightarrow> bool" where
  "auto_approvable p b \<longleftrightarrow> ap_cost_estimate p \<le> gb_max_auto_budget b
     \<and> risk_value (ap_risk_level p) < risk_value (gb_require_above b)"

lemma evaluate_proposal_cases:
  "evaluate_proposal fmt dump env tid now p b =
     (if auto_approvable p b then (True, b)
      else await_review dump env tid now
             (if ap_cost_estimate p > gb_max_auto_budget b then budget_text fmt p else risk_text p) p b)"
  by (auto simp: evaluate_proposal_def auto_approvable_def)

lemma await_review_True:
  assumes "await_review dump env tid now d p b = (True, b')"
  shows "\<exists>t. get_ticket (gb_tickets b') tid = Some t \<and> tk_status t = APPROVED"
proof -
  obtain ts where ts: "snd (create_ticket dump True tid now (ap_agent_id p) d TP_MEDIUM
      (ticket_context p) (gb_tickets b)) = ts" by blast
  obtain st b1 where po: "poll_ticket 50 env 0 tid
      (b\<lparr>gb_pending := gb_pending b @ [p], gb_tickets := ts\<rparr>) = (st, b1)" by fastforce
  have "st = APPROVED" "gb_tickets b' = gb_tickets b1"
    using assms ts po by (auto simp: await_review_def create_ticket_def Let_def split: if_splits)
  then show ?thesis using poll_ticket_resolved [OF po] by simp
qed

text \<open>
  C17. The board says yes only where it may: an action within the automatic budget and below the
  risk threshold is approved without a ticket; any other is approved only when its own ticket is
  in status \<open>APPROVED\<close> at the end, whatever other coroutines did meanwhile; and when nobody acts,
  it is rejected after the fifty polls, its ticket stays pending and the list of pending
  proposals is as before.
\<close>

theorem board_approval_sound:
  "(auto_approvable p b \<longrightarrow> evaluate_proposal fmt dump env tid now p b = (True, b))
   \<and> (\<not> auto_approvable p b \<and> evaluate_proposal fmt dump env tid now p b = (True, b') \<longrightarrow>
        (\<exists>t. get_ticket (gb_tickets b') tid = Some t \<and> tk_status t = APPROVED))
   \<and> (\<not> auto_approvable p b \<and> p \<notin> set (gb_pending b) \<and> (\<forall>i b. env i b = b) \<longrightarrow>
        \<not> fst (evaluate_proposal fmt dump env tid now p b)
        \<and> gb_pending (snd (evaluate_proposal fmt dump env tid now p b)) = gb_pending b
        \<and> (\<exists>t. get_ticket (gb_tickets (snd (evaluate_proposal fmt dump env tid now p b))) tid = Some t
              \<and> tk_status t = PENDING))"
proof (intro conjI impI; (elim conjE)?)
  assume "auto_approvable p b"
  then show "evaluate_proposal fmt dump env tid now p b = (True, b)" by (simp add: evaluate_proposal_cases)
next
  assume "\<not> auto_approvable p b" and "evaluate_proposal fmt dump env tid now p b = (True, b')"
  then show "\<exists>t. get_ticket (gb_tickets b') tid = Some t \<and> tk_status t = APPROVED"
    using await_review_True by (simp add: evaluate_proposal_cases)
next
  assume na: "\<not> auto_approvable p b" and fresh: "p \<notin> set (gb_pending b)" and q: "\<forall>i b. env i b = b"
  have quiet: "await_review dump env tid now d p b = (False,
      b\<lparr>gb_tickets := snd (create_ticket dump True tid now (ap_agent_id p) d TP_MEDIUM
          (ticket_context p) (gb_tickets b))\<rparr>)" for d
  proof -
    let ?ts = "snd (create_ticket dump True tid now (ap_agent_id p) d TP_MEDIUM
          (ticket_context p) (gb_tickets b))"
    have "poll_ticket 50 env 0 tid (b\<lparr>gb_pending := gb_pending b @ [p], gb_tickets := ?ts\<rparr>)
        = (PENDING, b\<lparr>gb_pending := gb_pending b @ [p], gb_tickets := ?ts\<rparr>)"
      by (rule poll_ticket_quiet [where t = "fst (create_ticket dump True tid now (ap_agent_id p) d
            TP_MEDIUM (ticket_context p) (gb_tickets b))"])
         (use q in \<open>simp_all add: create_ticket_def get_ticket_def Let_def\<close>)
    then show ?thesis using fresh by (simp add: await_review_def split_def remove1_append)
  qed
  show "\<not> fst (evaluate_proposal fmt dump env tid now p b)"
    and "gb_pending (snd (evaluate_proposal fmt dump env tid now p b)) = gb_pending b"
    and "\<exists>t. get_ticket (gb_tickets (snd (evaluate_proposal fmt dump env tid now p b))) tid = Some t
              \<and> tk_status t = PENDING"
    using na by (simp_all add: evaluate_proposal_cases quiet create_ticket_def get_ticket_def Let_def)
qed

definition sample_board :: board where
  "sample_board = \<lparr>gb_require_above = HIGH, gb_max_auto_budget = 1, gb_pending = [],
     gb_tickets = \<lparr>st_items = [], st_file = Missing\<rparr>\<rparr>"

definition sample_proposal :: action_proposal where
  "sample_proposal = \<lparr>ap_action_id = ''a1'', ap_agent_id = ''agent'', ap_description = ''rm'',
     ap_risk_level = CRITICAL, ap_cost_estimate = 0\<rparr>"

theorem board_approval_sound_witness:
  "\<not> fst (evaluate_proposal (\<lambda>_. []) (\<lambda>_. JNull) (\<lambda>_ b. b) ''t1'' 0 sample_proposal sample_board)"
  using board_approval_sound [of sample_proposal sample_board "\<lambda>_. []" "\<lambda>_. JNull" "\<lambda>_ b. b" "''t1''" 0 sample_board]
  by (simp add: sample_proposal_def sample_board_def auto_approvable_def)

section \<open>Human approval releases the action\<close>

lemma poll_ticket_wait:
  "(\<And>j b. j < k \<Longrightarrow> env (i + j) b = b) \<Longrightarrow> get_ticket (gb_tickets b) tid = Some t \<Longrightarrow>
     tk_status t = PENDING \<Longrightarrow> poll_ticket (k + n) env i tid b = poll_ticket n env (i + k) tid b"
proof (induction k arbitrary: i)
  case 0
  then show ?case by simp
next
  case (Suc k)
  have "env (Suc i + j) b = b" if "j < k" for j b using Suc.prems(1) [of "Suc j" b] that by simp
  then have "poll_ticket (k + n) env (Suc i) tid b = poll_ticket n env (Suc i + k) tid b"
    using Suc.IH Suc.prems(2,3) by blast
  moreover have "env i b = b" using Suc.prems(1) [of 0 b] by simp
  ultimately show ?case using Suc.prems(2,3) by (simp add: Let_def)
qed

text \<open>
  A human who approves the pending action between two of the fifty polls releases it: if
  \<open>approve_action\<close> runs before one of the polls, and no other pending ticket names the same
  action, the waiting evaluation returns \<open>True\<close>.
\<close>

theorem board_human_approval_releases:
  assumes "\<not> auto_approvable p b" and "k < 50"
    and "env = (\<lambda>i b. if i = k then snd (approve_action dump later (ap_action_id p) b) else b)"
    and "\<not> dhas (st_items (gb_tickets b)) tid"
    and "find (proposal_ticket (ap_action_id p)) (get_pending_tickets (gb_tickets b)) = None"
  shows "fst (evaluate_proposal fmt dump env tid now p b)"
proof -
  have "fst (await_review dump env tid now d p b)" for d
  proof -
    define t where "t = fst (create_ticket dump True tid now (ap_agent_id p) d TP_MEDIUM
        (ticket_context p) (gb_tickets b))"
    define b1 where "b1 = b\<lparr>gb_pending := gb_pending b @ [p],
        gb_tickets := store_set dump True tid t (gb_tickets b)\<rparr>"
    have t: "tk_id t = tid" "tk_status t = PENDING" "proposal_ticket (ap_action_id p) t"
      by (simp_all add: t_def create_ticket_def Let_def proposal_ticket_def ticket_context_def)
    have got: "get_ticket (gb_tickets b1) tid = Some t" by (simp add: b1_def get_ticket_def)
    have "get_pending_tickets (gb_tickets b1) = get_pending_tickets (gb_tickets b) @ [t]"
      using assms(4) t by (simp add: get_pending_tickets_def store_get_all_def b1_def dset_fresh)
    then have ft: "find (proposal_ticket (ap_action_id p)) (get_pending_tickets (gb_tickets b1)) = Some t"
      using assms(5) t by (simp add: find_snoc)
    obtain q where fp: "find (\<lambda>q. ap_action_id q = ap_action_id p) (gb_pending b1) = Some q"
      by (cases "find (\<lambda>q. ap_action_id q = ap_action_id p) (gb_pending b1)")
         (auto simp: b1_def find_None_iff)
    obtain n where n: "50 = k + Suc n" using assms(2) by (metis Suc_diff_Suc add_diff_inverse_nat less_or_eq_imp_le linorder_not_le)
    have "poll_ticket (k + Suc n) env 0 tid b1 = poll_ticket (Suc n) env (0 + k) tid b1"
      by (rule poll_ticket_wait [where t = t]) (simp_all add: assms(3) got t)
    then have "poll_ticket 50 env 0 tid b1 = poll_ticket (Suc n) env k tid b1" by (simp only: n add_0)
    also have "\<dots> = (APPROVED, env k b1)"
      using got t ft fp by (simp add: assms(3) approve_action_def resolve_ticket_def get_ticket_def Let_def)
    finally show ?thesis
      by (simp add: await_review_def split_def b1_def t_def create_ticket_def Let_def)
  qed
  then show ?thesis using assms(1) by (simp add: evaluate_proposal_cases)
qed

theorem board_human_approval_releases_witness:
  "fst (evaluate_proposal (\<lambda>_. []) (\<lambda>_. JNull)
      (\<lambda>i b. if i = 7 then snd (approve_action (\<lambda>_. JNull) 1 (ap_action_id sample_proposal) b) else b)
      ''t1'' 0 sample_proposal sample_board)"
  by (rule board_human_approval_releases [where k = 7])
     (simp_all add: sample_board_def sample_proposal_def auto_approvable_def dhas_def
        get_pending_tickets_def store_get_all_def)

end
