(* ===== verification/Governance_Workflow.thy ===== *)
theory Governance_Workflow
  imports Amber_Prelude
begin

text \<open>
  \<open>governance/workflow.py\<close> (multi-stage approval requests and votes) and
  \<open>governance/rollback.py\<close> (plans of compensating steps and their execution).
\<close>

section \<open>Approval requests\<close>

datatype workflow_stage =
  SUBMITTED | AUTOMATED_CHECKS | HUMAN_REVIEW | STAGE_APPROVED | STAGE_REJECTED | STAGE_EXPIRED

record approval_vote =
  av_reviewer :: string
  av_approved :: bool
  av_comments :: string
  av_timestamp :: timestamp

record approval_request =
  ar_id :: string
  ar_requester :: string
  ar_title :: string
  ar_description :: string
  ar_stage :: workflow_stage
  ar_required :: int
  ar_votes :: "approval_vote list"
  ar_created :: timestamp
  ar_expires :: "timestamp option"

definition approval_count :: "approval_request \<Rightarrow> int" where
  "approval_count r = int (length (filter av_approved (ar_votes r)))"

definition rejection_count :: "approval_request \<Rightarrow> int" where
  "rejection_count r = int (length (filter (\<lambda>v. \<not> av_approved v) (ar_votes r)))"

definition is_finalized :: "approval_request \<Rightarrow> bool" where
  "is_finalized r = (ar_stage r \<in> {STAGE_APPROVED, STAGE_REJECTED, STAGE_EXPIRED})"

type_synonym workflow_engine = "(string, approval_request) pydict"

datatype workflow_error = KeyError string | ValueError workflow_stage

definition submit_request ::
  "string \<Rightarrow> timestamp \<Rightarrow> string \<Rightarrow> string \<Rightarrow> string \<Rightarrow> int \<Rightarrow> bool \<Rightarrow> workflow_engine
     \<Rightarrow> approval_request \<times> workflow_engine" where
  "submit_request rid now requester title description required auto_pass w =
     (let r = \<lparr>ar_id = rid, ar_requester = requester, ar_title = title,
               ar_description = description,
               ar_stage = (if auto_pass then AUTOMATED_CHECKS else SUBMITTED),
               ar_required = required, ar_votes = [], ar_created = now,
               ar_expires = Some (now + 86400)\<rparr>;
          r = (if auto_pass then r\<lparr>ar_stage := HUMAN_REVIEW\<rparr> else r)
      in (r, dset rid r w))"

definition get_request :: "workflow_engine \<Rightarrow> string \<Rightarrow> approval_request option" where
  "get_request w rid = dget w rid"

text \<open>\<open>req.expires_at and time.time() > req.expires_at\<close>: a zero expiry is falsy.\<close>

definition request_expired :: "timestamp \<Rightarrow> approval_request \<Rightarrow> bool" where
  "request_expired now r = (case ar_expires r of None \<Rightarrow> False | Some e \<Rightarrow> e \<noteq> 0 \<and> now > e)"

definition apply_vote :: "timestamp \<Rightarrow> string \<Rightarrow> bool \<Rightarrow> string \<Rightarrow> approval_request \<Rightarrow> approval_request" where
  "apply_vote now reviewer approved comments r =
     (let v = \<lparr>av_reviewer = reviewer, av_approved = approved, av_comments = comments,
               av_timestamp = now\<rparr>;
          r = r\<lparr>ar_votes := ar_votes r @ [v]\<rparr>
      in if \<not> approved then r\<lparr>ar_stage := STAGE_REJECTED\<rparr>
         else if approval_count r \<ge> ar_required r then r\<lparr>ar_stage := STAGE_APPROVED\<rparr>
         else r)"

definition cast_vote ::
  "timestamp \<Rightarrow> string \<Rightarrow> string \<Rightarrow> bool \<Rightarrow> string \<Rightarrow> workflow_engine
     \<Rightarrow> workflow_error + approval_request \<times> workflow_engine" where
  "cast_vote now rid reviewer approved comments w =
     (case dget w rid of
        None \<Rightarrow> Inl (KeyError rid)
      | Some r \<Rightarrow>
          if is_finalized r then Inl (ValueError (ar_stage r))
          else (let r' = (if request_expired now r then r\<lparr>ar_stage := STAGE_EXPIRED\<rparr>
                          else apply_vote now reviewer approved comments r)
                in Inr (r', dset rid r' w)))"

definition list_pending :: "workflow_engine \<Rightarrow> approval_request list" where
  "list_pending w = filter (\<lambda>r. \<not> is_finalized r) (dvals w)"

section \<open>Runs of the engine\<close>

text \<open>A step of the engine: a submission under a fresh identifier, or a vote that is accepted.\<close>

inductive wf_step :: "workflow_engine \<Rightarrow> workflow_engine \<Rightarrow> bool" where
  submit: "\<not> dhas w rid \<Longrightarrow>
     wf_step w (snd (submit_request rid now requester title description required auto_pass w))"
| vote: "cast_vote now rid reviewer approved comments w = Inr (r, w') \<Longrightarrow> wf_step w w'"

inductive_cases wf_stepE: "wf_step w w'"

inductive wf_reachable :: "workflow_engine \<Rightarrow> bool" where
  empty: "wf_reachable []"
| step: "wf_reachable w \<Longrightarrow> wf_step w w' \<Longrightarrow> wf_reachable w'"

text \<open>
  What the stage of a request says about its votes. An open request has no rejection and not
  yet enough approvals (or no vote at all); the final stages record how they were reached.
\<close>

definition request_inv :: "approval_request \<Rightarrow> bool" where
  "request_inv r \<longleftrightarrow>
     (case ar_stage r of
        STAGE_APPROVED \<Rightarrow> ar_votes r \<noteq> [] \<and> rejection_count r = 0 \<and> ar_required r \<le> approval_count r
      | STAGE_REJECTED \<Rightarrow> rejection_count r = 1 \<and> \<not> av_approved (last (ar_votes r)) \<and> ar_votes r \<noteq> []
      | STAGE_EXPIRED \<Rightarrow> rejection_count r = 0 \<and> (ar_votes r = [] \<or> approval_count r < ar_required r)
      | AUTOMATED_CHECKS \<Rightarrow> False
      | _ \<Rightarrow> rejection_count r = 0 \<and> (ar_votes r = [] \<or> approval_count r < ar_required r))"

definition engine_inv :: "workflow_engine \<Rightarrow> bool" where
  "engine_inv w \<longleftrightarrow> (\<forall>i r. dget w i = Some r \<longrightarrow> request_inv r)"

lemma open_request_inv:
  "\<not> is_finalized r \<Longrightarrow> request_inv r \<Longrightarrow>
     rejection_count r = 0 \<and> (ar_votes r = [] \<or> approval_count r < ar_required r)"
  by (cases "ar_stage r") (simp_all add: request_inv_def is_finalized_def)

lemma count_snoc:
  "approval_count (r\<lparr>ar_votes := ar_votes r @ [v]\<rparr>) = approval_count r + (if av_approved v then 1 else 0)"
  "rejection_count (r\<lparr>ar_votes := ar_votes r @ [v]\<rparr>) = rejection_count r + (if av_approved v then 0 else 1)"
  by (simp_all add: approval_count_def rejection_count_def)

lemma count_stage [simp]:
  "approval_count (r\<lparr>ar_stage := st\<rparr>) = approval_count r"
  "rejection_count (r\<lparr>ar_stage := st\<rparr>) = rejection_count r"
  by (simp_all add: approval_count_def rejection_count_def)

lemma apply_vote_inv:
  assumes "request_inv r" and "\<not> is_finalized r"
  shows "request_inv (apply_vote now reviewer approved comments r)"
proof -
  define v where "v = \<lparr>av_reviewer = reviewer, av_approved = approved, av_comments = comments,
      av_timestamp = now\<rparr>"
  define r1 where "r1 = r\<lparr>ar_votes := ar_votes r @ [v]\<rparr>"
  have r1: "ar_votes r1 = ar_votes r @ [v]" "ar_required r1 = ar_required r" "ar_stage r1 = ar_stage r"
      "rejection_count r1 = (if approved then 0 else 1)"
    using open_request_inv [OF assms(2,1)] by (simp_all add: r1_def count_snoc v_def)
  have eq: "apply_vote now reviewer approved comments r =
      (if \<not> approved then r1\<lparr>ar_stage := STAGE_REJECTED\<rparr>
       else if approval_count r1 \<ge> ar_required r1 then r1\<lparr>ar_stage := STAGE_APPROVED\<rparr> else r1)"
    by (simp add: apply_vote_def r1_def v_def Let_def)
  show ?thesis
  proof (cases "approved \<and> approval_count r1 < ar_required r1")
    case True
    then have "apply_vote now reviewer approved comments r = r1" unfolding eq by simp
    with True r1 assms show ?thesis by (cases "ar_stage r") (simp_all add: request_inv_def is_finalized_def)
  next
    case False
    with r1 show ?thesis by (auto simp: eq request_inv_def v_def)
  qed
qed

lemma cast_vote_Inr:
  assumes "cast_vote now rid reviewer approved comments w = Inr (r', w')"
  shows "\<exists>r. dget w rid = Some r \<and> \<not> is_finalized r \<and> w' = dset rid r' w
     \<and> r' = (if request_expired now r then r\<lparr>ar_stage := STAGE_EXPIRED\<rparr>
             else apply_vote now reviewer approved comments r)"
proof (cases "dget w rid")
  case None
  with assms show ?thesis by (simp add: cast_vote_def)
next
  case (Some r)
  show ?thesis
  proof (cases "is_finalized r")
    case True
    with assms Some show ?thesis by (simp add: cast_vote_def)
  next
    case False
    with assms Some show ?thesis by (auto simp: cast_vote_def Let_def)
  qed
qed

lemma cast_vote_inv:
  assumes "engine_inv w" and "cast_vote now rid reviewer approved comments w = Inr (r', w')"
  shows "engine_inv w'"
proof -
  obtain r where r: "dget w rid = Some r" and nf: "\<not> is_finalized r"
    and w': "w' = dset rid r' w"
    and r': "r' = (if request_expired now r then r\<lparr>ar_stage := STAGE_EXPIRED\<rparr>
                   else apply_vote now reviewer approved comments r)"
    using cast_vote_Inr [OF assms(2)] by blast
  have "request_inv r" using assms(1) r by (auto simp: engine_inv_def)
  moreover from this have "request_inv (r\<lparr>ar_stage := STAGE_EXPIRED\<rparr>)"
    using open_request_inv [OF nf] by (simp add: request_inv_def)
  ultimately have "request_inv r'" using apply_vote_inv nf by (simp add: r')
  with assms(1) show ?thesis by (auto simp: engine_inv_def w')
qed

lemma submit_inv:
  "engine_inv w \<Longrightarrow> engine_inv (snd (submit_request rid now requester title d required auto w))"
  by (auto simp: engine_inv_def submit_request_def request_inv_def rejection_count_def Let_def)

lemma wf_reachable_inv: "wf_reachable w \<Longrightarrow> engine_inv w"
proof (induction rule: wf_reachable.induct)
  case empty
  show ?case by (simp add: engine_inv_def)
next
  case (step w w')
  then show ?case by (auto elim!: wf_stepE intro: submit_inv cast_vote_inv)
qed

lemma wf_step_final:
  assumes "wf_step w w'" and "dget w rid = Some r" and "is_finalized r"
  shows "dget w' rid = Some r"
  using assms
proof (cases rule: wf_step.cases)
  case (submit rid' now requester title description required auto_pass)
  then show ?thesis using assms by (auto simp: submit_request_def Let_def dhas_def)
next
  case (vote now rid' reviewer approved comments r')
  then show ?thesis using assms cast_vote_Inr [of now rid' reviewer approved comments w r' w'] by auto
qed

text \<open>
  C21. In every reachable state of the engine an approved request has at least the required number
  of approving votes and no rejecting one, a rejected request was rejected by its last vote, and a
  request in a final stage is never changed again: every further vote on it raises.
\<close>

theorem workflow_decision_sound:
  assumes "wf_reachable w" and "dget w rid = Some r"
  shows "(ar_stage r = STAGE_APPROVED \<longrightarrow> ar_required r \<le> approval_count r \<and> rejection_count r = 0)
       \<and> (ar_stage r = STAGE_REJECTED \<longrightarrow> ar_votes r \<noteq> [] \<and> \<not> av_approved (last (ar_votes r)))
       \<and> (is_finalized r \<longrightarrow>
            cast_vote now rid reviewer approved comments w = Inl (ValueError (ar_stage r))
            \<and> (\<forall>w'. wf_step\<^sup>*\<^sup>* w w' \<longrightarrow> dget w' rid = Some r))"
proof (intro conjI impI allI)
  have inv: "request_inv r" using wf_reachable_inv [OF assms(1)] assms(2) by (auto simp: engine_inv_def)
  {
    assume "ar_stage r = STAGE_APPROVED"
    with inv show "ar_required r \<le> approval_count r" and "rejection_count r = 0"
      by (simp_all add: request_inv_def)
  }
  {
    assume "ar_stage r = STAGE_REJECTED"
    with inv show "ar_votes r \<noteq> []" and "\<not> av_approved (last (ar_votes r))"
      by (simp_all add: request_inv_def)
  }
  assume fin: "is_finalized r"
  with assms(2) show "cast_vote now rid reviewer approved comments w = Inl (ValueError (ar_stage r))"
    by (simp add: cast_vote_def)
  fix w'
  assume "wf_step\<^sup>*\<^sup>* w w'"
  then show "dget w' rid = Some r"
    by (induction rule: rtranclp_induct) (auto simp: assms(2) intro: wf_step_final [OF _ _ fin])
qed

theorem workflow_decision_sound_witness:
  "let w = snd (submit_request ''R'' 0 ''dev'' ''t'' '''' 1 True []);
       w' = snd (projr (cast_vote 5 ''R'' ''ann'' False '''' w))
   in cast_vote 6 ''R'' ''bob'' True '''' w' = Inl (ValueError STAGE_REJECTED)"
proof -
  define w where "w = snd (submit_request ''R'' 0 ''dev'' ''t'' '''' 1 True [])"
  define r' where "r' = fst (projr (cast_vote 5 ''R'' ''ann'' False '''' w))"
  define w' where "w' = snd (projr (cast_vote 5 ''R'' ''ann'' False '''' w))"
  have v: "cast_vote 5 ''R'' ''ann'' False '''' w = Inr (r', w')"
    by (simp add: r'_def w'_def w_def submit_request_def cast_vote_def is_finalized_def Let_def)
  have s: "ar_stage r' = STAGE_REJECTED" "dget w' ''R'' = Some r'"
    by (simp_all add: r'_def w'_def w_def submit_request_def cast_vote_def is_finalized_def
        request_expired_def apply_vote_def Let_def)
  have "wf_step [] w" unfolding w_def by (rule wf_step.submit) (simp add: dhas_def)
  moreover have "wf_step w w'" using v by (rule wf_step.vote)
  ultimately have "wf_reachable w'" by (blast intro: wf_reachable.intros)
  from workflow_decision_sound [OF this s(2), of 6 "''bob''" True "''''"] s(1)
  show ?thesis by (simp add: is_finalized_def w_def w'_def Let_def)
qed

text \<open>
  Votes are counted, not voters: one reviewer who votes twice gets a request approved that
  requires two approvals, even when the request was submitted without passing the automated
  checks.
\<close>

theorem workflow_single_reviewer_suffices:
  fixes reviewer :: string
  assumes "\<not> dhas w rid" and "0 \<le> now"
    and "w1 = snd (submit_request rid now requester title d 2 False w)"
  shows "\<exists>r2 w2 r3 w3.
           cast_vote now rid reviewer True c w1 = Inr (r2, w2)
         \<and> cast_vote now rid reviewer True c w2 = Inr (r3, w3)
         \<and> ar_stage r3 = STAGE_APPROVED \<and> (\<forall>v \<in> set (ar_votes r3). av_reviewer v = reviewer)"
  using assms
  by (simp add: submit_request_def cast_vote_def is_finalized_def request_expired_def apply_vote_def
      approval_count_def Let_def)

theorem workflow_single_reviewer_suffices_witness:
  "\<exists>r2 w2 r3 w3.
           cast_vote 0 ''R'' ''eve'' True '''' (snd (submit_request ''R'' 0 ''eve'' ''t'' '''' 2 False [])) = Inr (r2, w2)
         \<and> cast_vote 0 ''R'' ''eve'' True '''' w2 = Inr (r3, w3)
         \<and> ar_stage r3 = STAGE_APPROVED \<and> (\<forall>v \<in> set (ar_votes r3). av_reviewer v = ''eve'')"
  by (rule workflow_single_reviewer_suffices [where w = "[]"]) (simp_all add: dhas_def)

section \<open>Rollback plans\<close>

datatype rollback_status = RB_PENDING | RB_EXECUTING | RB_COMPLETED | RB_FAILED

record rollback_step =
  rs_id :: string
  rs_action_type :: string
  rs_target :: string
  rs_parameters :: "(string, json) pydict"
  rs_status :: rollback_status
  rs_error :: "string option"

record rollback_plan =
  rp_id :: string
  rp_action_id :: string
  rp_created :: timestamp
  rp_steps :: "rollback_step list"
  rp_status :: rollback_status

text \<open>A handler returns a flag or raises (\<open>Inl\<close> of the exception's text).\<close>

type_synonym rollback_handler = "rollback_step \<Rightarrow> string + bool"

record rollback_manager =
  rm_plans :: "(string, rollback_plan) pydict"
  rm_handlers :: "(string, rollback_handler) pydict"

definition handle_generic_noop :: rollback_handler where
  "handle_generic_noop s = Inr True"

definition new_rollback_manager :: rollback_manager where
  "new_rollback_manager =
     \<lparr>rm_plans = [],
      rm_handlers = [(''noop'', handle_generic_noop), (''file_restore'', handle_generic_noop),
        (''state_reset'', handle_generic_noop), (''git_revert'', handle_generic_noop)]\<rparr>"

definition register_handler :: "string \<Rightarrow> rollback_handler \<Rightarrow> rollback_manager \<Rightarrow> rollback_manager" where
  "register_handler ty h m = m\<lparr>rm_handlers := dset ty h (rm_handlers m)\<rparr>"

definition create_plan ::
  "string \<Rightarrow> timestamp \<Rightarrow> string \<Rightarrow> rollback_manager \<Rightarrow> rollback_plan \<times> rollback_manager" where
  "create_plan pid now aid m =
     (let p = \<lparr>rp_id = pid, rp_action_id = aid, rp_created = now, rp_steps = [],
               rp_status = RB_PENDING\<rparr>
      in (p, m\<lparr>rm_plans := dset pid p (rm_plans m)\<rparr>))"

definition add_step ::
  "string \<Rightarrow> string \<Rightarrow> string \<Rightarrow> string \<Rightarrow> (string, json) pydict \<Rightarrow> rollback_manager
     \<Rightarrow> workflow_error + rollback_step \<times> rollback_manager" where
  "add_step sid pid ty target params m =
     (case dget (rm_plans m) pid of
        None \<Rightarrow> Inl (KeyError pid)
      | Some p \<Rightarrow>
          (let s = \<lparr>rs_id = sid, rs_action_type = ty, rs_target = target, rs_parameters = params,
                    rs_status = RB_PENDING, rs_error = None\<rparr>
           in Inr (s, m\<lparr>rm_plans := dset pid (p\<lparr>rp_steps := rp_steps p @ [s]\<rparr>) (rm_plans m)\<rparr>)))"

text \<open>
  \<open>self._handlers.get(step.action_type, self._handlers["noop"])\<close>: the default is looked up first
  and raises when it is missing; \<open>new_rollback_manager\<close> registers it and nothing removes it.
\<close>

definition handler_for :: "(string, rollback_handler) pydict \<Rightarrow> rollback_step \<Rightarrow> rollback_handler" where
  "handler_for hs s =
     (case dget hs (rs_action_type s) of Some h \<Rightarrow> h
      | None \<Rightarrow> (case dget hs ''noop'' of Some h \<Rightarrow> h | None \<Rightarrow> (\<lambda>_. Inl ''noop'')))"

definition run_step :: "(string, rollback_handler) pydict \<Rightarrow> rollback_step \<Rightarrow> rollback_step \<times> bool" where
  "run_step hs s =
     (let s = s\<lparr>rs_status := RB_EXECUTING\<rparr> in
      case handler_for hs s s of
        Inr True \<Rightarrow> (s\<lparr>rs_status := RB_COMPLETED\<rparr>, False)
      | Inr False \<Rightarrow> (s\<lparr>rs_status := RB_FAILED, rs_error := Some ''Handler returned False''\<rparr>, True)
      | Inl e \<Rightarrow> (s\<lparr>rs_status := RB_FAILED, rs_error := Some e\<rparr>, True))"

fun run_steps ::
  "(string, rollback_handler) pydict \<Rightarrow> rollback_step list \<Rightarrow> bool \<Rightarrow> rollback_step list \<times> bool" where
  "run_steps hs [] failure = ([], failure)"
| "run_steps hs (s # ss) failure =
     (let (s', f) = run_step hs s; (ss', failure') = run_steps hs ss (failure \<or> f)
      in (s' # ss', failure'))"

definition execute_plan ::
  "string \<Rightarrow> rollback_manager \<Rightarrow> workflow_error + rollback_plan \<times> rollback_manager" where
  "execute_plan pid m =
     (case dget (rm_plans m) pid of
        None \<Rightarrow> Inl (KeyError pid)
      | Some p \<Rightarrow>
          (let (steps, failure) = run_steps (rm_handlers m) (rp_steps p) False;
               p' = p\<lparr>rp_steps := steps,
                      rp_status := (if failure then RB_FAILED else RB_COMPLETED)\<rparr>
           in Inr (p', m\<lparr>rm_plans := dset pid p' (rm_plans m)\<rparr>)))"

definition get_plan :: "rollback_manager \<Rightarrow> string \<Rightarrow> rollback_plan option" where
  "get_plan m pid = dget (rm_plans m) pid"

definition step_succeeds :: "(string, rollback_handler) pydict \<Rightarrow> rollback_step \<Rightarrow> bool" where
  "step_succeeds hs s =
     (handler_for hs (s\<lparr>rs_status := RB_EXECUTING\<rparr>) (s\<lparr>rs_status := RB_EXECUTING\<rparr>) = Inr True)"

lemma run_step_eq:
  "snd (run_step hs s) = (\<not> step_succeeds hs s)"
  "rs_status (fst (run_step hs s)) = (if step_succeeds hs s then RB_COMPLETED else RB_FAILED)"
  "rs_id (fst (run_step hs s)) = rs_id s" "rs_target (fst (run_step hs s)) = rs_target s"
  by (auto simp: run_step_def step_succeeds_def Let_def split: sum.splits bool.splits)

lemma run_steps_eq:
  "run_steps hs ss failure =
     (map (\<lambda>s. fst (run_step hs s)) ss, failure \<or> \<not> list_all (step_succeeds hs) ss)"
  by (induction ss arbitrary: failure) (auto simp: split_def Let_def run_step_eq)

text \<open>
  Executing a plan runs every step in order, also after a failure: the plan keeps its steps,
  each ends completed or failed according to its own handler, the plan is completed exactly when
  every handler returned true, and an unknown plan raises without an effect.
\<close>

theorem execute_plan_outcome:
  "(dget (rm_plans m) pid = None \<longrightarrow> execute_plan pid m = Inl (KeyError pid))
   \<and> (dget (rm_plans m) pid = Some p \<longrightarrow>
        (\<exists>p' m'. execute_plan pid m = Inr (p', m') \<and> get_plan m' pid = Some p'
          \<and> map rs_id (rp_steps p') = map rs_id (rp_steps p)
          \<and> map rs_status (rp_steps p')
              = map (\<lambda>s. if step_succeeds (rm_handlers m) s then RB_COMPLETED else RB_FAILED) (rp_steps p)
          \<and> (rp_status p' = RB_COMPLETED \<longleftrightarrow> list_all (step_succeeds (rm_handlers m)) (rp_steps p))
          \<and> rp_status p' \<in> {RB_COMPLETED, RB_FAILED}))"
  by (auto simp: execute_plan_def get_plan_def run_steps_eq run_step_eq Let_def)

theorem execute_plan_outcome_witness:
  "execute_plan ''P'' new_rollback_manager = Inl (KeyError ''P'')"
  using execute_plan_outcome [of new_rollback_manager "''P''" undefined]
  by (simp add: new_rollback_manager_def)

end
