(* ===== verification/Audit_Chain.thy ===== *)
theory Audit_Chain
  imports Amber_Prelude
begin

text \<open>
  The two hash-chained logs: \<open>governance/audit.py\<close> (one file per day) and \<open>security/audit.py\<close> (one
  file, entries scrubbed of secrets). A log file is its list of lines, each read by
  \<open>json.loads\<close>. SHA-256, the rendering of floats and containers inside an f-string and
  \<open>json.dumps(..., sort_keys=True)\<close> are the fields of \<open>hash_env\<close>: nothing is assumed of them but the
  64 characters of a hex digest, where a theorem says so. What both verifiers share is the locale
  \<open>chained_log\<close>.
\<close>

section \<open>Lines and hashing\<close>

datatype log_line =
    Blank
  | Malformed
  | NonObject
  | Fields "(string, json) pydict"

record hash_env =
  he_sha256 :: "string \<Rightarrow> string"
  he_repr :: "json \<Rightarrow> string"
  he_dumps :: "json \<Rightarrow> string"

definition hex64 :: "hash_env \<Rightarrow> bool" where
  "hex64 env \<longleftrightarrow> (\<forall>x. length (he_sha256 env x) = 64)"

definition zero_hash :: string where
  "zero_hash = replicate 64 (CHR ''0'')"

text \<open>A value inside an f-string.\<close>

fun fstr :: "hash_env \<Rightarrow> json \<Rightarrow> string" where
  "fstr env JNull = ''None''"
| "fstr env (JBool b) = (if b then ''True'' else ''False'')"
| "fstr env (JInt i) = show_int i"
| "fstr env (JStr s) = s"
| "fstr env j = he_repr env j"

text \<open>Python's \<open>value == n\<close> for an integer \<open>n\<close>: floats and booleans compare as numbers.\<close>

fun json_eq_int :: "json option \<Rightarrow> int \<Rightarrow> bool" where
  "json_eq_int (Some (JInt i)) n = (i = n)"
| "json_eq_int (Some (JFloat x)) n = (x = of_int n)"
| "json_eq_int (Some (JBool b)) n = ((if b then 1 else 0) = n)"
| "json_eq_int _ n = False"

fun entries :: "log_line list \<Rightarrow> (string, json) pydict list" where
  "entries [] = []"
| "entries (Fields e # ls) = e # entries ls"
| "entries (l # ls) = entries ls"

lemma entries_append [simp]: "entries (xs @ ys) = entries xs @ entries ys"
  by (induction xs rule: entries.induct) simp_all

section \<open>Interface: a chained log\<close>

text \<open>
  The walk of a verifier over the entries: each is accepted or not against the expected index
  and previous hash, and an accepted one gives the next expected hash. \<open>None\<close> is a rejected log.
\<close>

fun chain_tip :: "(int \<Rightarrow> string \<Rightarrow> 'e \<Rightarrow> string option) \<Rightarrow> int \<Rightarrow> string \<Rightarrow> 'e list \<Rightarrow> string option" where
  "chain_tip acc i p [] = Some p"
| "chain_tip acc i p (e # es) = (case acc i p e of None \<Rightarrow> None | Some h \<Rightarrow> chain_tip acc (i + 1) h es)"

text \<open>The strings that are hashed along the walk.\<close>

fun chain_inputs ::
  "(int \<Rightarrow> string \<Rightarrow> 'e \<Rightarrow> string option) \<Rightarrow> ('e \<Rightarrow> string) \<Rightarrow> int \<Rightarrow> string \<Rightarrow> 'e list \<Rightarrow> string list" where
  "chain_inputs acc hea i p [] = []"
| "chain_inputs acc hea i p (e # es) =
     (hea e @ ''|'' @ p) # (case acc i p e of None \<Rightarrow> [] | Some h \<Rightarrow> chain_inputs acc hea (i + 1) h es)"

lemma chain_inputs_snoc:
  "chain_tip acc i p xs = Some g \<Longrightarrow>
     chain_inputs acc hea i p (xs @ [x]) = chain_inputs acc hea i p xs @ [hea x @ ''|'' @ g]"
  by (induction xs arbitrary: i p) (auto split: option.splits)

lemma chain_tip_append:
  "chain_tip acc i p (xs @ ys) =
     (case chain_tip acc i p xs of None \<Rightarrow> None | Some h \<Rightarrow> chain_tip acc (i + int (length xs)) h ys)"
  by (induction xs arbitrary: i p) (simp_all split: option.splits add: ac_simps)

lemma chain_tip_take: "chain_tip acc i p xs \<noteq> None \<Longrightarrow> chain_tip acc i p (take n xs) \<noteq> None"
  using chain_tip_append [of acc i p "take n xs" "drop n xs"] by (auto split: option.splits)

locale chained_log =
  fixes accepts :: "int \<Rightarrow> string \<Rightarrow> 'e \<Rightarrow> string option"
    and digest :: "string \<Rightarrow> string"
    and head :: "'e \<Rightarrow> string"
  assumes accepts_digest: "accepts i p e = Some h \<Longrightarrow> h = digest (head e @ ''|'' @ p)"
begin

lemma tip_snoc:
  assumes "chain_tip accepts i p (xs @ [x]) = Some h"
  shows "\<exists>g. chain_tip accepts i p xs = Some g \<and> h = digest (head x @ ''|'' @ g)"
  using assms accepts_digest by (auto simp: chain_tip_append split: option.splits)

lemma tip_length:
  assumes "\<And>x. length (digest x) = n" and "length p = n"
  shows "chain_tip accepts i p xs = Some h \<Longrightarrow> length h = n"
  using assms
proof (induction xs arbitrary: i p)
  case Nil
  then show ?case by simp
next
  case (Cons x xs)
  from Cons.prems(1) obtain g where g: "accepts i p x = Some g"
    and t: "chain_tip accepts (i + 1) g xs = Some h" by (auto split: option.splits)
  have "length g = n" using accepts_digest [OF g] Cons.prems(2) by simp
  with Cons.IH [OF t Cons.prems(2)] show ?case by simp
qed

lemma same_tip_same_heads:
  assumes "chain_tip accepts i p xs = Some h" and "chain_tip accepts i p ys = Some h"
    and "length xs = length ys"
    and inj: "inj_on digest (set (chain_inputs accepts head i p xs) \<union> set (chain_inputs accepts head i p ys))"
    and len: "\<And>x. length (digest x) = n" "length p = n"
  shows "map head xs = map head ys"
  using assms(1-4)
proof (induction xs arbitrary: ys h rule: rev_induct)
  case Nil
  then show ?case by simp
next
  case (snoc x xs)
  from snoc.prems(3) obtain y ys' where ys: "ys = ys' @ [y]" by (cases ys rule: rev_cases) auto
  from tip_snoc [OF snoc.prems(1)] obtain g where g: "chain_tip accepts i p xs = Some g"
    "h = digest (head x @ ''|'' @ g)" by blast
  from tip_snoc snoc.prems(2) ys obtain g' where g': "chain_tip accepts i p ys' = Some g'"
    "h = digest (head y @ ''|'' @ g')" by blast
  note inputs = chain_inputs_snoc [OF g(1), of head x] chain_inputs_snoc [OF g'(1), of head y]
  have inj: "inj_on digest (set (chain_inputs accepts head i p (xs @ [x])) \<union>
      set (chain_inputs accepts head i p (ys' @ [y])))" using snoc.prems(4) ys by simp
  have eq: "head x @ ''|'' @ g = head y @ ''|'' @ g'"
    by (rule inj_onD [OF inj]) (use g(2) g'(2) in \<open>auto simp: inputs\<close>)
  have "length g = length g'"
    using tip_length [OF len g(1)] tip_length [OF len g'(1)] by simp
  with eq have "g = g'" and hdeq: "head x = head y" by simp_all
  moreover have "inj_on digest (set (chain_inputs accepts head i p xs) \<union> set (chain_inputs accepts head i p ys'))"
    by (rule inj_on_subset [OF inj]) (auto simp: inputs)
  ultimately have "map head xs = map head ys'"
    using snoc.prems(3) ys by (intro snoc.IH [OF g(1)]) (auto simp: g')
  with hdeq ys show ?case by simp
qed

end

section \<open>The governance log\<close>

record audit_record =
  au_index :: int
  au_timestamp :: string
  au_action :: string
  au_actor :: string
  au_target :: "string option"
  au_details :: "(string, json) pydict"
  au_previous_hash :: string
  au_hash :: string

definition json_opt :: "string option \<Rightarrow> json" where
  "json_opt s = (case s of None \<Rightarrow> JNull | Some x \<Rightarrow> JStr x)"

text \<open>\<open>log_entry\<close>: the keys in the order of the literal, the hash last.\<close>

definition record_fields :: "audit_record \<Rightarrow> (string, json) pydict" where
  "record_fields r =
     [(''index'', JInt (au_index r)), (''timestamp'', JStr (au_timestamp r)),
      (''action'', JStr (au_action r)), (''actor_id'', JStr (au_actor r)),
      (''target_id'', json_opt (au_target r)), (''details'', JObj (au_details r)),
      (''previous_hash'', JStr (au_previous_hash r)), (''hash'', JStr (au_hash r))]"

text \<open>The payload before its last separator, with the defaults of \<open>verify_chain\<close>'s \<open>entry.get\<close>.\<close>

definition gov_head :: "hash_env \<Rightarrow> (string, json) pydict \<Rightarrow> string" where
  "gov_head env e =
     fstr env (dgetd e ''index'' (JInt 0)) @ ''|'' @ fstr env (dgetd e ''timestamp'' (JStr []))
     @ ''|'' @ fstr env (dgetd e ''action'' (JStr [])) @ ''|'' @ fstr env (dgetd e ''actor_id'' (JStr []))
     @ ''|'' @ fstr env (dgetd e ''target_id'' JNull) @ ''|'' @ he_dumps env (dgetd e ''details'' (JObj []))"

definition gov_calculate_hash :: "hash_env \<Rightarrow> (string, json) pydict \<Rightarrow> string" where
  "gov_calculate_hash env e =
     he_sha256 env (gov_head env e @ ''|'' @ fstr env (dgetd e ''previous_hash'' (JStr [])))"

text \<open>One file per day, by the date string of its name.\<close>

type_synonym audit_dir = "(string, log_line list) pydict"

text \<open>
  \<open>AuditRecord.model_validate_json\<close> of a line is the parameter \<open>vd\<close>; pydantic accepts what the
  logger wrote.
\<close>

definition validates_written :: "(log_line \<Rightarrow> audit_record option) \<Rightarrow> bool" where
  "validates_written vd \<longleftrightarrow> (\<forall>r. vd (Fields (record_fields r)) = Some r)"

definition get_last_record :: "(log_line \<Rightarrow> audit_record option) \<Rightarrow> log_line list \<Rightarrow> audit_record option" where
  "get_last_record vd ls =
     (let lines = filter (\<lambda>l. l \<noteq> Blank) ls in if lines = [] then None else vd (last lines))"

definition log_action ::
  "hash_env \<Rightarrow> (log_line \<Rightarrow> audit_record option) \<Rightarrow> string \<Rightarrow> string \<Rightarrow> string \<Rightarrow> string
     \<Rightarrow> (string, json) pydict option \<Rightarrow> string option \<Rightarrow> audit_dir \<Rightarrow> audit_record \<times> audit_dir" where
  "log_action env vd date timestamp actor action details target d =
     (let ls = dgetd d date [];
          last_record = get_last_record vd ls;
          r = \<lparr>au_index = (case last_record of Some l \<Rightarrow> au_index l + 1 | None \<Rightarrow> 0),
               au_timestamp = timestamp, au_action = action, au_actor = actor, au_target = target,
               au_details = (case details of None \<Rightarrow> [] | Some x \<Rightarrow> x),
               au_previous_hash = (case last_record of Some l \<Rightarrow> au_hash l | None \<Rightarrow> zero_hash),
               au_hash = []\<rparr>;
          r = r\<lparr>au_hash := gov_calculate_hash env (record_fields r)\<rparr>
      in (r, dset date (ls @ [Fields (record_fields r)]) d))"

text \<open>
  \<open>verify_chain\<close> on the lines: \<open>None\<close> is the \<open>AttributeError\<close> of \<open>.get\<close> on a line that is JSON but
  not an object, which nothing catches.
\<close>

fun verify_lines :: "hash_env \<Rightarrow> int \<Rightarrow> string \<Rightarrow> log_line list \<Rightarrow> bool option" where
  "verify_lines env i p [] = Some True"
| "verify_lines env i p (Blank # ls) = verify_lines env i p ls"
| "verify_lines env i p (Malformed # ls) = Some False"
| "verify_lines env i p (NonObject # ls) = None"
| "verify_lines env i p (Fields e # ls) =
     (if \<not> json_eq_int (dget e ''index'') i then Some False
      else if dget e ''previous_hash'' \<noteq> Some (JStr p) then Some False
      else (let h = gov_calculate_hash env e
            in if dget e ''hash'' \<noteq> Some (JStr h) then Some False
               else verify_lines env (i + 1) h ls))"

definition verify_chain :: "hash_env \<Rightarrow> audit_dir \<Rightarrow> string \<Rightarrow> bool option" where
  "verify_chain env d date =
     (case dget d date of None \<Rightarrow> Some True | Some ls \<Rightarrow> verify_lines env 0 zero_hash ls)"

record audit_query =
  aq_action :: "string option"
  aq_actor :: "string option"
  aq_start :: "string option"
  aq_end :: "string option"
  aq_limit :: int

text \<open>\<open>if query.f and ...\<close>: an empty string is no filter.\<close>

definition given :: "string option \<Rightarrow> (string \<Rightarrow> bool) \<Rightarrow> bool" where
  "given f P = (case f of None \<Rightarrow> True | Some x \<Rightarrow> x = [] \<or> P x)"

definition query_matches :: "audit_query \<Rightarrow> audit_record \<Rightarrow> bool" where
  "query_matches q r \<longleftrightarrow> given (aq_action q) (\<lambda>x. au_action r = x)
     \<and> given (aq_actor q) (\<lambda>x. au_actor r = x)
     \<and> given (aq_start q) (\<lambda>x. \<not> au_timestamp r < x)
     \<and> given (aq_end q) (\<lambda>x. \<not> au_timestamp r > x)"

fun query_lines ::
  "(log_line \<Rightarrow> audit_record option) \<Rightarrow> audit_query \<Rightarrow> log_line list \<Rightarrow> audit_record list
     \<Rightarrow> bool \<times> audit_record list" where
  "query_lines vd q [] acc = (False, acc)"
| "query_lines vd q (l # ls) acc =
     (if l = Blank then query_lines vd q ls acc
      else case vd l of
        None \<Rightarrow> query_lines vd q ls acc
      | Some r \<Rightarrow>
          if \<not> query_matches q r then query_lines vd q ls acc
          else if int (length (acc @ [r])) \<ge> aq_limit q then (True, acc @ [r])
          else query_lines vd q ls (acc @ [r]))"

fun query_files ::
  "(log_line \<Rightarrow> audit_record option) \<Rightarrow> audit_query \<Rightarrow> log_line list list \<Rightarrow> audit_record list
     \<Rightarrow> audit_record list" where
  "query_files vd q [] acc = acc"
| "query_files vd q (f # fs) acc =
     (case query_lines vd q f acc of (True, acc) \<Rightarrow> acc | (False, acc) \<Rightarrow> query_files vd q fs acc)"

definition audit_query_run ::
  "(log_line \<Rightarrow> audit_record option) \<Rightarrow> audit_query \<Rightarrow> audit_dir \<Rightarrow> audit_record list" where
  "audit_query_run vd q d = query_files vd q (map snd (sorted_desc fst d)) []"

section \<open>What the governance log guarantees\<close>

definition gov_accepts :: "hash_env \<Rightarrow> int \<Rightarrow> string \<Rightarrow> (string, json) pydict \<Rightarrow> string option" where
  "gov_accepts env i p e =
     (if json_eq_int (dget e ''index'') i \<and> dget e ''previous_hash'' = Some (JStr p)
         \<and> dget e ''hash'' = Some (JStr (gov_calculate_hash env e))
      then Some (gov_calculate_hash env e) else None)"

interpretation gov_log: chained_log "gov_accepts env" "he_sha256 env" "gov_head env" for env
  by unfold_locales
    (auto simp: gov_accepts_def gov_calculate_hash_def dgetd_def split: if_splits)

definition well_formed_line :: "log_line \<Rightarrow> bool" where
  "well_formed_line l = (l \<noteq> Malformed \<and> l \<noteq> NonObject)"

lemma verify_lines_iff:
  "verify_lines env i p ls = Some True \<longleftrightarrow>
     list_all well_formed_line ls \<and> chain_tip (gov_accepts env) i p (entries ls) \<noteq> None"
  by (induction env i p ls rule: verify_lines.induct)
     (auto simp: well_formed_line_def gov_accepts_def Let_def)

text \<open>The hash stored in the last entry of a file.\<close>

definition last_hash :: "log_line list \<Rightarrow> json option" where
  "last_hash ls = (if entries ls = [] then Some (JStr zero_hash) else dget (last (entries ls)) ''hash'')"

lemma verified_tip:
  assumes "verify_lines env 0 zero_hash ls = Some True"
  shows "\<exists>h. chain_tip (gov_accepts env) 0 zero_hash (entries ls) = Some h \<and> last_hash ls = Some (JStr h)"
proof -
  from assms obtain h where h: "chain_tip (gov_accepts env) 0 zero_hash (entries ls) = Some h"
    by (auto simp: verify_lines_iff)
  show ?thesis
  proof (cases "entries ls" rule: rev_cases)
    case Nil
    with h show ?thesis by (simp add: last_hash_def)
  next
    case (snoc es e)
    with h have "dget e ''hash'' = Some (JStr h)"
      by (auto simp: chain_tip_append gov_accepts_def split: option.splits if_splits)
    with h snoc show ?thesis by (simp add: last_hash_def)
  qed
qed

text \<open>Every string that the verification of a file hashes.\<close>

definition gov_payloads :: "hash_env \<Rightarrow> log_line list \<Rightarrow> string set" where
  "gov_payloads env ls = set (chain_inputs (gov_accepts env) (gov_head env) 0 zero_hash (entries ls))"

text \<open>
  C33. Tamper evidence: two log files with equally many entries that both verify and end in the same stored hash
  have the same sequence of hashed payloads, entry by entry, unless SHA-256 maps two different strings hashed in
  these files to one digest. Equal payloads need not come from equal entries: the payload joins its fields with a
  bar.
\<close>

theorem audit_tamper_evident:
  assumes "hex64 env"
    and "verify_lines env 0 zero_hash ls = Some True" and "verify_lines env 0 zero_hash ms = Some True"
    and "length (entries ls) = length (entries ms)" and "last_hash ls = last_hash ms"
    and "inj_on (he_sha256 env) (gov_payloads env ls \<union> gov_payloads env ms)"
  shows "map (gov_head env) (entries ls) = map (gov_head env) (entries ms)"
proof -
  obtain h where h: "chain_tip (gov_accepts env) 0 zero_hash (entries ls) = Some h"
    "last_hash ls = Some (JStr h)" using verified_tip [OF assms(2)] by blast
  have h': "chain_tip (gov_accepts env) 0 zero_hash (entries ms) = Some h"
    using verified_tip [OF assms(3)] h(2) assms(5) by auto
  have "length (he_sha256 env x) = 64" for x using assms(1) by (simp add: hex64_def)
  moreover have "length zero_hash = 64" by (simp add: zero_hash_def)
  ultimately show ?thesis
    using assms(4,6) unfolding gov_payloads_def
    by (intro gov_log.same_tip_same_heads [OF h(1) h'])
qed

text \<open>A directory written by the logger alone.\<close>

definition chain_written :: "hash_env \<Rightarrow> audit_record list \<Rightarrow> bool" where
  "chain_written env rs \<longleftrightarrow>
     chain_tip (gov_accepts env) 0 zero_hash (map record_fields rs) =
       Some (if rs = [] then zero_hash else au_hash (last rs))
     \<and> (rs \<noteq> [] \<longrightarrow> au_index (last rs) = int (length rs) - 1)"

definition file_written :: "hash_env \<Rightarrow> log_line list \<Rightarrow> bool" where
  "file_written env ls \<longleftrightarrow> (\<exists>rs. ls = map (\<lambda>r. Fields (record_fields r)) rs \<and> chain_written env rs)"

definition dir_written :: "hash_env \<Rightarrow> audit_dir \<Rightarrow> bool" where
  "dir_written env d \<longleftrightarrow> (\<forall>date. file_written env (dgetd d date []))"

lemma entries_written [simp]: "entries (map (\<lambda>r. Fields (record_fields r)) rs) = map record_fields rs"
  by (induction rs) simp_all

lemma get_last_written:
  assumes "validates_written vd"
  shows "get_last_record vd (map (\<lambda>r. Fields (record_fields r)) rs) = (if rs = [] then None else Some (last rs))"
proof -
  have "filter (\<lambda>l. l \<noteq> Blank) (map (\<lambda>r. Fields (record_fields r)) rs) = map (\<lambda>r. Fields (record_fields r)) rs"
    by (induction rs) simp_all
  then show ?thesis using assms by (simp add: get_last_record_def validates_written_def last_map)
qed

lemma gov_hash_indep [simp]:
  "gov_calculate_hash env (record_fields (r\<lparr>au_hash := h\<rparr>)) = gov_calculate_hash env (record_fields r)"
  by (simp add: gov_calculate_hash_def gov_head_def record_fields_def dgetd_def)

lemma log_action_written:
  assumes vd: "validates_written vd" and "dir_written env d"
  shows "dir_written env (snd (log_action env vd date ts actor action details target d))"
proof -
  obtain rs where ls: "dgetd d date [] = map (\<lambda>r. Fields (record_fields r)) rs"
    and ok: "chain_written env rs" using assms(2) by (auto simp: dir_written_def file_written_def)
  define r0 where "r0 = \<lparr>au_index = int (length rs), au_timestamp = ts, au_action = action,
     au_actor = actor, au_target = target, au_details = (case details of None \<Rightarrow> [] | Some x \<Rightarrow> x),
     au_previous_hash = (if rs = [] then zero_hash else au_hash (last rs)), au_hash = []\<rparr>"
  define r where "r = r0\<lparr>au_hash := gov_calculate_hash env (record_fields r0)\<rparr>"
  have res: "snd (log_action env vd date ts actor action details target d) =
      dset date (map (\<lambda>r. Fields (record_fields r)) (rs @ [r])) d"
    using ok by (simp add: log_action_def ls get_last_written [OF vd] r_def r0_def chain_written_def Let_def)
  have "gov_accepts env (int (length rs)) (if rs = [] then zero_hash else au_hash (last rs)) (record_fields r)
      = Some (au_hash r)"
    by (simp add: gov_accepts_def r_def) (simp add: r0_def record_fields_def)
  then have "chain_written env (rs @ [r])"
    using ok by (simp add: chain_written_def chain_tip_append) (simp add: r_def r0_def)
  then have "file_written env (map (\<lambda>r. Fields (record_fields r)) (rs @ [r]))"
    unfolding file_written_def by blast
  with assms(2) show ?thesis unfolding res by (auto simp: dir_written_def)
qed

text \<open>Runs of the logger: the arguments of one call.\<close>

record audit_call =
  ac_date :: string
  ac_timestamp :: string
  ac_actor :: string
  ac_action :: string
  ac_details :: "(string, json) pydict option"
  ac_target :: "string option"

definition audit_step ::
  "hash_env \<Rightarrow> (log_line \<Rightarrow> audit_record option) \<Rightarrow> audit_call \<Rightarrow> audit_dir \<Rightarrow> audit_dir" where
  "audit_step env vd c d =
     snd (log_action env vd (ac_date c) (ac_timestamp c) (ac_actor c) (ac_action c) (ac_details c)
            (ac_target c) d)"

definition audit_inv :: "hash_env \<Rightarrow> (log_line \<Rightarrow> audit_record option) \<Rightarrow> audit_dir \<Rightarrow> bool" where
  "audit_inv env vd d \<longleftrightarrow> (validates_written vd \<longrightarrow> dir_written env d)"

interpretation audit: machine "audit_step env vd" "audit_inv env vd" for env vd
  by unfold_locales (auto simp: audit_inv_def audit_step_def intro: log_action_written)

lemma audit_inv_new: "audit_inv env vd []"
  by (auto simp: audit_inv_def dir_written_def file_written_def chain_written_def)

lemma file_written_verifies:
  assumes "file_written env ls"
  shows "verify_lines env 0 zero_hash (take n ls) = Some True"
proof -
  obtain rs where ls: "ls = map (\<lambda>r. Fields (record_fields r)) rs" and ok: "chain_written env rs"
    using assms by (auto simp: file_written_def)
  have "chain_tip (gov_accepts env) 0 zero_hash (take n (map record_fields rs)) \<noteq> None"
    using ok by (intro chain_tip_take) (simp add: chain_written_def)
  moreover have "entries (take n ls) = take n (map record_fields rs)"
    by (simp add: ls take_map)
  moreover have "list_all well_formed_line (take n ls)"
    by (auto simp: ls take_map list_all_iff well_formed_line_def)
  ultimately show ?thesis by (simp add: verify_lines_iff)
qed

text \<open>A reader of lines that accepts what the logger writes, for the examples.\<close>

fun json_str :: "json option \<Rightarrow> string" where
  "json_str (Some (JStr s)) = s"
| "json_str _ = []"

definition read_record :: "log_line \<Rightarrow> audit_record option" where
  "read_record l =
     (case l of
        Fields e \<Rightarrow>
          (case (dget e ''index'', dget e ''details'') of
             (Some (JInt i), Some (JObj d)) \<Rightarrow>
               Some \<lparr>au_index = i, au_timestamp = json_str (dget e ''timestamp''),
                     au_action = json_str (dget e ''action''), au_actor = json_str (dget e ''actor_id''),
                     au_target = (case dget e ''target_id'' of Some (JStr s) \<Rightarrow> Some s | _ \<Rightarrow> None),
                     au_details = d, au_previous_hash = json_str (dget e ''previous_hash''),
                     au_hash = json_str (dget e ''hash'')\<rparr>
           | _ \<Rightarrow> None)
      | _ \<Rightarrow> None)"

lemma read_record_ok: "validates_written read_record"
  by (auto simp: validates_written_def read_record_def record_fields_def json_opt_def split: option.splits)

definition toy_env :: hash_env where
  "toy_env = \<lparr>he_sha256 = (\<lambda>s. take 64 (s @ replicate 64 (CHR ''0''))), he_repr = (\<lambda>j. ''repr''),
     he_dumps = (\<lambda>j. ''dumps'')\<rparr>"

lemma toy_env_hex64: "hex64 toy_env"
  by (auto simp: hex64_def toy_env_def min_def)

definition sample_calls :: "audit_call list" where
  "sample_calls =
     [\<lparr>ac_date = ''d'', ac_timestamp = ''t1'', ac_actor = ''a'', ac_action = ''x'', ac_details = None,
       ac_target = None\<rparr>,
      \<lparr>ac_date = ''d'', ac_timestamp = ''t2'', ac_actor = ''b'', ac_action = ''y'', ac_details = None,
       ac_target = Some ''z''\<rparr>]"

text \<open>
  Every log file that the logger has written, over any calls on any days, verifies, and so
  does every prefix of it: removing the last entries of a file goes unnoticed.
\<close>

theorem audit_log_verifies:
  fixes env :: hash_env and calls :: "audit_call list"
  assumes "validates_written vd"
  defines "d \<equiv> fold (audit_step env vd) calls []"
  shows "verify_chain env d date = Some True
       \<and> verify_lines env 0 zero_hash (take n (dgetd d date [])) = Some True"
proof -
  have "audit_inv env vd d" unfolding d_def by (rule audit.run_inv [OF audit_inv_new])
  with assms(1) have fw: "file_written env (dgetd d date [])"
    by (simp add: audit_inv_def dir_written_def)
  from file_written_verifies [OF fw, of "length (dgetd d date [])"]
  have "verify_chain env d date = Some True"
    by (auto simp: verify_chain_def dgetd_def split: option.splits)
  with file_written_verifies [OF fw] show ?thesis by simp
qed

theorem audit_log_verifies_witness:
  "verify_chain toy_env (fold (audit_step toy_env read_record) sample_calls []) ''d'' = Some True
   \<and> length (dgetd (fold (audit_step toy_env read_record) sample_calls []) ''d'' []) = 2"
proof
  show "verify_chain toy_env (fold (audit_step toy_env read_record) sample_calls []) ''d'' = Some True"
    using audit_log_verifies [OF read_record_ok] by blast
  show "length (dgetd (fold (audit_step toy_env read_record) sample_calls []) ''d'' []) = 2"
    by code_simp
qed

theorem audit_tamper_evident_witness:
  "let ls = dgetd (fold (audit_step toy_env read_record) sample_calls []) ''d'' []
   in map (gov_head toy_env) (entries ls) = map (gov_head toy_env) (entries (Blank # ls))"
  unfolding Let_def
proof (rule audit_tamper_evident [OF toy_env_hex64])
  show "inj_on (he_sha256 toy_env)
     (gov_payloads toy_env (dgetd (fold (audit_step toy_env read_record) sample_calls []) ''d'' [])
      \<union> gov_payloads toy_env (Blank # dgetd (fold (audit_step toy_env read_record) sample_calls []) ''d'' []))"
    by (simp add: gov_payloads_def inj_on_def) code_simp
qed code_simp+

text \<open>
  The payload joins its fields with a bar that the fields may contain: the verifier accepts
  a file of one entry in which actor and action have been exchanged for others, with the hash
  of the original entry unchanged.
\<close>

theorem audit_payload_ambiguous:
  fixes env :: hash_env and a b c ts :: string and tg :: "string option" and ds :: "(string, json) pydict"
  defines "r \<equiv> \<lparr>au_index = 0, au_timestamp = ts, au_action = a @ ''|'' @ b, au_actor = c, au_target = tg,
       au_details = ds, au_previous_hash = zero_hash, au_hash = []\<rparr>"
  defines "e \<equiv> r\<lparr>au_hash := gov_calculate_hash env (record_fields r)\<rparr>"
  shows "verify_lines env 0 zero_hash [Fields (record_fields e)] = Some True
       \<and> verify_lines env 0 zero_hash
           [Fields (record_fields (e\<lparr>au_action := a, au_actor := b @ ''|'' @ c\<rparr>))] = Some True"
  by (simp add: verify_lines_iff well_formed_line_def gov_accepts_def e_def r_def record_fields_def
        gov_calculate_hash_def gov_head_def dgetd_def)

section \<open>The security log: scrubbing\<close>

definition sensitive_terms :: "string list" where
  "sensitive_terms = [''password'', ''secret'', ''token'', ''api_key'', ''apikey'', ''private_key'',
     ''authorization'']"

definition sensitive_key :: "string \<Rightarrow> bool" where
  "sensitive_key k = list_ex (\<lambda>t. str_in t (lower k)) sensitive_terms"

definition redacted_mark :: json where
  "redacted_mark = JStr ''[REDACTED_SECRET]''"

text \<open>\<open>redact_secrets\<close>; \<open>scrub\<close> applies the substitutions of \<open>SECRET_PATTERNS\<close> to one string.\<close>

fun redact_secrets :: "(string \<Rightarrow> string) \<Rightarrow> json \<Rightarrow> json" where
  "redact_secrets scrub (JStr s) = JStr (scrub s)"
| "redact_secrets scrub (JObj kvs) =
     JObj (map (\<lambda>(k, v). (k, if sensitive_key k then redacted_mark else redact_secrets scrub v)) kvs)"
| "redact_secrets scrub (JList js) = JList (map (redact_secrets scrub) js)"
| "redact_secrets scrub j = j"

text \<open>No value under a sensitive key, at any depth, is anything but the mark; no string is unscrubbed.\<close>

fun scrubbed :: "(string \<Rightarrow> bool) \<Rightarrow> json \<Rightarrow> bool" where
  "scrubbed ok (JStr s) = ok s"
| "scrubbed ok (JObj kvs) =
     list_all (\<lambda>(k, v). if sensitive_key k then v = redacted_mark else scrubbed ok v) kvs"
| "scrubbed ok (JList js) = list_all (scrubbed ok) js"
| "scrubbed ok j = True"

text \<open>The shape of a value: its keys and its nesting, without the leaves.\<close>

fun json_depth_keys :: "json \<Rightarrow> string list" where
  "json_depth_keys (JObj kvs) = map fst kvs"
| "json_depth_keys j = []"

text \<open>
  Scrubbing a value leaves no secret in it: at every depth, whatever stood under a key that
  names a credential is replaced by the mark and every other string has gone through the
  substitutions; the keys of an object are kept in their order.
\<close>

theorem redact_secrets_complete:
  "scrubbed (\<lambda>s. s \<in> range scrub) (redact_secrets scrub j)
   \<and> json_depth_keys (redact_secrets scrub j) = json_depth_keys j"
proof
  show "scrubbed (\<lambda>s. s \<in> range scrub) (redact_secrets scrub j)"
    by (induction scrub j rule: redact_secrets.induct) (auto simp: list_all_iff)
  show "json_depth_keys (redact_secrets scrub j) = json_depth_keys j"
    by (cases j) (auto simp: comp_def)
qed

section \<open>The security log: chaining\<close>

record security_event =
  se_actor :: string
  se_tenant :: string
  se_action :: string
  se_resource_type :: string
  se_resource_id :: string
  se_outcome :: string
  se_timestamp :: string
  se_correlation :: string
  se_proof :: string
  se_metadata :: json

definition details_object :: "(string, json) pydict \<Rightarrow> json" where
  "details_object e =
     JObj [(''tenant'', dgetd e ''tenant'' (JStr ''default'')),
       (''resource_type'', dgetd e ''resource_type'' (JStr ''unknown'')),
       (''resource_id'', dgetd e ''resource_id'' (JStr ''unknown'')),
       (''outcome'', dgetd e ''outcome'' (JStr ''success'')),
       (''correlation_id'', dgetd e ''correlation_id'' (JStr [])),
       (''metadata'', dgetd e ''metadata'' (JObj []))]"

text \<open>The payload before its last separator, with the fallbacks of \<open>verify_integrity\<close>.\<close>

definition sec_head :: "hash_env \<Rightarrow> (string, json) pydict \<Rightarrow> string" where
  "sec_head env e =
     fstr env (dgetd e ''index'' JNull)
     @ ''|'' @ fstr env (dgetd e ''timestamp_utc'' (dgetd e ''timestamp'' (JStr [])))
     @ ''|'' @ fstr env (dgetd e ''actor'' (dgetd e ''agent_id'' (JStr [])))
     @ ''|'' @ fstr env (dgetd e ''action'' (JStr []))
     @ ''|'' @ he_dumps env (details_object e)"

definition sec_calculate_hash :: "hash_env \<Rightarrow> (string, json) pydict \<Rightarrow> string \<Rightarrow> string" where
  "sec_calculate_hash env e prev = he_sha256 env (sec_head env e @ ''|'' @ prev)"

definition stored_proof :: "(string, json) pydict \<Rightarrow> json option" where
  "stored_proof e = (case dget e ''integrity_proof'' of Some h \<Rightarrow> Some h | None \<Rightarrow> dget e ''hash'')"

text \<open>\<open>event.model_dump()\<close> and the three keys added to it.\<close>

definition event_fields :: "security_event \<Rightarrow> int \<Rightarrow> json \<Rightarrow> (string, json) pydict" where
  "event_fields ev index prev =
     [(''actor'', JStr (se_actor ev)), (''tenant'', JStr (se_tenant ev)),
      (''action'', JStr (se_action ev)), (''resource_type'', JStr (se_resource_type ev)),
      (''resource_id'', JStr (se_resource_id ev)), (''outcome'', JStr (se_outcome ev)),
      (''timestamp_utc'', JStr (se_timestamp ev)), (''correlation_id'', JStr (se_correlation ev)),
      (''integrity_proof'', JStr (se_proof ev)), (''metadata'', se_metadata ev),
      (''index'', JInt index), (''previous_hash'', prev), (''hash'', JStr (se_proof ev))]"

text \<open>
  \<open>_get_last_entry\<close> reads the last 4096 bytes of the file and parses their last line; \<open>tail\<close> maps the
  last line of the file to what is read of it. A line that does not parse (or is no object) is an
  exception that is logged, and the log counts as empty. \<open>None\<close>: the index of the entry is no
  integer, which makes the addition of \<open>log_event\<close> raise.
\<close>

definition get_last_entry :: "(log_line \<Rightarrow> log_line) \<Rightarrow> log_line list \<Rightarrow> (int \<times> json) option" where
  "get_last_entry tail ls =
     (if ls = [] then Some (-1, JStr zero_hash)
      else case tail (last ls) of
        Fields e \<Rightarrow>
          (case dgetd e ''index'' (JInt 0) of
             JInt i \<Rightarrow> Some (i, dgetd e ''integrity_proof'' (dgetd e ''hash'' (JStr zero_hash)))
           | _ \<Rightarrow> None)
      | _ \<Rightarrow> Some (-1, JStr zero_hash))"

definition log_event ::
  "hash_env \<Rightarrow> (string \<Rightarrow> string) \<Rightarrow> (log_line \<Rightarrow> log_line) \<Rightarrow> string \<Rightarrow> security_event
     \<Rightarrow> log_line list \<Rightarrow> (security_event \<times> log_line list) option" where
  "log_event env scrub tail now ev ls =
     (case get_last_entry tail ls of
        None \<Rightarrow> None
      | Some (last_index, previous_hash) \<Rightarrow>
          (let next_index = last_index + 1;
               ev = ev\<lparr>se_metadata := redact_secrets scrub (se_metadata ev), se_timestamp := now,
                       se_proof := []\<rparr>;
               ev = ev\<lparr>se_proof := sec_calculate_hash env (event_fields ev next_index previous_hash)
                                    (fstr env previous_hash)\<rparr>
           in Some (ev, ls @ [Fields (event_fields ev next_index previous_hash)])))"

text \<open>\<open>verify_integrity\<close>: every exception makes it answer \<open>False\<close>.\<close>

fun sec_verify_lines :: "hash_env \<Rightarrow> int \<Rightarrow> string \<Rightarrow> log_line list \<Rightarrow> bool" where
  "sec_verify_lines env i p [] = True"
| "sec_verify_lines env i p (Blank # ls) = sec_verify_lines env i p ls"
| "sec_verify_lines env i p (Malformed # ls) = False"
| "sec_verify_lines env i p (NonObject # ls) = False"
| "sec_verify_lines env i p (Fields e # ls) =
     (if \<not> json_eq_int (dget e ''index'') i then False
      else if dget e ''previous_hash'' \<noteq> Some (JStr p) then False
      else (let h = sec_calculate_hash env e p
            in if stored_proof e \<noteq> Some (JStr h) then False
               else sec_verify_lines env (i + 1) h ls))"

definition sec_verify_integrity :: "hash_env \<Rightarrow> log_line list \<Rightarrow> bool" where
  "sec_verify_integrity env ls = sec_verify_lines env 0 zero_hash ls"

section \<open>What the security log guarantees\<close>

definition sec_accepts :: "hash_env \<Rightarrow> int \<Rightarrow> string \<Rightarrow> (string, json) pydict \<Rightarrow> string option" where
  "sec_accepts env i p e =
     (if json_eq_int (dget e ''index'') i \<and> dget e ''previous_hash'' = Some (JStr p)
         \<and> stored_proof e = Some (JStr (sec_calculate_hash env e p))
      then Some (sec_calculate_hash env e p) else None)"

interpretation sec_log: chained_log "sec_accepts env" "he_sha256 env" "sec_head env" for env
  by unfold_locales (auto simp: sec_accepts_def sec_calculate_hash_def split: if_splits)

lemma sec_verify_lines_iff:
  "sec_verify_lines env i p ls \<longleftrightarrow>
     list_all well_formed_line ls \<and> chain_tip (sec_accepts env) i p (entries ls) \<noteq> None"
  by (induction env i p ls rule: sec_verify_lines.induct)
     (auto simp: well_formed_line_def sec_accepts_def Let_def)

text \<open>The log after a sequence of events, each with its time.\<close>

fun sec_run ::
  "hash_env \<Rightarrow> (string \<Rightarrow> string) \<Rightarrow> (log_line \<Rightarrow> log_line) \<Rightarrow> (string \<times> security_event) list \<Rightarrow> log_line list
     \<Rightarrow> log_line list option" where
  "sec_run env scrub tail [] ls = Some ls"
| "sec_run env scrub tail ((now, ev) # evs) ls =
     (case log_event env scrub tail now ev ls of
        None \<Rightarrow> None | Some (_, ls') \<Rightarrow> sec_run env scrub tail evs ls')"

definition sec_ok :: "hash_env \<Rightarrow> log_line list \<Rightarrow> bool" where
  "sec_ok env ls \<longleftrightarrow> (\<exists>es p. ls = map Fields es \<and> chain_tip (sec_accepts env) 0 zero_hash es = Some p
     \<and> (es = [] \<longrightarrow> p = zero_hash)
     \<and> (es \<noteq> [] \<longrightarrow> dget (last es) ''index'' = Some (JInt (int (length es) - 1))
                   \<and> dget (last es) ''integrity_proof'' = Some (JStr p)))"

lemma entries_Fields [simp]: "entries (map Fields es) = es"
  by (induction es) simp_all

lemma sec_hash_indep [simp]:
  "sec_calculate_hash env (event_fields (ev\<lparr>se_proof := h\<rparr>) i p) q =
     sec_calculate_hash env (event_fields ev i p) q"
  by (simp add: sec_calculate_hash_def sec_head_def details_object_def event_fields_def dgetd_def)

lemma event_fields_get [simp]:
  "dget (event_fields ev i p) ''index'' = Some (JInt i)"
  "dget (event_fields ev i p) ''previous_hash'' = Some p"
  "dget (event_fields ev i p) ''integrity_proof'' = Some (JStr (se_proof ev))"
  "stored_proof (event_fields ev i p) = Some (JStr (se_proof ev))"
  by (simp_all add: event_fields_def stored_proof_def)

lemma get_last_entry_ok:
  assumes "ls = map Fields es" and "ls \<noteq> [] \<Longrightarrow> tail (last ls) = last ls"
    and "es = [] \<longrightarrow> p = zero_hash"
    and "es \<noteq> [] \<longrightarrow> dget (last es) ''index'' = Some (JInt (int (length es) - 1))
                   \<and> dget (last es) ''integrity_proof'' = Some (JStr p)"
  shows "get_last_entry tail ls = Some (int (length es) - 1, JStr p)"
  using assms by (auto simp: get_last_entry_def last_map dgetd_def)

lemma log_event_ok:
  assumes "sec_ok env ls" and "ls \<noteq> [] \<Longrightarrow> tail (last ls) = last ls"
  shows "\<exists>ev' e. log_event env scrub tail now ev ls = Some (ev', ls @ [Fields e]) \<and> sec_ok env (ls @ [Fields e])"
proof -
  from assms(1) obtain es p where es: "ls = map Fields es"
      "chain_tip (sec_accepts env) 0 zero_hash es = Some p" "es = [] \<longrightarrow> p = zero_hash"
      "es \<noteq> [] \<longrightarrow> dget (last es) ''index'' = Some (JInt (int (length es) - 1))
                   \<and> dget (last es) ''integrity_proof'' = Some (JStr p)"
    unfolding sec_ok_def by blast
  have get: "get_last_entry tail ls = Some (int (length es) - 1, JStr p)"
    using es assms(2) by (intro get_last_entry_ok [of ls es tail p])
  define ev0 where "ev0 = ev\<lparr>se_metadata := redact_secrets scrub (se_metadata ev), se_timestamp := now,
      se_proof := []\<rparr>"
  define h where "h = sec_calculate_hash env (event_fields ev0 (int (length es)) (JStr p)) p"
  define e where "e = event_fields (ev0\<lparr>se_proof := h\<rparr>) (int (length es)) (JStr p)"
  have "log_event env scrub tail now ev ls = Some (ev0\<lparr>se_proof := h\<rparr>, ls @ [Fields e])"
    by (simp add: log_event_def get Let_def ev0_def h_def e_def)
  moreover have acc: "sec_accepts env (int (length es)) p e = Some h"
    by (simp add: sec_accepts_def e_def) (simp add: h_def)
  have "ls @ [Fields e] = map Fields (es @ [e])
      \<and> chain_tip (sec_accepts env) 0 zero_hash (es @ [e]) = Some h"
    using es(1,2) acc by (simp add: chain_tip_append)
  then have "sec_ok env (ls @ [Fields e])"
    unfolding sec_ok_def by (intro exI [of _ "es @ [e]"] exI [of _ h]) (simp add: e_def)
  ultimately show ?thesis by blast
qed

text \<open>The log only grows, so every line that is ever last is a line of the result.\<close>

lemma sec_run_prefix: "sec_run env scrub tail evs ls = Some ls' \<Longrightarrow> \<exists>ms. ls' = ls @ ms"
proof (induction evs arbitrary: ls)
  case Nil
  then show ?case by simp
next
  case (Cons x evs)
  obtain now ev where x: "x = (now, ev)" by (cases x)
  with Cons.prems obtain ev' l where l: "log_event env scrub tail now ev ls = Some (ev', l)"
    and r: "sec_run env scrub tail evs l = Some ls'" by (auto split: option.splits prod.splits)
  from l have "\<exists>e. l = ls @ [e]"
    by (auto simp: log_event_def Let_def split: option.splits prod.splits)
  with Cons.IH [OF r] show ?case by auto
qed

lemma sec_run_ok:
  "sec_run env scrub tail evs ls = Some ls' \<Longrightarrow> sec_ok env ls \<Longrightarrow> \<forall>l \<in> set ls'. tail l = l \<Longrightarrow> sec_ok env ls'"
proof (induction evs arbitrary: ls)
  case Nil
  then show ?case by simp
next
  case (Cons x evs)
  obtain now ev where x: "x = (now, ev)" by (cases x)
  obtain ms where "ls' = ls @ ms" using sec_run_prefix [OF Cons.prems(1)] by blast
  with Cons.prems(3) have "ls \<noteq> [] \<Longrightarrow> tail (last ls) = last ls" by simp
  from log_event_ok [where tail = tail and now = now and ev = ev and scrub = scrub, OF Cons.prems(2) this]
  obtain ev' e where l: "log_event env scrub tail now ev ls = Some (ev', ls @ [Fields e])"
    and ok: "sec_ok env (ls @ [Fields e])" by blast
  from Cons.prems(1) l x have "sec_run env scrub tail evs (ls @ [Fields e]) = Some ls'" by simp
  from Cons.IH [OF this ok Cons.prems(3)] show ?case .
qed

definition sec_appendable :: "log_line list \<Rightarrow> bool" where
  "sec_appendable ls \<longleftrightarrow> ls = [] \<or> (\<exists>e i. last ls = Fields e \<and> dget e ''index'' = Some (JInt i))"

lemma sec_run_total:
  assumes "\<And>l. tail l = l \<or> tail l = Malformed"
  shows "sec_appendable ls \<Longrightarrow> \<exists>ls'. sec_run env scrub tail evs ls = Some ls'"
proof (induction evs arbitrary: ls)
  case Nil
  then show ?case by simp
next
  case (Cons x evs)
  obtain now ev where x: "x = (now, ev)" by (cases x)
  have "\<exists>i p. get_last_entry tail ls = Some (i, p)"
    using Cons.prems assms [of "last ls"]
    by (auto simp: get_last_entry_def sec_appendable_def dgetd_def)
  then obtain i p ev' where l: "log_event env scrub tail now ev ls = Some (ev', ls @ [Fields (event_fields ev' (i + 1) p)])"
    by (auto simp: log_event_def Let_def)
  have "sec_appendable (ls @ [Fields (event_fields ev' (i + 1) p)])"
    by (simp add: sec_appendable_def)
  from Cons.IH [OF this] l x show ?case by simp
qed

lemma sec_ok_verifies: "sec_ok env ls \<Longrightarrow> sec_verify_integrity env ls"
  by (auto simp: sec_ok_def sec_verify_integrity_def sec_verify_lines_iff list_all_iff well_formed_line_def)

lemma sec_ok_new: "sec_ok env []"
  by (simp add: sec_ok_def)

text \<open>
  Logging security events on a new log always succeeds, and the log verifies as long as every
  line written fits into the window that is read back to find the last entry.
\<close>

theorem security_log_verifies:
  assumes "\<forall>l. tail l = l \<or> tail l = Malformed"
  shows "\<exists>ls. sec_run env scrub tail evs [] = Some ls
     \<and> ((\<forall>l \<in> set ls. tail l = l) \<longrightarrow> sec_verify_integrity env ls)"
proof -
  obtain ls where ls: "sec_run env scrub tail evs [] = Some ls"
    using sec_run_total [of tail "[]" env scrub evs] assms by (auto simp: sec_appendable_def)
  moreover have "sec_verify_integrity env ls" if "\<forall>l \<in> set ls. tail l = l"
    by (rule sec_ok_verifies [OF sec_run_ok [OF ls sec_ok_new that]])
  ultimately show ?thesis by blast
qed

definition sample_event :: "string \<Rightarrow> security_event" where
  "sample_event a = \<lparr>se_actor = ''system'', se_tenant = ''default'', se_action = a,
     se_resource_type = ''unknown'', se_resource_id = ''unknown'', se_outcome = ''success'',
     se_timestamp = [], se_correlation = [], se_proof = [], se_metadata = JObj []\<rparr>"

theorem security_log_verifies_witness:
  "\<exists>ls. sec_run toy_env id id [(''t1'', sample_event ''a''), (''t2'', sample_event ''b'')] [] = Some ls
     \<and> sec_verify_integrity toy_env ls"
  using security_log_verifies [of id toy_env id "[(''t1'', sample_event ''a''), (''t2'', sample_event ''b'')]"]
  by auto

text \<open>
  An entry that does not fit into the window breaks the log for good: the next event starts
  again at index 0, and no later append makes the log verify.
\<close>

theorem security_log_oversize_breaks:
  assumes "entries ls \<noteq> []" and "tail (last ls) = Malformed"
  shows "\<exists>ev' ls'. log_event env scrub tail now ev ls = Some (ev', ls')
     \<and> dget (last (entries ls')) ''index'' = Some (JInt 0)
     \<and> (\<forall>more. \<not> sec_verify_integrity env (ls' @ more))"
proof -
  have "ls \<noteq> []" using assms(1) by auto
  with assms(2) have get: "get_last_entry tail ls = Some (-1, JStr zero_hash)"
    by (simp add: get_last_entry_def)
  then obtain ev' where l: "log_event env scrub tail now ev ls
      = Some (ev', ls @ [Fields (event_fields ev' 0 (JStr zero_hash))])"
    by (auto simp: log_event_def Let_def)
  have "int (length (entries ls)) \<noteq> 0" using assms(1) by simp
  then have "\<not> sec_verify_integrity env ((ls @ [Fields (event_fields ev' 0 (JStr zero_hash))]) @ more)" for more
    by (auto simp: sec_verify_integrity_def sec_verify_lines_iff chain_tip_append sec_accepts_def
        split: option.splits)
  with l show ?thesis by auto
qed

theorem security_log_oversize_breaks_witness:
  "\<exists>ls e. sec_run toy_env id (\<lambda>_. Malformed) [(''t1'', sample_event ''a'')] [] = Some ls
     \<and> (\<exists>ev' ls'. log_event toy_env id (\<lambda>_. Malformed) ''t2'' e ls = Some (ev', ls')
           \<and> \<not> sec_verify_integrity toy_env ls')"
proof -
  obtain ls where ls: "sec_run toy_env id (\<lambda>_. Malformed) [(''t1'', sample_event ''a'')] [] = Some ls"
      "entries ls \<noteq> []"
    by (auto simp: log_event_def get_last_entry_def Let_def)
  from security_log_oversize_breaks [of ls "\<lambda>_. Malformed" toy_env id "''t2''" "sample_event ''b''"] ls(2)
  obtain ev' ls' where "log_event toy_env id (\<lambda>_. Malformed) ''t2'' (sample_event ''b'') ls = Some (ev', ls')"
    and "\<forall>more. \<not> sec_verify_integrity toy_env (ls' @ more)" by auto
  moreover from this(2) have "\<not> sec_verify_integrity toy_env ls'" by (metis append_Nil2)
  ultimately show ?thesis using ls(1) by blast
qed

end
