(* ===== verification/Access_Control.thy ===== *)
theory Access_Control
  imports Amber_Prelude
begin

text \<open>
  \<open>security/abac.py\<close> (attribute rules under default deny, just-in-time elevation) and
  \<open>security/approval.py\<close> (the runaway-loop guard and the tool approval manager). The events handed
  to the security audit logger are collected in a list of the state, in order.
\<close>

section \<open>Audit events emitted\<close>

record emitted =
  em_actor :: string
  em_tenant :: string
  em_action :: string
  em_resource_type :: string
  em_resource_id :: string
  em_outcome :: string
  em_metadata :: "(string, json) pydict"

section \<open>Attribute-based rules\<close>

datatype policy_effect = EFFECT_ALLOW | EFFECT_DENY

record resource_boundary =
  rb_organization :: string
  rb_project :: string
  rb_workspace :: string
  rb_agent :: string
  rb_resource_id :: string
  rb_resource_type :: string
  rb_classification :: string

record subject_attributes =
  sa_subject :: string
  sa_organization :: string
  sa_project :: string
  sa_roles :: "string list"
  sa_clearance :: string

record abac_rule =
  ab_id :: string
  ab_description :: string
  ab_effect :: policy_effect
  ab_actions :: "string list"
  ab_resource_types :: "string list"
  ab_required_roles :: "string list"
  ab_min_clearance :: "string option"
  ab_require_same_org :: bool
  ab_require_same_project :: bool

definition clearance_hierarchy :: "(string, nat) pydict" where
  "clearance_hierarchy =
     [(''public'', 0), (''internal'', 1), (''confidential'', 2), (''restricted'', 3)]"

definition rule_matches :: "abac_rule \<Rightarrow> subject_attributes \<Rightarrow> string \<Rightarrow> resource_boundary \<Rightarrow> bool" where
  "rule_matches r s action res =
     (if ''*'' \<notin> set (ab_actions r) \<and> action \<notin> set (ab_actions r) then False
      else if ''*'' \<notin> set (ab_resource_types r) \<and> rb_resource_type res \<notin> set (ab_resource_types r) then False
      else if ab_require_same_project r \<and> sa_project s \<noteq> rb_project res then False
      else if ab_required_roles r \<noteq> [] \<and> \<not> list_ex (\<lambda>x. x \<in> set (sa_roles s)) (ab_required_roles r) then False
      else case ab_min_clearance r of
          None \<Rightarrow> True
        | Some c \<Rightarrow>
            c = [] \<or> \<not> dgetd clearance_hierarchy (sa_clearance s) 0 < dgetd clearance_hierarchy c 0)"

type_synonym abac_engine = "abac_rule list"

definition add_rule :: "abac_rule \<Rightarrow> abac_engine \<Rightarrow> abac_engine" where
  "add_rule r eng = eng @ [r]"

fun first_match ::
  "policy_effect \<Rightarrow> subject_attributes \<Rightarrow> string \<Rightarrow> resource_boundary \<Rightarrow> abac_rule list \<Rightarrow> abac_rule option" where
  "first_match eff s action res [] = None"
| "first_match eff s action res (r # rs) =
     (if ab_effect r = eff \<and> rule_matches r s action res then Some r
      else first_match eff s action res rs)"

definition abac_evaluate :: "abac_engine \<Rightarrow> subject_attributes \<Rightarrow> string \<Rightarrow> resource_boundary \<Rightarrow> bool" where
  "abac_evaluate eng s action res =
     (if sa_organization s \<noteq> rb_organization res then False
      else case first_match EFFECT_DENY s action res eng of
        Some _ \<Rightarrow> False
      | None \<Rightarrow>
          (case first_match EFFECT_ALLOW s action res eng of Some _ \<Rightarrow> True | None \<Rightarrow> False))"

datatype abac_error = ABACAccessDenied string string string

text \<open>\<open>enforce\<close>: a denial is logged and raised.\<close>

definition enforce ::
  "abac_engine \<Rightarrow> subject_attributes \<Rightarrow> string \<Rightarrow> resource_boundary \<Rightarrow> emitted list
     \<Rightarrow> (abac_error + unit) \<times> emitted list" where
  "enforce eng s action res lg =
     (if abac_evaluate eng s action res then (Inr (), lg)
      else (Inl (ABACAccessDenied (sa_subject s) action (rb_resource_id res)),
            lg @ [\<lparr>em_actor = sa_subject s, em_tenant = sa_organization s, em_action = ''abac.'' @ action,
                    em_resource_type = rb_resource_type res, em_resource_id = rb_resource_id res,
                    em_outcome = ''denied'',
                    em_metadata = [(''project_id'', JStr (rb_project res)),
                                   (''workspace_id'', JStr (rb_workspace res))]\<rparr>]))"

lemma first_match_None:
  "first_match eff s a res rs = None \<longleftrightarrow>
     (\<forall>r \<in> set rs. ab_effect r = eff \<longrightarrow> \<not> rule_matches r s a res)"
  by (induction rs) auto

lemma abac_evaluate_iff:
  "abac_evaluate eng s a res \<longleftrightarrow>
     sa_organization s = rb_organization res
     \<and> (\<exists>r \<in> set eng. ab_effect r = EFFECT_ALLOW \<and> rule_matches r s a res)
     \<and> (\<forall>r \<in> set eng. ab_effect r = EFFECT_DENY \<longrightarrow> \<not> rule_matches r s a res)"
proof -
  have "first_match eff s a res eng \<noteq> None \<longleftrightarrow>
      (\<exists>r \<in> set eng. ab_effect r = eff \<and> rule_matches r s a res)" for eff
    using first_match_None [of eff s a res eng] by auto
  then show ?thesis
    by (cases "first_match EFFECT_DENY s a res eng"; cases "first_match EFFECT_ALLOW s a res eng")
       (force simp: abac_evaluate_def)+
qed

text \<open>
  Default deny with deny-overrides: an action is allowed exactly when subject and resource
  are of one organization, some allowing rule matches and no denying rule does, in whatever
  order the rules were added; otherwise \<open>enforce\<close> raises and logs the denial under the subject's
  name, and in both cases it logs nothing else.
\<close>

theorem abac_deny_overrides:
  "(abac_evaluate eng s a res \<longleftrightarrow>
      sa_organization s = rb_organization res
      \<and> (\<exists>r \<in> set eng. ab_effect r = EFFECT_ALLOW \<and> rule_matches r s a res)
      \<and> (\<forall>r \<in> set eng. ab_effect r = EFFECT_DENY \<longrightarrow> \<not> rule_matches r s a res))
   \<and> (fst (enforce eng s a res lg) = Inr () \<longleftrightarrow> abac_evaluate eng s a res)
   \<and> (\<exists>es. snd (enforce eng s a res lg) = lg @ es
        \<and> map em_outcome es = (if abac_evaluate eng s a res then [] else [''denied''])
        \<and> list_all (\<lambda>e. em_actor e = sa_subject s) es)"
  by (intro conjI abac_evaluate_iff) (simp_all add: enforce_def)

definition sample_rule :: "policy_effect \<Rightarrow> abac_rule" where
  "sample_rule eff = \<lparr>ab_id = ''r'', ab_description = [], ab_effect = eff, ab_actions = [''*''],
     ab_resource_types = [''doc''], ab_required_roles = [], ab_min_clearance = Some ''internal'',
     ab_require_same_org = True, ab_require_same_project = True\<rparr>"

definition sample_subject :: subject_attributes where
  "sample_subject = \<lparr>sa_subject = ''u'', sa_organization = ''o'', sa_project = ''p'', sa_roles = [''user''],
     sa_clearance = ''internal''\<rparr>"

definition sample_resource :: resource_boundary where
  "sample_resource = \<lparr>rb_organization = ''o'', rb_project = ''p'', rb_workspace = ''w'', rb_agent = ''g'',
     rb_resource_id = ''1'', rb_resource_type = ''doc'', rb_classification = ''internal''\<rparr>"

theorem abac_deny_overrides_witness:
  "abac_evaluate [sample_rule EFFECT_ALLOW] sample_subject ''read'' sample_resource
   \<and> \<not> abac_evaluate [sample_rule EFFECT_ALLOW, sample_rule EFFECT_DENY] sample_subject ''read'' sample_resource"
  unfolding conjunct1 [OF abac_deny_overrides] by code_simp

section \<open>Just-in-time elevation\<close>

text \<open>
  Times are in seconds; \<open>expires_at\<close> is stored as an ISO string whose parsing gives it back, so
  the grant keeps the time itself.
\<close>

record jit_grant =
  jg_subject :: string
  jg_scope :: string
  jg_granted_at :: timestamp
  jg_expires_at :: timestamp
  jg_approver :: string
  jg_reason :: string

record jit =
  jit_grants :: "(string \<times> string, jit_grant) pydict"
  jit_log :: "emitted list"

definition new_jit :: jit where
  "new_jit = \<lparr>jit_grants = [], jit_log = []\<rparr>"

definition bounded_minutes :: "int \<Rightarrow> int" where
  "bounded_minutes m = min 60 (max 1 m)"

definition grant_elevation ::
  "(timestamp \<Rightarrow> string) \<Rightarrow> timestamp \<Rightarrow> string \<Rightarrow> string \<Rightarrow> int \<Rightarrow> string \<Rightarrow> string \<Rightarrow> jit \<Rightarrow> jit_grant \<times> jit" where
  "grant_elevation isofmt now subject scope minutes reason approver j =
     (let d = bounded_minutes minutes;
          expiry = now + of_int d * 60;
          g = \<lparr>jg_subject = subject, jg_scope = scope, jg_granted_at = now, jg_expires_at = expiry,
               jg_approver = approver, jg_reason = reason\<rparr>;
          ev = \<lparr>em_actor = approver, em_tenant = ''default'', em_action = ''security.jit_elevation_granted'',
                em_resource_type = ''elevation_token'', em_resource_id = subject @ '':'' @ scope,
                em_outcome = ''granted'',
                em_metadata = [(''subject_id'', JStr subject), (''scope'', JStr scope),
                  (''duration_minutes'', JInt d), (''reason'', JStr reason),
                  (''expires_at'', JStr (isofmt expiry))]\<rparr>
      in (g, \<lparr>jit_grants = dset (subject, scope) g (jit_grants j), jit_log = jit_log j @ [ev]\<rparr>))"

definition is_elevated :: "timestamp \<Rightarrow> string \<Rightarrow> string \<Rightarrow> jit \<Rightarrow> bool \<times> jit" where
  "is_elevated now subject scope j =
     (case dget (jit_grants j) (subject, scope) of
        None \<Rightarrow> (False, j)
      | Some g \<Rightarrow>
          if now < jg_expires_at g then (True, j)
          else (False, j\<lparr>jit_grants := dpop (subject, scope) (jit_grants j)\<rparr>))"

definition revoke_elevation :: "string \<Rightarrow> string \<Rightarrow> string \<Rightarrow> jit \<Rightarrow> bool \<times> jit" where
  "revoke_elevation subject scope actor j =
     (if dhas (jit_grants j) (subject, scope) then
        (True, \<lparr>jit_grants = dpop (subject, scope) (jit_grants j),
                jit_log = jit_log j @ [\<lparr>em_actor = actor, em_tenant = ''default'',
                  em_action = ''security.jit_elevation_revoked'', em_resource_type = ''elevation_token'',
                  em_resource_id = subject @ '':'' @ scope, em_outcome = ''revoked'', em_metadata = []\<rparr>]\<rparr>)
      else (False, j))"

text \<open>The calls of the manager that change its state, with the time of the call.\<close>

datatype jit_call =
    Grant timestamp string string int string string
  | Check timestamp string string
  | Revoke string string string

fun jit_step :: "(timestamp \<Rightarrow> string) \<Rightarrow> jit_call \<Rightarrow> jit \<Rightarrow> jit" where
  "jit_step isofmt (Grant now s sc m r a) j = snd (grant_elevation isofmt now s sc m r a j)"
| "jit_step isofmt (Check now s sc) j = snd (is_elevated now s sc j)"
| "jit_step isofmt (Revoke s sc a) j = snd (revoke_elevation s sc a j)"

text \<open>Every grant is stored under its own subject and scope, lasts at most an hour and was logged.\<close>

definition grant_logged :: "jit_grant \<Rightarrow> emitted \<Rightarrow> bool" where
  "grant_logged g e \<longleftrightarrow> em_action e = ''security.jit_elevation_granted'' \<and> em_actor e = jg_approver g
     \<and> dget (em_metadata e) ''subject_id'' = Some (JStr (jg_subject g))
     \<and> dget (em_metadata e) ''scope'' = Some (JStr (jg_scope g))"

definition jit_inv :: "jit \<Rightarrow> bool" where
  "jit_inv j \<longleftrightarrow> (\<forall>s sc g. dget (jit_grants j) (s, sc) = Some g \<longrightarrow>
     jg_subject g = s \<and> jg_scope g = sc
     \<and> jg_granted_at g + 60 \<le> jg_expires_at g \<and> jg_expires_at g \<le> jg_granted_at g + 3600
     \<and> (\<exists>e \<in> set (jit_log j). grant_logged g e))"

lemma bounded_minutes: "1 \<le> bounded_minutes m" "bounded_minutes m \<le> 60"
  by (simp_all add: bounded_minutes_def)

lemma jit_step_inv: "jit_inv j \<Longrightarrow> jit_inv (jit_step isofmt c j)"
proof (cases c)
  case (Grant now s sc m r a)
  have b: "(60::rat) \<le> of_int (bounded_minutes m) * 60" "of_int (bounded_minutes m) * 60 \<le> (3600::rat)"
    using bounded_minutes [of m] of_int_le_iff [of 1 "bounded_minutes m", where ?'a = rat]
      of_int_le_iff [of "bounded_minutes m" 60, where ?'a = rat] by linarith+
  assume "jit_inv j"
  then show ?thesis using b
    by (auto simp: Grant jit_inv_def grant_elevation_def Let_def grant_logged_def)
next
  case (Check now s sc)
  assume "jit_inv j"
  then show ?thesis
    by (auto simp: Check jit_inv_def is_elevated_def split: option.splits)
next
  case (Revoke s sc a)
  assume "jit_inv j"
  then show ?thesis by (auto simp: Revoke jit_inv_def revoke_elevation_def)
qed

interpretation jit: machine "jit_step isofmt" jit_inv for isofmt
  by unfold_locales (rule jit_step_inv)

text \<open>The call that set a grant is the last one on its key that was no check.\<close>

definition touches :: "string \<Rightarrow> string \<Rightarrow> jit_call \<Rightarrow> bool" where
  "touches s sc c =
     (case c of Grant _ s' sc' _ _ _ \<Rightarrow> s' = s \<and> sc' = sc
      | Revoke s' sc' _ \<Rightarrow> s' = s \<and> sc' = sc
      | Check _ _ _ \<Rightarrow> False)"

lemma grant_origin:
  "dget (jit_grants (fold (jit_step isofmt) calls new_jit)) (s, sc) = Some g \<Longrightarrow>
     \<exists>pre m post. calls = pre @ Grant (jg_granted_at g) s sc m (jg_reason g) (jg_approver g) # post
       \<and> jg_expires_at g = jg_granted_at g + of_int (bounded_minutes m) * 60
       \<and> list_all (\<lambda>c. \<not> touches s sc c) post"
proof (induction calls rule: rev_induct)
  case Nil
  then show ?case by (simp add: new_jit_def)
next
  case (snoc c calls)
  let ?j = "fold (jit_step isofmt) calls new_jit"
  show ?case
  proof (cases "touches s sc c")
    case True
    then show ?thesis
    proof (cases c)
      case (Grant now s' sc' m r a)
      with True snoc.prems have "g = \<lparr>jg_subject = s, jg_scope = sc, jg_granted_at = now,
          jg_expires_at = now + of_int (bounded_minutes m) * 60, jg_approver = a, jg_reason = r\<rparr>"
        by (simp add: touches_def grant_elevation_def Let_def)
      with True Grant show ?thesis
        by (intro exI [of _ calls] exI [of _ m] exI [of _ "[]"]) (simp add: touches_def)
    next
      case (Revoke s' sc' a)
      with True snoc.prems show ?thesis
        by (auto simp: touches_def revoke_elevation_def dhas_def split: if_splits)
    qed (simp_all add: touches_def)
  next
    case False
    have "dget (jit_grants ?j) (s, sc) = Some g"
      using snoc.prems False
      by (cases c) (auto simp: touches_def grant_elevation_def revoke_elevation_def is_elevated_def Let_def
          split: if_splits option.splits)
    from snoc.IH [OF this] obtain pre m post where
      p: "calls = pre @ Grant (jg_granted_at g) s sc m (jg_reason g) (jg_approver g) # post"
        "jg_expires_at g = jg_granted_at g + of_int (bounded_minutes m) * 60"
        "list_all (\<lambda>c. \<not> touches s sc c) post" by blast
    have "calls @ [c] = pre @ Grant (jg_granted_at g) s sc m (jg_reason g) (jg_approver g) # (post @ [c])
        \<and> list_all (\<lambda>c. \<not> touches s sc c) (post @ [c])" using p False by simp
    with p(2) show ?thesis by blast
  qed
qed

text \<open>
  An elevation is never in force without cause: whenever the manager answers that a subject is
  elevated for a scope, that was granted by a call less than an hour before, the last call on
  the pair was that grant (so nobody has revoked it since), and the grant stands in the audit log
  under its approver.
\<close>

theorem jit_elevation_justified:
  assumes "fst (is_elevated t s sc (fold (jit_step isofmt) calls new_jit))"
  shows "\<exists>pre now m r a post. calls = pre @ Grant now s sc m r a # post
     \<and> t < now + of_int (bounded_minutes m) * 60 \<and> t < now + 3600
     \<and> list_all (\<lambda>c. \<not> touches s sc c) post
     \<and> (\<exists>e \<in> set (jit_log (fold (jit_step isofmt) calls new_jit)). em_actor e = a
          \<and> em_action e = ''security.jit_elevation_granted''
          \<and> dget (em_metadata e) ''scope'' = Some (JStr sc))"
proof -
  let ?j = "fold (jit_step isofmt) calls new_jit"
  obtain g where g: "dget (jit_grants ?j) (s, sc) = Some g" and t: "t < jg_expires_at g"
    using assms by (auto simp: is_elevated_def split: option.splits if_splits)
  have "jit_inv new_jit" by (simp add: jit_inv_def new_jit_def)
  then have "jit_inv ?j" by (rule jit.run_inv)
  with g have inv: "jg_scope g = sc" "jg_expires_at g \<le> jg_granted_at g + 3600"
    "\<exists>e \<in> set (jit_log ?j). grant_logged g e" unfolding jit_inv_def by blast+
  from grant_origin [OF g] obtain pre m post where
    p: "calls = pre @ Grant (jg_granted_at g) s sc m (jg_reason g) (jg_approver g) # post"
      "jg_expires_at g = jg_granted_at g + of_int (bounded_minutes m) * 60"
      "list_all (\<lambda>c. \<not> touches s sc c) post" by blast
  have "t < jg_granted_at g + of_int (bounded_minutes m) * 60" "t < jg_granted_at g + 3600"
    using t p(2) inv(2) by auto
  moreover have "\<exists>e \<in> set (jit_log ?j). em_actor e = jg_approver g
      \<and> em_action e = ''security.jit_elevation_granted''
      \<and> dget (em_metadata e) ''scope'' = Some (JStr sc)"
    using inv(1,3) by (auto simp: grant_logged_def)
  ultimately show ?thesis using p(1,3) by blast
qed

theorem jit_elevation_justified_witness:
  "\<exists>pre now m r a post. [Grant 0 ''u'' ''s'' 100 ''x'' ''boss''] = pre @ Grant now ''u'' ''s'' m r a # post
     \<and> (3599::timestamp) < now + 3600"
proof -
  have "fst (is_elevated 3599 ''u'' ''s'' (fold (jit_step (\<lambda>_. [])) [Grant 0 ''u'' ''s'' 100 ''x'' ''boss''] new_jit))"
    by code_simp
  from jit_elevation_justified [OF this] show ?thesis by blast
qed

end
