(* ===== verification/Tool_Approval.thy ===== *)
theory Tool_Approval
  imports Access_Control
begin

text \<open>
  \<open>security/approval.py\<close>: the runaway-loop guard, which raises when a turn makes too many tool calls or
  repeats one, and the manager that approves, rejects or defers a tool execution. A call that raises
  returns its error beside the state it has already changed. \<open>dumps\<close> is \<open>_hash_args\<close>, the JSON text of
  the arguments.
\<close>

section \<open>The runaway-loop guard\<close>

type_synonym tool_args = "(string, json) pydict"

datatype loop_error = TooManyCalls string int | RepeatedCall string int

record loop_guard =
  lg_max_calls :: int
  lg_max_duplicate :: int
  lg_counts :: "(string, int) pydict"
  lg_consecutive :: "(string, string \<times> string \<times> int) pydict"

definition new_loop_guard :: "int \<Rightarrow> int \<Rightarrow> loop_guard" where
  "new_loop_guard calls dup =
     \<lparr>lg_max_calls = calls, lg_max_duplicate = dup, lg_counts = [], lg_consecutive = []\<rparr>"

definition record_and_check ::
  "(tool_args \<Rightarrow> string) \<Rightarrow> string \<Rightarrow> string \<Rightarrow> tool_args \<Rightarrow> loop_guard \<Rightarrow> loop_error option \<times> loop_guard" where
  "record_and_check dumps turn tool args g =
     (let n = dgetd (lg_counts g) turn 0 + 1;
          g = g\<lparr>lg_counts := dset turn n (lg_counts g)\<rparr>
      in if n > lg_max_calls g then (Some (TooManyCalls turn n), g)
         else let h = dumps args;
                  (last_tool, last_hash, k) = dgetd (lg_consecutive g) turn ([], [], 0);
                  k = (if last_tool = tool \<and> last_hash = h then k + 1 else 1);
                  g = g\<lparr>lg_consecutive := dset turn (tool, h, k) (lg_consecutive g)\<rparr>
              in if k \<ge> lg_max_duplicate g then (Some (RepeatedCall tool k), g) else (None, g))"

definition reset_turn :: "string \<Rightarrow> loop_guard \<Rightarrow> loop_guard" where
  "reset_turn turn g =
     g\<lparr>lg_counts := dpop turn (lg_counts g), lg_consecutive := dpop turn (lg_consecutive g)\<rparr>"

definition guard_clear :: "loop_guard \<Rightarrow> loop_guard" where
  "guard_clear g = g\<lparr>lg_counts := [], lg_consecutive := []\<rparr>"

text \<open>
  What the guard promises, over the history of one turn, its calls as pairs of the tool and the text of
  its arguments: the limit on calls first, then the length of the run of identical calls.
\<close>

definition trailing_run :: "'a \<Rightarrow> 'a list \<Rightarrow> nat" where
  "trailing_run x xs = length (takeWhile (\<lambda>y. y = x) (rev xs))"

definition guard_verdict :: "int \<Rightarrow> int \<Rightarrow> string \<Rightarrow> (string \<times> string) list \<Rightarrow> string \<times> string \<Rightarrow> loop_error option" where
  "guard_verdict calls dup turn hist c =
     (if int (length hist) + 1 > calls then Some (TooManyCalls turn (int (length hist) + 1))
      else if int (trailing_run c hist) + 1 \<ge> dup
      then Some (RepeatedCall (fst c) (int (trailing_run c hist) + 1)) else None)"

text \<open>A run: calls of any turns, and turns that end.\<close>

datatype guard_event = ToolCall string string tool_args | EndTurn string

fun guard_step :: "(tool_args \<Rightarrow> string) \<Rightarrow> guard_event \<Rightarrow> loop_guard \<Rightarrow> loop_guard" where
  "guard_step dumps (ToolCall turn tool args) g = snd (record_and_check dumps turn tool args g)"
| "guard_step dumps (EndTurn turn) g = reset_turn turn g"

text \<open>The calls of a turn since it last ended.\<close>

fun turn_history :: "(tool_args \<Rightarrow> string) \<Rightarrow> string \<Rightarrow> guard_event list \<Rightarrow> (string \<times> string) list \<Rightarrow> (string \<times> string) list" where
  "turn_history dumps t [] h = h"
| "turn_history dumps t (ToolCall u tool args # es) h =
     turn_history dumps t es (if u = t then h @ [(tool, dumps args)] else h)"
| "turn_history dumps t (EndTurn u # es) h = turn_history dumps t es (if u = t then [] else h)"

definition consecutive_of :: "(string \<times> string) list \<Rightarrow> string \<times> string \<times> int" where
  "consecutive_of h =
     (if h = [] then ([], [], 0) else (fst (last h), snd (last h), int (trailing_run (last h) h)))"

definition guard_tracks :: "string \<Rightarrow> (string \<times> string) list \<Rightarrow> loop_guard \<Rightarrow> bool" where
  "guard_tracks t h g \<longleftrightarrow> dgetd (lg_counts g) t 0 = int (length h)
     \<and> (int (length h) \<le> lg_max_calls g \<longrightarrow> dgetd (lg_consecutive g) t ([], [], 0) = consecutive_of h)"

lemma trailing_run_snoc: "trailing_run x (h @ [y]) = (if y = x then Suc (trailing_run x h) else 0)"
  by (simp add: trailing_run_def)

lemma consecutive_of_snoc:
  "consecutive_of (h @ [(a, b)]) =
     (a, b, (case consecutive_of h of (la, lb, k) \<Rightarrow> if la = a \<and> lb = b then k + 1 else 1))"
  by (cases h rule: rev_cases) (auto simp: consecutive_of_def trailing_run_snoc trailing_run_def)

lemma record_and_check_max [simp]:
  "lg_max_calls (snd (record_and_check dumps t tool args g)) = lg_max_calls g"
  "lg_max_duplicate (snd (record_and_check dumps t tool args g)) = lg_max_duplicate g"
  by (simp_all add: record_and_check_def Let_def split: prod.splits)

lemma record_and_check_tracks:
  assumes "guard_tracks t h g"
  shows "guard_tracks t (h @ [(tool, dumps args)]) (snd (record_and_check dumps t tool args g))"
  using assms
  by (auto simp: guard_tracks_def record_and_check_def Let_def consecutive_of_snoc split: prod.splits)

lemma record_and_check_other:
  "u \<noteq> t \<Longrightarrow> guard_tracks t h g \<Longrightarrow> guard_tracks t h (snd (record_and_check dumps u tool args g))"
  by (auto simp: guard_tracks_def record_and_check_def Let_def split: prod.splits)

lemma guard_step_max [simp]:
  "lg_max_calls (guard_step dumps e g) = lg_max_calls g"
  "lg_max_duplicate (guard_step dumps e g) = lg_max_duplicate g"
  by (cases e; simp add: reset_turn_def)+

lemma guard_run_tracks:
  "guard_tracks t h g \<Longrightarrow>
     guard_tracks t (turn_history dumps t es h) (fold (guard_step dumps) es g)
     \<and> lg_max_calls (fold (guard_step dumps) es g) = lg_max_calls g
     \<and> lg_max_duplicate (fold (guard_step dumps) es g) = lg_max_duplicate g"
proof (induction dumps t es h arbitrary: g rule: turn_history.induct)
  case (1 dumps t h)
  then show ?case by simp
next
  case (2 dumps t u tool args es h)
  have "guard_tracks t (if u = t then h @ [(tool, dumps args)] else h)
      (guard_step dumps (ToolCall u tool args) g)"
    using 2(2) by (auto intro: record_and_check_tracks record_and_check_other)
  from 2(1) [OF this] show ?case by simp
next
  case (3 dumps t u es h)
  have "guard_tracks t (if u = t then [] else h) (guard_step dumps (EndTurn u) g)"
    using 3(2) by (auto simp: guard_tracks_def reset_turn_def consecutive_of_def)
  from 3(1) [OF this] show ?case by (simp add: reset_turn_def)
qed

text \<open>
  C36. The guard keeps its promise for every turn, whatever other turns do in between: after any
  sequence of calls and ended turns, the next call of a turn gets exactly the verdict of its
  history; so at most \<open>max_calls_per_turn\<close> calls of a turn pass.
\<close>

theorem guard_refines_verdict:
  fixes dumps :: "tool_args \<Rightarrow> string" and es :: "guard_event list" and calls dup :: int and t :: string
  defines "g \<equiv> fold (guard_step dumps) es (new_loop_guard calls dup)"
    and "h \<equiv> turn_history dumps t es []"
  shows "fst (record_and_check dumps t tool args g) = guard_verdict calls dup t h (tool, dumps args)
       \<and> (fst (record_and_check dumps t tool args g) = None \<longrightarrow> int (length h) < calls)"
proof -
  have "guard_tracks t [] (new_loop_guard calls dup)"
    by (simp add: guard_tracks_def new_loop_guard_def consecutive_of_def)
  from guard_run_tracks [OF this, of dumps es]
  have tr: "guard_tracks t h g" and m: "lg_max_calls g = calls" "lg_max_duplicate g = dup"
    by (simp_all add: g_def h_def new_loop_guard_def)
  have "fst (record_and_check dumps t tool args g) = guard_verdict calls dup t h (tool, dumps args)"
  proof (cases "int (length h) + 1 > calls")
    case True
    with tr m show ?thesis
      by (simp add: record_and_check_def guard_verdict_def guard_tracks_def Let_def)
  next
    case False
    have "snd (snd (consecutive_of (h @ [(tool, dumps args)]))) = int (trailing_run (tool, dumps args) h) + 1"
      by (simp add: consecutive_of_def trailing_run_snoc)
    then have k: "(case consecutive_of h of (la, lb, k) \<Rightarrow> if la = tool \<and> lb = dumps args then k + 1 else 1)
        = int (trailing_run (tool, dumps args) h) + 1" by (simp add: consecutive_of_snoc)
    with False tr m show ?thesis
      by (auto simp: record_and_check_def guard_verdict_def guard_tracks_def Let_def split: prod.splits)
  qed
  then show ?thesis by (simp add: guard_verdict_def split: if_splits)
qed

theorem guard_refines_verdict_witness:
  "fst (record_and_check (\<lambda>_. ''{}'') ''t'' ''ls'' []
      (fold (guard_step (\<lambda>_. ''{}'')) [ToolCall ''t'' ''ls'' [], ToolCall ''u'' ''rm'' [], ToolCall ''t'' ''ls'' []]
         (new_loop_guard 25 3))) = Some (RepeatedCall ''ls'' 3)"
  unfolding conjunct1 [OF guard_refines_verdict] by code_simp

section \<open>The tool approval manager\<close>

datatype tool_risk = RISK_READ_ONLY | RISK_LOW | RISK_MEDIUM | RISK_HIGH | RISK_CRITICAL

fun tool_risk_name :: "tool_risk \<Rightarrow> string" where
  "tool_risk_name RISK_READ_ONLY = ''read_only''"
| "tool_risk_name RISK_LOW = ''low''"
| "tool_risk_name RISK_MEDIUM = ''medium''"
| "tool_risk_name RISK_HIGH = ''high''"
| "tool_risk_name RISK_CRITICAL = ''critical''"

datatype approval_status = TOOL_APPROVED | TOOL_REJECTED | TOOL_PENDING

datatype approval_reason = Denylisted | NotAllowlisted | NeedsHuman | ChecksPassed

record approval_decision =
  ad_status :: approval_status
  ad_tool :: string
  ad_agent :: string
  ad_risk :: tool_risk
  ad_ticket :: "string option"
  ad_reason :: approval_reason

record safety_policy =
  sp_human_levels :: "tool_risk list"
  sp_allowlists :: "(string, string list) pydict"
  sp_denylists :: "(string, string list) pydict"
  sp_max_calls :: int
  sp_max_duplicate :: int

definition default_safety_policy :: safety_policy where
  "default_safety_policy = \<lparr>sp_human_levels = [RISK_HIGH, RISK_CRITICAL], sp_allowlists = [],
     sp_denylists = [], sp_max_calls = 25, sp_max_duplicate = 3\<rparr>"

record pending_tool =
  pt_tool :: string
  pt_agent :: string
  pt_args :: tool_args
  pt_risk :: tool_risk
  pt_status :: string

record tool_manager =
  tm_policy :: safety_policy
  tm_guard :: loop_guard
  tm_tickets :: "(string, pending_tool) pydict"
  tm_log :: "emitted list"

definition new_tool_manager :: "safety_policy option \<Rightarrow> tool_manager" where
  "new_tool_manager p =
     (let p = (case p of None \<Rightarrow> default_safety_policy | Some p \<Rightarrow> p)
      in \<lparr>tm_policy = p, tm_guard = new_loop_guard (sp_max_calls p) (sp_max_duplicate p),
          tm_tickets = [], tm_log = []\<rparr>)"

definition on_denylist :: "safety_policy \<Rightarrow> string \<Rightarrow> string \<Rightarrow> bool" where
  "on_denylist p agent tool =
     (let l = dgetd (sp_denylists p) agent [] in ''*'' \<in> set l \<or> tool \<in> set l)"

definition off_allowlist :: "safety_policy \<Rightarrow> string \<Rightarrow> string \<Rightarrow> bool" where
  "off_allowlist p agent tool =
     (case dget (sp_allowlists p) agent of
        None \<Rightarrow> False | Some l \<Rightarrow> ''*'' \<notin> set l \<and> tool \<notin> set l)"

definition needs_human :: "safety_policy \<Rightarrow> bool \<Rightarrow> tool_risk \<Rightarrow> bool" where
  "needs_human p bypass risk = (\<not> bypass \<and> risk \<in> set (sp_human_levels p))"

text \<open>The steps after the loop guard.\<close>

definition decide_tool ::
  "string \<Rightarrow> string \<Rightarrow> string \<Rightarrow> tool_args \<Rightarrow> tool_risk \<Rightarrow> bool \<Rightarrow> tool_manager
     \<Rightarrow> approval_decision \<times> tool_manager" where
  "decide_tool tid tool agent args risk bypass m =
     (let d = (\<lambda>st tk why. \<lparr>ad_status = st, ad_tool = tool, ad_agent = agent, ad_risk = risk,
                            ad_ticket = tk, ad_reason = why\<rparr>)
      in if on_denylist (tm_policy m) agent tool then (d TOOL_REJECTED None Denylisted, m)
         else if off_allowlist (tm_policy m) agent tool then (d TOOL_REJECTED None NotAllowlisted, m)
         else if needs_human (tm_policy m) bypass risk then
           (d TOOL_PENDING (Some tid) NeedsHuman,
            m\<lparr>tm_tickets := dset tid \<lparr>pt_tool = tool, pt_agent = agent, pt_args = args, pt_risk = risk,
                                      pt_status = ''pending''\<rparr> (tm_tickets m),
              tm_log := tm_log m @ [\<lparr>em_actor = agent, em_tenant = ''default'',
                em_action = ''tool.approval_required'', em_resource_type = ''tool'', em_resource_id = tool,
                em_outcome = ''pending'',
                em_metadata = [(''risk_level'', JStr (tool_risk_name risk)), (''ticket_id'', JStr tid)]\<rparr>]\<rparr>)
         else (d TOOL_APPROVED None ChecksPassed, m))"

text \<open>
  \<open>evaluate_tool_execution\<close>; the identifier of a new ticket, drawn from \<open>uuid4\<close>, is an argument. An
  empty or missing turn skips the guard.
\<close>

definition evaluate_tool_execution ::
  "(tool_args \<Rightarrow> string) \<Rightarrow> string \<Rightarrow> string \<Rightarrow> string \<Rightarrow> tool_args \<Rightarrow> tool_risk \<Rightarrow> string option \<Rightarrow> bool
     \<Rightarrow> tool_manager \<Rightarrow> (loop_error + approval_decision) \<times> tool_manager" where
  "evaluate_tool_execution dumps tid tool agent args risk turn bypass m =
     (let (err, m) = (case turn of
            None \<Rightarrow> (None, m)
          | Some t \<Rightarrow> if t = [] then (None, m)
                      else (let (e, g) = record_and_check dumps t tool args (tm_guard m)
                            in (e, m\<lparr>tm_guard := g\<rparr>)))
      in case err of
           Some e \<Rightarrow> (Inl e, m)
         | None \<Rightarrow> (let (d, m) = decide_tool tid tool agent args risk bypass m in (Inr d, m)))"

definition resolve_tool_ticket :: "string \<Rightarrow> bool \<Rightarrow> string \<Rightarrow> tool_manager \<Rightarrow> bool \<times> tool_manager" where
  "resolve_tool_ticket tid approved reviewer m =
     (case dget (tm_tickets m) tid of
        None \<Rightarrow> (False, m)
      | Some t \<Rightarrow>
          (True, m\<lparr>tm_tickets := dset tid (t\<lparr>pt_status := (if approved then ''approved'' else ''rejected'')\<rparr>)
                                 (tm_tickets m),
                   tm_log := tm_log m @ [\<lparr>em_actor = reviewer, em_tenant = ''default'',
                     em_action = ''tool.approval_resolved'', em_resource_type = ''governance_ticket'',
                     em_resource_id = tid, em_outcome = (if approved then ''success'' else ''denied''),
                     em_metadata = [(''approved'', JBool approved)]\<rparr>]\<rparr>))"

definition tool_manager_clear :: "tool_manager \<Rightarrow> tool_manager" where
  "tool_manager_clear m = m\<lparr>tm_guard := guard_clear (tm_guard m), tm_tickets := []\<rparr>"

lemma evaluate_tool_Inr:
  assumes "evaluate_tool_execution dumps tid tool agent args risk turn bypass m = (Inr d, m')"
  shows "\<exists>g. (d, m') = decide_tool tid tool agent args risk bypass (m\<lparr>tm_guard := g\<rparr>)"
proof (cases "turn = None \<or> turn = Some []")
  case True
  have "m\<lparr>tm_guard := tm_guard m\<rparr> = m" by simp
  with assms True show ?thesis
    by (auto simp: evaluate_tool_execution_def intro!: exI [of _ "tm_guard m"] split: prod.splits)
next
  case False
  then obtain t where t: "turn = Some t" "t \<noteq> []" by auto
  obtain e g where eg: "record_and_check dumps t tool args (tm_guard m) = (e, g)" by fastforce
  with assms t show ?thesis
    by (cases e) (auto simp: evaluate_tool_execution_def intro!: exI [of _ g] split: prod.splits)
qed

text \<open>
  The decision on a tool that the loop guard lets pass: rejected exactly when the tool is on the
  agent's denylist or off its allowlist, a deny entry winning over an allow entry; pending exactly when
  it is neither and its risk asks for a human who is not bypassed, with one new pending ticket for it
  and one audit event; approved otherwise, with nothing recorded.
\<close>

theorem tool_decision_exact:
  assumes "evaluate_tool_execution dumps tid tool agent args risk turn bypass m = (Inr d, m')"
  defines "p \<equiv> tm_policy m"
  shows "(ad_status d = TOOL_REJECTED \<longleftrightarrow> on_denylist p agent tool \<or> off_allowlist p agent tool)
       \<and> (ad_status d = TOOL_PENDING \<longleftrightarrow> \<not> on_denylist p agent tool \<and> \<not> off_allowlist p agent tool
             \<and> needs_human p bypass risk)
       \<and> (ad_status d = TOOL_PENDING \<longrightarrow> ad_ticket d = Some tid
             \<and> map_option pt_status (dget (tm_tickets m') tid) = Some ''pending''
             \<and> map_option pt_tool (dget (tm_tickets m') tid) = Some tool
             \<and> length (tm_log m') = length (tm_log m) + 1)
       \<and> (ad_status d \<noteq> TOOL_PENDING \<longrightarrow> tm_tickets m' = tm_tickets m \<and> tm_log m' = tm_log m)"
proof -
  from evaluate_tool_Inr [OF assms(1)] obtain g
    where "(d, m') = decide_tool tid tool agent args risk bypass (m\<lparr>tm_guard := g\<rparr>)" by blast
  then show ?thesis by (auto simp: decide_tool_def p_def Let_def split: if_splits)
qed

theorem tool_decision_exact_witness:
  "\<exists>d m'. evaluate_tool_execution (\<lambda>_. []) ''k'' ''rm'' ''a'' [] RISK_HIGH None False (new_tool_manager None)
      = (Inr d, m') \<and> ad_ticket d = Some ''k'' \<and> map_option pt_tool (dget (tm_tickets m') ''k'') = Some ''rm''"
proof -
  obtain d m' where e: "evaluate_tool_execution (\<lambda>_. []) ''k'' ''rm'' ''a'' [] RISK_HIGH None False
      (new_tool_manager None) = (Inr d, m')" and p: "ad_status d = TOOL_PENDING"
    by (simp add: evaluate_tool_execution_def new_tool_manager_def default_safety_policy_def decide_tool_def
        on_denylist_def off_allowlist_def needs_human_def Let_def)
  from tool_decision_exact [OF e] p e show ?thesis by blast
qed

lemma decide_tool_policy:
  "tm_policy x = tm_policy y \<Longrightarrow>
     fst (decide_tool tid tool agent args risk bypass x) = fst (decide_tool tid tool agent args risk bypass y)"
  by (simp add: decide_tool_def Let_def)

lemma fst_evaluate_tool:
  "fst (evaluate_tool_execution dumps tid tool agent args risk turn bypass m) =
     (case (case turn of None \<Rightarrow> None
            | Some t \<Rightarrow> if t = [] then None else fst (record_and_check dumps t tool args (tm_guard m))) of
        Some e \<Rightarrow> Inl e
      | None \<Rightarrow> Inr (fst (decide_tool tid tool agent args risk bypass m)))"
proof (cases "turn = None \<or> turn = Some []")
  case True
  then show ?thesis by (auto simp: evaluate_tool_execution_def split: prod.splits)
next
  case False
  then obtain t where t: "turn = Some t" "t \<noteq> []" by auto
  obtain e g where eg: "record_and_check dumps t tool args (tm_guard m) = (e, g)" by fastforce
  have "fst (decide_tool tid tool agent args risk bypass (m\<lparr>tm_guard := g\<rparr>))
      = fst (decide_tool tid tool agent args risk bypass m)" by (rule decide_tool_policy) simp
  with t eg show ?thesis
    by (cases e) (auto simp: evaluate_tool_execution_def split: prod.splits)
qed

text \<open>
  The outcome of a ticket is not consulted: approving (or rejecting) any ticket changes neither the
  decision on any later tool call nor the guard, so a tool that asked for a human asks again each time.
\<close>

theorem tool_approval_not_remembered:
  fixes tk reviewer :: string and approved :: bool and m :: tool_manager
  defines "m' \<equiv> snd (resolve_tool_ticket tk approved reviewer m)"
  shows "fst (evaluate_tool_execution dumps tid tool agent args risk turn bypass m') =
         fst (evaluate_tool_execution dumps tid tool agent args risk turn bypass m)
       \<and> tm_guard m' = tm_guard m"
proof -
  have same: "tm_guard m' = tm_guard m" "tm_policy m' = tm_policy m"
    by (simp_all add: m'_def resolve_tool_ticket_def split: option.splits)
  show ?thesis unfolding fst_evaluate_tool same decide_tool_policy [OF same(2)] by (intro conjI refl)
qed

end
