(* ===== verification/Token_Lifecycle.thy ===== *)
theory Token_Lifecycle
  imports Access_Control
begin

text \<open>
  \<open>security/tokens.py\<close>: the revocation store, refresh-token rotation with reuse detection, API keys and
  break-glass elevation. The JWT library is the parameter \<open>jwt_api\<close>, SHA-256 the parameter \<open>H\<close>;
  identifiers and random strings are arguments, and so is the time of a call.
\<close>

section \<open>The revocation store and the token families\<close>

record claims =
  cl_sub :: "string option"
  cl_role :: "string option"
  cl_scopes :: "string list option"
  cl_session :: "string option"
  cl_family :: "string option"
  cl_type :: "string option"
  cl_jti :: "string option"
  cl_exp :: timestamp

record jwt_api =
  jw_encode :: "claims \<Rightarrow> string"
  jw_decode :: "timestamp \<Rightarrow> string \<Rightarrow> claims option"

text \<open>
  What the code relies on: the payload of a token does not change with the time it is decoded at,
  which only decides whether it has expired.
\<close>

definition jwt_stable :: "jwt_api \<Rightarrow> bool" where
  "jwt_stable api \<longleftrightarrow> (\<forall>t t' tok c c'. jw_decode api t tok = Some c \<longrightarrow> jw_decode api t' tok = Some c' \<longrightarrow> c = c')"

text \<open>At time \<open>t\<close> the token decodes to the claims, but for the expiry, kept in whole seconds.\<close>

definition decodes_to :: "jwt_api \<Rightarrow> timestamp \<Rightarrow> string \<Rightarrow> claims \<Rightarrow> bool" where
  "decodes_to api t tok c \<longleftrightarrow> (\<exists>e. jw_decode api t tok = Some (c\<lparr>cl_exp := e\<rparr>))"

record token_pair =
  tp_access :: string
  tp_refresh :: string
  tp_type :: string
  tp_expires_in :: int
  tp_refresh_expires_in :: int

text \<open>The store of one process, the class-level map of active families, and the audit events.\<close>

record token_state =
  ts_jtis :: "(string, timestamp) pydict"
  ts_sessions :: "string set"
  ts_families :: "string set"
  ts_active :: "(string, string set) pydict"
  ts_log :: "emitted list"

definition new_token_state :: token_state where
  "new_token_state = \<lparr>ts_jtis = [], ts_sessions = {}, ts_families = {}, ts_active = [], ts_log = []\<rparr>"

record token_config =
  tc_access_minutes :: int
  tc_refresh_days :: int

definition default_token_config :: token_config where
  "default_token_config = \<lparr>tc_access_minutes = 15, tc_refresh_days = 7\<rparr>"

definition cleanup_jtis :: "timestamp \<Rightarrow> token_state \<Rightarrow> token_state" where
  "cleanup_jtis now s = s\<lparr>ts_jtis := filter (\<lambda>(_, e). \<not> now > e) (ts_jtis s)\<rparr>"

definition revoke_jti :: "timestamp \<Rightarrow> string \<Rightarrow> timestamp option \<Rightarrow> token_state \<Rightarrow> token_state" where
  "revoke_jti now jti expires s =
     (let e = (case expires of Some e \<Rightarrow> e | None \<Rightarrow> now + 7 * 86400)
      in cleanup_jtis now (s\<lparr>ts_jtis := dset jti e (ts_jtis s)\<rparr>))"

definition is_jti_revoked :: "timestamp \<Rightarrow> string \<Rightarrow> token_state \<Rightarrow> bool \<times> token_state" where
  "is_jti_revoked now jti s =
     (case dget (ts_jtis s) jti of
        None \<Rightarrow> (False, s)
      | Some e \<Rightarrow> if now > e then (False, s\<lparr>ts_jtis := dpop jti (ts_jtis s)\<rparr>) else (True, s))"

definition revoke_session :: "string \<Rightarrow> token_state \<Rightarrow> token_state" where
  "revoke_session sid s = s\<lparr>ts_sessions := insert sid (ts_sessions s)\<rparr>"

definition is_session_revoked :: "string \<Rightarrow> token_state \<Rightarrow> bool" where
  "is_session_revoked sid s = (sid \<in> ts_sessions s)"

definition revoke_family :: "string \<Rightarrow> token_state \<Rightarrow> token_state" where
  "revoke_family fam s = s\<lparr>ts_families := insert fam (ts_families s)\<rparr>"

definition is_family_revoked :: "string \<Rightarrow> token_state \<Rightarrow> bool" where
  "is_family_revoked fam s = (fam \<in> ts_families s)"

definition token_store_clear :: "token_state \<Rightarrow> token_state" where
  "token_store_clear s = s\<lparr>ts_jtis := [], ts_sessions := {}, ts_families := {}\<rparr>"

definition token_families_clear :: "token_state \<Rightarrow> token_state" where
  "token_families_clear s = s\<lparr>ts_active := []\<rparr>"

section \<open>Issuing and rotating\<close>

text \<open>The four identifiers \<open>create_token_pair\<close> may draw.\<close>

record token_ids =
  ti_session :: string
  ti_family :: string
  ti_access_jti :: string
  ti_refresh_jti :: string

text \<open>\<open>x or y\<close> on an optional string.\<close>

definition or_str :: "string option \<Rightarrow> string \<Rightarrow> string" where
  "or_str x y = (case x of None \<Rightarrow> y | Some s \<Rightarrow> if s = [] then y else s)"

definition refresh_claims ::
  "token_config \<Rightarrow> timestamp \<Rightarrow> string \<Rightarrow> string \<Rightarrow> string list \<Rightarrow> string \<Rightarrow> string \<Rightarrow> string \<Rightarrow> claims" where
  "refresh_claims cfg now user role scopes sid fam jti =
     \<lparr>cl_sub = Some user, cl_role = Some role, cl_scopes = Some scopes, cl_session = Some sid,
      cl_family = Some fam, cl_type = Some ''refresh'', cl_jti = Some jti,
      cl_exp = now + of_int (tc_refresh_days cfg) * 86400\<rparr>"

definition create_token_pair ::
  "jwt_api \<Rightarrow> token_config \<Rightarrow> token_ids \<Rightarrow> timestamp \<Rightarrow> string \<Rightarrow> string \<Rightarrow> string list option
     \<Rightarrow> string option \<Rightarrow> string option \<Rightarrow> token_state \<Rightarrow> token_pair \<times> token_state" where
  "create_token_pair api cfg ids now user role scopes session_id family_id s =
     (let sid = or_str session_id (ti_session ids);
          fam = or_str family_id (ti_family ids);
          scopes = (case scopes of None \<Rightarrow> [] | Some l \<Rightarrow> l);
          access = jw_encode api \<lparr>cl_sub = Some user, cl_role = Some role, cl_scopes = Some scopes,
                     cl_session = Some sid, cl_family = None, cl_type = Some ''access'',
                     cl_jti = Some (ti_access_jti ids),
                     cl_exp = now + of_int (tc_access_minutes cfg) * 60\<rparr>;
          refresh = jw_encode api (refresh_claims cfg now user role scopes sid fam (ti_refresh_jti ids));
          s = s\<lparr>ts_active := dset fam (insert (ti_refresh_jti ids) (dgetd (ts_active s) fam {})) (ts_active s)\<rparr>
      in (\<lparr>tp_access = access, tp_refresh = refresh, tp_type = ''bearer'',
           tp_expires_in = tc_access_minutes cfg * 60,
           tp_refresh_expires_in = tc_refresh_days cfg * 86400\<rparr>, s))"

datatype token_error =
    InvalidToken
  | NotARefreshToken
  | MalformedClaims
  | FamilyRevoked string
  | SessionRevoked string
  | TokenReuse

text \<open>The claims that \<open>rotate_refresh_token\<close> needs, none of them missing or empty.\<close>

definition required_claims :: "claims \<Rightarrow> (string \<times> string \<times> string) option" where
  "required_claims c =
     (case (cl_jti c, cl_family c, cl_sub c) of
        (Some jti, Some fam, Some user) \<Rightarrow>
          if jti = [] \<or> fam = [] \<or> user = [] then None else Some (jti, fam, user)
      | _ \<Rightarrow> None)"

definition rotate_refresh_token ::
  "jwt_api \<Rightarrow> token_config \<Rightarrow> token_ids \<Rightarrow> timestamp \<Rightarrow> string \<Rightarrow> token_state
     \<Rightarrow> (token_error + token_pair) \<times> token_state" where
  "rotate_refresh_token api cfg ids now tok s =
     (case jw_decode api now tok of
        None \<Rightarrow> (Inl InvalidToken, s)
      | Some c \<Rightarrow>
          if cl_type c \<noteq> Some ''refresh'' then (Inl NotARefreshToken, s)
          else case required_claims c of
            None \<Rightarrow> (Inl MalformedClaims, s)
          | Some (jti, fam, user) \<Rightarrow>
              if is_family_revoked fam s then (Inl (FamilyRevoked fam), s)
              else if or_str (cl_session c) [] \<noteq> [] \<and> is_session_revoked (or_str (cl_session c) []) s
              then (Inl (SessionRevoked (or_str (cl_session c) [])), s)
              else (let valid = dgetd (ts_active s) fam {};
                        (revoked, s) = is_jti_revoked now jti s
                    in if revoked \<or> jti \<notin> valid then
                         (Inl TokenReuse,
                          (revoke_family fam s)\<lparr>ts_active := dpop fam (ts_active s),
                            ts_log := ts_log s @ [\<lparr>em_actor = user, em_tenant = ''default'',
                              em_action = ''auth.token_reuse_detected'', em_resource_type = ''token_family'',
                              em_resource_id = fam, em_outcome = ''denied'',
                              em_metadata = [(''jti'', JStr jti),
                                (''incident'', JStr ''replay_attack_attempt'')]\<rparr>]\<rparr>)
                       else (let s = revoke_jti now jti None s;
                                 s = s\<lparr>ts_active := dset fam (valid - {jti}) (ts_active s)\<rparr>;
                                 (p, s) = create_token_pair api cfg ids now user
                                            (case cl_role c of None \<Rightarrow> ''user'' | Some r \<Rightarrow> r)
                                            (Some (case cl_scopes c of None \<Rightarrow> [] | Some l \<Rightarrow> l))
                                            (cl_session c) (Some fam) s
                             in (Inr p, s))))"

text \<open>What other parts of the program may do to the state, short of clearing it.\<close>

datatype token_event =
    Issue token_ids timestamp string string "string list option" "string option" "string option"
  | Rotate token_ids timestamp string
  | RevokeJti timestamp string "timestamp option"
  | CheckJti timestamp string
  | RevokeSession string
  | RevokeFamily string

fun token_step :: "jwt_api \<Rightarrow> token_config \<Rightarrow> token_event \<Rightarrow> token_state \<Rightarrow> token_state" where
  "token_step api cfg (Issue ids now user role scopes sid fam) s =
     snd (create_token_pair api cfg ids now user role scopes sid fam s)"
| "token_step api cfg (Rotate ids now tok) s = snd (rotate_refresh_token api cfg ids now tok s)"
| "token_step api cfg (RevokeJti now jti e) s = revoke_jti now jti e s"
| "token_step api cfg (CheckJti now jti) s = snd (is_jti_revoked now jti s)"
| "token_step api cfg (RevokeSession sid) s = revoke_session sid s"
| "token_step api cfg (RevokeFamily fam) s = revoke_family fam s"

text \<open>The refresh identifier an event may draw.\<close>

fun drawn_jti :: "token_event \<Rightarrow> string option" where
  "drawn_jti (Issue ids now user role scopes sid fam) = Some (ti_refresh_jti ids)"
| "drawn_jti (Rotate ids now tok) = Some (ti_refresh_jti ids)"
| "drawn_jti e = None"

section \<open>Reuse detection\<close>

text \<open>A refresh identifier that its family no longer accepts.\<close>

definition jti_spent :: "string \<Rightarrow> string \<Rightarrow> token_state \<Rightarrow> bool" where
  "jti_spent fam jti s \<longleftrightarrow> fam \<in> ts_families s \<or> jti \<notin> dgetd (ts_active s) fam {}"

lemma revoke_jti_other [simp]:
  "ts_active (revoke_jti now jti e s) = ts_active s" "ts_families (revoke_jti now jti e s) = ts_families s"
  "ts_sessions (revoke_jti now jti e s) = ts_sessions s" "ts_log (revoke_jti now jti e s) = ts_log s"
  by (simp_all add: revoke_jti_def cleanup_jtis_def)

lemma is_jti_revoked_other:
  assumes "is_jti_revoked now jti s = (b, s')"
  shows "ts_active s' = ts_active s" "ts_families s' = ts_families s" "ts_sessions s' = ts_sessions s"
    "ts_log s' = ts_log s"
  using assms by (auto simp: is_jti_revoked_def split: option.splits if_splits)

lemma create_token_pair_state:
  "ts_families (snd (create_token_pair api cfg ids now user role scopes sid fam s)) = ts_families s"
  "ts_sessions (snd (create_token_pair api cfg ids now user role scopes sid fam s)) = ts_sessions s"
  "ts_active (snd (create_token_pair api cfg ids now user role scopes sid fam s)) =
     (let f = or_str fam (ti_family ids)
      in dset f (insert (ti_refresh_jti ids) (dgetd (ts_active s) f {})) (ts_active s))"
  by (simp_all add: create_token_pair_def Let_def)

text \<open>The outcomes of a rotation whose claims are complete.\<close>

lemma rotate_cases:
  assumes "jw_decode api now tok = Some c" and "cl_type c = Some ''refresh''"
    and "required_claims c = Some (jti, fam, user)"
  obtains (blocked) err where "fam \<in> ts_families s \<or> (\<exists>sid. cl_session c = Some sid \<and> sid \<in> ts_sessions s)"
      "rotate_refresh_token api cfg ids now tok s = (Inl err, s)"
  | (reuse) s' where "rotate_refresh_token api cfg ids now tok s = (Inl TokenReuse, s')"
      "ts_families s' = insert fam (ts_families s)" "ts_active s' = dpop fam (ts_active s)"
      "ts_sessions s' = ts_sessions s"
  | (rotated) p s' where "rotate_refresh_token api cfg ids now tok s = (Inr p, s')"
      "jti \<in> dgetd (ts_active s) fam {}" "fam \<notin> ts_families s" "ts_families s' = ts_families s"
      "ts_sessions s' = ts_sessions s"
      "ts_active s' = dset fam (insert (ti_refresh_jti ids) (dgetd (ts_active s) fam {} - {jti})) (ts_active s)"
proof -
  have fam: "fam \<noteq> []" using assms(3) by (auto simp: required_claims_def split: option.splits if_splits)
  obtain b s0 where r: "is_jti_revoked now jti s = (b, s0)" by fastforce
  note o = is_jti_revoked_other [OF r]
  show thesis
  proof (cases "fam \<in> ts_families s \<or> (or_str (cl_session c) [] \<noteq> [] \<and> or_str (cl_session c) [] \<in> ts_sessions s)")
    case True
    then have "fam \<in> ts_families s \<or> (\<exists>sid. cl_session c = Some sid \<and> sid \<in> ts_sessions s)"
      by (auto simp: or_str_def split: option.splits if_splits)
    moreover have "\<exists>err. rotate_refresh_token api cfg ids now tok s = (Inl err, s)"
      using True assms
      by (auto simp: rotate_refresh_token_def is_family_revoked_def is_session_revoked_def)
    ultimately show thesis using blocked by blast
  next
    case False
    then have nb: "\<not> is_family_revoked fam s" "\<not> (or_str (cl_session c) [] \<noteq> [] \<and> is_session_revoked (or_str (cl_session c) []) s)"
      by (simp_all add: is_family_revoked_def is_session_revoked_def)
    show thesis
    proof (cases "b \<or> jti \<notin> dgetd (ts_active s) fam {}")
      case True
      show thesis
        by (rule reuse [of "snd (rotate_refresh_token api cfg ids now tok s)"])
          (use True nb r o assms in \<open>auto simp: rotate_refresh_token_def revoke_family_def\<close>)
    next
      case False2: False
      obtain p s' where p: "create_token_pair api cfg ids now user (case cl_role c of None \<Rightarrow> ''user'' | Some r \<Rightarrow> r)
          (Some (case cl_scopes c of None \<Rightarrow> [] | Some l \<Rightarrow> l)) (cl_session c) (Some fam)
          ((revoke_jti now jti None s0)\<lparr>ts_active := dset fam (dgetd (ts_active s) fam {} - {jti}) (ts_active s0)\<rparr>)
          = (p, s')" by fastforce
      have "rotate_refresh_token api cfg ids now tok s = (Inr p, s')"
        using False2 nb r assms p by (simp add: rotate_refresh_token_def Let_def)
      moreover note st = create_token_pair_state [of api cfg ids now user "case cl_role c of None \<Rightarrow> ''user'' | Some r \<Rightarrow> r"
          "Some (case cl_scopes c of None \<Rightarrow> [] | Some l \<Rightarrow> l)" "cl_session c" "Some fam"
          "(revoke_jti now jti None s0)\<lparr>ts_active := dset fam (dgetd (ts_active s) fam {} - {jti}) (ts_active s0)\<rparr>",
          unfolded p]
      ultimately show thesis
        using False False2 o fam by (intro rotated [of p s']) (simp_all add: or_str_def Let_def)
    qed
  qed
qed

lemma rotate_incomplete:
  assumes "\<not> (\<exists>c jti fam user. jw_decode api now tok = Some c \<and> cl_type c = Some ''refresh''
               \<and> required_claims c = Some (jti, fam, user))"
  shows "\<exists>err. rotate_refresh_token api cfg ids now tok s = (Inl err, s)"
proof (cases "jw_decode api now tok")
  case None
  then show ?thesis by (simp add: rotate_refresh_token_def)
next
  case (Some c)
  with assms have "cl_type c \<noteq> Some ''refresh'' \<or> required_claims c = None"
    by (cases "required_claims c") auto
  with Some show ?thesis by (auto simp: rotate_refresh_token_def)
qed

lemma token_step_spent:
  assumes sp: "jti_spent fam jti s" and fr: "drawn_jti e \<noteq> Some jti"
  shows "jti_spent fam jti (token_step api cfg e s)"
proof (cases e)
  case (Issue ids now user role scopes sid f)
  with sp fr show ?thesis by (auto simp: jti_spent_def create_token_pair_state Let_def)
next
  case (Rotate ids now tok)
  show ?thesis
  proof (cases "\<exists>c j f user. jw_decode api now tok = Some c \<and> cl_type c = Some ''refresh''
               \<and> required_claims c = Some (j, f, user)")
    case True
    then obtain c j f user where c: "jw_decode api now tok = Some c" "cl_type c = Some ''refresh''"
      "required_claims c = Some (j, f, user)" by blast
    show ?thesis
      by (rule rotate_cases [OF c, of s cfg ids]) (use sp fr Rotate in \<open>auto simp: jti_spent_def\<close>)
  next
    case False
    from rotate_incomplete [OF this, of cfg ids s] sp Rotate show ?thesis by auto
  qed
next
  case (CheckJti now j)
  then show ?thesis
    using sp is_jti_revoked_other [of now j s "fst (is_jti_revoked now j s)" "snd (is_jti_revoked now j s)"]
    by (simp add: jti_spent_def)
qed (use sp in \<open>auto simp: jti_spent_def revoke_session_def revoke_family_def\<close>)

lemma token_run_spent:
  "jti_spent fam jti s \<Longrightarrow> list_all (\<lambda>e. drawn_jti e \<noteq> Some jti) es \<Longrightarrow>
     jti_spent fam jti (fold (token_step api cfg) es s)"
  by (induction es arbitrary: s) (simp_all add: token_step_spent)

lemma token_step_families: "ts_families s \<subseteq> ts_families (token_step api cfg e s)"
proof (cases e)
  case (Rotate ids now tok)
  show ?thesis
  proof (cases "\<exists>c j f user. jw_decode api now tok = Some c \<and> cl_type c = Some ''refresh''
               \<and> required_claims c = Some (j, f, user)")
    case True
    then obtain c j f user where c: "jw_decode api now tok = Some c" "cl_type c = Some ''refresh''"
      "required_claims c = Some (j, f, user)" by blast
    show ?thesis by (rule rotate_cases [OF c, of s cfg ids]) (use Rotate in auto)
  next
    case False
    from rotate_incomplete [OF this, of cfg ids s] Rotate show ?thesis by auto
  qed
next
  case (CheckJti now j)
  then show ?thesis
    using is_jti_revoked_other [of now j s "fst (is_jti_revoked now j s)" "snd (is_jti_revoked now j s)"]
    by simp
qed (auto simp: create_token_pair_state revoke_session_def revoke_family_def)

interpretation tokens: measured_machine "token_step api cfg" "\<lambda>_. True" ts_families for api cfg
  by unfold_locales (simp_all add: token_step_families)

lemma rotate_spent_fails:
  assumes "jw_decode api now tok = Some c" and "cl_type c = Some ''refresh''"
    and "required_claims c = Some (jti, fam, user)" and "jti_spent fam jti s"
  shows "is_error (fst (rotate_refresh_token api cfg ids now tok s))
    \<and> (cl_session c = None \<or> the (cl_session c) \<notin> ts_sessions s \<longrightarrow>
         fam \<in> ts_families (snd (rotate_refresh_token api cfg ids now tok s)))"
proof (rule rotate_cases [OF assms(1-3), of s cfg ids], goal_cases)
  case (1 err)
  then show ?case by (elim disjE) auto
next
  case (2 s')
  then show ?case by simp
next
  case (3 p s')
  with assms(4) show ?case by (simp add: jti_spent_def)
qed

lemma rotate_revoked_family_fails:
  assumes "jw_decode api now tok = Some c" and "cl_family c = Some fam" and "fam \<in> ts_families s"
  shows "is_error (fst (rotate_refresh_token api cfg ids now tok s))"
proof (cases "\<exists>c j f user. jw_decode api now tok = Some c \<and> cl_type c = Some ''refresh''
               \<and> required_claims c = Some (j, f, user)")
  case True
  with assms(1) obtain j f user where c: "cl_type c = Some ''refresh''"
    "required_claims c = Some (j, f, user)" by auto
  with assms(2) have "f = fam" by (auto simp: required_claims_def split: option.splits if_splits)
  with assms(3) have sp: "jti_spent f j s" by (simp add: jti_spent_def)
  from rotate_spent_fails [OF assms(1) c sp] show ?thesis by blast
next
  case False
  from rotate_incomplete [OF this, of cfg ids s] show ?thesis by auto
qed

text \<open>
  C15. Replay of a refresh token is detected: a token that has been rotated once never rotates again,
  whatever is issued, rotated or revoked in between, as long as its identifier is not drawn a second
  time; and unless its session has been revoked, presenting it again revokes its family, after which
  no token of the family rotates any more.
\<close>

theorem refresh_token_replay:
  fixes api :: jwt_api and cfg :: token_config and s1 :: token_state
  assumes "jwt_stable api" and "jw_decode api now tok = Some c"
    and "rotate_refresh_token api cfg ids now tok s = (Inr p, s1)"
    and "Some (ti_refresh_jti ids) \<noteq> cl_jti c" and "list_all (\<lambda>e. drawn_jti e \<noteq> cl_jti c) es"
    and "jw_decode api t tok \<noteq> None"
  defines "s2 \<equiv> fold (token_step api cfg) es s1"
  shows "is_error (fst (rotate_refresh_token api cfg ids2 t tok s2))
    \<and> (cl_session c = None \<or> the (cl_session c) \<notin> ts_sessions s2 \<longrightarrow>
        (\<forall>es2 ids3 t3 tok3 c3. jw_decode api t3 tok3 = Some c3 \<longrightarrow> cl_family c3 = cl_family c \<longrightarrow>
           is_error (fst (rotate_refresh_token api cfg ids3 t3 tok3
             (fold (token_step api cfg) es2 (snd (rotate_refresh_token api cfg ids2 t tok s2)))))))"
proof -
  have "\<exists>c jti fam user. jw_decode api now tok = Some c \<and> cl_type c = Some ''refresh''
      \<and> required_claims c = Some (jti, fam, user)"
    using rotate_incomplete [of api now tok cfg ids s] assms(3) by auto
  with assms(2) obtain jti fam user where c: "cl_type c = Some ''refresh''"
    "required_claims c = Some (jti, fam, user)" by auto
  then have jf: "cl_jti c = Some jti" "cl_family c = Some fam"
    by (auto simp: required_claims_def split: option.splits if_splits)
  have "jti_spent fam jti s1"
    by (rule rotate_cases [OF assms(2) c, of s cfg ids])
      (use assms(3,4) jf in \<open>auto simp: jti_spent_def\<close>)
  then have sp: "jti_spent fam jti s2"
    unfolding s2_def using assms(5) jf by (intro token_run_spent) simp_all
  have dec: "jw_decode api t tok = Some c"
    using assms(1,2,6) unfolding jwt_stable_def by blast
  note fails = rotate_spent_fails [OF dec c sp, of cfg ids2]
  have "fam \<in> ts_families (fold (token_step api cfg) es2 x)" if "fam \<in> ts_families x" for es2 x
    using tokens.run_gauge [of x api cfg es2] that by blast
  with fails show ?thesis using jf(2) by (auto intro!: rotate_revoked_family_fails)
qed

definition sample_claims :: claims where
  "sample_claims = \<lparr>cl_sub = Some ''u'', cl_role = Some ''user'', cl_scopes = Some [], cl_session = Some ''s'',
     cl_family = Some ''f'', cl_type = Some ''refresh'', cl_jti = Some ''j'', cl_exp = 700\<rparr>"

definition sample_jwt :: jwt_api where
  "sample_jwt = \<lparr>jw_encode = (\<lambda>c. case cl_jti c of Some j \<Rightarrow> j | None \<Rightarrow> []),
     jw_decode = (\<lambda>t tok. if tok = ''j'' \<and> t < 700 then Some sample_claims else None)\<rparr>"

definition sample_ids :: "string \<Rightarrow> token_ids" where
  "sample_ids j = \<lparr>ti_session = ''s'', ti_family = ''f'', ti_access_jti = ''a'', ti_refresh_jti = j\<rparr>"

definition sample_tokens :: token_state where
  "sample_tokens = snd (create_token_pair sample_jwt default_token_config (sample_ids ''j'') 0 ''u'' ''user'' None
     None None new_token_state)"

theorem refresh_token_replay_witness:
  "\<exists>p s1. rotate_refresh_token sample_jwt default_token_config (sample_ids ''k'') 1 ''j'' sample_tokens = (Inr p, s1)
     \<and> is_error (fst (rotate_refresh_token sample_jwt default_token_config (sample_ids ''l'') 2 ''j'' s1))"
proof -
  have "is_error (fst (rotate_refresh_token sample_jwt default_token_config (sample_ids ''k'') 1 ''j'' sample_tokens))
      = False" by code_simp
  then obtain p s1 where r: "rotate_refresh_token sample_jwt default_token_config (sample_ids ''k'') 1 ''j'' sample_tokens
      = (Inr p, s1)"
    by (cases "rotate_refresh_token sample_jwt default_token_config (sample_ids ''k'') 1 ''j'' sample_tokens";
        cases "fst (rotate_refresh_token sample_jwt default_token_config (sample_ids ''k'') 1 ''j'' sample_tokens)") auto
  have st: "jwt_stable sample_jwt" by (auto simp: jwt_stable_def sample_jwt_def)
  have d: "jw_decode sample_jwt t ''j'' = Some sample_claims" if "t < 700" for t
    using that by (simp add: sample_jwt_def)
  have "is_error (fst (rotate_refresh_token sample_jwt default_token_config (sample_ids ''l'') 2 ''j''
      (fold (token_step sample_jwt default_token_config) [] s1)))"
    using refresh_token_replay [OF st d r, of "[]" 2 "sample_ids ''l''"]
    by (simp add: sample_claims_def sample_ids_def d)
  with r show ?thesis by auto
qed

text \<open>
  A newly issued refresh token works once: if it decodes to what was encoded, its family and
  session are not revoked and its identifier is not in the revocation store, rotating it succeeds,
  gives the same user a token of the same family, and leaves exactly the new identifier in place of
  the old one among the identifiers the family accepts.
\<close>

theorem issued_token_rotates:
  fixes api :: jwt_api and cfg :: token_config and now :: timestamp and s :: token_state and user role sid fam :: string and scopes :: "string list"
  assumes "user \<noteq> []" and "sid \<noteq> []" and "fam \<noteq> []" and "ti_refresh_jti ids \<noteq> []"
    and "fam \<notin> ts_families s" and "sid \<notin> ts_sessions s" and "dget (ts_jtis s) (ti_refresh_jti ids) = None"
  defines "r \<equiv> create_token_pair api cfg ids now user role (Some scopes) (Some sid) (Some fam) s"
  assumes "decodes_to api t (tp_refresh (fst r)) (refresh_claims cfg now user role scopes sid fam (ti_refresh_jti ids))"
  shows "\<exists>p s'. rotate_refresh_token api cfg ids2 t (tp_refresh (fst r)) (snd r) = (Inr p, s')
    \<and> dgetd (ts_active s') fam {} =
        insert (ti_refresh_jti ids2) (dgetd (ts_active s) fam {} - {ti_refresh_jti ids})
    \<and> tp_refresh p = jw_encode api (refresh_claims cfg t user role scopes sid fam (ti_refresh_jti ids2))"
proof -
  obtain e where dec: "jw_decode api t (tp_refresh (fst r)) =
      Some ((refresh_claims cfg now user role scopes sid fam (ti_refresh_jti ids))\<lparr>cl_exp := e\<rparr>)"
    using assms(9) by (auto simp: decodes_to_def)
  have jt: "ts_jtis (snd r) = ts_jtis s" "ts_sessions (snd r) = ts_sessions s" "ts_families (snd r) = ts_families s"
    "ts_active (snd r) = dset fam (insert (ti_refresh_jti ids) (dgetd (ts_active s) fam {})) (ts_active s)"
    using assms(3) by (simp_all add: r_def create_token_pair_def Let_def or_str_def)
  have rq: "required_claims ((refresh_claims cfg now user role scopes sid fam (ti_refresh_jti ids))\<lparr>cl_exp := e\<rparr>)
      = Some (ti_refresh_jti ids, fam, user)"
    using assms(1,3,4) by (simp add: required_claims_def refresh_claims_def)
  have nr: "is_jti_revoked t (ti_refresh_jti ids) (snd r) = (False, snd r)"
    using assms(7) jt by (simp add: is_jti_revoked_def)
  show ?thesis
    using dec rq nr jt assms(2,3,5,6)
    by (simp add: rotate_refresh_token_def is_family_revoked_def is_session_revoked_def Let_def or_str_def
        create_token_pair_def) (auto simp: refresh_claims_def)
qed

theorem issued_token_rotates_witness:
  "\<exists>p s'. rotate_refresh_token sample_jwt default_token_config (sample_ids ''k'') 1 ''j''
      (snd (create_token_pair sample_jwt default_token_config (sample_ids ''j'') 0 ''u'' ''user'' (Some [])
              (Some ''s'') (Some ''f'') new_token_state)) = (Inr p, s')
     \<and> dgetd (ts_active s') ''f'' {} = {''k''}"
proof -
  have tok: "tp_refresh (fst (create_token_pair sample_jwt default_token_config (sample_ids ''j'') 0 ''u'' ''user''
      (Some []) (Some ''s'') (Some ''f'') new_token_state)) = ''j''" by code_simp
  have "decodes_to sample_jwt 1 ''j'' (refresh_claims default_token_config 0 ''u'' ''user'' [] ''s'' ''f'' ''j'')"
    by (auto simp: decodes_to_def sample_jwt_def sample_claims_def refresh_claims_def)
  with issued_token_rotates [of "''u''" "''s''" "''f''" "sample_ids ''j''" new_token_state sample_jwt 1
      default_token_config 0 "''user''" "[]" "sample_ids ''k''"]
  show ?thesis unfolding tok by (auto simp: sample_ids_def new_token_state_def)
qed

section \<open>API keys\<close>

record api_key =
  ak_id :: string
  ak_prefix :: string
  ak_hash :: string
  ak_salt :: string
  ak_owner :: string
  ak_scopes :: "string list"
  ak_name :: string
  ak_created :: timestamp
  ak_expires :: "timestamp option"
  ak_active :: bool

type_synonym key_ring = "(string, api_key) pydict"

definition key_hash :: "(string \<Rightarrow> string) \<Rightarrow> string \<Rightarrow> string \<Rightarrow> string" where
  "key_hash H raw salt = H (salt @ '':'' @ raw)"

text \<open>
  \<open>create_api_key\<close>: identifier, entropy and salt are arguments. Empty scopes become \<open>["*"]\<close> and a
  lifetime of zero days, being falsy, no expiry.
\<close>

definition create_api_key ::
  "(string \<Rightarrow> string) \<Rightarrow> string \<Rightarrow> string \<Rightarrow> string \<Rightarrow> timestamp \<Rightarrow> string \<Rightarrow> string list option \<Rightarrow> string
     \<Rightarrow> int option \<Rightarrow> key_ring \<Rightarrow> (api_key \<times> string) \<times> key_ring" where
  "create_api_key H kid entropy salt now owner scopes name days ks =
     (let raw = ''ak_live_'' @ entropy;
          r = \<lparr>ak_id = kid, ak_prefix = take 12 raw, ak_hash = key_hash H raw salt, ak_salt = salt,
               ak_owner = owner,
               ak_scopes = (case scopes of None \<Rightarrow> [''*''] | Some l \<Rightarrow> if l = [] then [''*''] else l),
               ak_name = name, ak_created = now,
               ak_expires = (case days of None \<Rightarrow> None
                             | Some d \<Rightarrow> if d = 0 then None else Some (now + of_int d * 86400)),
               ak_active = True\<rparr>
      in ((r, raw), dset kid r ks))"

datatype key_error = BadFormat | KeyExpired string | MissingScope string | InvalidKey | KeyNotFound string

fun check_keys ::
  "(string \<Rightarrow> string) \<Rightarrow> timestamp \<Rightarrow> string \<Rightarrow> string option \<Rightarrow> api_key list \<Rightarrow> key_error + api_key" where
  "check_keys H now raw scope [] = Inl InvalidKey"
| "check_keys H now raw scope (r # rs) =
     (if key_hash H raw (ak_salt r) \<noteq> ak_hash r then check_keys H now raw scope rs
      else if (case ak_expires r of None \<Rightarrow> False | Some e \<Rightarrow> now > e) then Inl (KeyExpired (ak_id r))
      else case scope of
          None \<Rightarrow> Inr r
        | Some sc \<Rightarrow>
            if sc \<noteq> [] \<and> ''*'' \<notin> set (ak_scopes r) \<and> sc \<notin> set (ak_scopes r) then Inl (MissingScope sc)
            else Inr r)"

definition verify_api_key ::
  "(string \<Rightarrow> string) \<Rightarrow> timestamp \<Rightarrow> string \<Rightarrow> string option \<Rightarrow> key_ring \<Rightarrow> key_error + api_key" where
  "verify_api_key H now raw scope ks =
     (if \<not> startswith raw ''ak_live_'' then Inl BadFormat
      else check_keys H now raw scope
             (filter (\<lambda>k. ak_prefix k = take 12 raw \<and> ak_active k) (dvals ks)))"

definition rotate_api_key ::
  "(string \<Rightarrow> string) \<Rightarrow> string \<Rightarrow> string \<Rightarrow> string \<Rightarrow> timestamp \<Rightarrow> string \<Rightarrow> int option \<Rightarrow> key_ring
     \<Rightarrow> key_error + (api_key \<times> string) \<times> key_ring" where
  "rotate_api_key H kid entropy salt now old days ks =
     (case dget ks old of
        None \<Rightarrow> Inl (KeyNotFound old)
      | Some r \<Rightarrow>
          if \<not> ak_active r then Inl (KeyNotFound old)
          else Inr (create_api_key H kid entropy salt now (ak_owner r) (Some (ak_scopes r))
                      (ak_name r @ '' (Rotated)'') days (dset old (r\<lparr>ak_active := False\<rparr>) ks)))"

definition revoke_api_key :: "string \<Rightarrow> key_ring \<Rightarrow> bool \<times> key_ring" where
  "revoke_api_key kid ks =
     (case dget ks kid of
        None \<Rightarrow> (False, ks) | Some r \<Rightarrow> (True, dset kid (r\<lparr>ak_active := False\<rparr>) ks))"

lemma check_keys_Inr:
  "check_keys H now raw scope rs = Inr r \<Longrightarrow>
     r \<in> set rs \<and> key_hash H raw (ak_salt r) = ak_hash r \<and> \<not> (\<exists>e. ak_expires r = Some e \<and> now > e)
     \<and> (\<forall>sc. scope = Some sc \<longrightarrow> sc = [] \<or> ''*'' \<in> set (ak_scopes r) \<or> sc \<in> set (ak_scopes r))"
  by (induction rs) (auto split: if_splits option.splits)

lemma check_keys_first:
  "list_all (\<lambda>r. key_hash H raw (ak_salt r) \<noteq> ak_hash r) xs \<Longrightarrow>
     check_keys H now raw scope (xs @ ys) = check_keys H now raw scope ys"
  by (induction xs) simp_all

text \<open>Every key is kept under its own identifier.\<close>

definition ring_ok :: "key_ring \<Rightarrow> bool" where
  "ring_ok ks \<longleftrightarrow> dict_ok ks \<and> (\<forall>kid r. dget ks kid = Some r \<longrightarrow> ak_id r = kid)"

lemma create_api_key_ring: "ring_ok ks \<Longrightarrow> ring_ok (snd (create_api_key H kid en salt now o' sc n d ks))"
  by (auto simp: ring_ok_def create_api_key_def Let_def)

lemma revoke_api_key_ring: "ring_ok ks \<Longrightarrow> ring_ok (snd (revoke_api_key kid ks))"
  by (auto simp: ring_ok_def revoke_api_key_def split: option.splits)

lemma rotate_api_key_ring:
  assumes "ring_ok ks" and "rotate_api_key H kid en salt now old d ks = Inr (r, ks')"
  shows "ring_ok ks'"
proof (cases "dget ks old")
  case (Some r0)
  with assms(1) have "ring_ok (dset old (r0\<lparr>ak_active := False\<rparr>) ks)" by (auto simp: ring_ok_def)
  from create_api_key_ring [OF this, of H kid en salt now "ak_owner r0" "Some (ak_scopes r0)"
      "ak_name r0 @ '' (Rotated)''" d] assms(2) Some show ?thesis
    by (simp add: rotate_api_key_def split: if_splits)
qed (use assms(2) in \<open>simp add: rotate_api_key_def\<close>)

text \<open>
  A key is accepted only if a stored record vouches for it: the record is in the ring under its
  identifier, is active, its salted hash is that of the presented key, it has not expired and its
  scopes cover the required one. A key that was revoked or rotated away is never the accepted record.
\<close>

theorem api_key_accepted_sound:
  assumes "ring_ok ks" and "verify_api_key H now raw scope ks = Inr r"
  shows "dget ks (ak_id r) = Some r \<and> ak_active r \<and> ak_hash r = key_hash H raw (ak_salt r)
    \<and> \<not> (\<exists>e. ak_expires r = Some e \<and> now > e)
    \<and> (\<forall>sc. scope = Some sc \<longrightarrow> sc = [] \<or> ''*'' \<in> set (ak_scopes r) \<or> sc \<in> set (ak_scopes r))
    \<and> (\<forall>r'. verify_api_key H now' raw scope (snd (revoke_api_key (ak_id r) ks)) = Inr r' \<longrightarrow> ak_id r' \<noteq> ak_id r)
    \<and> (\<forall>kid en salt d x ks' r'. kid \<noteq> ak_id r \<longrightarrow> rotate_api_key H kid en salt now (ak_id r) d ks = Inr (x, ks')
          \<longrightarrow> verify_api_key H now' raw scope ks' = Inr r' \<longrightarrow> ak_id r' \<noteq> ak_id r)"
proof -
  have acc: "dget ks (ak_id r) = Some r \<and> ak_active r \<and> ak_hash r = key_hash H raw (ak_salt r)
    \<and> \<not> (\<exists>e. ak_expires r = Some e \<and> now > e)
    \<and> (\<forall>sc. scope = Some sc \<longrightarrow> sc = [] \<or> ''*'' \<in> set (ak_scopes r) \<or> sc \<in> set (ak_scopes r))"
    if "ring_ok ks" "verify_api_key H now raw scope ks = Inr r" for ks now r
  proof -
    have c: "check_keys H now raw scope (filter (\<lambda>k. ak_prefix k = take 12 raw \<and> ak_active k) (dvals ks)) = Inr r"
      using that(2) by (simp add: verify_api_key_def split: if_splits)
    from check_keys_Inr [OF c] obtain kid where "(kid, r) \<in> set ks" and a: "ak_active r" by auto
    with that(1) have "dget ks kid = Some r" by (simp add: ring_ok_def dict_ok_dget_iff)
    moreover from this that(1) have "ak_id r = kid" by (simp add: ring_ok_def)
    ultimately show ?thesis using check_keys_Inr [OF c] a by simp
  qed
  have gone: "ak_id r' \<noteq> ak_id r"
    if "ring_ok ks'" "\<And>x. dget ks' (ak_id r) = Some x \<Longrightarrow> \<not> ak_active x"
      "verify_api_key H now' raw scope ks' = Inr r'" for ks' r'
    using acc [OF that(1,3)] that(2) by auto
  have rv: "\<not> ak_active x" if "dget (snd (revoke_api_key (ak_id r) ks)) (ak_id r) = Some x" for x
    using that by (auto simp: revoke_api_key_def split: option.splits)
  have ro: "\<not> ak_active y" if "kid \<noteq> ak_id r" "rotate_api_key H kid en salt now (ak_id r) d ks = Inr (x, ks')"
    "dget ks' (ak_id r) = Some y" for kid en salt d x ks' y
    using that by (auto simp: rotate_api_key_def create_api_key_def Let_def split: option.splits if_splits)
  have a6: "\<forall>r'. verify_api_key H now' raw scope (snd (revoke_api_key (ak_id r) ks)) = Inr r' \<longrightarrow> ak_id r' \<noteq> ak_id r"
    by (intro allI impI) (rule gone [OF revoke_api_key_ring [OF assms(1)] rv])
  have a7: "\<forall>kid en salt d x ks' r'. kid \<noteq> ak_id r \<longrightarrow> rotate_api_key H kid en salt now (ak_id r) d ks = Inr (x, ks')
          \<longrightarrow> verify_api_key H now' raw scope ks' = Inr r' \<longrightarrow> ak_id r' \<noteq> ak_id r"
    by (intro allI impI) (rule gone [OF rotate_api_key_ring [OF assms(1)] ro])
  from acc [OF assms] a6 a7 show ?thesis by (elim conjE) (intro conjI; assumption)
qed

definition sample_ring :: key_ring where
  "sample_ring = snd (create_api_key rev ''k1'' ''0123'' ''s'' 0 ''me'' None ''n'' (Some 30) [])"

theorem api_key_accepted_sound_witness:
  "\<exists>r. verify_api_key rev 5 ''ak_live_0123'' (Some ''read'') sample_ring = Inr r \<and> ak_id r = ''k1''
     \<and> verify_api_key rev 5 ''ak_live_0123'' (Some ''read'') (snd (revoke_api_key ''k1'' sample_ring)) = Inl InvalidKey"
proof -
  have ring: "ring_ok sample_ring" unfolding sample_ring_def
    by (rule create_api_key_ring) (simp add: ring_ok_def)
  obtain r where r: "verify_api_key rev 5 ''ak_live_0123'' (Some ''read'') sample_ring = Inr r"
    "ak_id r = ''k1''"
    by (simp add: sample_ring_def create_api_key_def verify_api_key_def startswith_def key_hash_def Let_def)
  have "dget sample_ring ''k1'' = Some r" using api_key_accepted_sound [OF ring r(1)] r(2) by simp
  moreover have "verify_api_key rev 5 ''ak_live_0123'' (Some ''read'') (snd (revoke_api_key ''k1'' sample_ring))
      = Inl InvalidKey" by code_simp
  ultimately show ?thesis using r by blast
qed

text \<open>
  The key handed out by \<open>create_api_key\<close> is accepted until it expires, for every scope it was
  created with, as the record just created, unless another active key of the ring with the same
  prefix hashes to the same digest under its own salt; asking for no scopes at all gives a key for
  every scope, and a lifetime of zero days one that never expires.
\<close>

theorem api_key_roundtrip:
  fixes ks :: key_ring and H :: "string \<Rightarrow> string" and kid en salt owner name :: string and now :: timestamp
    and scopes :: "string list option" and days :: "int option"
  assumes "\<not> dhas ks kid"
    and "list_all (\<lambda>k. ak_active k \<and> ak_prefix k = take 12 (''ak_live_'' @ en) \<longrightarrow>
           key_hash H (''ak_live_'' @ en) (ak_salt k) \<noteq> ak_hash k) (dvals ks)"
  defines "c \<equiv> create_api_key H kid en salt now owner scopes name days ks"
  shows "(days = None \<or> (\<exists>d. days = Some d \<and> (d = 0 \<or> t \<le> now + of_int d * 86400)) \<longrightarrow>
           (scopes = None \<or> scopes = Some [] \<or> (\<exists>l. scopes = Some l \<and> sc \<in> set l) \<longrightarrow>
             verify_api_key H t (snd (fst c)) (Some sc) (snd c) = Inr (fst (fst c))))"
proof -
  let ?raw = "''ak_live_'' @ en"
  let ?r = "fst (fst c)"
  have fl: "list_all (\<lambda>r. key_hash H ?raw (ak_salt r) \<noteq> ak_hash r)
      (filter (\<lambda>k. ak_prefix k = take 12 ?raw \<and> ak_active k) (dvals ks))"
    using assms(2) by (auto simp: list_all_iff)
  have ring: "snd c = ks @ [(kid, ?r)]" using assms(1) by (simp add: c_def create_api_key_def Let_def dset_fresh)
  have raw: "snd (fst c) = ?raw" "ak_prefix ?r = take 12 ?raw" "ak_active ?r"
    "key_hash H ?raw (ak_salt ?r) = ak_hash ?r"
    by (simp_all add: c_def create_api_key_def Let_def)
  have st: "startswith ?raw ''ak_live_''" by (simp add: startswith_def)
  have "verify_api_key H t ?raw (Some sc) (ks @ [(kid, ?r)]) = check_keys H t ?raw (Some sc) [?r]"
    using st raw(2,3) check_keys_first [OF fl, of t "Some sc" "[?r]"] by (simp add: verify_api_key_def)
  moreover have "check_keys H t ?raw (Some sc) [?r] = Inr ?r"
    if "days = None \<or> (\<exists>d. days = Some d \<and> (d = 0 \<or> t \<le> now + of_int d * 86400))"
      "scopes = None \<or> scopes = Some [] \<or> (\<exists>l. scopes = Some l \<and> sc \<in> set l)"
    using that raw(4) by (auto simp: c_def create_api_key_def Let_def split: if_splits)
  ultimately show ?thesis using raw(1) ring by simp
qed

theorem api_key_roundtrip_witness:
  "verify_api_key rev 99999999 ''ak_live_77'' (Some ''admin'')
     (snd (create_api_key rev ''k2'' ''77'' ''s'' 0 ''me'' (Some []) ''n'' (Some 0) sample_ring))
   = Inr (fst (fst (create_api_key rev ''k2'' ''77'' ''s'' 0 ''me'' (Some []) ''n'' (Some 0) sample_ring)))"
proof -
  have "\<not> dhas sample_ring ''k2''" by code_simp
  moreover have "list_all (\<lambda>k. ak_active k \<and> ak_prefix k = take 12 (''ak_live_'' @ ''77'') \<longrightarrow>
      key_hash rev (''ak_live_'' @ ''77'') (ak_salt k) \<noteq> ak_hash k) (dvals sample_ring)" by code_simp
  moreover have "snd (fst (create_api_key rev ''k2'' ''77'' ''s'' 0 ''me'' (Some []) ''n'' (Some 0) sample_ring))
      = ''ak_live_77''" by code_simp
  ultimately show ?thesis
    using api_key_roundtrip [of sample_ring "''k2''" "''77''" rev "Some 0" 99999999 0 "Some []" "''admin''" "''s''"
      "''me''" "''n''"] by simp
qed

section \<open>Break-glass elevation\<close>

record elevation =
  el_id :: string
  el_user :: string
  el_reason :: string
  el_approved_by :: string
  el_granted_at :: timestamp
  el_expires_at :: timestamp
  el_active :: bool

record break_glass =
  bg_elevations :: "(string, elevation) pydict"
  bg_log :: "emitted list"

definition new_break_glass :: break_glass where
  "new_break_glass = \<lparr>bg_elevations = [], bg_log = []\<rparr>"

datatype break_glass_error = ReasonTooShort

definition request_break_glass ::
  "(timestamp \<Rightarrow> string) \<Rightarrow> string \<Rightarrow> timestamp \<Rightarrow> string \<Rightarrow> string \<Rightarrow> int \<Rightarrow> string \<Rightarrow> break_glass
     \<Rightarrow> break_glass_error + elevation \<times> break_glass" where
  "request_break_glass isofmt eid now user reason minutes approved_by b =
     (if length (strip reason) < 10 then Inl ReasonTooShort
      else let m = min (max minutes 5) 120;
               e = \<lparr>el_id = eid, el_user = user, el_reason = reason, el_approved_by = approved_by,
                    el_granted_at = now, el_expires_at = now + of_int m * 60, el_active = True\<rparr>;
               ev = \<lparr>em_actor = user, em_tenant = ''default'', em_action = ''auth.break_glass_granted'',
                     em_resource_type = ''administrative_privilege'', em_resource_id = eid,
                     em_outcome = ''success'',
                     em_metadata = [(''reason'', JStr reason), (''duration_minutes'', JInt m),
                       (''approved_by'', JStr approved_by),
                       (''expires_at'', JStr (isofmt (el_expires_at e)))]\<rparr>
           in Inr (e, \<lparr>bg_elevations = dset eid e (bg_elevations b), bg_log = bg_log b @ [ev]\<rparr>))"

definition verify_elevation :: "timestamp \<Rightarrow> string \<Rightarrow> break_glass \<Rightarrow> bool \<times> break_glass" where
  "verify_elevation now eid b =
     (case dget (bg_elevations b) eid of
        None \<Rightarrow> (False, b)
      | Some e \<Rightarrow>
          if \<not> el_active e then (False, b)
          else if now > el_expires_at e
          then (False, b\<lparr>bg_elevations := dset eid (e\<lparr>el_active := False\<rparr>) (bg_elevations b)\<rparr>)
          else (True, b))"

definition revoke_break_glass :: "string \<Rightarrow> string \<Rightarrow> break_glass \<Rightarrow> bool \<times> break_glass" where
  "revoke_break_glass eid revoked_by b =
     (case dget (bg_elevations b) eid of
        None \<Rightarrow> (False, b)
      | Some e \<Rightarrow>
          if el_active e then
            (True, \<lparr>bg_elevations = dset eid (e\<lparr>el_active := False\<rparr>) (bg_elevations b),
                    bg_log = bg_log b @ [\<lparr>em_actor = revoked_by, em_tenant = ''default'',
                      em_action = ''auth.break_glass_revoked'',
                      em_resource_type = ''administrative_privilege'', em_resource_id = eid,
                      em_outcome = ''success'', em_metadata = [(''user_id'', JStr (el_user e))]\<rparr>]\<rparr>)
          else (False, b))"

datatype glass_call =
    Request string timestamp string string int string
  | Verify timestamp string
  | RevokeGlass string string

fun glass_step :: "(timestamp \<Rightarrow> string) \<Rightarrow> glass_call \<Rightarrow> break_glass \<Rightarrow> break_glass" where
  "glass_step isofmt (Request eid now user reason m ap) b =
     (case request_break_glass isofmt eid now user reason m ap b of Inl _ \<Rightarrow> b | Inr (_, b') \<Rightarrow> b')"
| "glass_step isofmt (Verify now eid) b = snd (verify_elevation now eid b)"
| "glass_step isofmt (RevokeGlass eid who) b = snd (revoke_break_glass eid who b)"

definition elevation_ok :: "emitted list \<Rightarrow> string \<Rightarrow> elevation \<Rightarrow> bool" where
  "elevation_ok lg eid e \<longleftrightarrow> 10 \<le> length (strip (el_reason e))
     \<and> el_granted_at e + 300 \<le> el_expires_at e \<and> el_expires_at e \<le> el_granted_at e + 7200
     \<and> (\<exists>ev \<in> set lg. em_action ev = ''auth.break_glass_granted'' \<and> em_resource_id ev = eid
          \<and> em_actor ev = el_user e \<and> dget (em_metadata ev) ''reason'' = Some (JStr (el_reason e)))"

definition glass_inv :: "break_glass \<Rightarrow> bool" where
  "glass_inv b \<longleftrightarrow> (\<forall>eid e. dget (bg_elevations b) eid = Some e \<longrightarrow> elevation_ok (bg_log b) eid e)"

lemma glass_minutes:
  "(300::rat) \<le> of_int (min (max m 5) 120) * 60" "of_int (min (max m 5) 120) * 60 \<le> (7200::rat)"
proof -
  define k where "k = min (max m 5) 120"
  have "5 \<le> k" "k \<le> 120" by (simp_all add: k_def)
  then have "(of_int 5 :: rat) \<le> of_int k" "(of_int k :: rat) \<le> of_int 120" by (simp_all only: of_int_le_iff)
  then show "(300::rat) \<le> of_int (min (max m 5) 120) * 60" "of_int (min (max m 5) 120) * 60 \<le> (7200::rat)"
    unfolding k_def [symmetric] by simp_all
qed

lemma elevation_ok_mono: "elevation_ok lg eid e \<Longrightarrow> elevation_ok (lg @ lg2) eid e"
  by (auto simp: elevation_ok_def)

lemma elevation_ok_active [simp]: "elevation_ok lg eid (e\<lparr>el_active := a\<rparr>) = elevation_ok lg eid e"
  by (simp add: elevation_ok_def)

lemma glass_step_inv:
  assumes "glass_inv b"
  shows "glass_inv (glass_step isofmt c b)"
proof (cases c)
  case (Request eid now user reason m ap)
  show ?thesis
  proof (cases "length (strip reason) < 10")
    case True
    with assms show ?thesis by (simp add: Request request_break_glass_def)
  next
    case False
    let ?e = "\<lparr>el_id = eid, el_user = user, el_reason = reason, el_approved_by = ap,
        el_granted_at = now, el_expires_at = now + of_int (min (max m 5) 120) * 60, el_active = True\<rparr>"
    obtain ev where st: "glass_step isofmt c b =
        \<lparr>bg_elevations = dset eid ?e (bg_elevations b), bg_log = bg_log b @ [ev]\<rparr>"
      and ev: "em_action ev = ''auth.break_glass_granted''" "em_resource_id ev = eid" "em_actor ev = user"
        "dget (em_metadata ev) ''reason'' = Some (JStr reason)"
      using False by (simp add: Request request_break_glass_def Let_def)
    have "elevation_ok (bg_log b @ [ev]) eid ?e"
      using False ev glass_minutes [of m] by (auto simp: elevation_ok_def simp del: of_int_min of_int_max)
    then show ?thesis using assms unfolding st by (auto simp: glass_inv_def elevation_ok_mono)
  qed
next
  case (Verify now eid)
  with assms show ?thesis by (auto simp: glass_inv_def verify_elevation_def split: option.splits)
next
  case (RevokeGlass eid who)
  with assms show ?thesis
    by (auto simp: glass_inv_def revoke_break_glass_def elevation_ok_mono split: option.splits)
qed

interpretation glass: machine "glass_step isofmt" glass_inv for isofmt
  by unfold_locales (rule glass_step_inv)

text \<open>
  Emergency privilege is never unbounded or unrecorded: whatever the calls, an elevation that
  verifies at some time was granted at most two hours before, for a justification of at least ten
  characters after stripping, and its grant stands in the audit log with user and justification; once
  revoked it never verifies again.
\<close>

theorem break_glass_bounded:
  fixes isofmt :: "timestamp \<Rightarrow> string" and calls :: "glass_call list"
  defines "b \<equiv> fold (glass_step isofmt) calls new_break_glass"
  assumes "fst (verify_elevation t eid b)"
  shows "(\<exists>e. dget (bg_elevations b) eid = Some e \<and> t \<le> el_granted_at e + 7200
           \<and> 10 \<le> length (strip (el_reason e))
           \<and> (\<exists>ev \<in> set (bg_log b). em_action ev = ''auth.break_glass_granted'' \<and> em_resource_id ev = eid
                \<and> em_actor ev = el_user e \<and> dget (em_metadata ev) ''reason'' = Some (JStr (el_reason e))))
       \<and> fst (revoke_break_glass eid who b)
       \<and> \<not> fst (verify_elevation t' eid (snd (revoke_break_glass eid who b)))"
proof -
  have "glass_inv new_break_glass" by (simp add: glass_inv_def new_break_glass_def)
  then have inv: "glass_inv b" unfolding b_def by (rule glass.run_inv)
  from assms(2) obtain e where e: "dget (bg_elevations b) eid = Some e" "el_active e" "t \<le> el_expires_at e"
    by (auto simp: verify_elevation_def split: option.splits if_splits)
  with inv have "elevation_ok (bg_log b) eid e" by (simp add: glass_inv_def)
  with e have "t \<le> el_granted_at e + 7200" "elevation_ok (bg_log b) eid e" by (auto simp: elevation_ok_def)
  moreover have "fst (revoke_break_glass eid who b)"
    "\<not> fst (verify_elevation t' eid (snd (revoke_break_glass eid who b)))"
    using e by (simp_all add: revoke_break_glass_def verify_elevation_def)
  ultimately show ?thesis using e(1) by (auto simp: elevation_ok_def)
qed

theorem break_glass_bounded_witness:
  "\<not> fst (verify_elevation 8 ''e'' (snd (revoke_break_glass ''e'' ''admin''
      (fold (glass_step (\<lambda>_. [])) [Request ''e'' 0 ''u'' ''database is down'' 999 ''boss''] new_break_glass))))"
proof -
  have "fst (verify_elevation 7200 ''e''
      (fold (glass_step (\<lambda>_. [])) [Request ''e'' 0 ''u'' ''database is down'' 999 ''boss''] new_break_glass))"
    by code_simp
  from break_glass_bounded [OF this] show ?thesis by blast
qed

end
