(* ===== verification/Ticket_Desk.thy ===== *)
theory Ticket_Desk
  imports Amber_Prelude "HOL-Library.Product_Lexorder"
begin

text \<open>
  The package \<open>tickets\<close>: issues and their life cycle (\<open>issue.py\<close>), exclusive leases (\<open>checkout.py\<close>), the
  triage inbox over both (\<open>inbox.py\<close>), comments (\<open>comments.py\<close>) and attachments (\<open>attachments.py\<close>). A
  call happens at one instant, its argument \<open>now\<close>; drawn identifiers are arguments.
\<close>

section \<open>Issues\<close>

datatype issue_status = ISSUE_OPEN | ISSUE_TRIAGED | ISSUE_IN_PROGRESS | ISSUE_BLOCKED | ISSUE_RESOLVED
  | ISSUE_CLOSED

datatype issue_severity = SEV_CRITICAL | SEV_MAJOR | SEV_MINOR | SEV_TRIVIAL

record issue =
  is_id :: string
  is_title :: string
  is_description :: string
  is_status :: issue_status
  is_severity :: issue_severity
  is_assignee :: "string option"
  is_reporter :: string
  is_tags :: "string list"
  is_metadata :: "(string, json) pydict"
  is_created :: timestamp
  is_updated :: timestamp
  is_resolved :: "timestamp option"

type_synonym issue_manager = "(string, issue) pydict"

datatype desk_error = IssueNotFound string | AlreadyClaimed string | NoActiveClaim string
  | NotTheHolder string | AttachmentNotFound string | FileMissing string | ChecksumMismatch

definition create_issue ::
  "string \<Rightarrow> timestamp \<Rightarrow> string \<Rightarrow> string \<Rightarrow> issue_severity \<Rightarrow> string \<Rightarrow> string option \<Rightarrow> string list option
     \<Rightarrow> (string, json) pydict option \<Rightarrow> issue_manager \<Rightarrow> issue \<times> issue_manager" where
  "create_issue iid now title description severity reporter assignee tags metadata m =
     (let i = \<lparr>is_id = iid, is_title = title, is_description = description, is_status = ISSUE_OPEN,
               is_severity = severity, is_assignee = assignee, is_reporter = reporter,
               is_tags = (case tags of None \<Rightarrow> [] | Some t \<Rightarrow> t),
               is_metadata = (case metadata of None \<Rightarrow> [] | Some d \<Rightarrow> d),
               is_created = now, is_updated = now, is_resolved = None\<rparr>
      in (i, dset iid i m))"

definition get_issue :: "issue_manager \<Rightarrow> string \<Rightarrow> issue option" where
  "get_issue m iid = dget m iid"

definition is_final :: "issue_status \<Rightarrow> bool" where
  "is_final st = (st \<in> {ISSUE_RESOLVED, ISSUE_CLOSED})"

text \<open>\<open>not issue.resolved_at\<close> holds for \<open>None\<close> and for \<open>0.0\<close>.\<close>

definition set_status :: "timestamp \<Rightarrow> issue_status \<Rightarrow> issue \<Rightarrow> issue" where
  "set_status now st i =
     (let i = i\<lparr>is_status := st, is_updated := now\<rparr>
      in if is_final st \<and> (is_resolved i = None \<or> is_resolved i = Some 0) then i\<lparr>is_resolved := Some now\<rparr>
         else if \<not> is_final st then i\<lparr>is_resolved := None\<rparr> else i)"

definition update_status ::
  "timestamp \<Rightarrow> string \<Rightarrow> issue_status \<Rightarrow> issue_manager \<Rightarrow> desk_error + issue \<times> issue_manager" where
  "update_status now iid st m =
     (case get_issue m iid of
        None \<Rightarrow> Inl (IssueNotFound iid)
      | Some i \<Rightarrow> (let i' = set_status now st i in Inr (i', dset iid i' m)))"

definition set_assignee :: "timestamp \<Rightarrow> string option \<Rightarrow> issue \<Rightarrow> issue" where
  "set_assignee now who i =
     (let i = i\<lparr>is_assignee := who, is_updated := now\<rparr>
      in if who \<noteq> None \<and> who \<noteq> Some [] \<and> is_status i = ISSUE_OPEN
         then i\<lparr>is_status := ISSUE_IN_PROGRESS\<rparr> else i)"

definition assign ::
  "timestamp \<Rightarrow> string \<Rightarrow> string option \<Rightarrow> issue_manager \<Rightarrow> desk_error + issue \<times> issue_manager" where
  "assign now iid who m =
     (case get_issue m iid of
        None \<Rightarrow> Inl (IssueNotFound iid)
      | Some i \<Rightarrow> (let i' = set_assignee now who i in Inr (i', dset iid i' m)))"

definition filter_opt :: "'b option \<Rightarrow> ('b \<Rightarrow> 'a \<Rightarrow> bool) \<Rightarrow> 'a list \<Rightarrow> 'a list" where
  "filter_opt x P xs = (case x of None \<Rightarrow> xs | Some v \<Rightarrow> filter (P v) xs)"

definition list_issues ::
  "issue_status option \<Rightarrow> issue_severity option \<Rightarrow> string option \<Rightarrow> string option \<Rightarrow> issue_manager
     \<Rightarrow> issue list" where
  "list_issues status severity assignee tag m =
     (let r = dvals m;
          r = filter_opt status (\<lambda>s i. is_status i = s) r;
          r = filter_opt severity (\<lambda>s i. is_severity i = s) r;
          r = filter_opt assignee (\<lambda>a i. is_assignee i = Some a) r;
          r = filter_opt tag (\<lambda>t i. t \<in> set (is_tags i)) r
      in sorted_desc is_created r)"

datatype issue_call =
    CreateIssue string timestamp string string issue_severity string "string option" "string list option"
      "(string, json) pydict option"
  | UpdateStatus timestamp string issue_status
  | Assign timestamp string "string option"

fun issue_step :: "issue_call \<Rightarrow> issue_manager \<Rightarrow> issue_manager" where
  "issue_step (CreateIssue iid now t d sev rep ass tags md) m =
     snd (create_issue iid now t d sev rep ass tags md m)"
| "issue_step (UpdateStatus now iid st) m =
     (case update_status now iid st m of Inl _ \<Rightarrow> m | Inr (_, m') \<Rightarrow> m')"
| "issue_step (Assign now iid who) m = (case assign now iid who m of Inl _ \<Rightarrow> m | Inr (_, m') \<Rightarrow> m')"

definition issue_ok :: "string \<Rightarrow> issue \<Rightarrow> bool" where
  "issue_ok iid i \<longleftrightarrow> is_id i = iid \<and> (is_resolved i \<noteq> None \<longleftrightarrow> is_final (is_status i))"

definition issues_inv :: "issue_manager \<Rightarrow> bool" where
  "issues_inv m \<longleftrightarrow> dict_ok m \<and> (\<forall>iid i. dget m iid = Some i \<longrightarrow> issue_ok iid i)"

lemma set_status_ok: "issue_ok iid i \<Longrightarrow> issue_ok iid (set_status now st i)"
  by (auto simp: issue_ok_def set_status_def Let_def)

lemma set_assignee_ok: "issue_ok iid i \<Longrightarrow> issue_ok iid (set_assignee now who i)"
  by (auto simp: issue_ok_def set_assignee_def Let_def is_final_def)

lemma issue_step_inv: "issues_inv m \<Longrightarrow> issues_inv (issue_step c m)"
proof (cases c)
  case (CreateIssue iid now t d sev rep ass tags md)
  assume "issues_inv m"
  then show ?thesis
    by (auto simp: CreateIssue issues_inv_def create_issue_def Let_def issue_ok_def is_final_def)
next
  case (UpdateStatus now iid st)
  assume "issues_inv m"
  then show ?thesis
    by (auto simp: UpdateStatus issues_inv_def update_status_def get_issue_def Let_def
        intro: set_status_ok split: option.splits)
next
  case (Assign now iid who)
  assume "issues_inv m"
  then show ?thesis
    by (auto simp: Assign issues_inv_def assign_def get_issue_def Let_def
        intro: set_assignee_ok split: option.splits)
qed

interpretation issues: machine issue_step issues_inv
  by unfold_locales (rule issue_step_inv)

section \<open>Leases\<close>

record checkout =
  ck_id :: string
  ck_ticket :: string
  ck_claimed_by :: string
  ck_claimed_at :: timestamp
  ck_expires_at :: timestamp
  ck_active :: bool

type_synonym checkouts = "(string, checkout) pydict"

definition is_claimed :: "timestamp \<Rightarrow> string \<Rightarrow> checkouts \<Rightarrow> bool \<times> checkouts" where
  "is_claimed now tid m =
     (case dget m tid of
        None \<Rightarrow> (False, m)
      | Some c \<Rightarrow>
          if \<not> ck_active c then (False, m)
          else if now \<ge> ck_expires_at c then (False, dset tid (c\<lparr>ck_active := False\<rparr>) m)
          else (True, m))"

definition get_active_checkout :: "timestamp \<Rightarrow> string \<Rightarrow> checkouts \<Rightarrow> checkout option \<times> checkouts" where
  "get_active_checkout now tid m =
     (let (b, m) = is_claimed now tid m in if b then (dget m tid, m) else (None, m))"

definition claim_ticket ::
  "string \<Rightarrow> timestamp \<Rightarrow> string \<Rightarrow> string \<Rightarrow> pyfloat \<Rightarrow> checkouts \<Rightarrow> (desk_error + checkout) \<times> checkouts" where
  "claim_ticket cid now tid who lease m =
     (let (b, m) = is_claimed now tid m;
          existing = (if b then dget m tid else None)
      in case existing of
           Some c \<Rightarrow>
             if ck_claimed_by c \<noteq> who then (Inl (AlreadyClaimed (ck_claimed_by c)), m)
             else (let c = \<lparr>ck_id = cid, ck_ticket = tid, ck_claimed_by = who, ck_claimed_at = now,
                            ck_expires_at = now + lease, ck_active = True\<rparr> in (Inr c, dset tid c m))
         | None \<Rightarrow>
             (let c = \<lparr>ck_id = cid, ck_ticket = tid, ck_claimed_by = who, ck_claimed_at = now,
                       ck_expires_at = now + lease, ck_active = True\<rparr> in (Inr c, dset tid c m)))"

definition renew_lease ::
  "timestamp \<Rightarrow> string \<Rightarrow> string \<Rightarrow> pyfloat \<Rightarrow> checkouts \<Rightarrow> (desk_error + checkout) \<times> checkouts" where
  "renew_lease now tid who secs m =
     (let (b, m) = is_claimed now tid m
      in case (if b then dget m tid else None) of
           None \<Rightarrow> (Inl (NoActiveClaim tid), m)
         | Some c \<Rightarrow>
             if ck_claimed_by c \<noteq> who then (Inl (NotTheHolder (ck_claimed_by c)), m)
             else (let c = c\<lparr>ck_expires_at := now + secs\<rparr> in (Inr c, dset tid c m)))"

definition release_ticket :: "string \<Rightarrow> string \<Rightarrow> checkouts \<Rightarrow> (desk_error + bool) \<times> checkouts" where
  "release_ticket tid who m =
     (case dget m tid of
        None \<Rightarrow> (Inr False, m)
      | Some c \<Rightarrow>
          if \<not> ck_active c then (Inr False, m)
          else if ck_claimed_by c \<noteq> who then (Inl (NotTheHolder (ck_claimed_by c)), m)
          else (Inr True, dset tid (c\<lparr>ck_active := False\<rparr>) m))"

text \<open>The abstract lease: who may work on a ticket at a time, and until when.\<close>

definition holder :: "timestamp \<Rightarrow> string \<Rightarrow> checkouts \<Rightarrow> (string \<times> timestamp) option" where
  "holder now tid m =
     (case dget m tid of
        None \<Rightarrow> None
      | Some c \<Rightarrow> if ck_active c \<and> now < ck_expires_at c then Some (ck_claimed_by c, ck_expires_at c) else None)"

lemma is_claimed_holder:
  "fst (is_claimed now tid m) \<longleftrightarrow> holder now tid m \<noteq> None"
  "now \<le> t \<Longrightarrow> holder t tid' (snd (is_claimed now tid m)) = holder t tid' m"
  by (auto simp: is_claimed_def holder_def split: option.splits)

datatype lease_call =
    Claim string timestamp string string pyfloat
  | Renew timestamp string string pyfloat
  | Release timestamp string string
  | Query timestamp string

fun lease_time :: "lease_call \<Rightarrow> timestamp" where
  "lease_time (Claim cid now tid who lease) = now"
| "lease_time (Renew now tid who ext) = now"
| "lease_time (Release now tid who) = now"
| "lease_time (Query now tid) = now"

fun lease_actor :: "lease_call \<Rightarrow> string option" where
  "lease_actor (Claim cid now tid who lease) = Some who"
| "lease_actor (Renew now tid who ext) = Some who"
| "lease_actor (Release now tid who) = Some who"
| "lease_actor (Query now tid) = None"

fun lease_step :: "lease_call \<Rightarrow> checkouts \<Rightarrow> checkouts" where
  "lease_step (Claim cid now tid who lease) m = snd (claim_ticket cid now tid who lease m)"
| "lease_step (Renew now tid who ext) m = snd (renew_lease now tid who ext m)"
| "lease_step (Release now tid who) m = snd (release_ticket tid who m)"
| "lease_step (Query now tid) m = snd (is_claimed now tid m)"

lemma holderD:
  assumes "holder t tid m = Some (who, e)"
  shows "\<exists>c. dget m tid = Some c \<and> ck_active c \<and> ck_claimed_by c = who \<and> ck_expires_at c = e \<and> t < e"
  using assms by (auto simp: holder_def split: option.splits if_splits)

lemma lease_step_keeps:
  assumes "dget m tid = Some c" and "ck_active c" and "lease_time call < ck_expires_at c"
    and "lease_actor call \<noteq> Some (ck_claimed_by c)"
  shows "dget (lease_step call m) tid = Some c"
  using assms
  by (cases call)
     (auto simp: claim_ticket_def renew_lease_def release_ticket_def is_claimed_def Let_def
        split: option.splits if_splits)

lemma lease_run_keeps:
  assumes "dget m tid = Some c" and "ck_active c"
    and "list_all (\<lambda>call. lease_time call < ck_expires_at c \<and> lease_actor call \<noteq> Some (ck_claimed_by c)) calls"
  shows "dget (fold lease_step calls m) tid = Some c"
  using assms
proof (induction calls arbitrary: m)
  case Nil
  then show ?case by simp
next
  case (Cons call calls)
  have "dget (lease_step call m) tid = Some c"
    using Cons.prems by (intro lease_step_keeps) simp_all
  from Cons.IH [OF this Cons.prems(2)] Cons.prems(3) show ?case by simp
qed

text \<open>
  C20. Mutual exclusion of leases: once a worker has claimed a ticket, no calls of other workers made
  before the lease ends can take it away, shorten it or release it; up to that time the ticket reads as
  claimed by the first worker, and every claim, renewal or release by anyone else raises.
\<close>

theorem lease_mutual_exclusion:
  assumes "claim_ticket cid now tid who lease m = (Inr c, m1)"
    and "list_all (\<lambda>call. lease_time call < now + lease \<and> lease_actor call \<noteq> Some who) calls"
    and "t < now + lease" and "other \<noteq> who"
  shows "holder t tid (fold lease_step calls m1) = Some (who, now + lease)
    \<and> fst (claim_ticket cid' t tid other lease' (fold lease_step calls m1)) = Inl (AlreadyClaimed who)
    \<and> fst (renew_lease t tid other lease' (fold lease_step calls m1)) = Inl (NotTheHolder who)
    \<and> fst (release_ticket tid other (fold lease_step calls m1)) = Inl (NotTheHolder who)
    \<and> fst (get_active_checkout t tid (fold lease_step calls m1)) = Some c"
proof -
  have c: "dget m1 tid = Some c" "ck_active c" "ck_claimed_by c = who" "ck_expires_at c = now + lease"
    using assms(1) by (auto simp: claim_ticket_def Let_def split: prod.splits option.splits if_splits)
  have "dget (fold lease_step calls m1) tid = Some c"
    using c assms(2) by (intro lease_run_keeps) simp_all
  with c assms(3,4) show ?thesis
    by (simp add: holder_def claim_ticket_def renew_lease_def release_ticket_def is_claimed_def
        get_active_checkout_def Let_def)
qed

theorem lease_mutual_exclusion_witness:
  "\<exists>c m1. claim_ticket ''c1'' 0 ''T'' ''ann'' 300 [] = (Inr c, m1)
     \<and> fst (claim_ticket ''c2'' 299 ''T'' ''bob'' 300
          (fold lease_step [Claim ''c9'' 5 ''T'' ''eve'' 10, Query 6 ''T''] m1)) = Inl (AlreadyClaimed ''ann'')"
proof -
  obtain c m1 where c: "claim_ticket ''c1'' 0 ''T'' ''ann'' 300 [] = (Inr c, m1)"
    by (simp add: claim_ticket_def is_claimed_def Let_def)
  from lease_mutual_exclusion [OF c, of "[Claim ''c9'' 5 ''T'' ''eve'' 10, Query 6 ''T'']" 299 "''bob''"] c
  show ?thesis by auto
qed

section \<open>The triage inbox\<close>

record inbox_filter =
  if_assignee :: "string option"
  if_severity :: "issue_severity option"
  if_status :: "issue_status option"
  if_tag :: "string option"
  if_unassigned_only :: bool
  if_include_claimed :: bool

definition default_filter :: inbox_filter where
  "default_filter = \<lparr>if_assignee = None, if_severity = None, if_status = None, if_tag = None,
     if_unassigned_only = False, if_include_claimed = True\<rparr>"

fun severity_rank :: "issue_severity \<Rightarrow> nat" where
  "severity_rank SEV_CRITICAL = 0"
| "severity_rank SEV_MAJOR = 1"
| "severity_rank SEV_MINOR = 2"
| "severity_rank SEV_TRIVIAL = 3"

definition has_assignee :: "issue \<Rightarrow> bool" where
  "has_assignee i = (is_assignee i \<noteq> None \<and> is_assignee i \<noteq> Some [])"

text \<open>The loop over the listed issues; asking whether a ticket is claimed may expire its lease.\<close>

fun triage_loop :: "timestamp \<Rightarrow> inbox_filter \<Rightarrow> issue list \<Rightarrow> checkouts \<Rightarrow> issue list \<times> checkouts" where
  "triage_loop now f [] cs = ([], cs)"
| "triage_loop now f (i # is) cs =
     (if if_unassigned_only f \<and> has_assignee i then triage_loop now f is cs
      else if if_include_claimed f then
        (let (r, cs) = triage_loop now f is cs in (i # r, cs))
      else (let (b, cs) = is_claimed now (is_id i) cs
            in if b then triage_loop now f is cs
               else (let (r, cs) = triage_loop now f is cs in (i # r, cs))))"

definition triage_key :: "issue \<Rightarrow> nat \<times> timestamp" where
  "triage_key i = (severity_rank (is_severity i), is_created i)"

definition get_triage_queue ::
  "timestamp \<Rightarrow> inbox_filter option \<Rightarrow> issue_manager \<Rightarrow> checkouts \<Rightarrow> issue list \<times> checkouts" where
  "get_triage_queue now fo m cs =
     (let f = (case fo of None \<Rightarrow> default_filter | Some f \<Rightarrow> f);
          all_issues = list_issues (if_status f) (if_severity f) (if_assignee f) (if_tag f) m;
          (results, cs) = triage_loop now f all_issues cs
      in (sort_key triage_key results, cs))"

definition get_unassigned_issues :: "timestamp \<Rightarrow> issue_manager \<Rightarrow> checkouts \<Rightarrow> issue list \<times> checkouts" where
  "get_unassigned_issues now m cs =
     get_triage_queue now (Some (default_filter\<lparr>if_unassigned_only := True\<rparr>)) m cs"

definition get_assigned_issues ::
  "timestamp \<Rightarrow> string \<Rightarrow> issue_manager \<Rightarrow> checkouts \<Rightarrow> issue list \<times> checkouts" where
  "get_assigned_issues now who m cs =
     get_triage_queue now (Some (default_filter\<lparr>if_assignee := Some who\<rparr>)) m cs"

definition detect_sla_breaches :: "timestamp \<Rightarrow> pyfloat \<Rightarrow> issue_manager \<Rightarrow> issue list" where
  "detect_sla_breaches now max_age m =
     filter (\<lambda>i. is_status i \<in> {ISSUE_OPEN, ISSUE_TRIAGED, ISSUE_IN_PROGRESS, ISSUE_BLOCKED}
                 \<and> now - is_created i > max_age) (list_issues None None None None m)"

text \<open>Which issues belong into the queue: the filter, and no valid lease when claimed ones are left out.\<close>

definition opt_holds :: "'b option \<Rightarrow> ('b \<Rightarrow> bool) \<Rightarrow> bool" where
  "opt_holds x P = (case x of None \<Rightarrow> True | Some v \<Rightarrow> P v)"

definition triage_wanted :: "timestamp \<Rightarrow> inbox_filter \<Rightarrow> checkouts \<Rightarrow> issue \<Rightarrow> bool" where
  "triage_wanted now f cs i \<longleftrightarrow> opt_holds (if_status f) (\<lambda>s. is_status i = s)
     \<and> opt_holds (if_severity f) (\<lambda>s. is_severity i = s)
     \<and> opt_holds (if_assignee f) (\<lambda>a. is_assignee i = Some a)
     \<and> opt_holds (if_tag f) (\<lambda>t. t \<in> set (is_tags i))
     \<and> \<not> (if_unassigned_only f \<and> has_assignee i)
     \<and> (if_include_claimed f \<or> holder now (is_id i) cs = None)"

lemma mset_filter_opt: "mset (filter_opt x P xs) = filter_mset (\<lambda>i. opt_holds x (\<lambda>v. P v i)) (mset xs)"
  by (cases x) (simp_all add: filter_opt_def opt_holds_def)

lemma mset_list_issues:
  "mset (list_issues st sev ass tag m) =
     filter_mset (\<lambda>i. opt_holds st (\<lambda>s. is_status i = s) \<and> opt_holds sev (\<lambda>s. is_severity i = s)
       \<and> opt_holds ass (\<lambda>a. is_assignee i = Some a) \<and> opt_holds tag (\<lambda>t. t \<in> set (is_tags i)))
     (mset (dvals m))"
  by (simp add: list_issues_def Let_def mset_filter_opt filter_filter_mset)

lemma triage_loop_eq:
  "fst (triage_loop now f is cs) =
     filter (\<lambda>i. \<not> (if_unassigned_only f \<and> has_assignee i)
                 \<and> (if_include_claimed f \<or> holder now (is_id i) cs = None)) is
   \<and> (\<forall>tid. holder now tid (snd (triage_loop now f is cs)) = holder now tid cs)"
proof (induction "is" arbitrary: cs)
  case Nil
  then show ?case by simp
next
  case (Cons i "is")
  obtain b cs1 where c: "is_claimed now (is_id i) cs = (b, cs1)" by fastforce
  have h: "holder now tid cs1 = holder now tid cs" for tid
    using is_claimed_holder(2) [of now now tid "is_id i" cs] c by simp
  have b: "b \<longleftrightarrow> holder now (is_id i) cs \<noteq> None" using is_claimed_holder(1) [of now "is_id i" cs] c by simp
  show ?case
    using Cons.IH [of cs] Cons.IH [of cs1] b by (auto simp: c h split: prod.splits)
qed

text \<open>
  The triage queue is exactly the issues that pass the filter, none lost and none twice, ordered by
  severity from critical to trivial and by age within a severity; reading it changes no valid lease.
\<close>

theorem triage_queue_correct:
  fixes now :: timestamp and fo :: "inbox_filter option" and m :: issue_manager and cs :: checkouts
  defines "q \<equiv> get_triage_queue now fo m cs" and "f \<equiv> (case fo of None \<Rightarrow> default_filter | Some f \<Rightarrow> f)"
  shows "mset (fst q) = filter_mset (triage_wanted now f cs) (mset (dvals m))
    \<and> sorted (map triage_key (fst q))
    \<and> (\<forall>tid. holder now tid (snd q) = holder now tid cs)"
proof -
  let ?all = "list_issues (if_status f) (if_severity f) (if_assignee f) (if_tag f) m"
  obtain r cs1 where l: "triage_loop now f ?all cs = (r, cs1)" by fastforce
  have q: "q = (sort_key triage_key r, cs1)"
    using l by (simp add: q_def get_triage_queue_def f_def [symmetric])
  note t = triage_loop_eq [of now f ?all cs, unfolded l fst_conv snd_conv]
  have "mset r = filter_mset (triage_wanted now f cs) (mset (dvals m))"
    unfolding conjunct1 [OF t] mset_filter mset_list_issues filter_filter_mset
    by (rule filter_mset_cong) (auto simp: triage_wanted_def)
  with t show ?thesis by (simp add: q)
qed

section \<open>Comments\<close>

record comment_entry =
  cm_id :: string
  cm_issue :: string
  cm_author :: string
  cm_content :: string
  cm_internal :: bool
  cm_created :: timestamp
  cm_edited :: "timestamp option"

type_synonym comments = "(string, comment_entry list) pydict"

definition add_comment ::
  "string \<Rightarrow> timestamp \<Rightarrow> string \<Rightarrow> string \<Rightarrow> string \<Rightarrow> bool \<Rightarrow> comments \<Rightarrow> comment_entry \<times> comments" where
  "add_comment cid now iid author content internal m =
     (let c = \<lparr>cm_id = cid, cm_issue = iid, cm_author = author, cm_content = content,
               cm_internal = internal, cm_created = now, cm_edited = None\<rparr>
      in (c, dset iid (dgetd m iid [] @ [c]) m))"

definition get_comments :: "string \<Rightarrow> bool \<Rightarrow> comments \<Rightarrow> comment_entry list" where
  "get_comments iid include_internal m =
     (let cs = dgetd m iid [] in if include_internal then cs else filter (\<lambda>c. \<not> cm_internal c) cs)"

definition delete_comment :: "string \<Rightarrow> string \<Rightarrow> comments \<Rightarrow> bool \<times> comments" where
  "delete_comment iid cid m =
     (case dget m iid of
        None \<Rightarrow> (False, m)
      | Some cs \<Rightarrow> (let cs' = filter (\<lambda>c. cm_id c \<noteq> cid) cs
                    in (length cs' < length cs, dset iid cs' m)))"

lemma get_comments_add:
  "get_comments iid b (snd (add_comment cid now iid author content internal m)) =
     get_comments iid b m @ (if internal \<and> \<not> b then [] else [fst (add_comment cid now iid author content internal m)])"
  by (simp add: get_comments_def add_comment_def Let_def)

lemma delete_comment_result:
  "fst (delete_comment iid cid m) \<longleftrightarrow> (\<exists>c \<in> set (dgetd m iid []). cm_id c = cid)"
  by (auto simp: delete_comment_def dgetd_def Let_def length_filter_less_iff split: option.splits)

section \<open>Attachments\<close>

text \<open>The content of a file is a string of bytes; \<open>H\<close> is SHA-256, \<open>files\<close> the file system by path.\<close>

record attachment =
  at_id :: string
  at_issue :: string
  at_filename :: string
  at_content_type :: string
  at_size :: nat
  at_sha256 :: string
  at_path :: string
  at_uploaded_by :: string
  at_uploaded_at :: timestamp

record attachment_store =
  as_dir :: string
  as_attachments :: "(string, attachment) pydict"
  as_files :: "(string, string) pydict"

definition attachment_path :: "string \<Rightarrow> string \<Rightarrow> string \<Rightarrow> string \<Rightarrow> string" where
  "attachment_path dir iid aid filename = dir @ ''/'' @ iid @ ''/'' @ aid @ ''_'' @ filename"

definition save_attachment ::
  "(string \<Rightarrow> string) \<Rightarrow> string \<Rightarrow> timestamp \<Rightarrow> string \<Rightarrow> string \<Rightarrow> string \<Rightarrow> string \<Rightarrow> string
     \<Rightarrow> attachment_store \<Rightarrow> attachment \<times> attachment_store" where
  "save_attachment H aid now iid filename content ctype who s =
     (let path = attachment_path (as_dir s) iid aid filename;
          a = \<lparr>at_id = aid, at_issue = iid, at_filename = filename, at_content_type = ctype,
               at_size = length content, at_sha256 = H content, at_path = path,
               at_uploaded_by = who, at_uploaded_at = now\<rparr>
      in (a, s\<lparr>as_files := dset path content (as_files s),
               as_attachments := dset aid a (as_attachments s)\<rparr>))"

definition get_attachment :: "attachment_store \<Rightarrow> string \<Rightarrow> attachment option" where
  "get_attachment s aid = dget (as_attachments s) aid"

definition read_attachment_bytes ::
  "(string \<Rightarrow> string) \<Rightarrow> string \<Rightarrow> attachment_store \<Rightarrow> desk_error + string" where
  "read_attachment_bytes H aid s =
     (case get_attachment s aid of
        None \<Rightarrow> Inl (AttachmentNotFound aid)
      | Some a \<Rightarrow>
          (case dget (as_files s) (at_path a) of
             None \<Rightarrow> Inl (FileMissing (at_path a))
           | Some content \<Rightarrow> if H content \<noteq> at_sha256 a then Inl ChecksumMismatch else Inr content))"

definition list_issue_attachments :: "string \<Rightarrow> attachment_store \<Rightarrow> attachment list" where
  "list_issue_attachments iid s = filter (\<lambda>a. at_issue a = iid) (dvals (as_attachments s))"

text \<open>
  An attachment reads back as it was saved, and whatever happens to the file afterwards, reading
  returns either the saved bytes or an error, unless the new bytes have the same SHA-256 digest.
\<close>

theorem attachment_roundtrip:
  fixes H :: "string \<Rightarrow> string" and aid iid filename content ctype who :: string and now :: timestamp
    and s :: attachment_store
  defines "s' \<equiv> snd (save_attachment H aid now iid filename content ctype who s)"
  shows "read_attachment_bytes H aid s' = Inr content
    \<and> (\<forall>files c. read_attachment_bytes H aid (s'\<lparr>as_files := files\<rparr>) = Inr c \<longrightarrow> H c = H content)"
  by (auto simp: s'_def save_attachment_def read_attachment_bytes_def get_attachment_def Let_def
      split: option.splits if_splits)

definition empty_store :: attachment_store where
  "empty_store = \<lparr>as_dir = ''d'', as_attachments = [], as_files = []\<rparr>"

theorem attachment_roundtrip_witness:
  "read_attachment_bytes rev ''A'' ((snd (save_attachment rev ''A'' 0 ''I'' ''f'' ''xy'' ''t'' ''me''
     empty_store))\<lparr>as_files := [(''d/I/A_f'', ''xz'')]\<rparr>) \<noteq> Inr ''xz''"
proof
  assume "read_attachment_bytes rev ''A'' ((snd (save_attachment rev ''A'' 0 ''I'' ''f'' ''xy'' ''t'' ''me''
     empty_store))\<lparr>as_files := [(''d/I/A_f'', ''xz'')]\<rparr>) = Inr ''xz''"
  with attachment_roundtrip [of rev "''A''" 0 "''I''" "''f''" "''xy''" "''t''" "''me''" empty_store]
  have "rev ''xz'' = rev ''xy''" by blast
  then show False by simp
qed

end
