(* ===== verification/Org_Chart.thy ===== *)
theory Org_Chart
  imports Amber_Prelude
begin

text \<open>
  The package \<open>org\<close>: roles and delegation (\<open>permissions.py\<close>), agent nodes (\<open>agent_node.py\<close>) and the chart
  of managers and subordinates with its cycle check, removal, traversals and escalation path
  (\<open>chart.py\<close>). The loops over the chart are total functions: their termination proofs count the
  agents not yet visited.
\<close>

section \<open>Roles and permissions\<close>

datatype org_role = ADMIN | DEPARTMENT_LEAD | STAFF_AGENT | SPECIALIST_AGENT | INTERN_AGENT

datatype org_permission = DELEGATE | APPROVE_BUDGET | CROSS_DEPT_CALL | EXECUTE_SYSTEM | READ_SENSITIVE
  | MANAGE_ORG

fun role_level :: "org_role \<Rightarrow> nat" where
  "role_level ADMIN = 100"
| "role_level DEPARTMENT_LEAD = 80"
| "role_level STAFF_AGENT = 60"
| "role_level SPECIALIST_AGENT = 40"
| "role_level INTERN_AGENT = 20"

fun default_permissions :: "org_role \<Rightarrow> org_permission set" where
  "default_permissions ADMIN =
     {DELEGATE, APPROVE_BUDGET, CROSS_DEPT_CALL, EXECUTE_SYSTEM, READ_SENSITIVE, MANAGE_ORG}"
| "default_permissions DEPARTMENT_LEAD = {DELEGATE, APPROVE_BUDGET, CROSS_DEPT_CALL, READ_SENSITIVE}"
| "default_permissions STAFF_AGENT = {DELEGATE, READ_SENSITIVE}"
| "default_permissions SPECIALIST_AGENT = {DELEGATE}"
| "default_permissions INTERN_AGENT = {}"

record org_policy =
  op_allow_cross_dept :: bool
  op_strict_hierarchy :: bool

definition has_permission :: "org_role \<Rightarrow> org_permission \<Rightarrow> bool" where
  "has_permission r p = (p \<in> default_permissions r)"

definition policy_can_delegate ::
  "org_policy \<Rightarrow> org_role \<Rightarrow> org_role \<Rightarrow> bool \<Rightarrow> org_permission set \<Rightarrow> bool" where
  "policy_can_delegate pol from_role to_role same_dept custom =
     (let perms = default_permissions from_role \<union> custom
      in if DELEGATE \<notin> perms then False
         else if \<not> same_dept \<and> \<not> (op_allow_cross_dept pol \<or> CROSS_DEPT_CALL \<in> perms) then False
         else if op_strict_hierarchy pol \<and> role_level from_role < role_level to_role then False
         else True)"

section \<open>Nodes and the chart\<close>

record agent_node =
  an_id :: string
  an_name :: string
  an_role :: org_role
  an_department :: string
  an_manager :: "string option"
  an_subordinates :: "string list"
  an_capabilities :: "string list"
  an_custom :: "org_permission set"
  an_budget :: pyfloat
  an_tenant :: string

definition add_subordinate :: "string \<Rightarrow> agent_node \<Rightarrow> agent_node" where
  "add_subordinate x n =
     (if x \<notin> set (an_subordinates n) \<and> x \<noteq> an_id n
      then n\<lparr>an_subordinates := an_subordinates n @ [x]\<rparr> else n)"

definition remove_subordinate :: "string \<Rightarrow> agent_node \<Rightarrow> agent_node" where
  "remove_subordinate x n = n\<lparr>an_subordinates := remove1 x (an_subordinates n)\<rparr>"

definition has_capability :: "string \<Rightarrow> agent_node \<Rightarrow> bool" where
  "has_capability c n = (c \<in> set (an_capabilities n))"

type_synonym nodes = "(string, agent_node) pydict"

record org_chart =
  oc_nodes :: nodes
  oc_policy :: org_policy

text \<open>\<open>if agent.manager_id\<close>: neither \<open>None\<close> nor empty.\<close>

definition manager_of :: "agent_node \<Rightarrow> string option" where
  "manager_of n = (case an_manager n of None \<Rightarrow> None | Some m \<Rightarrow> if m = [] then None else Some m)"

definition next_manager :: "nodes \<Rightarrow> string \<Rightarrow> string option" where
  "next_manager ns c = (case dget ns c of None \<Rightarrow> None | Some n \<Rightarrow> an_manager n)"

text \<open>The loop of \<open>_creates_cycle\<close>.\<close>

function cycle_walk :: "nodes \<Rightarrow> string list \<Rightarrow> string option \<Rightarrow> bool" where
  "cycle_walk ns visited None = False"
| "cycle_walk ns visited (Some c) =
     (if c \<in> set visited then True else cycle_walk ns (c # visited) (next_manager ns c))"
  by pat_completeness auto
termination
proof (relation "measure (\<lambda>(ns, visited, cur). card (set (dkeys ns) - set visited) + (if cur = None then 0 else 1))",
    goal_cases)
  case 1
  show ?case by simp
next
  case (2 ns visited c)
  show ?case
  proof (cases "next_manager ns c = None")
    case True
    have "card (set (dkeys ns) - set (c # visited)) \<le> card (set (dkeys ns) - set visited)"
      by (rule card_mono) auto
    with True show ?thesis by simp
  next
    case False
    then have "c \<in> set (dkeys ns)" by (force simp: next_manager_def dest: map_of_SomeD split: option.splits)
    with 2 have "card (set (dkeys ns) - set (c # visited)) < card (set (dkeys ns) - set visited)"
      by (intro psubset_card_mono) auto
    with False show ?thesis by simp
  qed
qed

definition creates_cycle :: "nodes \<Rightarrow> string \<Rightarrow> string \<Rightarrow> bool" where
  "creates_cycle ns x m = cycle_walk ns [x] (Some m)"

datatype org_error = OwnManager string | CreatesCycle string string

definition update_node :: "string \<Rightarrow> (agent_node \<Rightarrow> agent_node) \<Rightarrow> nodes \<Rightarrow> nodes" where
  "update_node x f ns = (case dget ns x of None \<Rightarrow> ns | Some n \<Rightarrow> dset x (f n) ns)"

definition add_agent :: "agent_node \<Rightarrow> nodes \<Rightarrow> org_error + nodes" where
  "add_agent a ns =
     (case manager_of a of
        None \<Rightarrow> Inr (dset (an_id a) a ns)
      | Some m \<Rightarrow>
          if m = an_id a then Inl (OwnManager m)
          else if creates_cycle ns (an_id a) m then Inl (CreatesCycle m (an_id a))
          else Inr (update_node m (add_subordinate (an_id a)) (dset (an_id a) a ns)))"

text \<open>One subordinate of a removed agent is given its manager.\<close>

definition relink :: "string option \<Rightarrow> string \<Rightarrow> nodes \<Rightarrow> nodes" where
  "relink mgr s ns =
     (if dhas ns s then
        (let ns = update_node s (\<lambda>n. n\<lparr>an_manager := mgr\<rparr>) ns
         in case mgr of None \<Rightarrow> ns
            | Some m \<Rightarrow> if m = [] then ns else update_node m (add_subordinate s) ns)
      else ns)"

definition remove_agent :: "string \<Rightarrow> nodes \<Rightarrow> nodes" where
  "remove_agent x ns =
     (case dget ns x of
        None \<Rightarrow> ns
      | Some t \<Rightarrow>
          (let ns = dpop x ns;
               ns = (case manager_of t of None \<Rightarrow> ns | Some m \<Rightarrow> update_node m (remove_subordinate x) ns)
           in fold (relink (an_manager t)) (an_subordinates t) ns))"

definition get_manager :: "nodes \<Rightarrow> string \<Rightarrow> agent_node option" where
  "get_manager ns x =
     (case dget ns x of
        None \<Rightarrow> None
      | Some n \<Rightarrow> (case manager_of n of None \<Rightarrow> None | Some m \<Rightarrow> dget ns m))"

definition present_subs :: "nodes \<Rightarrow> string list \<Rightarrow> agent_node list" where
  "present_subs ns sids = List.map_filter (dget ns) sids"

text \<open>The breadth-first loop of \<open>get_subordinates(recursive=True)\<close>.\<close>

function subordinate_loop :: "nodes \<Rightarrow> agent_node list \<Rightarrow> string list \<Rightarrow> agent_node list \<Rightarrow> agent_node list" where
  "subordinate_loop ns [] visited results = results"
| "subordinate_loop ns (c # queue) visited results =
     (if an_id c \<notin> set visited
      then subordinate_loop ns
             (queue @ present_subs ns (filter (\<lambda>s. s \<notin> set (an_id c # visited)) (an_subordinates c)))
             (an_id c # visited) (results @ [c])
      else subordinate_loop ns queue visited results)"
  by pat_completeness auto

lemma set_present_subs: "n \<in> set (present_subs ns sids) \<longleftrightarrow> (\<exists>s \<in> set sids. dget ns s = Some n)"
  by (auto simp: present_subs_def map_filter_def) force

termination subordinate_loop
proof (relation "measures [\<lambda>(ns, queue, visited, results). card (an_id ` (set queue \<union> set (dvals ns)) - set visited),
      \<lambda>(ns, queue, visited, results). length queue]", goal_cases)
  case 1
  show ?case by simp
next
  case (2 ns c queue visited results)
  have "set (present_subs ns sids) \<subseteq> set (dvals ns)" for sids
    by (auto simp: set_present_subs dest!: map_of_SomeD) force
  then have "an_id ` (set (queue @ present_subs ns (filter (\<lambda>s. s \<notin> set (an_id c # visited)) (an_subordinates c)))
        \<union> set (dvals ns)) - set (an_id c # visited)
      \<subset> an_id ` (set (c # queue) \<union> set (dvals ns)) - set visited"
    using 2 by (auto simp del: set_map)
  then show ?case by (simp add: psubset_card_mono)
next
  case (3 ns c queue visited results)
  have "card (an_id ` (set queue \<union> set (dvals ns)) - set visited)
      \<le> card (an_id ` (set (c # queue) \<union> set (dvals ns)) - set visited)"
    by (rule card_mono) auto
  then show ?case by auto
qed

definition get_subordinates :: "nodes \<Rightarrow> string \<Rightarrow> bool \<Rightarrow> agent_node list" where
  "get_subordinates ns x recursive =
     (case dget ns x of
        None \<Rightarrow> []
      | Some n \<Rightarrow>
          (let direct = present_subs ns (an_subordinates n)
           in if \<not> recursive then direct else subordinate_loop ns direct [x] []))"

definition get_department_agents :: "nodes \<Rightarrow> string \<Rightarrow> string \<Rightarrow> agent_node list" where
  "get_department_agents ns dept tenant =
     filter (\<lambda>n. an_department n = dept \<and> an_tenant n = tenant) (dvals ns)"

definition can_delegate :: "org_chart \<Rightarrow> string \<Rightarrow> string \<Rightarrow> bool" where
  "can_delegate oc from_id to_id =
     (case (dget (oc_nodes oc) from_id, dget (oc_nodes oc) to_id) of
        (Some f, Some t) \<Rightarrow>
          if an_tenant f \<noteq> an_tenant t then False
          else policy_can_delegate (oc_policy oc) (an_role f) (an_role t)
                 (an_department f = an_department t) (an_custom f)
      | _ \<Rightarrow> False)"

text \<open>The loop of \<open>get_escalation_path\<close>.\<close>

function escalation_loop :: "nodes \<Rightarrow> string list \<Rightarrow> agent_node option \<Rightarrow> agent_node list" where
  "escalation_loop ns visited None = []"
| "escalation_loop ns visited (Some c) =
     (if an_id c \<in> set visited then []
      else c # escalation_loop ns (an_id c # visited) (get_manager ns (an_id c)))"
  by pat_completeness auto
termination
proof (relation "measure (\<lambda>(ns, visited, cur). card (an_id ` (set_option cur \<union> set (dvals ns)) - set visited))",
    goal_cases)
  case 1
  show ?case by simp
next
  case (2 ns visited c)
  have "set_option (get_manager ns (an_id c)) \<subseteq> set (dvals ns)"
    by (auto simp: get_manager_def dest!: map_of_SomeD split: option.splits) force
  then have "an_id ` (set_option (get_manager ns (an_id c)) \<union> set (dvals ns)) - set (an_id c # visited)
      \<subset> an_id ` (set_option (Some c) \<union> set (dvals ns)) - set visited"
    using 2 by (auto simp del: set_map)
  then show ?case by (simp add: psubset_card_mono)
qed

definition get_escalation_path :: "nodes \<Rightarrow> string \<Rightarrow> agent_node list" where
  "get_escalation_path ns x = escalation_loop ns [x] (get_manager ns x)"

section \<open>The chart stays acyclic\<close>

definition mgr_rel :: "nodes \<Rightarrow> (string \<times> string) set" where
  "mgr_rel ns = {(x, m). \<exists>n. dget ns x = Some n \<and> manager_of n = Some m}"

definition keys_ok :: "nodes \<Rightarrow> bool" where
  "keys_ok ns \<longleftrightarrow> (\<forall>x n. dget ns x = Some n \<longrightarrow> an_id n = x)"

definition chart_inv :: "nodes \<Rightarrow> bool" where
  "chart_inv ns \<longleftrightarrow> dict_ok ns \<and> keys_ok ns \<and> acyclic (mgr_rel ns)"

lemma manager_of_Some: "manager_of n = Some m \<longleftrightarrow> an_manager n = Some m \<and> m \<noteq> []"
  by (auto simp: manager_of_def split: option.splits)

lemma node_updates [simp]:
  "an_id (add_subordinate x n) = an_id n" "an_manager (add_subordinate x n) = an_manager n"
  "an_manager (remove_subordinate x n) = an_manager n" "manager_of (add_subordinate x n) = manager_of n"
  "an_id (remove_subordinate x n) = an_id n" "manager_of (remove_subordinate x n) = manager_of n"
  by (simp_all add: add_subordinate_def remove_subordinate_def manager_of_def)

lemma dget_update_node:
  "dget (update_node x f ns) y = (if y = x then map_option f (dget ns x) else dget ns y)"
  by (auto simp: update_node_def split: option.splits)

lemma update_node_same:
  assumes "\<And>n. manager_of (f n) = manager_of n" and "\<And>n. an_id (f n) = an_id n"
  shows "mgr_rel (update_node x f ns) = mgr_rel ns" "keys_ok (update_node x f ns) = keys_ok ns"
proof -
  have "(a, b) \<in> mgr_rel (update_node x f ns) \<longleftrightarrow> (a, b) \<in> mgr_rel ns" for a b
    by (cases "a = x"; cases "dget ns x") (simp_all add: mgr_rel_def dget_update_node assms)
  then show "mgr_rel (update_node x f ns) = mgr_rel ns" by auto
  have "(\<forall>n. dget (update_node x f ns) y = Some n \<longrightarrow> an_id n = y) \<longleftrightarrow> (\<forall>n. dget ns y = Some n \<longrightarrow> an_id n = y)" for y
    by (cases "y = x"; cases "dget ns x") (simp_all add: dget_update_node assms)
  then show "keys_ok (update_node x f ns) = keys_ok ns" by (simp add: keys_ok_def)
qed

lemma update_node_dict_ok: "dict_ok ns \<Longrightarrow> dict_ok (update_node x f ns)"
  by (auto simp: update_node_def split: option.splits)

lemma cycle_walk_avoids:
  "\<not> cycle_walk ns visited cur \<Longrightarrow> cur = Some c \<Longrightarrow> (c, x) \<in> (mgr_rel ns)\<^sup>* \<Longrightarrow> x \<notin> set visited"
proof (induction ns visited cur arbitrary: c rule: cycle_walk.induct)
  case (1 ns visited)
  then show ?case by simp
next
  case (2 ns visited c0)
  from 2(3) have c0: "c0 = c" by simp
  from 2(2) have c: "c \<notin> set visited" and nw: "\<not> cycle_walk ns (c # visited) (next_manager ns c)"
    unfolding c0 cycle_walk.simps by (simp_all split: if_splits)
  note IH = 2(1) [unfolded c0, OF c nw]
  from 2(4) show ?case
  proof (cases rule: converse_rtranclE)
    case base
    with c show ?thesis by simp
  next
    case (step d)
    then have "next_manager ns c = Some d"
      by (auto simp: mgr_rel_def next_manager_def manager_of_Some)
    from IH [OF this step(2)] show ?thesis by simp
  qed
qed

lemma add_agent_inv:
  assumes "chart_inv ns" and "add_agent a ns = Inr ns'"
  shows "chart_inv ns'"
proof (cases "manager_of a")
  case None
  with assms(2) have ns': "ns' = dset (an_id a) a ns" by (simp add: add_agent_def)
  have "mgr_rel ns' \<subseteq> mgr_rel ns" using None by (auto simp: mgr_rel_def ns' split: if_splits)
  with assms(1) show ?thesis by (auto simp: chart_inv_def keys_ok_def ns' intro: acyclic_subset)
next
  case (Some m)
  with assms(2) have m: "m \<noteq> an_id a" "\<not> creates_cycle ns (an_id a) m"
    and ns': "ns' = update_node m (add_subordinate (an_id a)) (dset (an_id a) a ns)"
    by (auto simp: add_agent_def split: if_splits)
  have "(m, an_id a) \<notin> (mgr_rel ns)\<^sup>*"
    using cycle_walk_avoids [OF m(2) [unfolded creates_cycle_def] refl, of "an_id a"] by auto
  then have "acyclic (insert (an_id a, m) (mgr_rel ns))"
    using assms(1) by (simp add: chart_inv_def acyclic_insert)
  moreover have "mgr_rel (dset (an_id a) a ns) \<subseteq> insert (an_id a, m) (mgr_rel ns)"
    using Some by (auto simp: mgr_rel_def split: if_splits)
  ultimately have "acyclic (mgr_rel (dset (an_id a) a ns))" by (rule acyclic_subset)
  then have "acyclic (mgr_rel ns')" unfolding ns' by (simp add: update_node_same)
  moreover have "keys_ok (dset (an_id a) a ns)" using assms(1) by (auto simp: chart_inv_def keys_ok_def)
  ultimately show ?thesis
    using assms(1) unfolding chart_inv_def by (simp add: ns' update_node_same update_node_dict_ok)
qed

text \<open>A call of \<open>add_agent\<close> that may raise.\<close>

definition org_add :: "agent_node \<Rightarrow> nodes \<Rightarrow> nodes" where
  "org_add a ns = (case add_agent a ns of Inl _ \<Rightarrow> ns | Inr ns' \<Rightarrow> ns')"

interpretation org: machine org_add chart_inv
  by unfold_locales (auto simp: org_add_def intro: add_agent_inv split: sum.splits)

lemma chart_inv_new: "chart_inv []"
  by (auto simp: chart_inv_def keys_ok_def mgr_rel_def acyclic_def)

text \<open>The whole chain of managers above an agent.\<close>

fun chain_up :: "nodes \<Rightarrow> string \<Rightarrow> agent_node list \<Rightarrow> bool" where
  "chain_up ns y [] = (get_manager ns y = None)"
| "chain_up ns y (c # p) = (get_manager ns y = Some c \<and> chain_up ns (an_id c) p)"

lemma get_manager_rel: "keys_ok ns \<Longrightarrow> get_manager ns y = Some c \<Longrightarrow> (y, an_id c) \<in> mgr_rel ns"
  by (auto simp: get_manager_def mgr_rel_def keys_ok_def split: option.splits)

lemma escalation_loop_spec:
  assumes "keys_ok ns" and "acyclic (mgr_rel ns)"
  shows "cur = get_manager ns y \<Longrightarrow> \<forall>v \<in> set visited. (v, y) \<in> (mgr_rel ns)\<^sup>* \<Longrightarrow>
     chain_up ns y (escalation_loop ns visited cur)
     \<and> distinct (map an_id (escalation_loop ns visited cur))
     \<and> set (map an_id (escalation_loop ns visited cur)) \<inter> set visited = {}"
  using assms
proof (induction ns visited cur arbitrary: y rule: escalation_loop.induct)
  case (1 ns visited)
  then show ?case by simp
next
  case (2 ns visited c)
  have e: "(y, an_id c) \<in> mgr_rel ns" using 2 by (intro get_manager_rel) simp_all
  have reach: "(v, an_id c) \<in> (mgr_rel ns)\<^sup>+" if "v \<in> set visited" for v
    using 2(3) that e by (meson rtrancl_into_trancl1)
  then have nv: "an_id c \<notin> set visited" using 2(5) by (auto simp: acyclic_def)
  have "\<forall>v \<in> set (an_id c # visited). (v, an_id c) \<in> (mgr_rel ns)\<^sup>*"
    using reach by (auto dest: trancl_into_rtrancl)
  from 2(1) [OF nv refl this 2(4,5)] nv 2(2) [symmetric] show ?case by auto
qed

text \<open>
  C8. Adding agents never creates a management cycle: after any sequence of \<open>add_agent\<close> calls, with
  those that raise leaving the chart as it was, the manager relation is acyclic, and the escalation path
  of every agent is its whole chain of managers, up to one without a manager in the chart, without
  repetition and without the agent itself.
\<close>

theorem org_chart_acyclic:
  fixes agents :: "agent_node list"
  defines "ns \<equiv> fold org_add agents []"
  shows "acyclic (mgr_rel ns) \<and> chain_up ns x (get_escalation_path ns x)
    \<and> distinct (x # map an_id (get_escalation_path ns x))"
proof -
  have inv: "chart_inv ns" unfolding ns_def by (rule org.run_inv [OF chart_inv_new])
  then have k: "keys_ok ns" "acyclic (mgr_rel ns)" by (simp_all add: chart_inv_def)
  from escalation_loop_spec [OF k refl, of "[x]" x] k show ?thesis
    by (simp add: get_escalation_path_def)
qed

section \<open>Removing an agent\<close>

lemma relink_rel: "mgr_rel (relink mgr s ns) \<subseteq> mgr_rel ns \<union> {(s, m) | m. mgr = Some m \<and> m \<noteq> []}"
proof (cases "dhas ns s")
  case True
  let ?ns = "update_node s (\<lambda>n. n\<lparr>an_manager := mgr\<rparr>) ns"
  have "mgr_rel ?ns \<subseteq> mgr_rel ns \<union> {(s, m) | m. mgr = Some m \<and> m \<noteq> []}"
    by (auto simp: mgr_rel_def dget_update_node manager_of_Some split: if_splits)
  moreover have "mgr_rel (relink mgr s ns) = mgr_rel ?ns"
    using True by (simp add: relink_def Let_def update_node_same split: option.splits)
  ultimately show ?thesis by simp
qed (simp add: relink_def)

lemma relinks_rel:
  "mgr_rel (fold (relink mgr) ss ns) \<subseteq> mgr_rel ns \<union> {(s, m) | s m. s \<in> set ss \<and> mgr = Some m \<and> m \<noteq> []}"
proof (induction ss arbitrary: ns)
  case Nil
  then show ?case by simp
next
  case (Cons s ss)
  from Cons.IH [of "relink mgr s ns"] relink_rel [of mgr s ns] show ?case by auto
qed

text \<open>No stale entry: whoever stands in the agent's subordinate list has the agent as manager.\<close>

definition subordinates_current :: "nodes \<Rightarrow> agent_node \<Rightarrow> bool" where
  "subordinates_current ns t \<longleftrightarrow>
     list_all (\<lambda>s. case dget ns s of None \<Rightarrow> True | Some n \<Rightarrow> manager_of n = Some (an_id t)) (an_subordinates t)"

lemma relink_dget:
  "dget (relink mgr s ns) y = None \<longleftrightarrow> dget ns y = None"
  by (auto simp: relink_def Let_def dget_update_node dhas_def split: option.splits)

lemma relinks_dget: "dget (fold (relink mgr) ss ns) y = None \<longleftrightarrow> dget ns y = None"
  by (induction ss arbitrary: ns) (simp_all add: relink_dget)

lemma mgr_rel_present: "(x, m) \<in> mgr_rel ns \<Longrightarrow> dget ns x \<noteq> None"
  by (auto simp: mgr_rel_def)

lemma remove_agent_rel:
  assumes "keys_ok ns" and "dget ns x = Some t" and "subordinates_current ns t"
  shows "mgr_rel (remove_agent x ns) \<subseteq> (mgr_rel ns)\<^sup>+"
proof
  fix e assume e: "e \<in> mgr_rel (remove_agent x ns)"
  obtain a b where ab: "e = (a, b)" by (cases e)
  define ns1 where "ns1 = (case manager_of t of None \<Rightarrow> dpop x ns
      | Some m \<Rightarrow> update_node m (remove_subordinate x) (dpop x ns))"
  have rem: "remove_agent x ns = fold (relink (an_manager t)) (an_subordinates t) ns1"
    using assms(2) by (simp add: remove_agent_def ns1_def Let_def)
  have r1: "mgr_rel ns1 \<subseteq> mgr_rel ns"
  proof -
    have "mgr_rel (dpop x ns) \<subseteq> mgr_rel ns" by (auto simp: mgr_rel_def split: if_splits)
    then show ?thesis by (simp add: ns1_def update_node_same split: option.splits)
  qed
  have d1: "dget ns1 y \<noteq> None \<Longrightarrow> dget ns y \<noteq> None" for y
    by (auto simp: ns1_def dget_update_node split: option.splits if_splits)
  have "dget ns1 a \<noteq> None"
    using mgr_rel_present e ab relinks_dget unfolding rem by metis
  then obtain n where n: "dget ns a = Some n" using d1 by fastforce
  from e ab relinks_rel [of "an_manager t" "an_subordinates t" ns1]
  consider "(a, b) \<in> mgr_rel ns1" | "a \<in> set (an_subordinates t)" "an_manager t = Some b" "b \<noteq> []"
    unfolding rem by auto
  then show "e \<in> (mgr_rel ns)\<^sup>+"
  proof cases
    case 1
    with r1 ab show ?thesis by auto
  next
    case 2
    have "an_id t = x" using assms(1,2) by (simp add: keys_ok_def)
    with 2(1) assms(3) n have "(a, x) \<in> mgr_rel ns"
      by (auto simp: subordinates_current_def list_all_iff mgr_rel_def split: option.splits)
    moreover have "(x, b) \<in> mgr_rel ns" using 2 assms(2) by (auto simp: mgr_rel_def manager_of_Some)
    ultimately show ?thesis using ab by auto
  qed
qed

text \<open>
  Removing an agent keeps the chart acyclic when its subordinate list has no stale entry, and hands
  its subordinates to its manager.
\<close>

theorem remove_agent_acyclic:
  assumes "chart_inv ns" and "dget ns x = Some t" and "subordinates_current ns t"
  shows "acyclic (mgr_rel (remove_agent x ns)) \<and> (s \<in> set (an_subordinates t) \<longrightarrow> s \<noteq> x \<longrightarrow> dhas ns s \<longrightarrow>
     next_manager (remove_agent x ns) s = an_manager t)"
proof
  have "mgr_rel (remove_agent x ns) \<subseteq> (mgr_rel ns)\<^sup>+"
    using assms by (intro remove_agent_rel) (simp_all add: chart_inv_def)
  moreover have "acyclic ((mgr_rel ns)\<^sup>+)" using assms(1) by (simp add: chart_inv_def acyclic_def)
  ultimately show "acyclic (mgr_rel (remove_agent x ns))" by (rule acyclic_subset [rotated])
  have one: "next_manager (relink mgr s ns) s = mgr" if "dhas ns s" for ns mgr s
    using that by (auto simp: relink_def next_manager_def dget_update_node dhas_def Let_def
        split: option.splits)
  have keep: "next_manager (relink mgr s' ns) s = next_manager ns s" if "s' \<noteq> s" for ns mgr s' s
    using that by (auto simp: relink_def next_manager_def dget_update_node Let_def
        split: option.splits)
  have all: "dhas ns s \<Longrightarrow> s \<in> set ss \<or> next_manager ns s = mgr \<Longrightarrow>
      next_manager (fold (relink mgr) ss ns) s = mgr" for ss ns mgr
  proof (induction ss arbitrary: ns)
    case (Cons s' ss)
    have "dhas (relink mgr s' ns) s" using Cons.prems(1) relink_dget [of mgr s' ns s] by (auto simp: dhas_def)
    then show ?case using Cons one [of ns s' mgr] keep [of s' s mgr ns] by (cases "s' = s") auto
  qed simp
  show "s \<in> set (an_subordinates t) \<longrightarrow> s \<noteq> x \<longrightarrow> dhas ns s \<longrightarrow> next_manager (remove_agent x ns) s = an_manager t"
  proof (intro impI)
    assume "s \<in> set (an_subordinates t)" "s \<noteq> x" "dhas ns s"
    then show "next_manager (remove_agent x ns) s = an_manager t"
      using assms(2) by (auto simp: remove_agent_def Let_def dhas_def dget_update_node
          intro!: all split: option.splits)
  qed
qed

definition sample_node :: "string \<Rightarrow> string option \<Rightarrow> string list \<Rightarrow> agent_node" where
  "sample_node x m subs = \<lparr>an_id = x, an_name = x, an_role = STAFF_AGENT, an_department = ''eng'',
     an_manager = m, an_subordinates = subs, an_capabilities = [], an_custom = {}, an_budget = 100,
     an_tenant = ''default''\<rparr>"

theorem remove_agent_acyclic_witness:
  "acyclic (mgr_rel (remove_agent ''b''
     (fold org_add [sample_node ''a'' None [], sample_node ''b'' (Some ''a'') [], sample_node ''c'' (Some ''b'') []] [])))"
proof -
  let ?ns = "fold org_add [sample_node ''a'' None [], sample_node ''b'' (Some ''a'') [], sample_node ''c'' (Some ''b'') []] []"
  have "dget ?ns ''b'' = Some (sample_node ''b'' (Some ''a'') [''c''])" by code_simp
  moreover have "subordinates_current ?ns (sample_node ''b'' (Some ''a'') [''c''])" by code_simp
  ultimately show ?thesis using remove_agent_acyclic [OF org.run_inv [OF chart_inv_new]] by blast
qed

definition stale_chart :: nodes where
  "stale_chart = remove_agent ''x'' (fold org_add
     [sample_node ''x'' None [], sample_node ''s'' (Some ''x'') [], sample_node ''s'' None [],
      sample_node ''x'' (Some ''s'') [''s'']] [])"

text \<open>
  A stale subordinate entry makes removal create a cycle: an agent that is given a new manager stays
  in the list of the old one, and once the old manager works under it and is removed, the agent is
  its own manager. From then on nobody can be added under it.
\<close>

theorem remove_agent_makes_cycle:
  "(''s'', ''s'') \<in> mgr_rel stale_chart
   \<and> (manager_of a = Some ''s'' \<longrightarrow> an_id a \<noteq> ''s'' \<longrightarrow> is_error (add_agent a stale_chart))"
proof (intro conjI impI)
  have nm: "next_manager stale_chart ''s'' = Some ''s''" by code_simp
  then show "(''s'', ''s'') \<in> mgr_rel stale_chart"
    by (auto simp: next_manager_def mgr_rel_def manager_of_Some split: option.splits)
  assume a: "manager_of a = Some ''s''" "an_id a \<noteq> ''s''"
  have "creates_cycle stale_chart (an_id a) ''s''" using a(2) nm by (simp add: creates_cycle_def)
  with a show "is_error (add_agent a stale_chart)" by (simp add: add_agent_def)
qed

theorem remove_agent_makes_cycle_witness:
  "is_error (add_agent (sample_node ''t'' (Some ''s'') []) stale_chart)"
  using remove_agent_makes_cycle [of "sample_node ''t'' (Some ''s'') []"]
  by (simp add: sample_node_def manager_of_def)

section \<open>Subordinates and delegation\<close>

definition sub_rel :: "nodes \<Rightarrow> (string \<times> string) set" where
  "sub_rel ns = {(x, y). \<exists>n. dget ns x = Some n \<and> y \<in> set (an_subordinates n) \<and> dhas ns y}"

lemma present_ids:
  "keys_ok ns \<Longrightarrow> an_id ` set (present_subs ns sids) = {s \<in> set sids. dhas ns s}"
  by (force simp: set_present_subs keys_ok_def dhas_def)

lemma subordinate_loop_spec:
  assumes "keys_ok ns"
  shows "\<forall>n \<in> set queue. dget ns (an_id n) = Some n \<and> (a, an_id n) \<in> (sub_rel ns)\<^sup>* \<Longrightarrow>
    \<forall>v \<in> set visited. (a, v) \<in> (sub_rel ns)\<^sup>* \<Longrightarrow>
    \<forall>v \<in> set visited. \<forall>y. (v, y) \<in> sub_rel ns \<longrightarrow> y \<in> set visited \<union> an_id ` set queue \<Longrightarrow>
    a \<in> set visited \<Longrightarrow> distinct (map an_id results) \<Longrightarrow> an_id ` set results = set visited - {a} \<Longrightarrow>
    an_id ` set (subordinate_loop ns queue visited results) = {y. (a, y) \<in> (sub_rel ns)\<^sup>*} - {a}
    \<and> distinct (map an_id (subordinate_loop ns queue visited results))"
  using assms
proof (induction ns queue visited results rule: subordinate_loop.induct)
  case (1 ns visited results)
  have "y \<in> set visited" if "(a, y) \<in> (sub_rel ns)\<^sup>*" for y
    using that by (induction rule: rtrancl_induct) (use 1(3,4) in auto)
  then have "set visited = {y. (a, y) \<in> (sub_rel ns)\<^sup>*}" using 1(2) by blast
  with 1(5,6) show ?case by simp
next
  case (2 ns c queue visited results)
  have c: "dget ns (an_id c) = Some c" "(a, an_id c) \<in> (sub_rel ns)\<^sup>*" using 2(3) by auto
  show ?case
  proof (cases "an_id c \<in> set visited")
    case True
    have eq: "subordinate_loop ns (c # queue) visited results = subordinate_loop ns queue visited results"
      using True by simp
    have nn: "\<not> an_id c \<notin> set visited" using True by simp
    have q: "\<forall>n \<in> set queue. dget ns (an_id n) = Some n \<and> (a, an_id n) \<in> (sub_rel ns)\<^sup>*" using 2(3) by simp
    have "\<forall>v \<in> set visited. \<forall>y. (v, y) \<in> sub_rel ns \<longrightarrow> y \<in> set visited \<union> an_id ` set queue"
      using 2(5) True by auto
    from 2(2) [OF nn q 2(4) this 2(6-9)] show ?thesis unfolding eq .
  next
    case False
    define new where "new = present_subs ns (filter (\<lambda>s. s \<notin> set (an_id c # visited)) (an_subordinates c))"
    have new: "dget ns (an_id n) = Some n \<and> an_id n \<in> set (an_subordinates c) \<and> dhas ns (an_id n)"
      if "n \<in> set new" for n
      using that 2(9) by (auto simp: new_def set_present_subs keys_ok_def dhas_def)
    have ids: "an_id ` set new = {s \<in> set (an_subordinates c). s \<notin> set (an_id c # visited) \<and> dhas ns s}"
      unfolding new_def using present_ids [OF 2(9)] by auto
    have eq: "subordinate_loop ns (c # queue) visited results =
        subordinate_loop ns (queue @ new) (an_id c # visited) (results @ [c])"
      using False by (simp add: new_def)
    have q: "\<forall>n \<in> set (queue @ new). dget ns (an_id n) = Some n \<and> (a, an_id n) \<in> (sub_rel ns)\<^sup>*"
    proof
      fix n assume "n \<in> set (queue @ new)"
      then consider "n \<in> set queue" | "n \<in> set new" by auto
      then show "dget ns (an_id n) = Some n \<and> (a, an_id n) \<in> (sub_rel ns)\<^sup>*"
      proof cases
        case 1
        with 2(3) show ?thesis by simp
      next
        case 2
        with new c(1) have "(an_id c, an_id n) \<in> sub_rel ns" by (auto simp: sub_rel_def)
        with c(2) new [OF 2] show ?thesis by (auto intro: rtrancl_into_rtrancl)
      qed
    qed
    have closed: "\<forall>v \<in> set (an_id c # visited). \<forall>y. (v, y) \<in> sub_rel ns \<longrightarrow>
        y \<in> set (an_id c # visited) \<union> an_id ` set (queue @ new)"
    proof (intro ballI allI impI)
      fix v y assume v: "v \<in> set (an_id c # visited)" and vy: "(v, y) \<in> sub_rel ns"
      show "y \<in> set (an_id c # visited) \<union> an_id ` set (queue @ new)"
      proof (cases "v = an_id c")
        case True
        with vy c(1) have "y \<in> set (an_subordinates c)" "dhas ns y" by (auto simp: sub_rel_def)
        then show ?thesis using ids by (cases "y \<in> set (an_id c # visited)") auto
      next
        case False
        with v vy 2(5) show ?thesis by auto
      qed
    qed
    have "\<forall>v \<in> set (an_id c # visited). (a, v) \<in> (sub_rel ns)\<^sup>*" using 2(4) c(2) by simp
    moreover have "an_id c \<noteq> a" using False 2(6) by auto
    then have "an_id ` set (results @ [c]) = set (an_id c # visited) - {a}" using 2(8) by auto
    moreover have "distinct (map an_id (results @ [c]))" using 2(7,8) False by auto
    moreover have "a \<in> set (an_id c # visited)" using 2(6) by simp
    ultimately show ?thesis
      unfolding eq using 2(1) [OF False, folded new_def, OF q _ closed _ _ _ 2(9)] by blast
  qed
qed

text \<open>
  The recursive subordinates of an agent are exactly the agents below it in the chart, each once,
  also when the subordinate lists run in circles.
\<close>

theorem recursive_subordinates:
  assumes "keys_ok ns" and "dhas ns x"
  shows "an_id ` set (get_subordinates ns x True) = {y. (x, y) \<in> (sub_rel ns)\<^sup>*} - {x}
    \<and> distinct (map an_id (get_subordinates ns x True))"
proof -
  obtain n where n: "dget ns x = Some n" using assms(2) by (auto simp: dhas_def)
  have ids: "an_id ` set (present_subs ns (an_subordinates n)) = {s \<in> set (an_subordinates n). dhas ns s}"
    by (rule present_ids [OF assms(1)])
  have sub: "(x, an_id c) \<in> sub_rel ns" "dget ns (an_id c) = Some c" if "c \<in> set (present_subs ns (an_subordinates n))" for c
    using that n assms(1) by (auto simp: set_present_subs sub_rel_def keys_ok_def dhas_def)
  have "an_id ` set (subordinate_loop ns (present_subs ns (an_subordinates n)) [x] []) = {y. (x, y) \<in> (sub_rel ns)\<^sup>*} - {x}
    \<and> distinct (map an_id (subordinate_loop ns (present_subs ns (an_subordinates n)) [x] []))"
    by (rule subordinate_loop_spec [OF assms(1)]) (use sub n ids in \<open>auto simp: sub_rel_def\<close>)
  then show ?thesis using n by (simp add: get_subordinates_def)
qed

theorem recursive_subordinates_witness:
  "distinct (map an_id (get_subordinates [(''a'', sample_node ''a'' None [''b'']), (''b'', sample_node ''b'' None [''a''])] ''a'' True))"
proof -
  have "keys_ok [(''a'', sample_node ''a'' None [''b'']), (''b'', sample_node ''b'' None [''a''])]"
    by (auto simp: keys_ok_def sample_node_def split: if_splits)
  from recursive_subordinates [OF this, of "''a''"] show ?thesis by (simp add: dhas_def)
qed

text \<open>
  Delegation stays inside a tenant and never goes up: if one agent can delegate to another, both
  are in the chart and in one tenant, the first may delegate by its role or its own permissions, it has
  a cross-department permission (or the policy allows it) when the departments differ, and under strict
  hierarchy its role does not rank below the other's.
\<close>

theorem delegation_bounded:
  "can_delegate oc x y \<longleftrightarrow> (\<exists>f t. dget (oc_nodes oc) x = Some f \<and> dget (oc_nodes oc) y = Some t
     \<and> an_tenant f = an_tenant t
     \<and> (has_permission (an_role f) DELEGATE \<or> DELEGATE \<in> an_custom f)
     \<and> (an_department f = an_department t \<or> op_allow_cross_dept (oc_policy oc)
         \<or> has_permission (an_role f) CROSS_DEPT_CALL \<or> CROSS_DEPT_CALL \<in> an_custom f)
     \<and> (if op_strict_hierarchy (oc_policy oc) then role_level (an_role t) \<le> role_level (an_role f) else True))"
  by (auto simp: can_delegate_def policy_can_delegate_def has_permission_def Let_def split: option.splits)

end
