(* ===== verification/Channel_Resilience.thy ===== *)
theory Channel_Resilience
  imports Amber_Prelude
begin

text \<open>
  \<open>channels/capabilities.py\<close> (the catalog of channel profiles) and \<open>channels/resilience.py\<close>: the token
  bucket of a channel with its cool-down after an upstream 429, the reconnect state machine with
  exponential backoff, and the delivery metrics. Clock readings and the random number of the jitter are
  arguments; the waiting loop of \<open>acquire\<close> runs over the list of the instants of its iterations.
\<close>

section \<open>Channel profiles\<close>

datatype feature = F_TEXT | F_MARKDOWN | F_HTML | F_IMAGES | F_AUDIO | F_VIDEO | F_FILES | F_VOICE_NOTES
  | F_THREADING | F_MESSAGE_EDITS | F_REACTIONS | F_TYPING_INDICATOR

text \<open>The attribute a feature is; \<open>getattr(self, name, None)\<close> finds no other boolean.\<close>

fun feature_name :: "feature \<Rightarrow> string" where
  "feature_name F_TEXT = ''text''"
| "feature_name F_MARKDOWN = ''markdown''"
| "feature_name F_HTML = ''html''"
| "feature_name F_IMAGES = ''images''"
| "feature_name F_AUDIO = ''audio''"
| "feature_name F_VIDEO = ''video''"
| "feature_name F_FILES = ''files''"
| "feature_name F_VOICE_NOTES = ''voice_notes''"
| "feature_name F_THREADING = ''threading''"
| "feature_name F_MESSAGE_EDITS = ''message_edits''"
| "feature_name F_REACTIONS = ''reactions''"
| "feature_name F_TYPING_INDICATOR = ''typing_indicator''"

record channel_capability =
  cc_channel :: string
  cc_features :: "feature list"
  cc_max_length :: nat
  cc_rate :: pyfloat
  cc_max_file_mb :: nat

definition supports :: "feature \<Rightarrow> channel_capability \<Rightarrow> bool" where
  "supports f c = (f \<in> set (cc_features c))"

definition default_capability :: "string \<Rightarrow> channel_capability" where
  "default_capability ch = \<lparr>cc_channel = ch,
     cc_features = [F_TEXT, F_MARKDOWN, F_IMAGES, F_AUDIO, F_FILES, F_TYPING_INDICATOR],
     cc_max_length = 4096, cc_rate = 1, cc_max_file_mb = 20\<rparr>"

type_synonym catalog = "(string, channel_capability) pydict"

definition profile :: "string \<Rightarrow> feature list \<Rightarrow> nat \<Rightarrow> pyfloat \<Rightarrow> nat \<Rightarrow> string \<times> channel_capability" where
  "profile ch fs len rate mb = (ch, \<lparr>cc_channel = ch, cc_features = fs, cc_max_length = len,
     cc_rate = rate, cc_max_file_mb = mb\<rparr>)"

definition channel_catalog :: catalog where
  "channel_catalog =
     [
      profile ''telegram''
        [F_TEXT, F_MARKDOWN, F_HTML, F_IMAGES, F_AUDIO, F_VIDEO, F_FILES, F_VOICE_NOTES, F_THREADING, F_MESSAGE_EDITS, F_REACTIONS, F_TYPING_INDICATOR]
        4096 30 50,
      profile ''discord''
        [F_TEXT, F_MARKDOWN, F_IMAGES, F_AUDIO, F_VIDEO, F_FILES, F_THREADING, F_MESSAGE_EDITS, F_REACTIONS, F_TYPING_INDICATOR]
        2000 5 25,
      profile ''slack''
        [F_TEXT, F_MARKDOWN, F_IMAGES, F_AUDIO, F_VIDEO, F_FILES, F_VOICE_NOTES, F_THREADING, F_MESSAGE_EDITS, F_REACTIONS, F_TYPING_INDICATOR]
        4000 1 100,
      profile ''matrix''
        [F_TEXT, F_MARKDOWN, F_HTML, F_IMAGES, F_AUDIO, F_VIDEO, F_FILES, F_VOICE_NOTES, F_THREADING, F_MESSAGE_EDITS, F_REACTIONS, F_TYPING_INDICATOR]
        65535 10 100,
      profile ''email''
        [F_TEXT, F_MARKDOWN, F_HTML, F_IMAGES, F_AUDIO, F_VIDEO, F_FILES, F_THREADING]
        1000000 (1/5) 25,
      profile ''whatsapp''
        [F_TEXT, F_MARKDOWN, F_IMAGES, F_AUDIO, F_VIDEO, F_FILES, F_VOICE_NOTES, F_REACTIONS, F_TYPING_INDICATOR]
        4096 10 16,
      profile ''feishu''
        [F_TEXT, F_MARKDOWN, F_IMAGES, F_AUDIO, F_VIDEO, F_FILES, F_VOICE_NOTES, F_THREADING, F_MESSAGE_EDITS, F_REACTIONS, F_TYPING_INDICATOR]
        10000 5 30,
      profile ''dingtalk''
        [F_TEXT, F_MARKDOWN, F_IMAGES, F_AUDIO, F_VIDEO, F_FILES, F_VOICE_NOTES]
        5000 20 20,
      profile ''mochat''
        [F_TEXT, F_MARKDOWN, F_IMAGES, F_AUDIO, F_VIDEO, F_FILES]
        2048 2 10,
      profile ''qq''
        [F_TEXT, F_IMAGES, F_AUDIO, F_FILES]
        1000 1 10,
      profile ''cli''
        [F_TEXT, F_MARKDOWN, F_MESSAGE_EDITS, F_TYPING_INDICATOR]
        100000 100 0
     ]"

definition channel_key :: "string \<Rightarrow> string" where
  "channel_key ch = strip (lower ch)"

definition get_channel_capability :: "catalog \<Rightarrow> string \<Rightarrow> channel_capability" where
  "get_channel_capability cat ch = dgetd cat (channel_key ch) (default_capability (channel_key ch))"

definition register_channel_capability :: "channel_capability \<Rightarrow> catalog \<Rightarrow> catalog" where
  "register_channel_capability c cat = dset (channel_key (cc_channel c)) c cat"

definition check_channel_support :: "catalog \<Rightarrow> string \<Rightarrow> feature \<Rightarrow> bool" where
  "check_channel_support cat ch f = supports f (get_channel_capability cat ch)"

section \<open>The rate limiter\<close>

record limiter =
  rl_buckets :: "(string, pyfloat \<times> timestamp) pydict"
  rl_until :: "(string, timestamp) pydict"









definition limiter_clear :: "limiter \<Rightarrow> limiter" where
  "limiter_clear s = \<lparr>rl_buckets = [], rl_until = []\<rparr>"


















section \<open>Reconnecting\<close>

datatype connection_state = CONNECTED | CONNECTING | BACKOFF | FAILED

record reconnect =
  rc_initial_delay :: pyfloat
  rc_max_delay :: pyfloat
  rc_multiplier :: pyfloat
  rc_jitter :: pyfloat
  rc_failures :: "(string, nat) pydict"
  rc_states :: "(string, connection_state) pydict"

definition new_reconnect :: "pyfloat \<Rightarrow> pyfloat \<Rightarrow> pyfloat \<Rightarrow> pyfloat \<Rightarrow> reconnect" where
  "new_reconnect i m k j = \<lparr>rc_initial_delay = i, rc_max_delay = m, rc_multiplier = k, rc_jitter = j,
     rc_failures = [], rc_states = []\<rparr>"

definition get_conn_state :: "string \<Rightarrow> reconnect \<Rightarrow> connection_state" where
  "get_conn_state ch r = dgetd (rc_states r) ch CONNECTED"

definition set_conn_state :: "string \<Rightarrow> connection_state \<Rightarrow> reconnect \<Rightarrow> reconnect" where
  "set_conn_state ch st r = r\<lparr>rc_states := dset ch st (rc_states r)\<rparr>"

definition base_delay :: "reconnect \<Rightarrow> nat \<Rightarrow> pyfloat" where
  "base_delay r failures =
     min (rc_max_delay r) (rc_initial_delay r * rc_multiplier r ^ (failures - 1))"

text \<open>\<open>record_failure\<close>; \<open>rnd\<close> is the number drawn by \<open>random.random()\<close>.\<close>

definition conn_record_failure :: "pyfloat \<Rightarrow> string \<Rightarrow> reconnect \<Rightarrow> pyfloat \<times> reconnect" where
  "conn_record_failure rnd ch r =
     (let failures = dgetd (rc_failures r) ch 0 + 1;
          base = base_delay r failures;
          jitter = base * rc_jitter r * (rnd * 2 - 1)
      in (max (1/10) (base + jitter),
          r\<lparr>rc_failures := dset ch failures (rc_failures r),
            rc_states := dset ch BACKOFF (rc_states r)\<rparr>))"

definition conn_record_success :: "string \<Rightarrow> reconnect \<Rightarrow> reconnect" where
  "conn_record_success ch r =
     r\<lparr>rc_failures := dset ch 0 (rc_failures r), rc_states := dset ch CONNECTED (rc_states r)\<rparr>"

definition should_retry :: "string \<Rightarrow> nat \<Rightarrow> reconnect \<Rightarrow> bool \<times> reconnect" where
  "should_retry ch max_retries r =
     (if dgetd (rc_failures r) ch 0 \<ge> max_retries
      then (False, r\<lparr>rc_states := dset ch FAILED (rc_states r)\<rparr>) else (True, r))"

definition reconnect_clear :: "reconnect \<Rightarrow> reconnect" where
  "reconnect_clear r = r\<lparr>rc_failures := [], rc_states := []\<rparr>"

fun conn_failures :: "string \<Rightarrow> pyfloat list \<Rightarrow> reconnect \<Rightarrow> reconnect" where
  "conn_failures ch [] r = r"
| "conn_failures ch (x # xs) r = conn_failures ch xs (snd (conn_record_failure x ch r))"

lemma conn_failures_state:
  "dgetd (rc_failures (conn_failures ch rnds r)) ch 0 = dgetd (rc_failures r) ch 0 + length rnds
   \<and> base_delay (conn_failures ch rnds r) = base_delay r
   \<and> rc_jitter (conn_failures ch rnds r) = rc_jitter r \<and> rc_max_delay (conn_failures ch rnds r) = rc_max_delay r"
proof (induction ch rnds r rule: conn_failures.induct)
  case (1 ch r)
  then show ?case by simp
next
  case (2 ch x xs r)
  let ?r = "snd (conn_record_failure x ch r)"
  have "dgetd (rc_failures ?r) ch 0 = Suc (dgetd (rc_failures r) ch 0)" "base_delay ?r = base_delay r"
    "rc_jitter ?r = rc_jitter r" "rc_max_delay ?r = rc_max_delay r"
    by (simp_all add: conn_record_failure_def Let_def base_delay_def fun_eq_iff)
  with 2 show ?case by simp
qed

lemma base_delay_mono:
  assumes "1 \<le> rc_multiplier r" and "0 \<le> rc_initial_delay r" and "m \<le> n"
  shows "base_delay r m \<le> base_delay r n"
  unfolding base_delay_def
  by (intro min.mono order_refl mult_left_mono power_increasing) (use assms in simp_all)

text \<open>
  Backoff after \<open>n + 1\<close> consecutive failures: the delay lies within the jitter ratio around the base
  delay, which never decreases from one failure to the next and never exceeds the maximum; it is at
  least a tenth of a second. One success resets it to the initial delay, and the number of failures that
  are retried is the given limit.
\<close>

theorem reconnect_backoff:
  fixes ch :: string and r :: reconnect and rnd :: pyfloat and rnds :: "pyfloat list"
  assumes "0 \<le> rnd" and "rnd < 1" and "0 \<le> rc_jitter r" and "0 \<le> rc_max_delay r"
    and "1 \<le> rc_multiplier r" and "0 \<le> rc_initial_delay r"
  defines "r0 \<equiv> conn_record_success ch r"
  defines "d \<equiv> (\<lambda>n. base_delay r0 (n + 1))"
  assumes "length rnds = n"
  defines "delay \<equiv> fst (conn_record_failure rnd ch (conn_failures ch rnds r0))"
  shows "1 / 10 \<le> delay \<and> delay \<le> max (1 / 10) (d n * (1 + rc_jitter r))
    \<and> d n * (1 - rc_jitter r) \<le> delay \<and> d n \<le> d (n + 1) \<and> d n \<le> rc_max_delay r
    \<and> d 0 = min (rc_max_delay r) (rc_initial_delay r)
    \<and> (fst (should_retry ch max_retries (conn_failures ch rnds r0)) \<longleftrightarrow> n < max_retries)"
proof -
  have r0: "dgetd (rc_failures r0) ch 0 = 0" "rc_jitter r0 = rc_jitter r" "rc_max_delay r0 = rc_max_delay r"
    "rc_multiplier r0 = rc_multiplier r" "rc_initial_delay r0 = rc_initial_delay r"
    by (simp_all add: r0_def conn_record_success_def)
  note st = conn_failures_state [of ch rnds r0]
  define j where "j = d n * rc_jitter r * (rnd * 2 - 1)"
  have delay: "delay = max (1 / 10) (d n + j)"
    using st r0 assms(9) by (simp add: delay_def conn_record_failure_def Let_def j_def d_def)
  have "0 \<le> rc_initial_delay r * rc_multiplier r ^ n" using assms(5,6) by simp
  then have dn: "0 \<le> d n" using assms(4) r0 by (simp add: d_def base_delay_def)
  have dj: "0 \<le> d n * rc_jitter r" using dn assms(3) by simp
  have "j \<le> d n * rc_jitter r * 1" unfolding j_def by (rule mult_left_mono) (use assms(2) dj in auto)
  moreover have "d n * rc_jitter r * (- 1) \<le> j" unfolding j_def by (rule mult_left_mono) (use assms(1) dj in auto)
  ultimately have j: "j \<le> d n * rc_jitter r" "- (d n * rc_jitter r) \<le> j" by simp_all
  have "d n + j \<le> d n * (1 + rc_jitter r)" "d n * (1 - rc_jitter r) \<le> d n + j"
    using j by (simp_all add: algebra_simps)
  then have "1 / 10 \<le> delay" "delay \<le> max (1 / 10) (d n * (1 + rc_jitter r))" "d n * (1 - rc_jitter r) \<le> delay"
    unfolding delay by (simp_all add: max.coboundedI1 max.coboundedI2)
  moreover have "d n \<le> d (n + 1)" unfolding d_def using assms(5,6) r0 by (intro base_delay_mono) simp_all
  moreover have "d n \<le> rc_max_delay r" "d 0 = min (rc_max_delay r) (rc_initial_delay r)"
    using r0 by (simp_all add: d_def base_delay_def)
  moreover have "fst (should_retry ch max_retries (conn_failures ch rnds r0)) \<longleftrightarrow> n < max_retries"
    using st r0 assms(9) by (auto simp: should_retry_def)
  ultimately show ?thesis by blast
qed

theorem reconnect_backoff_witness:
  "fst (conn_record_failure (1/2) ''c'' (conn_failures ''c'' [0, 0, 0]
     (conn_record_success ''c'' (new_reconnect 1 60 2 (1/5))))) \<le> max (1/10) (8 * (1 + 1/5))
   \<and> fst (conn_record_failure (1/2) ''c'' (conn_failures ''c'' [0, 0, 0]
     (conn_record_success ''c'' (new_reconnect 1 60 2 (1/5))))) = 8"
proof
  show eq: "fst (conn_record_failure (1/2) ''c'' (conn_failures ''c'' [0, 0, 0]
     (conn_record_success ''c'' (new_reconnect 1 60 2 (1/5))))) = 8" by code_simp
  have b: "base_delay (conn_record_success ''c'' (new_reconnect 1 60 2 (1/5))) (3 + 1) = 8"
    "rc_jitter (new_reconnect 1 60 2 (1/5)) = 1/5" by code_simp+
  show "fst (conn_record_failure (1/2) ''c'' (conn_failures ''c'' [0, 0, 0]
     (conn_record_success ''c'' (new_reconnect 1 60 2 (1/5))))) \<le> max (1/10) (8 * (1 + 1/5))"
    using reconnect_backoff [of "1/2" "new_reconnect 1 60 2 (1/5)" "[0, 0, 0]" 3 "''c''"]
    unfolding b by (simp add: new_reconnect_def)
qed

section \<open>Delivery metrics\<close>

record channel_metrics =
  mt_latencies :: "(string, pyfloat list) pydict"
  mt_sent :: "(string, nat) pydict"
  mt_failed :: "(string, nat) pydict"
  mt_inbound :: "(string, nat) pydict"
  mt_reconnects :: "(string, nat) pydict"

definition new_metrics :: channel_metrics where
  "new_metrics = \<lparr>mt_latencies = [], mt_sent = [], mt_failed = [], mt_inbound = [], mt_reconnects = []\<rparr>"

definition incr :: "string \<Rightarrow> (string, nat) pydict \<Rightarrow> (string, nat) pydict" where
  "incr k d = dset k (dgetd d k 0 + 1) d"

definition record_delivery :: "string \<Rightarrow> pyfloat \<Rightarrow> bool \<Rightarrow> channel_metrics \<Rightarrow> channel_metrics" where
  "record_delivery ch duration success m =
     (let ls = dgetd (mt_latencies m) ch [] @ [duration];
          ls = (if length ls > 1000 then slice_last 1000 ls else ls);
          m = m\<lparr>mt_latencies := dset ch ls (mt_latencies m)\<rparr>
      in if success then m\<lparr>mt_sent := incr ch (mt_sent m)\<rparr> else m\<lparr>mt_failed := incr ch (mt_failed m)\<rparr>)"

definition record_inbound :: "string \<Rightarrow> channel_metrics \<Rightarrow> channel_metrics" where
  "record_inbound ch m = m\<lparr>mt_inbound := incr ch (mt_inbound m)\<rparr>"

definition record_reconnect :: "string \<Rightarrow> channel_metrics \<Rightarrow> channel_metrics" where
  "record_reconnect ch m = m\<lparr>mt_reconnects := incr ch (mt_reconnects m)\<rparr>"

definition clamped_percentile :: "pyfloat list \<Rightarrow> pyfloat \<Rightarrow> pyfloat" where
  "clamped_percentile data p =
     (if data = [] then 0 else data ! (min (nat (py_int (of_nat (length data) * p))) (length data - 1)))"

record channel_stats =
  cs_sent :: nat
  cs_failed :: nat
  cs_received :: nat
  cs_success_rate :: pyfloat
  cs_reconnects :: nat
  cs_p50 :: pyfloat
  cs_p95 :: pyfloat
  cs_p99 :: pyfloat

definition get_stats :: "string \<Rightarrow> channel_metrics \<Rightarrow> channel_stats" where
  "get_stats ch m =
     (let lats = sort (dgetd (mt_latencies m) ch []);
          sent = dgetd (mt_sent m) ch 0;
          failed = dgetd (mt_failed m) ch 0;
          rate = (if sent + failed > 0 then of_nat sent / of_nat (sent + failed) else 1)
      in \<lparr>cs_sent = sent, cs_failed = failed, cs_received = dgetd (mt_inbound m) ch 0,
          cs_success_rate = py_round 4 rate, cs_reconnects = dgetd (mt_reconnects m) ch 0,
          cs_p50 = py_round 2 (clamped_percentile lats (1/2)),
          cs_p95 = py_round 2 (clamped_percentile lats (95/100)),
          cs_p99 = py_round 2 (clamped_percentile lats (99/100))\<rparr>)"

datatype metrics_event = Delivery string pyfloat bool | Inbound string | Reconnected string

fun metrics_step :: "metrics_event \<Rightarrow> channel_metrics \<Rightarrow> channel_metrics" where
  "metrics_step (Delivery ch d ok) m = record_delivery ch d ok m"
| "metrics_step (Inbound ch) m = record_inbound ch m"
| "metrics_step (Reconnected ch) m = record_reconnect ch m"

definition metrics_inv :: "channel_metrics \<Rightarrow> bool" where
  "metrics_inv m \<longleftrightarrow> (\<forall>ch. length (dgetd (mt_latencies m) ch []) =
     min 1000 (dgetd (mt_sent m) ch 0 + dgetd (mt_failed m) ch 0))"

lemma metrics_step_inv: "metrics_inv m \<Longrightarrow> metrics_inv (metrics_step e m)"
  by (cases e)
     (auto simp: metrics_inv_def record_delivery_def record_inbound_def record_reconnect_def incr_def
        slice_last_def Let_def)

interpretation metrics: machine metrics_step metrics_inv
  by unfold_locales (rule metrics_step_inv)

lemma metrics_window: "length (dgetd (mt_latencies (fold metrics_step es new_metrics)) ch []) \<le> 1000"
proof -
  have "metrics_inv new_metrics" by (simp add: metrics_inv_def new_metrics_def)
  then have "metrics_inv (fold metrics_step es new_metrics)" by (rule metrics.run_inv)
  then show ?thesis by (simp add: metrics_inv_def)
qed

end
