(* ===== verification/Message_Bus.thy ===== *)
theory Message_Bus
  imports Amber_Prelude
begin

text \<open>
  \<open>bus/events.py\<close> and \<open>bus/queue.py\<close>, the bounded queues between channels and agent with their dead
  letter queue and the optional Redis transport, and \<open>core/events.py\<close>, the pattern-matching event bus.
  The Redis client is a parameter: publishing on a channel changes the client's state and succeeds or
  raises. Taking from an empty queue waits, which is \<open>None\<close>.
\<close>

section \<open>Messages\<close>

record inbound_message =
  im_channel :: string
  im_sender :: string
  im_chat :: string
  im_content :: string
  im_timestamp :: timestamp
  im_media :: "string list"
  im_metadata :: "(string, json) pydict"
  im_session_override :: "string option"

definition session_key :: "inbound_message \<Rightarrow> string" where
  "session_key m =
     (case im_session_override m of
        None \<Rightarrow> im_channel m @ '':'' @ im_chat m
      | Some k \<Rightarrow> if k = [] then im_channel m @ '':'' @ im_chat m else k)"

record outbound_message =
  om_channel :: string
  om_chat :: string
  om_content :: string
  om_reply_to :: "string option"
  om_media :: "string list"
  om_metadata :: "(string, json) pydict"

record system_event =
  sy_type :: string
  sy_severity :: string
  sy_message :: string
  sy_details :: "(string, json) pydict"
  sy_timestamp :: timestamp

datatype bus_item = InboundItem inbound_message | OutboundItem outbound_message | SystemItem system_event

section \<open>The bus\<close>

record 'r bus_redis =
  br_publish :: "string \<Rightarrow> bus_item \<Rightarrow> 'r \<Rightarrow> bool \<times> 'r"

record dead_letter =
  dl_item :: bus_item
  dl_reason :: string

record 'r message_bus =
  mb_maxsize :: int
  mb_inbound :: "inbound_message list"
  mb_outbound :: "outbound_message list"
  mb_system :: "system_event list"
  mb_dlq :: "dead_letter list"
  mb_redis :: "'r option"

definition new_bus :: "int \<Rightarrow> 'r option \<Rightarrow> 'r message_bus" where
  "new_bus n r = \<lparr>mb_maxsize = n, mb_inbound = [], mb_outbound = [], mb_system = [], mb_dlq = [], mb_redis = r\<rparr>"

text \<open>\<open>asyncio.Queue.full\<close>: a size of zero or less is no bound.\<close>

definition queue_full :: "int \<Rightarrow> 'a list \<Rightarrow> bool" where
  "queue_full n q = (n > 0 \<and> int (length q) \<ge> n)"

text \<open>What became of a published message.\<close>

datatype outcome = ToRedis | Queued | DeadLettered | Dropped

definition push_to_dlq :: "bus_item \<Rightarrow> string \<Rightarrow> 'r message_bus \<Rightarrow> outcome \<times> 'r message_bus" where
  "push_to_dlq x reason b =
     (if queue_full (mb_maxsize b) (mb_dlq b) then (Dropped, b)
      else (DeadLettered, b\<lparr>mb_dlq := mb_dlq b @ [\<lparr>dl_item = x, dl_reason = reason\<rparr>]\<rparr>))"

text \<open>Redis first, when there is a client; \<open>None\<close> means that the message goes to the local queue.\<close>

definition try_redis :: "'r bus_redis \<Rightarrow> string \<Rightarrow> bus_item \<Rightarrow> 'r message_bus \<Rightarrow> bool \<times> 'r message_bus" where
  "try_redis api ch x b =
     (case mb_redis b of
        None \<Rightarrow> (False, b)
      | Some r \<Rightarrow> (let (ok, r') = br_publish api ch x r in (ok, b\<lparr>mb_redis := Some r'\<rparr>)))"

definition publish_inbound :: "'r bus_redis \<Rightarrow> inbound_message \<Rightarrow> 'r message_bus \<Rightarrow> outcome \<times> 'r message_bus" where
  "publish_inbound api m b =
     (let (ok, b) = try_redis api ''amberclaw_inbound'' (InboundItem m) b
      in if ok then (ToRedis, b)
         else if queue_full (mb_maxsize b) (mb_inbound b)
         then push_to_dlq (InboundItem m) ''inbound_queue_full'' b
         else (Queued, b\<lparr>mb_inbound := mb_inbound b @ [m]\<rparr>))"

definition publish_outbound :: "'r bus_redis \<Rightarrow> outbound_message \<Rightarrow> 'r message_bus \<Rightarrow> outcome \<times> 'r message_bus" where
  "publish_outbound api m b =
     (let (ok, b) = try_redis api ''amberclaw_outbound'' (OutboundItem m) b
      in if ok then (ToRedis, b)
         else if queue_full (mb_maxsize b) (mb_outbound b)
         then push_to_dlq (OutboundItem m) ''outbound_queue_full'' b
         else (Queued, b\<lparr>mb_outbound := mb_outbound b @ [m]\<rparr>))"

definition publish_system_event :: "'r bus_redis \<Rightarrow> system_event \<Rightarrow> 'r message_bus \<Rightarrow> outcome \<times> 'r message_bus" where
  "publish_system_event api m b =
     (let (ok, b) = try_redis api ''amberclaw_system_events'' (SystemItem m) b
      in if ok then (ToRedis, b)
         else if queue_full (mb_maxsize b) (mb_system b)
         then push_to_dlq (SystemItem m) ''system_events_queue_full'' b
         else (Queued, b\<lparr>mb_system := mb_system b @ [m]\<rparr>))"

definition consume_inbound :: "'r message_bus \<Rightarrow> (inbound_message \<times> 'r message_bus) option" where
  "consume_inbound b =
     (case mb_inbound b of [] \<Rightarrow> None | m # ms \<Rightarrow> Some (m, b\<lparr>mb_inbound := ms\<rparr>))"

definition consume_outbound :: "'r message_bus \<Rightarrow> (outbound_message \<times> 'r message_bus) option" where
  "consume_outbound b =
     (case mb_outbound b of [] \<Rightarrow> None | m # ms \<Rightarrow> Some (m, b\<lparr>mb_outbound := ms\<rparr>))"

definition consume_system_event :: "'r message_bus \<Rightarrow> (system_event \<times> 'r message_bus) option" where
  "consume_system_event b =
     (case mb_system b of [] \<Rightarrow> None | m # ms \<Rightarrow> Some (m, b\<lparr>mb_system := ms\<rparr>))"

definition consume_dead_letter_queue :: "'r message_bus \<Rightarrow> (dead_letter \<times> 'r message_bus) option" where
  "consume_dead_letter_queue b =
     (case mb_dlq b of [] \<Rightarrow> None | m # ms \<Rightarrow> Some (m, b\<lparr>mb_dlq := ms\<rparr>))"

definition publish :: "'r bus_redis \<Rightarrow> bus_item \<Rightarrow> 'r message_bus \<Rightarrow> outcome \<times> 'r message_bus" where
  "publish api x b =
     (case x of InboundItem m \<Rightarrow> publish_inbound api m b
      | OutboundItem m \<Rightarrow> publish_outbound api m b
      | SystemItem m \<Rightarrow> publish_system_event api m b)"

text \<open>The Redis listener hands a message received on a channel to the bus by publishing it.\<close>

definition listener_receive :: "'r bus_redis \<Rightarrow> bus_item \<Rightarrow> 'r message_bus \<Rightarrow> outcome \<times> 'r message_bus" where
  "listener_receive api x b = publish api x b"

section \<open>Runs without Redis: nothing is lost\<close>

datatype bus_event = Publish bus_item | TakeInbound | TakeOutbound | TakeSystem | TakeDead

text \<open>The messages of a run, by where they went and by who took them out again.\<close>

record bus_trace =
  bt_published :: "bus_item list"
  bt_taken :: "bus_item list"
  bt_dead_taken :: "bus_item list"
  bt_dropped :: "bus_item list"

definition empty_trace :: bus_trace where
  "empty_trace = \<lparr>bt_published = [], bt_taken = [], bt_dead_taken = [], bt_dropped = []\<rparr>"

fun bus_step :: "'r bus_redis \<Rightarrow> bus_event \<Rightarrow> 'r message_bus \<times> bus_trace \<Rightarrow> 'r message_bus \<times> bus_trace" where
  "bus_step api (Publish x) (b, t) =
     (let (o', b') = publish api x b;
          t = t\<lparr>bt_published := bt_published t @ [x]\<rparr>
      in (b', if o' = Dropped then t\<lparr>bt_dropped := bt_dropped t @ [x]\<rparr> else t))"
| "bus_step api TakeInbound (b, t) =
     (case consume_inbound b of None \<Rightarrow> (b, t)
      | Some (m, b') \<Rightarrow> (b', t\<lparr>bt_taken := bt_taken t @ [InboundItem m]\<rparr>))"
| "bus_step api TakeOutbound (b, t) =
     (case consume_outbound b of None \<Rightarrow> (b, t)
      | Some (m, b') \<Rightarrow> (b', t\<lparr>bt_taken := bt_taken t @ [OutboundItem m]\<rparr>))"
| "bus_step api TakeSystem (b, t) =
     (case consume_system_event b of None \<Rightarrow> (b, t)
      | Some (m, b') \<Rightarrow> (b', t\<lparr>bt_taken := bt_taken t @ [SystemItem m]\<rparr>))"
| "bus_step api TakeDead (b, t) =
     (case consume_dead_letter_queue b of None \<Rightarrow> (b, t)
      | Some (m, b') \<Rightarrow> (b', t\<lparr>bt_dead_taken := bt_dead_taken t @ [dl_item m]\<rparr>))"

definition in_queues :: "'r message_bus \<Rightarrow> bus_item multiset" where
  "in_queues b = image_mset InboundItem (mset (mb_inbound b)) + image_mset OutboundItem (mset (mb_outbound b))
     + image_mset SystemItem (mset (mb_system b))"

definition queues_bounded :: "'r message_bus \<Rightarrow> bool" where
  "queues_bounded b \<longleftrightarrow> (mb_maxsize b > 0 \<longrightarrow> int (length (mb_inbound b)) \<le> mb_maxsize b
     \<and> int (length (mb_outbound b)) \<le> mb_maxsize b \<and> int (length (mb_system b)) \<le> mb_maxsize b
     \<and> int (length (mb_dlq b)) \<le> mb_maxsize b)"

text \<open>
  Every message published is in a local queue, was taken, is in or was taken from the dead letter queue,
  or was dropped; local queues respect the bound.
\<close>

definition bus_inv :: "'r message_bus \<times> bus_trace \<Rightarrow> bool" where
  "bus_inv bt \<longleftrightarrow> (case bt of (b, t) \<Rightarrow>
     mb_redis b = None \<and> queues_bounded b
     \<and> mset (bt_published t) = in_queues b + mset (bt_taken t) + mset (map dl_item (mb_dlq b))
         + mset (bt_dead_taken t) + mset (bt_dropped t))"

lemma try_redis_local [simp]: "mb_redis b = None \<Longrightarrow> try_redis api ch x b = (False, b)"
  by (simp add: try_redis_def)

lemma publish_local:
  assumes "mb_redis b = None" and "queues_bounded b" and "publish api x b = (o', b')"
  shows "mb_redis b' = None \<and> mb_maxsize b' = mb_maxsize b \<and> queues_bounded b'
    \<and> add_mset x (in_queues b + mset (map dl_item (mb_dlq b)))
       = in_queues b' + mset (map dl_item (mb_dlq b')) + (if o' = Dropped then {#x#} else {#})
    \<and> (o' = Dropped \<longrightarrow> b' = b \<and> queue_full (mb_maxsize b) (mb_dlq b))"
  using assms
  by (cases x)
     (auto simp: publish_def publish_inbound_def publish_outbound_def publish_system_event_def push_to_dlq_def
        in_queues_def queues_bounded_def queue_full_def split: if_splits)

lemma bus_step_inv:
  assumes "bus_inv bt"
  shows "bus_inv (bus_step api e bt)"
proof -
  obtain b t where bt: "bt = (b, t)" by (cases bt)
  show ?thesis
  proof (cases e)
    case (Publish x)
    obtain o' b' where p: "publish api x b = (o', b')" by fastforce
    from publish_local [OF _ _ p] assms show ?thesis
      by (auto simp: bt Publish p bus_inv_def split: if_splits)
  next
    case TakeInbound
    with assms show ?thesis
      by (auto simp: bt bus_inv_def consume_inbound_def in_queues_def queues_bounded_def split: list.splits)
  next
    case TakeOutbound
    with assms show ?thesis
      by (auto simp: bt bus_inv_def consume_outbound_def in_queues_def queues_bounded_def split: list.splits)
  next
    case TakeSystem
    with assms show ?thesis
      by (auto simp: bt bus_inv_def consume_system_event_def in_queues_def queues_bounded_def split: list.splits)
  next
    case TakeDead
    with assms show ?thesis
      by (auto simp: bt bus_inv_def consume_dead_letter_queue_def in_queues_def queues_bounded_def split: list.splits)
  qed
qed

interpretation bus_run: machine "bus_step api" bus_inv for api
  by unfold_locales (rule bus_step_inv)

text \<open>
  C29. Conservation on a bus without Redis: after any sequence of publications and takes, every message
  published is accounted for exactly once, waiting in its queue, taken from it, waiting in or taken from
  the dead letter queue, or dropped; no queue ever exceeds its bound, and a message is dropped only
  while the dead letter queue is full.
\<close>

theorem bus_conservation:
  fixes api :: "'r bus_redis" and es :: "bus_event list" and n :: int
  defines "r \<equiv> fold (bus_step api) es (new_bus n None, empty_trace)"
  shows "mset (bt_published (snd r)) = in_queues (fst r) + mset (bt_taken (snd r))
       + mset (map dl_item (mb_dlq (fst r))) + mset (bt_dead_taken (snd r)) + mset (bt_dropped (snd r))
    \<and> queues_bounded (fst r)
    \<and> (fst (publish api x (fst r)) = Dropped \<longrightarrow> queue_full (mb_maxsize (fst r)) (mb_dlq (fst r)))"
proof -
  have "bus_inv (new_bus n None, empty_trace)"
    by (simp add: bus_inv_def new_bus_def empty_trace_def in_queues_def queues_bounded_def)
  then have inv: "bus_inv r" unfolding r_def by (rule bus_run.run_inv)
  obtain o' b' where p: "publish api x (fst r) = (o', b')" by fastforce
  from inv have "mb_redis (fst r) = None" "queues_bounded (fst r)" by (auto simp: bus_inv_def)
  from publish_local [OF this p] inv p show ?thesis by (auto simp: bus_inv_def)
qed

definition sample_message :: inbound_message where
  "sample_message = \<lparr>im_channel = ''telegram'', im_sender = ''u'', im_chat = ''1'', im_content = ''hi'',
     im_timestamp = 0, im_media = [], im_metadata = [], im_session_override = None\<rparr>"

definition local_api :: "unit bus_redis" where
  "local_api = \<lparr>br_publish = (\<lambda>ch x r. (True, r))\<rparr>"

theorem bus_conservation_witness:
  "fst (publish local_api (InboundItem sample_message)
     (fst (fold (bus_step local_api) (replicate 2 (Publish (InboundItem sample_message)))
        (new_bus 1 None, empty_trace)))) = Dropped
   \<and> queue_full 1 (mb_dlq (fst (fold (bus_step local_api) (replicate 2 (Publish (InboundItem sample_message)))
        (new_bus 1 None, empty_trace))))"
proof -
  let ?r = "fst (fold (bus_step local_api) (replicate 2 (Publish (InboundItem sample_message))) (new_bus 1 None, empty_trace))"
  have d: "fst (publish local_api (InboundItem sample_message) ?r) = Dropped" "mb_maxsize ?r = 1"
    by code_simp+
  then show ?thesis
    using bus_conservation [where es = "replicate 2 (Publish (InboundItem sample_message))" and n = 1
        and api = local_api and x = "InboundItem sample_message"] by simp
qed

section \<open>Runs with Redis\<close>

text \<open>
  With a Redis client that accepts every publication, no message ever reaches a local queue: publishing
  sends it to Redis, and the listener that gets it back publishes it to Redis again; whatever was in the
  queues when the client appeared is all that consumers can take.
\<close>

theorem bus_redis_bypasses_queues:
  fixes api :: "'r bus_redis" and b :: "'r message_bus" and items :: "(bool \<times> bus_item) list"
  assumes "\<forall>ch x r. fst (br_publish api ch x r)" and "mb_redis b = Some r"
  defines "b' \<equiv> fold (\<lambda>(from_listener, x) b.
      snd (if from_listener then listener_receive api x b else publish api x b)) items b"
  shows "mb_inbound b' = mb_inbound b \<and> mb_outbound b' = mb_outbound b \<and> mb_system b' = mb_system b
    \<and> mb_dlq b' = mb_dlq b \<and> mb_redis b' \<noteq> None"
proof -
  have one: "mb_inbound (snd (publish api x b)) = mb_inbound b \<and> mb_outbound (snd (publish api x b)) = mb_outbound b
      \<and> mb_system (snd (publish api x b)) = mb_system b \<and> mb_dlq (snd (publish api x b)) = mb_dlq b
      \<and> mb_redis (snd (publish api x b)) \<noteq> None" if "mb_redis b \<noteq> None" for x b
  proof -
    from that obtain r where r: "mb_redis b = Some r" by blast
    have ok: "fst (br_publish api ch y r)" for ch y using assms(1) by blast
    show ?thesis
      by (cases x)
         (use r ok in \<open>auto simp: publish_def publish_inbound_def publish_outbound_def
            publish_system_event_def try_redis_def Let_def split: prod.splits, (metis fst_conv)+\<close>)
  qed
  have "mb_redis b \<noteq> None \<Longrightarrow> (let b' = fold (\<lambda>(from_listener, x) b.
      snd (if from_listener then listener_receive api x b else publish api x b)) items b
    in mb_inbound b' = mb_inbound b \<and> mb_outbound b' = mb_outbound b \<and> mb_system b' = mb_system b
      \<and> mb_dlq b' = mb_dlq b \<and> mb_redis b' \<noteq> None)" for b
  proof (induction items arbitrary: b)
    case Nil
    then show ?case by simp
  next
    case (Cons i items)
    have "(case i of (from_listener, x) \<Rightarrow> \<lambda>b. snd (if from_listener then listener_receive api x b
        else publish api x b)) b = snd (publish api (snd i) b)"
      by (cases i) (simp add: listener_receive_def)
    with Cons.IH [of "snd (publish api (snd i) b)"] one [OF Cons.prems, of "snd i"] show ?case
      by (simp add: Let_def)
  qed
  then show ?thesis using assms(2) unfolding b'_def Let_def by simp
qed

theorem bus_redis_bypasses_queues_witness:
  "mb_inbound (snd (listener_receive local_api (InboundItem sample_message) (new_bus 10 (Some ())))) = []"
  using bus_redis_bypasses_queues [of local_api "new_bus 10 (Some ())" "()" "[(True, InboundItem sample_message)]"]
  by (simp add: local_api_def new_bus_def)

section \<open>The domain event bus\<close>

text \<open>Handlers are named; \<open>emit\<close> gives the handlers it invokes, in order.\<close>

type_synonym listeners = "(string, string list) pydict"

definition subscribe :: "string \<Rightarrow> string \<Rightarrow> listeners \<Rightarrow> listeners" where
  "subscribe pat cb ls = dset pat (dgetd ls pat [] @ [cb]) ls"

definition unsubscribe :: "string \<Rightarrow> string \<Rightarrow> listeners \<Rightarrow> bool \<times> listeners" where
  "unsubscribe pat cb ls =
     (case dget ls pat of
        None \<Rightarrow> (False, ls)
      | Some cs \<Rightarrow> if cb \<in> set cs then (True, dset pat (remove1 cb cs) ls) else (False, ls))"

definition pattern_matches :: "string \<Rightarrow> string \<Rightarrow> bool" where
  "pattern_matches pat name =
     (pat = ''*'' \<or> pat = name \<or> endswith pat ''.*'' \<and> startswith name (take (length pat - 2) pat))"

definition emit :: "string \<Rightarrow> listeners \<Rightarrow> string list" where
  "emit name ls = concat (map snd (filter (\<lambda>(pat, _). pattern_matches pat name) ls))"

text \<open>
  An emitted event reaches exactly the handlers of the matching patterns, and no other; a wildcard pattern \<open>p.*\<close> matches every name that begins with \<open>p\<close>, so also names outside
  the namespace such as \<open>agentx.created\<close> for \<open>agent.*\<close>.
\<close>

theorem emit_exact:
  "(cb \<in> set (emit name ls) \<longleftrightarrow> (\<exists>(pat, cbs) \<in> set ls. pattern_matches pat name \<and> cb \<in> set cbs))
   \<and> pattern_matches (p @ ''.*'') (p @ rest)
   \<and> emit ''agentx.created'' (subscribe ''agent.*'' h []) = [h]"
proof (intro conjI)
  show "cb \<in> set (emit name ls) \<longleftrightarrow> (\<exists>(pat, cbs) \<in> set ls. pattern_matches pat name \<and> cb \<in> set cbs)"
    by (auto simp: emit_def)
  show "pattern_matches (p @ ''.*'') (p @ rest)"
    by (simp add: pattern_matches_def endswith_def startswith_def)
  show "emit ''agentx.created'' (subscribe ''agent.*'' h []) = [h]"
    by (simp add: emit_def subscribe_def pattern_matches_def endswith_def startswith_def)
qed

end
