(* ===== verification/Kernel_Supervisor.thy ===== *)
theory Kernel_Supervisor
  imports Message_Bus
begin

text \<open>
  \<open>core/kernel.py\<close>: the supervisor that starts and stops services, restarts the ones that crash within
  a restart budget, turns system events into alerts for the agent, and publishes diagnostics. A service
  is its task, running or done; what a finished task raised, what the workspace, the environment and the
  memory look like, and the time are arguments. Each definition is one pass of the loop it models, under
  the supervisor's lock.
\<close>

section \<open>Services\<close>

text \<open>A finished task, with the \<open>repr\<close> and \<open>str\<close> of its exception unless it ended or was cancelled.\<close>

datatype service_task = TaskRunning | TaskDone "(string \<times> string) option"

datatype service_status = SVC_STOPPED | SVC_RUNNING | SVC_FAILED

record service =
  sv_name :: string
  sv_task :: "service_task option"
  sv_status :: service_status
  sv_restarts :: nat
  sv_last_restart :: timestamp

record 'r supervisor =
  su_services :: "(string, service) pydict"
  su_running :: bool
  su_bus :: "'r message_bus"

definition register_service :: "string \<Rightarrow> 'r supervisor \<Rightarrow> 'r supervisor" where
  "register_service n s =
     s\<lparr>su_services := dset n \<lparr>sv_name = n, sv_task = None, sv_status = SVC_STOPPED, sv_restarts = 0,
                              sv_last_restart = 0\<rparr> (su_services s)\<rparr>"

definition start_service_locked :: "service \<Rightarrow> service" where
  "start_service_locked v =
     (if sv_status v = SVC_RUNNING then v
      else v\<lparr>sv_status := SVC_RUNNING, sv_task := Some TaskRunning\<rparr>)"

definition stop_service_locked :: "service \<Rightarrow> service" where
  "stop_service_locked v = v\<lparr>sv_status := SVC_STOPPED, sv_task := None\<rparr>"

definition map_services :: "(service \<Rightarrow> service) \<Rightarrow> 'r supervisor \<Rightarrow> 'r supervisor" where
  "map_services f s = s\<lparr>su_services := map (\<lambda>(n, v). (n, f v)) (su_services s)\<rparr>"

definition supervisor_start :: "'r supervisor \<Rightarrow> 'r supervisor" where
  "supervisor_start s =
     (if su_running s then s else map_services start_service_locked (s\<lparr>su_running := True\<rparr>))"

definition supervisor_stop :: "'r supervisor \<Rightarrow> 'r supervisor" where
  "supervisor_stop s =
     (if \<not> su_running s then s else map_services stop_service_locked (s\<lparr>su_running := False\<rparr>))"

datatype supervisor_error = NotRegistered string

definition restart_service :: "string \<Rightarrow> 'r supervisor \<Rightarrow> supervisor_error + 'r supervisor" where
  "restart_service n s =
     (case dget (su_services s) n of
        None \<Rightarrow> Inl (NotRegistered n)
      | Some v \<Rightarrow> Inr (s\<lparr>su_services := dset n (start_service_locked (stop_service_locked v)) (su_services s)\<rparr>))"

section \<open>Crash detection and recovery\<close>

definition crashed :: "service \<Rightarrow> bool" where
  "crashed v = (sv_status v = SVC_RUNNING \<and> sv_task v \<noteq> Some TaskRunning)"

definition task_exception :: "service \<Rightarrow> (string \<times> string) option" where
  "task_exception v = (case sv_task v of Some (TaskDone e) \<Rightarrow> e | _ \<Rightarrow> None)"

definition quoted :: "string \<Rightarrow> string" where
  "quoted s = [CHR 0x27] @ s @ [CHR 0x27]"

definition failure_event :: "timestamp \<Rightarrow> string \<Rightarrow> service \<Rightarrow> system_event" where
  "failure_event now n v =
     \<lparr>sy_type = ''service_failure'', sy_severity = ''critical'',
      sy_message = (case task_exception v of
          Some (r, _) \<Rightarrow> ''Service '' @ quoted n @ '' crashed with: '' @ r
        | None \<Rightarrow> ''Service '' @ quoted n @ '' stopped unexpectedly.''),
      sy_details = [(''service'', JStr n),
        (''error'', case task_exception v of Some (_, e) \<Rightarrow> JStr e | None \<Rightarrow> JNull)],
      sy_timestamp = now\<rparr>"

definition max_restarts :: nat where
  "max_restarts = 5"

definition cooldown_period :: pyfloat where
  "cooldown_period = 60"

text \<open>The recovery of a crashed service.\<close>

definition recover :: "timestamp \<Rightarrow> service \<Rightarrow> service" where
  "recover now v =
     (let v = v\<lparr>sv_status := SVC_FAILED\<rparr>;
          v = (if now - sv_last_restart v > cooldown_period then v\<lparr>sv_restarts := 0\<rparr> else v)
      in if sv_restarts v < max_restarts
         then start_service_locked (v\<lparr>sv_restarts := sv_restarts v + 1, sv_last_restart := now\<rparr>)
         else v)"

text \<open>One pass of \<open>_supervisor_loop\<close> over the services, in order.\<close>

fun supervise ::
  "'r bus_redis \<Rightarrow> timestamp \<Rightarrow> (string \<times> service) list \<Rightarrow> 'r message_bus
     \<Rightarrow> (string \<times> service) list \<times> 'r message_bus" where
  "supervise api now [] b = ([], b)"
| "supervise api now ((n, v) # vs) b =
     (if crashed v then
        (let b = snd (publish_system_event api (failure_event now n v) b);
             (vs, b) = supervise api now vs b
         in ((n, recover now v) # vs, b))
      else (let (vs, b) = supervise api now vs b in ((n, v) # vs, b)))"

definition supervisor_pass :: "'r bus_redis \<Rightarrow> timestamp \<Rightarrow> 'r supervisor \<Rightarrow> 'r supervisor" where
  "supervisor_pass api now s =
     (if \<not> su_running s then s
      else let (vs, b) = supervise api now (su_services s) (su_bus s)
           in s\<lparr>su_services := vs, su_bus := b\<rparr>)"

section \<open>Alerts and diagnostics\<close>

definition newline :: string where
  "newline = [CHR 0x0A]"

definition alert_message :: "timestamp \<Rightarrow> system_event \<Rightarrow> inbound_message" where
  "alert_message now e =
     \<lparr>im_channel = ''system'', im_sender = ''supervisor'', im_chat = ''system'',
      im_content = ''[SYSTEM ALERT] Type: '' @ sy_type e @ newline @ ''Severity: '' @ sy_severity e
        @ newline @ ''Message: '' @ sy_message e,
      im_timestamp = now, im_media = [], im_metadata = [(''system_event_type'', JStr (sy_type e))],
      im_session_override = None\<rparr>"

text \<open>One pass of \<open>_event_listener_loop\<close>; an empty queue leaves it waiting.\<close>

definition listener_pass :: "'r bus_redis \<Rightarrow> timestamp \<Rightarrow> 'r message_bus \<Rightarrow> 'r message_bus" where
  "listener_pass api now b =
     (case consume_system_event b of
        None \<Rightarrow> b
      | Some (e, b) \<Rightarrow>
          if sy_severity e = ''warning'' \<or> sy_severity e = ''critical''
          then snd (publish_inbound api (alert_message now e) b) else b)"

datatype workspace_state = WsMissing | WsReadOnly string | WsOk

definition simple_event :: "timestamp \<Rightarrow> string \<Rightarrow> string \<Rightarrow> string \<Rightarrow> system_event" where
  "simple_event now ty sev msg =
     \<lparr>sy_type = ty, sy_severity = sev, sy_message = msg, sy_details = [], sy_timestamp = now\<rparr>"

definition api_key_variables :: "string list" where
  "api_key_variables = [''OPENAI_API_KEY'', ''ANTHROPIC_API_KEY'', ''GEMINI_API_KEY'', ''GOOGLE_API_KEY'',
     ''DEEPSEEK_API_KEY'', ''GROQ_API_KEY'']"

definition provider_names :: "string list" where
  "provider_names = [''openai'', ''anthropic'', ''gemini'', ''google'', ''deepseek'', ''groq'']"

text \<open>A key counts when it is set and not empty, in the environment or in the configuration.\<close>

definition has_key :: "(string, string) pydict \<Rightarrow> string \<Rightarrow> bool" where
  "has_key d k = (dgetd d k [] \<noteq> [])"

definition diagnostics ::
  "timestamp \<Rightarrow> string \<Rightarrow> workspace_state \<Rightarrow> (string, string) pydict \<Rightarrow> (string, string) pydict option
     \<Rightarrow> system_event list" where
  "diagnostics now path ws env config =
     (case ws of
        WsMissing \<Rightarrow> [simple_event now ''workspace_invalid'' ''critical'' (''Workspace path does not exist: '' @ path)]
      | WsReadOnly e \<Rightarrow> [simple_event now ''workspace_invalid'' ''critical'' (''Workspace path is not writeable: '' @ e)]
      | WsOk \<Rightarrow> [])
     @ (if list_ex (has_key env) api_key_variables then []
        else if (case config of None \<Rightarrow> False | Some c \<Rightarrow> list_ex (has_key c) provider_names) then []
        else [simple_event now ''api_key_missing'' ''warning''
                ''No LLM API keys found in environment or config. Requests will fail.''])"

text \<open>One pass of \<open>_health_monitor_loop\<close>; \<open>fmt\<close> renders the memory percentage.\<close>

definition health_pass ::
  "(pyfloat \<Rightarrow> string) \<Rightarrow> timestamp \<Rightarrow> string \<Rightarrow> workspace_state \<Rightarrow> (string, string) pydict
     \<Rightarrow> (string, string) pydict option \<Rightarrow> pyfloat \<Rightarrow> pyfloat \<Rightarrow> system_event list" where
  "health_pass fmt now path ws env config percent available_mb =
     diagnostics now path ws env config
     @ (if percent > 90 then
          [(simple_event now ''low_memory'' ''warning''
              (''System memory usage is extremely high ('' @ fmt percent @ ''%).''))
             \<lparr>sy_details := [(''percent'', JFloat percent), (''available_mb'', JFloat available_mb)]\<rparr>]
        else [])"

section \<open>The restart budget\<close>

text \<open>What happens to one service: its task ends, the supervisor looks at it, an operator restarts it.\<close>

datatype service_event = TaskEnds "(string \<times> string) option" | Look timestamp | Manual

fun service_step :: "service_event \<Rightarrow> service \<times> timestamp list \<Rightarrow> service \<times> timestamp list" where
  "service_step (TaskEnds e) (v, rs) =
     (if sv_task v = Some TaskRunning then (v\<lparr>sv_task := Some (TaskDone e)\<rparr>, rs) else (v, rs))"
| "service_step (Look now) (v, rs) =
     (if crashed v then
        (let v' = recover now v in (v', if sv_status v' = SVC_RUNNING then rs @ [now] else rs))
      else (v, rs))"
| "service_step Manual (v, rs) = (start_service_locked (stop_service_locked v), rs)"

text \<open>The length of the last burst: restarts each at most a cool-down after the one before.\<close>

fun burst_rev :: "timestamp list \<Rightarrow> nat" where
  "burst_rev [] = 0"
| "burst_rev [t] = 1"
| "burst_rev (t # u # ts) = (if t - u > cooldown_period then 1 else Suc (burst_rev (u # ts)))"

definition burst :: "timestamp list \<Rightarrow> nat" where
  "burst rs = burst_rev (rev rs)"

lemma burst_snoc:
  "burst (rs @ [t]) = (if rs = [] then 1 else if t - last rs > cooldown_period then 1 else Suc (burst rs))"
  by (cases rs rule: rev_cases) (simp_all add: burst_def)

definition budget_inv :: "service \<times> timestamp list \<Rightarrow> bool" where
  "budget_inv vr \<longleftrightarrow> (case vr of (v, rs) \<Rightarrow>
     burst rs \<le> sv_restarts v \<and> sv_restarts v \<le> max_restarts
     \<and> (rs \<noteq> [] \<longrightarrow> sv_last_restart v = last rs))"

lemma recover_cases:
  "(sv_status (recover now v) = SVC_RUNNING \<and> sv_task (recover now v) = Some TaskRunning
      \<and> sv_last_restart (recover now v) = now
      \<and> sv_restarts (recover now v) = (if now - sv_last_restart v > cooldown_period then 1 else sv_restarts v + 1)
      \<and> sv_restarts (recover now v) \<le> max_restarts)
   \<or> (sv_status (recover now v) = SVC_FAILED \<and> \<not> now - sv_last_restart v > cooldown_period
      \<and> sv_restarts v \<ge> max_restarts \<and> sv_restarts (recover now v) = sv_restarts v
      \<and> sv_last_restart (recover now v) = sv_last_restart v)"
  by (auto simp: recover_def start_service_locked_def max_restarts_def Let_def)

lemma service_step_budget:
  assumes "budget_inv vr"
  shows "budget_inv (service_step e vr)"
proof -
  obtain v rs where vr: "vr = (v, rs)" by (cases vr)
  show ?thesis
  proof (cases e)
    case (TaskEnds x)
    with assms show ?thesis by (auto simp: vr budget_inv_def)
  next
    case Manual
    with assms show ?thesis
      by (auto simp: vr budget_inv_def start_service_locked_def stop_service_locked_def)
  next
    case (Look now)
    show ?thesis
    proof (cases "crashed v")
      case False
      with assms Look show ?thesis by (simp add: vr)
    next
      case True
      with Look recover_cases [of now v] assms show ?thesis
        by (auto simp: vr budget_inv_def Let_def burst_snoc)
    qed
  qed
qed

interpretation restart_budget: machine service_step budget_inv
  by unfold_locales (rule service_step_budget)

definition fresh_service :: "string \<Rightarrow> service" where
  "fresh_service n = \<lparr>sv_name = n, sv_task = Some TaskRunning, sv_status = SVC_RUNNING, sv_restarts = 0,
     sv_last_restart = 0\<rparr>"

lemma failed_stays:
  "sv_status v = SVC_FAILED \<Longrightarrow> list_all (\<lambda>e. e \<noteq> Manual) es \<Longrightarrow>
     sv_status (fst (fold service_step es (v, rs))) = SVC_FAILED \<and> snd (fold service_step es (v, rs)) = rs"
proof (induction es arbitrary: v)
  case Nil
  then show ?case by simp
next
  case (Cons e es)
  obtain v' where "service_step e (v, rs) = (v', rs)" "sv_status v' = SVC_FAILED"
    using Cons.prems by (cases e; cases "sv_task v = Some TaskRunning") (auto simp: crashed_def)
  with Cons show ?case by simp
qed

text \<open>
  C12. The restart budget: however often a service crashes and whoever restarts it by hand, the supervisor
  never restarts it more than five times in a burst, that is with no more than a minute from each restart to
  the next; a crash that exceeds the budget leaves it failed, and then no further automatic restart
  happens until an operator restarts it; a crash more than a minute after the last restart is always
  answered by one.
\<close>

theorem restart_budget_respected:
  fixes es :: "service_event list" and n :: string
  defines "v \<equiv> fst (fold service_step es (fresh_service n, []))"
    and "rs \<equiv> snd (fold service_step es (fresh_service n, []))"
  shows "burst rs \<le> 5
    \<and> (crashed v \<longrightarrow> now - sv_last_restart v > 60 \<longrightarrow> sv_status (recover now v) = SVC_RUNNING)
    \<and> (sv_status v = SVC_FAILED \<longrightarrow> list_all (\<lambda>e. e \<noteq> Manual) es' \<longrightarrow>
        snd (fold service_step es' (v, rs)) = rs \<and> sv_status (fst (fold service_step es' (v, rs))) = SVC_FAILED)"
proof (intro conjI impI)
  have "budget_inv (fresh_service n, [])" by (simp add: budget_inv_def fresh_service_def burst_def max_restarts_def)
  then have "budget_inv (fold service_step es (fresh_service n, []))" by (rule restart_budget.run_inv)
  then have "budget_inv (v, rs)" by (simp add: v_def rs_def)
  then show "burst rs \<le> 5" by (simp add: budget_inv_def max_restarts_def)
  show "sv_status (recover now v) = SVC_RUNNING" if "now - sv_last_restart v > 60"
    using recover_cases [of now v] that by (auto simp: cooldown_period_def)
  assume "sv_status v = SVC_FAILED" "list_all (\<lambda>e. e \<noteq> Manual) es'"
  from failed_stays [OF this, of rs]
  show "snd (fold service_step es' (v, rs)) = rs" "sv_status (fst (fold service_step es' (v, rs))) = SVC_FAILED"
    by simp_all
qed

text \<open>A service that crashes every second.\<close>

definition crash_loop :: "service_event list" where
  "crash_loop = concat (map (\<lambda>i. [TaskEnds None, Look (100 + of_nat i)]) [0..<6])"

theorem restart_budget_respected_witness:
  "burst (snd (fold service_step crash_loop (fresh_service ''s'', []))) = 5
   \<and> snd (fold service_step [TaskEnds None, Look 1000] (fold service_step crash_loop (fresh_service ''s'', [])))
      = snd (fold service_step crash_loop (fresh_service ''s'', []))"
proof
  show "burst (snd (fold service_step crash_loop (fresh_service ''s'', []))) = 5" by code_simp
  have "sv_status (fst (fold service_step crash_loop (fresh_service ''s'', []))) = SVC_FAILED" by code_simp
  with restart_budget_respected [of crash_loop "''s''" 0 "[TaskEnds None, Look 1000]"]
  show "snd (fold service_step [TaskEnds None, Look 1000] (fold service_step crash_loop (fresh_service ''s'', [])))
      = snd (fold service_step crash_loop (fresh_service ''s'', []))" by simp
qed

section \<open>The passes of the loops\<close>

lemma publish_system_local:
  assumes "mb_redis b = None" and "mb_maxsize b \<le> 0 \<or> int (length (mb_system b)) < mb_maxsize b"
  shows "snd (publish_system_event api e b) = b\<lparr>mb_system := mb_system b @ [e]\<rparr>"
  using assms by (auto simp: publish_system_event_def queue_full_def)

lemma supervise_spec:
  "mb_redis b = None \<Longrightarrow>
   mb_maxsize b \<le> 0 \<or> int (length (mb_system b) + length (filter (\<lambda>(n, v). crashed v) vs)) \<le> mb_maxsize b \<Longrightarrow>
   supervise api now vs b =
     (map (\<lambda>(n, v). (n, if crashed v then recover now v else v)) vs,
      b\<lparr>mb_system := mb_system b @ map (\<lambda>(n, v). failure_event now n v) (filter (\<lambda>(n, v). crashed v) vs)\<rparr>)"
proof (induction vs arbitrary: b)
  case Nil
  then show ?case by simp
next
  case (Cons nv vs)
  obtain n v where nv: "nv = (n, v)" by (cases nv)
  show ?case
  proof (cases "crashed v")
    case True
    have p: "snd (publish_system_event api (failure_event now n v) b) =
        b\<lparr>mb_system := mb_system b @ [failure_event now n v]\<rparr>"
      using Cons.prems True nv by (intro publish_system_local) auto
    show ?thesis
      using Cons.IH [of "b\<lparr>mb_system := mb_system b @ [failure_event now n v]\<rparr>"] Cons.prems True
      by (simp add: nv p)
  next
    case False
    with Cons show ?thesis by (simp add: nv)
  qed
qed

text \<open>
  A supervisor pass on a bus without Redis that has room for the events announces every crashed
  service exactly once, in order, applies the recovery to these and touches no other; none of the
  services it leaves running is crashed.
\<close>

theorem supervisor_pass_reports:
  assumes "su_running s" and "mb_redis (su_bus s) = None"
    and "mb_maxsize (su_bus s) \<le> 0
      \<or> int (length (mb_system (su_bus s)) + length (filter (\<lambda>(n, v). crashed v) (su_services s)))
          \<le> mb_maxsize (su_bus s)"
  shows "su_services (supervisor_pass api now s) =
      map (\<lambda>(n, v). (n, if crashed v then recover now v else v)) (su_services s)
    \<and> mb_system (su_bus (supervisor_pass api now s)) = mb_system (su_bus s)
        @ map (\<lambda>(n, v). failure_event now n v) (filter (\<lambda>(n, v). crashed v) (su_services s))
    \<and> list_all (\<lambda>(n, v). \<not> crashed v) (su_services (supervisor_pass api now s))"
proof -
  have "\<not> crashed (recover now v)" for v
    using recover_cases [of now v] by (auto simp: crashed_def)
  then show ?thesis
    using assms(1) supervise_spec [OF assms(2,3), of api now]
    by (auto simp: supervisor_pass_def list_all_iff split: if_splits)
qed

definition sample_supervisor :: "unit supervisor" where
  "sample_supervisor = \<lparr>su_services = [(''a'', fresh_service ''a''),
     (''b'', (fresh_service ''b'')\<lparr>sv_task := Some (TaskDone (Some (''Err()'', ''err'')))\<rparr>)],
     su_running = True, su_bus = new_bus 10 None\<rparr>"

theorem supervisor_pass_reports_witness:
  "length (mb_system (su_bus (supervisor_pass local_api 100 sample_supervisor))) = 1"
proof -
  have "mb_system (su_bus (supervisor_pass local_api 100 sample_supervisor)) = mb_system (su_bus sample_supervisor)
        @ map (\<lambda>(n, v). failure_event 100 n v) (filter (\<lambda>(n, v). crashed v) (su_services sample_supervisor))"
    by (rule conjunct1 [OF conjunct2 [OF supervisor_pass_reports]])
      (simp_all add: sample_supervisor_def new_bus_def crashed_def fresh_service_def)
  then show ?thesis by (simp add: sample_supervisor_def new_bus_def crashed_def fresh_service_def)
qed

lemma started_all_running:
  "\<not> su_running s \<Longrightarrow> list_all (\<lambda>(n, v). sv_status v = SVC_RUNNING) (su_services (supervisor_start s))"
  by (auto simp: supervisor_start_def map_services_def start_service_locked_def list_all_iff)

lemma stopped_none_running:
  "su_running s \<Longrightarrow> list_all (\<lambda>(n, v). sv_status v = SVC_STOPPED \<and> sv_task v = None) (su_services (supervisor_stop s))"
  by (auto simp: supervisor_stop_def map_services_def stop_service_locked_def list_all_iff)

lemma diagnostics_clean:
  "diagnostics now path ws env config = [] \<longleftrightarrow> ws = WsOk
     \<and> (list_ex (has_key env) api_key_variables
         \<or> (case config of None \<Rightarrow> False | Some c \<Rightarrow> list_ex (has_key c) provider_names))"
  by (cases ws) (auto simp: diagnostics_def)

end
