(* ===== verification/Cron_Service.thy ===== *)
theory Cron_Service
  imports Amber_Prelude "HOL-Library.Monad_Syntax"
begin

text \<open>
  \<open>cron/types.py\<close> and \<open>cron/service.py\<close>: jobs, their JSON file, the computation of the next run, and the
  service with its timer. The cron-expression library is the parameter \<open>cr\<close>: the next time of an
  expression in a time zone after an instant, \<open>None\<close> when it raises. What a job does is the function
  \<open>on_job\<close>, giving the text of the exception it raises, if any; it does not call back into the service.
  Times are milliseconds; the clock readings of a call are arguments. A file carries the modification
  time of its last write.
\<close>

section \<open>Jobs\<close>

datatype schedule_kind = KIND_AT | KIND_EVERY | KIND_CRON

fun kind_name :: "schedule_kind \<Rightarrow> string" where
  "kind_name KIND_AT = ''at''"
| "kind_name KIND_EVERY = ''every''"
| "kind_name KIND_CRON = ''cron''"

record schedule =
  sd_kind :: schedule_kind
  sd_at :: "int option"
  sd_every :: "int option"
  sd_expr :: "string option"
  sd_tz :: "string option"

record payload =
  py_kind :: string
  py_message :: string
  py_deliver :: bool
  py_channel :: "string option"
  py_to :: "string option"

record cron_job =
  cj_id :: string
  cj_name :: string
  cj_enabled :: bool
  cj_schedule :: schedule
  cj_payload :: payload
  cj_next :: "int option"
  cj_last :: "int option"
  cj_status :: "string option"
  cj_error :: "string option"
  cj_created :: int
  cj_updated :: int
  cj_delete_after_run :: bool

type_synonym croniter = "string \<Rightarrow> string option \<Rightarrow> int \<Rightarrow> int option"

text \<open>A missing or empty string, and a missing or zero number, are falsy.\<close>

definition str_given :: "string option \<Rightarrow> bool" where
  "str_given s = (s \<noteq> None \<and> s \<noteq> Some [])"

definition compute_next_run :: "croniter \<Rightarrow> schedule \<Rightarrow> int \<Rightarrow> int option" where
  "compute_next_run cr s now =
     (case sd_kind s of
        KIND_AT \<Rightarrow> (case sd_at s of None \<Rightarrow> None | Some t \<Rightarrow> if t \<noteq> 0 \<and> t > now then Some t else None)
      | KIND_EVERY \<Rightarrow> (case sd_every s of None \<Rightarrow> None | Some e \<Rightarrow> if e \<le> 0 then None else Some (now + e))
      | KIND_CRON \<Rightarrow>
          (case sd_expr s of
             None \<Rightarrow> None
           | Some x \<Rightarrow> if x = [] then None else cr x (if str_given (sd_tz s) then sd_tz s else None) now))"

datatype cron_error = TzWithoutCron | UnknownTimezone string

text \<open>\<open>zones\<close> tells the time zones that \<open>ZoneInfo\<close> knows.\<close>

definition validate_schedule :: "(string \<Rightarrow> bool) \<Rightarrow> schedule \<Rightarrow> cron_error option" where
  "validate_schedule zones s =
     (if str_given (sd_tz s) \<and> sd_kind s \<noteq> KIND_CRON then Some TzWithoutCron
      else case sd_tz s of
        Some z \<Rightarrow> if sd_kind s = KIND_CRON \<and> z \<noteq> [] \<and> \<not> zones z then Some (UnknownTimezone z) else None
      | None \<Rightarrow> None)"

section \<open>The file\<close>

definition jint :: "int option \<Rightarrow> json" where
  "jint x = (case x of None \<Rightarrow> JNull | Some i \<Rightarrow> JInt i)"

definition jstr :: "string option \<Rightarrow> json" where
  "jstr x = (case x of None \<Rightarrow> JNull | Some s \<Rightarrow> JStr s)"

definition dump_job :: "cron_job \<Rightarrow> json" where
  "dump_job j = JObj
     [(''id'', JStr (cj_id j)), (''name'', JStr (cj_name j)), (''enabled'', JBool (cj_enabled j)),
      (''schedule'', JObj [(''kind'', JStr (kind_name (sd_kind (cj_schedule j)))),
         (''atMs'', jint (sd_at (cj_schedule j))), (''everyMs'', jint (sd_every (cj_schedule j))),
         (''expr'', jstr (sd_expr (cj_schedule j))), (''tz'', jstr (sd_tz (cj_schedule j)))]),
      (''payload'', JObj [(''kind'', JStr (py_kind (cj_payload j))), (''message'', JStr (py_message (cj_payload j))),
         (''deliver'', JBool (py_deliver (cj_payload j))), (''channel'', jstr (py_channel (cj_payload j))),
         (''to'', jstr (py_to (cj_payload j)))]),
      (''state'', JObj [(''nextRunAtMs'', jint (cj_next j)), (''lastRunAtMs'', jint (cj_last j)),
         (''lastStatus'', jstr (cj_status j)), (''lastError'', jstr (cj_error j))]),
      (''createdAtMs'', JInt (cj_created j)), (''updatedAtMs'', JInt (cj_updated j)),
      (''deleteAfterRun'', JBool (cj_delete_after_run j))]"

definition dump_store :: "cron_job list \<Rightarrow> json" where
  "dump_store js = JObj [(''version'', JInt 1), (''jobs'', JList (map dump_job js))]"

text \<open>
  Reading: \<open>d["k"]\<close> raises on a missing key, \<open>d.get("k", x)\<close> does not. A value of another type than the
  service writes, which the dataclasses would carry along unchecked, reads as an exception here.
\<close>

fun rd_obj :: "json option \<Rightarrow> (string, json) pydict option" where
  "rd_obj (Some (JObj d)) = Some d"
| "rd_obj _ = None"

fun rd_str :: "json option \<Rightarrow> string option" where
  "rd_str (Some (JStr s)) = Some s"
| "rd_str _ = None"

fun rd_str_d :: "string \<Rightarrow> json option \<Rightarrow> string option" where
  "rd_str_d x None = Some x"
| "rd_str_d x (Some (JStr s)) = Some s"
| "rd_str_d x _ = None"

fun rd_bool_d :: "bool \<Rightarrow> json option \<Rightarrow> bool option" where
  "rd_bool_d x None = Some x"
| "rd_bool_d x (Some (JBool b)) = Some b"
| "rd_bool_d x _ = None"

fun rd_int_d :: "int \<Rightarrow> json option \<Rightarrow> int option" where
  "rd_int_d x None = Some x"
| "rd_int_d x (Some (JInt i)) = Some i"
| "rd_int_d x _ = None"

fun rd_str_opt :: "json option \<Rightarrow> string option option" where
  "rd_str_opt None = Some None"
| "rd_str_opt (Some JNull) = Some None"
| "rd_str_opt (Some (JStr s)) = Some (Some s)"
| "rd_str_opt _ = None"

fun rd_int_opt :: "json option \<Rightarrow> int option option" where
  "rd_int_opt None = Some None"
| "rd_int_opt (Some JNull) = Some None"
| "rd_int_opt (Some (JInt i)) = Some (Some i)"
| "rd_int_opt _ = None"

definition rd_kind :: "json option \<Rightarrow> schedule_kind option" where
  "rd_kind j = (case rd_str j of
      Some s \<Rightarrow> if s = ''at'' then Some KIND_AT else if s = ''every'' then Some KIND_EVERY
                else if s = ''cron'' then Some KIND_CRON else None
    | None \<Rightarrow> None)"

definition parse_schedule :: "(string, json) pydict \<Rightarrow> schedule option" where
  "parse_schedule d = do {
     k \<leftarrow> rd_kind (dget d ''kind'');
     a \<leftarrow> rd_int_opt (dget d ''atMs'');
     e \<leftarrow> rd_int_opt (dget d ''everyMs'');
     x \<leftarrow> rd_str_opt (dget d ''expr'');
     z \<leftarrow> rd_str_opt (dget d ''tz'');
     Some \<lparr>sd_kind = k, sd_at = a, sd_every = e, sd_expr = x, sd_tz = z\<rparr> }"

definition parse_payload :: "(string, json) pydict \<Rightarrow> payload option" where
  "parse_payload d = do {
     k \<leftarrow> rd_str_d ''agent_turn'' (dget d ''kind'');
     m \<leftarrow> rd_str_d [] (dget d ''message'');
     dl \<leftarrow> rd_bool_d False (dget d ''deliver'');
     c \<leftarrow> rd_str_opt (dget d ''channel'');
     t \<leftarrow> rd_str_opt (dget d ''to'');
     Some \<lparr>py_kind = k, py_message = m, py_deliver = dl, py_channel = c, py_to = t\<rparr> }"

definition parse_job :: "json \<Rightarrow> cron_job option" where
  "parse_job j = do {
     d \<leftarrow> rd_obj (Some j);
     i \<leftarrow> rd_str (dget d ''id'');
     n \<leftarrow> rd_str (dget d ''name'');
     en \<leftarrow> rd_bool_d True (dget d ''enabled'');
     sd \<leftarrow> rd_obj (dget d ''schedule'');
     s \<leftarrow> parse_schedule sd;
     pd \<leftarrow> rd_obj (dget d ''payload'');
     p \<leftarrow> parse_payload pd;
     st \<leftarrow> (if dget d ''state'' = None then Some [] else rd_obj (dget d ''state''));
     nx \<leftarrow> rd_int_opt (dget st ''nextRunAtMs'');
     la \<leftarrow> rd_int_opt (dget st ''lastRunAtMs'');
     ls \<leftarrow> rd_str_opt (dget st ''lastStatus'');
     le \<leftarrow> rd_str_opt (dget st ''lastError'');
     cr \<leftarrow> rd_int_d 0 (dget d ''createdAtMs'');
     up \<leftarrow> rd_int_d 0 (dget d ''updatedAtMs'');
     del \<leftarrow> rd_bool_d False (dget d ''deleteAfterRun'');
     Some \<lparr>cj_id = i, cj_name = n, cj_enabled = en, cj_schedule = s, cj_payload = p, cj_next = nx,
           cj_last = la, cj_status = ls, cj_error = le, cj_created = cr, cj_updated = up,
           cj_delete_after_run = del\<rparr> }"

fun parse_jobs :: "json list \<Rightarrow> cron_job list option" where
  "parse_jobs [] = Some []"
| "parse_jobs (j # js) = do { x \<leftarrow> parse_job j; xs \<leftarrow> parse_jobs js; Some (x # xs) }"

text \<open>An exception anywhere gives the empty store.\<close>

definition parse_store :: "json \<Rightarrow> cron_job list" where
  "parse_store j =
     (case rd_obj (Some j) of
        None \<Rightarrow> []
      | Some d \<Rightarrow>
          (case dget d ''jobs'' of
             None \<Rightarrow> []
           | Some (JList js) \<Rightarrow> (case parse_jobs js of Some xs \<Rightarrow> xs | None \<Rightarrow> [])
           | Some _ \<Rightarrow> []))"

lemma rd_int_inverse [simp]: "rd_int_opt (Some (jint x)) = Some x"
  by (cases x) (simp_all add: jint_def)

lemma rd_str_inverse [simp]: "rd_str_opt (Some (jstr x)) = Some x"
  by (cases x) (simp_all add: jstr_def)

lemma rd_kind_inverse [simp]: "rd_kind (Some (JStr (kind_name k))) = Some k"
  by (cases k) (simp_all add: rd_kind_def)

lemma parse_dump_job: "parse_job (dump_job j) = Some j"
  by (simp add: parse_job_def dump_job_def parse_schedule_def parse_payload_def)

lemma parse_dump_store [simp]: "parse_store (dump_store js) = js"
proof -
  have "parse_jobs (map dump_job js) = Some js" by (induction js) (simp_all add: parse_dump_job)
  then show ?thesis by (simp add: parse_store_def dump_store_def)
qed

section \<open>The service\<close>

record cron =
  cs_store :: "cron_job list option"
  cs_loads :: nat
  cs_file :: "(json \<times> nat) option"
  cs_last_mtime :: nat
  cs_next_mtime :: nat
  cs_running :: bool
  cs_timer :: "int option"

text \<open>
  \<open>_load_store\<close>. The modification time is remembered by \<open>_save_store\<close> only, so a store read from a file
  that somebody else wrote is read again by every call until the next save. \<open>cs_loads\<close> counts the times the
  jobs were read: job objects of an earlier read are not those of the store any more.
\<close>

definition load_store :: "cron \<Rightarrow> cron_job list \<times> cron" where
  "load_store s =
     (let stale = (case (cs_store s, cs_file s) of
                     (Some _, Some (_, m)) \<Rightarrow> m \<noteq> cs_last_mtime s | _ \<Rightarrow> False)
      in case (if stale then None else cs_store s) of
           Some js \<Rightarrow> (js, s)
         | None \<Rightarrow>
             (let js = (case cs_file s of Some (j, _) \<Rightarrow> parse_store j | None \<Rightarrow> [])
              in (js, s\<lparr>cs_store := Some js, cs_loads := cs_loads s + 1\<rparr>)))"

definition save_store :: "cron \<Rightarrow> cron" where
  "save_store s =
     (case cs_store s of
        None \<Rightarrow> s
      | Some js \<Rightarrow> s\<lparr>cs_file := Some (dump_store js, cs_next_mtime s), cs_last_mtime := cs_next_mtime s,
                     cs_next_mtime := cs_next_mtime s + 1\<rparr>)"

definition set_jobs :: "cron_job list \<Rightarrow> cron \<Rightarrow> cron" where
  "set_jobs js s = s\<lparr>cs_store := Some js\<rparr>"

definition next_wake :: "cron \<Rightarrow> int option" where
  "next_wake s =
     (let ts = List.map_filter (\<lambda>j. if cj_enabled j \<and> cj_next j \<noteq> Some 0 then cj_next j else None)
                    (case cs_store s of None \<Rightarrow> [] | Some js \<Rightarrow> js)
      in if ts = [] then None else Some (Min (set ts)))"

definition arm_timer :: "int \<Rightarrow> cron \<Rightarrow> cron" where
  "arm_timer now s =
     (if next_wake s = None \<or> \<not> cs_running s then s\<lparr>cs_timer := None\<rparr>
      else s\<lparr>cs_timer := map_option (\<lambda>w. max 0 (w - now)) (next_wake s)\<rparr>)"

definition recompute :: "croniter \<Rightarrow> int \<Rightarrow> cron_job \<Rightarrow> cron_job" where
  "recompute cr now j = (if cj_enabled j then j\<lparr>cj_next := compute_next_run cr (cj_schedule j) now\<rparr> else j)"

definition cron_start :: "croniter \<Rightarrow> int \<Rightarrow> cron \<Rightarrow> cron" where
  "cron_start cr now s =
     (let (js, s) = load_store (s\<lparr>cs_running := True\<rparr>)
      in arm_timer now (save_store (set_jobs (map (recompute cr now) js) s)))"

definition cron_stop :: "cron \<Rightarrow> cron" where
  "cron_stop s = s\<lparr>cs_running := False, cs_timer := None\<rparr>"

text \<open>What \<open>_execute_job\<close> does to the job object; \<open>st\<close> and \<open>en\<close> are the clock before and after.\<close>

definition run_result :: "(cron_job \<Rightarrow> string option) \<Rightarrow> int \<Rightarrow> int \<Rightarrow> cron_job \<Rightarrow> cron_job" where
  "run_result on_job st en j =
     (case on_job j of
        None \<Rightarrow> j\<lparr>cj_status := Some ''ok'', cj_error := None\<rparr>
      | Some e \<Rightarrow> j\<lparr>cj_status := Some ''error'', cj_error := Some e\<rparr>)
     \<lparr>cj_last := Some st, cj_updated := en\<rparr>"

definition after_run :: "croniter \<Rightarrow> int \<Rightarrow> cron_job \<Rightarrow> cron_job" where
  "after_run cr en j =
     (if sd_kind (cj_schedule j) = KIND_AT
      then (if cj_delete_after_run j then j else j\<lparr>cj_enabled := False, cj_next := None\<rparr>)
      else j\<lparr>cj_next := compute_next_run cr (cj_schedule j) en\<rparr>)"

text \<open>A changed job in the list of the store: the first with the identifier, which is unique in files the service writes.\<close>

fun update_job :: "string \<Rightarrow> cron_job \<Rightarrow> cron_job list \<Rightarrow> cron_job list" where
  "update_job i j [] = []"
| "update_job i j (x # xs) = (if cj_id x = i then j # xs else x # update_job i j xs)"

text \<open>
  \<open>_execute_job\<close> of an object that belongs to the read number \<open>gen\<close>: its fields change in the store only
  if the store is still that read. A finished one-shot job that asks for it is removed from the store
  as \<open>_load_store\<close> then gives it.
\<close>

definition execute_job ::
  "croniter \<Rightarrow> (cron_job \<Rightarrow> string option) \<Rightarrow> int \<Rightarrow> int \<Rightarrow> nat \<Rightarrow> cron_job \<Rightarrow> cron \<Rightarrow> cron" where
  "execute_job cr on_job st en gen j s =
     (let j' = after_run cr en (run_result on_job st en j);
          s = (if cs_loads s = gen then s\<lparr>cs_store := map_option (update_job (cj_id j) j') (cs_store s)\<rparr> else s)
      in if sd_kind (cj_schedule j) = KIND_AT \<and> cj_delete_after_run j
         then (let (js, s) = load_store s in set_jobs (filter (\<lambda>x. cj_id x \<noteq> cj_id j) js) s)
         else s)"

definition is_due :: "int \<Rightarrow> cron_job \<Rightarrow> bool" where
  "is_due now j = (cj_enabled j \<and> (case cj_next j of None \<Rightarrow> False | Some t \<Rightarrow> t \<noteq> 0 \<and> now \<ge> t))"

text \<open>\<open>_on_timer\<close> at \<open>now\<close>; \<open>clk\<close> gives start and end of each run. The identifiers of the jobs run come first.\<close>

definition on_timer ::
  "croniter \<Rightarrow> (cron_job \<Rightarrow> string option) \<Rightarrow> (cron_job \<Rightarrow> int \<times> int) \<Rightarrow> int \<Rightarrow> int \<Rightarrow> cron \<Rightarrow> string list \<times> cron" where
  "on_timer cr on_job clk now now' s =
     (let (js, s) = load_store s;
          gen = cs_loads s;
          due = filter (is_due now) js;
          s = fold (\<lambda>j. execute_job cr on_job (fst (clk j)) (snd (clk j)) gen j) due s
      in (map cj_id due, arm_timer now' (save_store s)))"

definition list_jobs :: "bool \<Rightarrow> cron \<Rightarrow> cron_job list \<times> cron" where
  "list_jobs include_disabled s =
     (let (js, s) = load_store s;
          js = (if include_disabled then js else filter cj_enabled js);
          timed = (\<lambda>j. cj_next j \<noteq> None \<and> cj_next j \<noteq> Some 0)
      in (sort_key (\<lambda>j. the (cj_next j)) (filter timed js) @ filter (\<lambda>j. \<not> timed j) js, s))"

definition add_job ::
  "croniter \<Rightarrow> (string \<Rightarrow> bool) \<Rightarrow> string \<Rightarrow> int \<Rightarrow> string \<Rightarrow> schedule \<Rightarrow> string \<Rightarrow> bool \<Rightarrow> string option
     \<Rightarrow> string option \<Rightarrow> bool \<Rightarrow> cron \<Rightarrow> (cron_error + cron_job) \<times> cron" where
  "add_job cr zones jid now name sched message deliver channel dst del s =
     (let (js, s) = load_store s
      in case validate_schedule zones sched of
           Some e \<Rightarrow> (Inl e, s)
         | None \<Rightarrow>
             (let j = \<lparr>cj_id = jid, cj_name = name, cj_enabled = True, cj_schedule = sched,
                       cj_payload = \<lparr>py_kind = ''agent_turn'', py_message = message, py_deliver = deliver,
                                     py_channel = channel, py_to = dst\<rparr>,
                       cj_next = compute_next_run cr sched now, cj_last = None, cj_status = None,
                       cj_error = None, cj_created = now, cj_updated = now, cj_delete_after_run = del\<rparr>
              in (Inr j, arm_timer now (save_store (set_jobs (js @ [j]) s)))))"

definition remove_job :: "string \<Rightarrow> int \<Rightarrow> cron \<Rightarrow> bool \<times> cron" where
  "remove_job jid now s =
     (let (js, s) = load_store s;
          js' = filter (\<lambda>j. cj_id j \<noteq> jid) js;
          s = set_jobs js' s
      in if length js' < length js then (True, arm_timer now (save_store s)) else (False, s))"

text \<open>The first job with the identifier.\<close>

definition enable_job :: "croniter \<Rightarrow> string \<Rightarrow> bool \<Rightarrow> int \<Rightarrow> cron \<Rightarrow> cron_job option \<times> cron" where
  "enable_job cr jid enabled now s =
     (let (js, s) = load_store s
      in case find (\<lambda>j. cj_id j = jid) js of
           None \<Rightarrow> (None, s)
         | Some j \<Rightarrow>
             (let j' = j\<lparr>cj_enabled := enabled, cj_updated := now,
                         cj_next := (if enabled then compute_next_run cr (cj_schedule j) now else None)\<rparr>
              in (Some j', arm_timer now (save_store (set_jobs (update_job jid j' js) s)))))"

definition run_job ::
  "croniter \<Rightarrow> (cron_job \<Rightarrow> string option) \<Rightarrow> string \<Rightarrow> bool \<Rightarrow> int \<Rightarrow> int \<Rightarrow> cron \<Rightarrow> bool \<times> cron" where
  "run_job cr on_job jid force st en s =
     (let (js, s) = load_store s
      in case find (\<lambda>j. cj_id j = jid) js of
           None \<Rightarrow> (False, s)
         | Some j \<Rightarrow>
             if \<not> force \<and> \<not> cj_enabled j then (False, s)
             else (True, arm_timer en (save_store (execute_job cr on_job st en (cs_loads s) j s))))"

definition cron_status :: "cron \<Rightarrow> (bool \<times> nat \<times> int option) \<times> cron" where
  "cron_status s = (let (js, s) = load_store s in ((cs_running s, length js, next_wake s), s))"

section \<open>The store and its file\<close>

datatype cron_call =
    Start int
  | Stop
  | Tick "cron_job \<Rightarrow> int \<times> int" int int
  | ListJobs bool
  | AddJob string int string schedule string bool "string option" "string option" bool
  | RemoveJob string int
  | EnableJob string bool int
  | RunJob string bool int int
  | EditFile json

text \<open>\<open>EditFile\<close> is a write by somebody else.\<close>

fun cron_step ::
  "croniter \<Rightarrow> (cron_job \<Rightarrow> string option) \<Rightarrow> (string \<Rightarrow> bool) \<Rightarrow> cron_call \<Rightarrow> cron \<Rightarrow> cron" where
  "cron_step cr f z (Start now) s = cron_start cr now s"
| "cron_step cr f z Stop s = cron_stop s"
| "cron_step cr f z (Tick clk now now') s = snd (on_timer cr f clk now now' s)"
| "cron_step cr f z (ListJobs b) s = snd (list_jobs b s)"
| "cron_step cr f z (AddJob i now n sd m dl c t d) s = snd (add_job cr z i now n sd m dl c t d s)"
| "cron_step cr f z (RemoveJob i now) s = snd (remove_job i now s)"
| "cron_step cr f z (EnableJob i b now) s = snd (enable_job cr i b now s)"
| "cron_step cr f z (RunJob i b st en) s = snd (run_job cr f i b st en s)"
| "cron_step cr f z (EditFile j) s =
     s\<lparr>cs_file := Some (j, cs_next_mtime s), cs_next_mtime := cs_next_mtime s + 1\<rparr>"

definition new_cron :: "json option \<Rightarrow> cron" where
  "new_cron f = \<lparr>cs_store = None, cs_loads = 0, cs_file = map_option (\<lambda>j. (j, 1)) f, cs_last_mtime = 0,
                 cs_next_mtime = 2, cs_running = False, cs_timer = None\<rparr>"

definition file_jobs :: "cron \<Rightarrow> cron_job list" where
  "file_jobs s = (case cs_file s of None \<Rightarrow> [] | Some (j, _) \<Rightarrow> parse_store j)"

definition cron_inv :: "cron \<Rightarrow> bool" where
  "cron_inv s =
     (cs_last_mtime s < cs_next_mtime s
      \<and> (case cs_file s of None \<Rightarrow> True | Some (j, m) \<Rightarrow> m < cs_next_mtime s)
      \<and> (case cs_store s of None \<Rightarrow> True
         | Some js \<Rightarrow> (case cs_file s of None \<Rightarrow> js = []
             | Some (j, m) \<Rightarrow> m = cs_last_mtime s \<longrightarrow> js = parse_store j)))"

lemma load_store_inv:
  assumes "cron_inv s" and "load_store s = (js, s')"
  shows "js = file_jobs s \<and> cs_store s' = Some js \<and> cron_inv s' \<and> file_jobs s' = file_jobs s
     \<and> cs_file s' = cs_file s \<and> cs_next_mtime s' = cs_next_mtime s \<and> cs_last_mtime s' = cs_last_mtime s
     \<and> cs_running s' = cs_running s"
  using assms
  by (auto simp: load_store_def cron_inv_def file_jobs_def Let_def split: option.splits if_splits prod.splits)

lemma cron_inv_timer [simp]: "cron_inv (s\<lparr>cs_timer := x\<rparr>) = cron_inv s"
  by (simp add: cron_inv_def split: option.splits)

lemma arm_timer_simps [simp]:
  "cs_store (arm_timer n s) = cs_store s" "cs_file (arm_timer n s) = cs_file s"
  "cs_last_mtime (arm_timer n s) = cs_last_mtime s" "cs_next_mtime (arm_timer n s) = cs_next_mtime s"
  "cs_running (arm_timer n s) = cs_running s" "cron_inv (arm_timer n s) = cron_inv s"
  by (simp_all add: arm_timer_def)

text \<open>What holds between reading and saving: there is a store, and clocks of the file only advance.\<close>

definition saveable :: "cron \<Rightarrow> bool" where
  "saveable s = (cs_last_mtime s < cs_next_mtime s \<and> cs_store s \<noteq> None)"

lemma save_inv: "saveable s \<Longrightarrow> cron_inv (save_store s)"
  by (auto simp: saveable_def save_store_def cron_inv_def)

lemma load_saveable:
  "cron_inv s \<Longrightarrow> saveable (snd (load_store s))" "saveable s \<Longrightarrow> saveable (snd (load_store s))"
  by (auto simp: saveable_def cron_inv_def load_store_def Let_def split: option.splits)

lemma set_jobs_saveable [simp]: "cs_last_mtime s < cs_next_mtime s \<Longrightarrow> saveable (set_jobs js s)"
  by (simp add: saveable_def set_jobs_def)

lemma saveable_clock: "saveable s \<Longrightarrow> cs_last_mtime s < cs_next_mtime s"
  by (simp add: saveable_def)

lemma execute_saveable:
  assumes "saveable s"
  shows "saveable (execute_job cr f st en gen j s)"
proof -
  define t where "t = (if cs_loads s = gen
    then s\<lparr>cs_store := map_option (update_job (cj_id j) (after_run cr en (run_result f st en j))) (cs_store s)\<rparr> else s)"
  have "saveable t" using assms by (simp add: t_def saveable_def)
  then show ?thesis
    using load_saveable(2) [of t]
    by (auto simp: execute_job_def Let_def t_def [symmetric] split: prod.split intro!: set_jobs_saveable saveable_clock)
qed

lemma execute_all_saveable:
  "saveable s \<Longrightarrow> saveable (fold (\<lambda>j. execute_job cr f (a j) (b j) gen j) js s)"
  by (induction js arbitrary: s) (simp_all add: execute_saveable)

lemma cron_step_inv:
  assumes "cron_inv s"
  shows "cron_inv (cron_step cr f z c s)"
proof (cases "load_store s")
  case (Pair js s')
  note ld = load_store_inv [OF assms Pair]
  have sv: "saveable s'" using load_saveable(1) [OF assms] Pair by simp
  note cl = saveable_clock [OF sv]
  show ?thesis
  proof (cases c)
    case (Start now)
    have "cron_inv (s\<lparr>cs_running := True\<rparr>)" using assms by (simp add: cron_inv_def split: option.splits prod.splits)
    from load_saveable(1) [OF this] show ?thesis
      by (auto simp: Start cron_start_def split: prod.split intro!: save_inv set_jobs_saveable saveable_clock)
  next
    case Stop
    with assms show ?thesis by (simp add: cron_stop_def cron_inv_def split: option.splits prod.splits)
  next
    case (Tick clk now now')
    with sv show ?thesis
      by (auto simp: on_timer_def Pair Let_def intro!: save_inv execute_all_saveable)
  next
    case (ListJobs b)
    with ld show ?thesis by (simp add: list_jobs_def Pair Let_def)
  next
    case (AddJob i now n sd m dl ch t d)
    with ld cl show ?thesis by (auto simp: add_job_def Pair Let_def intro!: save_inv split: option.split)
  next
    case (RemoveJob i now)
    show ?thesis
    proof (cases "length (filter (\<lambda>j. cj_id j \<noteq> i) js) < length js")
      case True
      with cl show ?thesis by (auto simp: RemoveJob remove_job_def Pair Let_def intro!: save_inv)
    next
      case False
      then have "filter (\<lambda>j. cj_id j \<noteq> i) js = js"
        by (auto simp: length_filter_less_iff intro: filter_True)
      moreover have "set_jobs js s' = s'" using ld by (simp add: set_jobs_def)
      ultimately show ?thesis using ld False by (simp add: RemoveJob remove_job_def Pair Let_def)
    qed
  next
    case (EnableJob i b now)
    with ld cl show ?thesis by (auto simp: enable_job_def Pair Let_def intro!: save_inv split: option.split)
  next
    case (RunJob i b st en)
    with ld sv show ?thesis
      by (auto simp: run_job_def Pair Let_def intro!: save_inv execute_saveable split: option.split)
  next
    case (EditFile j)
    with assms show ?thesis by (auto simp: cron_inv_def split: option.splits prod.splits)
  qed
qed

interpretation crontab: machine "cron_step cr f z" cron_inv for cr f z
  by unfold_locales (rule cron_step_inv)

text \<open>
  C34. After any sequence of calls and of edits of the file by others, the jobs that the service shows
  are those a fresh service on the file would read: nothing it did is lost by a restart, and an edit is
  never served from memory.
\<close>

theorem cron_file_is_the_store:
  fixes cr :: croniter and f z calls file0
  defines "s \<equiv> fold (cron_step cr f z) calls (new_cron file0)"
  shows "fst (load_store s) = fst (load_store (new_cron (map_option fst (cs_file s))))"
proof -
  have "cron_inv (new_cron file0)" by (cases file0) (simp_all add: new_cron_def cron_inv_def)
  then have "cron_inv s" unfolding s_def by (rule crontab.run_inv)
  then have "fst (load_store s) = file_jobs s"
    using load_store_inv [of s "fst (load_store s)" "snd (load_store s)"] by simp
  then show ?thesis
    by (simp add: load_store_def new_cron_def file_jobs_def Let_def split: option.splits prod.splits)
qed

section \<open>The timer\<close>

text \<open>What a run leaves of a job in the store: nothing of a one-shot job that is to be deleted.\<close>

definition settled :: "croniter \<Rightarrow> (cron_job \<Rightarrow> string option) \<Rightarrow> (cron_job \<Rightarrow> int \<times> int) \<Rightarrow> cron_job \<Rightarrow> cron_job option" where
  "settled cr f clk j =
     (if sd_kind (cj_schedule j) = KIND_AT \<and> cj_delete_after_run j then None
      else Some (after_run cr (snd (clk j)) (run_result f (fst (clk j)) (snd (clk j)) j)))"

definition settle_in :: "(cron_job \<Rightarrow> cron_job option) \<Rightarrow> cron_job list \<Rightarrow> cron_job list \<Rightarrow> cron_job list" where
  "settle_in g due js =
     List.map_filter (\<lambda>x. case find (\<lambda>j. cj_id j = cj_id x) due of None \<Rightarrow> Some x | Some j \<Rightarrow> g j) js"

lemma run_fields [simp]:
  "cj_id (after_run cr en (run_result f st en' j)) = cj_id j"
  "cj_schedule (after_run cr en (run_result f st en' j)) = cj_schedule j"
  "cj_next (after_run cr en (run_result f st en' j)) =
     (if sd_kind (cj_schedule j) = KIND_AT then if cj_delete_after_run j then cj_next j else None
      else compute_next_run cr (cj_schedule j) en)"
  by (simp_all add: after_run_def run_result_def split: option.split)

lemma set_map_filter_option: "set (List.map_filter g xs) = {y. \<exists>x \<in> set xs. g x = Some y}"
  by (force simp: List.map_filter_def)

lemma update_job_fresh: "i \<notin> cj_id ` set js \<Longrightarrow> update_job i j js = js"
  by (induction js) auto

lemma settle_in_one:
  assumes "distinct (map cj_id js)" and "cj_id j' = cj_id j"
  shows "settle_in (\<lambda>_. Some j') [j] js = update_job (cj_id j) j' js"
    and "settle_in (\<lambda>_. None) [j] js = filter (\<lambda>x. cj_id x \<noteq> cj_id j) (update_job (cj_id j) j' js)"
proof -
  have fresh: "settle_in g [j] xs = xs" if "cj_id j \<notin> cj_id ` set xs" for g xs
    using that by (induction xs) (auto simp: settle_in_def map_filter_simps split: if_splits)
  show "settle_in (\<lambda>_. Some j') [j] js = update_job (cj_id j) j' js"
    using assms
  proof (induction js)
    case Nil
    then show ?case by (simp add: settle_in_def map_filter_simps)
  next
    case (Cons x xs)
    then show ?case using fresh [of xs "\<lambda>_. Some j'"]
      by (auto simp: settle_in_def map_filter_simps)
  qed
  show "settle_in (\<lambda>_. None) [j] js = filter (\<lambda>x. cj_id x \<noteq> cj_id j) (update_job (cj_id j) j' js)"
    using assms
  proof (induction js)
    case Nil
    then show ?case by (simp add: settle_in_def map_filter_simps)
  next
    case (Cons x xs)
    then show ?case using fresh [of xs "\<lambda>_. None"]
      by (auto simp: settle_in_def map_filter_simps intro!: filter_True [symmetric]) (metis image_eqI)
  qed
qed

lemma settle_in_cons:
  assumes g: "\<And>x y. g x = Some y \<Longrightarrow> cj_id y = cj_id x" and d: "cj_id j \<notin> cj_id ` set due"
  shows "settle_in g (j # due) js = settle_in g due (settle_in g [j] js)"
proof (induction js)
  case Nil
  then show ?case by (simp add: settle_in_def map_filter_simps)
next
  case (Cons x xs)
  have f: "find (\<lambda>k. cj_id k = cj_id j) due = None"
    using d by (auto simp: find_None_iff image_iff)
  show ?case
  proof (cases "cj_id j = cj_id x")
    case False
    with Cons show ?thesis by (simp add: settle_in_def map_filter_simps split: option.split)
  next
    case True
    have "find (\<lambda>k. cj_id k = cj_id y) due = None" if "g j = Some y" for y
      using f g [OF that] by simp
    with True Cons show ?thesis
      by (cases "g j") (simp_all add: settle_in_def map_filter_simps)
  qed
qed

lemma settled_id: "settled cr f clk x = Some y \<Longrightarrow> cj_id y = cj_id x"
  by (auto simp: settled_def split: if_splits)

lemma map_filter_ids:
  assumes h: "\<And>x y. h x = Some y \<Longrightarrow> cj_id y = cj_id x"
  shows "distinct (map cj_id js) \<Longrightarrow> distinct (map cj_id (List.map_filter h js))"
    and "cj_id ` set (List.map_filter h js) \<subseteq> cj_id ` set js"
proof -
  show sub: "cj_id ` set (List.map_filter h xs) \<subseteq> cj_id ` set xs" for xs
    using h by (fastforce simp: set_map_filter_option)
  show "distinct (map cj_id js) \<Longrightarrow> distinct (map cj_id (List.map_filter h js))"
  proof (induction js)
    case Nil
    then show ?case by (simp add: map_filter_simps)
  next
    case (Cons x xs)
    show ?case
    proof (cases "h x")
      case None
      with Cons show ?thesis by (simp add: map_filter_simps)
    next
      case (Some y)
      with Cons h [OF Some] sub [of xs] show ?thesis by (auto simp: map_filter_simps)
    qed
  qed
qed

lemma distinct_settle_in:
  assumes "\<And>x y. g x = Some y \<Longrightarrow> cj_id y = cj_id x" and "distinct (map cj_id js)"
  shows "distinct (map cj_id (settle_in g due js))"
  unfolding settle_in_def
proof (rule map_filter_ids(1) [OF _ assms(2)])
  fix x y
  assume "(case find (\<lambda>j. cj_id j = cj_id x) due of None \<Rightarrow> Some x | Some j \<Rightarrow> g j) = Some y"
  then show "cj_id y = cj_id x"
    by (cases "find (\<lambda>j. cj_id j = cj_id x) due") (auto simp: find_Some_iff dest: assms(1))
qed

lemma settle_in_single: "settle_in g [j] js = settle_in (\<lambda>_. g j) [j] js"
proof -
  have "(case find (\<lambda>k. cj_id k = cj_id x) [j] of None \<Rightarrow> Some x | Some k \<Rightarrow> g k) =
    (case find (\<lambda>k. cj_id k = cj_id x) [j] of None \<Rightarrow> Some x | Some k \<Rightarrow> g j)" for x
    by simp
  then show ?thesis by (simp only: settle_in_def)
qed

text \<open>The store is in memory and the file has not been written by others since the last save.\<close>

definition in_sync :: "cron \<Rightarrow> cron_job list \<Rightarrow> bool" where
  "in_sync s js = (cs_store s = Some js \<and> (case cs_file s of None \<Rightarrow> True | Some (_, m) \<Rightarrow> m = cs_last_mtime s))"

lemma load_in_sync: "in_sync s js \<Longrightarrow> load_store s = (js, s)"
  by (auto simp: in_sync_def load_store_def Let_def split: option.splits)

lemma execute_in_sync:
  assumes "in_sync s js" and "distinct (map cj_id js)"
  shows "execute_job cr f (fst (clk j)) (snd (clk j)) (cs_loads s) j s =
    s\<lparr>cs_store := Some (settle_in (settled cr f clk) [j] js)\<rparr>"
proof -
  let ?j = "after_run cr (snd (clk j)) (run_result f (fst (clk j)) (snd (clk j)) j)"
  have "in_sync (s\<lparr>cs_store := Some (update_job (cj_id j) ?j js)\<rparr>) (update_job (cj_id j) ?j js)"
    using assms(1) by (simp add: in_sync_def split: option.splits prod.splits)
  from load_in_sync [OF this] show ?thesis
    using assms settle_in_one [OF assms(2), of ?j j]
    by (simp add: settle_in_single [of "settled cr f clk"] settled_def execute_job_def Let_def in_sync_def set_jobs_def)
qed

lemma fold_execute:
  assumes "in_sync s js" and "distinct (map cj_id js)" and "distinct (map cj_id due)"
  shows "fold (\<lambda>j. execute_job cr f (fst (clk j)) (snd (clk j)) (cs_loads s) j) due s =
    s\<lparr>cs_store := Some (settle_in (settled cr f clk) due js)\<rparr>"
  using assms
proof (induction due arbitrary: s js)
  case Nil
  have "List.map_filter Some xs = xs" for xs :: "cron_job list"
    by (induction xs) (simp_all add: map_filter_simps)
  with Nil show ?case by (simp add: settle_in_def in_sync_def)
next
  case (Cons j due)
  let ?js = "settle_in (settled cr f clk) [j] js" and ?g = "settled cr f clk"
  have i: "in_sync (s\<lparr>cs_store := Some ?js\<rparr>) ?js"
    using Cons.prems(1) by (simp add: in_sync_def split: option.splits prod.splits)
  have d: "distinct (map cj_id ?js)" using Cons.prems(2) by (intro distinct_settle_in settled_id)
  have "settle_in ?g (j # due) js = settle_in ?g due ?js"
    using Cons.prems(3) by (intro settle_in_cons settled_id) auto
  with Cons.IH [OF i d] Cons.prems show ?case
    by (simp add: execute_in_sync)
qed

lemma on_timer_in_sync:
  assumes "in_sync s js" and "distinct (map cj_id js)"
  shows "fst (on_timer cr f clk now now' s) = map cj_id (filter (is_due now) js)"
    and "cs_store (snd (on_timer cr f clk now now' s)) =
      Some (List.map_filter (\<lambda>j. if is_due now j then settled cr f clk j else Some j) js)"
proof -
  let ?due = "filter (is_due now) js"
  show "fst (on_timer cr f clk now now' s) = map cj_id ?due"
    by (simp add: on_timer_def load_in_sync [OF assms(1)] Let_def)
  have "find (\<lambda>k. cj_id k = cj_id j) ?due = (if is_due now j then Some j else None)" if "j \<in> set js" for j
    using assms(2) that by (induction js) (auto simp: find_None_iff image_iff split: if_splits)
  then have "settle_in (settled cr f clk) ?due js =
      List.map_filter (\<lambda>j. if is_due now j then settled cr f clk j else Some j) js"
    by (auto simp: settle_in_def List.map_filter_def intro!: map_cong filter_cong)
  moreover have "distinct (map cj_id ?due)" using assms(2) by (rule distinct_map_filter)
  ultimately show "cs_store (snd (on_timer cr f clk now now' s)) =
      Some (List.map_filter (\<lambda>j. if is_due now j then settled cr f clk j else Some j) js)"
    using assms by (simp add: on_timer_def load_in_sync Let_def fold_execute save_store_def)
qed

text \<open>
  What a pass should do, without reference to the code: a job is due when it is enabled and its next run is set
  and not in the future; a due job is run, its outcome and times are recorded, and a one-shot job is removed or disabled,
  a repeating one gets the next time of its schedule after the end of the run.
\<close>

definition due_at :: "int \<Rightarrow> cron_job \<Rightarrow> bool" where
  "due_at now j = (cj_enabled j \<and> (\<exists>t. cj_next j = Some t \<and> t \<noteq> 0 \<and> t \<le> now))"

definition job_after :: "croniter \<Rightarrow> string option \<Rightarrow> int \<Rightarrow> int \<Rightarrow> cron_job \<Rightarrow> cron_job list" where
  "job_after cr failure st en j =
     (if sd_kind (cj_schedule j) = KIND_AT \<and> cj_delete_after_run j then []
      else [j\<lparr>cj_enabled := (sd_kind (cj_schedule j) \<noteq> KIND_AT \<and> cj_enabled j),
              cj_next := (if sd_kind (cj_schedule j) = KIND_AT then None else compute_next_run cr (cj_schedule j) en),
              cj_last := Some st, cj_status := Some (if failure = None then ''ok'' else ''error''), cj_error := failure,
              cj_updated := en\<rparr>])"

lemma is_due_at: "is_due now j \<longleftrightarrow> due_at now j"
  by (auto simp: is_due_def due_at_def split: option.split)

lemma run_job_after:
  assumes "cj_enabled j" and "\<not> (sd_kind (cj_schedule j) = KIND_AT \<and> cj_delete_after_run j)"
  shows "job_after cr (f j) st en j = [after_run cr en (run_result f st en j)]"
proof -
  have "cj_schedule (run_result f st en j) = cj_schedule j" "cj_delete_after_run (run_result f st en j) = cj_delete_after_run j"
    by (simp_all add: run_result_def split: option.split)
  then have "after_run cr en (run_result f st en j) = hd (job_after cr (f j) st en j)"
    using assms by (cases "f j") (simp_all add: job_after_def after_run_def run_result_def)
  then show ?thesis using assms(2) by (auto simp: job_after_def)
qed

lemma settled_job_after:
  assumes "due_at now j"
  shows "(case settled cr f clk j of None \<Rightarrow> [] | Some k \<Rightarrow> [k]) = job_after cr (f j) (fst (clk j)) (snd (clk j)) j"
proof (cases "sd_kind (cj_schedule j) = KIND_AT \<and> cj_delete_after_run j")
  case True
  then show ?thesis by (simp add: settled_def job_after_def)
next
  case False
  moreover have "cj_enabled j" using assms by (simp add: due_at_def)
  ultimately show ?thesis by (simp add: run_job_after settled_def)
qed

lemma concat_map_filter: "concat (map (\<lambda>j. case h j of None \<Rightarrow> [] | Some k \<Rightarrow> [k]) xs) = List.map_filter h xs"
  by (induction xs) (auto simp: map_filter_simps split: option.split)

lemma pass_as_specified:
  "List.map_filter (\<lambda>j. if is_due now j then settled cr f clk j else Some j) js
     = concat (map (\<lambda>j. if due_at now j then job_after cr (f j) (fst (clk j)) (snd (clk j)) j else [j]) js)"
proof -
  have "(case (if is_due now j then settled cr f clk j else Some j) of None \<Rightarrow> [] | Some k \<Rightarrow> [k]) =
      (if due_at now j then job_after cr (f j) (fst (clk j)) (snd (clk j)) j else [j])" for j
    using settled_job_after [of now j cr f clk] by (cases "due_at now j") (simp_all add: is_due_at)
  then show ?thesis by (simp flip: concat_map_filter)
qed

lemma on_timer_file:
  assumes "in_sync s js" and "distinct (map cj_id js)"
  shows "file_jobs (snd (on_timer cr f clk now now' s)) = the (cs_store (snd (on_timer cr f clk now now' s)))"
proof -
  have d: "distinct (map cj_id (filter (is_due now) js))" using assms(2) by (rule distinct_map_filter)
  have "file_jobs (arm_timer t x) = file_jobs x" for t x by (simp add: file_jobs_def)
  then show ?thesis
    by (simp add: on_timer_def load_in_sync [OF assms(1)] Let_def fold_execute [OF assms d] save_store_def file_jobs_def)
qed

text \<open>
  C18. A timer pass over a store in memory whose file nobody else has written since the last save runs exactly the
  jobs that are due, in their order. Afterwards the store, and the file as well, holds the same jobs in the same order,
  each that was due as it should be after its run (removed, or with status, error, last run, update time, and disabled
  or with its next run) and every other unchanged; no job is due any more, and one that repeats every \<open>e\<close>
  milliseconds waits for exactly \<open>e\<close> after the end of its run.
\<close>

theorem cron_timer_pass:
  fixes cr :: croniter and f clk now now' s js
  assumes "in_sync s js" and "distinct (map cj_id js)"
    and "\<And>x tz t n. cr x tz n = Some t \<Longrightarrow> n < t" and "\<And>j. now \<le> snd (clk j)"
  defines "r \<equiv> on_timer cr f clk now now' s"
  defines "left \<equiv> concat (map (\<lambda>j. if due_at now j then job_after cr (f j) (fst (clk j)) (snd (clk j)) j else [j]) js)"
  shows "fst r = map cj_id (filter (due_at now) js) \<and> cs_store (snd r) = Some left \<and> file_jobs (snd r) = left
    \<and> (\<forall>j \<in> set left. \<not> due_at now j)
    \<and> (\<forall>j e. j \<in> set js \<and> due_at now j \<and> sd_kind (cj_schedule j) = KIND_EVERY \<and> sd_every (cj_schedule j) = Some e \<and> 0 < e \<longrightarrow>
         (\<exists>k \<in> set left. cj_id k = cj_id j \<and> cj_enabled k \<and> cj_next k = Some (snd (clk j) + e)))"
proof -
  have due: "is_due now = due_at now" by (rule ext) (rule is_due_at)
  have store: "cs_store (snd r) = Some left"
    unfolding r_def left_def on_timer_in_sync(2) [OF assms(1,2)] pass_as_specified ..
  have later: "now < t" if "compute_next_run cr sd (snd (clk j)) = Some t" for sd t j
    using that assms(3) assms(4) [of j]
    by (fastforce simp: compute_next_run_def split: schedule_kind.splits option.splits if_splits)
  have quiet: "\<not> due_at now k" if "k \<in> set (job_after cr (f j) (fst (clk j)) (snd (clk j)) j)" for j k
  proof -
    have "cj_next k = None \<or> cj_next k = compute_next_run cr (cj_schedule j) (snd (clk j))"
      using that by (simp add: job_after_def split: if_splits)
    with later [of "cj_schedule j" j] show ?thesis by (auto simp: due_at_def)
  qed
  have "\<not> due_at now k" if "k \<in> set left" for k
  proof -
    from that obtain j where "k \<in> set (if due_at now j then job_after cr (f j) (fst (clk j)) (snd (clk j)) j else [j])"
      unfolding left_def set_concat set_map by blast
    with quiet [of k j] show ?thesis by (cases "due_at now j") auto
  qed
  moreover have "\<exists>k \<in> set left. cj_id k = cj_id j \<and> cj_enabled k \<and> cj_next k = Some (snd (clk j) + e)"
    if "j \<in> set js" "due_at now j" "sd_kind (cj_schedule j) = KIND_EVERY" "sd_every (cj_schedule j) = Some e" "0 < e" for j e
  proof -
    have "\<exists>k. job_after cr (f j) (fst (clk j)) (snd (clk j)) j = [k] \<and> cj_id k = cj_id j \<and> cj_enabled k \<and> cj_next k = Some (snd (clk j) + e)"
      using that(2-5) by (simp add: job_after_def compute_next_run_def due_at_def)
    then obtain k where k: "job_after cr (f j) (fst (clk j)) (snd (clk j)) j = [k]"
      "cj_id k = cj_id j \<and> cj_enabled k \<and> cj_next k = Some (snd (clk j) + e)" by blast
    have "k \<in> set left" unfolding left_def using that(1,2) k(1) by (auto intro!: bexI [of _ j])
    moreover note k(2)
    ultimately show ?thesis by blast
  qed
  moreover have "fst r = map cj_id (filter (due_at now) js)" by (simp only: r_def on_timer_in_sync(1) [OF assms(1,2)] due)
  moreover have "file_jobs (snd r) = left" using on_timer_file [OF assms(1,2)] store by (simp add: r_def)
  ultimately show ?thesis using store by blast
qed

text \<open>Three jobs: a repeating one, a one-shot that wants to be deleted, and one that is not due at 1000.\<close>

definition sample_job :: "string \<Rightarrow> schedule \<Rightarrow> int \<Rightarrow> bool \<Rightarrow> cron_job" where
  "sample_job i sd n d = \<lparr>cj_id = i, cj_name = i, cj_enabled = True, cj_schedule = sd,
     cj_payload = \<lparr>py_kind = ''agent_turn'', py_message = [], py_deliver = False, py_channel = None, py_to = None\<rparr>,
     cj_next = Some n, cj_last = None, cj_status = None, cj_error = None, cj_created = 0, cj_updated = 0,
     cj_delete_after_run = d\<rparr>"

definition every_minute :: schedule where
  "every_minute = \<lparr>sd_kind = KIND_EVERY, sd_at = None, sd_every = Some 60, sd_expr = None, sd_tz = None\<rparr>"

definition once_at :: "int \<Rightarrow> schedule" where
  "once_at t = \<lparr>sd_kind = KIND_AT, sd_at = Some t, sd_every = None, sd_expr = None, sd_tz = None\<rparr>"

definition sample_jobs :: "cron_job list" where
  "sample_jobs = [sample_job ''a'' every_minute 900 False, sample_job ''b'' (once_at 950) 950 True,
                  sample_job ''c'' (once_at 2000) 2000 False]"

lemmas sample_defs = sample_jobs_def sample_job_def every_minute_def once_at_def

lemma cron_timer_pass_witness:
  "let s = snd (on_timer (\<lambda>_ _ n. Some (n + 1)) (\<lambda>j. if cj_id j = ''a'' then Some ''boom'' else None) (\<lambda>_. (1000, 1001)) 1000 1002
      (save_store (set_jobs sample_jobs (new_cron None)))) in
     map (\<lambda>j. (cj_id j, cj_next j, cj_status j, cj_error j)) (file_jobs s)
       = [(''a'', Some 1061, Some ''error'', Some ''boom''), (''c'', Some 2000, None, None)]"
proof -
  let ?s = "save_store (set_jobs sample_jobs (new_cron None))" and ?f = "\<lambda>j. if cj_id j = ''a'' then Some ''boom'' else None"
  have i: "in_sync ?s sample_jobs" by (simp add: in_sync_def save_store_def set_jobs_def new_cron_def)
  have d: "distinct (map cj_id sample_jobs)" by (simp add: sample_defs)
  have p: "(\<lambda>_ _ n. Some (n + 1)) (x :: string) (tz :: string option) n = Some t \<Longrightarrow> n < t" "(1000 :: int) \<le> snd ((\<lambda>_. (1000 :: int, 1001 :: int)) (j :: cron_job))"
    for x tz and t n :: int and j by simp_all
  have "file_jobs (snd (on_timer (\<lambda>_ _ n. Some (n + 1)) ?f (\<lambda>_. (1000, 1001)) 1000 1002 ?s)) =
      concat (map (\<lambda>j. if due_at 1000 j then job_after (\<lambda>_ _ n. Some (n + 1)) (?f j) 1000 1001 j else [j]) sample_jobs)"
    using conjunct1 [OF conjunct2 [OF conjunct2 [OF cron_timer_pass [OF i d p]]]] unfolding fst_conv snd_conv .
  moreover have "due_at 1000 (sample_job ''a'' every_minute 900 False)" "due_at 1000 (sample_job ''b'' (once_at 950) 950 True)"
    "\<not> due_at 1000 (sample_job ''c'' (once_at 2000) 2000 False)" by (simp_all add: due_at_def sample_job_def)
  moreover have "job_after cr x st en (sample_job ''b'' (once_at 950) 950 True) = []" for cr x st en
    by (simp add: job_after_def sample_job_def once_at_def)
  moreover have "map (\<lambda>j. (cj_id j, cj_next j, cj_status j, cj_error j))
      (job_after cr (Some ''boom'') 1000 1001 (sample_job ''a'' every_minute 900 False)) = [(''a'', Some 1061, Some ''error'', Some ''boom'')]" for cr
    by (simp add: job_after_def sample_job_def every_minute_def compute_next_run_def)
  moreover have "cj_id (sample_job i sd n d) = i" "cj_next (sample_job i sd n d) = Some n" "cj_status (sample_job i sd n d) = None"
    "cj_error (sample_job i sd n d) = None" for i sd n d by (simp_all add: sample_job_def)
  ultimately show ?thesis unfolding Let_def sample_jobs_def by simp
qed

text \<open>
  Starting the service gives every enabled job a run strictly later than now or none at all. So a one-shot
  job whose time passed while the service was down is still enabled, but no later timer pass runs it.
\<close>

theorem cron_start_skips_missed:
  assumes "\<And>x tz t n. cr x tz n = Some t \<Longrightarrow> n < t"
    and "j \<in> set (fst (load_store s))" and "cj_enabled j" and "cs_store (cron_start cr now s) = Some js"
  shows "recompute cr now j \<in> set js \<and> cj_enabled (recompute cr now j)
    \<and> (\<forall>k \<in> set js. cj_enabled k \<longrightarrow> \<not> is_due now k)
    \<and> (sd_kind (cj_schedule j) = KIND_AT \<and> sd_at (cj_schedule j) = Some t \<and> t \<le> now
         \<longrightarrow> (\<forall>later. \<not> is_due later (recompute cr now j)))"
proof -
  have load: "fst (load_store (s\<lparr>cs_running := True\<rparr>)) = fst (load_store s)"
    by (simp add: load_store_def Let_def split: option.split)
  have js: "js = map (recompute cr now) (fst (load_store s))"
    using assms(4) unfolding load [symmetric]
    by (auto simp: cron_start_def set_jobs_def save_store_def split: prod.splits)
  have "now < u" if "compute_next_run cr sd now = Some u" for sd u
    using that assms(1) by (fastforce simp: compute_next_run_def split: schedule_kind.splits option.splits if_splits)
  then have "\<forall>k \<in> set js. cj_enabled k \<longrightarrow> \<not> is_due now k"
    by (fastforce simp: js is_due_def recompute_def split: option.splits)
  with assms(2,3) show ?thesis
    by (auto simp: js recompute_def is_due_def compute_next_run_def)
qed

lemma cron_start_skips_missed_witness:
  "\<not> is_due 99999 (recompute (\<lambda>_ _ n. Some (n + 1)) 1000 (sample_job ''b'' (once_at 950) 950 True))"
proof -
  let ?s = "save_store (set_jobs sample_jobs (new_cron None))"
  have "fst (load_store ?s) = sample_jobs"
    by (simp add: load_store_def save_store_def set_jobs_def new_cron_def)
  moreover obtain js where "cs_store (cron_start (\<lambda>_ _ n. Some (n + 1)) 1000 ?s) = Some js"
    by (simp add: cron_start_def load_store_def save_store_def set_jobs_def new_cron_def)
  ultimately show ?thesis
    using cron_start_skips_missed [of "\<lambda>_ _ n. Some (n + 1)" "sample_job ''b'' (once_at 950) 950 True" ?s 1000 js 950]
    by (simp add: sample_defs)
qed

end
