(* ===== verification/Subagent_Pool.thy ===== *)
theory Subagent_Pool
  imports Amber_Prelude
begin

text \<open>
  \<open>subagent/agent.py\<close> and \<open>subagent/pool.py\<close>: workers and the pool that runs at most \<open>max_concurrency\<close> of
  them. The coroutines of \<open>submit\<close> are entries of a list; an event lets one of them take its next step,
  so every interleaving the event loop may choose is a sequence of events. \<open>asyncio.Semaphore\<close> is
  modelled with its queue of waiters: a waiter is granted the slot first and resumed later, and the
  exception of a requested cancellation is thrown at the coroutine's next step.
  \<open>subagent/isolation.py\<close> follows at the end.
\<close>

section \<open>Tasks and workers\<close>

datatype sub_status = SUB_PENDING | SUB_RUNNING | SUB_COMPLETED | SUB_FAILED | SUB_CANCELLED | SUB_TIMEOUT

record sub_task =
  st_id :: string
  st_text :: string
  st_timeout :: pyfloat

record sub_result =
  sr_task :: string
  sr_status :: sub_status
  sr_output :: "string option"
  sr_error :: "string option"

text \<open>How the runner of a task ends; \<open>wait_for\<close> raises \<open>TimeoutError\<close> at the time limit.\<close>

datatype run_end = Returned string | TimedOut | Raised string | WasCancelled

text \<open>\<open>SubagentWorker.run\<close> after the runner has ended: the status and the result it stores.\<close>

definition worker_result :: "(pyfloat \<Rightarrow> string) \<Rightarrow> sub_task \<Rightarrow> run_end \<Rightarrow> sub_result" where
  "worker_result fmt t e =
     (case e of
        Returned s \<Rightarrow> \<lparr>sr_task = st_id t, sr_status = SUB_COMPLETED, sr_output = Some s, sr_error = None\<rparr>
      | TimedOut \<Rightarrow> \<lparr>sr_task = st_id t, sr_status = SUB_TIMEOUT, sr_output = None,
                     sr_error = Some (''Task timed out after '' @ fmt (st_timeout t) @ '' seconds'')\<rparr>
      | WasCancelled \<Rightarrow> \<lparr>sr_task = st_id t, sr_status = SUB_CANCELLED, sr_output = None,
                         sr_error = Some ''Task execution was cancelled''\<rparr>
      | Raised x \<Rightarrow> \<lparr>sr_task = st_id t, sr_status = SUB_FAILED, sr_output = None, sr_error = Some x\<rparr>)"

datatype phase = Created | Waiting | Granted | Running | Finished

text \<open>A coroutine with its worker; \<open>co_cancel\<close> says that a cancellation was requested.\<close>

record coro =
  co_task :: sub_task
  co_session :: "string option"
  co_phase :: phase
  co_cancel :: bool
  co_status :: sub_status

section \<open>The pool\<close>

record pool =
  sp_coros :: "coro list"
  sp_value :: nat
  sp_waiters :: "nat list"
  sp_active :: "(string, nat) pydict"
  sp_completed :: "(string, sub_result) pydict"
  sp_sessions :: "(string, string list) pydict"
  sp_tasks :: "(string, nat) pydict"

definition new_pool :: "int \<Rightarrow> pool option" where
  "new_pool n = (if n < 1 then None
     else Some \<lparr>sp_coros = [], sp_value = nat n, sp_waiters = [], sp_active = [], sp_completed = [],
                sp_sessions = [], sp_tasks = []\<rparr>)"

definition update_coro :: "nat \<Rightarrow> (coro \<Rightarrow> coro) \<Rightarrow> pool \<Rightarrow> pool" where
  "update_coro i f p = p\<lparr>sp_coros := (sp_coros p)[i := f (sp_coros p ! i)]\<rparr>"

definition set_phase :: "phase \<Rightarrow> nat \<Rightarrow> pool \<Rightarrow> pool" where
  "set_phase ph i = update_coro i (\<lambda>c. c\<lparr>co_phase := ph\<rparr>)"

text \<open>A waiter whose future is neither set nor cancelled.\<close>

definition pending :: "pool \<Rightarrow> nat \<Rightarrow> bool" where
  "pending p i = (co_phase (sp_coros p ! i) = Waiting \<and> \<not> co_cancel (sp_coros p ! i))"

definition wake_next :: "pool \<Rightarrow> pool option" where
  "wake_next p = map_option (\<lambda>i. set_phase Granted i (p\<lparr>sp_value := sp_value p - 1\<rparr>)) (find (pending p) (sp_waiters p))"

text \<open>\<open>while self._value > 0: if not self._wake_up_next(): break\<close>; every round takes one from the value.\<close>

fun wake_up_to :: "nat \<Rightarrow> pool \<Rightarrow> pool" where
  "wake_up_to 0 p = p"
| "wake_up_to (Suc n) p = (case wake_next p of None \<Rightarrow> p | Some p' \<Rightarrow> wake_up_to n p')"

definition wake_all :: "pool \<Rightarrow> pool" where
  "wake_all p = wake_up_to (sp_value p) p"

definition sem_release :: "pool \<Rightarrow> pool" where
  "sem_release p = (let p = p\<lparr>sp_value := sp_value p + 1\<rparr> in case wake_next p of None \<Rightarrow> p | Some p' \<Rightarrow> p')"

definition sem_locked :: "pool \<Rightarrow> bool" where
  "sem_locked p = (sp_value p = 0 \<or> (\<exists>i \<in> set (sp_waiters p). pending p i \<or> co_phase (sp_coros p ! i) = Granted))"

text \<open>\<open>submit\<close>: the worker is active and the coroutine is created, not started.\<close>

definition submit :: "sub_task \<Rightarrow> string option \<Rightarrow> pool \<Rightarrow> pool" where
  "submit t session p =
     (let i = length (sp_coros p); k = st_id t;
          p = p\<lparr>sp_active := dset k i (sp_active p)\<rparr>;
          p = (case session of
                 Some s \<Rightarrow> if s = [] then p
                   else p\<lparr>sp_sessions := dset s (List.insert k (dgetd (sp_sessions p) s [])) (sp_sessions p)\<rparr>
               | None \<Rightarrow> p)
      in p\<lparr>sp_coros := sp_coros p @ [\<lparr>co_task = t, co_session = session, co_phase = Created, co_cancel = False,
                                      co_status = SUB_PENDING\<rparr>],
           sp_tasks := dset k i (sp_tasks p)\<rparr>)"

definition enter_run :: "nat \<Rightarrow> pool \<Rightarrow> pool" where
  "enter_run i = update_coro i (\<lambda>c. c\<lparr>co_phase := Running, co_status := SUB_RUNNING\<rparr>)"

text \<open>First step of a coroutine: \<open>async with self._semaphore\<close>.\<close>

definition begin_coro :: "nat \<Rightarrow> pool \<Rightarrow> pool" where
  "begin_coro i p =
     (if sem_locked p then set_phase Waiting i (p\<lparr>sp_waiters := sp_waiters p @ [i]\<rparr>)
      else enter_run i (p\<lparr>sp_value := sp_value p - 1\<rparr>))"

definition resume_coro :: "nat \<Rightarrow> pool \<Rightarrow> pool" where
  "resume_coro i p = wake_all (enter_run i (p\<lparr>sp_waiters := remove1 i (sp_waiters p)\<rparr>))"

text \<open>
  The exception of a cancellation reaches a coroutine that has not entered the \<open>try\<close> yet: it ends there and
  none of the cleanup is run. A slot it had been granted goes back.
\<close>

definition throw_coro :: "nat \<Rightarrow> pool \<Rightarrow> pool" where
  "throw_coro i p =
     (let ph = co_phase (sp_coros p ! i); p = set_phase Finished i p
      in if ph = Created then p
         else let p = p\<lparr>sp_waiters := remove1 i (sp_waiters p)\<rparr>;
                  p = (if ph = Granted then p\<lparr>sp_value := sp_value p + 1\<rparr> else p)
              in wake_all p)"

text \<open>The runner ends: result, \<open>finally\<close> and the release of the slot.\<close>

definition forget_session :: "string option \<Rightarrow> string \<Rightarrow> pool \<Rightarrow> pool" where
  "forget_session session k p =
     (case session of
        None \<Rightarrow> p
      | Some s \<Rightarrow>
          (let tids = dgetd (sp_sessions p) s []; left = filter (\<lambda>x. x \<noteq> k) tids
           in if s = [] \<or> tids = [] then p
              else if left = [] then p\<lparr>sp_sessions := dpop s (sp_sessions p)\<rparr>
              else p\<lparr>sp_sessions := dset s left (sp_sessions p)\<rparr>))"

definition settle_coro :: "(pyfloat \<Rightarrow> string) \<Rightarrow> nat \<Rightarrow> run_end \<Rightarrow> pool \<Rightarrow> pool" where
  "settle_coro fmt i e p =
     (let c = sp_coros p ! i; k = st_id (co_task c); r = worker_result fmt (co_task c) e;
          p = update_coro i (\<lambda>c. c\<lparr>co_status := sr_status r, co_phase := Finished\<rparr>) p;
          p = p\<lparr>sp_active := dpop k (sp_active p), sp_completed := dset k r (sp_completed p)\<rparr>
      in sem_release (forget_session (co_session c) k p))"

section \<open>Queries and cancellation\<close>

definition active_count :: "pool \<Rightarrow> nat" where
  "active_count p = length (sp_active p)"

definition completed_count :: "pool \<Rightarrow> nat" where
  "completed_count p = length (sp_completed p)"

definition get_status :: "string \<Rightarrow> pool \<Rightarrow> sub_status option" where
  "get_status k p =
     (case dget (sp_active p) k of
        Some i \<Rightarrow> Some (co_status (sp_coros p ! i))
      | None \<Rightarrow> map_option sr_status (dget (sp_completed p) k))"

definition get_result :: "string \<Rightarrow> pool \<Rightarrow> sub_result option" where
  "get_result k p = dget (sp_completed p) k"

definition cancel_task :: "string \<Rightarrow> pool \<Rightarrow> bool \<times> pool" where
  "cancel_task k p =
     (case dget (sp_tasks p) k of
        None \<Rightarrow> (False, p)
      | Some i \<Rightarrow>
          if co_phase (sp_coros p ! i) = Finished then (False, p)
          else (let p = update_coro i (\<lambda>c. c\<lparr>co_cancel := True\<rparr>) p
                in (True, case dget (sp_active p) k of
                            None \<Rightarrow> p
                          | Some j \<Rightarrow> update_coro j (\<lambda>c. c\<lparr>co_status := SUB_CANCELLED\<rparr>) p)))"

fun cancel_each :: "string list \<Rightarrow> pool \<Rightarrow> nat \<times> pool" where
  "cancel_each [] p = (0, p)"
| "cancel_each (k # ks) p =
     (let (b, p) = cancel_task k p; (n, p) = cancel_each ks p in (if b then Suc n else n, p))"

definition cancel_session :: "string \<Rightarrow> pool \<Rightarrow> nat \<times> pool" where
  "cancel_session s p = cancel_each (dgetd (sp_sessions p) s []) p"

definition cancel_all :: "pool \<Rightarrow> nat \<times> pool" where
  "cancel_all p = cancel_each (dkeys (sp_tasks p)) p"

text \<open>\<open>SubagentWorker.cancel\<close>, called on the worker itself.\<close>

definition worker_cancel :: "nat \<Rightarrow> pool \<Rightarrow> bool \<times> pool" where
  "worker_cancel i p =
     (if co_phase (sp_coros p ! i) = Finished then (False, p)
      else (True, update_coro i (\<lambda>c. c\<lparr>co_cancel := True, co_status := SUB_CANCELLED\<rparr>) p))"

section \<open>Events\<close>

datatype pool_event =
    Submit sub_task "string option"
  | Begin nat
  | Resume nat
  | Throw nat
  | Settle nat run_end
  | Cancel string
  | CancelSession string
  | CancelAll
  | CancelWorker nat

text \<open>When the event loop may take the step; a step that is not possible leaves the pool alone.\<close>

fun possible :: "pool_event \<Rightarrow> pool \<Rightarrow> bool" where
  "possible (Begin i) p = (i < length (sp_coros p) \<and> co_phase (sp_coros p ! i) = Created \<and> \<not> co_cancel (sp_coros p ! i))"
| "possible (Resume i) p = (i < length (sp_coros p) \<and> co_phase (sp_coros p ! i) = Granted \<and> \<not> co_cancel (sp_coros p ! i))"
| "possible (Throw i) p = (i < length (sp_coros p) \<and> co_phase (sp_coros p ! i) \<in> {Created, Waiting, Granted}
     \<and> co_cancel (sp_coros p ! i))"
| "possible (Settle i e) p = (i < length (sp_coros p) \<and> co_phase (sp_coros p ! i) = Running)"
| "possible (CancelWorker i) p = (i < length (sp_coros p))"
| "possible _ p = True"

fun pool_effect :: "(pyfloat \<Rightarrow> string) \<Rightarrow> pool_event \<Rightarrow> pool \<Rightarrow> pool" where
  "pool_effect fmt (Submit t s) p = submit t s p"
| "pool_effect fmt (Begin i) p = begin_coro i p"
| "pool_effect fmt (Resume i) p = resume_coro i p"
| "pool_effect fmt (Throw i) p = throw_coro i p"
| "pool_effect fmt (Settle i e) p = settle_coro fmt i e p"
| "pool_effect fmt (Cancel k) p = snd (cancel_task k p)"
| "pool_effect fmt (CancelSession s) p = snd (cancel_session s p)"
| "pool_effect fmt CancelAll p = snd (cancel_all p)"
| "pool_effect fmt (CancelWorker i) p = snd (worker_cancel i p)"

definition pool_step :: "(pyfloat \<Rightarrow> string) \<Rightarrow> pool_event \<Rightarrow> pool \<Rightarrow> pool" where
  "pool_step fmt e p = (if possible e p then pool_effect fmt e p else p)"

section \<open>Slots\<close>

abbreviation holds_slot :: "coro \<Rightarrow> bool" where
  "holds_slot c \<equiv> co_phase c \<in> {Granted, Running}"

definition holders :: "pool \<Rightarrow> nat" where
  "holders p = length (filter holds_slot (sp_coros p))"

definition queue_ok :: "pool \<Rightarrow> bool" where
  "queue_ok p = (distinct (sp_waiters p)
     \<and> set (sp_waiters p) = {i. i < length (sp_coros p) \<and> co_phase (sp_coros p ! i) \<in> {Waiting, Granted}})"

definition slots_ok :: "nat \<Rightarrow> pool \<Rightarrow> bool" where
  "slots_ok n p = (sp_value p + holders p = n \<and> queue_ok p)"

definition granted_waiter :: "pool \<Rightarrow> bool" where
  "granted_waiter p = (\<exists>i \<in> set (sp_waiters p). co_phase (sp_coros p ! i) = Granted)"

definition pending_waiter :: "pool \<Rightarrow> bool" where
  "pending_waiter p = (\<exists>i \<in> set (sp_waiters p). pending p i)"

definition pool_inv :: "nat \<Rightarrow> pool \<Rightarrow> bool" where
  "pool_inv n p = (slots_ok n p \<and> (0 < sp_value p \<longrightarrow> pending_waiter p \<longrightarrow> granted_waiter p))"

lemma length_filter_update:
  "i < length xs \<Longrightarrow> length (filter P (xs[i := x])) + (if P (xs ! i) then 1 else 0) =
     length (filter P xs) + (if P x then 1 else 0)"
proof (induction xs arbitrary: i)
  case Nil
  then show ?case by simp
next
  case (Cons y ys)
  show ?case
  proof (cases i)
    case 0
    then show ?thesis by simp
  next
    case (Suc j)
    with Cons.IH [of j] Cons.prems show ?thesis by (simp split: if_splits)
  qed
qed

lemma coro_fields [simp]:
  "length (sp_coros (update_coro i f p)) = length (sp_coros p)"
  "sp_value (update_coro i f p) = sp_value p" "sp_waiters (update_coro i f p) = sp_waiters p"
  "sp_active (update_coro i f p) = sp_active p" "sp_completed (update_coro i f p) = sp_completed p"
  "sp_sessions (update_coro i f p) = sp_sessions p" "sp_tasks (update_coro i f p) = sp_tasks p"
  by (simp_all add: update_coro_def)

lemma coro_nth: "sp_coros (update_coro i f p) ! j =
    (if j = i \<and> i < length (sp_coros p) then f (sp_coros p ! i) else sp_coros p ! j)"
  by (cases "i < length (sp_coros p)") (auto simp: update_coro_def nth_list_update not_less list_update_beyond)

lemma holders_update:
  assumes "i < length (sp_coros p)"
  shows "holders (update_coro i f p) + (if holds_slot (sp_coros p ! i) then 1 else 0) =
    holders p + (if holds_slot (f (sp_coros p ! i)) then 1 else 0)"
  using length_filter_update [OF assms, of holds_slot "f (sp_coros p ! i)"]
  by (simp add: holders_def update_coro_def)

lemma holders_fields [simp]:
  "holders (p\<lparr>sp_value := v\<rparr>) = holders p" "holders (p\<lparr>sp_waiters := w\<rparr>) = holders p"
  "holders (p\<lparr>sp_active := a\<rparr>) = holders p" "holders (p\<lparr>sp_completed := c\<rparr>) = holders p"
  "holders (p\<lparr>sp_sessions := x\<rparr>) = holders p" "holders (p\<lparr>sp_tasks := t\<rparr>) = holders p"
  by (simp_all add: holders_def)

lemma find_in: "find P xs = Some x \<Longrightarrow> x \<in> set xs \<and> P x"
  by (auto simp: find_Some_iff)

lemma wake_next_slots:
  assumes q: "queue_ok p" and v: "0 < sp_value p" and w: "wake_next p = Some p'"
  shows "queue_ok p' \<and> sp_value p' + holders p' = sp_value p + holders p
    \<and> Suc (sp_value p') = sp_value p \<and> granted_waiter p'"
proof -
  obtain i where i: "find (pending p) (sp_waiters p) = Some i"
    and p': "p' = set_phase Granted i (p\<lparr>sp_value := sp_value p - 1\<rparr>)"
    using w by (auto simp: wake_next_def)
  from find_in [OF i] have m: "i \<in> set (sp_waiters p)" and pd: "pending p i" by auto
  with q have len: "i < length (sp_coros p)" by (auto simp: queue_ok_def)
  have "\<not> holds_slot (sp_coros p ! i)" using pd by (simp add: pending_def)
  then have "holders p' = Suc (holders p)"
    using holders_update [of i "p\<lparr>sp_value := sp_value p - 1\<rparr>" "\<lambda>c. c\<lparr>co_phase := Granted\<rparr>"] len
    by (simp add: p' set_phase_def)
  moreover have "queue_ok p'" using q pd len
    by (auto simp: p' set_phase_def queue_ok_def coro_nth pending_def)
  moreover have "granted_waiter p'" using m len by (auto simp: p' set_phase_def granted_waiter_def coro_nth)
  ultimately show ?thesis using v by (simp add: p' set_phase_def)
qed

lemma wake_up_to_slots:
  "slots_ok n p \<Longrightarrow> m \<le> sp_value p \<Longrightarrow> slots_ok n (wake_up_to m p) \<and>
     (sp_value (wake_up_to m p) + m = sp_value p \<or> \<not> pending_waiter (wake_up_to m p))"
proof (induction m p rule: wake_up_to.induct)
  case (1 p)
  then show ?case by simp
next
  case (2 m p)
  show ?case
  proof (cases "wake_next p")
    case None
    then have "\<not> pending_waiter p" by (auto simp: wake_next_def find_None_iff pending_waiter_def)
    with None 2 show ?thesis by simp
  next
    case (Some p')
    have "queue_ok p" and "0 < sp_value p" using 2 by (auto simp: slots_ok_def)
    note w = wake_next_slots [OF this Some]
    with 2 have "slots_ok n p'" and "m \<le> sp_value p'" by (auto simp: slots_ok_def)
    from 2(1) [OF Some this] w show ?thesis by (auto simp: Some)
  qed
qed

lemma wake_all_inv: "slots_ok n p \<Longrightarrow> pool_inv n (wake_all p)"
  using wake_up_to_slots [of n p "sp_value p"] by (auto simp: wake_all_def pool_inv_def)

text \<open>Changes of a coroutine that leave its phase alone, and of the books, do not touch the slots.\<close>

lemma flag_inv:
  assumes "pool_inv n p" and "co_phase (f (sp_coros p ! i)) = co_phase (sp_coros p ! i)"
    and "co_cancel (sp_coros p ! i) \<longrightarrow> co_cancel (f (sp_coros p ! i))"
  shows "pool_inv n (update_coro i f p)"
proof (cases "i < length (sp_coros p)")
  case True
  have "holders (update_coro i f p) = holders p"
    using holders_update [OF True, of f] assms(2) by (simp split: if_splits)
  moreover have "queue_ok (update_coro i f p) = queue_ok p"
    using assms(2) by (auto simp: queue_ok_def coro_nth)
  moreover have "granted_waiter (update_coro i f p) = granted_waiter p"
    using assms(2) by (auto simp: granted_waiter_def coro_nth)
  moreover have "pending_waiter (update_coro i f p) \<Longrightarrow> pending_waiter p"
    using assms(2,3) by (auto simp: pending_waiter_def pending_def coro_nth split: if_splits)
  ultimately show ?thesis using assms(1) by (auto simp: pool_inv_def slots_ok_def)
next
  case False
  then have "update_coro i f p = p" by (simp add: update_coro_def not_less list_update_beyond)
  with assms(1) show ?thesis by simp
qed

lemma cancel_task_inv: "pool_inv n p \<Longrightarrow> pool_inv n (snd (cancel_task k p))"
  by (auto simp: cancel_task_def Let_def split: option.split intro!: flag_inv)

lemma cancel_each_inv: "pool_inv n p \<Longrightarrow> pool_inv n (snd (cancel_each ks p))"
proof (induction ks arbitrary: p)
  case Nil
  then show ?case by simp
next
  case (Cons k ks)
  from Cons.IH [OF cancel_task_inv [OF Cons.prems, of k]] show ?case by (simp add: case_prod_beta Let_def)
qed

lemma pool_submit_inv:
  assumes "pool_inv n p"
  shows "pool_inv n (submit t s p)"
proof -
  have f: "sp_value (submit t s p) = sp_value p" "sp_waiters (submit t s p) = sp_waiters p"
    "\<exists>c. sp_coros (submit t s p) = sp_coros p @ [c] \<and> co_phase c = Created"
    by (auto simp: submit_def Let_def split: option.split)
  then obtain c where c: "sp_coros (submit t s p) = sp_coros p @ [c]" "co_phase c = Created" by blast
  have "holders (submit t s p) = holders p" using c by (simp add: holders_def)
  moreover have q: "queue_ok p" using assms by (simp add: pool_inv_def slots_ok_def)
  then have in_range: "\<And>i. i \<in> set (sp_waiters p) \<Longrightarrow> sp_coros (submit t s p) ! i = sp_coros p ! i"
    using c by (simp add: queue_ok_def nth_append)
  have "{i. i < length (sp_coros p @ [c]) \<and> co_phase ((sp_coros p @ [c]) ! i) \<in> {Waiting, Granted}}
      = {i. i < length (sp_coros p) \<and> co_phase (sp_coros p ! i) \<in> {Waiting, Granted}}"
    using c(2) by (auto simp: nth_append less_Suc_eq)
  with q have "queue_ok (submit t s p)" by (simp only: queue_ok_def c(1) f(2))
  moreover have "granted_waiter (submit t s p) = granted_waiter p"
    and "pending_waiter (submit t s p) = pending_waiter p"
    by (simp_all add: granted_waiter_def pending_waiter_def pending_def f(2) in_range cong: bex_cong)
  ultimately show ?thesis using assms f(1) by (simp add: pool_inv_def slots_ok_def)
qed

lemma begin_inv:
  assumes inv: "pool_inv n p" and i: "i < length (sp_coros p)" and ph: "co_phase (sp_coros p ! i) = Created"
  shows "pool_inv n (begin_coro i p)"
proof -
  have q: "queue_ok p" and v: "sp_value p + holders p = n" using inv by (simp_all add: pool_inv_def slots_ok_def)
  have notin: "i \<notin> set (sp_waiters p)" using q ph by (simp add: queue_ok_def)
  show ?thesis
  proof (cases "sem_locked p")
    case True
    let ?p = "set_phase Waiting i (p\<lparr>sp_waiters := sp_waiters p @ [i]\<rparr>)"
    have "holders ?p = holders p"
      using holders_update [of i "p\<lparr>sp_waiters := sp_waiters p @ [i]\<rparr>" "\<lambda>c. c\<lparr>co_phase := Waiting\<rparr>"] i ph
      by (simp add: set_phase_def)
    moreover have "queue_ok ?p" using q i notin by (auto simp: queue_ok_def set_phase_def coro_nth)
    moreover have "granted_waiter ?p" if "0 < sp_value p"
    proof -
      have "granted_waiter p"
        using True that inv by (auto simp: sem_locked_def pool_inv_def granted_waiter_def pending_waiter_def)
      then obtain j where "j \<in> set (sp_waiters p)" "co_phase (sp_coros p ! j) = Granted"
        unfolding granted_waiter_def by blast
      with notin show ?thesis unfolding granted_waiter_def
        by (intro bexI [of _ j]) (auto simp: set_phase_def coro_nth)
    qed
    ultimately show ?thesis using True v by (simp add: begin_coro_def pool_inv_def slots_ok_def set_phase_def)
  next
    case False
    let ?p = "enter_run i (p\<lparr>sp_value := sp_value p - 1\<rparr>)"
    have "holders ?p = Suc (holders p)"
      using holders_update [of i "p\<lparr>sp_value := sp_value p - 1\<rparr>" "\<lambda>c. c\<lparr>co_phase := Running, co_status := SUB_RUNNING\<rparr>"]
        i ph by (simp add: enter_run_def)
    moreover have "{j. j < length (sp_coros ?p) \<and> co_phase (sp_coros ?p ! j) \<in> {Waiting, Granted}} =
        {j. j < length (sp_coros p) \<and> co_phase (sp_coros p ! j) \<in> {Waiting, Granted}}"
      using i ph by (intro Collect_cong) (simp add: enter_run_def coro_nth)
    with q have "queue_ok ?p" by (simp add: queue_ok_def enter_run_def)
    moreover have "\<not> pending_waiter ?p"
    proof -
      have "pending ?p j = pending p j" if "j \<in> set (sp_waiters p)" for j
        using that notin by (auto simp: pending_def enter_run_def coro_nth)
      with False show ?thesis by (simp add: sem_locked_def pending_waiter_def enter_run_def)
    qed
    ultimately show ?thesis using False v
      by (simp add: begin_coro_def pool_inv_def slots_ok_def) (simp add: enter_run_def sem_locked_def)
  qed
qed

lemma enter_run_slots:
  assumes "slots_ok n p" and "i < length (sp_coros p)" and "co_phase (sp_coros p ! i) = Granted"
  shows "slots_ok n (enter_run i (p\<lparr>sp_waiters := remove1 i (sp_waiters p)\<rparr>))"
proof -
  let ?p = "p\<lparr>sp_waiters := remove1 i (sp_waiters p)\<rparr>"
  have "holders (enter_run i ?p) = holders p"
    using holders_update [of i ?p "\<lambda>c. c\<lparr>co_phase := Running, co_status := SUB_RUNNING\<rparr>"] assms(2,3)
    by (simp add: enter_run_def)
  moreover have "queue_ok (enter_run i ?p)"
    using assms by (auto simp: slots_ok_def queue_ok_def enter_run_def coro_nth)
  ultimately show ?thesis using assms(1) by (simp add: slots_ok_def enter_run_def)
qed

lemma resume_inv:
  assumes "pool_inv n p" and "i < length (sp_coros p)" and "co_phase (sp_coros p ! i) = Granted"
  shows "pool_inv n (resume_coro i p)"
  unfolding resume_coro_def
  using assms by (intro wake_all_inv enter_run_slots) (simp_all add: pool_inv_def)

text \<open>A coroutine that leaves the queue or the run: its slot, if it had one, must be given back.\<close>

lemma finish_slots:
  assumes "slots_ok n p" and i: "i < length (sp_coros p)"
    and f: "co_phase (f (sp_coros p ! i)) = Finished"
  defines "q \<equiv> update_coro i f (p\<lparr>sp_waiters := remove1 i (sp_waiters p)\<rparr>)"
  shows "slots_ok n (if holds_slot (sp_coros p ! i) then q\<lparr>sp_value := sp_value q + 1\<rparr> else q)"
proof -
  have h: "holders q + (if holds_slot (sp_coros p ! i) then 1 else 0) = holders p"
    using holders_update [of i "p\<lparr>sp_waiters := remove1 i (sp_waiters p)\<rparr>" f] i f by (simp add: q_def)
  have "queue_ok q" using assms(1) i f
    by (auto simp: slots_ok_def queue_ok_def q_def coro_nth)
  then have "queue_ok (q\<lparr>sp_value := v\<rparr>)" for v by (simp add: queue_ok_def)
  with \<open>queue_ok q\<close> h assms(1) show ?thesis by (auto simp: slots_ok_def q_def)
qed

lemma throw_inv:
  assumes inv: "pool_inv n p" and i: "i < length (sp_coros p)"
    and ph: "co_phase (sp_coros p ! i) \<in> {Created, Waiting, Granted}"
  shows "pool_inv n (throw_coro i p)"
proof -
  let ?f = "\<lambda>c. c\<lparr>co_phase := Finished\<rparr>"
  have sl: "slots_ok n p" using inv by (simp add: pool_inv_def)
  note fin = finish_slots [OF sl i, of ?f, simplified]
  show ?thesis
  proof (cases "co_phase (sp_coros p ! i) = Created")
    case True
    then have notin: "i \<notin> set (sp_waiters p)" using sl by (auto simp: slots_ok_def queue_ok_def)
    have "slots_ok n (update_coro i ?f p)" using fin True notin by (simp add: remove1_idem)
    moreover have "granted_waiter (update_coro i ?f p) = granted_waiter p"
      and "pending_waiter (update_coro i ?f p) = pending_waiter p"
      using notin by (auto simp: granted_waiter_def pending_waiter_def pending_def coro_nth)
    ultimately show ?thesis using True inv by (simp add: throw_coro_def set_phase_def pool_inv_def)
  next
    case False
    have upd: "(update_coro i ?f p)\<lparr>sp_waiters := w\<rparr> = update_coro i ?f (p\<lparr>sp_waiters := w\<rparr>)" for w
      by (simp add: update_coro_def)
    show ?thesis using False ph fin
      by (auto simp: throw_coro_def set_phase_def upd Let_def intro!: wake_all_inv)
  qed
qed

lemma release_inv:
  assumes "slots_ok n (p\<lparr>sp_value := sp_value p + 1\<rparr>)" and "0 < sp_value p \<longrightarrow> pending_waiter p \<longrightarrow> granted_waiter p"
  shows "pool_inv n (sem_release p)"
proof (cases "wake_next (p\<lparr>sp_value := sp_value p + 1\<rparr>)")
  case None
  then have "\<not> pending_waiter (p\<lparr>sp_value := sp_value p + 1\<rparr>)"
    by (auto simp: wake_next_def find_None_iff pending_waiter_def)
  with None assms show ?thesis by (simp add: sem_release_def pool_inv_def)
next
  case (Some p')
  have "queue_ok (p\<lparr>sp_value := sp_value p + 1\<rparr>)" using assms by (simp add: slots_ok_def)
  from wake_next_slots [OF this _ Some] assms(1) Some show ?thesis
    by (auto simp: sem_release_def pool_inv_def slots_ok_def)
qed

lemma forget_session_fields [simp]:
  "sp_coros (forget_session s k p) = sp_coros p" "sp_value (forget_session s k p) = sp_value p"
  "sp_waiters (forget_session s k p) = sp_waiters p" "sp_active (forget_session s k p) = sp_active p"
  "sp_completed (forget_session s k p) = sp_completed p" "sp_tasks (forget_session s k p) = sp_tasks p"
  by (simp_all add: forget_session_def Let_def split: option.split)

lemma slots_cong:
  assumes "sp_coros q = sp_coros p" and "sp_waiters q = sp_waiters p"
  shows "holders q = holders p" "queue_ok q = queue_ok p" "granted_waiter q = granted_waiter p"
    "pending_waiter q = pending_waiter p"
proof -
  have "pending q = pending p" using assms by (auto simp: pending_def)
  with assms show "holders q = holders p" "queue_ok q = queue_ok p" "granted_waiter q = granted_waiter p"
    "pending_waiter q = pending_waiter p"
    by (simp_all add: holders_def queue_ok_def granted_waiter_def pending_waiter_def)
qed

lemma settle_inv:
  assumes inv: "pool_inv n p" and i: "i < length (sp_coros p)" and ph: "co_phase (sp_coros p ! i) = Running"
  shows "pool_inv n (settle_coro fmt i e p)"
proof -
  let ?r = "worker_result fmt (co_task (sp_coros p ! i)) e"
  let ?f = "\<lambda>c. c\<lparr>co_status := sr_status ?r, co_phase := Finished\<rparr>"
  define q where "q = update_coro i ?f p"
  obtain q' where q': "settle_coro fmt i e p = sem_release q'" "sp_coros q' = sp_coros q"
    "sp_waiters q' = sp_waiters q" "sp_value q' = sp_value q"
    by (simp add: settle_coro_def q_def Let_def)
  have sl: "slots_ok n p" using inv by (simp add: pool_inv_def)
  then have notin: "i \<notin> set (sp_waiters p)" using ph by (auto simp: slots_ok_def queue_ok_def)
  have "slots_ok n (q\<lparr>sp_value := sp_value q + 1\<rparr>)"
    using finish_slots [OF sl i, of ?f] ph notin by (simp add: q_def remove1_idem)
  then have a: "slots_ok n (q'\<lparr>sp_value := sp_value q' + 1\<rparr>)"
    using slots_cong [of "q'\<lparr>sp_value := sp_value q' + 1\<rparr>" "q\<lparr>sp_value := sp_value q + 1\<rparr>"] q'
    by (simp add: slots_ok_def)
  have "granted_waiter q = granted_waiter p" "pending_waiter q = pending_waiter p"
    using notin by (auto simp: q_def granted_waiter_def pending_waiter_def pending_def coro_nth)
  with inv slots_cong [OF q'(2,3)] q' have "0 < sp_value q' \<longrightarrow> pending_waiter q' \<longrightarrow> granted_waiter q'"
    by (simp add: pool_inv_def q_def)
  from release_inv [OF a this] show ?thesis by (simp add: q')
qed

lemma pool_step_inv: "pool_inv n p \<Longrightarrow> pool_inv n (pool_step fmt e p)"
  by (cases e)
    (auto simp: pool_step_def worker_cancel_def cancel_session_def cancel_all_def
      intro!: pool_submit_inv begin_inv resume_inv throw_inv settle_inv cancel_task_inv cancel_each_inv flag_inv)

interpretation subagents: machine "pool_step fmt" "pool_inv n" for fmt n
  by unfold_locales (rule pool_step_inv)

lemma new_pool_inv: "new_pool n = Some p \<Longrightarrow> pool_inv (nat n) p \<and> 1 \<le> n"
  by (auto simp: new_pool_def pool_inv_def slots_ok_def holders_def queue_ok_def pending_waiter_def split: if_splits)

text \<open>
  C4. Whatever the interleaving of submissions, steps, results and cancellations, at most \<open>max_concurrency\<close>
  runners run at once; and while a task waits for a slot, some coroutine holds one, so the queue never
  stalls.
\<close>

theorem pool_concurrency_bound:
  fixes fmt :: "pyfloat \<Rightarrow> string" and es n p0
  assumes "new_pool n = Some p0"
  defines "p \<equiv> fold (pool_step fmt) es p0"
  shows "int (length (filter (\<lambda>c. co_phase c = Running) (sp_coros p))) \<le> n
    \<and> (if \<exists>i < length (sp_coros p). pending p i then \<exists>c \<in> set (sp_coros p). holds_slot c else True)"
proof -
  have inv: "pool_inv (nat n) p" and n: "1 \<le> n"
    unfolding p_def using new_pool_inv [OF assms(1)] by (auto intro: subagents.run_inv)
  have "length (filter (\<lambda>c. co_phase c = Running) cs) \<le> length (filter holds_slot cs)" for cs
    by (induction cs) auto
  from this [of "sp_coros p"] have "int (length (filter (\<lambda>c. co_phase c = Running) (sp_coros p))) \<le> n"
    using inv n by (simp add: pool_inv_def slots_ok_def holders_def) linarith
  moreover have "\<exists>c \<in> set (sp_coros p). holds_slot c" if "i < length (sp_coros p)" "pending p i" for i
  proof (cases "sp_value p = 0")
    case True
    then have "holders p \<noteq> 0" using inv n by (simp add: pool_inv_def slots_ok_def)
    then show ?thesis by (auto simp: holders_def filter_empty_conv)
  next
    case False
    have "pending_waiter p" using that inv by (auto simp: pending_waiter_def pool_inv_def slots_ok_def queue_ok_def pending_def)
    with False inv obtain j where "j \<in> set (sp_waiters p)" "co_phase (sp_coros p ! j) = Granted"
      by (auto simp: pool_inv_def granted_waiter_def)
    with inv show ?thesis by (intro bexI [of _ "sp_coros p ! j"]) (auto simp: pool_inv_def slots_ok_def queue_ok_def)
  qed
  ultimately show ?thesis by auto
qed

definition sample_task :: "string \<Rightarrow> sub_task" where
  "sample_task k = \<lparr>st_id = k, st_text = ''t'', st_timeout = 300\<rparr>"

definition sample_run :: "pool_event list" where
  "sample_run = [Submit (sample_task ''a'') None, Begin 0, Submit (sample_task ''b'') None, Begin 1]"

lemma pool_concurrency_bound_witness:
  "int (length (filter (\<lambda>c. co_phase c = Running)
      (sp_coros (fold (pool_step (\<lambda>_. ''300.0'')) sample_run (the (new_pool 1)))))) \<le> 1
   \<and> map co_phase (sp_coros (fold (pool_step (\<lambda>_. ''300.0'')) sample_run (the (new_pool 1)))) = [Running, Waiting]"
proof
  show "int (length (filter (\<lambda>c. co_phase c = Running)
      (sp_coros (fold (pool_step (\<lambda>_. ''300.0'')) sample_run (the (new_pool 1)))))) \<le> 1"
    using pool_concurrency_bound [of 1 "the (new_pool 1)" "\<lambda>_. ''300.0''" sample_run] by (simp add: new_pool_def)
  show "map co_phase (sp_coros (fold (pool_step (\<lambda>_. ''300.0'')) sample_run (the (new_pool 1)))) = [Running, Waiting]"
    by code_simp
qed

section \<open>The books\<close>

definition id_of :: "pool \<Rightarrow> nat \<Rightarrow> string" where
  "id_of p i = st_id (co_task (sp_coros p ! i))"

definition all_ids :: "pool \<Rightarrow> string list" where
  "all_ids p = map (\<lambda>c. st_id (co_task c)) (sp_coros p)"

fun submitted :: "pool_event list \<Rightarrow> string list" where
  "submitted [] = []"
| "submitted (Submit t s # es) = st_id t # submitted es"
| "submitted (_ # es) = submitted es"

text \<open>A task is active, or it is finished and has a result.\<close>

definition books_ok :: "pool \<Rightarrow> bool" where
  "books_ok p =
     (distinct (all_ids p) \<and> dict_ok (sp_active p) \<and> dict_ok (sp_completed p)
      \<and> (\<forall>i < length (sp_coros p). dget (sp_tasks p) (id_of p i) = Some i
          \<and> (dget (sp_active p) (id_of p i) = Some i \<and> dget (sp_completed p) (id_of p i) = None
             \<or> co_phase (sp_coros p ! i) = Finished \<and> dget (sp_active p) (id_of p i) = None
               \<and> dget (sp_completed p) (id_of p i) \<noteq> None))
      \<and> (\<forall>k. k \<notin> set (all_ids p) \<longrightarrow> dget (sp_active p) k = None \<and> dget (sp_completed p) k = None))"

text \<open>What all steps but submitting and settling have in common.\<close>

definition calm :: "pool \<Rightarrow> pool \<Rightarrow> bool" where
  "calm p q =
     (sp_active q = sp_active p \<and> sp_completed q = sp_completed p \<and> sp_tasks q = sp_tasks p
      \<and> length (sp_coros q) = length (sp_coros p)
      \<and> (\<forall>i < length (sp_coros p). co_task (sp_coros q ! i) = co_task (sp_coros p ! i)
           \<and> (co_phase (sp_coros p ! i) = Finished \<longrightarrow> co_phase (sp_coros q ! i) = Finished)))"

lemma calm_refl [simp]: "calm p p"
  by (simp add: calm_def)

lemma calm_trans: "calm p q \<Longrightarrow> calm q r \<Longrightarrow> calm p r"
  by (simp add: calm_def)

lemma calm_update:
  assumes "co_task (f (sp_coros p ! i)) = co_task (sp_coros p ! i)"
    and "co_phase (sp_coros p ! i) = Finished \<Longrightarrow> co_phase (f (sp_coros p ! i)) = Finished"
  shows "calm p (update_coro i f p)"
  using assms by (auto simp: calm_def coro_nth)

lemma calm_fields [simp]:
  "calm (p\<lparr>sp_value := v\<rparr>) q = calm p q" "calm (p\<lparr>sp_waiters := w\<rparr>) q = calm p q"
  "calm p (q\<lparr>sp_value := v\<rparr>) = calm p q" "calm p (q\<lparr>sp_waiters := w\<rparr>) = calm p q"
  "calm p (q\<lparr>sp_sessions := s\<rparr>) = calm p q"
  by (simp_all add: calm_def)

lemma calm_wake_next: "wake_next p = Some q \<Longrightarrow> calm p q"
  by (auto simp: wake_next_def set_phase_def pending_def dest!: find_in
      intro!: calm_update [where p = "p\<lparr>sp_value := sp_value p - 1\<rparr>", simplified])

lemma calm_wake_up_to: "calm p (wake_up_to m p)"
  by (induction m p rule: wake_up_to.induct) (auto split: option.split dest: calm_wake_next intro: calm_trans)

lemma calm_release: "calm p (sem_release p)"
  using calm_wake_next [of "p\<lparr>sp_value := sp_value p + 1\<rparr>"] by (auto simp: sem_release_def Let_def split: option.split)

lemma calm_wake_all: "calm p (wake_all p)"
  by (simp add: wake_all_def calm_wake_up_to)

lemma calm_cancel_task: "calm p (snd (cancel_task k p))"
proof -
  have flag: "calm q (update_coro i (\<lambda>c. c\<lparr>co_cancel := True\<rparr>) q)" for q i by (rule calm_update) simp_all
  have "calm q (update_coro i (\<lambda>c. c\<lparr>co_status := SUB_CANCELLED\<rparr>) q)" for q i by (rule calm_update) simp_all
  note both = calm_trans [OF flag this]
  show ?thesis by (simp add: cancel_task_def Let_def flag both split: option.split)
qed

lemma calm_cancel_each: "calm p (snd (cancel_each ks p))"
proof (induction ks arbitrary: p)
  case Nil
  then show ?case by simp
next
  case (Cons k ks)
  from calm_trans [OF calm_cancel_task Cons.IH] show ?case by (simp add: case_prod_beta Let_def)
qed

fun takes_books :: "pool_event \<Rightarrow> bool" where
  "takes_books (Submit t s) = True"
| "takes_books (Settle i e) = True"
| "takes_books _ = False"

lemma calm_step:
  assumes "possible e p" and "\<not> takes_books e"
  shows "calm p (pool_effect fmt e p)"
proof (cases e)
  case (Begin i)
  with assms show ?thesis
    by (auto simp: begin_coro_def set_phase_def enter_run_def
        intro!: calm_update [where p = "p\<lparr>sp_value := v\<rparr>" for v, simplified]
          calm_update [where p = "p\<lparr>sp_waiters := w\<rparr>" for w, simplified])
next
  case (Resume i)
  have "calm p (enter_run i (p\<lparr>sp_waiters := remove1 i (sp_waiters p)\<rparr>))"
    using assms Resume by (auto simp: enter_run_def intro!: calm_update [where p = "p\<lparr>sp_waiters := w\<rparr>" for w, simplified])
  from calm_trans [OF this calm_wake_all] show ?thesis by (simp add: Resume resume_coro_def)
next
  case (Throw i)
  have "calm p (set_phase Finished i p)" by (auto simp: set_phase_def intro!: calm_update)
  then show ?thesis
    by (auto simp: Throw throw_coro_def Let_def intro!: calm_trans [OF _ calm_wake_all])
next
  case (CancelWorker i)
  then show ?thesis by (auto simp: worker_cancel_def intro!: calm_update)
qed (use assms in \<open>simp_all add: cancel_session_def cancel_all_def calm_cancel_task calm_cancel_each\<close>)

lemma calm_ids: "calm p q \<Longrightarrow> all_ids q = all_ids p \<and> (\<forall>i < length (sp_coros p). id_of q i = id_of p i)"
  by (auto simp: calm_def all_ids_def id_of_def intro: nth_equalityI)

lemma calm_books: "calm p q \<Longrightarrow> books_ok p \<Longrightarrow> books_ok q"
  using calm_ids [of p q] unfolding books_ok_def calm_def by metis

lemma submit_books:
  assumes "books_ok p" and "st_id t \<notin> set (all_ids p)"
  shows "books_ok (submit t s p)" "all_ids (submit t s p) = all_ids p @ [st_id t]"
proof -
  define q where "q = submit t s p"
  obtain c where c: "sp_coros q = sp_coros p @ [c]" "st_id (co_task c) = st_id t"
    and f: "sp_active q = dset (st_id t) (length (sp_coros p)) (sp_active p)"
    "sp_completed q = sp_completed p" "sp_tasks q = dset (st_id t) (length (sp_coros p)) (sp_tasks p)"
    by (auto simp: q_def submit_def Let_def split: option.split)
  show ids: "all_ids (submit t s p) = all_ids p @ [st_id t]" using c by (simp add: all_ids_def q_def)
  have id: "id_of q i = (if i < length (sp_coros p) then id_of p i else st_id t)" if "i < length (sp_coros q)" for i
    using that c by (auto simp: id_of_def nth_append less_Suc_eq)
  have ne: "id_of p i \<noteq> st_id t" if "i < length (sp_coros p)" for i
  proof -
    have "id_of p i \<in> set (all_ids p)" using that by (simp add: all_ids_def id_of_def)
    with assms(2) show ?thesis by auto
  qed
  have "\<forall>i < length (sp_coros q). dget (sp_tasks q) (id_of q i) = Some i
          \<and> (dget (sp_active q) (id_of q i) = Some i \<and> dget (sp_completed q) (id_of q i) = None
             \<or> co_phase (sp_coros q ! i) = Finished \<and> dget (sp_active q) (id_of q i) = None
               \<and> dget (sp_completed q) (id_of q i) \<noteq> None)"
  proof (intro allI impI)
    fix i assume i: "i < length (sp_coros q)"
    show "dget (sp_tasks q) (id_of q i) = Some i
          \<and> (dget (sp_active q) (id_of q i) = Some i \<and> dget (sp_completed q) (id_of q i) = None
             \<or> co_phase (sp_coros q ! i) = Finished \<and> dget (sp_active q) (id_of q i) = None
               \<and> dget (sp_completed q) (id_of q i) \<noteq> None)"
    proof (cases "i < length (sp_coros p)")
      case True
      with assms(1) ne [OF True] id [OF i] c f show ?thesis by (auto simp: books_ok_def nth_append)
    next
      case False
      with i c have "i = length (sp_coros p)" by simp
      with assms id [OF i] f show ?thesis by (simp add: books_ok_def)
    qed
  qed
  with assms f ids show "books_ok (submit t s p)" by (auto simp: books_ok_def q_def)
qed

lemma settle_fields:
  fixes p i fmt e
  defines "k \<equiv> id_of p i"
  shows "calm (p\<lparr>sp_active := dpop k (sp_active p),
      sp_completed := dset k (worker_result fmt (co_task (sp_coros p ! i)) e) (sp_completed p),
      sp_coros := (sp_coros p)[i := (sp_coros p ! i)\<lparr>co_status := sr_status (worker_result fmt (co_task (sp_coros p ! i)) e),
        co_phase := Finished\<rparr>]\<rparr>) (settle_coro fmt i e p)"
  by (auto simp: settle_coro_def k_def id_of_def Let_def intro!: calm_trans [OF _ calm_release])
     (simp add: calm_def update_coro_def)

lemma settle_books:
  assumes "books_ok p" and i: "i < length (sp_coros p)"
  shows "books_ok (settle_coro fmt i e p) \<and> all_ids (settle_coro fmt i e p) = all_ids p"
proof -
  let ?k = "id_of p i" and ?r = "worker_result fmt (co_task (sp_coros p ! i)) e"
  define q where "q = p\<lparr>sp_active := dpop ?k (sp_active p), sp_completed := dset ?k ?r (sp_completed p),
      sp_coros := (sp_coros p)[i := (sp_coros p ! i)\<lparr>co_status := sr_status ?r, co_phase := Finished\<rparr>]\<rparr>"
  have ids: "all_ids q = all_ids p" using i by (auto simp: q_def all_ids_def nth_list_update intro: nth_equalityI)
  have id: "id_of q j = id_of p j" for j using i by (cases "j = i") (auto simp: q_def id_of_def)
  have ne: "id_of p j \<noteq> ?k" if "j < length (sp_coros p)" "j \<noteq> i" for j
    using assms that by (auto simp: books_ok_def all_ids_def id_of_def distinct_conv_nth)
  have "dget (sp_tasks q) (id_of q j) = Some j
          \<and> (dget (sp_active q) (id_of q j) = Some j \<and> dget (sp_completed q) (id_of q j) = None
             \<or> co_phase (sp_coros q ! j) = Finished \<and> dget (sp_active q) (id_of q j) = None
               \<and> dget (sp_completed q) (id_of q j) \<noteq> None)" if "j < length (sp_coros q)" for j
    using assms(1) that ne [of j] i unfolding id by (cases "j = i") (auto simp: books_ok_def q_def)
  moreover have "?k \<in> set (all_ids p)" using i by (auto simp: all_ids_def id_of_def)
  ultimately have "books_ok q" using assms(1) ids by (auto simp: books_ok_def q_def)
  moreover have "calm q (settle_coro fmt i e p)" unfolding q_def by (rule settle_fields)
  ultimately show ?thesis using calm_books calm_ids ids by metis
qed

lemma books_run:
  assumes "books_ok p" and "distinct (submitted es)" and "set (submitted es) \<inter> set (all_ids p) = {}"
  shows "books_ok (fold (pool_step fmt) es p) \<and> all_ids (fold (pool_step fmt) es p) = all_ids p @ submitted es"
  using assms
proof (induction es arbitrary: p)
  case Nil
  then show ?case by simp
next
  case (Cons e es)
  let ?p = "pool_step fmt e p"
  show ?case
  proof (cases "\<exists>t s. e = Submit t s")
    case True
    then obtain t s where e: "e = Submit t s" by blast
    with Cons.prems submit_books [of p t s] Cons.IH [of ?p] show ?thesis by (auto simp: pool_step_def)
  next
    case False
    have "books_ok ?p \<and> all_ids ?p = all_ids p"
    proof (cases "possible e p")
      case True
      show ?thesis
      proof (cases "takes_books e")
        case tb: True
        with False obtain i o' where "e = Settle i o'" by (cases e) auto
        with True settle_books [OF Cons.prems(1)] show ?thesis by (simp add: pool_step_def)
      next
        case False
        from calm_step [OF True False] Cons.prems(1) True show ?thesis
          using calm_books calm_ids by (auto simp: pool_step_def)
      qed
    qed (use Cons.prems in \<open>simp add: pool_step_def\<close>)
    moreover have "submitted (e # es) = submitted es" using False by (cases e) auto
    ultimately show ?thesis using Cons.IH [of ?p] Cons.prems by simp
  qed
qed

lemma new_pool_books: "new_pool n = Some p \<Longrightarrow> books_ok p \<and> all_ids p = []"
  by (auto simp: new_pool_def books_ok_def all_ids_def dict_ok_def split: if_splits)

lemma set_ids: "set (all_ids p) = {id_of p i | i. i < length (sp_coros p)}"
  by (force simp: all_ids_def id_of_def in_set_conv_nth)

text \<open>
  No task is lost: after any interleaving, every submitted task (with its own identifier) is either
  active or has a result, never both, and the two counts add up to the number of submissions.
\<close>

theorem pool_tasks_accounted:
  fixes fmt :: "pyfloat \<Rightarrow> string" and es n p0
  assumes "new_pool n = Some p0" and "distinct (submitted es)"
  defines "p \<equiv> fold (pool_step fmt) es p0"
  shows "(\<forall>k \<in> set (submitted es). get_status k p \<noteq> None \<and> ((get_result k p = None) \<longleftrightarrow> (dget (sp_active p) k \<noteq> None)))
    \<and> active_count p + completed_count p = length (submitted es)"
proof -
  have b: "books_ok p" and ids: "all_ids p = submitted es"
    using books_run [of p0 es fmt] new_pool_books [OF assms(1)] assms(2) by (auto simp: p_def)
  have one: "(dget (sp_active p) k \<noteq> None) \<noteq> (dget (sp_completed p) k \<noteq> None)" if "k \<in> set (submitted es)" for k
    using b that unfolding ids [symmetric] set_ids by (auto simp: books_ok_def)
  have none: "dget (sp_active p) k = None \<and> dget (sp_completed p) k = None" if "k \<notin> set (submitted es)" for k
    using b that by (simp add: books_ok_def ids)
  have card: "length d = card {k. dget d k \<noteq> None}" if "dict_ok d" for d :: "(string, 'b) pydict"
  proof -
    have "{k. dget d k \<noteq> None} = set (dkeys d)" using dom_map_of_conv_image_fst [of d] by (auto simp: dom_def)
    moreover have "card (set (dkeys d)) = length d" using that distinct_card [of "dkeys d"] by (simp add: dict_ok_def)
    ultimately show ?thesis by simp
  qed
  have "active_count p + completed_count p =
      card {k. dget (sp_active p) k \<noteq> None} + card {k. dget (sp_completed p) k \<noteq> None}"
    using b card [of "sp_active p"] card [of "sp_completed p"]
    by (simp add: books_ok_def active_count_def completed_count_def)
  also have "\<dots> = card ({k. dget (sp_active p) k \<noteq> None} \<union> {k. dget (sp_completed p) k \<noteq> None})"
  proof (rule card_Un_disjoint [symmetric])
    show "finite {k. dget (sp_active p) k \<noteq> None}" "finite {k. dget (sp_completed p) k \<noteq> None}"
      by (rule finite_dom_map_of [unfolded dom_def])+
    have "\<not> (dget (sp_active p) k \<noteq> None \<and> dget (sp_completed p) k \<noteq> None)" for k
      using one [of k] none [of k] by (cases "k \<in> set (submitted es)"; cases "dget (sp_completed p) k") simp_all
    then show "{k. dget (sp_active p) k \<noteq> None} \<inter> {k. dget (sp_completed p) k \<noteq> None} = {}"
      by blast
  qed
  also have "{k. dget (sp_active p) k \<noteq> None} \<union> {k. dget (sp_completed p) k \<noteq> None} = set (submitted es)"
  proof -
    have "(dget (sp_active p) k \<noteq> None \<or> dget (sp_completed p) k \<noteq> None) = (k \<in> set (submitted es))" for k
      using one [of k] none [of k] by (cases "k \<in> set (submitted es)"; cases "dget (sp_completed p) k") simp_all
    then show ?thesis by (simp add: set_eq_iff)
  qed
  finally have "active_count p + completed_count p = length (submitted es)"
    using assms(2) by (simp add: distinct_card)
  moreover have "get_status k p \<noteq> None \<and> ((get_result k p = None) \<longleftrightarrow> (dget (sp_active p) k \<noteq> None))"
    if "k \<in> set (submitted es)" for k
    using one [OF that] by (cases "dget (sp_active p) k") (simp_all add: get_status_def get_result_def)
  ultimately show ?thesis by blast
qed

lemma pool_tasks_accounted_witness:
  "let p = fold (pool_step (\<lambda>_. ''300.0'')) (sample_run @ [Settle 0 (Returned ''done'')]) (the (new_pool 1))
   in active_count p + completed_count p = 2 \<and> map_option sr_output (get_result ''a'' p) = Some (Some ''done'')
      \<and> get_status ''b'' p = Some SUB_PENDING"
proof -
  let ?p = "fold (pool_step (\<lambda>_. ''300.0'')) (sample_run @ [Settle 0 (Returned ''done'')]) (the (new_pool 1))"
  have "active_count ?p + completed_count ?p = 2"
    using pool_tasks_accounted [of 1 "the (new_pool 1)" "sample_run @ [Settle 0 (Returned ''done'')]" "\<lambda>_. ''300.0''"]
    by (simp add: new_pool_def sample_run_def sample_task_def del: fold_simps)
  moreover have "map_option sr_output (get_result ''a'' ?p) = Some (Some ''done'') \<and> get_status ''b'' ?p = Some SUB_PENDING"
    by code_simp
  ultimately show ?thesis by (simp only: Let_def)
qed

definition stuck :: "nat \<Rightarrow> pool \<Rightarrow> bool" where
  "stuck i p = (books_ok p \<and> i < length (sp_coros p) \<and> co_phase (sp_coros p ! i) = Finished
     \<and> dget (sp_active p) (id_of p i) = Some i)"

lemma stuck_calm: "stuck i p \<Longrightarrow> calm p q \<Longrightarrow> stuck i q \<and> id_of q i = id_of p i"
  using calm_books [of p q] calm_ids [of p q] by (auto simp: stuck_def calm_def)

lemma stuck_step:
  assumes "stuck i p" and "\<And>t s. e = Submit t s \<Longrightarrow> st_id t \<notin> set (all_ids p)"
  shows "stuck i (pool_step fmt e p) \<and> id_of (pool_step fmt e p) i = id_of p i"
proof (cases "possible e p \<and> takes_books e")
  case False
  then show ?thesis using stuck_calm [OF assms(1) calm_step [of e p fmt]] assms(1) by (auto simp: pool_step_def)
next
  case True
  have i: "i < length (sp_coros p)" and b: "books_ok p" using assms(1) by (simp_all add: stuck_def)
  from True consider t s where "e = Submit t s" | j o' where "e = Settle j o'" by (cases e) auto
  then show ?thesis
  proof cases
    case 1
    have "id_of p i \<in> set (all_ids p)" using i by (auto simp: set_ids)
    with assms(2) [OF 1] have "id_of p i \<noteq> st_id t" by auto
    moreover obtain c where "sp_coros (submit t s p) = sp_coros p @ [c]"
      and "sp_active (submit t s p) = dset (st_id t) (length (sp_coros p)) (sp_active p)"
      by (auto simp: submit_def Let_def split: option.split)
    ultimately show ?thesis using assms(1) submit_books(1) [OF b assms(2) [OF 1], of s] i
      by (simp add: 1 pool_step_def stuck_def id_of_def nth_append)
  next
    case 2
    with True have j: "j < length (sp_coros p)" "j \<noteq> i" using assms(1) by (auto simp: stuck_def)
    have ne: "id_of p j \<noteq> id_of p i" using b j i by (auto simp: books_ok_def all_ids_def id_of_def distinct_conv_nth)
    from settle_fields [of p j fmt o'] settle_books [OF b j(1), of fmt o'] True 2 assms(1) i ne j
    show ?thesis by (auto simp: pool_step_def stuck_def calm_def id_of_def)
  qed
qed

lemma stuck_run:
  assumes "stuck i p" and "distinct (submitted es)" and "set (submitted es) \<inter> set (all_ids p) = {}"
  shows "stuck i (fold (pool_step fmt) es p) \<and> id_of (fold (pool_step fmt) es p) i = id_of p i"
  using assms
proof (induction es arbitrary: p)
  case Nil
  then show ?case by simp
next
  case (Cons e es)
  let ?p = "pool_step fmt e p"
  have "books_ok p" using Cons.prems(1) by (simp add: stuck_def)
  have sub: "submitted (e # es) = submitted [e] @ submitted es" by (cases e) auto
  have "all_ids ?p = all_ids p @ submitted [e]"
    using books_run [of p "[e]" fmt] \<open>books_ok p\<close> Cons.prems(2,3) unfolding sub by (simp add: Int_Un_distrib2)
  moreover have "st_id t \<notin> set (all_ids p)" if "e = Submit t s" for t s using Cons.prems(3) that by auto
  note stuck_step [OF Cons.prems(1) this, where fmt = fmt]
  ultimately show ?case using Cons.IH [of ?p] Cons.prems(2,3) unfolding sub by auto
qed

text \<open>
  A task cancelled before its coroutine has entered the semaphore ends without the cleanup of the pool:
  it stays among the active tasks for ever, never gets a result and cannot be cancelled again, whatever
  happens afterwards.
\<close>

theorem pool_cancel_queued_leaks:
  fixes fmt :: "pyfloat \<Rightarrow> string" and es later n p0 i
  assumes "new_pool n = Some p0" and d: "distinct (submitted es @ submitted later)"
  defines "p \<equiv> fold (pool_step fmt) es p0"
  defines "q \<equiv> fold (pool_step fmt) (Throw i # later) p"
  assumes th: "possible (Throw i) p"
  shows "dget (sp_active q) (id_of p i) = Some i \<and> get_result (id_of p i) q = None
    \<and> cancel_task (id_of p i) q = (False, q)"
proof -
  have b: "books_ok p" and ids: "all_ids p = submitted es"
    using books_run [of p0 es fmt] new_pool_books [OF assms(1)] d by (auto simp: p_def)
  have i: "i < length (sp_coros p)" "co_phase (sp_coros p ! i) \<noteq> Finished" using th by auto
  let ?t = "throw_coro i p"
  have c: "calm p ?t" using calm_step [of "Throw i" p fmt] th by simp
  have "calm (set_phase Finished i p) ?t"
    by (auto simp: throw_coro_def Let_def intro!: calm_trans [OF _ calm_wake_all])
  then have "co_phase (sp_coros ?t ! i) = Finished"
    using i by (simp add: calm_def set_phase_def coro_nth)
  moreover have "dget (sp_active p) (id_of p i) = Some i" using b i by (auto simp: books_ok_def)
  ultimately have "stuck i ?t" and id: "id_of ?t i = id_of p i"
    using calm_books [OF c b] calm_ids [OF c] c i by (auto simp: stuck_def calm_def)
  moreover have "q = fold (pool_step fmt) later ?t" using th by (simp add: q_def pool_step_def)
  moreover have "all_ids ?t = submitted es" using calm_ids [OF c] ids by simp
  ultimately have "stuck i q \<and> id_of q i = id_of p i"
    using stuck_run [of i ?t later fmt] d id by (auto simp: Int_commute)
  then show ?thesis
    by (auto simp: stuck_def books_ok_def get_result_def cancel_task_def)
qed

lemma pool_cancel_queued_leaks_witness:
  "get_status ''b'' (fold (pool_step (\<lambda>_. ''300.0'')) (sample_run @ [Cancel ''b'', Throw 1, Settle 0 (Returned ''done'')])
       (the (new_pool 1))) = Some SUB_CANCELLED
   \<and> get_result ''b'' (fold (pool_step (\<lambda>_. ''300.0'')) [Throw 1, Settle 0 (Returned ''done'')]
       (fold (pool_step (\<lambda>_. ''300.0'')) (sample_run @ [Cancel ''b'']) (the (new_pool 1)))) = None"
proof
  show "get_status ''b'' (fold (pool_step (\<lambda>_. ''300.0'')) (sample_run @ [Cancel ''b'', Throw 1, Settle 0 (Returned ''done'')])
       (the (new_pool 1))) = Some SUB_CANCELLED" by code_simp
  let ?p = "fold (pool_step (\<lambda>_. ''300.0'')) (sample_run @ [Cancel ''b'']) (the (new_pool 1))"
  have "possible (Throw 1) ?p" and "id_of ?p 1 = ''b''" by code_simp+
  then show "get_result ''b'' (fold (pool_step (\<lambda>_. ''300.0'')) [Throw 1, Settle 0 (Returned ''done'')] ?p) = None"
    using pool_cancel_queued_leaks [of 1 "the (new_pool 1)" "sample_run @ [Cancel ''b'']" "[Settle 0 (Returned ''done'')]" 1 "\<lambda>_. ''300.0''"]
    by (simp add: new_pool_def sample_run_def sample_task_def del: fold_simps possible.simps)
qed

section \<open>Isolation\<close>

text \<open>
  A resolved path is the list of its components; \<open>resolve\<close> stands for \<open>Path.resolve\<close> on the file system,
  \<open>None\<close> when it raises.
\<close>

type_synonym fs_path = "string list"

record isolation_policy =
  ip_read_only :: bool
  ip_allow_network :: bool
  ip_max_memory :: int
  ip_max_time :: pyfloat
  ip_env_allowlist :: "string list"

record isolation_context =
  ic_policy :: isolation_policy
  ic_workspace :: fs_path
  ic_allowed :: "fs_path list"

definition path_parents :: "fs_path \<Rightarrow> fs_path list" where
  "path_parents p = map (\<lambda>n. take n p) (rev [0..<length p])"

definition is_path_allowed :: "(string \<Rightarrow> fs_path option) \<Rightarrow> isolation_context \<Rightarrow> bool \<Rightarrow> string \<Rightarrow> bool" where
  "is_path_allowed resolve c write t =
     (if write \<and> ip_read_only (ic_policy c) then False
      else case resolve t of
        None \<Rightarrow> False
      | Some r \<Rightarrow> r = ic_workspace c \<or> ic_workspace c \<in> set (path_parents r)
                  \<or> (\<exists>a \<in> set (ic_allowed c). r = a \<or> a \<in> set (path_parents r)))"

datatype isolation_error = PathViolation string | ResolveError string

definition validate_path ::
  "(string \<Rightarrow> fs_path option) \<Rightarrow> isolation_context \<Rightarrow> bool \<Rightarrow> string \<Rightarrow> isolation_error + fs_path" where
  "validate_path resolve c write t =
     (if \<not> is_path_allowed resolve c write t then Inl (PathViolation t)
      else case resolve t of None \<Rightarrow> Inl (ResolveError t) | Some r \<Rightarrow> Inr r)"

definition sanitize_environment :: "isolation_context \<Rightarrow> (string, string) pydict \<Rightarrow> (string, string) pydict" where
  "sanitize_environment c source =
     fold (\<lambda>k d. case dget source k of None \<Rightarrow> d | Some v \<Rightarrow> dset k v d) (ip_env_allowlist (ic_policy c)) []"

definition check_memory :: "isolation_context \<Rightarrow> pyfloat \<Rightarrow> bool" where
  "check_memory c usage = (\<not> usage > of_int (ip_max_memory (ic_policy c)))"

lemma path_parents_iff: "r = a \<or> a \<in> set (path_parents r) \<longleftrightarrow> prefix a r"
proof -
  have "(\<exists>n < length r. a = take n r) \<longleftrightarrow> strict_prefix a r"
    by (metis append_take_drop_id order_less_imp_le prefix_length_less strict_prefix_def append_eq_conv_conj
        length_take min.absorb2 prefix_def take_all_iff not_le)
  then show ?thesis by (auto simp: path_parents_def image_iff strict_prefix_def)
qed

text \<open>
  Containment: a path is handed out exactly when it resolves to a place inside the workspace or one of the
  additional roots, and never for writing under a read-only policy; a worker's environment holds the
  allowlisted variables of its source and nothing else.
\<close>

theorem isolation_contains:
  "(validate_path resolve c write t = Inr r \<longleftrightarrow>
      resolve t = Some r \<and> \<not> (write \<and> ip_read_only (ic_policy c))
      \<and> (\<exists>root \<in> set (ic_workspace c # ic_allowed c). prefix root r))
   \<and> dget (sanitize_environment c env) k = (if k \<in> set (ip_env_allowlist (ic_policy c)) then dget env k else None)"
proof -
  have "dget (fold (\<lambda>k d. case dget env k of None \<Rightarrow> d | Some v \<Rightarrow> dset k v d) ks d) k =
    (if k \<in> set ks then (case dget env k of None \<Rightarrow> dget d k | Some v \<Rightarrow> Some v) else dget d k)" for ks d
    by (induction ks arbitrary: d) (auto split: option.split)
  then have "dget (sanitize_environment c env) k = (if k \<in> set (ip_env_allowlist (ic_policy c)) then dget env k else None)"
    by (simp add: sanitize_environment_def split: option.split)
  moreover have "is_path_allowed resolve c write t \<longleftrightarrow> (\<exists>r. resolve t = Some r \<and> \<not> (write \<and> ip_read_only (ic_policy c))
      \<and> (\<exists>root \<in> set (ic_workspace c # ic_allowed c). prefix root r))"
    by (simp add: is_path_allowed_def path_parents_iff [symmetric] split: option.split)
  ultimately show ?thesis by (auto simp: validate_path_def split: option.split)
qed

end
