(* ===== verification/Tool_Calls.thy ===== *)
theory Tool_Calls
  imports Cron_Service
begin

text \<open>
  \<open>agent/tools/base.py\<close>, \<open>agent/tools/registry.py\<close>, \<open>security/auth.py\<close> and \<open>agent/tools/cron.py\<close>: the schema
  of a tool's parameters, the casts and the validation before a call, the role check, the registry that
  executes tools, and the scheduling tool on top of the cron service. How Python reads a number from a
  text and prints a value is a parameter (\<open>pytext\<close>); \<open>nan\<close> and the infinities, which are no JSON
  numbers, are not among the readings.
\<close>

section \<open>Schemas\<close>

datatype schema = Schema
  (sc_type: "string option")
  (sc_enum: "json list option")
  (sc_minimum: "rat option")
  (sc_maximum: "rat option")
  (sc_min_length: "int option")
  (sc_max_length: "int option")
  (sc_required: "string list")
  (sc_properties: "(string \<times> schema) list")
  (sc_items: "schema option")

definition plain :: "string \<Rightarrow> schema" where
  "plain t = Schema (Some t) None None None None None [] [] None"

record pytext =
  pt_int :: "string \<Rightarrow> int option"
  pt_float :: "string \<Rightarrow> rat option"
  pt_str :: "json \<Rightarrow> string"
  pt_num :: "rat \<Rightarrow> string"

text \<open>The keys of \<open>_TYPE_MAP\<close> and the values of these Python types; \<open>bool\<close> is not an integer here.\<close>

definition type_ok :: "string option \<Rightarrow> json \<Rightarrow> bool" where
  "type_ok t v =
     (if t = Some ''integer'' then (case v of JInt _ \<Rightarrow> True | _ \<Rightarrow> False)
      else if t = Some ''number'' then (case v of JInt _ \<Rightarrow> True | JFloat _ \<Rightarrow> True | _ \<Rightarrow> False)
      else if t = Some ''string'' then (case v of JStr _ \<Rightarrow> True | _ \<Rightarrow> False)
      else if t = Some ''boolean'' then (case v of JBool _ \<Rightarrow> True | _ \<Rightarrow> False)
      else if t = Some ''array'' then (case v of JList _ \<Rightarrow> True | _ \<Rightarrow> False)
      else if t = Some ''object'' then (case v of JObj _ \<Rightarrow> True | _ \<Rightarrow> False)
      else True)"

section \<open>Casts\<close>

definition to_integer :: "pytext \<Rightarrow> string \<Rightarrow> json" where
  "to_integer e x = (case pt_int e x of Some i \<Rightarrow> JInt i | None \<Rightarrow> JStr x)"

definition to_number :: "pytext \<Rightarrow> string \<Rightarrow> json" where
  "to_number e x = (case pt_float e x of Some r \<Rightarrow> JFloat r | None \<Rightarrow> JStr x)"

definition to_boolean :: "string \<Rightarrow> json" where
  "to_boolean x =
     (if lower x \<in> {''true'', ''1'', ''yes''} then JBool True
      else if lower x \<in> {''false'', ''0'', ''no''} then JBool False else JStr x)"

definition to_string :: "pytext \<Rightarrow> string option \<Rightarrow> json \<Rightarrow> json" where
  "to_string e t v = (if t = Some ''string'' then JStr (pt_str e v) else v)"

text \<open>\<open>_cast_value\<close> by the type of the value, and \<open>_cast_object\<close>.\<close>

fun cast_value :: "pytext \<Rightarrow> schema \<Rightarrow> json \<Rightarrow> json"
  and cast_items :: "pytext \<Rightarrow> schema \<Rightarrow> json list \<Rightarrow> json list"
  and cast_fields :: "pytext \<Rightarrow> (string \<times> schema) list \<Rightarrow> (string \<times> json) list \<Rightarrow> (string \<times> json) list"
where
  "cast_value e s JNull = JNull"
| "cast_value e s (JBool b) = to_string e (sc_type s) (JBool b)"
| "cast_value e s (JInt i) = to_string e (sc_type s) (JInt i)"
| "cast_value e s (JFloat r) = to_string e (sc_type s) (JFloat r)"
| "cast_value e s (JStr x) =
     (if sc_type s = Some ''integer'' then to_integer e x
      else if sc_type s = Some ''number'' then to_number e x
      else if sc_type s = Some ''boolean'' then to_boolean x else JStr x)"
| "cast_value e s (JList xs) =
     (if sc_type s = Some ''array''
      then (case sc_items s of None \<Rightarrow> JList xs | Some i \<Rightarrow> JList (cast_items e i xs))
      else to_string e (sc_type s) (JList xs))"
| "cast_value e s (JObj d) =
     (if sc_type s = Some ''object'' then JObj (cast_fields e (sc_properties s) d)
      else to_string e (sc_type s) (JObj d))"
| "cast_items e s [] = []"
| "cast_items e s (x # xs) = cast_value e s x # cast_items e s xs"
| "cast_fields e ps [] = []"
| "cast_fields e ps ((k, v) # d) =
     (k, case map_of ps k of None \<Rightarrow> v | Some s \<Rightarrow> cast_value e s v) # cast_fields e ps d"

section \<open>Validation\<close>

text \<open>Python's \<open>==\<close> on JSON values: numbers by value, \<open>True\<close> is \<open>1\<close>, dictionaries without order.\<close>

fun num_value :: "json \<Rightarrow> rat option" where
  "num_value (JBool b) = Some (if b then 1 else 0)"
| "num_value (JInt i) = Some (of_int i)"
| "num_value (JFloat r) = Some r"
| "num_value _ = None"

fun py_eq :: "json \<Rightarrow> json \<Rightarrow> bool"
  and py_eq_list :: "json list \<Rightarrow> json list \<Rightarrow> bool"
  and py_eq_fields :: "(string \<times> json) list \<Rightarrow> (string \<times> json) list \<Rightarrow> bool"
where
  "py_eq JNull w = (w = JNull)"
| "py_eq (JBool b) w = (num_value w = num_value (JBool b))"
| "py_eq (JInt i) w = (num_value w = num_value (JInt i))"
| "py_eq (JFloat r) w = (num_value w = num_value (JFloat r))"
| "py_eq (JStr x) w = (w = JStr x)"
| "py_eq (JList xs) w = (case w of JList ys \<Rightarrow> py_eq_list xs ys | _ \<Rightarrow> False)"
| "py_eq (JObj d) w = (case w of JObj f \<Rightarrow> length d = length f \<and> py_eq_fields d f | _ \<Rightarrow> False)"
| "py_eq_list [] ys = (ys = [])"
| "py_eq_list (x # xs) ys = (case ys of [] \<Rightarrow> False | y # ys \<Rightarrow> py_eq x y \<and> py_eq_list xs ys)"
| "py_eq_fields [] f = True"
| "py_eq_fields ((k, v) # d) f = ((case map_of f k of None \<Rightarrow> False | Some w \<Rightarrow> py_eq v w) \<and> py_eq_fields d f)"

definition label_of :: "string \<Rightarrow> string" where
  "label_of path = (if path = [] then ''parameter'' else path)"

definition enum_errors :: "pytext \<Rightarrow> string \<Rightarrow> schema \<Rightarrow> json \<Rightarrow> string list" where
  "enum_errors e path s v =
     (case sc_enum s of
        Some xs \<Rightarrow> if \<exists>x \<in> set xs. py_eq v x then [] else [label_of path @ '' must be one of '' @ pt_str e (JList xs)]
      | None \<Rightarrow> [])"

definition bound_errors :: "pytext \<Rightarrow> string \<Rightarrow> schema \<Rightarrow> json \<Rightarrow> string list" where
  "bound_errors e path s v =
     (if sc_type s \<in> {Some ''integer'', Some ''number''}
      then case num_value v of
             None \<Rightarrow> []
           | Some x \<Rightarrow>
               (case sc_minimum s of Some m \<Rightarrow> if x < m then [label_of path @ '' must be >= '' @ pt_num e m] else [] | None \<Rightarrow> [])
             @ (case sc_maximum s of Some m \<Rightarrow> if x > m then [label_of path @ '' must be <= '' @ pt_num e m] else [] | None \<Rightarrow> [])
      else [])"

definition length_errors :: "string \<Rightarrow> schema \<Rightarrow> json \<Rightarrow> string list" where
  "length_errors path s v =
     (case v of
        JStr x \<Rightarrow>
          (if sc_type s = Some ''string''
           then (case sc_min_length s of Some m \<Rightarrow>
                   if int (length x) < m then [label_of path @ '' must be at least '' @ show_int m @ '' chars''] else [] | None \<Rightarrow> [])
              @ (case sc_max_length s of Some m \<Rightarrow>
                   if int (length x) > m then [label_of path @ '' must be at most '' @ show_int m @ '' chars''] else [] | None \<Rightarrow> [])
           else [])
      | _ \<Rightarrow> [])"

definition sub_path :: "string \<Rightarrow> string \<Rightarrow> string" where
  "sub_path path k = (if path = [] then k else path @ ''.'' @ k)"

definition required_errors :: "string \<Rightarrow> schema \<Rightarrow> (string \<times> json) list \<Rightarrow> string list" where
  "required_errors path s d =
     map (\<lambda>k. ''missing required '' @ sub_path path k) (filter (\<lambda>k. \<not> dhas d k) (sc_required s))"

text \<open>\<open>_validate\<close>.\<close>

fun validate :: "pytext \<Rightarrow> string \<Rightarrow> schema \<Rightarrow> json \<Rightarrow> string list"
  and validate_items :: "pytext \<Rightarrow> string \<Rightarrow> nat \<Rightarrow> schema \<Rightarrow> json list \<Rightarrow> string list"
  and validate_fields :: "pytext \<Rightarrow> string \<Rightarrow> (string \<times> schema) list \<Rightarrow> (string \<times> json) list \<Rightarrow> string list"
where
  "validate e path s v =
     (if \<not> type_ok (sc_type s) v then [label_of path @ '' should be '' @ the (sc_type s)]
      else enum_errors e path s v @ bound_errors e path s v @ length_errors path s v
         @ (case v of
              JObj d \<Rightarrow> if sc_type s = Some ''object''
                        then required_errors path s d @ validate_fields e path (sc_properties s) d else []
            | JList xs \<Rightarrow> if sc_type s = Some ''array''
                          then (case sc_items s of None \<Rightarrow> [] | Some i \<Rightarrow> validate_items e path 0 i xs) else []
            | _ \<Rightarrow> []))"
| "validate_items e path n s [] = []"
| "validate_items e path n s (x # xs) =
     validate e (path @ ''['' @ show_nat n @ '']'') s x @ validate_items e path (Suc n) s xs"
| "validate_fields e path ps [] = []"
| "validate_fields e path ps ((k, v) # d) =
     (case map_of ps k of None \<Rightarrow> [] | Some s \<Rightarrow> validate e (sub_path path k) s v) @ validate_fields e path ps d"

text \<open>\<open>cast_params\<close> and \<open>validate_params\<close>; the second raises when the schema is not one of an object.\<close>

definition cast_params :: "pytext \<Rightarrow> schema \<Rightarrow> (string \<times> json) list \<Rightarrow> (string \<times> json) list" where
  "cast_params e s d =
     (if sc_type s \<noteq> None \<and> sc_type s \<noteq> Some ''object'' then d else cast_fields e (sc_properties s) d)"

definition as_object :: "schema \<Rightarrow> schema" where
  "as_object s = Schema (Some ''object'') (sc_enum s) (sc_minimum s) (sc_maximum s) (sc_min_length s)
     (sc_max_length s) (sc_required s) (sc_properties s) (sc_items s)"

definition validate_params :: "pytext \<Rightarrow> schema \<Rightarrow> (string \<times> json) list \<Rightarrow> string + string list" where
  "validate_params e s d =
     (case sc_type s of
        Some t \<Rightarrow> if t \<noteq> ''object'' then Inl (''Schema must be object type, got '' @ [CHR 0x27] @ t @ [CHR 0x27])
                  else Inr (validate e [] (as_object s) (JObj d))
      | None \<Rightarrow> Inr (validate e [] (as_object s) (JObj d)))"

section \<open>What a schema means\<close>

text \<open>The values of a schema, as JSON schema describes them, without reference to error lists.\<close>

fun conforms :: "json \<Rightarrow> schema \<Rightarrow> bool" where
  "conforms v s =
     (type_ok (sc_type s) v
      \<and> (\<forall>xs. sc_enum s = Some xs \<longrightarrow> (\<exists>x \<in> set xs. py_eq v x))
      \<and> (\<forall>x. sc_type s \<in> {Some ''integer'', Some ''number''} \<and> num_value v = Some x \<longrightarrow>
           (\<forall>m. sc_minimum s = Some m \<longrightarrow> m \<le> x) \<and> (\<forall>m. sc_maximum s = Some m \<longrightarrow> x \<le> m))
      \<and> (case v of
           JStr x \<Rightarrow> sc_type s = Some ''string'' \<longrightarrow>
             (\<forall>m. sc_min_length s = Some m \<longrightarrow> m \<le> int (length x)) \<and> (\<forall>m. sc_max_length s = Some m \<longrightarrow> int (length x) \<le> m)
         | JObj d \<Rightarrow> sc_type s = Some ''object'' \<longrightarrow>
             set (sc_required s) \<subseteq> set (dkeys d)
             \<and> (\<forall>(k, w) \<in> set d. case map_of (sc_properties s) k of None \<Rightarrow> True | Some t \<Rightarrow> conforms w t)
         | JList xs \<Rightarrow> sc_type s = Some ''array'' \<longrightarrow> (case sc_items s of None \<Rightarrow> True | Some t \<Rightarrow> \<forall>w \<in> set xs. conforms w t)
         | _ \<Rightarrow> True))"

declare validate.simps [simp del] conforms.simps [simp del]

lemma enum_errors_iff: "enum_errors e path s v = [] \<longleftrightarrow> (\<forall>xs. sc_enum s = Some xs \<longrightarrow> (\<exists>x \<in> set xs. py_eq v x))"
  by (simp add: enum_errors_def split: option.split)

lemma bound_errors_iff: "bound_errors e path s v = [] \<longleftrightarrow>
    (\<forall>x. sc_type s \<in> {Some ''integer'', Some ''number''} \<and> num_value v = Some x \<longrightarrow>
           (\<forall>m. sc_minimum s = Some m \<longrightarrow> m \<le> x) \<and> (\<forall>m. sc_maximum s = Some m \<longrightarrow> x \<le> m))"
  by (auto simp: bound_errors_def not_less split: option.split)

lemma length_errors_iff: "length_errors path s (JStr x) = [] \<longleftrightarrow> (sc_type s = Some ''string'' \<longrightarrow>
             (\<forall>m. sc_min_length s = Some m \<longrightarrow> m \<le> int (length x)) \<and> (\<forall>m. sc_max_length s = Some m \<longrightarrow> int (length x) \<le> m))"
  by (auto simp: length_errors_def not_less split: option.split)

lemma required_errors_iff: "required_errors path s d = [] \<longleftrightarrow> set (sc_required s) \<subseteq> set (dkeys d)"
  by (auto simp: required_errors_def filter_empty_conv dhas_iff_mem)

lemma validate_conforms:
  "validate e path s v = [] \<longleftrightarrow> conforms v s"
  "validate_items e path n s xs = [] \<longleftrightarrow> (\<forall>w \<in> set xs. conforms w s)"
  "validate_fields e path ps d = [] \<longleftrightarrow>
     (\<forall>(k, w) \<in> set d. case map_of ps k of None \<Rightarrow> True | Some t \<Rightarrow> conforms w t)"
proof (induction e path s v and e path n s xs and e path ps d
    rule: validate_validate_items_validate_fields.induct)
  case (1 e path s v)
  show ?case
  proof (cases "type_ok (sc_type s) v")
    case False
    then show ?thesis by (simp add: validate.simps conforms.simps)
  next
    case True
    show ?thesis
    proof (cases v)
      case (JStr x)
      then show ?thesis using True
        by (simp add: validate.simps conforms.simps [of "JStr x"] enum_errors_iff bound_errors_iff length_errors_iff)
    next
      case (JList xs)
      have "validate_items e path 0 i xs = [] \<longleftrightarrow> (\<forall>w \<in> set xs. conforms w i)"
        if "sc_type s = Some ''array''" "sc_items s = Some i" for i
        using 1 True JList that by simp
      with JList True show ?thesis
        by (simp add: validate.simps conforms.simps [of "JList xs"] enum_errors_iff bound_errors_iff length_errors_def
            split: option.split)
    next
      case (JObj d)
      have "validate_fields e path (sc_properties s) d = [] \<longleftrightarrow>
          (\<forall>(k, w) \<in> set d. case map_of (sc_properties s) k of None \<Rightarrow> True | Some t \<Rightarrow> conforms w t)"
        if "sc_type s = Some ''object''"
        using 1 True JObj that by simp
      with JObj True show ?thesis
        by (simp add: validate.simps conforms.simps [of "JObj d"] enum_errors_iff bound_errors_iff length_errors_def
            required_errors_iff)
    qed (use True in \<open>simp_all add: validate.simps conforms.simps enum_errors_iff bound_errors_iff length_errors_def\<close>)
  qed
next
  case (5 e path ps k v d)
  then show ?case by (simp split: option.split)
qed simp_all

lemma cast_idempotent_all:
  "cast_value e s (cast_value e s v) = cast_value e s v"
  "cast_items e t (cast_items e t xs) = cast_items e t xs"
  "cast_fields e ps (cast_fields e ps d) = cast_fields e ps d"
proof (induction e s v and e t xs and e ps d rule: cast_value_cast_items_cast_fields.induct)
  case (5 e s x)
  then show ?case by (auto simp: to_integer_def to_number_def to_boolean_def to_string_def split: option.split)
qed (auto simp: to_string_def split: option.splits)

lemma cast_conforming_all:
  "conforms v s \<Longrightarrow> cast_value e s v = v"
  "\<forall>w \<in> set xs. conforms w t \<Longrightarrow> cast_items e t xs = xs"
  "\<forall>(k, w) \<in> set d. case map_of ps k of None \<Rightarrow> True | Some t \<Rightarrow> conforms w t \<Longrightarrow> cast_fields e ps d = d"
proof (induction e s v and e t xs and e ps d rule: cast_value_cast_items_cast_fields.induct)
  case (6 e s xs)
  then show ?case by (auto simp: conforms.simps [of "JList xs"] to_string_def type_ok_def split: option.splits if_splits)
next
  case (7 e s d)
  then show ?case by (auto simp: conforms.simps [of "JObj d"] to_string_def type_ok_def split: option.splits if_splits)
qed (auto simp: conforms.simps to_string_def type_ok_def split: option.splits if_splits)

subsection \<open>The specification\<close>

text \<open>
  What a schema means, independently of the validator. A JSON value denotes a Python value: numbers and booleans
  their number, lists the list and dictionaries the finite map of what they hold; two values are equal in Python
  when they denote the same. The types are those of JSON schema: an integer is a number, a boolean is neither, and
  a name that is no type of JSON schema excludes nothing.
\<close>

datatype pyvalue = VNone | VNum rat | VStr string | VList "pyvalue list" | VDict "string \<Rightarrow> pyvalue option"

fun meaning :: "json \<Rightarrow> pyvalue" where
  "meaning JNull = VNone"
| "meaning (JBool b) = VNum (if b then 1 else 0)"
| "meaning (JInt i) = VNum (rat_of_int i)"
| "meaning (JFloat r) = VNum r"
| "meaning (JStr x) = VStr x"
| "meaning (JList xs) = VList (map meaning xs)"
| "meaning (JObj d) = VDict (map_of (map (\<lambda>(k, v). (k, meaning v)) d))"

inductive has_type :: "string option \<Rightarrow> json \<Rightarrow> bool" where
  "has_type (Some ''integer'') (JInt i)"
| "has_type (Some ''number'') (JInt i)"
| "has_type (Some ''number'') (JFloat r)"
| "has_type (Some ''string'') (JStr x)"
| "has_type (Some ''boolean'') (JBool b)"
| "has_type (Some ''array'') (JList xs)"
| "has_type (Some ''object'') (JObj d)"
| "t \<notin> Some ` {''integer'', ''number'', ''string'', ''boolean'', ''array'', ''object''} \<Longrightarrow> has_type t v"

fun fits :: "json \<Rightarrow> schema \<Rightarrow> bool" where
  "fits v s =
     (has_type (sc_type s) v
      \<and> (\<forall>xs. sc_enum s = Some xs \<longrightarrow> meaning v \<in> meaning ` set xs)
      \<and> (\<forall>x. sc_type s \<in> {Some ''integer'', Some ''number''} \<and> meaning v = VNum x \<longrightarrow>
           (\<forall>m. sc_minimum s = Some m \<longrightarrow> m \<le> x) \<and> (\<forall>m. sc_maximum s = Some m \<longrightarrow> x \<le> m))
      \<and> (case v of
           JStr x \<Rightarrow> sc_type s = Some ''string'' \<longrightarrow>
             (\<forall>m. sc_min_length s = Some m \<longrightarrow> m \<le> int (length x)) \<and> (\<forall>m. sc_max_length s = Some m \<longrightarrow> int (length x) \<le> m)
         | JObj d \<Rightarrow> sc_type s = Some ''object'' \<longrightarrow>
             set (sc_required s) \<subseteq> fst ` set d
             \<and> (\<forall>(k, w) \<in> set d. case map_of (sc_properties s) k of None \<Rightarrow> True | Some t \<Rightarrow> fits w t)
         | JList xs \<Rightarrow> sc_type s = Some ''array'' \<longrightarrow> (case sc_items s of None \<Rightarrow> True | Some t \<Rightarrow> \<forall>w \<in> set xs. fits w t)
         | _ \<Rightarrow> True))"

declare fits.simps [simp del]

text \<open>A dictionary has no key twice.\<close>

fun proper :: "json \<Rightarrow> bool" where
  "proper (JList xs) = (\<forall>x \<in> set xs. proper x)"
| "proper (JObj d) = (distinct (map fst d) \<and> (\<forall>(k, v) \<in> set d. proper v))"
| "proper _ = True"

inductive proper_schema :: "schema \<Rightarrow> bool" where
  "\<lbrakk>\<And>xs x. sc_enum s = Some xs \<Longrightarrow> x \<in> set xs \<Longrightarrow> proper x; \<And>k t. (k, t) \<in> set (sc_properties s) \<Longrightarrow> proper_schema t;
    \<And>t. sc_items s = Some t \<Longrightarrow> proper_schema t\<rbrakk> \<Longrightarrow> proper_schema s"

inductive_cases proper_schemaE: "proper_schema s"

inductive_simps has_type_simps:
  "has_type t JNull" "has_type t (JBool b)" "has_type t (JInt i)" "has_type t (JFloat r)" "has_type t (JStr x)"
  "has_type t (JList xs)" "has_type t (JObj d)"

lemma type_ok_iff: "type_ok t v \<longleftrightarrow> has_type t v"
  by (cases v) (auto simp: type_ok_def has_type_simps)

lemma map_of_equal:
  assumes "distinct (map fst d)" and "distinct (map fst f)" and "length d = length f"
    and "\<And>k v. (k, v) \<in> set d \<Longrightarrow> map_of f k = Some v"
  shows "map_of d = map_of f"
proof -
  have sub: "map_of d k = Some v \<Longrightarrow> map_of f k = Some v" for k v using assms(4) map_of_SomeD by fastforce
  have "fst ` set d \<subseteq> fst ` set f" using assms(4) map_of_SomeD by fastforce
  moreover have "card (fst ` set d) = card (fst ` set f)"
    using assms(1-3) by (metis distinct_card length_map set_map)
  ultimately have "fst ` set d = fst ` set f" by (simp add: card_subset_eq)
  then have "map_of d k = None \<Longrightarrow> map_of f k = None" for k by (simp add: map_of_eq_None_iff)
  with sub show ?thesis by (metis (no_types) ext not_None_eq)
qed

lemma map_of_meaning: "map_of (map (\<lambda>(k, v). (k, meaning v)) d) k = map_option meaning (map_of d k)"
  by (induction d) auto

lemma fields_equal:
  assumes "distinct (map fst d)" and "distinct (map fst f)"
  shows "length d = length f \<and> (\<forall>(k, v) \<in> set d. \<exists>w. map_of f k = Some w \<and> meaning v = meaning w)
    \<longleftrightarrow> meaning (JObj d) = meaning (JObj f)"
proof
  let ?m = "map (\<lambda>(k, v). (k, meaning v))"
  have keys: "distinct (map fst (?m x)) = distinct (map fst x)" for x
    by (rule arg_cong [where f = distinct]) (induction x, auto)
  assume h: "length d = length f \<and> (\<forall>(k, v) \<in> set d. \<exists>w. map_of f k = Some w \<and> meaning v = meaning w)"
  have "map_of (?m f) k = Some x" if x: "(k, x) \<in> set (?m d)" for k x
  proof -
    from x obtain v where "(k, v) \<in> set d" "x = meaning v" by auto
    with h show ?thesis by (fastforce simp: map_of_meaning)
  qed
  then have "map_of (?m d) = map_of (?m f)"
    using assms h by (intro map_of_equal) (simp_all only: keys length_map)
  then show "meaning (JObj d) = meaning (JObj f)" by simp
next
  let ?m = "map (\<lambda>(k, v). (k, meaning v))"
  assume "meaning (JObj d) = meaning (JObj f)"
  then have e: "map_of (?m d) = map_of (?m f)" by simp
  have "dom (map_of (?m x)) = fst ` set x" for x 
    using dom_map_of_conv_image_fst [of x] by (auto simp: map_of_meaning dom_def)
  with e have "fst ` set d = fst ` set f" by metis
  then have "length d = length f" using assms by (metis distinct_card length_map set_map)
  moreover have "\<exists>w. map_of f k = Some w \<and> meaning v = meaning w" if "(k, v) \<in> set d" for k v
    using fun_cong [OF e, of k] map_of_is_SomeI [OF assms(1) that] by (cases "map_of f k") (auto simp: map_of_meaning)
  ultimately show "length d = length f \<and> (\<forall>(k, v) \<in> set d. \<exists>w. map_of f k = Some w \<and> meaning v = meaning w)" by blast
qed

lemma num_value_iff: "num_value v = Some x \<longleftrightarrow> meaning v = VNum x"
  by (cases v) auto

lemma py_eq_meaning:
  "proper v \<Longrightarrow> proper w \<Longrightarrow> py_eq v w \<longleftrightarrow> meaning v = meaning w"
  "\<forall>x \<in> set xs. proper x \<Longrightarrow> \<forall>y \<in> set ys. proper y \<Longrightarrow> py_eq_list xs ys \<longleftrightarrow> map meaning xs = map meaning ys"
  "\<forall>(k, v) \<in> set d. proper v \<Longrightarrow> \<forall>(k, v) \<in> set f. proper v \<Longrightarrow>
     py_eq_fields d f \<longleftrightarrow> (\<forall>(k, v) \<in> set d. \<exists>w. map_of f k = Some w \<and> meaning v = meaning w)"
proof (induction v w and xs ys and d f rule: py_eq_py_eq_list_py_eq_fields.induct)
  case (7 d w)
  show ?case
  proof (cases w)
    case (JObj f)
    with 7 show ?thesis using fields_equal [of d f] by auto
  qed auto
next
  case (11 k v d f)
  have "proper w" if "map_of f k = Some w" for w using map_of_SomeD [OF that] "11.prems"(2) by auto
  with 11 show ?case by (auto split: option.splits)
next
  case (1 w)
  then show ?case by (cases w) auto
next
  case (5 x w)
  then show ?case by (cases w) auto
qed (auto simp: num_value_iff split: json.splits list.splits)

lemma conforms_fits:
  assumes "proper v" and "proper_schema s"
  shows "conforms v s \<longleftrightarrow> fits v s"
  using assms
proof (induction v s rule: fits.induct)
  case (1 v s)
  have "py_eq v x \<longleftrightarrow> meaning v = meaning x" if "sc_enum s = Some xs" "x \<in> set xs" for xs x
    using py_eq_meaning(1) [OF 1(3)] 1(4) that by (blast elim: proper_schemaE)
  then have e: "(\<forall>xs. sc_enum s = Some xs \<longrightarrow> (\<exists>x \<in> set xs. py_eq v x)) \<longleftrightarrow> (\<forall>xs. sc_enum s = Some xs \<longrightarrow> meaning v \<in> meaning ` set xs)"
    by (auto simp: image_iff)
  have i: "conforms w t \<longleftrightarrow> fits w t" if "v = JList xs" "sc_type s = Some ''array''" "w \<in> set xs" "sc_items s = Some t" for xs w t
    using 1 that by (auto elim: proper_schemaE)
  have o: "conforms w t \<longleftrightarrow> fits w t" if "v = JObj d" "sc_type s = Some ''object''" "(k, w) \<in> set d" "map_of (sc_properties s) k = Some t" for d k w t
    using 1 that map_of_SomeD [OF that(4)] by (fastforce elim: proper_schemaE)
  show ?case
    using i o unfolding conforms.simps [of v s] fits.simps [of v s] type_ok_iff e num_value_iff
    by (auto split: json.splits option.splits)
qed

text \<open>
  C14. On JSON values whose dictionaries have no key twice the validator accepts exactly the values of the
  schema, at every depth: the right JSON type (a boolean is no integer and no number), one of the enumerated values
  up to Python's equality, within the bounds, the required fields present and every declared field and item of its own
  schema. Casting is idempotent and leaves every value of the schema as it is.
\<close>

theorem validate_is_conformance:
  assumes "proper v" and "proper_schema s"
  shows "(validate e path s v = [] \<longleftrightarrow> fits v s)
   \<and> cast_value e s (cast_value e s v) = cast_value e s v
   \<and> (fits v s \<longrightarrow> cast_value e s v = v)"
  using validate_conforms(1) cast_idempotent_all(1) cast_conforming_all(1) conforms_fits [OF assms] by auto

section \<open>Permissions\<close>

record rbac =
  rb_enabled :: bool
  rb_user_roles :: "(string, string) pydict"
  rb_default_role :: string
  rb_permissions :: "(string, string list) pydict"

definition role_of :: "rbac \<Rightarrow> string \<Rightarrow> string" where
  "role_of cfg sender = dgetd (rb_user_roles cfg) sender (rb_default_role cfg)"

definition role_tools :: "rbac \<Rightarrow> string \<Rightarrow> string list" where
  "role_tools cfg role = dgetd (rb_permissions cfg) role []"

datatype denial = RBACPermissionDenied string string string | ObjectPermissionDenied string string string

definition check_tool_permission :: "rbac \<Rightarrow> string option \<Rightarrow> string \<Rightarrow> denial option" where
  "check_tool_permission cfg sender tool =
     (if \<not> rb_enabled cfg then None
      else case sender of
        None \<Rightarrow> None
      | Some u \<Rightarrow>
          if u \<in> {''system'', ''user''} then None
          else if ''*'' \<in> set (role_tools cfg (role_of cfg u)) \<or> tool \<in> set (role_tools cfg (role_of cfg u)) then None
          else Some (RBACPermissionDenied u (role_of cfg u) tool))"

text \<open>\<open>explicit_sender_id or current\<close>: an empty explicit sender counts as none.\<close>

definition check_object_permission ::
  "rbac \<Rightarrow> string option \<Rightarrow> string \<Rightarrow> string \<Rightarrow> string option \<Rightarrow> denial option" where
  "check_object_permission cfg current owner action explicit =
     (let sender = (if str_given explicit then explicit else current)
      in case sender of
        None \<Rightarrow> None
      | Some u \<Rightarrow>
          if u \<in> {''system'', ''admin''} then None
          else if rb_enabled cfg \<and> (role_of cfg u = ''admin'' \<or> ''*'' \<in> set (role_tools cfg (role_of cfg u))) then None
          else if u \<noteq> owner then Some (ObjectPermissionDenied u owner action) else None)"

text \<open>The text of the exception; a missing sender is never denied.\<close>

fun denial_text :: "denial \<Rightarrow> string" where
  "denial_text (RBACPermissionDenied u r t) =
     ''Permission Denied: User '' @ [CHR 0x27] @ u @ [CHR 0x27] @ '' with role '' @ [CHR 0x27] @ r @ [CHR 0x27]
       @ '' is not allowed to execute tool '' @ [CHR 0x27] @ t @ [CHR 0x27]"
| "denial_text (ObjectPermissionDenied u w a) =
     ''Object Access Denied: User '' @ [CHR 0x27] @ u @ [CHR 0x27] @ '' is not authorized to '' @ [CHR 0x27] @ a
       @ [CHR 0x27] @ '' resource owned by '' @ [CHR 0x27] @ w @ [CHR 0x27]"

section \<open>The registry\<close>

text \<open>
  A tool runs on a state of its own; \<open>Inl\<close> is the text of an exception. A pydantic tool has a model of its
  arguments (\<open>args_schema\<close>): \<open>model_validate\<close> gives the validated arguments or raises.
\<close>

datatype 's tool =
    is_legacy: LegacyTool (tl_name: string) (tl_schema: schema) (tl_run: "(string \<times> json) list \<Rightarrow> 's \<Rightarrow> (string + json) \<times> 's")
  | PydanticTool (tl_name: string) (tl_model: "(string \<times> json) list \<Rightarrow> string + (string \<times> json) list")
      (tl_run: "(string \<times> json) list \<Rightarrow> 's \<Rightarrow> (string + json) \<times> 's")

text \<open>
  \<open>execute\<close> of the tool itself: the result, the arguments its body was run with, if it was, and the state. A
  pydantic tool validates here and runs on what the model returned.
\<close>

definition tool_execute ::
  "'s tool \<Rightarrow> (string \<times> json) list \<Rightarrow> 's \<Rightarrow> (string + json) \<times> (string \<times> json) list option \<times> 's" where
  "tool_execute t kw s =
     (case t of
        LegacyTool _ _ run \<Rightarrow> (let (res, s) = run kw s in (res, Some kw, s))
      | PydanticTool _ model run \<Rightarrow>
          (case model kw of
             Inl x \<Rightarrow> (Inl x, None, s)
           | Inr args \<Rightarrow> (let (res, s) = run args s in (res, Some args, s))))"

type_synonym 's tool_registry = "(string, 's tool) pydict"

definition register_tool :: "'s tool \<Rightarrow> 's tool_registry \<Rightarrow> 's tool_registry" where
  "register_tool t r = dset (tl_name t) t r"

definition unregister_tool :: "string \<Rightarrow> 's tool_registry \<Rightarrow> 's tool_registry" where
  "unregister_tool n r = dpop n r"

definition tool_names :: "'s tool_registry \<Rightarrow> string list" where
  "tool_names r = dkeys r"

fun comma_join :: "string \<Rightarrow> string list \<Rightarrow> string" where
  "comma_join sep [] = []"
| "comma_join sep [x] = x"
| "comma_join sep (x # y # ys) = x @ sep @ comma_join sep (y # ys)"

definition hint :: string where
  "hint = [CHR 0x0A, CHR 0x0A] @ ''[Analyze the error above and try a different approach.]''"

definition quoted :: "string \<Rightarrow> string" where
  "quoted s = [CHR 0x27] @ s @ [CHR 0x27]"

text \<open>
  The end of \<open>execute\<close>: an exception becomes an error text, an error text gets the hint.
\<close>

definition reply_of :: "string \<Rightarrow> string + json \<Rightarrow> json" where
  "reply_of name r =
     (case r of
        Inl x \<Rightarrow> JStr (''Error executing '' @ name @ '': '' @ x @ hint)
      | Inr (JStr x) \<Rightarrow> if startswith x ''Error'' then JStr (x @ hint) else JStr x
      | Inr v \<Rightarrow> v)"

text \<open>\<open>execute\<close>; besides the reply and the state, the arguments that the tool was run with, if it was.\<close>

definition registry_execute ::
  "pytext \<Rightarrow> rbac \<Rightarrow> string option \<Rightarrow> 's tool_registry \<Rightarrow> string \<Rightarrow> (string \<times> json) list \<Rightarrow> 's
     \<Rightarrow> json \<times> (string \<times> json) list option \<times> 's" where
  "registry_execute e cfg sender r name params s =
     (case dget r name of
        None \<Rightarrow> (JStr (''Error: Tool '' @ quoted name @ '' not found. Available: '' @ comma_join '', '' (tool_names r)), None, s)
      | Some t \<Rightarrow>
          (case check_tool_permission cfg sender name of
             Some d \<Rightarrow> (JStr (''Error: '' @ denial_text d @ hint), None, s)
           | None \<Rightarrow>
               (case t of
                  PydanticTool _ _ _ \<Rightarrow> (let (res, given, s) = tool_execute t params s in (reply_of name res, given, s))
                | LegacyTool _ sch run \<Rightarrow>
                    (let params = cast_params e sch params
                     in case validate_params e sch params of
                          Inl x \<Rightarrow> (reply_of name (Inl x), None, s)
                        | Inr (x # xs) \<Rightarrow>
                            (JStr (''Error: Invalid parameters for tool '' @ quoted name @ '': '' @ comma_join ''; '' (x # xs) @ hint),
                             None, s)
                        | Inr [] \<Rightarrow> (let (res, given, s) = tool_execute t params s in (reply_of name res, given, s))))))"

text \<open>
  \<open>to_langchain_tool\<close>: the way the agent's graph calls a tool, without the registry. The permission is checked, an
  exception of the tool goes on to LangChain's tool node, and there is no cast and no validation but the tool's own.
\<close>

definition langchain_arun ::
  "rbac \<Rightarrow> string option \<Rightarrow> 's tool \<Rightarrow> (string \<times> json) list \<Rightarrow> 's
     \<Rightarrow> (string + json) \<times> (string \<times> json) list option \<times> 's" where
  "langchain_arun cfg sender t kw s =
     (case check_tool_permission cfg sender (tl_name t) of
        Some d \<Rightarrow> (Inr (JStr (''Error: '' @ denial_text d)), None, s)
      | None \<Rightarrow> tool_execute t kw s)"

lemma check_tool_permission_iff:
  "check_tool_permission cfg sender tool = None \<longleftrightarrow>
     \<not> rb_enabled cfg \<or> sender = None \<or> sender = Some ''system'' \<or> sender = Some ''user''
     \<or> (\<exists>u. sender = Some u \<and> (''*'' \<in> set (role_tools cfg (role_of cfg u)) \<or> tool \<in> set (role_tools cfg (role_of cfg u))))"
  by (auto simp: check_tool_permission_def split: option.split)

lemma cast_proper:
  "proper v \<Longrightarrow> proper (cast_value e s v)"
  "\<forall>x \<in> set xs. proper x \<Longrightarrow> \<forall>x \<in> set (cast_items e s xs). proper x"
  "\<forall>(k, v) \<in> set d. proper v \<Longrightarrow> (\<forall>(k, v) \<in> set (cast_fields e ps d). proper v)"
  "map fst (cast_fields e ps d) = map fst d"
proof -
  have k: "dkeys (cast_fields e ps d) = dkeys d" for e ps d by (induction d) auto
  have "(proper v \<longrightarrow> proper (cast_value e s v)) \<and> True" "(\<forall>x \<in> set xs. proper x) \<longrightarrow> (\<forall>x \<in> set (cast_items e s xs). proper x)"
    "(\<forall>(k, v) \<in> set d. proper v) \<longrightarrow> (\<forall>(k, v) \<in> set (cast_fields e ps d). proper v)"
    by (induction e s v and e s xs and e ps d rule: cast_value_cast_items_cast_fields.induct)
      (auto simp: to_integer_def to_number_def to_boolean_def to_string_def k split: option.split)
  with k show "proper v \<Longrightarrow> proper (cast_value e s v)" "\<forall>x \<in> set xs. proper x \<Longrightarrow> \<forall>x \<in> set (cast_items e s xs). proper x"
    "\<forall>(k, v) \<in> set d. proper v \<Longrightarrow> (\<forall>(k, v) \<in> set (cast_fields e ps d). proper v)"
    "map fst (cast_fields e ps d) = map fst d" by blast+
qed

lemma tool_execute_given:
  assumes "tool_execute t kw s = (res, given, s')"
  shows "case given of
      Some args \<Rightarrow> tl_run t args s = (res, s') \<and> (if is_legacy t then args = kw else tl_model t kw = Inr args)
    | None \<Rightarrow> \<not> is_legacy t \<and> s' = s \<and> (\<exists>x. res = Inl x)"
  using assms by (cases t) (auto simp: tool_execute_def split: prod.splits sum.splits)

text \<open>The arguments a tool may be run with: those its own declaration admits.\<close>

definition admitted :: "'s tool \<Rightarrow> (string \<times> json) list \<Rightarrow> (string \<times> json) list \<Rightarrow> bool" where
  "admitted t params args =
     (case t of
        LegacyTool _ sch _ \<Rightarrow> fits (JObj args) (as_object sch) \<and> map fst args = map fst params
          \<and> (if fits (JObj params) (as_object sch) then args = params else True)
      | PydanticTool _ model _ \<Rightarrow> model params = Inr args)"

lemma legacy_arguments:
  assumes "proper (JObj params)" and "proper_schema (as_object sch)" and "validate_params e sch (cast_params e sch params) = Inr []"
  shows "admitted (LegacyTool n sch run) params (cast_params e sch params)"
proof -
  let ?args = "cast_params e sch params"
  have c: "?args = cast_fields e (sc_properties sch) params"
    using assms(3) by (auto simp: cast_params_def validate_params_def split: option.splits if_splits)
  have p: "proper (JObj ?args)" 
    using assms(1) cast_proper(3) [of params e "sc_properties sch"] cast_proper(4) [of e "sc_properties sch" params] unfolding c by simp
  have "conforms (JObj ?args) (as_object sch)"
    using assms(3) by (auto simp: validate_params_def validate_conforms split: option.splits if_splits)
  then have "fits (JObj ?args) (as_object sch)" using conforms_fits [OF p assms(2)] by simp
  moreover have "?args = params" if "fits (JObj params) (as_object sch)"
  proof -
    have "conforms (JObj params) (as_object sch)" using that conforms_fits [OF assms(1,2)] by simp
    from cast_conforming_all(1) [OF this, of e] show ?thesis by (simp add: c as_object_def)
  qed
  ultimately show ?thesis using cast_proper(4) by (simp add: admitted_def c)
qed

text \<open>
  C5. Through the registry a tool, of either kind, is run only when its caller may run it and only on arguments
  its declaration admits: a tool with a schema on arguments of the schema, which are the given ones whenever
  those are of the schema already, and a pydantic tool on what its model made of the given ones. Otherwise nothing is
  run, the state is untouched and the reply is an error text. The wrapper through which the agent's graph calls
  a tool checks the permission too and validates for pydantic tools, but runs any other tool on the
  arguments as they are.
\<close>

theorem registry_runs_typed:
  assumes "registry_execute e cfg sender r name params s = (reply, given, s')"
    and "proper (JObj params)" and "\<forall>n sch run. dget r name = Some (LegacyTool n sch run) \<longrightarrow> proper_schema (as_object sch)"
  shows "(case given of
       Some args \<Rightarrow> check_tool_permission cfg sender name = None
         \<and> (\<exists>t res. dget r name = Some t \<and> admitted t params args \<and> tl_run t args s = (res, s') \<and> reply = reply_of name res)
     | None \<Rightarrow> s' = s \<and> (\<exists>x. reply = JStr (''Error'' @ x)))
   \<and> (case langchain_arun cfg sender t params s of
       (res, Some args, s2) \<Rightarrow> check_tool_permission cfg sender (tl_name t) = None \<and> tl_run t args s = (res, s2)
         \<and> (if is_legacy t then args = params else admitted t params args)
     | (res, None, s2) \<Rightarrow> s2 = s)"
proof
  have err: "\<exists>y. ''Error'' @ x = ''Error'' @ y" for x :: string by blast
  show "case given of
       Some args \<Rightarrow> check_tool_permission cfg sender name = None
         \<and> (\<exists>t res. dget r name = Some t \<and> admitted t params args \<and> tl_run t args s = (res, s') \<and> reply = reply_of name res)
     | None \<Rightarrow> s' = s \<and> (\<exists>x. reply = JStr (''Error'' @ x))"
  proof (cases "dget r name")
    case (Some t)
    note t = this
    show ?thesis
    proof (cases "check_tool_permission cfg sender name")
      case None
      show ?thesis
      proof (cases t)
        case (PydanticTool n model run)
        obtain res g s2 where x: "tool_execute t params s = (res, g, s2)" by (metis prod_cases3)
        with assms(1) t None PydanticTool have "reply = reply_of name res" "given = g" "s' = s2"
          by (auto simp: registry_execute_def)
        with tool_execute_given [OF x] t None PydanticTool show ?thesis
          by (auto simp: admitted_def reply_of_def split: option.splits)
      next
        case (LegacyTool n sch run)
        let ?args = "cast_params e sch params"
        have ps: "proper_schema (as_object sch)" using assms(3) t LegacyTool by blast
        obtain res g s2 where x: "tool_execute t ?args s = (res, g, s2)" by (metis prod_cases3)
        show ?thesis
        proof (cases "validate_params e sch ?args = Inr []")
          case True
          with assms(1) t None LegacyTool x have "reply = reply_of name res" "given = g" "s' = s2"
            by (auto simp: registry_execute_def Let_def)
          with tool_execute_given [OF x] t None LegacyTool legacy_arguments [OF assms(2) ps True] show ?thesis
            by (auto split: option.splits)
        next
          case False
          with assms(1) t None LegacyTool show ?thesis
            by (auto simp: registry_execute_def Let_def reply_of_def split: sum.splits list.splits)
        qed
      qed
    qed (use assms(1) t in \<open>auto simp: registry_execute_def\<close>)
  qed (use assms(1) in \<open>auto simp: registry_execute_def\<close>)
  show "case langchain_arun cfg sender t params s of
       (res, Some args, s2) \<Rightarrow> check_tool_permission cfg sender (tl_name t) = None \<and> tl_run t args s = (res, s2)
         \<and> (if is_legacy t then args = params else admitted t params args)
     | (res, None, s2) \<Rightarrow> s2 = s"
  proof (cases "check_tool_permission cfg sender (tl_name t)")
    case None
    obtain res g s2 where x: "tool_execute t params s = (res, g, s2)" by (metis prod_cases3)
    from tool_execute_given [OF x] None x show ?thesis
      by (cases t) (auto simp: langchain_arun_def admitted_def split: option.splits)
  qed (simp add: langchain_arun_def)
qed

definition sample_schema :: schema where
  "sample_schema = Schema (Some ''object'') None None None None None [''n''] [(''n'', plain ''integer'')] None"

definition sample_text :: pytext where
  "sample_text = \<lparr>pt_int = (\<lambda>x. if x = ''7'' then Some 7 else None), pt_float = (\<lambda>_. None), pt_str = (\<lambda>_. []), pt_num = (\<lambda>_. [])\<rparr>"

definition open_rbac :: rbac where
  "open_rbac = \<lparr>rb_enabled = False, rb_user_roles = [], rb_default_role = ''guest'', rb_permissions = []\<rparr>"

definition sample_registry :: "nat tool_registry" where
  "sample_registry = register_tool (LegacyTool ''f'' sample_schema (\<lambda>d n. (Inr (JInt 1), n + 1))) []"

lemma sample_schema_proper: "proper_schema (plain t)" "proper_schema sample_schema" "proper_schema (as_object sample_schema)"
proof -
  show p: "proper_schema (plain t)" for t by (rule proper_schema.intros) (auto simp: plain_def)
  show "proper_schema sample_schema" "proper_schema (as_object sample_schema)"
    by (rule proper_schema.intros; auto simp: sample_schema_def as_object_def p)+
qed

text \<open>The text \<open>7\<close> is cast to the integer; the model of a pydantic tool refuses it.\<close>

lemma registry_runs_typed_witness:
  "registry_execute sample_text open_rbac None sample_registry ''f'' [(''n'', JStr ''7'')] 0 = (JInt 1, Some [(''n'', JInt 7)], 1)
   \<and> fits (JObj [(''n'', JInt 7)]) (as_object sample_schema)
   \<and> snd (langchain_arun open_rbac None (PydanticTool ''g'' (\<lambda>d. Inl ''1 validation error'') (\<lambda>d n. (Inr JNull, n + 1))) [(''n'', JStr ''7'')] (0 :: nat)) = (None, 0)"
proof -
  have run: "registry_execute sample_text open_rbac None sample_registry ''f'' [(''n'', JStr ''7'')] 0 = (JInt 1, Some [(''n'', JInt 7)], 1)"
    by (simp add: registry_execute_def sample_registry_def sample_schema_def sample_text_def open_rbac_def
        register_tool_def check_tool_permission_def cast_params_def validate_params_def tool_execute_def
        plain_def to_integer_def as_object_def validate.simps type_ok_def enum_errors_def bound_errors_def length_errors_def
        required_errors_def dhas_def reply_of_def)
  have get: "dget sample_registry n = (if n = ''f'' then Some (LegacyTool ''f'' sample_schema (\<lambda>d n. (Inr (JInt 1), n + 1))) else None)" for n
    by (simp add: sample_registry_def register_tool_def)
  have p: "proper (JObj [(''n'', JStr ''7'')])" by simp
  have "\<forall>n sch run. dget sample_registry ''f'' = Some (LegacyTool n sch run) \<longrightarrow> proper_schema (as_object sch)"
    by (simp add: get sample_schema_proper)
  from registry_runs_typed [OF run p this] have "fits (JObj [(''n'', JInt 7)]) (as_object sample_schema)"
    by (simp add: get admitted_def)
  with run show ?thesis by (simp add: langchain_arun_def open_rbac_def check_tool_permission_def tool_execute_def)
qed

text \<open>A boolean is no integer; \<open>1.0\<close> is the enumerated \<open>1\<close>, and \<open>True\<close> would be too but for its type.\<close>

lemma validate_is_conformance_witness:
  "validate sample_text [] sample_schema (JObj [(''n'', JInt 7)]) = []
   \<and> validate sample_text [] sample_schema (JObj [(''n'', JBool True)]) \<noteq> []
   \<and> validate sample_text [] sample_schema (JObj []) \<noteq> []
   \<and> validate sample_text [] (Schema (Some ''number'') (Some [JInt 1]) None None None None [] [] None) (JFloat 1) = []"
proof -
  let ?s = "Schema (Some ''number'') (Some [JInt 1]) None None None None [] [] None"
  have "proper_schema ?s" by (rule proper_schema.intros) auto
  from validate_is_conformance [OF _ this, of "JFloat 1" sample_text "[]"]
    validate_is_conformance [OF _ sample_schema_proper(2), of "JObj [(''n'', JInt 7)]" sample_text "[]"]
    validate_is_conformance [OF _ sample_schema_proper(2), of "JObj [(''n'', JBool True)]" sample_text "[]"]
    validate_is_conformance [OF _ sample_schema_proper(2), of "JObj []" sample_text "[]"]
  show ?thesis by (simp add: fits.simps has_type_simps sample_schema_def plain_def)
qed

section \<open>The scheduling tool\<close>

record cron_args =
  ca_action :: string
  ca_message :: "string option"
  ca_every :: "int option"
  ca_cron_expr :: "string option"
  ca_tz :: "string option"
  ca_at :: "string option"
  ca_job :: "string option"

record cron_tool =
  ct_channel :: string
  ct_chat :: string
  ct_in_cron :: bool

definition nonzero :: "int option \<Rightarrow> bool" where
  "nonzero x = (x \<noteq> None \<and> x \<noteq> Some 0)"

text \<open>
  \<open>_add_job\<close>: the checks, the schedule with the wish to delete the job after its run, and the call of the
  service. \<open>from_iso\<close> reads an ISO datetime as milliseconds, \<open>None\<close> for the \<open>ValueError\<close>.
\<close>

definition cron_tool_check :: "(string \<Rightarrow> bool) \<Rightarrow> cron_tool \<Rightarrow> cron_args \<Rightarrow> string option" where
  "cron_tool_check zones c a =
     (if \<not> str_given (ca_message a) then Some ''Error: message is required for add''
      else if ct_channel c = [] \<or> ct_chat c = [] then Some ''Error: no session context (channel/chat_id)''
      else if str_given (ca_tz a) \<and> \<not> str_given (ca_cron_expr a) then Some ''Error: tz can only be used with cron_expr''
      else if str_given (ca_tz a) \<and> \<not> zones (the (ca_tz a)) then Some (''Error: unknown timezone '' @ quoted (the (ca_tz a)))
      else None)"

definition cron_tool_schedule :: "(string \<Rightarrow> int option) \<Rightarrow> cron_args \<Rightarrow> string + schedule \<times> bool" where
  "cron_tool_schedule from_iso a =
     (if nonzero (ca_every a)
      then Inr (\<lparr>sd_kind = KIND_EVERY, sd_at = None, sd_every = Some (the (ca_every a) * 1000), sd_expr = None, sd_tz = None\<rparr>, False)
      else if str_given (ca_cron_expr a)
      then Inr (\<lparr>sd_kind = KIND_CRON, sd_at = None, sd_every = None, sd_expr = ca_cron_expr a, sd_tz = ca_tz a\<rparr>, False)
      else if str_given (ca_at a)
      then (case from_iso (the (ca_at a)) of
              None \<Rightarrow> Inl (''Error: invalid ISO datetime format '' @ quoted (the (ca_at a))
                        @ ''. Expected format: YYYY-MM-DDTHH:MM:SS'')
            | Some ms \<Rightarrow> Inr (\<lparr>sd_kind = KIND_AT, sd_at = Some ms, sd_every = None, sd_expr = None, sd_tz = None\<rparr>, True))
      else Inl ''Error: either every_seconds, cron_expr, or at is required'')"

definition cron_tool_add ::
  "croniter \<Rightarrow> (string \<Rightarrow> bool) \<Rightarrow> (string \<Rightarrow> int option) \<Rightarrow> string \<Rightarrow> int \<Rightarrow> cron_tool \<Rightarrow> cron_args \<Rightarrow> cron
     \<Rightarrow> (cron_error + string) \<times> cron" where
  "cron_tool_add cr zones from_iso jid now c a s =
     (case cron_tool_check zones c a of
        Some x \<Rightarrow> (Inr x, s)
      | None \<Rightarrow>
          (case cron_tool_schedule from_iso a of
             Inl x \<Rightarrow> (Inr x, s)
           | Inr (sd, del) \<Rightarrow>
               (case add_job cr zones jid now (take 30 (the (ca_message a))) sd (the (ca_message a)) True
                       (Some (ct_channel c)) (Some (ct_chat c)) del s of
                  (Inl x, s) \<Rightarrow> (Inl x, s)
                | (Inr j, s) \<Rightarrow> (Inr (''Created job '' @ quoted (cj_name j) @ '' (id: '' @ cj_id j @ '')''), s))))"

definition cron_tool_list :: "cron \<Rightarrow> string \<times> cron" where
  "cron_tool_list s =
     (let (js, s) = list_jobs False s
      in (if js = [] then ''No scheduled jobs.''
          else ''Scheduled jobs:'' @ [CHR 0x0A] @ comma_join [CHR 0x0A]
            (map (\<lambda>j. ''- '' @ cj_name j @ '' (id: '' @ cj_id j @ '', '' @ kind_name (sd_kind (cj_schedule j)) @ '')'') js), s))"

definition cron_tool_remove :: "int \<Rightarrow> string option \<Rightarrow> cron \<Rightarrow> string \<times> cron" where
  "cron_tool_remove now jid s =
     (if \<not> str_given jid then (''Error: job_id is required for remove'', s)
      else let (b, s) = remove_job (the jid) now s
           in (if b then ''Removed job '' @ the jid else ''Job '' @ the jid @ '' not found'', s))"

definition cron_tool_run ::
  "croniter \<Rightarrow> (string \<Rightarrow> bool) \<Rightarrow> (string \<Rightarrow> int option) \<Rightarrow> string \<Rightarrow> int \<Rightarrow> cron_tool \<Rightarrow> cron_args \<Rightarrow> cron
     \<Rightarrow> (cron_error + string) \<times> cron" where
  "cron_tool_run cr zones from_iso jid now c a s =
     (if ca_action a = ''add''
      then (if ct_in_cron c then (Inr ''Error: cannot schedule new jobs from within a cron job execution'', s)
            else cron_tool_add cr zones from_iso jid now c a s)
      else if ca_action a = ''list'' then (let (x, s) = cron_tool_list s in (Inr x, s))
      else if ca_action a = ''remove'' then (let (x, s) = cron_tool_remove now (ca_job a) s in (Inr x, s))
      else (Inr (''Unknown action: '' @ ca_action a), s))"

lemma load_store_runs: "load_store s = (js, s') \<Longrightarrow> file_jobs s' = file_jobs s \<and> cs_file s' = cs_file s"
  by (auto simp: load_store_def file_jobs_def Let_def split: option.splits if_splits)

lemma add_job_file:
  assumes "cron_inv s"
  shows "case add_job cr zones jid now n sd m dl ch tgt del s of
      (Inl x, s') \<Rightarrow> validate_schedule zones sd = Some x \<and> file_jobs s' = file_jobs s
    | (Inr j, s') \<Rightarrow> validate_schedule zones sd = None \<and> file_jobs s' = file_jobs s @ [j] \<and> cj_id j = jid
        \<and> cj_schedule j = sd \<and> cj_enabled j \<and> cj_next j = compute_next_run cr sd now \<and> cj_delete_after_run j = del"
proof -
  obtain js s1 where ld: "load_store s = (js, s1)" by (cases "load_store s")
  note inv = load_store_inv [OF assms ld]
  show ?thesis
    using inv by (auto simp: add_job_def ld Let_def set_jobs_def save_store_def file_jobs_def
        split: option.splits prod.splits)
qed

lemma remove_job_file:
  assumes "cron_inv s"
  shows "set (file_jobs (snd (remove_job jid now s))) \<subseteq> set (file_jobs s)"
proof -
  obtain js s1 where ld: "load_store s = (js, s1)" by (cases "load_store s")
  note inv = load_store_inv [OF assms ld]
  have "file_jobs (set_jobs k s1) = file_jobs s1" for k by (simp add: set_jobs_def file_jobs_def)
  moreover have "file_jobs (arm_timer n t) = file_jobs t" for n t by (simp add: file_jobs_def)
  moreover have "file_jobs (save_store (set_jobs k s1)) = k" for k
    by (simp add: set_jobs_def save_store_def file_jobs_def)
  ultimately show ?thesis using inv by (auto simp: remove_job_def ld Let_def)
qed

lemma list_jobs_file: "cron_inv s \<Longrightarrow> file_jobs (snd (list_jobs b s)) = file_jobs s"
  by (cases "load_store s") (simp add: list_jobs_def Let_def load_store_runs)

lemma cron_tool_schedule_ok:
  assumes "cron_tool_check zones c a = None" and "cron_tool_schedule from_iso a = Inr (sd, del)"
  shows "validate_schedule zones sd = None \<and> (del \<longleftrightarrow> sd_kind sd = KIND_AT)"
proof -
  have tz: "str_given (ca_tz a) \<longrightarrow> zones (the (ca_tz a))"
    using assms(1) by (simp add: cron_tool_check_def split: if_splits)
  have none: "str_given None = False" by (simp add: str_given_def)
  show ?thesis
    using assms(2) tz
    by (cases "ca_tz a") (auto simp: cron_tool_schedule_def validate_schedule_def none str_given_def
        split: if_splits option.splits)
qed

lemma cron_tool_add_cases:
  assumes inv: "cron_inv s" and add: "cron_tool_add cr zones from_iso jid now c a s = (r, s')"
  shows "\<exists>x. r = Inr x \<and> (file_jobs s' = file_jobs s \<or>
      (\<exists>j. file_jobs s' = file_jobs s @ [j] \<and> cj_id j = jid \<and> cj_enabled j
         \<and> (cj_delete_after_run j \<longleftrightarrow> sd_kind (cj_schedule j) = KIND_AT)))"
proof (cases "cron_tool_check zones c a")
  case (Some x)
  with add show ?thesis by (auto simp: cron_tool_add_def)
next
  case check: None
  show ?thesis
  proof (cases "cron_tool_schedule from_iso a")
    case (Inl x)
    with add check show ?thesis by (auto simp: cron_tool_add_def)
  next
    case (Inr p)
    obtain sd del where sd: "cron_tool_schedule from_iso a = Inr (sd, del)" using Inr by (cases p) auto
    note ok = cron_tool_schedule_ok [OF check sd]
    obtain r' t where call: "add_job cr zones jid now (take 30 (the (ca_message a))) sd (the (ca_message a)) True
        (Some (ct_channel c)) (Some (ct_chat c)) del s = (r', t)" by fastforce
    have "case (r', t) of (Inl x, s') \<Rightarrow> validate_schedule zones sd = Some x \<and> file_jobs s' = file_jobs s
      | (Inr j, s') \<Rightarrow> validate_schedule zones sd = None \<and> file_jobs s' = file_jobs s @ [j] \<and> cj_id j = jid
        \<and> cj_schedule j = sd \<and> cj_enabled j \<and> cj_next j = compute_next_run cr sd now \<and> cj_delete_after_run j = del"
      unfolding call [symmetric] by (rule add_job_file [OF inv])
    with ok add check sd call show ?thesis by (cases r') (auto simp: cron_tool_add_def)
  qed
qed

text \<open>
  The scheduling tool never raises: its own checks imply those of the service. From inside a job it
  adds nothing, and what it adds is one enabled job that is delivered to the session it came from, a
  one-shot job exactly when it deletes itself.
\<close>

theorem cron_tool_safe:
  assumes "cron_inv s"
  shows "case cron_tool_run cr zones from_iso jid now c a s of
      (Inl x, s') \<Rightarrow> False
    | (Inr x, s') \<Rightarrow>
        (if ca_action a = ''remove'' then \<forall>j \<in> set (file_jobs s'). j \<in> set (file_jobs s)
         else file_jobs s' = file_jobs s
           \<or> (\<not> ct_in_cron c \<and> (\<exists>j. file_jobs s' = file_jobs s @ [j] \<and> cj_id j = jid \<and> cj_enabled j
                \<and> (cj_delete_after_run j \<longleftrightarrow> sd_kind (cj_schedule j) = KIND_AT))))"
proof (cases "cron_tool_run cr zones from_iso jid now c a s")
  case (Pair r s')
  consider (added) "ca_action a = ''add''" "\<not> ct_in_cron c" | (removed) "ca_action a = ''remove''"
    | (other) "(\<exists>x. r = Inr x) \<and> file_jobs s' = file_jobs s" "ca_action a \<noteq> ''remove''"
    using Pair list_jobs_file [OF assms, of False]
    by (auto simp: cron_tool_run_def cron_tool_list_def Let_def split: if_splits prod.splits)
  then show ?thesis
  proof cases
    case added
    with Pair have "cron_tool_add cr zones from_iso jid now c a s = (r, s')" by (simp add: cron_tool_run_def)
    from cron_tool_add_cases [OF assms this] added Pair show ?thesis by auto
  next
    case removed
    with Pair remove_job_file [OF assms, of _ now] show ?thesis
      by (auto simp: cron_tool_run_def cron_tool_remove_def Let_def split: if_splits prod.splits)
        (metis snd_conv subsetD)+
  next
    case other
    with Pair show ?thesis by auto
  qed
qed

definition sample_call :: cron_args where
  "sample_call = \<lparr>ca_action = ''add'', ca_message = Some ''stretch'', ca_every = Some 60, ca_cron_expr = None,
     ca_tz = None, ca_at = None, ca_job = None\<rparr>"

definition sample_tool :: cron_tool where
  "sample_tool = \<lparr>ct_channel = ''telegram'', ct_chat = ''42'', ct_in_cron = False\<rparr>"

lemma cron_tool_safe_witness:
  "fst (cron_tool_run (\<lambda>_ _ n. Some (n + 1)) (\<lambda>_. True) (\<lambda>_. None) ''j1'' 5 sample_tool sample_call (new_cron None))
     = Inr (''Created job '' @ quoted ''stretch'' @ '' (id: j1)'')
   \<and> \<not> is_error (fst (cron_tool_run (\<lambda>_ _ n. Some (n + 1)) (\<lambda>_. True) (\<lambda>_. None) ''j1'' 5 sample_tool
         (sample_call\<lparr>ca_every := Some (- 1)\<rparr>) (new_cron None)))"
proof
  show "fst (cron_tool_run (\<lambda>_ _ n. Some (n + 1)) (\<lambda>_. True) (\<lambda>_. None) ''j1'' 5 sample_tool sample_call (new_cron None))
     = Inr (''Created job '' @ quoted ''stretch'' @ '' (id: j1)'')" by code_simp
  let ?r = "cron_tool_run (\<lambda>_ _ n. Some (n + 1)) (\<lambda>_. True) (\<lambda>_. None) ''j1'' 5 sample_tool
         (sample_call\<lparr>ca_every := Some (- 1)\<rparr>) (new_cron None)"
  have "cron_inv (new_cron None)" by (simp add: new_cron_def cron_inv_def)
  from cron_tool_safe [OF this, where cr = "\<lambda>_ _ n. Some (n + 1)" and zones = "\<lambda>_. True" and from_iso = "\<lambda>_. None"
      and jid = "''j1''" and now = 5 and c = sample_tool and a = "sample_call\<lparr>ca_every := Some (- 1)\<rparr>"]
  show "\<not> is_error (fst ?r)" by (cases ?r; cases "fst ?r") auto
qed

end
