(* ===== verification/Rag_Index.thy ===== *)
theory Rag_Index
  imports Amber_Prelude
begin

text \<open>
  \<open>rag/chunker.py\<close>, \<open>rag/indexer.py\<close>, \<open>rag/retriever.py\<close> and \<open>rag/knowledge_base.py\<close>: the sliding window over
  a text, the index of chunks, and the three ways to search it. The identifiers of new chunks (\<open>uid\<close>),
  the embedder (\<open>emb\<close>) and the similarity of two of its vectors (\<open>sim\<close>) are parameters. Sets are lists
  without repetition; Python may visit them in another order, which only affects ties.
\<close>

section \<open>Chunks\<close>

record chunk =
  ck_id :: string
  ck_text :: string
  ck_index :: nat
  ck_start :: nat
  ck_end :: nat
  ck_meta :: "(string, json) pydict"

record chunker =
  tc_size :: nat
  tc_overlap :: nat
  tc_separator :: string

datatype chunker_error = SizeNotPositive | NegativeOverlap | OverlapTooLarge

definition new_chunker :: "int \<Rightarrow> int \<Rightarrow> string \<Rightarrow> chunker_error + chunker" where
  "new_chunker sz overlap sep =
     (if sz \<le> 0 then Inl SizeNotPositive
      else if overlap < 0 then Inl NegativeOverlap
      else if overlap \<ge> sz then Inl OverlapTooLarge
      else Inr \<lparr>tc_size = nat sz, tc_overlap = nat overlap, tc_separator = sep\<rparr>)"

definition slice :: "nat \<Rightarrow> nat \<Rightarrow> 'a list \<Rightarrow> 'a list" where
  "slice a b xs = take (b - a) (drop a xs)"

text \<open>\<open>text.rfind(sub, a, b)\<close> for bounds inside the text.\<close>

definition rfind :: "string \<Rightarrow> string \<Rightarrow> nat \<Rightarrow> nat \<Rightarrow> nat option" where
  "rfind tx sub a b =
     (if b < length sub then None
      else find (\<lambda>i. slice i (i + length sub) tx = sub) (rev [a..<Suc (b - length sub)]))"

text \<open>The end of the window at \<open>pos\<close>.\<close>

definition window_end :: "chunker \<Rightarrow> string \<Rightarrow> nat \<Rightarrow> nat" where
  "window_end c tx pos =
     (let e = min (pos + tc_size c) (length tx)
      in if e < length tx
         then (case (case rfind tx (tc_separator c) (pos + tc_overlap c) e of
                       None \<Rightarrow> rfind tx '' '' (pos + tc_overlap c) e | Some b \<Rightarrow> Some b) of
                 Some b \<Rightarrow> if b > pos then b else e
               | None \<Rightarrow> e)
         else e)"

text \<open>\<open>chunk_text\<close>: its loop from \<open>pos\<close> on, with \<open>n\<close> chunks made so far.\<close>

function chunk_from ::
  "(nat \<Rightarrow> string) \<Rightarrow> chunker \<Rightarrow> (string, json) pydict \<Rightarrow> string \<Rightarrow> nat \<Rightarrow> nat \<Rightarrow> chunk list" where
  "chunk_from uid c meta tx pos n =
     (if pos < length tx
      then let e = window_end c tx pos; content = strip (slice pos e tx);
               step = max 1 (e - pos - tc_overlap c)
           in (if content = [] then []
               else [\<lparr>ck_id = uid n, ck_text = content, ck_index = n, ck_start = pos, ck_end = e, ck_meta = meta\<rparr>])
              @ (if e \<ge> length tx then []
                 else chunk_from uid c meta tx (pos + step) (if content = [] then n else Suc n))
      else [])"
  by pat_completeness auto
termination
  by (relation "measure (\<lambda>(_, _, _, tx, pos, _). length tx - pos)") auto

declare chunk_from.simps [simp del]

definition chunk_text ::
  "(nat \<Rightarrow> string) \<Rightarrow> chunker \<Rightarrow> string \<Rightarrow> (string, json) pydict \<Rightarrow> chunk list" where
  "chunk_text uid c tx meta = (if strip tx = [] then [] else chunk_from uid c meta tx 0 0)"

text \<open>\<open>chunk_documents\<close>; a text field that is not a string raises.\<close>

fun chunk_documents ::
  "(nat \<Rightarrow> nat \<Rightarrow> string) \<Rightarrow> chunker \<Rightarrow> string \<Rightarrow> nat \<Rightarrow> (string, json) pydict list \<Rightarrow> chunk list option" where
  "chunk_documents uid c field n [] = Some []"
| "chunk_documents uid c field n (d # ds) =
     (case (case dget d field of None \<Rightarrow> Some [] | Some (JStr t) \<Rightarrow> Some t | Some _ \<Rightarrow> None) of
        None \<Rightarrow> None
      | Some t \<Rightarrow> map_option ((@) (chunk_text (uid n) c t (filter (\<lambda>(k, _). k \<noteq> field) d)))
                    (chunk_documents uid c field (Suc n) ds))"

section \<open>Correctness of the window\<close>

lemma find_member: "find P xs = Some x \<Longrightarrow> x \<in> set xs \<and> P x"
  by (induction xs) (auto split: if_splits)

lemma rfind_bounds: "rfind tx sub a b = Some i \<Longrightarrow> a \<le> i \<and> i + length sub \<le> b \<and> slice i (i + length sub) tx = sub"
proof -
  assume "rfind tx sub a b = Some i"
  then have "find (\<lambda>i. slice i (i + length sub) tx = sub) (rev [a..<Suc (b - length sub)]) = Some i"
    and "length sub \<le> b" by (simp_all add: rfind_def del: upt_Suc split: if_splits)
  from this(2) find_member [OF this(1)] have "i \<in> set (rev [a..<Suc (b - length sub)])"
    and "slice i (i + length sub) tx = sub" and "length sub \<le> b" by blast+
  then show ?thesis by auto
qed

lemma window_end_bounds:
  assumes "pos < length tx" and "0 < tc_size c"
  shows "pos < window_end c tx pos" "window_end c tx pos \<le> length tx" "window_end c tx pos \<le> pos + tc_size c"
proof -
  let ?e = "min (pos + tc_size c) (length tx)"
  have e: "pos < ?e" using assms by simp
  have "pos < window_end c tx pos \<and> window_end c tx pos \<le> ?e"
    using e by (auto simp: window_end_def Let_def simp del: min_less_iff_conj split: option.split dest!: rfind_bounds)
  then show "pos < window_end c tx pos" "window_end c tx pos \<le> length tx" "window_end c tx pos \<le> pos + tc_size c"
    by auto
qed

lemma strip_nil_iff: "strip s = [] \<longleftrightarrow> (\<forall>x \<in> set s. is_blank x)"
proof
  assume "strip s = []"
  then have tail: "\<forall>x \<in> set (dropWhile is_blank s). is_blank x" by (simp add: strip_def dropWhile_eq_Nil_conv)
  show "\<forall>x \<in> set s. is_blank x"
  proof (cases "dropWhile is_blank s")
    case Nil
    then show ?thesis by (simp add: dropWhile_eq_Nil_conv)
  next
    case (Cons y ys)
    then have "\<not> is_blank y" by (simp add: dropWhile_eq_Cons_conv)
    with tail Cons show ?thesis by simp
  qed
next
  assume "\<forall>x \<in> set s. is_blank x"
  then have "dropWhile is_blank s = []" unfolding dropWhile_eq_Nil_conv .
  then show "strip s = []" by (simp only: strip_def rev.simps dropWhile.simps)
qed

lemma nth_slice: "a \<le> i \<Longrightarrow> i < b \<Longrightarrow> b \<le> length xs \<Longrightarrow> xs ! i \<in> set (slice a b xs)"
  unfolding slice_def in_set_conv_nth by (intro exI [of _ "i - a"]) simp

lemma chunk_from_cover:
  assumes "0 < tc_size c" and "pos \<le> i" and "i < length tx" and "\<not> is_blank (tx ! i)"
  shows "\<exists>k \<in> set (chunk_from uid c meta tx pos n). ck_start k \<le> i \<and> i < ck_end k"
  using assms
proof (induction uid c meta tx pos n rule: chunk_from.induct)
  case (1 uid c meta tx pos n)
  let ?e = "window_end c tx pos"
  have pos: "pos < length tx" using "1.prems" by simp
  note w = window_end_bounds [OF pos "1.prems"(1)]
  show ?case
  proof (cases "i < ?e")
    case True
    then have "tx ! i \<in> set (slice pos ?e tx)" using "1.prems"(2) w by (intro nth_slice)
    then have "strip (slice pos ?e tx) \<noteq> []" using "1.prems"(4) by (auto simp: strip_nil_iff)
    with True pos "1.prems"(2) show ?thesis by (simp add: chunk_from.simps [of uid c meta tx pos n] Let_def)
  next
    case False
    then have e: "\<not> ?e \<ge> length tx" using "1.prems"(3) by simp
    let ?step = "max 1 (?e - pos - tc_overlap c)"
    have "pos + ?step \<le> ?e" using w(1) by auto
    with False have "pos + ?step \<le> i" by simp
    from "1.IH" [OF pos refl refl refl e "1.prems"(1) this "1.prems"(3,4)] pos e show ?thesis
      by (auto simp: chunk_from.simps [of uid c meta tx pos n] Let_def)
  qed
qed

definition chunk_of :: "chunker \<Rightarrow> string \<Rightarrow> chunk \<Rightarrow> bool" where
  "chunk_of c tx k = (ck_start k < ck_end k \<and> ck_end k \<le> length tx \<and> ck_end k - ck_start k \<le> tc_size c
     \<and> ck_text k = strip (slice (ck_start k) (ck_end k) tx) \<and> ck_text k \<noteq> [])"

lemma chunk_from_shape:
  assumes "0 < tc_size c"
  shows "(\<forall>k \<in> set (chunk_from uid c meta tx pos n). chunk_of c tx k \<and> pos \<le> ck_start k)
    \<and> map ck_index (chunk_from uid c meta tx pos n) = [n..<n + length (chunk_from uid c meta tx pos n)]
    \<and> sorted_wrt (<) (map ck_start (chunk_from uid c meta tx pos n))
    \<and> length (chunk_from uid c meta tx pos n) \<le> length tx - pos"
  using assms
proof (induction uid c meta tx pos n rule: chunk_from.induct)
  case (1 uid c meta tx pos n)
  let ?e = "window_end c tx pos" and ?step = "max 1 (window_end c tx pos - pos - tc_overlap c)"
  let ?t = "strip (slice pos ?e tx)"
  let ?k = "\<lparr>ck_id = uid n, ck_text = ?t, ck_index = n, ck_start = pos, ck_end = ?e, ck_meta = meta\<rparr>"
  let ?m = "if ?t = [] then n else Suc n"
  define rest where "rest = (if ?e \<ge> length tx then [] else chunk_from uid c meta tx (pos + ?step) ?m)"
  show ?case
  proof (cases "pos < length tx")
    case False
    then show ?thesis by (simp add: chunk_from.simps [of uid c meta tx pos n])
  next
    case pos: True
    note w = window_end_bounds [OF pos "1.prems"]
    have eq: "chunk_from uid c meta tx pos n = (if ?t = [] then [] else [?k]) @ rest"
      using pos by (simp add: chunk_from.simps [of uid c meta tx pos n] Let_def rest_def)
    have rest: "(\<forall>k \<in> set rest. chunk_of c tx k \<and> pos < ck_start k) \<and> map ck_index rest = [?m..<?m + length rest]
        \<and> sorted_wrt (<) (map ck_start rest) \<and> length rest < length tx - pos"
    proof (cases "?e \<ge> length tx")
      case True
      with pos show ?thesis by (simp add: rest_def)
    next
      case False
      have "1 \<le> ?step" by simp
      with "1.IH" [OF pos refl refl refl False "1.prems"] False pos show ?thesis
        by (fastforce simp: rest_def)
    qed
    have "chunk_of c tx ?k" if "?t \<noteq> []" using w that by (simp add: chunk_of_def)
    with rest show ?thesis unfolding eq by (auto simp: upt_rec)
  qed
qed

text \<open>
  C7. Chunking a text always ends, and loses nothing: every character that is not blank lies in the window of
  some chunk. A chunk is the stripped text of its window, never empty and never longer than the
  configured size; the chunks are numbered from 0, their starts increase, and there are no more of
  them than characters.
\<close>

theorem chunk_text_covers:
  assumes "new_chunker sz overlap sep = Inr c"
  shows "(\<forall>i < length tx. is_blank (tx ! i) \<or> (\<exists>k \<in> set (chunk_text uid c tx meta). ck_start k \<le> i \<and> i < ck_end k))
    \<and> (\<forall>k \<in> set (chunk_text uid c tx meta). ck_start k < ck_end k \<and> ck_end k \<le> length tx
         \<and> int (ck_end k - ck_start k) \<le> sz \<and> ck_text k = strip (slice (ck_start k) (ck_end k) tx) \<and> ck_text k \<noteq> [])
    \<and> map ck_index (chunk_text uid c tx meta) = [0..<length (chunk_text uid c tx meta)]
    \<and> sorted_wrt (<) (map ck_start (chunk_text uid c tx meta))
    \<and> length (chunk_text uid c tx meta) \<le> length tx"
proof -
  have c: "0 < tc_size c" "int (tc_size c) = sz"
    using assms by (auto simp: new_chunker_def split: if_splits)
  note shape = chunk_from_shape [OF c(1), of uid meta tx 0 0]
  have "is_blank (tx ! i) \<or> (\<exists>k \<in> set (chunk_text uid c tx meta). ck_start k \<le> i \<and> i < ck_end k)" if "i < length tx" for i
    using chunk_from_cover [OF c(1) _ that, of 0 uid meta 0] that nth_mem [OF that]
    by (auto simp: chunk_text_def strip_nil_iff)
  moreover have "int (ck_end k - ck_start k) \<le> sz" if "chunk_of c tx k" for k
  proof -
    have "ck_end k - ck_start k \<le> tc_size c" using that by (simp add: chunk_of_def)
    with c(2) show ?thesis by linarith
  qed
  ultimately show ?thesis using shape by (auto simp: chunk_text_def chunk_of_def)
qed

lemma chunk_text_covers_witness:
  "map ck_text (chunk_text (\<lambda>n. show_nat n) \<lparr>tc_size = 6, tc_overlap = 2, tc_separator = [CHR 0x0A, CHR 0x0A]\<rparr> ''ab cd ef gh'' [])
     = [''ab cd'', ''cd ef'', ''ef gh'']
   \<and> map ck_index (chunk_text (\<lambda>n. show_nat n) \<lparr>tc_size = 6, tc_overlap = 2, tc_separator = [CHR 0x0A, CHR 0x0A]\<rparr> ''ab cd ef gh'' [])
     = [0, 1, 2]"
proof
  let ?c = "\<lparr>tc_size = 6, tc_overlap = 2, tc_separator = [CHR 0x0A, CHR 0x0A]\<rparr>"
  show eq: "map ck_text (chunk_text (\<lambda>n. show_nat n) ?c ''ab cd ef gh'' []) = [''ab cd'', ''cd ef'', ''ef gh'']" by code_simp
  have "new_chunker 6 2 [CHR 0x0A, CHR 0x0A] = Inr ?c" by (simp add: new_chunker_def)
  from chunk_text_covers [OF this]
  have "map ck_index (chunk_text (\<lambda>n. show_nat n) ?c ''ab cd ef gh'' [])
      = [0..<length (chunk_text (\<lambda>n. show_nat n) ?c ''ab cd ef gh'' [])]" by blast
  moreover have "length (chunk_text (\<lambda>n. show_nat n) ?c ''ab cd ef gh'' []) = 3"
    using arg_cong [OF eq, of length] by (simp only: length_map list.size)
  moreover have "[0..<3] = [0, 1, 2 :: nat]" by (simp add: upt_rec)
  ultimately show "map ck_index (chunk_text (\<lambda>n. show_nat n) ?c ''ab cd ef gh'' []) = [0, 1, 2]" by simp
qed

section \<open>The index\<close>

text \<open>\<open>re.findall(r"\w+", s)\<close> on ASCII text.\<close>

definition word_char :: "char \<Rightarrow> bool" where
  "word_char c = (let n = (of_char c :: nat) in 48 \<le> n \<and> n \<le> 57 \<or> 65 \<le> n \<and> n \<le> 90 \<or> n = 95 \<or> 97 \<le> n \<and> n \<le> 122)"

function words :: "string \<Rightarrow> string list" where
  "words [] = []"
| "words (c # s) = (if word_char c then (c # takeWhile word_char s) # words (dropWhile word_char s) else words s)"
  by pat_completeness auto
termination
  by (relation "measure length") (auto simp: le_imp_less_Suc length_dropWhile_le)

definition tokens :: "string \<Rightarrow> string list" where
  "tokens t = remdups (words (lower t))"

record 'v doc_index =
  ix_chunks :: "(string, chunk) pydict"
  ix_embeddings :: "(string, 'v) pydict"
  ix_inverted :: "(string, string list) pydict"

definition empty_index :: "'v doc_index" where
  "empty_index = \<lparr>ix_chunks = [], ix_embeddings = [], ix_inverted = []\<rparr>"

definition post_token :: "string \<Rightarrow> string \<Rightarrow> (string, string list) pydict \<Rightarrow> (string, string list) pydict" where
  "post_token cid t posts = dset t (List.insert cid (dgetd posts t [])) posts"

definition add_chunk :: "chunk \<Rightarrow> 'v option \<Rightarrow> 'v doc_index \<Rightarrow> 'v doc_index" where
  "add_chunk c emb ix =
     ix\<lparr>ix_chunks := dset (ck_id c) c (ix_chunks ix),
        ix_embeddings := (case emb of None \<Rightarrow> ix_embeddings ix | Some v \<Rightarrow> dset (ck_id c) v (ix_embeddings ix)),
        ix_inverted := fold (post_token (ck_id c)) (tokens (ck_text c)) (ix_inverted ix)\<rparr>"

definition add_chunks :: "chunk list \<Rightarrow> 'v list option \<Rightarrow> 'v doc_index \<Rightarrow> 'v doc_index option" where
  "add_chunks cs embs ix =
     (case embs of
        None \<Rightarrow> Some (fold (\<lambda>c. add_chunk c None) cs ix)
      | Some vs \<Rightarrow>
          if vs = [] then Some (fold (\<lambda>c. add_chunk c None) cs ix)
          else if length cs \<noteq> length vs then None
          else Some (fold (\<lambda>(c, v). add_chunk c (Some v)) (zip cs vs) ix))"

definition get_chunk :: "string \<Rightarrow> 'v doc_index \<Rightarrow> chunk option" where
  "get_chunk cid ix = dget (ix_chunks ix) cid"

definition clear_index :: "'v doc_index \<Rightarrow> 'v doc_index" where
  "clear_index ix = empty_index"

text \<open>\<open>xs[:k]\<close>.\<close>

definition slice_to :: "int \<Rightarrow> 'a list \<Rightarrow> 'a list" where
  "slice_to k xs = (if k \<ge> 0 then take (nat k) xs else take (length xs - nat (- k)) xs)"

text \<open>A comprehension that raises where \<open>f\<close> does.\<close>

fun collect :: "('a \<Rightarrow> 'b option) \<Rightarrow> 'a list \<Rightarrow> 'b list option" where
  "collect f [] = Some []"
| "collect f (x # xs) = (case f x of None \<Rightarrow> None | Some y \<Rightarrow> map_option ((#) y) (collect f xs))"

text \<open>Searches; \<open>None\<close> is a \<open>KeyError\<close>.\<close>

definition search_vector ::
  "('v \<Rightarrow> 'v \<Rightarrow> rat) \<Rightarrow> 'v \<Rightarrow> int \<Rightarrow> rat \<Rightarrow> 'v doc_index \<Rightarrow> (chunk \<times> rat) list option" where
  "search_vector sim q k min_score ix =
     map_option (slice_to k \<circ> sorted_desc snd)
       (collect (\<lambda>(cid, v). map_option (\<lambda>c. (c, sim q v)) (dget (ix_chunks ix) cid))
         (filter (\<lambda>(cid, v). sim q v \<ge> min_score) (ix_embeddings ix)))"

definition bump :: "string \<Rightarrow> (string, nat) pydict \<Rightarrow> (string, nat) pydict" where
  "bump cid m = dset cid (dgetd m cid 0 + 1) m"

definition count_matches :: "(string, string list) pydict \<Rightarrow> string list \<Rightarrow> (string, nat) pydict" where
  "count_matches posts q = fold (\<lambda>t. fold bump (dgetd posts t [])) q []"

definition search_keyword :: "string \<Rightarrow> int \<Rightarrow> 'v doc_index \<Rightarrow> (chunk \<times> rat) list option" where
  "search_keyword query k ix =
     (let q = tokens query
      in if q = [] then Some []
         else map_option (slice_to k \<circ> sorted_desc snd)
           (collect (\<lambda>(cid, n). map_option (\<lambda>c. (c, of_nat n / of_nat (length q))) (dget (ix_chunks ix) cid))
             (count_matches (ix_inverted ix) q)))"

section \<open>Retrieval\<close>

record retrieval =
  rr_chunk :: chunk
  rr_score :: rat
  rr_method :: string

text \<open>The model of a result refuses a negative score.\<close>

definition mk_retrieval :: "string \<Rightarrow> chunk \<times> rat \<Rightarrow> retrieval option" where
  "mk_retrieval m cs = (if snd cs < 0 then None else Some \<lparr>rr_chunk = fst cs, rr_score = snd cs, rr_method = m\<rparr>)"

definition retrieve_vector ::
  "(string \<Rightarrow> 'v) \<Rightarrow> ('v \<Rightarrow> 'v \<Rightarrow> rat) \<Rightarrow> string \<Rightarrow> int \<Rightarrow> 'v doc_index \<Rightarrow> retrieval list option" where
  "retrieve_vector emb sim query k ix =
     Option.bind (search_vector sim (emb query) k 0 ix)
       (collect (\<lambda>(c, x). mk_retrieval ''vector'' (c, py_round 4 x)))"

definition retrieve_keyword :: "string \<Rightarrow> int \<Rightarrow> 'v doc_index \<Rightarrow> retrieval list option" where
  "retrieve_keyword query k ix =
     Option.bind (search_keyword query k ix) (collect (\<lambda>(c, x). mk_retrieval ''keyword'' (c, py_round 4 x)))"

text \<open>One list of ranked results adds \<open>weight / (rrf_k + rank + 1)\<close> to the score of each of its chunks.\<close>

type_synonym fusion = "(string, rat) pydict \<times> (string, chunk) pydict"

definition fuse :: "rat \<Rightarrow> nat \<Rightarrow> retrieval list \<Rightarrow> fusion \<Rightarrow> fusion" where
  "fuse weight rrf_k rs f =
     fold (\<lambda>(rank, r) (scores, cs).
         let cid = ck_id (rr_chunk r)
         in (dset cid (dgetd scores cid 0 + weight * (1 / of_nat (rrf_k + rank + 1))) scores, dset cid (rr_chunk r) cs))
       (enumerate 0 rs) f"

definition retrieve_hybrid ::
  "(string \<Rightarrow> 'v) \<Rightarrow> ('v \<Rightarrow> 'v \<Rightarrow> rat) \<Rightarrow> string \<Rightarrow> int \<Rightarrow> rat \<Rightarrow> nat \<Rightarrow> 'v doc_index \<Rightarrow> retrieval list option" where
  "retrieve_hybrid emb sim query k vector_weight rrf_k ix =
     (case (retrieve_vector emb sim query (k * 2) ix, retrieve_keyword query (k * 2) ix) of
        (Some vs, Some ks) \<Rightarrow>
          (let (scores, cs) = fuse (1 - vector_weight) rrf_k ks (fuse vector_weight rrf_k vs ([], []))
           in collect (\<lambda>(cid, x). Option.bind (dget cs cid) (\<lambda>c. mk_retrieval ''hybrid_rrf'' (c, py_round 4 (x * 100))))
                (slice_to k (sorted_desc snd scores)))
      | _ \<Rightarrow> None)"

section \<open>The knowledge base\<close>

record 'v knowledge_base =
  kb_chunker :: chunker
  kb_index :: "'v doc_index"
  kb_docs :: "string list"

text \<open>The document identifier goes into the metadata of every chunk.\<close>

definition add_document ::
  "(nat \<Rightarrow> string) \<Rightarrow> (string \<Rightarrow> 'v) \<Rightarrow> string \<Rightarrow> string \<Rightarrow> (string, json) pydict \<Rightarrow> 'v knowledge_base
     \<Rightarrow> (chunk list \<times> 'v knowledge_base) option" where
  "add_document uid emb doc_id tx meta b =
     (let cs = chunk_text uid (kb_chunker b) tx (dset ''doc_id'' (JStr doc_id) meta)
      in map_option (\<lambda>ix. (cs, b\<lparr>kb_index := ix, kb_docs := List.insert doc_id (kb_docs b)\<rparr>))
           (if cs = [] then Some (kb_index b)
            else add_chunks cs (Some (map (emb \<circ> ck_text) cs)) (kb_index b)))"

definition kb_query ::
  "(string \<Rightarrow> 'v) \<Rightarrow> ('v \<Rightarrow> 'v \<Rightarrow> rat) \<Rightarrow> string \<Rightarrow> int \<Rightarrow> string \<Rightarrow> 'v knowledge_base \<Rightarrow> retrieval list option" where
  "kb_query emb sim query k mode b =
     (if mode = ''vector'' then retrieve_vector emb sim query k (kb_index b)
      else if mode = ''keyword'' then retrieve_keyword query k (kb_index b)
      else retrieve_hybrid emb sim query k (6 / 10) 60 (kb_index b))"

definition kb_clear :: "'v knowledge_base \<Rightarrow> 'v knowledge_base" where
  "kb_clear b = b\<lparr>kb_index := clear_index (kb_index b), kb_docs := []\<rparr>"

section \<open>Searching is total and exact\<close>

definition posted :: "'v doc_index \<Rightarrow> string \<Rightarrow> string list" where
  "posted ix t = dgetd (ix_inverted ix) t []"

definition index_ok :: "'v doc_index \<Rightarrow> bool" where
  "index_ok ix =
     ((\<forall>cid v. (cid, v) \<in> set (ix_embeddings ix) \<longrightarrow> dhas (ix_chunks ix) cid)
      \<and> (\<forall>t. distinct (posted ix t) \<and> (\<forall>cid \<in> set (posted ix t). dhas (ix_chunks ix) cid)))"

datatype 'v index_call = AddChunk chunk "'v option" | ClearIndex

fun index_step :: "'v index_call \<Rightarrow> 'v doc_index \<Rightarrow> 'v doc_index" where
  "index_step (AddChunk c e) ix = add_chunk c e ix"
| "index_step ClearIndex ix = clear_index ix"

lemma posted_tokens:
  "dgetd (fold (post_token cid) ts posts) t [] = (if t \<in> set ts then List.insert cid (dgetd posts t []) else dgetd posts t [])"
proof (induction ts arbitrary: posts)
  case Nil
  then show ?case by simp
next
  case (Cons u ts)
  then show ?case by (auto simp: post_token_def)
qed

lemma posted_add: "posted (add_chunk c e ix) t =
    (if t \<in> set (tokens (ck_text c)) then List.insert (ck_id c) (posted ix t) else posted ix t)"
  by (simp add: posted_def add_chunk_def posted_tokens)

lemma dhas_add: "dhas (ix_chunks (add_chunk c e ix)) cid = (cid = ck_id c \<or> dhas (ix_chunks ix) cid)"
  by (simp add: add_chunk_def dhas_def)

lemma index_step_ok: "index_ok ix \<Longrightarrow> index_ok (index_step call ix)"
proof (induction call)
  case (AddChunk c e)
  have emb: "dhas (ix_chunks (add_chunk c e ix)) cid" if "(cid, v) \<in> set (ix_embeddings (add_chunk c e ix))" for cid v
  proof (cases "cid = ck_id c")
    case True
    then show ?thesis by (simp add: dhas_add)
  next
    case False
    have "cid \<in> fst ` set (ix_embeddings (add_chunk c e ix))" using that by force
    then have "cid \<in> fst ` set (ix_embeddings ix)"
      using False by (auto simp: add_chunk_def update_conv' dom_map_of_conv_image_fst [symmetric] split: option.splits if_splits)
    with AddChunk show ?thesis by (force simp: index_ok_def dhas_add)
  qed
  with AddChunk show ?case by (auto simp: index_ok_def posted_add dhas_add)
next
  case ClearIndex
  then show ?case by (simp add: index_ok_def clear_index_def empty_index_def posted_def)
qed

interpretation rag_index: machine index_step index_ok
  by unfold_locales (rule index_step_ok)

lemma collect_Some: "(\<And>x. x \<in> set xs \<Longrightarrow> f x = Some (g x)) \<Longrightarrow> collect f xs = Some (map g xs)"
  by (induction xs) simp_all

lemma dict_ok_bump: "dict_ok m \<Longrightarrow> dict_ok (fold bump cids m)"
  by (induction cids arbitrary: m) (simp_all add: bump_def)

lemma count_bump: "dgetd (fold bump cids m) x 0 = dgetd m x 0 + count_list cids x"
  by (induction cids arbitrary: m) (simp_all add: bump_def)

lemma dhas_bump: "dhas (fold bump cids m) x = (dhas m x \<or> x \<in> set cids)"
  by (induction cids arbitrary: m) (auto simp: bump_def dhas_def)

lemma count_list_distinct: "distinct xs \<Longrightarrow> count_list xs x = (if x \<in> set xs then 1 else 0)"
  by (induction xs) auto

lemma count_matches_spec:
  assumes "\<And>t. distinct (dgetd posts t [])"
  shows "dict_ok (count_matches posts q)"
    and "dgetd (count_matches posts q) x 0 = length (filter (\<lambda>t. x \<in> set (dgetd posts t [])) q)"
    and "dhas (count_matches posts q) x = (\<exists>t \<in> set q. x \<in> set (dgetd posts t []))"
proof -
  let ?go = "\<lambda>q m. fold (\<lambda>t. fold bump (dgetd posts t [])) q m"
  have "dict_ok m \<Longrightarrow> dict_ok (?go q m)" for q m
    by (induction q arbitrary: m) (simp_all add: dict_ok_bump)
  then show "dict_ok (count_matches posts q)" by (simp add: count_matches_def dict_ok_def)
  have "dgetd (?go q m) x 0 = dgetd m x 0 + length (filter (\<lambda>t. x \<in> set (dgetd posts t [])) q)" for q m
    by (induction q arbitrary: m) (simp_all add: count_bump count_list_distinct assms)
  then show "dgetd (count_matches posts q) x 0 = length (filter (\<lambda>t. x \<in> set (dgetd posts t [])) q)"
    by (simp add: count_matches_def)
  have "dhas (?go q m) x = (dhas m x \<or> (\<exists>t \<in> set q. x \<in> set (dgetd posts t [])))" for q m
    by (induction q arbitrary: m) (auto simp: dhas_bump)
  then show "dhas (count_matches posts q) x = (\<exists>t \<in> set q. x \<in> set (dgetd posts t []))"
    by (simp add: count_matches_def dhas_def)
qed

text \<open>The unsorted keyword results of a query with tokens \<open>q\<close>.\<close>

definition keyword_hits :: "string list \<Rightarrow> 'v doc_index \<Rightarrow> (chunk \<times> rat) list" where
  "keyword_hits q ix = map (\<lambda>(cid, n). (the (dget (ix_chunks ix) cid), of_nat n / of_nat (length q)))
     (count_matches (ix_inverted ix) q)"

lemma keyword_hit_known:
  assumes "index_ok ix" and "(cid, n) \<in> set (count_matches (ix_inverted ix) q)"
  shows "dget (ix_chunks ix) cid \<noteq> None"
proof -
  have d: "distinct (dgetd (ix_inverted ix) t [])" for t using assms(1) by (simp add: index_ok_def posted_def)
  have "dhas (count_matches (ix_inverted ix) q) cid" using assms(2) by (force simp: dhas_iff_mem)
  then obtain t where "cid \<in> set (posted ix t)" by (auto simp: count_matches_spec(3) [OF d] posted_def)
  with assms(1) show ?thesis by (auto simp: index_ok_def dhas_def)
qed

lemma search_keyword_total:
  assumes "index_ok ix"
  shows "search_keyword query k ix = Some (slice_to k (sorted_desc snd (if tokens query = [] then [] else keyword_hits (tokens query) ix)))"
proof -
  have "collect (\<lambda>(cid, n). map_option (\<lambda>c. (c, of_nat n / of_nat (length (tokens query)))) (dget (ix_chunks ix) cid))
      (count_matches (ix_inverted ix) (tokens query)) = Some (keyword_hits (tokens query) ix)"
    unfolding keyword_hits_def by (rule collect_Some) (use keyword_hit_known [OF assms] in fastforce)
  then show ?thesis
    by (simp add: search_keyword_def Let_def slice_to_def sorted_desc_def)
qed

lemma search_vector_total:
  assumes "index_ok ix"
  shows "search_vector sim q k m ix = Some (slice_to k (sorted_desc snd
    (map (\<lambda>(cid, v). (the (dget (ix_chunks ix) cid), sim q v)) (filter (\<lambda>(cid, v). sim q v \<ge> m) (ix_embeddings ix)))))"
proof -
  have "dget (ix_chunks ix) cid \<noteq> None" if "(cid, v) \<in> set (ix_embeddings ix)" for cid v
    using assms that by (auto simp: index_ok_def dhas_def)
  then have "collect (\<lambda>(cid, v). map_option (\<lambda>c. (c, sim q v)) (dget (ix_chunks ix) cid))
      (filter (\<lambda>(cid, v). sim q v \<ge> m) (ix_embeddings ix)) =
    Some (map (\<lambda>(cid, v). (the (dget (ix_chunks ix) cid), sim q v)) (filter (\<lambda>(cid, v). sim q v \<ge> m) (ix_embeddings ix)))"
    by (intro collect_Some) fastforce
  then show ?thesis by (simp add: search_vector_def)
qed

lemma length_slice_to: "length (slice_to k xs) \<le> (if k \<ge> 0 then min (nat k) (length xs) else length xs)"
  by (auto simp: slice_to_def)

lemma set_slice_to: "set (slice_to k xs) \<subseteq> set xs"
  by (auto simp: slice_to_def dest: in_set_takeD)

text \<open>
  Whatever was indexed, re-indexed or cleared, no search raises: every identifier the index hands out
  is that of a chunk it holds, and at most \<open>k\<close> results come back.
\<close>

theorem index_searches_total:
  fixes calls :: "'v index_call list"
  defines "ix \<equiv> fold index_step calls empty_index"
  shows "\<exists>vs ks. search_vector sim q k m ix = Some vs \<and> search_keyword query k ix = Some ks
    \<and> (\<lambda>(c, _). c) ` (set vs \<union> set ks) \<subseteq> {c. \<exists>cid. dget (ix_chunks ix) cid = Some c}
    \<and> (if k \<ge> 0 then int (length vs) \<le> k \<and> int (length ks) \<le> k else True)"
proof -
  have ok: "index_ok ix" unfolding ix_def
    by (rule rag_index.run_inv) (simp add: index_ok_def empty_index_def posted_def)
  let ?C = "{c. \<exists>cid. dget (ix_chunks ix) cid = Some c}"
  have "fst ` set (map (\<lambda>(cid, v). (the (dget (ix_chunks ix) cid), sim q v)) (filter (\<lambda>(cid, v). sim q v \<ge> m) (ix_embeddings ix))) \<subseteq> ?C"
    using ok by (force simp: index_ok_def dhas_def)
  moreover have "fst ` set (keyword_hits (tokens query) ix) \<subseteq> ?C"
    using keyword_hit_known [OF ok] by (force simp: keyword_hits_def)
  moreover have "fst ` set (slice_to k (sorted_desc snd xs)) \<subseteq> ?C" if "fst ` set xs \<subseteq> ?C" for xs :: "(chunk \<times> rat) list"
    using that set_slice_to [of k "sorted_desc snd xs"] by auto
  moreover have "int (length (slice_to k xs)) \<le> k" if "k \<ge> 0" for xs :: "(chunk \<times> rat) list"
    using length_slice_to [of k xs] that by simp linarith
  ultimately show ?thesis
    unfolding search_vector_total [OF ok] search_keyword_total [OF ok] by (simp add: case_prod_beta image_Un slice_to_def)
qed

lemma index_of_fold:
  assumes "distinct (map (ck_id \<circ> fst) ces)"
  shows "posted (fold (\<lambda>(c, e). add_chunk c e) ces empty_index) t = rev (map (ck_id \<circ> fst) (filter (\<lambda>ce. t \<in> set (tokens (ck_text (fst ce)))) ces))"
    and "dget (ix_chunks (fold (\<lambda>(c, e). add_chunk c e) ces empty_index)) cid = map_of (map (\<lambda>ce. (ck_id (fst ce), fst ce)) ces) cid"
  using assms
proof (induction ces rule: rev_induct)
  case Nil
  case 1
  then show ?case by (simp add: posted_def empty_index_def)
next
  case Nil
  case 2
  then show ?case by (simp add: empty_index_def)
next
  case (snoc ce ces)
  obtain c e where ce: "ce = (c, e)" by (cases ce)
  case 1
  then have "ck_id c \<notin> (ck_id \<circ> fst) ` set ces" by (simp add: ce comp_def)
  then have "ck_id c \<notin> set (map (ck_id \<circ> fst) (filter (\<lambda>ce. t \<in> set (tokens (ck_text (fst ce)))) ces))"
    by auto
  with 1 snoc(1) show ?case by (auto simp: ce posted_add List.insert_def)
next
  case (snoc ce ces)
  obtain c e where ce: "ce = (c, e)" by (cases ce)
  case 2
  then have "ck_id c \<notin> (ck_id \<circ> fst) ` set ces" by (simp add: ce comp_def)
  then have "map_of (map (\<lambda>ce. (ck_id (fst ce), fst ce)) ces) (ck_id c) = None"
    by (simp add: map_of_eq_None_iff image_image)
  with 2 snoc(2) show ?case by (auto simp: ce add_chunk_def map_add_def split: option.split)
qed

text \<open>An index built from chunks with identifiers of their own.\<close>

definition built :: "(chunk \<times> 'v option) list \<Rightarrow> 'v doc_index" where
  "built ces = fold (\<lambda>(c, e). add_chunk c e) ces empty_index"

lemma built_ok: "index_ok (built ces)"
proof -
  have "fold (\<lambda>(c, e). add_chunk c e) ces ix = fold index_step (map (\<lambda>(c, e). AddChunk c e) ces) ix" for ix :: "'a doc_index"
    by (induction ces arbitrary: ix) auto
  then have "built ces = fold index_step (map (\<lambda>(c, e). AddChunk c e) ces) empty_index" by (simp add: built_def)
  then show ?thesis
    by (simp only:) (rule rag_index.run_inv, simp add: index_ok_def empty_index_def posted_def)
qed

lemma built_known:
  assumes "distinct (map (ck_id \<circ> fst) ces)" and "c \<in> fst ` set ces"
  shows "dget (ix_chunks (built ces)) (ck_id c) = Some c"
proof -
  have "distinct (map fst (map (\<lambda>ce. (ck_id (fst ce), fst ce)) ces))" using assms(1) by (simp add: comp_def)
  with assms(2) show ?thesis unfolding built_def index_of_fold(2) [OF assms(1)] by (force intro: map_of_is_SomeI)
qed

lemma built_posted:
  assumes "distinct (map (ck_id \<circ> fst) ces)"
  shows "set (posted (built ces) t) = {ck_id c | c. c \<in> fst ` set ces \<and> t \<in> set (tokens (ck_text c))}"
    and "c \<in> fst ` set ces \<Longrightarrow> (ck_id c \<in> set (posted (built ces) t)) = (t \<in> set (tokens (ck_text c)))"
proof -
  show set_posts: "set (posted (built ces) t) = {ck_id c | c. c \<in> fst ` set ces \<and> t \<in> set (tokens (ck_text c))}"
    unfolding built_def index_of_fold(1) [OF assms] by force
  show "(ck_id c \<in> set (posted (built ces) t)) = (t \<in> set (tokens (ck_text c)))" if c: "c \<in> fst ` set ces"
  proof
    assume "ck_id c \<in> set (posted (built ces) t)"
    then obtain d where d: "d \<in> fst ` set ces" "t \<in> set (tokens (ck_text d))" "ck_id c = ck_id d"
      unfolding set_posts by blast
    have "Some d = Some c"
      unfolding built_known [OF assms c, symmetric] built_known [OF assms d(1), symmetric] d(3) ..
    then have "d = c" by (rule option.inject [THEN iffD1])
    with d(2) show "t \<in> set (tokens (ck_text c))" by (simp only:)
  next
    assume "t \<in> set (tokens (ck_text c))"
    with c show "ck_id c \<in> set (posted (built ces) t)" unfolding set_posts by blast
  qed
qed

definition shared :: "string \<Rightarrow> chunk \<Rightarrow> string set" where
  "shared query c = set (tokens query) \<inter> set (tokens (ck_text c))"

lemma built_counts:
  fixes ces :: "(chunk \<times> 'v option) list" and query c
  assumes "distinct (map (ck_id \<circ> fst) ces)" and c: "c \<in> fst ` set ces"
  defines "m \<equiv> count_matches (ix_inverted (built ces)) (tokens query)"
  shows "dgetd m (ck_id c) 0 = card (shared query c)" and "dhas m (ck_id c) = (shared query c \<noteq> {})"
proof -
  have d: "distinct (dgetd (ix_inverted (built ces)) t [])" for t using built_ok [of ces] by (simp add: index_ok_def posted_def)
  note mem = built_posted(2) [OF assms(1) c, unfolded posted_def]
  have "dgetd m (ck_id c) 0 = length (filter (\<lambda>t. t \<in> set (tokens (ck_text c))) (tokens query))"
    by (simp add: m_def count_matches_spec(2) [OF d] mem)
  also have "\<dots> = card (set (filter (\<lambda>t. t \<in> set (tokens (ck_text c))) (tokens query)))"
    by (rule distinct_card [symmetric]) (simp add: tokens_def)
  finally show "dgetd m (ck_id c) 0 = card (shared query c)" by (simp add: shared_def Int_def conj_commute)
  show "dhas m (ck_id c) = (shared query c \<noteq> {})"
    by (auto simp: m_def count_matches_spec(3) [OF d] mem shared_def)
qed

lemma built_entry:
  assumes dist: "distinct (map (ck_id \<circ> fst) ces)"
  shows "(cid, n) \<in> set (count_matches (ix_inverted (built ces)) (tokens query)) \<longleftrightarrow>
    (\<exists>c \<in> fst ` set ces. cid = ck_id c \<and> n = card (shared query c) \<and> shared query c \<noteq> {})"
    (is "?l \<longleftrightarrow> ?r")
proof -
  let ?m = "count_matches (ix_inverted (built ces)) (tokens query)"
  have d: "distinct (dgetd (ix_inverted (built ces)) t [])" for t using built_ok [of ces] by (simp add: index_ok_def posted_def)
  have "dict_ok ?m" by (rule count_matches_spec(1) [OF d])
  then have iff: "?l \<longleftrightarrow> dget ?m cid = Some n" by (simp add: dict_ok_dget_iff)
  note cnt = built_counts [OF dist, of _ query]
  show ?thesis
  proof
    assume ?l
    then have "dhas ?m cid" by (force simp: dhas_iff_mem)
    then obtain c where c: "c \<in> fst ` set ces" "cid = ck_id c"
      by (auto simp: count_matches_spec(3) [OF d] built_posted(1) [OF dist, unfolded posted_def])
    with \<open>?l\<close> iff cnt [OF c(1)] show ?r by (intro bexI [of _ c]) (auto simp: dgetd_def dhas_def)
  next
    assume ?r
    then obtain c where "c \<in> fst ` set ces" "cid = ck_id c" "n = card (shared query c)" "shared query c \<noteq> {}" by blast
    then show ?l using cnt [of c] unfolding iff by (auto simp: dgetd_def dhas_def)
  qed
qed

lemma built_hits:
  assumes dist: "distinct (map (ck_id \<circ> fst) ces)"
  shows "set (keyword_hits (tokens query) (built ces)) =
      {(c, of_nat (card (shared query c)) / of_nat (length (tokens query))) | c. c \<in> fst ` set ces \<and> shared query c \<noteq> {}}"
    and "distinct (map fst (keyword_hits (tokens query) (built ces)))"
proof -
  let ?m = "count_matches (ix_inverted (built ces)) (tokens query)"
  let ?f = "\<lambda>(cid, n). (the (dget (ix_chunks (built ces)) cid), of_nat n / of_nat (length (tokens query)) :: rat)"
  have f: "?f (cid, n) = (c, of_nat (card (shared query c)) / of_nat (length (tokens query)))"
    if "c \<in> fst ` set ces" "cid = ck_id c" "n = card (shared query c)" for c cid n
    using that built_known [OF dist] by simp
  show "set (keyword_hits (tokens query) (built ces)) =
      {(c, of_nat (card (shared query c)) / of_nat (length (tokens query))) | c. c \<in> fst ` set ces \<and> shared query c \<noteq> {}}"
    (is "_ = ?R")
  proof (intro set_eqI iffI)
    fix y assume "y \<in> set (keyword_hits (tokens query) (built ces))"
    then obtain cid n where m: "(cid, n) \<in> set ?m" and y: "y = ?f (cid, n)" by (auto simp: keyword_hits_def)
    from m built_entry [OF dist] obtain c where "c \<in> fst ` set ces" "cid = ck_id c" "n = card (shared query c)" "shared query c \<noteq> {}"
      by blast
    with f y show "y \<in> ?R" by blast
  next
    fix y assume "y \<in> ?R"
    then obtain c where c: "c \<in> fst ` set ces" "shared query c \<noteq> {}"
      "y = (c, of_nat (card (shared query c)) / of_nat (length (tokens query)))" by blast
    with built_entry [OF dist] have "(ck_id c, card (shared query c)) \<in> set ?m" by blast
    moreover have "y = ?f (ck_id c, card (shared query c))" using f [OF c(1) refl refl] c(3) by simp
    ultimately show "y \<in> set (keyword_hits (tokens query) (built ces))" unfolding keyword_hits_def by (metis (lifting) image_eqI list.set_map)
  qed
  have "(ck_id \<circ> fst) (?f p) = fst p" if "p \<in> set ?m" for p
  proof -
    obtain cid n where p: "p = (cid, n)" by (cases p)
    with that built_entry [OF dist] obtain c where "c \<in> fst ` set ces" "cid = ck_id c" by blast
    then show ?thesis using built_known [OF dist] by (simp add: p)
  qed
  then have "map (ck_id \<circ> fst) (keyword_hits (tokens query) (built ces)) = map fst ?m"
    unfolding keyword_hits_def map_map comp_assoc [symmetric] by (intro map_cong refl) simp
  moreover have "distinct (map fst ?m)"
    using count_matches_spec(1) [of "ix_inverted (built ces)"] built_ok [of ces] by (simp add: index_ok_def posted_def dict_ok_def)
  ultimately show "distinct (map fst (keyword_hits (tokens query) (built ces)))" by (metis distinct_map map_map)
qed

text \<open>
  C38. Keyword search equals its specification: over chunks with identifiers of their own, the results before
  the cut at \<open>k\<close> are exactly the chunks that share a word with the query, each once, scored by the share of
  the query's words it contains, in descending order.
\<close>

theorem keyword_search_exact:
  fixes ces :: "(chunk \<times> 'v option) list" and query :: string
  assumes "distinct (map (ck_id \<circ> fst) ces)"
  shows "\<exists>res. search_keyword query k (built ces) = Some (slice_to k res)
    \<and> set res = {(c, of_nat (card (set (tokens query) \<inter> set (tokens (ck_text c)))) / of_nat (card (set (tokens query))))
        | c. c \<in> fst ` set ces \<and> set (tokens query) \<inter> set (tokens (ck_text c)) \<noteq> {}}
    \<and> distinct (map fst res) \<and> sorted (map snd (rev res))"
proof -
  have len: "length (tokens query) = card (set (tokens query))" by (simp add: tokens_def length_remdups_card_conv)
  define hits where "hits = (if tokens query = [] then [] else keyword_hits (tokens query) (built ces))"
  have "set hits = {(c, of_nat (card (shared query c)) / of_nat (card (set (tokens query)))) | c. c \<in> fst ` set ces \<and> shared query c \<noteq> {}}"
    using built_hits(1) [OF assms, of query] by (auto simp: hits_def len shared_def)
  moreover have "distinct (map fst hits)" using built_hits(2) [OF assms, of query] by (simp add: hits_def)
  ultimately show ?thesis unfolding search_keyword_total [OF built_ok] hits_def [symmetric]
    by (intro exI [of _ "sorted_desc snd hits"]) (auto simp: sorted_desc_def rev_map distinct_map shared_def)
qed

definition sample_chunk :: "string \<Rightarrow> string \<Rightarrow> chunk" where
  "sample_chunk i t = \<lparr>ck_id = i, ck_text = t, ck_index = 0, ck_start = 0, ck_end = length t, ck_meta = []\<rparr>"

definition sample_chunks :: "(chunk \<times> rat option) list" where
  "sample_chunks = [(sample_chunk ''a'' ''red house'', None), (sample_chunk ''b'' ''the RED apple'', None),
                    (sample_chunk ''c'' ''blue sky'', None)]"

lemma keyword_search_exact_witness:
  "(\<exists>res. search_keyword ''red apple'' 5 (built sample_chunks) = Some (slice_to 5 res) \<and> distinct (map fst res))
   \<and> map_option (map (ck_id \<circ> fst)) (search_keyword ''red apple'' 5 (built sample_chunks)) = Some [''b'', ''a'']"
proof
  have "distinct (map (ck_id \<circ> fst) sample_chunks)" by (simp add: sample_chunks_def sample_chunk_def)
  from keyword_search_exact [OF this, of "''red apple''" 5]
  show "\<exists>res. search_keyword ''red apple'' 5 (built sample_chunks) = Some (slice_to 5 res) \<and> distinct (map fst res)" by blast
  show "map_option (map (ck_id \<circ> fst)) (search_keyword ''red apple'' 5 (built sample_chunks)) = Some [''b'', ''a'']" by code_simp
qed

end
