(* ===== verification/Heartbeat.thy ===== *)
theory Heartbeat
  imports Amber_Prelude "HOL-Library.Product_Lexorder"
begin

text \<open>
  \<open>heartbeat/\<close>: the bounded priority queue of pings (\<open>queue.py\<close>), the engine that marks silent processes
  dead (\<open>engine.py\<close>), the isolation of zombies (\<open>isolation.py\<close>), restarts with backoff (\<open>recovery.py\<close>) and the
  periodic wake-up of the agent (\<open>service.py\<close>). The clock readings of a call are arguments. Events of equal
  priority and time leave the queue in order of arrival; \<open>asyncio.PriorityQueue\<close> promises no order for them.
\<close>

section \<open>Interface: a priority queue\<close>

text \<open>What the consumer of a queue relies on: nothing is lost or made up, and a minimal element comes first.\<close>

locale priority_queue =
  fixes contents :: "'q \<Rightarrow> 'a multiset"
    and push :: "'a \<Rightarrow> 'q \<Rightarrow> 'q"
    and pop :: "'q \<Rightarrow> ('a \<times> 'q) option"
    and rank :: "'a \<Rightarrow> 'k::linorder"
    and ok :: "'q \<Rightarrow> bool"
  assumes contents_push: "ok q \<Longrightarrow> contents (push x q) = add_mset x (contents q)"
    and ok_push: "ok q \<Longrightarrow> ok (push x q)"
    and pop_none: "ok q \<Longrightarrow> pop q = None \<longleftrightarrow> contents q = {#}"
    and pop_some: "ok q \<Longrightarrow> pop q = Some (x, q') \<Longrightarrow>
      contents q = add_mset x (contents q') \<and> ok q' \<and> (\<forall>y \<in># contents q'. rank x \<le> rank y)"
begin

fun pops :: "nat \<Rightarrow> 'q \<Rightarrow> 'a list" where
  "pops 0 q = []"
| "pops (Suc n) q = (case pop q of None \<Rightarrow> [] | Some (x, q') \<Rightarrow> x # pops n q')"

lemma pops_all: "ok q \<Longrightarrow> size (contents q) \<le> n \<Longrightarrow> mset (pops n q) = contents q \<and> sorted (map rank (pops n q))"
proof (induction n arbitrary: q)
  case 0
  then show ?case by simp
next
  case (Suc n)
  show ?case
  proof (cases "pop q")
    case None
    with pop_none [OF Suc.prems(1)] show ?thesis by simp
  next
    case (Some p)
    obtain x q' where p: "p = (x, q')" by (cases p)
    with Some have some: "pop q = Some (x, q')" by simp
    note ps = pop_some [OF Suc.prems(1) some]
    then have "size (contents q') \<le> n" using Suc.prems(2) by simp
    with Suc.IH [of q'] ps have ih: "mset (pops n q') = contents q'" "sorted (map rank (pops n q'))" by auto
    then have "set (pops n q') = set_mset (contents q')" by (metis set_mset_mset)
    with ih ps some show ?thesis by auto
  qed
qed

end

section \<open>The queue\<close>

datatype priority = CRITICAL | HIGH | NORMAL | BACKGROUND

fun priority_value :: "priority \<Rightarrow> int" where
  "priority_value CRITICAL = 0"
| "priority_value HIGH = 1"
| "priority_value NORMAL = 2"
| "priority_value BACKGROUND = 3"

record ping_event =
  pe_process :: string
  pe_priority :: priority
  pe_timestamp :: timestamp
  pe_metadata :: "(string, json) pydict"

text \<open>\<open>__lt__\<close>.\<close>

definition event_less :: "ping_event \<Rightarrow> ping_event \<Rightarrow> bool" where
  "event_less a b =
     (if pe_priority a \<noteq> pe_priority b then priority_value (pe_priority a) < priority_value (pe_priority b)
      else pe_timestamp a < pe_timestamp b)"

record heartbeat_queue =
  hq_maxsize :: int
  hq_items :: "ping_event list"

definition new_heartbeat_queue :: "int \<Rightarrow> heartbeat_queue" where
  "new_heartbeat_queue n = \<lparr>hq_maxsize = n, hq_items = []\<rparr>"

fun insert_event :: "ping_event \<Rightarrow> ping_event list \<Rightarrow> ping_event list" where
  "insert_event e [] = [e]"
| "insert_event e (x # xs) = (if event_less e x then e # x # xs else x # insert_event e xs)"

definition queue_is_full :: "heartbeat_queue \<Rightarrow> bool" where
  "queue_is_full q = (hq_maxsize q > 0 \<and> int (length (hq_items q)) \<ge> hq_maxsize q)"

text \<open>
  \<open>put\<close> on a queue that stays full until the timeout gives \<open>False\<close>; without a timeout it waits, which is
  \<open>None\<close> here. Likewise \<open>get\<close> on an empty queue: \<open>Some None\<close> after the timeout.
\<close>

definition queue_put :: "bool \<Rightarrow> ping_event \<Rightarrow> heartbeat_queue \<Rightarrow> bool option \<times> heartbeat_queue" where
  "queue_put timed e q =
     (if queue_is_full q then (if timed then Some False else None, q)
      else (Some True, q\<lparr>hq_items := insert_event e (hq_items q)\<rparr>))"

definition queue_get :: "bool \<Rightarrow> heartbeat_queue \<Rightarrow> ping_event option option \<times> heartbeat_queue" where
  "queue_get timed q =
     (case hq_items q of
        [] \<Rightarrow> (if timed then Some None else None, q)
      | e # es \<Rightarrow> (Some (Some e), q\<lparr>hq_items := es\<rparr>))"

definition queue_size :: "heartbeat_queue \<Rightarrow> nat" where
  "queue_size q = length (hq_items q)"

definition queue_empty :: "heartbeat_queue \<Rightarrow> bool" where
  "queue_empty q = (hq_items q = [])"

section \<open>The engine\<close>

record heartbeat_status =
  hs_alive :: bool
  hs_last_ping :: timestamp
  hs_metadata :: "(string, json) pydict"

record engine =
  en_interval :: int
  en_running :: bool
  en_statuses :: "(string, heartbeat_status) pydict"

definition new_engine :: "int \<Rightarrow> engine" where
  "new_engine n = \<lparr>en_interval = n, en_running = False, en_statuses = []\<rparr>"

definition register_process :: "timestamp \<Rightarrow> string \<Rightarrow> engine \<Rightarrow> engine" where
  "register_process now p g =
     g\<lparr>en_statuses := dset p \<lparr>hs_alive = True, hs_last_ping = now, hs_metadata = []\<rparr> (en_statuses g)\<rparr>"

definition ping :: "timestamp \<Rightarrow> string \<Rightarrow> (string, json) pydict \<Rightarrow> engine \<Rightarrow> engine" where
  "ping now p meta g =
     (case dget (en_statuses g) p of
        None \<Rightarrow> g
      | Some h \<Rightarrow> g\<lparr>en_statuses := dset p (h\<lparr>hs_last_ping := now, hs_alive := True,
                     hs_metadata := fold (\<lambda>(k, v). dset k v) meta (hs_metadata h)\<rparr>) (en_statuses g)\<rparr>)"

definition silent :: "int \<Rightarrow> timestamp \<Rightarrow> heartbeat_status \<Rightarrow> bool" where
  "silent interval now h = (now - hs_last_ping h > of_int (interval * 3))"

text \<open>One round of \<open>_monitor_loop\<close>.\<close>

definition monitor_pass :: "timestamp \<Rightarrow> engine \<Rightarrow> engine" where
  "monitor_pass now g =
     g\<lparr>en_statuses := map (\<lambda>(p, h). (p, if \<not> hs_alive h then h
         else if silent (en_interval g) now h then h\<lparr>hs_alive := False\<rparr> else h)) (en_statuses g)\<rparr>"

definition engine_start :: "engine \<Rightarrow> engine" where
  "engine_start g = (if en_running g then g else g\<lparr>en_running := True\<rparr>)"

definition engine_stop :: "engine \<Rightarrow> engine" where
  "engine_stop g = g\<lparr>en_running := False\<rparr>"

section \<open>Isolation\<close>

record isolation_record =
  ir_process :: string
  ir_at :: timestamp
  ir_reason :: string

record isolation_manager =
  im_timeout :: pyfloat
  im_isolated :: "(string, isolation_record) pydict"

definition check_for_zombies :: "timestamp \<Rightarrow> (string, heartbeat_status) pydict \<Rightarrow> isolation_manager \<Rightarrow> string list" where
  "check_for_zombies now statuses m =
     map fst (filter (\<lambda>(p, h). \<not> dhas (im_isolated m) p \<and> now - hs_last_ping h > im_timeout m) statuses)"

text \<open>\<open>isolate_process\<close>; \<open>tasks\<close> tells which tasks are done, and the result whether one is cancelled.\<close>

definition isolate_process ::
  "timestamp \<Rightarrow> string \<Rightarrow> string \<Rightarrow> (string, bool) pydict \<Rightarrow> isolation_manager \<Rightarrow> bool \<times> isolation_manager" where
  "isolate_process now p reason tasks m =
     (dget tasks p = Some False,
      m\<lparr>im_isolated := dset p \<lparr>ir_process = p, ir_at = now, ir_reason = reason\<rparr> (im_isolated m)\<rparr>)"

definition is_isolated :: "string \<Rightarrow> isolation_manager \<Rightarrow> bool" where
  "is_isolated p m = dhas (im_isolated m) p"

definition release_process :: "string \<Rightarrow> isolation_manager \<Rightarrow> bool \<times> isolation_manager" where
  "release_process p m = (dhas (im_isolated m) p, m\<lparr>im_isolated := dpop p (im_isolated m)\<rparr>)"

section \<open>Recovery\<close>

record recovery =
  rv_max_attempts :: int
  rv_base :: pyfloat
  rv_max :: pyfloat
  rv_attempts :: "(string, nat) pydict"
  rv_tripped :: "string list"

definition new_recovery :: "int \<Rightarrow> pyfloat \<Rightarrow> pyfloat \<Rightarrow> recovery" where
  "new_recovery n b m = \<lparr>rv_max_attempts = n, rv_base = b, rv_max = m, rv_attempts = [], rv_tripped = []\<rparr>"

definition get_backoff_delay :: "string \<Rightarrow> recovery \<Rightarrow> pyfloat" where
  "get_backoff_delay p r = min (rv_base r * 2 ^ dgetd (rv_attempts r) p 0) (rv_max r)"

definition can_recover :: "string \<Rightarrow> recovery \<Rightarrow> bool" where
  "can_recover p r = (if p \<in> set (rv_tripped r) then False else int (dgetd (rv_attempts r) p 0) < rv_max_attempts r)"

definition record_attempt :: "string \<Rightarrow> bool \<Rightarrow> recovery \<Rightarrow> recovery" where
  "record_attempt p success r =
     (if success then r\<lparr>rv_attempts := dset p 0 (rv_attempts r), rv_tripped := filter (\<lambda>x. x \<noteq> p) (rv_tripped r)\<rparr>
      else (let curr = dgetd (rv_attempts r) p 0 + 1;
                r = r\<lparr>rv_attempts := dset p curr (rv_attempts r)\<rparr>
            in if int curr \<ge> rv_max_attempts r then r\<lparr>rv_tripped := List.insert p (rv_tripped r)\<rparr> else r))"

text \<open>\<open>execute_recovery\<close>: \<open>None\<close> when refused, otherwise the delay slept and whether the restart succeeded.\<close>

definition execute_recovery :: "string \<Rightarrow> bool \<Rightarrow> recovery \<Rightarrow> pyfloat option \<times> bool \<times> recovery" where
  "execute_recovery p restart_works r =
     (if \<not> can_recover p r then (None, False, r)
      else (Some (get_backoff_delay p r), restart_works, record_attempt p restart_works r))"

definition recovery_reset :: "string \<Rightarrow> recovery \<Rightarrow> recovery" where
  "recovery_reset p r = r\<lparr>rv_attempts := dpop p (rv_attempts r), rv_tripped := filter (\<lambda>x. x \<noteq> p) (rv_tripped r)\<rparr>"

section \<open>The queue drains by priority\<close>

definition event_rank :: "ping_event \<Rightarrow> int \<times> rat" where
  "event_rank e = (priority_value (pe_priority e), pe_timestamp e)"

lemma priority_value_inject: "priority_value a = priority_value b \<longleftrightarrow> a = b"
  by (cases a; cases b) simp_all

lemma event_less_rank: "event_less a b \<longleftrightarrow> event_rank a < event_rank b"
  by (auto simp: event_less_def event_rank_def less_prod_def order_le_less priority_value_inject)

lemma mset_insert_event [simp]: "mset (insert_event e xs) = add_mset e (mset xs)"
  by (induction xs) auto

lemma set_insert_event [simp]: "set (insert_event e xs) = insert e (set xs)"
  by (induction xs) auto

lemma sorted_insert_event: "sorted (map event_rank xs) \<Longrightarrow> sorted (map event_rank (insert_event e xs))"
  by (induction xs) (auto simp: event_less_rank)

definition pop_event :: "heartbeat_queue \<Rightarrow> (ping_event \<times> heartbeat_queue) option" where
  "pop_event q = (case queue_get True q of (Some (Some e), q') \<Rightarrow> Some (e, q') | _ \<Rightarrow> None)"

interpretation pings: priority_queue "\<lambda>q. mset (hq_items q)" "\<lambda>e q. q\<lparr>hq_items := insert_event e (hq_items q)\<rparr>"
  pop_event event_rank "\<lambda>q. sorted (map event_rank (hq_items q))"
  by unfold_locales
    (auto simp: sorted_insert_event pop_event_def queue_get_def split: list.splits)

fun put_all :: "ping_event list \<Rightarrow> heartbeat_queue \<Rightarrow> ping_event list \<times> heartbeat_queue" where
  "put_all [] q = ([], q)"
| "put_all (e # es) q =
     (case queue_put True e q of
        (Some True, q) \<Rightarrow> (let (acc, q) = put_all es q in (e # acc, q))
      | (_, q) \<Rightarrow> put_all es q)"

lemma put_all_inv:
  assumes "sorted (map event_rank (hq_items q))" and "hq_maxsize q > 0 \<Longrightarrow> int (length (hq_items q)) \<le> hq_maxsize q"
    and "put_all es q = (acc, q')"
  shows "sorted (map event_rank (hq_items q')) \<and> mset (hq_items q') = mset acc + mset (hq_items q)
    \<and> hq_maxsize q' = hq_maxsize q \<and> (hq_maxsize q > 0 \<longrightarrow> int (length (hq_items q')) \<le> hq_maxsize q)"
  using assms
proof (induction es arbitrary: q acc)
  case Nil
  then show ?case by simp
next
  case (Cons e es)
  show ?case
  proof (cases "queue_is_full q")
    case True
    with Cons show ?thesis by (simp add: queue_put_def)
  next
    case False
    let ?q = "q\<lparr>hq_items := insert_event e (hq_items q)\<rparr>"
    obtain acc' where a: "put_all es ?q = (acc', q')" "acc = e # acc'"
      using Cons.prems(3) False by (auto simp: queue_put_def split: prod.splits)
    have len: "length (insert_event e xs) = Suc (length xs)" for xs by (metis mset_insert_event size_add_mset size_mset)
    have "sorted (map event_rank (hq_items ?q))" using Cons.prems(1) by (simp add: sorted_insert_event)
    moreover have "int (length (hq_items ?q)) \<le> hq_maxsize ?q" if "hq_maxsize ?q > 0"
      using False that by (simp add: queue_is_full_def len)
    ultimately show ?thesis using Cons.IH [OF _ _ a(1)] a(2) by simp
  qed
qed

text \<open>
  Pings put into a fresh queue, as far as it accepts them, come out exactly once each, by priority and then
  by time; a bounded queue never holds more than its bound.
\<close>

theorem heartbeat_queue_order:
  assumes "put_all es (new_heartbeat_queue n) = (accepted, q)"
  shows "mset (pings.pops (length accepted) q) = mset accepted
    \<and> sorted (map event_rank (pings.pops (length accepted) q))
    \<and> (if n > 0 then int (queue_size q) \<le> n else accepted = es)"
proof -
  have inv: "sorted (map event_rank (hq_items q))" "mset (hq_items q) = mset accepted"
    "n > 0 \<longrightarrow> int (length (hq_items q)) \<le> n"
    using put_all_inv [of "new_heartbeat_queue n", OF _ _ assms] by (simp_all add: new_heartbeat_queue_def)
  have "size (mset (hq_items q)) \<le> length accepted" by (simp add: inv(2))
  from pings.pops_all [OF inv(1) this]
  have "mset (pings.pops (length accepted) q) = mset accepted" "sorted (map event_rank (pings.pops (length accepted) q))"
    by (simp_all add: inv(2))
  moreover have "put_all es q0 = (acc, q1) \<Longrightarrow> hq_maxsize q0 \<le> 0 \<Longrightarrow> acc = es" for q0 acc q1
    by (induction es arbitrary: q0 acc) (auto simp: queue_put_def queue_is_full_def split: prod.splits)
  ultimately show ?thesis using inv(3) assms by (auto simp: queue_size_def new_heartbeat_queue_def)
qed

definition sample_ping :: "priority \<Rightarrow> rat \<Rightarrow> ping_event" where
  "sample_ping p t = \<lparr>pe_process = ''w'', pe_priority = p, pe_timestamp = t, pe_metadata = []\<rparr>"

lemma heartbeat_queue_order_witness:
  "map event_rank (pings.pops 2 (snd (put_all [sample_ping NORMAL 1, sample_ping CRITICAL 5, sample_ping HIGH 2]
      (new_heartbeat_queue 2)))) = [(0, 5), (2, 1)]
   \<and> queue_size (snd (put_all [sample_ping NORMAL 1, sample_ping CRITICAL 5, sample_ping HIGH 2] (new_heartbeat_queue 2))) \<le> 2"
proof
  let ?es = "[sample_ping NORMAL 1, sample_ping CRITICAL 5, sample_ping HIGH 2]"
  have run: "put_all ?es (new_heartbeat_queue 2) =
      ([sample_ping NORMAL 1, sample_ping CRITICAL 5], \<lparr>hq_maxsize = 2, hq_items = [sample_ping CRITICAL 5, sample_ping NORMAL 1]\<rparr>)"
    by (simp add: sample_ping_def new_heartbeat_queue_def queue_put_def queue_is_full_def event_less_def)
  from heartbeat_queue_order [OF run] show "queue_size (snd (put_all ?es (new_heartbeat_queue 2))) \<le> 2"
    unfolding run snd_conv by simp
  show "map event_rank (pings.pops 2 (snd (put_all ?es (new_heartbeat_queue 2)))) = [(0, 5), (2, 1)]"
    unfolding run snd_conv
    by (simp add: pop_event_def queue_get_def event_rank_def sample_ping_def numeral_2_eq_2)
qed

section \<open>Silence is detected\<close>

datatype engine_call = Register string | Ping string "(string, json) pydict" | Pass

type_synonym timed_call = "timestamp \<times> engine_call"

fun engine_step :: "timed_call \<Rightarrow> engine \<Rightarrow> engine" where
  "engine_step (t, Register p) g = register_process t p g"
| "engine_step (t, Ping p m) g = ping t p m g"
| "engine_step (t, Pass) g = monitor_pass t g"

fun hears :: "string \<Rightarrow> timed_call \<Rightarrow> bool" where
  "hears p (t, Register q) = (p = q)"
| "hears p (t, Ping q m) = (p = q)"
| "hears p (t, Pass) = False"

lemma dget_map_values: "dget (map (\<lambda>(k, v). (k, f v)) d) k = map_option f (dget d k)"
  by (induction d) auto

lemma engine_interval [simp]: "en_interval (engine_step c g) = en_interval g"
  by (cases c; cases "snd c") (auto simp: register_process_def ping_def monitor_pass_def split: option.split)

lemma status_step:
  assumes "dget (en_statuses g) p = Some h" and "\<not> hears p c"
  shows "\<exists>h'. dget (en_statuses (engine_step c g)) p = Some h' \<and> hs_last_ping h' = hs_last_ping h
    \<and> (hs_alive h' \<longleftrightarrow> hs_alive h \<and> (snd c = Pass \<longrightarrow> fst c - hs_last_ping h \<le> of_int (en_interval g * 3)))"
  using assms by (cases c; cases "snd c")
    (auto simp: register_process_def ping_def monitor_pass_def dget_map_values silent_def not_less split: option.split)

lemma status_after:
  assumes "dget (en_statuses g) p = Some h" and "\<forall>c \<in> set later. \<not> hears p c"
  shows "\<exists>h'. dget (en_statuses (fold engine_step later g)) p = Some h' \<and> hs_last_ping h' = hs_last_ping h
    \<and> (hs_alive h' \<longleftrightarrow> hs_alive h \<and> (\<forall>t. (t, Pass) \<in> set later \<longrightarrow> t - hs_last_ping h \<le> of_int (en_interval g * 3)))"
  using assms
proof (induction later arbitrary: g h)
  case Nil
  then show ?case by simp
next
  case (Cons c later)
  have "\<not> hears p c" using Cons.prems(2) by simp
  from status_step [OF Cons.prems(1) this] obtain h' where h': "dget (en_statuses (engine_step c g)) p = Some h'"
    "hs_last_ping h' = hs_last_ping h"
    "hs_alive h' \<longleftrightarrow> hs_alive h \<and> (snd c = Pass \<longrightarrow> fst c - hs_last_ping h \<le> of_int (en_interval g * 3))" by blast
  have "\<forall>c \<in> set later. \<not> hears p c" using Cons.prems(2) by simp
  from Cons.IH [OF h'(1) this] h'(2,3) show ?case by (cases c) auto
qed

text \<open>
  C32. Detection of silence is exact: after a process was last heard at \<open>t\<close>, whatever else happens, it counts as
  alive if and only if no monitor pass came more than three check intervals after \<open>t\<close>.
\<close>

theorem heartbeat_silence_exact:
  assumes "\<forall>c \<in> set later. \<not> hears p c"
    and "call = Register p \<or> call = Ping p meta \<and> dhas (en_statuses (fold engine_step earlier (new_engine n))) p"
  shows "\<exists>h. dget (en_statuses (fold engine_step (earlier @ (t, call) # later) (new_engine n))) p = Some h
    \<and> hs_last_ping h = t
    \<and> (hs_alive h \<longleftrightarrow> (\<forall>u. (u, Pass) \<in> set later \<longrightarrow> u - t \<le> of_int (n * 3)))"
proof -
  let ?g = "fold engine_step earlier (new_engine n)"
  have "en_interval (fold engine_step es g) = en_interval g" for es g
    by (induction es arbitrary: g) simp_all
  then have n: "en_interval ?g = n" by (simp add: new_engine_def)
  obtain h where "dget (en_statuses (engine_step (t, call) ?g)) p = Some h" "hs_alive h" "hs_last_ping h = t"
    using assms(2) by (auto simp: register_process_def ping_def dhas_def)
  from status_after [OF this(1) assms(1)] this(2,3) n show ?thesis by auto
qed

lemma heartbeat_silence_exact_witness:
  "\<exists>h. dget (en_statuses (fold engine_step ([] @ (0, Register ''w'') # [(10, Pass), (20, Pass)]) (new_engine 5))) ''w'' = Some h
    \<and> \<not> hs_alive h"
  using heartbeat_silence_exact [of "[(10, Pass), (20, Pass)]" "''w''" "Register ''w''" "[]" "[]" 5 0] by auto

section \<open>Recovery gives up\<close>

datatype recovery_call = Recover string bool | Reset string | Attempt string bool

fun recovery_step :: "recovery_call \<Rightarrow> recovery \<Rightarrow> recovery" where
  "recovery_step (Recover p w) r = snd (snd (execute_recovery p w r))"
| "recovery_step (Reset p) r = recovery_reset p r"
| "recovery_step (Attempt p w) r = record_attempt p w r"

definition recovery_ok :: "recovery \<Rightarrow> bool" where
  "recovery_ok r = (1 \<le> rv_max_attempts r
     \<and> (\<forall>p. p \<in> set (rv_tripped r) \<longleftrightarrow> int (dgetd (rv_attempts r) p 0) \<ge> rv_max_attempts r))"

lemma record_attempt_ok: "recovery_ok r \<Longrightarrow> recovery_ok (record_attempt p w r)"
  by (auto simp: recovery_ok_def record_attempt_def Let_def)

lemma recovery_step_ok: "recovery_ok r \<Longrightarrow> recovery_ok (recovery_step c r)"
  by (cases c) (auto simp: execute_recovery_def record_attempt_ok, auto simp: recovery_ok_def recovery_reset_def)

interpretation recoveries: machine recovery_step recovery_ok
  by unfold_locales (rule recovery_step_ok)

lemma record_failure_attempts:
  "dgetd (rv_attempts (record_attempt p False r)) p 0 = dgetd (rv_attempts r) p 0 + 1"
  "rv_max_attempts (record_attempt p w r) = rv_max_attempts r"
  "rv_base (record_attempt p w r) = rv_base r" "rv_max (record_attempt p w r) = rv_max r"
  by (simp_all add: record_attempt_def Let_def)

text \<open>The delays slept by \<open>k\<close> recoveries of a process that never comes back.\<close>

fun failing :: "nat \<Rightarrow> string \<Rightarrow> recovery \<Rightarrow> pyfloat list \<times> recovery" where
  "failing 0 p r = ([], r)"
| "failing (Suc k) p r =
     (let (d, _, r) = execute_recovery p False r; (ds, r) = failing k p r
      in ((case d of None \<Rightarrow> ds | Some x \<Rightarrow> x # ds), r))"

lemma failing_delays:
  assumes "recovery_ok r" and "failing k p r = (ds, r')"
  shows "ds = map (\<lambda>i. min (rv_base r * 2 ^ i) (rv_max r))
      [dgetd (rv_attempts r) p 0..<min (dgetd (rv_attempts r) p 0 + k) (max (dgetd (rv_attempts r) p 0) (nat (rv_max_attempts r)))]
    \<and> recovery_ok r' \<and> rv_max_attempts r' = rv_max_attempts r
    \<and> dgetd (rv_attempts r') p 0 = min (dgetd (rv_attempts r) p 0 + k) (max (dgetd (rv_attempts r) p 0) (nat (rv_max_attempts r)))"
  using assms
proof (induction k arbitrary: r ds)
  case 0
  then show ?case by simp
next
  case (Suc k)
  let ?a = "dgetd (rv_attempts r) p 0" and ?n = "nat (rv_max_attempts r)"
  show ?case
  proof (cases "can_recover p r")
    case False
    then have "?n \<le> ?a" using Suc.prems(1) by (auto simp: can_recover_def recovery_ok_def split: if_splits)
    moreover have "failing k p r = (ds, r')" using False Suc.prems(2) by (simp add: execute_recovery_def split: prod.splits)
    ultimately show ?thesis using Suc.IH [OF Suc.prems(1)] by (simp add: max_absorb1)
  next
    case True
    let ?r = "record_attempt p False r"
    have lt: "?a < ?n" using True by (simp add: can_recover_def split: if_splits)
    obtain ds' where ds': "failing k p ?r = (ds', r')" "ds = get_backoff_delay p r # ds'"
      using Suc.prems(2) True by (auto simp: execute_recovery_def split: prod.splits)
    from Suc.IH [OF record_attempt_ok [OF Suc.prems(1)] ds'(1)] lt ds'(2) show ?thesis
      by (simp add: record_failure_attempts get_backoff_delay_def upt_conv_Cons)
  qed
qed

text \<open>
  A process that cannot be restarted is tried at most \<open>max_attempts\<close> times between resets, however often
  its recovery is requested, with the capped exponential delays; then every request is refused until a
  reset or a success recorded for it lets it be tried again.
\<close>

theorem recovery_gives_up:
  fixes calls :: "recovery_call list" and p n b m k
  assumes "1 \<le> n"
  defines "r \<equiv> fold recovery_step (calls @ [Reset p]) (new_recovery n b m)"
  shows "fst (failing k p r) = map (\<lambda>i. min (b * 2 ^ i) m) [0..<min k (nat n)]
    \<and> can_recover p r
    \<and> (if nat n \<le> k then \<not> can_recover p (snd (failing k p r))
          \<and> can_recover p (record_attempt p True (snd (failing k p r)))
       else can_recover p (snd (failing k p r)))"
proof -
  have "recovery_ok (new_recovery n b m)" using assms(1) by (simp add: recovery_ok_def new_recovery_def)
  then have ok: "recovery_ok r" unfolding r_def by (rule recoveries.run_inv)
  have const: "rv_max_attempts (recovery_step c x) = rv_max_attempts x \<and> rv_base (recovery_step c x) = rv_base x
      \<and> rv_max (recovery_step c x) = rv_max x" for c x
    by (cases c) (simp_all add: execute_recovery_def record_failure_attempts recovery_reset_def)
  have "rv_max_attempts (fold recovery_step cs x) = rv_max_attempts x \<and> rv_base (fold recovery_step cs x) = rv_base x
      \<and> rv_max (fold recovery_step cs x) = rv_max x" for cs x
    by (induction cs arbitrary: x) (simp_all add: const)
  from this [of "calls @ [Reset p]" "new_recovery n b m", folded r_def]
  have par: "rv_max_attempts r = n" "rv_base r = b" "rv_max r = m" by (simp_all add: new_recovery_def)
  have zero: "dgetd (rv_attempts r) p 0 = 0" by (simp add: r_def recovery_reset_def)
  obtain ds r' where f: "failing k p r = (ds, r')" by fastforce
  from failing_delays [OF ok f] have ds: "ds = map (\<lambda>i. min (b * 2 ^ i) m) [0..<min k (nat n)]"
    and ok': "recovery_ok r'" and n': "rv_max_attempts r' = n" and a': "dgetd (rv_attempts r') p 0 = min k (nat n)"
    by (simp_all add: par zero)
  have can: "can_recover p x \<longleftrightarrow> dgetd (rv_attempts x) p 0 < nat (rv_max_attempts x)" if "recovery_ok x" for x
    using that by (auto simp: recovery_ok_def can_recover_def)
  have "can_recover p (record_attempt p True r')"
    using can [OF record_attempt_ok [OF ok']] assms(1) n' by (simp add: record_failure_attempts) (simp add: record_attempt_def)
  then show ?thesis using f ds can [OF ok] can [OF ok'] par zero n' a' assms(1) by (auto simp: min_def)
qed

lemma recovery_gives_up_witness:
  "fst (failing 9 ''w'' (fold recovery_step ([Recover ''w'' False] @ [Reset ''w'']) (new_recovery 5 1 10))) = [1, 2, 4, 8, 10]"
proof -
  have "fst (failing 9 ''w'' (fold recovery_step ([Recover ''w'' False] @ [Reset ''w'']) (new_recovery 5 1 10)))
      = map (\<lambda>i. min (1 * 2 ^ i) 10) [0..<min 9 (nat 5)]"
    using recovery_gives_up [where n = 5 and k = 9 and p = "''w''" and calls = "[Recover ''w'' False]" and b = 1 and m = 10]
    by simp
  also have "\<dots> = [1, 2, 4, 8, 10]" by (simp add: upt_rec)
  finally show ?thesis .
qed

end
