(* ===== verification/Mfa.thy ===== *)
theory Mfa
  imports Amber_Prelude "HOL-Library.Word"
begin

text \<open>
  \<open>security/mfa.py\<close>: hardware keys (FIDO2/WebAuthn) and time-based one-time passwords. Bytes are \<open>8 word\<close>.
  The hash functions, base32, reading a JSON text, loading a public key and checking a signature are
  parameters (\<open>crypto\<close>); everything the code computes from their results is written out. Codes and
  secrets are ASCII text.
\<close>

unbundle bit_operations_syntax

section \<open>Bytes\<close>

type_synonym bytes = "8 word list"

text \<open>\<open>struct.unpack(">I", b)[0]\<close> and \<open>struct.pack(">Q", n)\<close>; packing raises outside 64 bits.\<close>

definition be_value :: "bytes \<Rightarrow> nat" where
  "be_value bs = fold (\<lambda>b n. n * 256 + unat b) bs 0"

definition pack_q :: "int \<Rightarrow> bytes option" where
  "pack_q n = (if n < 0 \<or> n \<ge> 2 ^ 64 then None
     else Some (map (\<lambda>i. word_of_int (n div 256 ^ (7 - i))) [0..<8]))"

datatype key_kind = EllipticCurve | RSA | OtherKey

record crypto =
  cy_sha256 :: "bytes \<Rightarrow> bytes"
  cy_hmac_sha1 :: "bytes \<Rightarrow> bytes \<Rightarrow> bytes"
  cy_b32decode :: "string \<Rightarrow> bytes option"
  cy_json :: "bytes \<Rightarrow> json option"
  cy_load_pem :: "string \<Rightarrow> key_kind option"
  cy_verify :: "string \<Rightarrow> bytes \<Rightarrow> bytes \<Rightarrow> bool"
  cy_encode :: "string \<Rightarrow> bytes"

section \<open>State\<close>

record credential =
  cd_id :: string
  cd_user :: string
  cd_rp :: string
  cd_pem :: string
  cd_count :: nat
  cd_created :: timestamp

record mfa =
  mf_credentials :: "(string, credential) pydict"
  mf_user_credentials :: "(string, string list) pydict"
  mf_totp :: "(string, string) pydict"
  mf_used :: "(string \<times> int) list"
  mf_challenges :: "(string, timestamp) pydict"

definition new_mfa :: mfa where
  "new_mfa = \<lparr>mf_credentials = [], mf_user_credentials = [], mf_totp = [], mf_used = [], mf_challenges = []\<rparr>"

datatype mfa_error =
    InvalidPem | ChallengeInvalid | CredentialNotFound | MalformedClientData | NotAnObject | UnexpectedType
  | ChallengeMismatch | AuthDataTooShort | RpMismatch | UserNotPresent | CounterRollback | UnsupportedKey
  | BadSignature | NoTotpSecret | InvalidSecret | StructError | UnsupportedMfa

text \<open>\<open>ch\<close> is the random challenge that was drawn.\<close>

definition generate_challenge :: "timestamp \<Rightarrow> string \<Rightarrow> pyfloat \<Rightarrow> mfa \<Rightarrow> string \<times> mfa" where
  "generate_challenge now ch ttl m = (ch, m\<lparr>mf_challenges := dset ch (now + ttl) (mf_challenges m)\<rparr>)"

definition register_fido2_key ::
  "crypto \<Rightarrow> timestamp \<Rightarrow> string \<Rightarrow> string \<Rightarrow> string \<Rightarrow> string \<Rightarrow> mfa \<Rightarrow> (mfa_error + credential) \<times> mfa" where
  "register_fido2_key cy now user cid pem rp m =
     (if cy_load_pem cy pem = None then (Inl InvalidPem, m)
      else let c = \<lparr>cd_id = cid, cd_user = user, cd_rp = rp, cd_pem = pem, cd_count = 0, cd_created = now\<rparr>
           in (Inr c, m\<lparr>mf_credentials := dset cid c (mf_credentials m),
                        mf_user_credentials := dset user (dgetd (mf_user_credentials m) user [] @ [cid]) (mf_user_credentials m)\<rparr>))"

section \<open>Hardware keys\<close>

definition client_field :: "(string, json) pydict \<Rightarrow> string \<Rightarrow> string \<Rightarrow> bool" where
  "client_field d k v = (dget d k = Some (JStr v))"

text \<open>The checks of an assertion against its credential, before the signature; the new counter.\<close>

definition assertion_count ::
  "crypto \<Rightarrow> credential \<Rightarrow> string \<Rightarrow> bytes \<Rightarrow> bytes \<Rightarrow> mfa_error + nat" where
  "assertion_count cy c challenge client auth =
     (case cy_json cy client of
        None \<Rightarrow> Inl MalformedClientData
      | Some (JObj d) \<Rightarrow>
          if \<not> client_field d ''type'' ''webauthn.get'' then Inl UnexpectedType
          else if \<not> client_field d ''challenge'' challenge then Inl ChallengeMismatch
          else if length auth < 37 then Inl AuthDataTooShort
          else if take 32 auth \<noteq> cy_sha256 cy (cy_encode cy (cd_rp c)) then Inl RpMismatch
          else if (auth ! 32) AND 1 = 0 then Inl UserNotPresent
          else (let incoming = be_value (take 4 (drop 33 auth))
                in if incoming \<noteq> 0 \<and> incoming \<le> cd_count c then Inl CounterRollback else Inr incoming)
      | Some _ \<Rightarrow> Inl NotAnObject)"

definition signature_error :: "crypto \<Rightarrow> credential \<Rightarrow> bytes \<Rightarrow> bytes \<Rightarrow> mfa_error option" where
  "signature_error cy c payload sig =
     (case cy_load_pem cy (cd_pem c) of
        None \<Rightarrow> Some InvalidPem
      | Some OtherKey \<Rightarrow> Some UnsupportedKey
      | Some _ \<Rightarrow> if cy_verify cy (cd_pem c) sig payload then None else Some BadSignature)"

definition verify_fido2_assertion ::
  "crypto \<Rightarrow> timestamp \<Rightarrow> string \<Rightarrow> string \<Rightarrow> bytes \<Rightarrow> bytes \<Rightarrow> bytes \<Rightarrow> string \<Rightarrow> mfa \<Rightarrow> (mfa_error + bool) \<times> mfa" where
  "verify_fido2_assertion cy now user cid client auth sig challenge m =
     (case dget (mf_challenges m) challenge of
        None \<Rightarrow> (Inl ChallengeInvalid, m)
      | Some expiry \<Rightarrow>
          if expiry < now then (Inl ChallengeInvalid, m)
          else (let m = m\<lparr>mf_challenges := dpop challenge (mf_challenges m)\<rparr>
                in case dget (mf_credentials m) cid of
                     None \<Rightarrow> (Inl CredentialNotFound, m)
                   | Some c \<Rightarrow>
                       if cd_user c \<noteq> user then (Inl CredentialNotFound, m)
                       else (case assertion_count cy c challenge client auth of
                               Inl e \<Rightarrow> (Inl e, m)
                             | Inr incoming \<Rightarrow>
                                 (case signature_error cy c (auth @ cy_sha256 cy client) sig of
                                    Some e \<Rightarrow> (Inl e, m)
                                  | None \<Rightarrow> (Inr True, m\<lparr>mf_credentials :=
                                       dset cid (c\<lparr>cd_count := incoming\<rparr>) (mf_credentials m)\<rparr>)))))"

section \<open>One-time passwords\<close>

definition register_totp_secret :: "string \<Rightarrow> string \<Rightarrow> mfa \<Rightarrow> mfa" where
  "register_totp_secret user secret m = m\<lparr>mf_totp := dset user (strip secret) (mf_totp m)\<rparr>"

definition is_digit :: "char \<Rightarrow> bool" where
  "is_digit c = (let n = (of_char c :: nat) in 48 \<le> n \<and> n \<le> 57)"

text \<open>RFC 4226: dynamic truncation of the 20 bytes of the HMAC, as a 32-bit word, and six digits of it.\<close>

definition truncate_hmac :: "bytes \<Rightarrow> nat" where
  "truncate_hmac h =
     (let off = unat (last h AND 0x0F)
      in unat ((word_of_nat (be_value (take 4 (drop off h))) :: 32 word) AND 0x7FFFFFFF))"

definition pad6 :: "nat \<Rightarrow> string" where
  "pad6 n = replicate (6 - length (show_nat n)) (CHR ''0'') @ show_nat n"

definition hotp :: "crypto \<Rightarrow> bytes \<Rightarrow> int \<Rightarrow> string option" where
  "hotp cy key step = map_option (\<lambda>msg. pad6 (truncate_hmac (cy_hmac_sha1 cy key msg) mod 1000000)) (pack_q step)"

text \<open>The loop over the steps of the window: the first unused step whose code it is.\<close>

fun totp_scan :: "crypto \<Rightarrow> bytes \<Rightarrow> string \<Rightarrow> string \<Rightarrow> (string \<times> int) list \<Rightarrow> int list \<Rightarrow> mfa_error + int option" where
  "totp_scan cy key user code used [] = Inr None"
| "totp_scan cy key user code used (s # ss) =
     (if (user, s) \<in> set used then totp_scan cy key user code used ss
      else case hotp cy key s of
        None \<Rightarrow> Inl StructError
      | Some x \<Rightarrow> if code = x then Inr (Some s) else totp_scan cy key user code used ss)"

definition totp_steps :: "int \<Rightarrow> int \<Rightarrow> int list" where
  "totp_steps current window = map (\<lambda>o'. current + o') [- window..window]"

definition clean_code :: "string \<Rightarrow> string" where
  "clean_code code = filter (\<lambda>c. c \<noteq> CHR '' '') (strip code)"

definition totp_match ::
  "crypto \<Rightarrow> int \<Rightarrow> string \<Rightarrow> string \<Rightarrow> int \<Rightarrow> int \<Rightarrow> mfa \<Rightarrow> mfa_error + int option" where
  "totp_match cy now user code window time_step m =
     (case dget (mf_totp m) user of
        None \<Rightarrow> Inl NoTotpSecret
      | Some secret \<Rightarrow>
          if secret = [] then Inl NoTotpSecret
          else if \<not> (list_all is_digit (clean_code code) \<and> length (clean_code code) = 6) then Inr None
          else (case cy_b32decode cy secret of
                  None \<Rightarrow> Inl InvalidSecret
                | Some key \<Rightarrow> totp_scan cy key user (clean_code code) (mf_used m) (totp_steps (now div time_step) window)))"

definition verify_totp ::
  "crypto \<Rightarrow> int \<Rightarrow> string \<Rightarrow> string \<Rightarrow> int \<Rightarrow> int \<Rightarrow> mfa \<Rightarrow> (mfa_error + bool) \<times> mfa" where
  "verify_totp cy now user code window time_step m =
     (case totp_match cy now user code window time_step m of
        Inl e \<Rightarrow> (Inl e, m)
      | Inr None \<Rightarrow> (Inr False, m)
      | Inr (Some s) \<Rightarrow>
          (Inr True, m\<lparr>mf_used := filter (\<lambda>k. snd k \<ge> now div time_step - 10) (List.insert (user, s) (mf_used m))\<rparr>))"

datatype auth_payload =
    Fido2 string bytes bytes bytes string
  | Totp string
  | OtherPayload

definition verify_admin_mfa :: "crypto \<Rightarrow> timestamp \<Rightarrow> string \<Rightarrow> auth_payload \<Rightarrow> mfa \<Rightarrow> (mfa_error + bool) \<times> mfa" where
  "verify_admin_mfa cy now user p m =
     (case p of
        Fido2 cid client auth sig ch \<Rightarrow> verify_fido2_assertion cy now user cid client auth sig ch m
      | Totp code \<Rightarrow> verify_totp cy (py_int now) user code 1 30 m
      | OtherPayload \<Rightarrow> (Inl UnsupportedMfa, m))"

section \<open>Challenges are used once\<close>

datatype mfa_call =
    Generate timestamp string pyfloat
  | RegisterKey timestamp string string string string
  | RegisterTotp string string
  | VerifyFido2 timestamp string string bytes bytes bytes string
  | VerifyTotp int string string int int

fun mfa_step :: "crypto \<Rightarrow> mfa_call \<Rightarrow> mfa \<Rightarrow> mfa" where
  "mfa_step cy (Generate now ch ttl) m = snd (generate_challenge now ch ttl m)"
| "mfa_step cy (RegisterKey now user cid pem rp) m = snd (register_fido2_key cy now user cid pem rp m)"
| "mfa_step cy (RegisterTotp user secret) m = register_totp_secret user secret m"
| "mfa_step cy (VerifyFido2 now user cid client auth sig ch) m = snd (verify_fido2_assertion cy now user cid client auth sig ch m)"
| "mfa_step cy (VerifyTotp now user code w ts) m = snd (verify_totp cy now user code w ts m)"

fun draws :: "string \<Rightarrow> mfa_call \<Rightarrow> bool" where
  "draws ch (Generate now c ttl) = (c = ch)"
| "draws ch _ = False"

lemma spent_step:
  assumes "dget (mf_challenges m) ch = None" and "\<not> draws ch c"
  shows "dget (mf_challenges (mfa_step cy c m)) ch = None"
  using assms
  by (cases c) (auto simp: generate_challenge_def register_fido2_key_def register_totp_secret_def Let_def
      verify_fido2_assertion_def verify_totp_def split: option.split sum.split)

lemma spent_run:
  assumes "dget (mf_challenges m) ch = None" and "\<forall>c \<in> set cs. \<not> draws ch c"
  shows "dget (mf_challenges (fold (mfa_step cy) cs m)) ch = None"
  using assms by (induction cs arbitrary: m) (simp_all add: spent_step)

lemma verify_spends: "dget (mf_challenges (snd (verify_fido2_assertion cy now user cid client auth sig ch m))) ch = None
    \<or> verify_fido2_assertion cy now user cid client auth sig ch m = (Inl ChallengeInvalid, m)"
  by (auto simp: verify_fido2_assertion_def Let_def split: option.split sum.split)

lemma assertion_count_Inr:
  assumes "assertion_count cy c challenge client auth = Inr n"
  shows "n = be_value (take 4 (drop 33 auth)) \<and> (n = 0 \<or> cd_count c < n) \<and> 37 \<le> length auth
    \<and> take 32 auth = cy_sha256 cy (cy_encode cy (cd_rp c)) \<and> (auth ! 32) AND 1 \<noteq> 0
    \<and> (\<exists>d. cy_json cy client = Some (JObj d) \<and> dget d ''type'' = Some (JStr ''webauthn.get'')
          \<and> dget d ''challenge'' = Some (JStr challenge))"
  using assms
  by (auto simp: assertion_count_def client_field_def Let_def split: option.splits json.splits if_splits)

lemma verify_fido2_Inr:
  assumes "verify_fido2_assertion cy now user cid client auth sig ch m = (Inr b, m')"
  shows "b \<and> (\<exists>expiry c n. dget (mf_challenges m) ch = Some expiry \<and> now \<le> expiry
    \<and> dget (mf_credentials m) cid = Some c \<and> cd_user c = user \<and> assertion_count cy c ch client auth = Inr n
    \<and> signature_error cy c (auth @ cy_sha256 cy client) sig = None
    \<and> m' = m\<lparr>mf_challenges := dpop ch (mf_challenges m),
             mf_credentials := dset cid (c\<lparr>cd_count := n\<rparr>) (mf_credentials m)\<rparr>)"
  using assms
  by (auto simp: verify_fido2_assertion_def Let_def split: option.splits sum.splits if_splits)

text \<open>
  C35. A hardware key is accepted only for a challenge that was drawn, has not expired and has not been used, from
  a credential of that user, with the user present and a valid signature over the authenticator data
  and the client data that names this challenge; and the challenge is spent: whatever happens later,
  it is refused until it is drawn again.
\<close>

theorem fido2_assertion_sound:
  assumes "verify_fido2_assertion cy now user cid client auth sig ch m = (Inr b, m')"
    and "\<forall>c \<in> set later. \<not> draws ch c"
  shows "(\<exists>expiry c d. dget (mf_challenges m) ch = Some expiry \<and> now \<le> expiry
      \<and> dget (mf_credentials m) cid = Some c \<and> cd_user c = user
      \<and> cy_json cy client = Some (JObj d) \<and> dget d ''challenge'' = Some (JStr ch)
      \<and> take 32 auth = cy_sha256 cy (cy_encode cy (cd_rp c)) \<and> (auth ! 32) AND 1 \<noteq> 0
      \<and> cy_verify cy (cd_pem c) sig (auth @ cy_sha256 cy client))
    \<and> fst (verify_fido2_assertion cy now2 user2 cid2 client2 auth2 sig2 ch (fold (mfa_step cy) later m')) = Inl ChallengeInvalid"
proof -
  from verify_fido2_Inr [OF assms(1)] obtain expiry c n where v: "dget (mf_challenges m) ch = Some expiry" "now \<le> expiry"
    "dget (mf_credentials m) cid = Some c" "cd_user c = user" "assertion_count cy c ch client auth = Inr n"
    "signature_error cy c (auth @ cy_sha256 cy client) sig = None" "dget (mf_challenges m') ch = None" by auto
  have "cy_verify cy (cd_pem c) sig (auth @ cy_sha256 cy client)"
    using v(6) by (auto simp: signature_error_def split: option.splits key_kind.splits if_splits)
  moreover have "fst (verify_fido2_assertion cy now2 user2 cid2 client2 auth2 sig2 ch (fold (mfa_step cy) later m')) = Inl ChallengeInvalid"
    using spent_run [OF v(7) assms(2), of cy] by (simp add: verify_fido2_assertion_def)
  ultimately show ?thesis using v assertion_count_Inr [OF v(5)] by blast
qed

text \<open>
  The signature counter protects against clones only while it is not zero: an assertion with counter zero is
  accepted whatever counter was seen before, and it rewinds the stored counter, so that afterwards no
  counter at all is taken for a rollback.
\<close>

theorem fido2_zero_counter_rewinds:
  assumes "verify_fido2_assertion cy now user cid client auth sig ch m = (Inr b, m')"
    and "be_value (take 4 (drop 33 auth)) = 0"
  shows "\<exists>c. dget (mf_credentials m') cid = Some c \<and> cd_count c = 0
    \<and> (\<forall>ch2 client2 auth2. assertion_count cy c ch2 client2 auth2 \<noteq> Inl CounterRollback)"
proof -
  from verify_fido2_Inr [OF assms(1)] obtain c n where "assertion_count cy c ch client auth = Inr n"
    and m': "dget (mf_credentials m') cid = Some (c\<lparr>cd_count := n\<rparr>)" by auto
  with assms(2) have "n = 0" using assertion_count_Inr by blast
  then have "assertion_count cy (c\<lparr>cd_count := n\<rparr>) ch2 client2 auth2 \<noteq> Inl CounterRollback" for ch2 client2 auth2
    by (auto simp: assertion_count_def Let_def split: option.splits json.splits if_splits)
  with m' \<open>n = 0\<close> show ?thesis by auto
qed

definition sample_crypto :: crypto where
  "sample_crypto = \<lparr>cy_sha256 = (\<lambda>_. replicate 32 7), cy_hmac_sha1 = (\<lambda>k msg. replicate 20 0),
     cy_b32decode = (\<lambda>_. Some [5]), cy_json = (\<lambda>_. Some (JObj [(''type'', JStr ''webauthn.get''), (''challenge'', JStr ''ch'')])),
     cy_load_pem = (\<lambda>_. Some EllipticCurve), cy_verify = (\<lambda>_ _ _. True), cy_encode = (\<lambda>_. [])\<rparr>"

definition sample_mfa :: mfa where
  "sample_mfa = \<lparr>mf_credentials = [(''k'', \<lparr>cd_id = ''k'', cd_user = ''ann'', cd_rp = ''rp'', cd_pem = ''pem'', cd_count = 9, cd_created = 0\<rparr>)],
     mf_user_credentials = [(''ann'', [''k''])], mf_totp = [(''ann'', ''S'')], mf_used = [], mf_challenges = [(''ch'', 100)]\<rparr>"

definition sample_auth :: "nat \<Rightarrow> bytes" where
  "sample_auth n = replicate 32 7 @ [1, 0, 0, 0, word_of_nat n]"

lemma fido2_assertion_sound_witness:
  "fst (verify_fido2_assertion sample_crypto 50 ''ann'' ''k'' [] (sample_auth 10) [] ''ch'' sample_mfa) = Inr True
   \<and> fst (verify_fido2_assertion sample_crypto 50 ''ann'' ''k'' [] (sample_auth 11) [] ''ch''
       (fold (mfa_step sample_crypto) [RegisterTotp ''ann'' ''T'']
         (snd (verify_fido2_assertion sample_crypto 50 ''ann'' ''k'' [] (sample_auth 10) [] ''ch'' sample_mfa)))) = Inl ChallengeInvalid"
proof
  let ?v = "verify_fido2_assertion sample_crypto 50 ''ann'' ''k'' [] (sample_auth 10) [] ''ch'' sample_mfa"
  show f: "fst ?v = Inr True" by code_simp
  then have "?v = (Inr True, snd ?v)" by (metis prod.collapse)
  from fido2_assertion_sound [OF this, of "[RegisterTotp ''ann'' ''T'']"]
  show "fst (verify_fido2_assertion sample_crypto 50 ''ann'' ''k'' [] (sample_auth 11) [] ''ch''
       (fold (mfa_step sample_crypto) [RegisterTotp ''ann'' ''T''] (snd ?v))) = Inl ChallengeInvalid" by simp
qed

lemma fido2_zero_counter_rewinds_witness:
  "map_option cd_count (dget (mf_credentials sample_mfa) ''k'') = Some 9
   \<and> map_option cd_count (dget (mf_credentials (snd (verify_fido2_assertion sample_crypto 50 ''ann'' ''k'' []
        (sample_auth 0) [] ''ch'' sample_mfa))) ''k'') = Some 0"
proof
  show "map_option cd_count (dget (mf_credentials sample_mfa) ''k'') = Some 9" by (simp add: sample_mfa_def)
  let ?v = "verify_fido2_assertion sample_crypto 50 ''ann'' ''k'' [] (sample_auth 0) [] ''ch'' sample_mfa"
  have "fst ?v = Inr True" by code_simp
  then have v: "?v = (Inr True, snd ?v)" by (metis prod.collapse)
  have "be_value (take 4 (drop 33 (sample_auth 0))) = 0" by code_simp
  from fido2_zero_counter_rewinds [OF v this]
  show "map_option cd_count (dget (mf_credentials (snd ?v)) ''k'') = Some 0" by auto
qed


section \<open>Codes are used once\<close>

text \<open>The accepted pairs of a user and a time step over a sequence of calls.\<close>

definition accepts :: "crypto \<Rightarrow> mfa_call \<Rightarrow> mfa \<Rightarrow> (string \<times> int) list" where
  "accepts cy c m = (case c of
     VerifyTotp now user code w ts \<Rightarrow>
       (case totp_match cy now user code w ts m of Inr (Some s) \<Rightarrow> [(user, s)] | _ \<Rightarrow> [])
   | _ \<Rightarrow> [])"

fun accepted :: "crypto \<Rightarrow> mfa_call list \<Rightarrow> mfa \<Rightarrow> (string \<times> int) list" where
  "accepted cy [] m = []"
| "accepted cy (c # cs) m = accepts cy c m @ accepted cy cs (mfa_step cy c m)"

text \<open>The clock does not run backwards, and all codes use one step length and a window of at most ten steps.\<close>

fun clocked :: "int \<Rightarrow> int \<Rightarrow> mfa_call list \<Rightarrow> bool" where
  "clocked T prev [] = True"
| "clocked T prev (VerifyTotp now user code w ts # cs) =
     (ts = T \<and> 0 \<le> w \<and> w \<le> 10 \<and> prev \<le> now \<and> clocked T now cs)"
| "clocked T prev (_ # cs) = clocked T prev cs"

lemma totp_scan_Some:
  assumes "totp_scan cy key user code used ss = Inr (Some s)"
  shows "s \<in> set ss \<and> (user, s) \<notin> set used \<and> hotp cy key s = Some code"
  using assms by (induction ss) (auto split: if_splits option.splits)

lemma totp_match_Some:
  assumes "totp_match cy now user code w ts m = Inr (Some s)"
  shows "(user, s) \<notin> set (mf_used m) \<and> \<bar>s - now div ts\<bar> \<le> w
    \<and> (\<exists>secret key. dget (mf_totp m) user = Some secret \<and> cy_b32decode cy secret = Some key
        \<and> hotp cy key s = Some (clean_code code))"
  using assms totp_scan_Some
  by (fastforce simp: totp_match_def totp_steps_def split: option.splits if_splits)

text \<open>A pair that was accepted is still remembered, or too old for any window.\<close>

definition remembered :: "int \<Rightarrow> mfa \<Rightarrow> (string \<times> int) set \<Rightarrow> bool" where
  "remembered current m A = (\<forall>k \<in> A. k \<in> set (mf_used m) \<or> snd k < current - 10)"

lemma used_step:
  "mf_used (mfa_step cy c m) = (case c of
     VerifyTotp now user code w ts \<Rightarrow>
       (case accepts cy c m of [] \<Rightarrow> mf_used m
        | k # _ \<Rightarrow> filter (\<lambda>k. snd k \<ge> now div ts - 10) (List.insert k (mf_used m)))
   | _ \<Rightarrow> mf_used m)"
  by (cases c) (auto simp: accepts_def generate_challenge_def register_fido2_key_def register_totp_secret_def Let_def
      verify_fido2_assertion_def verify_totp_def split: option.split sum.split)

lemma remembered_other:
  assumes "remembered t m A" and "mf_used m' = mf_used m"
  shows "remembered t m' A"
  using assms by (simp add: remembered_def)

lemma remembered_totp:
  fixes now :: int
  assumes r: "remembered (prev div T) m A" and T: "0 < T" and w: "w \<le> 10" "prev \<le> now"
    and c: "c = VerifyTotp now user code w T"
  shows "remembered (now div T) (mfa_step cy c m) (A \<union> set (accepts cy c m)) \<and> A \<inter> set (accepts cy c m) = {}"
proof (cases "totp_match cy now user code w T m")
  case (Inr o')
  have le: "prev div T \<le> now div T" using w(2) T by (rule zdiv_mono1)
  show ?thesis
  proof (cases o')
    case None
    with Inr c have "accepts cy c m = []" by (simp add: accepts_def)
    with le r show ?thesis using used_step [of cy c m] c by (fastforce simp: remembered_def simp del: mfa_step.simps)
  next
    case (Some s)
    with Inr totp_match_Some [of cy now user code w T m s] w(1)
    have s: "(user, s) \<notin> set (mf_used m)" "s \<ge> now div T - 10" by auto
    have a: "accepts cy c m = [(user, s)]" using Inr Some c by (simp add: accepts_def)
    have "(user, s) \<notin> A" using r s le by (force simp: remembered_def)
    moreover have "remembered (now div T) (mfa_step cy c m) (A \<union> {(user, s)})"
      using used_step [of cy c m] r le s(2) a c by (fastforce simp: remembered_def simp del: mfa_step.simps)
    ultimately show ?thesis using a by simp
  qed
next
  case (Inl e)
  have "prev div T \<le> now div T" using w(2) T by (rule zdiv_mono1)
  moreover from Inl c have "accepts cy c m = []" by (simp add: accepts_def)
  ultimately show ?thesis using used_step [of cy c m] r c by (fastforce simp: remembered_def simp del: mfa_step.simps)
qed

lemma accepted_distinct:
  assumes "remembered (prev div T) m A" and "0 < T" and "clocked T prev cs"
  shows "distinct (accepted cy cs m) \<and> A \<inter> set (accepted cy cs m) = {}"
  using assms
proof (induction cs arbitrary: m A prev)
  case (Cons c cs)
  show ?case
  proof (cases "\<exists>now user code w ts. c = VerifyTotp now user code w ts")
    case True
    then obtain now user code w ts where c: "c = VerifyTotp now user code w ts" by blast
    with Cons.prems have p: "ts = T" "w \<le> 10" "prev \<le> now" "clocked T now cs" by auto
    note r = remembered_totp [OF Cons.prems(1,2) p(2,3) c [unfolded p(1)], of cy]
    have "distinct (accepts cy c m)" using c by (auto simp: accepts_def split: sum.split option.split)
    with r Cons.IH [OF conjunct1 [OF r] Cons.prems(2) p(4)] show ?thesis by auto
  next
    case False
    then have "mf_used (mfa_step cy c m) = mf_used m" "accepts cy c m = []" "clocked T prev cs"
      using Cons.prems(3) by (cases c; simp add: used_step accepts_def del: mfa_step.simps)+
    with Cons.IH [OF remembered_other [OF Cons.prems(1)] Cons.prems(2)] show ?thesis by simp
  qed
qed simp

text \<open>
  One-time passwords are single use: over any sequence of calls on a fresh manager during which the clock does
  not run backwards, with one step length and windows of at most ten steps (the default is one), no
  pair of a user and a time step is accepted twice.
\<close>

theorem totp_single_use:
  assumes "0 < T" and "clocked T prev cs"
  shows "distinct (accepted cy cs new_mfa)"
  using accepted_distinct [of prev T new_mfa "{}" cs cy] assms by (simp add: remembered_def)

lemma sample_hotp: "0 \<le> s \<Longrightarrow> s < 2 ^ 64 \<Longrightarrow> hotp sample_crypto key s = Some ''000000''"
proof -
  have "truncate_hmac (replicate 20 0) = 0" by (simp add: truncate_hmac_def be_value_def numeral_eq_Suc)
  moreover have "show_nat 0 = ''0''" by code_simp
  then have "pad6 0 = ''000000''" by (simp add: pad6_def numeral_eq_Suc)
  ultimately have "pad6 (truncate_hmac (replicate 20 0) mod 1000000) = ''000000''" by simp
  moreover assume "0 \<le> s" "s < 2 ^ 64"
  ultimately show ?thesis by (simp add: hotp_def pack_q_def sample_crypto_def)
qed

lemma totp_single_use_witness:
  "let cs = [VerifyTotp 3000 ''ann'' '' 000 000'' 1 30, VerifyTotp 3010 ''ann'' ''000000'' 1 30]
   in accepted sample_crypto (RegisterTotp ''ann'' '' S '' # cs) new_mfa = [(''ann'', 99), (''ann'', 100)]
     \<and> distinct (accepted sample_crypto (RegisterTotp ''ann'' '' S '' # cs) new_mfa)"
proof -
  let ?cs = "RegisterTotp ''ann'' '' S '' # [VerifyTotp 3000 ''ann'' '' 000 000'' 1 30, VerifyTotp 3010 ''ann'' ''000000'' 1 30]"
  have "distinct (accepted sample_crypto ?cs new_mfa)" by (rule totp_single_use [of 30 3000]) simp_all
  moreover have "accepted sample_crypto ?cs new_mfa = [(''ann'', 99), (''ann'', 100)]"
  proof -
    have "clean_code '' 000 000'' = ''000000''" "clean_code ''000000'' = ''000000''" "strip '' S '' = ''S''"
      "list_all is_digit ''000000''" by code_simp+
    moreover have "totp_steps 100 1 = [99, 100, 101]" by code_simp
    moreover have "cy_b32decode sample_crypto = (\<lambda>_. Some [5])" by (simp add: sample_crypto_def)
    ultimately show ?thesis
      by (simp add: accepts_def totp_match_def verify_totp_def register_totp_secret_def sample_hotp new_mfa_def)
  qed
  ultimately show ?thesis unfolding Let_def by (rule conjI [rotated])
qed

end
