(* ===== verification/Sessions.thy ===== *)
theory Sessions
  imports Amber_Prelude "HOL-Library.List_Lexorder" "HOL-Library.Char_ord"
begin

text \<open>
  \<open>session/manager.py\<close>: conversations, the part of them a model is shown, and the manager that keeps them in memory,
  in Redis, in PostgreSQL or in JSON-lines files; \<open>safe_filename\<close> and \<open>split_message\<close> of \<open>utils/helpers.py\<close>.
  A message is a JSON object. Redis and the database, when configured, are dictionaries from keys to
  sessions; whether a call on them succeeds, and what \<open>isoformat\<close> and \<open>fromisoformat\<close> do, are parameters.
\<close>

section \<open>JSON values in Python\<close>

type_synonym msg = "(string, json) pydict"

fun truthy :: "json \<Rightarrow> bool" where
  "truthy JNull = False"
| "truthy (JBool b) = b"
| "truthy (JInt i) = (i \<noteq> 0)"
| "truthy (JFloat x) = (x \<noteq> 0)"
| "truthy (JStr s) = (s \<noteq> [])"
| "truthy (JList xs) = (xs \<noteq> [])"
| "truthy (JObj d) = (d \<noteq> [])"

text \<open>\<open>xs[a:]\<close> and \<open>xs[a:b]\<close>: negative bounds count from the end, bounds outside are clamped.\<close>

definition py_bound :: "int \<Rightarrow> nat \<Rightarrow> nat" where
  "py_bound i n = (if i < 0 then nat (int n + i) else min n (nat i))"

definition slice_from :: "int \<Rightarrow> 'a list \<Rightarrow> 'a list" where
  "slice_from a xs = drop (py_bound a (length xs)) xs"

definition py_slice :: "int \<Rightarrow> int \<Rightarrow> 'a list \<Rightarrow> 'a list" where
  "py_slice a b xs = drop (py_bound a (length xs)) (take (py_bound b (length xs)) xs)"

lemma slice_from_0 [simp]: "slice_from 0 xs = xs"
  by (simp add: slice_from_def py_bound_def)

lemma slice_from_of_nat [simp]: "slice_from (int n) xs = drop n xs"
  by (simp add: slice_from_def py_bound_def min_def)

section \<open>A conversation\<close>

record session =
  ss_key :: string
  ss_messages :: "msg list"
  ss_created :: timestamp
  ss_updated :: timestamp
  ss_metadata :: json
  ss_last :: int

definition new_session :: "timestamp \<Rightarrow> string \<Rightarrow> session" where
  "new_session now k = \<lparr>ss_key = k, ss_messages = [], ss_created = now, ss_updated = now, ss_metadata = JObj [], ss_last = 0\<rparr>"

definition add_message :: "timestamp \<Rightarrow> string \<Rightarrow> string \<Rightarrow> string \<Rightarrow> msg \<Rightarrow> session \<Rightarrow> session" where
  "add_message now stamp role content kwargs s =
     s\<lparr>ss_messages := ss_messages s @
         [fold (\<lambda>(k, v). dset k v) kwargs [(''role'', JStr role), (''content'', JStr content), (''timestamp'', JStr stamp)]],
       ss_updated := now\<rparr>"

definition is_role :: "string \<Rightarrow> msg \<Rightarrow> bool" where
  "is_role r m = (dget m ''role'' = Some (JStr r))"

text \<open>What the model is shown of a message; reading a missing role raises \<open>KeyError\<close>, which is \<open>None\<close>.\<close>

definition history_entry :: "msg \<Rightarrow> msg option" where
  "history_entry m =
     (case dget m ''role'' of
        None \<Rightarrow> None
      | Some r \<Rightarrow> Some ([(''role'', r), (''content'', dgetd m ''content'' (JStr ''''))] @
          List.map_filter (\<lambda>k. map_option (Pair k) (dget m k)) [''tool_calls'', ''tool_call_id'', ''name'']))"

fun history_entries :: "msg list \<Rightarrow> msg list option" where
  "history_entries [] = Some []"
| "history_entries (m # ms) =
     (case history_entry m of None \<Rightarrow> None | Some e \<Rightarrow> map_option ((#) e) (history_entries ms))"

definition align :: "msg list \<Rightarrow> msg list" where
  "align ms = (if \<exists>m \<in> set ms. is_role ''user'' m then dropWhile (\<lambda>m. \<not> is_role ''user'' m) ms else ms)"

definition unconsolidated :: "session \<Rightarrow> msg list" where
  "unconsolidated s = slice_from (ss_last s) (ss_messages s)"

definition get_history :: "int \<Rightarrow> session \<Rightarrow> msg list option" where
  "get_history n s = history_entries (align (slice_last n (unconsolidated s)))"

definition session_clear :: "timestamp \<Rightarrow> session \<Rightarrow> session" where
  "session_clear now s = s\<lparr>ss_messages := [], ss_last := 0, ss_updated := now\<rparr>"

section \<open>The manager\<close>

definition unsafe_char :: "char \<Rightarrow> bool" where
  "unsafe_char c = (c \<in> set [CHR ''<'', CHR ''>'', CHR '':'', CHR 0x22, CHR ''/'', CHR 0x5C, CHR ''|'', CHR ''?'', CHR ''*''])"

definition safe_filename :: "string \<Rightarrow> string" where
  "safe_filename s = strip (map (\<lambda>c. if unsafe_char c then CHR ''_'' else c) s)"

definition session_path :: "string \<Rightarrow> string" where
  "session_path k = safe_filename (map (\<lambda>c. if c = CHR '':'' then CHR ''_'' else c) k) @ ''.jsonl''"

text \<open>A line of a session file: blank, not JSON, or a JSON value.\<close>

datatype file_line = BlankLine | BadLine | JsonLine json

record time_codec =
  tc_iso :: "timestamp \<Rightarrow> string"
  tc_parse :: "string \<Rightarrow> timestamp option"

record manager =
  sm_cache :: "(string, session) pydict"
  sm_redis :: "(string, session) pydict option"
  sm_db :: "(string, session) pydict option"
  sm_files :: "(string, file_line list) pydict"
  sm_legacy :: "(string, file_line list) pydict"

text \<open>Which of the outside calls of an operation succeed.\<close>

record faults =
  fl_redis :: bool
  fl_db :: bool
  fl_move :: bool

definition redis_load :: "faults \<Rightarrow> string \<Rightarrow> manager \<Rightarrow> session option" where
  "redis_load f k m = (case sm_redis m of Some r \<Rightarrow> if fl_redis f then dget r k else None | None \<Rightarrow> None)"

definition redis_save :: "faults \<Rightarrow> session \<Rightarrow> manager \<Rightarrow> manager" where
  "redis_save f s m = (case sm_redis m of
     Some r \<Rightarrow> if fl_redis f then m\<lparr>sm_redis := Some (dset (ss_key s) s r)\<rparr> else m
   | None \<Rightarrow> m)"

text \<open>
  What has been read of a file: the messages, the metadata, the creation time and the count of
  consolidated messages. A line that is not a JSON object, or a creation time that does not parse,
  makes the load fail. A count that is not an integer, which no version of the code writes, is
  treated the same way.
\<close>

type_synonym loaded = "msg list \<times> json \<times> timestamp option \<times> int"

definition load_object :: "time_codec \<Rightarrow> msg \<Rightarrow> loaded \<Rightarrow> loaded option" where
  "load_object tc d a =
     (case a of (ms, md, cr, lc) \<Rightarrow>
        if dget d ''_type'' = Some (JStr ''metadata'') then
          (case (dgetd d ''created_at'' JNull, dgetd d ''last_consolidated'' (JInt 0)) of
             (j, JInt i) \<Rightarrow>
               if truthy j then (case j of
                   JStr t \<Rightarrow> map_option (\<lambda>t. (ms, dgetd d ''metadata'' (JObj []), Some t, i)) (tc_parse tc t)
                 | _ \<Rightarrow> None)
               else Some (ms, dgetd d ''metadata'' (JObj []), None, i)
           | _ \<Rightarrow> None)
        else Some (ms @ [d], md, cr, lc))"

fun load_lines :: "time_codec \<Rightarrow> file_line list \<Rightarrow> loaded \<Rightarrow> loaded option" where
  "load_lines tc [] a = Some a"
| "load_lines tc (BlankLine # ls) a = load_lines tc ls a"
| "load_lines tc (JsonLine (JObj d) # ls) a =
     (case load_object tc d a of None \<Rightarrow> None | Some a' \<Rightarrow> load_lines tc ls a')"
| "load_lines tc (_ # ls) a = None"

definition load_file :: "time_codec \<Rightarrow> timestamp \<Rightarrow> string \<Rightarrow> file_line list \<Rightarrow> session option" where
  "load_file tc now k ls =
     map_option (\<lambda>(ms, md, cr, lc). \<lparr>ss_key = k, ss_messages = ms,
         ss_created = (case cr of None \<Rightarrow> now | Some t \<Rightarrow> t), ss_updated = now, ss_metadata = md, ss_last = lc\<rparr>)
       (load_lines tc ls ([], JObj [], None, 0))"

definition migrate :: "faults \<Rightarrow> string \<Rightarrow> manager \<Rightarrow> manager" where
  "migrate f p m =
     (case (dget (sm_files m) p, dget (sm_legacy m) p) of
        (None, Some ls) \<Rightarrow> if fl_move f then m\<lparr>sm_files := dset p ls (sm_files m), sm_legacy := dpop p (sm_legacy m)\<rparr> else m
      | _ \<Rightarrow> m)"

definition load_session :: "time_codec \<Rightarrow> faults \<Rightarrow> timestamp \<Rightarrow> string \<Rightarrow> manager \<Rightarrow> session option \<times> manager" where
  "load_session tc f now k m =
     (case (case sm_db m of Some db \<Rightarrow> if fl_db f then dget db k else None | None \<Rightarrow> None) of
        Some s \<Rightarrow> (Some s, m)
      | None \<Rightarrow>
          (let m = migrate f (session_path k) m
           in case dget (sm_files m) (session_path k) of
                None \<Rightarrow> (None, m)
              | Some ls \<Rightarrow> (load_file tc now k ls, m)))"

definition get_or_create :: "time_codec \<Rightarrow> faults \<Rightarrow> timestamp \<Rightarrow> string \<Rightarrow> manager \<Rightarrow> session \<times> manager" where
  "get_or_create tc f now k m =
     (case dget (sm_cache m) k of
        Some s \<Rightarrow> (s, m)
      | None \<Rightarrow>
          (case redis_load f k m of
             Some s \<Rightarrow> (s, m\<lparr>sm_cache := dset k s (sm_cache m)\<rparr>)
           | None \<Rightarrow>
               (let (r, m) = load_session tc f now k m;
                    s = (case r of None \<Rightarrow> new_session now k | Some s \<Rightarrow> s)
                in (s, m\<lparr>sm_cache := dset k s (sm_cache m)\<rparr>))))"

definition session_lines :: "time_codec \<Rightarrow> session \<Rightarrow> file_line list" where
  "session_lines tc s =
     JsonLine (JObj [(''_type'', JStr ''metadata''), (''key'', JStr (ss_key s)), (''created_at'', JStr (tc_iso tc (ss_created s))),
        (''updated_at'', JStr (tc_iso tc (ss_updated s))), (''metadata'', ss_metadata s), (''last_consolidated'', JInt (ss_last s))])
     # map (\<lambda>m. JsonLine (JObj m)) (ss_messages s)"

definition save :: "time_codec \<Rightarrow> faults \<Rightarrow> session \<Rightarrow> manager \<Rightarrow> manager" where
  "save tc f s m =
     (let m = redis_save f s (m\<lparr>sm_cache := dset (ss_key s) s (sm_cache m)\<rparr>)
      in case sm_db m of
           Some db \<Rightarrow>
             if fl_db f then m\<lparr>sm_db := Some (dset (ss_key s)
                 (case dget db (ss_key s) of None \<Rightarrow> s | Some old \<Rightarrow> s\<lparr>ss_created := ss_created old\<rparr>) db)\<rparr>
             else m\<lparr>sm_files := dset (session_path (ss_key s)) (session_lines tc s) (sm_files m)\<rparr>
         | None \<Rightarrow> m\<lparr>sm_files := dset (session_path (ss_key s)) (session_lines tc s) (sm_files m)\<rparr>)"

definition invalidate_session :: "faults \<Rightarrow> string \<Rightarrow> manager \<Rightarrow> manager" where
  "invalidate_session f k m =
     (let m = m\<lparr>sm_cache := dpop k (sm_cache m)\<rparr>
      in case sm_redis m of
           Some r \<Rightarrow> if fl_redis f then m\<lparr>sm_redis := Some (dpop k r)\<rparr> else m
         | None \<Rightarrow> m)"

text \<open>A new process on the same machine: only the memory of the process is lost.\<close>

definition restart :: "manager \<Rightarrow> manager" where
  "restart m = m\<lparr>sm_cache := []\<rparr>"

text \<open>\<open>list_sessions\<close>: the newest first. Sorting update times that are not all strings raises, which is \<open>None\<close>.\<close>

record session_info =
  si_key :: json
  si_created :: json
  si_updated :: json
  si_path :: string

fun replace_first :: "char \<Rightarrow> char \<Rightarrow> string \<Rightarrow> string" where
  "replace_first a b [] = []"
| "replace_first a b (c # cs) = (if c = a then b # cs else c # replace_first a b cs)"

definition stem :: "string \<Rightarrow> string" where
  "stem p = take (length p - length ''.jsonl'') p"

fun file_info :: "string \<times> file_line list \<Rightarrow> session_info option" where
  "file_info (p, JsonLine (JObj d) # ls) =
     (if dget d ''_type'' = Some (JStr ''metadata'')
      then let k = dgetd d ''key'' JNull
           in Some \<lparr>si_key = (if truthy k then k else JStr (replace_first (CHR ''_'') (CHR '':'') (stem p))),
                si_created = dgetd d ''created_at'' JNull, si_updated = dgetd d ''updated_at'' JNull, si_path = p\<rparr>
      else None)"
| "file_info _ = None"

definition updated_text :: "session_info \<Rightarrow> string" where
  "updated_text i = (case si_updated i of JStr t \<Rightarrow> t | _ \<Rightarrow> [])"

definition sort_infos :: "session_info list \<Rightarrow> session_info list option" where
  "sort_infos xs =
     (if length xs \<le> 1 then Some xs
      else if list_all (\<lambda>i. si_updated i = JStr (updated_text i)) xs then Some (sorted_desc updated_text xs) else None)"

definition list_sessions :: "time_codec \<Rightarrow> faults \<Rightarrow> manager \<Rightarrow> session_info list option" where
  "list_sessions tc f m =
     (case (sm_db m, fl_db f) of
        (Some db, True) \<Rightarrow> Some (map (\<lambda>s. \<lparr>si_key = JStr (ss_key s), si_created = JStr (tc_iso tc (ss_created s)),
             si_updated = JStr (tc_iso tc (ss_updated s)), si_path = ''postgresql''\<rparr>) (sorted_desc ss_updated (dvals db)))
      | _ \<Rightarrow> sort_infos (List.map_filter file_info (sm_files m)))"

section \<open>The window shown to the model\<close>

lemma history_entry_fields:
  assumes "history_entry m = Some e"
  shows "dget e ''role'' = dget m ''role''" and "is_role r e = is_role r m"
  using assms by (auto simp: history_entry_def is_role_def split: option.splits)

lemma history_entries_Some:
  "history_entries ms = Some h \<Longrightarrow> list_all2 (\<lambda>m e. history_entry m = Some e) ms h"
  by (induction ms arbitrary: h) (auto split: option.splits)

lemma history_entries_None_iff: "history_entries ms = None \<longleftrightarrow> (\<exists>m \<in> set ms. dget m ''role'' = None)"
  by (induction ms) (auto simp: history_entry_def split: option.splits)

lemma align_suffix: "\<exists>pre. ms = pre @ align ms \<and> (\<forall>m \<in> set pre. \<not> is_role ''user'' m)"
proof (cases "\<exists>m \<in> set ms. is_role ''user'' m")
  case True
  then have "ms = takeWhile (\<lambda>m. \<not> is_role ''user'' m) ms @ align ms" by (simp add: align_def)
  then show ?thesis using set_takeWhileD by (intro exI [of _ "takeWhile (\<lambda>m. \<not> is_role ''user'' m) ms"]) fastforce
qed (simp add: align_def)

lemma align_head:
  "if \<exists>m \<in> set ms. is_role ''user'' m then align ms \<noteq> [] \<and> is_role ''user'' (hd (align ms)) else align ms = ms"
  using hd_dropWhile [of "\<lambda>m. \<not> is_role ''user'' m" ms] by (auto simp: align_def)

lemma slice_last_suffix: "\<exists>pre. xs = pre @ slice_last n xs"
  unfolding slice_last_def by (metis append_Nil append_take_drop_id)

lemma length_slice_last: "0 < n \<Longrightarrow> length (slice_last n xs) \<le> nat n"
  by (simp add: slice_last_def)

text \<open>
  What the model is shown of a conversation, when every message has a role: entries of a suffix of the messages not yet
  consolidated, at most as many as asked for; it starts with a turn of the user if the window holds one,
  nothing but messages of other roles is cut off before it, and the order and the roles are kept.
\<close>

theorem history_window:
  assumes "get_history n s = Some h" and "0 < n"
  shows "\<exists>old cut shown. unconsolidated s = old @ cut @ shown \<and> list_all2 (\<lambda>m e. history_entry m = Some e) shown h
    \<and> length h \<le> nat n \<and> (length (unconsolidated s) \<le> nat n \<or> length (cut @ shown) = nat n)
    \<and> (\<forall>m \<in> set cut. \<not> is_role ''user'' m)
    \<and> (if \<exists>m \<in> set h. is_role ''user'' m then is_role ''user'' (hd h) else cut = [])"
proof -
  let ?w = "slice_last n (unconsolidated s)"
  obtain old where old: "unconsolidated s = old @ ?w" using slice_last_suffix by blast
  obtain cut where cut: "?w = cut @ align ?w" "\<forall>m \<in> set cut. \<not> is_role ''user'' m" using align_suffix by blast
  have all: "list_all2 (\<lambda>m e. history_entry m = Some e) (align ?w) h"
    using assms(1) by (simp add: get_history_def history_entries_Some)
  then have roles: "list_all2 (\<lambda>m e. is_role ''user'' e = is_role ''user'' m) (align ?w) h"
    by (rule list_all2_mono) (simp add: history_entry_fields(2))
  have len: "length ?w \<le> nat n" using length_slice_last [OF assms(2)] .
  have "length h \<le> nat n" using list_all2_lengthD [OF all] cut(1) len by (metis length_append le_add2 le_trans)
  moreover have "length (unconsolidated s) \<le> nat n \<or> length ?w = nat n"
    using assms(2) by (auto simp: slice_last_def)
  moreover have "if \<exists>m \<in> set h. is_role ''user'' m then is_role ''user'' (hd h) else cut = []"
  proof (cases "\<exists>m \<in> set ?w. is_role ''user'' m")
    case True
    with align_head [of ?w] have a: "align ?w \<noteq> []" "is_role ''user'' (hd (align ?w))" by auto
    with roles have "h \<noteq> []" "is_role ''user'' (hd h)" by (auto simp: neq_Nil_conv list_all2_Cons1)
    then show ?thesis by auto
  next
    case False
    with align_head [of ?w] have a: "align ?w = ?w" by presburger
    with roles False have "\<not> (\<exists>m \<in> set h. is_role ''user'' m)"
      by (auto simp: list_all2_conv_all_nth in_set_conv_nth) (metis nth_mem)
    moreover have "cut = []" using cut(1) a by simp
    ultimately show ?thesis by auto
  qed
  moreover have "unconsolidated s = old @ cut @ align ?w" using old cut(1) by simp
  moreover have "length (unconsolidated s) \<le> nat n \<or> length (cut @ align ?w) = nat n"
    using calculation(2) by (subst cut(1) [symmetric])
  ultimately show ?thesis using cut(2) all
    apply -
    apply (rule exI [of _ old], rule exI [of _ cut], rule exI [of _ "align ?w"])
    apply (intro conjI)
    apply assumption+
    done
qed

definition sample_session :: session where
  "sample_session = \<lparr>ss_key = ''cli:direct'', ss_messages = [[(''role'', JStr ''user'')], [(''role'', JStr ''tool'')],
       [(''role'', JStr ''user''), (''content'', JStr ''hi''), (''timestamp'', JStr ''t'')], [(''role'', JStr ''assistant'')]],
     ss_created = 5, ss_updated = 6, ss_metadata = JObj [(''a'', JInt 1)], ss_last = 0\<rparr>"

lemma history_window_witness:
  "get_history 3 sample_session = Some [[(''role'', JStr ''user''), (''content'', JStr ''hi'')], [(''role'', JStr ''assistant''), (''content'', JStr [])]]
   \<and> (\<exists>old cut shown. unconsolidated sample_session = old @ cut @ shown \<and> length shown = 2)"
proof -
  have g: "get_history 3 sample_session = Some [[(''role'', JStr ''user''), (''content'', JStr ''hi'')], [(''role'', JStr ''assistant''), (''content'', JStr [])]]"
    by code_simp
  from history_window [OF g] obtain old cut shown where "unconsolidated sample_session = old @ cut @ shown"
    "list_all2 (\<lambda>m e. history_entry m = Some e) shown [[(''role'', JStr ''user''), (''content'', JStr ''hi'')], [(''role'', JStr ''assistant''), (''content'', JStr [])]]"
    by auto
  moreover from this(2) have "length shown = 2" by (auto dest: list_all2_lengthD)
  ultimately have "\<exists>old cut shown. unconsolidated sample_session = old @ cut @ shown \<and> length shown = 2" by blast
  with g show ?thesis by simp
qed

section \<open>Saving and loading\<close>

definition plain_messages :: "session \<Rightarrow> bool" where
  "plain_messages s = list_all (\<lambda>m. dget m ''_type'' \<noteq> Some (JStr ''metadata'')) (ss_messages s)"

lemma load_messages:
  assumes "list_all (\<lambda>m. dget m ''_type'' \<noteq> Some (JStr ''metadata'')) ms"
  shows "load_lines tc (map (\<lambda>m. JsonLine (JObj m)) ms) (ms0, md, cr, lc) = Some (ms0 @ ms, md, cr, lc)"
  using assms by (induction ms arbitrary: ms0) (auto simp: load_object_def)

lemma load_session_lines:
  assumes "tc_parse tc (tc_iso tc (ss_created s)) = Some (ss_created s)" and "tc_iso tc (ss_created s) \<noteq> []"
    and "plain_messages s"
  shows "load_file tc now k (session_lines tc s) = Some (s\<lparr>ss_key := k, ss_updated := now\<rparr>)"
proof -
  have "load_lines tc (session_lines tc s) ([], JObj [], None, 0) =
     Some (ss_messages s, ss_metadata s, Some (ss_created s), ss_last s)"
    using assms by (simp add: session_lines_def load_object_def dgetd_def load_messages plain_messages_def)
  then show ?thesis by (simp add: load_file_def)
qed

lemma sm_save [simp]:
  "sm_cache (save tc f s m) = dset (ss_key s) s (sm_cache m)"
  "sm_redis (save tc f s m) = (case sm_redis m of Some r \<Rightarrow> Some (if fl_redis f then dset (ss_key s) s r else r) | None \<Rightarrow> None)"
  "sm_files (save tc f s m) = (if sm_db m \<noteq> None \<and> fl_db f then sm_files m
      else dset (session_path (ss_key s)) (session_lines tc s) (sm_files m))"
  "sm_legacy (save tc f s m) = sm_legacy m"
  by (auto simp: save_def redis_save_def Let_def split: option.split)

lemma sm_db_save: "sm_db (save tc f s m) = (case sm_db m of
     Some db \<Rightarrow> if fl_db f then Some (dset (ss_key s)
         (case dget db (ss_key s) of None \<Rightarrow> s | Some old \<Rightarrow> s\<lparr>ss_created := ss_created old\<rparr>) db) else Some db
   | None \<Rightarrow> None)"
  by (auto simp: save_def redis_save_def Let_def split: option.split)

lemma sm_restart [simp]:
  "sm_cache (restart m) = []" "sm_redis (restart m) = sm_redis m" "sm_db (restart m) = sm_db m"
  "sm_files (restart m) = sm_files m" "sm_legacy (restart m) = sm_legacy m"
  by (simp_all add: restart_def)

text \<open>
  A conversation survives a restart: with local files, loading the key after a save and the loss of the process
  gives the same messages, metadata, creation time and count of consolidated messages. It rests on
  \<open>fromisoformat\<close> reading back what \<open>isoformat\<close> wrote and on no message being marked as metadata.
\<close>

theorem session_reload:
  assumes "sm_db m = None" and "sm_redis m = None" and "plain_messages s"
    and "tc_parse tc (tc_iso tc (ss_created s)) = Some (ss_created s)" and "tc_iso tc (ss_created s) \<noteq> []"
  shows "fst (get_or_create tc f2 now (ss_key s) (restart (save tc f s m))) = s\<lparr>ss_updated := now\<rparr>"
  using assms load_session_lines [of tc s now "ss_key s"]
  by (simp add: get_or_create_def redis_load_def load_session_def migrate_def sm_db_save Let_def)

definition sample_codec :: time_codec where
  "sample_codec = \<lparr>tc_iso = (\<lambda>t. [char_of (nat \<lfloor>t\<rfloor>)]), tc_parse = (\<lambda>s. Some (of_nat (of_char (hd s))))\<rparr>"

definition empty_manager :: manager where
  "empty_manager = \<lparr>sm_cache = [], sm_redis = None, sm_db = None, sm_files = [], sm_legacy = []\<rparr>"

definition no_faults :: faults where
  "no_faults = \<lparr>fl_redis = True, fl_db = True, fl_move = True\<rparr>"

lemma sample_codec_5: "tc_parse sample_codec (tc_iso sample_codec 5) = Some 5" "tc_iso sample_codec 5 \<noteq> []"
  by code_simp+

lemma session_reload_witness:
  "fst (get_or_create sample_codec no_faults 9 ''cli:direct'' (restart (save sample_codec no_faults sample_session empty_manager)))
   = sample_session\<lparr>ss_updated := 9\<rparr>"
  using session_reload [of empty_manager sample_session sample_codec no_faults 9 no_faults] sample_codec_5
  by (simp add: empty_manager_def sample_session_def plain_messages_def)

text \<open>
  Two conversations whose keys differ only in characters that file names replace share one file: the first to be
  saved is what the other one is loaded as, so its messages reach another chat, and saving the other one
  destroys it.
\<close>

theorem session_files_shared:
  assumes "session_path k = session_path (ss_key s)" and "k \<noteq> ss_key s"
    and "sm_db m = None" and "sm_redis m = None" and "plain_messages s"
    and "tc_parse tc (tc_iso tc (ss_created s)) = Some (ss_created s)" and "tc_iso tc (ss_created s) \<noteq> []"
    and "dget (sm_cache m) k = None"
  shows "fst (get_or_create tc f2 now k (save tc f s m)) = s\<lparr>ss_key := k, ss_updated := now\<rparr>
    \<and> dget (sm_files (save tc f3 (new_session t k) (save tc f s m))) (session_path (ss_key s)) = Some (session_lines tc (new_session t k))"
  using assms load_session_lines [of tc s now k]
  by (simp_all add: get_or_create_def redis_load_def load_session_def migrate_def sm_db_save new_session_def Let_def)

lemma session_files_shared_witness:
  "ss_messages (fst (get_or_create sample_codec no_faults 9 ''cli_direct'' (save sample_codec no_faults sample_session empty_manager)))
     = ss_messages sample_session \<and> ss_messages sample_session \<noteq> []"
proof -
  have p: "session_path ''cli_direct'' = session_path (ss_key sample_session)" by code_simp
  have "fst (get_or_create sample_codec no_faults 9 ''cli_direct'' (save sample_codec no_faults sample_session empty_manager))
      = sample_session\<lparr>ss_key := ''cli_direct'', ss_updated := 9\<rparr>"
    by (rule session_files_shared [THEN conjunct1, OF p])
      (simp_all add: empty_manager_def sample_session_def plain_messages_def sample_codec_5)
  then show ?thesis by (simp add: sample_session_def)
qed

text \<open>
  When the database refuses a save, the conversation goes to a file, but the row of an earlier save is what the
  next process finds: everything since that save is gone from the conversation, although it is on disk.
\<close>

theorem session_failover_stale:
  assumes "sm_db m = Some db" and "dget db (ss_key s) = Some old" and "sm_redis m = None"
    and "\<not> fl_db f" and "fl_db f2"
  shows "fst (get_or_create tc f2 now (ss_key s) (restart (save tc f s m))) = old
    \<and> dget (sm_files (save tc f s m)) (session_path (ss_key s)) = Some (session_lines tc s)"
  using assms by (simp_all add: get_or_create_def redis_load_def load_session_def sm_db_save Let_def)

lemma session_failover_stale_witness:
  "ss_messages (fst (get_or_create sample_codec no_faults 9 ''cli:direct''
     (restart (save sample_codec (no_faults\<lparr>fl_db := False\<rparr>) sample_session
        (empty_manager\<lparr>sm_db := Some [(''cli:direct'', new_session 1 ''cli:direct'')]\<rparr>))))) = []"
  using session_failover_stale [of "empty_manager\<lparr>sm_db := Some [(''cli:direct'', new_session 1 ''cli:direct'')]\<rparr>"
      "[(''cli:direct'', new_session 1 ''cli:direct'')]" sample_session "new_session 1 ''cli:direct''"
      "no_faults\<lparr>fl_db := False\<rparr>" no_faults sample_codec 9]
  by (simp add: sample_session_def new_session_def no_faults_def empty_manager_def)

end
