(* ===== verification/Message_Split.thy ===== *)
theory Message_Split
  imports Sessions
begin

text \<open>
  \<open>split_message\<close> of \<open>utils/helpers.py\<close>, with which every channel cuts a reply to the length its platform takes. The
  loop need not end for a length of zero, so it is a partial function.
\<close>

definition rfind_char :: "char \<Rightarrow> string \<Rightarrow> int" where
  "rfind_char c s = (if c \<in> set s then int (length s) - 1 - int (length (takeWhile (\<lambda>x. x \<noteq> c) (rev s))) else -1)"

definition lstrip :: "string \<Rightarrow> string" where
  "lstrip s = dropWhile is_blank s"

text \<open>Where to cut: at the last line break of the first \<open>n\<close> characters, at the last blank, or after them.\<close>

definition cut_pos :: "int \<Rightarrow> string \<Rightarrow> int" where
  "cut_pos n s =
     (let cut = py_slice 0 n s; p = rfind_char (CHR 0x0A) cut
      in if p > 0 then p else (let q = rfind_char (CHR '' '') cut in if q > 0 then q else n))"

partial_function (option) split_rest :: "int \<Rightarrow> string \<Rightarrow> string list option" where
  "split_rest n s =
     (if s = [] then Some []
      else if int (length s) \<le> n then Some [s]
      else Option.bind (split_rest n (lstrip (slice_from (cut_pos n s) s)))
             (\<lambda>cs. Some (py_slice 0 (cut_pos n s) s # cs)))"

definition split_message :: "int \<Rightarrow> string \<Rightarrow> string list option" where
  "split_message n s =
     (if s = [] then Some [] else if int (length s) \<le> n then Some [s] else split_rest n s)"

lemma rfind_char_less: "rfind_char c s < int (length s)"
  by (simp add: rfind_char_def)

lemma cut_pos_range: "0 < n \<Longrightarrow> n < int (length s) \<Longrightarrow> 0 < cut_pos n s \<and> cut_pos n s \<le> n"
  using rfind_char_less [of "CHR 0x0A" "py_slice 0 n s"] rfind_char_less [of "CHR '' ''" "py_slice 0 n s"]
  by (auto simp: cut_pos_def Let_def py_slice_def py_bound_def)

text \<open>The text is the chunks with blanks between and after them.\<close>

fun pieces :: "string list \<Rightarrow> string list \<Rightarrow> string" where
  "pieces (c # cs) (g # gs) = c @ g @ pieces cs gs"
| "pieces _ _ = []"

lemma split_rest_total:
  assumes "0 < n"
  shows "\<exists>cs gs. split_rest n s = Some cs \<and> length gs = length cs \<and> s = pieces cs gs
    \<and> (\<forall>c \<in> set cs. c \<noteq> [] \<and> int (length c) \<le> n) \<and> (\<forall>g \<in> set gs. \<forall>x \<in> set g. is_blank x)"
proof (induction s rule: length_induct)
  case (1 s)
  consider "s = []" | "s \<noteq> []" "int (length s) \<le> n" | "n < int (length s)" by linarith
  then show ?case
  proof cases
    case 1
    then have "split_rest n s = Some []" by (simp add: split_rest.simps [of n "[]"])
    with 1 show ?thesis by simp
  next
    case 2
    then show ?thesis by (intro exI [of _ "[s]"] exI [of _ "[[]]"]) (simp add: split_rest.simps [of n s])
  next
    case 3
    let ?k = "nat (cut_pos n s)" and ?r = "drop (nat (cut_pos n s)) s"
    have k: "0 < ?k" "?k \<le> nat n" "?k \<le> length s" using cut_pos_range [OF assms 3] 3 by auto
    have sl: "py_slice 0 (cut_pos n s) s = take ?k s" "slice_from (cut_pos n s) s = ?r"
      using cut_pos_range [OF assms 3] 3 by (simp_all add: py_slice_def slice_from_def py_bound_def min_def)
    have split: "?r = takeWhile is_blank ?r @ lstrip ?r" by (simp add: lstrip_def)
    have "length (lstrip ?r) \<le> length ?r" unfolding lstrip_def by (rule length_dropWhile_le)
    also have "\<dots> < length s" using k by simp
    finally obtain cs gs where r: "split_rest n (lstrip ?r) = Some cs" "length gs = length cs" "lstrip ?r = pieces cs gs"
      "\<forall>c \<in> set cs. c \<noteq> [] \<and> int (length c) \<le> n" "\<forall>g \<in> set gs. \<forall>x \<in> set g. is_blank x"
      using "1.IH" by blast
    have "split_rest n s = Some (take ?k s # cs)" using 3 k r(1) sl by (auto simp: split_rest.simps [of n s])
    moreover have "s = pieces (take ?k s # cs) (takeWhile is_blank ?r # gs)"
    proof -
      have "s = take ?k s @ ?r" by simp
      also have "\<dots> = take ?k s @ takeWhile is_blank ?r @ lstrip ?r" by (subst split) (rule refl)
      finally show ?thesis using r(3) by simp
    qed
    moreover have "take ?k s \<noteq> [] \<and> int (length (take ?k s)) \<le> n" using k by auto
    ultimately show ?thesis using r(2,4,5)
      by (intro exI [of _ "take ?k s # cs"] exI [of _ "takeWhile is_blank ?r # gs"]) (auto dest: set_takeWhileD)
  qed
qed

text \<open>
  Splitting a message ends for every positive length and loses nothing but blanks: every chunk is non-empty and within the
  length, and the text is the chunks in their order with only blanks dropped between and after them.
\<close>

theorem split_message_total:
  assumes "0 < n"
  shows "\<exists>cs gs. split_message n s = Some cs \<and> length gs = length cs \<and> s = pieces cs gs
    \<and> (\<forall>c \<in> set cs. c \<noteq> [] \<and> int (length c) \<le> n) \<and> (\<forall>g \<in> set gs. \<forall>x \<in> set g. is_blank x)"
proof -
  have "split_message n s = split_rest n s" using assms by (simp add: split_message_def split_rest.simps [of n s])
  with split_rest_total [OF assms, of s] show ?thesis by simp
qed

lemma split_message_total_witness:
  "split_message 5 ''ab cd efghijk'' = Some [''ab'', ''cd'', ''efghi'', ''jk'']
   \<and> (\<exists>gs. ''ab cd efghijk'' = pieces [''ab'', ''cd'', ''efghi'', ''jk''] gs)"
proof -
  have r: "split_rest 5 ''jk'' = Some [''jk'']" by (simp add: split_rest.simps [of 5 "''jk''"])
  have "split_message 5 ''ab cd efghijk'' = Some [''ab'', ''cd'', ''efghi'', ''jk'']"
    by (simp add: split_message_def split_rest.simps [of 5] cut_pos_def rfind_char_def lstrip_def is_blank_def py_slice_def slice_from_def py_bound_def r)
  with split_message_total [of 5 "''ab cd efghijk''"] show ?thesis by auto
qed

end
