(* ===== verification/Agent_Memory.thy ===== *)
theory Agent_Memory
  imports Sessions
begin

text \<open>
  \<open>agent/memory.py\<close>: the two-layer memory of the agent, \<open>MEMORY.md\<close> and the log \<open>HISTORY.md\<close>, and the consolidation of
  old messages into them by a call of the model. The call suspends the coroutine, so consolidation is
  two steps: what is done before the call and what is done with the reply, on the session and the files
  as they are then. \<open>str\<close> of a JSON value, \<open>json.dumps\<close> and \<open>json.loads\<close> are parameters.
\<close>

section \<open>Files\<close>

record memory_files =
  mm_memory :: "string option"
  mm_history :: string
  mm_feedback :: "string option"

definition no_memory :: memory_files where
  "no_memory = \<lparr>mm_memory = None, mm_history = [], mm_feedback = None\<rparr>"

definition nl :: string where
  "nl = [CHR 0x0A]"

definition rstrip :: "string \<Rightarrow> string" where
  "rstrip s = rev (dropWhile is_blank (rev s))"

definition read_long_term :: "memory_files \<Rightarrow> string" where
  "read_long_term mm = (case mm_memory mm of None \<Rightarrow> [] | Some t \<Rightarrow> t)"

definition write_long_term :: "string \<Rightarrow> memory_files \<Rightarrow> memory_files" where
  "write_long_term t mm = mm\<lparr>mm_memory := Some t\<rparr>"

definition append_history :: "string \<Rightarrow> memory_files \<Rightarrow> memory_files" where
  "append_history e mm = mm\<lparr>mm_history := mm_history mm @ rstrip e @ nl @ nl\<rparr>"

definition append_feedback :: "string \<Rightarrow> memory_files \<Rightarrow> memory_files" where
  "append_feedback t mm = mm\<lparr>mm_feedback := Some ((case mm_feedback mm of None \<Rightarrow> [] | Some x \<Rightarrow> x)
      @ ''- '' @ rstrip t @ nl)\<rparr>"

definition read_feedback :: "memory_files \<Rightarrow> string" where
  "read_feedback mm = (case mm_feedback mm of None \<Rightarrow> [] | Some t \<Rightarrow> t)"

definition get_memory_context :: "memory_files \<Rightarrow> string" where
  "get_memory_context mm =
     (if read_long_term mm \<noteq> [] then ''## Long-term Memory'' @ nl @ read_long_term mm @ nl @ nl else []) @
     (if read_feedback mm \<noteq> [] then ''## User Feedback & Self-Improvement'' @ nl @ read_feedback mm @ nl @ nl else [])"

section \<open>Consolidation\<close>

record text_env =
  te_str :: "json \<Rightarrow> string"
  te_dumps :: "json \<Rightarrow> string"
  te_loads :: "string \<Rightarrow> json option"

text \<open>Which messages are consolidated and how many are kept; \<open>None\<close> when there is nothing to do.\<close>

definition keep_count :: "bool \<Rightarrow> int \<Rightarrow> int" where
  "keep_count archive window = (if archive then 0 else window div 2)"

definition select_old :: "bool \<Rightarrow> int \<Rightarrow> session \<Rightarrow> msg list option" where
  "select_old archive window s =
     (if archive then Some (ss_messages s)
      else if int (length (ss_messages s)) \<le> keep_count archive window then None
      else if int (length (ss_messages s)) - ss_last s \<le> 0 then None
      else let old = py_slice (ss_last s) (- keep_count archive window) (ss_messages s)
           in if old = [] then None else Some old)"

text \<open>One line of the conversation; a missing role or a value of the wrong type raises.\<close>

definition upper_char :: "char \<Rightarrow> char" where
  "upper_char c = (let n = (of_char c :: nat) in if 97 \<le> n \<and> n \<le> 122 then char_of (n - 32) else c)"

fun join :: "string \<Rightarrow> string list \<Rightarrow> string" where
  "join sep [] = []"
| "join sep [x] = x"
| "join sep (x # y # xs) = x @ sep @ join sep (y # xs)"

fun str_items :: "json list \<Rightarrow> string list option" where
  "str_items [] = Some []"
| "str_items (JStr s # xs) = map_option ((#) s) (str_items xs)"
| "str_items _ = None"

fun joined :: "json \<Rightarrow> string option" where
  "joined (JList xs) = map_option (join '', '') (str_items xs)"
| "joined (JStr s) = Some (join '', '' (map (\<lambda>c. [c]) s))"
| "joined (JObj d) = Some (join '', '' (dkeys d))"
| "joined _ = None"

definition tools_text :: "msg \<Rightarrow> string option" where
  "tools_text m = (if truthy (dgetd m ''tools_used'' JNull)
     then map_option (\<lambda>t. '' [tools: '' @ t @ '']'') (joined (dgetd m ''tools_used'' JNull)) else Some [])"

fun stamp_text :: "text_env \<Rightarrow> json \<Rightarrow> string option" where
  "stamp_text te (JStr t) = Some (take 16 t)"
| "stamp_text te (JList xs) = Some (te_str te (JList (take 16 xs)))"
| "stamp_text te _ = None"

fun str_of :: "text_env \<Rightarrow> json \<Rightarrow> string" where
  "str_of te (JStr s) = s"
| "str_of te j = te_str te j"

definition memory_line :: "text_env \<Rightarrow> msg \<Rightarrow> string option" where
  "memory_line te m =
     (case (tools_text m, stamp_text te (dgetd m ''timestamp'' (JStr ''?'')), dget m ''role'') of
        (Some tools, Some stamp, Some (JStr role)) \<Rightarrow>
          Some (''['' @ stamp @ ''] '' @ map upper_char role @ tools @ '': '' @ str_of te (dgetd m ''content'' JNull))
      | _ \<Rightarrow> None)"

fun memory_lines :: "text_env \<Rightarrow> msg list \<Rightarrow> string list option" where
  "memory_lines te [] = Some []"
| "memory_lines te (m # ms) =
     (if \<not> truthy (dgetd m ''content'' JNull) then memory_lines te ms
      else case memory_line te m of None \<Rightarrow> None | Some l \<Rightarrow> map_option ((#) l) (memory_lines te ms))"

definition memory_prompt :: "string \<Rightarrow> string list \<Rightarrow> string" where
  "memory_prompt current ls =
     ''Process this conversation and call the save_memory tool with your consolidation.'' @ nl @ nl @
     ''## Current Long-term Memory'' @ nl @ (if current = [] then ''(empty)'' else current) @ nl @ nl @
     ''## Conversation to Process'' @ nl @ join nl ls"

text \<open>What the coroutine holds while it waits for the reply.\<close>

record pending_call =
  pe_old :: "msg list"
  pe_prompt :: string
  pe_current :: string
  pe_archive :: bool
  pe_keep :: int

datatype begun = NothingToDo | MemoryRaises | Waiting (the_pending: pending_call)

definition consolidate_begin :: "text_env \<Rightarrow> bool \<Rightarrow> int \<Rightarrow> session \<Rightarrow> memory_files \<Rightarrow> begun" where
  "consolidate_begin te archive window s mm =
     (case select_old archive window s of
        None \<Rightarrow> NothingToDo
      | Some old \<Rightarrow>
          (case memory_lines te old of
             None \<Rightarrow> MemoryRaises
           | Some ls \<Rightarrow> Waiting \<lparr>pe_old = old, pe_prompt = memory_prompt (read_long_term mm) ls, pe_current = read_long_term mm,
               pe_archive = archive, pe_keep = keep_count archive window\<rparr>))"

datatype llm_reply = CallRaises | NoToolCalls | ToolArgs json

fun reply_args :: "text_env \<Rightarrow> llm_reply \<Rightarrow> msg option" where
  "reply_args te CallRaises = None"
| "reply_args te NoToolCalls = None"
| "reply_args te (ToolArgs a) =
     (case (case a of JStr t \<Rightarrow> te_loads te t | _ \<Rightarrow> Some a) of
        Some (JObj d) \<Rightarrow> Some d
      | Some (JList (JObj d # _)) \<Rightarrow> Some d
      | _ \<Rightarrow> None)"

fun as_text :: "text_env \<Rightarrow> json \<Rightarrow> string" where
  "as_text te (JStr s) = s"
| "as_text te j = te_dumps te j"

definition write_memory :: "text_env \<Rightarrow> string \<Rightarrow> msg \<Rightarrow> memory_files \<Rightarrow> memory_files" where
  "write_memory te current d mm =
     (let e = dgetd d ''history_entry'' JNull; u = dgetd d ''memory_update'' JNull;
          mm = (if truthy e then append_history (as_text te e) mm else mm)
      in if truthy u \<and> as_text te u \<noteq> current then write_long_term (as_text te u) mm else mm)"

definition consolidate_end ::
  "text_env \<Rightarrow> pending_call \<Rightarrow> llm_reply \<Rightarrow> session \<Rightarrow> memory_files \<Rightarrow> bool \<times> session \<times> memory_files" where
  "consolidate_end te p r s mm =
     (case reply_args te r of
        None \<Rightarrow> (False, s, mm)
      | Some d \<Rightarrow> (True, s\<lparr>ss_last := (if pe_archive p then 0 else int (length (ss_messages s)) - pe_keep p)\<rparr>,
                   write_memory te (pe_current p) d mm))"

text \<open>The whole of \<open>consolidate\<close> when nothing else runs during the call; \<open>None\<close> is an exception.\<close>

definition consolidate ::
  "text_env \<Rightarrow> (string \<Rightarrow> llm_reply) \<Rightarrow> bool \<Rightarrow> int \<Rightarrow> session \<Rightarrow> memory_files \<Rightarrow> (bool \<times> session \<times> memory_files) option" where
  "consolidate te ask archive window s mm =
     (case consolidate_begin te archive window s mm of
        NothingToDo \<Rightarrow> Some (True, s, mm)
      | MemoryRaises \<Rightarrow> None
      | Waiting p \<Rightarrow> Some (consolidate_end te p (ask (pe_prompt p)) s mm))"

section \<open>What consolidation keeps\<close>

definition session_ok :: "session \<Rightarrow> bool" where
  "session_ok s = (0 \<le> ss_last s \<and> ss_last s \<le> int (length (ss_messages s)))"

lemma unconsolidated_drop: "session_ok s \<Longrightarrow> unconsolidated s = drop (nat (ss_last s)) (ss_messages s)"
  by (auto simp: unconsolidated_def slice_from_def py_bound_def session_ok_def min_def)

lemma begin_waiting:
  assumes "consolidate_begin te False window s mm = Waiting p"
  shows "select_old False window s = Some (pe_old p) \<and> pe_keep p = window div 2 \<and> \<not> pe_archive p
    \<and> pe_current p = read_long_term mm \<and> (\<exists>ls. memory_lines te (pe_old p) = Some ls \<and> pe_prompt p = memory_prompt (read_long_term mm) ls)"
  using assms by (auto simp: consolidate_begin_def keep_count_def split: option.splits)

lemma py_bound_neg: "0 < k \<Longrightarrow> k < int n \<Longrightarrow> py_bound (- k) n = n - nat k"
  by (auto simp: py_bound_def)

lemma py_bound_pos: "0 \<le> k \<Longrightarrow> k \<le> int n \<Longrightarrow> py_bound k n = nat k"
  by (auto simp: py_bound_def min_def)

lemma select_old_drop:
  assumes "select_old False window s = Some old" and "session_ok s" and "0 \<le> window"
  shows "0 < window div 2" and "window div 2 < int (length (ss_messages s))"
    and "old = drop (nat (ss_last s)) (take (length (ss_messages s) - nat (window div 2)) (ss_messages s))"
    and "nat (ss_last s) < length (ss_messages s) - nat (window div 2)"
proof -
  let ?k = "window div 2" and ?n = "length (ss_messages s)"
  have o: "old = py_slice (ss_last s) (- ?k) (ss_messages s)" "old \<noteq> []" and n: "?k < int ?n"
    using assms(1) by (auto simp: select_old_def keep_count_def Let_def split: if_splits)
  have "?k \<noteq> 0"
  proof
    assume "?k = 0"
    with o show False by (simp add: py_slice_def py_bound_def)
  qed
  then show k: "0 < ?k" using assms(3) by linarith
  show "?k < int ?n" by (rule n)
  have "py_bound (- ?k) ?n = ?n - nat ?k" by (rule py_bound_neg [OF k n])
  moreover have "py_bound (ss_last s) ?n = nat (ss_last s)" using assms(2) by (simp add: session_ok_def py_bound_pos)
  ultimately show d: "old = drop (nat (ss_last s)) (take (?n - nat ?k) (ss_messages s))"
    unfolding o(1) py_slice_def by (rule arg_cong2 [of _ _ _ _ "\<lambda>i j. drop j (take i (ss_messages s))"])
  show "nat (ss_last s) < ?n - nat ?k" using o(2) d by (cases "nat (ss_last s) < ?n - nat ?k") auto
qed

lemma end_waiting:
  assumes "consolidate_end te p r s mm = (True, s', mm')" and "\<not> pe_archive p"
  shows "ss_messages s' = ss_messages s \<and> ss_last s' = int (length (ss_messages s)) - pe_keep p"
  using assms by (auto simp: consolidate_end_def split: option.splits)

lemma drop_take_split: "i \<le> j \<Longrightarrow> drop i xs = drop i (take j xs) @ drop j xs"
proof -
  assume "i \<le> j"
  have "drop i (take j xs @ drop j xs) = drop i (take j xs) @ drop j xs"
    unfolding drop_append using \<open>i \<le> j\<close> by (cases "j \<le> length xs") auto
  then show ?thesis by simp
qed

lemma consolidate_race:
  assumes "session_ok s" and "0 \<le> window" and "consolidate_begin te False window s mm = Waiting p"
    and "s1 = s\<lparr>ss_messages := ss_messages s @ extra\<rparr>"
    and "consolidate_end te p r s1 mm1 = (True, s2, mm2)"
  shows "\<exists>lost. unconsolidated s @ extra = pe_old p @ lost @ unconsolidated s2
    \<and> lost = take (length extra) (drop (length (ss_messages s) - nat (window div 2)) (ss_messages s @ extra))
    \<and> length lost = length extra \<and> int (length (unconsolidated s2)) = window div 2 \<and> session_ok s2"
proof -
  note b = begin_waiting [OF assms(3)]
  note o = select_old_drop [OF conjunct1 [OF b] assms(1,2)]
  obtain k where k: "window div 2 = int k" using o(1) by (metis zero_less_imp_eq_int)
  let ?n = "length (ss_messages s)" and ?l = "nat (ss_last s)" and ?e = "length extra" and ?all = "ss_messages s @ extra"
  have kn: "k < ?n" "?l < ?n - k" using o(2,4) unfolding k by simp_all
  have s2: "ss_messages s2 = ?all" "ss_last s2 = int (?n + ?e) - int k"
    using end_waiting [OF assms(5)] b assms(4) k by auto
  have ok2: "session_ok s2" using s2 kn(1) by (simp add: session_ok_def)
  have "nat (int (?n + ?e) - int k) = ?n - k + ?e" using kn(1) by linarith
  then have u2: "unconsolidated s2 = drop (?n - k + ?e) ?all" using unconsolidated_drop [OF ok2] s2 by simp
  let ?lost = "take ?e (drop (?n - k) ?all)"
  have "unconsolidated s @ extra = drop ?l ?all" using kn unconsolidated_drop [OF assms(1)] by simp
  also have "\<dots> = drop ?l (take (?n - k) ?all) @ drop (?n - k) ?all" using kn(2) by (intro drop_take_split) simp
  also have "drop (?n - k) ?all = ?lost @ unconsolidated s2"
    unfolding u2 add.commute [of "?n - k" ?e] drop_drop [symmetric] by (rule append_take_drop_id [symmetric])
  also have "drop ?l (take (?n - k) ?all) = pe_old p" using o(3) unfolding k by simp
  finally have "unconsolidated s @ extra = pe_old p @ ?lost @ unconsolidated s2" .
  moreover have "?lost = take ?e (drop (?n - nat (window div 2)) ?all)" by (simp add: k)
  moreover have "length ?lost = ?e" using kn(1) by simp
  moreover have "int (length (unconsolidated s2)) = window div 2" unfolding k u2 using kn(1) by simp
  ultimately show ?thesis using ok2 by blast
qed

lemma consolidate_atomic:
  assumes "session_ok s" and "0 \<le> window" and "consolidate te ask False window s mm = Some (b, s2, mm2)"
  shows "session_ok s2 \<and> ss_messages s2 = ss_messages s \<and> ss_key s2 = ss_key s
    \<and> (\<exists>old. unconsolidated s = old @ unconsolidated s2 \<and> (old = [] \<or> (\<exists>ls. memory_lines te old = Some ls)))"
proof (cases "consolidate_begin te False window s mm")
  case (Waiting p)
  then have e: "consolidate_end te p (ask (pe_prompt p)) s mm = (b, s2, mm2)" using assms(3) by (simp add: consolidate_def)
  show ?thesis
  proof (cases b)
    case True
    have s1: "s = s\<lparr>ss_messages := ss_messages s @ []\<rparr>" by simp
    from consolidate_race [OF assms(1,2) Waiting s1 e [unfolded eqTrueI [OF True]]]
    obtain lost where "unconsolidated s @ [] = pe_old p @ lost @ unconsolidated s2" "length lost = length ([] :: msg list)" "session_ok s2" by blast
    moreover have "ss_messages s2 = ss_messages s \<and> ss_key s2 = ss_key s" using e by (auto simp: consolidate_end_def split: option.splits)
    ultimately show ?thesis using begin_waiting [OF Waiting] by auto
  next
    case False
    then have "s2 = s" using e by (auto simp: consolidate_end_def split: option.splits)
    with assms(1) show ?thesis by simp
  qed
qed (use assms in \<open>auto simp: consolidate_def\<close>)

definition plain_env :: text_env where
  "plain_env = \<lparr>te_str = (\<lambda>_. ''obj''), te_dumps = (\<lambda>_. ''json''), te_loads = (\<lambda>_. None)\<rparr>"

definition turn_msg :: "string \<Rightarrow> string \<Rightarrow> msg" where
  "turn_msg role t = [(''role'', JStr role), (''content'', JStr t)]"

definition three_turns :: session where
  "three_turns = (new_session 0 ''cli:direct'')\<lparr>ss_messages := [turn_msg ''user'' ''a'', turn_msg ''assistant'' ''b'', turn_msg ''user'' ''c'']\<rparr>"

definition summary :: llm_reply where
  "summary = ToolArgs (JObj [(''history_entry'', JStr ''h''), (''memory_update'', JStr ''m'')])"

lemma sublist_end: "sublist l (x @ l)"
  unfolding sublist_def by (rule exI [of _ x], rule exI [of _ "[]"]) simp

lemma sublist_in: "sublist l m \<Longrightarrow> sublist l (x @ m @ y)"
  unfolding sublist_def by (metis append.assoc)

lemma memory_line_content:
  assumes "memory_line te m = Some l"
  shows "sublist (str_of te (dgetd m ''content'' JNull)) l"
proof -
  from assms obtain tools stamp role where
    "l = (''['' @ stamp @ ''] '' @ map upper_char role @ tools @ '': '') @ str_of te (dgetd m ''content'' JNull)"
    by (auto simp: memory_line_def split: option.splits json.splits)
  then show ?thesis by (metis sublist_end)
qed

lemma memory_lines_content:
  assumes "memory_lines te ms = Some ls" and "m \<in> set ms" and "truthy (dgetd m ''content'' JNull)"
  shows "\<exists>l \<in> set ls. sublist (str_of te (dgetd m ''content'' JNull)) l"
  using assms
proof (induction ms arbitrary: ls)
  case (Cons x ms)
  then show ?case using memory_line_content by (fastforce split: if_splits option.splits)
qed simp

lemma sublist_join: "l \<in> set ls \<Longrightarrow> sublist l (join sep ls)"
proof (induction sep ls rule: join.induct)
  case (3 sep x y xs)
  show ?case
  proof (cases "l = x")
    case True
    then show ?thesis using sublist_in [of l l "[]"] by simp
  next
    case False
    with 3 show ?thesis using sublist_in [of l "join sep (y # xs)" "x @ sep" "[]"] by simp
  qed
qed simp_all

text \<open>
  C22. A consolidation against messages that arrive while the model is asked. The prompt shows the content of every
  message that is consolidated. When \<open>k\<close> messages are appended to the session between the prompt and the reply, a
  successful consolidation keeps the last \<open>memory_window // 2\<close> messages and moves the start of the history past
  exactly \<open>k\<close> messages the prompt did not contain, the oldest of those that were to be kept and of the new ones: they are
  neither consolidated nor shown any more. With \<open>k = 0\<close> nothing is lost: what is shown before is what was
  consolidated followed by what is shown after.
\<close>

theorem consolidate_race_loses:
  assumes "session_ok s" and "0 \<le> window" and "consolidate_begin te False window s mm = Waiting p"
    and "s1 = s\<lparr>ss_messages := ss_messages s @ extra\<rparr>"
    and "consolidate_end te p r s1 mm1 = (True, s2, mm2)"
  shows "(\<forall>m \<in> set (pe_old p). truthy (dgetd m ''content'' JNull) \<longrightarrow> sublist (str_of te (dgetd m ''content'' JNull)) (pe_prompt p))
    \<and> (\<exists>lost. unconsolidated s @ extra = pe_old p @ lost @ unconsolidated s2
        \<and> lost = take (length extra) (drop (length (ss_messages s) - nat (window div 2)) (ss_messages s @ extra))
        \<and> length lost = length extra \<and> int (length (unconsolidated s2)) = window div 2 \<and> session_ok s2)"
proof
  from begin_waiting [OF assms(3)] obtain ls where ls: "memory_lines te (pe_old p) = Some ls"
    "pe_prompt p = memory_prompt (read_long_term mm) ls" by blast
  obtain start where start: "memory_prompt (read_long_term mm) ls = start @ join nl ls"
    unfolding memory_prompt_def append.assoc [symmetric] by blast
  have l: "sublist l (pe_prompt p)" if "l \<in> set ls" for l
    using sublist_in [OF sublist_join [OF that, of nl], of start "[]"] unfolding ls(2) start by simp
  from memory_lines_content [OF ls(1)] sublist_order.order.trans [OF _ l]
  show "\<forall>m \<in> set (pe_old p). truthy (dgetd m ''content'' JNull) \<longrightarrow> sublist (str_of te (dgetd m ''content'' JNull)) (pe_prompt p)" by blast
  show "\<exists>lost. unconsolidated s @ extra = pe_old p @ lost @ unconsolidated s2
      \<and> lost = take (length extra) (drop (length (ss_messages s) - nat (window div 2)) (ss_messages s @ extra))
      \<and> length lost = length extra \<and> int (length (unconsolidated s2)) = window div 2 \<and> session_ok s2"
    by (rule consolidate_race [OF assms])
qed

lemma consolidate_race_loses_witness:
  "let p = the_pending (consolidate_begin plain_env False 2 three_turns no_memory);
       s1 = three_turns\<lparr>ss_messages := ss_messages three_turns @ [turn_msg ''assistant'' ''d'']\<rparr>;
       s2 = fst (snd (consolidate_end plain_env p summary s1 no_memory))
   in sublist ''a'' (pe_prompt p) \<and> (\<exists>lost. ss_messages s1 = pe_old p @ lost @ unconsolidated s2 \<and> lost = [turn_msg ''user'' ''c''])"
proof -
  define p where "p = the_pending (consolidate_begin plain_env False 2 three_turns no_memory)"
  define s1 where "s1 = three_turns\<lparr>ss_messages := ss_messages three_turns @ [turn_msg ''assistant'' ''d'']\<rparr>"
  define s2 where "s2 = fst (snd (consolidate_end plain_env p summary s1 no_memory))"
  have ok: "session_ok three_turns" by code_simp
  have w: "consolidate_begin plain_env False 2 three_turns no_memory = Waiting p" unfolding p_def by code_simp
  have e: "consolidate_end plain_env p summary s1 no_memory = (True, s2, snd (snd (consolidate_end plain_env p summary s1 no_memory)))"
    unfolding s2_def by (simp add: consolidate_end_def summary_def)
  from consolidate_race_loses [OF ok _ w s1_def e] obtain lost where
    l: "unconsolidated three_turns @ [turn_msg ''assistant'' ''d''] = pe_old p @ lost @ unconsolidated s2" "lost = [turn_msg ''user'' ''c'']"
    by (auto simp: three_turns_def)
  have "turn_msg ''user'' ''a'' \<in> set (pe_old p)" unfolding p_def by code_simp
  with consolidate_race_loses [OF ok _ w s1_def e] have "sublist ''a'' (pe_prompt p)"
    by (auto simp: turn_msg_def dgetd_def)
  moreover have "unconsolidated three_turns = ss_messages three_turns" by code_simp
  ultimately show ?thesis using l by (auto simp: Let_def p_def s1_def s2_def)
qed

text \<open>
  Consolidations of two conversations run side by side, since the lock is per conversation, but they share one
  \<open>MEMORY.md\<close>: when both have read it before either has written, the update of the first to finish is gone
  afterwards, while both conversations have moved past the messages it was made from.
\<close>

theorem memory_update_lost:
  assumes "consolidate_begin te False wa a mm = Waiting pa" and "consolidate_begin te False wb b mm = Waiting pb"
    and "reply_args te ra = Some da" and "reply_args te rb = Some db"
    and "dget da ''memory_update'' = Some (JStr ua)" and "dget db ''memory_update'' = Some (JStr ub)"
    and "ua \<noteq> []" and "ub \<noteq> []" and "ub \<noteq> read_long_term mm"
  shows "let (fa, a', mma) = consolidate_end te pa ra a mm; (fb, b', mmb) = consolidate_end te pb rb b mma
     in fa \<and> fb \<and> read_long_term mma = ua \<and> read_long_term mmb = ub
       \<and> ss_last a' = int (length (ss_messages a)) - wa div 2 \<and> ss_last b' = int (length (ss_messages b)) - wb div 2"
  using assms(3-) begin_waiting [OF assms(1)] begin_waiting [OF assms(2)]
  by (auto simp: consolidate_end_def write_memory_def dgetd_def read_long_term_def write_long_term_def append_history_def Let_def)

definition summary2 :: llm_reply where
  "summary2 = ToolArgs (JList [JObj [(''memory_update'', JStr ''other'')]])"

lemma memory_update_lost_witness:
  "let p = the_pending (consolidate_begin plain_env False 2 three_turns no_memory);
       (fa, a', mma) = consolidate_end plain_env p summary three_turns no_memory;
       (fb, b', mmb) = consolidate_end plain_env p summary2 three_turns mma
   in fa \<and> fb \<and> read_long_term mma = ''m'' \<and> read_long_term mmb = ''other'' \<and> ss_last a' = 2"
proof -
  define p where "p = the_pending (consolidate_begin plain_env False 2 three_turns no_memory)"
  have w: "consolidate_begin plain_env False 2 three_turns no_memory = Waiting p" unfolding p_def by code_simp
  have "length (ss_messages three_turns) = 3" by code_simp
  with memory_update_lost [OF w w, of summary _ summary2 _ "''m''" "''other''"] show ?thesis
    unfolding p_def [symmetric] Let_def
    by (simp add: summary_def summary2_def no_memory_def read_long_term_def case_prod_beta)
qed

end
