(* ===== verification/Reflection.thy ===== *)
theory Reflection
  imports Agent_Memory
begin

text \<open>
  \<open>agent/learning_loop.py\<close>: the reflector that asks a model whether a conversation satisfied its request, and the
  refinement cycle built on it. The model, the redaction of secrets, the validation of the reply by
  Pydantic and the text of an exception are parameters.
\<close>

section \<open>Text blocks\<close>

text \<open>The text before and after the first occurrence of \<open>p\<close>.\<close>

fun split_at :: "string \<Rightarrow> string \<Rightarrow> (string \<times> string) option" where
  "split_at p [] = (if p = [] then Some ([], []) else None)"
| "split_at p (c # cs) =
     (if startswith (c # cs) p then Some ([], drop (length p) (c # cs))
      else map_option (\<lambda>(a, b). (c # a, b)) (split_at p cs))"

lemma split_at_Some: "split_at p s = Some (a, b) \<Longrightarrow> s = a @ p @ b"
proof (induction s arbitrary: a)
  case (Cons c s)
  then show ?case
    by (cases "startswith (c # s) p") (auto simp: startswith_def, metis append_take_drop_id)
qed (auto split: if_splits)

lemma split_at_None: "split_at p s = None \<longleftrightarrow> \<not> str_in p s"
  by (induction s) (auto simp: startswith_def)

text \<open>
  \<open>re.sub\<close> of \<open>open.*?close\<close> with the empty string, and with \<open>open.*?(close|$)\<close> when \<open>e\<close> is set: each block goes up
  to its first end. With \<open>e\<close> the code strips the result, so that a final line break that \<open>$\<close> leaves
  makes no difference.
\<close>

function remove_blocks :: "bool \<Rightarrow> string \<Rightarrow> string \<Rightarrow> string \<Rightarrow> string" where
  "remove_blocks e op cl s =
     (if op = [] then s
      else case split_at op s of
        None \<Rightarrow> s
      | Some (a, r) \<Rightarrow>
          (case split_at cl r of
             Some (_, r') \<Rightarrow> a @ remove_blocks e op cl r'
           | None \<Rightarrow> if e then a else s))"
  by pat_completeness auto
termination
proof (relation "measure (\<lambda>(e, op, cl, s). length s)", simp)
  fix e :: bool and op cl s :: string and p q :: "string \<times> string" and a r b r' :: string
  assume "op \<noteq> []" "split_at op s = Some p" "(a, r) = p" "split_at cl r = Some q" "(b, r') = q"
  then have "split_at op s = Some (a, r)" "split_at cl r = Some (b, r')" by simp_all
  from split_at_Some [OF this(1)] split_at_Some [OF this(2)] \<open>op \<noteq> []\<close>
  show "((e, op, cl, r'), e, op, cl, s) \<in> measure (\<lambda>(e, op, cl, s). length s)" by simp
qed

declare remove_blocks.simps [simp del]

text \<open>The text of the first block, as \<open>re.search\<close> finds it.\<close>

definition first_block :: "bool \<Rightarrow> string \<Rightarrow> string \<Rightarrow> string \<Rightarrow> string option" where
  "first_block e op cl s =
     (case split_at op s of
        None \<Rightarrow> None
      | Some (a, r) \<Rightarrow> (case split_at cl r of Some (b, _) \<Rightarrow> Some b | None \<Rightarrow> if e then Some r else None))"

lemma remove_blocks_free: "op \<noteq> [] \<Longrightarrow> \<not> str_in op s \<Longrightarrow> remove_blocks e op cl s = s"
  by (simp add: remove_blocks.simps [of e op cl s] flip: split_at_None)

lemma remove_blocks_open:
  assumes "op \<noteq> []" and "split_at op s = Some (a, r)" and "split_at cl r = None"
  shows "remove_blocks True op cl s = a"
  using assms by (simp add: remove_blocks.simps [of True op cl s])

section \<open>The reflector\<close>

record reflection =
  rr_success :: bool
  rr_score :: pyfloat
  rr_critique :: string
  rr_missing :: "string list"
  rr_steps :: "string list"

text \<open>
  \<open>rf_chat\<close> asks the model: the content of the reply, or \<open>None\<close> when the call raises; \<open>rf_exc\<close> is the text of
  the exception that made the reflection fail.
\<close>

record 'w reflector =
  rf_chat :: "string \<Rightarrow> 'w \<Rightarrow> string option option \<times> 'w"
  rf_redact :: "string \<Rightarrow> string"
  rf_validate :: "msg \<Rightarrow> reflection option"
  rf_exc :: string
  rf_text :: text_env

definition role_upper :: "text_env \<Rightarrow> msg \<Rightarrow> string" where
  "role_upper te m = map upper_char (str_of te (dgetd m ''role'' JNull))"

definition think_free :: "string \<Rightarrow> string" where
  "think_free s = (if str_in ''<think>'' s then strip (remove_blocks False ''<think>'' ''</think>'' s) else s)"

definition shown_content :: "text_env \<Rightarrow> json \<Rightarrow> string" where
  "shown_content te j =
     (if \<not> truthy j then [] else case j of JStr s \<Rightarrow> take 1000 (think_free s) | JList xs \<Rightarrow> te_str te (JList (take 1000 xs)) | _ \<Rightarrow> te_str te j)"

definition trajectory_line :: "text_env \<Rightarrow> nat \<times> msg \<Rightarrow> string" where
  "trajectory_line te im = (case im of (i, m) \<Rightarrow>
     nl @ ''['' @ show_nat i @ ''] '' @ role_upper te m @ '': '' @ shown_content te (dgetd m ''content'' JNull) @
     (if truthy (dgetd m ''tool_calls'' JNull)
      then nl @ ''    (Tool Calls: '' @ te_str te (dgetd m ''tool_calls'' JNull) @ '')'' else []))"

definition trajectory_text :: "text_env \<Rightarrow> msg list \<Rightarrow> string" where
  "trajectory_text te ms = concat (map (trajectory_line te) (List.enumerate 0 ms))"

definition in_quotes :: "string \<Rightarrow> string" where
  "in_quotes s = [CHR 0x22] @ s @ [CHR 0x22]"

definition reflect_prompt :: "string \<Rightarrow> string" where
  "reflect_prompt t =
     ''You are an expert agent performance auditor. Analyze the following conversation and tool execution trajectory ''
     @ ''to evaluate if the user request has been fully, correctly, and safely satisfied.'' @ nl @ nl
     @ ''Trajectory:'' @ nl @ t @ nl @ nl
     @ ''Evaluate strictly based on: '' @ nl
     @ ''1. Did the agent answer the user'' @ [CHR 0x27] @ ''s core request?'' @ nl
     @ ''2. Did any tool executions fail or return errors, and if so, did the agent recover?'' @ nl
     @ ''3. Are the facts/conclusions consistent with the tool results?'' @ nl @ nl
     @ ''Respond ONLY with a valid JSON object matching this schema:'' @ nl @ ''{'' @ nl
     @ ''  '' @ in_quotes ''is_successful'' @ '': true/false,'' @ nl
     @ ''  '' @ in_quotes ''quality_score'' @ '': 0.0 to 1.0,'' @ nl
     @ ''  '' @ in_quotes ''critique'' @ '': '' @ in_quotes ''your detailed critique string'' @ '','' @ nl
     @ ''  '' @ in_quotes ''missing_information'' @ '': ['' @ in_quotes ''list of missing details, if any'' @ ''],'' @ nl
     @ ''  '' @ in_quotes ''correction_steps'' @ '': ['' @ in_quotes ''list of correction actions needed, if any'' @ '']'' @ nl
     @ ''}''"

text \<open>A reply wrapped in a fenced block is unwrapped; the group has no blanks at its ends.\<close>

definition unfence :: "string \<Rightarrow> string" where
  "unfence s = (case first_block False ''```json'' ''```'' s of None \<Rightarrow> s | Some b \<Rightarrow> strip b)"

fun json_len :: "json \<Rightarrow> nat option" where
  "json_len (JStr s) = Some (length s)"
| "json_len (JList xs) = Some (length xs)"
| "json_len (JObj d) = Some (length d)"
| "json_len _ = None"

definition scored :: "msg \<Rightarrow> msg option" where
  "scored d =
     (if dhas d ''quality_score'' then Some d
      else if truthy (dgetd d ''is_successful'' (JBool True)) then Some (dset ''quality_score'' (JFloat 1) d)
      else (case (json_len (dgetd d ''missing_information'' (JList [])), json_len (dgetd d ''correction_steps'' (JList []))) of
              (Some a, Some b) \<Rightarrow> Some (dset ''quality_score'' (JFloat (max (1 / 10) (py_round 2 (1 - of_nat a / 5 - of_nat b / 5)))) d)
            | _ \<Rightarrow> None))"

definition fallback :: "string \<Rightarrow> reflection" where
  "fallback e = \<lparr>rr_success = True, rr_score = 1,
     rr_critique = ''Reflection failed with error: '' @ e @ ''. Defaulting to success.'', rr_missing = [], rr_steps = []\<rparr>"

definition parse_reflection :: "'w reflector \<Rightarrow> string option option \<Rightarrow> reflection option" where
  "parse_reflection rf r =
     (case r of
        None \<Rightarrow> None
      | Some c \<Rightarrow>
          (case te_loads (rf_text rf) (unfence (case c of None \<Rightarrow> ''{}'' | Some t \<Rightarrow> if t = [] then ''{}'' else t)) of
             Some (JObj d) \<Rightarrow> Option.bind (scored d) (rf_validate rf)
           | _ \<Rightarrow> None))"

definition reflect :: "'w reflector \<Rightarrow> msg list \<Rightarrow> 'w \<Rightarrow> reflection \<times> 'w" where
  "reflect rf ms w =
     (let (r, w) = rf_chat rf (reflect_prompt (rf_redact rf (trajectory_text (rf_text rf) ms))) w
      in (case parse_reflection rf r of None \<Rightarrow> fallback (rf_exc rf) | Some x \<Rightarrow> x, w))"

section \<open>The refinement cycle\<close>

record round =
  rd_iteration :: nat
  rd_response :: string
  rd_result :: reflection

record cycle_result =
  cr_initial :: pyfloat
  cr_final :: pyfloat
  cr_delta :: pyfloat
  cr_count :: nat
  cr_converged :: bool
  cr_trajectory :: "round list"
  cr_response :: string

definition bullets :: "string list \<Rightarrow> string" where
  "bullets xs = join nl (map (\<lambda>x. ''- '' @ x) xs)"

definition refine_prompt :: "string \<Rightarrow> string \<Rightarrow> reflection \<Rightarrow> string" where
  "refine_prompt task response r =
     ''You previously generated the following response for the task:'' @ nl @ nl
     @ ''Task: '' @ task @ nl @ nl @ ''Previous Response:'' @ nl @ response @ nl @ nl
     @ ''Auditor Critique:'' @ nl @ rr_critique r @ nl @ nl
     @ ''Missing Information:'' @ nl @ bullets (rr_missing r) @ nl @ nl
     @ ''Required Correction Steps:'' @ nl @ bullets (rr_steps r) @ nl @ nl
     @ ''Please provide an improved, complete, and accurate response that resolves all identified critiques.''"

text \<open>
  The loop from iteration \<open>i\<close> on, with \<open>n\<close> iterations left: the rounds and the last response, or \<open>None\<close> when
  a call for a revision raises.
\<close>

fun refine_loop ::
  "'w reflector \<Rightarrow> (string \<Rightarrow> 'w \<Rightarrow> string option option \<times> 'w) \<Rightarrow> string \<Rightarrow> pyfloat \<Rightarrow> nat \<Rightarrow> nat \<Rightarrow> string \<Rightarrow> 'w
    \<Rightarrow> (round list \<times> string) option \<times> 'w" where
  "refine_loop rf ask task target 0 i response w = (Some ([], response), w)"
| "refine_loop rf ask task target (Suc n) i response w =
     (let (r, w) = reflect rf [[(''role'', JStr ''user''), (''content'', JStr task)],
                               [(''role'', JStr ''assistant''), (''content'', JStr response)]] w;
          rd = \<lparr>rd_iteration = i, rd_response = response, rd_result = r\<rparr>
      in if rr_success r \<and> rr_score r \<ge> target then (Some ([rd], response), w)
         else if n = 0 then (Some ([rd], response), w)
         else (let (c, w) = ask (refine_prompt task response r) w
               in case c of
                    None \<Rightarrow> (None, w)
                  | Some t \<Rightarrow>
                      (let (x, w) = refine_loop rf ask task target n (Suc i)
                             (case t of None \<Rightarrow> response | Some t \<Rightarrow> if t = [] then response else t) w
                       in (map_option (\<lambda>(rds, q). (rd # rds, q)) x, w))))"

definition run_refinement_cycle ::
  "'w reflector \<Rightarrow> (string \<Rightarrow> 'w \<Rightarrow> string option option \<times> 'w) \<Rightarrow> string \<Rightarrow> string \<Rightarrow> int \<Rightarrow> pyfloat \<Rightarrow> 'w
    \<Rightarrow> cycle_result option \<times> 'w" where
  "run_refinement_cycle rf ask task response n target w =
     (case refine_loop rf ask task target (nat n) 1 response w of
        (None, w) \<Rightarrow> (None, w)
      | (Some (rds, q), w) \<Rightarrow>
          (let i = (if rds = [] then 0 else rr_score (rd_result (hd rds)));
               l = (if rds = [] then 0 else rr_score (rd_result (last rds)))
           in (Some \<lparr>cr_initial = i, cr_final = l, cr_delta = py_round 3 (l - i), cr_count = length rds,
                 cr_converged = (l \<ge> target \<or> rds \<noteq> [] \<and> rr_success (rd_result (last rds))),
                 cr_trajectory = rds, cr_response = q\<rparr>, w)))"

section \<open>The cycle ends and reports what it judged\<close>

definition good :: "pyfloat \<Rightarrow> round \<Rightarrow> bool" where
  "good target rd = (rr_success (rd_result rd) \<and> rr_score (rd_result rd) \<ge> target)"

lemma refine_loop_rounds:
  assumes "refine_loop rf ask task target n i response w = (Some (rds, q), w')" and "0 < n"
  shows "rds \<noteq> [] \<and> length rds \<le> n \<and> rd_response (last rds) = q \<and> rd_response (hd rds) = response
    \<and> (\<forall>rd \<in> set (butlast rds). \<not> good target rd) \<and> (length rds < n \<longrightarrow> good target (last rds))
    \<and> map rd_iteration rds = [i..<i + length rds]"
  using assms
proof (induction n arbitrary: i response w rds q w')
  case (Suc n)
  obtain r w1 where r: "reflect rf [[(''role'', JStr ''user''), (''content'', JStr task)],
       [(''role'', JStr ''assistant''), (''content'', JStr response)]] w = (r, w1)" by fastforce
  let ?rd = "\<lparr>rd_iteration = i, rd_response = response, rd_result = r\<rparr>"
  show ?case
  proof (cases "good target ?rd \<or> n = 0")
    case True
    then have "rds = [?rd] \<and> q = response" using Suc.prems r by (auto simp: good_def Let_def split: if_splits)
    with True show ?thesis by auto
  next
    case False
    then obtain t w2 where t: "ask (refine_prompt task response r) w1 = (Some t, w2)"
      using Suc.prems r by (auto simp: good_def Let_def split: prod.splits option.splits if_splits)
    let ?next = "case t of None \<Rightarrow> response | Some t \<Rightarrow> if t = [] then response else t"
    from False Suc.prems r t obtain rds2 where rec: "refine_loop rf ask task target n (Suc i) ?next w2 = (Some (rds2, q), w')"
      and rds: "rds = ?rd # rds2" by (auto simp: good_def Let_def split: prod.splits)
    from Suc.IH [OF rec] False rds show ?thesis by (auto simp: upt_conv_Cons simp del: upt_Suc)
  qed
qed simp

text \<open>
  The refinement cycle ends after at most \<open>n\<close> reflections, stops early only on a response judged successful with the
  target score and never goes on after one, and the response and the score it returns belong together: the
  response returned is the last one that was judged, with its score.
\<close>

theorem refinement_cycle_sound:
  assumes "run_refinement_cycle rf ask task response n target w = (Some c, w')" and "0 < n"
  shows "1 \<le> cr_count c \<and> int (cr_count c) \<le> n \<and> cr_count c = length (cr_trajectory c)
    \<and> rd_response (hd (cr_trajectory c)) = response
    \<and> rd_response (last (cr_trajectory c)) = cr_response c
    \<and> rr_score (rd_result (last (cr_trajectory c))) = cr_final c
    \<and> list_all (\<lambda>rd. \<not> good target rd) (butlast (cr_trajectory c))
    \<and> (if int (cr_count c) < n then good target (last (cr_trajectory c)) \<and> cr_converged c else True)"
proof -
  from assms(1) obtain rds q where l: "refine_loop rf ask task target (nat n) 1 response w = (Some (rds, q), w')"
    and c: "cr_trajectory c = rds" "cr_count c = length rds" "cr_response c = q"
      "rds \<noteq> [] \<Longrightarrow> cr_final c = rr_score (rd_result (last rds))"
      "cr_converged c = (cr_final c \<ge> target \<or> rds \<noteq> [] \<and> rr_success (rd_result (last rds)))"
    by (auto simp: run_refinement_cycle_def Let_def split: prod.splits option.splits)
  from refine_loop_rounds [OF l] assms(2) have "rds \<noteq> []" "length rds \<le> nat n" "rd_response (last rds) = q"
    "rd_response (hd rds) = response" "\<forall>rd \<in> set (butlast rds). \<not> good target rd"
    "length rds < nat n \<longrightarrow> good target (last rds)" by auto
  then show ?thesis using c assms(2) by (auto simp: list_all_iff good_def Suc_le_eq)
qed

definition sample_reflector :: "nat reflector" where
  "sample_reflector = \<lparr>rf_chat = (\<lambda>_ w. (Some (Some (if w = 0 then ''a'' else ''b'')), Suc w)), rf_redact = (\<lambda>t. t),
     rf_validate = (\<lambda>d. Some \<lparr>rr_success = True, rr_score = (case dget d ''quality_score'' of Some (JFloat x) \<Rightarrow> x | _ \<Rightarrow> 0),
        rr_critique = ''c'', rr_missing = [], rr_steps = []\<rparr>),
     rf_exc = ''e'', rf_text = plain_env\<lparr>te_loads := (\<lambda>s. Some (JObj [(''quality_score'', JFloat (if s = ''a'' then 7/10 else 9/10))]))\<rparr>\<rparr>"

lemma sample_reflect: "reflect sample_reflector ms w = (\<lparr>rr_success = True, rr_score = (if w = 0 then 7/10 else 9/10),
    rr_critique = ''c'', rr_missing = [], rr_steps = []\<rparr>, Suc w)"
proof -
  have u: "unfence ''a'' = ''a''" "unfence ''b'' = ''b''" by code_simp+
  show ?thesis by (simp add: reflect_def sample_reflector_def parse_reflection_def u scored_def dhas_def)
qed

lemma refinement_cycle_sound_witness:
  "case fst (run_refinement_cycle sample_reflector (\<lambda>_ w. (Some (Some ''better''), Suc w)) ''t'' ''draft'' 3 (9/10) 0) of
     None \<Rightarrow> False
   | Some c \<Rightarrow> cr_count c = 2 \<and> cr_response c = ''better'' \<and> cr_final c = 9/10 \<and> good (9/10) (last (cr_trajectory c))"
proof -
  let ?run = "run_refinement_cycle sample_reflector (\<lambda>_ w. (Some (Some ''better''), Suc w)) ''t'' ''draft'' 3 (9/10) 0"
  have r: "map_option (\<lambda>c. (cr_count c, cr_response c, cr_final c)) (fst ?run) = Some (2, ''better'', 9/10)"
    by (simp add: run_refinement_cycle_def numeral_eq_Suc sample_reflect Let_def)
  then obtain c where f: "fst ?run = Some c" and v: "(cr_count c, cr_response c, cr_final c) = (2, ''better'', 9/10)"
    unfolding map_option_eq_Some by blast
  have "?run = (Some c, snd ?run)" unfolding f [symmetric] by (rule prod.collapse [symmetric])
  from refinement_cycle_sound [OF this] v show ?thesis unfolding f by simp
qed

end
