(* ===== verification/Agent_Graph.thy ===== *)
theory Agent_Graph
  imports Reflection
begin

text \<open>
  \<open>agent/graph.py\<close>: the graph of nodes that is the agent's loop. A node takes the state and gives an update that is merged
  into it: messages are appended, the other fields replaced. The runtime of LangGraph is its documented
  behaviour: run the node, merge, follow the edge, and raise when the limit on the number of node runs is
  reached before the end. The model and LangGraph's tool node are parameters; what is used of the latter,
  one tool message for each call in order, is a hypothesis where a theorem needs it.
\<close>

section \<open>Messages\<close>

record lc_call =
  lc_id :: json
  lc_name :: string
  lc_args :: json

text \<open>
  LangChain's messages. An \<open>AIMessage\<close> carries its content, the entries \<open>tool_calls\<close> and \<open>scratch_pad\<close> of its
  \<open>additional_kwargs\<close> (\<open>JNull\<close> when absent), and the list of tool calls the tool node executes.
\<close>

datatype lc_msg =
    Human json
  | AI (ai_content: json) (ai_kw: json) (ai_pad: json) (ai_calls: "lc_call list")
  | ToolMsg (tm_content: json) (tm_id: json) (tm_name: json)
  | SystemMsg string

datatype graph_mode = PlanAndExecute | ReactReflect | Simple | React

definition mode_of :: "string \<Rightarrow> graph_mode" where
  "mode_of s = (if s = ''plan_and_execute'' then PlanAndExecute else if s = ''react_reflect'' then ReactReflect
     else if s = ''simple'' then Simple else React)"

record graph_state =
  gs_messages :: "lc_msg list"
  gs_iterations :: int
  gs_plan :: "string list"

record raw_call =
  rc_id :: json
  rc_name :: string
  rc_args :: json

record llm_response =
  lr_content :: "string option"
  lr_calls :: "raw_call list"

text \<open>\<open>None\<close> from the model or the tool node is an exception.\<close>

record 'w graph_env =
  ge_chat :: "msg list \<Rightarrow> 'w \<Rightarrow> llm_response option \<times> 'w"
  ge_tools :: "lc_call list \<Rightarrow> 'w \<Rightarrow> lc_msg list option \<times> 'w"
  ge_reflector :: "'w reflector"
  ge_text :: text_env
  ge_fixed2 :: "pyfloat \<Rightarrow> string"
  ge_mode :: graph_mode
  ge_max :: int

section \<open>Asking the model\<close>

definition padded :: "text_env \<Rightarrow> json \<Rightarrow> json \<Rightarrow> json" where
  "padded te pad content =
     (if truthy pad then JStr (''<scratch_pad>'' @ nl @ str_of te pad @ nl @ ''</scratch_pad>'' @ nl @ nl @ str_of te content)
      else content)"

fun to_dict :: "text_env \<Rightarrow> lc_msg \<Rightarrow> msg" where
  "to_dict te (Human c) = [(''role'', JStr ''user''), (''content'', c)]"
| "to_dict te (AI c kw pad calls) =
     [(''role'', JStr ''assistant''), (''content'', padded te pad c), (''tool_calls'', kw)]"
| "to_dict te (ToolMsg c i n) = [(''role'', JStr ''tool''), (''content'', c), (''tool_call_id'', i)]"
| "to_dict te (SystemMsg c) = [(''role'', JStr ''system''), (''content'', JStr c)]"

text \<open>The content without its scratch pad, and the text of the first scratch pad.\<close>

definition pad_open :: string where "pad_open = ''<scratch_pad>''"

definition pad_close :: string where "pad_close = ''</scratch_pad>''"

definition split_pad :: "string \<Rightarrow> string \<times> json" where
  "split_pad c =
     (case first_block True pad_open pad_close c of
        None \<Rightarrow> (c, JNull)
      | Some b \<Rightarrow> (strip (remove_blocks True pad_open pad_close c), if strip b = [] then JNull else JStr (strip b)))"

definition call_args :: "text_env \<Rightarrow> json \<Rightarrow> json option" where
  "call_args te a = (case a of JObj d \<Rightarrow> Some a | JStr t \<Rightarrow> te_loads te t | _ \<Rightarrow> Some (JObj []))"

fun lc_calls :: "text_env \<Rightarrow> raw_call list \<Rightarrow> lc_call list option" where
  "lc_calls te [] = Some []"
| "lc_calls te (c # cs) =
     (case (call_args te (rc_args c), lc_calls te cs) of
        (Some a, Some xs) \<Rightarrow> Some (\<lparr>lc_id = rc_id c, lc_name = rc_name c, lc_args = a\<rparr> # xs)
      | _ \<Rightarrow> None)"

definition kw_call :: "text_env \<Rightarrow> raw_call \<Rightarrow> json" where
  "kw_call te c = JObj [(''id'', rc_id c), (''type'', JStr ''function''),
     (''function'', JObj [(''name'', JStr (rc_name c)), (''arguments'', JStr (str_of te (rc_args c)))])]"

definition ai_of :: "text_env \<Rightarrow> llm_response \<Rightarrow> lc_msg option" where
  "ai_of te r =
     (let (c, pad) = split_pad (case lr_content r of None \<Rightarrow> [] | Some t \<Rightarrow> t)
      in if lr_calls r = [] then Some (AI (JStr c) JNull pad [])
         else map_option (AI (JStr c) (JList (map (kw_call te) (lr_calls r))) pad) (lc_calls te (lr_calls r)))"

definition call_llm :: "'w graph_env \<Rightarrow> graph_state \<Rightarrow> string option \<Rightarrow> 'w \<Rightarrow> lc_msg option \<times> 'w" where
  "call_llm ge st prompt w =
     (let ms = gs_messages st @ (case prompt of None \<Rightarrow> [] | Some p \<Rightarrow> if p = [] then [] else [SystemMsg p]);
          (r, w) = ge_chat ge (map (to_dict (ge_text ge)) ms) w
      in (Option.bind r (ai_of (ge_text ge)), w))"

section \<open>Nodes and edges\<close>

datatype node = Planner | Llm | Tools | Reflect | Finish

text \<open>The planner splits the reply at a backslash followed by the letter \<open>n\<close>, which is not a line break.\<close>

function split_on :: "string \<Rightarrow> string \<Rightarrow> string list" where
  "split_on sep s =
     (if sep = [] then [s]
      else case split_at sep s of None \<Rightarrow> [s] | Some (a, b) \<Rightarrow> a # split_on sep b)"
  by pat_completeness auto
termination
proof (relation "measure (\<lambda>(sep, s). length s)", simp)
  fix sep s a b :: string and p :: "string \<times> string"
  assume "sep \<noteq> []" "split_at sep s = Some p" "(a, b) = p"
  then have "split_at sep s = Some (a, b)" by simp
  from split_at_Some [OF this] \<open>sep \<noteq> []\<close> show "((sep, b), sep, s) \<in> measure (\<lambda>(sep, s). length s)" by simp
qed

declare split_on.simps [simp del]

definition digit :: "char \<Rightarrow> bool" where
  "digit c = (48 \<le> (of_char c :: nat) \<and> (of_char c :: nat) \<le> 57)"

definition plan_of :: "string \<Rightarrow> string list" where
  "plan_of c = map strip (filter (\<lambda>l. strip l \<noteq> [] \<and> digit (hd l)) (split_on [CHR 0x5C, CHR ''n''] c))"

definition add_msgs :: "lc_msg list \<Rightarrow> graph_state \<Rightarrow> graph_state" where
  "add_msgs ms st = st\<lparr>gs_messages := gs_messages st @ ms\<rparr>"

definition counted :: "lc_msg list \<Rightarrow> graph_state \<Rightarrow> graph_state" where
  "counted ms st = (add_msgs ms st)\<lparr>gs_iterations := gs_iterations st + 1\<rparr>"

definition planner_prompt :: string where
  "planner_prompt = ''Create a detailed step-by-step plan to satisfy the user request. Output a numbered list of steps.''"

definition planner_node :: "'w graph_env \<Rightarrow> graph_state \<Rightarrow> 'w \<Rightarrow> graph_state option \<times> 'w" where
  "planner_node ge st w =
     (let (m, w) = call_llm ge st (Some planner_prompt) w
      in (map_option (\<lambda>m. (counted [m] st)\<lparr>gs_plan := plan_of (str_of (ge_text ge) (ai_content m))\<rparr>) m, w))"

definition llm_prompt :: "'w graph_env \<Rightarrow> graph_state \<Rightarrow> string option" where
  "llm_prompt ge st =
     (if ge_mode ge = PlanAndExecute \<and> gs_plan st \<noteq> []
      then Some (''Current Plan: '' @ te_str (ge_text ge) (JList (map JStr (gs_plan st))) @ ''. Execute the next logical step.'')
      else None)"

definition llm_node :: "'w graph_env \<Rightarrow> graph_state \<Rightarrow> 'w \<Rightarrow> graph_state option \<times> 'w" where
  "llm_node ge st w =
     (let (m, w) = call_llm ge st (llm_prompt ge st) w in (map_option (\<lambda>m. counted [m] st) m, w))"

definition tool_node :: "'w graph_env \<Rightarrow> graph_state \<Rightarrow> 'w \<Rightarrow> graph_state option \<times> 'w" where
  "tool_node ge st w =
     (let (ms, w) = ge_tools ge (ai_calls (last (gs_messages st))) w
      in (map_option (\<lambda>ms. add_msgs ms st) ms, w))"

definition reflection_text :: "(pyfloat \<Rightarrow> string) \<Rightarrow> reflection \<Rightarrow> string" where
  "reflection_text fixed2 r =
     ''Reflection Result:'' @ nl @ ''Status: '' @ (if rr_success r then ''PASS'' else ''FAIL'') @ nl
     @ ''Quality Score: '' @ fixed2 (rr_score r) @ nl @ ''Critique: '' @ rr_critique r @ nl
     @ (if rr_missing r \<noteq> [] then ''Missing Information: '' @ join '', '' (rr_missing r) @ nl else [])
     @ (if rr_steps r \<noteq> [] then ''Correction Steps:'' @ nl @ bullets (rr_steps r) else [])"

definition reflect_node :: "'w graph_env \<Rightarrow> graph_state \<Rightarrow> 'w \<Rightarrow> graph_state option \<times> 'w" where
  "reflect_node ge st w =
     (let (r, w) = reflect (ge_reflector ge) (map (to_dict (ge_text ge)) (gs_messages st)) w
      in (Some (counted [AI (JStr (reflection_text (ge_fixed2 ge) r)) JNull JNull []] st), w))"

definition should_continue :: "'w graph_env \<Rightarrow> graph_state \<Rightarrow> bool" where
  "should_continue ge st =
     (if gs_iterations st \<ge> ge_max ge then False
      else case last (gs_messages st) of AI c kw pad calls \<Rightarrow> truthy kw | _ \<Rightarrow> False)"

fun content_of :: "lc_msg \<Rightarrow> json" where
  "content_of (Human c) = c"
| "content_of (AI c kw pad calls) = c"
| "content_of (ToolMsg c i n) = c"
| "content_of (SystemMsg c) = JStr c"

definition replans :: "'w graph_env \<Rightarrow> graph_state \<Rightarrow> bool" where
  "replans ge st = (str_in ''FAIL'' (map upper_char (str_of (ge_text ge) (content_of (last (gs_messages st)))))
     \<and> gs_iterations st < ge_max ge)"

text \<open>The edges of \<open>_build_graph\<close>, with the state after the node.\<close>

definition entry :: "graph_mode \<Rightarrow> node" where
  "entry md = (if md = PlanAndExecute then Planner else Llm)"

fun next_node :: "'w graph_env \<Rightarrow> node \<Rightarrow> graph_state \<Rightarrow> node" where
  "next_node ge Planner st = Llm"
| "next_node ge Llm st =
     (if ge_mode ge = Simple then Finish
      else if should_continue ge st then Tools
      else if ge_mode ge = React then Finish else Reflect)"
| "next_node ge Tools st = Llm"
| "next_node ge Reflect st = (if replans ge st then entry (ge_mode ge) else Finish)"
| "next_node ge Finish st = Finish"

fun run_node :: "'w graph_env \<Rightarrow> node \<Rightarrow> graph_state \<Rightarrow> 'w \<Rightarrow> graph_state option \<times> 'w" where
  "run_node ge Planner st w = planner_node ge st w"
| "run_node ge Llm st w = llm_node ge st w"
| "run_node ge Tools st w = tool_node ge st w"
| "run_node ge Reflect st w = reflect_node ge st w"
| "run_node ge Finish st w = (Some st, w)"

datatype 'w graph_result = Finished graph_state 'w | NodeRaised 'w | RecursionLimit 'w

fun graph_run :: "'w graph_env \<Rightarrow> nat \<Rightarrow> node \<Rightarrow> graph_state \<Rightarrow> 'w \<Rightarrow> 'w graph_result" where
  "graph_run ge limit Finish st w = Finished st w"
| "graph_run ge 0 n st w = RecursionLimit w"
| "graph_run ge (Suc k) n st w =
     (case run_node ge n st w of
        (None, w) \<Rightarrow> NodeRaised w
      | (Some st, w) \<Rightarrow> graph_run ge k (next_node ge n st) st w)"

section \<open>Every run ends\<close>

lemma run_node_iterations:
  assumes "run_node ge n st w = (Some st', w')"
  shows "gs_iterations st' = gs_iterations st + (if n = Tools \<or> n = Finish then 0 else 1)"
  using assms
  by (cases n) (auto simp: planner_node_def llm_node_def tool_node_def reflect_node_def counted_def add_msgs_def Let_def split: prod.splits)

lemma run_node_messages:
  assumes "run_node ge n st w = (Some st', w')"
  shows "\<exists>new. gs_messages st' = gs_messages st @ new"
  using assms
  by (cases n) (auto simp: planner_node_def llm_node_def tool_node_def reflect_node_def counted_def add_msgs_def Let_def split: prod.splits)

text \<open>A bound on the node runs still to come.\<close>

fun left :: "'w graph_env \<Rightarrow> node \<Rightarrow> graph_state \<Rightarrow> nat" where
  "left ge Planner st = 4 * nat (ge_max ge - gs_iterations st) + 3"
| "left ge Llm st = 4 * nat (ge_max ge - gs_iterations st) + 2"
| "left ge Tools st = 4 * nat (ge_max ge - gs_iterations st) + 3"
| "left ge Reflect st = 4 * nat (ge_max ge - gs_iterations st) + 1"
| "left ge Finish st = 0"

lemma left_decreases:
  assumes "n \<noteq> Finish" and "run_node ge n st w = (Some st', w')"
  shows "left ge (next_node ge n st') st' < left ge n st"
proof -
  have c: "should_continue ge st' \<Longrightarrow> gs_iterations st' < ge_max ge" "replans ge st' \<Longrightarrow> gs_iterations st' < ge_max ge"
    by (auto simp: should_continue_def replans_def split: if_splits)
  show ?thesis using assms(1) run_node_iterations [OF assms(2)] c
    by (cases n) (auto simp: entry_def)
qed

lemma graph_run_Suc:
  "n \<noteq> Finish \<Longrightarrow> graph_run ge (Suc k) n st w =
     (case run_node ge n st w of (None, w) \<Rightarrow> NodeRaised w | (Some st, w) \<Rightarrow> graph_run ge k (next_node ge n st) st w)"
  by (cases n) auto

lemma graph_run_0: "n \<noteq> Finish \<Longrightarrow> graph_run ge 0 n st w = RecursionLimit w"
  by (cases n) auto

lemma left_0: "left ge n st = 0 \<longleftrightarrow> n = Finish"
  by (cases n) auto

lemma graph_run_enough:
  assumes "left ge n st \<le> k"
  shows "graph_run ge k n st w \<noteq> RecursionLimit w'"
  using assms
proof (induction k arbitrary: n st w)
  case 0
  then have "n = Finish" using left_0 by auto
  then show ?case by simp
next
  case (Suc k)
  show ?case
  proof (cases "n = Finish")
    case False
    obtain r w1 where r: "run_node ge n st w = (r, w1)" by fastforce
    show ?thesis
    proof (cases r)
      case (Some st1)
      have "left ge (next_node ge n st1) st1 \<le> k"
        using left_decreases [OF False r [unfolded Some]] Suc.prems by simp
      from Suc.IH [OF this] show ?thesis using False r Some by (simp add: graph_run_Suc)
    qed (use False r in \<open>simp add: graph_run_Suc\<close>)
  qed simp
qed

definition top :: "'w graph_env \<Rightarrow> int" where
  "top ge = max 1 (ge_max ge)"

fun in_bounds :: "'w graph_env \<Rightarrow> node \<Rightarrow> graph_state \<Rightarrow> bool" where
  "in_bounds ge Planner st = (gs_iterations st \<le> top ge - 1)"
| "in_bounds ge Llm st = (gs_iterations st \<le> top ge)"
| "in_bounds ge Tools st = (gs_iterations st \<le> top ge - 1)"
| "in_bounds ge Reflect st = (gs_iterations st \<le> top ge + 1)"
| "in_bounds ge Finish st = (gs_iterations st \<le> top ge + 2)"

lemma within_step:
  assumes "in_bounds ge n st" and "run_node ge n st w = (Some st', w')"
  shows "in_bounds ge (next_node ge n st') st'"
proof -
  have c: "should_continue ge st' \<Longrightarrow> gs_iterations st' < ge_max ge" "replans ge st' \<Longrightarrow> gs_iterations st' < ge_max ge"
    by (auto simp: should_continue_def replans_def split: if_splits)
  show ?thesis using assms(1) run_node_iterations [OF assms(2)] c
    by (cases n) (auto simp: entry_def top_def)
qed

lemma graph_run_within:
  assumes "graph_run ge k n st w = Finished st' w'" and "in_bounds ge n st"
  shows "gs_iterations st' \<le> top ge + 2 \<and> (\<exists>new. gs_messages st' = gs_messages st @ new)"
  using assms
proof (induction k arbitrary: n st w)
  case 0
  then show ?case by (cases n) auto
next
  case (Suc k)
  show ?case
  proof (cases "n = Finish")
    case False
    with Suc.prems obtain st1 w1 where r: "run_node ge n st w = (Some st1, w1)"
      and rest: "graph_run ge k (next_node ge n st1) st1 w1 = Finished st' w'"
      by (auto simp: graph_run_Suc split: prod.splits option.splits)
    from Suc.IH [OF rest within_step [OF Suc.prems(2) r]] run_node_messages [OF r] show ?thesis by auto
  qed (use Suc.prems in auto)
qed

text \<open>
  The same graph with a counter of the requests that are sent to the provider, by the nodes and by the reflector. The
  counter belongs to the world, which the nodes only hand on: counting is independent of the field
  \<open>iterations\<close> of the state, and changes nothing else.
\<close>

definition metered :: "('a \<Rightarrow> 'w \<Rightarrow> 'b \<times> 'w) \<Rightarrow> 'a \<Rightarrow> 'w \<times> nat \<Rightarrow> 'b \<times> ('w \<times> nat)" where
  "metered f x wn = (let (r, w) = f x (fst wn) in (r, (w, snd wn + 1)))"

definition metered_env :: "'w graph_env \<Rightarrow> ('w \<times> nat) graph_env" where
  "metered_env ge = \<lparr>ge_chat = metered (ge_chat ge),
     ge_tools = (\<lambda>cs wn. let (r, w) = ge_tools ge cs (fst wn) in (r, (w, snd wn))),
     ge_reflector = \<lparr>rf_chat = metered (rf_chat (ge_reflector ge)), rf_redact = rf_redact (ge_reflector ge),
       rf_validate = rf_validate (ge_reflector ge), rf_exc = rf_exc (ge_reflector ge), rf_text = rf_text (ge_reflector ge)\<rparr>,
     ge_text = ge_text ge, ge_fixed2 = ge_fixed2 ge, ge_mode = ge_mode ge, ge_max = ge_max ge\<rparr>"

lemma metered_env_fields [simp]:
  "ge_chat (metered_env ge) = metered (ge_chat ge)" "ge_text (metered_env ge) = ge_text ge"
  "ge_fixed2 (metered_env ge) = ge_fixed2 ge" "ge_mode (metered_env ge) = ge_mode ge" "ge_max (metered_env ge) = ge_max ge"
  "rf_chat (ge_reflector (metered_env ge)) = metered (rf_chat (ge_reflector ge))"
  "rf_redact (ge_reflector (metered_env ge)) = rf_redact (ge_reflector ge)"
  "rf_validate (ge_reflector (metered_env ge)) = rf_validate (ge_reflector ge)"
  "rf_exc (ge_reflector (metered_env ge)) = rf_exc (ge_reflector ge)"
  "rf_text (ge_reflector (metered_env ge)) = rf_text (ge_reflector ge)"
  "ge_tools (metered_env ge) cs (w, n) = (let (r, w) = ge_tools ge cs w in (r, (w, n)))"
  by (simp_all add: metered_env_def)

lemma metered_parse: "parse_reflection (ge_reflector (metered_env ge)) = parse_reflection (ge_reflector ge)"
  unfolding parse_reflection_def metered_env_fields ..

lemma metered_call:
  "call_llm (metered_env ge) st p (w, n) = (let (m, w) = call_llm ge st p w in (m, (w, n + 1)))"
  by (simp add: call_llm_def metered_def Let_def split: prod.splits)

lemma metered_reflect:
  "reflect (ge_reflector (metered_env ge)) ms (w, n) = (let (r, w) = reflect (ge_reflector ge) ms w in (r, (w, n + 1)))"
  unfolding reflect_def metered_parse metered_env_fields by (simp add: metered_def Let_def split: prod.splits)

lemma metered_node:
  "run_node (metered_env ge) nd st (w, n)
     = (let (r, w) = run_node ge nd st w in (r, (w, n + (if nd = Tools \<or> nd = Finish then 0 else 1))))"
  by (cases nd) (auto simp: planner_node_def llm_node_def tool_node_def reflect_node_def llm_prompt_def metered_call metered_reflect Let_def split: prod.splits)

lemma metered_next: "next_node (metered_env ge) nd st = next_node ge nd st"
  by (cases nd) (auto simp: should_continue_def replans_def)

fun metered_result :: "'w graph_env \<Rightarrow> 'w graph_result \<Rightarrow> ('w \<times> nat) graph_result \<Rightarrow> bool" where
  "metered_result ge r (Finished st' wn) = (r = Finished st' (fst wn) \<and> int (snd wn) = gs_iterations st')"
| "metered_result ge r (NodeRaised wn) = (r = NodeRaised (fst wn) \<and> int (snd wn) \<le> top ge + 2)"
| "metered_result ge r (RecursionLimit wn) = (r = RecursionLimit (fst wn))"

lemma metered_run:
  assumes "in_bounds ge nd st" and "gs_iterations st = int n"
  shows "metered_result ge (graph_run ge k nd st w) (graph_run (metered_env ge) k nd st (w, n))"
  using assms
proof (induction k arbitrary: nd st w n)
  case 0
  then show ?case by (cases nd) auto
next
  case (Suc k)
  show ?case
  proof (cases "nd = Finish")
    case False
    obtain r w1 where r: "run_node ge nd st w = (r, w1)" by fastforce
    show ?thesis
    proof (cases r)
      case None
      have "gs_iterations st + (if nd = Tools then 0 else 1) \<le> top ge + 2" using Suc.prems(1) False by (cases nd) auto
      with None r False Suc.prems show ?thesis by (auto simp: graph_run_Suc metered_node)
    next
      case (Some st1)
      have "gs_iterations st1 = int (n + (if nd = Tools then 0 else 1))"
        using run_node_iterations [OF r [unfolded Some]] False Suc.prems(2) by simp
      from Suc.IH [OF within_step [OF Suc.prems(1) r [unfolded Some]] this] show ?thesis
        using r Some False by (simp add: graph_run_Suc metered_node metered_next)
    qed
  qed (use Suc.prems in simp)
qed

text \<open>
  C2. The agent's loop ends: in every mode, whatever the model answers and the tools return, a run that is allowed
  \<open>4 * max_iterations + 3\<close> node runs never reaches that limit. Counting every request to the provider, of the
  planner, the executor and the reflector, in a counter of its own: a run that finishes or in which a node
  raises has sent at most \<open>max 1 max_iterations + 2\<close> of them (the two above the limit are the executor's after
  a last plan and the reflector's); when it finishes, they are as many as the field \<open>iterations\<close> says, and
  the run has only added messages. The counter changes nothing of the run.
\<close>

theorem graph_terminates:
  assumes "gs_iterations st = 0" and "4 * nat (ge_max ge) + 3 \<le> limit"
  shows "case graph_run (metered_env ge) limit (entry (ge_mode ge)) st (w, 0) of
      Finished st' (w', calls) \<Rightarrow> graph_run ge limit (entry (ge_mode ge)) st w = Finished st' w'
        \<and> int calls \<le> max 1 (ge_max ge) + 2 \<and> int calls = gs_iterations st'
        \<and> (\<exists>new. gs_messages st' = gs_messages st @ new)
    | NodeRaised (w', calls) \<Rightarrow> graph_run ge limit (entry (ge_mode ge)) st w = NodeRaised w' \<and> int calls \<le> max 1 (ge_max ge) + 2
    | RecursionLimit wn \<Rightarrow> False"
proof -
  have l: "left ge (entry (ge_mode ge)) st \<le> limit" using assms by (simp add: entry_def)
  have i: "in_bounds ge (entry (ge_mode ge)) st" using assms(1) by (auto simp: entry_def top_def max_def)
  have "metered_result ge (graph_run ge limit (entry (ge_mode ge)) st w) (graph_run (metered_env ge) limit (entry (ge_mode ge)) st (w, 0))"
    using metered_run [OF i, of 0] assms(1) by simp
  with graph_run_within [OF _ i, of limit w] graph_run_enough [OF l, of w] show ?thesis
    by (auto simp: top_def split: graph_result.splits)
qed

section \<open>The shape of a run\<close>

text \<open>LangGraph's tool node answers every call, in order, with a tool message that names it.\<close>

definition tools_answer :: "'w graph_env \<Rightarrow> bool" where
  "tools_answer ge = (\<forall>cs w ms w'. ge_tools ge cs w = (Some ms, w') \<longrightarrow>
     list_all2 (\<lambda>c m. \<exists>x n. m = ToolMsg x (lc_id c) n) cs ms)"

definition answered :: "lc_msg \<times> lc_msg list \<Rightarrow> bool" where
  "answered b = (case b of (a, ts) \<Rightarrow> \<exists>c kw pad calls. a = AI c kw pad calls \<and> calls \<noteq> []
     \<and> list_all2 (\<lambda>c m. \<exists>x n. m = ToolMsg x (lc_id c) n) calls ts)"

lemma lc_calls_length: "lc_calls te cs = Some xs \<Longrightarrow> length xs = length cs"
  by (induction cs arbitrary: xs) (auto split: option.splits)

lemma ai_of_Some:
  assumes "ai_of te r = Some m"
  shows "\<exists>c kw pad calls. m = AI c kw pad calls \<and> (truthy kw \<longleftrightarrow> calls \<noteq> []) \<and> length calls = length (lr_calls r)"
proof -
  obtain c pad where sp: "split_pad (case lr_content r of None \<Rightarrow> [] | Some t \<Rightarrow> t) = (c, pad)" by fastforce
  show ?thesis
  proof (cases "lr_calls r = []")
    case False
    with assms sp obtain xs where "lc_calls te (lr_calls r) = Some xs"
      and "m = AI (JStr c) (JList (map (kw_call te) (lr_calls r))) pad xs" by (auto simp: ai_of_def)
    moreover from lc_calls_length [OF this(1)] False have "xs \<noteq> []" by auto
    ultimately show ?thesis using False lc_calls_length by auto
  qed (use assms sp in \<open>auto simp: ai_of_def\<close>)
qed

lemma llm_node_Some:
  assumes "llm_node ge st w = (Some st', w')"
  shows "\<exists>c kw pad calls. gs_messages st' = gs_messages st @ [AI c kw pad calls] \<and> (truthy kw \<longleftrightarrow> calls \<noteq> [])
    \<and> gs_iterations st' = gs_iterations st + 1"
  using assms ai_of_Some
  by (fastforce simp: llm_node_def call_llm_def Let_def counted_def add_msgs_def Option.bind_eq_Some_conv split: prod.splits)

lemma graph_run_FinishedE:
  assumes "graph_run ge k n st w = Finished st' w'" and "n \<noteq> Finish"
  obtains j st1 w1 where "k = Suc j" "run_node ge n st w = (Some st1, w1)"
    "graph_run ge j (next_node ge n st1) st1 w1 = Finished st' w'"
  using assms by (cases k) (auto simp: graph_run_0 graph_run_Suc split: prod.splits option.splits)

definition flat :: "(lc_msg \<times> lc_msg list) list \<Rightarrow> lc_msg list" where
  "flat bs = concat (map (\<lambda>(a, ts). a # ts) bs)"

lemma react_blocks:
  assumes "graph_run ge k Llm st w = Finished st' w'" and "ge_mode ge = React" and "tools_answer ge"
  shows "\<exists>bs c kw pad calls. gs_messages st' = gs_messages st @ flat bs @ [AI c kw pad calls] \<and> list_all answered bs
    \<and> gs_iterations st' = gs_iterations st + int (length bs) + 1 \<and> (truthy kw \<longleftrightarrow> calls \<noteq> [])
    \<and> (calls = [] \<or> ge_max ge \<le> gs_iterations st') \<and> (bs = [] \<or> gs_iterations st' \<le> ge_max ge)"
  using assms(1)
proof (induction k arbitrary: st w rule: less_induct)
  case (less k)
  from less.prems obtain j st1 w1 where k: "k = Suc j" and r: "llm_node ge st w = (Some st1, w1)"
    and rest: "graph_run ge j (next_node ge Llm st1) st1 w1 = Finished st' w'" by (auto elim: graph_run_FinishedE)
  from llm_node_Some [OF r] obtain c kw pad calls where st1: "gs_messages st1 = gs_messages st @ [AI c kw pad calls]"
    "truthy kw \<longleftrightarrow> calls \<noteq> []" "gs_iterations st1 = gs_iterations st + 1" by blast
  show ?case
  proof (cases "should_continue ge st1")
    case False
    then have "st' = st1" using rest assms(2) by simp
    with False st1 show ?thesis
      by (intro exI [of _ "[]"] exI [of _ c] exI [of _ kw] exI [of _ pad] exI [of _ calls])
        (auto simp: flat_def should_continue_def split: if_splits)
  next
    case True
    then have rest: "graph_run ge j Tools st1 w1 = Finished st' w'" using rest assms(2) by simp
    have lt: "gs_iterations st1 < ge_max ge" "calls \<noteq> []" using True st1 by (auto simp: should_continue_def split: if_splits)
    from rest obtain i st2 w2 where j: "j = Suc i" and t: "tool_node ge st1 w1 = (Some st2, w2)"
      and rest2: "graph_run ge i Llm st2 w2 = Finished st' w'" by (auto elim: graph_run_FinishedE)
    from t obtain ts where ts: "ge_tools ge calls w1 = (Some ts, w2)" "st2 = add_msgs ts st1"
      using st1(1) by (auto simp: tool_node_def Let_def split: prod.splits)
    have "list_all2 (\<lambda>c m. \<exists>x n. m = ToolMsg x (lc_id c) n) calls ts"
      using ts(1) assms(3) unfolding tools_answer_def by blast
    then have ans: "answered (AI c kw pad calls, ts)" using lt(2) by (simp add: answered_def)
    have "i < k" using k j by simp
    from less.IH [OF this rest2] obtain bs c2 kw2 pad2 calls2 where
      ih: "gs_messages st' = gs_messages st2 @ flat bs @ [AI c2 kw2 pad2 calls2]" "list_all answered bs"
        "gs_iterations st' = gs_iterations st2 + int (length bs) + 1" "truthy kw2 \<longleftrightarrow> calls2 \<noteq> []"
        "calls2 = [] \<or> ge_max ge \<le> gs_iterations st'" "bs = [] \<or> gs_iterations st' \<le> ge_max ge" by blast
    have "gs_messages st' = gs_messages st @ flat ((AI c kw pad calls, ts) # bs) @ [AI c2 kw2 pad2 calls2]"
      using ih(1) ts(2) st1(1) by (simp add: flat_def add_msgs_def)
    moreover have "gs_iterations st' = gs_iterations st + int (length ((AI c kw pad calls, ts) # bs)) + 1"
      "gs_iterations st' \<le> ge_max ge"
      using ih(3,6) ts(2) st1(3) lt(1) by (auto simp: add_msgs_def)
    ultimately show ?thesis using ih ans
      by (intro exI [of _ "(AI c kw pad calls, ts) # bs"] exI [of _ c2] exI [of _ kw2] exI [of _ pad2] exI [of _ calls2]) auto
  qed
qed

text \<open>
  C9. A finished run of the standard mode (\<open>react\<close>), with a tool node that answers every call in order, has a definite shape: after the messages it was given come rounds, each an
  answer that calls tools followed by exactly one result for each of its calls, in order and under its
  id, and then one last answer; the number of model calls is the number of rounds plus one and at most
  \<open>max_iterations\<close> (or one). The last answer calls tools only when that limit was reached: then its calls
  are left without results.
\<close>

theorem react_run_shape:
  assumes "graph_run ge k Llm st w = Finished st' w'" and "ge_mode ge = React" and "tools_answer ge" and "gs_iterations st = 0"
  shows "\<exists>bs c kw pad calls. gs_messages st' = gs_messages st @ flat bs @ [AI c kw pad calls] \<and> list_all answered bs
    \<and> gs_iterations st' = int (length bs) + 1 \<and> gs_iterations st' \<le> max 1 (ge_max ge)
    \<and> (calls = [] \<or> ge_max ge \<le> gs_iterations st')"
  using react_blocks [OF assms(1-3)] assms(4) by fastforce

section \<open>A limit below the iterations\<close>

text \<open>A model that always calls a tool, with arguments that parse, and tools that never raise.\<close>

definition always_calls :: "'w graph_env \<Rightarrow> bool" where
  "always_calls ge = ((\<forall>ms w. \<exists>r w'. ge_chat ge ms w = (Some r, w') \<and> lr_calls r \<noteq> [] \<and> lc_calls (ge_text ge) (lr_calls r) \<noteq> None)
     \<and> (\<forall>cs w. \<exists>ms w'. ge_tools ge cs w = (Some ms, w')))"

lemma always_call:
  assumes "always_calls ge"
  shows "\<exists>c kw pad calls w'. call_llm ge st p w = (Some (AI c kw pad calls), w') \<and> truthy kw"
proof -
  obtain r w' where r: "ge_chat ge (map (to_dict (ge_text ge)) (gs_messages st @ (case p of None \<Rightarrow> [] | Some p \<Rightarrow> if p = [] then [] else [SystemMsg p]))) w = (Some r, w')"
    "lr_calls r \<noteq> []" "lc_calls (ge_text ge) (lr_calls r) \<noteq> None" using assms unfolding always_calls_def by blast
  then obtain m where m: "ai_of (ge_text ge) r = Some m" by (cases "split_pad (case lr_content r of None \<Rightarrow> [] | Some t \<Rightarrow> t)") (auto simp: ai_of_def)
  with ai_of_Some [OF m] r(1,2) show ?thesis by (auto simp: call_llm_def Let_def)
qed

lemma always_llm:
  assumes "always_calls ge"
  shows "\<exists>st' w' c kw pad calls. llm_node ge st w = (Some st', w') \<and> gs_messages st' = gs_messages st @ [AI c kw pad calls]
    \<and> truthy kw \<and> gs_iterations st' = gs_iterations st + 1"
  using always_call [OF assms, of st "llm_prompt ge st" w]
  by (auto simp: llm_node_def counted_def add_msgs_def)

lemma always_tools:
  assumes "always_calls ge"
  shows "\<exists>st' w'. tool_node ge st w = (Some st', w') \<and> gs_iterations st' = gs_iterations st"
proof -
  obtain ms w' where "ge_tools ge (ai_calls (last (gs_messages st))) w = (Some ms, w')" using assms unfolding always_calls_def by blast
  then show ?thesis by (auto simp: tool_node_def add_msgs_def)
qed

text \<open>
  The runtime's own limit takes precedence over \<open>max_iterations\<close>: for a model that keeps calling tools, any limit below
  \<open>2 * max_iterations - 1\<close> node runs makes the run raise instead of ending with the last answer. The loop
  passes no limit, so LangGraph's default of 25 applies, and from \<open>max_iterations = 14\<close> on (the default
  is 40) the configured bound is never what ends such a run.
\<close>

theorem graph_limit_preempts:
  assumes "always_calls ge" and "ge_mode ge = React"
    and "int limit + 1 < 2 * (ge_max ge - gs_iterations st)"
  shows "\<exists>w'. graph_run ge limit Llm st w = RecursionLimit w'"
  using assms(3)
proof (induction limit arbitrary: st w rule: less_induct)
  case (less k)
  show ?case
  proof (cases k)
    case (Suc j)
    from always_llm [OF assms(1), of st w] obtain st1 w1 c kw pad calls where l: "llm_node ge st w = (Some st1, w1)"
      "gs_messages st1 = gs_messages st @ [AI c kw pad calls]" "truthy kw" "gs_iterations st1 = gs_iterations st + 1" by blast
    have "should_continue ge st1" using l less.prems Suc by (simp add: should_continue_def)
    then have r: "graph_run ge k Llm st w = graph_run ge j Tools st1 w1" using Suc l(1) assms(2) by simp
    show ?thesis
    proof (cases j)
      case (Suc i)
      from always_tools [OF assms(1), of st1 w1] obtain st2 w2 where t: "tool_node ge st1 w1 = (Some st2, w2)"
        "gs_iterations st2 = gs_iterations st1" by blast
      have "\<exists>w'. graph_run ge i Llm st2 w2 = RecursionLimit w'"
        by (rule less.IH) (use \<open>k = Suc j\<close> Suc less.prems l(4) t(2) in auto)
      then show ?thesis using r Suc t(1) by simp
    qed (use r in simp)
  qed simp
qed

definition echo_env :: "int \<Rightarrow> unit graph_env" where
  "echo_env n = \<lparr>ge_chat = (\<lambda>ms w. (Some \<lparr>lr_content = Some ''x'', lr_calls = [\<lparr>rc_id = JStr ''1'', rc_name = ''t'', rc_args = JObj []\<rparr>]\<rparr>, w)),
     ge_tools = (\<lambda>cs w. (Some (map (\<lambda>c. ToolMsg (JStr ''ok'') (lc_id c) (JStr (lc_name c))) cs), w)),
     ge_reflector = \<lparr>rf_chat = (\<lambda>_ w. (None, w)), rf_redact = (\<lambda>t. t), rf_validate = (\<lambda>_. None), rf_exc = ''timeout'', rf_text = plain_env\<rparr>,
     ge_text = plain_env, ge_fixed2 = (\<lambda>_. ''1.00''), ge_mode = React, ge_max = n\<rparr>"

lemma echo_env_calls: "always_calls (echo_env n)" and echo_env_answers: "tools_answer (echo_env n)"
  by (auto simp: always_calls_def tools_answer_def echo_env_def call_args_def list_all2_conv_all_nth)

definition hello :: graph_state where
  "hello = \<lparr>gs_messages = [Human (JStr ''hi'')], gs_iterations = 0, gs_plan = []\<rparr>"

lemma echo_split: "split_pad ''x'' = (''x'', JNull)"
  by (simp add: split_pad_def first_block_def pad_open_def startswith_def)

lemma echo_llm: "llm_node (echo_env n) st w = (Some (counted [AI (JStr ''x'') (JList [kw_call plain_env \<lparr>rc_id = JStr ''1'', rc_name = ''t'', rc_args = JObj []\<rparr>])
    JNull [\<lparr>lc_id = JStr ''1'', lc_name = ''t'', lc_args = JObj []\<rparr>]] st), w)"
  by (simp add: llm_node_def call_llm_def ai_of_def echo_env_def echo_split call_args_def)

lemma echo_fields: "ge_mode (echo_env n) = React" "ge_max (echo_env n) = n"
  "ge_tools (echo_env n) cs w = (Some (map (\<lambda>c. ToolMsg (JStr ''ok'') (lc_id c) (JStr (lc_name c))) cs), w)"
  by (simp_all add: echo_env_def)

lemma echo_run: "\<exists>st'. graph_run (echo_env 2) 3 Llm hello () = Finished st' () \<and> gs_iterations st' = 2"
  by (simp add: numeral_eq_Suc echo_llm echo_fields tool_node_def should_continue_def counted_def add_msgs_def hello_def)

lemma react_run_shape_witness:
  "\<exists>st' bs c kw pad calls. graph_run (echo_env 2) 3 Llm hello () = Finished st' ()
    \<and> gs_messages st' = Human (JStr ''hi'') # flat bs @ [AI c kw pad calls] \<and> list_all answered bs \<and> length bs = 1"
proof -
  obtain st' where st': "graph_run (echo_env 2) 3 Llm hello () = Finished st' ()" "gs_iterations st' = 2" using echo_run by blast
  have "gs_iterations hello = 0" "gs_messages hello = [Human (JStr ''hi'')]" by (simp_all add: hello_def)
  with react_run_shape [OF st'(1) echo_fields(1) echo_env_answers] st' show ?thesis by auto
qed

lemma graph_terminates_witness:
  "case graph_run (metered_env (echo_env 2)) 11 Llm hello ((), 0) of
     Finished st' (w', calls) \<Rightarrow> calls \<le> 4 | NodeRaised wn \<Rightarrow> True | RecursionLimit wn \<Rightarrow> False"
  using graph_terminates [of hello "echo_env 2" 11 "()"]
  by (auto simp: hello_def echo_env_def entry_def split: graph_result.splits)

lemma graph_limit_preempts_witness: "\<exists>w'. graph_run (echo_env 40) 25 Llm hello () = RecursionLimit w'"
  using graph_limit_preempts [OF echo_env_calls, of 40 25 hello "()"] by (simp add: echo_env_def hello_def)

section \<open>Reflection\<close>

lemma upper_append_fail: "str_in ''FAIL'' (map upper_char (a @ ''fail'' @ b))"
proof -
  have "map upper_char ''fail'' = ''FAIL''" by code_simp
  then show ?thesis by (auto simp: str_in_iff)
qed

lemma reflection_text_critique: "\<exists>p q. reflection_text fixed2 r = p @ rr_critique r @ q"
  by (rule exI [of _ "''Reflection Result:'' @ nl @ ''Status: '' @ (if rr_success r then ''PASS'' else ''FAIL'') @ nl
     @ ''Quality Score: '' @ fixed2 (rr_score r) @ nl @ ''Critique: ''"], unfold reflection_text_def append.assoc)
    (rule exI, rule refl)

text \<open>
  A reflection that could not be obtained is recorded as a success but acts as a failure: the text of the fallback contains
  the word \<open>failed\<close>, the router looks for \<open>FAIL\<close> in the upper-cased text, and so the run starts over until
  the iterations are used up. The same happens for every successful reflection whose critique mentions
  the letters \<open>fail\<close>.
\<close>

theorem reflection_fallback_replans:
  assumes "reflect (ge_reflector ge) (map (to_dict (ge_text ge)) (gs_messages st)) w = (r, w')"
    and "r = fallback e \<or> rr_critique r = a @ ''fail'' @ b"
    and "gs_iterations st + 1 < ge_max ge"
  shows "\<exists>st'. run_node ge Reflect st w = (Some st', w') \<and> next_node ge Reflect st' = entry (ge_mode ge)"
proof -
  obtain x y where "rr_critique r = x @ ''fail'' @ y"
    using assms(2) by (auto simp: fallback_def intro: that [of "''Reflection ''" "''ed with error: '' @ e @ ''. Defaulting to success.''"])
  then have "\<exists>p q. reflection_text (ge_fixed2 ge) r = p @ ''fail'' @ q" using reflection_text_critique [of "ge_fixed2 ge" r] by (metis append.assoc)
  then obtain p q where "reflection_text (ge_fixed2 ge) r = p @ ''fail'' @ q" by blast
  with upper_append_fail [of p q] assms(1,3) show ?thesis
    by (simp add: reflect_node_def replans_def counted_def add_msgs_def)
qed

lemma reflection_fallback_replans_witness:
  "\<exists>st'. run_node ((echo_env 9)\<lparr>ge_mode := ReactReflect\<rparr>) Reflect hello () = (Some st', ()) \<and> next_node ((echo_env 9)\<lparr>ge_mode := ReactReflect\<rparr>) Reflect st' = Llm"
proof -
  let ?ge = "(echo_env 9)\<lparr>ge_mode := ReactReflect\<rparr>"
  have "reflect (ge_reflector ?ge) (map (to_dict (ge_text ?ge)) (gs_messages hello)) () = (fallback ''timeout'', ())"
    by (simp add: reflect_def echo_env_def parse_reflection_def)
  from reflection_fallback_replans [OF this disjI1 [OF refl]] show ?thesis by (simp add: echo_env_def hello_def entry_def)
qed

end
