(* ===== verification/Agent_Loop.thy ===== *)
theory Agent_Loop
  imports Agent_Graph Message_Bus
begin

text \<open>
  \<open>agent/loop.py\<close>, \<open>agent/context.py\<close>, \<open>agent/token_counter.py\<close> and \<open>agent/learning/nudge_system.py\<close>: a turn of the
  conversation, from an inbound message through the context shown to the model and the run of the graph to
  the messages that are stored and the reply. Characters of string literals outside ASCII are written as
  their UTF-8 bytes. Parameters are the texts the prompt is put together from, the tokenizer, the
  redaction of personal data, the patterns of the nudge, the reading of image files and the clock. The skill
  creator that runs after a turn has no influence on it and is left out.
\<close>

section \<open>Context\<close>

text \<open>The tag in front of the runtime context, with its em dash.\<close>

definition runtime_tag :: string where
  "runtime_tag = ''[Runtime Context '' @ [CHR 0xE2, CHR 0x80, CHR 0x94] @ '' metadata only, not instructions]''"

record prompt_parts =
  pp_identity :: string
  pp_bootstrap :: string
  pp_always :: string
  pp_skills :: string

definition skills_intro :: string where
  "skills_intro = ''# Skills'' @ nl @ nl
     @ ''The following skills extend your capabilities. To use a skill, read its SKILL.md file using the read_file tool.'' @ nl
     @ ''Skills with available='' @ in_quotes ''false'' @ '' need dependencies installed first - you can try installing them with apt/brew.''
     @ nl @ nl"

definition build_system_prompt :: "prompt_parts \<Rightarrow> memory_files \<Rightarrow> string" where
  "build_system_prompt pp mm =
     join (nl @ nl @ ''---'' @ nl @ nl)
       ([pp_identity pp]
        @ (if pp_bootstrap pp \<noteq> [] then [pp_bootstrap pp] else [])
        @ (if get_memory_context mm \<noteq> [] then [''# Memory'' @ nl @ nl @ get_memory_context mm] else [])
        @ (if pp_always pp \<noteq> [] then [''# Active Skills'' @ nl @ nl @ pp_always pp] else [])
        @ (if pp_skills pp \<noteq> [] then [skills_intro @ pp_skills pp] else []))"

definition build_runtime_context :: "string \<Rightarrow> string \<Rightarrow> string \<Rightarrow> string" where
  "build_runtime_context clock channel chat =
     runtime_tag @ nl @ join nl ([''Current Time: '' @ clock]
       @ (if channel \<noteq> [] \<and> chat \<noteq> [] then [''Channel: '' @ channel, ''Chat ID: '' @ chat] else []))"

text \<open>\<open>load_image\<close> gives the data URL of a path that is an image file.\<close>

definition text_part :: "string \<Rightarrow> json" where
  "text_part t = JObj [(''type'', JStr ''text''), (''text'', JStr t)]"

definition image_part :: "string \<Rightarrow> json" where
  "image_part url = JObj [(''type'', JStr ''image_url''), (''image_url'', JObj [(''url'', JStr url)])]"

definition build_user_content :: "(string \<Rightarrow> string option) \<Rightarrow> string \<Rightarrow> string list \<Rightarrow> json" where
  "build_user_content load_image t media =
     (let images = map image_part (List.map_filter load_image media)
      in if images = [] then JStr t else JList (images @ [text_part t]))"

definition merge_context :: "string \<Rightarrow> json \<Rightarrow> json" where
  "merge_context ctx c = (case c of
     JStr t \<Rightarrow> JStr (ctx @ nl @ nl @ t)
   | JList xs \<Rightarrow> JList (text_part ctx # xs)
   | _ \<Rightarrow> c)"

definition build_messages :: "string \<Rightarrow> string \<Rightarrow> msg list \<Rightarrow> json \<Rightarrow> msg list" where
  "build_messages system ctx history content =
     [[(''role'', JStr ''system''), (''content'', JStr system)]] @ history
     @ [[(''role'', JStr ''user''), (''content'', merge_context ctx content)]]"

text \<open>The token count, with the tokenizer of \<open>tiktoken\<close> when it is installed.\<close>

definition count_tokens :: "text_env \<Rightarrow> (string \<Rightarrow> nat) option \<Rightarrow> msg list \<Rightarrow> nat" where
  "count_tokens te enc ms =
     (let texts = map (\<lambda>m. str_of te (dgetd m ''content'' (JStr []))) ms
      in case enc of
           Some f \<Rightarrow> sum_list (map (\<lambda>t. f t + 4) texts)
         | None \<Rightarrow> sum_list (map length texts) div 4)"

definition turn_nudge :: string where
  "turn_nudge = ''[System Nudge] We have reached 10 turns in this session. ''
     @ ''Please review the conversation. If the user has stated any new preferences, ''
     @ ''workflows, or persistent facts, make sure to update long-term memory.''"

definition pattern_nudge :: string where
  "pattern_nudge = ''[System Nudge] The user just shared a potential preference or workflow rule. ''
     @ ''Verify if you should record this preference or rule in long-term memory.''"

definition should_nudge :: "(string \<Rightarrow> bool) \<Rightarrow> msg list \<Rightarrow> string \<Rightarrow> string option" where
  "should_nudge matches history content =
     (let n = length (filter (is_role ''assistant'') history)
      in if n > 0 \<and> n mod 10 = 0 then Some turn_nudge
         else if matches content then Some pattern_nudge else None)"

section \<open>Running the graph\<close>

definition or_empty :: "json \<Rightarrow> json" where
  "or_empty j = (if truthy j then j else JStr [])"

definition or_none :: "json \<Rightarrow> json" where
  "or_none j = (if truthy j then j else JNull)"

text \<open>The conversion to LangChain's messages: a message of any role but these three is left out.\<close>

definition to_lc :: "msg \<Rightarrow> lc_msg option" where
  "to_lc m =
     (let c = or_empty (dgetd m ''content'' JNull)
      in if is_role ''user'' m then Some (Human c)
         else if is_role ''assistant'' m then Some (AI c (or_none (dgetd m ''tool_calls'' JNull)) (or_none (dgetd m ''scratch_pad'' JNull)) [])
         else if is_role ''tool'' m then Some (ToolMsg c (or_empty (dgetd m ''tool_call_id'' JNull)) JNull)
         else None)"

fun from_lc :: "lc_msg \<Rightarrow> msg option" where
  "from_lc (Human c) = Some [(''role'', JStr ''user''), (''content'', c)]"
| "from_lc (AI c kw pad calls) =
     Some [(''role'', JStr ''assistant''), (''content'', c), (''tool_calls'', kw), (''scratch_pad'', pad)]"
| "from_lc (ToolMsg c i n) = Some [(''role'', JStr ''tool''), (''content'', c), (''tool_call_id'', i),
     (''name'', if truthy n then n else JStr ''tool'')]"
| "from_lc (SystemMsg c) = None"

text \<open>The progress reports: the content of answers that call tools, and a hint for each call.\<close>

definition tool_hint :: "text_env \<Rightarrow> lc_call \<Rightarrow> string" where
  "tool_hint te c =
     lc_name c @ ''('' @
       (case lc_args c of
          JObj [(k, JStr v)] \<Rightarrow> in_quotes v
        | JObj [(k, v)] \<Rightarrow> te_str te v
        | a \<Rightarrow> te_dumps te a) @ '')''"

fun progress_of :: "text_env \<Rightarrow> lc_msg \<Rightarrow> (string \<times> bool) list" where
  "progress_of te (AI c kw pad calls) =
     (if calls = [] then []
      else (let t = think_free (str_of te c) in if t = [] then [] else [(t, False)]) @ map (\<lambda>x. (tool_hint te x, True)) calls)"
| "progress_of te _ = []"

record turn_result =
  tr_final :: "string option"
  tr_tools :: "string list"
  tr_messages :: "msg list"
  tr_progress :: "(string \<times> bool) list"

fun is_tool_msg :: "lc_msg \<Rightarrow> bool" where
  "is_tool_msg (ToolMsg c i n) = True"
| "is_tool_msg _ = False"

definition turn_of :: "text_env \<Rightarrow> lc_msg list \<Rightarrow> lc_msg list \<Rightarrow> turn_result" where
  "turn_of te start ms =
     \<lparr>tr_final = (case last ms of AI c kw pad calls \<Rightarrow> Some (str_of te c) | _ \<Rightarrow> None),
      tr_tools = map (\<lambda>_. ''tool'') (filter is_tool_msg ms),
      tr_messages = List.map_filter from_lc ms,
      tr_progress = concat (map (progress_of te) (drop (length start) ms))\<rparr>"

text \<open>\<open>_run_agent_loop\<close>; \<open>None\<close> when the graph raises, or there is no message at all.\<close>

definition run_agent_loop :: "'w graph_env \<Rightarrow> nat \<Rightarrow> msg list \<Rightarrow> 'w \<Rightarrow> turn_result option \<times> 'w" where
  "run_agent_loop ge limit ms w =
     (let start = List.map_filter to_lc ms
      in case graph_run ge limit (entry (ge_mode ge)) \<lparr>gs_messages = start, gs_iterations = 0, gs_plan = []\<rparr> w of
           Finished st w \<Rightarrow> (if gs_messages st = [] then None else Some (turn_of (ge_text ge) start (gs_messages st)), w)
         | NodeRaised w \<Rightarrow> (None, w)
         | RecursionLimit w \<Rightarrow> (None, w))"

section \<open>Storing the turn\<close>

definition max_result :: nat where "max_result = 500"

definition truncated_mark :: string where
  "truncated_mark = nl @ ''... (truncated)''"

fun save_items :: "json list \<Rightarrow> json list option" where
  "save_items [] = Some []"
| "save_items (JObj d # xs) =
     (let rest = save_items xs in
      case (dget d ''type'', dget d ''text'') of
        (Some (JStr ty), t) \<Rightarrow>
          if ty = ''text'' \<and> (case t of Some (JStr s) \<Rightarrow> startswith s runtime_tag | _ \<Rightarrow> False) then rest
          else if ty = ''image_url'' then
            (case dgetd d ''image_url'' (JObj []) of
               JObj u \<Rightarrow>
                 (case dgetd u ''url'' (JStr []) of
                    JStr s \<Rightarrow> map_option ((#) (if startswith s ''data:image/'' then text_part ''[image]'' else JObj d)) rest
                  | _ \<Rightarrow> None)
             | _ \<Rightarrow> None)
          else map_option ((#) (JObj d)) rest
      | _ \<Rightarrow> map_option ((#) (JObj d)) rest)"
| "save_items (_ # xs) = None"

text \<open>What is stored of a message: an exception, nothing, or an entry.\<close>

datatype saved = SaveRaises | Skipped | Entry msg

definition user_text :: "string \<Rightarrow> msg \<Rightarrow> saved" where
  "user_text t m =
     (if startswith t runtime_tag
      then (case split_at (nl @ nl) t of
              Some (_, rest) \<Rightarrow> if strip rest \<noteq> [] then Entry (dset ''content'' (JStr rest) m) else Skipped
            | None \<Rightarrow> Skipped)
      else Entry m)"

definition save_content :: "msg \<Rightarrow> saved" where
  "save_content m =
     (let c = dgetd m ''content'' JNull in
      if is_role ''assistant'' m \<and> \<not> truthy c \<and> \<not> truthy (dgetd m ''tool_calls'' JNull) then Skipped
      else if is_role ''tool'' m then
        (case c of JStr t \<Rightarrow> if length t > max_result then Entry (dset ''content'' (JStr (take max_result t @ truncated_mark)) m) else Entry m
         | _ \<Rightarrow> Entry m)
      else if is_role ''user'' m then
        (case c of
           JStr t \<Rightarrow> user_text t m
         | JList xs \<Rightarrow>
             (case save_items xs of
                None \<Rightarrow> SaveRaises
              | Some [] \<Rightarrow> Skipped
              | Some ys \<Rightarrow> Entry (dset ''content'' (JList ys) m))
         | _ \<Rightarrow> Entry m)
      else Entry m)"

definition stamped :: "string \<Rightarrow> msg \<Rightarrow> msg" where
  "stamped stamp m = (if dhas m ''timestamp'' then m else m @ [(''timestamp'', JStr stamp)])"

text \<open>The history_entries of the messages up to the first one that raises, and whether all were stored.\<close>

fun save_entries :: "string \<Rightarrow> msg list \<Rightarrow> msg list \<times> bool" where
  "save_entries stamp [] = ([], True)"
| "save_entries stamp (m # ms) =
     (case save_content m of
        SaveRaises \<Rightarrow> ([], False)
      | Skipped \<Rightarrow> save_entries stamp ms
      | Entry e \<Rightarrow> (let (es, ok) = save_entries stamp ms in (stamped stamp e # es, ok)))"

definition save_turn :: "timestamp \<Rightarrow> string \<Rightarrow> msg list \<Rightarrow> nat \<Rightarrow> session \<Rightarrow> session \<times> bool" where
  "save_turn now stamp ms skip s =
     (let (es, ok) = save_entries stamp (drop skip ms)
      in (s\<lparr>ss_messages := ss_messages s @ es, ss_updated := (if ok then now else ss_updated s)\<rparr>, ok))"

section \<open>A turn\<close>

text \<open>
  \<open>le_sent\<close> and \<open>le_start\<close> read and reset the flag of the message tool, \<open>le_context\<close> sets the routing of the
  tools, all in the state of the tools; \<open>le_ask\<close> is the call of the model that consolidates. \<open>le_streamed\<close> gives the
  pieces of text the provider has handed to \<open>on_token\<close> between two states of the world. A turn is a task that
  \<open>/stop\<close> can cancel where it waits: for the processing lock, for the model that archives or consolidates, in the
  graph, and for the skill creator. \<open>le_cancel\<close> says at which of them the cancellation arrives, \<open>le_cut\<close> in which state it leaves
  the world when it arrives in the graph.
\<close>

datatype waiting = AwaitLock | AwaitArchive | AwaitConsolidation | AwaitGraph | AwaitSkills

record 'w loop_env =
  le_graph :: "'w graph_env"
  le_limit :: nat
  le_window :: int
  le_max_tokens :: int
  le_parts :: prompt_parts
  le_clock :: string
  le_image :: "string \<Rightarrow> string option"
  le_enc :: "(string \<Rightarrow> nat) option"
  le_matches :: "string \<Rightarrow> bool"
  le_pii :: bool
  le_redact :: "string \<Rightarrow> string"
  le_codec :: time_codec
  le_faults :: faults
  le_now :: timestamp
  le_stamp :: string
  le_ask :: "string \<Rightarrow> llm_reply"
  le_sent :: "'w \<Rightarrow> bool"
  le_start :: "'w \<Rightarrow> 'w"
  le_context :: "string \<Rightarrow> string \<Rightarrow> json \<Rightarrow> 'w \<Rightarrow> 'w"
  le_streamed :: "'w \<Rightarrow> 'w \<Rightarrow> string list"
  le_cancel :: "waiting \<Rightarrow> bool"
  le_cut :: "'w \<Rightarrow> 'w"

record 'w agent =
  ag_sessions :: manager
  ag_memory :: memory_files
  ag_consolidating :: "string list"
  ag_tasks :: "string list"
  ag_outbox :: "outbound_message list"
  ag_tools :: 'w

definition outbound :: "string \<Rightarrow> string \<Rightarrow> string \<Rightarrow> msg \<Rightarrow> outbound_message" where
  "outbound channel chat content md =
     \<lparr>om_channel = channel, om_chat = chat, om_content = content, om_reply_to = None, om_media = [], om_metadata = md\<rparr>"

definition redacted :: "'w loop_env \<Rightarrow> string \<Rightarrow> string" where
  "redacted le t = (if le_pii le then le_redact le t else t)"

text \<open>The session object lives in the manager's cache: a change of it is a change there.\<close>

definition put_session :: "session \<Rightarrow> manager \<Rightarrow> manager" where
  "put_session s m = m\<lparr>sm_cache := dset (ss_key s) s (sm_cache m)\<rparr>"

text \<open>
  A turn raises an exception, is cancelled (\<open>CancelledError\<close>, which no \<open>except Exception\<close> catches), or ends with a
  result; that of \<open>_process_message\<close> is the reply, if there is one.
\<close>

datatype 'a turn_outcome = Raises | Cancelled | Ends 'a

type_synonym 'w turn = "outbound_message option turn_outcome \<times> 'w agent"

text \<open>
  The run of the graph, the progress reports and the storing, shared by both kinds of message. What the provider
  streams is published while the graph runs, the progress reports after it.
\<close>

definition graph_turn ::
  "'w loop_env \<Rightarrow> (string \<Rightarrow> outbound_message list) \<Rightarrow> (string \<times> bool \<Rightarrow> outbound_message list) \<Rightarrow> msg list \<Rightarrow> msg list
    \<Rightarrow> session \<Rightarrow> 'w agent \<Rightarrow> turn_result turn_outcome \<times> 'w agent" where
  "graph_turn le token report ms history s a =
     (let (r, w) = (if le_cancel le AwaitGraph then (None, le_cut le (ag_tools a))
                    else run_agent_loop (le_graph le) (le_limit le) ms (ag_tools a));
          a = a\<lparr>ag_tools := w, ag_outbox := ag_outbox a @ concat (map token (le_streamed le (ag_tools a) w))\<rparr>
      in if le_cancel le AwaitGraph then (Cancelled, a)
         else case r of
             None \<Rightarrow> (Raises, a)
           | Some tr \<Rightarrow>
               (let (s', ok) = save_turn (le_now le) (le_stamp le) (tr_messages tr) (1 + length history) s;
                    a = a\<lparr>ag_outbox := ag_outbox a @ concat (map report (tr_progress tr))\<rparr>
                in if ok then (Ends tr, a\<lparr>ag_sessions := save (le_codec le) (le_faults le) s' (ag_sessions a)\<rparr>)
                   else (Raises, a\<lparr>ag_sessions := put_session s' (ag_sessions a)\<rparr>)))"

definition split_origin :: "string \<Rightarrow> string \<times> string" where
  "split_origin chat = (case split_at '':'' chat of Some (c, r) \<Rightarrow> (c, r) | None \<Rightarrow> (''cli'', chat))"

definition message_id :: "inbound_message \<Rightarrow> json" where
  "message_id msg = dgetd (im_metadata msg) ''message_id'' JNull"

definition process_system ::
  "'w loop_env \<Rightarrow> (string \<Rightarrow> outbound_message list) \<Rightarrow> inbound_message \<Rightarrow> string \<Rightarrow> 'w agent \<Rightarrow> 'w turn" where
  "process_system le token msg content a =
     (let (channel, chat) = split_origin (im_chat msg);
          (s, sm) = get_or_create (le_codec le) (le_faults le) (le_now le) (channel @ '':'' @ chat) (ag_sessions a);
          a = a\<lparr>ag_sessions := sm, ag_tools := le_context le channel chat (message_id msg) (ag_tools a)\<rparr>
      in case get_history (le_window le) s of
           None \<Rightarrow> (Raises, a)
         | Some history \<Rightarrow>
             (let ms = build_messages (build_system_prompt (le_parts le) (ag_memory a))
                         (build_runtime_context (le_clock le) channel chat) history (JStr content);
                  (r, a) = graph_turn le token (\<lambda>_. []) ms history s a
              in (map_turn_outcome (\<lambda>tr. Some (outbound channel chat
                     (case tr_final tr of None \<Rightarrow> ''Background task completed.'' | Some t \<Rightarrow> if t = [] then ''Background task completed.'' else t) [])) r, a)))"

text \<open>\<open>/new\<close>: the messages not yet consolidated are archived under a session of their own, then the session is cleared.\<close>

definition archival_failed :: string where
  "archival_failed = ''Memory archival failed, session not cleared. Please try again.''"

definition archive :: "'w loop_env \<Rightarrow> session \<Rightarrow> memory_files \<Rightarrow> bool \<times> memory_files" where
  "archive le s mm =
     (if unconsolidated s = [] then (True, mm)
      else case consolidate (ge_text (le_graph le)) (le_ask le) True (le_window le)
                  ((new_session (le_now le) (ss_key s))\<lparr>ss_messages := unconsolidated s\<rparr>) mm of
             None \<Rightarrow> (False, mm)
           | Some (ok, _, mm) \<Rightarrow> (ok, mm))"

definition new_command :: "'w loop_env \<Rightarrow> inbound_message \<Rightarrow> session \<Rightarrow> 'w agent \<Rightarrow> 'w turn" where
  "new_command le msg s a =
     (let (ok, mm) = (if le_cancel le AwaitArchive then (False, ag_memory a) else archive le s (ag_memory a));
          a = a\<lparr>ag_memory := mm, ag_consolidating := removeAll (ss_key s) (ag_consolidating a)\<rparr>
      in if le_cancel le AwaitArchive then (Cancelled, a)
         else if \<not> ok then (Ends (Some (outbound (im_channel msg) (im_chat msg) archival_failed [])), a)
         else (let s = session_clear (le_now le) s;
                   sm = invalidate_session (le_faults le) (ss_key s) (save (le_codec le) (le_faults le) s (ag_sessions a))
               in (Ends (Some (outbound (im_channel msg) (im_chat msg) ''New session started.'' [])), a\<lparr>ag_sessions := sm\<rparr>)))"

text \<open>The help text, with the cat and the dashes of the source as UTF-8.\<close>

definition dash :: string where "dash = '' '' @ [CHR 0xE2, CHR 0x80, CHR 0x94] @ '' ''"

definition help_text :: string where
  "help_text = [CHR 0xF0, CHR 0x9F, CHR 0x90, CHR 0x88] @ '' amberclaw commands:'' @ nl
     @ ''/new'' @ dash @ ''Start a new conversation'' @ nl
     @ ''/stop'' @ dash @ ''Stop the current task'' @ nl
     @ ''/feedback <msg>'' @ dash @ ''Provide self-improvement feedback'' @ nl
     @ ''/help'' @ dash @ ''Show available commands''"

text \<open>A background consolidation is started when enough messages wait and none is under way for the session.\<close>

definition start_consolidation :: "'w loop_env \<Rightarrow> session \<Rightarrow> 'w agent \<Rightarrow> 'w agent" where
  "start_consolidation le s a =
     (if int (length (ss_messages s)) - ss_last s \<ge> le_window le \<and> ss_key s \<notin> set (ag_consolidating a)
      then a\<lparr>ag_consolidating := ss_key s # ag_consolidating a, ag_tasks := ag_tasks a @ [ss_key s]\<rparr>
      else a)"

text \<open>
  The budget check: above 95 percent the session is consolidated at once and its result ignored; above
  80 percent there is only a warning.
\<close>

definition budget_limit :: "'w loop_env \<Rightarrow> int" where
  "budget_limit le = (if le_max_tokens le = 0 then 128000 else le_max_tokens le)"

definition near_limit :: string where
  "near_limit = ''Context window near 95% limit. Triggered automatic summarization.''"

definition check_budget ::
  "'w loop_env \<Rightarrow> msg list \<Rightarrow> session \<Rightarrow> memory_files \<Rightarrow> (string option \<times> session \<times> memory_files) turn_outcome" where
  "check_budget le ms s mm =
     (let n = int (count_tokens (ge_text (le_graph le)) (le_enc le) ms); limit = budget_limit le
      in if 100 * n > 95 * limit
         then (if le_cancel le AwaitConsolidation then Cancelled
               else case consolidate (ge_text (le_graph le)) (le_ask le) False (le_window le) s mm of
                   None \<Rightarrow> Raises
                 | Some (_, s, mm) \<Rightarrow> Ends (Some near_limit, s, mm))
         else if 100 * n > 80 * limit
         then Ends (Some (''Context window at '' @ show_int (py_int (rat_of_int n / rat_of_int limit * 100)) @ ''% capacity. Consider /new soon.''), s, mm)
         else Ends (None, s, mm))"

definition progress_message :: "'w loop_env \<Rightarrow> inbound_message \<Rightarrow> string \<times> bool \<Rightarrow> outbound_message" where
  "progress_message le msg p = outbound (im_channel msg) (im_chat msg) (redacted le (fst p))
     (dset ''_tool_hint'' (JBool (snd p)) (dset ''_progress'' (JBool True) (im_metadata msg)))"

definition final_text :: "'w loop_env \<Rightarrow> string option \<Rightarrow> string option \<Rightarrow> string" where
  "final_text le final warning =
     redacted le ((case final of None \<Rightarrow> ''I'' @ [CHR 0x27] @ ''ve completed processing but have no response to give.'' | Some t \<Rightarrow> t)
       @ (case warning of None \<Rightarrow> [] | Some x \<Rightarrow> nl @ nl @ ''[System] '' @ x))"

text \<open>What the model is given for a user's message, with the nudge at the end.\<close>

definition turn_messages :: "'w loop_env \<Rightarrow> inbound_message \<Rightarrow> string \<Rightarrow> msg list \<Rightarrow> memory_files \<Rightarrow> msg list" where
  "turn_messages le msg content history mm =
     build_messages (build_system_prompt (le_parts le) mm)
       (build_runtime_context (le_clock le) (im_channel msg) (im_chat msg)) history
       (build_user_content (le_image le) content (im_media msg))
     @ (case should_nudge (le_matches le) history content of
          None \<Rightarrow> [] | Some n \<Rightarrow> [[(''role'', JStr ''system''), (''content'', JStr n)]])"

definition process_chat ::
  "'w loop_env \<Rightarrow> (string \<Rightarrow> outbound_message list) \<Rightarrow> inbound_message \<Rightarrow> string \<Rightarrow> session \<Rightarrow> 'w agent \<Rightarrow> 'w turn" where
  "process_chat le token msg content s a =
     (let a = start_consolidation le s a;
          a = a\<lparr>ag_tools := le_start le (le_context le (im_channel msg) (im_chat msg) (message_id msg) (ag_tools a))\<rparr>
      in case get_history (le_window le) s of
           None \<Rightarrow> (Raises, a)
         | Some history \<Rightarrow>
             (let ms = turn_messages le msg content history (ag_memory a)
              in case check_budget le ms s (ag_memory a) of
                   Raises \<Rightarrow> (Raises, a)
                 | Cancelled \<Rightarrow> (Cancelled, a)
                 | Ends (warning, s, mm) \<Rightarrow>
                     (let a = a\<lparr>ag_memory := mm, ag_sessions := put_session s (ag_sessions a)\<rparr>;
                          (r, a) = graph_turn le token (\<lambda>p. [progress_message le msg p]) ms history s a
                      in (case r of
                            Ends tr \<Rightarrow>
                              if le_cancel le AwaitSkills then Cancelled
                              else if le_sent le (ag_tools a) then Ends None
                              else Ends (Some (outbound (im_channel msg) (im_chat msg) (final_text le (tr_final tr) warning) (im_metadata msg)))
                          | Cancelled \<Rightarrow> Cancelled
                          | Raises \<Rightarrow> Raises, a))))"

definition process_message ::
  "'w loop_env \<Rightarrow> (string \<Rightarrow> outbound_message list) \<Rightarrow> inbound_message \<Rightarrow> 'w agent \<Rightarrow> 'w turn" where
  "process_message le token msg a =
     (let content = redacted le (im_content msg)
      in if im_channel msg = ''system'' then process_system le token msg content a
         else (let (s, sm) = get_or_create (le_codec le) (le_faults le) (le_now le) (session_key msg) (ag_sessions a);
                   a = a\<lparr>ag_sessions := sm\<rparr>; cmd = lower (strip content)
               in if cmd = ''/new'' then new_command le msg s a
                  else if cmd = ''/help'' then (Ends (Some (outbound (im_channel msg) (im_chat msg) help_text [])), a)
                  else if startswith cmd ''/feedback '' then
                    (Ends (Some (outbound (im_channel msg) (im_chat msg) ''Feedback stored for future self-improvement.'' [])),
                     a\<lparr>ag_memory := append_feedback (strip (drop (length ''/feedback '') content)) (ag_memory a)\<rparr>)
                  else process_chat le token msg content s a))"

text \<open>
  \<open>_dispatch\<close>, with \<open>on_token\<close>: under the processing lock the reply is published; a turn without a reply is an
  empty message on the command line, an exception an apology; a cancelled turn publishes nothing more.
\<close>

definition token_message :: "inbound_message \<Rightarrow> string \<Rightarrow> outbound_message" where
  "token_message msg t = outbound (im_channel msg) (im_chat msg) t [(''_token'', JBool True), (''message_id'', message_id msg)]"

definition dispatch :: "'w loop_env \<Rightarrow> inbound_message \<Rightarrow> 'w agent \<Rightarrow> 'w agent" where
  "dispatch le msg a =
     (if le_cancel le AwaitLock then a
      else let (r, a) = process_message le (\<lambda>t. [token_message msg t]) msg a
           in a\<lparr>ag_outbox := ag_outbox a @
                (case r of
                   Raises \<Rightarrow> [outbound (im_channel msg) (im_chat msg) ''Sorry, I encountered an error.'' []]
                 | Cancelled \<Rightarrow> []
                 | Ends (Some m) \<Rightarrow> [m]
                 | Ends None \<Rightarrow> if im_channel msg = ''cli'' then [outbound (im_channel msg) (im_chat msg) [] (im_metadata msg)] else [])\<rparr>)"

text \<open>\<open>process_direct\<close> with no callbacks; the result is the text returned, or the exception.\<close>

definition process_direct :: "'w loop_env \<Rightarrow> inbound_message \<Rightarrow> 'w agent \<Rightarrow> string turn_outcome \<times> 'w agent" where
  "process_direct le msg a =
     (let (r, a) = process_message le (\<lambda>_. []) msg a
      in (map_turn_outcome (\<lambda>m. case m of None \<Rightarrow> [] | Some m \<Rightarrow> om_content m) r, a))"

section \<open>What the model does not see\<close>

lemma map_filter_append: "List.map_filter f (xs @ ys) = List.map_filter f xs @ List.map_filter f ys"
  by (simp add: List.map_filter_def)

lemma to_lc_system: "to_lc [(''role'', JStr ''system''), (''content'', c)] = None"
  by (simp add: to_lc_def is_role_def)

lemma to_lc_user: "to_lc [(''role'', JStr ''user''), (''content'', c)] = Some (Human (or_empty c))"
  by (simp add: to_lc_def is_role_def dgetd_def)

lemma start_of_turn:
  "List.map_filter to_lc (turn_messages le msg content history mm) =
     List.map_filter to_lc history @
     [Human (or_empty (merge_context (build_runtime_context (le_clock le) (im_channel msg) (im_chat msg))
        (build_user_content (le_image le) content (im_media msg))))]"
  by (auto simp: turn_messages_def build_messages_def map_filter_append to_lc_system to_lc_user map_filter_simps split: option.split)

text \<open>
  The system prompt never reaches the model: the conversion to LangChain's messages leaves out every message of the role
  \<open>system\<close>, so the run of a turn is the same for every identity, every bootstrap file, every set of skills,
  every content of the long-term memory and every nudge.
\<close>

theorem system_prompt_ignored:
  "run_agent_loop ge limit (turn_messages le msg content history mm) w =
   run_agent_loop ge limit (turn_messages (le\<lparr>le_parts := parts, le_matches := matches\<rparr>) msg content history mm') w"
  unfolding run_agent_loop_def start_of_turn by simp

section \<open>What is stored of a turn\<close>

fun non_human :: "lc_msg \<Rightarrow> bool" where
  "non_human (Human c) = False"
| "non_human _ = True"

lemma answers_non_human:
  assumes "tools_answer ge" and "ge_tools ge cs w = (Some ms, w')"
  shows "list_all non_human ms"
proof -
  have "list_all2 (\<lambda>c m. \<exists>x n. m = ToolMsg x (lc_id c) n) cs ms" using assms unfolding tools_answer_def by blast
  then show ?thesis by (induction rule: list_all2_induct) auto
qed

lemma run_node_non_human:
  assumes "tools_answer ge" and "run_node ge n st w = (Some st', w')"
  shows "\<exists>new. gs_messages st' = gs_messages st @ new \<and> list_all non_human new"
proof -
  have ai: "call_llm ge st p w = (Some m, w'') \<Longrightarrow> non_human m" for p m w''
    using ai_of_Some by (fastforce simp: call_llm_def Let_def Option.bind_eq_Some_conv split: prod.splits)
  show ?thesis
  proof (cases n)
    case Planner
    then show ?thesis using assms(2) ai by (auto simp: planner_node_def counted_def add_msgs_def split: prod.splits)
  next
    case Llm
    then show ?thesis using assms(2) ai by (auto simp: llm_node_def counted_def add_msgs_def split: prod.splits)
  next
    case Tools
    then show ?thesis using assms(2) answers_non_human [OF assms(1)] by (auto simp: tool_node_def add_msgs_def split: prod.splits)
  next
    case Reflect
    then show ?thesis using assms(2) by (auto simp: reflect_node_def counted_def add_msgs_def split: prod.splits)
  next
    case Finish
    then show ?thesis using assms(2) by auto
  qed
qed

lemma graph_run_non_human:
  assumes "tools_answer ge" and "graph_run ge k n st w = Finished st' w'"
  shows "\<exists>new. gs_messages st' = gs_messages st @ new \<and> list_all non_human new"
  using assms(2)
proof (induction k arbitrary: n st w)
  case 0
  then show ?case by (cases n) auto
next
  case (Suc k)
  show ?case
  proof (cases "n = Finish")
    case True
    then show ?thesis using Suc.prems by auto
  next
    case False
    with Suc.prems obtain st1 w1 where r: "run_node ge n st w = (Some st1, w1)"
      and rest: "graph_run ge k (next_node ge n st1) st1 w1 = Finished st' w'"
      by (auto simp: graph_run_Suc split: prod.splits option.splits)
    from run_node_non_human [OF assms(1) r] Suc.IH [OF rest] show ?thesis by fastforce
  qed
qed

lemma from_lc_not_user: "non_human m \<Longrightarrow> from_lc m = Some d \<Longrightarrow> \<not> is_role ''user'' d"
  by (cases m) (auto simp: is_role_def)

lemma from_lc_all_not_user: "list_all non_human ms \<Longrightarrow> list_all (\<lambda>d. \<not> is_role ''user'' d) (List.map_filter from_lc ms)"
  by (induction ms) (auto simp: map_filter_simps from_lc_not_user split: option.split)

lemma length_map_filter: "length (List.map_filter f xs) \<le> length xs"
  by (simp add: List.map_filter_def)

lemma save_content_role: "save_content m = Entry e \<Longrightarrow> is_role r e = is_role r m"
  by (auto simp: save_content_def user_text_def is_role_def Let_def split: if_splits json.splits option.splits list.splits prod.splits)

lemma stamped_role: "is_role r (stamped t m) = is_role r m"
  by (auto simp: stamped_def is_role_def map_add_def split: option.split)

lemma save_entries_not_user:
  assumes "list_all (\<lambda>d. \<not> is_role ''user'' d) ms"
  shows "list_all (\<lambda>d. \<not> is_role ''user'' d) (fst (save_entries stamp ms))"
  using assms
  by (induction ms) (auto simp: stamped_role save_content_role split: saved.splits prod.splits)

lemma list_all_drop: "list_all P xs \<Longrightarrow> list_all P (drop n xs)"
  by (auto simp: list_all_iff dest: in_set_dropD)

text \<open>Whatever the messages given to the graph, skipping one more than the history skips the user's message.\<close>

lemma turn_stores_no_user:
  assumes "tools_answer ge" and "run_agent_loop ge limit ms w = (Some tr, w')"
    and "length (List.map_filter to_lc ms) \<le> skip"
  shows "\<exists>new. ss_messages (fst (save_turn now stamp (tr_messages tr) skip s)) = ss_messages s @ new \<and> list_all (\<lambda>d. \<not> is_role ''user'' d) new"
proof -
  let ?start = "List.map_filter to_lc ms"
  from assms(2) obtain st where run: "graph_run ge limit (entry (ge_mode ge)) \<lparr>gs_messages = ?start, gs_iterations = 0, gs_plan = []\<rparr> w = Finished st w'"
    and tr: "tr_messages tr = List.map_filter from_lc (gs_messages st)"
    by (auto simp: run_agent_loop_def Let_def turn_of_def split: graph_result.splits if_splits)
  from graph_run_non_human [OF assms(1) run] obtain new where new: "gs_messages st = ?start @ new" "list_all non_human new" by auto
  let ?a = "List.map_filter from_lc ?start"
  have "length ?a \<le> length ?start" by (rule length_map_filter)
  then have "drop skip (tr_messages tr) = drop (skip - length ?a) (List.map_filter from_lc new)"
    using assms(3) tr new(1) by (simp add: map_filter_append)
  then have "list_all (\<lambda>d. \<not> is_role ''user'' d) (drop skip (tr_messages tr))"
    using from_lc_all_not_user [OF new(2)] by (simp add: list_all_drop)
  from save_entries_not_user [OF this, of stamp] show ?thesis
    by (auto simp: save_turn_def split: prod.splits)
qed

section \<open>A conversation has no user in it\<close>

abbreviation users_free :: "msg list \<Rightarrow> bool" where
  "users_free ms \<equiv> list_all (\<lambda>d. \<not> is_role ''user'' d) ms"

fun line_free :: "file_line \<Rightarrow> bool" where
  "line_free (JsonLine (JObj d)) = (\<not> is_role ''user'' d)"
| "line_free _ = True"

definition no_users :: "manager \<Rightarrow> bool" where
  "no_users m = (sm_redis m = None \<and> sm_db m = None \<and> sm_legacy m = []
     \<and> list_all (\<lambda>s. users_free (ss_messages s)) (dvals (sm_cache m)) \<and> list_all (list_all line_free) (dvals (sm_files m)))"

lemma list_all_dset: "list_all P (dvals d) \<Longrightarrow> P v \<Longrightarrow> list_all P (dvals (dset k v d))"
  unfolding list_all_iff using dvals_dset [of k v d] by blast

lemma list_all_dpop: "list_all P (dvals d) \<Longrightarrow> list_all P (dvals (dpop k d))"
  by (auto simp: list_all_iff AList.delete_eq)

lemma list_all_dget: "list_all P (dvals d) \<Longrightarrow> dget d k = Some v \<Longrightarrow> P v"
  by (force simp: list_all_iff dest: map_of_SomeD)

lemma load_lines_free:
  assumes "load_lines tc ls (ms, r) = Some (ms', r')" and "list_all line_free ls" and "users_free ms"
  shows "users_free ms'"
  using assms
proof (induction tc ls "(ms, r)" arbitrary: ms r rule: load_lines.induct)
  case (3 tc d ls)
  then show ?case by (auto simp: load_object_def split: option.splits if_splits prod.splits json.splits)
qed auto

lemma session_lines_free: "users_free (ss_messages s) \<Longrightarrow> list_all line_free (session_lines tc s)"
  by (auto simp: session_lines_def is_role_def list_all_iff)

lemma no_users_save: "no_users m \<Longrightarrow> users_free (ss_messages s) \<Longrightarrow> no_users (save tc f s m)"
  by (auto simp: no_users_def sm_db_save intro!: list_all_dset session_lines_free)

lemma no_users_put: "no_users m \<Longrightarrow> users_free (ss_messages s) \<Longrightarrow> no_users (put_session s m)"
  by (auto simp: no_users_def put_session_def intro!: list_all_dset)

lemma no_users_invalidate: "no_users m \<Longrightarrow> no_users (invalidate_session f k m)"
  by (auto simp: no_users_def invalidate_session_def intro!: list_all_dpop)

lemma no_users_get:
  assumes "no_users m" and "get_or_create tc f now k m = (s, m')"
  shows "no_users m' \<and> users_free (ss_messages s)"
proof (cases "dget (sm_cache m) k")
  case (Some x)
  with assms show ?thesis by (auto simp: get_or_create_def no_users_def dest: list_all_dget)
next
  case None
  have m: "sm_redis m = None" "sm_db m = None" "sm_legacy m = []" using assms(1) by (auto simp: no_users_def)
  have mig: "migrate f p m = m" for p using m by (auto simp: migrate_def split: option.split)
  have free: "users_free (ss_messages (case r of None \<Rightarrow> new_session now k | Some s \<Rightarrow> s))"
    if "load_session tc f now k m = (r, m2)" for r m2
  proof (cases r)
    case (Some x)
    with that m mig obtain ls where ls: "dget (sm_files m) (session_path k) = Some ls" "load_file tc now k ls = Some x"
      by (auto simp: load_session_def split: option.splits)
    then have "list_all line_free ls" using assms(1) by (auto simp: no_users_def dest: list_all_dget)
    with ls(2) have "users_free (ss_messages x)" by (auto simp: load_file_def dest: load_lines_free)
    with Some show ?thesis by simp
  qed (simp add: new_session_def)
  have "snd (load_session tc f now k m) = m" using m mig by (auto simp: load_session_def split: option.split)
  then show ?thesis using assms None m free
    by (auto simp: get_or_create_def redis_load_def Let_def no_users_def split: prod.splits intro!: list_all_dset)
qed

lemma consolidate_messages:
  assumes "consolidate te ask ar window s mm = Some (b, s', mm')"
  shows "ss_messages s' = ss_messages s \<and> ss_key s' = ss_key s"
  using assms by (auto simp: consolidate_def consolidate_end_def split: begun.splits option.splits)

lemma check_budget_messages:
  assumes "check_budget le ms s mm = Ends (x, s', mm')"
  shows "ss_messages s' = ss_messages s \<and> ss_key s' = ss_key s"
  using assms consolidate_messages by (auto simp: check_budget_def Let_def split: if_splits option.splits)

lemma graph_turn_no_users:
  assumes "tools_answer (le_graph le)" and "no_users (ag_sessions a)" and "users_free (ss_messages s)"
    and "length (List.map_filter to_lc ms) \<le> 1 + length history" and "graph_turn le tok rep ms history s a = (r, a')"
  shows "no_users (ag_sessions a')"
proof (cases "le_cancel le AwaitGraph")
  case False
  obtain x w where Pair: "run_agent_loop (le_graph le) (le_limit le) ms (ag_tools a) = (x, w)" by fastforce
  show ?thesis
  proof (cases x)
    case None
    then show ?thesis using assms(2,5) Pair False by (auto simp: graph_turn_def Let_def)
  next
    case (Some tr)
    let ?t = "save_turn (le_now le) (le_stamp le) (tr_messages tr) (1 + length history) s"
    have "run_agent_loop (le_graph le) (le_limit le) ms (ag_tools a) = (Some tr, w)" using Pair Some by simp
    from turn_stores_no_user [OF assms(1) this assms(4), of "le_now le" "le_stamp le" s] assms(3)
    have "users_free (ss_messages (fst ?t))" by auto
    then show ?thesis using assms(2,5) Pair Some False
      by (auto simp: graph_turn_def Let_def no_users_save no_users_put split: prod.splits if_splits)
  qed
qed (use assms(2,5) in \<open>auto simp: graph_turn_def Let_def\<close>)

lemma start_consolidation_sessions [simp]: "ag_sessions (start_consolidation le s a) = ag_sessions a"
  by (simp add: start_consolidation_def)

lemma history_entries_length: "history_entries ms = Some h \<Longrightarrow> length h = length ms"
  using history_entries_Some list_all2_lengthD by metis

lemma process_system_no_users:
  assumes "tools_answer (le_graph le)" and "no_users (ag_sessions a)"
  shows "no_users (ag_sessions (snd (process_system le tok msg content a)))"
proof -
  obtain channel chat where o: "split_origin (im_chat msg) = (channel, chat)" by fastforce
  obtain s sm where g: "get_or_create (le_codec le) (le_faults le) (le_now le) (channel @ '':'' @ chat) (ag_sessions a) = (s, sm)" by fastforce
  from no_users_get [OF assms(2) g] have n: "no_users sm" "users_free (ss_messages s)" by auto
  let ?a = "a\<lparr>ag_sessions := sm, ag_tools := le_context le channel chat (message_id msg) (ag_tools a)\<rparr>"
  show ?thesis
  proof (cases "get_history (le_window le) s")
    case (Some history)
    let ?ms = "build_messages (build_system_prompt (le_parts le) (ag_memory a))
        (build_runtime_context (le_clock le) channel chat) history (JStr content)"
    have "List.map_filter to_lc ?ms = List.map_filter to_lc history @ [Human (or_empty (merge_context (build_runtime_context (le_clock le) channel chat) (JStr content)))]"
      by (simp add: build_messages_def map_filter_append to_lc_system to_lc_user map_filter_simps)
    then have l: "length (List.map_filter to_lc ?ms) \<le> 1 + length history" using length_map_filter [of to_lc history] by simp
    obtain r a' where t: "graph_turn le tok (\<lambda>_. []) ?ms history s ?a = (r, a')" by fastforce
    from graph_turn_no_users [OF assms(1) _ n(2) l t] n(1) have "no_users (ag_sessions a')" by simp
    then show ?thesis using o g Some t by (simp add: process_system_def)
  qed (use o g n in \<open>simp add: process_system_def\<close>)
qed

lemma process_chat_no_users:
  assumes "tools_answer (le_graph le)" and "no_users (ag_sessions a)" and "users_free (ss_messages s)"
  shows "no_users (ag_sessions (snd (process_chat le tok msg content s a)))"
proof (cases "get_history (le_window le) s")
  case None
  then show ?thesis using assms(2) by (simp add: process_chat_def Let_def)
next
  case (Some history)
  let ?a = "(start_consolidation le s a)\<lparr>ag_tools := le_start le (le_context le (im_channel msg) (im_chat msg) (message_id msg) (ag_tools (start_consolidation le s a)))\<rparr>"
  let ?ms = "turn_messages le msg content history (ag_memory ?a)"
  have l: "length (List.map_filter to_lc ?ms) \<le> 1 + length history"
    unfolding start_of_turn using length_map_filter [of to_lc history] by simp
  show ?thesis
  proof (cases "check_budget le ?ms s (ag_memory ?a)")
    case (Ends x)
    then obtain wn s' mm where x: "check_budget le ?ms s (ag_memory ?a) = Ends (wn, s', mm)" by (cases x) auto
    have f: "users_free (ss_messages s')" using check_budget_messages [OF x] assms(3) by simp
    let ?b = "?a\<lparr>ag_memory := mm, ag_sessions := put_session s' (ag_sessions ?a)\<rparr>"
    obtain r a' where t: "graph_turn le tok (\<lambda>p. [progress_message le msg p]) ?ms history s' ?b = (r, a')" by fastforce
    have "no_users (ag_sessions a')" by (rule graph_turn_no_users [OF assms(1) _ f l t]) (simp add: assms(2) f no_users_put)
    then show ?thesis using Some x t by (simp add: process_chat_def Let_def)
  qed (use assms(2) Some in \<open>simp_all add: process_chat_def Let_def\<close>)
qed

lemma process_message_no_users:
  assumes "tools_answer (le_graph le)" and "no_users (ag_sessions a)"
  shows "no_users (ag_sessions (snd (process_message le tok msg a)))"
proof (cases "im_channel msg = ''system''")
  case True
  then show ?thesis using process_system_no_users [OF assms] by (simp add: process_message_def)
next
  case False
  obtain s sm where g: "get_or_create (le_codec le) (le_faults le) (le_now le) (session_key msg) (ag_sessions a) = (s, sm)" by fastforce
  from no_users_get [OF assms(2) g] have n: "no_users sm" "users_free (ss_messages s)" by auto
  have "no_users (ag_sessions (snd (new_command le msg s (a\<lparr>ag_sessions := sm\<rparr>))))"
    using n(1) by (auto simp: new_command_def session_clear_def Let_def split: prod.split intro!: no_users_invalidate no_users_save)
  moreover have "no_users (ag_sessions (snd (process_chat le tok msg content s (a\<lparr>ag_sessions := sm\<rparr>))))" for content
    by (rule process_chat_no_users [OF assms(1)]) (use n in auto)
  ultimately show ?thesis using False g n by (simp add: process_message_def Let_def)
qed

lemma dispatch_no_users:
  assumes "tools_answer (le_graph le)" and "no_users (ag_sessions a)"
  shows "no_users (ag_sessions (dispatch le msg a))"
  using process_message_no_users [OF assms] assms(2) by (simp add: dispatch_def case_prod_beta Let_def)

lemma dispatches_no_users:
  assumes "list_all (\<lambda>(le, msg). tools_answer (le_graph le)) es" and "no_users (ag_sessions a)"
  shows "no_users (ag_sessions (fold (\<lambda>(le, msg). dispatch le msg) es a))"
  using assms by (induction es arbitrary: a) (auto simp: dispatch_no_users)

lemma history_no_users:
  assumes "users_free (ss_messages s)" and "get_history n s = Some h"
  shows "users_free h"
proof -
  have sub: "set (align (slice_last n (unconsolidated s))) \<subseteq> set (ss_messages s)"
    using align_suffix [of "slice_last n (unconsolidated s)"] slice_last_suffix [of "unconsolidated s" n]
    by (metis (no_types, opaque_lifting) Un_iff set_append set_drop_subset slice_from_def subset_iff unconsolidated_def)
  have "list_all2 (\<lambda>m e. history_entry m = Some e) (align (slice_last n (unconsolidated s))) h"
    using assms(2) by (simp add: get_history_def history_entries_Some)
  then have "list_all2 (\<lambda>m e. is_role ''user'' e = is_role ''user'' m) (align (slice_last n (unconsolidated s))) h"
    by (rule list_all2_mono) (simp add: history_entry_fields(2))
  moreover have "users_free (align (slice_last n (unconsolidated s)))" using sub assms(1) by (auto simp: list_all_iff)
  ultimately show ?thesis by (auto simp: list_all_length list_all2_conv_all_nth)
qed

definition new_agent :: "'w \<Rightarrow> 'w agent" where
  "new_agent w = \<lparr>ag_sessions = empty_manager, ag_memory = no_memory, ag_consolidating = [], ag_tasks = [], ag_outbox = [], ag_tools = w\<rparr>"

text \<open>
  The conversation forgets what users said: since the system message is dropped before the run, skipping one message more
  than the history skips the user's message, and it is never stored. From an empty store, after any
  sequence of turns of users and of the system, on any sessions, no stored session and no history shown
  to the model contains a message of a user, whatever the model and the tools do.
\<close>

theorem conversation_forgets_users:
  assumes "list_all (\<lambda>(le, msg). tools_answer (le_graph le)) es"
    and "dget (sm_cache (ag_sessions (fold (\<lambda>(le, msg). dispatch le msg) es (new_agent w)))) k = Some s"
    and "get_history n s = Some h"
  shows "list_all (\<lambda>m. \<not> is_role ''user'' m) (ss_messages s) \<and> list_all (\<lambda>m. \<not> is_role ''user'' m) h"
proof -
  have "no_users (ag_sessions (new_agent w))" by (simp add: new_agent_def no_users_def empty_manager_def)
  from dispatches_no_users [OF assms(1) this] have "no_users (ag_sessions (fold (\<lambda>(le, msg). dispatch le msg) es (new_agent w)))" .
  with assms(2) have "users_free (ss_messages s)" by (auto simp: no_users_def dest: list_all_dget)
  with history_no_users [OF this assms(3)] show ?thesis by simp
qed

definition sample_env :: "unit loop_env" where
  "sample_env = \<lparr>le_graph = echo_env 1, le_limit = 25, le_window = 100, le_max_tokens = 4096,
     le_parts = \<lparr>pp_identity = ''id'', pp_bootstrap = [], pp_always = [], pp_skills = []\<rparr>, le_clock = ''now'', le_image = (\<lambda>_. None),
     le_enc = Some (\<lambda>_. 1), le_matches = (\<lambda>_. False), le_pii = False, le_redact = (\<lambda>t. t), le_codec = sample_codec, le_faults = no_faults,
     le_now = 5, le_stamp = ''t'', le_ask = (\<lambda>_. CallRaises), le_sent = (\<lambda>_. False), le_start = (\<lambda>w. w), le_context = (\<lambda>_ _ _ w. w),
     le_streamed = (\<lambda>_ _. [''x'']), le_cancel = (\<lambda>_. False), le_cut = (\<lambda>w. w)\<rparr>"

definition hi_message :: inbound_message where
  "hi_message = \<lparr>im_channel = ''cli'', im_sender = ''u'', im_chat = ''direct'', im_content = ''hi'', im_timestamp = 0,
     im_media = [], im_metadata = [], im_session_override = None\<rparr>"

lemma conversation_forgets_users_witness:
  "\<exists>s. dget (sm_cache (ag_sessions (fold (\<lambda>(le, msg). dispatch le msg) [(sample_env, hi_message)] (new_agent ())))) ''cli:direct'' = Some s
     \<and> length (ss_messages s) = 1 \<and> list_all (\<lambda>m. \<not> is_role ''user'' m) (ss_messages s)"
proof -
  let ?a = "fold (\<lambda>(le, msg). dispatch le msg) [(sample_env, hi_message)] (new_agent ())"
  have "map_option (\<lambda>s. (length (ss_messages s), get_history 9 s \<noteq> None)) (dget (sm_cache (ag_sessions ?a)) ''cli:direct'') = Some (1, True)"
    by code_simp
  then obtain s h where s: "dget (sm_cache (ag_sessions ?a)) ''cli:direct'' = Some s" "length (ss_messages s) = 1" "get_history 9 s = Some h"
    by (auto simp: map_option_eq_Some)
  from conversation_forgets_users [OF _ s(1,3)] have "list_all (\<lambda>m. \<not> is_role ''user'' m) (ss_messages s)"
    using echo_env_answers by (simp add: sample_env_def)
  with s show ?thesis by blast
qed

section \<open>Bounds on what is stored\<close>

definition entry_ok :: "msg \<Rightarrow> bool" where
  "entry_ok e =
     (dhas e ''timestamp''
      \<and> (if is_role ''tool'' e then (case dget e ''content'' of Some (JStr t) \<Rightarrow> length t \<le> max_result + length truncated_mark | _ \<Rightarrow> True) else True)
      \<and> (if is_role ''assistant'' e then truthy (dgetd e ''content'' JNull) \<or> truthy (dgetd e ''tool_calls'' JNull) else True))"

lemma dget_stamped: "k \<noteq> ''timestamp'' \<Longrightarrow> dget (stamped t e) k = dget e k"
  by (simp add: stamped_def map_add_def split: option.split)

lemma save_content_ok:
  assumes "save_content m = Entry e"
  shows "entry_ok (stamped t e)"
proof -
  have h: "dhas (stamped t e) ''timestamp''" by (simp add: stamped_def dhas_def map_add_def split: option.split)
  have r: "is_role x (stamped t e) = is_role x m" for x using assms by (simp add: stamped_role save_content_role)
  have d: "dgetd (stamped t e) ''content'' JNull = dgetd e ''content'' JNull" "dgetd (stamped t e) ''tool_calls'' JNull = dgetd e ''tool_calls'' JNull"
    by (simp_all add: dgetd_def dget_stamped)
  consider "is_role ''tool'' m" "\<not> is_role ''assistant'' m" | "is_role ''assistant'' m" "\<not> is_role ''tool'' m" "\<not> is_role ''user'' m"
    | "\<not> is_role ''tool'' m" "\<not> is_role ''assistant'' m" by (auto simp: is_role_def)
  then show ?thesis
  proof cases
    case 1
    then have "case dget e ''content'' of Some (JStr t) \<Rightarrow> length t \<le> max_result + length truncated_mark | _ \<Rightarrow> True"
      using assms by (auto simp: save_content_def dgetd_def Let_def split: if_splits json.splits option.splits)
    then show ?thesis using 1 h r by (simp add: entry_ok_def dget_stamped)
  next
    case 2
    then have "truthy (dgetd e ''content'' JNull) \<or> truthy (dgetd e ''tool_calls'' JNull)"
      using assms by (auto simp: save_content_def Let_def split: if_splits)
    then show ?thesis using 2 h r d by (simp add: entry_ok_def)
  next
    case 3
    then show ?thesis using h r by (simp add: entry_ok_def)
  qed
qed

lemma save_entries_ok: "list_all entry_ok (fst (save_entries stamp ms))"
  by (induction ms) (auto simp: save_content_ok split: saved.splits prod.splits)

text \<open>
  Storing a turn appends to the session and nothing else, even when it raises half way: every new entry has a timestamp,
  no tool result is longer than 500 characters and the mark, and no answer of the model is empty.
\<close>

theorem save_turn_bounded:
  "\<exists>new. ss_messages (fst (save_turn now stamp ms skip s)) = ss_messages s @ new \<and> list_all entry_ok new
     \<and> length new \<le> length ms - skip
     \<and> ss_last (fst (save_turn now stamp ms skip s)) = ss_last s \<and> ss_key (fst (save_turn now stamp ms skip s)) = ss_key s"
proof -
  have l: "length (fst (save_entries stamp xs)) \<le> length xs" for xs
    by (induction xs) (auto split: saved.splits prod.splits)
  let ?r = "save_entries stamp (drop skip ms)"
  have "fst (save_turn now stamp ms skip s) = s\<lparr>ss_messages := ss_messages s @ fst ?r, ss_updated := (if snd ?r then now else ss_updated s)\<rparr>"
    by (simp add: save_turn_def case_prod_beta)
  with save_entries_ok [of stamp "drop skip ms"] l [of "drop skip ms"] show ?thesis by auto
qed

section \<open>Replies\<close>









section \<open>Starting over\<close>

lemma archive_True:
  assumes "archive le s mm = (True, mm')" and "unconsolidated s \<noteq> []"
  shows "\<exists>ls d. memory_lines (ge_text (le_graph le)) (unconsolidated s) = Some ls
    \<and> reply_args (ge_text (le_graph le)) (le_ask le (memory_prompt (read_long_term mm) ls)) = Some d
    \<and> mm' = write_memory (ge_text (le_graph le)) (read_long_term mm) d mm"
  using assms
  by (auto simp: archive_def consolidate_def consolidate_begin_def select_old_def consolidate_end_def
      split: option.splits begun.splits prod.splits)

text \<open>
  \<open>/new\<close> does not lose a conversation: the session is cleared only when the messages not yet consolidated are none, or the
  model was shown all of them in one prompt and its reply was written to the memory files. In every other
  case, a failing call or an unusable reply, the sessions are untouched and the user is told, or the command was cancelled.
\<close>

theorem new_command_archives_first:
  assumes "new_command le msg s a = (r, a')"
  shows "ag_sessions a' = ag_sessions a \<and> (r = Ends (Some (outbound (im_channel msg) (im_chat msg) archival_failed [])) \<or> r = Cancelled)
    \<or> (unconsolidated s = [] \<and> ag_memory a' = ag_memory a
        \<or> (\<exists>ls d. memory_lines (ge_text (le_graph le)) (unconsolidated s) = Some ls
              \<and> reply_args (ge_text (le_graph le)) (le_ask le (memory_prompt (read_long_term (ag_memory a)) ls)) = Some d
              \<and> ag_memory a' = write_memory (ge_text (le_graph le)) (read_long_term (ag_memory a)) d (ag_memory a)))
      \<and> dget (sm_cache (ag_sessions a')) (ss_key s) = None"
proof -
  obtain ok mm where ar: "archive le s (ag_memory a) = (ok, mm)" by fastforce
  show ?thesis
  proof (cases "ok \<and> \<not> le_cancel le AwaitArchive")
    case False
    then consider "le_cancel le AwaitArchive" | "\<not> le_cancel le AwaitArchive" "\<not> ok" by blast
    then show ?thesis by cases (use assms ar in \<open>auto simp: new_command_def\<close>)
  next
    case True
    have c: "dget (sm_cache (ag_sessions a')) (ss_key s) = None" "ag_memory a' = mm"
      using assms ar True by (auto simp: new_command_def Let_def invalidate_session_def session_clear_def split: option.splits if_splits)
    show ?thesis
    proof (cases "unconsolidated s = []")
      case True
      then have "mm = ag_memory a" using ar by (simp add: archive_def)
      with c True show ?thesis by simp
    next
      case False
      with archive_True [OF ar [unfolded eqTrueI [OF conjunct1 [OF \<open>ok \<and> \<not> le_cancel le AwaitArchive\<close>]]]] c show ?thesis by blast
    qed
  qed
qed

lemma new_command_archives_first_witness:
  "ag_sessions (snd (new_command sample_env hi_message three_turns (new_agent ()))) = ag_sessions (new_agent ())
   \<and> archive sample_env three_turns no_memory = (False, no_memory)"
proof
  show ar: "archive sample_env three_turns no_memory = (False, no_memory)" by code_simp
  let ?n = "new_command sample_env hi_message three_turns (new_agent ())"
  have "unconsolidated three_turns \<noteq> []" "reply_args te (le_ask sample_env p) = None" for te p
    by (code_simp, simp add: sample_env_def)
  then show "ag_sessions (snd ?n) = ag_sessions (new_agent ())"
    using new_command_archives_first [of sample_env hi_message three_turns "new_agent ()" "fst ?n" "snd ?n"] by auto
qed

section \<open>The main loop\<close>

datatype route = LowMemory | StopCommand | PairCommand | DispatchTurn

definition route_of :: "inbound_message \<Rightarrow> route" where
  "route_of msg =
     (if dget (im_metadata msg) ''system_event_type'' = Some (JStr ''low_memory'') then LowMemory
      else if lower (strip (im_content msg)) = ''/stop'' then StopCommand
      else if startswith (lower (strip (im_content msg))) ''/pair'' then PairCommand
      else DispatchTurn)"

text \<open>
  The clean-up on low memory asks the session manager for a method \<open>get_session\<close> it does not have: for
  the first listed session an \<open>AttributeError\<close> is raised and logged. No consolidation is ever started.
\<close>

definition low_memory_cleanup :: "'w agent \<Rightarrow> 'w agent" where
  "low_memory_cleanup a = a"

text \<open>The tasks of each session, with whether each is done; a task that is done removes itself.\<close>

type_synonym active_tasks = "(string, (nat \<times> bool) list) pydict"

definition add_task :: "string \<Rightarrow> nat \<Rightarrow> active_tasks \<Rightarrow> active_tasks" where
  "add_task k t d = dset k (dgetd d k [] @ [(t, False)]) d"

definition finish_task :: "string \<Rightarrow> nat \<Rightarrow> active_tasks \<Rightarrow> active_tasks" where
  "finish_task k t d = (case dget d k of None \<Rightarrow> d | Some ts \<Rightarrow> dset k (filter (\<lambda>x. fst x \<noteq> t) ts) d)"

definition stop_text :: "nat \<Rightarrow> string" where
  "stop_text n = (if n = 0 then ''No active task to stop.''
     else [CHR 0xE2, CHR 0x8F, CHR 0xB9] @ '' Stopped '' @ show_nat n @ '' task(s).'')"

text \<open>\<open>_handle_stop\<close>, with the number of subagents that were cancelled.\<close>

definition handle_stop :: "inbound_message \<Rightarrow> nat \<Rightarrow> active_tasks \<Rightarrow> outbound_message \<times> nat list \<times> active_tasks" where
  "handle_stop msg subs d =
     (let ts = dgetd d (session_key msg) []; cancelled = filter (\<lambda>x. \<not> snd x) ts
      in (outbound (im_channel msg) (im_chat msg) (stop_text (length cancelled + subs)) [], map fst cancelled, dpop (session_key msg) d))"

end
