(* ===== verification/Dm_Pairing.thy ===== *)
theory Dm_Pairing
  imports Agent_Loop
begin

text \<open>
  \<open>security/dm_pairing.py\<close> and \<open>_handle_pairing\<close> of \<open>agent/loop.py\<close>: one-time codes, kept in a JSON file, with which a sender
  is put on the list of those a channel takes messages from. Whether the file can be written is an
  argument of the operations; the code itself is drawn outside.
\<close>

section \<open>Codes\<close>

record pair_entry =
  pr_created :: timestamp
  pr_expires :: timestamp

datatype pairing_file = NoFile | BadFile | Codes "(string, pair_entry) pydict"

definition live_codes :: "timestamp \<Rightarrow> (string, pair_entry) pydict \<Rightarrow> (string, pair_entry) pydict" where
  "live_codes now d = filter (\<lambda>(c, e). now \<le> pr_expires e) d"

fun read_codes :: "pairing_file \<Rightarrow> (string, pair_entry) pydict" where
  "read_codes (Codes d) = d"
| "read_codes _ = []"

definition write_codes :: "bool \<Rightarrow> (string, pair_entry) pydict \<Rightarrow> pairing_file \<Rightarrow> pairing_file" where
  "write_codes wok d f = (if wok then Codes d else f)"

definition generate_pairing_code :: "timestamp \<Rightarrow> pyfloat \<Rightarrow> string \<Rightarrow> bool \<Rightarrow> pairing_file \<Rightarrow> string \<times> pairing_file" where
  "generate_pairing_code now ttl code wok f =
     (code, write_codes wok (dset code \<lparr>pr_created = now, pr_expires = now + ttl\<rparr> (live_codes now (read_codes f))) f)"

definition verify_and_consume_code :: "timestamp \<Rightarrow> string \<Rightarrow> bool \<Rightarrow> pairing_file \<Rightarrow> bool \<times> pairing_file" where
  "verify_and_consume_code now code wok f =
     (case f of
        Codes d \<Rightarrow>
          (let c = strip code; d = live_codes now d
           in if dhas d c then (True, write_codes wok (dpop c d) f) else (False, write_codes wok d f))
      | _ \<Rightarrow> (False, f))"

section \<open>Pairing a sender\<close>

text \<open>The configuration in memory and the one on disk: for each channel that has one, its list of senders.\<close>

type_synonym allow_lists = "(string, string list) pydict"

record pairing =
  pg_file :: pairing_file
  pg_channels :: "allow_lists option"
  pg_config :: "allow_lists option"

definition allow :: "string \<Rightarrow> string \<Rightarrow> allow_lists \<Rightarrow> allow_lists" where
  "allow channel sender d = (case dget d channel of
     None \<Rightarrow> d
   | Some xs \<Rightarrow> if sender \<in> set xs then d else dset channel (xs @ [sender]) d)"

function split_blanks :: "string \<Rightarrow> string list" where
  "split_blanks s = (let s = dropWhile is_blank s
     in if s = [] then [] else takeWhile (\<lambda>c. \<not> is_blank c) s # split_blanks (dropWhile (\<lambda>c. \<not> is_blank c) s))"
  by pat_completeness auto
termination
proof (relation "measure length", simp)
  fix s x :: string
  assume x: "x = dropWhile is_blank s" "x \<noteq> []"
  then have "\<not> is_blank (hd x)" using hd_dropWhile by metis
  then have "length (dropWhile (\<lambda>c. \<not> is_blank c) x) < length x"
    using x(2) by (cases x) (auto simp: le_imp_less_Suc length_dropWhile_le)
  also have "\<dots> \<le> length s" using x(1) length_dropWhile_le by simp
  finally show "(dropWhile (\<lambda>c. \<not> is_blank c) x, s) \<in> measure length" by simp
qed

declare split_blanks.simps [simp del]

definition usage_text :: string where
  "usage_text = ''To pair this account/channel, run `/pair <code>` where <code> is the 6-digit verification code generated by the administrator on the system console.''"

definition granted_text :: "string \<Rightarrow> string \<Rightarrow> string" where
  "granted_text sender channel = [CHR 0xF0, CHR 0x9F, CHR 0x8E, CHR 0x89] @ '' Access Granted! Your ID ('' @ sender
     @ '') has been successfully paired with the '' @ [CHR 0x27] @ channel @ [CHR 0x27] @ '' channel.''"

definition unconfigured_text :: "string \<Rightarrow> string" where
  "unconfigured_text channel = [CHR 0xE2, CHR 0x9A, CHR 0xA0, CHR 0xEF, CHR 0xB8, CHR 0x8F] @ '' Pairing code was valid, but channel ''
     @ [CHR 0x27] @ channel @ [CHR 0x27] @ '' could not be configured. Please contact the system administrator.''"

definition refused_text :: string where
  "refused_text = [CHR 0xE2, CHR 0x9D, CHR 0x8C] @ '' Invalid or expired pairing code. Please generate a new one.''"

text \<open>\<open>sok\<close> is whether the changed configuration can be saved.\<close>

definition handle_pairing :: "timestamp \<Rightarrow> bool \<Rightarrow> bool \<Rightarrow> inbound_message \<Rightarrow> pairing \<Rightarrow> outbound_message \<times> pairing" where
  "handle_pairing now wok sok msg p =
     (let reply = (\<lambda>t. outbound (im_channel msg) (im_chat msg) t [])
      in case split_blanks (strip (im_content msg)) of
           cmd # code # _ \<Rightarrow>
             (let (valid, f) = verify_and_consume_code now code wok (pg_file p); p = p\<lparr>pg_file := f\<rparr>
              in if \<not> valid then (reply refused_text, p)
                 else (let paired = (case pg_channels p of None \<Rightarrow> False | Some d \<Rightarrow> dhas d (im_channel msg))
                       in (reply (if paired then granted_text (im_sender msg) (im_channel msg) else unconfigured_text (im_channel msg)),
                           p\<lparr>pg_channels := map_option (allow (im_channel msg) (im_sender msg)) (pg_channels p),
                             pg_config := (if sok then map_option (allow (im_channel msg) (im_sender msg)) (pg_config p) else pg_config p)\<rparr>)))
         | _ \<Rightarrow> (reply usage_text, p))"

section \<open>Codes are used once\<close>

definition allowed :: "string \<Rightarrow> string \<Rightarrow> pairing \<Rightarrow> bool" where
  "allowed channel sender p = (case pg_channels p of None \<Rightarrow> False | Some d \<Rightarrow> sender \<in> set (dgetd d channel []))"

definition code_live :: "timestamp \<Rightarrow> string \<Rightarrow> pairing_file \<Rightarrow> bool" where
  "code_live now c f = dhas (live_codes now (read_codes f)) c"

lemma verify_True_iff: "fst (verify_and_consume_code now code wok f) \<longleftrightarrow> code_live now (strip code) f"
  by (cases f) (auto simp: verify_and_consume_code_def code_live_def Let_def live_codes_def dhas_def)

lemma allow_allowed: "x \<in> set (dgetd (allow ch s d) ch' []) \<longleftrightarrow> x \<in> set (dgetd d ch' []) \<or> (dhas d ch \<and> ch' = ch \<and> x = s)"
  by (auto simp: allow_def dgetd_def dhas_def split: option.split)

text \<open>
  Nobody gets on a list without a live code: if handling a message makes any sender allowed on any channel, it is the
  sender of the message, on the channel of the message, the second word of the message is a code in the
  file that has not expired, and when the file could be written the code is no longer in it.
\<close>

theorem pairing_needs_code:
  assumes "handle_pairing now wok sok msg p = (m, p')" and "allowed ch sender p'" and "\<not> allowed ch sender p"
  shows "sender = im_sender msg \<and> ch = im_channel msg
    \<and> (\<exists>cmd code rest. split_blanks (strip (im_content msg)) = cmd # code # rest \<and> code_live now (strip code) (pg_file p)
        \<and> (if wok then \<not> code_live now (strip code) (pg_file p') else True))"
proof -
  obtain cmd code rest where w: "split_blanks (strip (im_content msg)) = cmd # code # rest"
    using assms by (auto simp: handle_pairing_def Let_def split: list.splits)
  obtain v f where v: "verify_and_consume_code now code wok (pg_file p) = (v, f)" by fastforce
  have "v" using assms w v by (auto simp: handle_pairing_def allowed_def Let_def split: if_splits)
  then have live: "code_live now (strip code) (pg_file p)" using verify_True_iff [of now code wok "pg_file p"] v by simp
  have p': "pg_channels p' = map_option (allow (im_channel msg) (im_sender msg)) (pg_channels p)" "pg_file p' = f"
    using assms(1) w v \<open>v\<close> by (auto simp: handle_pairing_def Let_def)
  have "sender = im_sender msg \<and> ch = im_channel msg"
    using assms(2,3) p'(1) by (auto simp: allowed_def allow_allowed split: option.splits)
  moreover have "if wok then \<not> code_live now (strip code) f else True"
    using v \<open>v\<close> by (cases "pg_file p") (auto simp: verify_and_consume_code_def Let_def write_codes_def code_live_def live_codes_def dhas_def AList.delete_eq map_of_eq_None_iff split: if_splits)
  ultimately show ?thesis using w live p'(2) by blast
qed

datatype pair_call = GenerateCode timestamp pyfloat string | TryCode timestamp string

text \<open>Running calls on the file with working writes, counting the times the code \<open>c\<close> is accepted.\<close>

fun pair_step :: "string \<Rightarrow> pair_call \<Rightarrow> pairing_file \<times> nat \<Rightarrow> pairing_file \<times> nat" where
  "pair_step c (GenerateCode now ttl code) (f, n) = (snd (generate_pairing_code now ttl code True f), n)"
| "pair_step c (TryCode now code) (f, n) =
     (let (ok, f) = verify_and_consume_code now code True f in (f, if ok \<and> strip code = c then Suc n else n))"

fun generates :: "string \<Rightarrow> pair_call \<Rightarrow> bool" where
  "generates c (GenerateCode now ttl code) = (code = c)"
| "generates c _ = False"

definition held :: "string \<Rightarrow> pairing_file \<Rightarrow> nat" where
  "held c f = of_bool (dhas (read_codes f) c)"

lemma dhas_live: "dhas (live_codes now d) c \<Longrightarrow> dhas d c"
  by (induction d) (auto simp: live_codes_def dhas_def split: if_splits)

lemma pair_step_budget:
  assumes "pair_step c e (f, n) = (f', n')"
  shows "n' + held c f' \<le> n + held c f + of_bool (generates c e)"
proof (cases e)
  case (GenerateCode now ttl code)
  then show ?thesis using assms dhas_live [of now "read_codes f" c]
    by (auto simp: generate_pairing_code_def write_codes_def held_def)
next
  case (TryCode now code)
  show ?thesis
  proof (cases f)
    case (Codes d)
    then show ?thesis using assms TryCode dhas_live [of now d c]
      by (auto simp: verify_and_consume_code_def Let_def write_codes_def held_def split: if_splits)
  qed (use assms TryCode in \<open>auto simp: verify_and_consume_code_def held_def\<close>)
qed

lemma pair_run_budget:
  "snd (fold (pair_step c) es (f, n)) + held c (fst (fold (pair_step c) es (f, n)))
     \<le> n + held c f + length (filter (generates c) es)"
proof (induction es arbitrary: f n)
  case (Cons e es)
  obtain f' n' where s: "pair_step c e (f, n) = (f', n')" by fastforce
  from pair_step_budget [OF s] Cons.IH [of f' n'] s show ?case by auto
qed simp

text \<open>
  A pairing code is good for one sender: over any sequence of generated and tried codes on a file that can be written, a
  code is accepted at most as often as it was generated.
\<close>

theorem pairing_code_single_use:
  "snd (fold (pair_step c) es (NoFile, 0)) \<le> length (filter (generates c) es)"
  using pair_run_budget [of c es NoFile 0] by (simp add: held_def dhas_def)

text \<open>
  When the file of codes cannot be written, the failure is swallowed and an accepted code stays valid: it is accepted
  again and again until it expires.
\<close>

theorem pairing_code_replayed:
  assumes "code_live now (strip code) f"
  shows "(((\<lambda>g. snd (verify_and_consume_code now code False g)) ^^ n) f = f) \<and> fst (verify_and_consume_code now code False f)"
proof -
  have s: "snd (verify_and_consume_code now code False f) = f"
    by (cases f) (auto simp: verify_and_consume_code_def write_codes_def Let_def)
  have "((\<lambda>g. snd (verify_and_consume_code now code False g)) ^^ n) f = f" by (induction n) (simp_all add: s)
  with assms show ?thesis by (simp add: verify_True_iff)
qed

definition one_code :: pairing_file where
  "one_code = Codes [(''123456'', \<lparr>pr_created = 0, pr_expires = 600\<rparr>)]"

lemma pairing_code_replayed_witness:
  "fst (verify_and_consume_code 5 ''123456'' False (((\<lambda>g. snd (verify_and_consume_code 5 ''123456'' False g)) ^^ 3) one_code))"
proof -
  have "code_live 5 (strip ''123456'') one_code" by code_simp
  from pairing_code_replayed [OF this, of 3] show ?thesis by simp
qed

definition pair_message :: inbound_message where
  "pair_message = \<lparr>im_channel = ''telegram'', im_sender = ''42'', im_chat = ''c'', im_content = ''/pair 123456'', im_timestamp = 0,
     im_media = [], im_metadata = [], im_session_override = None\<rparr>"

definition pairing_before :: pairing where
  "pairing_before = \<lparr>pg_file = one_code, pg_channels = Some [(''telegram'', [''7''])], pg_config = None\<rparr>"

lemma pairing_needs_code_witness:
  "allowed ''telegram'' ''42'' (snd (handle_pairing 5 True True pair_message pairing_before)) \<and> im_sender pair_message = ''42''
   \<and> (\<exists>code. code_live 5 (strip code) (pg_file pairing_before))"
proof -
  let ?r = "handle_pairing 5 True True pair_message pairing_before"
  have a: "allowed ''telegram'' ''42'' (snd ?r)" "\<not> allowed ''telegram'' ''42'' pairing_before" by code_simp+
  have "?r = (fst ?r, snd ?r)" by simp
  from pairing_needs_code [OF this a] a(1) show ?thesis by auto
qed

end
