(* ===== verification/Network_Policy.thy ===== *)
theory Network_Policy
  imports Amber_Prelude
begin

text \<open>
  \<open>security/network_policy.py\<close>, the rules for outgoing connections, and \<open>security/egress_controller.py\<close>, which enforces them
  by replacing the resolver and \<open>connect\<close> of Python's \<open>socket\<close> module. Host names are ASCII. The original
  functions of \<open>socket\<close>, the classification of an address by \<open>ipaddress\<close> and the file names on the call stack
  are parameters; a YAML file is what PyYAML makes of it.
\<close>

section \<open>Host patterns\<close>

definition line_end :: char where "line_end = CHR 0x0A"

text \<open>
  A compiled pattern: \<open>*.base\<close>, or a text in which a star stands for any characters but line breaks.
  Matching ignores case, and \<open>$\<close> also matches before a final line break.
\<close>

datatype host_pattern = AnySub string | Glob string

definition compile_host :: "string \<Rightarrow> host_pattern" where
  "compile_host h = (if startswith h ''*.'' then AnySub (drop 2 h) else Glob h)"

definition literal :: "string \<Rightarrow> string \<Rightarrow> bool" where
  "literal p s = (lower s = lower p \<or> lower s = lower p @ [line_end])"

fun glob :: "string \<Rightarrow> string \<Rightarrow> bool" where
  "glob [] s = (s = [] \<or> s = [line_end])"
| "glob (c # p) [] = (c = CHR ''*'' \<and> glob p [])"
| "glob (c # p) (x # s) =
     (if c = CHR ''*'' then glob p (x # s) \<or> (x \<noteq> line_end \<and> glob (c # p) s)
      else lower_char c = lower_char x \<and> glob p s)"

fun pattern_match :: "host_pattern \<Rightarrow> string \<Rightarrow> bool" where
  "pattern_match (AnySub b) h =
     list_ex (\<lambda>i. (i = 0 \<or> (h ! (i - 1) = CHR ''.'' \<and> line_end \<notin> set (take (i - 1) h))) \<and> literal b (drop i h)) [0..<Suc (length h)]"
| "pattern_match (Glob p) h = glob p h"

section \<open>The policy\<close>

record binary_rule =
  bn_hosts :: "string list option"
  bn_ports :: "int list option"

record network_policy =
  np_hosts :: "string list"
  np_ports :: "int list"
  np_tls :: bool
  np_rules :: "(string, binary_rule) pydict"

definition https_port :: int where "https_port = 443"

definition or_default :: "'a list option \<Rightarrow> 'a list \<Rightarrow> 'a list" where
  "or_default x d = (case x of None \<Rightarrow> d | Some xs \<Rightarrow> if xs = [] then d else xs)"

definition new_policy :: "string list option \<Rightarrow> int list option \<Rightarrow> bool \<Rightarrow> (string, binary_rule) pydict \<Rightarrow> network_policy" where
  "new_policy hosts ports tls rules =
     \<lparr>np_hosts = or_default hosts [], np_ports = or_default ports [80, https_port], np_tls = tls, np_rules = rules\<rparr>"

definition default_policy :: network_policy where
  "default_policy = new_policy
     (Some [''*.openai.com'', ''*.anthropic.com'', ''*.google.com'', ''*.googleapis.com'', ''api.tavily.com'', ''github.com'',
            ''api.github.com'', ''pypi.org'', ''files.pythonhosted.org''])
     (Some [80, https_port]) False
     [(''git'', \<lparr>bn_hosts = Some [''github.com'', ''api.github.com''], bn_ports = Some [https_port]\<rparr>),
      (''pip'', \<lparr>bn_hosts = Some [''pypi.org'', ''files.pythonhosted.org''], bn_ports = Some [https_port]\<rparr>)]"

text \<open>A policy file: missing, unreadable or not a mapping, or the fields it has.\<close>

datatype policy_file =
    NoPolicyFile
  | BadPolicyFile
  | PolicyFields "string list option" "int list option" "bool option" "(string, binary_rule) pydict option"

fun load_from_yaml :: "policy_file \<Rightarrow> network_policy" where
  "load_from_yaml NoPolicyFile = default_policy"
| "load_from_yaml BadPolicyFile = default_policy"
| "load_from_yaml (PolicyFields hosts ports tls rules) =
     new_policy hosts ports (case tls of None \<Rightarrow> False | Some b \<Rightarrow> b) (case rules of None \<Rightarrow> [] | Some r \<Rightarrow> r)"

definition host_in :: "string list \<Rightarrow> string \<Rightarrow> bool" where
  "host_in hosts h = (lower h \<in> set (map lower hosts) \<or> list_ex (\<lambda>p. pattern_match (compile_host p) h) hosts)"

definition is_allowed :: "network_policy \<Rightarrow> string \<Rightarrow> int \<Rightarrow> string option \<Rightarrow> bool" where
  "is_allowed np host port ctx =
     (if np_tls np \<and> port \<noteq> https_port then False
      else case (case ctx of None \<Rightarrow> None | Some b \<Rightarrow> if b = [] then None else dget (np_rules np) b) of
        Some r \<Rightarrow>
          port \<in> set (case bn_ports r of None \<Rightarrow> [https_port] | Some ps \<Rightarrow> ps)
          \<and> host_in (case bn_hosts r of None \<Rightarrow> [] | Some hs \<Rightarrow> hs) host
      | None \<Rightarrow> port \<in> set (np_ports np) \<and> host_in (np_hosts np) host)"

section \<open>The firewall\<close>

record egress =
  eg_active :: bool
  eg_policy :: "network_policy option"
  eg_binary :: "string option"

text \<open>
  \<open>so_private\<close> is whether an address is private, loopback, link-local or multicast, \<open>None\<close> for a text that is
  no address; \<open>so_resolve\<close> and \<open>so_connect\<close> are the original functions, \<open>None\<close> and \<open>False\<close> their own errors.
\<close>

record sockets =
  so_private :: "string \<Rightarrow> bool option"
  so_resolve :: "string \<Rightarrow> string list option"
  so_connect :: "string \<Rightarrow> int \<Rightarrow> bool"
  so_frames :: "string list"

datatype port_arg = PortNone | PortInt int | PortName string

datatype net_error = AccessDenied | SsrfDenied | TlsDenied | OsError

definition is_private_ip :: "sockets \<Rightarrow> string \<Rightarrow> bool" where
  "is_private_ip so ip = (so_private so ip = Some True)"

fun frame_context :: "string list \<Rightarrow> string option" where
  "frame_context [] = None"
| "frame_context (f # fs) =
     (let f = lower f
      in if str_in ''git'' f then Some ''git''
         else if str_in ''pip'' f \<or> str_in ''pypi'' f then Some ''pip''
         else if str_in ''playwright'' f then Some ''playwright''
         else frame_context fs)"

definition auto_detect_binary_context :: "sockets \<Rightarrow> egress \<Rightarrow> string option" where
  "auto_detect_binary_context so eg =
     (case eg_binary eg of Some b \<Rightarrow> if b = [] then frame_context (so_frames so) else Some b
      | None \<Rightarrow> frame_context (so_frames so))"

text \<open>\<open>int(port)\<close> of a service name; a text of digits only.\<close>

definition read_digits :: "string \<Rightarrow> int option" where
  "read_digits s =
     (if s \<noteq> [] \<and> list_all (\<lambda>c. 48 \<le> (of_char c :: nat) \<and> (of_char c :: nat) \<le> 57) s
      then Some (fold (\<lambda>c n. n * 10 + (int (of_char c) - 48)) s 0) else None)"

fun port_number :: "port_arg \<Rightarrow> int" where
  "port_number PortNone = 80"
| "port_number (PortInt p) = p"
| "port_number (PortName s) = (case read_digits s of Some p \<Rightarrow> p | None \<Rightarrow> if s = ''https'' then https_port else 80)"

definition patched_getaddrinfo :: "sockets \<Rightarrow> egress \<Rightarrow> string \<Rightarrow> port_arg \<Rightarrow> net_error + string list" where
  "patched_getaddrinfo so eg host port =
     (let original = (case so_resolve so host of None \<Rightarrow> Inl OsError | Some ips \<Rightarrow> Inr ips)
      in case (if eg_active eg then eg_policy eg else None) of
           None \<Rightarrow> original
         | Some np \<Rightarrow>
             (let p = port_number port
              in if np_tls np \<and> p \<noteq> https_port then Inl TlsDenied
                 else if \<not> is_allowed np host p (auto_detect_binary_context so eg) then Inl AccessDenied
                 else case original of
                        Inl e \<Rightarrow> Inl e
                      | Inr ips \<Rightarrow> if list_ex (is_private_ip so) ips then Inl SsrfDenied else Inr ips))"

definition patched_connect :: "sockets \<Rightarrow> egress \<Rightarrow> string \<Rightarrow> int \<Rightarrow> net_error + unit" where
  "patched_connect so eg host port =
     (let original = (if so_connect so host port then Inr () else Inl OsError)
      in case (if eg_active eg then eg_policy eg else None) of
           None \<Rightarrow> original
         | Some np \<Rightarrow>
             if is_private_ip so host then Inl SsrfDenied
             else if np_tls np \<and> port \<noteq> https_port then Inl TlsDenied
             else if \<not> is_allowed np host port (auto_detect_binary_context so eg) then Inl AccessDenied
             else original)"

text \<open>
  \<open>connect_ex\<close> reports a failure by its error number; inside the sandbox it goes through \<open>connect\<close>, whose
  errors it lets through.
\<close>

definition patched_connect_ex :: "sockets \<Rightarrow> egress \<Rightarrow> int \<Rightarrow> string \<Rightarrow> int \<Rightarrow> net_error + int" where
  "patched_connect_ex so eg errno host port =
     (if eg_active eg then case patched_connect so eg host port of Inl e \<Rightarrow> Inl e | Inr _ \<Rightarrow> Inr 0
      else Inr (if so_connect so host port then 0 else errno))"

text \<open>\<open>egress_sandbox\<close> and \<open>binary_context\<close> set the context variables for a block and restore them.\<close>

definition egress_sandbox :: "network_policy \<Rightarrow> (egress \<Rightarrow> 'a \<times> egress) \<Rightarrow> egress \<Rightarrow> 'a \<times> egress" where
  "egress_sandbox np body eg =
     (let (r, eg') = body (eg\<lparr>eg_active := True, eg_policy := Some np\<rparr>)
      in (r, eg'\<lparr>eg_active := eg_active eg, eg_policy := eg_policy eg\<rparr>))"

definition binary_context :: "string \<Rightarrow> (egress \<Rightarrow> 'a \<times> egress) \<Rightarrow> egress \<Rightarrow> 'a \<times> egress" where
  "binary_context name body eg =
     (let (r, eg') = body (eg\<lparr>eg_binary := Some name\<rparr>) in (r, eg'\<lparr>eg_binary := eg_binary eg\<rparr>))"

text \<open>
  The standard library's \<open>create_connection\<close>: resolve the name, then connect to the addresses in turn
  until one succeeds; the last error is raised.
\<close>

fun connect_first :: "sockets \<Rightarrow> egress \<Rightarrow> int \<Rightarrow> net_error \<Rightarrow> string list \<Rightarrow> net_error + string" where
  "connect_first so eg port e [] = Inl e"
| "connect_first so eg port e (ip # ips) =
     (case patched_connect so eg ip port of
        Inr _ \<Rightarrow> Inr ip
      | Inl e' \<Rightarrow> connect_first so eg port e' ips)"

definition create_connection :: "sockets \<Rightarrow> egress \<Rightarrow> string \<Rightarrow> int \<Rightarrow> net_error + string" where
  "create_connection so eg host port =
     (case patched_getaddrinfo so eg host (PortInt port) of
        Inl e \<Rightarrow> Inl e
      | Inr ips \<Rightarrow> connect_first so eg port OsError ips)"

section \<open>Patterns match whole names and whole labels\<close>

lemma lower_char_low:
  assumes "(of_char d :: nat) < 65"
  shows "(lower_char c = d) = (c = d)"
proof (cases "65 \<le> (of_char c :: nat) \<and> (of_char c :: nat) \<le> 90")
  case True
  then have "(of_char (lower_char c) :: nat) = of_char c + 32" by (simp add: lower_char_def)
  with True assms have "lower_char c \<noteq> d" "c \<noteq> d" by auto
  then show ?thesis by simp
next
  case False
  then have "lower_char c = c" unfolding lower_char_def by (rule if_not_P)
  then show ?thesis by simp
qed

lemma lower_char_fixed: "(lower_char c = CHR ''.'') = (c = CHR ''.'')" "(lower_char c = line_end) = (c = line_end)"
  by (rule lower_char_low, simp add: line_end_def)+

lemma set_lower_line: "line_end \<in> set (lower h) \<longleftrightarrow> line_end \<in> set h"
proof -
  have "(line_end = lower_char c) = (line_end = c)" for c using lower_char_fixed(2) [of c] by auto
  then show ?thesis by (simp add: lower_def image_iff)
qed

lemma literal_clean:
  assumes "line_end \<notin> set h"
  shows "literal b h \<longleftrightarrow> lower h = lower b"
proof -
  have "line_end \<notin> set (lower h)" using assms by (simp add: set_lower_line)
  then have "lower h \<noteq> lower b @ [line_end]" by auto
  then show ?thesis by (simp add: literal_def)
qed

lemma drop_lower: "drop i (lower h) = lower (drop i h)"
  by (simp add: lower_def drop_map)

lemma any_sub_exact:
  assumes "line_end \<notin> set h"
  shows "pattern_match (AnySub b) h \<longleftrightarrow> lower h = lower b \<or> (\<exists>a. lower h = a @ CHR ''.'' # lower b)"
proof
  assume "pattern_match (AnySub b) h"
  then obtain i where i: "i \<le> length h" "i = 0 \<or> h ! (i - 1) = CHR ''.''" "literal b (drop i h)"
  proof -
    from \<open>pattern_match (AnySub b) h\<close> obtain i where "i \<in> set [0..<Suc (length h)]"
      "i = 0 \<or> h ! (i - 1) = CHR ''.'' \<and> line_end \<notin> set (take (i - 1) h)" "literal b (drop i h)"
      unfolding pattern_match.simps list_ex_iff by blast
    moreover from this(1) have "i \<le> length h" by auto
    ultimately show thesis using that by blast
  qed
  have "line_end \<notin> set (drop i h)" using assms by (meson in_set_dropD)
  with i(3) have d: "lower (drop i h) = lower b" by (simp add: literal_clean)
  show "lower h = lower b \<or> (\<exists>a. lower h = a @ CHR ''.'' # lower b)"
  proof (cases i)
    case (Suc j)
    then have "h = take j h @ h ! j # drop i h" using i(1) id_take_nth_drop [of j h] by simp
    then have "lower h = lower (take j h) @ lower_char (h ! j) # lower (drop i h)"
      by (metis lower_def list.simps(9) map_append)
    then show ?thesis using i(2) Suc d lower_char_fixed(1) by auto
  qed (use d in simp)
next
  assume "lower h = lower b \<or> (\<exists>a. lower h = a @ CHR ''.'' # lower b)"
  then show "pattern_match (AnySub b) h"
  proof
    assume "lower h = lower b"
    then have "literal b (drop 0 h)" by (simp add: literal_def)
    then show ?thesis by (auto simp: list_ex_iff intro!: bexI [of _ 0])
  next
    assume "\<exists>a. lower h = a @ CHR ''.'' # lower b"
    then obtain a where a: "lower h = a @ CHR ''.'' # lower b" ..
    let ?i = "Suc (length a)"
    have len: "?i \<le> length h" using arg_cong [OF a, of length] by (simp add: lower_def)
    have "lower (h ! length a # []) = [CHR ''.'']" using arg_cong [OF a, of "\<lambda>l. l ! length a"] len by (simp add: lower_def)
    then have dot: "h ! length a = CHR ''.''" by (simp add: lower_def lower_char_fixed)
    have "lower (drop ?i h) = lower b" using a by (simp flip: drop_lower)
    then have "literal b (drop ?i h)" by (simp add: literal_def)
    moreover have "line_end \<notin> set (take (length a) h)" using assms by (meson in_set_takeD)
    ultimately have "?i \<in> set [0..<Suc (length h)]" "?i = 0 \<or> (h ! (?i - 1) = CHR ''.'' \<and> line_end \<notin> set (take (?i - 1) h))" "literal b (drop ?i h)"
      using dot len by (simp_all del: upt_Suc)
    then show ?thesis unfolding pattern_match.simps list_ex_iff by blast
  qed
qed

lemma glob_plain:
  assumes "CHR ''*'' \<notin> set p" and "line_end \<notin> set h"
  shows "glob p h \<longleftrightarrow> lower h = lower p"
  using assms
  by (induction p h rule: glob.induct) (auto simp: lower_def)

lemma host_in_exact:
  assumes "line_end \<notin> set h"
    and "\<forall>e \<in> set hosts. CHR ''*'' \<notin> set (if startswith e ''*.'' then drop 2 e else e)"
  shows "host_in hosts h \<longleftrightarrow> (\<exists>e \<in> set hosts. lower h = lower e
    \<or> (startswith e ''*.'' \<and> (lower h = lower (drop 2 e) \<or> (\<exists>a. lower h = a @ CHR ''.'' # lower (drop 2 e)))))"
proof -
  have "pattern_match (compile_host e) h \<longleftrightarrow> (if startswith e ''*.'' then lower h = lower (drop 2 e) \<or> (\<exists>a. lower h = a @ CHR ''.'' # lower (drop 2 e))
      else lower h = lower e)" if "e \<in> set hosts" for e
    using any_sub_exact [OF assms(1)] glob_plain [of e h] assms that by (auto simp: compile_host_def)
  then show ?thesis by (auto simp: host_in_def list_ex_iff)
qed

text \<open>
  A policy without stars inside its names lets through exactly the listed names and, for \<open>*.base\<close>, the base and the
  names that end in a dot and the base, whatever the case: a longer name that merely ends with a listed one
  (\<open>evilopenai.com\<close>) is refused, on every port and in every context without rules of its own.
\<close>

theorem policy_names_exact:
  assumes "line_end \<notin> set h"
    and "\<forall>e \<in> set (np_hosts np). CHR ''*'' \<notin> set (if startswith e ''*.'' then drop 2 e else e)"
    and "ctx = None \<or> dget (np_rules np) (the ctx) = None"
  shows "is_allowed np h port ctx \<longleftrightarrow>
    (if np_tls np then port = https_port else True) \<and> port \<in> set (np_ports np)
    \<and> (\<exists>e \<in> set (np_hosts np). lower h = lower e
        \<or> (startswith e ''*.'' \<and> (lower h = lower (drop 2 e) \<or> (\<exists>a. lower h = a @ CHR ''.'' # lower (drop 2 e)))))"
proof -
  have "(case ctx of None \<Rightarrow> None | Some b \<Rightarrow> if b = [] then None else dget (np_rules np) b) = None"
    using assms(3) by (auto split: option.split)
  then show ?thesis using host_in_exact [OF assms(1,2)] by (auto simp: is_allowed_def)
qed

lemma policy_names_exact_witness:
  "\<not> is_allowed default_policy ''evilopenai.com'' 443 None \<and> is_allowed default_policy ''API.OpenAI.com'' 443 None"
proof
  have *: "line_end \<notin> set h \<Longrightarrow> is_allowed default_policy h 443 None \<longleftrightarrow>
    (if np_tls default_policy then 443 = https_port else True) \<and> 443 \<in> set (np_ports default_policy)
    \<and> (\<exists>e \<in> set (np_hosts default_policy). lower h = lower e
        \<or> (startswith e ''*.'' \<and> (lower h = lower (drop 2 e) \<or> (\<exists>a. lower h = a @ CHR ''.'' # lower (drop 2 e)))))" for h
    by (rule policy_names_exact) (auto simp: default_policy_def new_policy_def or_default_def startswith_def)
  show "is_allowed default_policy ''API.OpenAI.com'' 443 None" by code_simp
  have line_free_evil: "line_end \<notin> set ''evilopenai.com''" by code_simp
  show "\<not> is_allowed default_policy ''evilopenai.com'' 443 None"
    unfolding * [OF line_free_evil]
    by (auto simp: default_policy_def new_policy_def or_default_def startswith_def lower_def lower_char_def append_eq_Cons_conv)
qed

section \<open>What the firewall lets through\<close>

lemma connect_first_Inr:
  assumes "connect_first so eg port e ips = Inr ip"
  shows "ip \<in> set ips \<and> patched_connect so eg ip port = Inr ()"
  using assms by (induction ips arbitrary: e) (auto split: sum.splits)

lemma sandbox_connection_core:
  assumes "eg_active eg" and "eg_policy eg = Some np" and "create_connection so eg host port = Inr ip"
  shows "is_allowed np host port (auto_detect_binary_context so eg) \<and> is_allowed np ip port (auto_detect_binary_context so eg)
    \<and> (\<exists>ips. so_resolve so host = Some ips \<and> ip \<in> set ips \<and> list_all (\<lambda>x. so_private so x \<noteq> Some True) ips)
    \<and> (if np_tls np then port = https_port else True) \<and> so_connect so ip port"
proof -
  from assms(3) obtain ips where r: "patched_getaddrinfo so eg host (PortInt port) = Inr ips"
    and c: "connect_first so eg port OsError ips = Inr ip" by (auto simp: create_connection_def split: sum.splits)
  from connect_first_Inr [OF c] have "ip \<in> set ips" "patched_connect so eg ip port = Inr ()" by auto
  with r assms(1,2) show ?thesis
    by (auto simp: patched_getaddrinfo_def patched_connect_def Let_def is_private_ip_def list_all_iff list_ex_iff
        split: option.splits if_splits)
qed

text \<open>
  Inside the sandbox a connection by name succeeds only to an address the name resolved to, when the name and the
  address are both allowed, no resolved address is private, and with TLS enforced only on its port.
\<close>

theorem sandbox_connection_sound:
  assumes "eg_active eg" and "eg_policy eg = Some np" and "create_connection so eg host port = Inr ip"
  shows "is_allowed np host port (auto_detect_binary_context so eg) \<and> is_allowed np ip port (auto_detect_binary_context so eg)
    \<and> (\<exists>ips. so_resolve so host = Some ips \<and> ip \<in> set ips \<and> list_all (\<lambda>x. so_private so x \<noteq> Some True) ips)
    \<and> (if np_tls np then port = https_port else True) \<and> so_connect so ip port"
  using sandbox_connection_core [OF assms] .

definition open_sockets :: sockets where
  "open_sockets = \<lparr>so_private = (\<lambda>_. Some False), so_resolve = (\<lambda>h. Some [''8.8.8.8'']), so_connect = (\<lambda>_ _. True), so_frames = [''/app/main.py'']\<rparr>"

definition sandboxed :: "network_policy \<Rightarrow> egress" where
  "sandboxed np = \<lparr>eg_active = True, eg_policy = Some np, eg_binary = None\<rparr>"

lemma sandbox_connection_sound_witness:
  "create_connection open_sockets (sandboxed (new_policy (Some [''dns.google'', ''8.8.8.8'']) None False [])) ''dns.google'' 443 = Inr ''8.8.8.8''
   \<and> is_allowed (new_policy (Some [''dns.google'', ''8.8.8.8'']) None False []) ''8.8.8.8'' 443 None"
proof
  let ?np = "new_policy (Some [''dns.google'', ''8.8.8.8'']) None False []"
  show c: "create_connection open_sockets (sandboxed ?np) ''dns.google'' 443 = Inr ''8.8.8.8''" by code_simp
  have "auto_detect_binary_context open_sockets (sandboxed ?np) = None" by code_simp
  with sandbox_connection_sound [OF _ _ c, of ?np] show "is_allowed ?np ''8.8.8.8'' 443 None" by (simp add: sandboxed_def)
qed





text \<open>
  A file whose path contains \<open>pip\<close> on the stack, such as the repository's own \<open>memory/rag_pipeline.py\<close>, makes
  the rules of the package installer apply, which refuse the hosts of the models.
\<close>

lemma pipeline_taken_for_pip:
  assumes "so_frames so = ''/app/memory/rag_pipeline.py'' # fs" and "eg_binary eg = None"
  shows "auto_detect_binary_context so eg = Some ''pip'' \<and> \<not> is_allowed default_policy ''api.openai.com'' 443 (Some ''pip'')"
proof
  have "str_in ''pip'' (lower ''/app/memory/rag_pipeline.py'')" "\<not> str_in ''git'' (lower ''/app/memory/rag_pipeline.py'')" by code_simp+
  then show "auto_detect_binary_context so eg = Some ''pip''" using assms by (simp add: auto_detect_binary_context_def)
  show "\<not> is_allowed default_policy ''api.openai.com'' 443 (Some ''pip'')" by code_simp
qed

text \<open>
  The context variables are back to their values after a sandboxed block, however blocks are nested.
\<close>

lemma connect_ex_raises:
  assumes "so_connect so ip port = False"
  shows "patched_connect_ex so (eg\<lparr>eg_active := False\<rparr>) errno ip port = Inr errno
    \<and> (\<exists>e. patched_connect_ex so (eg\<lparr>eg_active := True\<rparr>) errno ip port = Inl e)"
  using assms by (auto simp: patched_connect_ex_def patched_connect_def Let_def split: option.splits)

lemma sandbox_restores:
  "eg_active (snd (egress_sandbox np body eg)) = eg_active eg" "eg_policy (snd (egress_sandbox np body eg)) = eg_policy eg"
  "eg_binary (snd (binary_context name body' eg)) = eg_binary eg"
  by (simp_all add: egress_sandbox_def binary_context_def case_prod_beta)

end
