(* ===== verification/Py_Regex.thy ===== *)
theory Py_Regex
  imports Amber_Prelude
begin

text \<open>
  The part of Python's \<open>re\<close> that the scanners of the program use, as a reference for their patterns: classes of
  characters, sequences, alternatives, greedy and lazy repetition, word boundaries, anchors and negative
  lookahead. \<open>ends r s i\<close> lists the ends of the matches of \<open>r\<close> that begin at position \<open>i\<close> of \<open>s\<close>, in the order in
  which the backtracking matcher finds them, so that its head is the match Python reports. \<open>denot\<close> is the
  language of a pattern as a relation on positions; \<open>ends_denot\<close> shows that the matcher finds exactly it.
\<close>

section \<open>Patterns\<close>

datatype rx =
    Cls "char \<Rightarrow> bool"
  | Eps
  | Cat rx rx
  | Alt rx rx
  | Rep nat "nat option" bool rx
  | WordEdge
  | TextStart
  | TextEnd
  | NotAhead rx

definition between :: "char \<Rightarrow> char \<Rightarrow> char \<Rightarrow> bool" where
  "between a b c = ((of_char a :: nat) \<le> of_char c \<and> (of_char c :: nat) \<le> of_char b)"

definition is_digit :: "char \<Rightarrow> bool" where "is_digit c = between CHR ''0'' CHR ''9'' c"

definition is_upper :: "char \<Rightarrow> bool" where "is_upper c = between CHR ''A'' CHR ''Z'' c"

definition is_lower :: "char \<Rightarrow> bool" where "is_lower c = between CHR ''a'' CHR ''z'' c"

definition is_alnum :: "char \<Rightarrow> bool" where "is_alnum c = (is_digit c \<or> is_upper c \<or> is_lower c)"

lemma is_digit_code [code]:
  "is_digit (Char b0 b1 b2 b3 b4 b5 b6 b7) = (b4 \<and> b5 \<and> \<not> b6 \<and> \<not> b7 \<and> \<not> (b3 \<and> (b1 \<or> b2)))"
  by (cases b0; cases b1; cases b2; cases b3; cases b4; cases b5; cases b6; cases b7; simp add: is_digit_def between_def)

lemma is_upper_code [code]:
  "is_upper (Char b0 b1 b2 b3 b4 b5 b6 b7) =
     (b6 \<and> \<not> b5 \<and> \<not> b7 \<and> (b0 \<or> b1 \<or> b2 \<or> b3 \<or> b4) \<and> \<not> (b4 \<and> b3 \<and> (b2 \<or> (b1 \<and> b0))))"
  by (cases b0; cases b1; cases b2; cases b3; cases b4; cases b5; cases b6; cases b7; simp add: is_upper_def between_def)

lemma is_lower_code [code]:
  "is_lower (Char b0 b1 b2 b3 b4 b5 b6 b7) =
     (b6 \<and> b5 \<and> \<not> b7 \<and> (b0 \<or> b1 \<or> b2 \<or> b3 \<or> b4) \<and> \<not> (b4 \<and> b3 \<and> (b2 \<or> (b1 \<and> b0))))"
  by (cases b0; cases b1; cases b2; cases b3; cases b4; cases b5; cases b6; cases b7; simp add: is_lower_def between_def)

definition word_char :: "char \<Rightarrow> bool" where "word_char c = (is_alnum c \<or> c = CHR ''_'')"

text \<open>\<open>\<^verbatim>\<open>\s\<close>\<close> of ASCII text: the six blanks and the four separators below the space.\<close>

definition space_char :: "char \<Rightarrow> bool" where
  "space_char c = (is_blank c \<or> (28 \<le> (of_char c :: nat) \<and> (of_char c :: nat) \<le> 31))"

lemma space_char_code [code]:
  "space_char (Char b0 b1 b2 b3 b4 b5 b6 b7) =
     (\<not> b6 \<and> \<not> b7 \<and> (if b5 then \<not> b0 \<and> \<not> b1 \<and> \<not> b2 \<and> \<not> b3 \<and> \<not> b4
        else if b4 then b3 \<and> b2 else b3 \<and> (b0 \<or> b1 \<or> b2) \<and> \<not> (b2 \<and> b1)))"
  by (cases b0; cases b1; cases b2; cases b3; cases b4; cases b5; cases b6; cases b7; simp add: space_char_def is_blank_def)

definition to_upper :: "string \<Rightarrow> string" where
  "to_upper s = map (\<lambda>c. if is_lower c then char_of ((of_char c :: nat) - 32) else c) s"

definition one_of :: "string \<Rightarrow> char \<Rightarrow> bool" where "one_of cs c = (c \<in> set cs)"

definition seq :: "rx list \<Rightarrow> rx" where "seq rs = foldr Cat rs Eps"

definition alts :: "rx list \<Rightarrow> rx" where
  "alts rs = (case rev rs of [] \<Rightarrow> Eps | r # rest \<Rightarrow> fold Alt rest r)"

definition lit :: "string \<Rightarrow> rx" where "lit w = seq (map (\<lambda>c. Cls (\<lambda>x. x = c)) w)"

definition lit_nocase :: "string \<Rightarrow> rx" where
  "lit_nocase w = seq (map (\<lambda>c. Cls (\<lambda>x. lower_char x = lower_char c)) w)"

abbreviation some_of :: "rx \<Rightarrow> rx" where "some_of \<equiv> Rep 1 None True"

abbreviation any_of :: "rx \<Rightarrow> rx" where "any_of \<equiv> Rep 0 None True"

abbreviation optional :: "rx \<Rightarrow> rx" where "optional \<equiv> Rep 0 (Some 1) True"

abbreviation least :: "nat \<Rightarrow> rx \<Rightarrow> rx" where "least n \<equiv> Rep n None True"

abbreviation exactly :: "nat \<Rightarrow> rx \<Rightarrow> rx" where "exactly n \<equiv> Rep n (Some n) True"

section \<open>The matcher\<close>

primrec rep_exact :: "(nat \<Rightarrow> nat list) \<Rightarrow> nat \<Rightarrow> nat \<Rightarrow> nat list" where
  "rep_exact f 0 i = [i]"
| "rep_exact f (Suc n) i = concat (map (rep_exact f n) (f i))"

text \<open>Further repetitions, which the matcher only tries while they consume something.\<close>

primrec rep_more :: "(nat \<Rightarrow> nat list) \<Rightarrow> bool \<Rightarrow> nat \<Rightarrow> nat \<Rightarrow> nat list" where
  "rep_more f greedy 0 i = [i]"
| "rep_more f greedy (Suc n) i =
     (let longer = concat (map (rep_more f greedy n) (filter (\<lambda>j. j > i) (f i)))
      in if greedy then longer @ [i] else i # longer)"

definition word_at :: "string \<Rightarrow> nat \<Rightarrow> bool" where
  "word_at s i = (i < length s \<and> word_char (s ! i))"

definition edge_at :: "string \<Rightarrow> nat \<Rightarrow> bool" where
  "edge_at s i = ((i > 0 \<and> word_at s (i - 1)) \<noteq> word_at s i)"

definition end_at :: "string \<Rightarrow> nat \<Rightarrow> bool" where
  "end_at s i = (i = length s \<or> (Suc i = length s \<and> s ! i = CHR 0x0A))"

primrec ends :: "rx \<Rightarrow> string \<Rightarrow> nat \<Rightarrow> nat list" where
  "ends (Cls C) s i = (if i < length s \<and> C (s ! i) then [Suc i] else [])"
| "ends Eps s i = [i]"
| "ends (Cat r q) s i = concat (map (ends q s) (ends r s i))"
| "ends (Alt r q) s i = ends r s i @ ends q s i"
| "ends (Rep lo hi greedy r) s i =
     concat (map (rep_more (ends r s) greedy (case hi of None \<Rightarrow> length s | Some n \<Rightarrow> n - lo)) (rep_exact (ends r s) lo i))"
| "ends WordEdge s i = (if edge_at s i then [i] else [])"
| "ends TextStart s i = (if i = 0 then [i] else [])"
| "ends TextEnd s i = (if end_at s i then [i] else [])"
| "ends (NotAhead r) s i = (if ends r s i = [] then [i] else [])"

text \<open>\<open>finditer\<close>: matches from left to right, each search beginning where the last match ended.\<close>

primrec find_from :: "nat \<Rightarrow> rx \<Rightarrow> string \<Rightarrow> nat \<Rightarrow> (nat \<times> nat) list" where
  "find_from 0 r s i = []"
| "find_from (Suc n) r s i =
     (if i > length s then []
      else case ends r s i of
        [] \<Rightarrow> find_from n r s (Suc i)
      | j # _ \<Rightarrow> (i, j) # find_from n r s (if j = i then Suc i else j))"

definition finditer :: "rx \<Rightarrow> string \<Rightarrow> (nat \<times> nat) list" where
  "finditer r s = find_from (length s + 1) r s 0"

definition search :: "rx \<Rightarrow> string \<Rightarrow> bool" where
  "search r s = list_ex (\<lambda>i. ends r s i \<noteq> []) [0..<Suc (length s)]"

definition substr :: "string \<Rightarrow> nat \<Rightarrow> nat \<Rightarrow> string" where
  "substr s i j = take (j - i) (drop i s)"

primrec splice :: "(string \<Rightarrow> string) \<Rightarrow> string \<Rightarrow> nat \<Rightarrow> (nat \<times> nat) list \<Rightarrow> string" where
  "splice f s i [] = drop i s"
| "splice f s i (m # ms) = substr s i (fst m) @ f (substr s (fst m) (snd m)) @ splice f s (snd m) ms"

definition re_sub :: "rx \<Rightarrow> (string \<Rightarrow> string) \<Rightarrow> string \<Rightarrow> string" where
  "re_sub r f s = splice f s 0 (finditer r s)"

text \<open>\<open>s.replace(old, new)\<close> for a text \<open>old\<close> that is not empty.\<close>

primrec replace_from :: "nat \<Rightarrow> string \<Rightarrow> string \<Rightarrow> string \<Rightarrow> string" where
  "replace_from 0 old new s = s"
| "replace_from (Suc n) old new s =
     (case s of [] \<Rightarrow> []
      | c # rest \<Rightarrow> if startswith s old then new @ replace_from n old new (drop (length old) s)
                   else c # replace_from n old new rest)"

definition replace :: "string \<Rightarrow> string \<Rightarrow> string \<Rightarrow> string" where
  "replace old new s = replace_from (length s) old new s"

section \<open>The language of a pattern\<close>

primrec denot :: "rx \<Rightarrow> string \<Rightarrow> (nat \<times> nat) set" where
  "denot (Cls C) s = {(i, Suc i) | i. i < length s \<and> C (s ! i)}"
| "denot Eps s = Id"
| "denot (Cat r q) s = denot r s O denot q s"
| "denot (Alt r q) s = denot r s \<union> denot q s"
| "denot (Rep lo hi greedy r) s =
     (\<Union>n \<in> {n. lo \<le> n \<and> (case hi of None \<Rightarrow> True | Some m \<Rightarrow> n \<le> m \<or> n = lo)}. denot r s ^^ n)"
| "denot WordEdge s = {(i, i) | i. edge_at s i}"
| "denot TextStart s = {(0, 0)}"
| "denot TextEnd s = {(i, i) | i. end_at s i}"
| "denot (NotAhead r) s = {(i, i) | i. \<nexists>j. (i, j) \<in> denot r s}"

lemma rep_exact_relpow:
  assumes "\<And>i j. j \<in> set (f i) \<longleftrightarrow> (i, j) \<in> R"
  shows "j \<in> set (rep_exact f n i) \<longleftrightarrow> (i, j) \<in> R ^^ n"
proof (induction n arbitrary: i)
  case (Suc n)
  have "(i, j) \<in> R ^^ Suc n \<longleftrightarrow> (\<exists>k. (i, k) \<in> R \<and> (k, j) \<in> R ^^ n)"
    by (metis relpow_Suc_D2 relpow_Suc_I2)
  with Suc assms show ?case by auto
qed auto

lemma rep_more_sound:
  assumes "\<And>i j. j \<in> set (f i) \<longleftrightarrow> (i, j) \<in> R"
  shows "j \<in> set (rep_more f g n i) \<Longrightarrow> \<exists>m \<le> n. (i, j) \<in> R ^^ m"
proof (induction n arbitrary: i)
  case (Suc n)
  then consider "j = i" | k where "k \<in> set (f i)" "j \<in> set (rep_more f g n k)" by (auto simp: Let_def split: if_splits)
  then show ?case
  proof cases
    case 1
    then have "(i, j) \<in> R ^^ 0" by simp
    then show ?thesis by blast
  next
    case 2
    from Suc.IH [OF 2(2)] obtain m where "m \<le> n" "(k, j) \<in> R ^^ m" by blast
    with 2(1) assms have "Suc m \<le> Suc n" "(i, j) \<in> R ^^ Suc m" by (simp, blast intro: relpow_Suc_I2)
    then show ?thesis by blast
  qed
qed auto

lemma rep_more_complete:
  assumes "\<And>i j. j \<in> set (f i) \<longleftrightarrow> (i, j) \<in> R" and mono: "\<And>i j. (i, j) \<in> R \<Longrightarrow> i \<le> j"
  shows "(i, j) \<in> R ^^ m \<Longrightarrow> m \<le> n \<or> j \<le> i + n \<Longrightarrow> j \<in> set (rep_more f g n i)"
proof (induction n arbitrary: i m)
  case 0
  have le: "(i, j) \<in> R ^^ m \<Longrightarrow> i \<le> j" for i m
  proof (induction m arbitrary: i)
    case (Suc m)
    then obtain k where "(i, k) \<in> R" "(k, j) \<in> R ^^ m" by (blast elim: relpow_Suc_E2)
    with Suc.IH [of k] mono [of i k] show ?case by simp
  qed simp
  from 0 le [OF 0(1)] show ?case by auto
next
  case (Suc n)
  show ?case
  proof (cases "i = j")
    case True
    then show ?thesis by (auto simp: Let_def)
  next
    case False
    then obtain k q where k: "(i, k) \<in> R" "i < k" "(k, j) \<in> R ^^ q" "q < m"
      using Suc.prems(1) proof (induction m)
      case (Suc m)
      from Suc.prems(3) obtain k where k: "(i, k) \<in> R" "(k, j) \<in> R ^^ m" by (blast elim: relpow_Suc_E2)
      show ?case
      proof (cases "i = k")
        case True
        with k Suc.IH [OF _ Suc.prems(2)] Suc.prems(1) show ?thesis by (meson less_SucI)
      next
        case False
        with mono [OF k(1)] have "i < k" by simp
        with k Suc.prems(1) show ?thesis by blast
      qed
    qed auto
    from k Suc.prems(2) have "q \<le> n \<or> j \<le> k + n" by auto
    from Suc.IH [OF k(3) this] k assms(1) show ?thesis by (auto simp: Let_def)
  qed
qed

lemma denot_bounds: "(i, j) \<in> denot r s \<Longrightarrow> i \<le> j \<and> j \<le> max i (length s)"
proof (induction r arbitrary: i j)
  case (Cat r q)
  then obtain k where "(i, k) \<in> denot r s" "(k, j) \<in> denot q s" by auto
  with Cat.IH(1) [of i k] Cat.IH(2) [of k j] show ?case by auto
next
  case (Rep lo hi g r)
  then obtain n where "(i, j) \<in> denot r s ^^ n" by auto
  then show ?case
  proof (induction n arbitrary: j)
    case (Suc n)
    then obtain k where "(i, k) \<in> denot r s ^^ n" "(k, j) \<in> denot r s" by auto
    with Suc.IH [of k] Rep.IH [of k j] show ?case by auto
  qed auto
qed auto

text \<open>The matcher finds exactly the language of its pattern.\<close>

theorem ends_denot: "j \<in> set (ends r s i) \<longleftrightarrow> (i, j) \<in> denot r s"
proof (induction r arbitrary: i j)
  case (Rep lo hi g r)
  let ?R = "denot r s" and ?m = "case hi of None \<Rightarrow> length s | Some n \<Rightarrow> n - lo"
  have mono: "i \<le> j" if "(i, j) \<in> ?R" for i j using denot_bounds [OF that] by simp
  note ex = rep_exact_relpow [of "ends r s" ?R, OF Rep.IH]
  show ?case
  proof
    assume "j \<in> set (ends (Rep lo hi g r) s i)"
    then obtain k where k: "(i, k) \<in> ?R ^^ lo" "j \<in> set (rep_more (ends r s) g ?m k)" using ex by auto
    from rep_more_sound [of "ends r s" ?R, OF Rep.IH k(2)] obtain m where m: "m \<le> ?m" "(k, j) \<in> ?R ^^ m" by blast
    have "(i, j) \<in> ?R ^^ (lo + m)" using k(1) m(2) by (auto simp: relpow_add)
    moreover have "case hi of None \<Rightarrow> True | Some n \<Rightarrow> lo + m \<le> n \<or> lo + m = lo" using m(1) by (cases hi) auto
    ultimately show "(i, j) \<in> denot (Rep lo hi g r) s"
      by (simp del: denot.simps(1)) (rule exI [of _ "lo + m"], simp)
  next
    assume ij: "(i, j) \<in> denot (Rep lo hi g r) s"
    then obtain n where n: "lo \<le> n" "case hi of None \<Rightarrow> True | Some m \<Rightarrow> n \<le> m \<or> n = lo" "(i, j) \<in> ?R ^^ n" by auto
    then have "(i, j) \<in> ?R ^^ lo O ?R ^^ (n - lo)" by (simp flip: relpow_add)
    then obtain k where k: "(i, k) \<in> ?R ^^ lo" "(k, j) \<in> ?R ^^ (n - lo)" by auto
    have "(k, j) \<in> denot (Rep 0 None g r) s" using k(2) by auto
    from denot_bounds [OF this] have "j \<le> k + length s" by auto
    then have "n - lo \<le> ?m \<or> j \<le> k + ?m" using n(2) by (auto split: option.splits)
    from rep_more_complete [of "ends r s" ?R, OF Rep.IH mono k(2) this] have "j \<in> set (rep_more (ends r s) g ?m k)" .
    moreover from k(1) ex have "k \<in> set (rep_exact (ends r s) lo i)" by blast
    ultimately show "j \<in> set (ends (Rep lo hi g r) s i)" by auto
  qed
next
  case (NotAhead r)
  have "ends r s i = [] \<longleftrightarrow> (\<nexists>j. (i, j) \<in> denot r s)" using NotAhead [of _ i] by (metis all_not_in_conv set_empty)
  then show ?case by auto
qed (auto split: if_splits)

corollary ends_empty_iff: "ends r s i = [] \<longleftrightarrow> (\<forall>j. (i, j) \<notin> denot r s)"
  using ends_denot by (metis all_not_in_conv set_empty)

lemma search_iff: "search r s \<longleftrightarrow> (\<exists>i j. i \<le> length s \<and> (i, j) \<in> denot r s)"
proof -
  have "set [0..<Suc (length s)] = {i. i \<le> length s}" by auto
  then show ?thesis unfolding search_def list_ex_iff ends_empty_iff by blast
qed

section \<open>Successive matches\<close>

text \<open>Spans in order, none overlapping the one before.\<close>

primrec spans :: "nat \<Rightarrow> nat \<Rightarrow> (nat \<times> nat) list \<Rightarrow> bool" where
  "spans len i [] = True"
| "spans len i (m # ms) = (i \<le> fst m \<and> fst m \<le> snd m \<and> snd m \<le> len \<and> spans len (snd m) ms)"

lemma spans_weaken: "spans len j ms \<Longrightarrow> i \<le> j \<Longrightarrow> spans len i ms"
  by (cases ms) auto

lemma find_from_spans: "spans (length s) i (find_from n r s i)"
proof (induction n arbitrary: i)
  case (Suc n)
  show ?case
  proof (cases "ends r s i")
    case Nil
    with Suc.IH [of "Suc i"] show ?thesis by (auto intro: spans_weaken)
  next
    case (Cons j js)
    then have "(i, j) \<in> denot r s" using ends_denot [of j r s i] by simp
    from denot_bounds [OF this] Cons Suc.IH [of "if j = i then Suc i else j"] show ?thesis
      by (auto intro: spans_weaken)
  qed
qed simp

lemma finditer_spans: "spans (length s) 0 (finditer r s)"
  unfolding finditer_def by (rule find_from_spans)

lemma find_from_matches: "m \<in> set (find_from n r s i) \<Longrightarrow> m \<in> denot r s"
proof (induction n arbitrary: i)
  case (Suc n)
  show ?case
  proof (cases "ends r s i")
    case Nil
    with Suc show ?thesis by (auto split: if_splits)
  next
    case (Cons j js)
    then have "(i, j) \<in> denot r s" using ends_denot [of j r s i] by simp
    with Cons Suc show ?thesis by (auto split: if_splits)
  qed
qed simp

lemma finditer_matches: "m \<in> set (finditer r s) \<Longrightarrow> m \<in> denot r s"
  unfolding finditer_def by (rule find_from_matches)

lemma find_from_Nil: "length s < n + i \<Longrightarrow> find_from n r s i = [] \<longleftrightarrow> (\<forall>k. i \<le> k \<and> k \<le> length s \<longrightarrow> ends r s k = [])"
proof (induction n arbitrary: i)
  case (Suc n)
  show ?case
  proof (cases "i > length s \<or> ends r s i \<noteq> []")
    case True
    then show ?thesis by (cases "ends r s i") auto
  next
    case False
    with Suc.IH [of "Suc i"] Suc.prems have "find_from (Suc n) r s i = [] \<longleftrightarrow> (\<forall>k. Suc i \<le> k \<and> k \<le> length s \<longrightarrow> ends r s k = [])"
      by auto
    with False show ?thesis by (metis Suc_leI le_neq_implies_less Suc_leD)
  qed
qed auto

lemma finditer_Nil: "finditer r s = [] \<longleftrightarrow> \<not> search r s"
proof -
  have "set [0..<Suc (length s)] = {i. i \<le> length s}" by auto
  moreover have "finditer r s = [] \<longleftrightarrow> (\<forall>k. 0 \<le> k \<and> k \<le> length s \<longrightarrow> ends r s k = [])"
    unfolding finditer_def by (rule find_from_Nil) simp
  ultimately show ?thesis unfolding search_def list_ex_iff by auto
qed

lemma re_sub_id: "\<not> search r s \<Longrightarrow> re_sub r f s = s"
  by (simp add: re_sub_def flip: finditer_Nil)

section \<open>Characters a match cannot do without\<close>

definition needs :: "(char \<Rightarrow> bool) \<Rightarrow> rx \<Rightarrow> bool" where
  "needs P r = (\<forall>s i j. (i, j) \<in> denot r s \<longrightarrow> (\<exists>c \<in> set s. P c))"

lemma needs_Cls: "(\<And>c. C c \<Longrightarrow> P c) \<Longrightarrow> needs P (Cls C)"
  by (auto simp: needs_def intro: nth_mem)

lemma needs_Cat1: "needs P r \<Longrightarrow> needs P (Cat r q)"
  unfolding needs_def by auto

lemma needs_Cat2: "needs P q \<Longrightarrow> needs P (Cat r q)"
  unfolding needs_def by auto

lemma needs_Alt: "needs P r \<Longrightarrow> needs P q \<Longrightarrow> needs P (Alt r q)"
  unfolding needs_def denot.simps by blast

lemma needs_Rep:
  assumes "needs P r" and "0 < lo"
  shows "needs P (Rep lo hi g r)"
  unfolding needs_def
proof (intro allI impI)
  fix s i j
  assume "(i, j) \<in> denot (Rep lo hi g r) s"
  then obtain n where "lo \<le> n" "(i, j) \<in> denot r s ^^ n" by auto
  with assms(2) obtain m where "(i, j) \<in> denot r s ^^ Suc m" by (cases n) auto
  then obtain k where "(i, k) \<in> denot r s" by (blast elim: relpow_Suc_E2)
  with assms(1) show "\<exists>c \<in> set s. P c" by (auto simp: needs_def)
qed

lemma needs_seq: "r \<in> set rs \<Longrightarrow> needs P r \<Longrightarrow> needs P (seq rs)"
  by (induction rs) (auto simp: seq_def intro: needs_Cat1 needs_Cat2)

lemma needs_lit: "c \<in> set w \<Longrightarrow> P c \<Longrightarrow> needs P (lit w)"
  unfolding lit_def by (rule needs_seq [of "Cls (\<lambda>x. x = c)"]) (auto intro: needs_Cls)

lemma needs_finditer:
  assumes "needs P r" and "list_all (\<lambda>c. \<not> P c) s"
  shows "finditer r s = []"
proof -
  have "\<not> search r s" using assms by (auto simp: search_iff needs_def list_all_iff)
  then show ?thesis by (simp add: finditer_Nil)
qed

section \<open>Groups and replacement\<close>

text \<open>
  The ends of the factors of a sequence along each way of matching it, in the matcher's order: the first gives
  the groups of the match.
\<close>

primrec paths :: "rx list \<Rightarrow> string \<Rightarrow> nat \<Rightarrow> nat list list" where
  "paths [] s i = [[]]"
| "paths (r # rs) s i = concat (map (\<lambda>j. map ((#) j) (paths rs s j)) (ends r s i))"

primrec splice_spans :: "(nat \<times> nat \<Rightarrow> string) \<Rightarrow> string \<Rightarrow> nat \<Rightarrow> (nat \<times> nat) list \<Rightarrow> string" where
  "splice_spans f s i [] = drop i s"
| "splice_spans f s i (m # ms) = substr s i (fst m) @ f m @ splice_spans f s (snd m) ms"

lemma ends_seq: "ends (seq (rs :: rx list)) s i = map (\<lambda>p. if p = [] then i else last p) (paths rs s i)"
proof (induction rs arbitrary: i)
  case (Cons r rs)
  have "concat (map (ends (seq rs) s) (ends r s i)) = concat (map (\<lambda>j. map (\<lambda>p. last (j # p)) (paths rs s j)) (ends r s i))"
    by (intro arg_cong [where f = concat] map_cong) (auto simp: Cons)
  then show ?case by (simp add: seq_def map_concat comp_def)
qed (simp add: seq_def)

text \<open>
  A text \<open>w\<close> that the replaced text cannot begin to spell out is in the result only where it was before.
\<close>

lemma replace_from_prefix:
  assumes "old \<noteq> []" and "new \<noteq> []" and "length s \<le> n"
    and "hd new \<notin> set w" and "startswith (replace_from n old new s) w"
  shows "startswith s w"
  using assms(3-5)
proof (induction n arbitrary: s w)
  case (Suc n)
  show ?case
  proof (cases s)
    case Nil
    with Suc.prems show ?thesis by simp
  next
    case (Cons c rest)
    show ?thesis
    proof (cases "startswith s old")
      case True
      with Suc.prems Cons have "startswith (new @ replace_from n old new (drop (length old) s)) w" by simp
      with assms(2) Suc.prems(2) have "w = []" by (cases new; cases w) (auto simp: startswith_def)
      then show ?thesis by (simp add: startswith_def)
    next
      case False
      show ?thesis
      proof (cases w)
        case Nil
        then show ?thesis by (simp add: startswith_def)
      next
        case (Cons d w')
        with Suc.prems \<open>s = c # rest\<close> False have "d = c" "startswith (replace_from n old new rest) w'"
          by (auto simp: startswith_def)
        with Suc.IH [of rest w'] Suc.prems \<open>s = c # rest\<close> Cons show ?thesis by (auto simp: startswith_def)
      qed
    qed
  qed
qed simp

text \<open>
  Replacing \<open>old\<close> leaves no text \<open>w\<close> that begins with \<open>old\<close>'s first character, provided the replacement has no
  such character and begins with one \<open>w\<close> lacks, and \<open>w\<close> is \<open>old\<close> or was absent before.
\<close>

lemma replace_from_removes:
  assumes "old \<noteq> []" and "new \<noteq> []" and "length s \<le> n" and "hd new \<notin> set w" and "w \<noteq> []" and "hd w \<notin> set new"
    and "startswith w old \<or> \<not> str_in w s"
  shows "\<not> str_in w (replace_from n old new s)"
  using assms(3,7)
proof (induction n arbitrary: s)
  case 0
  then show ?case using assms(1,5) by (auto simp: startswith_def)
next
  case (Suc n)
  show ?case
  proof (cases s)
    case Nil
    with assms(5) show ?thesis by simp
  next
    case (Cons c rest)
    have skip: "str_in w (u @ v) \<Longrightarrow> hd w \<notin> set u \<Longrightarrow> str_in w v" for u v
      using assms(5) by (induction u) (auto simp: startswith_def neq_Nil_conv)
    show ?thesis
    proof (cases "startswith s old")
      case True
      have len: "length (drop (length old) s) \<le> n" using Suc.prems(1) assms(1) Cons by (cases old) auto
      have "\<not> str_in w (drop (length old) s)" if "\<not> str_in w s"
        using that by (metis append_assoc append_take_drop_id str_in_iff)
      with Suc.IH [OF len] Suc.prems(2) have "\<not> str_in w (replace_from n old new (drop (length old) s))" by blast
      with skip assms(6) True Cons show ?thesis by (auto simp del: str_in.simps)
    next
      case False
      have prem: "startswith w old \<or> \<not> str_in w rest" using Suc.prems(2) Cons by auto
      from Suc.IH [of rest] prem Suc.prems(1) Cons have rest: "\<not> str_in w (replace_from n old new rest)" by simp
      have "\<not> startswith (replace_from (Suc n) old new s) w"
      proof
        assume "startswith (replace_from (Suc n) old new s) w"
        from replace_from_prefix [OF assms(1,2) Suc.prems(1) assms(4) this] have "startswith s w" .
        then have "str_in w s" using Cons by simp
        with Suc.prems(2) have "startswith w old" by blast
        with \<open>startswith s w\<close> have "startswith s old" by (auto simp: startswith_iff)
        with False show False by simp
      qed
      with rest False Cons show ?thesis by simp
    qed
  qed
qed

lemma replace_removes:
  assumes "old \<noteq> []" and "new \<noteq> []" and "hd new \<notin> set w" and "w \<noteq> []" and "hd w \<notin> set new"
    and "startswith w old \<or> \<not> str_in w s"
  shows "\<not> str_in w (replace old new s)"
  unfolding replace_def by (rule replace_from_removes [OF assms(1,2) order_refl assms(3-6)])

end
