(* ===== verification/Pii_Redaction.thy ===== *)
theory Pii_Redaction
  imports Py_Regex
begin

text \<open>
  \<open>security/pii.py\<close>, which masks personal data before a message is stored, and \<open>inference/pii_scanner.py\<close>, which
  masks it before a request leaves for a model. The patterns are the code's, on ASCII text; Presidio, a package
  that may be missing or fail, is a parameter of the first.
\<close>

section \<open>Patterns\<close>

abbreviation dig :: rx where "dig \<equiv> Cls is_digit"

abbreviation opt_in :: "string \<Rightarrow> rx" where "opt_in cs \<equiv> optional (Cls (one_of cs))"

definition email_pattern :: rx where
  "email_pattern = seq
     [WordEdge, some_of (Cls (\<lambda>c. is_alnum c \<or> one_of ''._%+-'' c)), lit ''@'', some_of (Cls (\<lambda>c. is_alnum c \<or> one_of ''.-'' c)),
      lit ''.'', Rep 2 (Some 7) True (Cls (\<lambda>c. is_upper c \<or> c = CHR ''|'' \<or> is_lower c)), WordEdge]"

definition octet :: rx where
  "octet = alts
     [seq [lit ''25'', Cls (between CHR ''0'' CHR ''5'')], seq [lit ''2'', Cls (between CHR ''0'' CHR ''4''), dig],
      seq [optional (Cls (one_of ''01'')), dig, optional dig]]"

definition ip_pattern :: rx where
  "ip_pattern = seq [WordEdge, exactly 3 (seq [octet, lit ''.'']), octet, WordEdge]"

definition credit_card_pattern :: rx where
  "credit_card_pattern = seq [WordEdge, Rep 13 (Some 16) True (seq [dig, Rep 0 None False (Cls (one_of '' -''))]), WordEdge]"

definition phone_pattern :: rx where
  "phone_pattern = seq
     [WordEdge, optional (seq [lit ''+'', Rep 1 (Some 3) True dig, opt_in ''- '']), opt_in ''('', exactly 3 dig, opt_in '')'',
      opt_in ''- '', exactly 3 dig, opt_in ''- '', exactly 4 dig, WordEdge]"

section \<open>The redactor of messages\<close>

record pii_redactor =
  pr_placeholders :: "(string, string) pydict"
  pr_presidio :: "((string, string) pydict \<Rightarrow> string \<Rightarrow> string option) option"

definition default_placeholders :: "(string, string) pydict" where
  "default_placeholders =
     [(''email'', ''[REDACTED_EMAIL]''), (''ip'', ''[REDACTED_IP]''), (''credit_card'', ''[REDACTED_CARD]''),
      (''phone'', ''[REDACTED_PHONE]''), (''person'', ''[REDACTED_PERSON]''), (''location'', ''[REDACTED_LOCATION]''),
      (''ssn'', ''[REDACTED_SSN]'')]"

definition new_redactor ::
  "(string, string) pydict option \<Rightarrow> ((string, string) pydict \<Rightarrow> string \<Rightarrow> string option) option \<Rightarrow> pii_redactor" where
  "new_redactor ph pres =
     \<lparr>pr_placeholders = (case ph of None \<Rightarrow> default_placeholders | Some p \<Rightarrow> if p = [] then default_placeholders else p),
      pr_presidio = pres\<rparr>"

definition redact_regex :: "pii_redactor \<Rightarrow> string \<Rightarrow> string" where
  "redact_regex pr t =
     (let mark = (\<lambda>k d. dgetd (pr_placeholders pr) k d);
          t1 = re_sub email_pattern (\<lambda>_. mark ''email'' ''[REDACTED_EMAIL]'') t;
          t2 = re_sub ip_pattern (\<lambda>_. mark ''ip'' ''[REDACTED_IP]'') t1;
          t3 = re_sub credit_card_pattern (\<lambda>_. mark ''credit_card'' ''[REDACTED_CARD]'') t2
      in re_sub phone_pattern (\<lambda>_. mark ''phone'' ''[REDACTED_PHONE]'') t3)"

text \<open>
  \<open>_redact_presidio\<close>: the analyzer is asked for seven entities, and the anonymizer replaces each by its
  placeholder; \<open>None\<close> is an exception of either.
\<close>

definition presidio_operators :: "pii_redactor \<Rightarrow> (string, string) pydict" where
  "presidio_operators pr =
     map (\<lambda>(entity, k). (entity, dgetd (pr_placeholders pr) k (the (dget default_placeholders k))))
       [(''PERSON'', ''person''), (''EMAIL_ADDRESS'', ''email''), (''PHONE_NUMBER'', ''phone''), (''IP_ADDRESS'', ''ip''),
        (''CREDIT_CARD'', ''credit_card''), (''US_SSN'', ''ssn''), (''LOCATION'', ''location'')]"

definition redact :: "pii_redactor \<Rightarrow> string \<Rightarrow> string" where
  "redact pr t =
     (if t = [] then t
      else case pr_presidio pr of
        None \<Rightarrow> redact_regex pr t
      | Some f \<Rightarrow> (case f (presidio_operators pr) t of Some t' \<Rightarrow> t' | None \<Rightarrow> redact_regex pr t))"

section \<open>The scanner of requests\<close>

record pii_match =
  pm_entity :: string
  pm_value :: string
  pm_start :: nat
  pm_end :: nat

record pii_result =
  px_has :: bool
  px_matches :: "pii_match list"
  px_sanitized :: string

definition inference_patterns :: "(string, rx) pydict" where
  "inference_patterns =
     [(''email'', email_pattern),
      (''phone'', seq [WordEdge, optional (seq [opt_in ''+'', Rep 1 (Some 3) True dig, optional (Cls (\<lambda>c. one_of ''-.'' c \<or> space_char c))]),
         opt_in ''('', exactly 3 dig, opt_in '')'', optional (Cls (\<lambda>c. one_of ''-.'' c \<or> space_char c)), exactly 3 dig,
         optional (Cls (\<lambda>c. one_of ''-.'' c \<or> space_char c)), exactly 4 dig, WordEdge]),
      (''ssn'', seq [WordEdge, exactly 3 dig, lit ''-'', exactly 2 dig, lit ''-'', exactly 4 dig, WordEdge]),
      (''credit_card'', seq [WordEdge, exactly 3 (seq [exactly 4 dig, optional (Cls (\<lambda>c. c = CHR ''-'' \<or> space_char c))]), exactly 4 dig, WordEdge]),
      (''api_key'', seq [WordEdge, alts [seq [lit ''sk-'', least 20 (Cls is_alnum)], seq [lit ''ghp_'', exactly 36 (Cls is_alnum)],
         seq [lit ''AIza'', exactly 35 (Cls (\<lambda>c. is_alnum c \<or> one_of ''-_'' c))]], WordEdge])]"

definition pii_matches :: "string \<Rightarrow> pii_match list" where
  "pii_matches t = concat (map (\<lambda>(entity, r).
     map (\<lambda>(a, b). \<lparr>pm_entity = entity, pm_value = substr t a b, pm_start = a, pm_end = b\<rparr>) (finditer r t)) inference_patterns)"

text \<open>\<open>mask_template.format(entity=\<dots>)\<close> is the function \<open>mk\<close> of the upper-case name.\<close>

definition cut_match :: "(string \<Rightarrow> string) \<Rightarrow> pii_match \<Rightarrow> string \<Rightarrow> string" where
  "cut_match mk m s = take (pm_start m) s @ mk (to_upper (pm_entity m)) @ drop (pm_end m) s"

definition pii_scan :: "(string \<Rightarrow> string) \<Rightarrow> string \<Rightarrow> pii_result" where
  "pii_scan mk t =
     (if t = [] then \<lparr>px_has = False, px_matches = [], px_sanitized = []\<rparr>
      else let ms = pii_matches t
           in if ms = [] then \<lparr>px_has = False, px_matches = [], px_sanitized = t\<rparr>
              else \<lparr>px_has = True, px_matches = ms, px_sanitized = fold (cut_match mk) (sorted_desc pm_start ms) t\<rparr>)"

definition inference_redact :: "(string \<Rightarrow> string) \<Rightarrow> string \<Rightarrow> string" where
  "inference_redact mk t = px_sanitized (pii_scan mk t)"

definition default_mask :: "string \<Rightarrow> string" where "default_mask e = ''[REDACTED_'' @ e @ '']''"

section \<open>Disjoint matches are masked in place\<close>

text \<open>The text with each match replaced where it stands and everything between the matches kept.\<close>

primrec masked :: "(string \<Rightarrow> string) \<Rightarrow> string \<Rightarrow> nat \<Rightarrow> pii_match list \<Rightarrow> string" where
  "masked mk t i [] = drop i t"
| "masked mk t i (m # ms) = substr t i (pm_start m) @ mk (to_upper (pm_entity m)) @ masked mk t (pm_end m) ms"

lemma fold_cut_masked:
  "spans (length t) i (map (\<lambda>m. (pm_start m, pm_end m)) ms) \<Longrightarrow> fold (cut_match mk) (rev ms) t = take i t @ masked mk t i ms"
proof (induction ms arbitrary: i)
  case (Cons m ms)
  then have b: "i \<le> pm_start m" "pm_start m \<le> pm_end m" "pm_end m \<le> length t" by auto
  from Cons have fold: "fold (cut_match mk) (rev ms) t = take (pm_end m) t @ masked mk t (pm_end m) ms" by simp
  have start: "take (pm_start m) t = take i t @ substr t i (pm_start m)"
    using b(1) by (metis le_add_diff_inverse substr_def take_add)
  from fold have "fold (cut_match mk) (rev (m # ms)) t = cut_match mk m (take (pm_end m) t @ masked mk t (pm_end m) ms)" by simp
  also have "\<dots> = take (pm_start m) t @ mk (to_upper (pm_entity m)) @ masked mk t (pm_end m) ms"
    using b by (simp add: cut_match_def min_def)
  finally show ?case using start by simp
qed (simp add: substr_def)

text \<open>
  When no two matches overlap, the sanitized request is the text with every match replaced by the mask of its
  kind where it stood, and nothing else is changed: replacing from the last match to the first keeps the offsets valid.
\<close>

theorem pii_scan_masks_in_place:
  assumes "spans (length t) 0 (map (\<lambda>m. (pm_start m, pm_end m)) (sort_key pm_start (rev (pii_matches t))))"
  shows "inference_redact mk t = masked mk t 0 (sort_key pm_start (rev (pii_matches t)))"
proof (cases "t = []")
  case True
  have "pii_matches [] = []" by code_simp
  with True show ?thesis by (simp add: inference_redact_def pii_scan_def)
next
  case False
  from fold_cut_masked [OF assms, of mk] False show ?thesis
    by (auto simp: inference_redact_def pii_scan_def Let_def sorted_desc_def)
qed

definition two_numbers :: string where "two_numbers = ''a@b.io 111-22-3333!''"

lemma pii_scan_masks_in_place_witness:
  "inference_redact default_mask two_numbers = ''[REDACTED_EMAIL] [REDACTED_SSN]!''"
proof -
  have m: "pii_matches two_numbers = [\<lparr>pm_entity = ''email'', pm_value = ''a@b.io'', pm_start = 0, pm_end = 6\<rparr>,
    \<lparr>pm_entity = ''ssn'', pm_value = ''111-22-3333'', pm_start = 7, pm_end = 18\<rparr>]" by code_simp
  have "inference_redact default_mask two_numbers = masked default_mask two_numbers 0 (sort_key pm_start (rev (pii_matches two_numbers)))"
    by (rule pii_scan_masks_in_place, unfold m) code_simp
  also have "\<dots> = ''[REDACTED_EMAIL] [REDACTED_SSN]!''" unfolding m by code_simp
  finally show ?thesis .
qed

text \<open>
  Overlapping matches corrupt the request: a key inside an address deletes the words after it, and a
  telephone number inside an address leaves the end of the address in the text.
\<close>

theorem pii_overlap_corrupts:
  "inference_redact default_mask ''sk-aaaaaaaaaaaaaaaaaaaa@x.io hi bob'' = ''[REDACTED_API_KEY]''
   \<and> inference_redact default_mask ''joe@555-123-4567.co'' = ''[REDACTED_EMAIL]].co''"
proof
  have m: "pii_matches ''sk-aaaaaaaaaaaaaaaaaaaa@x.io hi bob'' =
    [\<lparr>pm_entity = ''email'', pm_value = ''sk-aaaaaaaaaaaaaaaaaaaa@x.io'', pm_start = 0, pm_end = 28\<rparr>,
     \<lparr>pm_entity = ''api_key'', pm_value = ''sk-aaaaaaaaaaaaaaaaaaaa'', pm_start = 0, pm_end = 23\<rparr>]" by code_simp
  show "inference_redact default_mask ''sk-aaaaaaaaaaaaaaaaaaaa@x.io hi bob'' = ''[REDACTED_API_KEY]''"
    unfolding inference_redact_def pii_scan_def m by code_simp
  have m: "pii_matches ''joe@555-123-4567.co'' =
    [\<lparr>pm_entity = ''email'', pm_value = ''joe@555-123-4567.co'', pm_start = 0, pm_end = 19\<rparr>,
     \<lparr>pm_entity = ''phone'', pm_value = ''555-123-4567'', pm_start = 4, pm_end = 16\<rparr>]" by code_simp
  show "inference_redact default_mask ''joe@555-123-4567.co'' = ''[REDACTED_EMAIL]].co''"
    unfolding inference_redact_def pii_scan_def m by code_simp
qed

text \<open>
  Without Presidio a social security number is kept, although the redactor has a placeholder for it.
\<close>

lemma fallback_keeps_ssn: "redact (new_redactor None None) ''123-45-6789'' = ''123-45-6789''"
  by code_simp

text \<open>When nothing matches, the text is returned as it is; an exception of Presidio is never one of the redactor.\<close>

lemma redact_regex_id:
  assumes "list_all (\<lambda>r. \<not> search r t) [email_pattern, ip_pattern, credit_card_pattern, phone_pattern]"
  shows "redact_regex pr t = t"
  using assms by (simp add: redact_regex_def Let_def re_sub_id)

lemma redact_presidio_failure: "pr_presidio pr = Some (\<lambda>_ _. None) \<Longrightarrow> redact pr t = redact (pr\<lparr>pr_presidio := None\<rparr>) t"
  by (simp add: redact_def redact_regex_def presidio_operators_def)

end
