(* ===== verification/Secret_Scan.thy ===== *)
theory Secret_Scan
  imports Py_Regex
begin

text \<open>
  \<open>security/secret_scanner.py\<close>: the search for credentials in texts, files, workspaces, the history of git, archives and
  JSON values, and the redaction of logs. Patterns are those of the code, on ASCII text. The content of files,
  the output of git and the members of an archive are arguments. The entropy of a text is the real number the
  formula denotes.
\<close>

section \<open>Patterns\<close>

definition alnums :: rx where "alnums = Cls is_alnum"

definition openai_key :: rx where "openai_key = seq [WordEdge, lit ''sk-'', least 48 alnums, WordEdge]"

definition anthropic_key :: rx where "anthropic_key = seq [WordEdge, lit ''sk-ant-'', least 30 alnums, WordEdge]"

definition google_key :: rx where
  "google_key = seq [WordEdge, lit ''AIzaSy'', exactly 33 (Cls (\<lambda>c. is_alnum c \<or> one_of ''_-'' c)), WordEdge]"

definition github_token :: rx where
  "github_token = seq [WordEdge, lit ''gh'', Cls (one_of ''oprs''), lit ''_'', least 36 alnums, WordEdge]"

definition slack_token :: rx where
  "slack_token = seq [WordEdge, lit ''xox'', Cls (one_of ''baprs''), lit ''-'', least 10 (Cls (\<lambda>c. is_alnum c \<or> c = CHR ''-'')), WordEdge]"

definition aws_key_id :: rx where
  "aws_key_id = seq [WordEdge, lit ''AKIA'', exactly 16 (Cls (\<lambda>c. is_digit c \<or> is_upper c)), WordEdge]"

definition five_dashes :: string where "five_dashes = replicate 5 CHR ''-''"

definition private_key :: rx where
  "private_key = seq
     [lit (five_dashes @ ''BEGIN ''), some_of (Cls (\<lambda>c. is_upper c \<or> c = CHR '' '')), lit ('' PRIVATE KEY'' @ five_dashes),
      Rep 1 None False (Cls (\<lambda>_. True)),
      lit (five_dashes @ ''END ''), some_of (Cls (\<lambda>c. is_upper c \<or> c = CHR '' '')), lit ('' PRIVATE KEY'' @ five_dashes)]"

definition secret_patterns :: "(string, rx) pydict" where
  "secret_patterns =
     [(''OpenAI API Key'', openai_key), (''Anthropic API Key'', anthropic_key), (''Google API Key'', google_key),
      (''GitHub Token'', github_token), (''Slack Token'', slack_token), (''AWS Access Key ID'', aws_key_id), (''Private Key'', private_key)]"

definition default_excludes :: "string list" where
  "default_excludes =
     [''.git'', ''.venv'', ''venv'', ''node_modules'', ''.pytest_cache'', ''.ruff_cache'', ''.mypy_cache'', ''__pycache__'', ''dist'', ''build'',
      ''vault.enc'', ''.vault_key'']"

definition combined_secret :: rx where
  "combined_secret = alts [private_key, openai_key, anthropic_key, google_key, github_token, slack_token, aws_key_id]"

section \<open>Texts\<close>

definition calculate_entropy :: "string \<Rightarrow> real" where
  "calculate_entropy t =
     (if t = [] then 0
      else - (\<Sum>c \<in> set t. (real (count_list t c) / real (length t)) * log 2 (real (count_list t c) / real (length t))))"

record found =
  fo_type :: string
  fo_match :: string
  fo_start :: nat
  fo_end :: nat

definition token_char :: "char \<Rightarrow> bool" where
  "token_char c = (\<not> space_char c \<and> c \<notin> set ''(),;=[]{}<>'' \<and> c \<noteq> CHR 0x22 \<and> c \<noteq> CHR 0x27)"

definition hex_char :: "char \<Rightarrow> bool" where
  "hex_char c = (is_digit c \<or> between CHR ''a'' CHR ''f'' c \<or> between CHR ''A'' CHR ''F'' c)"

definition uuid_pattern :: rx where
  "uuid_pattern = seq [TextStart, exactly 8 (Cls hex_char), lit ''-'', exactly 4 (Cls hex_char), lit ''-'', exactly 4 (Cls hex_char), lit ''-'',
     exactly 4 (Cls hex_char), lit ''-'', exactly 12 (Cls hex_char), TextEnd]"

text \<open>Numbers, words in one case and UUIDs are no secrets.\<close>

definition plain_token :: "string \<Rightarrow> bool" where
  "plain_token w = (list_all is_digit w \<or> list_all is_lower w \<or> list_all is_upper w \<or> ends uuid_pattern w 0 \<noteq> [])"

definition scan_entropy :: "string \<Rightarrow> nat \<Rightarrow> real \<Rightarrow> found list" where
  "scan_entropy t min_length threshold =
     map (\<lambda>(a, b). \<lparr>fo_type = ''High-Entropy Secret'', fo_match = substr t a b, fo_start = a, fo_end = b\<rparr>)
       (filter (\<lambda>(a, b). \<not> plain_token (substr t a b) \<and> calculate_entropy (substr t a b) \<ge> threshold)
         (finditer (least min_length (Cls token_char)) t))"

definition pattern_findings :: "string \<Rightarrow> found list" where
  "pattern_findings t = concat (map (\<lambda>(name, r).
     map (\<lambda>(a, b). \<lparr>fo_type = name, fo_match = substr t a b, fo_start = a, fo_end = b\<rparr>) (finditer r t)) secret_patterns)"

definition scan_text :: "string \<Rightarrow> bool \<Rightarrow> real \<Rightarrow> found list" where
  "scan_text t check_entropy threshold =
     (let fs = pattern_findings t
      in if check_entropy
         then fs @ filter (\<lambda>e. \<not> (\<exists>f \<in> set fs. fo_start f \<le> fo_start e \<and> fo_end f \<ge> fo_end e)) (scan_entropy t 16 threshold)
         else fs)"

definition hints :: "string list" where
  "hints = [''sk-'', ''AIzaSy'', ''gh'', ''xox'', ''AKIA'', five_dashes @ ''BEGIN'']"

definition mask_value :: "string \<Rightarrow> string" where
  "mask_value v = take 6 v @ ''...'' @ drop (length v - 4) v"

text \<open>
  The group that matched is the first of the alternatives with a match at the place; values of at most twelve
  characters get the name of their kind.
\<close>

definition group_names :: "(string \<times> rx) list" where
  "group_names =
     [(''OPENAI API KEY'', openai_key), (''ANTHROPIC API KEY'', anthropic_key), (''GOOGLE API KEY'', google_key), (''GITHUB TOKEN'', github_token),
      (''SLACK TOKEN'', slack_token), (''AWS ACCESS KEY ID'', aws_key_id)]"

definition replace_match :: "string \<Rightarrow> nat \<times> nat \<Rightarrow> string" where
  "replace_match s m =
     (if ends private_key s (fst m) \<noteq> [] then ''<PRIVATE KEY_REDACTED>''
      else let val = substr s (fst m) (snd m)
           in if length val \<le> 12
              then ''<'' @ (case find (\<lambda>(n, r). ends r s (fst m) \<noteq> []) group_names of Some (n, r) \<Rightarrow> n | None \<Rightarrow> ''SECRET'') @ ''_REDACTED>''
              else mask_value val)"

definition redact_text :: "string \<Rightarrow> string" where
  "redact_text t =
     (if \<not> list_ex (\<lambda>h. str_in h t) hints then t else splice_spans (replace_match t) t 0 (finditer combined_secret t))"

section \<open>Files, workspaces, history, archives, JSON\<close>

definition line_break :: "char \<Rightarrow> bool" where
  "line_break c = (10 \<le> (of_char c :: nat) \<and> (of_char c :: nat) \<le> 13 \<or> 28 \<le> (of_char c :: nat) \<and> (of_char c :: nat) \<le> 30)"

text \<open>\<open>str.splitlines\<close>; a carriage return before a line feed is one break.\<close>

fun split_lines :: "string \<Rightarrow> string \<Rightarrow> string list" where
  "split_lines acc [] = (if acc = [] then [] else [rev acc])"
| "split_lines acc (c # s) =
     (if c = CHR 0x0D \<and> s \<noteq> [] \<and> hd s = CHR 0x0A then split_lines acc s
      else if line_break c then rev acc # split_lines [] s
      else split_lines (c # acc) s)"

definition masked_preview :: "string \<Rightarrow> string" where
  "masked_preview v = (if length v > 10 then mask_value v else ''...'')"

record file_finding =
  ff_file :: string
  ff_line :: nat
  ff_type :: string
  ff_preview :: string

datatype scanned_file = Missing | Directory | Unreadable | Readable string

definition count_breaks :: "string \<Rightarrow> nat" where "count_breaks s = count_list s CHR 0x0A"

definition numbered :: "'a list \<Rightarrow> (nat \<times> 'a) list" where "numbered xs = zip [1..<Suc (length xs)] xs"

definition scan_content :: "string \<Rightarrow> string \<Rightarrow> bool \<Rightarrow> file_finding list" where
  "scan_content path content check_entropy =
     (let ls = numbered (split_lines [] content)
      in concat (map (\<lambda>(name, r).
           if name = ''Private Key''
           then map (\<lambda>(a, b). \<lparr>ff_file = path, ff_line = count_breaks (take a content) + 1, ff_type = name,
                  ff_preview = take 60 (substr content a b) @ ''...''\<rparr>) (finditer r content)
           else concat (map (\<lambda>(i, l).
                  map (\<lambda>(a, b). \<lparr>ff_file = path, ff_line = i, ff_type = name, ff_preview = masked_preview (substr l a b)\<rparr>) (finditer r l)) ls))
         secret_patterns)
         @ (if check_entropy
            then concat (map (\<lambda>(i, l). map (\<lambda>e. \<lparr>ff_file = path, ff_line = i, ff_type = ''High-Entropy Secret'',
                   ff_preview = masked_preview (fo_match e)\<rparr>) (scan_entropy l 16 (38/10))) ls)
            else []))"

definition scan_file :: "string \<Rightarrow> scanned_file \<Rightarrow> bool \<Rightarrow> file_finding list" where
  "scan_file path f check_entropy = (case f of Readable c \<Rightarrow> scan_content path c check_entropy | _ \<Rightarrow> [])"

text \<open>An entry of \<open>rglob\<close>: the parts of its path, from the root on, and what it is.\<close>

record tree_entry =
  te_parts :: "string list"
  te_path :: string
  te_content :: scanned_file

definition scan_workspace :: "bool \<Rightarrow> tree_entry list \<Rightarrow> string list option \<Rightarrow> bool \<Rightarrow> file_finding list" where
  "scan_workspace there tree excludes check_entropy =
     (let ex = (case excludes of None \<Rightarrow> default_excludes | Some e \<Rightarrow> e)
      in if \<not> there then []
         else concat (map (\<lambda>e.
           if list_ex (\<lambda>p. p \<in> set ex) (te_parts e) then []
           else if te_content e = Missing \<or> te_content e = Directory then []
           else scan_file (te_path e) (te_content e) check_entropy) tree))"

record git_finding =
  gf_commit :: string
  gf_file :: string
  gf_type :: string
  gf_preview :: string

text \<open>\<open>line.split()[1]\<close> of a line that begins with \<open>commit\<close> and a blank.\<close>

definition second_word :: "string \<Rightarrow> string" where
  "second_word l = takeWhile (\<lambda>c. \<not> space_char c) (dropWhile space_char (dropWhile (\<lambda>c. \<not> space_char c) l))"

primrec git_lines :: "bool \<Rightarrow> string list \<Rightarrow> string \<Rightarrow> string \<Rightarrow> git_finding list" where
  "git_lines ent [] commit file = []"
| "git_lines ent (l # ls) commit file =
     (if startswith l ''commit '' then git_lines ent ls (take 10 (second_word l)) file
      else if startswith l ''+++ b/'' then git_lines ent ls commit (drop 6 l)
      else if startswith l ''+'' \<and> \<not> startswith l ''+++''
      then map (\<lambda>f. \<lparr>gf_commit = commit, gf_file = file, gf_type = fo_type f, gf_preview = masked_preview (fo_match f)\<rparr>)
             (scan_text (drop 1 l) ent (38/10)) @ git_lines ent ls commit file
      else git_lines ent ls commit file)"

text \<open>\<open>None\<close> is a directory without history, a failed or a timed-out git.\<close>

definition scan_git_history :: "string option \<Rightarrow> bool \<Rightarrow> git_finding list" where
  "scan_git_history out ent = (case out of None \<Rightarrow> [] | Some s \<Rightarrow> git_lines ent (split_lines [] s) ''HEAD'' ''unknown'')"

record archive_member =
  am_name :: string
  am_file :: bool
  am_size :: nat
  am_text :: "string option"

record archive_finding =
  af_archive :: string
  af_member :: string
  af_line :: nat
  af_type :: string
  af_preview :: string

definition scan_archive :: "string \<Rightarrow> archive_member list option \<Rightarrow> bool \<Rightarrow> archive_finding list" where
  "scan_archive name members ent =
     (case members of
        None \<Rightarrow> []
      | Some ms \<Rightarrow> concat (map (\<lambda>m.
          if \<not> am_file m \<or> am_size m > 5 * 1024 * 1024 then []
          else case am_text m of
            None \<Rightarrow> []
          | Some content \<Rightarrow> concat (map (\<lambda>(i, l).
              map (\<lambda>f. \<lparr>af_archive = name, af_member = am_name m, af_line = i, af_type = fo_type f,
                  af_preview = masked_preview (fo_match f)\<rparr>) (scan_text l ent (38/10)))
              (numbered (split_lines [] content)))) ms))"

record json_finding =
  jf_path :: string
  jf_type :: string
  jf_preview :: string

lemma size_member: "j \<in> set js \<Longrightarrow> size j < Suc (size_list size js)"
  by (induction js) auto

lemma size_field: "(k, v) \<in> set kvs \<Longrightarrow> size v < Suc (size_list (size_prod (\<lambda>x. 0) size) kvs)"
  by (induction kvs) auto

function scan_json_payload :: "bool \<Rightarrow> json \<Rightarrow> string \<Rightarrow> json_finding list" where
  "scan_json_payload ent (JObj kvs) path =
     concat (map (\<lambda>kv. scan_json_payload ent (snd kv) (path @ ''.'' @ fst kv)) kvs)"
| "scan_json_payload ent (JList js) path =
     concat (map (\<lambda>(i, j). scan_json_payload ent j (path @ ''['' @ show_nat i @ '']'')) (zip [0..<length js] js))"
| "scan_json_payload ent (JStr s) path =
     map (\<lambda>f. \<lparr>jf_path = path, jf_type = fo_type f, jf_preview = masked_preview (fo_match f)\<rparr>) (scan_text s ent (38/10))"
| "scan_json_payload ent JNull path = []"
| "scan_json_payload ent (JBool b) path = []"
| "scan_json_payload ent (JInt i) path = []"
| "scan_json_payload ent (JFloat x) path = []"
  by pat_completeness auto
termination
  by (relation "measure (\<lambda>(ent, j, path). size j)") (auto dest: size_member size_field set_zip_rightD)

section \<open>The fast exit of the redaction is sound\<close>

lemma lit_spells: "(i, j) \<in> denot (lit w) s \<Longrightarrow> i \<le> length s \<Longrightarrow> startswith (drop i s) w"
proof (induction w arbitrary: i)
  case Nil
  then show ?case by (simp add: startswith_def)
next
  case (Cons c w)
  then have "i < length s" "s ! i = c" "(Suc i, j) \<in> denot (lit w) s" by (auto simp: lit_def seq_def)
  moreover from this Cons.IH [of "Suc i"] have "startswith (drop (Suc i) s) w" by simp
  ultimately show ?case by (simp add: startswith_def flip: Cons_nth_drop_Suc)
qed

definition spells :: "string \<Rightarrow> rx \<Rightarrow> bool" where
  "spells w r = (\<forall>s i j. (i, j) \<in> denot r s \<longrightarrow> i \<le> length s \<longrightarrow> str_in w s)"

lemma startswith_drop_in: "startswith (drop i s) w \<Longrightarrow> str_in w s"
  by (metis append_take_drop_id startswith_iff str_in_iff)

lemma spells_lit: "str_in w v \<Longrightarrow> spells w (lit v)"
  unfolding spells_def
proof (intro allI impI)
  fix s i j
  assume "str_in w v" "(i, j) \<in> denot (lit v) s" "i \<le> length s"
  then have "str_in v s" by (blast dest: lit_spells startswith_drop_in)
  with \<open>str_in w v\<close> show "str_in w s" by (auto simp: str_in_iff) (metis append.assoc)
qed

lemma spells_seq: "r \<in> set rs \<Longrightarrow> spells w r \<Longrightarrow> spells w (seq rs)"
proof (induction rs)
  case (Cons q rs)
  show ?case
    unfolding spells_def
  proof (intro allI impI)
    fix s i j
    assume "(i, j) \<in> denot (seq (q # rs)) s" and i: "i \<le> length s"
    then obtain k where k: "(i, k) \<in> denot q s" "(k, j) \<in> denot (seq rs) s" by (auto simp: seq_def)
    from denot_bounds [OF k(1)] i have "k \<le> length s" by auto
    with k i Cons show "str_in w s" unfolding spells_def by (metis set_ConsD)
  qed
qed simp

lemma spells_first: "str_in w v \<Longrightarrow> spells w (seq (lit v # rs))"
  by (rule spells_seq [OF _ spells_lit, of v]) simp_all

lemma spells_second: "str_in w v \<Longrightarrow> spells w (seq (r # lit v # rs))"
  by (rule spells_seq [OF _ spells_lit, of v]) simp_all

lemma secret_spells:
  "spells (five_dashes @ ''BEGIN'') private_key" "spells ''sk-'' openai_key" "spells ''sk-'' anthropic_key" "spells ''AIzaSy'' google_key"
  "spells ''gh'' github_token" "spells ''xox'' slack_token" "spells ''AKIA'' aws_key_id"
  unfolding private_key_def openai_key_def anthropic_key_def google_key_def github_token_def slack_token_def aws_key_id_def
  by (rule spells_first, code_simp) (rule spells_second, code_simp)+

lemma spellsD: "spells w r \<Longrightarrow> (i, j) \<in> denot r t \<Longrightarrow> i \<le> length t \<Longrightarrow> w \<in> set ws \<Longrightarrow> list_ex (\<lambda>h. str_in h t) ws"
  unfolding spells_def list_ex_iff by blast

lemma in_hints: "five_dashes @ ''BEGIN'' \<in> set hints" "''sk-'' \<in> set hints" "''AIzaSy'' \<in> set hints" "''gh'' \<in> set hints"
  "''xox'' \<in> set hints" "''AKIA'' \<in> set hints"
  by (simp_all add: hints_def)

lemma hint_of_secret:
  assumes "search combined_secret t"
  shows "list_ex (\<lambda>h. str_in h t) hints"
proof -
  obtain i j where i: "i \<le> length t" and ij: "(i, j) \<in> denot combined_secret t" using assms by (auto simp: search_iff)
  have "denot combined_secret t = denot private_key t \<union> denot openai_key t \<union> denot anthropic_key t \<union> denot google_key t
    \<union> denot github_token t \<union> denot slack_token t \<union> denot aws_key_id t"
    by (simp add: combined_secret_def alts_def Un_assoc)
  with ij consider "(i, j) \<in> denot private_key t" | "(i, j) \<in> denot openai_key t" | "(i, j) \<in> denot anthropic_key t"
    | "(i, j) \<in> denot google_key t" | "(i, j) \<in> denot github_token t" | "(i, j) \<in> denot slack_token t" | "(i, j) \<in> denot aws_key_id t"
    by blast
  then show ?thesis
    by cases (rule spellsD, rule secret_spells, assumption, rule i, rule in_hints)+
qed

lemma redact_fast_exit:
  "redact_text t = splice_spans (replace_match t) t 0 (finditer combined_secret t)"
proof (cases "list_ex (\<lambda>h. str_in h t) hints")
  case True
  then show ?thesis by (simp add: redact_text_def)
next
  case False
  then have "finditer combined_secret t = []" using hint_of_secret by (auto simp: finditer_Nil)
  with False show ?thesis by (simp add: redact_text_def)
qed

text \<open>
  The redaction returns what the combined pattern gives on every text: the test for prefixes before it, which
  lets most lines of a log through without matching, never hides a credential.
\<close>

theorem redact_fast_exit_sound: "redact_text t = splice_spans (replace_match t) t 0 (finditer combined_secret t)"
  by (rule redact_fast_exit)

section \<open>JSON values\<close>

fun string_leaves :: "json \<Rightarrow> string list" where
  "string_leaves (JObj kvs) = concat (map (\<lambda>(k, v). string_leaves v) kvs)"
| "string_leaves (JList js) = concat (map string_leaves js)"
| "string_leaves (JStr s) = [s]"
| "string_leaves _ = []"

lemma concat_map_concats: "concat (map (\<lambda>x. concat (h x)) xs) = concat (concat (map h xs))"
  by (induction xs) simp_all

text \<open>
  A JSON value is searched completely: what is reported are the findings of its strings at any depth of objects
  and lists, in their order, and nothing else; the names of fields are not searched.
\<close>

theorem json_payload_leaves:
  "map jf_type (scan_json_payload ent j path) = concat (map (\<lambda>s. map fo_type (scan_text s ent (38/10))) (string_leaves j))"
proof (induction ent j path rule: scan_json_payload.induct)
  case (1 ent kvs path)
  have "map (\<lambda>kv. map jf_type (scan_json_payload ent (snd kv) (path @ ''.'' @ fst kv))) kvs
    = map (\<lambda>kv. concat (map (\<lambda>s. map fo_type (scan_text s ent (38/10))) (string_leaves (snd kv)))) kvs"
    by (rule map_cong [OF refl]) (rule 1)
  then have "concat (map (\<lambda>kv. map jf_type (scan_json_payload ent (snd kv) (path @ ''.'' @ fst kv))) kvs)
    = concat (map (\<lambda>kv. concat (map (\<lambda>s. map fo_type (scan_text s ent (38/10))) (string_leaves (snd kv)))) kvs)"
    by (rule arg_cong)
  then show ?case by (simp add: map_concat comp_def case_prod_beta concat_map_concats)
next
  case (2 ent js path)
  have "map (\<lambda>x. map jf_type (scan_json_payload ent (snd x) (path @ ''['' @ show_nat (fst x) @ '']''))) (zip [0..<length js] js)
    = map (\<lambda>x. concat (map (\<lambda>s. map fo_type (scan_text s ent (38/10))) (string_leaves (snd x)))) (zip [0..<length js] js)"
  proof (rule map_cong [OF refl])
    fix x
    assume mem: "x \<in> set (zip [0..<length js] js)"
    show "map jf_type (scan_json_payload ent (snd x) (path @ ''['' @ show_nat (fst x) @ '']''))
      = concat (map (\<lambda>s. map fo_type (scan_text s ent (38/10))) (string_leaves (snd x)))"
      using 2 [OF mem, of "fst x" "snd x"] by simp
  qed
  then have "concat (map (\<lambda>x. map jf_type (scan_json_payload ent (snd x) (path @ ''['' @ show_nat (fst x) @ '']''))) (zip [0..<length js] js))
    = concat (map (\<lambda>x. concat (map (\<lambda>s. map fo_type (scan_text s ent (38/10))) (string_leaves (snd x)))) (zip [0..<length js] js))"
    by (rule arg_cong)
  also have "\<dots> = concat (map (\<lambda>j. concat (map (\<lambda>s. map fo_type (scan_text s ent (38/10))) (string_leaves j))) (map snd (zip [0..<length js] js)))"
    by (simp only: map_map comp_def)
  finally show ?case by (simp add: map_concat comp_def case_prod_beta concat_map_concats)
qed (simp_all add: comp_def)

section \<open>What the scanner does not see\<close>

definition anthropic_live :: string where "anthropic_live = ''sk-ant-api03-'' @ replicate 32 CHR ''x''"

definition pem_lines :: string where
  "pem_lines = five_dashes @ ''BEGIN RSA PRIVATE KEY'' @ five_dashes @ [CHR 0x0A] @ ''MII='' @ [CHR 0x0A] @ five_dashes @ ''END RSA PRIVATE KEY'' @ five_dashes"

text \<open>
  A key of the form the provider issues today, with a hyphen after its version, is neither found nor redacted.
\<close>

theorem anthropic_keys_missed: "scan_text anthropic_live False x = [] \<and> redact_text anthropic_live = anthropic_live"
proof -
  have "pattern_findings anthropic_live = []" "finditer combined_secret anthropic_live = []" by code_simp+
  then show ?thesis by (simp add: scan_text_def redact_fast_exit)
qed

text \<open>
  A private key over several lines is found in a file, and not in an archive or the history of git, which are
  searched line by line.
\<close>

theorem multiline_keys_missed:
  "map ff_type (scan_file ''k.pem'' (Readable pem_lines) False) = [''Private Key'']
   \<and> scan_archive ''a.zip'' (Some [\<lparr>am_name = ''k.pem'', am_file = True, am_size = 60, am_text = Some pem_lines\<rparr>]) False = []
   \<and> scan_git_history (Some (concat (map (\<lambda>l. CHR ''+'' # l @ [CHR 0x0A]) (split_lines [] pem_lines)))) False = []"
proof -
  have ls: "split_lines [] pem_lines = [five_dashes @ ''BEGIN RSA PRIVATE KEY'' @ five_dashes, ''MII='', five_dashes @ ''END RSA PRIVATE KEY'' @ five_dashes]"
    by code_simp
  have "list_all (\<lambda>l. list_all (\<lambda>r. finditer r l = []) (dvals secret_patterns)) (split_lines [] pem_lines)" by code_simp
  then have none: "\<forall>l \<in> set (split_lines [] pem_lines). \<forall>r \<in> set (dvals secret_patterns). finditer r l = []" by (simp add: list_all_iff)
  have none': "scan_text l False x = []" if "l \<in> set (split_lines [] pem_lines)" for l x
    using none that by (force simp: scan_text_def pattern_findings_def)
  have key: "finditer private_key pem_lines = [(0, 66)]" by code_simp
  have "map ff_type (scan_content ''k.pem'' pem_lines False) = [''Private Key'']"
    using none unfolding ls by (simp add: scan_content_def ls numbered_def secret_patterns_def key)
  moreover have "scan_archive ''a.zip'' (Some [\<lparr>am_name = ''k.pem'', am_file = True, am_size = 60, am_text = Some pem_lines\<rparr>]) False = []"
    using none' by (auto simp: scan_archive_def numbered_def dest: set_zip_rightD)
  moreover have "scan_git_history (Some (concat (map (\<lambda>l. CHR ''+'' # l @ [CHR 0x0A]) (split_lines [] pem_lines)))) False = []"
  proof -
    have git: "split_lines [] (concat (map (\<lambda>l. CHR ''+'' # l @ [CHR 0x0A]) (split_lines [] pem_lines)))
      = map ((#) CHR ''+'') (split_lines [] pem_lines)" by code_simp
    have "git_lines False (map ((#) CHR ''+'') ls) c f = []"
      if "set ls \<subseteq> set (split_lines [] pem_lines)" for ls c f
      using that none' by (induction ls) (auto simp: startswith_def ls five_dashes_def)
    then show ?thesis by (simp add: scan_git_history_def git)
  qed
  ultimately show ?thesis by (simp add: scan_file_def)
qed

text \<open>
  The excluded names are compared with every part of a path, those above the workspace too: a workspace below a
  directory called \<open>build\<close> or \<open>dist\<close> is reported free of secrets whatever it holds.
\<close>

theorem workspace_below_build_skipped:
  "if list_ex (\<lambda>p. p \<in> set default_excludes) anc
   then scan_workspace there (map (\<lambda>e. e\<lparr>te_parts := anc @ te_parts e\<rparr>) tree) None ent = [] else True"
  by (simp add: scan_workspace_def Let_def comp_def)

end
