(* ===== verification/Dlp_Engine.thy ===== *)
theory Dlp_Engine
  imports Py_Regex
begin

text \<open>
  \<open>security/dlp.py\<close>: the scan of outgoing text for credentials and card numbers, its enforcement, and the guard
  that asks an operator before private data leaves. Patterns are those of the code, matched by \<open>Py_Regex\<close>; text is
  ASCII. The process-wide audit log and the table of tokens are the lists the operations return.
\<close>

section \<open>Card numbers\<close>

definition digit_value :: "char \<Rightarrow> nat" where "digit_value c = of_char c - 48"

fun luhn_sum :: "bool \<Rightarrow> nat list \<Rightarrow> nat" where
  "luhn_sum dbl [] = 0"
| "luhn_sum dbl (d # ds) =
     (if dbl then (let doubled = d * 2 in if doubled > 9 then doubled - 9 else doubled) else d) + luhn_sum (\<not> dbl) ds"

definition is_luhn_valid :: "string \<Rightarrow> bool" where
  "is_luhn_valid s =
     (let digits = map digit_value (filter is_digit s)
      in if length digits < 13 \<or> length digits > 19 then False else luhn_sum False (rev digits) mod 10 = 0)"

section \<open>Patterns\<close>

datatype sensitivity = LOW | MEDIUM | HIGH | CRITICAL

datatype dlp_action = ALLOW | REDACT | BLOCK

record dlp_rule =
  rl_type :: string
  rl_severity :: sensitivity
  rl_pattern :: rx

definition digit :: rx where "digit = Cls is_digit"

definition alnum :: rx where "alnum = Cls is_alnum"

definition dashes :: string where "dashes = replicate 5 CHR ''-''"

definition upper_words :: rx where "upper_words = some_of (Cls (\<lambda>c. is_upper c \<or> c = CHR '' ''))"

definition private_key_pattern :: rx where
  "private_key_pattern = seq
     [lit (dashes @ ''BEGIN ''), upper_words, lit ('' PRIVATE KEY'' @ dashes), Rep 1 None False (Cls (\<lambda>_. True)),
      lit (dashes @ ''END ''), upper_words, lit ('' PRIVATE KEY'' @ dashes)]"

definition aws_pattern :: rx where
  "aws_pattern = seq [WordEdge, lit ''AKIA'', exactly 16 (Cls (\<lambda>c. is_digit c \<or> is_upper c)), WordEdge]"

definition google_pattern :: rx where
  "google_pattern = seq [WordEdge, lit ''AIzaSy'', exactly 33 (Cls (\<lambda>c. is_alnum c \<or> one_of ''_-'' c)), WordEdge]"

definition github_pattern :: rx where
  "github_pattern = seq [WordEdge, lit ''gh'', Cls (one_of ''oprs''), lit ''_'', least 36 alnum, WordEdge]"

definition slack_pattern :: rx where
  "slack_pattern = seq [WordEdge, lit ''xox'', Cls (one_of ''baprs''), lit ''-'', least 10 (Cls (\<lambda>c. is_alnum c \<or> c = CHR ''-'')), WordEdge]"

definition ssn_pattern :: rx where
  "ssn_pattern = seq
     [WordEdge, NotAhead (alts [lit ''000'', lit ''666'', seq [lit ''9'', digit, digit]]), exactly 3 digit, lit ''-'',
      NotAhead (lit ''00''), exactly 2 digit, lit ''-'', NotAhead (lit ''0000''), exactly 4 digit, WordEdge]"

definition dlp_patterns :: "dlp_rule list" where
  "dlp_patterns =
     [\<lparr>rl_type = ''private_key'', rl_severity = CRITICAL, rl_pattern = private_key_pattern\<rparr>,
      \<lparr>rl_type = ''openai_api_key'', rl_severity = CRITICAL,
        rl_pattern = seq [WordEdge, alts [seq [lit ''sk-'', least 48 alnum],
                                         seq [lit ''sk-proj-'', least 40 (Cls (\<lambda>c. is_alnum c \<or> one_of ''_-'' c))]], WordEdge]\<rparr>,
      \<lparr>rl_type = ''anthropic_api_key'', rl_severity = CRITICAL,
        rl_pattern = seq [WordEdge, lit ''sk-ant-'', least 30 (Cls (\<lambda>c. is_alnum c \<or> one_of ''_-'' c)), WordEdge]\<rparr>,
      \<lparr>rl_type = ''aws_access_key'', rl_severity = HIGH, rl_pattern = aws_pattern\<rparr>,
      \<lparr>rl_type = ''google_api_key'', rl_severity = HIGH, rl_pattern = google_pattern\<rparr>,
      \<lparr>rl_type = ''github_token'', rl_severity = HIGH, rl_pattern = github_pattern\<rparr>,
      \<lparr>rl_type = ''slack_token'', rl_severity = HIGH, rl_pattern = slack_pattern\<rparr>,
      \<lparr>rl_type = ''system_shadow_entry'', rl_severity = CRITICAL,
        rl_pattern = seq [WordEdge, lit ''root:'', Cls (one_of ''*x!''), lit '':0:0:'', some_of (Cls (\<lambda>c. c \<noteq> CHR 0x0A))]\<rparr>,
      \<lparr>rl_type = ''vault_token'', rl_severity = HIGH,
        rl_pattern = seq [WordEdge, alts [seq [lit ''vault_'', least 20 alnum], seq [lit ''s.'', least 24 alnum]], WordEdge]\<rparr>,
      \<lparr>rl_type = ''ssn'', rl_severity = HIGH, rl_pattern = ssn_pattern\<rparr>]"

definition card_candidate :: rx where
  "card_candidate = seq
     [WordEdge, exactly 3 (seq [exactly 4 digit, optional (Cls (one_of '' -''))]), Rep 1 (Some 4) True digit, WordEdge]"

section \<open>Scanning\<close>

record violation =
  vi_type :: string
  vi_severity :: sensitivity
  vi_preview :: string
  vi_location :: nat

record scan_result =
  sr_has :: bool
  sr_violations :: "violation list"
  sr_action :: dlp_action
  sr_clean :: string

definition preview :: "string \<Rightarrow> string" where
  "preview val = (if length val > 12 then take 4 val @ ''...'' @ drop (length val - 4) val else ''[REDACTED]'')"

definition redaction_mark :: "string \<Rightarrow> string" where
  "redaction_mark ty = ''[DLP_REDACTED_'' @ to_upper ty @ '']''"

definition rule_violations :: "string \<Rightarrow> dlp_rule \<Rightarrow> violation list" where
  "rule_violations text r =
     map (\<lambda>m. \<lparr>vi_type = rl_type r, vi_severity = rl_severity r, vi_preview = preview (substr text (fst m) (snd m)), vi_location = fst m\<rparr>)
       (finditer (rl_pattern r) text)"

definition card_numbers :: "string \<Rightarrow> (nat \<times> nat) list" where
  "card_numbers text = filter (\<lambda>m. is_luhn_valid (filter is_digit (substr text (fst m) (snd m)))) (finditer card_candidate text)"

definition card_violation :: "string \<Rightarrow> nat \<times> nat \<Rightarrow> violation" where
  "card_violation text m =
     (let ds = filter is_digit (substr text (fst m) (snd m))
      in \<lparr>vi_type = ''credit_card_number'', vi_severity = CRITICAL, vi_preview = take 4 ds @ ''...'' @ drop (length ds - 4) ds,
          vi_location = fst m\<rparr>)"

definition clean_cards :: "string \<Rightarrow> string \<Rightarrow> string" where
  "clean_cards text clean =
     fold (\<lambda>m c. replace (substr text (fst m) (snd m)) ''[DLP_REDACTED_CREDIT_CARD]'' c) (card_numbers text) clean"

definition scan :: "string \<Rightarrow> dlp_action \<Rightarrow> scan_result" where
  "scan text default_action =
     (if text = [] then \<lparr>sr_has = False, sr_violations = [], sr_action = ALLOW, sr_clean = []\<rparr>
      else
        let vs = concat (map (rule_violations text) dlp_patterns) @ map (card_violation text) (card_numbers text);
            clean = clean_cards text (fold (\<lambda>r c. re_sub (rl_pattern r) (\<lambda>_. redaction_mark (rl_type r)) c) dlp_patterns text);
            has = length vs > 0
        in \<lparr>sr_has = has, sr_violations = vs, sr_action = (if has then default_action else ALLOW), sr_clean = clean\<rparr>)"

section \<open>Enforcement\<close>

record dlp_event =
  de_action :: string
  de_resource :: string
  de_outcome :: string
  de_types :: "string list"
  de_count :: nat

definition enforce_outbound :: "string \<Rightarrow> string \<Rightarrow> bool \<Rightarrow> (string list + string) \<times> dlp_event list" where
  "enforce_outbound content dest block_on_critical =
     (let res = scan content REDACT; vs = sr_violations res;
          critical = filter (\<lambda>v. vi_severity v = CRITICAL) vs
      in if \<not> sr_has res then (Inr content, [])
         else if block_on_critical \<and> critical \<noteq> [] then
           (Inl (map vi_type critical),
            [\<lparr>de_action = ''dlp.outbound_blocked'', de_resource = dest, de_outcome = ''blocked'',
              de_types = map vi_type critical, de_count = length vs\<rparr>])
         else
           (Inr (sr_clean res),
            [\<lparr>de_action = ''dlp.outbound_redacted'', de_resource = dest, de_outcome = ''redacted'',
              de_types = map vi_type vs, de_count = length vs\<rparr>]))"

section \<open>Confirmation by an operator\<close>

type_synonym tokens = "(string, timestamp) pydict"

text \<open>The 32 hexadecimal digits of a new token are drawn outside.\<close>

definition issue_confirmation_token :: "timestamp \<Rightarrow> string \<Rightarrow> string \<Rightarrow> rat \<Rightarrow> tokens \<Rightarrow> string \<times> tokens" where
  "issue_confirmation_token now drawn challenge ttl ts =
     (let token = ''dlp_conf_'' @ drawn in (token, dset token (now + ttl) ts))"

datatype guard_error = NeedsConfirmation "string list" string | TokenExpired "string list"

definition check_transmission ::
  "timestamp \<Rightarrow> string \<Rightarrow> string \<Rightarrow> bool \<Rightarrow> string option \<Rightarrow> tokens \<Rightarrow> (guard_error + string) \<times> tokens \<times> dlp_event list" where
  "check_transmission now content dest requires token ts =
     (let res = scan content REDACT; types = map vi_type (sr_violations res)
      in if \<not> sr_has res then (Inr content, ts, [])
         else if requires then
           (case (case token of None \<Rightarrow> None | Some t \<Rightarrow> if t = [] then None else dget ts t) of
              None \<Rightarrow> (Inl (NeedsConfirmation types (''confirm_send_'' @ dest @ ''_'' @ show_nat (length types))), ts, [])
            | Some expiry \<Rightarrow>
                if expiry < now then (Inl (TokenExpired types), dpop (the token) ts, [])
                else (Inr content, dpop (the token) ts,
                      [\<lparr>de_action = ''security.dlp.outbound_transmission_confirmed'', de_resource = dest, de_outcome = ''confirmed'',
                        de_types = types, de_count = length types\<rparr>]))
         else (Inr content, ts, []))"

section \<open>The checksum detects a mistyped digit\<close>

definition luhn_part :: "bool \<Rightarrow> nat \<Rightarrow> nat" where
  "luhn_part dbl d = (if dbl then (if d * 2 > 9 then d * 2 - 9 else d * 2) else d)"

lemma luhn_sum_part: "luhn_sum b (d # ds) = luhn_part b d + luhn_sum (\<not> b) ds"
  by (simp add: luhn_part_def Let_def)

lemma luhn_sum_update:
  "k < length ds \<Longrightarrow> luhn_sum b (ds[k := e]) + luhn_part (b = even k) (ds ! k) = luhn_sum b ds + luhn_part (b = even k) e"
proof (induction ds arbitrary: k b)
  case (Cons d ds)
  show ?case
  proof (cases k)
    case 0
    then show ?thesis by (simp add: luhn_sum_part del: luhn_sum.simps)
  next
    case (Suc k')
    with Cons.IH [of k' "\<not> b"] Cons.prems have
      "luhn_sum (\<not> b) (ds[k' := e]) + luhn_part ((\<not> b) = even k') (ds ! k') = luhn_sum (\<not> b) ds + luhn_part ((\<not> b) = even k') e"
      by simp
    moreover have "((\<not> b) = even k') = (b = even k)" using Suc by auto
    ultimately show ?thesis using Suc by (simp add: luhn_sum_part del: luhn_sum.simps)
  qed
qed simp

lemma luhn_part_inj:
  assumes "d < 10" and "e < 10" and "luhn_part b d mod 10 = luhn_part b e mod 10"
  shows "d = e"
proof -
  have less: "x < 10 \<Longrightarrow> luhn_part b x < 10" for x by (auto simp: luhn_part_def)
  then have "luhn_part b d = luhn_part b e" using assms by simp
  then show ?thesis using assms(1,2) unfolding luhn_part_def by (simp split: if_splits) presburger+
qed

lemma mod_balance:
  assumes "(a :: nat) + x = b + y" and "a mod 10 = 0" and "b mod 10 = 0"
  shows "x mod 10 = y mod 10"
proof -
  have "(a + x) mod 10 = (a mod 10 + x) mod 10" "(b + y) mod 10 = (b mod 10 + y) mod 10" by (rule mod_add_left_eq [symmetric])+
  with assms show ?thesis by simp
qed

lemma filter_update:
  assumes "i < length s" and "P (s ! i)" and "P c"
  shows "filter P (s[i := c]) = (filter P s)[length (filter P (take i s)) := c]"
    and "length (filter P (take i s)) < length (filter P s)"
    and "filter P s ! length (filter P (take i s)) = s ! i"
proof -
  have s: "s = take i s @ s ! i # drop (Suc i) s" using assms(1) by (rule id_take_nth_drop)
  have u: "s[i := c] = take i s @ c # drop (Suc i) s" using assms(1) by (rule upd_conv_take_nth_drop)
  have f: "filter P s = filter P (take i s) @ s ! i # filter P (drop (Suc i) s)"
    using assms(2) by (subst s) (simp del: append_take_drop_id)
  show "filter P (s[i := c]) = (filter P s)[length (filter P (take i s)) := c]"
    unfolding u f using assms(3) by simp
  show "length (filter P (take i s)) < length (filter P s)" "filter P s ! length (filter P (take i s)) = s ! i"
    unfolding f by simp_all
qed

lemma digit_value_inj:
  assumes "is_digit c" and "is_digit d"
  shows "digit_value c < 10" and "digit_value c = digit_value d \<longleftrightarrow> c = d"
proof -
  from assms have *: "48 \<le> (of_char c :: nat)" "(of_char c :: nat) \<le> 57" "48 \<le> (of_char d :: nat)" "(of_char d :: nat) \<le> 57"
    by (auto simp: is_digit_def between_def)
  then show "digit_value c < 10" by (simp add: digit_value_def)
  have "c = d" if "digit_value c = digit_value d"
  proof -
    have "(of_char c :: nat) = of_char d" using * that unfolding digit_value_def by arith
    then show ?thesis by (simp only: of_char_eq_iff)
  qed
  then show "digit_value c = digit_value d \<longleftrightarrow> c = d" by auto
qed

text \<open>
  A card number that passes the check fails it after any one of its digits is replaced by another: the scan
  neither misses a mistyped number for a valid one nor depends on separators between the digits.
\<close>

theorem luhn_detects_single_error:
  assumes "is_luhn_valid s" and "i < length s" and "is_digit (s ! i)" and "is_digit c" and "c \<noteq> s ! i"
  shows "\<not> is_luhn_valid (s[i := c])"
proof
  assume new: "is_luhn_valid (s[i := c])"
  define ds where "ds = map digit_value (filter is_digit s)"
  define k where "k = length (filter is_digit (take i s))"
  note f = filter_update [of i s is_digit c, OF assms(2-4), folded k_def]
  define r where "r = length ds - Suc k"
  have k: "k < length ds" using f(2) by (simp add: ds_def)
  have "map digit_value (filter is_digit (s[i := c])) = ds[k := digit_value c]" by (simp add: f(1) ds_def map_update)
  then have valid: "luhn_sum False (rev ds) mod 10 = 0" "luhn_sum False ((rev ds)[r := digit_value c]) mod 10 = 0"
    using assms(1) new k by (auto simp: is_luhn_valid_def Let_def ds_def [symmetric] rev_update r_def split: if_splits)
  have r: "r < length (rev ds)" "rev ds ! r = digit_value (s ! i)"
    using k f(2,3) by (auto simp: r_def rev_nth ds_def)
  let ?p = "luhn_part (False = even r)"
  from mod_balance [OF luhn_sum_update [OF r(1), of False "digit_value c"] valid(2,1)]
  have "?p (rev ds ! r) mod 10 = ?p (digit_value c) mod 10" .
  with r(2) luhn_part_inj [of "digit_value (s ! i)" "digit_value c" "False = even r"] digit_value_inj [OF assms(3,4)] digit_value_inj(1) [OF assms(4,3)]
  show False using assms(5) by simp
qed

lemma luhn_detects_single_error_witness:
  "is_luhn_valid ''4111111111111111'' \<and> \<not> is_luhn_valid (''4111111111111111''[3 := CHR ''7''])"
proof
  show v: "is_luhn_valid ''4111111111111111''" by code_simp
  have d: "is_digit (''4111111111111111'' ! 3)" "is_digit CHR ''7''" "CHR ''7'' \<noteq> ''4111111111111111'' ! 3" by code_simp+
  show "\<not> is_luhn_valid (''4111111111111111''[3 := CHR ''7''])"
    by (rule luhn_detects_single_error [OF v _ d]) simp
qed

section \<open>What leaves\<close>

definition leaks :: "sensitivity list \<Rightarrow> string \<Rightarrow> bool" where
  "leaks levels text =
     (list_ex (\<lambda>r. rl_severity r \<in> set levels \<and> search (rl_pattern r) text) dlp_patterns
      \<or> (CRITICAL \<in> set levels \<and> card_numbers text \<noteq> []))"

lemma card_numbers_nil [simp]: "card_numbers [] = []"
proof -
  have "finditer card_candidate [] = []" by code_simp
  then show ?thesis by (simp add: card_numbers_def)
qed

lemma scan_leaks:
  assumes "text \<noteq> []"
  shows "(\<exists>v \<in> set (sr_violations (scan text a)). vi_severity v \<in> set levels) \<longleftrightarrow> leaks levels text"
proof -
  have rules: "(\<exists>v \<in> set (rule_violations text r). vi_severity v \<in> set levels) \<longleftrightarrow> rl_severity r \<in> set levels \<and> search (rl_pattern r) text" for r
  proof -
    have "search (rl_pattern r) text \<longleftrightarrow> finditer (rl_pattern r) text \<noteq> []" by (simp add: finditer_Nil)
    then show ?thesis by (cases "finditer (rl_pattern r) text") (auto simp: rule_violations_def)
  qed
  have cards: "(\<exists>v \<in> set (map (card_violation text) (card_numbers text)). vi_severity v \<in> set levels) \<longleftrightarrow> CRITICAL \<in> set levels \<and> card_numbers text \<noteq> []"
    by (cases "card_numbers text") (auto simp: card_violation_def Let_def)
  have "(\<exists>v \<in> set (sr_violations (scan text a)). vi_severity v \<in> set levels) \<longleftrightarrow>
    (\<exists>r \<in> set dlp_patterns. \<exists>v \<in> set (rule_violations text r). vi_severity v \<in> set levels)
    \<or> (\<exists>v \<in> set (map (card_violation text) (card_numbers text)). vi_severity v \<in> set levels)"
    using assms by (simp add: scan_def Let_def bex_Un)
  then show ?thesis unfolding rules cards leaks_def list_ex_iff .
qed

abbreviation all_levels :: "sensitivity list" where "all_levels \<equiv> [LOW, MEDIUM, HIGH, CRITICAL]"

lemma level_in: "v \<in> set all_levels"
  by (cases v) auto

lemma scan_has: "text \<noteq> [] \<Longrightarrow> sr_has (scan text a) \<longleftrightarrow> leaks all_levels text"
proof -
  assume t: "text \<noteq> []"
  have "sr_has (scan text a) \<longleftrightarrow> sr_violations (scan text a) \<noteq> []" using t by (simp add: scan_def Let_def)
  also have "\<dots> \<longleftrightarrow> (\<exists>v \<in> set (sr_violations (scan text a)). vi_severity v \<in> set all_levels)"
    using level_in by (metis all_not_in_conv set_empty)
  also have "\<dots> \<longleftrightarrow> leaks all_levels text" by (rule scan_leaks [OF t])
  finally show ?thesis .
qed



lemma check_transmission_leak:
  assumes "text \<noteq> []" and "leaks all_levels text"
  shows "check_transmission now text dest True token ts =
    (let types = map vi_type (sr_violations (scan text REDACT))
     in case (case token of None \<Rightarrow> None | Some t \<Rightarrow> if t = [] then None else dget ts t) of
          None \<Rightarrow> (Inl (NeedsConfirmation types (''confirm_send_'' @ dest @ ''_'' @ show_nat (length types))), ts, [])
        | Some expiry \<Rightarrow>
            if expiry < now then (Inl (TokenExpired types), dpop (the token) ts, [])
            else (Inr text, dpop (the token) ts,
                  [\<lparr>de_action = ''security.dlp.outbound_transmission_confirmed'', de_resource = dest, de_outcome = ''confirmed'',
                    de_types = types, de_count = length types\<rparr>]))"
  using scan_has [OF assms(1)] assms(2) by (simp add: check_transmission_def Let_def)

text \<open>
  Private data is released only for a token in the table that has not expired, and the token is spent: until it is
  issued again it releases nothing more, whatever the text, the destination or the time.
\<close>

theorem confirmation_spends_token:
  assumes "text \<noteq> []" and "leaks all_levels text" and "check_transmission now text dest True token ts = (Inr out, ts', evs)"
  shows "out = text \<and> (\<exists>t e. token = Some t \<and> dget ts t = Some e \<and> now \<le> e \<and> dget ts' t = None)
    \<and> (if text' \<noteq> [] \<and> leaks all_levels text' then \<exists>types q. check_transmission now' text' dest' True token ts' = (Inl (NeedsConfirmation types q), ts', []) else True)"
proof -
  from assms(3) obtain t e where t: "token = Some t" "t \<noteq> []" "dget ts t = Some e" "now \<le> e" "out = text" "ts' = dpop t ts"
    by (auto simp: check_transmission_leak [OF assms(1,2)] Let_def split: option.splits if_splits)
  then have "dget ts' t = None" by simp
  with t show ?thesis by (auto simp: check_transmission_leak Let_def)
qed

definition leaking_ssn :: string where "leaking_ssn = ''123-45-6789''"

lemma leaking_ssn_leaks: "leaks all_levels leaking_ssn \<and> leaking_ssn \<noteq> []"
proof -
  have "search ssn_pattern leaking_ssn" by code_simp
  then show ?thesis by (simp add: leaks_def dlp_patterns_def leaking_ssn_def)
qed

lemma confirmation_spends_token_witness:
  "\<exists>types q. check_transmission 7 leaking_ssn ''x'' True (Some ''t'') [] = (Inl (NeedsConfirmation types q), [], [])"
proof -
  have c: "check_transmission 5 leaking_ssn ''y'' True (Some ''t'') [(''t'', 9)] =
    (Inr leaking_ssn, [], snd (snd (check_transmission 5 leaking_ssn ''y'' True (Some ''t'') [(''t'', 9)])))"
    using leaking_ssn_leaks by (simp add: check_transmission_leak Let_def)
  from confirmation_spends_token [OF _ _ c, of leaking_ssn 7 "''x''"] leaking_ssn_leaks show ?thesis by simp
qed

text \<open>
  A token is not tied to what it was issued for: it releases any text to any destination until it expires.
\<close>

theorem confirmation_not_bound:
  assumes "now' \<le> now + ttl"
  shows "case issue_confirmation_token now drawn challenge ttl ts of (token, ts') \<Rightarrow>
    fst (check_transmission now' text dest True (Some token) ts') = Inr text"
  using assms by (auto simp: issue_confirmation_token_def check_transmission_def Let_def)

lemma confirmation_not_bound_witness:
  "case issue_confirmation_token 0 ''ab'' ''confirm_send_alice_1'' 300 [] of (token, ts') \<Rightarrow>
    fst (check_transmission 60 leaking_ssn ''mallory'' True (Some token) ts') = Inr leaking_ssn"
  by (rule confirmation_not_bound) simp

text \<open>Most patterns need a small letter or a digit.\<close>

definition small :: "char \<Rightarrow> bool" where "small c = (is_lower c \<or> is_digit c)"

lemma needs_digit: "needs small digit"
  unfolding digit_def by (rule needs_Cls) (simp add: small_def)

lemma needs_small_lit: "list_ex small w \<Longrightarrow> needs small (lit w)"
  by (auto simp: list_ex_iff intro: needs_lit)

lemma card_needs_small: "needs small card_candidate"
  unfolding card_candidate_def
  by (rule needs_seq [of "Rep 1 (Some 4) True digit"]) (simp, rule needs_Rep [OF needs_digit], simp)

lemma needs_second: "needs P q \<Longrightarrow> needs P (seq (r # q # rs))"
  by (rule needs_seq [of q]) simp_all

lemma needs_alts: "needs P q \<Longrightarrow> needs P r \<Longrightarrow> needs P (alts [q, r])"
  by (simp add: alts_def needs_Alt)

lemma needs_first: "needs P q \<Longrightarrow> needs P (seq (q # rs))"
  by (rule needs_seq [of q]) simp_all

lemma patterns_need_small:
  "list_all (\<lambda>r. rl_type r = ''private_key'' \<or> rl_type r = ''aws_access_key'' \<or> needs small (rl_pattern r)) dlp_patterns"
proof -
  have ssn: "needs small ssn_pattern"
    unfolding ssn_pattern_def by (rule needs_seq [of "exactly 3 digit"]) (simp, rule needs_Rep [OF needs_digit], simp)
  have lits: "list_ex small ''sk-''" "list_ex small ''sk-proj-''" "list_ex small ''sk-ant-''" "list_ex small ''AIzaSy''" "list_ex small ''gh''"
    "list_ex small ''xox''" "list_ex small ''root:''" "list_ex small ''vault_''" "list_ex small ''s.''" by code_simp+
  note intros = lits [THEN needs_small_lit]
  show ?thesis unfolding dlp_patterns_def google_pattern_def github_pattern_def slack_pattern_def
    by (simp add: ssn) (intro conjI needs_second needs_alts needs_first [OF intros(1)] needs_first [OF intros(2)]
      needs_first [OF intros(8)] needs_first [OF intros(9)] intros)
qed

definition amex_card :: string where "amex_card = ''3782 822463 10005''"

definition pkcs8_key :: string where
  "pkcs8_key = dashes @ ''BEGIN PRIVATE KEY'' @ dashes @ ''MII='' @ dashes @ ''END PRIVATE KEY'' @ dashes"

lemma nothing_found:
  assumes "list_all (\<lambda>r. finditer (rl_pattern r) text = []) dlp_patterns" and "finditer card_candidate text = []"
  shows "\<not> leaks all_levels text"
  using assms by (auto simp: leaks_def list_all_iff list_ex_iff card_numbers_def simp flip: finditer_Nil)

text \<open>
  A card number grouped as American Express prints it and a private key in the standard unencrypted form
  leave unchanged: the patterns expect groups of four digits and a word before \<open>PRIVATE KEY\<close>.
\<close>

theorem dlp_misses_amex_and_pkcs8:
  "is_luhn_valid amex_card \<and> enforce_outbound amex_card ''out'' True = (Inr amex_card, [])
   \<and> enforce_outbound pkcs8_key ''out'' True = (Inr pkcs8_key, [])"
proof (intro conjI)
  show "is_luhn_valid amex_card" by code_simp
  have "list_all (\<lambda>r. finditer (rl_pattern r) amex_card = []) dlp_patterns" "finditer card_candidate amex_card = []" by code_simp+
  then have "\<not> leaks all_levels amex_card" by (rule nothing_found)
  then show "enforce_outbound amex_card ''out'' True = (Inr amex_card, [])"
    using scan_has [of amex_card REDACT] by (cases "amex_card = []") (simp_all add: enforce_outbound_def scan_def)
  have none: "list_all (\<lambda>c. \<not> small c) pkcs8_key" by code_simp
  have "finditer private_key_pattern pkcs8_key = []" "finditer aws_pattern pkcs8_key = []" by code_simp+
  then have "list_all (\<lambda>r. finditer (rl_pattern r) pkcs8_key = []) dlp_patterns"
    using patterns_need_small needs_finditer [OF _ none] unfolding dlp_patterns_def by simp
  moreover have "finditer card_candidate pkcs8_key = []" using card_needs_small none by (rule needs_finditer)
  ultimately have "\<not> leaks all_levels pkcs8_key" by (rule nothing_found)
  then show "enforce_outbound pkcs8_key ''out'' True = (Inr pkcs8_key, [])"
    using scan_has [of pkcs8_key REDACT] by (cases "pkcs8_key = []") (simp_all add: enforce_outbound_def scan_def)
qed

end
