(* ===== verification/Tool_Filter.thy ===== *)
theory Tool_Filter
  imports Dlp_Engine Prompt_Guard
begin

text \<open>
  \<open>security/filters.py\<close>: the checks on the arguments of a tool before it runs and the cleaning of its output before a
  model sees it, with the patterns of \<open>security/audit.py\<close> that the cleaning uses. A schema is the names of its fields
  and the validation by Pydantic, a parameter.
\<close>

section \<open>Credentials in a text\<close>

definition keyish :: "char \<Rightarrow> bool" where "keyish c = (is_alnum c \<or> one_of ''_-.'' c)"

definition quote_mark :: rx where "quote_mark = optional (Cls (\<lambda>c. c = CHR 0x27 \<or> c = CHR 0x22))"

definition upper_blank :: rx where "upper_blank = some_of (Cls (\<lambda>c. is_upper c \<or> space_char c))"

definition audit_patterns :: "rx list" where
  "audit_patterns =
     [seq [alts [seq [lit_nocase ''api'', optional (Cls (\<lambda>c. one_of ''_-'' c \<or> space_char c)), lit_nocase ''key''],
                 seq [lit_nocase ''secret'', optional (seq [gap, lit_nocase ''key''])], lit_nocase ''password'', lit_nocase ''passwd'',
                 lit_nocase ''token'', lit_nocase ''auth'', lit_nocase ''bearer''],
           any_of ws, Cls (one_of '':=''), any_of ws, quote_mark, least 8 (Cls keyish), quote_mark],
      seq [lit_nocase ''bearer'', gap, least 8 (Cls keyish)],
      seq [lit_nocase ''sk-'', least 20 (Cls (\<lambda>c. is_alnum c \<or> one_of ''_-'' c))],
      seq [lit (dashes @ ''BEGIN''), gap, upper_blank, lit ''PRIVATE'', gap, lit (''KEY'' @ dashes), Rep 1 None False (Cls (\<lambda>_. True)),
           lit (dashes @ ''END''), gap, upper_blank, lit ''PRIVATE'', gap, lit (''KEY'' @ dashes)]]"

definition scrub_text :: "string \<Rightarrow> string" where
  "scrub_text t = fold (\<lambda>r s. re_sub r (\<lambda>_. ''[REDACTED_SECRET]'') s) audit_patterns t"

section \<open>Arguments\<close>

datatype filter_error = TraversalIn string | ExtraFields "string list" | SchemaFailed | NoSuchMethod

record arg_schema =
  as_fields :: "string list"
  as_validate :: "(string, json) pydict \<Rightarrow> (string, json) pydict option"

definition traversal_patterns :: "string list" where
  "traversal_patterns = [''../'', ''..'' @ [CHR 0x5C], ''%2e%2e'', [CHR 0x00]]"

fun traversal :: "json \<Rightarrow> bool" where
  "traversal (JStr v) = list_ex (\<lambda>p. str_in p v) traversal_patterns"
| "traversal _ = False"

definition validate_arguments ::
  "(string, json) pydict \<Rightarrow> arg_schema option \<Rightarrow> bool \<Rightarrow> bool \<Rightarrow> filter_error + (string, json) pydict" where
  "validate_arguments args schema strict block =
     (case (if block then find (\<lambda>(k, v). traversal v) args else None) of
        Some (k, v) \<Rightarrow> Inl (TraversalIn k)
      | None \<Rightarrow>
          (case schema of
             None \<Rightarrow> Inr args
           | Some sc \<Rightarrow>
               (let extra_fields = filter (\<lambda>k. k \<notin> set (as_fields sc)) (dkeys args)
                in if strict \<and> extra_fields \<noteq> [] then Inl (ExtraFields (sort extra_fields))
                   else case as_validate sc args of None \<Rightarrow> Inl SchemaFailed | Some v \<Rightarrow> Inr v)))"

section \<open>Output\<close>

definition truncation_notice :: "nat \<Rightarrow> string" where
  "truncation_notice n = newline @ newline @ ''[TRUNCATED: Output exceeded maximum limit of '' @ show_nat n @ '' characters]''"

text \<open>
  The redaction of personal data calls \<open>redact_text\<close>, which \<open>PIIRedactor\<close> does not have: Python raises
  \<open>AttributeError\<close>.
\<close>

definition filter_output ::
  "string \<Rightarrow> string \<Rightarrow> nat \<Rightarrow> bool \<Rightarrow> bool \<Rightarrow> bool \<Rightarrow> bool \<Rightarrow> (filter_error + string) \<times> injection_event list" where
  "filter_output tool output max_chars secrets pii dlp isolate =
     (let o1 = (if length output > max_chars then take max_chars output @ truncation_notice max_chars else output);
          o2 = (if dlp then sr_clean (scan o1 REDACT) else o1);
          o3 = (if secrets then scrub_text o2 else o2)
      in if pii then (Inl NoSuchMethod, [])
         else if isolate then
           (let (w, evs) = wrap_untrusted o3 (Some \<lparr>pv_source = ''tool:'' @ tool, pv_origin = tool, pv_level = ExternalTrust\<rparr>) True
            in (Inr w, evs))
         else (Inr o3, []))"

section \<open>Properties\<close>

text \<open>
  Arguments that pass have no parameter whose text holds a parent-directory step, an encoded one or a null
  character, and under a strict schema only its fields; a text inside a list passes unexamined.
\<close>

theorem arguments_checked:
  "(case validate_arguments args schema True True of
      Inr out \<Rightarrow> list_all (\<lambda>(k, v). \<not> traversal v) args
        \<and> (case schema of None \<Rightarrow> out = args
           | Some sc \<Rightarrow> set (dkeys args) \<subseteq> set (as_fields sc) \<and> as_validate sc args = Some out)
    | Inl e \<Rightarrow> True)
   \<and> validate_arguments [(''paths'', JList [JStr ''../../etc/passwd''])] None True True = Inr [(''paths'', JList [JStr ''../../etc/passwd''])]"
proof
  show "validate_arguments [(''paths'', JList [JStr ''../../etc/passwd''])] None True True = Inr [(''paths'', JList [JStr ''../../etc/passwd''])]"
    by (simp add: validate_arguments_def)
  show "case validate_arguments args schema True True of
      Inr out \<Rightarrow> list_all (\<lambda>(k, v). \<not> traversal v) args
        \<and> (case schema of None \<Rightarrow> out = args
           | Some sc \<Rightarrow> set (dkeys args) \<subseteq> set (as_fields sc) \<and> as_validate sc args = Some out)
    | Inl e \<Rightarrow> True"
    by (auto simp: validate_arguments_def Let_def find_None_iff list_all_iff filter_empty_conv split: option.splits sum.splits)
qed

text \<open>
  Asking for personal data to be redacted makes the filter raise on every output, so no tool result reaches the
  model; without it the filter never fails, and an output within the limit with no redaction asked for is
  returned as it is.
\<close>

theorem filter_output_pii_raises:
  "fst (filter_output tool output n secrets True dlp isolate) = Inl NoSuchMethod
   \<and> (\<exists>out. fst (filter_output tool output n secrets False dlp isolate) = Inr out)
   \<and> fst (filter_output tool output (length output) False False False False) = Inr output"
  by (simp add: filter_output_def Let_def case_prod_beta)

text \<open>A tool output that is wrapped cannot close the envelope with its own exact tag.\<close>

lemma isolated_output_enclosed:
  "\<exists>body. fst (filter_output tool output n secrets False dlp True) =
     Inr (open_tag \<lparr>pv_source = ''tool:'' @ tool, pv_origin = tool, pv_level = ExternalTrust\<rparr> @ security_notice @ body @ newline @ close_tag)
     \<and> \<not> str_in close_tag body"
proof -
  let ?o1 = "if length output > n then take n output @ truncation_notice n else output"
  let ?o2 = "if dlp then sr_clean (scan ?o1 REDACT) else ?o1"
  let ?o3 = "if secrets then scrub_text ?o2 else ?o2"
  let ?pv = "\<lparr>pv_source = ''tool:'' @ tool, pv_origin = tool, pv_level = ExternalTrust\<rparr>"
  obtain body where "fst (wrap_untrusted ?o3 (Some ?pv) True) = open_tag ?pv @ security_notice @ body @ newline @ close_tag" "\<not> str_in close_tag body"
    using wrap_untrusted_encloses [of ?o3 "Some ?pv" True] by auto
  then show ?thesis by (auto simp: filter_output_def Let_def case_prod_beta)
qed

end
