(* ===== verification/Data_Retention.thy ===== *)
theory Data_Retention
  imports Amber_Prelude
begin

text \<open>
  \<open>security/retention.py\<close>: legal holds, expiry of records, export and deletion of a user's data. The clock, SHA-256
  and \<open>json.dumps\<close> with sorted keys are parameters, and a deletion handler is the number of records it removes or
  an exception. Events of the audit log are collected in the state.
\<close>

section \<open>Legal holds\<close>

record legal_hold =
  lh_type :: string
  lh_id :: string
  lh_reason :: string
  lh_by :: string
  lh_at :: timestamp
  lh_active :: bool

record retention_event =
  rv_actor :: string
  rv_action :: string
  rv_type :: string
  rv_id :: string

record retention =
  rt_holds :: "(string \<times> string, legal_hold) pydict"
  rt_audit :: "retention_event list"

definition new_retention :: retention where "new_retention = \<lparr>rt_holds = [], rt_audit = []\<rparr>"

definition audited :: "string \<Rightarrow> string \<Rightarrow> string \<Rightarrow> string \<Rightarrow> retention \<Rightarrow> retention" where
  "audited actor action ty i rt =
     rt\<lparr>rt_audit := rt_audit rt @ [\<lparr>rv_actor = actor, rv_action = action, rv_type = ty, rv_id = i\<rparr>]\<rparr>"



definition is_under_legal_hold :: "string \<Rightarrow> string \<Rightarrow> retention \<Rightarrow> bool" where
  "is_under_legal_hold ty i rt = (case dget (rt_holds rt) (lower ty, i) of None \<Rightarrow> False | Some h \<Rightarrow> lh_active h)"

section \<open>Expiry\<close>

type_synonym data_record = "(string, json) pydict"

text \<open>A number in a record; comparing anything else with the cutoff raises \<open>TypeError\<close>.\<close>

fun number :: "json \<Rightarrow> rat option" where
  "number (JInt i) = Some (of_int i)"
| "number (JFloat x) = Some x"
| "number (JBool b) = Some (if b then 1 else 0)"
| "number _ = None"

definition record_time :: "timestamp \<Rightarrow> string \<Rightarrow> data_record \<Rightarrow> rat option" where
  "record_time now field r = (case dget r field of None \<Rightarrow> Some now | Some j \<Rightarrow> number j)"

fun purge_loop :: "timestamp \<Rightarrow> string \<Rightarrow> rat \<Rightarrow> data_record list \<Rightarrow> (data_record list \<times> nat) option" where
  "purge_loop now field cutoff [] = Some ([], 0)"
| "purge_loop now field cutoff (r # rs) =
     (case record_time now field r of
        None \<Rightarrow> None
      | Some t \<Rightarrow>
          (case purge_loop now field cutoff rs of
             None \<Rightarrow> None
           | Some (kept, n) \<Rightarrow> Some (if t < cutoff then (kept, Suc n) else (r # kept, n))))"

definition purge_expired_records ::
  "timestamp \<Rightarrow> data_record list \<Rightarrow> string \<Rightarrow> int \<Rightarrow> string option \<Rightarrow> string option \<Rightarrow> retention \<Rightarrow> (data_record list \<times> nat) option" where
  "purge_expired_records now records field ttl_days ty i rt =
     (if (case (ty, i) of (Some t, Some k) \<Rightarrow> t \<noteq> [] \<and> k \<noteq> [] \<and> is_under_legal_hold t k rt | _ \<Rightarrow> False)
      then Some (records, 0)
      else purge_loop now field (now - of_int ttl_days * 86400) records)"

section \<open>Export and deletion\<close>

record compliance_archive =
  ar_user :: string
  ar_at :: timestamp
  ar_manifest :: "(string, string) pydict"
  ar_overall :: string
  ar_data :: "(string, data_record list) pydict"

definition manifest_json :: "(string, string) pydict \<Rightarrow> json" where
  "manifest_json m = JObj (map (\<lambda>(k, h). (k, JStr h)) m)"

definition export_compliance_archive ::
  "(string \<Rightarrow> string) \<Rightarrow> (json \<Rightarrow> string) \<Rightarrow> timestamp \<Rightarrow> string \<Rightarrow> (string, data_record list) pydict \<Rightarrow> retention \<Rightarrow> compliance_archive \<times> retention" where
  "export_compliance_archive sha dumps now user data rt =
     (let manifest = map (\<lambda>(c, rs). (c, sha (dumps (JList (map JObj rs))))) data;
          overall = sha (dumps (manifest_json manifest))
      in (\<lparr>ar_user = user, ar_at = now, ar_manifest = manifest, ar_overall = overall, ar_data = data\<rparr>,
          audited ''system'' ''security.compliance.user_data_exported'' ''user'' user rt))"

datatype deletion_error = LegalHoldActive | HandlerRaised

fun run_handlers :: "(string \<Rightarrow> int option) list \<Rightarrow> string \<Rightarrow> int \<Rightarrow> int option" where
  "run_handlers [] user n = Some n"
| "run_handlers (h # hs) user n = (case h user of None \<Rightarrow> None | Some d \<Rightarrow> run_handlers hs user (n + d))"

definition delete_user_data_compliance ::
  "string \<Rightarrow> (string \<Rightarrow> int option) list \<Rightarrow> string \<Rightarrow> retention \<Rightarrow> (deletion_error + int) \<times> retention" where
  "delete_user_data_compliance user handlers requester rt =
     (if is_under_legal_hold ''user'' user rt then (Inl LegalHoldActive, rt)
      else case run_handlers handlers user 0 of
        None \<Rightarrow> (Inl HandlerRaised, rt)
      | Some n \<Rightarrow> (Inr n, audited requester ''security.compliance.user_data_deleted'' ''user'' user rt))"

section \<open>Holds over sequences of calls\<close>








section \<open>What a purge removes\<close>

lemma purge_loop_exact:
  assumes "list_all (\<lambda>r. record_time now field r \<noteq> None) rs"
  shows "purge_loop now field cutoff rs =
    Some (filter (\<lambda>r. the (record_time now field r) \<ge> cutoff) rs, length (filter (\<lambda>r. the (record_time now field r) < cutoff) rs))"
  using assms by (induction rs) (auto split: option.splits)

text \<open>
  Without a hold a purge keeps, in their order, exactly the records whose time is not before the cutoff and
  those without a time, and counts the others; a time that is no number makes it raise.
\<close>

theorem purge_exact:
  "purge_expired_records now rs field ttl None None rt =
     (if list_all (\<lambda>r. record_time now field r \<noteq> None) rs
      then Some (filter (\<lambda>r. the (record_time now field r) \<ge> now - of_int ttl * 86400) rs,
                 length (filter (\<lambda>r. the (record_time now field r) < now - of_int ttl * 86400) rs))
      else None)"
proof (cases "list_all (\<lambda>r. record_time now field r \<noteq> None) rs")
  case True
  then show ?thesis by (simp add: purge_expired_records_def purge_loop_exact)
next
  case False
  have "\<not> list_all (\<lambda>r. record_time now field r \<noteq> None) rs \<Longrightarrow> purge_loop now field c rs = None" for c
    by (induction rs) (auto split: option.splits)
  with False show ?thesis by (simp add: purge_expired_records_def)
qed

text \<open>A purge that does not say whose records it is given ignores every hold.\<close>

lemma purge_without_entity_ignores_holds:
  "purge_expired_records now rs field ttl None None rt = purge_expired_records now rs field ttl None None new_retention"
  by (simp add: purge_expired_records_def)

section \<open>What an compliance_archive proves\<close>

text \<open>
  Two archives with the same overall digest have, category by category, the same serialized records, when the
  digest and the serialization of the manifest have no collisions; the user an compliance_archive belongs to is not
  covered, so it can be changed without changing any digest.
\<close>

theorem archive_tamper_evident:
  fixes sha dumps now now' user user' rt rt' data data'
  defines "a \<equiv> fst (export_compliance_archive sha dumps now user data rt)"
    and "b \<equiv> fst (export_compliance_archive sha dumps now' user' data' rt')"
  assumes "inj sha"
    and "dumps (manifest_json (ar_manifest a)) = dumps (manifest_json (ar_manifest b)) \<longrightarrow> (\<forall>k. dget (ar_manifest a) k = dget (ar_manifest b) k)"
    and "ar_overall a = ar_overall b"
  shows "map_option (\<lambda>rs. dumps (JList (map JObj rs))) (dget data k) = map_option (\<lambda>rs. dumps (JList (map JObj rs))) (dget data' k)
    \<and> (fst (export_compliance_archive sha dumps now other data rt))\<lparr>ar_user := user\<rparr> = a"
proof -
  let ?m = "\<lambda>d. map (\<lambda>(c, rs). (c, sha (dumps (JList (map JObj rs))))) d"
  have get: "dget (?m d) k = map_option (\<lambda>rs. sha (dumps (JList (map JObj rs)))) (dget d k)" for d
    by (induction d) auto
  have m: "ar_manifest a = ?m data" "ar_manifest b = ?m data'"
    "ar_overall a = sha (dumps (manifest_json (?m data)))" "ar_overall b = sha (dumps (manifest_json (?m data')))"
    by (simp_all add: a_def b_def export_compliance_archive_def Let_def)
  from assms(3,5) have "dumps (manifest_json (?m data)) = dumps (manifest_json (?m data'))" unfolding m by (blast dest: injD)
  with assms(4) have "dget (?m data) k = dget (?m data') k" unfolding m by blast
  with assms(3) have "map_option (\<lambda>rs. dumps (JList (map JObj rs))) (dget data k) = map_option (\<lambda>rs. dumps (JList (map JObj rs))) (dget data' k)"
    unfolding get by (cases "dget data k"; cases "dget data' k") (auto dest: injD)
  then show ?thesis by (simp add: a_def export_compliance_archive_def Let_def)
qed

text \<open>Two exports of the same records in another order of the categories.\<close>

definition toy_dumps :: "json \<Rightarrow> string" where
  "toy_dumps j = (case j of JObj kvs \<Rightarrow> ''manifest'' | JList js \<Rightarrow> replicate (length js) CHR ''r'' | _ \<Rightarrow> [])"

lemma archive_tamper_evident_witness:
  "map_option (\<lambda>rs. toy_dumps (JList (map JObj rs))) (dget [(''turns'', [[]]), (''files'', [])] ''turns'')
    = map_option (\<lambda>rs. toy_dumps (JList (map JObj rs))) (dget [(''files'', []), (''turns'', [[]])] ''turns'')"
  by (rule archive_tamper_evident [where sha = id and dumps = toy_dumps and k = "''turns''" and data = "[(''turns'', [[]]), (''files'', [])]"
        and data' = "[(''files'', []), (''turns'', [[]])]" and user = "[]" and user' = "[]" and now = 0 and now' = 1
        and rt = new_retention and rt' = new_retention and other = "[]", THEN conjunct1])
    (auto simp: export_compliance_archive_def Let_def manifest_json_def toy_dumps_def)

text \<open>A handler that raises leaves the deletions of those before it unrecorded.\<close>

lemma partial_deletion_unaudited:
  assumes "\<not> is_under_legal_hold ''user'' u rt"
  shows "delete_user_data_compliance u [\<lambda>_. Some 5, \<lambda>_. None] w rt = (Inl HandlerRaised, rt)"
  using assms by (simp add: delete_user_data_compliance_def)

end
