(* ===== verification/Identity_Continuity.thy ===== *)
theory Identity_Continuity
  imports Amber_Prelude
begin

text \<open>
  \<open>channels/continuity.py\<close>: accounts of chat channels linked to one user, and the conversation that follows the user
  from channel to channel. Texts are ASCII; a Python set of accounts is a list without repetition.
\<close>

section \<open>State\<close>

type_synonym account = "string \<times> string"

record continuity =
  cn_map :: "(account, string) pydict"
  cn_users :: "(string, account list) pydict"
  cn_canonical :: "(string, string) pydict"
  cn_channel :: "(account, string) pydict"

record identity_link =
  il_user :: string
  il_channel :: string
  il_account :: string
  il_metadata :: "(string, json) pydict"

definition new_continuity :: continuity where
  "new_continuity = \<lparr>cn_map = [], cn_users = [], cn_canonical = [], cn_channel = []\<rparr>"

definition account_key :: "string \<Rightarrow> string \<Rightarrow> account" where
  "account_key ch u = (strip (lower ch), strip u)"

definition user_accounts :: "continuity \<Rightarrow> string \<Rightarrow> account list" where
  "user_accounts cn u = dgetd (cn_users cn) u []"

section \<open>Operations\<close>

definition link_identity ::
  "string \<Rightarrow> string \<Rightarrow> string \<Rightarrow> (string, json) pydict option \<Rightarrow> continuity \<Rightarrow> identity_link \<times> continuity" where
  "link_identity user ch u m cn =
     (let key = account_key ch u
      in (\<lparr>il_user = user, il_channel = ch, il_account = u, il_metadata = (case m of None \<Rightarrow> [] | Some d \<Rightarrow> d)\<rparr>,
          cn\<lparr>cn_map := dset key user (cn_map cn), cn_users := dset user (List.insert key (user_accounts cn user)) (cn_users cn)\<rparr>))"

definition resolve_canonical_user :: "string \<Rightarrow> string \<Rightarrow> continuity \<Rightarrow> string" where
  "resolve_canonical_user ch u cn = dgetd (cn_map cn) (account_key ch u) (ch @ ''_'' @ u)"

definition get_linked_identities :: "string \<Rightarrow> continuity \<Rightarrow> account list" where
  "get_linked_identities user cn = user_accounts cn user"

text \<open>The value popped counts only when it is a text that is not empty.\<close>

definition linked_user :: "account \<Rightarrow> continuity \<Rightarrow> string option" where
  "linked_user key cn = (case dget (cn_map cn) key of None \<Rightarrow> None | Some u \<Rightarrow> if u = [] then None else Some u)"

definition unlink_identity :: "string \<Rightarrow> string \<Rightarrow> continuity \<Rightarrow> bool \<times> continuity" where
  "unlink_identity ch u cn =
     (let key = account_key ch u; cn' = cn\<lparr>cn_map := dpop key (cn_map cn)\<rparr>
      in case linked_user key cn of
           Some user \<Rightarrow>
             if dhas (cn_users cn) user
             then (True, cn'\<lparr>cn_users := dset user (removeAll key (user_accounts cn user)) (cn_users cn)\<rparr>)
             else (False, cn')
         | None \<Rightarrow> (False, cn'))"

definition bind_session :: "string \<Rightarrow> string \<Rightarrow> continuity \<Rightarrow> continuity" where
  "bind_session user sid cn =
     cn\<lparr>cn_canonical := dset user sid (cn_canonical cn),
        cn_channel := fold (\<lambda>key. dset key sid) (user_accounts cn user) (cn_channel cn)\<rparr>"

definition handover_session :: "string \<Rightarrow> string \<Rightarrow> string \<Rightarrow> string \<Rightarrow> string \<Rightarrow> continuity \<Rightarrow> continuity" where
  "handover_session from_ch from_u to_ch to_u sid cn =
     (let a = account_key from_ch from_u; b = account_key to_ch to_u;
          cn = cn\<lparr>cn_channel := dset b sid (dset a sid (cn_channel cn))\<rparr>
      in case (case linked_user a cn of Some u \<Rightarrow> Some u | None \<Rightarrow> linked_user b cn) of
           Some user \<Rightarrow> bind_session user sid cn
         | None \<Rightarrow> cn)"

definition get_active_session :: "string \<Rightarrow> string \<Rightarrow> continuity \<Rightarrow> string option" where
  "get_active_session ch u cn =
     (let key = account_key ch u
      in case dget (cn_channel cn) key of
           Some sid \<Rightarrow> Some sid
         | None \<Rightarrow> (case linked_user key cn of Some user \<Rightarrow> dget (cn_canonical cn) user | None \<Rightarrow> None))"

definition continuity_clear :: "continuity \<Rightarrow> continuity" where
  "continuity_clear cn = new_continuity"

section \<open>Invariant: linked accounts are listed\<close>

definition continuity_inv :: "continuity \<Rightarrow> bool" where
  "continuity_inv cn = (\<forall>key user. dget (cn_map cn) key = Some user \<longrightarrow> key \<in> set (user_accounts cn user))"

lemma user_accounts_simps [simp]:
  "user_accounts (cn\<lparr>cn_users := dset user ks (cn_users cn)\<rparr>) u = (if u = user then ks else user_accounts cn u)"
  "user_accounts (cn\<lparr>cn_map := m\<rparr>) u = user_accounts cn u"
  "user_accounts (cn\<lparr>cn_canonical := c, cn_channel := d\<rparr>) u = user_accounts cn u"
  "user_accounts (cn\<lparr>cn_channel := d\<rparr>) u = user_accounts cn u"
  by (auto simp: user_accounts_def)

datatype continuity_call =
    Link string string string "(string, json) pydict option"
  | Unlink string string
  | Bind string string
  | Handover string string string string string
  | ClearAll

fun continuity_step :: "continuity_call \<Rightarrow> continuity \<Rightarrow> continuity" where
  "continuity_step (Link user ch u m) cn = snd (link_identity user ch u m cn)"
| "continuity_step (Unlink ch u) cn = snd (unlink_identity ch u cn)"
| "continuity_step (Bind user sid) cn = bind_session user sid cn"
| "continuity_step (Handover a b c d sid) cn = handover_session a b c d sid cn"
| "continuity_step ClearAll cn = continuity_clear cn"

lemma bind_inv: "continuity_inv cn \<Longrightarrow> continuity_inv (bind_session user sid cn)"
  by (simp add: continuity_inv_def bind_session_def user_accounts_def)

lemma continuity_step_inv: "continuity_inv cn \<Longrightarrow> continuity_inv (continuity_step c cn)"
proof (induction c)
  case (Link user ch u m)
  then show ?case by (auto simp: link_identity_def Let_def continuity_inv_def user_accounts_def)
next
  case (Unlink ch u)
  then show ?case
    by (auto simp: unlink_identity_def Let_def continuity_inv_def user_accounts_def linked_user_def split: option.splits if_splits)
next
  case (Handover a b c d sid)
  then have "continuity_inv (cn\<lparr>cn_channel := x\<rparr>)" for x by (simp add: continuity_inv_def)
  then show ?case by (auto simp: handover_session_def Let_def bind_inv split: option.split)
next
  case (Bind user sid)
  then show ?case by (simp add: bind_inv)
next
  case ClearAll
  then show ?case by (simp add: continuity_clear_def new_continuity_def continuity_inv_def)
qed

interpretation continuity: machine continuity_step continuity_inv
  by unfold_locales (rule continuity_step_inv)

section \<open>A session reaches every linked account\<close>

lemma dget_fold_dset: "dget (fold (\<lambda>key. dset key v) ks d) k = (if k \<in> set ks then Some v else dget d k)"
  by (induction ks arbitrary: d) auto

lemma channel_bind:
  "dget (cn_channel (bind_session user sid cn)) k = (if k \<in> set (user_accounts cn user) then Some sid else dget (cn_channel cn) k)"
  by (simp add: bind_session_def dget_fold_dset)

lemma channel_handover:
  assumes "k = account_key a b \<or> k = account_key c d
    \<or> (\<exists>user. dget (cn_map cn) (account_key a b) = Some user \<and> user \<noteq> [] \<and> k \<in> set (user_accounts cn user))"
  shows "dget (cn_channel (handover_session a b c d sid cn)) k = Some sid"
  using assms by (auto simp: handover_session_def Let_def channel_bind linked_user_def split: option.splits)

lemma channel_active: "dget (cn_channel cn) (account_key ch u) = Some sid \<Longrightarrow> get_active_session ch u cn = Some sid"
  by (simp add: get_active_session_def Let_def)

text \<open>
  After any sequence of calls, binding a session to a user makes it the active session of every account that is
  linked to the user, and handing a session over from one channel to another makes it that of both accounts and of
  all accounts of the user of the first.
\<close>

theorem session_follows_user:
  fixes calls :: "continuity_call list"
  defines "cn \<equiv> fold continuity_step calls new_continuity"
  shows "(if dget (cn_map cn) (account_key ch u) = Some user then get_active_session ch u (bind_session user sid cn) = Some sid else True)
    \<and> get_active_session a b (handover_session a b c d sid cn) = Some sid
    \<and> get_active_session c d (handover_session a b c d sid cn) = Some sid
    \<and> (if dget (cn_map cn) (account_key a b) = Some user \<and> dget (cn_map cn) (account_key ch u) = Some user \<and> user \<noteq> []
       then get_active_session ch u (handover_session a b c d sid cn) = Some sid else True)"
proof -
  have "continuity_inv new_continuity" by (simp add: continuity_inv_def new_continuity_def)
  then have inv: "continuity_inv cn" unfolding cn_def by (rule continuity.run_inv)
  then have in_list: "dget (cn_map cn) key = Some user \<Longrightarrow> key \<in> set (user_accounts cn user)" for key unfolding continuity_inv_def by blast
  have 1: "if dget (cn_map cn) (account_key ch u) = Some user then get_active_session ch u (bind_session user sid cn) = Some sid else True"
    using in_list [of "account_key ch u"] by (auto intro!: channel_active simp: channel_bind)
  have 2: "get_active_session a b (handover_session a b c d sid cn) = Some sid" "get_active_session c d (handover_session a b c d sid cn) = Some sid"
    by (auto intro!: channel_active channel_handover)
  have 3: "get_active_session ch u (handover_session a b c d sid cn) = Some sid"
    if "dget (cn_map cn) (account_key a b) = Some user" "dget (cn_map cn) (account_key ch u) = Some user" "user \<noteq> []"
    using that in_list [of "account_key ch u"] by (blast intro: channel_active channel_handover)
  show ?thesis using 1 2 3 by simp
qed

text \<open>
  An account linked to a new user stays in the list of the old one: a session the old user binds later becomes
  the active session of the account, which now answers for the new user.
\<close>

theorem relinked_account_hijacked:
  assumes "old \<noteq> new"
  shows "case snd (link_identity new ch u m' (snd (link_identity old ch u m cn))) of
    cn' \<Rightarrow> resolve_canonical_user ch u cn' = new \<and> account_key ch u \<in> set (get_linked_identities old cn')
      \<and> get_active_session ch u (bind_session old sid (bind_session new mine cn')) = Some sid"
  using assms
  by (simp add: link_identity_def Let_def resolve_canonical_user_def get_linked_identities_def get_active_session_def bind_session_def
      user_accounts_def dget_fold_dset)

lemma relinked_account_hijacked_witness:
  "get_active_session ''telegram'' ''42'' (bind_session ''alice'' ''s-alice'' (bind_session ''bob'' ''s-bob''
     (snd (link_identity ''bob'' ''telegram'' ''42'' None (snd (link_identity ''alice'' ''telegram'' ''42'' None new_continuity)))))) = Some ''s-alice''"
  using relinked_account_hijacked [of "''alice''" "''bob''" "''telegram''" "''42''" None None new_continuity "''s-alice''" "''s-bob''"] by simp

text \<open>
  An account that is unlinked keeps the session of the user it was linked to.
\<close>

lemma unlinked_keeps_session:
  assumes "get_active_session ch u cn = Some sid" and "dhas (cn_channel cn) (account_key ch u)"
  shows "get_active_session ch u (snd (unlink_identity ch u cn)) = Some sid"
  using assms by (auto simp: get_active_session_def unlink_identity_def Let_def dhas_def split: option.splits)

text \<open>
  An account that was never linked resolves to a name made of the texts as they were typed: spellings of the same
  account that a link would identify are different users.
\<close>

lemma unlinked_spelling_matters:
  "account_key ''Telegram'' ''42'' = account_key ''telegram'' '' 42''
   \<and> resolve_canonical_user ''Telegram'' ''42'' new_continuity \<noteq> resolve_canonical_user ''telegram'' '' 42'' new_continuity"
  by code_simp

end
