(* ===== verification/Subagent_Rpc.thy ===== *)
theory Subagent_Rpc
  imports Amber_Prelude
begin

text \<open>
  \<open>subagent/rpc.py\<close>: messages and calls between subagents. A call leaves a pending entry and a background task that
  runs the handler; the steps of the event loop are explicit: \<open>begin_call\<close> up to the wait for the answer,
  \<open>safe_dispatch\<close> when the handler returns or raises, and \<open>finish_call\<close> when the wait ends with the answer or
  the timeout. Ids and times are arguments, and what a handler does is its outcome.
\<close>

section \<open>Messages\<close>

datatype msg_type = Request | Response | Progress | Notification | Cancel | ErrorMsg

record rpc_message =
  rm_id :: string
  rm_corr :: "string option"
  rm_source :: string
  rm_target :: string
  rm_type :: msg_type
  rm_method :: "string option"
  rm_payload :: "(string, json) pydict"
  rm_time :: timestamp

text \<open>A pending call is a future: \<open>None\<close> until a response is set. \<open>rp_tasks\<close> are the messages being handled.\<close>

record rpc_channel =
  rp_handlers :: "string list"
  rp_pending :: "(string, rpc_message option) pydict"
  rp_history :: "rpc_message list"
  rp_tasks :: "rpc_message list"

definition new_rpc :: rpc_channel where
  "new_rpc = \<lparr>rp_handlers = [], rp_pending = [], rp_history = [], rp_tasks = []\<rparr>"

definition max_history :: nat where "max_history = 500"

section \<open>Operations\<close>

definition register_agent_handler :: "string \<Rightarrow> rpc_channel \<Rightarrow> rpc_channel" where
  "register_agent_handler a c = c\<lparr>rp_handlers := List.insert a (rp_handlers c)\<rparr>"

definition unregister_handler :: "string \<Rightarrow> rpc_channel \<Rightarrow> rpc_channel" where
  "unregister_handler a c = c\<lparr>rp_handlers := removeAll a (rp_handlers c)\<rparr>"

definition record_message :: "rpc_message \<Rightarrow> rpc_channel \<Rightarrow> rpc_channel" where
  "record_message m c =
     (let h = rp_history c @ [m] in c\<lparr>rp_history := (if length h > max_history then tl h else h)\<rparr>)"

definition start_task :: "rpc_message \<Rightarrow> rpc_channel \<Rightarrow> rpc_channel" where
  "start_task m c = (if rm_target m \<in> set (rp_handlers c) then c\<lparr>rp_tasks := rp_tasks c @ [m]\<rparr> else c)"

definition notify ::
  "string \<Rightarrow> timestamp \<Rightarrow> string \<Rightarrow> string \<Rightarrow> (string, json) pydict \<Rightarrow> msg_type \<Rightarrow> string option \<Rightarrow> rpc_channel \<Rightarrow> rpc_message \<times> rpc_channel" where
  "notify mid now src tgt payload ty meth c =
     (let m = \<lparr>rm_id = mid, rm_corr = None, rm_source = src, rm_target = tgt, rm_type = ty, rm_method = meth, rm_payload = payload, rm_time = now\<rparr>
      in (m, start_task m (record_message m c)))"

definition send_progress :: "string \<Rightarrow> timestamp \<Rightarrow> string \<Rightarrow> string \<Rightarrow> rat \<Rightarrow> string \<Rightarrow> rpc_channel \<Rightarrow> rpc_message \<times> rpc_channel" where
  "send_progress mid now src tgt pct note c =
     notify mid now src tgt [(''progress'', JFloat pct), (''message'', JStr note)] Progress None c"

datatype rpc_error = NoHandler | TimedOut | CallFailed json

definition begin_call ::
  "string \<Rightarrow> timestamp \<Rightarrow> string \<Rightarrow> string \<Rightarrow> string \<Rightarrow> (string, json) pydict \<Rightarrow> rpc_channel \<Rightarrow> (rpc_error + rpc_message) \<times> rpc_channel" where
  "begin_call rid now src tgt meth params c =
     (let m = \<lparr>rm_id = rid, rm_corr = Some rid, rm_source = src, rm_target = tgt, rm_type = Request, rm_method = Some meth,
               rm_payload = params, rm_time = now\<rparr>;
          c1 = record_message m (c\<lparr>rp_pending := dset rid None (rp_pending c)\<rparr>)
      in if tgt \<notin> set (rp_handlers c1) then (Inl NoHandler, c1\<lparr>rp_pending := dpop rid (rp_pending c1)\<rparr>)
         else (Inr m, c1\<lparr>rp_tasks := rp_tasks c1 @ [m]\<rparr>))"

text \<open>An id that is an empty text counts as none.\<close>

definition nonempty :: "string option \<Rightarrow> string option" where
  "nonempty x = (case x of None \<Rightarrow> None | Some s \<Rightarrow> if s = [] then None else Some s)"

definition correlation :: "rpc_message \<Rightarrow> string" where
  "correlation m = (case nonempty (rm_corr m) of Some k \<Rightarrow> k | None \<Rightarrow> rm_id m)"

definition respond ::
  "string \<Rightarrow> timestamp \<Rightarrow> rpc_message \<Rightarrow> (string, json) pydict \<Rightarrow> bool \<Rightarrow> rpc_channel \<Rightarrow> rpc_message \<times> rpc_channel" where
  "respond mid now req payload is_err c =
     (let k = correlation req;
          resp = \<lparr>rm_id = mid, rm_corr = Some k, rm_source = rm_target req, rm_target = rm_source req,
                  rm_type = (if is_err then ErrorMsg else Response), rm_method = None, rm_payload = payload, rm_time = now\<rparr>;
          c1 = record_message resp c
      in (resp, if k \<noteq> [] \<and> dget (rp_pending c1) k = Some None
                then c1\<lparr>rp_pending := dset k (Some resp) (rp_pending c1)\<rparr> else c1))"

text \<open>A handler returns a payload, returns \<open>None\<close>, or raises an exception with a text.\<close>

datatype outcome = Returns "(string, json) pydict" | ReturnsNone | Raises string

definition safe_dispatch :: "string \<Rightarrow> timestamp \<Rightarrow> rpc_message \<Rightarrow> outcome \<Rightarrow> rpc_channel \<Rightarrow> rpc_channel" where
  "safe_dispatch mid now m out c =
     (let c = c\<lparr>rp_tasks := remove1 m (rp_tasks c)\<rparr>
      in case out of
           Returns p \<Rightarrow> if rm_type m = Request then snd (respond mid now m p False c) else c
         | ReturnsNone \<Rightarrow> c
         | Raises e \<Rightarrow> if rm_type m = Request then snd (respond mid now m [(''error'', JStr e)] True c) else c)"

text \<open>
  The end of the wait: \<open>None\<close> while neither an answer nor the timeout has come.
\<close>

definition finish_call :: "string \<Rightarrow> bool \<Rightarrow> rpc_channel \<Rightarrow> ((rpc_error + (string, json) pydict) \<times> rpc_channel) option" where
  "finish_call rid timed_out c =
     (let c' = c\<lparr>rp_pending := dpop rid (rp_pending c)\<rparr>
      in case dget (rp_pending c) rid of
           Some (Some r) \<Rightarrow>
             Some (if rm_type r = ErrorMsg then Inl (CallFailed (dgetd (rm_payload r) ''error'' (JStr ''Unknown RPC error''))) else Inr (rm_payload r), c')
         | _ \<Rightarrow> if timed_out then Some (Inl TimedOut, c') else None)"

definition get_rpc_history :: "int \<Rightarrow> rpc_channel \<Rightarrow> rpc_message list" where
  "get_rpc_history limit c = slice_last limit (rp_history c)"

section \<open>Sequences of steps\<close>

datatype rpc_step =
    Register string
  | Unregister string
  | Notify string timestamp string string "(string, json) pydict" msg_type "string option"
  | BeginCall string timestamp string string string "(string, json) pydict"
  | Dispatch string timestamp rpc_message outcome
  | Respond string timestamp rpc_message "(string, json) pydict" bool
  | Finish string bool

fun rpc_run1 :: "rpc_step \<Rightarrow> rpc_channel \<Rightarrow> rpc_channel" where
  "rpc_run1 (Register a) c = register_agent_handler a c"
| "rpc_run1 (Unregister a) c = unregister_handler a c"
| "rpc_run1 (Notify i n s t p ty m) c = snd (notify i n s t p ty m c)"
| "rpc_run1 (BeginCall i n s t m p) c = snd (begin_call i n s t m p c)"
| "rpc_run1 (Dispatch i n m out) c = (if m \<in> set (rp_tasks c) then safe_dispatch i n m out c else c)"
| "rpc_run1 (Respond i n m p e) c = snd (respond i n m p e c)"
| "rpc_run1 (Finish i t) c = (case finish_call i t c of Some (r, c') \<Rightarrow> c' | None \<Rightarrow> c)"

definition rpc_inv :: "rpc_channel \<Rightarrow> bool" where
  "rpc_inv c = (length (rp_history c) \<le> max_history
     \<and> (\<forall>k r. dget (rp_pending c) k = Some (Some r) \<longrightarrow> rm_corr r = Some k \<and> rm_type r \<in> {Response, ErrorMsg}))"

lemma record_message_pending [simp]: "rp_pending (record_message m c) = rp_pending c"
  "rp_handlers (record_message m c) = rp_handlers c" "rp_tasks (record_message m c) = rp_tasks c"
  by (simp_all add: record_message_def Let_def)

lemma length_record_message: "length (rp_history c) \<le> max_history \<Longrightarrow> length (rp_history (record_message m c)) \<le> max_history"
  by (simp add: record_message_def Let_def max_history_def)

lemma start_task_simps [simp]: "rp_pending (start_task m c) = rp_pending c" "rp_history (start_task m c) = rp_history c"
  by (simp_all add: start_task_def)

lemma respond_inv: "rpc_inv c \<Longrightarrow> rpc_inv (snd (respond mid now m p e c))"
  by (auto simp: respond_def Let_def rpc_inv_def length_record_message)

lemma rpc_step_inv: "rpc_inv c \<Longrightarrow> rpc_inv (rpc_run1 s c)"
proof (induction s)
  case (Register a)
  then show ?case by (simp add: register_agent_handler_def rpc_inv_def)
next
  case (Unregister a)
  then show ?case by (simp add: unregister_handler_def rpc_inv_def)
next
  case (Notify i n s t p ty m)
  then show ?case by (simp add: notify_def Let_def rpc_inv_def length_record_message)
next
  case (BeginCall i n s t m p)
  then have "rpc_inv (c\<lparr>rp_pending := dset i None (rp_pending c)\<rparr>)" by (auto simp: rpc_inv_def)
  then show ?case by (auto simp: begin_call_def Let_def rpc_inv_def length_record_message split: if_splits)
next
  case (Dispatch i n m out)
  then have "rpc_inv (c\<lparr>rp_tasks := t\<rparr>)" for t by (simp add: rpc_inv_def)
  then show ?case using Dispatch by (auto simp: safe_dispatch_def Let_def respond_inv split: outcome.split)
next
  case (Respond i n m p e)
  then show ?case by (simp add: respond_inv)
next
  case (Finish i t)
  then show ?case by (auto simp: finish_call_def Let_def rpc_inv_def split: option.splits if_splits)
qed

interpretation rpc: machine rpc_run1 rpc_inv
  by unfold_locales (rule rpc_step_inv)

section \<open>An answer reaches its call, once\<close>

text \<open>No step but the end of the wait or a new call with the same id touches an answer that was set.\<close>

lemma answer_kept:
  assumes "dget (rp_pending c) k = Some (Some r)" and "\<forall>t. s \<noteq> Finish k t" and "\<forall>n a b m p. s \<noteq> BeginCall k n a b m p"
  shows "dget (rp_pending (rpc_run1 s c)) k = Some (Some r)"
  using assms
  by (cases s) (auto simp: register_agent_handler_def unregister_handler_def notify_def begin_call_def safe_dispatch_def respond_def finish_call_def Let_def
      split: outcome.split option.split)

lemma answer_kept_run:
  assumes "dget (rp_pending c) k = Some (Some r)"
    and "list_all (\<lambda>s. (\<forall>t. s \<noteq> Finish k t) \<and> (\<forall>n a b m p. s \<noteq> BeginCall k n a b m p)) steps"
  shows "dget (rp_pending (fold rpc_run1 steps c)) k = Some (Some r)"
  using assms by (induction steps arbitrary: c) (auto simp: answer_kept)

text \<open>
  When the handler of a pending call returns, its payload is the answer the caller gets, and when it raises, the
  caller gets the error, whatever other steps come in between, later responses to the same call included.
\<close>

theorem call_gets_first_answer:
  assumes "dget (rp_pending c) k = Some None" and "k \<noteq> []" and "m \<in> set (rp_tasks c)" and "rm_type m = Request" and "rm_corr m = Some k"
    and "list_all (\<lambda>s. (\<forall>t. s \<noteq> Finish k t) \<and> (\<forall>n a b me p. s \<noteq> BeginCall k n a b me p)) steps"
  shows "(case out of
      Returns p \<Rightarrow> map_option fst (finish_call k timed (fold rpc_run1 steps (rpc_run1 (Dispatch i n m out) c))) = Some (Inr p)
    | Raises e \<Rightarrow> map_option fst (finish_call k timed (fold rpc_run1 steps (rpc_run1 (Dispatch i n m out) c))) = Some (Inl (CallFailed (JStr e)))
    | ReturnsNone \<Rightarrow> dget (rp_pending (rpc_run1 (Dispatch i n m out) c)) k = Some None)"
proof -
  have corr: "correlation m = k" using assms(2,5) by (simp add: correlation_def nonempty_def)
  let ?r = "\<lambda>p e. \<lparr>rm_id = i, rm_corr = Some k, rm_source = rm_target m, rm_target = rm_source m,
    rm_type = (if e then ErrorMsg else Response), rm_method = None, rm_payload = p, rm_time = n\<rparr>"
  show ?thesis
  proof (cases out)
    case (Returns p)
    then have "dget (rp_pending (rpc_run1 (Dispatch i n m out) c)) k = Some (Some (?r p False))"
      using assms corr by (simp add: safe_dispatch_def respond_def Let_def)
    from answer_kept_run [OF this assms(6)] show ?thesis using Returns by (simp add: finish_call_def Let_def)
  next
    case ReturnsNone
    then show ?thesis using assms by (simp add: safe_dispatch_def Let_def)
  next
    case (Raises e)
    then have "dget (rp_pending (rpc_run1 (Dispatch i n m out) c)) k = Some (Some (?r [(''error'', JStr e)] True))"
      using assms corr by (simp add: safe_dispatch_def respond_def Let_def)
    from answer_kept_run [OF this assms(6)] show ?thesis using Raises by (simp add: finish_call_def Let_def dgetd_def)
  qed
qed

definition sample_call :: rpc_channel where
  "sample_call = snd (begin_call ''r1'' 0 ''a'' ''b'' ''sum'' [] (register_agent_handler ''b'' new_rpc))"

definition sample_request :: rpc_message where
  "sample_request = \<lparr>rm_id = ''r1'', rm_corr = Some ''r1'', rm_source = ''a'', rm_target = ''b'', rm_type = Request, rm_method = Some ''sum'',
     rm_payload = [], rm_time = 0\<rparr>"

lemma sample_facts:
  "sample_request \<in> set (rp_tasks sample_call)" "rm_type sample_request = Request" "rm_corr sample_request = Some ''r1''"
  "dget (rp_pending sample_call) ''r1'' = Some None"
  by (simp_all add: sample_call_def sample_request_def begin_call_def register_agent_handler_def new_rpc_def Let_def)

lemma call_gets_first_answer_witness:
  "map_option fst (finish_call ''r1'' True (fold rpc_run1 [Respond ''x'' 2 sample_request [] True]
     (rpc_run1 (Dispatch ''y'' 1 sample_request (Returns [(''n'', JInt 3)])) sample_call))) = Some (Inr [(''n'', JInt 3)])"
  using call_gets_first_answer [OF sample_facts(4) _ sample_facts(1-3), where steps = "[Respond ''x'' 2 sample_request [] True]"
      and out = "Returns [(''n'', JInt 3)]" and timed = True and i = "''y''" and n = 1]
  by (simp del: rpc_run1.simps)

text \<open>
  After any steps the history holds at most 500 messages, a pending call holds nothing but a response or an error
  correlated to it, a call to an agent without a handler is refused and leaves nothing pending, and a limit of
  zero returns the whole history.
\<close>

theorem rpc_history_bounded:
  fixes steps :: "rpc_step list"
  defines "c \<equiv> fold rpc_run1 steps new_rpc"
  shows "length (rp_history c) \<le> 500
    \<and> (case dget (rp_pending c) k of Some (Some r) \<Rightarrow> rm_corr r = Some k \<and> rm_type r \<in> {Response, ErrorMsg} | _ \<Rightarrow> True)
    \<and> (if tgt \<notin> set (rp_handlers c)
       then fst (begin_call i n s tgt me p c) = Inl NoHandler \<and> dget (rp_pending (snd (begin_call i n s tgt me p c))) i = None else True)
    \<and> get_rpc_history 0 c = rp_history c"
proof -
  have "rpc_inv new_rpc" by (simp add: rpc_inv_def new_rpc_def)
  then have "rpc_inv c" unfolding c_def by (rule rpc.run_inv)
  then show ?thesis
    by (auto simp: rpc_inv_def max_history_def begin_call_def Let_def get_rpc_history_def slice_last_def split: option.split)
qed

text \<open>
  A request whose handler returns \<open>None\<close> is never answered: no step of another call gives it an answer, and the
  caller waits until the timeout.
\<close>

theorem none_result_times_out:
  assumes "dget (rp_pending c) k = Some None" and "k \<noteq> []" and "m \<in> set (rp_tasks c)"
    and "list_all (\<lambda>s. case s of Dispatch i n q out \<Rightarrow> correlation q \<noteq> k | Respond i n q p e \<Rightarrow> correlation q \<noteq> k
           | Finish i t \<Rightarrow> i \<noteq> k | BeginCall i n a b me p \<Rightarrow> i \<noteq> k | _ \<Rightarrow> True) steps"
  shows "finish_call k False (fold rpc_run1 steps (rpc_run1 (Dispatch i n m ReturnsNone) c)) = None
    \<and> map_option fst (finish_call k True (fold rpc_run1 steps (rpc_run1 (Dispatch i n m ReturnsNone) c))) = Some (Inl TimedOut)"
proof -
  have step: "dget (rp_pending (rpc_run1 s d)) k = Some None"
    if "dget (rp_pending d) k = Some None"
      "case s of Dispatch i n q out \<Rightarrow> correlation q \<noteq> k | Respond i n q p e \<Rightarrow> correlation q \<noteq> k
           | Finish i t \<Rightarrow> i \<noteq> k | BeginCall i n a b me p \<Rightarrow> i \<noteq> k | _ \<Rightarrow> True" for s d
    using that
    by (cases s) (auto simp: register_agent_handler_def unregister_handler_def notify_def begin_call_def safe_dispatch_def respond_def finish_call_def Let_def
        split: outcome.split option.split)
  have run: "dget (rp_pending (fold rpc_run1 steps d)) k = Some None" if "dget (rp_pending d) k = Some None" for d
    using that assms(4) by (induction steps arbitrary: d) (auto simp: step)
  have "dget (rp_pending (rpc_run1 (Dispatch i n m ReturnsNone) c)) k = Some None"
    using assms by (simp add: safe_dispatch_def Let_def)
  from run [OF this] show ?thesis by (simp add: finish_call_def Let_def)
qed

lemma none_result_times_out_witness:
  "finish_call ''r1'' False (rpc_run1 (Dispatch ''y'' 1 sample_request ReturnsNone) sample_call) = None"
  using none_result_times_out [OF sample_facts(4) _ sample_facts(1), where steps = "[]" and i = "''y''" and n = 1]
  by (simp del: rpc_run1.simps)

end
