(* ===== verification/Inference_Router.thy ===== *)
theory Inference_Router
  imports Pii_Redaction
begin

text \<open>
  The package \<open>inference\<close>: credentials of the providers, profiles of models, the breaker in front of each provider,
  probes of their health, and the router that masks personal data and tries the models of a profile in turn. The
  environment, the clock, the call of a model and a probe are parameters; the scanner is that of \<open>Pii_Redaction\<close>.
\<close>

section \<open>Credentials\<close>

record credential_of =
  pc_provider :: string
  pc_key :: "string option"
  pc_base :: "string option"
  pc_org :: "string option"

definition given_text :: "string option \<Rightarrow> bool" where
  "given_text x = (case x of None \<Rightarrow> False | Some s \<Rightarrow> s \<noteq> [])"

definition is_configured :: "credential_of \<Rightarrow> bool" where
  "is_configured c = (given_text (pc_key c) \<or> given_text (pc_base c))"

definition min_mask_length :: nat where "min_mask_length = 8"

definition masked_key :: "credential_of \<Rightarrow> string" where
  "masked_key c =
     (case pc_key c of
        None \<Rightarrow> ''[NOT SET]''
      | Some k \<Rightarrow> if k = [] then ''[NOT SET]'' else if length k \<le> min_mask_length then ''***''
                 else take 4 k @ ''...'' @ drop (length k - 4) k)"

type_synonym credentials = "(string, credential_of) pydict"

definition env_mappings :: "(string, string list) pydict" where
  "env_mappings =
     [(''openai'', [''OPENAI_API_KEY'']), (''anthropic'', [''ANTHROPIC_API_KEY'']), (''gemini'', [''GEMINI_API_KEY'', ''GOOGLE_API_KEY'']),
      (''groq'', [''GROQ_API_KEY'']), (''deepseek'', [''DEEPSEEK_API_KEY'']), (''mistral'', [''MISTRAL_API_KEY'']), (''cohere'', [''COHERE_API_KEY'']),
      (''openrouter'', [''OPENROUTER_API_KEY'']), (''azure'', [''AZURE_OPENAI_API_KEY'', ''AZURE_API_KEY'']), (''ollama'', [''OLLAMA_HOST'', ''OLLAMA_BASE_URL''])]"

definition first_value :: "(string \<Rightarrow> string option) \<Rightarrow> string list \<Rightarrow> string option" where
  "first_value env ks = map_option (\<lambda>k. the (env k)) (find (\<lambda>k. given_text (env k)) ks)"

definition load_from_environment :: "(string \<Rightarrow> string option) \<Rightarrow> credentials \<Rightarrow> credentials" where
  "load_from_environment env cs = fold (\<lambda>(p, ks) cs.
     case first_value env ks of
       None \<Rightarrow> cs
     | Some v \<Rightarrow> dset p (if p = ''ollama'' then \<lparr>pc_provider = p, pc_key = None, pc_base = Some v, pc_org = None\<rparr>
                         else \<lparr>pc_provider = p, pc_key = Some v, pc_base = None, pc_org = None\<rparr>) cs) env_mappings cs"

definition set_credential ::
  "string \<Rightarrow> string option \<Rightarrow> string option \<Rightarrow> string option \<Rightarrow> credentials \<Rightarrow> credential_of \<times> credentials" where
  "set_credential p key base org cs =
     (let c = \<lparr>pc_provider = lower p, pc_key = key, pc_base = base, pc_org = org\<rparr> in (c, dset (lower p) c cs))"

definition get_credential :: "string \<Rightarrow> credentials \<Rightarrow> credential_of option" where
  "get_credential p cs = dget cs (lower p)"

definition has_credential :: "string \<Rightarrow> credentials \<Rightarrow> bool" where
  "has_credential p cs = (case get_credential p cs of None \<Rightarrow> False | Some c \<Rightarrow> is_configured c)"

definition list_configured_providers :: "credentials \<Rightarrow> string list" where
  "list_configured_providers cs = map fst (filter (\<lambda>(p, c). is_configured c) cs)"

section \<open>Profiles\<close>

datatype inference_tier = FastTier | BalancedTier | AccurateTier | ReasoningTier | OfflineTier

record inference_profile =
  ip_name :: string
  ip_tier :: inference_tier
  ip_model :: string
  ip_temperature :: rat
  ip_max_tokens :: int
  ip_fallbacks :: "string list"
  ip_timeout :: rat

type_synonym profiles = "(string, inference_profile) pydict"

definition register_profile :: "inference_profile \<Rightarrow> profiles \<Rightarrow> profiles" where
  "register_profile p ps = dset (lower (ip_name p)) p ps"

definition default_profiles :: profiles where
  "default_profiles = fold register_profile
     [\<lparr>ip_name = ''fast'', ip_tier = FastTier, ip_model = ''gpt-4o-mini'', ip_temperature = 1/2, ip_max_tokens = 2048,
        ip_fallbacks = [''claude-3-5-haiku'', ''gemini/gemini-1.5-flash''], ip_timeout = 15\<rparr>,
      \<lparr>ip_name = ''balanced'', ip_tier = BalancedTier, ip_model = ''gpt-4o'', ip_temperature = 7/10, ip_max_tokens = 4096,
        ip_fallbacks = [''claude-3-5-sonnet'', ''deepseek/deepseek-chat''], ip_timeout = 30\<rparr>,
      \<lparr>ip_name = ''accurate'', ip_tier = AccurateTier, ip_model = ''claude-3-5-sonnet'', ip_temperature = 1/5, ip_max_tokens = 8192,
        ip_fallbacks = [''gpt-4o'', ''gemini/gemini-1.5-pro''], ip_timeout = 45\<rparr>,
      \<lparr>ip_name = ''reasoning'', ip_tier = ReasoningTier, ip_model = ''o3-mini'', ip_temperature = 1, ip_max_tokens = 16384,
        ip_fallbacks = [''o1-mini'', ''deepseek/deepseek-reasoner''], ip_timeout = 60\<rparr>,
      \<lparr>ip_name = ''offline'', ip_tier = OfflineTier, ip_model = ''ollama/llama3.2'', ip_temperature = 7/10, ip_max_tokens = 2048,
        ip_fallbacks = [], ip_timeout = 30\<rparr>] []"

text \<open>The profile named, else \<open>balanced\<close>; \<open>None\<close> is the \<open>KeyError\<close> when that is missing too.\<close>

definition get_profile :: "string \<Rightarrow> profiles \<Rightarrow> inference_profile option" where
  "get_profile name ps = (case dget ps (lower name) of Some p \<Rightarrow> Some p | None \<Rightarrow> dget ps ''balanced'')"

definition list_profiles :: "profiles \<Rightarrow> inference_profile list" where
  "list_profiles ps = dvals ps"

section \<open>The breaker in front of a provider\<close>

record proxy_config =
  px_http :: "string option"
  px_https :: "string option"
  px_threshold :: int
  px_recovery :: rat

record proxy_manager =
  pm_config :: proxy_config
  pm_failures :: "(string, int) pydict"
  pm_tripped :: "(string, timestamp) pydict"

definition is_available :: "timestamp \<Rightarrow> string \<Rightarrow> proxy_manager \<Rightarrow> bool \<times> proxy_manager" where
  "is_available now provider pm =
     (let p = lower provider;
          check = (\<lambda>pm. (dgetd (pm_failures pm) p 0 < px_threshold (pm_config pm), pm))
      in case dget (pm_tripped pm) p of
           Some t \<Rightarrow>
             if now - t < px_recovery (pm_config pm) then (False, pm)
             else check (pm\<lparr>pm_tripped := dpop p (pm_tripped pm), pm_failures := dset p 0 (pm_failures pm)\<rparr>)
         | None \<Rightarrow> check pm)"

definition proxy_success :: "string \<Rightarrow> proxy_manager \<Rightarrow> proxy_manager" where
  "proxy_success provider pm =
     (let p = lower provider in pm\<lparr>pm_failures := dset p 0 (pm_failures pm), pm_tripped := dpop p (pm_tripped pm)\<rparr>)"

definition proxy_failure :: "timestamp \<Rightarrow> string \<Rightarrow> proxy_manager \<Rightarrow> proxy_manager" where
  "proxy_failure now provider pm =
     (let p = lower provider; current = dgetd (pm_failures pm) p 0 + 1;
          pm = pm\<lparr>pm_failures := dset p current (pm_failures pm)\<rparr>
      in if current \<ge> px_threshold (pm_config pm) then pm\<lparr>pm_tripped := dset p now (pm_tripped pm)\<rparr> else pm)"

definition get_proxy_dict :: "proxy_manager \<Rightarrow> (string, string) pydict" where
  "get_proxy_dict pm =
     (if given_text (px_http (pm_config pm)) then [(''http://'', the (px_http (pm_config pm)))] else [])
     @ (if given_text (px_https (pm_config pm)) then [(''https://'', the (px_https (pm_config pm)))] else [])"

section \<open>Probes\<close>

datatype health_status = Healthy | Degraded | Unavailable | UnknownStatus

record health_check =
  hc_provider :: string
  hc_status :: health_status
  hc_latency :: rat
  hc_error :: "string option"

datatype probe_outcome = ProbeOk | ProbeFalse | ProbeTimeout string | ProbeRaises string

definition probe_provider ::
  "rat \<Rightarrow> string \<Rightarrow> (probe_outcome \<times> rat) option \<Rightarrow> (string, health_check) pydict \<Rightarrow> health_check \<times> (string, health_check) pydict" where
  "probe_provider threshold provider probe hist =
     (let p = lower provider;
          check = (case probe of
              None \<Rightarrow> \<lparr>hc_provider = p, hc_status = Healthy, hc_latency = 1, hc_error = None\<rparr>
            | Some (out, elapsed) \<Rightarrow>
                (let ms = py_round 2 elapsed
                 in case out of
                      ProbeOk \<Rightarrow> \<lparr>hc_provider = p, hc_status = (if elapsed > threshold then Degraded else Healthy), hc_latency = ms, hc_error = None\<rparr>
                    | ProbeFalse \<Rightarrow> \<lparr>hc_provider = p, hc_status = Unavailable, hc_latency = ms, hc_error = Some ''Probe function returned non-success''\<rparr>
                    | ProbeTimeout e \<Rightarrow> \<lparr>hc_provider = p, hc_status = Unavailable, hc_latency = ms, hc_error = Some e\<rparr>
                    | ProbeRaises e \<Rightarrow> \<lparr>hc_provider = p, hc_status = Unavailable, hc_latency = ms, hc_error = Some e\<rparr>))
      in (check, dset p check hist))"

definition get_health_status :: "string \<Rightarrow> (string, health_check) pydict \<Rightarrow> health_check option" where
  "get_health_status provider hist = dget hist (lower provider)"

section \<open>The router\<close>

record inference_request =
  iq_prompt :: string
  iq_system :: "string option"
  iq_profile :: string
  iq_model :: "string option"
  iq_temperature :: "rat option"
  iq_sanitize :: bool

record inference_response =
  ir_reply :: string
  ir_model :: string
  ir_profile :: string
  ir_sanitized :: bool

text \<open>The world: the time of the attempt at the \<open>i\<close>-th candidate, and what the model answers or raises.\<close>

record llm_world =
  lw_now :: "nat \<Rightarrow> timestamp"
  lw_generate :: "nat \<Rightarrow> (string \<times> string) list \<Rightarrow> string \<Rightarrow> rat \<Rightarrow> string + string"

definition provider_prefix :: "string \<Rightarrow> string" where
  "provider_prefix model = (if CHR ''/'' \<in> set model then takeWhile (\<lambda>c. c \<noteq> CHR ''/'') model else ''default'')"

definition effective_text :: "inference_request \<Rightarrow> string \<times> bool" where
  "effective_text rq =
     (if iq_sanitize rq then (let res = pii_scan default_mask (iq_prompt rq) in (px_sanitized res, px_has res)) else (iq_prompt rq, False))"

definition request_messages :: "inference_request \<Rightarrow> (string \<times> string) list" where
  "request_messages rq =
     (if given_text (iq_system rq) then [(''system'', the (iq_system rq))] else []) @ [(''user'', fst (effective_text rq))]"

definition candidate_models :: "inference_request \<Rightarrow> inference_profile \<Rightarrow> string list" where
  "candidate_models rq p = (if given_text (iq_model rq) then [the (iq_model rq)] else ip_model p # ip_fallbacks p)"

fun try_models ::
  "llm_world \<Rightarrow> (string \<times> string) list \<Rightarrow> rat \<Rightarrow> nat \<Rightarrow> string list \<Rightarrow> proxy_manager \<Rightarrow> (string \<times> string) option \<times> proxy_manager" where
  "try_models w msgs temp i [] pm = (None, pm)"
| "try_models w msgs temp i (m # ms) pm =
     (case is_available (lw_now w i) (provider_prefix m) pm of
        (False, pm) \<Rightarrow> try_models w msgs temp (Suc i) ms pm
      | (True, pm) \<Rightarrow>
          (case lw_generate w i msgs m temp of
             Inr reply \<Rightarrow> (Some (m, reply), proxy_success (provider_prefix m) pm)
           | Inl e \<Rightarrow> try_models w msgs temp (Suc i) ms (proxy_failure (lw_now w i) (provider_prefix m) pm)))"

text \<open>\<open>None\<close> is the \<open>RuntimeError\<close> that all candidates failed, or the missing profile.\<close>

definition router_execute ::
  "llm_world \<Rightarrow> profiles \<Rightarrow> inference_request \<Rightarrow> proxy_manager \<Rightarrow> inference_response option \<times> proxy_manager" where
  "router_execute w ps rq pm =
     (case get_profile (iq_profile rq) ps of
        None \<Rightarrow> (None, pm)
      | Some p \<Rightarrow>
          (let temp = (case iq_temperature rq of Some t \<Rightarrow> t | None \<Rightarrow> ip_temperature p)
           in case try_models w (request_messages rq) temp 0 (candidate_models rq p) pm of
                (None, pm') \<Rightarrow> (None, pm')
              | (Some (m, reply), pm') \<Rightarrow>
                  (Some \<lparr>ir_reply = reply, ir_model = m, ir_profile = ip_name p, ir_sanitized = snd (effective_text rq)\<rparr>, pm')))"

section \<open>What the models see\<close>

lemma try_models_cong:
  "(\<And>i m t. lw_generate w i msgs m t = lw_generate w' i msgs' m t) \<Longrightarrow> lw_now w = lw_now w' \<Longrightarrow>
   try_models w msgs temp i ms pm = try_models w' msgs' temp i ms pm"
  by (induction ms arbitrary: i pm) (auto split: prod.splits bool.splits sum.splits)

text \<open>
  With the sanitizer on, an answer depends on the prompt only through its masked text: two requests that differ in
  nothing but personal data that is masked alike get the same answer, breaker state and all, whatever the models
  do; the system prompt goes out as it is.
\<close>

theorem router_hides_personal_data:
  assumes "iq_sanitize rq" and "inference_redact default_mask (iq_prompt rq) = inference_redact default_mask other"
    and "px_has (pii_scan default_mask (iq_prompt rq)) = px_has (pii_scan default_mask other)"
  shows "router_execute w ps (rq\<lparr>iq_prompt := other\<rparr>) pm = router_execute w ps rq pm
    \<and> (if given_text (iq_system rq) then (''system'', the (iq_system rq)) \<in> set (request_messages rq) else True)"
proof -
  have e: "effective_text (rq\<lparr>iq_prompt := other\<rparr>) = effective_text rq"
    using assms by (simp add: effective_text_def Let_def inference_redact_def)
  then have "request_messages (rq\<lparr>iq_prompt := other\<rparr>) = request_messages rq" by (simp add: request_messages_def)
  moreover have "candidate_models (rq\<lparr>iq_prompt := other\<rparr>) p = candidate_models rq p" for p by (simp add: candidate_models_def)
  ultimately have "router_execute w ps (rq\<lparr>iq_prompt := other\<rparr>) pm = router_execute w ps rq pm"
    using e by (cases "get_profile (iq_profile rq) ps") (simp_all add: router_execute_def Let_def split: prod.split option.split)
  then show ?thesis by (simp add: request_messages_def)
qed

definition ask :: "string \<Rightarrow> inference_request" where
  "ask t = \<lparr>iq_prompt = t, iq_system = None, iq_profile = ''balanced'', iq_model = None, iq_temperature = None, iq_sanitize = True\<rparr>"

lemma router_hides_personal_data_witness:
  "router_execute w default_profiles (ask ''a@b.io'') pm = router_execute w default_profiles (ask ''c@d.io'') pm"
proof -
  have "inference_redact default_mask ''a@b.io'' = inference_redact default_mask ''c@d.io''" by code_simp
  moreover have "px_has (pii_scan default_mask ''a@b.io'') = px_has (pii_scan default_mask ''c@d.io'')" by code_simp
  ultimately show ?thesis
    using router_hides_personal_data [of "ask ''c@d.io''" "''a@b.io''" w default_profiles pm] by (simp add: ask_def)
qed

section \<open>Failing over\<close>

primrec attempts :: "llm_world \<Rightarrow> (string \<times> string) list \<Rightarrow> rat \<Rightarrow> nat \<Rightarrow> string list \<Rightarrow> proxy_manager \<Rightarrow> (string \<times> (string + string) option) list" where
  "attempts w msgs temp i [] pm = []"
| "attempts w msgs temp i (m # ms) pm =
     (if \<not> fst (is_available (lw_now w i) (provider_prefix m) pm) then (m, None) # attempts w msgs temp (Suc i) ms (snd (is_available (lw_now w i) (provider_prefix m) pm))
      else (m, Some (lw_generate w i msgs m temp))
        # attempts w msgs temp (Suc i) ms
            (case lw_generate w i msgs m temp of
               Inr r \<Rightarrow> proxy_success (provider_prefix m) (snd (is_available (lw_now w i) (provider_prefix m) pm))
             | Inl e \<Rightarrow> proxy_failure (lw_now w i) (provider_prefix m) (snd (is_available (lw_now w i) (provider_prefix m) pm))))"

lemma try_models_attempts:
  "fst (try_models w msgs temp i ms pm) =
     (case find (\<lambda>(m, r). case r of Some (Inr x) \<Rightarrow> True | _ \<Rightarrow> False) (attempts w msgs temp i ms pm) of
        Some (m, Some (Inr x)) \<Rightarrow> Some (m, x) | _ \<Rightarrow> None)"
proof (induction ms arbitrary: i pm)
  case (Cons m ms)
  show ?case
  proof (cases "fst (is_available (lw_now w i) (provider_prefix m) pm)")
    case True
    then obtain pm' where "is_available (lw_now w i) (provider_prefix m) pm = (True, pm')" by (metis prod.collapse)
    then show ?thesis using Cons.IH by (cases "lw_generate w i msgs m temp") auto
  next
    case False
    then obtain pm' where "is_available (lw_now w i) (provider_prefix m) pm = (False, pm')" by (metis prod.collapse)
    then show ?thesis using Cons.IH by simp
  qed
qed simp

text \<open>
  The router answers exactly when some candidate is let through by its breaker and succeeds, with the first such
  one; a success of the first candidate is enough whatever the others do.
\<close>

theorem router_first_success:
  "map_option (\<lambda>r. (ir_model r, ir_reply r)) (fst (router_execute w ps rq pm)) =
     (case get_profile (iq_profile rq) ps of
        None \<Rightarrow> None
      | Some p \<Rightarrow>
          (case find (\<lambda>(m, r). case r of Some (Inr x) \<Rightarrow> True | _ \<Rightarrow> False)
             (attempts w (request_messages rq) (case iq_temperature rq of Some t \<Rightarrow> t | None \<Rightarrow> ip_temperature p) 0 (candidate_models rq p) pm) of
             Some (m, Some (Inr x)) \<Rightarrow> Some (m, x) | _ \<Rightarrow> None))"
proof (cases "get_profile (iq_profile rq) ps")
  case (Some p)
  show ?thesis
    using try_models_attempts [of w "request_messages rq" "case iq_temperature rq of Some t \<Rightarrow> t | None \<Rightarrow> ip_temperature p" 0 "candidate_models rq p" pm]
    by (auto simp: router_execute_def Some Let_def split: prod.splits option.splits)
qed (simp add: router_execute_def)

text \<open>
  Models without a provider in their name share one breaker, although they belong to different providers: while it
  is open because one of them failed, a request for another is refused without being tried.
\<close>

theorem unprefixed_models_share_breaker:
  assumes "dget (pm_tripped pm) ''default'' = Some t" and "lw_now w 0 - t < px_recovery (pm_config pm)"
    and "CHR ''/'' \<notin> set m" and "m \<noteq> []"
  shows "router_execute w ps (rq\<lparr>iq_model := Some m\<rparr>) pm = (None, pm)"
  using assms
  by (auto simp: router_execute_def Let_def candidate_models_def given_text_def provider_prefix_def is_available_def lower_def lower_char_def split: option.split)

definition failing_openai :: llm_world where
  "failing_openai = \<lparr>lw_now = (\<lambda>i. 10), lw_generate = (\<lambda>i msgs m t. if m = ''gpt-4o'' then Inl ''quota'' else Inr ''ok'')\<rparr>"

definition fresh_proxy :: proxy_manager where
  "fresh_proxy = \<lparr>pm_config = \<lparr>px_http = None, px_https = None, px_threshold = 2, px_recovery = 60\<rparr>, pm_failures = [], pm_tripped = []\<rparr>"

definition after_two_failures :: proxy_manager where
  "after_two_failures = proxy_failure 9 ''default'' (proxy_failure 8 ''default'' fresh_proxy)"

lemma unprefixed_models_share_breaker_witness:
  "router_execute failing_openai default_profiles ((ask ''hi'')\<lparr>iq_model := Some ''claude-3-5-sonnet''\<rparr>) after_two_failures = (None, after_two_failures)"
  by (rule unprefixed_models_share_breaker [where t = 9])
    (simp_all add: after_two_failures_def proxy_failure_def fresh_proxy_def Let_def lower_def lower_char_def failing_openai_def dgetd_def)

section \<open>Profiles and credentials\<close>

text \<open>
  However profiles are registered after the defaults, every name finds a profile, its own or \<open>balanced\<close>.
\<close>

theorem get_profile_total:
  "\<exists>p. get_profile name (fold register_profile rs default_profiles) = Some p
     \<and> (dget (fold register_profile rs default_profiles) (lower name) = Some p
        \<or> dget (fold register_profile rs default_profiles) ''balanced'' = Some p)"
proof -
  have "dget default_profiles ''balanced'' \<noteq> None" by code_simp
  then have "dget (fold register_profile rs default_profiles) ''balanced'' \<noteq> None"
    by (induction rs rule: rev_induct) (auto simp: register_profile_def)
  then show ?thesis by (auto simp: get_profile_def split: option.split)
qed

text \<open>
  A masked key shows four characters at each end: of a key of nine, all but one.
\<close>

lemma masked_key_of_nine:
  assumes "pc_key c = Some [a, b, d, e, f, g, h, i, j]"
  shows "masked_key c = [a, b, d, e] @ ''...'' @ [g, h, i, j]"
  using assms by (simp add: masked_key_def min_mask_length_def)

text \<open>The first variable that is set and not empty gives the key of its provider.\<close>

lemma gemini_prefers_its_own_key:
  "get_credential ''Gemini'' (load_from_environment (\<lambda>k. if k = ''GEMINI_API_KEY'' then Some ''g'' else if k = ''GOOGLE_API_KEY'' then Some ''o'' else None) [])
     = Some \<lparr>pc_provider = ''gemini'', pc_key = Some ''g'', pc_base = None, pc_org = None\<rparr>"
  by code_simp

text \<open>Without a probe a provider is recorded as healthy.\<close>

lemma unprobed_is_healthy: "hc_status (fst (probe_provider th p None hist)) = Healthy"
  by (simp add: probe_provider_def Let_def)

end
