(* ===== verification/Plugin_Sandbox.thy ===== *)
theory Plugin_Sandbox
  imports Network_Policy "HOL-Library.Word"
begin

unbundle bit_operations_syntax

text \<open>
  \<open>security/landlock.py\<close> and \<open>plugins/capabilities.py\<close>, the confinement of a process by the Landlock module of
  Linux, and the order in which \<open>plugins/host.py\<close> loads and confines a plugin. Access rights are 64-bit words, as
  in the calls of the kernel. The kernel is a parameter with its documented behaviour: it refuses a ruleset
  that handles rights it does not know, and a confined process has a handled right on a path only below a rule
  that grants it.
\<close>

section \<open>Rights\<close>

type_synonym access = "64 word"

definition fs_execute :: access where "fs_execute = push_bit 0 1"
definition fs_write_file :: access where "fs_write_file = push_bit 1 1"
definition fs_read_file :: access where "fs_read_file = push_bit 2 1"
definition fs_read_dir :: access where "fs_read_dir = push_bit 3 1"
definition fs_remove_dir :: access where "fs_remove_dir = push_bit 4 1"
definition fs_remove_file :: access where "fs_remove_file = push_bit 5 1"
definition fs_make_char :: access where "fs_make_char = push_bit 6 1"
definition fs_make_dir :: access where "fs_make_dir = push_bit 7 1"
definition fs_make_reg :: access where "fs_make_reg = push_bit 8 1"
definition fs_make_sock :: access where "fs_make_sock = push_bit 9 1"
definition fs_make_fifo :: access where "fs_make_fifo = push_bit 10 1"
definition fs_make_block :: access where "fs_make_block = push_bit 11 1"
definition fs_make_sym :: access where "fs_make_sym = push_bit 12 1"
definition fs_refer :: access where "fs_refer = push_bit 13 1"
definition fs_truncate :: access where "fs_truncate = push_bit 14 1"

lemmas right_defs = fs_execute_def fs_write_file_def fs_read_file_def fs_read_dir_def fs_remove_dir_def fs_remove_file_def
  fs_make_char_def fs_make_dir_def fs_make_reg_def fs_make_sock_def fs_make_fifo_def fs_make_block_def fs_make_sym_def fs_refer_def
  fs_truncate_def

definition access_fs_read :: access where "access_fs_read = fs_read_file OR fs_read_dir OR fs_execute"

definition access_fs_write :: access where
  "access_fs_write = fs_write_file OR fs_remove_dir OR fs_remove_file OR fs_make_dir OR fs_make_reg OR fs_make_sym OR fs_truncate"

definition access_fs_all :: access where "access_fs_all = access_fs_read OR access_fs_write"

definition write_rights :: "access list" where
  "write_rights = [fs_write_file, fs_remove_dir, fs_remove_file, fs_make_dir, fs_make_reg, fs_make_sym, fs_truncate]"

definition read_rights :: "access list" where "read_rights = [fs_read_file, fs_read_dir, fs_execute]"

section \<open>The kernel and a process\<close>

record kernel =
  kn_linux :: bool
  kn_libc :: bool
  kn_supported :: access
  kn_prctl :: bool
  kn_restrict :: bool
  kn_exists :: "string \<Rightarrow> bool"
  kn_open :: "string \<Rightarrow> bool"
  kn_beneath :: "string \<Rightarrow> string \<Rightarrow> bool"

record domain =
  dm_handled :: access
  dm_rules :: "(string \<times> access) list"

record process =
  ps_env :: "(string, string) pydict"
  ps_egress :: egress
  ps_domain :: "domain option"

text \<open>Whether a process may use a right on a path.\<close>

definition permitted :: "kernel \<Rightarrow> process \<Rightarrow> string \<Rightarrow> access \<Rightarrow> bool" where
  "permitted k p path right =
     (case ps_domain p of
        None \<Rightarrow> True
      | Some d \<Rightarrow> right AND dm_handled d = 0
          \<or> list_ex (\<lambda>(rule, granted). kn_beneath k rule path \<and> right AND granted \<noteq> 0) (dm_rules d))"

definition create_ruleset_ok :: "kernel \<Rightarrow> access \<Rightarrow> bool" where
  "create_ruleset_ok k handled = (handled AND NOT (kn_supported k) = 0)"

definition add_path_rule :: "kernel \<Rightarrow> string \<Rightarrow> access \<Rightarrow> (string \<times> access) list \<Rightarrow> (string \<times> access) list" where
  "add_path_rule k path granted rules = (if kn_open k path then rules @ [(path, granted)] else rules)"

definition add_rules :: "kernel \<Rightarrow> string list \<Rightarrow> access \<Rightarrow> (string \<times> access) list \<Rightarrow> (string \<times> access) list" where
  "add_rules k paths granted rules = fold (\<lambda>p rs. if kn_exists k p then add_path_rule k p granted rs else rs) paths rules"

definition restrict_self :: "kernel \<Rightarrow> (string \<times> access) list \<Rightarrow> process \<Rightarrow> bool \<times> process" where
  "restrict_self k rules p =
     (if \<not> kn_prctl k then (False, p)
      else if \<not> kn_restrict k then (False, p)
      else (True, p\<lparr>ps_domain := Some \<lparr>dm_handled = access_fs_all, dm_rules = rules\<rparr>\<rparr>))"

section \<open>The sandbox of the shell\<close>

definition apply_sandbox :: "kernel \<Rightarrow> string \<Rightarrow> string option \<Rightarrow> string \<Rightarrow> process \<Rightarrow> bool \<times> process" where
  "apply_sandbox k pre base workspace p =
     (if \<not> kn_linux k \<or> \<not> kn_libc k \<or> \<not> create_ruleset_ok k access_fs_all then (False, p)
      else
        let read_write = [workspace, ''/tmp'', ''/dev/null'', ''/dev/urandom'', ''/dev/zero''];
            read_only = [''/usr'', ''/lib'', ''/lib64'', ''/etc'', ''/bin'', ''/sbin'', ''/proc''] @ [pre] @ (case base of None \<Rightarrow> [] | Some b \<Rightarrow> [b])
        in restrict_self k (add_rules k read_only access_fs_read (add_rules k read_write access_fs_all [])) p)"

section \<open>The sandbox of a plugin\<close>

datatype capability = FsRead | FsWrite | NetworkAccess | EnvRead

record interpreter =
  py_prefix :: string
  py_base_prefix :: "string option"
  py_exec_prefix :: "string option"
  py_sys_path :: "string list"
  py_resolve :: "string \<Rightarrow> string"

definition essential_env :: "string list" where
  "essential_env = [''PATH'', ''LANG'', ''LC_ALL'', ''TERM'', ''PYTHONPATH'']"

definition keep_env :: "string \<Rightarrow> bool" where
  "keep_env v = (v \<in> set essential_env \<or> startswith v ''AMBERCLAW_'')"

definition opt_list :: "'a option \<Rightarrow> 'a list" where "opt_list x = (case x of None \<Rightarrow> [] | Some a \<Rightarrow> [a])"

definition system_paths :: "kernel \<Rightarrow> interpreter \<Rightarrow> string \<Rightarrow> string list" where
  "system_paths k py plugin_dir =
     [''/usr'', ''/lib'', ''/lib64'', ''/etc'', ''/dev/null'', ''/dev/urandom'', ''/dev/zero''] @ [py_prefix py] @ opt_list (py_base_prefix py)
     @ opt_list (py_exec_prefix py) @ map (py_resolve py) (filter (\<lambda>sp. sp \<noteq> [] \<and> kn_exists k sp) (py_sys_path py)) @ [py_resolve py plugin_dir]"

definition apply_sandbox_with_capabilities ::
  "kernel \<Rightarrow> interpreter \<Rightarrow> capability list \<Rightarrow> string \<Rightarrow> string \<Rightarrow> process \<Rightarrow> bool \<times> process" where
  "apply_sandbox_with_capabilities k py caps workspace plugin_dir p =
     (let p = (if EnvRead \<in> set caps then p else p\<lparr>ps_env := filter (\<lambda>(v, x). keep_env v) (ps_env p)\<rparr>);
          p = (if NetworkAccess \<in> set caps then p
               else p\<lparr>ps_egress := (ps_egress p)\<lparr>eg_active := True, eg_policy := Some (new_policy (Some []) (Some []) False [])\<rparr>\<rparr>)
      in if \<not> kn_linux k \<or> \<not> kn_libc k \<or> \<not> create_ruleset_ok k access_fs_all then (False, p)
         else
           let ws = py_resolve py workspace;
               read_write = (if FsWrite \<in> set caps then [ws, ''/tmp''] else []);
               read_only = system_paths k py plugin_dir @ (if FsWrite \<notin> set caps \<and> FsRead \<in> set caps then [ws, ''/tmp''] else [])
           in restrict_self k (add_rules k read_only access_fs_read (add_rules k read_write access_fs_all [])) p)"

section \<open>Loading a plugin\<close>

text \<open>
  \<open>main\<close> of the host: the module is executed first, then the process is confined, and the requests are served
  whatever the confinement returned. \<open>load\<close> is the execution of the module in the process given; \<open>None\<close> is an
  exception, which ends the host.
\<close>

definition parse_capabilities :: "string list \<Rightarrow> capability list" where
  "parse_capabilities vs = concat (map (\<lambda>v. case strip v of s \<Rightarrow>
     if s = ''filesystem_read'' then [FsRead] else if s = ''filesystem_write'' then [FsWrite]
     else if s = ''network_access'' then [NetworkAccess] else if s = ''env_read'' then [EnvRead] else []) vs)"

definition host_main ::
  "kernel \<Rightarrow> interpreter \<Rightarrow> (process \<Rightarrow> ('m \<times> process) option) \<Rightarrow> ('m \<Rightarrow> process \<Rightarrow> 'r) \<Rightarrow> string list \<Rightarrow> string \<Rightarrow> string \<Rightarrow> process \<Rightarrow> 'r option" where
  "host_main k py load serve caps workspace plugin_dir p =
     (case load p of
        None \<Rightarrow> None
      | Some (m, p1) \<Rightarrow> Some (serve m (snd (apply_sandbox_with_capabilities k py (parse_capabilities caps) workspace plugin_dir p1))))"

section \<open>Rights do not overlap\<close>

lemma write_not_read: "r \<in> set write_rights \<Longrightarrow> r AND access_fs_read = 0"
  by (auto simp: write_rights_def access_fs_read_def right_defs)

lemma rights_handled: "r \<in> set (read_rights @ write_rights) \<Longrightarrow> r AND access_fs_all \<noteq> 0"
  by (auto simp: read_rights_def write_rights_def access_fs_all_def access_fs_read_def access_fs_write_def right_defs)

lemma add_rules_set: "set (add_rules k paths granted rules) = set rules \<union> {(p, granted) | p. p \<in> set paths \<and> kn_exists k p \<and> kn_open k p}"
  by (induction paths arbitrary: rules) (auto simp: add_rules_def add_path_rule_def)

lemma permitted_rules:
  assumes "restrict_self k (add_rules k ro access_fs_read (add_rules k rw access_fs_all [])) p = (True, p')"
    and "permitted k p' path r" and "r \<in> set (read_rights @ write_rights)"
  shows "(\<exists>q \<in> set rw. kn_beneath k q path) \<or> (r \<notin> set write_rights \<and> (\<exists>q \<in> set ro. kn_beneath k q path))"
proof -
  from assms(1) have d: "ps_domain p' = Some \<lparr>dm_handled = access_fs_all, dm_rules = add_rules k ro access_fs_read (add_rules k rw access_fs_all [])\<rparr>"
    by (auto simp: restrict_self_def split: if_splits)
  with assms(2) rights_handled [OF assms(3)] obtain q g where q: "(q, g) \<in> set (add_rules k ro access_fs_read (add_rules k rw access_fs_all []))"
    "kn_beneath k q path" "r AND g \<noteq> 0" by (auto simp: permitted_def list_ex_iff)
  then show ?thesis using write_not_read by (auto simp: add_rules_set)
qed


definition plain_kernel :: kernel where
  "plain_kernel = \<lparr>kn_linux = True, kn_libc = True, kn_supported = mask 15, kn_prctl = True, kn_restrict = True, kn_exists = (\<lambda>_. True),
     kn_open = (\<lambda>_. True), kn_beneath = (\<lambda>rule path. startswith path rule)\<rparr>"

definition plain_python :: interpreter where
  "plain_python = \<lparr>py_prefix = ''/usr'', py_base_prefix = None, py_exec_prefix = None, py_sys_path = [], py_resolve = id\<rparr>"

definition start_process :: process where
  "start_process = \<lparr>ps_env = [(''HOME'', ''/root''), (''AMBERCLAW_VAULT_KEY'', ''k'')],
     ps_egress = \<lparr>eg_active = False, eg_policy = None, eg_binary = None\<rparr>, ps_domain = None\<rparr>"




text \<open>
  A kernel that does not know the right to truncate, as Linux before 6.2, refuses the ruleset: nothing is confined,
  and the host serves the plugin all the same, with every right on every path.
\<close>

theorem old_kernel_unconfined:
  assumes "fs_truncate AND kn_supported k = 0" and "load p = Some (m, p1)" and "ps_domain p1 = None"
  shows "apply_sandbox k pre base workspace p1 = (False, p1)
    \<and> (\<exists>p2. host_main k py load (\<lambda>m p2. p2) caps workspace plugin_dir p = Some p2 \<and> (\<forall>path r. permitted k p2 path r))"
proof -
  have "bit (kn_supported k) 14 = False"
  proof -
    have "bit (fs_truncate AND kn_supported k) 14 = bit (kn_supported k) 14"
      by (simp add: bit_and_iff fs_truncate_def bit_push_bit_iff)
    with assms(1) show ?thesis by simp
  qed
  moreover have "bit access_fs_all 14" by (simp add: access_fs_all_def access_fs_write_def bit_or_iff fs_truncate_def bit_push_bit_iff)
  ultimately have "bit (access_fs_all AND NOT (kn_supported k)) 14" by (simp add: bit_and_iff bit_not_iff)
  then have "access_fs_all AND NOT (kn_supported k) \<noteq> 0" by auto
  then have no: "\<not> create_ruleset_ok k access_fs_all" by (simp add: create_ruleset_ok_def)
  then have "apply_sandbox k pre base workspace p1 = (False, p1)" by (simp add: apply_sandbox_def)
  moreover have "ps_domain (snd (apply_sandbox_with_capabilities k py cs workspace plugin_dir p1)) = None" for cs
    using no assms(3) by (simp add: apply_sandbox_with_capabilities_def Let_def)
  ultimately show ?thesis using assms(2) by (simp add: host_main_def permitted_def)
qed

lemma old_kernel_unconfined_witness:
  "\<exists>p2. host_main (plain_kernel\<lparr>kn_supported := mask 13\<rparr>) plain_python (\<lambda>p. Some ((), p)) (\<lambda>m p2. p2) [] ''/ws'' ''/plug'' start_process = Some p2
     \<and> (\<forall>path r. permitted (plain_kernel\<lparr>kn_supported := mask 13\<rparr>) p2 path r)"
proof (rule old_kernel_unconfined [THEN conjunct2])
  show "fs_truncate AND kn_supported (plain_kernel\<lparr>kn_supported := mask 13\<rparr>) = 0" by (simp add: fs_truncate_def mask_eq_exp_minus_1)
  show "Some ((), start_process) = Some ((), start_process)" by (rule refl)
  show "ps_domain start_process = None" by (simp add: start_process_def)
qed

text \<open>
  The code of a plugin's module runs before the confinement, in the process as it was started, and afterwards the
  keys in AmberClaw's own variables are still there without the capability to read the environment.
\<close>

theorem plugin_code_runs_first:
  "host_main k py load serve caps workspace plugin_dir p =
     map_option (\<lambda>(m, p1). serve m (snd (apply_sandbox_with_capabilities k py (parse_capabilities caps) workspace plugin_dir p1))) (load p)
   \<and> (dget (ps_env p) ''AMBERCLAW_VAULT_KEY'' = dget (ps_env (snd (apply_sandbox_with_capabilities k py [] workspace plugin_dir p))) ''AMBERCLAW_VAULT_KEY'')"
proof
  show "host_main k py load serve caps workspace plugin_dir p =
     map_option (\<lambda>(m, p1). serve m (snd (apply_sandbox_with_capabilities k py (parse_capabilities caps) workspace plugin_dir p1))) (load p)"
    by (simp add: host_main_def split: option.split)
  have "keep_env ''AMBERCLAW_VAULT_KEY''" by (simp add: keep_env_def startswith_def)
  then have "dget (filter (\<lambda>(v, x). keep_env v) e) ''AMBERCLAW_VAULT_KEY'' = dget e ''AMBERCLAW_VAULT_KEY''" for e :: "(string, string) pydict"
    by (induction e) auto
  moreover have "ps_env (snd (apply_sandbox_with_capabilities k py [] workspace plugin_dir p)) = filter (\<lambda>(v, x). keep_env v) (ps_env p)"
    by (simp add: apply_sandbox_with_capabilities_def Let_def restrict_self_def)
  ultimately show "dget (ps_env p) ''AMBERCLAW_VAULT_KEY'' = dget (ps_env (snd (apply_sandbox_with_capabilities k py [] workspace plugin_dir p))) ''AMBERCLAW_VAULT_KEY''"
    by simp
qed

text \<open>The sandbox of the shell lets its commands write below the workspace, \<open>/tmp\<close> and three devices only.\<close>

lemma shell_confined:
  assumes "apply_sandbox k pre base workspace p = (True, p')" and "permitted k p' path r" and "r \<in> set write_rights"
  shows "\<exists>q \<in> {workspace, ''/tmp'', ''/dev/null'', ''/dev/urandom'', ''/dev/zero''}. kn_beneath k q path"
proof -
  from assms(1) obtain ro where "restrict_self k (add_rules k ro access_fs_read (add_rules k
      [workspace, ''/tmp'', ''/dev/null'', ''/dev/urandom'', ''/dev/zero''] access_fs_all [])) p = (True, p')"
    by (auto simp: apply_sandbox_def Let_def split: if_splits)
  from permitted_rules [OF this assms(2)] assms(3) show ?thesis by auto
qed

text \<open>Rights the ruleset does not handle, such as making a named pipe, are left everywhere.\<close>

lemma fifo_unconfined: "permitted k (snd (restrict_self k rules p)) path fs_make_fifo \<or> ps_domain p \<noteq> None"
  by (auto simp: permitted_def restrict_self_def access_fs_all_def access_fs_read_def access_fs_write_def right_defs split: option.split)

end
