(* ===== verification/Plugin_Manager.thy ===== *)
theory Plugin_Manager
  imports Plugin_Sandbox
begin

text \<open>
  The rest of the package \<open>plugins\<close>: the registry of manifests (\<open>registry.py\<close>), the connection to a plugin's process
  and the manager (\<open>manager.py\<close>), the requests the host answers (\<open>host.py\<close>) and the scheduler (\<open>scheduler.py\<close>).
  Starting a process, YAML, Pydantic and the functions of a plugin are parameters; a call over the pipe is split
  at its wait into \<open>conn_send\<close> and \<open>conn_end\<close>, with \<open>conn_read\<close> for each line the process prints.
\<close>

section \<open>Manifests\<close>

record plugin_manifest =
  mf_name :: string
  mf_version :: string
  mf_description :: string
  mf_entrypoint :: string
  mf_capabilities :: "capability list"

text \<open>An entry of the plugins directory: a file, a directory without manifest, with a bad one, or with a valid one.\<close>

datatype plugin_entry = PlainFile | NoManifest | BadManifest | ValidManifest plugin_manifest

definition discover_plugins :: "(string \<times> plugin_entry) list option \<Rightarrow> (string, string \<times> plugin_manifest) pydict" where
  "discover_plugins dir =
     (case dir of
        None \<Rightarrow> []
      | Some items \<Rightarrow> fold (\<lambda>(path, e) ps. case e of ValidManifest m \<Rightarrow> dset (mf_name m) (path, m) ps | _ \<Rightarrow> ps) items [])"

section \<open>The connection\<close>

type_synonym reply = "(string, json) pydict"

record connection =
  co_next :: int
  co_pending :: "(int, reply option) pydict"

definition new_connection :: connection where "new_connection = \<lparr>co_next = 1, co_pending = []\<rparr>"

text \<open>The request is written after its entry is made; \<open>conn_send\<close> returns its id.\<close>

definition conn_send :: "connection \<Rightarrow> int \<times> connection" where
  "conn_send co = (co_next co, co\<lparr>co_next := co_next co + 1, co_pending := dset (co_next co) None (co_pending co)\<rparr>)"

text \<open>
  A line of output: blank, not JSON, or an object. An answer that was already given stays, since setting a
  result twice raises, which the loop catches.
\<close>

datatype out_line = BlankLine | BadLine | ObjLine reply

fun reply_id :: "reply \<Rightarrow> int option" where
  "reply_id r = (case dget r ''id'' of Some (JInt i) \<Rightarrow> Some i | _ \<Rightarrow> None)"

definition conn_read :: "out_line \<Rightarrow> connection \<Rightarrow> connection" where
  "conn_read l co =
     (case l of
        ObjLine r \<Rightarrow>
          (case reply_id r of
             Some i \<Rightarrow> if dget (co_pending co) i = Some None then co\<lparr>co_pending := dset i (Some r) (co_pending co)\<rparr> else co
           | None \<Rightarrow> co)
      | _ \<Rightarrow> co)"

datatype wait_end = Answered | WaitTimeout | WriteFailed string

definition rpc_failure :: "int \<Rightarrow> string \<Rightarrow> int \<Rightarrow> reply" where
  "rpc_failure code msg i = [(''jsonrpc'', JStr ''2.0''), (''error'', JObj [(''code'', JInt code), (''message'', JStr msg)]), (''id'', JInt i)]"

definition conn_end :: "int \<Rightarrow> wait_end \<Rightarrow> connection \<Rightarrow> (reply \<times> connection) option" where
  "conn_end i w co =
     (let co' = co\<lparr>co_pending := dpop i (co_pending co)\<rparr>
      in case w of
           Answered \<Rightarrow> (case dget (co_pending co) i of Some (Some r) \<Rightarrow> Some (r, co') | _ \<Rightarrow> None)
         | WaitTimeout \<Rightarrow> Some (rpc_failure (-32001) ''Request timed out'' i, co')
         | WriteFailed e \<Rightarrow> Some (rpc_failure (-32002) (''Execution failed: '' @ e) i, co'))"

datatype conn_step = Send | Line out_line | End int wait_end

fun conn_run :: "conn_step \<Rightarrow> connection \<Rightarrow> connection" where
  "conn_run Send co = snd (conn_send co)"
| "conn_run (Line l) co = conn_read l co"
| "conn_run (End i w) co = (case conn_end i w co of Some (r, co') \<Rightarrow> co' | None \<Rightarrow> co)"

definition conn_inv :: "connection \<Rightarrow> bool" where
  "conn_inv co = (\<forall>i r. dget (co_pending co) i = Some r \<longrightarrow> i < co_next co \<and> (case r of Some x \<Rightarrow> reply_id x = Some i | None \<Rightarrow> True))"

lemma conn_step_inv: "conn_inv co \<Longrightarrow> conn_inv (conn_run s co)"
proof (induction s)
  case Send
  show ?case
    unfolding conn_inv_def
  proof (intro allI impI)
    fix i r
    assume get: "dget (co_pending (conn_run Send co)) i = Some r"
    show "i < co_next (conn_run Send co) \<and> (case r of Some x \<Rightarrow> reply_id x = Some i | None \<Rightarrow> True)"
    proof (cases "i = co_next co")
      case True
      with get show ?thesis by (simp add: conn_send_def)
    next
      case False
      with get have "dget (co_pending co) i = Some r" by (simp add: conn_send_def)
      with Send have "i < co_next co \<and> (case r of Some x \<Rightarrow> reply_id x = Some i | None \<Rightarrow> True)" unfolding conn_inv_def by blast
      then show ?thesis by (simp add: conn_send_def)
    qed
  qed
next
  case (Line l)
  then show ?case by (auto simp: conn_inv_def conn_read_def split: out_line.splits option.splits if_splits)
next
  case (End i w)
  then show ?case by (auto simp: conn_inv_def conn_end_def Let_def split: wait_end.splits option.splits)
qed

interpretation connection: machine conn_run conn_inv
  by unfold_locales (rule conn_step_inv)

text \<open>
  Ids are never used again: after any steps the next call gets an id nothing is pending under, so a line that answers
  a call already given up changes nothing; and the reply a call ends with, when it is not one of its own errors,
  carries its id.
\<close>

theorem late_replies_ignored:
  fixes steps :: "conn_step list"
  defines "co \<equiv> fold conn_run steps new_connection"
  shows "dget (co_pending co) (fst (conn_send co)) = None
    \<and> (if dget (co_pending co) i = None \<and> reply_id r = Some i then conn_read (ObjLine r) co = co else True)
    \<and> (case conn_end i Answered co of Some (x, co') \<Rightarrow> reply_id x = Some i \<and> dget (co_pending co') i = None | None \<Rightarrow> True)"
proof -
  have "conn_inv new_connection" by (simp add: conn_inv_def new_connection_def)
  then have inv: "conn_inv co" unfolding co_def by (rule connection.run_inv)
  have "dget (co_pending co) (co_next co) = None"
  proof (cases "dget (co_pending co) (co_next co)")
    case (Some r)
    with inv have "co_next co < co_next co" unfolding conn_inv_def by blast
    then show ?thesis by simp
  qed
  with inv show ?thesis
    by (auto simp: conn_send_def conn_read_def conn_end_def conn_inv_def Let_def simp del: reply_id.simps split: option.splits)
qed

section \<open>The manager\<close>

record plugin_manager =
  pg_running :: "string list"
  pg_tools :: "(string, string list) pydict"

definition proxy_name :: "string \<Rightarrow> string \<Rightarrow> string" where
  "proxy_name plugin tool = plugin @ ''_'' @ tool"

text \<open>
  The start of one plugin: the process cannot be started, its answer to \<open>get_tools\<close> is an error, or it lists
  the names of its tools.
\<close>

datatype start_outcome = SpawnFailed | ToolsError | ToolsListed "string list"

definition start_plugin :: "string \<Rightarrow> start_outcome \<Rightarrow> plugin_manager \<Rightarrow> plugin_manager" where
  "start_plugin name out pg =
     (case out of
        SpawnFailed \<Rightarrow> pg
      | ToolsError \<Rightarrow> pg\<lparr>pg_running := removeAll name (pg_running pg)\<rparr>
      | ToolsListed ts \<Rightarrow> pg\<lparr>pg_running := List.insert name (pg_running pg), pg_tools := dset name (map (proxy_name name) ts) (pg_tools pg)\<rparr>)"

definition manager_start :: "(string \<Rightarrow> start_outcome) \<Rightarrow> (string \<times> plugin_entry) list option \<Rightarrow> plugin_manager \<Rightarrow> plugin_manager" where
  "manager_start outcome dir pg = fold (\<lambda>name. start_plugin name (outcome name)) (dkeys (discover_plugins dir)) pg"

definition execute_tool :: "(string \<Rightarrow> reply) \<Rightarrow> string \<Rightarrow> string \<Rightarrow> plugin_manager \<Rightarrow> json" where
  "execute_tool call plugin tool pg =
     (if plugin \<notin> set (pg_running pg) then JStr (''Error: Plugin '' @ [CHR 0x27] @ plugin @ [CHR 0x27] @ '' is not running.'')
      else let res = call plugin
           in case dget res ''error'' of
                Some err \<Rightarrow> JStr (''Error executing plugin tool '' @ tool @ '': ''
                  @ (case err of JObj e \<Rightarrow> (case dget e ''message'' of Some (JStr m) \<Rightarrow> m | _ \<Rightarrow> ''None'') | _ \<Rightarrow> ''None''))
              | None \<Rightarrow> dgetd res ''result'' (JStr []))"

definition manager_stop :: "plugin_manager \<Rightarrow> plugin_manager" where
  "manager_stop pg = \<lparr>pg_running = [], pg_tools = []\<rparr>"

section \<open>The host\<close>

record host_tool =
  ht_description :: string
  ht_schema :: json
  ht_call :: "json \<Rightarrow> string + (string \<times> string)"

text \<open>Public functions of the module are registered under their names unless the name is taken.\<close>

definition scan_and_register :: "(string \<times> bool \<times> host_tool) list \<Rightarrow> (string, host_tool) pydict \<Rightarrow> (string, host_tool) pydict" where
  "scan_and_register members reg = fold (\<lambda>(name, own, t) reg.
     if own \<and> \<not> startswith name ''_'' \<and> \<not> dhas reg name then dset name t reg else reg) members reg"

definition json_field :: "json \<Rightarrow> string \<Rightarrow> json option" where
  "json_field j k = (case j of JObj kvs \<Rightarrow> dget kvs k | _ \<Rightarrow> None)"

definition rpc_result :: "json \<Rightarrow> json option \<Rightarrow> json" where
  "rpc_result x i = JObj [(''jsonrpc'', JStr ''2.0''), (''result'', x), (''id'', case i of None \<Rightarrow> JNull | Some v \<Rightarrow> v)]"

definition rpc_err :: "int \<Rightarrow> string \<Rightarrow> (string, json) pydict \<Rightarrow> json option \<Rightarrow> json" where
  "rpc_err code msg rest i = JObj [(''jsonrpc'', JStr ''2.0''), (''error'', JObj ([(''code'', JInt code), (''message'', JStr msg)] @ rest)),
     (''id'', case i of None \<Rightarrow> JNull | Some v \<Rightarrow> v)]"

lemma rpc_fields [simp]:
  "json_field (rpc_result x i) ''result'' = Some x" "json_field (rpc_result x i) ''error'' = None"
  "json_field (rpc_result x i) ''id'' = Some (case i of None \<Rightarrow> JNull | Some v \<Rightarrow> v)"
  "json_field (rpc_err code msg rest i) ''result'' = None" "json_field (rpc_err code msg rest i) ''error'' = Some (JObj ([(''code'', JInt code), (''message'', JStr msg)] @ rest))"
  "json_field (rpc_err code msg rest i) ''id'' = Some (case i of None \<Rightarrow> JNull | Some v \<Rightarrow> v)"
  by (simp_all add: json_field_def rpc_result_def rpc_err_def)

definition quoted :: "(json \<Rightarrow> string) \<Rightarrow> json option \<Rightarrow> string" where
  "quoted py_str j = [CHR 0x27] @ py_str (case j of None \<Rightarrow> JNull | Some v \<Rightarrow> v) @ [CHR 0x27]"

text \<open>\<open>None\<close> is an exception of the handler itself: parameters that are no object.\<close>

definition handle_request :: "(json \<Rightarrow> string) \<Rightarrow> (string, host_tool) pydict \<Rightarrow> (string, json) pydict \<Rightarrow> json option" where
  "handle_request py_str reg req =
     (let i = dget req ''id''; params = dgetd req ''params'' (JObj [])
      in if dget req ''method'' = Some (JStr ''get_tools'')
         then Some (rpc_result (JList (map (\<lambda>(n, t). JObj [(''name'', JStr n), (''description'', JStr (ht_description t)), (''args_schema'', ht_schema t)]) reg)) i)
         else if dget req ''method'' = Some (JStr ''execute_tool'') then
           (case params of
              JObj ps \<Rightarrow>
                (case (case dget ps ''name'' of Some (JStr n) \<Rightarrow> map_option (Pair n) (dget reg n) | _ \<Rightarrow> None) of
                   None \<Rightarrow> Some (rpc_err (-32601) (''Tool '' @ quoted py_str (dget ps ''name'') @ '' not found.'') [] i)
                 | Some (n, t) \<Rightarrow>
                     (case ht_call t (dgetd ps ''args'' (JObj [])) of
                        Inl r \<Rightarrow> Some (rpc_result (JStr r) i)
                      | Inr (e, tb) \<Rightarrow> Some (rpc_err (-32000) e [(''data'', JStr tb)] i)))
            | _ \<Rightarrow> None)
         else Some (rpc_err (-32601) (''Method '' @ quoted py_str (dget req ''method'') @ '' not found.'') [] i))"

text \<open>A line of input, with the texts of the exceptions as a parameter: every line that is not blank is answered by one line.\<close>

datatype in_line = BlankIn | NotJson string | JsonIn json

definition serve_line :: "(json \<Rightarrow> string) \<Rightarrow> (json \<Rightarrow> string) \<Rightarrow> (string, host_tool) pydict \<Rightarrow> in_line \<Rightarrow> json option" where
  "serve_line py_str exc reg l =
     (case l of
        BlankIn \<Rightarrow> None
      | NotJson e \<Rightarrow> Some (rpc_err (-32700) (''Parse error or execution failure: '' @ e) [] None)
      | JsonIn (JObj req) \<Rightarrow>
          (case handle_request py_str reg req of Some r \<Rightarrow> Some r
           | None \<Rightarrow> Some (rpc_err (-32700) (''Parse error or execution failure: '' @ exc (JObj req)) [] None))
      | JsonIn j \<Rightarrow> Some (rpc_err (-32700) (''Parse error or execution failure: '' @ exc j) [] None))"

text \<open>
  The host answers every line that is not blank with exactly one object, which has either a result or an error
  and, for a request it understands, the id of the request.
\<close>

theorem host_answers_every_line:
  "case serve_line py_str exc reg l of
     None \<Rightarrow> l = BlankIn
   | Some r \<Rightarrow> (json_field r ''result'' = None) \<noteq> (json_field r ''error'' = None)
       \<and> (case l of JsonIn (JObj req) \<Rightarrow> json_field r ''id'' = Some (case dget req ''id'' of None \<Rightarrow> JNull | Some v \<Rightarrow> v) \<or> handle_request py_str reg req = None
          | _ \<Rightarrow> json_field r ''id'' = Some JNull)"
proof -
  have id: "json_field r ''id'' = Some (case dget req ''id'' of None \<Rightarrow> JNull | Some v \<Rightarrow> v)
      \<and> (json_field r ''result'' = None) \<noteq> (json_field r ''error'' = None)" if "handle_request py_str reg req = Some r" for r req
    using that by (auto simp: handle_request_def Let_def split: if_splits json.splits option.splits sum.splits)
  show ?thesis
  proof (cases l)
    case (JsonIn j)
    show ?thesis
    proof (cases "\<exists>req. j = JObj req")
      case True
      then obtain req where "j = JObj req" ..
      then show ?thesis using id [of req] by (cases "handle_request py_str reg req") (simp_all add: serve_line_def JsonIn)
    next
      case False
      then show ?thesis by (cases j) (simp_all add: serve_line_def JsonIn)
    qed
  qed (simp_all add: serve_line_def)
qed

section \<open>The scheduler\<close>

record scheduled_task =
  sk_id :: string
  sk_plugin :: string
  sk_tool :: string
  sk_interval :: rat
  sk_args :: "(string, json) pydict"
  sk_active :: bool
  sk_last :: "timestamp option"
  sk_count :: nat

definition schedule_task ::
  "string \<Rightarrow> string \<Rightarrow> string \<Rightarrow> rat \<Rightarrow> (string, json) pydict option \<Rightarrow> (string, scheduled_task) pydict \<Rightarrow> scheduled_task \<times> (string, scheduled_task) pydict" where
  "schedule_task tid plugin tool interval args ts =
     (let t = \<lparr>sk_id = tid, sk_plugin = plugin, sk_tool = tool, sk_interval = interval, sk_args = (case args of None \<Rightarrow> [] | Some a \<Rightarrow> a),
               sk_active = True, sk_last = None, sk_count = 0\<rparr>
      in (t, dset tid t ts))"

definition cancel_scheduled :: "string \<Rightarrow> (string, scheduled_task) pydict \<Rightarrow> bool \<times> (string, scheduled_task) pydict" where
  "cancel_scheduled tid ts = (if dhas ts tid then (True, dpop tid ts) else (False, ts))"

definition list_tasks :: "bool \<Rightarrow> (string, scheduled_task) pydict \<Rightarrow> scheduled_task list" where
  "list_tasks active_only ts = (if active_only then filter sk_active (dvals ts) else dvals ts)"

definition task_due :: "timestamp \<Rightarrow> scheduled_task \<Rightarrow> bool" where
  "task_due now t = (sk_active t \<and> (case sk_last t of None \<Rightarrow> True | Some l \<Rightarrow> now - l \<ge> sk_interval t))"

datatype task_run_result = RunOk string json | RunError string string

text \<open>One pass; \<open>invoke\<close> is the tool's result or its exception.\<close>

definition run_task :: "timestamp \<Rightarrow> scheduled_task \<Rightarrow> scheduled_task" where
  "run_task now t = (if task_due now t then t\<lparr>sk_last := Some now, sk_count := sk_count t + 1\<rparr> else t)"

definition run_due_tasks ::
  "timestamp \<Rightarrow> (scheduled_task \<Rightarrow> json + string) \<Rightarrow> (string, scheduled_task) pydict \<Rightarrow> task_run_result list \<times> (string, scheduled_task) pydict" where
  "run_due_tasks now invoke ts =
     (map (\<lambda>t. case invoke t of Inl r \<Rightarrow> RunOk (sk_id t) r | Inr e \<Rightarrow> RunError (sk_id t) e) (filter (task_due now) (dvals ts)),
      map (\<lambda>(k, t). (k, run_task now t)) ts)"

lemma run_task_due: "task_due now t \<Longrightarrow> run_task now t = t\<lparr>sk_last := Some now, sk_count := sk_count t + 1\<rparr>"
  by (simp add: run_task_def)

lemma run_task_not_due: "\<not> task_due now t \<Longrightarrow> run_task now t = t"
  by (simp add: run_task_def)

lemma run_count_bound:
  assumes "sorted (l # stamps)" and "sk_last t = Some l" and "0 < sk_interval t"
  shows "rat_of_nat (sk_count (fold run_task stamps t) - sk_count t) * sk_interval t \<le> List.last (l # stamps) - l \<and> sk_count t \<le> sk_count (fold run_task stamps t)"
  using assms
proof (induction stamps arbitrary: t l)
  case (Cons n stamps)
  show ?case
  proof (cases "task_due n t")
    case True
    then have due: "n - l \<ge> sk_interval t" using Cons.prems(2) by (simp add: task_due_def)
    let ?t = "t\<lparr>sk_last := Some n, sk_count := sk_count t + 1\<rparr>"
    from Cons.IH [of n ?t] Cons.prems have IH: "rat_of_nat (sk_count (fold run_task stamps ?t) - (sk_count t + 1)) * sk_interval t \<le> List.last (n # stamps) - n"
      "sk_count t + 1 \<le> sk_count (fold run_task stamps ?t)" by auto
    define c where "c = sk_count (fold run_task stamps ?t) - (sk_count t + 1)"
    have "sk_count (fold run_task (n # stamps) t) - sk_count t = Suc c" using True IH(2) by (simp add: run_task_due c_def)
    moreover have "rat_of_nat (Suc c) * sk_interval t \<le> List.last (n # stamps) - l" using IH(1) due by (simp add: c_def algebra_simps)
    ultimately show ?thesis using True IH(2) by (simp add: run_task_due)
  next
    case False
    with Cons.IH [of l t] Cons.prems have IH: "rat_of_nat (sk_count (fold run_task stamps t) - sk_count t) * sk_interval t \<le> List.last (l # stamps) - l"
      "sk_count t \<le> sk_count (fold run_task stamps t)" by auto
    have "List.last (l # stamps) \<le> List.last (l # n # stamps)" using Cons.prems(1) by (cases stamps) auto
    with IH False show ?thesis by (simp add: run_task_not_due)
  qed
qed simp

text \<open>
  Whatever the tools do, over passes at increasing times a new task runs at the first pass and then at most once for
  each interval that has gone by; every pass reports exactly the active tasks that were due, in their order, and
  a tool that raises counts as run.
\<close>

theorem scheduler_rate_bounded:
  assumes "sorted (n # stamps)" and "0 < interval" and "t = fst (schedule_task tid plugin tool interval args tasks)"
  shows "1 \<le> sk_count (fold run_task (n # stamps) t)
    \<and> rat_of_nat (sk_count (fold run_task (n # stamps) t)) \<le> 1 + (List.last (n # stamps) - n) / interval
    \<and> map (\<lambda>r. case r of RunOk i x \<Rightarrow> i | RunError i e \<Rightarrow> i) (fst (run_due_tasks now invoke ts)) = map sk_id (filter (task_due now) (dvals ts))
    \<and> snd (run_due_tasks now invoke ts) = map (\<lambda>(k, t). (k, run_task now t)) ts"
proof -
  let ?t = "t\<lparr>sk_last := Some n, sk_count := 1\<rparr>"
  have first: "fold run_task (n # stamps) t = fold run_task stamps ?t"
    using assms(3) by (simp add: schedule_task_def Let_def run_task_due task_due_def)
  have interval: "sk_interval t = interval" using assms(3) by (simp add: schedule_task_def Let_def)
  from run_count_bound [OF assms(1), of ?t] assms(2) interval
  have b: "rat_of_nat (sk_count (fold run_task stamps ?t) - 1) * interval \<le> List.last (n # stamps) - n" "1 \<le> sk_count (fold run_task stamps ?t)"
    by auto
  then have "rat_of_nat (sk_count (fold run_task stamps ?t) - 1) \<le> (List.last (n # stamps) - n) / interval"
    using assms(2) by (simp add: pos_le_divide_eq)
  with b(2) have "rat_of_nat (sk_count (fold run_task stamps ?t)) \<le> 1 + (List.last (n # stamps) - n) / interval" by (simp add: of_nat_diff)
  moreover have "map (\<lambda>r. case r of RunOk i x \<Rightarrow> i | RunError i e \<Rightarrow> i) (fst (run_due_tasks now invoke ts)) = map sk_id (filter (task_due now) (dvals ts))"
    by (auto simp: run_due_tasks_def split: sum.split)
  ultimately show ?thesis using b(2) unfolding first by (simp add: run_due_tasks_def)
qed

lemma scheduler_rate_bounded_witness:
  "rat_of_nat (sk_count (fold run_task [0, 30, 60, 65] (fst (schedule_task ''j'' ''p'' ''x'' 60 None [])))) \<le> 1 + (65 - 0) / 60"
  using scheduler_rate_bounded [of 0 "[30, 60, 65]" 60 _ "''j''" "''p''" "''x''" None "[]", OF _ _ refl] by simp

end
