(* ===== verification/Session_Database.thy ===== *)
theory Session_Database
  imports Amber_Prelude
begin

text \<open>
  \<open>memory/session_db.py\<close>: the conversation log in SQLite. A database is its two tables, with the constraints and
  triggers of its schema written out; the full-text match of FTS5 is a parameter, \<open>None\<close> for a query it cannot
  parse, and so are JSON and SHA-256 in the export. Every operation is atomic under the lock.
\<close>

section \<open>Tables\<close>

record turn =
  tn_id :: int
  tn_session :: string
  tn_index :: int
  tn_role :: string
  tn_content :: string
  tn_time :: string
  tn_metadata :: "(string, json) pydict"
  tn_user :: "string option"
  tn_agent :: "string option"
  tn_org :: "string option"

record fts_row =
  fx_turn :: int
  fx_session :: string
  fx_role :: string
  fx_content :: string

text \<open>\<open>sd_sequence\<close> is the last id given by \<open>AUTOINCREMENT\<close>.\<close>

record session_db =
  sd_turns :: "turn list"
  sd_fts :: "fts_row list"
  sd_sequence :: int

definition empty_db :: session_db where "empty_db = \<lparr>sd_turns = [], sd_fts = [], sd_sequence = 0\<rparr>"

section \<open>Triggers\<close>

definition index_row :: "turn \<Rightarrow> fts_row" where
  "index_row t = \<lparr>fx_turn = tn_id t, fx_session = tn_session t, fx_role = tn_role t, fx_content = tn_content t\<rparr>"

definition insert_row :: "turn \<Rightarrow> session_db \<Rightarrow> session_db" where
  "insert_row t db = \<lparr>sd_turns = sd_turns db @ [t], sd_fts = sd_fts db @ [index_row t], sd_sequence = tn_id t\<rparr>"

definition delete_rows :: "(turn \<Rightarrow> bool) \<Rightarrow> session_db \<Rightarrow> session_db" where
  "delete_rows P db =
     (let gone = map tn_id (filter P (sd_turns db))
      in db\<lparr>sd_turns := filter (\<lambda>t. \<not> P t) (sd_turns db), sd_fts := filter (\<lambda>f. fx_turn f \<notin> set gone) (sd_fts db)\<rparr>)"

definition update_rows :: "int \<Rightarrow> string \<Rightarrow> session_db \<Rightarrow> session_db" where
  "update_rows i content db =
     db\<lparr>sd_turns := map (\<lambda>t. if tn_id t = i then t\<lparr>tn_content := content\<rparr> else t) (sd_turns db),
        sd_fts := (if \<exists>t \<in> set (sd_turns db). tn_id t = i
                   then map (\<lambda>f. if fx_turn f = i then f\<lparr>fx_content := content\<rparr> else f) (sd_fts db) else sd_fts db)\<rparr>"

section \<open>Operations\<close>

definition next_index :: "string \<Rightarrow> session_db \<Rightarrow> int" where
  "next_index s db = (let is = map tn_index (filter (\<lambda>t. tn_session t = s) (sd_turns db)) in if is = [] then 0 else Max (set is) + 1)"

text \<open>\<open>None\<close> is the \<open>IntegrityError\<close> of a turn index that the session has already.\<close>

definition add_turn ::
  "string \<Rightarrow> string \<Rightarrow> string \<Rightarrow> string \<Rightarrow> int option \<Rightarrow> (string, json) pydict option \<Rightarrow> string option \<Rightarrow> string option \<Rightarrow> string option
   \<Rightarrow> session_db \<Rightarrow> int option \<times> session_db" where
  "add_turn now s role content ix meta_data user agent org db =
     (let k = (case ix of Some k \<Rightarrow> k | None \<Rightarrow> next_index s db); i = sd_sequence db + 1
      in if list_ex (\<lambda>t. tn_session t = s \<and> tn_index t = k) (sd_turns db) then (None, db)
         else (Some i, insert_row \<lparr>tn_id = i, tn_session = s, tn_index = k, tn_role = role, tn_content = content, tn_time = now,
                 tn_metadata = (case meta_data of None \<Rightarrow> [] | Some m \<Rightarrow> m), tn_user = user, tn_agent = agent, tn_org = org\<rparr> db))"

text \<open>A scope: the columns asked for, joined by \<open>AND\<close>, or by \<open>OR\<close> when hierarchical.\<close>

record turn_scope =
  sc_session :: "string option"
  sc_user :: "string option"
  sc_agent :: "string option"
  sc_org :: "string option"
  sc_hierarchical :: bool

definition scope_tests :: "turn_scope \<Rightarrow> turn \<Rightarrow> bool list" where
  "scope_tests sc t =
     (case sc_session sc of None \<Rightarrow> [] | Some s \<Rightarrow> [tn_session t = s])
     @ (case sc_user sc of None \<Rightarrow> [] | Some u \<Rightarrow> [tn_user t = Some u])
     @ (case sc_agent sc of None \<Rightarrow> [] | Some a \<Rightarrow> [tn_agent t = Some a])
     @ (case sc_org sc of None \<Rightarrow> [] | Some g \<Rightarrow> [tn_org t = Some g])"

definition in_scope :: "turn_scope \<Rightarrow> turn \<Rightarrow> bool" where
  "in_scope sc t =
     (let bs = scope_tests sc t in if bs = [] then True else if sc_hierarchical sc then list_ex id bs else list_all id bs)"

definition get_turns :: "turn_scope \<Rightarrow> session_db \<Rightarrow> turn list" where
  "get_turns sc db = sort_key tn_index (filter (in_scope sc) (sd_turns db))"

definition double_quote :: char where "double_quote = CHR 0x22"

definition safe_query :: "string \<Rightarrow> string" where
  "safe_query q =
     (let q = strip q
      in if q \<noteq> [] \<and> \<not> (startswith q [double_quote] \<and> endswith q [double_quote])
         then double_quote # concat (map (\<lambda>c. if c = double_quote then [c, c] else [c]) q) @ [double_quote] else q)"

definition search_turns :: "(string \<Rightarrow> string \<Rightarrow> bool option) \<Rightarrow> string \<Rightarrow> turn_scope \<Rightarrow> session_db \<Rightarrow> turn list" where
  "search_turns fts q sc db =
     (let hit = (\<lambda>f. fts (safe_query q) (fx_content f))
      in if list_ex (\<lambda>f. hit f = None) (sd_fts db) then []
         else sorted_desc tn_time (concat (map (\<lambda>t. map (\<lambda>f. t) (filter (\<lambda>f. fx_turn f = tn_id t \<and> hit f = Some True) (sd_fts db)))
                (filter (in_scope sc) (sd_turns db)))))"

definition delete_turn :: "int \<Rightarrow> session_db \<Rightarrow> bool \<times> session_db" where
  "delete_turn i db = (True, delete_rows (\<lambda>t. tn_id t = i) db)"

definition delete_session :: "string \<Rightarrow> session_db \<Rightarrow> nat \<times> session_db" where
  "delete_session s db =
     (let db' = delete_rows (\<lambda>t. tn_session t = s) db
      in (length (filter (\<lambda>t. tn_session t = s) (sd_turns db)), db'\<lparr>sd_fts := filter (\<lambda>f. fx_session f \<noteq> s) (sd_fts db')\<rparr>))"

definition purge_all_sessions :: "session_db \<Rightarrow> nat \<times> session_db" where
  "purge_all_sessions db = (length (sd_turns db), db\<lparr>sd_turns := [], sd_fts := []\<rparr>)"

definition update_turn_content :: "int \<Rightarrow> string \<Rightarrow> session_db \<Rightarrow> bool \<times> session_db" where
  "update_turn_content i content db = (True, update_rows i content db)"

record user_export =
  ux_user :: "string option"
  ux_session :: "string option"
  ux_org :: "string option"
  ux_total :: nat
  ux_turns :: "turn list"
  ux_checksum :: string

definition export_user_data ::
  "(string \<Rightarrow> string) \<Rightarrow> (turn list \<Rightarrow> string) \<Rightarrow> string option \<Rightarrow> string option \<Rightarrow> string option \<Rightarrow> session_db \<Rightarrow> user_export" where
  "export_user_data sha dumps user s org db =
     (let ts = get_turns \<lparr>sc_session = s, sc_user = user, sc_agent = None, sc_org = org, sc_hierarchical = False\<rparr> db
      in \<lparr>ux_user = user, ux_session = s, ux_org = org, ux_total = length ts, ux_turns = ts, ux_checksum = sha (dumps ts)\<rparr>)"

text \<open>The asynchronous search, which asks for the hierarchical scope by default.\<close>

definition asearch_default :: "(string \<Rightarrow> string \<Rightarrow> bool option) \<Rightarrow> string \<Rightarrow> string option \<Rightarrow> string option \<Rightarrow> string option \<Rightarrow> session_db \<Rightarrow> turn list" where
  "asearch_default fts q s user org db =
     search_turns fts q \<lparr>sc_session = s, sc_user = user, sc_agent = None, sc_org = org, sc_hierarchical = True\<rparr> db"

section \<open>Invariant\<close>

datatype db_call =
    AddTurn string string string string "int option" "(string, json) pydict option" "string option" "string option" "string option"
  | DeleteTurn int
  | DeleteSession string
  | PurgeAll
  | UpdateContent int string

fun db_step :: "db_call \<Rightarrow> session_db \<Rightarrow> session_db" where
  "db_step (AddTurn now s r c ix m u a g) db = snd (add_turn now s r c ix m u a g db)"
| "db_step (DeleteTurn i) db = snd (delete_turn i db)"
| "db_step (DeleteSession s) db = snd (delete_session s db)"
| "db_step PurgeAll db = snd (purge_all_sessions db)"
| "db_step (UpdateContent i c) db = snd (update_turn_content i c db)"

text \<open>
  The index mirrors the turns row by row; ids are new and never used again; a session has each index once.
\<close>

definition db_inv :: "session_db \<Rightarrow> bool" where
  "db_inv db =
     (sd_fts db = map index_row (sd_turns db) \<and> sorted_wrt (<) (map tn_id (sd_turns db)) \<and> (\<forall>t \<in> set (sd_turns db). tn_id t \<le> sd_sequence db)
      \<and> distinct (map (\<lambda>t. (tn_session t, tn_index t)) (sd_turns db)))"

lemma sorted_wrt_filter_map: "sorted_wrt (<) (map f xs) \<Longrightarrow> sorted_wrt (<) (map f (filter P xs))"
  by (induction xs) auto

lemma delete_rows_inv:
  assumes "db_inv db"
  shows "db_inv (delete_rows P db)"
proof -
  have d: "inj_on tn_id (set (sd_turns db))"
    using assms strict_sorted_iff [of "map tn_id (sd_turns db)"] by (simp add: db_inv_def distinct_map)
  have "filter (\<lambda>f. fx_turn f \<notin> set (map tn_id (filter P (sd_turns db)))) (map index_row (sd_turns db)) = map index_row (filter (\<lambda>t. \<not> P t) (sd_turns db))"
    unfolding filter_map comp_def
    by (rule arg_cong [of _ _ "map index_row"], rule filter_cong [OF refl]) (use d in \<open>auto simp: index_row_def inj_on_def\<close>)
  with assms show ?thesis
    by (auto simp: db_inv_def delete_rows_def Let_def distinct_map_filter sorted_wrt_filter_map)
qed

lemma update_rows_inv:
  assumes "db_inv db"
  shows "db_inv (update_rows i c db)"
proof -
  have keys: "map tn_id (map (\<lambda>t. if tn_id t = i then t\<lparr>tn_content := c\<rparr> else t) ts) = map tn_id ts"
    "map (\<lambda>t. (tn_session t, tn_index t)) (map (\<lambda>t. if tn_id t = i then t\<lparr>tn_content := c\<rparr> else t) ts) = map (\<lambda>t. (tn_session t, tn_index t)) ts" for ts
    by (auto simp: comp_def)
  have idx: "map (\<lambda>f. if fx_turn f = i then f\<lparr>fx_content := c\<rparr> else f) (map index_row ts) = map index_row (map (\<lambda>t. if tn_id t = i then t\<lparr>tn_content := c\<rparr> else t) ts)" for ts
    by (auto simp: index_row_def)
  have same: "map (\<lambda>t. if tn_id t = i then t\<lparr>tn_content := c\<rparr> else t) ts = ts" if "\<forall>t \<in> set ts. tn_id t \<noteq> i" for ts
    using that by (induction ts) auto
  let ?db = "update_rows i c db"
  have turns: "sd_turns ?db = map (\<lambda>t. if tn_id t = i then t\<lparr>tn_content := c\<rparr> else t) (sd_turns db)" by (simp add: update_rows_def)
  have fts: "sd_fts ?db = map index_row (sd_turns ?db)"
    using assms idx [of "sd_turns db"] same [of "sd_turns db"] by (auto simp: update_rows_def db_inv_def)
  from assms show ?thesis
    unfolding db_inv_def fts turns keys by (auto simp: update_rows_def)
qed

lemma next_index_fresh: "t \<in> set (sd_turns db) \<Longrightarrow> tn_session t = s \<Longrightarrow> tn_index t < next_index s db"
  by (auto simp: next_index_def Let_def filter_empty_conv intro!: zle_iff_zadd [THEN iffD2] le_imp_less_Suc Max_ge)

lemma add_turn_inv: "db_inv db \<Longrightarrow> db_inv (snd (add_turn now s r c ix m u a g db))"
  by (auto simp: db_inv_def add_turn_def insert_row_def Let_def sorted_wrt_append list_ex_iff)

lemma db_step_inv: "db_inv db \<Longrightarrow> db_inv (db_step call db)"
proof (induction call)
  case (AddTurn now s r c ix m u a g)
  then show ?case by (simp add: add_turn_inv)
next
  case (DeleteTurn i)
  then show ?case by (simp add: delete_turn_def delete_rows_inv)
next
  case (DeleteSession s)
  let ?db = "delete_rows (\<lambda>t. tn_session t = s) db"
  from DeleteSession have inv: "db_inv ?db" by (rule delete_rows_inv)
  then have "filter (\<lambda>f. fx_session f \<noteq> s) (sd_fts ?db) = sd_fts ?db"
    by (auto simp: db_inv_def filter_id_conv index_row_def delete_rows_def Let_def)
  with inv show ?case by (simp add: delete_session_def Let_def)
next
  case PurgeAll
  then show ?case by (simp add: purge_all_sessions_def db_inv_def)
next
  case (UpdateContent i c)
  then show ?case by (simp add: update_turn_content_def update_rows_inv)
qed

interpretation session_database: machine db_step db_inv
  by unfold_locales (rule db_step_inv)

lemma empty_db_inv: "db_inv empty_db"
  by (simp add: db_inv_def empty_db_def)

section \<open>Properties\<close>

lemma index_rows_hit:
  assumes "t \<in> set ts" and "inj_on tn_id (set ts)"
  shows "(\<exists>f \<in> set (map index_row ts). fx_turn f = tn_id t \<and> P (fx_content f)) \<longleftrightarrow> P (tn_content t)"
  using assms by (auto simp: index_row_def dest: inj_onD)

lemma set_concat_repeat: "set (concat (map (\<lambda>t. map (\<lambda>f. t) (filter (Q t) fs)) ts)) = {t \<in> set ts. \<exists>f \<in> set fs. Q t f}"
  by auto

lemma search_exact:
  assumes "db_inv db"
  shows "set (search_turns fts q sc db) =
    (if \<exists>t \<in> set (sd_turns db). fts (safe_query q) (tn_content t) = None then {}
     else {t \<in> set (sd_turns db). in_scope sc t \<and> fts (safe_query q) (tn_content t) = Some True})"
proof -
  let ?rows = "map index_row (sd_turns db)"
  let ?hit = "\<lambda>c. fts (safe_query q) c"
  have inj: "inj_on tn_id (set (sd_turns db))"
    using assms strict_sorted_iff [of "map tn_id (sd_turns db)"] by (simp add: db_inv_def distinct_map)
  have fts_rows: "sd_fts db = ?rows" using assms by (simp add: db_inv_def)
  have bad: "list_ex (\<lambda>f. ?hit (fx_content f) = None) ?rows \<longleftrightarrow> (\<exists>t \<in> set (sd_turns db). ?hit (tn_content t) = None)"
    by (auto simp: list_ex_iff index_row_def)
  have "{t \<in> set (filter (in_scope sc) (sd_turns db)). \<exists>f \<in> set ?rows. fx_turn f = tn_id t \<and> ?hit (fx_content f) = Some True}
      = {t \<in> set (sd_turns db). in_scope sc t \<and> ?hit (tn_content t) = Some True}"
    using index_rows_hit [OF _ inj, of _ "\<lambda>c. ?hit c = Some True"] by (auto simp del: set_map)
  then show ?thesis
    unfolding search_turns_def Let_def fts_rows bad by (simp only: if_distrib [of set] set_sorted_desc set_concat_repeat list.set(1))
qed

text \<open>
  After any sequence of calls the full-text index agrees with the turns: a search returns exactly the turns in its
  scope whose present content matches, none that was deleted and none with an old content; and a turn added
  without an index is never refused.
\<close>

theorem search_agrees_with_turns:
  fixes calls :: "db_call list"
  defines "db \<equiv> fold db_step calls empty_db"
  shows "set (search_turns fts q sc db) =
      (if \<exists>t \<in> set (sd_turns db). fts (safe_query q) (tn_content t) = None then {}
       else {t \<in> set (sd_turns db). in_scope sc t \<and> fts (safe_query q) (tn_content t) = Some True})
    \<and> fst (add_turn now s r c None m u a g db) \<noteq> None"
proof
  have "db_inv db" unfolding db_def by (rule session_database.run_inv [OF empty_db_inv])
  then show "set (search_turns fts q sc db) =
      (if \<exists>t \<in> set (sd_turns db). fts (safe_query q) (tn_content t) = None then {}
       else {t \<in> set (sd_turns db). in_scope sc t \<and> fts (safe_query q) (tn_content t) = Some True})"
    by (rule search_exact)
  show "fst (add_turn now s r c None m u a g db) \<noteq> None"
    using next_index_fresh [of _ db s] by (fastforce simp: add_turn_def Let_def list_ex_iff)
qed

definition two_users :: session_db where
  "two_users = fold db_step
     [AddTurn ''t1'' ''s1'' ''user'' ''my salary'' None None (Some ''alice'') None (Some ''acme''),
      AddTurn ''t2'' ''s2'' ''user'' ''my salary'' None None (Some ''bob'') None (Some ''acme'')] empty_db"

text \<open>
  The asynchronous search joins the columns of its scope by \<open>OR\<close> unless told otherwise: asked for the turns of one
  user in an organization it returns those of every other user of it too.
\<close>

theorem async_search_leaks:
  "map tn_user (asearch_default (\<lambda>q c. Some (str_in ''salary'' c)) ''salary'' None (Some ''alice'') (Some ''acme'') two_users) = [Some ''bob'', Some ''alice'']
   \<and> map tn_user (get_turns \<lparr>sc_session = None, sc_user = Some ''alice'', sc_agent = None, sc_org = Some ''acme'', sc_hierarchical = False\<rparr> two_users) = [Some ''alice'']"
  by code_simp

text \<open>
  A query that begins and ends with a quotation mark is passed on as it is: it may hold operators of the search
  language, or be a single mark, which the engine cannot parse.
\<close>

lemma quoted_query_raw: "safe_query [double_quote] = [double_quote]"
  by code_simp

text \<open>Any other query becomes one quoted phrase, with its quotation marks doubled.\<close>

lemma safe_query_phrase:
  assumes "strip q \<noteq> []" and "\<not> startswith (strip q) [double_quote]"
  shows "\<exists>body. safe_query q = double_quote # body @ [double_quote] \<and> even (count_list body double_quote)"
proof -
  let ?dup = "\<lambda>s. concat (map (\<lambda>c. if c = double_quote then [c, c] else [c]) s)"
  have "even (count_list (?dup s) double_quote)" for s by (induction s) auto
  with assms show ?thesis by (auto simp: safe_query_def Let_def)
qed

end
