(* ===== verification/Posix_Paths.thy ===== *)
theory Posix_Paths
  imports Amber_Prelude
begin

text \<open>
  The part of \<open>pathlib\<close> the sources use: a path is whether it is absolute and its parts, without empty ones and
  \<open>.\<close>. Resolving follows \<open>..\<close> from the directory reached so far; the file systems modelled hold no symbolic links.
\<close>

record path =
  pt_absolute :: bool
  pt_parts :: "string list"

type_synonym location = "string list"

fun split_char :: "char \<Rightarrow> string \<Rightarrow> string list" where
  "split_char c [] = [[]]"
| "split_char c (x # s) = (if x = c then [] # split_char c s else (x # hd (split_char c s)) # tl (split_char c s))"

fun join_with :: "string \<Rightarrow> string list \<Rightarrow> string" where
  "join_with sep [] = []"
| "join_with sep [s] = s"
| "join_with sep (s # t # ts) = s @ sep @ join_with sep (t # ts)"

definition parse_path :: "string \<Rightarrow> path" where
  "parse_path s = \<lparr>pt_absolute = startswith s ''/'', pt_parts = filter (\<lambda>p. p \<noteq> [] \<and> p \<noteq> ''.'') (split_char CHR ''/'' s)\<rparr>"

definition at_location :: "location \<Rightarrow> path" where "at_location d = \<lparr>pt_absolute = True, pt_parts = d\<rparr>"

definition join_path :: "path \<Rightarrow> string \<Rightarrow> path" where
  "join_path p s = (let q = parse_path s in if pt_absolute q then q else p\<lparr>pt_parts := pt_parts p @ pt_parts q\<rparr>)"

text \<open>\<open>walk\<close> keeps the directories reached, innermost first; above the root is the root.\<close>

fun walk :: "location \<Rightarrow> string list \<Rightarrow> location" where
  "walk seen [] = rev seen"
| "walk seen (p # ps) = (if p = ''..'' then walk (tl seen) ps else walk (p # seen) ps)"

definition resolve_path :: "location \<Rightarrow> path \<Rightarrow> location" where
  "resolve_path cwd p = walk [] ((if pt_absolute p then [] else cwd) @ pt_parts p)"

definition show_location :: "location \<Rightarrow> string" where
  "show_location d = ''/'' @ join_with ''/'' d"

text \<open>\<open>Path.suffix\<close> of a last part: what follows its last dot, unless the dot begins or ends it.\<close>

definition suffix_of :: "string \<Rightarrow> string" where
  "suffix_of s =
     (let ps = split_char CHR ''.'' s
      in if length ps < 2 \<or> last ps = [] \<or> butlast ps = [[]] then [] else CHR ''.'' # last ps)"

text \<open>A plain name: one part, which is no link to this or the upper directory.\<close>

definition plain_name :: "string \<Rightarrow> bool" where
  "plain_name s = (s \<noteq> [] \<and> CHR ''/'' \<notin> set s \<and> s \<noteq> ''.'' \<and> s \<noteq> ''..'')"

lemma split_char_nonempty [simp]: "split_char c s \<noteq> []"
  by (induction s) auto

lemma split_char_free: "c \<notin> set s \<Longrightarrow> split_char c s = [s]"
  by (induction s) auto

lemma split_char_parts: "p \<in> set (split_char c s) \<Longrightarrow> c \<notin> set p"
proof (induction s arbitrary: p)
  case (Cons x s)
  have "hd (split_char c s) \<in> set (split_char c s)" by simp
  moreover have "q \<in> set (tl (split_char c s)) \<Longrightarrow> q \<in> set (split_char c s)" for q
    by (rule list.set_sel(2)) simp_all
  ultimately show ?case using Cons by (auto split: if_splits)
qed simp

lemma parse_plain: "plain_name s \<Longrightarrow> parse_path s = \<lparr>pt_absolute = False, pt_parts = [s]\<rparr>"
  by (cases s) (auto simp: parse_path_def plain_name_def split_char_free startswith_def)

lemma walk_no_dots: "''..'' \<notin> set ps \<Longrightarrow> walk seen ps = rev seen @ ps"
  by (induction ps arbitrary: seen) auto

lemma set_walk: "set (walk seen ps) \<subseteq> set seen \<union> set ps"
proof (induction ps arbitrary: seen)
  case (Cons p ps)
  have "set (tl seen) \<subseteq> set seen" by (cases seen) auto
  with Cons [of "tl seen"] Cons [of "p # seen"] show ?case by auto
qed simp

lemma walk_append: "walk seen (ps @ qs) = walk (rev (walk seen ps)) qs"
  by (induction ps arbitrary: seen) auto

lemma walk_clean: "\<forall>p \<in> set seen. p \<noteq> ''..'' \<Longrightarrow> ''..'' \<notin> set (walk seen ps)"
proof (induction ps arbitrary: seen)
  case (Cons p ps)
  then have "\<forall>q \<in> set (tl seen). q \<noteq> ''..''" by (cases seen) auto
  with Cons show ?case by auto
qed auto

lemma join_plain: "plain_name s \<Longrightarrow> join_path p s = p\<lparr>pt_parts := pt_parts p @ [s]\<rparr>"
  by (simp add: join_path_def parse_plain Let_def)

lemma split_char_step: "c \<notin> set s \<Longrightarrow> split_char c (s @ c # t) = s # split_char c t"
  by (induction s) auto

lemma split_join: "ps \<noteq> [] \<Longrightarrow> \<forall>p \<in> set ps. CHR ''/'' \<notin> set p \<Longrightarrow> split_char CHR ''/'' (join_with ''/'' ps) = ps"
  by (induction "''/''" ps rule: join_with.induct) (auto simp: split_char_free split_char_step)

lemma parse_join:
  assumes "list_all plain_name ps" and "ps \<noteq> []"
  shows "parse_path (join_with ''/'' ps) = \<lparr>pt_absolute = False, pt_parts = ps\<rparr>"
proof -
  have "split_char CHR ''/'' (join_with ''/'' ps) = ps"
    using assms by (intro split_join) (auto simp: list_all_iff plain_name_def)
  moreover have "filter (\<lambda>p. p \<noteq> [] \<and> p \<noteq> ''.'') ps = ps"
    using assms(1) by (intro filter_True) (auto simp: list_all_iff plain_name_def)
  moreover have "\<not> startswith (join_with ''/'' ps) ''/''"
    using assms by (cases ps rule: remdups_adj.cases; cases "hd ps") (auto simp: startswith_def plain_name_def)
  ultimately show ?thesis by (simp add: parse_path_def)
qed

text \<open>A prefix of a shown location, read part by part.\<close>

lemma prefix_until_sep:
  assumes "x @ c # u = y @ v" and "c \<notin> set x" and "c \<notin> set y" and "v = [] \<or> hd v = c"
  shows "x = y"
  using assms
proof (induction x arbitrary: y)
  case Nil
  then show ?case by (cases y) auto
next
  case (Cons a x)
  then show ?case by (cases y) auto
qed

lemma join_cons: "\<exists>v. join_with ''/'' (p # ps) = p @ v \<and> (v = [] \<or> hd v = CHR ''/'') \<and> (ps \<noteq> [] \<longrightarrow> v = CHR ''/'' # join_with ''/'' ps)"
  by (cases ps) auto


lemma startswith_ex: "startswith s p \<longleftrightarrow> (\<exists>w. s = p @ w)"
  unfolding startswith_def by (metis append_eq_conv_conj append_take_drop_id)

lemma join_prefix:
  assumes "startswith (join_with ''/'' t) (join_with ''/'' d)" and "d \<noteq> []" and "list_all plain_name d"
    and "\<forall>p \<in> set t. CHR ''/'' \<notin> set p"
  shows "length d \<le> length t \<and> take (length d - 1) t = butlast d \<and> startswith (t ! (length d - 1)) (last d)"
  using assms
proof (induction d arbitrary: t)
  case (Cons x d)
  from Cons.prems have x: "x \<noteq> []" "CHR ''/'' \<notin> set x" by (auto simp: plain_name_def)
  obtain w where w: "join_with ''/'' t = join_with ''/'' (x # d) @ w" using Cons.prems(1) by (auto simp: startswith_ex)
  obtain y t' where t: "t = y # t'" using w x join_cons [of x d] by (cases t) auto
  have y: "CHR ''/'' \<notin> set y" using Cons.prems(4) t by simp
  obtain v where v: "join_with ''/'' t = y @ v" "v = [] \<or> hd v = CHR ''/''" "t' \<noteq> [] \<longrightarrow> v = CHR ''/'' # join_with ''/'' t'"
    using join_cons [of y t'] t by blast
  show ?case
  proof (cases "d = []")
    case True
    with w v have eq: "x @ w = y @ v" by simp
    then have "\<exists>u. y = x @ u"
      using v(2) x(2) by (auto simp: append_eq_append_conv2 Cons_eq_append_conv; metis append_Nil2 hd_append2 hd_in_set in_set_conv_decomp list.sel(1))
    then show ?thesis using True t by (auto simp: startswith_ex)
  next
    case False
    with w v have eq: "x @ CHR ''/'' # (join_with ''/'' d @ w) = y @ v"
      using join_cons [of x d] by (cases d) auto
    then have xy: "x = y" by (rule prefix_until_sep [OF _ x(2) y v(2)])
    with eq have "v = CHR ''/'' # (join_with ''/'' d @ w)" by simp
    then have t': "t' \<noteq> []" "join_with ''/'' t' = join_with ''/'' d @ w" using v(1,3) t by auto
    with Cons.IH [of t'] Cons.prems False t show ?thesis
      using xy by (cases d) (auto simp: startswith_ex)
  qed
qed simp

end
