(* ===== verification/Tenant_Isolation.thy ===== *)
theory Tenant_Isolation
  imports Session_Database State_Store Posix_Paths
begin

text \<open>
  \<open>storage/tenant.py\<close>: the tenant of the running task, one session database per tenant below a base directory, and
  one JSON store per tenant. Files are found by their location, so that two names of one directory reach one file.
\<close>

section \<open>The current tenant\<close>

record tenant_violation =
  vi_requested :: "string option"
  vi_current :: "string option"

type_synonym tenant_var = "string option"

text \<open>\<open>TenantContext\<close>: entering gives the token, the value to go back to; \<open>None\<close> is the \<open>ValueError\<close>.\<close>

definition tenant_context :: "string \<Rightarrow> string option" where
  "tenant_context t = (if t = [] then None else Some t)"

definition enter_context :: "string \<Rightarrow> tenant_var \<Rightarrow> tenant_var \<times> tenant_var" where
  "enter_context t cur = (cur, Some t)"

definition exit_context :: "tenant_var \<Rightarrow> tenant_var \<Rightarrow> tenant_var" where
  "exit_context token cur = token"

definition require_current :: "tenant_var \<Rightarrow> tenant_violation + string" where
  "require_current cur =
     (case cur of None \<Rightarrow> Inl \<lparr>vi_requested = Some ''<any>'', vi_current = None\<rparr>
      | Some t \<Rightarrow> if t = [] then Inl \<lparr>vi_requested = Some ''<any>'', vi_current = None\<rparr> else Inr t)"

definition truthy_id :: "string option \<Rightarrow> bool" where "truthy_id x = (x \<noteq> None \<and> x \<noteq> Some [])"

definition resolve_tenant :: "tenant_var \<Rightarrow> string option \<Rightarrow> tenant_violation + string" where
  "resolve_tenant cur explicit =
     (if truthy_id explicit \<and> truthy_id cur \<and> explicit \<noteq> cur then Inl \<lparr>vi_requested = explicit, vi_current = cur\<rparr>
      else case (if truthy_id explicit then explicit else cur) of
        None \<Rightarrow> Inl \<lparr>vi_requested = explicit, vi_current = None\<rparr>
      | Some t \<Rightarrow> if t = [] then Inl \<lparr>vi_requested = explicit, vi_current = None\<rparr> else Inr t)"

section \<open>Session databases\<close>

text \<open>\<open>td_open\<close>: the tenants whose database is open; the base is the location of the base directory.\<close>

record tenant_dbs =
  td_base :: location
  td_open :: "string list"
  td_files :: "(location, session_db) pydict"

definition tenant_db_file :: "location \<Rightarrow> string \<Rightarrow> location" where
  "tenant_db_file base t = resolve_path [] (join_path (join_path (at_location base) t) ''sessions.db'')"

definition file_db :: "tenant_dbs \<Rightarrow> string \<Rightarrow> session_db" where
  "file_db td t = dgetd (td_files td) (tenant_db_file (td_base td) t) empty_db"

definition get_tenant_db :: "string \<Rightarrow> tenant_dbs \<Rightarrow> tenant_dbs" where
  "get_tenant_db t td =
     (if t \<in> set (td_open td) then td
      else td\<lparr>td_open := td_open td @ [t], td_files := dset (tenant_db_file (td_base td) t) (file_db td t) (td_files td)\<rparr>)"

definition close_tenants :: "tenant_dbs \<Rightarrow> tenant_dbs" where
  "close_tenants td = td\<lparr>td_open := []\<rparr>"

definition with_tenant_db ::
  "tenant_var \<Rightarrow> string option \<Rightarrow> (string \<Rightarrow> session_db \<Rightarrow> 'a \<times> session_db) \<Rightarrow> tenant_dbs \<Rightarrow> (tenant_violation + 'a) \<times> tenant_dbs" where
  "with_tenant_db cur explicit f td =
     (case resolve_tenant cur explicit of
        Inl e \<Rightarrow> (Inl e, td)
      | Inr t \<Rightarrow> (let td = get_tenant_db t td; (r, db) = f t (file_db td t)
                 in (Inr r, td\<lparr>td_files := dset (tenant_db_file (td_base td) t) db (td_files td)\<rparr>)))"

definition tenant_add_turn ::
  "string \<Rightarrow> string \<Rightarrow> string \<Rightarrow> string \<Rightarrow> int option \<Rightarrow> (string, json) pydict option \<Rightarrow> string option \<Rightarrow> string option
   \<Rightarrow> tenant_var \<Rightarrow> string option \<Rightarrow> tenant_dbs \<Rightarrow> (tenant_violation + int option) \<times> tenant_dbs" where
  "tenant_add_turn now s role content ix md user agent cur explicit =
     with_tenant_db cur explicit (\<lambda>t. add_turn now s role content ix md user agent (Some t))"

definition tenant_scope :: "string option \<Rightarrow> string option \<Rightarrow> string option \<Rightarrow> string \<Rightarrow> turn_scope" where
  "tenant_scope s user agent t = \<lparr>sc_session = s, sc_user = user, sc_agent = agent, sc_org = Some t, sc_hierarchical = False\<rparr>"

definition tenant_get_turns ::
  "string option \<Rightarrow> string option \<Rightarrow> string option \<Rightarrow> tenant_var \<Rightarrow> string option \<Rightarrow> tenant_dbs \<Rightarrow> (tenant_violation + turn list) \<times> tenant_dbs" where
  "tenant_get_turns s user agent cur explicit =
     with_tenant_db cur explicit (\<lambda>t db. (get_turns (tenant_scope s user agent t) db, db))"


definition tenant_delete_session :: "string \<Rightarrow> tenant_var \<Rightarrow> string option \<Rightarrow> tenant_dbs \<Rightarrow> (tenant_violation + nat) \<times> tenant_dbs" where
  "tenant_delete_session s cur explicit = with_tenant_db cur explicit (\<lambda>t. delete_session s)"

definition purge_tenant_memory :: "tenant_var \<Rightarrow> string option \<Rightarrow> tenant_dbs \<Rightarrow> (tenant_violation + nat) \<times> tenant_dbs" where
  "purge_tenant_memory cur explicit = with_tenant_db cur explicit (\<lambda>t. purge_all_sessions)"

definition export_tenant_data ::
  "(string \<Rightarrow> string) \<Rightarrow> (turn list \<Rightarrow> string) \<Rightarrow> string option \<Rightarrow> string option \<Rightarrow> tenant_var \<Rightarrow> string option
   \<Rightarrow> tenant_dbs \<Rightarrow> (tenant_violation + user_export) \<times> tenant_dbs" where
  "export_tenant_data sha dumps user s cur explicit =
     with_tenant_db cur explicit (\<lambda>t db. (export_user_data sha dumps user s (Some t) db, db))"

section \<open>State stores\<close>

text \<open>
  The stores are loaded once per tenant name and kept; the files are shared. \<open>wok\<close> says whether the write succeeds.
\<close>

record 'v tenant_stores =
  ts_base :: location
  ts_file_name :: string
  ts_stores :: "(string, 'v store) pydict"
  ts_files :: "(location, file_content) pydict"

definition tenant_state_file :: "'v tenant_stores \<Rightarrow> string \<Rightarrow> location" where
  "tenant_state_file ts t = resolve_path [] (join_path (join_path (at_location (ts_base ts)) t) (ts_file_name ts))"

definition state_on_disk :: "'v tenant_stores \<Rightarrow> string \<Rightarrow> file_content" where
  "state_on_disk ts t = dgetd (ts_files ts) (tenant_state_file ts t) Missing"

definition tenant_store :: "(json \<Rightarrow> 'v option) \<Rightarrow> string \<Rightarrow> 'v tenant_stores \<Rightarrow> 'v store" where
  "tenant_store validate t ts =
     (case dget (ts_stores ts) t of
        Some s \<Rightarrow> s\<lparr>st_file := state_on_disk ts t\<rparr> | None \<Rightarrow> store_load validate (state_on_disk ts t))"

definition with_tenant_store ::
  "(json \<Rightarrow> 'v option) \<Rightarrow> tenant_var \<Rightarrow> string option \<Rightarrow> ('v store \<Rightarrow> 'a \<times> 'v store) \<Rightarrow> 'v tenant_stores
   \<Rightarrow> (tenant_violation + 'a) \<times> 'v tenant_stores" where
  "with_tenant_store validate cur explicit f ts =
     (case resolve_tenant cur explicit of
        Inl e \<Rightarrow> (Inl e, ts)
      | Inr t \<Rightarrow> (let (r, s) = f (tenant_store validate t ts)
                 in (Inr r, ts\<lparr>ts_stores := dset t s (ts_stores ts), ts_files := dset (tenant_state_file ts t) (st_file s) (ts_files ts)\<rparr>)))"

definition tenant_get :: "(json \<Rightarrow> 'v option) \<Rightarrow> string \<Rightarrow> tenant_var \<Rightarrow> string option \<Rightarrow> 'v tenant_stores
   \<Rightarrow> (tenant_violation + 'v option) \<times> 'v tenant_stores" where
  "tenant_get validate k cur explicit = with_tenant_store validate cur explicit (\<lambda>s. (store_get s k, s))"

definition tenant_get_all :: "(json \<Rightarrow> 'v option) \<Rightarrow> tenant_var \<Rightarrow> string option \<Rightarrow> 'v tenant_stores
   \<Rightarrow> (tenant_violation + (string, 'v) pydict) \<times> 'v tenant_stores" where
  "tenant_get_all validate cur explicit = with_tenant_store validate cur explicit (\<lambda>s. (store_get_all s, s))"

definition tenant_set :: "(json \<Rightarrow> 'v option) \<Rightarrow> ('v \<Rightarrow> json) \<Rightarrow> bool \<Rightarrow> string \<Rightarrow> 'v \<Rightarrow> tenant_var \<Rightarrow> string option
   \<Rightarrow> 'v tenant_stores \<Rightarrow> (tenant_violation + unit) \<times> 'v tenant_stores" where
  "tenant_set validate dump wok k v cur explicit = with_tenant_store validate cur explicit (\<lambda>s. ((), store_set dump wok k v s))"

definition tenant_delete :: "(json \<Rightarrow> 'v option) \<Rightarrow> ('v \<Rightarrow> json) \<Rightarrow> bool \<Rightarrow> string \<Rightarrow> tenant_var \<Rightarrow> string option
   \<Rightarrow> 'v tenant_stores \<Rightarrow> (tenant_violation + bool) \<times> 'v tenant_stores" where
  "tenant_delete validate dump wok k cur explicit = with_tenant_store validate cur explicit (store_delete dump wok k)"

section \<open>Where the files are\<close>




lemma split_char_snoc: "split_char c (s @ [c]) = split_char c s @ [[]]"
  by (induction s) auto

lemma parse_trailing_slash: "s \<noteq> [] \<Longrightarrow> parse_path (s @ ''/'') = parse_path s"
  using split_char_snoc [of "CHR ''/''" s] by (cases s) (simp_all add: parse_path_def startswith_def)

lemma trailing_slash_same_file: "s \<noteq> [] \<Longrightarrow> tenant_db_file base (s @ ''/'') = tenant_db_file base s"
  by (simp add: tenant_db_file_def join_path_def parse_trailing_slash)

section \<open>Isolation\<close>

lemma file_db_open [simp]: "file_db (get_tenant_db t td) u = file_db td u"
  by (simp add: get_tenant_db_def file_db_def dgetd_dset)

lemma files_open: "dgetd (td_files (get_tenant_db t td)) (tenant_db_file (td_base td) u) empty_db = file_db td u"
  by (simp add: get_tenant_db_def file_db_def dgetd_dset)

lemma td_base_open [simp]: "td_base (get_tenant_db t td) = td_base td"
  by (simp add: get_tenant_db_def)

lemma td_base_with [simp]: "td_base (snd (with_tenant_db cur ex f td)) = td_base td"
  by (simp add: with_tenant_db_def Let_def split: sum.splits prod.splits)


lemma with_tenant_own:
  "resolve_tenant cur ex = Inr t \<Longrightarrow>
     fst (with_tenant_db cur ex f td) = Inr (fst (f t (file_db td t))) \<and> file_db (snd (with_tenant_db cur ex f td)) t = snd (f t (file_db td t))"
  by (simp add: with_tenant_db_def Let_def file_db_def [of "tenant_dbs.td_files_update _ _"] dgetd_dset files_open split: prod.splits)

lemma resolve_explicit: "t \<noteq> [] \<Longrightarrow> cur \<in> {None, Some t} \<Longrightarrow> resolve_tenant cur (Some t) = Inr t"
  by (auto simp: resolve_tenant_def truthy_id_def)


section \<open>Properties\<close>

datatype tenant_op =
    TenantAdd string string string string "int option" "(string, json) pydict option" "string option" "string option"
  | TenantRead "string option" "string option" "string option"
  | TenantDeleteSession string
  | TenantPurge

fun tenant_step :: "tenant_var \<times> string option \<times> tenant_op \<Rightarrow> tenant_dbs \<Rightarrow> tenant_dbs" where
  "tenant_step (cur, ex, TenantAdd now s r c ix m u a) td = snd (tenant_add_turn now s r c ix m u a cur ex td)"
| "tenant_step (cur, ex, TenantRead s u a) td = snd (tenant_get_turns s u a cur ex td)"
| "tenant_step (cur, ex, TenantDeleteSession s) td = snd (tenant_delete_session s cur ex td)"
| "tenant_step (cur, ex, TenantPurge) td = snd (purge_tenant_memory cur ex td)"








text \<open>
  The name of a tenant that ends in a slash is another tenant for the checks and the same directory on disk: it
  sees none of the other's turns, yet purging its memory erases them all.
\<close>

theorem slash_tenant_purges:
  assumes "plain_name t"
  shows "fst (purge_tenant_memory None (Some (t @ ''/'')) td) = Inr (length (sd_turns (file_db td t)))
    \<and> fst (tenant_get_turns s user agent None (Some t) (snd (purge_tenant_memory None (Some (t @ ''/'')) td))) = Inr []"
proof -
  have t: "t \<noteq> []" using assms by (simp add: plain_name_def)
  have same: "file_db td' (t @ ''/'') = file_db td' t" for td'
    using t by (simp add: file_db_def trailing_slash_same_file)
  have own: "resolve_tenant None (Some (t @ ''/'')) = Inr (t @ ''/'')" "resolve_tenant None (Some t) = Inr t"
    using t by (simp_all add: resolve_explicit)
  have "sd_turns (file_db (snd (purge_tenant_memory None (Some (t @ ''/'')) td)) t) = []"
    using with_tenant_own [OF own(1), of "\<lambda>t. purge_all_sessions" td]
    by (simp add: purge_tenant_memory_def same purge_all_sessions_def)
  then show ?thesis
    by (simp add: purge_tenant_memory_def tenant_get_turns_def with_tenant_own [OF own(1)] with_tenant_own [OF own(2)] same
        purge_all_sessions_def get_turns_def)
qed

theorem slash_tenant_purges_witness:
  "fst (purge_tenant_memory None (Some ''acme/'') (tenant_step (None, Some ''acme'', TenantAdd ''t'' ''s'' ''user'' ''hello'' None None None None)
     \<lparr>td_base = [''data''], td_open = [], td_files = []\<rparr>)) = Inr 1"
proof -
  let ?td = "tenant_step (None, Some ''acme'', TenantAdd ''t'' ''s'' ''user'' ''hello'' None None None None) \<lparr>td_base = [''data''], td_open = [], td_files = []\<rparr>"
  have "plain_name ''acme''" by code_simp
  from slash_tenant_purges [OF this, of ?td] have "fst (purge_tenant_memory None (Some (''acme'' @ ''/'')) ?td) = Inr (length (sd_turns (file_db ?td ''acme'')))"
    by blast
  moreover have "length (sd_turns (file_db ?td ''acme'')) = 1" by code_simp
  ultimately show ?thesis by simp
qed

text \<open>
  A call for a tenant is refused exactly when the task runs for a different one or no tenant is known, and then
  it changes nothing; outside every context any caller may name any tenant.
\<close>

theorem tenant_refusal:
  "case fst (with_tenant_db cur ex f td) of
     Inl e \<Rightarrow> (truthy_id ex \<and> truthy_id cur \<and> ex \<noteq> cur \<or> \<not> truthy_id ex \<and> \<not> truthy_id cur) \<and> snd (with_tenant_db cur ex f td) = td
   | Inr r \<Rightarrow> Some (if truthy_id ex then the ex else the cur) = (if truthy_id cur then cur else ex)"
  by (auto simp: with_tenant_db_def resolve_tenant_def truthy_id_def Let_def split: option.splits prod.splits sum.splits if_splits)

text \<open>Two names of one directory keep two copies of one JSON file: the last writer loses what the other wrote.\<close>

definition two_writers :: "int tenant_stores" where
  "two_writers =
     (let val = (\<lambda>j. case j of JInt n \<Rightarrow> Some n | _ \<Rightarrow> None);
          ts = \<lparr>ts_base = [''data''], ts_file_name = ''state.json'', ts_stores = [], ts_files = []\<rparr>;
          ts = snd (tenant_get val ''a'' None (Some ''acme'') ts);
          ts = snd (tenant_set val JInt True ''b'' 2 None (Some ''./acme'') ts)
      in snd (tenant_set val JInt True ''a'' 1 None (Some ''acme'') ts))"

lemma alias_loses_update: "state_on_disk two_writers ''acme'' = Content [(''a'', JInt 1)]"
  by code_simp

end
