(* ===== verification/Backup_Restore.thy ===== *)
theory Backup_Restore
  imports Posix_Paths
begin

text \<open>
  \<open>storage/backup.py\<close>: backups, their restoration and the recovery drill. Files are bytes at locations. The archive format,
  JSON and SHA-256, the online copy of a database and SQLite's integrity check are parameters. An archive holds
  plain files only.
\<close>

section \<open>Data\<close>

type_synonym bytes = string
type_synonym files = "(location, bytes) pydict"
type_synonym members = "(string \<times> bytes) list"

record backup_entry =
  be_path :: string
  be_size :: nat
  be_sha :: string

record backup_manifest =
  bm_id :: string
  bm_created :: string
  bm_version :: string
  bm_total_files :: nat
  bm_total_size :: nat
  bm_archive_sha :: string
  bm_files :: "backup_entry list"

record recovery_dirs =
  rc_data :: location
  rc_backups :: location
  rc_config :: location
  rc_logs :: location

record toolbox =
  tb_sha :: "bytes \<Rightarrow> string"
  tb_pack :: "members \<Rightarrow> bytes"
  tb_unpack :: "bytes \<Rightarrow> members option"
  tb_dumps :: "backup_manifest \<Rightarrow> bytes"
  tb_loads :: "bytes \<Rightarrow> backup_manifest option"
  tb_online_copy :: "bytes \<Rightarrow> bytes option"
  tb_integrity_ok :: "bytes \<Rightarrow> bool"
  tb_tables :: "bytes \<Rightarrow> (string \<times> nat option) list"

datatype restore_error =
    ArchiveMissing | NotAnArchive | PathTraversal string | NoManifest | BadManifest | FilesExist | DbCorrupt string

section \<open>Backup\<close>

text \<open>The files below a directory, with their parts relative to it.\<close>

definition rel_files :: "location \<Rightarrow> files \<Rightarrow> (string list \<times> bytes) list" where
  "rel_files d fs = map (\<lambda>(p, b). (drop (length d) p, b)) (filter (\<lambda>(p, b). length d < length p \<and> take (length d) p = d) fs)"

definition is_sqlite :: "string \<Rightarrow> bool" where
  "is_sqlite name = (suffix_of name \<in> {''.db'', ''.sqlite'', ''.sqlite3''})"

definition backup_sqlite_db :: "toolbox \<Rightarrow> bytes \<Rightarrow> bytes" where
  "backup_sqlite_db tb b = (case tb_online_copy tb b of Some c \<Rightarrow> c | None \<Rightarrow> b)"

definition data_member :: "toolbox \<Rightarrow> bool \<Rightarrow> string list \<times> bytes \<Rightarrow> (string list \<times> bytes) option" where
  "data_member tb include_tenants = (\<lambda>(rel, b).
     let name = last rel; arc = ''data'' # rel
     in if ''tenants'' \<in> set rel \<and> \<not> include_tenants then None
        else if is_sqlite name then Some (arc, backup_sqlite_db tb b)
        else if \<not> (endswith name ''-wal'' \<or> endswith name ''-shm'' \<or> endswith name ''.tmp'') then Some (arc, b) else None)"

definition config_member :: "string list \<times> bytes \<Rightarrow> (string list \<times> bytes) option" where
  "config_member = (\<lambda>(rel, b). if endswith (last rel) ''.yaml'' then Some (''config'' # rel, b) else None)"

definition log_member :: "string list \<times> bytes \<Rightarrow> (string list \<times> bytes) option" where
  "log_member = (\<lambda>(rel, b). if length rel = 1 \<and> str_in ''.jsonl'' (last rel) then Some (''logs'' # rel, b) else None)"

definition packed_files :: "toolbox \<Rightarrow> recovery_dirs \<Rightarrow> bool \<Rightarrow> bool \<Rightarrow> bool \<Rightarrow> files \<Rightarrow> (string list \<times> bytes) list" where
  "packed_files tb rc tenants config logs fs =
     List.map_filter (data_member tb tenants) (rel_files (rc_data rc) fs)
     @ (if config then List.map_filter config_member (rel_files (rc_config rc) fs) else [])
     @ (if logs then List.map_filter log_member (rel_files (rc_logs rc) fs) else [])"

definition backup_members :: "toolbox \<Rightarrow> recovery_dirs \<Rightarrow> bool \<Rightarrow> bool \<Rightarrow> bool \<Rightarrow> files \<Rightarrow> members" where
  "backup_members tb rc tenants config logs fs =
     map (\<lambda>(ps, b). (join_with ''/'' ps, b)) (packed_files tb rc tenants config logs fs)"

definition manifest_of :: "toolbox \<Rightarrow> string \<Rightarrow> string \<Rightarrow> string \<Rightarrow> members \<Rightarrow> backup_manifest" where
  "manifest_of tb now version name ms =
     \<lparr>bm_id = name, bm_created = now, bm_version = version, bm_total_files = length ms, bm_total_size = sum_list (map (length \<circ> snd) ms),
      bm_archive_sha = '''', bm_files = map (\<lambda>(p, b). \<lparr>be_path = p, be_size = length b, be_sha = tb_sha tb b\<rparr>) ms\<rparr>"

definition archive_file :: "recovery_dirs \<Rightarrow> string \<Rightarrow> location" where
  "archive_file rc name = resolve_path [] (join_path (at_location (rc_backups rc)) (name @ ''.tar.gz''))"

definition sidecar_file :: "recovery_dirs \<Rightarrow> string \<Rightarrow> location" where
  "sidecar_file rc name = resolve_path [] (join_path (at_location (rc_backups rc)) (name @ ''.manifest.json''))"

definition create_backup ::
  "toolbox \<Rightarrow> recovery_dirs \<Rightarrow> string \<Rightarrow> string \<Rightarrow> string \<Rightarrow> string option \<Rightarrow> bool \<Rightarrow> bool \<Rightarrow> bool \<Rightarrow> files \<Rightarrow> location \<times> files" where
  "create_backup tb rc now stamp version name tenants config logs fs =
     (let bid = (case name of Some n \<Rightarrow> if n = [] then ''bak_'' @ stamp else n | None \<Rightarrow> ''bak_'' @ stamp);
          ms = backup_members tb rc tenants config logs fs;
          m = manifest_of tb now version bid ms;
          archive = tb_pack tb ((''manifest.json'', tb_dumps tb m) # ms)
      in (archive_file rc bid,
          dset (sidecar_file rc bid) (tb_dumps tb (m\<lparr>bm_archive_sha := tb_sha tb archive\<rparr>)) (dset (archive_file rc bid) archive fs)))"

section \<open>Restoration\<close>

definition member_target :: "location \<Rightarrow> string \<Rightarrow> location" where
  "member_target dest name = resolve_path [] (join_path (at_location dest) name)"

definition slips :: "location \<Rightarrow> string \<Rightarrow> bool" where
  "slips dest name = (\<not> startswith (show_location (member_target dest name)) (show_location dest))"

definition extract_all :: "location \<Rightarrow> members \<Rightarrow> files \<Rightarrow> files" where
  "extract_all dest ms fs = fold (\<lambda>(name, b). dset (member_target dest name) b) ms fs"

text \<open>A directory is there when a file is below it.\<close>

definition exists_at :: "files \<Rightarrow> location \<Rightarrow> bool" where
  "exists_at fs p = list_ex (\<lambda>q. take (length p) q = p) (dkeys fs)"

text \<open>A database that is not there is created empty by connecting to it, and an empty one is sound.\<close>

fun verify_dbs :: "toolbox \<Rightarrow> location \<Rightarrow> backup_entry list \<Rightarrow> files \<Rightarrow> string option \<times> files" where
  "verify_dbs tb dest [] fs = (None, fs)"
| "verify_dbs tb dest (e # es) fs =
     (let p = member_target dest (be_path e); name = pt_parts (join_path (at_location dest) (be_path e))
      in if name \<noteq> [] \<and> is_sqlite (last name) then
           (case dget fs p of None \<Rightarrow> verify_dbs tb dest es (dset p [] fs)
            | Some b \<Rightarrow> if tb_integrity_ok tb b then verify_dbs tb dest es fs else (Some (be_path e), fs))
         else verify_dbs tb dest es fs)"

definition restore_backup ::
  "toolbox \<Rightarrow> recovery_dirs \<Rightarrow> location \<Rightarrow> location option \<Rightarrow> bool \<Rightarrow> files \<Rightarrow> (restore_error + backup_manifest) \<times> files" where
  "restore_backup tb rc archive target force fs =
     (let dest = (case target of Some d \<Rightarrow> d | None \<Rightarrow> butlast (rc_data rc))
      in case dget fs archive of None \<Rightarrow> (Inl ArchiveMissing, fs) | Some a \<Rightarrow>
         case tb_unpack tb a of None \<Rightarrow> (Inl NotAnArchive, fs) | Some ms \<Rightarrow>
         case find (slips dest) (map fst ms) of Some n \<Rightarrow> (Inl (PathTraversal n), fs) | None \<Rightarrow>
         case dget (rev ms) ''manifest.json'' of None \<Rightarrow> (Inl NoManifest, fs) | Some j \<Rightarrow>
         case tb_loads tb j of None \<Rightarrow> (Inl BadManifest, fs) | Some m \<Rightarrow>
         if \<not> force \<and> list_ex (\<lambda>e. exists_at fs (member_target dest (be_path e))) (bm_files m) then (Inl FilesExist, fs)
         else case verify_dbs tb dest (bm_files m) (extract_all dest ms fs) of
           (Some rel, fs) \<Rightarrow> (Inl (DbCorrupt rel), fs) | (None, fs) \<Rightarrow> (Inr m, fs))"

text \<open>The backups found by their side files, newest name first, and whether the archive is there.\<close>

definition list_backups :: "toolbox \<Rightarrow> recovery_dirs \<Rightarrow> files \<Rightarrow> (backup_manifest \<times> bool) list" where
  "list_backups tb rc fs =
     (let here = filter (\<lambda>(rel, b). length rel = 1 \<and> endswith (hd rel) ''.manifest.json'') (rel_files (rc_backups rc) fs)
      in List.map_filter (\<lambda>(rel, b). map_option (\<lambda>m. (m, exists_at fs (archive_file rc (bm_id m)))) (tb_loads tb b))
           (rev (sort_key fst here)))"

section \<open>The drill\<close>

record drill_result =
  dr_id :: string
  dr_success :: bool
  dr_databases :: nat
  dr_records :: nat
  dr_error :: "restore_error option"

definition user_table :: "string \<Rightarrow> bool" where
  "user_table t = (\<not> endswith t ''_fts'' \<and> \<not> list_ex (endswith t) [''_idx'', ''_data'', ''_config'', ''_docsize''])"

definition record_count :: "toolbox \<Rightarrow> bytes \<Rightarrow> nat" where
  "record_count tb b = sum_list (List.map_filter (\<lambda>(t, n). if user_table t then n else None) (tb_tables tb b))"

fun count_dbs :: "toolbox \<Rightarrow> location \<Rightarrow> backup_entry list \<Rightarrow> files \<Rightarrow> nat \<times> nat \<times> restore_error option \<Rightarrow> nat \<times> nat \<times> restore_error option" where
  "count_dbs tb dest [] fs acc = acc"
| "count_dbs tb dest (e # es) fs (dbs, recs, err) =
     (let p = member_target dest (be_path e); name = pt_parts (join_path (at_location dest) (be_path e))
      in if name \<noteq> [] \<and> is_sqlite (last name) then
           (let b = dgetd fs p []
            in if tb_integrity_ok tb b then count_dbs tb dest es fs (dbs + 1, recs + record_count tb b, err)
               else (dbs + 1, recs, Some (DbCorrupt (be_path e))))
         else count_dbs tb dest es fs (dbs, recs, err))"

definition remove_tree :: "location \<Rightarrow> files \<Rightarrow> files" where
  "remove_tree d fs = filter (\<lambda>(p, b). take (length d) p \<noteq> d) fs"

definition drill_name :: "string \<Rightarrow> string" where "drill_name stamp = ''drill_'' @ stamp @ ''_snapshot''"

definition run_dr_drill :: "toolbox \<Rightarrow> recovery_dirs \<Rightarrow> string \<Rightarrow> string \<Rightarrow> string \<Rightarrow> location \<Rightarrow> files \<Rightarrow> drill_result \<times> files" where
  "run_dr_drill tb rc now stamp version tmp fs =
     (let (archive, fs) = create_backup tb rc now stamp version (Some (drill_name stamp)) True True True fs;
          (r, fs) = restore_backup tb rc archive (Some (tmp @ [''restored''])) True fs;
          (dbs, recs, err) = (case r of Inl e \<Rightarrow> (0, 0, Some e) | Inr m \<Rightarrow> count_dbs tb (tmp @ [''restored'']) (bm_files m) fs (0, 0, None));
          fs = dpop (sidecar_file rc (drill_name stamp)) (dpop archive fs)
      in (\<lparr>dr_id = ''drill_'' @ stamp, dr_success = (err = None), dr_databases = dbs, dr_records = recs, dr_error = err\<rparr>, remove_tree tmp fs))"


section \<open>Where members go\<close>

lemma plain_no_dots: "list_all plain_name ps \<Longrightarrow> ''..'' \<notin> set ps"
  by (auto simp: list_all_iff plain_name_def)

lemma member_target_plain:
  "list_all plain_name dest \<Longrightarrow> list_all plain_name ps \<Longrightarrow> ps \<noteq> [] \<Longrightarrow> member_target dest (join_with ''/'' ps) = dest @ ps"
  using plain_no_dots [of dest] plain_no_dots [of ps]
  by (simp add: member_target_def join_path_def parse_join at_location_def resolve_path_def walk_no_dots)

lemma member_target_slash_free:
  assumes "list_all plain_name dest"
  shows "\<forall>p \<in> set (member_target dest name). CHR ''/'' \<notin> set p"
proof
  fix p
  assume "p \<in> set (member_target dest name)"
  then have "p \<in> set (pt_parts (join_path (at_location dest) name)) \<union> {}"
    using set_walk [of "[]" "pt_parts (join_path (at_location dest) name)"]
    by (auto simp: member_target_def resolve_path_def join_path_def at_location_def Let_def split: if_splits)
  then have "p \<in> set dest \<or> p \<in> set (split_char CHR ''/'' name)"
    by (auto simp: join_path_def at_location_def parse_path_def Let_def split: if_splits)
  moreover have "p \<in> set dest \<Longrightarrow> plain_name p" using assms by (simp add: list_all_iff)
  ultimately show "CHR ''/'' \<notin> set p" using split_char_parts by (metis plain_name_def)
qed

text \<open>
  A restoration that is not refused as a traversal writes only below the upper directory of its target, into
  directories whose name begins with the name of the target.
\<close>

theorem restore_stays_near:
  assumes "list_all plain_name dest" and "dest \<noteq> []" and "\<not> slips dest name"
  shows "length dest \<le> length (member_target dest name)
    \<and> take (length dest - 1) (member_target dest name) = butlast dest
    \<and> startswith (member_target dest name ! (length dest - 1)) (last dest)"
proof (rule join_prefix [OF _ assms(2,1) member_target_slash_free [OF assms(1)]])
  from assms(3) show "startswith (join_with ''/'' (member_target dest name)) (join_with ''/'' dest)"
    by (auto simp: slips_def show_location_def startswith_def)
qed

theorem restore_stays_near_witness:
  "take 1 (member_target [''srv'', ''app''] ''data/../x.json'') = [''srv'']"
proof -
  have "list_all plain_name [''srv'', ''app'']" "\<not> slips [''srv'', ''app''] ''data/../x.json''" by code_simp+
  from restore_stays_near [OF this(1) _ this(2)] show ?thesis by simp
qed

text \<open>
  The check compares strings: an entry that leaves the target for a directory beside it, whose name only begins
  like the target's, is extracted there.
\<close>

theorem restore_reaches_sibling:
  assumes "list_all plain_name (d @ [n])" and "plain_name (n @ x)" and "plain_name f"
  shows "\<not> slips (d @ [n]) (join_with ''/'' [''..'', n @ x, f])
    \<and> member_target (d @ [n]) (join_with ''/'' [''..'', n @ x, f]) = d @ [n @ x, f]"
proof -
  let ?name = "join_with ''/'' [''..'', n @ x, f]"
  have "split_char CHR ''/'' ?name = [''..'', n @ x, f]"
    by (rule split_join) (use assms in \<open>auto simp: plain_name_def\<close>)
  then have "parse_path ?name = \<lparr>pt_absolute = False, pt_parts = [''..'', n @ x, f]\<rparr>"
    using assms by (auto simp: parse_path_def startswith_def plain_name_def)
  moreover have "''..'' \<notin> set d" "n \<noteq> ''..''" "n @ x \<noteq> ''..''" "f \<noteq> ''..''"
    using assms by (auto simp: list_all_iff plain_name_def)
  ultimately have target: "member_target (d @ [n]) ?name = d @ [n @ x, f]"
    by (simp add: member_target_def join_path_def at_location_def resolve_path_def walk_append walk_no_dots)
  have "join_with ''/'' (d @ [n @ x, f]) = join_with ''/'' (d @ [n]) @ x @ ''/'' @ f"
    by (induction d rule: join_with.induct [of _ "''/''"]) auto
  with target show ?thesis by (auto simp: slips_def show_location_def startswith_ex)
qed

theorem restore_reaches_sibling_witness:
  "\<not> slips [''srv'', ''app''] ''../app-secrets/key'' \<and> member_target [''srv'', ''app''] ''../app-secrets/key'' = [''srv'', ''app-secrets'', ''key'']"
proof -
  have "list_all plain_name ([''srv''] @ [''app''])" "plain_name (''app'' @ ''-secrets'')" "plain_name ''key''" by code_simp+
  from restore_reaches_sibling [OF this] show ?thesis by simp
qed


section \<open>Hashes\<close>

text \<open>A manifest whose hashes and sizes are replaced.\<close>

definition with_hashes :: "(string \<Rightarrow> string) \<Rightarrow> (string \<Rightarrow> nat) \<Rightarrow> backup_manifest \<Rightarrow> backup_manifest" where
  "with_hashes h n m =
     m\<lparr>bm_archive_sha := h (bm_id m), bm_files := map (\<lambda>e. e\<lparr>be_size := n (be_path e), be_sha := h (be_path e)\<rparr>) (bm_files m)\<rparr>"

lemma verify_dbs_paths: "map be_path es = map be_path es' \<Longrightarrow> verify_dbs tb dest es fs = verify_dbs tb dest es' fs"
proof (induction es arbitrary: es' fs)
  case (Cons e es)
  then obtain e' es'' where "es' = e' # es''" "be_path e' = be_path e" "map be_path es = map be_path es''" by (cases es') auto
  with Cons.IH [of es''] show ?case by (simp add: Let_def cong: option.case_cong if_cong)
qed simp

lemma verify_dbs_tools: "tb_integrity_ok tb = tb_integrity_ok tb' \<Longrightarrow> verify_dbs tb dest es fs = verify_dbs tb' dest es fs"
  by (induction es arbitrary: fs) (simp_all add: Let_def cong: option.case_cong if_cong)

text \<open>
  A restoration looks at no hash: a manifest with any other hashes and sizes restores the same files and gives the
  same outcome.
\<close>

theorem restore_ignores_hashes:
  "restore_backup (tb\<lparr>tb_sha := sha, tb_loads := map_option (with_hashes h n) \<circ> tb_loads tb\<rparr>) rc archive target force fs
   = map_prod (map_sum id (with_hashes h n)) id (restore_backup tb rc archive target force fs)"
proof -
  have ex: "list_ex (\<lambda>e. exists_at fs (member_target d (be_path e))) (bm_files (with_hashes h n m))
      = list_ex (\<lambda>e. exists_at fs (member_target d (be_path e))) (bm_files m)" for d m
    by (simp add: with_hashes_def list_ex_iff)
  have ver: "verify_dbs (tb\<lparr>tb_sha := sha, tb_loads := map_option (with_hashes h n) \<circ> tb_loads tb\<rparr>) d (bm_files (with_hashes h n m)) fs'
      = verify_dbs tb d (bm_files m) fs'" for d m fs'
    by (subst verify_dbs_tools [of _ tb], simp, rule verify_dbs_paths) (simp add: with_hashes_def)
  show ?thesis
    by (auto simp: restore_backup_def Let_def ex ver split: option.split prod.split)
qed

section \<open>A backup restores\<close>

text \<open>Distinct files whose locations are made of plain names.\<close>

definition files_ok :: "files \<Rightarrow> bool" where
  "files_ok fs = (dict_ok fs \<and> list_all (list_all plain_name) (dkeys fs))"

lemma rel_files_ok:
  assumes "files_ok fs"
  shows "distinct (map fst (rel_files d fs))" "x \<in> set (rel_files d fs) \<Longrightarrow> fst x \<noteq> [] \<and> list_all plain_name (fst x)"
    "dget (rel_files d fs) rel = (if rel = [] then None else dget fs (d @ rel))"
proof -
  let ?L = "map fst (filter (\<lambda>(p, b). length d < length p \<and> take (length d) p = d) fs)"
  have "inj_on (drop (length d)) {p. take (length d) p = d}"
    by (rule inj_onI) (metis (mono_tags) append_take_drop_id mem_Collect_eq)
  then have inj: "inj_on (drop (length d)) (set ?L)" by (rule inj_on_subset) auto
  have L: "distinct ?L" using assms by (simp add: files_ok_def dict_ok_def distinct_map_filter)
  have "distinct (map (drop (length d)) ?L)" by (rule distinct_map [THEN iffD2, OF conjI [OF L inj]])
  moreover have "map fst (rel_files d fs) = map (drop (length d)) ?L" by (simp add: rel_files_def comp_def split_beta)
  ultimately show "distinct (map fst (rel_files d fs))" by simp
  show "fst x \<noteq> [] \<and> list_all plain_name (fst x)" if "x \<in> set (rel_files d fs)"
    using that assms by (fastforce simp: rel_files_def files_ok_def list_all_iff dest: in_set_dropD)
  have "dget (map (\<lambda>(p, b). (drop (length d) p, b)) (filter (\<lambda>(p, b). length d < length p \<and> take (length d) p = d) gs)) rel
      = (if rel = [] then None else dget gs (d @ rel))" for gs :: files
    by (induction gs) (auto simp: append_eq_conv_conj)
  then show "dget (rel_files d fs) rel = (if rel = [] then None else dget fs (d @ rel))" by (simp add: rel_files_def)
qed


definition under_top :: "string \<Rightarrow> (string list \<times> bytes \<Rightarrow> (string list \<times> bytes) option) \<Rightarrow> bool" where
  "under_top dir f = (\<forall>x y. f x = Some y \<longrightarrow> fst y = dir # fst x)"

lemma under_tops: "under_top ''data'' (data_member tb t)" "under_top ''config'' config_member" "under_top ''logs'' log_member"
  by (auto simp: under_top_def data_member_def config_member_def log_member_def Let_def split: if_splits)

lemma in_map_filter: "x \<in> set xs \<Longrightarrow> f x = Some y \<Longrightarrow> y \<in> set (List.map_filter f xs)"
  by (induction xs) (auto split: option.splits)

lemma under_top_filter:
  assumes "under_top dir f"
  shows "y \<in> set (List.map_filter f xs) \<Longrightarrow> \<exists>x \<in> set xs. fst y = dir # fst x"
    "distinct (map fst xs) \<Longrightarrow> distinct (map fst (List.map_filter f xs))"
proof -
  show mem: "\<exists>x \<in> set xs. fst y = dir # fst x" if "y \<in> set (List.map_filter f xs)" for xs y
    using assms that by (force simp: under_top_def List.map_filter_def)
  show "distinct (map fst (List.map_filter f xs))" if "distinct (map fst xs)"
    using that
  proof (induction xs)
    case (Cons x xs)
    show ?case
    proof (cases "f x")
      case (Some y)
      then have "fst y = dir # fst x" using assms unfolding under_top_def by blast
      then have "fst y \<notin> fst ` set (List.map_filter f xs)" using mem [of _ xs] Cons.prems by force
      with Some Cons show ?thesis by (simp add: map_filter_simps)
    qed (use Cons in \<open>simp add: map_filter_simps\<close>)
  qed (simp add: map_filter_simps)
qed

lemma distinct_tops:
  assumes "\<forall>y \<in> set xs. \<exists>r. fst y = a # r" and "\<forall>y \<in> set ys. \<exists>r. fst y = b # r" and "a \<noteq> b"
  shows "fst ` set xs \<inter> fst ` set ys = {}"
  using assms by force

lemma packed_tops:
  "\<forall>y \<in> set (List.map_filter (data_member tb t) xs). \<exists>r. fst y = ''data'' # r"
  "\<forall>y \<in> set (List.map_filter config_member xs). \<exists>r. fst y = ''config'' # r"
  "\<forall>y \<in> set (List.map_filter log_member xs). \<exists>r. fst y = ''logs'' # r"
  using under_top_filter(1) [OF under_tops(1)] under_top_filter(1) [OF under_tops(2)] under_top_filter(1) [OF under_tops(3)]
  by blast+

lemma packed_files_ok:
  assumes "files_ok fs"
  shows "distinct (map fst (packed_files tb rc t c l fs))"
    "y \<in> set (packed_files tb rc t c l fs) \<Longrightarrow> list_all plain_name (fst y) \<and> 2 \<le> length (fst y)"
proof -
  have dirs: "plain_name ''data''" "plain_name ''config''" "plain_name ''logs''" by code_simp+
  have "''data'' \<noteq> ''config''" "''data'' \<noteq> ''logs''" "''config'' \<noteq> ''logs''" by simp_all
  note disjoint = distinct_tops [OF packed_tops(1,2) this(1)] distinct_tops [OF packed_tops(1,3) this(2)]
    distinct_tops [OF packed_tops(2,3) this(3)]
  show "distinct (map fst (packed_files tb rc t c l fs))"
    unfolding packed_files_def map_append distinct_append set_append set_map image_Un
    using disjoint by (simp add: under_top_filter(2) [OF under_tops(1)] under_top_filter(2) [OF under_tops(2)]
        under_top_filter(2) [OF under_tops(3)] rel_files_ok(1) [OF assms] Int_Un_distrib)
  have part: "list_all plain_name (fst y) \<and> 2 \<le> length (fst y)" if "plain_name dir" "\<exists>x \<in> set (rel_files d fs). fst y = dir # fst x" for dir d
    using that rel_files_ok(2) [OF assms] by (fastforce simp: neq_Nil_conv)
  show "list_all plain_name (fst y) \<and> 2 \<le> length (fst y)" if "y \<in> set (packed_files tb rc t c l fs)"
    using that part [OF dirs(1) under_top_filter(1) [OF under_tops(1)]] part [OF dirs(2) under_top_filter(1) [OF under_tops(2)]]
      part [OF dirs(3) under_top_filter(1) [OF under_tops(3)]]
    unfolding packed_files_def by (auto split: if_splits)
qed

lemma fold_dset: "dget (fold (\<lambda>(k, v). dset k v) kvs d) k = (case map_of (rev kvs) k of Some v \<Rightarrow> Some v | None \<Rightarrow> dget d k)"
  by (induction kvs arbitrary: d) (auto simp: map_of_append split: option.splits)

lemma extract_all_plain:
  assumes "list_all plain_name dest" and "\<forall>(ps, b) \<in> set kvs. list_all plain_name ps \<and> ps \<noteq> []"
  shows "extract_all dest (map (\<lambda>(ps, b). (join_with ''/'' ps, b)) kvs) fs = fold (\<lambda>(k, v). dset k v) (map (\<lambda>(ps, b). (dest @ ps, b)) kvs) fs"
  using assms(2)
  by (induction kvs arbitrary: fs) (auto simp: extract_all_def member_target_plain [OF assms(1)])


lemma show_location_prefix: "startswith (show_location (d @ ps)) (show_location d)"
proof -
  have "\<exists>v. join_with ''/'' (d @ ps) = join_with ''/'' d @ v"
    by (induction "''/''" d rule: join_with.induct) (simp, metis append_Cons append_Nil join_cons join_with.simps(2), simp)
  then show ?thesis by (auto simp: show_location_def startswith_ex)
qed

text \<open>What a file of the data directory becomes in an archive.\<close>

definition stored_form :: "toolbox \<Rightarrow> string list \<Rightarrow> bytes \<Rightarrow> bytes" where
  "stored_form tb rel b = (if is_sqlite (last rel) then backup_sqlite_db tb b else b)"

definition transient :: "string \<Rightarrow> bool" where
  "transient name = (\<not> is_sqlite name \<and> (endswith name ''-wal'' \<or> endswith name ''-shm'' \<or> endswith name ''.tmp''))"

lemma data_packed:
  assumes "files_ok fs" and "dget fs (rc_data rc @ rel) = Some b" and "rel \<noteq> []" and "\<not> transient (last rel)"
  shows "(''data'' # rel, stored_form tb rel b) \<in> set (packed_files tb rc True c l fs)"
proof -
  have "(rel, b) \<in> set (rel_files (rc_data rc) fs)"
    using assms(2,3) rel_files_ok(3) [OF assms(1), of "rc_data rc" rel] by (simp add: map_of_SomeD)
  moreover have "data_member tb True (rel, b) = Some (''data'' # rel, stored_form tb rel b)"
    using assms(4) by (auto simp: data_member_def stored_form_def transient_def Let_def)
  ultimately show ?thesis unfolding packed_files_def set_append by (blast intro: in_map_filter)
qed

lemma verify_dbs_good:
  assumes "\<forall>e \<in> set es. \<exists>b. dget fs (member_target dest (be_path e)) = Some b
      \<and> (is_sqlite (last (pt_parts (join_path (at_location dest) (be_path e)))) \<longrightarrow> tb_integrity_ok tb b)"
  shows "verify_dbs tb dest es fs = (None, fs)"
  using assms by (induction es) (auto simp: Let_def)


lemma extracted:
  assumes "distinct (map fst kvs)" and "(ps, b) \<in> set kvs"
  shows "dget (fold (\<lambda>(k, v). dset k v) (map (\<lambda>(ps, b). (dest @ ps, b)) kvs) fs) (dest @ ps) = Some b"
proof -
  have "distinct (map fst (rev (map (\<lambda>(ps, b). (dest @ ps, b)) kvs)))"
    using assms(1) by (simp add: distinct_map comp_def split_beta inj_on_def rev_map [symmetric])
  moreover have "(dest @ ps, b) \<in> set (rev (map (\<lambda>(ps, b). (dest @ ps, b)) kvs))" using assms(2) by force
  ultimately have "map_of (rev (map (\<lambda>(ps, b). (dest @ ps, b)) kvs)) (dest @ ps) = Some b" by (rule map_of_is_SomeI)
  then show ?thesis by (simp add: fold_dset)
qed

lemma slash_in_join: "2 \<le> length ps \<Longrightarrow> CHR ''/'' \<in> set (join_with ''/'' ps)"
  by (cases ps rule: remdups_adj.cases) auto

lemma restore_members:
  assumes dest: "list_all plain_name dest"
    and arch: "dget fs a = Some arch" "tb_unpack tb arch = Some ((''manifest.json'', tb_dumps tb m) # map (\<lambda>(ps, b). (join_with ''/'' ps, b)) kvs)"
    and manifest: "tb_loads tb (tb_dumps tb m) = Some m" "map be_path (bm_files m) = map (\<lambda>(ps, b). join_with ''/'' ps) kvs"
    and kvs: "distinct (map fst kvs)" "\<forall>(ps, b) \<in> set kvs. list_all plain_name ps \<and> 2 \<le> length ps"
    and sound: "\<forall>(ps, b) \<in> set kvs. is_sqlite (last ps) \<longrightarrow> tb_integrity_ok tb b"
  shows "restore_backup tb rc a (Some dest) True fs
    = (Inr m, fold (\<lambda>(k, v). dset k v) (map (\<lambda>(ps, b). (dest @ ps, b)) (([''manifest.json''], tb_dumps tb m) # kvs)) fs)"
proof -
  let ?all = "([''manifest.json''], tb_dumps tb m) # kvs"
  let ?ms = "map (\<lambda>(ps, b). (join_with ''/'' ps, b)) ?all"
  let ?fs = "fold (\<lambda>(k, v). dset k v) (map (\<lambda>(ps, b). (dest @ ps, b)) ?all) fs"
  have "plain_name ''manifest.json''" by code_simp
  with kvs(2) have plain: "\<forall>(ps, b) \<in> set ?all. list_all plain_name ps \<and> ps \<noteq> []" by auto
  have dist: "distinct (map fst ?all)" using kvs by fastforce
  have unp: "tb_unpack tb arch = Some ?ms" using arch(2) by simp
  have find: "find (slips dest) (map fst ?ms) = None"
    using plain by (auto simp: find_None_iff slips_def member_target_plain [OF dest] show_location_prefix simp del: join_with.simps)
  have "''manifest.json'' \<notin> fst ` set (map (\<lambda>(ps, b). (join_with ''/'' ps, b)) kvs)"
  proof
    assume "''manifest.json'' \<in> fst ` set (map (\<lambda>(ps, b). (join_with ''/'' ps, b)) kvs)"
    then obtain ps b where "(ps, b) \<in> set kvs" "join_with ''/'' ps = ''manifest.json''" by force
    with kvs(2) slash_in_join [of ps] show False by auto
  qed
  then have "dget (rev (map (\<lambda>(ps, b). (join_with ''/'' ps, b)) kvs)) ''manifest.json'' = None" by (simp only: map_of_eq_None_iff set_rev not_False_eq_True)
  then have man: "dget (rev ?ms) ''manifest.json'' = Some (tb_dumps tb m)" by (simp add: map_add_def)
  have ext: "extract_all dest ?ms fs = ?fs" by (rule extract_all_plain [OF dest plain])
  have "verify_dbs tb dest (bm_files m) ?fs = (None, ?fs)"
  proof (rule verify_dbs_good, rule ballI)
    fix e assume "e \<in> set (bm_files m)"
    then have "be_path e \<in> set (map (\<lambda>(ps, b). join_with ''/'' ps) kvs)" using manifest(2) by (metis in_set_conv_decomp list.simps(9) map_append)
    then obtain ps b where e: "be_path e = join_with ''/'' ps" "(ps, b) \<in> set kvs" by auto
    then have p: "list_all plain_name ps" "ps \<noteq> []" using plain by auto
    from e(2) have "dget ?fs (dest @ ps) = Some b" by (intro extracted [OF dist]) simp
    with e p sound show "\<exists>b. dget ?fs (member_target dest (be_path e)) = Some b
      \<and> (is_sqlite (last (pt_parts (join_path (at_location dest) (be_path e)))) \<longrightarrow> tb_integrity_ok tb b)"
      by (auto simp: member_target_plain [OF dest] join_path_def parse_join at_location_def simp del: fold_simps list.map)
  qed
  then show ?thesis
    unfolding restore_backup_def Let_def using arch(1) unp find man manifest(1) ext by simp
qed


text \<open>What the parameters must do on one backup: the archive and its manifest can be read again, and its databases are sound.\<close>

definition backup_manifest_made :: "toolbox \<Rightarrow> recovery_dirs \<Rightarrow> string \<Rightarrow> string \<Rightarrow> string \<Rightarrow> bool \<Rightarrow> bool \<Rightarrow> bool \<Rightarrow> files \<Rightarrow> backup_manifest" where
  "backup_manifest_made tb rc now version bid t c l fs = manifest_of tb now version bid (backup_members tb rc t c l fs)"

definition readable :: "toolbox \<Rightarrow> backup_manifest \<Rightarrow> (string list \<times> bytes) list \<Rightarrow> bool" where
  "readable tb m kvs =
     (let ms = (''manifest.json'', tb_dumps tb m) # map (\<lambda>(ps, b). (join_with ''/'' ps, b)) kvs
      in tb_unpack tb (tb_pack tb ms) = Some ms \<and> tb_loads tb (tb_dumps tb m) = Some m
         \<and> list_all (\<lambda>(ps, b). is_sqlite (last ps) \<longrightarrow> tb_integrity_ok tb b) kvs)"

lemma created_archive:
  assumes "list_all plain_name (rc_backups rc)" and "plain_name (bid @ ''.tar.gz'')" and "plain_name (bid @ ''.manifest.json'')" and "bid \<noteq> []"
    and create: "create_backup tb rc now stamp version (Some bid) t c l fs = (a, fs')"
  shows "a = rc_backups rc @ [bid @ ''.tar.gz'']"
    "dget fs' a = Some (tb_pack tb ((''manifest.json'', tb_dumps tb (backup_manifest_made tb rc now version bid t c l fs))
       # map (\<lambda>(ps, b). (join_with ''/'' ps, b)) (packed_files tb rc t c l fs)))"
    "fs' = dset (rc_backups rc @ [bid @ ''.manifest.json'']) (the (dget fs' (rc_backups rc @ [bid @ ''.manifest.json'']))) (dset a (the (dget fs' a)) fs)"
    "sidecar_file rc bid = rc_backups rc @ [bid @ ''.manifest.json'']"
proof -
  have loc: "resolve_path [] (join_path (at_location (rc_backups rc)) s) = rc_backups rc @ [s]" if "plain_name s" for s
    using that plain_no_dots [OF assms(1)] plain_no_dots [of "[s]"]
    by (simp add: join_plain at_location_def resolve_path_def walk_no_dots)
  have ne: "bid @ ''.manifest.json'' \<noteq> bid @ ''.tar.gz''" by simp
  show "a = rc_backups rc @ [bid @ ''.tar.gz'']"
    "dget fs' a = Some (tb_pack tb ((''manifest.json'', tb_dumps tb (backup_manifest_made tb rc now version bid t c l fs))
       # map (\<lambda>(ps, b). (join_with ''/'' ps, b)) (packed_files tb rc t c l fs)))"
    "fs' = dset (rc_backups rc @ [bid @ ''.manifest.json'']) (the (dget fs' (rc_backups rc @ [bid @ ''.manifest.json'']))) (dset a (the (dget fs' a)) fs)"
    "sidecar_file rc bid = rc_backups rc @ [bid @ ''.manifest.json'']"
    using create loc [OF assms(2)] loc [OF assms(3)] assms(4) ne
    by (auto simp: create_backup_def Let_def archive_file_def sidecar_file_def backup_members_def backup_manifest_made_def)
qed

lemma backup_restored:
  assumes "files_ok fs" and "list_all plain_name dest" and "list_all plain_name (rc_backups rc)"
    and "plain_name (bid @ ''.tar.gz'')" and "plain_name (bid @ ''.manifest.json'')" and "bid \<noteq> []"
    and "readable tb (backup_manifest_made tb rc now version bid t c l fs) (packed_files tb rc t c l fs)"
    and create: "create_backup tb rc now stamp version (Some bid) t c l fs = (a, fs')"
  defines "m \<equiv> backup_manifest_made tb rc now version bid t c l fs"
  defines "kvs \<equiv> ([''manifest.json''], tb_dumps tb m) # packed_files tb rc t c l fs"
  shows "restore_backup tb rc a (Some dest) True fs' = (Inr m, fold (\<lambda>(k, v). dset k v) (map (\<lambda>(ps, b). (dest @ ps, b)) kvs) fs')"
    "distinct (map fst kvs)" "map be_path (bm_files m) = map (\<lambda>(ps, b). join_with ''/'' ps) (tl kvs)"
    "\<forall>(ps, b) \<in> set (tl kvs). list_all plain_name ps \<and> 2 \<le> length ps \<and> (is_sqlite (last ps) \<longrightarrow> tb_integrity_ok tb b)"
proof -
  let ?kvs = "packed_files tb rc t c l fs"
  note made = created_archive [OF assms(3-6) create]
  have kvs: "distinct (map fst ?kvs)" "\<forall>(ps, b) \<in> set ?kvs. list_all plain_name ps \<and> 2 \<le> length ps"
    using packed_files_ok [OF assms(1)] by fastforce+
  have paths: "map be_path (bm_files m) = map (\<lambda>(ps, b). join_with ''/'' ps) ?kvs"
    by (simp add: m_def backup_manifest_made_def manifest_of_def backup_members_def comp_def split_beta)
  have sound: "\<forall>(ps, b) \<in> set ?kvs. is_sqlite (last ps) \<longrightarrow> tb_integrity_ok tb b"
    using assms(7) by (auto simp: readable_def Let_def list_all_iff)
  show "restore_backup tb rc a (Some dest) True fs' = (Inr m, fold (\<lambda>(k, v). dset k v) (map (\<lambda>(ps, b). (dest @ ps, b)) kvs) fs')"
    unfolding kvs_def
    by (rule restore_members [OF assms(2) made(2) [folded m_def] _ _ paths kvs sound])
      (use assms(7) in \<open>auto simp: readable_def Let_def m_def\<close>)
  show "distinct (map fst kvs)" using kvs unfolding kvs_def by fastforce
  show "map be_path (bm_files m) = map (\<lambda>(ps, b). join_with ''/'' ps) (tl kvs)" using paths by (simp add: kvs_def)
  show "\<forall>(ps, b) \<in> set (tl kvs). list_all plain_name ps \<and> 2 \<le> length ps \<and> (is_sqlite (last ps) \<longrightarrow> tb_integrity_ok tb b)"
    using kvs(2) sound unfolding kvs_def by auto
qed

text \<open>
  A backup restores: into any directory of plain names every file of the data directory that is not transient
  comes back with the bytes it had, a database with those of its online copy, and the manifest is the one written.
\<close>

theorem backup_restores:
  assumes "files_ok fs" and "list_all plain_name dest" and "list_all plain_name (rc_backups rc)"
    and "plain_name (bid @ ''.tar.gz'')" and "plain_name (bid @ ''.manifest.json'')" and "bid \<noteq> []"
    and "readable tb (backup_manifest_made tb rc now version bid True c l fs) (packed_files tb rc True c l fs)"
    and "dget fs (rc_data rc @ rel) = Some b" and "rel \<noteq> []" and "\<not> transient (last rel)"
  shows "case create_backup tb rc now stamp version (Some bid) True c l fs of (a, fs') \<Rightarrow>
     fst (restore_backup tb rc a (Some dest) True fs') = Inr (backup_manifest_made tb rc now version bid True c l fs)
     \<and> dget (snd (restore_backup tb rc a (Some dest) True fs')) (dest @ ''data'' # rel) = Some (stored_form tb rel b)"
proof -
  obtain a fs' where create: "create_backup tb rc now stamp version (Some bid) True c l fs = (a, fs')" by fastforce
  note restored = backup_restored [OF assms(1-7) create]
  have "dget (snd (restore_backup tb rc a (Some dest) True fs')) (dest @ ''data'' # rel) = Some (stored_form tb rel b)"
    unfolding restored(1) snd_conv by (rule extracted [OF restored(2)]) (simp add: data_packed [OF assms(1,8-10)])
  with restored(1) create show ?thesis by simp
qed

definition toy_toolbox :: toolbox where
  "toy_toolbox =
     (let ms = [(''manifest.json'', ''{}''), (''data/a.db'', ''rows''), (''data/s.json'', ''state'')];
          m = \<lparr>bm_id = ''b1'', bm_created = ''now'', bm_version = ''1'', bm_total_files = 2, bm_total_size = 9, bm_archive_sha = '''',
                bm_files = [\<lparr>be_path = ''data/a.db'', be_size = 4, be_sha = ''h''\<rparr>, \<lparr>be_path = ''data/s.json'', be_size = 5, be_sha = ''h''\<rparr>]\<rparr>
      in \<lparr>tb_sha = (\<lambda>b. ''h''), tb_pack = (\<lambda>x. ''tar''), tb_unpack = (\<lambda>b. if b = ''tar'' then Some ms else None),
         tb_dumps = (\<lambda>x. ''{}''), tb_loads = (\<lambda>b. if b = ''{}'' then Some m else None), tb_online_copy = Some, tb_integrity_ok = (\<lambda>b. b = ''rows''),
         tb_tables = (\<lambda>b. [])\<rparr>)"

definition toy_recovery :: recovery_dirs where
  "toy_recovery = \<lparr>rc_data = [''app'', ''data''], rc_backups = [''app'', ''backups''], rc_config = [''app'', ''config''], rc_logs = [''app'', ''logs'']\<rparr>"

definition toy_files :: files where
  "toy_files = [([''app'', ''data'', ''a.db''], ''rows''), ([''app'', ''data'', ''s.json''], ''state''), ([''app'', ''data'', ''a.db-wal''], ''wal'')]"

theorem backup_restores_witness:
  "case create_backup toy_toolbox toy_recovery ''now'' ''t'' ''1'' (Some ''b1'') True True True toy_files of (a, fs') \<Rightarrow>
     dget (snd (restore_backup toy_toolbox toy_recovery a (Some [''new'']) True fs')) [''new'', ''data'', ''a.db''] = Some ''rows''"
proof -
  have "files_ok toy_files" "list_all plain_name [''new'']" "list_all plain_name (rc_backups toy_recovery)"
    "plain_name (''b1'' @ ''.tar.gz'')" "plain_name (''b1'' @ ''.manifest.json'')" "''b1'' \<noteq> []"
    "readable toy_toolbox (backup_manifest_made toy_toolbox toy_recovery ''now'' ''1'' ''b1'' True True True toy_files)
       (packed_files toy_toolbox toy_recovery True True True toy_files)"
    "dget toy_files (rc_data toy_recovery @ [''a.db'']) = Some ''rows''" "[''a.db''] \<noteq> []" "\<not> transient (last [''a.db''])"
    by code_simp+
  note restored = backup_restores [OF this, of "''t''"]
  have "stored_form toy_toolbox [''a.db''] ''rows'' = ''rows''" by code_simp
  with restored show ?thesis by (auto split: prod.splits)
qed

text \<open>Without a target a restoration goes beside the data directory, into \<open>data\<close> whatever that directory is called.\<close>

lemma default_restore_location:
  assumes "list_all plain_name (d @ [n])" and "list_all plain_name rel" and "rel \<noteq> []"
  shows "member_target (butlast (d @ [n])) (join_with ''/'' (''data'' # rel)) = d @ ''data'' # rel"
proof -
  have "plain_name ''data''" by code_simp
  with assms have "list_all plain_name (''data'' # rel)" by simp
  from member_target_plain [OF _ this, of d] assms(1) show ?thesis by simp
qed

section \<open>The drill leaves no trace\<close>

lemma filter_dset: "\<not> Q k \<Longrightarrow> filter (\<lambda>(p, b). Q p) (dset k v d) = filter (\<lambda>(p, b). Q p) d"
  by (induction d) auto

lemma cleaned: "remove_tree tmp (dpop s (dpop a d)) = filter (\<lambda>(p, b). \<not> (p = a \<or> p = s \<or> take (length tmp) p = tmp)) d"
  by (induction d) (auto simp: remove_tree_def)

lemma filter_dsets:
  "\<not> Q k \<Longrightarrow> \<not> Q j \<Longrightarrow> filter (\<lambda>(p, b). Q p) (dset k v (dset j w d)) = filter (\<lambda>(p, b). Q p) d"
  by (simp add: filter_dset)

lemma filter_fold_dset: "\<forall>(k, v) \<in> set kvs. \<not> Q k \<Longrightarrow> filter (\<lambda>(p, b). Q p) (fold (\<lambda>(k, v). dset k v) kvs d) = filter (\<lambda>(p, b). Q p) d"
  by (induction kvs arbitrary: d) (auto simp: filter_dset)

lemma count_dbs_good:
  assumes "\<forall>e \<in> set es. is_sqlite (last (pt_parts (join_path (at_location dest) (be_path e)))) \<longrightarrow> tb_integrity_ok tb (dgetd fs (member_target dest (be_path e)) [])"
  shows "snd (snd (count_dbs tb dest es fs (dbs, recs, None))) = None"
  using assms by (induction es arbitrary: dbs recs) (auto simp: Let_def)

lemma count_dbs_restored:
  assumes "list_all plain_name dest" and "distinct (map fst kvs)" and "map be_path es = map (\<lambda>(ps, b). join_with ''/'' ps) (tl kvs)"
    and "\<forall>(ps, b) \<in> set (tl kvs). list_all plain_name ps \<and> 2 \<le> length ps \<and> (is_sqlite (last ps) \<longrightarrow> tb_integrity_ok tb b)"
  shows "snd (snd (count_dbs tb dest es (fold (\<lambda>(k, v). dset k v) (map (\<lambda>(ps, b). (dest @ ps, b)) kvs) fs) (dbs, recs, None))) = None"
proof (rule count_dbs_good, intro ballI impI)
  fix e assume "e \<in> set es" and lite: "is_sqlite (last (pt_parts (join_path (at_location dest) (be_path e))))"
  then have "be_path e \<in> set (map (\<lambda>(ps, b). join_with ''/'' ps) (tl kvs))" using assms(3) by (metis in_set_conv_decomp list.simps(9) map_append)
  then obtain ps b where e: "be_path e = join_with ''/'' ps" "(ps, b) \<in> set (tl kvs)" by auto
  then have ps: "list_all plain_name ps" "ps \<noteq> []" "is_sqlite (last ps) \<longrightarrow> tb_integrity_ok tb b" using assms(4) by auto
  have "(ps, b) \<in> set kvs" using e(2) by (cases kvs) auto
  from extracted [OF assms(2) this, of dest fs] lite e(1) ps
  show "tb_integrity_ok tb (dgetd (fold (\<lambda>(k, v). dset k v) (map (\<lambda>(ps, b). (dest @ ps, b)) kvs) fs) (member_target dest (be_path e)) [])"
    by (simp add: member_target_plain [OF assms(1)] join_path_def parse_join at_location_def dgetd_def)
qed

text \<open>
  C5. A drill on readable backups succeeds and leaves the files as they were: its archive, the side file and the
  restored copy are gone again.
\<close>

theorem drill_succeeds_clean:
  assumes "files_ok fs" and "list_all plain_name (tmp @ rc_backups rc)"
    and "plain_name (drill_name stamp @ ''.tar.gz'')" and "plain_name (drill_name stamp @ ''.manifest.json'')"
    and "readable tb (backup_manifest_made tb rc now version (drill_name stamp) True True True fs) (packed_files tb rc True True True fs)"
    and "\<not> exists_at fs tmp" and "dget fs (rc_backups rc @ [drill_name stamp @ ''.tar.gz'']) = None"
    and "dget fs (rc_backups rc @ [drill_name stamp @ ''.manifest.json'']) = None"
  shows "dr_success (fst (run_dr_drill tb rc now stamp version tmp fs)) \<and> snd (run_dr_drill tb rc now stamp version tmp fs) = fs"
proof -
  let ?dest = "tmp @ [''restored'']" and ?bid = "drill_name stamp"
  let ?m = "backup_manifest_made tb rc now version ?bid True True True fs"
  let ?kvs = "([''manifest.json''], tb_dumps tb ?m) # packed_files tb rc True True True fs"
  let ?gone = "\<lambda>p. p = rc_backups rc @ [?bid @ ''.tar.gz''] \<or> p = rc_backups rc @ [?bid @ ''.manifest.json''] \<or> take (length tmp) p = tmp"
  obtain a fs' where create: "create_backup tb rc now stamp version (Some ?bid) True True True fs = (a, fs')" by fastforce
  have plain: "list_all plain_name ?dest" "list_all plain_name (rc_backups rc)" "?bid \<noteq> []"
    using assms(2) by (auto simp: plain_name_def drill_name_def)
  note restored = backup_restored [OF assms(1) plain(1,2) assms(3,4) plain(3) assms(5) create]
  note made = created_archive [OF plain(2) assms(3,4) plain(3) create]
  let ?final = "fold (\<lambda>(k, v). dset k v) (map (\<lambda>(ps, b). (?dest @ ps, b)) ?kvs) fs'"
  have counted: "snd (snd (count_dbs tb ?dest (bm_files ?m) ?final (0, 0, None))) = None"
    by (rule count_dbs_restored [OF plain(1) restored(2,3)]) (use restored(4) in auto)
  have "filter (\<lambda>(p, b). \<not> ?gone p) ?final = filter (\<lambda>(p, b). \<not> ?gone p) fs'"
    by (rule filter_fold_dset) auto
  also have "\<dots> = filter (\<lambda>(p, b). \<not> ?gone p) fs"
    by (subst made(3), rule filter_dsets) (simp_all add: made(1))
  also have "\<dots> = fs"
    using assms(6-8) by (force simp: filter_id_conv exists_at_def list_ex_iff map_of_eq_None_iff)
  finally have "remove_tree tmp (dpop (rc_backups rc @ [?bid @ ''.manifest.json'']) (dpop a ?final)) = fs"
    by (simp only: cleaned made(1))
  with create restored(1) counted made(4) show ?thesis
    by (auto simp: run_dr_drill_def Let_def drill_name_def split: prod.splits)
qed

end
