(* ===== verification/Slo_Monitor.thy ===== *)
theory Slo_Monitor
  imports Audit_Chain
begin

text \<open>
  \<open>observability/alerts.py\<close>: the service level monitor with its sliding windows, and the health check of audit logs,
  which is a third reader of the chained logs of \<open>Audit_Chain\<close>.
\<close>

section \<open>Service levels\<close>

datatype slo_rule = AvailabilityBreach | LatencyBreach

record slo_alert =
  sa_rule :: slo_rule
  sa_critical :: bool
  sa_value :: rat
  sa_threshold :: rat
  sa_window :: nat
  sa_failed :: nat

record slo_monitor =
  sm_window :: nat
  sm_availability :: rat
  sm_p95_target :: rat
  sm_requests :: "bool list"
  sm_latencies :: "rat list"
  sm_alerts :: "slo_alert list"

definition new_monitor :: "nat \<Rightarrow> rat \<Rightarrow> rat \<Rightarrow> slo_monitor" where
  "new_monitor n a p = \<lparr>sm_window = n, sm_availability = a, sm_p95_target = p, sm_requests = [], sm_latencies = [], sm_alerts = []\<rparr>"

definition record_slo_request :: "bool \<Rightarrow> rat \<Rightarrow> slo_monitor \<Rightarrow> slo_monitor" where
  "record_slo_request success latency m =
     m\<lparr>sm_requests := deque_push (sm_window m) success (sm_requests m), sm_latencies := deque_push (sm_window m) latency (sm_latencies m)\<rparr>"

definition total_recorded :: "slo_monitor \<Rightarrow> nat" where "total_recorded m = length (sm_requests m)"

definition current_availability :: "slo_monitor \<Rightarrow> rat" where
  "current_availability m =
     (if sm_requests m = [] then 1 else of_nat (length (filter id (sm_requests m))) / of_nat (length (sm_requests m)))"

definition p95_latency :: "slo_monitor \<Rightarrow> rat" where
  "p95_latency m =
     (if sm_latencies m = [] then 0
      else let s = sort (sm_latencies m); idx = nat (py_int (95 / 100 * of_nat (length s))) in s ! min idx (length s - 1))"

definition error_budget_remaining :: "slo_monitor \<Rightarrow> rat" where
  "error_budget_remaining m =
     (let allowed = 1 - sm_availability m
      in if allowed \<le> 0 then 0 else max 0 (1 - (1 - current_availability m) / allowed))"

definition availability_alert :: "slo_monitor \<Rightarrow> slo_alert list" where
  "availability_alert m =
     (let avail = current_availability m
      in if avail < sm_availability m
         then [\<lparr>sa_rule = AvailabilityBreach, sa_critical = (avail < sm_availability m - 5 / 100), sa_value = py_round 4 avail,
                sa_threshold = sm_availability m, sa_window = length (sm_requests m), sa_failed = length (filter Not (sm_requests m))\<rparr>]
         else [])"

definition latency_alert :: "slo_monitor \<Rightarrow> slo_alert list" where
  "latency_alert m =
     (let p = p95_latency m
      in if p > sm_p95_target m
         then [\<lparr>sa_rule = LatencyBreach, sa_critical = False, sa_value = py_round 2 p, sa_threshold = sm_p95_target m,
                sa_window = length (sm_latencies m), sa_failed = 0\<rparr>] else [])"

definition evaluate_rules :: "slo_monitor \<Rightarrow> slo_alert list \<times> slo_monitor" where
  "evaluate_rules m =
     (if length (sm_requests m) < 10 then ([], m)
      else let new = availability_alert m @ latency_alert m in (new, m\<lparr>sm_alerts := sm_alerts m @ new\<rparr>))"

section \<open>Health of audit logs\<close>

record health_report =
  ah_healthy :: bool
  ah_events :: nat
  ah_broken_at :: "nat option"

definition entry_hash :: "hash_env \<Rightarrow> (string, json) pydict \<Rightarrow> string" where
  "entry_hash env e = he_sha256 env (he_dumps env (JObj (filter (\<lambda>(k, v). k \<noteq> ''hash'') e)))"

text \<open>The loop over the lines, from line \<open>i\<close>, with \<open>n\<close> events read and \<open>p\<close> the hash the next must name.\<close>

fun health_lines :: "hash_env \<Rightarrow> nat \<Rightarrow> nat \<Rightarrow> string \<Rightarrow> log_line list \<Rightarrow> health_report" where
  "health_lines env i n p [] = \<lparr>ah_healthy = True, ah_events = n, ah_broken_at = None\<rparr>"
| "health_lines env i n p (Blank # ls) = health_lines env (i + 1) n p ls"
| "health_lines env i n p (Malformed # ls) = \<lparr>ah_healthy = False, ah_events = n, ah_broken_at = None\<rparr>"
| "health_lines env i n p (NonObject # ls) = \<lparr>ah_healthy = False, ah_events = n + 1, ah_broken_at = None\<rparr>"
| "health_lines env i n p (Fields e # ls) =
     (if dget e ''previous_hash'' \<noteq> Some (JStr p) then \<lparr>ah_healthy = False, ah_events = n + 1, ah_broken_at = Some i\<rparr>
      else if dget e ''hash'' \<noteq> Some (JStr (entry_hash env e)) then \<lparr>ah_healthy = False, ah_events = n + 1, ah_broken_at = Some i\<rparr>
      else health_lines env (i + 1) (n + 1) (entry_hash env e) ls)"

definition verify_log_file :: "hash_env \<Rightarrow> log_line list option \<Rightarrow> health_report" where
  "verify_log_file env f =
     (case f of None \<Rightarrow> \<lparr>ah_healthy = False, ah_events = 0, ah_broken_at = None\<rparr> | Some ls \<Rightarrow> health_lines env 0 0 ''GENESIS'' ls)"

section \<open>Properties\<close>

definition record_all :: "(bool \<times> rat) list \<Rightarrow> slo_monitor \<Rightarrow> slo_monitor" where
  "record_all rs m = fold (\<lambda>(s, l). record_slo_request s l) rs m"

text \<open>The windows hold the last requests.\<close>

lemma push_window: "deque_push n x (drop (length xs - n) xs) = drop (length (xs @ [x]) - n) (xs @ [x])"
proof -
  have "Suc (length xs - (length xs - n)) - n + (length xs - n) = Suc (length xs) - n" by arith
  then show ?thesis by (cases "length xs \<le> n") (simp_all add: deque_push_def)
qed

lemma record_all_windows:
  "record_all rs (new_monitor n a p) = (new_monitor n a p)\<lparr>sm_requests := drop (length rs - n) (map fst rs), sm_latencies := drop (length rs - n) (map snd rs)\<rparr>"
proof (induction rs rule: rev_induct)
  case Nil
  then show ?case by (simp add: record_all_def new_monitor_def)
next
  case (snoc r rs)
  then show ?case
    using push_window [of n "fst r" "map fst rs"] push_window [of n "snd r" "map snd rs"]
    by (simp add: record_all_def record_slo_request_def new_monitor_def split_beta)
qed


lemma filter_count: "length (filter id bs) + length (filter Not bs) = length bs"
  by (induction bs) auto

lemma availability_breach_iff:
  "current_availability m < sm_availability m \<longleftrightarrow>
     (if sm_requests m = [] then 1 < sm_availability m
      else of_nat (length (filter Not (sm_requests m))) > (1 - sm_availability m) * of_nat (length (sm_requests m)))"
proof (cases "sm_requests m = []")
  case False
  let ?n = "of_nat (length (sm_requests m)) :: rat" and ?g = "of_nat (length (filter id (sm_requests m))) :: rat"
  have "?g + of_nat (length (filter Not (sm_requests m))) = ?n" by (metis filter_count of_nat_add)
  moreover have "?g / ?n < sm_availability m \<longleftrightarrow> ?g < sm_availability m * ?n" using False by (simp add: pos_divide_less_eq)
  ultimately show ?thesis using False by (auto simp: current_availability_def algebra_simps)
qed (simp add: current_availability_def)

text \<open>
  After any requests the monitor raises the availability alert exactly when its window holds at least ten of them
  and more than the allowed share of the last ones failed, and reports how many.
\<close>

theorem availability_alert_exact:
  "let m = record_all rs (new_monitor n a p); window = drop (length rs - n) (map fst rs); failed = length (filter Not window)
   in map (\<lambda>x. (sa_window x, sa_failed x)) (filter (\<lambda>x. sa_rule x = AvailabilityBreach) (fst (evaluate_rules m)))
      = (if 10 \<le> length window \<and> of_nat failed > (1 - a) * of_nat (length window) then [(length window, failed)] else [])"
proof -
  let ?m = "record_all rs (new_monitor n a p)" and ?w = "drop (length rs - n) (map fst rs)"
  have m: "sm_requests ?m = ?w" "sm_availability ?m = a" unfolding record_all_windows by (simp_all add: new_monitor_def)
  have lat: "filter (\<lambda>x. sa_rule x = AvailabilityBreach) (latency_alert ?m) = []" by (simp add: latency_alert_def Let_def)
  show ?thesis
  proof (cases "length ?w < 10")
    case False
    then have "?w \<noteq> []" by auto
    then show ?thesis
      using False lat availability_breach_iff [of ?m, unfolded m]
      by (simp add: evaluate_rules_def Let_def m availability_alert_def del: drop_eq_Nil)
  qed (simp add: evaluate_rules_def Let_def m)
qed

lemma sorted_nth_count:
  assumes "sorted s" and "i < length s"
  shows "i < length (filter (\<lambda>x. x \<le> s ! i) s)"
proof -
  have "filter (\<lambda>x. x \<le> s ! i) (take (Suc i) s) = take (Suc i) s"
    using assms by (auto simp: filter_id_conv in_set_conv_nth less_Suc_eq_le sorted_iff_nth_mono)
  then have "filter (\<lambda>x. x \<le> s ! i) s = take (Suc i) s @ filter (\<lambda>x. x \<le> s ! i) (drop (Suc i) s)"
    by (metis append_take_drop_id filter_append)
  then show ?thesis using assms(2) by simp
qed

lemma filter_sort: "length (filter P (sort xs)) = length (filter P xs)"
  by (metis mset_filter mset_sort size_mset)

text \<open>
  The 95th percentile is one of the latencies of the window, and more than 95 of a hundred of them are no larger.
\<close>

theorem p95_bounds_latencies:
  "if sm_latencies m = [] then p95_latency m = 0
   else p95_latency m \<in> set (sm_latencies m)
     \<and> 95 / 100 * of_nat (length (sm_latencies m)) < (of_nat (length (filter (\<lambda>l. l \<le> p95_latency m) (sm_latencies m))) :: rat)"
proof (cases "sm_latencies m = []")
  case False
  let ?s = "sort (sm_latencies m)"
  define n where "n = length ?s"
  define idx where "idx = nat (py_int (95 / 100 * of_nat n))"
  have n: "0 < n" "n = length (sm_latencies m)" using False by (simp_all add: n_def)
  have idx_fl: "idx = nat \<lfloor>95 / 100 * (of_nat n :: rat)\<rfloor>" by (simp add: idx_def py_int_def)
  have "95 / 100 * (of_nat n :: rat) < of_nat n" using n(1) by simp
  then have "\<lfloor>95 / 100 * (of_nat n :: rat)\<rfloor> < int n" by (simp add: floor_less_iff)
  then have lt: "idx < n" using n(1) by (simp add: idx_fl)
  have "95 / 100 * (of_nat n :: rat) < of_int (\<lfloor>95 / 100 * (of_nat n :: rat)\<rfloor> + 1)" by linarith
  also have "of_int (\<lfloor>95 / 100 * (of_nat n :: rat)\<rfloor> + 1) = (of_nat (Suc idx) :: rat)" by (simp add: idx_fl)
  also have "\<dots> \<le> of_nat (length (filter (\<lambda>l. l \<le> ?s ! idx) ?s))"
    using sorted_nth_count [of ?s idx] lt by (simp add: n_def Suc_le_eq del: of_nat_Suc)
  finally have "95 / 100 * (of_nat n :: rat) < of_nat (length (filter (\<lambda>l. l \<le> ?s ! idx) (sm_latencies m)))"
    by (simp only: filter_sort)
  moreover have "p95_latency m = ?s ! idx"
    using False lt n(2) by (simp add: p95_latency_def Let_def idx_def n_def min_def)
  moreover have "?s ! idx \<in> set (sm_latencies m)" using lt by (metis n_def nth_mem set_sort)
  ultimately show ?thesis using False n(2) by simp
qed (simp add: p95_latency_def)

lemma health_of_zero_start:
  assumes "list_all well_formed_line ls" and "entries ls = e # es" and "dget e ''previous_hash'' = Some (JStr zero_hash)"
  shows "health_lines env i n ''GENESIS'' ls = \<lparr>ah_healthy = False, ah_events = n + 1, ah_broken_at = Some (i + length (takeWhile (\<lambda>l. l = Blank) ls))\<rparr>"
  using assms(1,2)
proof (induction ls arbitrary: i)
  case (Cons l ls)
  have "zero_hash \<noteq> ''GENESIS''" by code_simp
  with Cons assms(3) show ?case by (cases l) (auto simp: well_formed_line_def)
qed simp

lemma gov_starts_at_zero: "gov_accepts env 0 p e \<noteq> None \<Longrightarrow> dget e ''previous_hash'' = Some (JStr p)"
  by (auto simp: gov_accepts_def split: if_splits)

lemma sec_starts_at_zero: "sec_accepts env 0 p e \<noteq> None \<Longrightarrow> dget e ''previous_hash'' = Some (JStr p)"
  by (auto simp: sec_accepts_def split: if_splits)

text \<open>
  The health check and the writers of the logs disagree about the first hash: every log that the verifier of the
  governance log or of the security log accepts is reported as broken at its first event.
\<close>

theorem health_check_rejects_verified_logs:
  assumes "verify_lines env 0 zero_hash ls = Some True \<or> sec_verify_integrity env ls"
  shows "ah_healthy (verify_log_file env (Some ls)) = (entries ls = [])
    \<and> (if entries ls = [] then True else ah_broken_at (verify_log_file env (Some ls)) = Some (length (takeWhile (\<lambda>l. l = Blank) ls)))"
proof -
  have wf: "list_all well_formed_line ls"
    using assms verify_lines_iff sec_verify_lines_iff by (auto simp: sec_verify_integrity_def)
  show ?thesis
  proof (cases "entries ls")
    case Nil
    then have "health_lines env i n p ls = \<lparr>ah_healthy = True, ah_events = n, ah_broken_at = None\<rparr>" for i n p
      using wf by (induction ls arbitrary: i rule: entries.induct) (auto simp: well_formed_line_def elim: log_line.exhaust)
    with Nil show ?thesis by (simp add: verify_log_file_def)
  next
    case (Cons e es)
    with assms have "gov_accepts env 0 zero_hash e \<noteq> None \<or> sec_accepts env 0 zero_hash e \<noteq> None"
      by (auto simp: verify_lines_iff sec_verify_lines_iff sec_verify_integrity_def split: option.splits)
    then have "dget e ''previous_hash'' = Some (JStr zero_hash)" using gov_starts_at_zero sec_starts_at_zero by blast
    from health_of_zero_start [OF wf Cons this, of env 0 0] Cons show ?thesis by (simp add: verify_log_file_def)
  qed
qed


theorem health_check_rejects_verified_logs_witness:
  "\<not> ah_healthy (verify_log_file toy_env (Some (dgetd (fold (audit_step toy_env read_record) sample_calls []) ''d'' [])))"
proof -
  let ?ls = "dgetd (fold (audit_step toy_env read_record) sample_calls []) ''d'' []"
  have "verify_lines toy_env 0 zero_hash ?ls = Some True" "entries ?ls \<noteq> []" by code_simp+
  with health_check_rejects_verified_logs [of toy_env ?ls] show ?thesis by simp
qed

end
