(* ===== verification/Tracing.thy ===== *)
theory Tracing
  imports Amber_Prelude
begin

text \<open>
  \<open>observability/tracing.py\<close>: W3C trace contexts and their headers, spans, and the tracer, whose current span lives in a
  context variable. Random tokens, the clock and the bodies of spans are arguments.
\<close>

section \<open>Trace contexts\<close>

record trace_context =
  tc_trace :: string
  tc_span :: string
  tc_parent :: "string option"
  tc_sampled :: bool
  tc_correlation :: string

definition or_text :: "string option \<Rightarrow> string \<Rightarrow> string" where
  "or_text x y = (case x of None \<Rightarrow> y | Some s \<Rightarrow> if s = [] then y else s)"

text \<open>The constructor: \<open>t32\<close> and \<open>t16\<close> are the tokens it draws when it is given none.\<close>

definition new_context :: "string \<Rightarrow> string \<Rightarrow> string option \<Rightarrow> string option \<Rightarrow> string option \<Rightarrow> bool \<Rightarrow> string option \<Rightarrow> trace_context" where
  "new_context t32 t16 trace sid parent sampled correlation =
     (let t = or_text trace t32
      in \<lparr>tc_trace = t, tc_span = or_text sid t16, tc_parent = parent, tc_sampled = sampled, tc_correlation = or_text correlation t\<rparr>)"

definition to_traceparent :: "trace_context \<Rightarrow> string" where
  "to_traceparent c = ''00-'' @ tc_trace c @ ''-'' @ tc_span c @ ''-'' @ (if tc_sampled c then ''01'' else ''00'')"

definition hex_digit :: "char \<Rightarrow> bool" where
  "hex_digit c = (c \<in> set ''0123456789abcdef'')"

text \<open>
  The groups of \<open>_TRACEPARENT_REGEX\<close> in a stripped header: every group has a fixed width, so they are the pieces at
  fixed places.
\<close>

definition traceparent_groups :: "string \<Rightarrow> (string \<times> string \<times> string) option" where
  "traceparent_groups s =
     (let trace = take 32 (drop 3 s); sid = take 16 (drop 36 s); flags = drop 53 s
      in if length s = 55 \<and> take 3 s = ''00-'' \<and> s ! 35 = CHR ''-'' \<and> s ! 52 = CHR ''-''
            \<and> list_all hex_digit trace \<and> list_all hex_digit sid \<and> list_all hex_digit flags
         then Some (trace, sid, flags) else None)"

definition from_traceparent :: "string \<Rightarrow> string \<Rightarrow> string \<Rightarrow> string option \<Rightarrow> trace_context option" where
  "from_traceparent t32 t16 header correlation =
     (case traceparent_groups (lower (strip header)) of
        None \<Rightarrow> None
      | Some (trace, parent, flags) \<Rightarrow>
          if trace = replicate 32 CHR ''0'' \<or> parent = replicate 16 CHR ''0'' then None
          else Some (new_context t32 t16 (Some trace) (Some t16) (Some parent) (flags = ''01'') (Some (or_text correlation trace))))"

definition trace_inject :: "trace_context \<Rightarrow> (string, string) pydict \<Rightarrow> (string, string) pydict" where
  "trace_inject c headers =
     dset ''X-Trace-ID'' (tc_trace c) (dset ''X-Correlation-ID'' (tc_correlation c) (dset ''traceparent'' (to_traceparent c) headers))"

definition lower_keys :: "(string, string) pydict \<Rightarrow> (string, string) pydict" where
  "lower_keys headers = fold (\<lambda>(k, v). dset (lower k) v) headers []"

definition trace_extract :: "string \<Rightarrow> string \<Rightarrow> (string, string) pydict \<Rightarrow> trace_context" where
  "trace_extract t32 t16 headers =
     (let norm = lower_keys headers;
          corr = (case dget norm ''x-correlation-id'' of Some s \<Rightarrow> if s = [] then dget norm ''x-request-id'' else Some s
                  | None \<Rightarrow> dget norm ''x-request-id'')
      in case dget norm ''traceparent'' of
           None \<Rightarrow> new_context t32 t16 None None None True corr
         | Some h \<Rightarrow> (if h = [] then new_context t32 t16 None None None True corr
             else case from_traceparent t32 t16 h corr of Some c \<Rightarrow> c | None \<Rightarrow> new_context t32 t16 None None None True corr))"

section \<open>Spans\<close>

datatype span_kind = InternalSpan | ServerSpan | ClientSpan | ProducerSpan | ConsumerSpan

datatype span_status = StatusUnset | StatusOk | StatusError

record span_event =
  se_name :: string
  se_time :: rat
  se_attributes :: "(string, string) pydict"

record trace_span =
  sp_name :: string
  sp_context :: trace_context
  sp_kind :: span_kind
  sp_start :: rat
  sp_end :: "rat option"
  sp_status :: span_status
  sp_message :: "string option"
  sp_attributes :: "(string, string) pydict"
  sp_events :: "span_event list"

definition set_attribute :: "string \<Rightarrow> string \<Rightarrow> trace_span \<Rightarrow> trace_span" where
  "set_attribute k v s = s\<lparr>sp_attributes := dset k v (sp_attributes s)\<rparr>"

definition add_event :: "rat \<Rightarrow> string \<Rightarrow> (string, string) pydict \<Rightarrow> trace_span \<Rightarrow> trace_span" where
  "add_event now name attrs s = s\<lparr>sp_events := sp_events s @ [\<lparr>se_name = name, se_time = now, se_attributes = attrs\<rparr>]\<rparr>"

definition set_span_status :: "span_status \<Rightarrow> string option \<Rightarrow> trace_span \<Rightarrow> trace_span" where
  "set_span_status c msg s = s\<lparr>sp_status := c, sp_message := msg\<rparr>"

definition record_exception :: "rat \<Rightarrow> string \<Rightarrow> string \<Rightarrow> trace_span \<Rightarrow> trace_span" where
  "record_exception now cls msg s =
     add_event now ''exception'' [(''exception.type'', cls), (''exception.message'', msg)] (set_span_status StatusError (Some msg) s)"

definition end_span :: "rat \<Rightarrow> trace_span \<Rightarrow> trace_span" where
  "end_span now s =
     (if sp_end s = None then s\<lparr>sp_end := Some now, sp_status := (if sp_status s = StatusUnset then StatusOk else sp_status s)\<rparr> else s)"

text \<open>\<open>self.end_time or time.time()\<close>: an end at the epoch counts as none.\<close>

definition ended_at :: "rat \<Rightarrow> trace_span \<Rightarrow> rat" where
  "ended_at dflt s = (case sp_end s of Some t \<Rightarrow> if t = 0 then dflt else t | None \<Rightarrow> dflt)"

definition duration_seconds :: "rat \<Rightarrow> trace_span \<Rightarrow> rat" where
  "duration_seconds now s = max 0 (ended_at now s - sp_start s)"

record otlp_span =
  ot_context :: trace_context
  ot_start_nano :: int
  ot_end_nano :: int
  ot_duration_ms :: rat
  ot_status :: span_status
  ot_span :: trace_span

definition to_otlp :: "rat \<Rightarrow> trace_span \<Rightarrow> otlp_span" where
  "to_otlp now s =
     \<lparr>ot_context = sp_context s, ot_start_nano = py_int (sp_start s * 10 ^ 9), ot_end_nano = py_int (ended_at (sp_start s) s * 10 ^ 9),
      ot_duration_ms = py_round 3 (duration_seconds now s * 1000), ot_status = sp_status s, ot_span = s\<rparr>"

section \<open>Tracer\<close>

text \<open>\<open>tr_draws\<close> counts the tokens drawn and the readings of the clock; \<open>tr_current\<close> is the context variable.\<close>

record tracer =
  tr_service :: string
  tr_finished :: "trace_span list"
  tr_current :: "trace_span option"
  tr_draws :: nat

record trace_world =
  tw_token32 :: "nat \<Rightarrow> string"
  tw_token16 :: "nat \<Rightarrow> string"
  tw_clock :: "nat \<Rightarrow> rat"

definition start_span ::
  "trace_world \<Rightarrow> string \<Rightarrow> trace_context option \<Rightarrow> span_kind \<Rightarrow> (string, string) pydict \<Rightarrow> tracer \<Rightarrow> trace_span \<times> tracer" where
  "start_span w name parent kind attrs t =
     (let n = tr_draws t;
          active = (case parent of Some c \<Rightarrow> Some c | None \<Rightarrow> map_option sp_context (tr_current t));
          ctx = (case active of
                   Some c \<Rightarrow> new_context (tw_token32 w n) (tw_token16 w n) (Some (tc_trace c)) (Some (tw_token16 w n)) (Some (tc_span c)) (tc_sampled c)
                               (Some (tc_correlation c))
                 | None \<Rightarrow> new_context (tw_token32 w n) (tw_token16 w n) None None None True None)
      in (\<lparr>sp_name = name, sp_context = ctx, sp_kind = kind, sp_start = tw_clock w n, sp_end = None, sp_status = StatusUnset,
           sp_message = None, sp_attributes = fold (\<lambda>(k, v). dset k v) attrs [(''service.name'', tr_service t)], sp_events = []\<rparr>,
          t\<lparr>tr_draws := n + 1\<rparr>))"

text \<open>How the body of a span ends: by itself, by an exception, or by one that is no \<open>Exception\<close>, such as a cancellation.\<close>

datatype body_end = Returned | Raised string string | Cancelled

text \<open>Entering the block of \<open>start_as_current_span\<close>, and leaving it with the value the variable had before.\<close>

definition enter_span :: "trace_span \<Rightarrow> tracer \<Rightarrow> trace_span option \<times> tracer" where
  "enter_span s t = (tr_current t, t\<lparr>tr_current := Some s\<rparr>)"

definition leave_span :: "trace_world \<Rightarrow> trace_span option \<Rightarrow> body_end \<Rightarrow> trace_span \<Rightarrow> tracer \<Rightarrow> tracer" where
  "leave_span w token e s t =
     (let now = tw_clock w (tr_draws t);
          s = (case e of Raised cls msg \<Rightarrow> record_exception now cls msg s | _ \<Rightarrow> s);
          s = end_span now s
      in t\<lparr>tr_finished := tr_finished t @ [s], tr_current := token, tr_draws := tr_draws t + 1\<rparr>)"

definition clear_finished_spans :: "tracer \<Rightarrow> tracer" where
  "clear_finished_spans t = t\<lparr>tr_finished := []\<rparr>"


section \<open>Headers\<close>

definition hex_id :: "nat \<Rightarrow> string \<Rightarrow> bool" where
  "hex_id n s = (length s = n \<and> list_all hex_digit s \<and> s \<noteq> replicate n CHR ''0'')"

lemma hex_digit_lower: "hex_digit c \<Longrightarrow> lower_char c = c \<and> \<not> is_blank c"
proof -
  have "list_all (\<lambda>c. lower_char c = c \<and> \<not> is_blank c) ''0123456789abcdef''" by code_simp
  then show "hex_digit c \<Longrightarrow> lower_char c = c \<and> \<not> is_blank c" unfolding list_all_iff hex_digit_def by blast
qed

lemma lower_hex: "list_all hex_digit s \<Longrightarrow> lower s = s"
  unfolding lower_def by (rule map_idI) (auto simp: list_all_iff hex_digit_lower)

lemma lower_append: "lower (s @ t) = lower s @ lower t" by (simp add: lower_def)

lemma strip_plain: "s \<noteq> [] \<Longrightarrow> \<not> is_blank (hd s) \<Longrightarrow> \<not> is_blank (last s) \<Longrightarrow> strip s = s"
  unfolding strip_def by (metis dropWhile_eq_self_iff hd_rev rev_rev_ident)

lemma lower_marks: "lower ''00-'' = ''00-''" "lower ''-'' = ''-''" "lower ''01'' = ''01''" "lower ''00'' = ''00''"
  by code_simp+

lemma groups_of_parts:
  assumes "length trace = 32" and "length sid = 16" and "length flags = 2"
    and "list_all hex_digit trace" and "list_all hex_digit sid" and "list_all hex_digit flags"
  shows "traceparent_groups (''00-'' @ trace @ ''-'' @ sid @ ''-'' @ flags) = Some (trace, sid, flags)"
proof -
  define s where "s = ''00-'' @ trace @ ''-'' @ sid @ ''-'' @ flags"
  have len: "length s = 55" and t3: "take 3 s = ''00-''" and d3: "drop 3 s = trace @ CHR ''-'' # sid @ CHR ''-'' # flags"
    using assms by (simp_all add: s_def)
  have "drop 36 s = drop 33 (drop 3 s)" by simp
  also have "\<dots> = sid @ CHR ''-'' # flags" using assms(1) unfolding d3 by simp
  finally have d36: "drop 36 s = sid @ CHR ''-'' # flags" .
  have "drop 53 s = drop 17 (drop 36 s)" by simp
  also have "\<dots> = flags" using assms(2) unfolding d36 by simp
  finally have d53: "drop 53 s = flags" .
  have "s ! 35 = drop 3 s ! 32" "s ! 52 = drop 36 s ! 16" using len by simp_all
  then have "s ! 35 = CHR ''-''" "s ! 52 = CHR ''-''" unfolding d3 d36 using assms by (simp_all add: nth_append)
  then show ?thesis
    unfolding s_def [symmetric] traceparent_groups_def Let_def d3 d36 d53 t3 using assms len by simp
qed

lemma header_stripped:
  assumes "hex_id 32 (tc_trace c)" and "hex_id 16 (tc_span c)"
  shows "lower (strip (to_traceparent c)) = to_traceparent c"
proof -
  have "\<not> is_blank CHR ''0''" "\<not> is_blank CHR ''1''" by code_simp+
  then have "strip (to_traceparent c) = to_traceparent c"
    by (intro strip_plain) (auto simp: to_traceparent_def)
  moreover have "lower (tc_trace c) = tc_trace c" "lower (tc_span c) = tc_span c"
    using assms lower_hex by (simp_all add: hex_id_def)
  then have "lower (to_traceparent c) = to_traceparent c"
    unfolding to_traceparent_def lower_append lower_marks by (simp add: lower_marks)
  ultimately show ?thesis by simp
qed

lemma traceparent_roundtrip:
  assumes "hex_id 32 (tc_trace c)" and "hex_id 16 (tc_span c)"
  shows "from_traceparent t32 t16 (to_traceparent c) correlation
    = Some (new_context t32 t16 (Some (tc_trace c)) (Some t16) (Some (tc_span c)) (tc_sampled c) (Some (or_text correlation (tc_trace c))))"
proof -
  have flags: "list_all hex_digit (if tc_sampled c then ''01'' else ''00'')" "length (if tc_sampled c then ''01'' else ''00'') = 2"
    by (auto simp: hex_digit_def)
  have "traceparent_groups (to_traceparent c) = Some (tc_trace c, tc_span c, if tc_sampled c then ''01'' else ''00'')"
    unfolding to_traceparent_def by (rule groups_of_parts) (use assms flags in \<open>simp_all add: hex_id_def\<close>)
  with assms show ?thesis by (simp add: from_traceparent_def header_stripped hex_id_def)
qed


lemma dget_lower_keys_fresh:
  assumes "list_all (\<lambda>(k, v). lower k \<noteq> key) headers"
  shows "dget (fold (\<lambda>(k, v). dset (lower k) v) headers d) key = dget d key"
  using assms by (induction headers arbitrary: d) auto

text \<open>
  A context survives the headers: what is injected into a carrier that has no header of these names is extracted as
  the same trace, sampling and correlation, with the injecting span as the parent.
\<close>

theorem trace_headers_roundtrip:
  assumes "hex_id 32 (tc_trace c)" and "hex_id 16 (tc_span c)" and "tc_correlation c \<noteq> []" and "t16 \<noteq> []"
    and "list_all (\<lambda>(k, v). lower k \<notin> {''traceparent'', ''x-correlation-id'', ''x-trace-id''}) headers"
  shows "trace_extract t32 t16 (trace_inject c headers)
    = \<lparr>tc_trace = tc_trace c, tc_span = t16, tc_parent = Some (tc_span c), tc_sampled = tc_sampled c, tc_correlation = tc_correlation c\<rparr>"
proof -
  let ?new = "[(''traceparent'', to_traceparent c), (''X-Correlation-ID'', tc_correlation c), (''X-Trace-ID'', tc_trace c)]"
  have low: "lower ''traceparent'' = ''traceparent''" "lower ''X-Correlation-ID'' = ''x-correlation-id''" "lower ''X-Trace-ID'' = ''x-trace-id''"
    by code_simp+
  have "\<not> dhas headers k" if "k \<in> {''traceparent'', ''X-Correlation-ID'', ''X-Trace-ID''}" for k
    using assms(5) that low by (force simp: list_all_iff dhas_iff_mem)
  then have "trace_inject c headers = headers @ ?new"
    by (simp add: trace_inject_def dset_fresh dhas_iff_mem)
  then have norm: "lower_keys (trace_inject c headers) = fold (\<lambda>(k, v). dset (lower k) v) ?new (lower_keys headers)"
    by (simp add: lower_keys_def)
  have "dget (lower_keys (trace_inject c headers)) ''traceparent'' = Some (to_traceparent c)"
    "dget (lower_keys (trace_inject c headers)) ''x-correlation-id'' = Some (tc_correlation c)"
    unfolding norm by (simp_all add: low)
  moreover have "to_traceparent c \<noteq> []" by (simp add: to_traceparent_def)
  moreover have "tc_trace c \<noteq> []" using assms(1) by (auto simp: hex_id_def)
  ultimately show ?thesis
    using assms(3,4) by (simp add: trace_extract_def Let_def traceparent_roundtrip [OF assms(1,2)] new_context_def or_text_def)
qed


theorem trace_headers_roundtrip_witness:
  "trace_extract ''x'' ''0123456789abcdef''
     (trace_inject \<lparr>tc_trace = replicate 32 CHR ''a'', tc_span = replicate 16 CHR ''b'', tc_parent = None, tc_sampled = False, tc_correlation = ''job-7''\<rparr>
        [(''Accept'', ''*'')])
   = \<lparr>tc_trace = replicate 32 CHR ''a'', tc_span = ''0123456789abcdef'', tc_parent = Some (replicate 16 CHR ''b''), tc_sampled = False, tc_correlation = ''job-7''\<rparr>"
proof -
  let ?c = "\<lparr>tc_trace = replicate 32 CHR ''a'', tc_span = replicate 16 CHR ''b'', tc_parent = None, tc_sampled = False, tc_correlation = ''job-7''\<rparr>"
  have "hex_id 32 (tc_trace ?c)" "hex_id 16 (tc_span ?c)" "tc_correlation ?c \<noteq> []" "''0123456789abcdef'' \<noteq> []"
    "list_all (\<lambda>(k, v). lower k \<notin> {''traceparent'', ''x-correlation-id'', ''x-trace-id''}) [(''Accept'', ''*'')]"
    by code_simp+
  from trace_headers_roundtrip [OF this, of "''x''"] show ?thesis by simp
qed

section \<open>Nested spans\<close>

text \<open>A block, the blocks opened in its body one after the other, and how the body ends when none of them ends it.\<close>

datatype trace_block = Block string span_kind "trace_block list" body_end

fun run_block :: "trace_world \<Rightarrow> trace_block \<Rightarrow> tracer \<Rightarrow> body_end \<times> tracer"
  and run_blocks :: "trace_world \<Rightarrow> trace_block list \<Rightarrow> body_end \<Rightarrow> tracer \<Rightarrow> body_end \<times> tracer" where
  "run_block w (Block name kind bs e) t =
     (let (s, t1) = start_span w name None kind [] t; (token, t2) = enter_span s t1; (e', t3) = run_blocks w bs e t2
      in (e', leave_span w token e' s t3))"
| "run_blocks w [] e t = (e, t)"
| "run_blocks w (b # bs) e t =
     (let (e', t') = run_block w b t in if e' = Returned then run_blocks w bs e t' else (e', t'))"

definition same_trace :: "trace_context \<Rightarrow> trace_span \<Rightarrow> bool" where
  "same_trace c s = (tc_trace (sp_context s) = tc_trace c \<and> tc_correlation (sp_context s) = tc_correlation c
     \<and> tc_sampled (sp_context s) = tc_sampled c \<and> sp_end s \<noteq> None \<and> sp_status s \<noteq> StatusUnset)"

text \<open>Finished spans under a parent: of its trace, ended, and each below the parent or below another of them.\<close>

definition below :: "trace_context \<Rightarrow> trace_span list \<Rightarrow> bool" where
  "below c new = (list_all (same_trace c) new \<and>
     (\<forall>s \<in> set new. tc_parent (sp_context s) \<in> insert (Some (tc_span c)) ((\<lambda>q. Some (tc_span (sp_context q))) ` set new)))"

definition live_context :: "trace_context \<Rightarrow> bool" where "live_context c = (tc_trace c \<noteq> [] \<and> tc_correlation c \<noteq> [] \<and> tc_span c \<noteq> [])"

lemma below_append: "below c xs \<Longrightarrow> below c ys \<Longrightarrow> below c (xs @ ys)"
  by (auto simp: below_def)

lemma started_child:
  assumes "tr_current t = Some p" and "live_context (sp_context p)" and "tw_token16 w (tr_draws t) \<noteq> []"
  shows "start_span w name None kind attrs t = (s, t') \<Longrightarrow>
    tc_trace (sp_context s) = tc_trace (sp_context p) \<and> tc_correlation (sp_context s) = tc_correlation (sp_context p)
    \<and> tc_sampled (sp_context s) = tc_sampled (sp_context p) \<and> tc_parent (sp_context s) = Some (tc_span (sp_context p))
    \<and> live_context (sp_context s) \<and> sp_status s = StatusUnset \<and> sp_end s = None \<and> tr_current t' = tr_current t \<and> tr_finished t' = tr_finished t"
  using assms by (auto simp: start_span_def Let_def new_context_def or_text_def live_context_def)

definition closed_span :: "trace_world \<Rightarrow> nat \<Rightarrow> body_end \<Rightarrow> trace_span \<Rightarrow> trace_span" where
  "closed_span w n e s = end_span (tw_clock w n) (case e of Raised cls msg \<Rightarrow> record_exception (tw_clock w n) cls msg s | _ \<Rightarrow> s)"

lemma closed_span_facts:
  assumes "sp_status s = StatusUnset" and "sp_end s = None"
  shows "sp_context (closed_span w n e s) = sp_context s" "sp_end (closed_span w n e s) \<noteq> None"
    "sp_status (closed_span w n e s) = (if \<exists>cls msg. e = Raised cls msg then StatusError else StatusOk)"
  using assms by (auto simp: closed_span_def end_span_def record_exception_def add_event_def set_span_status_def split: body_end.splits)

lemma left_tracer:
  "tr_current (leave_span w token e s t) = token"
  "tr_finished (leave_span w token e s t) = tr_finished t @ [closed_span w (tr_draws t) e s]"
  by (simp_all add: leave_span_def closed_span_def Let_def)

definition nested_run :: "tracer \<Rightarrow> trace_span \<Rightarrow> tracer \<Rightarrow> bool" where
  "nested_run t p t' = (tr_current t' = Some p \<and> below (sp_context p) (drop (length (tr_finished t)) (tr_finished t'))
     \<and> take (length (tr_finished t)) (tr_finished t') = tr_finished t)"

lemma nested_runI: "tr_current t' = Some p \<Longrightarrow> tr_finished t' = tr_finished t @ new \<Longrightarrow> below (sp_context p) new \<Longrightarrow> nested_run t p t'"
  by (simp add: nested_run_def)

lemma nested_runD: "nested_run t p t' \<Longrightarrow> tr_current t' = Some p \<and> (\<exists>new. tr_finished t' = tr_finished t @ new \<and> below (sp_context p) new)"
  unfolding nested_run_def by (metis append_take_drop_id)

lemma nested_run_trans: "nested_run t p t' \<Longrightarrow> nested_run t' p t'' \<Longrightarrow> nested_run t p t''"
  by (auto dest!: nested_runD intro!: nested_runI intro: below_append)

lemma below_closed:
  assumes "below (sp_context s) new" and "same_trace c s'" and "sp_context s' = sp_context s" and "tc_parent (sp_context s) = Some (tc_span c)"
  shows "below c (new @ [s'])"
  using assms by (fastforce simp: below_def same_trace_def list_all_iff)

lemma run_blocks_nested:
  "run_block w b t = (e', t') \<Longrightarrow> \<forall>n. tw_token16 w n \<noteq> [] \<Longrightarrow> tr_current t = Some p \<Longrightarrow> live_context (sp_context p) \<Longrightarrow> nested_run t p t'"
  "run_blocks w bs e t = (e', t') \<Longrightarrow> \<forall>n. tw_token16 w n \<noteq> [] \<Longrightarrow> tr_current t = Some p \<Longrightarrow> live_context (sp_context p) \<Longrightarrow> nested_run t p t'"
proof (induction w b t and w bs e t arbitrary: e' t' p and e' t' p rule: run_block_run_blocks.induct)
  case (1 w name kind bs e t)
  obtain s t1 where s: "start_span w name None kind [] t = (s, t1)" by fastforce
  let ?t2 = "t1\<lparr>tr_current := Some s\<rparr>"
  obtain e3 t3 where run: "run_blocks w bs e ?t2 = (e3, t3)" by fastforce
  note child = started_child [OF 1(4,5) spec [OF 1(3)] s]
  have enter: "enter_span s t1 = (tr_current t1, ?t2)" by (simp add: enter_span_def)
  from 1(2) have t': "t' = leave_span w (tr_current t1) e3 s t3"
    by (auto simp: s enter run)
  have "nested_run ?t2 s t3"
    by (rule 1(1) [OF s [symmetric] refl enter [symmetric] refl run 1(3)]) (use child in simp_all)
  then obtain new where new: "tr_finished t3 = tr_finished t @ new" "below (sp_context s) new"
    using child by (auto dest!: nested_runD)
  let ?s = "closed_span w (tr_draws t3) e3 s"
  have "same_trace (sp_context p) ?s" "sp_context ?s = sp_context s"
    using child closed_span_facts [of s w "tr_draws t3" e3] by (auto simp: same_trace_def)
  then have "below (sp_context p) (new @ [?s])" using below_closed [OF new(2)] child by blast
  then show ?case using new(1) child 1 t' by (intro nested_runI [of _ _ _ "new @ [?s]"]) (simp_all add: left_tracer)
next
  case (2 w e t)
  then show ?case by (auto simp: below_def nested_run_def)
next
  case (3 w b bs e t)
  obtain e1 t1 where b: "run_block w b t = (e1, t1)" by fastforce
  have first: "nested_run t p t1" by (rule 3(1) [OF b 3(4-6)])
  show ?case
  proof (cases "e1 = Returned")
    case True
    with 3(3) b have rest: "run_blocks w bs e t1 = (e', t')" by simp
    have "nested_run t1 p t'" by (rule 3(2) [OF b [symmetric] refl True rest 3(4) _ 3(6)]) (use nested_runD [OF first] in simp)
    with first show ?thesis by (rule nested_run_trans)
  next
    case False
    with 3(3) b first show ?thesis by simp
  qed
qed


text \<open>
  Whatever blocks are nested below a span and however they end, leaving them makes that span the current one
  again; their finished spans carry its trace, correlation and sampling, have ended with a status, and each has its
  parent among them or is a child of that span.
\<close>

theorem spans_nest:
  assumes "\<forall>n. tw_token16 w n \<noteq> []" and "tr_current t = Some p" and "live_context (sp_context p)"
  shows "let t' = snd (run_blocks w bs e t)
    in tr_current t' = Some p \<and> (\<exists>new. tr_finished t' = tr_finished t @ new \<and> below (sp_context p) new)"
proof -
  obtain e' t' where run: "run_blocks w bs e t = (e', t')" by fastforce
  from nested_runD [OF run_blocks_nested(2) [OF run assms]] run show ?thesis by simp
qed

definition toy_world :: trace_world where
  "toy_world = \<lparr>tw_token32 = (\<lambda>n. ''t''), tw_token16 = (\<lambda>n. CHR ''s'' # show_nat n), tw_clock = of_nat\<rparr>"

definition toy_span :: trace_span where
  "toy_span = \<lparr>sp_name = ''root'', sp_context = \<lparr>tc_trace = ''t'', tc_span = ''r'', tc_parent = None, tc_sampled = True, tc_correlation = ''c''\<rparr>,
     sp_kind = ServerSpan, sp_start = 0, sp_end = None, sp_status = StatusUnset, sp_message = None, sp_attributes = [], sp_events = []\<rparr>"

theorem spans_nest_witness:
  "tr_current (snd (run_blocks toy_world [Block ''a'' ClientSpan [Block ''b'' InternalSpan [] (Raised ''ValueError'' ''x'')] Returned] Returned
     \<lparr>tr_service = ''os'', tr_finished = [], tr_current = Some toy_span, tr_draws = 0\<rparr>)) = Some toy_span"
proof -
  have "\<forall>n. tw_token16 toy_world n \<noteq> []" "live_context (sp_context toy_span)"
    by (simp add: toy_world_def) code_simp
  from spans_nest [OF this(1) _ this(2), of "\<lparr>tr_service = ''os'', tr_finished = [], tr_current = Some toy_span, tr_draws = 0\<rparr>"]
  show ?thesis by (simp add: Let_def del: run_blocks.simps run_block.simps)
qed

text \<open>
  A span whose body is cancelled ends with the status of success and no event, as one whose body returned; the
  status is an error exactly when the body raised an \<open>Exception\<close>.
\<close>

theorem cancelled_span_reads_ok:
  "let t' = snd (run_block w (Block name kind [] e) t); s = last (tr_finished t')
   in sp_status s = (if \<exists>cls msg. e = Raised cls msg then StatusError else StatusOk)
      \<and> (sp_events s = [] \<longleftrightarrow> sp_status s = StatusOk)"
  by (cases e) (auto simp: start_span_def enter_span_def leave_span_def Let_def record_exception_def add_event_def set_span_status_def end_span_def)

text \<open>The sampled flag is one bit of the flags, and the parser asks for the byte: a header with more flags is not sampled.\<close>

lemma other_flags_not_sampled:
  "map_option tc_sampled (from_traceparent ''t'' ''s'' (''00-'' @ replicate 32 CHR ''a'' @ ''-'' @ replicate 16 CHR ''b'' @ ''-03'') None) = Some False"
  by code_simp

end
