(* ===== verification/Request_Metrics.thy ===== *)
theory Request_Metrics
  imports Py_Regex
begin

text \<open>
  \<open>observability/metrics.py\<close>: the limiter of path labels, the sampler, and the counters of requests and tokens. The
  Prometheus client keeps one number per tuple of labels; histograms count their observations.
\<close>

section \<open>Paths\<close>

definition path_hex_char :: "char \<Rightarrow> bool" where "path_hex_char c = (is_digit c \<or> between CHR ''a'' CHR ''f'' c)"

definition hexes :: "nat \<Rightarrow> rx" where "hexes n = Rep n (Some n) True (Cls path_hex_char)"

definition id_pattern :: rx where
  "id_pattern =
     seq [Cls (\<lambda>c. c = CHR ''/''),
          alts [seq [hexes 8, lit ''-'', hexes 4, lit ''-'', hexes 4, lit ''-'', hexes 4, lit ''-'', hexes 12],
                Rep 16 (Some 64) True (Cls path_hex_char), Rep 1 None True (Cls is_digit)],
          NotAhead (NotAhead (alts [Cls (\<lambda>c. c = CHR ''/''), TextEnd]))]"

definition max_cardinality :: nat where "max_cardinality = 200"

definition normalize_path :: "string \<Rightarrow> string list \<Rightarrow> string \<times> string list" where
  "normalize_path path seen =
     (let normalized = re_sub id_pattern (\<lambda>m. ''/:id'') path
      in if normalized \<in> set seen then (normalized, seen)
         else if length seen \<ge> max_cardinality then (''/other'', seen)
         else (normalized, seen @ [normalized]))"

section \<open>Sampling\<close>

text \<open>\<open>h\<close> is the number of the first eight digits of the MD5 hash; \<open>draw\<close> a random number below ten thousand.\<close>

definition new_sampler :: "rat \<Rightarrow> rat" where "new_sampler rate = max 0 (min 1 rate)"

definition should_sample :: "(string \<Rightarrow> nat) \<Rightarrow> nat \<Rightarrow> rat \<Rightarrow> string option \<Rightarrow> bool" where
  "should_sample h draw rate trace =
     (if rate \<ge> 1 then True else if rate \<le> 0 then False
      else case trace of Some t \<Rightarrow> if t = [] then of_nat draw / 10000 < rate else of_nat (h t mod 10000) / 10000 < rate
           | None \<Rightarrow> of_nat draw / 10000 < rate)"

section \<open>Counters\<close>

record http_metrics =
  mt_seen :: "string list"
  mt_requests :: "(string \<times> string \<times> string, nat) pydict"
  mt_durations :: "(string \<times> string, rat list) pydict"
  mt_tokens :: "(string \<times> string, int) pydict"

definition new_http_metrics :: http_metrics where "new_http_metrics = \<lparr>mt_seen = [], mt_requests = [], mt_durations = [], mt_tokens = []\<rparr>"

definition record_request_metric :: "rat \<Rightarrow> nat \<Rightarrow> string \<Rightarrow> string \<Rightarrow> int \<Rightarrow> rat \<Rightarrow> http_metrics \<Rightarrow> http_metrics" where
  "record_request_metric rate draw meth endpoint status duration m =
     (if \<not> should_sample (\<lambda>t. 0) draw rate None then m
      else let (safe, seen) = normalize_path endpoint (mt_seen m); k = (meth, safe, show_int status)
           in m\<lparr>mt_seen := seen, mt_requests := dset k (dgetd (mt_requests m) k 0 + 1) (mt_requests m),
                mt_durations := dset (meth, safe) (dgetd (mt_durations m) (meth, safe) [] @ [duration]) (mt_durations m)\<rparr>)"

text \<open>A counter refuses a negative amount: \<open>None\<close> is its \<open>ValueError\<close>, raised after the first counter has moved.\<close>

definition inc_by :: "'k \<Rightarrow> int \<Rightarrow> ('k, int) pydict \<Rightarrow> ('k, int) pydict option" where
  "inc_by k n d = (if n < 0 then None else Some (dset k (dgetd d k 0 + n) d))"

definition record_token_usage :: "string \<Rightarrow> int \<Rightarrow> int \<Rightarrow> http_metrics \<Rightarrow> bool \<times> http_metrics" where
  "record_token_usage model prompt completion m =
     (case inc_by (model, ''prompt'') prompt (mt_tokens m) of
        None \<Rightarrow> (False, m)
      | Some d \<Rightarrow> (case inc_by (model, ''completion'') completion d of
          None \<Rightarrow> (False, m\<lparr>mt_tokens := d\<rparr>) | Some d' \<Rightarrow> (True, m\<lparr>mt_tokens := d'\<rparr>)))"

section \<open>Properties\<close>

text \<open>Every label counted has been seen, or is the label of the rest; few are seen.\<close>

definition counted_labels :: "http_metrics \<Rightarrow> (string \<times> string \<times> string) set" where
  "counted_labels m = fst ` set (mt_requests m)"

definition http_metrics_inv :: "http_metrics \<Rightarrow> bool" where
  "http_metrics_inv m =
     (dict_ok (mt_requests m) \<and> distinct (mt_seen m) \<and> length (mt_seen m) \<le> max_cardinality
      \<and> (\<forall>(a, e, s) \<in> counted_labels m. e \<in> insert ''/other'' (set (mt_seen m))))"

lemma normalize_path_ok:
  assumes "normalize_path path seen = (e, seen')" and "distinct seen" and "length seen \<le> max_cardinality"
  shows "distinct seen' \<and> length seen' \<le> max_cardinality \<and> set seen \<subseteq> set seen' \<and> e \<in> insert ''/other'' (set seen')"
  using assms by (auto simp: normalize_path_def Let_def split: if_splits)

lemma keys_dset: "fst ` set (dset k v d) = insert k (fst ` set d)"
  using dhas_dset [of k v d] by (auto simp: dhas_iff_mem)

lemma record_request_metric_inv:
  assumes "http_metrics_inv m"
  shows "http_metrics_inv (record_request_metric rate draw a e s d m)"
proof -
  obtain safe seen where n: "normalize_path e (mt_seen m) = (safe, seen)" by fastforce
  let ?m = "record_request_metric rate draw a e s d m"
  have seen: "distinct seen \<and> length seen \<le> max_cardinality \<and> set (mt_seen m) \<subseteq> set seen \<and> safe \<in> insert ''/other'' (set seen)"
    using normalize_path_ok [OF n] assms by (simp add: http_metrics_inv_def)
  consider (same) "?m = m" | (new) "mt_seen ?m = seen" "counted_labels ?m = insert (a, safe, show_int s) (counted_labels m)" "dict_ok (mt_requests ?m)"
    using assms by (cases "should_sample (\<lambda>t. 0) draw rate None")
      (simp_all add: record_request_metric_def n Let_def keys_dset http_metrics_inv_def dict_ok_dset counted_labels_def)
  then show ?thesis
  proof cases
    case same
    with assms show ?thesis by (simp only:)
  next
    case new
    have "\<forall>(a, e, s) \<in> counted_labels m. e \<in> insert ''/other'' (set seen)"
      using assms seen unfolding http_metrics_inv_def by blast
    then show ?thesis using seen unfolding http_metrics_inv_def new by (simp add: new(3))
  qed
qed

interpretation request_counters: machine "\<lambda>(rate, draw, a, e, s, d). record_request_metric rate draw a e s d" http_metrics_inv
  by unfold_locales (auto simp: record_request_metric_inv)

definition counted :: "http_metrics \<Rightarrow> nat" where "counted m = sum_list (dvals (mt_requests m))"

lemma sum_dset: "sum_list (dvals (dset k (Suc (dgetd d k 0)) d)) = Suc (sum_list (dvals d))"
  by (induction d) (auto simp: dgetd_def)

text \<open>
  After any requests, whatever their paths, at most two hundred labels and the one of the rest are in use, and with
  a rate of one the counters add up to the number of requests.
\<close>

theorem path_labels_bounded:
  fixes reqs :: "(rat \<times> nat \<times> string \<times> string \<times> int \<times> rat) list"
  defines "m \<equiv> fold (\<lambda>(rate, draw, a, e, s, d). record_request_metric rate draw a e s d) reqs new_http_metrics"
  shows "card ((\<lambda>(a, e, s). e) ` counted_labels m) \<le> 201
    \<and> (if list_all (\<lambda>(rate, r). rate \<ge> 1) reqs then counted m = length reqs else True)"
proof
  have "http_metrics_inv m" unfolding m_def
    by (rule request_counters.run_inv) (simp add: http_metrics_inv_def new_http_metrics_def counted_labels_def)
  then have "card ((\<lambda>(a, e, s). e) ` counted_labels m) \<le> card (insert ''/other'' (set (mt_seen m)))" and "length (mt_seen m) \<le> 200"
    by (auto simp: http_metrics_inv_def max_cardinality_def intro!: card_mono)
  moreover have "card (insert ''/other'' (set (mt_seen m))) \<le> Suc (length (mt_seen m))"
    using card_length [of "mt_seen m"] by (simp add: card_insert_if)
  ultimately show "card ((\<lambda>(a, e, s). e) ` counted_labels m) \<le> 201" by linarith
next
  have "list_all (\<lambda>(rate, r). rate \<ge> 1) reqs \<Longrightarrow> counted (fold (\<lambda>(rate, draw, a, e, s, d). record_request_metric rate draw a e s d) reqs m') = counted m' + length reqs" for m'
    by (induction reqs arbitrary: m')
      (auto simp: counted_def record_request_metric_def should_sample_def Let_def sum_dset split: prod.splits)
  then show "if list_all (\<lambda>(rate, r). rate \<ge> 1) reqs then counted m = length reqs else True"
    by (simp add: m_def counted_def new_http_metrics_def)
qed

text \<open>Identifiers in a path are masked: digits, long hexadecimal words and UUIDs as whole segments.\<close>

lemma ids_masked:
  "map (\<lambda>p. fst (normalize_path p [])) [''/agents/12/runs'', ''/v1/abc'', ''/x/0123456789abcdef'']
   = [''/agents/:id/runs'', ''/v1/abc'', ''/x/:id'']"
  by code_simp

end
