(* ===== verification/Provider_Registry.thy ===== *)
theory Provider_Registry
  imports Py_Regex
begin

text \<open>
  \<open>providers/registry.py\<close>, the matching of \<open>config/schema.py\<close>, \<open>providers/factory.py\<close>, and the model names and environment variables of
  \<open>providers/litellm_provider.py\<close>: which provider a model goes to, under which name and with which key. The
  process environment is a dictionary.
\<close>

section \<open>Specifications\<close>

record provider_spec =
  ps_name :: string
  ps_keywords :: "string list"
  ps_env_key :: string
  ps_display :: string
  ps_prefix :: string
  ps_skip_prefixes :: "string list"
  ps_env_extras :: "(string \<times> string) list"
  ps_gateway :: bool
  ps_local :: bool
  ps_key_prefix :: string
  ps_base_keyword :: string
  ps_default_base :: string
  ps_strip_prefix :: bool
  ps_overrides :: "(string \<times> (string, json) pydict) list"
  ps_oauth :: bool
  ps_direct :: bool
  ps_caching :: bool

definition plain_spec :: "string \<Rightarrow> string list \<Rightarrow> string \<Rightarrow> string \<Rightarrow> provider_spec" where
  "plain_spec name kws env_key display =
     \<lparr>ps_name = name, ps_keywords = kws, ps_env_key = env_key, ps_display = display, ps_prefix = [], ps_skip_prefixes = [],
      ps_env_extras = [], ps_gateway = False, ps_local = False, ps_key_prefix = [], ps_base_keyword = [], ps_default_base = [],
      ps_strip_prefix = False, ps_overrides = [], ps_oauth = False, ps_direct = False, ps_caching = False\<rparr>"

definition custom_spec :: provider_spec where
  "custom_spec =
     (plain_spec ''custom'' [] '''' ''Custom'')\<lparr>ps_direct := True\<rparr>"

definition azure_openai_spec :: provider_spec where
  "azure_openai_spec =
     (plain_spec ''azure_openai'' [''azure'', ''azure-openai''] '''' ''Azure OpenAI'')\<lparr>ps_direct := True\<rparr>"

definition openrouter_spec :: provider_spec where
  "openrouter_spec =
     (plain_spec ''openrouter'' [''openrouter''] ''OPENROUTER_API_KEY'' ''OpenRouter'')\<lparr>ps_prefix := ''openrouter'', ps_gateway := True, ps_key_prefix := ''sk-or-'', ps_base_keyword := ''openrouter'', ps_default_base := ''https://openrouter.ai/api/v1'', ps_caching := True\<rparr>"

definition aihubmix_spec :: provider_spec where
  "aihubmix_spec =
     (plain_spec ''aihubmix'' [''aihubmix''] ''OPENAI_API_KEY'' ''AiHubMix'')\<lparr>ps_prefix := ''openai'', ps_gateway := True, ps_base_keyword := ''aihubmix'', ps_default_base := ''https://aihubmix.com/v1'', ps_strip_prefix := True\<rparr>"

definition siliconflow_spec :: provider_spec where
  "siliconflow_spec =
     (plain_spec ''siliconflow'' [''siliconflow''] ''OPENAI_API_KEY'' ''SiliconFlow'')\<lparr>ps_prefix := ''openai'', ps_gateway := True, ps_base_keyword := ''siliconflow'', ps_default_base := ''https://api.siliconflow.cn/v1''\<rparr>"

definition volcengine_spec :: provider_spec where
  "volcengine_spec =
     (plain_spec ''volcengine'' [''volcengine'', ''volces'', ''ark''] ''OPENAI_API_KEY'' ''VolcEngine'')\<lparr>ps_prefix := ''volcengine'', ps_gateway := True, ps_base_keyword := ''volces'', ps_default_base := ''https://ark.cn-beijing.volces.com/api/v3''\<rparr>"

definition anthropic_spec :: provider_spec where
  "anthropic_spec =
     (plain_spec ''anthropic'' [''anthropic'', ''claude''] ''ANTHROPIC_API_KEY'' ''Anthropic'')\<lparr>ps_caching := True\<rparr>"

definition openai_spec :: provider_spec where
  "openai_spec =
     plain_spec ''openai'' [''openai'', ''gpt''] ''OPENAI_API_KEY'' ''OpenAI''"

definition openai_codex_spec :: provider_spec where
  "openai_codex_spec =
     (plain_spec ''openai_codex'' [''openai-codex''] '''' ''OpenAI Codex'')\<lparr>ps_base_keyword := ''codex'', ps_default_base := ''https://chatgpt.com/backend-api'', ps_oauth := True\<rparr>"

definition github_copilot_spec :: provider_spec where
  "github_copilot_spec =
     (plain_spec ''github_copilot'' [''github_copilot'', ''copilot''] '''' ''Github Copilot'')\<lparr>ps_prefix := ''github_copilot'', ps_skip_prefixes := [''github_copilot/''], ps_oauth := True\<rparr>"

definition deepseek_spec :: provider_spec where
  "deepseek_spec =
     (plain_spec ''deepseek'' [''deepseek''] ''DEEPSEEK_API_KEY'' ''DeepSeek'')\<lparr>ps_prefix := ''deepseek'', ps_skip_prefixes := [''deepseek/'']\<rparr>"

definition gemini_spec :: provider_spec where
  "gemini_spec =
     (plain_spec ''gemini'' [''gemini''] ''GEMINI_API_KEY'' ''Gemini'')\<lparr>ps_prefix := ''gemini'', ps_skip_prefixes := [''gemini/'']\<rparr>"

definition zhipu_spec :: provider_spec where
  "zhipu_spec =
     (plain_spec ''zhipu'' [''zhipu'', ''glm'', ''zai''] ''ZAI_API_KEY'' ''Zhipu AI'')\<lparr>ps_prefix := ''zai'', ps_skip_prefixes := [''zhipu/'', ''zai/'', ''openrouter/'', ''hosted_vllm/''], ps_env_extras := [(''ZHIPUAI_API_KEY'', ''{api_key}'')]\<rparr>"

definition dashscope_spec :: provider_spec where
  "dashscope_spec =
     (plain_spec ''dashscope'' [''qwen'', ''dashscope''] ''DASHSCOPE_API_KEY'' ''DashScope'')\<lparr>ps_prefix := ''dashscope'', ps_skip_prefixes := [''dashscope/'', ''openrouter/'']\<rparr>"

definition moonshot_spec :: provider_spec where
  "moonshot_spec =
     (plain_spec ''moonshot'' [''moonshot'', ''kimi''] ''MOONSHOT_API_KEY'' ''Moonshot'')\<lparr>ps_prefix := ''moonshot'', ps_skip_prefixes := [''moonshot/'', ''openrouter/''], ps_env_extras := [(''MOONSHOT_API_BASE'', ''{api_base}'')], ps_default_base := ''https://api.moonshot.ai/v1'', ps_overrides := [(''kimi-k2.5'', [(''temperature'', JFloat 1)])]\<rparr>"

definition minimax_spec :: provider_spec where
  "minimax_spec =
     (plain_spec ''minimax'' [''minimax''] ''MINIMAX_API_KEY'' ''MiniMax'')\<lparr>ps_prefix := ''minimax'', ps_skip_prefixes := [''minimax/'', ''openrouter/''], ps_default_base := ''https://api.minimax.io/v1''\<rparr>"

definition vllm_spec :: provider_spec where
  "vllm_spec =
     (plain_spec ''vllm'' [''vllm''] ''HOSTED_VLLM_API_KEY'' ''vLLM/Local'')\<lparr>ps_prefix := ''hosted_vllm'', ps_local := True\<rparr>"

definition ollama_spec :: provider_spec where
  "ollama_spec =
     (plain_spec ''ollama'' [''ollama''] ''OLLAMA_API_KEY'' ''Ollama'')\<lparr>ps_prefix := ''ollama'', ps_skip_prefixes := [''ollama/''], ps_local := True, ps_base_keyword := ''11434'', ps_default_base := ''http://localhost:11434'', ps_direct := True\<rparr>"

definition bedrock_spec :: provider_spec where
  "bedrock_spec =
     (plain_spec ''bedrock'' [''bedrock''] ''AWS_ACCESS_KEY_ID'' ''Amazon Bedrock'')\<lparr>ps_prefix := ''bedrock'', ps_skip_prefixes := [''bedrock/''], ps_env_extras := [(''AWS_SECRET_ACCESS_KEY'', ''{api_key}''), (''AWS_REGION_NAME'', ''us-east-1'')]\<rparr>"

definition xai_spec :: provider_spec where
  "xai_spec =
     (plain_spec ''xai'' [''grok'', ''xai''] ''XAI_API_KEY'' ''xAI'')\<lparr>ps_prefix := ''xai'', ps_skip_prefixes := [''xai/''], ps_default_base := ''https://api.x.ai/v1''\<rparr>"

definition cohere_spec :: provider_spec where
  "cohere_spec =
     (plain_spec ''cohere'' [''cohere'', ''command''] ''COHERE_API_KEY'' ''Cohere'')\<lparr>ps_prefix := ''cohere'', ps_skip_prefixes := [''cohere/'']\<rparr>"

definition mistral_spec :: provider_spec where
  "mistral_spec =
     (plain_spec ''mistral'' [''mistral''] ''MISTRAL_API_KEY'' ''Mistral'')\<lparr>ps_prefix := ''mistral'', ps_skip_prefixes := [''mistral/'']\<rparr>"

definition nvidia_nim_spec :: provider_spec where
  "nvidia_nim_spec =
     (plain_spec ''nvidia_nim'' [''nvidia'', ''nim''] ''NVIDIA_NIM_API_KEY'' ''NVIDIA NIM'')\<lparr>ps_prefix := ''nvidia_nim'', ps_skip_prefixes := [''nvidia_nim/''], ps_default_base := ''https://integrate.api.nvidia.com/v1''\<rparr>"

definition ollama_spec2 :: provider_spec where
  "ollama_spec2 =
     (plain_spec ''ollama'' [''ollama''] ''OLLAMA_API_KEY'' ''Ollama'')\<lparr>ps_prefix := ''ollama'', ps_skip_prefixes := [''ollama/''], ps_local := True, ps_base_keyword := ''localhost:11434'', ps_default_base := ''http://localhost:11434''\<rparr>"

definition vllm_spec2 :: provider_spec where
  "vllm_spec2 =
     (plain_spec ''vllm'' [''vllm''] ''VLLM_API_KEY'' ''vLLM'')\<lparr>ps_prefix := ''openai'', ps_skip_prefixes := [''openai/''], ps_local := True, ps_base_keyword := ''v1'', ps_default_base := ''http://localhost:8000/v1''\<rparr>"

definition groq_spec :: provider_spec where
  "groq_spec =
     (plain_spec ''groq'' [''groq''] ''GROQ_API_KEY'' ''Groq'')\<lparr>ps_prefix := ''groq'', ps_skip_prefixes := [''groq/'']\<rparr>"

definition providers :: "provider_spec list" where
  "providers =
     [custom_spec, azure_openai_spec, openrouter_spec, aihubmix_spec, siliconflow_spec, volcengine_spec, anthropic_spec, openai_spec, openai_codex_spec, github_copilot_spec, deepseek_spec, gemini_spec, zhipu_spec, dashscope_spec, moonshot_spec, minimax_spec, vllm_spec, ollama_spec, bedrock_spec, xai_spec, cohere_spec, mistral_spec, nvidia_nim_spec, ollama_spec2, vllm_spec2, groq_spec]"

section \<open>Lookups\<close>

definition underscores :: "string \<Rightarrow> string" where
  "underscores s = map (\<lambda>c. if c = CHR ''-'' then CHR ''_'' else c) s"

text \<open>\<open>s.split("/", 1)\<close>: what comes before the first slash, and after it.\<close>

definition before_slash :: "string \<Rightarrow> string" where "before_slash s = takeWhile (\<lambda>c. c \<noteq> CHR ''/'') s"

definition after_slash :: "string \<Rightarrow> string" where "after_slash s = tl (dropWhile (\<lambda>c. c \<noteq> CHR ''/'') s)"

definition has_slash :: "string \<Rightarrow> bool" where "has_slash s = (CHR ''/'' \<in> set s)"

definition model_prefix :: "string \<Rightarrow> string" where
  "model_prefix m = (if has_slash m then before_slash m else [])"

definition after_last_slash :: "string \<Rightarrow> string" where
  "after_last_slash s = rev (takeWhile (\<lambda>c. c \<noteq> CHR ''/'') (rev s))"

definition keyword_matches :: "string \<Rightarrow> string \<Rightarrow> bool" where
  "keyword_matches m kw = (str_in kw m \<or> str_in (underscores kw) (underscores m))"

definition find_by_model :: "string \<Rightarrow> provider_spec option" where
  "find_by_model model =
     (let m = lower model; pre = model_prefix m; std = filter (\<lambda>s. \<not> ps_gateway s \<and> \<not> ps_local s) providers
      in case find (\<lambda>s. pre \<noteq> [] \<and> underscores pre = ps_name s) std of
           Some s \<Rightarrow> Some s
         | None \<Rightarrow> find (\<lambda>s. list_ex (keyword_matches m) (ps_keywords s)) std)"

definition find_by_name :: "string \<Rightarrow> provider_spec option" where
  "find_by_name name = find (\<lambda>s. ps_name s = name) providers"

definition given_in :: "string option \<Rightarrow> string option" where
  "given_in x = (case x of Some s \<Rightarrow> if s = [] then None else Some s | None \<Rightarrow> None)"

definition detects :: "string option \<Rightarrow> string option \<Rightarrow> provider_spec \<Rightarrow> bool" where
  "detects key base s =
     ((ps_key_prefix s \<noteq> [] \<and> (case given_in key of Some k \<Rightarrow> startswith k (ps_key_prefix s) | None \<Rightarrow> False))
      \<or> (ps_base_keyword s \<noteq> [] \<and> (case given_in base of Some b \<Rightarrow> str_in (ps_base_keyword s) b | None \<Rightarrow> False)))"

definition find_gateway :: "string option \<Rightarrow> string option \<Rightarrow> string option \<Rightarrow> provider_spec option" where
  "find_gateway name key base =
     (case (case given_in name of Some n \<Rightarrow> find_by_name n | None \<Rightarrow> None) of
        Some s \<Rightarrow> if ps_gateway s \<or> ps_local s then Some s else find (detects key base) providers
      | None \<Rightarrow> find (detects key base) providers)"

section \<open>Matching of the configuration\<close>

record provider_config =
  pc_key :: string
  pc_base :: "string option"

type_synonym provider_configs = "(string, provider_config) pydict"

definition usable :: "provider_configs \<Rightarrow> provider_spec \<Rightarrow> bool" where
  "usable cs s = (case dget cs (ps_name s) of None \<Rightarrow> False | Some p \<Rightarrow> ps_oauth s \<or> pc_key p \<noteq> [])"

definition match_provider :: "string \<Rightarrow> string \<Rightarrow> provider_configs \<Rightarrow> string option \<Rightarrow> (provider_config \<times> string) option" where
  "match_provider forced dflt cs model =
     (if forced \<noteq> ''auto'' then map_option (\<lambda>p. (p, forced)) (dget cs forced)
      else let m = lower (case given_in model of Some m \<Rightarrow> m | None \<Rightarrow> dflt); pre = model_prefix m;
               hit = (case find (\<lambda>s. usable cs s \<and> pre \<noteq> [] \<and> underscores pre = ps_name s) providers of
                        Some s \<Rightarrow> Some s
                      | None \<Rightarrow> (case find (\<lambda>s. usable cs s \<and> list_ex (\<lambda>kw. keyword_matches m (lower kw)) (ps_keywords s)) providers of
                          Some s \<Rightarrow> Some s
                        | None \<Rightarrow> find (\<lambda>s. \<not> ps_oauth s \<and> usable cs s) providers))
           in map_option (\<lambda>s. (the (dget cs (ps_name s)), ps_name s)) hit)"

definition config_api_base :: "string \<Rightarrow> string \<Rightarrow> provider_configs \<Rightarrow> string option \<Rightarrow> string option" where
  "config_api_base forced dflt cs model =
     (case match_provider forced dflt cs model of
        None \<Rightarrow> None
      | Some (p, name) \<Rightarrow> (case given_in (pc_base p) of
          Some b \<Rightarrow> Some b
        | None \<Rightarrow> (if name = [] then None else case find_by_name name of
            Some s \<Rightarrow> if ps_gateway s \<and> ps_default_base s \<noteq> [] then Some (ps_default_base s) else None | None \<Rightarrow> None)))"

text \<open>Which client the factory builds; \<open>None\<close> is its exit with an error.\<close>

datatype provider_client =
    CodexClient string
  | CustomClient string string string
  | AzureClient string string string
  | OllamaClient "string option" "string option" string
  | VllmClient "string option" "string option" string
  | LiteLLMClient "string option" "string option" string "string option"

definition make_provider :: "string \<Rightarrow> string \<Rightarrow> provider_configs \<Rightarrow> provider_client option" where
  "make_provider forced model cs =
     (let hit = match_provider forced model cs (Some model); name = map_option snd hit; p = map_option fst hit;
          base = config_api_base forced model cs (Some model); key = map_option pc_key p
      in if name = Some ''openai_codex'' \<or> startswith model ''openai-codex/'' then Some (CodexClient model)
         else if name = Some ''custom'' then
           Some (CustomClient (case key of Some k \<Rightarrow> k | None \<Rightarrow> ''no-key'') (case given_in base of Some b \<Rightarrow> b | None \<Rightarrow> ''http://localhost:8000/v1'') model)
         else if name = Some ''azure_openai'' then
           (case p of None \<Rightarrow> None
            | Some c \<Rightarrow> if pc_key c = [] \<or> given_in (pc_base c) = None then None else Some (AzureClient (pc_key c) (the (pc_base c)) model))
         else if name = Some ''ollama'' then Some (OllamaClient key base model)
         else if name = Some ''vllm'' then Some (VllmClient key base model)
         else let spec = find_by_name (case given_in name of Some n \<Rightarrow> n | None \<Rightarrow> ''openai'')
              in if \<not> startswith model ''bedrock/'' \<and> given_in key = None \<and> \<not> (case spec of Some s \<Rightarrow> ps_oauth s | None \<Rightarrow> False) then None
                 else Some (LiteLLMClient key base model name))"

section \<open>Names of models\<close>

definition canonicalize_explicit_prefix :: "string \<Rightarrow> string \<Rightarrow> string \<Rightarrow> string" where
  "canonicalize_explicit_prefix model name pre =
     (if \<not> has_slash model then model
      else if underscores (lower (before_slash model)) \<noteq> name then model else pre @ ''/'' @ after_slash model)"

definition resolve_model :: "provider_spec option \<Rightarrow> string \<Rightarrow> string" where
  "resolve_model gateway model =
     (case gateway of
        Some g \<Rightarrow>
          (let m = (if ps_strip_prefix g then after_last_slash model else model)
           in if ps_prefix g \<noteq> [] \<and> \<not> startswith m (ps_prefix g @ ''/'') then ps_prefix g @ ''/'' @ m else m)
      | None \<Rightarrow>
          (case find_by_model model of
             Some s \<Rightarrow>
               (if ps_prefix s = [] then model
                else let m = canonicalize_explicit_prefix model (ps_name s) (ps_prefix s)
                     in if list_ex (startswith m) (ps_skip_prefixes s) then m else ps_prefix s @ ''/'' @ m)
           | None \<Rightarrow> model))"

definition litellm_provider_name :: "provider_spec option \<Rightarrow> string \<Rightarrow> string" where
  "litellm_provider_name gateway model =
     (case gateway of Some g \<Rightarrow> ps_name g | None \<Rightarrow> (case find_by_model model of Some s \<Rightarrow> ps_name s | None \<Rightarrow> ''openai''))"

section \<open>Environment variables\<close>

type_synonym environment = "(string, string) pydict"

definition setdefault :: "string \<Rightarrow> string \<Rightarrow> environment \<Rightarrow> environment" where
  "setdefault k v env = (if dhas env k then env else dset k v env)"

definition fill_in :: "string \<Rightarrow> string \<Rightarrow> string \<Rightarrow> string" where
  "fill_in key base template = replace ''{api_base}'' base (replace ''{api_key}'' key template)"

definition setup_env :: "provider_spec option \<Rightarrow> string \<Rightarrow> string option \<Rightarrow> string \<Rightarrow> environment \<Rightarrow> environment" where
  "setup_env gateway key base model env =
     (case (case gateway of Some g \<Rightarrow> Some g | None \<Rightarrow> find_by_model model) of
        None \<Rightarrow> env
      | Some s \<Rightarrow>
          (if ps_env_key s = [] then env
           else let env = (if gateway \<noteq> None then dset (ps_env_key s) key env else setdefault (ps_env_key s) key env);
                    b = (case given_in base of Some b \<Rightarrow> b | None \<Rightarrow> ps_default_base s)
                in fold (\<lambda>(n, v). setdefault n (fill_in key b v)) (ps_env_extras s) env))"

text \<open>The constructor of the client: the gateway it detects, and the variables it sets unless its key is a reference to the vault.\<close>

definition new_litellm :: "string option \<Rightarrow> string option \<Rightarrow> string \<Rightarrow> string option \<Rightarrow> environment \<Rightarrow> provider_spec option \<times> environment" where
  "new_litellm key base model name env =
     (let g = find_gateway name key base
      in (g, case given_in key of None \<Rightarrow> env | Some k \<Rightarrow> if startswith k ''vault://'' then env else setup_env g k base model env))"

text \<open>Entering the context of a call: the values to go back to, and the environment of the call.\<close>

definition enter_env :: "provider_spec option \<Rightarrow> string option \<Rightarrow> string option \<Rightarrow> string \<Rightarrow> environment \<Rightarrow> (string, string option) pydict \<times> environment" where
  "enter_env gateway key base model env =
     (case (given_in key, case gateway of Some g \<Rightarrow> Some g | None \<Rightarrow> find_by_model model) of
        (Some k, Some s) \<Rightarrow>
          (if ps_env_key s = [] then ([], env)
           else let old = [(ps_env_key s, dget env (ps_env_key s))];
                    env = (if gateway \<noteq> None then dset (ps_env_key s) k env else setdefault (ps_env_key s) k env);
                    b = (case given_in base of Some b \<Rightarrow> b | None \<Rightarrow> ps_default_base s)
                in fold (\<lambda>(n, v) (old, env). (dset n (dget env n) old, setdefault n (fill_in k b v) env)) (ps_env_extras s) (old, env))
      | _ \<Rightarrow> ([], env))"

definition exit_env :: "(string, string option) pydict \<Rightarrow> environment \<Rightarrow> environment" where
  "exit_env old env = fold (\<lambda>(k, v). case v of None \<Rightarrow> dpop k | Some x \<Rightarrow> dset k x) old env"

definition env_context ::
  "provider_spec option \<Rightarrow> string option \<Rightarrow> string option \<Rightarrow> string \<Rightarrow> (environment \<Rightarrow> environment) \<Rightarrow> environment \<Rightarrow> environment" where
  "env_context gateway key base model body env =
     (let (old, env') = enter_env gateway key base model env in exit_env old (body env'))"

section \<open>Properties\<close>

text \<open>The variables of a specification are distinct.\<close>

definition env_names :: "provider_spec \<Rightarrow> string list" where
  "env_names s = ps_env_key s # map fst (ps_env_extras s)"

lemma providers_env_names: "list_all (\<lambda>s. distinct (env_names s)) providers"
  by code_simp

lemma find_registered: "find P xs = Some x \<Longrightarrow> x \<in> set xs"
  by (auto simp: find_Some_iff in_set_conv_nth)

lemma find_by_model_mem: "find_by_model m = Some s \<Longrightarrow> s \<in> set providers"
  by (auto simp: find_by_model_def Let_def dest!: find_registered split: option.splits)

lemma find_gateway_mem: "find_gateway n k b = Some s \<Longrightarrow> s \<in> set providers"
  by (auto simp: find_gateway_def find_by_name_def dest: find_registered split: option.splits if_splits)

definition env_spec :: "provider_spec option \<Rightarrow> string option \<Rightarrow> string \<Rightarrow> provider_spec option" where
  "env_spec gateway key model =
     (case (given_in key, case gateway of Some g \<Rightarrow> Some g | None \<Rightarrow> find_by_model model) of
        (Some k, Some s) \<Rightarrow> if ps_env_key s = [] then None else Some s | _ \<Rightarrow> None)"

lemma dget_setdefault: "dget (setdefault k v env) j = (if j = k \<and> dget env k = None then Some v else dget env j)"
  by (auto simp: setdefault_def dhas_def)

lemma extras_saved:
  assumes "distinct (map fst xs)"
    and "fold (\<lambda>(n, v) (old, env). (dset n (dget env n) old, setdefault n (f v) env)) xs (old, env) = (old', env')"
  shows "dget old' j = (if j \<in> set (map fst xs) then Some (dget env j) else dget old j)"
  using assms
proof (induction xs arbitrary: old env)
  case (Cons x xs)
  obtain n v where x: "x = (n, v)" by fastforce
  from Cons.prems x have run: "fold (\<lambda>(n, v) (old, env). (dset n (dget env n) old, setdefault n (f v) env)) xs (dset n (dget env n) old, setdefault n (f v) env) = (old', env')"
    and fresh: "n \<notin> set (map fst xs)" and dist: "distinct (map fst xs)" by auto
  from Cons.IH [OF dist run] fresh x show ?case by (auto simp: dget_setdefault)
qed simp

lemma extras_dict_ok:
  "dict_ok old \<Longrightarrow> dict_ok (fst (fold (\<lambda>(n, v) (old, env). (dset n (dget env n) old, setdefault n (f v) env)) xs (old, env)))"
  by (induction xs arbitrary: old env) (auto simp: dict_ok_dset)

lemma extras_untouched:
  "j \<notin> set (map fst xs) \<Longrightarrow> dget (snd (fold (\<lambda>(n, v) (old, env). (dset n (dget env n) old, setdefault n (f v) env)) xs (old, env))) j = dget env j"
  by (induction xs arbitrary: old env) (auto simp: dget_setdefault)

lemma exit_env_get: "dict_ok old \<Longrightarrow> dget (exit_env old env) j = (case dget old j of Some v \<Rightarrow> v | None \<Rightarrow> dget env j)"
proof (induction old arbitrary: env)
  case (Cons p old)
  obtain k v where p: "p = (k, v)" by fastforce
  from Cons.prems p have "dict_ok old" "dget old k = None" by (auto simp: dict_ok_def map_of_eq_None_iff)
  with Cons.IH p show ?case by (auto simp: exit_env_def split: option.splits)
qed (simp add: exit_env_def)

lemma env_context_none: "env_spec gateway key model = None \<Longrightarrow> env_context gateway key base model body env = body env"
  by (auto simp: env_context_def enter_env_def env_spec_def exit_env_def split: option.splits if_splits)

lemma enter_env_old:
  assumes "env_spec gateway key model = Some s" and "distinct (env_names s)"
  shows "dict_ok (fst (enter_env gateway key base model env))"
    "dget (fst (enter_env gateway key base model env)) j = (if j \<in> set (env_names s) then Some (dget env j) else None)"
proof -
  from assms(1) obtain k where k: "given_in key = Some k" "(case gateway of Some g \<Rightarrow> Some g | None \<Rightarrow> find_by_model model) = Some s" "ps_env_key s \<noteq> []"
    by (auto simp: env_spec_def split: option.splits if_splits)
  let ?env = "if gateway \<noteq> None then dset (ps_env_key s) k env else setdefault (ps_env_key s) k env"
  let ?b = "case given_in base of Some b \<Rightarrow> b | None \<Rightarrow> ps_default_base s"
  let ?old = "[(ps_env_key s, dget env (ps_env_key s))]"
  have run: "enter_env gateway key base model env
    = fold (\<lambda>(n, v) (old, env). (dset n (dget env n) old, setdefault n (fill_in k ?b v) env)) (ps_env_extras s) (?old, ?env)"
    using k by (simp add: enter_env_def Let_def)
  show "dict_ok (fst (enter_env gateway key base model env))"
    unfolding run by (rule extras_dict_ok) (simp add: dict_ok_def)
  obtain old' env' where r: "fold (\<lambda>(n, v) (old, env). (dset n (dget env n) old, setdefault n (fill_in k ?b v) env)) (ps_env_extras s) (?old, ?env) = (old', env')"
    by fastforce
  have "dget ?env j = dget env j" if "j \<noteq> ps_env_key s" for j using that by (simp add: dget_setdefault)
  with extras_saved [OF _ r, of j] assms(2)
  show "dget (fst (enter_env gateway key base model env)) j = (if j \<in> set (env_names s) then Some (dget env j) else None)"
    unfolding run r by (auto simp: env_names_def)
qed

text \<open>
  The environment of a call is taken back: whatever gateway was detected, key and model are used and whatever the
  call does, afterwards the variables of the provider have the values they had before, and all others those the
  call left.
\<close>

theorem env_context_restores:
  "dget (env_context (find_gateway n k0 b0) key base model body env) j
   = (case env_spec (find_gateway n k0 b0) key model of
        Some s \<Rightarrow> if j \<in> set (env_names s) then dget env j else dget (body (snd (enter_env (find_gateway n k0 b0) key base model env))) j
      | None \<Rightarrow> dget (body env) j)"
proof (cases "env_spec (find_gateway n k0 b0) key model")
  case None
  then show ?thesis by (simp add: env_context_none)
next
  case (Some s)
  then have "s \<in> set providers"
    by (auto simp: env_spec_def dest: find_gateway_mem find_by_model_mem split: option.splits if_splits)
  with providers_env_names have "distinct (env_names s)" by (simp add: list_all_iff)
  note old = enter_env_old [OF Some this]
  show ?thesis
    using exit_env_get [OF old(1) [of base env], of "body (snd (enter_env (find_gateway n k0 b0) key base model env))" j] old(2) [of base env j] Some
    by (simp add: env_context_def split_beta)
qed

definition overlapping_calls :: "environment \<times> environment" where
  "overlapping_calls =
     (let (old1, env) = enter_env None (Some ''key-1'') None ''claude-3'' [];
          (old2, env2) = enter_env None (Some ''key-2'') None ''claude-3'' env
      in (env2, exit_env old2 (exit_env old1 env2)))"

text \<open>
  The contexts of two calls may overlap, since calls wait. When the first to enter is the first to leave, the second
  runs with the key of the first, and its leaving puts that key into the environment for good.
\<close>

theorem overlapping_calls_leak_key:
  "overlapping_calls = ([(''ANTHROPIC_API_KEY'', ''key-1'')], [(''ANTHROPIC_API_KEY'', ''key-1'')])"
  by code_simp

text \<open>
  Any base URL with \<open>v1\<close> in it is taken for a gateway or a local server, whatever the provider: its models are then
  not looked up, and a standard provider behind a proxy gets the prefix of another.
\<close>

theorem v1_base_is_gateway:
  assumes "str_in ''v1'' base"
  shows "find_gateway name key (Some base) \<noteq> None"
proof -
  have mem: "list_ex (\<lambda>s. ps_base_keyword s = ''v1'') providers" by code_simp
  have "base \<noteq> []" using assms by auto
  from mem obtain s where s: "s \<in> set providers" "ps_base_keyword s = ''v1''" by (auto simp: list_ex_iff)
  with assms \<open>base \<noteq> []\<close> have "detects key (Some base) s" by (simp add: detects_def given_in_def)
  with s(1) have "list_ex (detects key (Some base)) providers" by (auto simp: list_ex_iff)
  then have "find (detects key (Some base)) providers \<noteq> None" by (simp add: find_None_iff list_ex_iff Bex_def)
  then show ?thesis by (auto simp: find_gateway_def split: option.splits)
qed

theorem v1_base_is_gateway_witness:
  "find_gateway (Some ''deepseek'') (Some ''sk-1'') (Some ''https://api.deepseek.com/v1'') \<noteq> None
   \<and> resolve_model (find_gateway (Some ''deepseek'') (Some ''sk-1'') (Some ''https://api.deepseek.com/v1'')) ''deepseek-chat'' = ''openai/deepseek-chat''
   \<and> resolve_model (find_gateway (Some ''deepseek'') (Some ''sk-1'') None) ''deepseek-chat'' = ''deepseek/deepseek-chat''"
proof (intro conjI)
  have "str_in ''v1'' ''https://api.deepseek.com/v1''" by code_simp
  then show "find_gateway (Some ''deepseek'') (Some ''sk-1'') (Some ''https://api.deepseek.com/v1'') \<noteq> None"
    by (rule v1_base_is_gateway)
qed code_simp+

text \<open>
  The provider matched for a model is one the configuration holds, with a key or by OAuth; an OAuth provider is never
  a fallback: its name stands before the slash, or the model has one of its keywords. Without a match no provider but
  those has a key.
\<close>

theorem match_provider_sound:
  "case match_provider ''auto'' dflt cs model of
     Some (p, name) \<Rightarrow> dget cs name = Some p \<and> (\<exists>s \<in> set providers. ps_name s = name
        \<and> (if ps_oauth s
            then let m = lower (case given_in model of Some m \<Rightarrow> m | None \<Rightarrow> dflt)
                 in underscores (model_prefix m) = name \<or> (\<exists>kw \<in> set (ps_keywords s). keyword_matches m (lower kw))
            else pc_key p \<noteq> []))
   | None \<Rightarrow> \<forall>s \<in> set providers. ps_oauth s \<or> \<not> usable cs s"
proof -
  define m where "m = lower (case given_in model of Some m \<Rightarrow> m | None \<Rightarrow> dflt)"
  let ?first = "find (\<lambda>s. usable cs s \<and> model_prefix m \<noteq> [] \<and> underscores (model_prefix m) = ps_name s) providers"
  let ?second = "find (\<lambda>s. usable cs s \<and> list_ex (\<lambda>kw. keyword_matches m (lower kw)) (ps_keywords s)) providers"
  let ?third = "find (\<lambda>s. \<not> ps_oauth s \<and> usable cs s) providers"
  define hit where "hit = (case ?first of Some s \<Rightarrow> Some s | None \<Rightarrow> (case ?second of Some s \<Rightarrow> Some s | None \<Rightarrow> ?third))"
  have eq: "match_provider ''auto'' dflt cs model = map_option (\<lambda>s. (the (dget cs (ps_name s)), ps_name s)) hit"
    unfolding match_provider_def Let_def hit_def m_def by simp
  show ?thesis
  proof (cases hit)
    case None
    then have "?third = None" by (simp add: hit_def split: option.splits)
    with None show ?thesis by (auto simp: eq find_None_iff)
  next
    case (Some s)
    then consider "?first = Some s" | "?second = Some s" | "?third = Some s" by (auto simp: hit_def split: option.splits)
    then have s: "s \<in> set providers" "usable cs s"
      "ps_oauth s \<longrightarrow> underscores (model_prefix m) = ps_name s \<or> (\<exists>kw \<in> set (ps_keywords s). keyword_matches m (lower kw))"
      by (cases; auto simp: find_Some_iff in_set_conv_nth list_ex_iff)+
    from s(2) obtain p where p: "dget cs (ps_name s) = Some p" "ps_oauth s \<or> pc_key p \<noteq> []" by (auto simp: usable_def split: option.splits)
    show ?thesis unfolding eq Some using s p by (auto simp: m_def [symmetric] Let_def intro!: bexI [of _ s])
  qed
qed

lemma after_last_slash_free: "CHR ''/'' \<notin> set (after_last_slash s)"
  by (auto simp: after_last_slash_def dest: set_takeWhileD)

lemma takeWhile_free: "c \<notin> set s \<Longrightarrow> takeWhile (\<lambda>x. x \<noteq> c) s = s"
  by (induction s) auto

lemma after_last_slash_id: "CHR ''/'' \<notin> set s \<Longrightarrow> after_last_slash s = s"
  unfolding after_last_slash_def by (simp only: takeWhile_free set_rev rev_rev_ident not_False_eq_True)

lemma after_last_slash_prefix: "CHR ''/'' \<notin> set s \<Longrightarrow> after_last_slash (p @ CHR ''/'' # s) = s"
proof -
  assume free: "CHR ''/'' \<notin> set s"
  have "takeWhile (\<lambda>x. x \<noteq> c) (t @ c # u) = t" if "c \<notin> set t" for c :: char and t u using that by (induction t) auto
  from this [of "CHR ''/''" "rev s" "rev p"] free show ?thesis by (simp add: after_last_slash_def)
qed

lemma startswith_slash: "CHR ''/'' \<notin> set s \<Longrightarrow> \<not> startswith s (p @ ''/'')"
  unfolding startswith_def by (metis in_set_conv_decomp in_set_takeD append_Cons append_Nil)

lemma startswith_self: "startswith (p @ q) p"
  by (simp add: startswith_def)

text \<open>
  A gateway's prefix is put before a model once: what a gateway client makes of a name begins with the prefix and
  stays as it is when resolved again.
\<close>

theorem gateway_prefix_once:
  "let m = resolve_model (Some g) model
   in (ps_prefix g = [] \<or> startswith m (ps_prefix g @ ''/'')) \<and> resolve_model (Some g) m = m"
proof -
  have s: "startswith (p @ CHR ''/'' # q) (p @ ''/'')" for p q :: string
    using startswith_self [of "p @ ''/''" q] by simp
  show ?thesis
    by (auto simp: resolve_model_def Let_def s after_last_slash_prefix [OF after_last_slash_free] after_last_slash_id [OF after_last_slash_free]
        startswith_slash [OF after_last_slash_free])
qed

text \<open>The second entries of two names are never found by name: what they say of local servers is without effect there.\<close>

lemma second_entries_unnamed:
  "find_by_name ''vllm'' = Some vllm_spec \<and> find_by_name ''ollama'' = Some ollama_spec \<and> vllm_spec \<noteq> vllm_spec2 \<and> ollama_spec \<noteq> ollama_spec2"
  by code_simp

text \<open>A name that says Zhipu is sent to Zhipu, and looked up again it counts as DeepSeek's.\<close>

lemma resolved_name_changes_provider:
  "resolve_model None ''zhipu/deepseek-v3'' = ''zai/deepseek-v3'' \<and> litellm_provider_name None ''zai/deepseek-v3'' = ''deepseek''"
  by code_simp

end
