(* ===== verification/Cron_Races.thy ===== *)
theory Cron_Races
  imports Cron_Service
begin

text \<open>A run of the cron service of \<open>cron/service.py\<close> beside a process that writes its file, evaluated step by step.\<close>

text \<open>
  When the file was written by others before the pass, a one-shot job that deletes itself makes the pass read
  the store again and the outcomes of the jobs that ran before it are lost: they are due again at the
  next pass.
\<close>

theorem cron_external_edit_runs_twice:
  "let s = cron_step (\<lambda>_ _ _. None) (\<lambda>_. None) (\<lambda>_. True) (EditFile (dump_store sample_jobs)) (new_cron None);
       pass = (\<lambda>s. on_timer (\<lambda>_ _ _. None) (\<lambda>_. None) (\<lambda>_. (1000, 1001)) 1000 1002 s)
   in fst (pass s) = [''a'', ''b''] \<and> fst (pass (snd (pass s))) = [''a'']
      \<and> fst (pass (snd (pass (save_store (snd (load_store s)))))) = []"
  by code_simp

end
