(* ===== verification/Provider_Errors.thy ===== *)
theory Provider_Errors
  imports Py_Regex
begin

text \<open>
  \<open>providers/errors.py\<close>, the classes of provider errors and how a raw error is put into one, and the retries of
  \<open>providers/base.py\<close>. The call of a model is a parameter, numbered by the calls made so far.
\<close>

section \<open>Classes of errors\<close>

datatype error_class =
    RateLimited "rat option" | BadCredentials | ContextExceeded | TimedOut | ServerFailed | UnknownModel | BadRequest | OtherError

record provider_error =
  pe_class :: error_class
  pe_message :: string
  pe_provider :: string
  pe_model :: string
  pe_status :: "int option"
  pe_retryable :: bool

text \<open>The constructors, with the status and the retry flag each class fixes.\<close>

definition class_status :: "error_class \<Rightarrow> int option \<Rightarrow> int option" where
  "class_status c status =
     (let given = (case status of None \<Rightarrow> None | Some n \<Rightarrow> if n = 0 then None else Some n)
      in case c of
           RateLimited r \<Rightarrow> Some 429
         | BadCredentials \<Rightarrow> Some (case given of Some n \<Rightarrow> n | None \<Rightarrow> 401)
         | ContextExceeded \<Rightarrow> Some 400
         | TimedOut \<Rightarrow> Some 504
         | ServerFailed \<Rightarrow> Some (case given of Some n \<Rightarrow> n | None \<Rightarrow> 500)
         | UnknownModel \<Rightarrow> Some 404
         | BadRequest \<Rightarrow> Some 400
         | OtherError \<Rightarrow> status)"

definition class_retryable :: "error_class \<Rightarrow> bool" where
  "class_retryable c = (case c of RateLimited r \<Rightarrow> True | TimedOut \<Rightarrow> True | ServerFailed \<Rightarrow> True | _ \<Rightarrow> False)"

definition new_provider_error :: "error_class \<Rightarrow> string \<Rightarrow> string \<Rightarrow> string \<Rightarrow> int option \<Rightarrow> provider_error" where
  "new_provider_error c message provider model status =
     \<lparr>pe_class = c, pe_message = message, pe_provider = provider, pe_model = model,
      pe_status = class_status c status, pe_retryable = class_retryable c\<rparr>"

section \<open>Classification\<close>

definition mentions :: "string \<Rightarrow> string list \<Rightarrow> bool" where "mentions txt kws = list_ex (\<lambda>kw. str_in kw txt) kws"

definition rate_words :: "string list" where
  "rate_words = [''429'', ''rate limit'', ''ratelimit'', ''quota exceeded'', ''too many requests'']"

definition auth_words :: "string list" where
  "auth_words = [''401'', ''403'', ''unauthorized'', ''invalid_api_key'', ''invalid api key'', ''authentication'', ''forbidden'']"

definition context_words :: "string list" where
  "context_words = [''context_length_exceeded'', ''context window'', ''maximum context length'', ''token limit exceeded'', ''prompt is too long'']"

definition timeout_words :: "string list" where
  "timeout_words = [''timeout'', ''timed out'', ''deadline exceeded'', ''readtimeout'', ''connecttimeout'']"

definition model_words :: "string list" where
  "model_words = [''404'', ''model not found'', ''does not exist'', ''model_not_found'']"

definition server_words :: "string list" where
  "server_words = [''500'', ''502'', ''503'', ''server error'', ''overloaded'', ''internal server error'', ''bad gateway'',
     ''service unavailable'', ''temporarily unavailable'', ''connection refused'', ''connection error'']"

definition request_words :: "string list" where
  "request_words = [''400'', ''invalid_request_error'', ''bad request'', ''unsupported parameter'']"

text \<open>
  The number of \<open>retry[- ]after[:\s]+(\d+(?:\.\d+)?)\<close>: the digits are what is left of a match without its first eleven
  characters and the colons and blanks after them.
\<close>

definition retry_pattern :: rx where
  "retry_pattern =
     seq [lit ''retry'', Cls (one_of ''- ''), lit ''after'', Rep 1 None True (Cls (\<lambda>c. c = CHR '':'' \<or> space_char c)),
          Rep 1 None True (Cls is_digit), Rep 0 (Some 1) True (seq [lit ''.'', Rep 1 None True (Cls is_digit)])]"

definition digit_of :: "char \<Rightarrow> rat" where "digit_of c = of_nat (of_char c - 48)"

definition decimal :: "string \<Rightarrow> rat" where
  "decimal s =
     (let whole = takeWhile is_digit s; frac = drop (length whole + 1) s
      in foldl (\<lambda>n c. 10 * n + digit_of c) 0 whole + foldr (\<lambda>c x. (digit_of c + x) / 10) frac 0)"

definition retry_after :: "string \<Rightarrow> rat option" where
  "retry_after txt =
     (case finditer retry_pattern txt of
        [] \<Rightarrow> None
      | (i, j) # _ \<Rightarrow> Some (decimal (dropWhile (\<lambda>c. c = CHR '':'' \<or> space_char c) (drop 11 (substr txt i j)))))"

definition classify :: "string \<Rightarrow> int option \<Rightarrow> error_class" where
  "classify raw status =
     (let t = lower raw
      in if status = Some 429 \<or> mentions t rate_words then RateLimited (retry_after t)
         else if status \<in> {Some 401, Some 403} \<or> mentions t auth_words then BadCredentials
         else if mentions t context_words then ContextExceeded
         else if status \<in> {Some 408, Some 504} \<or> mentions t timeout_words then TimedOut
         else if status = Some 404 \<or> mentions t model_words then UnknownModel
         else if (case status of Some n \<Rightarrow> n \<noteq> 0 \<and> n \<ge> 500 | None \<Rightarrow> False) \<or> mentions t server_words then ServerFailed
         else if status = Some 400 \<or> mentions t request_words then BadRequest
         else OtherError)"

text \<open>What is raised: an error of these classes already, or anything else, by its text and the status found on it.\<close>

datatype raw_error = Normalized provider_error | Raw string "int option"

definition normalize_provider_error :: "raw_error \<Rightarrow> string \<Rightarrow> string \<Rightarrow> provider_error" where
  "normalize_provider_error e provider model =
     (case e of Normalized p \<Rightarrow> p | Raw txt status \<Rightarrow> new_provider_error (classify txt status) txt provider model status)"

section \<open>Calls with retries\<close>

record tool_request =
  tq_id :: string
  tq_name :: string
  tq_arguments :: "(string, json) pydict"

record provider_response =
  lr_content :: "string option"
  lr_tool_calls :: "tool_request list"
  lr_finish :: string

definition transient_markers :: "string list" where
  "transient_markers = [''429'', ''rate limit'', ''500'', ''502'', ''503'', ''504'', ''overloaded'', ''timeout'', ''timed out'', ''connection'',
     ''server error'', ''temporarily unavailable'']"

definition is_transient_error :: "string option \<Rightarrow> bool" where
  "is_transient_error content =
     (case content of
        None \<Rightarrow> False
      | Some c \<Rightarrow> c \<noteq> [] \<and> (pe_retryable (normalize_provider_error (Raw c None) [] []) \<or> mentions (lower c) transient_markers))"

datatype chat_outcome = Answered provider_response | ChatFailed string | ChatCancelled

definition error_response :: "string \<Rightarrow> string \<Rightarrow> provider_response" where
  "error_response model e = \<lparr>lr_content = Some (''Error calling LLM ('' @ model @ ''): '' @ e), lr_tool_calls = [], lr_finish = ''error''\<rparr>"

definition malformed :: "provider_response \<Rightarrow> bool" where
  "malformed r = list_ex (\<lambda>tc. dhas (tq_arguments tc) ''raw'' \<and> length (tq_arguments tc) = 1) (lr_tool_calls r)"

text \<open>The two messages that ask for a correction; \<open>show\<close> is Python's \<open>str\<close> of the arguments.\<close>

definition correction_text :: string where
  "correction_text = ''Your previous tool call contained malformed JSON. Please correct it and output strictly valid JSON without any markdown formatting.''"

definition correction_messages :: "((string, json) pydict \<Rightarrow> string) \<Rightarrow> provider_response \<Rightarrow> json list" where
  "correction_messages show_args r =
     [JObj [(''role'', JStr ''assistant''), (''content'', JStr (case lr_content r of Some c \<Rightarrow> c | None \<Rightarrow> [])),
        (''tool_calls'', JList (map (\<lambda>tc. JObj [(''id'', JStr (tq_id tc)), (''type'', JStr ''function''),
           (''function'', JObj [(''name'', JStr (tq_name tc)), (''arguments'', JStr (show_args (tq_arguments tc)))])]) (lr_tool_calls r)))],
      JObj [(''role'', JStr ''user''), (''content'', JStr correction_text)]]"

definition retry_delays :: "nat list" where "retry_delays = [1, 2, 4]"

record chat_world =
  cw_chat :: "nat \<Rightarrow> string \<Rightarrow> json list \<Rightarrow> chat_outcome"
  cw_show :: "(string, json) pydict \<Rightarrow> string"

record retry_state =
  rs_messages :: "json list"
  rs_calls :: nat
  rs_slept :: "nat list"
  rs_last :: "provider_response option"

datatype retry_result = Returned provider_response | Exhausted | Interrupted

text \<open>What an attempt leaves as the last response; a cancelled one leaves none.\<close>

definition response_of :: "string \<Rightarrow> chat_outcome \<Rightarrow> provider_response option" where
  "response_of model out = (case out of Answered x \<Rightarrow> Some x | ChatFailed e \<Rightarrow> Some (error_response model e) | ChatCancelled \<Rightarrow> None)"

text \<open>The attempts left for one model: with \<open>r + 1\<close> left this is attempt \<open>3 - r\<close>.\<close>

primrec try_attempts :: "nat \<Rightarrow> chat_world \<Rightarrow> string \<Rightarrow> retry_state \<Rightarrow> retry_result \<times> retry_state" where
  "try_attempts 0 w model s = (Exhausted, s)"
| "try_attempts (Suc r) w model s =
     (case response_of model (cw_chat w (rs_calls s) model (rs_messages s)) of
        None \<Rightarrow> (Interrupted, s\<lparr>rs_calls := rs_calls s + 1\<rparr>)
      | Some resp \<Rightarrow>
          (let s = s\<lparr>rs_calls := rs_calls s + 1, rs_last := Some resp\<rparr>
           in if lr_finish resp \<noteq> ''error'' then
                (if malformed resp \<and> r > 0
                 then try_attempts r w model (s\<lparr>rs_messages := rs_messages s @ correction_messages (cw_show w) resp\<rparr>)
                 else (Returned resp, s))
              else if r = 0 \<or> \<not> is_transient_error (lr_content resp) then (Exhausted, s)
              else try_attempts r w model (s\<lparr>rs_slept := rs_slept s @ [retry_delays ! (3 - r)]\<rparr>)))"

fun try_models_in_turn :: "chat_world \<Rightarrow> string list \<Rightarrow> retry_state \<Rightarrow> retry_result \<times> retry_state" where
  "try_models_in_turn w [] s = (Exhausted, s)"
| "try_models_in_turn w (m # ms) s =
     (if m = [] then try_models_in_turn w ms s
      else case try_attempts 4 w m s of
        (Exhausted, s') \<Rightarrow> try_models_in_turn w ms s' | x \<Rightarrow> x)"

definition chat_with_retry :: "chat_world \<Rightarrow> string \<Rightarrow> string list \<Rightarrow> json list \<Rightarrow> (provider_response option) \<times> retry_state" where
  "chat_with_retry w model fallbacks messages =
     (case try_models_in_turn w (model # fallbacks) \<lparr>rs_messages = messages, rs_calls = 0, rs_slept = [], rs_last = None\<rparr> of
        (Returned r, s) \<Rightarrow> (Some r, s)
      | (Interrupted, s) \<Rightarrow> (None, s)
      | (Exhausted, s) \<Rightarrow>
          (Some (case rs_last s of Some r \<Rightarrow> r
                 | None \<Rightarrow> \<lparr>lr_content = Some ''LLM call failed after trying all models. Last error: None'', lr_tool_calls = [], lr_finish = ''error''\<rparr>), s))"

section \<open>Properties\<close>

text \<open>The flag to retry follows the class.\<close>

lemma retryable_iff:
  "pe_retryable (normalize_provider_error (Raw txt status) p m) \<longleftrightarrow>
     (\<exists>r. classify txt status = RateLimited r) \<or> classify txt status \<in> {TimedOut, ServerFailed}"
  by (simp add: normalize_provider_error_def new_provider_error_def class_retryable_def split: error_class.split)

text \<open>Without a telling word the class is that of the status.\<close>

lemma classify_by_status:
  assumes "\<not> mentions (lower txt) (rate_words @ auth_words @ context_words @ timeout_words @ model_words @ server_words @ request_words)"
  shows "classify txt (Some n) =
    (if n = 429 then RateLimited (retry_after (lower txt)) else if n \<in> {401, 403} then BadCredentials else if n \<in> {408, 504} then TimedOut
     else if n = 404 then UnknownModel else if n \<ge> 500 then ServerFailed else if n = 400 then BadRequest else OtherError)"
  using assms by (auto simp: classify_def Let_def mentions_def list_ex_iff)

text \<open>
  The word lists are tried in a fixed order, so a number of tokens in which "429" occurs makes a prompt that is too
  long a rate limit, to be retried.
\<close>

lemma token_count_taken_for_rate_limit:
  "classify ''maximum context length is 8192 tokens, got 14290'' (Some 400) = RateLimited None"
  "classify ''maximum context length is 8192 tokens, got 14280'' (Some 400) = ContextExceeded"
  by (code_simp, code_simp)

text \<open>An error of credentials is not to be retried, but is when its text has a marker.\<close>

lemma credentials_retried:
  "classify ''401 session timed out'' None = BadCredentials"
  "\<not> pe_retryable (normalize_provider_error (Raw ''401 session timed out'' None) [] [])"
  "is_transient_error (Some ''401 session timed out'')"
  by (code_simp, code_simp, code_simp)

text \<open>The hint of the server is read, and the delays of the retries do not depend on it.\<close>

lemma hint_read: "classify ''429: retry-after: 12.5 s'' None = RateLimited (Some (25 / 2))"
  by code_simp

definition waits_left :: "nat \<Rightarrow> nat" where "waits_left n = sum_list (drop (4 - n) (retry_delays @ [0]))"

lemma waits_left_step: "0 < r \<Longrightarrow> r < 4 \<Longrightarrow> waits_left (Suc r) = retry_delays ! (3 - r) + waits_left r"
proof -
  assume "0 < r" "r < 4"
  then have "r = 1 \<or> r = 2 \<or> r = 3" by auto
  then show ?thesis by (auto simp: waits_left_def retry_delays_def eval_nat_numeral)
qed

lemma waits_left_mono: "0 < r \<Longrightarrow> r < 4 \<Longrightarrow> waits_left r \<le> waits_left (Suc r)"
  by (simp add: waits_left_step)

lemma try_attempts_bounds:
  "r \<le> 4 \<Longrightarrow> try_attempts r w m s = (res, s') \<Longrightarrow>
     rs_calls s' \<le> rs_calls s + r \<and> sum_list (rs_slept s') \<le> sum_list (rs_slept s) + waits_left r"
proof (induction r arbitrary: s)
  case (Suc r)
  define n where "n = rs_calls s"
  have r: "r < 4" using Suc.prems by simp
  have IH: "rs_calls s' \<le> rs_calls t + r \<and> sum_list (rs_slept s') \<le> sum_list (rs_slept t) + waits_left r"
    if "try_attempts r w m t = (res, s')" for t
    using Suc.IH[OF _ that] r by simp
  show ?case
    using Suc.prems(2) waits_left_step[OF _ r] waits_left_mono[OF _ r]
    by (fastforce simp: Let_def split: option.splits if_splits dest!: IH)
qed simp

definition model_budget :: "string list \<Rightarrow> nat" where "model_budget ms = length (filter (\<lambda>m. m \<noteq> []) ms)"

lemma try_models_bounds:
  "try_models_in_turn w ms s = (res, s') \<Longrightarrow>
     rs_calls s' \<le> rs_calls s + 4 * model_budget ms \<and> sum_list (rs_slept s') \<le> sum_list (rs_slept s) + 7 * model_budget ms"
proof (induction w ms s rule: try_models_in_turn.induct)
  case (2 w m ms s)
  obtain r1 s1 where 1: "try_attempts 4 w m s = (r1, s1)" by fastforce
  have b: "rs_calls s1 \<le> rs_calls s + 4 \<and> sum_list (rs_slept s1) \<le> sum_list (rs_slept s) + 7"
    using try_attempts_bounds[OF _ 1] by (simp add: waits_left_def retry_delays_def)
  show ?case
    using 2 1 b by (cases "m = []"; cases r1) (fastforce simp: model_budget_def)+
qed (simp add: model_budget_def)

text \<open>Each model is called at most four times and the waits for it add up to at most seven seconds.\<close>

lemma retries_bounded:
  assumes "chat_with_retry w model fallbacks messages = (r, s)"
  shows "rs_calls s \<le> 4 * model_budget (model # fallbacks) \<and> sum_list (rs_slept s) \<le> 7 * model_budget (model # fallbacks)"
proof -
  obtain x t where t: "try_models_in_turn w (model # fallbacks)
      \<lparr>rs_messages = messages, rs_calls = 0, rs_slept = [], rs_last = None\<rparr> = (x, t)"
    by fastforce
  have "s = t" using assms t by (simp add: chat_with_retry_def del: try_models_in_turn.simps split: retry_result.splits)
  then show ?thesis using try_models_bounds[OF t] by simp
qed

text \<open>
  What is returned without being an error is what the last call answered, and a well-formed answer of the first call
  is returned at once. When no call is cancelled there always is a response.
\<close>

lemma try_attempts_returned:
  "try_attempts r w m s = (Returned x, s') \<Longrightarrow>
     lr_finish x \<noteq> ''error'' \<and> rs_calls s' > 0 \<and> rs_last s' = Some x \<and> (\<exists>msgs. response_of m (cw_chat w (rs_calls s' - 1) m msgs) = Some x)"
  by (induction r arbitrary: s) (fastforce simp: Let_def split: option.splits if_splits)+

lemma try_models_returned:
  "try_models_in_turn w ms s = (Returned x, s') \<Longrightarrow>
     lr_finish x \<noteq> ''error'' \<and> (\<exists>m\<in>set ms. \<exists>msgs. response_of m (cw_chat w (rs_calls s' - 1) m msgs) = Some x)"
  by (induction w ms s rule: try_models_in_turn.induct)
    (fastforce dest: try_attempts_returned split: if_splits prod.splits retry_result.splits)+

lemma good_answer_at_once:
  assumes "model \<noteq> []" "cw_chat w 0 model messages = Answered x" "lr_finish x \<noteq> ''error''" "\<not> malformed x"
  shows "fst (chat_with_retry w model fallbacks messages) = Some x \<and> rs_calls (snd (chat_with_retry w model fallbacks messages)) = 1"
  using assms by (simp add: chat_with_retry_def response_of_def Let_def eval_nat_numeral)

lemma try_attempts_not_interrupted:
  "\<forall>k md ms. cw_chat w k md ms \<noteq> ChatCancelled \<Longrightarrow> try_attempts r w m s \<noteq> (Interrupted, s')"
  by (induction r arbitrary: s) (auto simp: Let_def response_of_def split: chat_outcome.splits)

lemma try_models_not_interrupted:
  "\<forall>k md ms. cw_chat w k md ms \<noteq> ChatCancelled \<Longrightarrow> try_models_in_turn w mds s \<noteq> (Interrupted, s')"
  by (induction w mds s rule: try_models_in_turn.induct) (auto split: prod.splits retry_result.splits dest: try_attempts_not_interrupted)

lemma always_a_response:
  assumes "\<forall>k md ms. cw_chat w k md ms \<noteq> ChatCancelled"
  shows "\<exists>r s. chat_with_retry w model fallbacks messages = (Some r, s)"
  using try_models_not_interrupted[OF assms]
  by (auto simp: chat_with_retry_def simp del: try_models_in_turn.simps split: prod.splits retry_result.splits)

text \<open>A model that keeps sending malformed arguments is asked four times without a pause, and its last answer is returned.\<close>

lemma malformed_returned_in_the_end:
  assumes "model \<noteq> []" "\<forall>k ms. cw_chat w k model ms = Answered x" "lr_finish x \<noteq> ''error''" "malformed x"
  shows "fst (chat_with_retry w model fallbacks messages) = Some x"
    and "rs_calls (snd (chat_with_retry w model fallbacks messages)) = 4"
    and "rs_slept (snd (chat_with_retry w model fallbacks messages)) = []"
  using assms by (simp_all add: chat_with_retry_def response_of_def Let_def eval_nat_numeral)

end
