(* ===== verification/Request_Messages.thy ===== *)
theory Request_Messages
  imports Sessions Py_Regex
begin

text \<open>
  What a request to a model is made of: the cleaning of messages (\<open>_sanitize_empty_content\<close> and
  \<open>_sanitize_request_messages\<close> of \<open>providers/base.py\<close>), the shortening of tool call ids, the marks of the prompt cache
  and the strict schemas of \<open>providers/litellm_provider.py\<close>. SHA-256 is a parameter.
\<close>

section \<open>Empty content\<close>

definition empty_block :: "json \<Rightarrow> bool" where
  "empty_block item =
     (case item of
        JObj d \<Rightarrow> dget d ''type'' \<in> Some ` JStr ` {''text'', ''input_text'', ''output_text''} \<and> \<not> truthy (dgetd d ''text'' JNull)
      | _ \<Rightarrow> False)"

definition calls_tools :: "msg \<Rightarrow> bool" where
  "calls_tools m = (dget m ''role'' = Some (JStr ''assistant'') \<and> truthy (dgetd m ''tool_calls'' JNull))"

definition empty_content :: "msg \<Rightarrow> json" where "empty_content m = (if calls_tools m then JNull else JStr ''(empty)'')"

definition sanitize_empty :: "msg \<Rightarrow> msg" where
  "sanitize_empty m =
     (case dgetd m ''content'' JNull of
        JStr s \<Rightarrow> if s = [] then dset ''content'' (empty_content m) m else m
      | JList xs \<Rightarrow>
          (let kept = filter (\<lambda>x. \<not> empty_block x) xs
           in if length kept \<noteq> length xs then dset ''content'' (if kept \<noteq> [] then JList kept else empty_content m) m else m)
      | JObj d \<Rightarrow> dset ''content'' (JList [JObj d]) m
      | _ \<Rightarrow> m)"

definition sanitize_empty_content :: "msg list \<Rightarrow> msg list" where "sanitize_empty_content = map sanitize_empty"

section \<open>Allowed keys\<close>

definition allowed_only :: "string set \<Rightarrow> msg \<Rightarrow> msg" where
  "allowed_only allowed m =
     (let clean = filter (\<lambda>(k, v). k \<in> allowed) m
      in if dget clean ''role'' = Some (JStr ''assistant'') \<and> \<not> dhas clean ''content'' then dset ''content'' JNull clean else clean)"

definition sanitize_request_messages :: "string set \<Rightarrow> msg list \<Rightarrow> msg list" where
  "sanitize_request_messages allowed = map (allowed_only allowed)"

definition allowed_msg_keys :: "string set" where
  "allowed_msg_keys = {''role'', ''content'', ''tool_calls'', ''tool_call_id'', ''name'', ''reasoning_content''}"

definition anthropic_extra_keys :: "string set" where "anthropic_extra_keys = {''thinking_blocks''}"

section \<open>Ids of tool calls\<close>

type_synonym hexdigest = "string \<Rightarrow> string"

definition normalize_tool_call_id :: "hexdigest \<Rightarrow> string \<Rightarrow> string" where
  "normalize_tool_call_id sha s = (if length s = 9 \<and> list_all is_alnum s then s else take 9 (sha s))"

definition map_id :: "hexdigest \<Rightarrow> json \<Rightarrow> (string, string) pydict \<Rightarrow> json \<times> (string, string) pydict" where
  "map_id sha v ids =
     (case v of
        JStr s \<Rightarrow>
          (case dget ids s of
             Some t \<Rightarrow> (JStr t, ids)
           | None \<Rightarrow> (JStr (normalize_tool_call_id sha s), dset s (normalize_tool_call_id sha s) ids))
      | _ \<Rightarrow> (v, ids))"

fun map_calls :: "hexdigest \<Rightarrow> json list \<Rightarrow> (string, string) pydict \<Rightarrow> json list \<times> (string, string) pydict" where
  "map_calls sha [] ids = ([], ids)"
| "map_calls sha (JObj d # tcs) ids =
     (let (v, ids1) = map_id sha (dgetd d ''id'' JNull) ids; (rest, ids2) = map_calls sha tcs ids1
      in (JObj (dset ''id'' v d) # rest, ids2))"
| "map_calls sha (tc # tcs) ids = (let (rest, ids1) = map_calls sha tcs ids in (tc # rest, ids1))"

definition sanitize_calls :: "hexdigest \<Rightarrow> msg \<Rightarrow> (string, string) pydict \<Rightarrow> msg \<times> (string, string) pydict" where
  "sanitize_calls sha m ids =
     (case dgetd m ''tool_calls'' JNull of
        JList tcs \<Rightarrow> (let (tcs', ids') = map_calls sha tcs ids in (dset ''tool_calls'' (JList tcs') m, ids'))
      | _ \<Rightarrow> (m, ids))"

definition sanitize_ids :: "hexdigest \<Rightarrow> msg \<Rightarrow> (string, string) pydict \<Rightarrow> msg \<times> (string, string) pydict" where
  "sanitize_ids sha m ids =
     (let (m, ids) = sanitize_calls sha m ids
      in if truthy (dgetd m ''tool_call_id'' JNull)
         then (let (v, ids') = map_id sha (dgetd m ''tool_call_id'' JNull) ids in (dset ''tool_call_id'' v m, ids'))
         else (m, ids))"

primrec sanitize_all_ids :: "hexdigest \<Rightarrow> msg list \<Rightarrow> (string, string) pydict \<Rightarrow> msg list" where
  "sanitize_all_ids sha [] ids = []"
| "sanitize_all_ids sha (m # ms) ids = (let (m', ids') = sanitize_ids sha m ids in m' # sanitize_all_ids sha ms ids')"

definition sanitize_messages :: "hexdigest \<Rightarrow> string set \<Rightarrow> msg list \<Rightarrow> msg list" where
  "sanitize_messages sha extra ms = sanitize_all_ids sha (sanitize_request_messages (allowed_msg_keys \<union> extra) ms) []"

section \<open>Marks of the prompt cache\<close>

definition ephemeral :: json where "ephemeral = JObj [(''type'', JStr ''ephemeral'')]"

definition marked :: "(string, json) pydict \<Rightarrow> (string, json) pydict" where "marked d = dset ''cache_control'' ephemeral d"

definition marked_text :: "string \<Rightarrow> json" where
  "marked_text s = JObj [(''type'', JStr ''text''), (''text'', JStr s), (''cache_control'', ephemeral)]"

text \<open>The last block of a list is marked; only a dictionary can be.\<close>

definition mark_last :: "json list \<Rightarrow> json list option" where
  "mark_last xs = (if xs = [] then Some [] else case last xs of JObj d \<Rightarrow> Some (butlast xs @ [JObj (marked d)]) | _ \<Rightarrow> None)"

definition mark_system :: "msg \<Rightarrow> msg option" where
  "mark_system m =
     (case dget m ''content'' of
        Some (JStr s) \<Rightarrow> Some (dset ''content'' (JList [marked_text s]) m)
      | Some (JList xs) \<Rightarrow> map_option (\<lambda>ys. dset ''content'' (JList ys) m) (mark_last xs)
      | Some (JObj []) \<Rightarrow> Some (dset ''content'' (JList []) m)
      | _ \<Rightarrow> None)"

definition mark_message :: "msg \<Rightarrow> msg option" where
  "mark_message m =
     (case dget m ''content'' of
        Some (JStr s) \<Rightarrow> Some (dset ''content'' (JList [marked_text s]) m)
      | Some (JList xs) \<Rightarrow> if xs = [] then Some m else map_option (\<lambda>ys. dset ''content'' (JList ys) m) (mark_last xs)
      | _ \<Rightarrow> Some m)"

definition is_system :: "msg \<Rightarrow> bool" where "is_system m = (dget m ''role'' = Some (JStr ''system''))"

definition is_turn :: "msg \<Rightarrow> bool" where "is_turn m = (dget m ''role'' \<in> {Some (JStr ''user''), Some (JStr ''assistant'')})"

definition turn_indices :: "msg list \<Rightarrow> nat list" where "turn_indices ms = filter (\<lambda>i. is_turn (ms ! i)) [0..<length ms]"

definition cache_points :: "nat list \<Rightarrow> nat list" where
  "cache_points is =
     (if length is \<ge> 4 then
        (let mid = is ! (length is div 2); late = is ! (length is - 2) in if late = mid then [mid] else [mid, late])
      else if length is \<ge> 2 then [is ! 0] else [])"

primrec mark_at :: "nat list \<Rightarrow> msg list \<Rightarrow> msg list option" where
  "mark_at [] ms = Some ms"
| "mark_at (i # is) ms = (case mark_message (ms ! i) of None \<Rightarrow> None | Some m \<Rightarrow> mark_at is (ms[i := m]))"

definition mark_systems :: "msg list \<Rightarrow> msg list option" where
  "mark_systems ms = those (map (\<lambda>m. if is_system m then mark_system m else Some m) ms)"

definition mark_tools :: "msg list \<Rightarrow> msg list" where
  "mark_tools ts = (if ts = [] then [] else butlast ts @ [marked (last ts)])"

text \<open>\<open>None\<close> for the exception a content raises that has no last block to mark.\<close>

definition apply_cache_control :: "bool \<Rightarrow> msg list \<Rightarrow> msg list \<Rightarrow> (msg list \<times> msg list) option" where
  "apply_cache_control enabled ms tools =
     (if \<not> enabled then Some (ms, tools)
      else case mark_systems ms of
        None \<Rightarrow> None
      | Some ns \<Rightarrow> map_option (\<lambda>ns'. (ns', mark_tools tools)) (mark_at (cache_points (turn_indices ns)) ns))"

section \<open>Strict schemas\<close>

text \<open>\<open>list(v)\<close> of a \<open>required\<close> entry; a value that cannot be iterated raises, which \<open>strict_raises\<close> tells.\<close>

definition required_list :: "json \<Rightarrow> json list" where
  "required_list v = (case v of JList xs \<Rightarrow> xs | JStr s \<Rightarrow> map (\<lambda>c. JStr [c]) s | JObj d \<Rightarrow> map JStr (dkeys d) | _ \<Rightarrow> [])"

definition iterable :: "json \<Rightarrow> bool" where
  "iterable v = (case v of JList xs \<Rightarrow> True | JStr s \<Rightarrow> True | JObj d \<Rightarrow> True | _ \<Rightarrow> False)"

definition add_missing :: "string list \<Rightarrow> json list \<Rightarrow> json list" where
  "add_missing ns req = foldl (\<lambda>r n. if JStr n \<in> set r then r else r @ [JStr n]) req ns"

definition object_schema :: "(string, json) pydict \<Rightarrow> bool" where
  "object_schema d = (dget d ''type'' = Some (JStr ''object'') \<or> dhas d ''properties'')"

definition schema_properties :: "(string, json) pydict \<Rightarrow> (string, json) pydict" where
  "schema_properties d = (case dgetd d ''properties'' JNull of JObj ps \<Rightarrow> ps | _ \<Rightarrow> [])"

definition close_object :: "(string, json) pydict \<Rightarrow> (string, json) pydict" where
  "close_object d =
     (if \<not> object_schema d then d
      else let d1 = dset ''additionalProperties'' (JBool False) d
           in if schema_properties d \<noteq> []
              then dset ''required'' (JList (add_missing (dkeys (schema_properties d)) (required_list (dgetd d ''required'' (JList []))))) d1
              else if dhas d ''required'' then d1 else dset ''required'' (JList []) d1)"

definition sub_keys :: "string list" where "sub_keys = [''items'', ''anyOf'', ''oneOf'', ''allOf'']"

fun strict :: "json \<Rightarrow> json"
  and strict_entries :: "(string \<times> json) list \<Rightarrow> (string \<times> json) list"
  and strict_at :: "string \<Rightarrow> json \<Rightarrow> json"
  and strict_props :: "(string \<times> json) list \<Rightarrow> (string \<times> json) list"
  and strict_list :: "json list \<Rightarrow> json list" where
  "strict (JObj d) = JObj (close_object (strict_entries d))"
| "strict v = v"
| "strict_entries [] = []"
| "strict_entries ((k, v) # d) = (k, strict_at k v) # strict_entries d"
| "strict_at k (JObj d) =
     (if k = ''properties'' then JObj (strict_props d) else if k \<in> set sub_keys then strict (JObj d) else JObj d)"
| "strict_at k (JList xs) = (if k \<in> set sub_keys then JList (strict_list xs) else JList xs)"
| "strict_at k v = v"
| "strict_props [] = []"
| "strict_props ((n, p) # ps) = (n, strict p) # strict_props ps"
| "strict_list [] = []"
| "strict_list (x # xs) = strict x # strict_list xs"

fun strict_raises :: "json \<Rightarrow> bool"
  and raises_at :: "string \<Rightarrow> json \<Rightarrow> bool" where
  "strict_raises (JObj d) =
     (object_schema d \<and> schema_properties d \<noteq> [] \<and> \<not> iterable (dgetd d ''required'' (JList []))
      \<or> list_ex (\<lambda>(k, v). raises_at k v) d)"
| "strict_raises v = False"
| "raises_at k (JObj d) =
     (if k = ''properties'' then list_ex (\<lambda>(n, p). strict_raises p) d
      else k \<in> set sub_keys \<and> strict_raises (JObj d))"
| "raises_at k (JList xs) = (k \<in> set sub_keys \<and> list_ex strict_raises xs)"
| "raises_at k v = False"

definition make_schema_strict :: "json \<Rightarrow> json option" where
  "make_schema_strict s = (if strict_raises s then None else Some (strict s))"

text \<open>A tool that is not a dictionary with a function is left as it is; \<open>dict\<close> of a function that is none raises.\<close>

definition make_tool_strict :: "json \<Rightarrow> json option" where
  "make_tool_strict t =
     (case t of
        JObj d \<Rightarrow>
          (case dget d ''function'' of
             None \<Rightarrow> Some t
           | Some (JObj f) \<Rightarrow>
               (let f1 = dset ''strict'' (JBool True) f
                in case dget f1 ''parameters'' of
                     Some (JObj p) \<Rightarrow>
                       map_option (\<lambda>q. JObj (dset ''function'' (JObj (dset ''parameters'' q f1)) d)) (make_schema_strict (JObj p))
                   | _ \<Rightarrow> Some (JObj (dset ''function'' (JObj f1) d)))
           | Some _ \<Rightarrow> None)
      | _ \<Rightarrow> Some t)"

section \<open>Properties\<close>

subsection \<open>Messages\<close>

definition empty_left :: "msg \<Rightarrow> bool" where
  "empty_left m =
     (case dgetd m ''content'' JNull of JStr s \<Rightarrow> s = [] | JList xs \<Rightarrow> list_ex empty_block xs | _ \<Rightarrow> False)"

text \<open>No message keeps an empty text or an empty block, unless its content is a single block, which is only wrapped.\<close>

lemma sanitize_empty_clean:
  assumes "\<forall>d. dget m ''content'' \<noteq> Some (JObj d)"
  shows "\<not> empty_left (sanitize_empty m) \<and> sanitize_empty (sanitize_empty m) = sanitize_empty m"
proof (cases "dgetd m ''content'' JNull")
  case (JList xs)
  define kept where "kept = filter (\<lambda>x. \<not> empty_block x) xs"
  show ?thesis
  proof (cases "length kept = length xs")
    case True
    then have "filter (\<lambda>x. \<not> empty_block x) xs = xs" by (simp add: kept_def filter_id_conv) (metis filter_True kept_def length_filter_less less_irrefl)
    then show ?thesis using JList by (auto simp: sanitize_empty_def empty_left_def Let_def list_ex_iff filter_id_conv)
  next
    case False
    then show ?thesis
      using JList by (auto simp: sanitize_empty_def empty_left_def Let_def list_ex_iff kept_def empty_content_def split: if_splits)
  qed
next
  case (JStr s)
  then show ?thesis by (auto simp: sanitize_empty_def empty_left_def empty_content_def)
next
  case (JObj d)
  then show ?thesis using assms by (auto simp: dgetd_def split: option.splits)
qed (auto simp: sanitize_empty_def empty_left_def)

lemma sanitize_empty_clean_witness:
  "\<not> empty_left (sanitize_empty [(''role'', JStr ''tool''), (''content'', JStr [])])"
  using sanitize_empty_clean[of "[(''role'', JStr ''tool''), (''content'', JStr [])]"] by simp

lemma wrapped_block_stays_empty:
  "sanitize_empty [(''role'', JStr ''user''), (''content'', JObj [(''type'', JStr ''text''), (''text'', JStr [])])]
     = [(''role'', JStr ''user''), (''content'', JList [JObj [(''type'', JStr ''text''), (''text'', JStr [])]])]"
  "empty_left (sanitize_empty [(''role'', JStr ''user''), (''content'', JObj [(''type'', JStr ''text''), (''text'', JStr [])])])"
  by (code_simp, code_simp)

lemma allowed_only_keys: "set (dkeys (allowed_only allowed m)) \<subseteq> allowed \<union> {''content''}"
  by (auto simp: allowed_only_def Let_def dom_update)

lemma allowed_only_idem: "''content'' \<in> allowed \<Longrightarrow> ''role'' \<in> allowed \<Longrightarrow> allowed_only allowed (allowed_only allowed m) = allowed_only allowed m"
proof -
  assume k: "''content'' \<in> allowed" "''role'' \<in> allowed"
  have "filter (\<lambda>(k, v). k \<in> allowed) (allowed_only allowed m) = allowed_only allowed m"
    using allowed_only_keys[of allowed m] k(1) by (force simp: filter_id_conv)
  then show ?thesis by (simp add: allowed_only_def[of allowed "allowed_only allowed m"]) (auto simp: allowed_only_def Let_def)
qed

subsection \<open>Ids\<close>

text \<open>The table of ids only remembers what the digest gives anyway, so each message is relabelled on its own.\<close>

definition relabel :: "hexdigest \<Rightarrow> json \<Rightarrow> json" where
  "relabel sha v = (case v of JStr s \<Rightarrow> JStr (normalize_tool_call_id sha s) | _ \<Rightarrow> v)"

definition relabel_call :: "hexdigest \<Rightarrow> json \<Rightarrow> json" where
  "relabel_call sha tc = (case tc of JObj d \<Rightarrow> JObj (dset ''id'' (relabel sha (dgetd d ''id'' JNull)) d) | _ \<Rightarrow> tc)"

definition relabel_calls :: "hexdigest \<Rightarrow> msg \<Rightarrow> msg" where
  "relabel_calls sha m =
     (case dgetd m ''tool_calls'' JNull of JList tcs \<Rightarrow> dset ''tool_calls'' (JList (map (relabel_call sha) tcs)) m | _ \<Rightarrow> m)"

definition relabel_message :: "hexdigest \<Rightarrow> msg \<Rightarrow> msg" where
  "relabel_message sha m =
     (let m = relabel_calls sha m
      in if truthy (dgetd m ''tool_call_id'' JNull) then dset ''tool_call_id'' (relabel sha (dgetd m ''tool_call_id'' JNull)) m else m)"

definition table_ok :: "hexdigest \<Rightarrow> (string, string) pydict \<Rightarrow> bool" where
  "table_ok sha ids \<longleftrightarrow> (\<forall>s t. dget ids s = Some t \<longrightarrow> t = normalize_tool_call_id sha s)"

lemma map_id_pure: "table_ok sha ids \<Longrightarrow> \<exists>ids'. map_id sha v ids = (relabel sha v, ids') \<and> table_ok sha ids'"
  by (cases v) (auto simp: map_id_def relabel_def table_ok_def split: option.splits)

lemma map_calls_pure: "table_ok sha ids \<Longrightarrow> \<exists>ids'. map_calls sha tcs ids = (map (relabel_call sha) tcs, ids') \<and> table_ok sha ids'"
proof (induction sha tcs ids rule: map_calls.induct)
  case (2 sha d tcs ids)
  obtain ids1 where 1: "map_id sha (dgetd d ''id'' JNull) ids = (relabel sha (dgetd d ''id'' JNull), ids1)" "table_ok sha ids1"
    using map_id_pure[OF 2(2)] by blast
  show ?case using 2(1)[OF 1(1)[symmetric] refl 1(2)] 1(1) by (auto simp: relabel_call_def)
qed (fastforce simp: relabel_call_def)+

lemma sanitize_calls_pure:
  assumes "table_ok sha ids"
  shows "\<exists>ids'. sanitize_calls sha m ids = (relabel_calls sha m, ids') \<and> table_ok sha ids'"
proof (cases "dgetd m ''tool_calls'' JNull")
  case (JList tcs)
  then show ?thesis using map_calls_pure[OF assms, of tcs] by (auto simp: sanitize_calls_def relabel_calls_def)
qed (use assms in \<open>simp_all add: sanitize_calls_def relabel_calls_def\<close>)

lemma sanitize_ids_pure:
  assumes "table_ok sha ids"
  shows "\<exists>ids'. sanitize_ids sha m ids = (relabel_message sha m, ids') \<and> table_ok sha ids'"
proof -
  obtain ids1 where 1: "sanitize_calls sha m ids = (relabel_calls sha m, ids1)" "table_ok sha ids1"
    using sanitize_calls_pure[OF assms] by blast
  obtain ids2 where "map_id sha (dgetd (relabel_calls sha m) ''tool_call_id'' JNull) ids1
      = (relabel sha (dgetd (relabel_calls sha m) ''tool_call_id'' JNull), ids2)" "table_ok sha ids2"
    using map_id_pure[OF 1(2)] by blast
  with 1 show ?thesis by (simp add: sanitize_ids_def relabel_message_def Let_def)
qed

lemma sanitize_all_ids_pure: "table_ok sha ids \<Longrightarrow> sanitize_all_ids sha ms ids = map (relabel_message sha) ms"
proof (induction ms arbitrary: ids)
  case (Cons m ms)
  then show ?case using sanitize_ids_pure[OF Cons.prems, of m] by auto
qed simp

lemma sanitize_messages_pointwise:
  "sanitize_messages sha extra ms = map (\<lambda>m. relabel_message sha (allowed_only (allowed_msg_keys \<union> extra) m)) ms"
  by (simp add: sanitize_messages_def sanitize_request_messages_def sanitize_all_ids_pure table_ok_def)

lemma relabel_result:
  "dget m ''tool_call_id'' = Some (JStr s) \<Longrightarrow> s \<noteq> [] \<Longrightarrow>
     dget (relabel_message sha m) ''tool_call_id'' = Some (JStr (normalize_tool_call_id sha s))"
  by (auto simp: relabel_message_def relabel_calls_def Let_def relabel_def dgetd_def split: json.splits)

lemma relabelled_calls:
  "dget m ''tool_calls'' = Some (JList tcs) \<Longrightarrow>
     dget (relabel_message sha m) ''tool_calls'' = Some (JList (map (relabel_call sha) tcs))"
  by (auto simp: relabel_message_def relabel_calls_def Let_def dgetd_def)

text \<open>A call and its result that carry the same id still do, and the ids are nine letters and digits.\<close>

lemma ids_stay_linked:
  assumes "dget call ''tool_calls'' = Some (JList tcs)" "JObj d \<in> set tcs" "dget d ''id'' = Some (JStr s)"
    and "dget result ''tool_call_id'' = Some (JStr s)" "s \<noteq> []"
  shows "\<exists>tcs' d'. dget (relabel_message sha call) ''tool_calls'' = Some (JList tcs') \<and> JObj d' \<in> set tcs'
    \<and> dget d' ''id'' = dget (relabel_message sha result) ''tool_call_id''"
proof -
  have "relabel_call sha (JObj d) \<in> set (map (relabel_call sha) tcs)" using assms(2) by simp
  then show ?thesis
    using relabelled_calls[OF assms(1)] relabel_result[OF assms(4,5)] assms(3)
    by (intro exI[of _ "map (relabel_call sha) tcs"] exI[of _ "dset ''id'' (relabel sha (dgetd d ''id'' JNull)) d"])
      (simp add: relabel_call_def relabel_def dgetd_def)
qed

lemma ids_stay_linked_witness:
  "\<exists>tcs' d'. dget (relabel_message (\<lambda>s. replicate 64 CHR ''a'') [(''tool_calls'', JList [JObj [(''id'', JStr ''call-1'')]])]) ''tool_calls'' = Some (JList tcs')
     \<and> JObj d' \<in> set tcs' \<and> dget d' ''id'' = dget (relabel_message (\<lambda>s. replicate 64 CHR ''a'') [(''tool_call_id'', JStr ''call-1'')]) ''tool_call_id''"
  using ids_stay_linked[of "[(''tool_calls'', JList [JObj [(''id'', JStr ''call-1'')]])]" "[JObj [(''id'', JStr ''call-1'')]]"
      "[(''id'', JStr ''call-1'')]" "''call-1''" "[(''tool_call_id'', JStr ''call-1'')]" "\<lambda>s. replicate 64 CHR ''a''"] by simp

text \<open>An empty id is shortened in the call and left in the result.\<close>

lemma empty_id_unlinked:
  "relabel_message sha [(''tool_calls'', JList [JObj [(''id'', JStr [])]])] =
     [(''tool_calls'', JList [JObj [(''id'', JStr (take 9 (sha [])))]])]"
  "relabel_message sha [(''role'', JStr ''tool''), (''tool_call_id'', JStr [])] = [(''role'', JStr ''tool''), (''tool_call_id'', JStr [])]"
  by (simp_all add: relabel_message_def relabel_calls_def relabel_call_def relabel_def normalize_tool_call_id_def dgetd_def Let_def)

lemma normal_id:
  assumes "\<And>s. length (sha s) = 64 \<and> list_all is_alnum (sha s)"
  shows "length (normalize_tool_call_id sha s) = 9 \<and> list_all is_alnum (normalize_tool_call_id sha s)"
    and "normalize_tool_call_id sha (normalize_tool_call_id sha s) = normalize_tool_call_id sha s"
proof -
  show n: "length (normalize_tool_call_id sha s) = 9 \<and> list_all is_alnum (normalize_tool_call_id sha s)"
    using assms[of s] by (auto simp: normalize_tool_call_id_def list_all_iff dest: in_set_takeD)
  show "normalize_tool_call_id sha (normalize_tool_call_id sha s) = normalize_tool_call_id sha s"
    by (subst normalize_tool_call_id_def) (simp add: n)
qed

subsection \<open>Marks\<close>

text \<open>What a message says: its texts, and every other key of it.\<close>

definition block_text :: "json \<Rightarrow> json" where "block_text x = (case x of JObj d \<Rightarrow> dgetd d ''text'' JNull | _ \<Rightarrow> x)"

definition message_texts :: "msg \<Rightarrow> json list" where
  "message_texts m = (case dgetd m ''content'' JNull of JStr s \<Rightarrow> [JStr s] | JList xs \<Rightarrow> map block_text xs | _ \<Rightarrow> [])"

definition said :: "msg \<Rightarrow> json list \<times> msg" where "said m = (message_texts m, dpop ''content'' m)"

definition is_mark :: "json \<Rightarrow> bool" where "is_mark x = (case x of JObj d \<Rightarrow> dhas d ''cache_control'' | _ \<Rightarrow> False)"

definition marks_of :: "msg \<Rightarrow> nat" where
  "marks_of m = (case dgetd m ''content'' JNull of JList xs \<Rightarrow> length (filter is_mark xs) | _ \<Rightarrow> 0)"

definition total_marks :: "msg list \<Rightarrow> nat" where "total_marks ms = sum_list (map marks_of ms)"

lemma mark_last_view:
  assumes "mark_last xs = Some ys"
  shows "map block_text ys = map block_text xs" "length (filter is_mark ys) \<le> length (filter is_mark xs) + 1"
  using assms by (induction xs rule: rev_induct) (auto simp: mark_last_def marked_def block_text_def is_mark_def split: if_splits json.splits)

lemma content_view:
  assumes "dget m ''content'' = Some (JList xs)" "map block_text ys = map block_text xs" "length (filter is_mark ys) \<le> length (filter is_mark xs) + 1"
  shows "said (dset ''content'' (JList ys) m) = said m \<and> marks_of (dset ''content'' (JList ys) m) \<le> marks_of m + 1"
  using assms by (simp add: said_def message_texts_def marks_of_def delete_update_same dgetd_def)

lemma marked_text_view:
  "dget m ''content'' = Some (JStr s) \<Longrightarrow>
     said (dset ''content'' (JList [marked_text s]) m) = said m \<and> marks_of (dset ''content'' (JList [marked_text s]) m) \<le> marks_of m + 1"
  by (simp add: said_def message_texts_def marks_of_def delete_update_same dgetd_def marked_text_def block_text_def is_mark_def)

lemma mark_message_view:
  assumes "mark_message m = Some n"
  shows "said n = said m \<and> marks_of n \<le> marks_of m + 1"
proof (cases "dget m ''content''")
  case (Some c)
  show ?thesis
  proof (cases c)
    case (JList xs)
    then show ?thesis
      using assms Some content_view[OF _ mark_last_view] by (auto simp: mark_message_def split: if_splits)
  qed (use assms Some marked_text_view in \<open>auto simp: mark_message_def\<close>)
qed (use assms in \<open>simp add: mark_message_def\<close>)

lemma mark_system_view:
  assumes "mark_system m = Some n"
  shows "said n = said m \<and> marks_of n \<le> marks_of m + 1"
proof (cases "dget m ''content''")
  case (Some c)
  show ?thesis
  proof (cases c)
    case (JList xs)
    then show ?thesis using assms Some content_view[OF _ mark_last_view] by (auto simp: mark_system_def)
  next
    case (JObj d)
    then have "n = dset ''content'' (JList []) m" using assms Some by (auto simp: mark_system_def split: list.splits)
    then show ?thesis using Some JObj by (simp add: said_def message_texts_def marks_of_def delete_update_same dgetd_def)
  qed (use assms Some marked_text_view in \<open>auto simp: mark_system_def\<close>)
qed (use assms in \<open>simp add: mark_system_def\<close>)

lemma total_marks_update:
  assumes "i < length ms" "marks_of n \<le> marks_of (ms ! i) + 1"
  shows "total_marks (ms[i := n]) \<le> total_marks ms + 1"
proof -
  have "ms = take i ms @ ms ! i # drop (Suc i) ms" using assms(1) by (simp add: id_take_nth_drop)
  then have "total_marks ms = total_marks (take i ms) + marks_of (ms ! i) + total_marks (drop (Suc i) ms)"
    by (metis (no_types, lifting) add.assoc list.simps(9) map_append sum_list.Cons sum_list_append total_marks_def)
  then show ?thesis using assms by (simp add: upd_conv_take_nth_drop total_marks_def)
qed

lemma mark_at_view:
  "mark_at is ms = Some ns \<Longrightarrow> (\<forall>i\<in>set is. i < length ms) \<Longrightarrow>
     map said ns = map said ms \<and> total_marks ns \<le> total_marks ms + length is"
proof (induction "is" arbitrary: ms)
  case (Cons i "is")
  obtain n where n: "mark_message (ms ! i) = Some n" "mark_at is (ms[i := n]) = Some ns"
    using Cons.prems(1) by (auto split: option.splits)
  have i: "i < length ms" using Cons.prems(2) by simp
  have "map said (ms[i := n]) = map said ms"
    using mark_message_view[OF n(1)] i by (simp add: map_update list_update_same_conv)
  then show ?case
    using Cons.IH[OF n(2)] Cons.prems(2) total_marks_update[OF i conjunct2[OF mark_message_view[OF n(1)]]] by simp
qed simp

lemma mark_systems_view:
  "mark_systems ms = Some ns \<Longrightarrow> map said ns = map said ms \<and> total_marks ns \<le> total_marks ms + length (filter is_system ms)"
proof (induction ms arbitrary: ns)
  case (Cons m ms)
  obtain n ns' where n: "(if is_system m then mark_system m else Some m) = Some n" "mark_systems ms = Some ns'" "ns = n # ns'"
    using Cons.prems by (auto simp: mark_systems_def split: option.splits)
  then show ?case
    using Cons.IH[OF n(2)] mark_system_view by (fastforce simp: total_marks_def split: if_splits)
qed (simp add: mark_systems_def)

lemma cache_points_view: "length (cache_points is) \<le> 2 \<and> set (cache_points is) \<subseteq> set is"
  by (auto simp: cache_points_def Let_def intro!: nth_mem)

text \<open>
  The marks leave what the messages say alone, and there are at most two of them beside one for each system message.
\<close>

lemma cache_control_view:
  assumes "apply_cache_control True ms tools = Some (ns, ts)"
  shows "map said ns = map said ms \<and> total_marks ns \<le> total_marks ms + length (filter is_system ms) + 2
    \<and> map (dpop ''cache_control'') ts = map (dpop ''cache_control'') tools"
proof -
  obtain ks where 1: "mark_systems ms = Some ks" and 2: "mark_at (cache_points (turn_indices ks)) ks = Some ns" and t: "ts = mark_tools tools"
    using assms by (auto simp: apply_cache_control_def split: option.splits)
  have "\<forall>i\<in>set (cache_points (turn_indices ks)). i < length ks"
    using cache_points_view[of "turn_indices ks"] by (auto simp: turn_indices_def)
  moreover have "map (dpop ''cache_control'') (mark_tools tools) = map (dpop ''cache_control'') tools"
    by (cases tools rule: rev_cases) (simp_all add: mark_tools_def marked_def delete_update_same)
  ultimately show ?thesis
    using mark_systems_view[OF 1] mark_at_view[OF 2] cache_points_view[of "turn_indices ks"] t by auto
qed

lemma cache_control_view_witness:
  "\<exists>ns ts. apply_cache_control True [[(''role'', JStr ''system''), (''content'', JStr ''x'')]] [] = Some (ns, ts) \<and> total_marks ns \<le> 3"
proof -
  obtain ns ts where a: "apply_cache_control True [[(''role'', JStr ''system''), (''content'', JStr ''x'')]] [] = Some (ns, ts)"
    by (simp add: apply_cache_control_def mark_systems_def is_system_def mark_system_def turn_indices_def is_turn_def cache_points_def)
  then have "total_marks ns \<le> total_marks [[(''role'', JStr ''system''), (''content'', JStr ''x'')]]
      + length (filter is_system [[(''role'', JStr ''system''), (''content'', JStr ''x'')]]) + 2"
    using cache_control_view[OF a] by blast
  also have "\<dots> = 3" by (simp add: total_marks_def marks_of_def is_system_def dgetd_def)
  finally show ?thesis using a by blast
qed

text \<open>Three system messages and four turns of user and assistant already make five marks, with one tool six.\<close>

definition long_prompt :: "msg list" where
  "long_prompt =
     map (\<lambda>r. [(''role'', JStr r), (''content'', JStr ''x'')])
       [''system'', ''system'', ''system'', ''user'', ''assistant'', ''user'', ''assistant'', ''user'', ''assistant'']"

lemma too_many_marks: "map_option (\<lambda>(ns, ts). (total_marks ns, ts)) (apply_cache_control True long_prompt []) = Some (5, [])"
  by code_simp

subsection \<open>Strict schemas\<close>

text \<open>The schemas inside a schema: itself, those of its properties, and those under the four keys.\<close>

inductive sub_schema :: "json \<Rightarrow> json \<Rightarrow> bool" where
  itself: "sub_schema s s"
| of_property: "dget d ''properties'' = Some (JObj ps) \<Longrightarrow> (n, p) \<in> set ps \<Longrightarrow> sub_schema t p \<Longrightarrow> sub_schema t (JObj d)"
| of_key: "k \<in> set sub_keys \<Longrightarrow> dget d k = Some (JObj e) \<Longrightarrow> sub_schema t (JObj e) \<Longrightarrow> sub_schema t (JObj d)"
| of_list: "k \<in> set sub_keys \<Longrightarrow> dget d k = Some (JList xs) \<Longrightarrow> x \<in> set xs \<Longrightarrow> sub_schema t x \<Longrightarrow> sub_schema t (JObj d)"

lemma dget_strict_entries: "dget (strict_entries d) k = map_option (strict_at k) (dget d k)"
  by (induction d) auto

lemma dget_close_object [simp]:
  "k \<notin> {''additionalProperties'', ''required''} \<Longrightarrow> dget (close_object d) k = dget d k"
  by (auto simp: close_object_def Let_def)

lemma strict_props_map: "strict_props ps = map (\<lambda>(n, p). (n, strict p)) ps"
  by (induction ps) auto

lemma strict_list_map: "strict_list xs = map strict xs"
  by (induction xs) auto

lemma sub_keys_other: "k \<in> set sub_keys \<Longrightarrow> k \<notin> {''additionalProperties'', ''required'', ''properties'', ''type''}"
  by (auto simp: sub_keys_def)

lemma strict_at_obj: "strict_at k v = JObj e \<Longrightarrow> k \<in> set sub_keys \<Longrightarrow> \<exists>e0. v = JObj e0 \<and> JObj e = strict (JObj e0)"
  using sub_keys_other[of k] by (cases v) auto

lemma strict_at_list: "strict_at k v = JList xs \<Longrightarrow> k \<in> set sub_keys \<Longrightarrow> \<exists>ys. v = JList ys \<and> xs = map strict ys"
  using sub_keys_other[of k] by (cases v) (auto simp: strict_list_map)

lemma strict_at_props: "strict_at ''properties'' v = JObj ps \<Longrightarrow> \<exists>qs. v = JObj qs \<and> ps = strict_props qs"
  by (cases v) (auto split: if_splits)

lemma sub_schema_of_strict: "sub_schema t s \<Longrightarrow> s = strict r \<Longrightarrow> \<exists>u. t = strict u"
proof (induction arbitrary: r rule: sub_schema.induct)
  case (of_property d ps n p t)
  then obtain d0 where d: "r = JObj d0" "d = close_object (strict_entries d0)" by (cases r) auto
  then have "map_option (strict_at ''properties'') (dget d0 ''properties'') = Some (JObj ps)"
    using of_property.hyps(1) by (simp add: dget_strict_entries)
  then obtain qs where "ps = strict_props qs" by (auto dest: strict_at_props)
  then show ?case using of_property.hyps(2) of_property.IH by (auto simp: strict_props_map)
next
  case (of_key k d e t)
  then obtain d0 where d: "r = JObj d0" "d = close_object (strict_entries d0)" by (cases r) auto
  then have "map_option (strict_at k) (dget d0 k) = Some (JObj e)"
    using of_key.hyps(1,2) sub_keys_other by (simp add: dget_strict_entries)
  then obtain v where "dget d0 k = Some v" "strict_at k v = JObj e" by auto
  then show ?case using of_key.IH strict_at_obj[OF _ of_key.hyps(1)] by metis
next
  case (of_list k d xs x t)
  then obtain d0 where d: "r = JObj d0" "d = close_object (strict_entries d0)" by (cases r) auto
  then have "map_option (strict_at k) (dget d0 k) = Some (JList xs)"
    using of_list.hyps(1,2) sub_keys_other by (simp add: dget_strict_entries)
  then obtain ys where "xs = map strict ys" using of_list.hyps(1) by (auto dest: strict_at_list)
  then show ?case using of_list.IH of_list.hyps(3) by auto
qed auto

definition closed_schema :: "(string, json) pydict \<Rightarrow> bool" where
  "closed_schema d \<longleftrightarrow>
     dget d ''additionalProperties'' = Some (JBool False) \<and> dhas d ''required''
     \<and> (\<forall>n\<in>set (dkeys (schema_properties d)). JStr n \<in> set (required_list (dgetd d ''required'' JNull)))"

lemma set_add_missing: "set (add_missing ns req) = set req \<union> JStr ` set ns"
  unfolding add_missing_def by (induction ns arbitrary: req) auto

lemma add_missing_present: "JStr ` set ns \<subseteq> set req \<Longrightarrow> add_missing ns req = req"
  unfolding add_missing_def by (induction ns) auto

lemma close_object_facts:
  "object_schema (close_object d) = object_schema d" "schema_properties (close_object d) = schema_properties d"
  by (auto simp: object_schema_def schema_properties_def dhas_def dgetd_def)

lemma close_object_closed: "object_schema d \<Longrightarrow> closed_schema (close_object d)"
  unfolding closed_schema_def close_object_facts
  by (cases "schema_properties d = []")
    (simp_all add: close_object_def Let_def set_add_missing required_list_def[of "JList _"] dgetd_def)

text \<open>Every object inside a strict schema admits no other properties and requires those it has.\<close>

lemma strict_everywhere:
  assumes "sub_schema (JObj d) (strict s)" "object_schema d"
  shows "closed_schema d"
proof -
  obtain u where "JObj d = strict u" using sub_schema_of_strict[OF assms(1) refl] by blast
  then obtain d0 where "d = close_object (strict_entries d0)" by (cases u) auto
  then show ?thesis using assms(2) close_object_closed by (simp add: close_object_facts)
qed

lemma strict_everywhere_witness:
  "\<exists>d. strict (JObj [(''type'', JStr ''object'')]) = JObj d \<and> closed_schema d"
proof -
  obtain d where d: "strict (JObj [(''type'', JStr ''object'')]) = JObj d" by simp
  then have "object_schema d" by (auto simp: close_object_facts object_schema_def)
  then show ?thesis using strict_everywhere[of d "JObj [(''type'', JStr ''object'')]"] d sub_schema.itself by metis
qed

lemma strict_entries_dset:
  "strict_entries (dset k v d) = dset k (strict_at k v) (strict_entries d)"
  by (induction d) auto

lemma close_object_idem: "close_object (close_object d) = close_object d"
proof (cases "object_schema d")
  case True
  then have c: "closed_schema (close_object d)" by (rule close_object_closed)
  have l: "schema_properties d \<noteq> [] \<Longrightarrow> \<exists>xs. dget (close_object d) ''required'' = Some (JList xs)"
    using True by (simp add: close_object_def Let_def)
  have a: "dset ''additionalProperties'' (JBool False) (close_object d) = close_object d"
    using c by (simp add: closed_schema_def update_triv)
  show ?thesis
  proof (cases "schema_properties d = []")
    case True
    then show ?thesis
      using c a by (subst close_object_def) (simp add: close_object_facts Let_def closed_schema_def)
  next
    case False
    then obtain xs where xs: "dget (close_object d) ''required'' = Some (JList xs)" using l by blast
    have "add_missing (dkeys (schema_properties d)) xs = xs"
      using c xs by (intro add_missing_present) (auto simp: closed_schema_def close_object_facts required_list_def dgetd_def)
    then show ?thesis
      using False a xs by (subst close_object_def) (simp add: close_object_facts Let_def dgetd_def required_list_def update_triv)
  qed
qed (simp add: close_object_def)

lemma strict_entries_close: "strict_entries (close_object d) = close_object (strict_entries d)" if "strict_entries d = d"
proof -
  have at: "strict_at ''additionalProperties'' (JBool b) = JBool b" "strict_at ''required'' (JList xs) = JList xs" for b xs
    by (simp_all add: sub_keys_def)
  show ?thesis using that by (simp add: close_object_def Let_def strict_entries_dset at del: strict_at.simps)
qed

lemma strict_fixed:
  "strict (strict s) = strict s"
  "strict_entries (strict_entries d) = strict_entries d"
  "strict_at k (strict_at k v) = strict_at k v"
  "strict_props (strict_props d) = strict_props d"
  "strict_list (strict_list xs) = strict_list xs"
proof (induction s and d and k v and d and xs rule: strict_strict_entries_strict_at_strict_props_strict_list.induct)
  case (1 d)
  then show ?case using strict_entries_close[OF 1] by (simp add: close_object_idem)
qed auto

text \<open>Making a strict schema strict again changes nothing.\<close>

lemma strict_idempotent: "strict (strict s) = strict s"
  by (rule strict_fixed)

end
