(* ===== verification/Difflib.thy ===== *)
theory Difflib
  imports Amber_Prelude
begin

text \<open>
  The ratio of \<open>difflib.SequenceMatcher\<close>, which the catalog of models and the editing tool use. The longest common block
  is the first of the longest ones; the blocks to its left and to its right are found likewise; the ratio is twice their
  length over the length of both. (The heuristics for frequent elements start at two hundred of them: no name of the
  catalog reaches a ratio of one half there, and of texts to edit fewer lines are meant.)
\<close>

fun agree :: "'a list \<Rightarrow> 'a list \<Rightarrow> nat" where
  "agree (x # xs) (y # ys) = (if x = y then Suc (agree xs ys) else 0)"
| "agree _ _ = 0"

definition longest_match :: "'a list \<Rightarrow> 'a list \<Rightarrow> nat \<times> nat \<times> nat" where
  "longest_match a b =
     foldl (\<lambda>best c. if fst c > fst best then c else best) (0, 0, 0)
       (concat (map (\<lambda>i. map (\<lambda>j. (agree (drop i a) (drop j b), i, j)) [0..<length b]) [0..<length a]))"

lemma foldl_choice: "foldl (\<lambda>best c. if P best c then c else best) z xs \<in> insert z (set xs)"
  by (induction xs arbitrary: z) auto

lemma longest_match_mem:
  "longest_match a b \<in> insert (0, 0, 0)
     (set (concat (map (\<lambda>i. map (\<lambda>j. (agree (drop i a) (drop j b), i, j)) [0..<length b]) [0..<length a])))"
  unfolding longest_match_def by (rule foldl_choice[of "\<lambda>best c. fst c > fst best"])

lemma longest_match_bound: "longest_match a b = (k, i, j) \<Longrightarrow> k > 0 \<Longrightarrow> i < length a \<and> j < length b"
  using longest_match_mem[of a b] by auto

function matching :: "'a list \<Rightarrow> 'a list \<Rightarrow> nat" where
  "matching a b =
     (case longest_match a b of (k, i, j) \<Rightarrow>
        if k = 0 then 0 else matching (take i a) (take j b) + k + matching (drop (i + k) a) (drop (j + k) b))"
  by pat_completeness auto
termination
  by (relation "measure (\<lambda>(a, b). length a)") (auto dest!: sym[of "(_, _, _)"] longest_match_bound)

declare matching.simps [simp del]

definition match_ratio :: "'a list \<Rightarrow> 'a list \<Rightarrow> rat" where
  "match_ratio a b = (if length a + length b = 0 then 1 else of_nat (2 * matching a b) / of_nat (length a + length b))"

section \<open>Properties\<close>

text \<open>The common blocks are no longer than either word, so a ratio is at most one.\<close>

lemma agree_bounds: "agree a b \<le> length a \<and> agree a b \<le> length b"
  by (induction a b rule: agree.induct) auto

lemma longest_match_fits: "longest_match a b = (k, i, j) \<Longrightarrow> i + k \<le> length a \<and> j + k \<le> length b"
  using longest_match_mem[of a b] agree_bounds[of "drop i a" "drop j b"] by auto

lemma matching_bounds: "matching a b \<le> length a \<and> matching a b \<le> length b"
proof (induction a b rule: matching.induct)
  case (1 a b)
  obtain k i j where m: "longest_match a b = (k, i, j)" by (metis prod_cases3)
  show ?case
    using 1[OF m[symmetric] refl] longest_match_fits[OF m] by (subst (1 2) matching.simps) (auto simp: m)
qed

lemma match_ratio_bounds: "0 \<le> match_ratio a b \<and> match_ratio a b \<le> 1"
proof -
  have "of_nat (2 * matching a b) \<le> (of_nat (length a + length b) :: rat)"
    using matching_bounds[of a b] by (simp only: of_nat_le_iff) linarith
  then show ?thesis by (auto simp: match_ratio_def divide_le_eq)
qed

end
