(* ===== verification/Model_Routing.thy ===== *)
theory Model_Routing
  imports Provider_Resilience Provider_Registry Difflib "HOL-Library.Char_ord" "HOL-Library.List_Lexorder" "HOL-Library.Product_Lexorder"
begin

text \<open>
  Which model answers: \<open>providers/capabilities.py\<close> (what a model can do, with its cache), \<open>providers/deprecations.py\<close>,
  \<open>providers/catalog.py\<close> (names, aliases and suggestions) and \<open>providers/router.py\<close> (the choice among candidates by cost,
  latency and health). \<open>litellm.get_model_info\<close> is a parameter: a lookup that may fail, and gives flags and numbers.
\<close>

section \<open>Capabilities\<close>

record model_info =
  mi_flags :: "(string, bool option) pydict"
  mi_numbers :: "(string, rat option) pydict"

record capability_values =
  cv_vision :: bool
  cv_audio :: bool
  cv_tools :: bool
  cv_json_mode :: bool
  cv_streaming :: bool
  cv_prompt_caching :: bool
  cv_reasoning :: bool
  cv_context_window :: int
  cv_max_output_tokens :: int
  cv_input_cost :: pyfloat
  cv_output_cost :: pyfloat
  cv_pricing_source :: string

record model_capability = capability_values +
  cap_model :: string
  cap_provider :: string

definition any_in :: "string list \<Rightarrow> string \<Rightarrow> bool" where "any_in ws m = list_ex (\<lambda>w. str_in w m) ws"

definition reasoning_names :: "string list" where "reasoning_names = [''o1-'', ''o3-'', ''deepseek-r1'', ''reasoner'']"

definition fallback_capabilities :: "string \<Rightarrow> capability_values" where
  "fallback_capabilities m =
     \<lparr>cv_vision = any_in [''vision'', ''claude-3'', ''gpt-4o'', ''gemini-1.5'', ''gemini-2.0'', ''pixtral'', ''llava''] m,
      cv_audio = any_in [''audio'', ''whisper'', ''gpt-4o-audio'', ''gemini-1.5''] m,
      cv_tools = True, cv_json_mode = True, cv_streaming = True,
      cv_prompt_caching = any_in [''claude-3-5'', ''claude-3-7'', ''gpt-4o''] m,
      cv_reasoning = any_in reasoning_names m,
      cv_context_window = (if any_in [''gpt-4'', ''claude-3'', ''gemini''] m then 128000 else 4096),
      cv_max_output_tokens = 4096, cv_input_cost = 0, cv_output_cost = 0, cv_pricing_source = ''default''\<rparr>"

definition price_if_free :: "pyfloat \<Rightarrow> pyfloat \<Rightarrow> capability_values \<Rightarrow> capability_values" where
  "price_if_free i out v =
     (if cv_input_cost v = 0 then v\<lparr>cv_input_cost := i, cv_output_cost := out, cv_pricing_source := ''catalog_standard''\<rparr> else v)"

definition apply_known_model_overrides :: "string \<Rightarrow> capability_values \<Rightarrow> capability_values" where
  "apply_known_model_overrides m v =
     (if str_in ''claude-3-5'' m \<or> str_in ''claude-3-7'' m then
        price_if_free (3 / 1000000) (15 / 1000000)
          (v\<lparr>cv_context_window := 200000, cv_max_output_tokens := 8192, cv_vision := True, cv_prompt_caching := True\<rparr>)
      else if str_in ''gpt-4o-mini'' m then
        price_if_free (15 / 100000000) (6 / 10000000)
          (v\<lparr>cv_context_window := 128000, cv_max_output_tokens := 16384, cv_vision := True, cv_prompt_caching := True\<rparr>)
      else if str_in ''gpt-4o'' m then
        price_if_free (25 / 10000000) (1 / 100000)
          (v\<lparr>cv_context_window := 128000, cv_max_output_tokens := 16384, cv_vision := True, cv_prompt_caching := True\<rparr>)
      else if str_in ''gemini-1.5'' m \<or> str_in ''gemini-2.0'' m then
        v\<lparr>cv_context_window := 1000000, cv_max_output_tokens := 8192, cv_vision := True, cv_audio := True\<rparr>
      else if str_in ''deepseek-r1'' m then
        price_if_free (55 / 100000000) (219 / 100000000)
          (v\<lparr>cv_context_window := 64000, cv_max_output_tokens := 8192, cv_reasoning := True\<rparr>)
      else v)"

definition flag :: "model_info \<Rightarrow> string \<Rightarrow> bool \<Rightarrow> bool" where
  "flag i k d = (case dget (mi_flags i) k of None \<Rightarrow> d | Some None \<Rightarrow> False | Some (Some b) \<Rightarrow> b)"

definition figure :: "model_info \<Rightarrow> string \<Rightarrow> rat \<Rightarrow> rat" where
  "figure i k d = (case dget (mi_numbers i) k of Some (Some x) \<Rightarrow> if x = 0 then d else x | _ \<Rightarrow> d)"

definition info_values :: "string \<Rightarrow> model_info \<Rightarrow> capability_values" where
  "info_values lookup i =
     \<lparr>cv_vision = flag i ''supports_vision'' False,
      cv_audio = flag i ''supports_audio'' False \<or> flag i ''supports_audio_input'' False,
      cv_tools = flag i ''supports_function_calling'' True,
      cv_json_mode = flag i ''supports_response_schema'' False,
      cv_streaming = flag i ''supports_streaming'' True,
      cv_prompt_caching = flag i ''supports_prompt_caching'' False,
      cv_reasoning = flag i ''supports_reasoning'' False \<or> any_in reasoning_names (lower lookup),
      cv_context_window = py_int (figure i ''max_input_tokens'' 4096),
      cv_max_output_tokens = py_int (figure i ''max_output_tokens'' 4096),
      cv_input_cost = figure i ''input_cost_per_token'' 0, cv_output_cost = figure i ''output_cost_per_token'' 0,
      cv_pricing_source = ''litellm_model_info''\<rparr>"

type_synonym get_model_info = "string \<Rightarrow> model_info option"
type_synonym capability_cache = "(string, model_capability) pydict"

definition model_values :: "get_model_info \<Rightarrow> string \<Rightarrow> capability_values" where
  "model_values info model =
     apply_known_model_overrides (lower model)
       (let lookup = (if has_slash model then after_last_slash model else model)
        in case info lookup of Some i \<Rightarrow> info_values lookup i | None \<Rightarrow> fallback_capabilities (lower model))"

text \<open>A caller that brings its own module, the second parameter, does not read the cache but fills it.\<close>

definition detect_capabilities ::
  "get_model_info \<Rightarrow> get_model_info option \<Rightarrow> string \<Rightarrow> string \<Rightarrow> capability_cache \<Rightarrow> model_capability \<times> capability_cache" where
  "detect_capabilities litellm own model provider cache =
     (case (dget cache model, own) of
        (Some c, None) \<Rightarrow> (c, cache)
      | _ \<Rightarrow>
         (let v = model_values (case own of Some f \<Rightarrow> f | None \<Rightarrow> litellm) model;
              c = capability_values.extend v \<lparr>cap_model = model, cap_provider = provider\<rparr>
          in (c, dset model c cache)))"

section \<open>Deprecations\<close>

record deprecation =
  dep_sunset :: "string option"
  dep_replacement :: string
  dep_notes :: string

definition deprecation_schedule :: "(string, deprecation) pydict" where
  "deprecation_schedule =
     [(''text-davinci-003'', \<lparr>dep_sunset = Some ''2024-01-04'', dep_replacement = ''gpt-3.5-turbo'',
         dep_notes = ''Legacy Completions API shut down by OpenAI.''\<rparr>),
      (''gpt-3.5-turbo-0613'', \<lparr>dep_sunset = Some ''2024-06-13'', dep_replacement = ''gpt-4o-mini'',
         dep_notes = ''Snapshot pinned version sunset; migrate to gpt-4o-mini.''\<rparr>),
      (''gpt-4-0314'', \<lparr>dep_sunset = Some ''2024-06-13'', dep_replacement = ''gpt-4o'', dep_notes = ''Snapshot version retired.''\<rparr>),
      (''gpt-4-0613'', \<lparr>dep_sunset = Some ''2025-06-06'', dep_replacement = ''gpt-4o'', dep_notes = ''Deprecated in favor of GPT-4o.''\<rparr>),
      (''claude-2.0'', \<lparr>dep_sunset = Some ''2024-11-06'', dep_replacement = ''claude-3-5-sonnet-20241022'',
         dep_notes = ''Claude 2 series retired by Anthropic.''\<rparr>),
      (''claude-2.1'', \<lparr>dep_sunset = Some ''2024-11-06'', dep_replacement = ''claude-3-5-sonnet-20241022'',
         dep_notes = ''Claude 2.1 retired by Anthropic.''\<rparr>),
      (''claude-instant-1.2'', \<lparr>dep_sunset = Some ''2024-11-06'', dep_replacement = ''claude-3-5-haiku-20241022'',
         dep_notes = ''Claude Instant retired by Anthropic.''\<rparr>),
      (''gemini-1.0-pro'', \<lparr>dep_sunset = Some ''2025-02-15'', dep_replacement = ''gemini-1.5-flash'',
         dep_notes = ''Gemini 1.0 discontinued in favor of 1.5 series.''\<rparr>),
      (''llama-2-7b-chat'', \<lparr>dep_sunset = None, dep_replacement = ''llama-3.1-8b-instruct'',
         dep_notes = ''Llama 2 superseded by Llama 3.1.''\<rparr>),
      (''llama-2-70b-chat'', \<lparr>dep_sunset = None, dep_replacement = ''llama-3.1-70b-instruct'',
         dep_notes = ''Llama 2 superseded by Llama 3.1.''\<rparr>)]"

record deprecation_notice =
  dn_model :: string
  dn_sunset :: "string option"
  dn_replacement :: string
  dn_message :: string

definition in_ticks :: "string \<Rightarrow> string" where "in_ticks s = [CHR 0x27] @ s @ [CHR 0x27]"

definition check_model_deprecation :: "string \<Rightarrow> deprecation_notice option" where
  "check_model_deprecation model =
     (let bare = lower (after_last_slash model)
      in case find (\<lambda>(k, d). str_in k bare) deprecation_schedule of
           None \<Rightarrow> None
         | Some (k, d) \<Rightarrow>
             Some \<lparr>dn_model = model, dn_sunset = dep_sunset d, dn_replacement = dep_replacement d,
                   dn_message = ''Model '' @ in_ticks model @ '' is DEPRECATED''
                     @ (case dep_sunset d of Some x \<Rightarrow> '' (sunset: '' @ x @ '')'' | None \<Rightarrow> [])
                     @ ''. Recommended replacement: '' @ in_ticks (dep_replacement d) @ ''. '' @ dep_notes d\<rparr>)"

section \<open>The catalog\<close>

definition model_catalog :: "(string, string list) pydict" where
  "model_catalog =
     [(''openai'', [''gpt-4o'', ''gpt-4o-mini'', ''gpt-4-turbo'', ''gpt-4'', ''gpt-3.5-turbo'', ''o1'', ''o1-mini'', ''o1-preview'', ''o3-mini'',
         ''chatgpt-4o-latest'']),
      (''anthropic'', [''claude-3-5-sonnet-20241022'', ''claude-3-5-haiku-20241022'', ''claude-3-opus-20240229'', ''claude-3-sonnet-20240229'',
         ''claude-3-haiku-20240307'', ''claude-3-7-sonnet'', ''claude-4-opus'']),
      (''google'', [''gemini-1.5-pro'', ''gemini-1.5-flash'', ''gemini-2.0-flash'', ''gemini-2.0-pro-exp-02-05'']),
      (''deepseek'', [''deepseek-chat'', ''deepseek-reasoner'', ''deepseek-r1'', ''deepseek-v3'']),
      (''mistral'', [''mistral-large-latest'', ''mistral-small-latest'', ''codestral-latest'', ''pixtral-large-latest'']),
      (''meta'', [''llama-3.1-8b-instruct'', ''llama-3.1-70b-instruct'', ''llama-3.2-3b-instruct'', ''llama-3.3-70b-instruct'', ''llama3'',
         ''llama3:8b'', ''llama3:70b'']),
      (''groq'', [''llama-3.3-70b-versatile'', ''llama-3.1-8b-instant'', ''mixtral-8x7b-32768'']),
      (''cohere'', [''command-r'', ''command-r-plus''])]"

definition model_aliases :: "(string, string) pydict" where
  "model_aliases =
     [(''gpt4o'', ''gpt-4o''), (''gpt4o-mini'', ''gpt-4o-mini''), (''gpt-4o-latest'', ''gpt-4o''),
      (''claude-3.5-sonnet'', ''claude-3-5-sonnet-20241022''), (''claude-3-5-sonnet'', ''claude-3-5-sonnet-20241022''),
      (''claude-3.5-haiku'', ''claude-3-5-haiku-20241022''), (''claude-3-opus'', ''claude-3-opus-20240229''),
      (''claude-3-sonnet'', ''claude-3-sonnet-20240229''), (''claude-3-haiku'', ''claude-3-haiku-20240307''),
      (''gemini-pro'', ''gemini-1.5-pro''), (''gemini-flash'', ''gemini-1.5-flash''), (''deepseek-r1'', ''deepseek-reasoner'')]"

definition all_known_models :: "string list" where "all_known_models = concat (dvals model_catalog) @ dkeys model_aliases"

text \<open>\<open>difflib.get_close_matches\<close>: the three options with the highest ratios of at least one half.\<close>

definition close_matches :: "string \<Rightarrow> string list \<Rightarrow> string list" where
  "close_matches word options =
     map snd (take 3 (sorted_desc (\<lambda>p. p) (filter (\<lambda>(r, x). r \<ge> 1 / 2) (map (\<lambda>x. (match_ratio x word, x)) options))))"

record validation =
  vr_model :: string
  vr_valid :: bool
  vr_canonical :: string
  vr_provider :: "string option"
  vr_suggestions :: "string list"
  vr_warning :: "string option"

fun commas :: "string list \<Rightarrow> string" where
  "commas [] = []"
| "commas [x] = x"
| "commas (x # xs) = x @ '', '' @ commas xs"

definition with_prefix :: "string option \<Rightarrow> string \<Rightarrow> string" where
  "with_prefix p s = (case p of Some (c # cs) \<Rightarrow> (c # cs) @ ''/'' @ s | _ \<Rightarrow> s)"

definition did_you_mean :: "string \<Rightarrow> string list \<Rightarrow> string" where
  "did_you_mean w ss = w @ (if ss = [] then ''.'' else ''. Did you mean: '' @ commas ss @ ''?'')"

definition validate_model_name :: "string \<Rightarrow> string option \<Rightarrow> validation" where
  "validate_model_name model provider =
     (let clean = strip model;
          pre = (if has_slash clean then Some (lower (before_slash clean)) else None);
          bare = (if has_slash clean then after_slash clean else clean);
          effective = (case provider of Some (c # cs) \<Rightarrow> provider | _ \<Rightarrow> pre);
          answer = (\<lambda>ok canonical p ss w. \<lparr>vr_model = model, vr_valid = ok, vr_canonical = canonical, vr_provider = p, vr_suggestions = ss, vr_warning = w\<rparr>)
      in if pre \<in> Some ` {''custom'', ''local'', ''azure'', ''vllm'', ''ollama'', ''openai-codex''} then answer True bare effective [] None
         else case dget model_aliases bare of
           Some c \<Rightarrow> answer True (with_prefix pre c) effective [] (Some (''Model '' @ in_ticks bare @ '' is an alias for '' @ in_ticks c @ ''.''))
         | None \<Rightarrow>
             (case Option.bind effective (dget model_catalog) of
                Some ms \<Rightarrow>
                  if bare \<in> set ms then answer True clean effective [] None
                  else (let ss = map (with_prefix pre) (close_matches bare ms)
                        in answer False clean effective ss
                             (Some (did_you_mean (''Model '' @ in_ticks bare @ '' not found in '' @ in_ticks (the effective) @ '' catalog'') ss)))
              | None \<Rightarrow>
                  (case find (\<lambda>(p, ms). bare \<in> set ms) model_catalog of
                     Some (p, ms) \<Rightarrow> answer True clean (case effective of Some (c # cs) \<Rightarrow> effective | _ \<Rightarrow> Some p) [] None
                   | None \<Rightarrow>
                       (let ss = close_matches bare all_known_models
                        in answer False clean effective ss (Some (did_you_mean (''Unrecognized model '' @ in_ticks clean) ss))))))"

section \<open>The router\<close>

datatype routing_strategy = COST_OPTIMIZED | LATENCY_OPTIMIZED | BALANCED | QUALITY_OPTIMIZED

record requirement =
  rq_tools :: bool
  rq_json :: bool
  rq_vision :: bool
  rq_audio :: bool
  rq_min_context :: int
  rq_reasoning :: bool
  rq_max_cost :: "pyfloat option"

definition plain_requirement :: requirement where
  "plain_requirement = \<lparr>rq_tools = False, rq_json = False, rq_vision = False, rq_audio = False, rq_min_context = 4096,
     rq_reasoning = False, rq_max_cost = None\<rparr>"

datatype disqualification = Lacks string | SmallContext int int | TooExpensive pyfloat pyfloat

definition disqualify_text :: "(pyfloat \<Rightarrow> string) \<Rightarrow> disqualification \<Rightarrow> string" where
  "disqualify_text show_float d =
     (case d of
        Lacks x \<Rightarrow> ''lacks '' @ x @ '' capability''
      | SmallContext a b \<Rightarrow> ''context window '' @ show_int a @ '' < required '' @ show_int b
      | TooExpensive a b \<Rightarrow> ''cost '' @ show_float a @ '' > max '' @ show_float b)"

text \<open>The first check that fails, in the order of the list.\<close>

definition disqualified :: "capability_values \<Rightarrow> requirement \<Rightarrow> disqualification option" where
  "disqualified c r =
     (if rq_tools r \<and> \<not> cv_tools c then Some (Lacks ''tools'')
      else if rq_json r \<and> \<not> cv_json_mode c then Some (Lacks ''json_mode'')
      else if rq_vision r \<and> \<not> cv_vision c then Some (Lacks ''vision'')
      else if rq_audio r \<and> \<not> cv_audio c then Some (Lacks ''audio'')
      else if rq_reasoning r \<and> \<not> cv_reasoning c then Some (Lacks ''reasoning'')
      else if cv_context_window c < rq_min_context r then Some (SmallContext (cv_context_window c) (rq_min_context r))
      else case rq_max_cost r of
             Some m \<Rightarrow> if cv_input_cost c > m then Some (TooExpensive (cv_input_cost c) m) else None
           | None \<Rightarrow> None)"

record candidate =
  ca_model :: string
  ca_disqualified :: "disqualification option"
  ca_open :: bool
  ca_health :: pyfloat
  ca_p50 :: pyfloat
  ca_avg_cost :: pyfloat
  ca_context :: int
  ca_reasoning :: bool

definition score_cost :: "candidate \<Rightarrow> pyfloat" where "score_cost c = 1 / (1 + ca_avg_cost c * 100000)"
definition score_latency :: "candidate \<Rightarrow> pyfloat" where "score_latency c = 1000 / (1000 + ca_p50 c)"

definition candidate_score :: "routing_strategy \<Rightarrow> candidate \<Rightarrow> pyfloat" where
  "candidate_score strat c =
     py_round 4 (case strat of
        COST_OPTIMIZED \<Rightarrow> 7 / 10 * score_cost c + 3 / 10 * ca_health c
      | LATENCY_OPTIMIZED \<Rightarrow> 6 / 10 * score_latency c + 4 / 10 * ca_health c
      | QUALITY_OPTIMIZED \<Rightarrow> 4 / 10 * ca_health c
          + ((if ca_reasoning c then 3 / 10 else 0) + min (3 / 10) (of_int (ca_context c) / 500000)) + 2 / 10 * score_latency c
      | BALANCED \<Rightarrow> 4 / 10 * ca_health c + 3 / 10 * score_cost c + 3 / 10 * score_latency c)"

record routing_state =
  rt_cache :: capability_cache
  rt_breakers :: breaker_registry

definition evaluate_candidate ::
  "get_model_info \<Rightarrow> timestamp \<Rightarrow> requirement \<Rightarrow> string \<Rightarrow> routing_state \<Rightarrow> candidate \<times> routing_state" where
  "evaluate_candidate litellm now req model s =
     (let (cap, cache) = detect_capabilities litellm None model [] (rt_cache s);
          (cb, reg) = get_circuit_breaker (''llm_'' @ model) 5 30 (rt_breakers s)
      in (\<lparr>ca_model = model, ca_disqualified = disqualified (capability_values.truncate cap) req, ca_open = (circuit_state_at now cb = OPEN),
           ca_health = health_score now cb, ca_p50 = hm_p50 (breaker_metrics now cb),
           ca_avg_cost = (cv_input_cost cap + cv_output_cost cap) / 2, ca_context = cv_context_window cap,
           ca_reasoning = cv_reasoning cap\<rparr>,
          \<lparr>rt_cache = cache, rt_breakers = reg\<rparr>))"

primrec evaluate_all ::
  "get_model_info \<Rightarrow> timestamp \<Rightarrow> requirement \<Rightarrow> string list \<Rightarrow> routing_state \<Rightarrow> candidate list \<times> routing_state" where
  "evaluate_all litellm now req [] s = ([], s)"
| "evaluate_all litellm now req (m # ms) s =
     (let (c, s1) = evaluate_candidate litellm now req m s; (cs, s2) = evaluate_all litellm now req ms s1 in (c # cs, s2))"

record decision =
  de_model :: string
  de_strategy :: routing_strategy
  de_score :: pyfloat
  de_fallback :: bool
  de_evaluated :: "candidate list"

definition viable :: "candidate list \<Rightarrow> candidate list" where
  "viable cs =
     (let v = filter (\<lambda>c. ca_disqualified c = None \<and> \<not> ca_open c) cs
      in if v = [] then filter (\<lambda>c. ca_disqualified c = None) cs else v)"

definition decide :: "routing_strategy \<Rightarrow> string \<Rightarrow> candidate list \<Rightarrow> decision" where
  "decide strat fallback cs =
     (case sorted_desc (candidate_score strat) (viable cs) of
        [] \<Rightarrow> \<lparr>de_model = fallback, de_strategy = strat, de_score = 0, de_fallback = True, de_evaluated = cs\<rparr>
      | w # _ \<Rightarrow> \<lparr>de_model = ca_model w, de_strategy = strat, de_score = candidate_score strat w, de_fallback = False, de_evaluated = cs\<rparr>)"

definition select_optimal_model ::
  "get_model_info \<Rightarrow> timestamp \<Rightarrow> routing_strategy \<Rightarrow> string list \<Rightarrow> requirement option \<Rightarrow> routing_strategy option
     \<Rightarrow> routing_state \<Rightarrow> (string + decision) \<times> routing_state" where
  "select_optimal_model litellm now default_strategy candidates requirements strategy s =
     (case candidates of
        [] \<Rightarrow> (Inl ''No candidate models provided for routing.'', s)
      | c # _ \<Rightarrow>
          (let (cs, s') = evaluate_all litellm now (case requirements of Some r \<Rightarrow> r | None \<Rightarrow> plain_requirement) candidates s
           in (Inr (decide (case strategy of Some x \<Rightarrow> x | None \<Rightarrow> default_strategy) c cs), s')))"

section \<open>Properties\<close>

text \<open>A second look gives the same answer, and the provider of the first look with it.\<close>

lemma detect_stores: "detect_capabilities litellm own model provider cache = (c, cache1) \<Longrightarrow> dget cache1 model = Some c"
  by (cases "dget cache model"; cases own) (auto simp: detect_capabilities_def Let_def)

lemma detect_again:
  assumes "detect_capabilities litellm own model provider cache = (c, cache1)"
  shows "detect_capabilities other None model provider2 cache1 = (c, cache1)"
  using detect_stores[OF assms] by (simp add: detect_capabilities_def)

text \<open>No replacement is itself deprecated, and no alias leads out of the catalog or to another alias.\<close>

lemma replacements_current: "list_all (\<lambda>(k, d). check_model_deprecation (dep_replacement d) = None) deprecation_schedule"
  by code_simp

lemma aliases_canonical:
  "list_all (\<lambda>(a, c). list_ex (\<lambda>(p, ms). c \<in> set ms) model_catalog \<and> dget model_aliases c = None) model_aliases"
  by code_simp

text \<open>An alias is accepted under any provider, although the name it stands for is refused there.\<close>

lemma alias_skips_provider:
  "vr_valid (validate_model_name ''google/gpt4o'' None)"
  "vr_canonical (validate_model_name ''google/gpt4o'' None) = ''google/gpt-4o''"
  "\<not> vr_valid (validate_model_name ''google/gpt-4o'' None)"
  by (code_simp, code_simp, code_simp)

text \<open>The name \<open>deepseek-r1\<close> of the catalog is shadowed by an alias.\<close>

lemma canonical_shadowed:
  "''deepseek-r1'' \<in> set (the (dget model_catalog ''deepseek''))"
  "vr_canonical (validate_model_name ''deepseek/deepseek-r1'' None) = ''deepseek/deepseek-reasoner''"
  by (code_simp, code_simp)

text \<open>Suggestions come from the options, at most three of them.\<close>

lemma close_matches_sound: "set (close_matches w xs) \<subseteq> set xs \<and> length (close_matches w xs) \<le> 3"
  by (auto simp: close_matches_def dest!: in_set_takeD)

lemma typo_suggestion: "close_matches ''gpt-4oo'' [''gpt-4o'', ''o1'', ''command-r'', ''gpt-4''] = [''gpt-4o'', ''gpt-4'']"
  by code_simp

text \<open>The router: every candidate is looked at, once, in order.\<close>

lemma evaluate_candidate_model: "evaluate_candidate litellm now req m s = (c, s') \<Longrightarrow> ca_model c = m"
  by (auto simp: evaluate_candidate_def split: prod.splits)

lemma evaluated_models: "evaluate_all litellm now req ms s = (cs, s') \<Longrightarrow> map ca_model cs = ms"
  by (induction ms arbitrary: s cs s') (auto split: prod.splits dest: evaluate_candidate_model)

lemma viable_sound:
  "c \<in> set (viable cs) \<Longrightarrow> c \<in> set cs \<and> ca_disqualified c = None"
  by (auto simp: viable_def Let_def split: if_splits)

lemma viable_nil: "viable cs = [] \<longleftrightarrow> (\<forall>c\<in>set cs. ca_disqualified c \<noteq> None)"
  by (auto simp: viable_def Let_def filter_empty_conv)

lemma viable_closed:
  "c \<in> set cs \<Longrightarrow> ca_disqualified c = None \<Longrightarrow> \<not> ca_open c \<Longrightarrow> d \<in> set (viable cs) \<Longrightarrow> \<not> ca_open d"
  by (auto simp: viable_def Let_def filter_empty_conv split: if_splits)

lemma hd_sorted_desc_max:
  assumes "sorted_desc f xs = w # ws" "x \<in> set xs"
  shows "f x \<le> f w"
proof -
  have "sorted (map f (rev (w # ws)))" using sorted_sorted_desc[of f xs] assms(1) by simp
  moreover have "x \<in> set (w # ws)" using assms by (metis set_sorted_desc)
  ultimately show ?thesis by (auto simp: sorted_append)
qed

lemma decide_best:
  assumes "decide strat first cs = d" "\<not> de_fallback d"
  shows "\<exists>w\<in>set cs. ca_model w = de_model d \<and> ca_disqualified w = None \<and> de_score d = candidate_score strat w
    \<and> (\<forall>c\<in>set (viable cs). candidate_score strat c \<le> de_score d)
    \<and> (ca_open w \<longrightarrow> (\<forall>c\<in>set cs. ca_disqualified c = None \<longrightarrow> ca_open c))"
proof (cases "sorted_desc (candidate_score strat) (viable cs)")
  case Nil
  then show ?thesis using assms by (auto simp: decide_def)
next
  case (Cons w ws)
  then have w: "w \<in> set (viable cs)" by (metis list.set_intros(1) set_sorted_desc)
  have "\<forall>c\<in>set (viable cs). candidate_score strat c \<le> candidate_score strat w"
    using hd_sorted_desc_max[OF Cons] by blast
  then show ?thesis
    using viable_sound[OF w] viable_closed[OF _ _ _ w] assms by (intro bexI[of _ w]) (auto simp: decide_def Cons)
qed

lemma decide_fallback_iff: "de_fallback (decide strat first cs) \<longleftrightarrow> (\<forall>c\<in>set cs. ca_disqualified c \<noteq> None)"
proof -
  have "sorted_desc (candidate_score strat) (viable cs) = [] \<longleftrightarrow> viable cs = []"
    by (metis set_sorted_desc set_empty)
  then show ?thesis by (auto simp: decide_def viable_nil split: list.split)
qed

text \<open>
  What the router should see of a model, from the state before the call: what the model can do, its circuit, whether it
  meets the requirements, and whether its circuit is open. The evaluation of one candidate fills the cache and the registry
  but changes none of it for any model.
\<close>

definition known_values :: "get_model_info \<Rightarrow> routing_state \<Rightarrow> string \<Rightarrow> capability_values" where
  "known_values litellm s m =
     (case dget (rt_cache s) m of Some c \<Rightarrow> capability_values.truncate c | None \<Rightarrow> model_values litellm m)"

definition known_breaker :: "routing_state \<Rightarrow> string \<Rightarrow> breaker" where
  "known_breaker s m = (case dget (rt_breakers s) (''llm_'' @ m) of Some b \<Rightarrow> b | None \<Rightarrow> new_breaker (''llm_'' @ m) 5 30 2)"

definition meets :: "capability_values \<Rightarrow> requirement \<Rightarrow> bool" where
  "meets c r \<longleftrightarrow> (rq_tools r \<longrightarrow> cv_tools c) \<and> (rq_json r \<longrightarrow> cv_json_mode c) \<and> (rq_vision r \<longrightarrow> cv_vision c)
     \<and> (rq_audio r \<longrightarrow> cv_audio c) \<and> (rq_reasoning r \<longrightarrow> cv_reasoning c) \<and> rq_min_context r \<le> cv_context_window c
     \<and> (\<forall>m. rq_max_cost r = Some m \<longrightarrow> cv_input_cost c \<le> m)"

definition cooling :: "timestamp \<Rightarrow> breaker \<Rightarrow> bool" where
  "cooling now b \<longleftrightarrow> cb_state b = OPEN \<and> now < cb_last_failure b + cb_recovery_timeout b"

definition profile :: "get_model_info \<Rightarrow> timestamp \<Rightarrow> requirement \<Rightarrow> routing_state \<Rightarrow> string \<Rightarrow> candidate" where
  "profile litellm now req s m =
     (let c = known_values litellm s m; b = known_breaker s m
      in \<lparr>ca_model = m, ca_disqualified = disqualified c req, ca_open = cooling now b,
          ca_health = compute_health_score (if cb_state b = OPEN \<and> \<not> cooling now b then HALF_OPEN else cb_state b) (cb_tracker b),
          ca_p50 = py_round 2 (percentile (1 / 2) (sorted_latencies (cb_tracker b))),
          ca_avg_cost = (cv_input_cost c + cv_output_cost c) / 2, ca_context = cv_context_window c, ca_reasoning = cv_reasoning c\<rparr>)"

lemma disqualified_iff: "disqualified c r = None \<longleftrightarrow> meets c r"
  by (auto simp: disqualified_def meets_def not_le split: option.split)

lemma truncate_extend: "capability_values.truncate (capability_values.extend v x) = v"
  by (simp add: capability_values.truncate_def capability_values.extend_def)

lemma truncate_fields:
  "cv_input_cost (capability_values.truncate c) = cv_input_cost c" "cv_output_cost (capability_values.truncate c) = cv_output_cost c"
  "cv_context_window (capability_values.truncate c) = cv_context_window c" "cv_reasoning (capability_values.truncate c) = cv_reasoning c"
  by (simp_all add: capability_values.truncate_def)

lemma detect_known:
  assumes "detect_capabilities litellm None m p cache = (c, cache1)"
  shows "capability_values.truncate c = known_values litellm \<lparr>rt_cache = cache, rt_breakers = reg\<rparr> m
    \<and> known_values litellm \<lparr>rt_cache = cache1, rt_breakers = reg\<rparr> = known_values litellm \<lparr>rt_cache = cache, rt_breakers = reg\<rparr>"
proof (cases "dget cache m")
  case None
  then have "cache1 = dset m c cache" "c = capability_values.extend (model_values litellm m) \<lparr>cap_model = m, cap_provider = p\<rparr>"
    using assms by (auto simp: detect_capabilities_def Let_def)
  with None show ?thesis by (auto simp: known_values_def truncate_extend)
qed (use assms in \<open>auto simp: detect_capabilities_def known_values_def\<close>)

lemma breaker_known:
  assumes "get_circuit_breaker (''llm_'' @ m) 5 30 reg = (b, reg1)"
  shows "b = known_breaker \<lparr>rt_cache = cache, rt_breakers = reg\<rparr> m
    \<and> known_breaker \<lparr>rt_cache = cache, rt_breakers = reg1\<rparr> = known_breaker \<lparr>rt_cache = cache, rt_breakers = reg\<rparr>"
  using assms by (auto simp: get_circuit_breaker_def known_breaker_def Let_def split: option.splits)

lemma known_values_cache: "known_values litellm \<lparr>rt_cache = c, rt_breakers = r\<rparr> = known_values litellm \<lparr>rt_cache = c, rt_breakers = r'\<rparr>"
  and known_breaker_registry: "known_breaker \<lparr>rt_cache = c, rt_breakers = r\<rparr> = known_breaker \<lparr>rt_cache = c', rt_breakers = r\<rparr>"
  by (auto simp: known_values_def known_breaker_def)

lemma circuit_state_cooling:
  "circuit_state_at now b = (if cb_state b = OPEN \<and> \<not> cooling now b then HALF_OPEN else cb_state b)"
  "circuit_state_at now b = OPEN \<longleftrightarrow> cooling now b"
  by (auto simp: circuit_state_at_def cooling_def not_less algebra_simps)

lemma evaluate_candidate_known:
  assumes "evaluate_candidate litellm now req m s = (c, s1)"
  shows "c = profile litellm now req s m \<and> known_values litellm s1 = known_values litellm s \<and> known_breaker s1 = known_breaker s"
proof -
  obtain cap cache1 where d: "detect_capabilities litellm None m [] (rt_cache s) = (cap, cache1)" by fastforce
  obtain b reg1 where r: "get_circuit_breaker (''llm_'' @ m) 5 30 (rt_breakers s) = (b, reg1)" by fastforce
  have s: "\<lparr>rt_cache = rt_cache s, rt_breakers = rt_breakers s\<rparr> = s" by (cases s) simp
  from assms d r have c: "s1 = \<lparr>rt_cache = cache1, rt_breakers = reg1\<rparr>"
    "c = \<lparr>ca_model = m, ca_disqualified = disqualified (capability_values.truncate cap) req, ca_open = (circuit_state_at now b = OPEN),
           ca_health = health_score now b, ca_p50 = hm_p50 (breaker_metrics now b),
           ca_avg_cost = (cv_input_cost cap + cv_output_cost cap) / 2, ca_context = cv_context_window cap,
           ca_reasoning = cv_reasoning cap\<rparr>" by (auto simp: evaluate_candidate_def)
  have k: "capability_values.truncate cap = known_values litellm s m" "known_values litellm s1 = known_values litellm s"
    "b = known_breaker s m" "known_breaker s1 = known_breaker s"
    using detect_known [OF d, of "rt_breakers s"] breaker_known [OF r, of "rt_cache s"]
      known_values_cache [of litellm cache1 reg1 "rt_breakers s"] known_breaker_registry [of cache1 reg1 "rt_cache s"]
    unfolding s c(1) by auto
  have "c = profile litellm now req s m"
    unfolding c(2) profile_def k(1) [symmetric] k(3) [symmetric] Let_def truncate_fields
    by (auto simp: circuit_state_cooling health_score_def breaker_metrics_def get_health_metrics_def cooling_def)
  with k show ?thesis by simp
qed

lemma profile_known:
  assumes "known_values litellm s1 = known_values litellm s" and "known_breaker s1 = known_breaker s"
  shows "profile litellm now req s1 m = profile litellm now req s m"
  by (simp only: profile_def assms)

lemma evaluate_all_known: "fst (evaluate_all litellm now req ms s) = map (profile litellm now req s) ms"
proof (induction ms arbitrary: s)
  case (Cons m ms)
  obtain c s1 where e: "evaluate_candidate litellm now req m s = (c, s1)" by fastforce
  note k = evaluate_candidate_known [OF e]
  have "map (profile litellm now req s1) ms = map (profile litellm now req s) ms"
    by (rule map_cong [OF refl], rule profile_known) (use k in blast)+
  moreover have "fst (evaluate_all litellm now req (m # ms) s) = c # fst (evaluate_all litellm now req ms s1)"
    by (cases "evaluate_all litellm now req ms s1") (simp add: e)
  moreover have "c = profile litellm now req s m" using k by blast
  ultimately show ?case unfolding Cons.IH [of s1] by simp
qed simp

text \<open>
  C37. The router judges every candidate by what is known of it before the call: its cached or detected capabilities and
  its circuit. When no candidate meets the requirements (tools, JSON, vision, audio, reasoning, context window, cost of
  the input) the answer is the first one, marked as a fallback. Otherwise it is one that meets them, its circuit is open
  (tripped and within its recovery timeout) only when that of every candidate that meets them is, and it has the
  highest score among those that meet them and are not behind an open circuit, or among all that meet them when
  none is free.
\<close>

lemma router_selects:
  assumes "select_optimal_model litellm now dflt ms req strat s = (Inr d, s')"
  defines "need \<equiv> (case req of Some r \<Rightarrow> r | None \<Rightarrow> plain_requirement)"
  defines "fit \<equiv> \<lambda>m. meets (known_values litellm s m) need"
  defines "blocked \<equiv> \<lambda>m. cooling now (known_breaker s m)"
  defines "score \<equiv> \<lambda>m. candidate_score (case strat of Some x \<Rightarrow> x | None \<Rightarrow> dflt) (profile litellm now need s m)"
  shows "de_evaluated d = map (profile litellm now need s) ms \<and> de_model d \<in> set ms
    \<and> (de_fallback d \<longleftrightarrow> (\<forall>m\<in>set ms. \<not> fit m))
    \<and> (if de_fallback d then de_model d = hd ms
       else fit (de_model d) \<and> (blocked (de_model d) \<longrightarrow> (\<forall>m\<in>set ms. fit m \<longrightarrow> blocked m))
         \<and> de_score d = score (de_model d)
         \<and> (\<forall>m\<in>set ms. fit m \<and> (blocked m \<longrightarrow> blocked (de_model d)) \<longrightarrow> score m \<le> score (de_model d)))"
proof -
  obtain m ms' where ms: "ms = m # ms'" using assms(1) by (cases ms) (auto simp: select_optimal_model_def)
  define str where "str = (case strat of Some x \<Rightarrow> x | None \<Rightarrow> dflt)"
  let ?p = "profile litellm now need s"
  let ?cs = "map ?p ms"
  have cs: "fst (evaluate_all litellm now need ms s) = ?cs" by (rule evaluate_all_known)
  then have d: "decide str m ?cs = d"
    using assms(1) by (cases "evaluate_all litellm now need ms s") (simp add: select_optimal_model_def ms str_def need_def del: evaluate_all.simps)
  have parts: "de_evaluated d = ?cs" "de_fallback d \<Longrightarrow> de_model d = m"
    using d by (auto simp: decide_def split: list.splits)
  have p: "ca_model (?p x) = x" "ca_disqualified (?p x) = None \<longleftrightarrow> fit x" "ca_open (?p x) \<longleftrightarrow> blocked x" for x
    by (simp_all add: profile_def Let_def fit_def blocked_def disqualified_iff)
  have fb: "de_fallback d \<longleftrightarrow> (\<forall>x\<in>set ms. \<not> fit x)"
    unfolding p(2) [symmetric] using decide_fallback_iff [of str m ?cs] d by simp
  show ?thesis
  proof (cases "de_fallback d")
    case True
    then show ?thesis using parts fb ms by simp
  next
    case False
    from decide_best [OF d False] obtain w where w: "w \<in> set ?cs" "ca_model w = de_model d" "ca_disqualified w = None"
      "de_score d = candidate_score str w" "\<forall>c\<in>set (viable ?cs). candidate_score str c \<le> de_score d"
      "ca_open w \<longrightarrow> (\<forall>c\<in>set ?cs. ca_disqualified c = None \<longrightarrow> ca_open c)" by blast
    obtain x where wx: "x \<in> set ms" "w = ?p x" using w(1) unfolding set_map by blast
    have "blocked x \<longrightarrow> (\<forall>y\<in>set ms. fit y \<longrightarrow> blocked y)" using w(6) unfolding wx(2) set_map ball_simps(9) p .
    note x = wx(1) w(2) [unfolded wx(2) p] w(3) [unfolded wx(2) p] w(4) [unfolded wx(2)] w(5) this
    have "?p y \<in> set (viable ?cs)" if y: "y \<in> set ms" "fit y" "blocked y \<longrightarrow> blocked x" for y
    proof (cases "blocked y")
      case True
      then have "\<forall>z\<in>set ms. fit z \<longrightarrow> blocked z" using y(3) x(6) by blast
      then have "filter (\<lambda>c. ca_disqualified c = None \<and> \<not> ca_open c) ?cs = []"
        unfolding filter_empty_conv set_map ball_simps(9) p by blast
      moreover have "?p y \<in> set (filter (\<lambda>c. ca_disqualified c = None) ?cs)" using y(1,2) p(2) [of y] by simp
      ultimately show ?thesis unfolding viable_def Let_def by (simp only: if_True simp_thms)
    next
      case False
      then have m: "?p y \<in> set (filter (\<lambda>c. ca_disqualified c = None \<and> \<not> ca_open c) ?cs)"
        using y(1,2) p(2,3) [of y] by simp
      have "xs \<noteq> []" if "z \<in> set xs" for z and xs :: "candidate list" using that by (cases xs) auto
      note nonempty = this [OF m]
      show ?thesis unfolding viable_def Let_def using m nonempty by (simp only: if_False)
    qed
    then have best: "score y \<le> score x" if "y \<in> set ms" "fit y" "blocked y \<longrightarrow> blocked x" for y
      using bspec [OF x(5), of "?p y"] that unfolding x(4) score_def str_def by blast
    have "de_score d = score x" unfolding x(4) score_def str_def ..
    then show ?thesis unfolding if_not_P [OF False] x(2) [symmetric] using best parts(1) fb x(1,3,6) by blast
  qed
qed

text \<open>
  Vision is required: \<open>o1\<close> lacks it although it comes first. With the circuit of \<open>gpt-4o\<close> open, \<open>claude-3-5-haiku\<close> is
  chosen; and nothing meets a requirement of audio.
\<close>

definition sight :: requirement where "sight = plain_requirement\<lparr>rq_vision := True\<rparr>"

definition tripped :: breaker where
  "tripped = (new_breaker ''llm_gpt-4o'' 5 30 2)\<lparr>cb_state := OPEN, cb_last_failure := 100\<rparr>"

lemma known_new: "known_values info \<lparr>rt_cache = [], rt_breakers = r\<rparr> m = model_values info m"
  by (simp add: known_values_def)

lemma sight_fits:
  "\<not> meets (model_values (\<lambda>m. None) ''o1'') sight" "meets (model_values (\<lambda>m. None) ''gpt-4o'') sight"
  "meets (model_values (\<lambda>m. None) ''claude-3-5-haiku'') sight"
  unfolding disqualified_iff [symmetric] by (code_simp, code_simp, code_simp)

lemma router_selects_witness:
  "\<exists>d s'. select_optimal_model (\<lambda>m. None) 110 BALANCED [''o1'', ''gpt-4o'', ''claude-3-5-haiku''] (Some sight) None
        \<lparr>rt_cache = [], rt_breakers = [(''llm_gpt-4o'', tripped)]\<rparr> = (Inr d, s')
      \<and> de_model d = ''claude-3-5-haiku'' \<and> \<not> de_fallback d"
proof -
  let ?s = "\<lparr>rt_cache = [], rt_breakers = [(''llm_gpt-4o'', tripped)]\<rparr>"
  let ?ms = "[''o1'', ''gpt-4o'', ''claude-3-5-haiku'']"
  obtain d s' where d: "select_optimal_model (\<lambda>m. None) 110 BALANCED ?ms (Some sight) None ?s = (Inr d, s')"
    by (cases "evaluate_all (\<lambda>m. None) 110 sight ?ms ?s") (simp add: select_optimal_model_def del: evaluate_all.simps)
  note t = router_selects [OF d, unfolded option.case known_new]
  have fb: "\<not> de_fallback d" using t sight_fits by simp
  have "meets (model_values (\<lambda>m. None) (de_model d)) sight" "de_model d \<in> set ?ms"
    "cooling 110 (known_breaker ?s (de_model d)) \<longrightarrow> cooling 110 (known_breaker ?s ''claude-3-5-haiku'')"
    using t fb sight_fits by auto
  moreover have "cooling 110 (known_breaker ?s ''gpt-4o'')" "\<not> cooling 110 (known_breaker ?s ''claude-3-5-haiku'')"
    by (simp_all add: cooling_def known_breaker_def tripped_def new_breaker_def)
  ultimately have "de_model d = ''claude-3-5-haiku''" using sight_fits(1) by auto
  with d fb show ?thesis by blast
qed

text \<open>A score does not fall when a candidate is cheaper, faster or healthier.\<close>

lemma round_half_even_mono:
  assumes "x \<le> y"
  shows "round_half_even x \<le> round_half_even y"
proof (cases "\<lfloor>x\<rfloor> = \<lfloor>y\<rfloor>")
  case True
  then show ?thesis using assms by (auto simp: round_half_even_def Let_def)
next
  case False
  have "\<lfloor>x\<rfloor> \<le> \<lfloor>y\<rfloor>" using assms by (rule floor_mono)
  with False have "\<lfloor>x\<rfloor> + 1 \<le> \<lfloor>y\<rfloor>" by simp
  moreover have "round_half_even x \<le> \<lfloor>x\<rfloor> + 1" "\<lfloor>y\<rfloor> \<le> round_half_even y" by (auto simp: round_half_even_def Let_def)
  ultimately show ?thesis by linarith
qed

lemma py_round_mono: "x \<le> y \<Longrightarrow> py_round n x \<le> py_round n y"
  by (simp add: py_round_def divide_right_mono round_half_even_mono)

definition no_worse :: "candidate \<Rightarrow> candidate \<Rightarrow> bool" where
  "no_worse c d = (ca_health d \<le> ca_health c \<and> ca_avg_cost c \<le> ca_avg_cost d \<and> ca_p50 c \<le> ca_p50 d
     \<and> ca_context d \<le> ca_context c \<and> (ca_reasoning d \<longrightarrow> ca_reasoning c))"

lemma score_monotone:
  assumes "no_worse c d" "0 \<le> ca_avg_cost c" "0 \<le> ca_p50 c"
  shows "candidate_score strat d \<le> candidate_score strat c"
proof -
  have "score_cost d \<le> score_cost c" using assms by (auto simp: score_cost_def no_worse_def intro!: divide_left_mono)
  moreover have "score_latency d \<le> score_latency c" using assms by (auto simp: score_latency_def no_worse_def intro!: divide_left_mono)
  moreover have "ca_health d \<le> ca_health c" using assms by (simp add: no_worse_def)
  moreover have "min (3 / 10) (of_int (ca_context d) / 500000) \<le> (min (3 / 10) (of_int (ca_context c) / 500000) :: rat)"
    using assms by (auto simp: no_worse_def intro!: min.mono divide_right_mono)
  moreover have "(if ca_reasoning d then 3 / 10 else 0) \<le> ((if ca_reasoning c then 3 / 10 else 0) :: rat)"
    using assms by (auto simp: no_worse_def)
  ultimately show ?thesis
    unfolding candidate_score_def by (intro py_round_mono) (cases strat; simp only: routing_strategy.case; linarith)
qed

text \<open>A limit on the cost is only compared with the price of the input.\<close>

lemma output_price_unlimited:
  "disqualified (v\<lparr>cv_input_cost := 0, cv_output_cost := x\<rparr>) (plain_requirement\<lparr>rq_max_cost := Some 0\<rparr>) = None
   \<longleftrightarrow> cv_context_window v \<ge> 4096"
  by (auto simp: disqualified_def plain_requirement_def)

definition two_models :: "candidate list" where
  "two_models = fst (evaluate_all (\<lambda>m. None) 0 plain_requirement [''gpt-4o-mini'', ''acme-huge''] \<lparr>rt_cache = [], rt_breakers = []\<rparr>)"

lemma two_models_facts:
  "map (\<lambda>c. (ca_model c, ca_avg_cost c)) two_models = [(''gpt-4o-mini'', 375 / 1000000000), (''acme-huge'', 0)]"
  "map (\<lambda>c. (ca_disqualified c, ca_open c)) two_models = [(None, False), (None, False)]"
  "map (candidate_score COST_OPTIMIZED) two_models = [9747 / 10000, 1]"
  by (code_simp, code_simp, code_simp)

text \<open>A model without a price counts as free, so that routing by cost prefers an unknown model to any that is priced.\<close>

lemma unpriced_model_wins:
  "map_sum id (\<lambda>d. (de_model d, de_fallback d))
     (fst (select_optimal_model (\<lambda>m. None) 0 COST_OPTIMIZED [''gpt-4o-mini'', ''acme-huge''] None None \<lparr>rt_cache = [], rt_breakers = []\<rparr>))
   = Inr (''acme-huge'', False)"
proof -
  obtain a b where t: "two_models = [a, b]" using two_models_facts(2) by (auto simp: map_eq_Cons_conv)
  have "fst (select_optimal_model (\<lambda>m. None) 0 COST_OPTIMIZED [''gpt-4o-mini'', ''acme-huge''] None None \<lparr>rt_cache = [], rt_breakers = []\<rparr>)
      = Inr (decide COST_OPTIMIZED ''gpt-4o-mini'' two_models)"
    by (simp add: select_optimal_model_def two_models_def split: prod.split del: evaluate_all.simps)
  then show ?thesis
    using two_models_facts by (simp add: t decide_def viable_def sorted_desc_def)
qed

end
