(* ===== verification/LiteLLM_Chat.thy ===== *)
theory LiteLLM_Chat
  imports Request_Messages Model_Routing Provider_Errors
begin

text \<open>
  A call of \<open>LiteLLMProvider.chat\<close>: the requirements read off the messages and the model they choose, the arguments of the
  request for each model tried, and the reading of a stream or of a whole response. The request itself
  (\<open>litellm.acompletion\<close>), its count of tokens, the repair of JSON, Python's \<open>str\<close> and the random ids are parameters.
\<close>

record litellm =
  ll_key :: "string option"
  ll_base :: "string option"
  ll_default :: string
  ll_headers :: "(string, json) pydict"
  ll_gateway :: "provider_spec option"
  ll_fallbacks :: "string list"
  ll_caching :: bool
  ll_strict :: bool

record completion_env =
  ce_info :: get_model_info
  ce_count :: "msg list \<Rightarrow> nat option"
  ce_show :: "json \<Rightarrow> string"
  ce_loads :: "string \<Rightarrow> json"
  ce_sha :: hexdigest
  ce_id :: "nat \<Rightarrow> string"

definition py_str :: "completion_env \<Rightarrow> json \<Rightarrow> string" where
  "py_str e v = (case v of JStr s \<Rightarrow> s | _ \<Rightarrow> ce_show e v)"

section \<open>Requirements\<close>

definition has_image :: "(string, json) pydict \<Rightarrow> bool" where
  "has_image d = (dget d ''type'' \<in> {Some (JStr ''image_url''), Some (JStr ''image'')} \<or> dhas d ''image_url'' \<or> dhas d ''image'')"

definition shows_image :: "msg \<Rightarrow> bool" where
  "shows_image m =
     (case dgetd m ''content'' JNull of
        JList xs \<Rightarrow> list_ex (\<lambda>x. case x of JObj d \<Rightarrow> has_image d | _ \<Rightarrow> False) xs
      | JObj d \<Rightarrow> has_image d
      | _ \<Rightarrow> False)"

definition reasoning_hints :: "string list" where "reasoning_hints = [''reason deep'', ''deep thinking'', ''step-by-step reasoning'']"

definition hints_reasoning :: "completion_env \<Rightarrow> msg \<Rightarrow> bool" where
  "hints_reasoning e m =
     (dget m ''role'' \<in> {Some (JStr ''user''), Some (JStr ''system'')}
      \<and> (let c = dgetd m ''content'' JNull
         in any_in reasoning_hints (lower (if truthy c then py_str e c else []))))"

definition content_tokens :: "completion_env \<Rightarrow> msg \<Rightarrow> nat" where
  "content_tokens e m =
     (case dgetd m ''content'' JNull of
        JStr s \<Rightarrow> length s div 4
      | JList xs \<Rightarrow>
          sum_list (map (\<lambda>x. case x of
             JObj d \<Rightarrow> if dget d ''type'' = Some (JStr ''text'') then length (py_str e (dgetd d ''text'' (JStr []))) div 4
                       else length (py_str e x) div 4
           | _ \<Rightarrow> length (py_str e x) div 4) xs)
      | _ \<Rightarrow> 0)"

definition tool_tokens :: "completion_env \<Rightarrow> msg list \<Rightarrow> nat" where
  "tool_tokens e tools = (if tools = [] then 0 else length (py_str e (JList (map JObj tools))) div 4)"

definition estimated_tokens :: "completion_env \<Rightarrow> msg list \<Rightarrow> msg list \<Rightarrow> nat" where
  "estimated_tokens e ms tools =
     (case ce_count e ms of
        Some n \<Rightarrow> n + tool_tokens e tools
      | None \<Rightarrow> tool_tokens e tools + sum_list (map (content_tokens e) ms))"

record needs =
  nd_vision :: bool
  nd_reasoning :: bool
  nd_context :: int

definition analyze_requirements :: "completion_env \<Rightarrow> msg list \<Rightarrow> msg list \<Rightarrow> string option \<Rightarrow> needs" where
  "analyze_requirements e ms tools effort =
     \<lparr>nd_vision = list_ex shows_image ms,
      nd_reasoning = (effort \<notin> {None, Some []} \<or> list_ex (hints_reasoning e) ms),
      nd_context = py_int (of_nat (estimated_tokens e ms tools) * 115 / 100) + 1024\<rparr>"

definition meets :: "capability_values \<Rightarrow> needs \<Rightarrow> bool" where
  "meets c n = (\<not> (nd_vision n \<and> \<not> cv_vision c) \<and> \<not> (nd_reasoning n \<and> \<not> cv_reasoning c) \<and> \<not> nd_context n > cv_context_window c)"

text \<open>The client brings its own module to the detection, so the cache is not read (lemma \<open>own_module_reads_no_cache\<close>).\<close>

definition client_model_for :: "completion_env \<Rightarrow> litellm \<Rightarrow> string \<Rightarrow> needs \<Rightarrow> string" where
  "client_model_for e p original n =
     (case find (\<lambda>m. meets (model_values (ce_info e) m) n) (original # ll_fallbacks p) of Some m \<Rightarrow> m | None \<Rightarrow> original)"

section \<open>Arguments of a request\<close>

definition json_words :: "string list" where
  "json_words = [''json format'', ''json object'', ''respond in json'', ''output json'', ''valid json'']"

definition asks_json :: "msg \<Rightarrow> bool" where
  "asks_json m =
     (case dgetd m ''content'' (JStr []) of
        JStr s \<Rightarrow> any_in json_words (lower s)
      | JList xs \<Rightarrow> list_ex (\<lambda>x. case x of
           JObj d \<Rightarrow> dget d ''type'' = Some (JStr ''text'') \<and> (case dgetd d ''text'' (JStr []) of JStr s \<Rightarrow> any_in json_words (lower s) | _ \<Rightarrow> False)
         | _ \<Rightarrow> False) xs
      | _ \<Rightarrow> False)"

definition extra_msg_keys :: "string \<Rightarrow> string \<Rightarrow> string set" where
  "extra_msg_keys original resolved =
     (let spec = (case find_by_model original of Some s \<Rightarrow> Some s | None \<Rightarrow> find_by_model resolved)
      in if map_option ps_name spec = Some ''anthropic'' \<or> str_in ''claude'' (lower original) \<or> startswith resolved ''anthropic/''
         then anthropic_extra_keys else {})"

type_synonym arguments = "(string, json) pydict"

definition update_all :: "(string, json) pydict \<Rightarrow> arguments \<Rightarrow> arguments" where
  "update_all new d = fold (\<lambda>(k, v). dset k v) new d"

definition apply_model_overrides :: "string \<Rightarrow> arguments \<Rightarrow> arguments" where
  "apply_model_overrides model d =
     (case find_by_model model of
        None \<Rightarrow> d
      | Some s \<Rightarrow> (case find (\<lambda>(pat, o'). str_in pat (lower model)) (ps_overrides s) of Some (pat, o') \<Rightarrow> update_all o' d | None \<Rightarrow> d))"

definition pop_all :: "string list \<Rightarrow> arguments \<Rightarrow> arguments" where "pop_all ks d = fold dpop ks d"

definition is_claude :: "string \<Rightarrow> bool" where "is_claude m = (str_in ''claude'' (lower m) \<or> startswith m ''anthropic/'')"

definition caching_hints :: "string \<Rightarrow> arguments \<Rightarrow> arguments" where
  "caching_hints model d =
     (if str_in ''openai/'' model \<or> startswith model ''gpt-''
      then dset ''prompt_cache_retention'' (JStr ''24h'') (dset ''prompt_cache_key'' (JStr ''amberclaw-default-cache'') d)
      else pop_all [''prompt_cache_key'', ''prompt_cache_retention''] d)"

definition effort_arguments :: "string \<Rightarrow> string option \<Rightarrow> int \<Rightarrow> arguments \<Rightarrow> arguments" where
  "effort_arguments model effort max_tokens d =
     (case effort of
        Some (c # cs) \<Rightarrow>
          dset ''drop_params'' (JBool True)
            (if is_claude model
             then dset ''thinking'' (JObj [(''type'', JStr ''enabled''), (''budget_tokens'', JInt (max 1024 (max_tokens div 2)))]) d
             else dset ''reasoning_effort'' (JStr (c # cs)) d)
      | _ \<Rightarrow> pop_all [''thinking'', ''reasoning_effort'', ''drop_params''] d)"

text \<open>Tools exclude a format of the response; \<open>None\<close> when a tool cannot be made strict.\<close>

definition tool_arguments ::
  "bool \<Rightarrow> capability_values \<Rightarrow> msg list \<Rightarrow> json option \<Rightarrow> bool \<Rightarrow> arguments \<Rightarrow> arguments option" where
  "tool_arguments strict_tools caps tools fmt expects d =
     (if tools \<noteq> [] then
        map_option (\<lambda>ts. dpop ''response_format'' (dset ''tool_choice'' (JStr ''auto'') (dset ''tools'' (JList ts) d)))
          (if strict_tools \<and> cv_json_mode caps then those (map (make_tool_strict \<circ> JObj) tools) else Some (map JObj tools))
      else
        (let d = pop_all [''tools'', ''tool_choice''] d
         in Some (if \<not> expects then dpop ''response_format'' d
                  else case fmt of
                         Some f \<Rightarrow> dset ''response_format'' f d
                       | None \<Rightarrow> if cv_json_mode caps then dset ''response_format'' (JObj [(''type'', JStr ''json_object'')]) d
                                 else dpop ''response_format'' d)))"

record call =
  cl_messages :: "msg list"
  cl_tools :: "msg list"
  cl_max :: int
  cl_effort :: "string option"
  cl_format :: "json option"
  cl_expects :: bool
  cl_stream :: bool

definition request_base :: "completion_env \<Rightarrow> litellm \<Rightarrow> call \<Rightarrow> string \<Rightarrow> arguments \<Rightarrow> arguments" where
  "request_base e p c m d =
     (let model = resolve_model (ll_gateway p) m;
          d = dset ''model'' (JStr model) d;
          d = dset ''messages'' (JList (map JObj (sanitize_messages (ce_sha e) (extra_msg_keys m model) (cl_messages c)))) d
      in effort_arguments model (cl_effort c) (cl_max c) (caching_hints model (apply_model_overrides model d)))"

definition stream_argument :: "bool \<Rightarrow> arguments \<Rightarrow> arguments" where
  "stream_argument stream d = (if stream then dset ''stream'' (JBool True) d else dpop ''stream'' d)"

definition arguments_for :: "completion_env \<Rightarrow> litellm \<Rightarrow> call \<Rightarrow> string \<Rightarrow> arguments \<Rightarrow> arguments option" where
  "arguments_for e p c m d =
     map_option (stream_argument (cl_stream c))
       (tool_arguments (ll_strict p) (model_values (ce_info e) m) (cl_tools c) (cl_format c) (cl_expects c) (request_base e p c m d))"

definition initial_arguments :: "litellm \<Rightarrow> string option \<Rightarrow> int \<Rightarrow> pyfloat \<Rightarrow> arguments" where
  "initial_arguments p resolved_key max_tokens temperature =
     (let given = (\<lambda>k v. case v of Some (c # cs) \<Rightarrow> dset k (JStr (c # cs)) | _ \<Rightarrow> id);
          headers = (if ll_caching p \<and> map_option ps_name (ll_gateway p) = Some ''openrouter''
                     then dset ''X-OpenRouter-Cache'' (JStr ''true'') (ll_headers p) else ll_headers p)
      in (if headers \<noteq> [] then dset ''extra_headers'' (JObj headers) else id)
           (given ''api_base'' (ll_base p) (given ''api_key'' resolved_key
              [(''max_tokens'', JInt max_tokens), (''temperature'', JFloat temperature)])))"

section \<open>Streams\<close>

text \<open>Parts of a chunk that are missing, or of another type, are \<open>None\<close>.\<close>

type_synonym token_usage = "int \<times> int \<times> int"

record call_delta =
  td_index :: int
  td_id :: "string option"
  td_name :: "string option"
  td_arguments :: "string option"

record stream_chunk =
  ck_choice :: bool
  ck_finish :: "string option"
  ck_content :: "string option"
  ck_reasoning :: "string option"
  ck_thought :: "string option"
  ck_calls :: "call_delta list"
  ck_usage :: "token_usage option"

record partial_call =
  pc_id :: string
  pc_name :: string
  pc_arguments :: string

record stream_state =
  st_content :: "string list"
  st_reasoning :: "string list"
  st_calls :: "(int, partial_call) pydict"
  st_finish :: string
  st_usage :: "token_usage option"
  st_ids :: nat

definition new_stream :: "nat \<Rightarrow> stream_state" where
  "new_stream n = \<lparr>st_content = [], st_reasoning = [], st_calls = [], st_finish = ''stop'', st_usage = None, st_ids = n\<rparr>"

definition text_of :: "string option \<Rightarrow> string" where "text_of s = (case s of Some t \<Rightarrow> t | None \<Rightarrow> [])"

type_synonym open_calls = "(int, partial_call) pydict \<times> nat"

text \<open>The call a piece belongs to: a new one takes the id of the piece or else a random one.\<close>

definition call_at :: "completion_env \<Rightarrow> call_delta \<Rightarrow> open_calls \<Rightarrow> partial_call \<times> nat" where
  "call_at e t s =
     (case dget (fst s) (td_index t) of
        None \<Rightarrow>
          (if text_of (td_id t) \<noteq> [] then (\<lparr>pc_id = text_of (td_id t), pc_name = [], pc_arguments = []\<rparr>, snd s)
           else (\<lparr>pc_id = ce_id e (snd s), pc_name = [], pc_arguments = []\<rparr>, snd s + 1))
      | Some p \<Rightarrow> (if text_of (td_id t) \<noteq> [] \<and> pc_id p = [] then p\<lparr>pc_id := text_of (td_id t)\<rparr> else p, snd s))"

definition feed_call :: "completion_env \<Rightarrow> call_delta \<Rightarrow> open_calls \<Rightarrow> open_calls" where
  "feed_call e t s =
     (let (p, ids) = call_at e t s
      in (dset (td_index t)
            (p\<lparr>pc_name := pc_name p @ text_of (td_name t), pc_arguments := pc_arguments p @ text_of (td_arguments t)\<rparr>) (fst s), ids))"

definition reasoning_of :: "stream_chunk \<Rightarrow> string" where
  "reasoning_of c = (case ck_reasoning c of Some r \<Rightarrow> r | None \<Rightarrow> text_of (ck_thought c))"

definition append_text :: "string \<Rightarrow> string list \<Rightarrow> string list" where "append_text t ts = (if t = [] then ts else ts @ [t])"

definition feed :: "completion_env \<Rightarrow> stream_chunk \<Rightarrow> stream_state \<Rightarrow> stream_state" where
  "feed e c s =
     (let usage = (case ck_usage c of Some u \<Rightarrow> Some u | None \<Rightarrow> st_usage s)
      in if \<not> ck_choice c then s\<lparr>st_usage := usage\<rparr>
         else
           (let calls = fold (feed_call e) (ck_calls c) (st_calls s, st_ids s)
            in \<lparr>st_content = append_text (text_of (ck_content c)) (st_content s),
                st_reasoning = append_text (reasoning_of c) (st_reasoning s), st_calls = fst calls,
                st_finish = (if text_of (ck_finish c) \<noteq> [] then text_of (ck_finish c) else st_finish s),
                st_usage = usage, st_ids = snd calls\<rparr>))"

record reply = provider_response +
  re_usage :: "token_usage option"
  re_reasoning :: "string option"
  re_thinking :: json

definition parsed_arguments :: "completion_env \<Rightarrow> json \<Rightarrow> (string, json) pydict" where
  "parsed_arguments e v = (case v of JObj d \<Rightarrow> d | _ \<Rightarrow> [(''raw'', JStr (py_str e v))])"

definition finished_call :: "completion_env \<Rightarrow> partial_call \<Rightarrow> tool_request" where
  "finished_call e p =
     \<lparr>tq_id = pc_id p, tq_name = pc_name p,
      tq_arguments = parsed_arguments e (if pc_arguments p \<noteq> [] then ce_loads e (pc_arguments p) else JObj [])\<rparr>"

definition some_text :: "string \<Rightarrow> string option" where "some_text s = (if s = [] then None else Some s)"

definition stream_reply :: "completion_env \<Rightarrow> stream_state \<Rightarrow> reply" where
  "stream_reply e s =
     (let calls = map (finished_call e) (dvals (st_calls s))
      in \<lparr>lr_content = (if st_content s = [] then None else Some (concat (st_content s))), lr_tool_calls = calls,
          lr_finish = (if calls \<noteq> [] \<and> st_finish s = ''stop'' then ''tool_calls'' else st_finish s),
          re_usage = st_usage s, re_reasoning = some_text (concat (st_reasoning s)), re_thinking = JNull\<rparr>)"

definition read_stream :: "completion_env \<Rightarrow> nat \<Rightarrow> stream_chunk list \<Rightarrow> reply \<times> nat" where
  "read_stream e n cs = (let s = fold (feed e) cs (new_stream n) in (stream_reply e s, st_ids s))"

section \<open>Whole responses\<close>

record whole_choice =
  wc_content :: "string option"
  wc_calls :: "(string \<times> json) list"
  wc_finish :: "string option"
  wc_reasoning :: "string option"
  wc_thinking :: json

text \<open>The choices are merged: the calls of all, the finish of the last one with calls, the first content there is.\<close>

definition merge_choice :: "whole_choice \<Rightarrow> string option \<times> (string \<times> json) list \<times> string option \<Rightarrow> string option \<times> (string \<times> json) list \<times> string option" where
  "merge_choice c acc =
     (case acc of (content, calls, finish) \<Rightarrow>
        (if text_of content = [] \<and> text_of (wc_content c) \<noteq> [] then wc_content c else content,
         calls @ wc_calls c,
         if wc_calls c \<noteq> [] \<and> wc_finish c \<in> {Some ''tool_calls'', Some ''stop''} then wc_finish c else finish))"

definition parse_response :: "completion_env \<Rightarrow> nat \<Rightarrow> whole_choice list \<Rightarrow> token_usage option \<Rightarrow> (reply \<times> nat) option" where
  "parse_response e n cs usage =
     (case cs of
        [] \<Rightarrow> None
      | c # _ \<Rightarrow>
          (case fold merge_choice cs (wc_content c, [], wc_finish c) of (content, calls, finish) \<Rightarrow>
             Some (\<lparr>lr_content = content,
                    lr_tool_calls = map (\<lambda>(i, name, args).
                       \<lparr>tq_id = ce_id e (n + i), tq_name = name,
                        tq_arguments = parsed_arguments e (case args of JStr s \<Rightarrow> ce_loads e s | v \<Rightarrow> v)\<rparr>) (enumerate 0 calls),
                    lr_finish = (if text_of finish = [] then ''stop'' else text_of finish),
                    re_usage = usage, re_reasoning = some_text (text_of (wc_reasoning c)),
                    re_thinking = (if truthy (wc_thinking c) then wc_thinking c else JNull)\<rparr>, n + length calls)))"

section \<open>The call\<close>

text \<open>
  What the outside world does with the \<open>n\<close>-th request: it raises, answers, or streams chunks and may raise after them.
\<close>

datatype completion = Refused string | Whole "whole_choice list" "token_usage option" | Chunks "stream_chunk list" "string option"

record chat_state =
  cs_arguments :: arguments
  cs_requests :: "arguments list"
  cs_shown :: "string list"
  cs_ids :: nat
  cs_error :: string

definition shown_tokens :: "stream_chunk list \<Rightarrow> string list" where
  "shown_tokens cs = map (\<lambda>c. text_of (ck_content c)) (filter (\<lambda>c. ck_choice c \<and> text_of (ck_content c) \<noteq> []) cs)"

definition request_failed :: "string \<Rightarrow> chat_state \<Rightarrow> chat_state" where "request_failed x s = s\<lparr>cs_error := x\<rparr>"

definition one_request :: "completion_env \<Rightarrow> (nat \<Rightarrow> arguments \<Rightarrow> completion) \<Rightarrow> chat_state \<Rightarrow> reply option \<times> chat_state" where
  "one_request e world s =
     (let out = world (length (cs_requests s)) (cs_arguments s); s = s\<lparr>cs_requests := cs_requests s @ [cs_arguments s]\<rparr>
      in case out of
           Refused x \<Rightarrow> (None, request_failed x s)
         | Whole cs usage \<Rightarrow>
             (case parse_response e (cs_ids s) cs usage of
                None \<Rightarrow> (None, request_failed ''list index out of range'' s)
              | Some (r, n) \<Rightarrow> (Some r, s\<lparr>cs_ids := n\<rparr>))
         | Chunks cs failure \<Rightarrow>
             (let (r, n) = read_stream e (cs_ids s) cs; s = s\<lparr>cs_shown := cs_shown s @ shown_tokens cs, cs_ids := n\<rparr>
              in case failure of None \<Rightarrow> (Some r, s) | Some x \<Rightarrow> (None, request_failed x s)))"

text \<open>The models in turn; the arguments of one request are what the next ones start from.\<close>

fun try_clients :: "completion_env \<Rightarrow> litellm \<Rightarrow> call \<Rightarrow> (nat \<Rightarrow> arguments \<Rightarrow> completion) \<Rightarrow> string list \<Rightarrow> chat_state \<Rightarrow> (reply option \<times> chat_state) option" where
  "try_clients e p c world [] s = Some (None, s)"
| "try_clients e p c world (m # ms) s =
     (case arguments_for e p c m (cs_arguments s) of
        None \<Rightarrow> None
      | Some d \<Rightarrow>
          (case one_request e world (s\<lparr>cs_arguments := d\<rparr>) of
             (Some r, s') \<Rightarrow> Some (Some r, s')
           | (None, s') \<Rightarrow> try_clients e p c world ms s'))"

definition failed_reply :: "string \<Rightarrow> reply" where
  "failed_reply x = \<lparr>lr_content = Some (''All models failed. Last error: '' @ x), lr_tool_calls = [], lr_finish = ''error'',
     re_usage = None, re_reasoning = None, re_thinking = JNull\<rparr>"

definition models_for :: "litellm \<Rightarrow> string \<Rightarrow> string list" where
  "models_for p optimal = optimal # filter (\<lambda>m. m \<noteq> optimal) (ll_fallbacks p)"

definition run_call :: "completion_env \<Rightarrow> litellm \<Rightarrow> (nat \<Rightarrow> arguments \<Rightarrow> completion) \<Rightarrow> string \<Rightarrow> call \<Rightarrow> arguments \<Rightarrow> (reply \<times> chat_state) option" where
  "run_call e p world optimal c d =
     (case try_clients e p c world (models_for p optimal)
             \<lparr>cs_arguments = d, cs_requests = [], cs_shown = [], cs_ids = 0, cs_error = ''None''\<rparr> of
        None \<Rightarrow> None
      | Some (Some r, s) \<Rightarrow> Some (r, s)
      | Some (None, s) \<Rightarrow> Some (failed_reply (cs_error s), s))"

text \<open>\<open>None\<close> when the call raises: a content that cannot be marked, or a tool that cannot be made strict.\<close>

definition litellm_chat ::
  "completion_env \<Rightarrow> litellm \<Rightarrow> (nat \<Rightarrow> arguments \<Rightarrow> completion) \<Rightarrow> (string option \<Rightarrow> string option) \<Rightarrow> msg list \<Rightarrow> msg list \<Rightarrow> string option
     \<Rightarrow> int \<Rightarrow> pyfloat \<Rightarrow> string option \<Rightarrow> json option \<Rightarrow> bool \<Rightarrow> (reply \<times> chat_state) option" where
  "litellm_chat e p world resolve_secret messages tools model max_tokens temperature effort fmt on_token =
     (let original = (case model of Some (c # cs) \<Rightarrow> c # cs | _ \<Rightarrow> ll_default p);
          optimal = client_model_for e p original (analyze_requirements e messages tools effort);
          limit = max 1 max_tokens
      in case (if ll_caching p \<and> cv_prompt_caching (model_values (ce_info e) optimal)
               then apply_cache_control (ll_caching p) messages tools else Some (messages, tools)) of
           None \<Rightarrow> None
         | Some (ms, ts) \<Rightarrow>
             run_call e p world optimal
               \<lparr>cl_messages = sanitize_empty_content ms, cl_tools = ts, cl_max = limit, cl_effort = effort, cl_format = fmt,
                cl_expects = (fmt \<noteq> None \<or> list_ex asks_json ms), cl_stream = on_token\<rparr>
               (initial_arguments p (resolve_secret (ll_key p)) limit temperature))"

section \<open>Properties\<close>

lemma own_module_reads_no_cache:
  "capability_values.truncate (fst (detect_capabilities other (Some info) m provider cache)) = model_values info m"
  by (simp add: detect_capabilities_def Let_def capability_values.defs split: option.split)

text \<open>The model chosen meets the needs when the original or a fallback does, and the first of them is taken.\<close>

lemma client_model_sound:
  "client_model_for e p m n \<in> set (m # ll_fallbacks p) \<and>
   ((\<exists>k\<in>set (m # ll_fallbacks p). meets (model_values (ce_info e) k) n) \<longrightarrow> meets (model_values (ce_info e) (client_model_for e p m n)) n)"
proof (cases "find (\<lambda>m. meets (model_values (ce_info e) m) n) (m # ll_fallbacks p)")
  case None
  then have "\<forall>k\<in>set (m # ll_fallbacks p). \<not> meets (model_values (ce_info e) k) n" unfolding find_None_iff by blast
  then show ?thesis unfolding client_model_for_def None by auto
next
  case (Some k)
  then have "meets (model_values (ce_info e) k) n \<and> k \<in> set (m # ll_fallbacks p)"
    unfolding find_Some_iff by (metis nth_mem)
  then show ?thesis using Some by (simp add: client_model_for_def del: find.simps)
qed

lemma dhas_pop_all: "dhas (pop_all ks d) k \<longleftrightarrow> k \<notin> set ks \<and> dhas d k"
  unfolding pop_all_def by (induction ks arbitrary: d) auto

lemma tool_arguments_keys:
  assumes "tool_arguments strict_tools caps tools fmt expects d = Some d'"
  shows "(dhas d' ''tools'' \<longleftrightarrow> tools \<noteq> []) \<and> \<not> (dhas d' ''tools'' \<and> dhas d' ''response_format'')"
  using assms by (auto simp: tool_arguments_def dhas_pop_all Let_def split: if_splits option.splits)

text \<open>A request has tools or a format of the response, never both; it has tools exactly when the caller gave some.\<close>

lemma request_format_or_tools:
  assumes "arguments_for e p c m d = Some d'"
  shows "(dhas d' ''tools'' \<longleftrightarrow> cl_tools c \<noteq> []) \<and> \<not> (dhas d' ''tools'' \<and> dhas d' ''response_format'')"
proof -
  obtain t where t: "tool_arguments (ll_strict p) (model_values (ce_info e) m) (cl_tools c) (cl_format c) (cl_expects c) (request_base e p c m d) = Some t"
    and d': "d' = stream_argument (cl_stream c) t"
    using assms by (auto simp: arguments_for_def)
  show ?thesis using tool_arguments_keys[OF t] by (simp add: d' stream_argument_def)
qed

lemma request_format_or_tools_witness:
  "\<exists>d'. arguments_for \<lparr>ce_info = (\<lambda>m. None), ce_count = (\<lambda>ms. None), ce_show = (\<lambda>v. []), ce_loads = JStr, ce_sha = id, ce_id = (\<lambda>n. [])\<rparr>
        \<lparr>ll_key = None, ll_base = None, ll_default = ''x'', ll_headers = [], ll_gateway = None, ll_fallbacks = [], ll_caching = False, ll_strict = False\<rparr>
        \<lparr>cl_messages = [], cl_tools = [[(''type'', JStr ''function'')]], cl_max = 1, cl_effort = None, cl_format = None, cl_expects = True, cl_stream = False\<rparr>
        ''x'' [] = Some d' \<and> dhas d' ''tools'' \<and> \<not> dhas d' ''response_format''"
proof -
  let ?e = "\<lparr>ce_info = (\<lambda>m. None), ce_count = (\<lambda>ms. None), ce_show = (\<lambda>v. []), ce_loads = JStr, ce_sha = id, ce_id = (\<lambda>n. [])\<rparr>"
  let ?p = "\<lparr>ll_key = None, ll_base = None, ll_default = ''x'', ll_headers = [], ll_gateway = None, ll_fallbacks = [], ll_caching = False, ll_strict = False\<rparr>"
  let ?c = "\<lparr>cl_messages = [], cl_tools = [[(''type'', JStr ''function'')]], cl_max = 1, cl_effort = None, cl_format = None, cl_expects = True, cl_stream = False\<rparr>"
  obtain d' where d': "arguments_for ?e ?p ?c ''x'' [] = Some d'"
    by (simp add: arguments_for_def tool_arguments_def)
  then show ?thesis using request_format_or_tools[OF d'] by simp
qed

text \<open>What a model overrides stays in the arguments of the models tried after it.\<close>

lemma dget_pop_all: "dget (pop_all ks d) k = (if k \<in> set ks then None else dget d k)"
  unfolding pop_all_def by (induction ks arbitrary: d) auto

lemma caching_hints_other: "k \<notin> {''prompt_cache_key'', ''prompt_cache_retention''} \<Longrightarrow> dget (caching_hints model d) k = dget d k"
  by (simp add: caching_hints_def dget_pop_all)

lemma effort_arguments_other: "k \<notin> {''thinking'', ''reasoning_effort'', ''drop_params''} \<Longrightarrow> dget (effort_arguments model effort n d) k = dget d k"
  by (simp add: effort_arguments_def dget_pop_all split: option.split list.split)

lemma tool_arguments_other:
  assumes "tool_arguments st caps tools fmt expects d = Some d'" "k \<notin> {''tools'', ''tool_choice'', ''response_format''}"
  shows "dget d' k = dget d k"
  using assms by (cases "tools = []") (auto simp: tool_arguments_def dget_pop_all Let_def split: if_splits option.splits)

lemma temperature_untouched:
  assumes "arguments_for e p c m d = Some d'" "find_by_model (resolve_model (ll_gateway p) m) = None"
  shows "dget d' ''temperature'' = dget d ''temperature''"
proof -
  obtain t where t: "tool_arguments (ll_strict p) (model_values (ce_info e) m) (cl_tools c) (cl_format c) (cl_expects c) (request_base e p c m d) = Some t"
    and d': "d' = stream_argument (cl_stream c) t"
    using assms(1) by (auto simp: arguments_for_def)
  have "dget (request_base e p c m d) ''temperature'' = dget d ''temperature''"
    using assms(2) by (simp add: request_base_def Let_def apply_model_overrides_def caching_hints_other effort_arguments_other)
  then show ?thesis using tool_arguments_other[OF t, of "''temperature''"] by (simp add: d' stream_argument_def)
qed

lemma override_applied:
  "dget (apply_model_overrides ''moonshot/kimi-k2.5'' [(''temperature'', JFloat (1 / 10))]) ''temperature'' = Some (JFloat 1)"
  by code_simp

lemma effort_carried_over:
  "dhas (effort_arguments ''claude-3-opus'' (Some ''high'') n (effort_arguments ''gpt-4o'' (Some ''high'') n d)) ''reasoning_effort''"
  "dhas (effort_arguments ''claude-3-opus'' (Some ''high'') n (effort_arguments ''gpt-4o'' (Some ''high'') n d)) ''thinking''"
proof -
  have "is_claude ''claude-3-opus''" "\<not> is_claude ''gpt-4o''" by code_simp+
  then show "dhas (effort_arguments ''claude-3-opus'' (Some ''high'') n (effort_arguments ''gpt-4o'' (Some ''high'') n d)) ''reasoning_effort''"
    "dhas (effort_arguments ''claude-3-opus'' (Some ''high'') n (effort_arguments ''gpt-4o'' (Some ''high'') n d)) ''thinking''"
    by (simp_all add: effort_arguments_def)
qed

lemma one_request_frame:
  assumes "one_request e world s = (r, s')"
  shows "length (cs_requests s') = length (cs_requests s) + 1 \<and> (\<exists>t. cs_shown s' = cs_shown s @ t)"
  using assms by (auto simp: one_request_def request_failed_def Let_def split: completion.splits option.splits prod.splits)

lemma try_clients_bounds:
  "try_clients e p c world ms s = Some (r, s') \<Longrightarrow>
     length (cs_requests s') \<le> length (cs_requests s) + length ms \<and> (\<exists>t. cs_shown s' = cs_shown s @ t)"
proof (induction e p c world ms s rule: try_clients.induct)
  case (2 e p c world m ms s)
  obtain d where d: "arguments_for e p c m (cs_arguments s) = Some d" using 2(2) by (auto split: option.splits)
  obtain r1 s1 where 1: "one_request e world (s\<lparr>cs_arguments := d\<rparr>) = (r1, s1)" by fastforce
  show ?case
    using 2(1)[OF d 1[symmetric]] 2(2) one_request_frame[OF 1] d 1 by (cases r1) auto
qed auto

lemma option_case_Some_pair: "(case x of None \<Rightarrow> None | Some (a, b) \<Rightarrow> f a b) = Some y \<Longrightarrow> \<exists>a b. f a b = Some y"
  by (auto split: option.splits)

lemma chat_runs:
  assumes "litellm_chat e p world resolve ms ts model mx temp effort fmt tok = Some rs"
  shows "\<exists>optimal c d. run_call e p world optimal c d = Some rs"
  using assms unfolding litellm_chat_def Let_def by (blast dest: option_case_Some_pair)

lemma run_call_bounded:
  assumes "run_call e p world optimal c d = Some (r, s)"
  shows "length (cs_requests s) \<le> 1 + length (ll_fallbacks p)"
proof -
  obtain x where "try_clients e p c world (models_for p optimal)
      \<lparr>cs_arguments = d, cs_requests = [], cs_shown = [], cs_ids = 0, cs_error = ''None''\<rparr> = Some (x, s)"
    using assms unfolding run_call_def by (auto split: option.splits prod.splits simp del: try_clients.simps)
  then have "length (cs_requests s) \<le> length (models_for p optimal)" by (auto dest: try_clients_bounds)
  also have "\<dots> \<le> 1 + length (ll_fallbacks p)" by (simp add: models_for_def)
  finally show ?thesis .
qed

text \<open>Each model is asked at most once, and what was shown of a stream that failed stays shown.\<close>

lemma requests_bounded:
  assumes "litellm_chat e p world resolve ms ts model mx temp effort fmt tok = Some (r, s)"
  shows "length (cs_requests s) \<le> 1 + length (ll_fallbacks p)"
  using chat_runs[OF assms] run_call_bounded by blast

lemma failed_stream_stays_shown:
  assumes "world (length (cs_requests s)) (cs_arguments s) = Chunks cs (Some x)"
  shows "fst (one_request e world s) = None \<and> cs_shown (snd (one_request e world s)) = cs_shown s @ shown_tokens cs"
  using assms by (simp add: one_request_def request_failed_def Let_def split: prod.split)

definition piece :: "stream_chunk \<Rightarrow> string" where "piece c = (if ck_choice c then text_of (ck_content c) else [])"

definition thought_piece :: "stream_chunk \<Rightarrow> string" where "thought_piece c = (if ck_choice c then reasoning_of c else [])"

definition call_pieces :: "stream_chunk list \<Rightarrow> call_delta list" where
  "call_pieces cs = concat (map (\<lambda>c. if ck_choice c then ck_calls c else []) cs)"

definition pieces_for :: "(call_delta \<Rightarrow> string option) \<Rightarrow> int \<Rightarrow> call_delta list \<Rightarrow> string" where
  "pieces_for f i ts = concat (map (\<lambda>t. text_of (f t)) (filter (\<lambda>t. td_index t = i) ts))"

lemma concat_append_text [simp]: "concat (append_text t ts) = concat ts @ t"
  by (simp add: append_text_def)

lemma nil_append_text [simp]: "[] \<in> set (append_text t ts) \<longleftrightarrow> [] \<in> set ts"
  by (simp add: append_text_def)

lemma stream_text:
  "concat (st_content (fold (feed e) cs s)) = concat (st_content s) @ concat (map piece cs)
   \<and> concat (st_reasoning (fold (feed e) cs s)) = concat (st_reasoning s) @ concat (map thought_piece cs)
   \<and> ([] \<in> set (st_content (fold (feed e) cs s)) \<longleftrightarrow> [] \<in> set (st_content s))"
  by (induction cs arbitrary: s) (simp_all add: feed_def Let_def piece_def thought_piece_def)

lemma stream_calls:
  "(st_calls (fold (feed e) cs s), st_ids (fold (feed e) cs s)) = fold (feed_call e) (call_pieces cs) (st_calls s, st_ids s)"
  by (induction cs arbitrary: s) (simp_all add: feed_def Let_def call_pieces_def)

lemma feed_call_get:
  "dget (fst (feed_call e t s)) i =
     (if td_index t = i
      then Some ((fst (call_at e t s))\<lparr>pc_name := pc_name (fst (call_at e t s)) @ text_of (td_name t),
                   pc_arguments := pc_arguments (fst (call_at e t s)) @ text_of (td_arguments t)\<rparr>)
      else dget (fst s) i)"
  by (simp add: feed_call_def split: prod.split)

lemma call_at_text:
  "pc_name (fst (call_at e t s)) = (case dget (fst s) (td_index t) of Some p \<Rightarrow> pc_name p | None \<Rightarrow> [])"
  "pc_arguments (fst (call_at e t s)) = (case dget (fst s) (td_index t) of Some p \<Rightarrow> pc_arguments p | None \<Rightarrow> [])"
  by (simp_all add: call_at_def split: option.split)

definition call_texts :: "partial_call option \<Rightarrow> string \<times> string" where
  "call_texts c = (case c of Some p \<Rightarrow> (pc_name p, pc_arguments p) | None \<Rightarrow> ([], []))"

lemma fold_feed_call:
  "call_texts (dget (fst (fold (feed_call e) ts s)) i) =
     (fst (call_texts (dget (fst s) i)) @ pieces_for td_name i ts, snd (call_texts (dget (fst s) i)) @ pieces_for td_arguments i ts)"
proof (induction ts arbitrary: s)
  case (Cons t ts)
  have "call_texts (dget (fst (feed_call e t s)) i) =
      (fst (call_texts (dget (fst s) i)) @ pieces_for td_name i [t], snd (call_texts (dget (fst s) i)) @ pieces_for td_arguments i [t])"
    by (simp add: feed_call_get call_at_text call_texts_def pieces_for_def split: option.split)
  then show ?case using Cons.IH[of "feed_call e t s"] by (simp add: pieces_for_def)
qed (simp add: pieces_for_def)

lemma fold_feed_call_dom: "set (dkeys (fst (fold (feed_call e) ts s))) = set (dkeys (fst s)) \<union> td_index ` set ts"
  by (induction ts arbitrary: s) (auto simp: feed_call_def dom_update split: prod.splits)

text \<open>The indices in the order in which they first occur, and the calls under them.\<close>

definition firsts :: "'a list \<Rightarrow> 'a list" where
  "firsts xs = fold (\<lambda>x seen. if x \<in> set seen then seen else seen @ [x]) xs []"

lemma dkeys_update: "dkeys (dset k v d) = (if k \<in> set (dkeys d) then dkeys d else dkeys d @ [k])"
  by (induction d) auto

lemma fold_feed_call_keys:
  "dkeys (fst (fold (feed_call e) ts s)) = fold (\<lambda>x seen. if x \<in> set seen then seen else seen @ [x]) (map td_index ts) (dkeys (fst s))"
proof (induction ts arbitrary: s)
  case (Cons t ts)
  have "dkeys (fst (feed_call e t s)) = (if td_index t \<in> set (dkeys (fst s)) then dkeys (fst s) else dkeys (fst s) @ [td_index t])"
    by (simp add: feed_call_def dkeys_update split: prod.split)
  then show ?case using Cons.IH [of "feed_call e t s"] by simp
qed simp

lemma fold_feed_call_distinct: "distinct (dkeys (fst s)) \<Longrightarrow> distinct (dkeys (fst (fold (feed_call e) ts s)))"
  by (induction ts arbitrary: s) (auto simp: feed_call_def dkeys_update split: prod.split)

lemma dvals_by_keys: "distinct (dkeys d) \<Longrightarrow> dvals d = map (\<lambda>k. the (dget d k)) (dkeys d)"
  unfolding map_map by (rule map_cong [OF refl]) (metis comp_apply map_of_is_SomeI option.sel prod.collapse)

definition first_id :: "int \<Rightarrow> call_delta list \<Rightarrow> string" where
  "first_id i ts = (case find (\<lambda>t. td_index t = i) ts of Some t \<Rightarrow> text_of (td_id t) | None \<Rightarrow> [])"

lemma fold_feed_call_id_kept:
  "dget (fst s) i = Some p \<Longrightarrow> pc_id p \<noteq> [] \<Longrightarrow> \<exists>q. dget (fst (fold (feed_call e) ts s)) i = Some q \<and> pc_id q = pc_id p"
proof (induction ts arbitrary: s p)
  case (Cons t ts)
  have "\<exists>p'. dget (fst (feed_call e t s)) i = Some p' \<and> pc_id p' = pc_id p"
    using Cons.prems by (auto simp: feed_call_get call_at_def)
  then show ?case using Cons.IH [of "feed_call e t s"] Cons.prems(2) by auto
qed simp

lemma fold_feed_call_id:
  assumes "dget (fst s) i = None" and "i \<in> td_index ` set ts" and "first_id i ts \<noteq> [] \<or> (\<forall>k. ce_id e k \<noteq> [])"
  shows "\<exists>q. dget (fst (fold (feed_call e) ts s)) i = Some q
    \<and> (if first_id i ts \<noteq> [] then pc_id q = first_id i ts else \<exists>k \<ge> snd s. pc_id q = ce_id e k)"
  using assms
proof (induction ts arbitrary: s)
  case (Cons t ts)
  have k: "snd s \<le> snd (feed_call e t s)" by (simp add: feed_call_def call_at_def split: prod.split option.split)
  show ?case
  proof (cases "td_index t = i")
    case True
    let ?p = "the (dget (fst (feed_call e t s)) i)"
    have p: "dget (fst (feed_call e t s)) i = Some ?p"
      "pc_id ?p = (if first_id i (t # ts) \<noteq> [] then first_id i (t # ts) else ce_id e (snd s))"
      using True Cons.prems(1) by (simp_all add: feed_call_get call_at_def first_id_def)
    then have "pc_id ?p \<noteq> []" using Cons.prems(3) by auto
    from fold_feed_call_id_kept [OF p(1) this, of e ts] p(2) show ?thesis
      by (cases "first_id i (t # ts) = []") auto
  next
    case False
    then have "first_id i (t # ts) = first_id i ts" by (simp add: first_id_def)
    moreover have "dget (fst (feed_call e t s)) i = None" using False Cons.prems(1) by (simp add: feed_call_get)
    moreover have "i \<in> td_index ` set ts" using Cons.prems(2) False by auto
    ultimately obtain q where q: "dget (fst (fold (feed_call e) ts (feed_call e t s))) i = Some q"
      "if first_id i (t # ts) \<noteq> [] then pc_id q = first_id i (t # ts) else \<exists>j \<ge> snd (feed_call e t s). pc_id q = ce_id e j"
      using Cons.IH [of "feed_call e t s"] Cons.prems(3) by auto
    have "if first_id i (t # ts) \<noteq> [] then pc_id q = first_id i (t # ts) else \<exists>j \<ge> snd s. pc_id q = ce_id e j"
      using q(2) k by (cases "first_id i (t # ts) = []") (auto intro: order_trans)
    then show ?thesis using q(1) by simp
  qed
qed simp

definition finish_pieces :: "stream_chunk list \<Rightarrow> string list" where
  "finish_pieces cs = filter (\<lambda>f. f \<noteq> []) (map (\<lambda>c. if ck_choice c then text_of (ck_finish c) else []) cs)"

lemma stream_finish: "st_finish (fold (feed e) cs s) = last (st_finish s # finish_pieces cs)"
proof (induction cs arbitrary: s)
  case (Cons c cs)
  have "st_finish (feed e c s) = (if ck_choice c \<and> text_of (ck_finish c) \<noteq> [] then text_of (ck_finish c) else st_finish s)"
    by (simp add: feed_def Let_def)
  then show ?case using Cons.IH [of "feed e c s"] by (simp add: finish_pieces_def)
qed (simp add: finish_pieces_def)

text \<open>What a call of the reply should be: the joined pieces of its index, its arguments read from the joined text.\<close>

definition assembled :: "completion_env \<Rightarrow> nat \<Rightarrow> call_delta list \<Rightarrow> int \<Rightarrow> tool_request \<Rightarrow> bool" where
  "assembled e n ts i c \<longleftrightarrow>
     tq_name c = pieces_for td_name i ts
     \<and> tq_arguments c = (if pieces_for td_arguments i ts = [] then []
          else case ce_loads e (pieces_for td_arguments i ts) of JObj d \<Rightarrow> d | v \<Rightarrow> [(''raw'', JStr (py_str e v))])
     \<and> (first_id i ts \<noteq> [] \<longrightarrow> tq_id c = first_id i ts)
     \<and> (first_id i ts = [] \<and> (\<forall>k. ce_id e k \<noteq> []) \<longrightarrow> (\<exists>k \<ge> n. tq_id c = ce_id e k))"

text \<open>
  C28. What a streamed reply is does not depend on how the stream was cut. Its content and reasoning are the
  concatenation of their pieces, or \<open>None\<close> when that is empty; it has one tool call for each index that occurs, in the
  order of first occurrence, whose name and arguments come from the concatenated pieces of that index and whose id is
  the one its first piece carried, else a generated one; its finish is the last one given, where \<open>stop\<close> with calls becomes
  \<open>tool_calls\<close>.
\<close>

lemma stream_assembled:
  "lr_content (fst (read_stream e n cs)) = some_text (concat (map piece cs))
   \<and> re_reasoning (fst (read_stream e n cs)) = some_text (concat (map thought_piece cs))
   \<and> list_all2 (assembled e n (call_pieces cs)) (firsts (map td_index (call_pieces cs))) (lr_tool_calls (fst (read_stream e n cs)))
   \<and> lr_finish (fst (read_stream e n cs)) =
       (let f = last (''stop'' # finish_pieces cs) in if call_pieces cs \<noteq> [] \<and> f = ''stop'' then ''tool_calls'' else f)"
proof -
  let ?st = "fold (feed e) cs (new_stream n)" and ?ts = "call_pieces cs"
  let ?d = "fst (fold (feed_call e) ?ts ([], n))"
  have joined: "concat (st_content ?st) = concat (map piece cs)" "concat (st_reasoning ?st) = concat (map thought_piece cs)" "[] \<notin> set (st_content ?st)"
    using stream_text[of e cs "new_stream n"] by (simp_all add: new_stream_def)
  have c: "st_content ?st = [] \<longleftrightarrow> concat (st_content ?st) = []" using joined(3) by (cases "st_content ?st") auto
  have st: "st_calls ?st = ?d"
    using stream_calls[of e cs "new_stream n"] by (simp add: new_stream_def) (metis fst_conv)
  have keys: "dkeys ?d = firsts (map td_index ?ts)" using fold_feed_call_keys [of e ?ts "([], n)"] by (simp add: firsts_def)
  have dom: "set (dkeys ?d) = td_index ` set ?ts" using fold_feed_call_dom[of e ?ts "([], n)"] by simp
  have one: "assembled e n ?ts i (finished_call e (the (dget ?d i)))" if "i \<in> set (dkeys ?d)" for i
  proof -
    from that obtain p where p: "dget ?d i = Some p" by (metis dom_map_of_conv_image_fst domD list.set_map)
    have "(pc_name p, pc_arguments p) = (pieces_for td_name i ?ts, pieces_for td_arguments i ?ts)"
      using fold_feed_call[of e ?ts "([], n)" i] by (simp add: p call_texts_def)
    moreover have "first_id i ?ts \<noteq> [] \<or> (\<forall>k. ce_id e k \<noteq> []) \<Longrightarrow>
        if first_id i ?ts \<noteq> [] then pc_id p = first_id i ?ts else \<exists>k \<ge> n. pc_id p = ce_id e k"
      using fold_feed_call_id[of "([], n)" i ?ts e] that dom by (auto simp: p)
    ultimately show ?thesis by (auto simp: p assembled_def finished_call_def parsed_arguments_def split: json.split)
  qed
  have "dvals ?d = map (\<lambda>k. the (dget ?d k)) (dkeys ?d)"
    by (rule dvals_by_keys) (rule fold_feed_call_distinct, simp)
  then have "map (finished_call e) (dvals ?d) = map (\<lambda>k. finished_call e (the (dget ?d k))) (firsts (map td_index ?ts))"
    by (simp only: keys map_map comp_def)
  moreover have "lr_tool_calls (fst (read_stream e n cs)) = map (finished_call e) (dvals ?d)"
    by (simp add: read_stream_def Let_def stream_reply_def st)
  ultimately have calls: "lr_tool_calls (fst (read_stream e n cs)) = map (\<lambda>k. finished_call e (the (dget ?d k))) (firsts (map td_index ?ts))"
    by (rule trans [rotated])
  have "list_all2 (assembled e n ?ts) (firsts (map td_index ?ts)) (lr_tool_calls (fst (read_stream e n cs)))"
    unfolding calls using one by (auto simp: list_all2_conv_all_nth keys [symmetric])
  moreover have "lr_finish (fst (read_stream e n cs)) =
       (let f = last (''stop'' # finish_pieces cs) in if ?ts \<noteq> [] \<and> f = ''stop'' then ''tool_calls'' else f)"
  proof -
    have "dvals ?d = [] \<longleftrightarrow> ?ts = []" using dom by (metis image_is_empty list.set_map map_is_Nil_conv set_empty)
    moreover have "st_finish ?st = last (''stop'' # finish_pieces cs)" by (simp add: stream_finish new_stream_def)
    ultimately show ?thesis by (simp add: read_stream_def Let_def stream_reply_def st del: last.simps)
  qed
  ultimately show ?thesis
    using joined c by (simp add: read_stream_def Let_def stream_reply_def some_text_def del: concat_eq_Nil_conv last.simps)
qed

text \<open>The same call with the same finish, streamed and whole, is reported with two different finishes.\<close>

definition one_call_chunk :: stream_chunk where
  "one_call_chunk = \<lparr>ck_choice = True, ck_finish = Some ''stop'', ck_content = None, ck_reasoning = None, ck_thought = None,
     ck_calls = [\<lparr>td_index = 0, td_id = None, td_name = Some ''f'', td_arguments = None\<rparr>], ck_usage = None\<rparr>"

lemma finish_differs:
  "lr_finish (fst (read_stream e 0 [one_call_chunk])) = ''tool_calls''"
  "map_option (\<lambda>(r, n). lr_finish r)
     (parse_response e 0 [\<lparr>wc_content = None, wc_calls = [(''f'', JObj [])], wc_finish = Some ''stop'', wc_reasoning = None, wc_thinking = JNull\<rparr>] None)
   = Some ''stop''"
  by (simp_all add: read_stream_def one_call_chunk_def feed_def Let_def new_stream_def stream_reply_def feed_call_def call_at_def text_of_def
      parse_response_def merge_choice_def)

text \<open>In a whole response every call is kept, with a fresh id each.\<close>

lemma merge_calls: "fst (snd (fold merge_choice cs (a, calls, f))) = calls @ concat (map wc_calls cs)"
  by (induction cs arbitrary: a calls f) (simp_all add: merge_choice_def)

lemma map_snd_of_enumerate: "map (\<lambda>(i, x). f x) (enumerate n xs) = map f xs"
  by (induction xs arbitrary: n) auto

lemma whole_calls_kept:
  assumes "parse_response e n cs usage = Some (r, k)"
  shows "map tq_name (lr_tool_calls r) = map fst (concat (map wc_calls cs)) \<and> k = n + length (lr_tool_calls r)"
proof (cases cs)
  case (Cons c cs')
  obtain content calls finish where f: "fold merge_choice cs (wc_content c, [], wc_finish c) = (content, calls, finish)" by (metis prod_cases3)
  have calls: "calls = concat (map wc_calls cs)" using merge_calls[of cs "wc_content c" "[]" "wc_finish c"] f by simp
  have "map tq_name (lr_tool_calls r) = map (\<lambda>(i, x). fst x) (enumerate 0 calls) \<and> k = n + length (lr_tool_calls r)"
    using assms f unfolding parse_response_def Cons list.case by (auto simp: comp_def case_prod_unfold)
  then show ?thesis by (simp only: map_snd_of_enumerate calls)
qed (use assms in \<open>simp add: parse_response_def\<close>)

end
