(* ===== verification/Secret_Stores.thy ===== *)
theory Secret_Stores
  imports Py_Regex "HOL-Library.Countable"
begin

text \<open>
  \<open>security/vault.py\<close>, the encrypted store of secrets, and \<open>security/envelope.py\<close>, the ring of key encryption keys and
  the envelopes sealed under it. The Fernet cipher, its keys, JSON and base64 are parameters; that they give back what
  they were given is the hypothesis \<open>cipher_ok\<close> of the theorems that need it. Bytes are strings.
\<close>

record cipher =
  ci_valid :: "string \<Rightarrow> bool"
  ci_key :: "nat \<Rightarrow> string"
  ci_encrypt :: "string \<Rightarrow> nat \<Rightarrow> string \<Rightarrow> string"
  ci_decrypt :: "string \<Rightarrow> string \<Rightarrow> string option"
  ci_dumps :: "(string, string) pydict \<Rightarrow> string"
  ci_loads :: "string \<Rightarrow> (string, string) pydict option"
  ci_b64 :: "string \<Rightarrow> string"
  ci_unb64 :: "string \<Rightarrow> string option"

definition cipher_ok :: "cipher \<Rightarrow> bool" where
  "cipher_ok c \<longleftrightarrow>
     (\<forall>n. ci_valid c (ci_key c n) \<and> ci_key c n \<noteq> []) \<and> (\<forall>k n x. ci_valid c k \<longrightarrow> ci_decrypt c k (ci_encrypt c k n x) = Some x)
     \<and> (\<forall>k n x. ci_encrypt c k n x \<noteq> []) \<and> (\<forall>d. ci_loads c (ci_dumps c d) = Some d) \<and> (\<forall>x. ci_unb64 c (ci_b64 c x) = Some x)"

section \<open>The vault\<close>

text \<open>\<open>va_disk\<close> tells whether files can be written, \<open>va_seed\<close> counts the random keys and nonces drawn.\<close>

record vault =
  va_key :: "string option"
  va_env :: "string option"
  va_key_file :: "string option"
  va_file :: "string option"
  va_disk :: bool
  va_seed :: nat
  va_hooks :: "(string, nat list) pydict"
  va_fired :: "(nat \<times> string) list"
  va_audit :: "(string \<times> string \<times> string \<times> string) list"

definition fresh_key :: "cipher \<Rightarrow> vault \<Rightarrow> string \<times> vault" where
  "fresh_key c v =
     (if va_disk v then (ci_key c (va_seed v), v\<lparr>va_seed := va_seed v + 1, va_key_file := Some (ci_key c (va_seed v))\<rparr>)
      else (ci_key c (va_seed v + 1), v\<lparr>va_seed := va_seed v + 2\<rparr>))"

definition key_from_file :: "cipher \<Rightarrow> vault \<Rightarrow> string \<times> vault" where
  "key_from_file c v =
     (case va_key_file v of Some k \<Rightarrow> if ci_valid c k then (k, v) else fresh_key c v | None \<Rightarrow> fresh_key c v)"

definition pick_key :: "cipher \<Rightarrow> vault \<Rightarrow> string \<times> vault" where
  "pick_key c v =
     (case va_env v of Some (x # xs) \<Rightarrow> if ci_valid c (x # xs) then (x # xs, v) else key_from_file c v | _ \<Rightarrow> key_from_file c v)"

definition get_fernet :: "cipher \<Rightarrow> vault \<Rightarrow> string \<times> vault" where
  "get_fernet c v = (case va_key v of Some k \<Rightarrow> (k, v) | None \<Rightarrow> (case pick_key c v of (k, w) \<Rightarrow> (k, w\<lparr>va_key := Some k\<rparr>)))"

definition load_vault_data :: "cipher \<Rightarrow> vault \<Rightarrow> (string, string) pydict \<times> vault" where
  "load_vault_data c v =
     (case va_file v of
        None \<Rightarrow> ([], v)
      | Some x \<Rightarrow>
          (if x = [] then ([], v)
           else (let (k, v) = get_fernet c v
                 in (case Option.bind (ci_decrypt c k x) (ci_loads c) of Some d \<Rightarrow> d | None \<Rightarrow> [], v))))"

definition save_vault_data :: "cipher \<Rightarrow> (string, string) pydict \<Rightarrow> vault \<Rightarrow> vault" where
  "save_vault_data c d v =
     (let (k, v) = get_fernet c v; x = ci_encrypt c k (va_seed v) (ci_dumps c d); v = v\<lparr>va_seed := va_seed v + 1\<rparr>
      in if va_disk v then v\<lparr>va_file := Some x\<rparr> else v)"

definition register_rotation_hook :: "string \<Rightarrow> nat \<Rightarrow> vault \<Rightarrow> vault" where
  "register_rotation_hook n h v = v\<lparr>va_hooks := dset n (dgetd (va_hooks v) n [] @ [h]) (va_hooks v)\<rparr>"

text \<open>Every hook is called with the value, whatever the hooks before it raised.\<close>

definition fire_hooks :: "string \<Rightarrow> string \<Rightarrow> vault \<Rightarrow> vault" where
  "fire_hooks n x v = v\<lparr>va_fired := va_fired v @ map (\<lambda>h. (h, x)) (dgetd (va_hooks v) n [])\<rparr>"

definition vault_event :: "string \<Rightarrow> string \<Rightarrow> string \<Rightarrow> string \<Rightarrow> vault \<Rightarrow> vault" where
  "vault_event actor action n outcome v = v\<lparr>va_audit := va_audit v @ [(actor, action, n, outcome)]\<rparr>"

definition store_secret :: "cipher \<Rightarrow> string \<Rightarrow> string \<Rightarrow> string \<Rightarrow> vault \<Rightarrow> vault" where
  "store_secret c n x actor v =
     (let (d, v) = load_vault_data c v
      in vault_event actor ''vault.secret_stored'' n ''success'' (fire_hooks n x (save_vault_data c (dset n x d) v)))"

definition rotate_secret :: "cipher \<Rightarrow> string \<Rightarrow> string \<Rightarrow> string \<Rightarrow> vault \<Rightarrow> vault" where
  "rotate_secret c n x actor v = vault_event actor ''vault.secret_rotated'' n ''success'' (store_secret c n x actor v)"

definition get_secret :: "cipher \<Rightarrow> string \<Rightarrow> string \<Rightarrow> vault \<Rightarrow> string option \<times> vault" where
  "get_secret c n actor v =
     (let (d, v) = load_vault_data c v; x = dget d n
      in (x, vault_event actor ''vault.secret_accessed'' n (if x \<noteq> None then ''success'' else ''not_found'') v))"

definition resolve_secret :: "cipher \<Rightarrow> string option \<Rightarrow> vault \<Rightarrow> string option \<times> vault" where
  "resolve_secret c value v =
     (case value of
        Some (y # ys) \<Rightarrow>
          if startswith (y # ys) ''vault://'' then get_secret c (drop 8 (y # ys)) ''system'' v else (value, v)
      | _ \<Rightarrow> (value, v))"

section \<open>The ring of keys\<close>

record keyring =
  kr_keks :: "(string, string) pydict"
  kr_active :: string
  kr_file :: "string option"
  kr_seed :: nat
  kr_log :: "(string \<times> string) list"

record envelope =
  ev_version :: string
  ev_dek :: string
  ev_cipher :: string
  ev_metadata :: "(string, json) pydict"

text \<open>The file holds the active version and the keys in base64; \<open>ks_dumps\<close> and \<open>ks_loads\<close> are JSON on this object.\<close>

record keystore_format =
  ks_dumps :: "string \<Rightarrow> (string, string) pydict \<Rightarrow> string"
  ks_loads :: "string \<Rightarrow> (string option \<times> (string, string) pydict) option"

definition persist_keystore :: "cipher \<Rightarrow> keystore_format \<Rightarrow> keyring \<Rightarrow> keyring" where
  "persist_keystore c f r = r\<lparr>kr_file := Some (ks_dumps f (kr_active r) (map (\<lambda>(v, k). (v, ci_b64 c k)) (kr_keks r)))\<rparr>"

text \<open>The keys that were read before one that is no base64 stay in the ring.\<close>

fun read_keks :: "cipher \<Rightarrow> (string, string) pydict \<Rightarrow> (string, string) pydict \<Rightarrow> bool \<times> (string, string) pydict" where
  "read_keks c [] d = (True, d)"
| "read_keks c ((v, b) # vs) d = (case ci_unb64 c b of None \<Rightarrow> (False, d) | Some k \<Rightarrow> read_keks c vs (dset v k d))"

definition init_keystore :: "cipher \<Rightarrow> keystore_format \<Rightarrow> string option \<Rightarrow> nat \<Rightarrow> keyring" where
  "init_keystore c f file seed =
     (let fresh = (\<lambda>d. persist_keystore c f \<lparr>kr_keks = dset ''v1'' (ci_key c seed) d, kr_active = ''v1'', kr_file = file, kr_seed = seed + 1, kr_log = []\<rparr>)
      in case file of
           None \<Rightarrow> fresh []
         | Some x \<Rightarrow>
             (case ks_loads f x of
                None \<Rightarrow> fresh []
              | Some (active, vs) \<Rightarrow>
                  (case read_keks c vs [] of
                     (True, d) \<Rightarrow> \<lparr>kr_keks = d, kr_active = (case active of Some a \<Rightarrow> a | None \<Rightarrow> ''v1''), kr_file = file, kr_seed = seed, kr_log = []\<rparr>
                   | (False, d) \<Rightarrow> fresh d)))"




text \<open>\<open>None\<close> when the ring has no key of the active version.\<close>

definition seal :: "cipher \<Rightarrow> string \<Rightarrow> (string, json) pydict \<Rightarrow> keyring \<Rightarrow> (envelope \<times> keyring) option" where
  "seal c plain meta r =
     map_option (\<lambda>kek.
       let dek = ci_key c (kr_seed r);
           body = ci_encrypt c dek (kr_seed r + 1) plain; wrapped = ci_encrypt c kek (kr_seed r + 2) dek
       in (\<lparr>ev_version = kr_active r, ev_dek = ci_b64 c wrapped, ev_cipher = ci_b64 c body, ev_metadata = meta\<rparr>,
           r\<lparr>kr_seed := kr_seed r + 3\<rparr>)) (dget (kr_keks r) (kr_active r))"

text \<open>
  \<open>bytes.decode("utf-8")\<close>, strict: no bare continuation byte, no longer form than needed, no surrogate, nothing above
  U+10FFFF. A text is kept as its bytes; \<open>None\<close> is the \<open>UnicodeDecodeError\<close>.
\<close>

definition follows :: "nat \<Rightarrow> bool" where "follows b \<longleftrightarrow> 0x80 \<le> b \<and> b < 0xC0"

fun utf8_bytes :: "nat list \<Rightarrow> bool" where
  "utf8_bytes [] = True"
| "utf8_bytes (a # s) =
     (if a < 0x80 then utf8_bytes s
      else if 0xC2 \<le> a \<and> a < 0xE0 then (case s of b # t \<Rightarrow> follows b \<and> utf8_bytes t | _ \<Rightarrow> False)
      else if 0xE0 \<le> a \<and> a < 0xF0 then
        (case s of b # c # t \<Rightarrow>
           follows b \<and> follows c \<and> (a = 0xE0 \<longrightarrow> 0xA0 \<le> b) \<and> (a = 0xED \<longrightarrow> b < 0xA0) \<and> utf8_bytes t | _ \<Rightarrow> False)
      else if 0xF0 \<le> a \<and> a < 0xF5 then
        (case s of b # c # d # t \<Rightarrow>
           follows b \<and> follows c \<and> follows d \<and> (a = 0xF0 \<longrightarrow> 0x90 \<le> b) \<and> (a = 0xF4 \<longrightarrow> b < 0x90) \<and> utf8_bytes t | _ \<Rightarrow> False)
      else False)"

definition utf8_decode :: "string \<Rightarrow> string option" where
  "utf8_decode s = (if utf8_bytes (map of_char s) then Some s else None)"

definition unseal :: "cipher \<Rightarrow> envelope \<Rightarrow> keyring \<Rightarrow> string option" where
  "unseal c e r =
     (case dget (kr_keks r) (ev_version e) of
        Some (x # xs) \<Rightarrow>
          Option.bind (ci_unb64 c (ev_dek e)) (\<lambda>w. Option.bind (ci_decrypt c (x # xs) w) (\<lambda>dek.
            Option.bind (ci_unb64 c (ev_cipher e)) (\<lambda>body. Option.bind (ci_decrypt c dek body) utf8_decode)))
      | _ \<Rightarrow> None)"

definition re_wrap :: "cipher \<Rightarrow> envelope \<Rightarrow> keyring \<Rightarrow> (envelope \<times> keyring) option" where
  "re_wrap c e r =
     (if ev_version e = kr_active r then Some (e, r)
      else case unseal c e r of
        None \<Rightarrow> None
      | Some plain \<Rightarrow>
          map_option (\<lambda>(e', r). (e', r\<lparr>kr_log := kr_log r @ [(''security.envelope_rewrapped'', ev_version e)]\<rparr>)) (seal c plain (ev_metadata e) r))"

section \<open>Properties of the vault\<close>

text \<open>The key of a call is settled: asking again gives the same key and changes nothing.\<close>

lemma pick_key_frame: "pick_key c v = (k, w) \<Longrightarrow> \<exists>n f. w = v\<lparr>va_seed := n, va_key_file := f\<rparr>"
proof -
  have "\<exists>n f. snd (fresh_key c v) = v\<lparr>va_seed := n, va_key_file := f\<rparr>"
  proof (cases "va_disk v")
    case True
    then show ?thesis unfolding fresh_key_def by auto
  next
    case False
    then show ?thesis
      unfolding fresh_key_def by (intro exI[of _ "va_seed v + 2"] exI[of _ "va_key_file v"]) (cases v; simp)
  qed
  moreover have "\<exists>n f. v = v\<lparr>va_seed := n, va_key_file := f\<rparr>" by (intro exI[of _ "va_seed v"] exI[of _ "va_key_file v"]) simp
  ultimately have "\<exists>n f. snd (key_from_file c v) = v\<lparr>va_seed := n, va_key_file := f\<rparr>"
    and "\<exists>n f. v = v\<lparr>va_seed := n, va_key_file := f\<rparr>"
    by (auto simp: key_from_file_def split: option.split)
  then show "pick_key c v = (k, w) \<Longrightarrow> \<exists>n f. w = v\<lparr>va_seed := n, va_key_file := f\<rparr>"
    unfolding pick_key_def by (auto split: option.splits list.splits if_splits)
qed

lemma pick_key_valid: "cipher_ok c \<Longrightarrow> ci_valid c (fst (pick_key c v))"
  by (auto simp: pick_key_def key_from_file_def fresh_key_def cipher_ok_def split: option.split list.split)

lemma get_fernet_settles:
  assumes "get_fernet c v = (k, w)"
  shows "va_key w = Some k" "va_file w = va_file v" "va_disk w = va_disk v" "get_fernet c w = (k, w)"
proof -
  obtain k1 w1 where p: "pick_key c v = (k1, w1)" by fastforce
  then obtain n f where "w1 = v\<lparr>va_seed := n, va_key_file := f\<rparr>" using pick_key_frame by blast
  then show "va_key w = Some k" "va_file w = va_file v" "va_disk w = va_disk v" "get_fernet c w = (k, w)"
    using assms p by (auto simp: get_fernet_def split: option.splits)
qed

lemma get_fernet_valid:
  assumes "get_fernet c v = (k, w)" "cipher_ok c" "\<forall>k. va_key v = Some k \<longrightarrow> ci_valid c k"
  shows "ci_valid c k"
  using assms pick_key_valid[OF assms(2), of v] by (auto simp: get_fernet_def split: option.splits prod.splits)

lemma get_fernet_set_file: "va_key v = Some k \<Longrightarrow> get_fernet c v = (k, v)"
  by (simp add: get_fernet_def)

definition vault_view :: "cipher \<Rightarrow> vault \<Rightarrow> (string, string) pydict" where "vault_view c v = fst (load_vault_data c v)"

lemma load_frame:
  assumes "load_vault_data c v = (d, w)"
  shows "va_file w = va_file v" "va_disk w = va_disk v" "w = v \<or> w = snd (get_fernet c v)"
proof -
  obtain k u where g: "get_fernet c v = (k, u)" by fastforce
  have "w = v \<or> w = u" using assms by (auto simp: load_vault_data_def g split: option.splits if_splits)
  then show "va_file w = va_file v" "va_disk w = va_disk v" "w = v \<or> w = snd (get_fernet c v)"
    using get_fernet_settles[OF g] g by auto
qed

lemma save_then_load:
  assumes "cipher_ok c" "va_disk v" "\<forall>k. va_key v = Some k \<longrightarrow> ci_valid c k"
  shows "vault_view c (save_vault_data c d v) = d"
proof -
  obtain k w where k: "get_fernet c v = (k, w)" by fastforce
  have valid: "ci_valid c k" by (rule get_fernet_valid[OF k assms(1,3)])
  define x where "x = ci_encrypt c k (va_seed w) (ci_dumps c d)"
  have s: "save_vault_data c d v = w\<lparr>va_seed := va_seed w + 1, va_file := Some x\<rparr>"
    using get_fernet_settles[OF k] assms(2) by (simp add: save_vault_data_def k x_def Let_def)
  have "get_fernet c (w\<lparr>va_seed := va_seed w + 1, va_file := Some x\<rparr>) = (k, w\<lparr>va_seed := va_seed w + 1, va_file := Some x\<rparr>)"
    using get_fernet_settles(1)[OF k] by (simp add: get_fernet_set_file)
  moreover have "x \<noteq> []" "Option.bind (ci_decrypt c k x) (ci_loads c) = Some d"
    using assms(1) valid by (simp_all add: x_def cipher_ok_def)
  ultimately show ?thesis by (simp add: vault_view_def s load_vault_data_def)
qed

definition key_known :: "cipher \<Rightarrow> vault \<Rightarrow> bool" where "key_known c v \<longleftrightarrow> (\<forall>k. va_key v = Some k \<longrightarrow> ci_valid c k)"

lemma load_key_known: "cipher_ok c \<Longrightarrow> key_known c v \<Longrightarrow> load_vault_data c v = (d, w) \<Longrightarrow> key_known c w"
  using get_fernet_valid[of c v] get_fernet_settles[of c v] by (cases "get_fernet c v") (auto simp: key_known_def dest!: load_frame(3))

lemma pick_key_other:
  "fst (pick_key c (v\<lparr>va_fired := f\<rparr>)) = fst (pick_key c v)" "fst (pick_key c (v\<lparr>va_audit := g\<rparr>)) = fst (pick_key c v)"
  by (simp_all add: pick_key_def key_from_file_def fresh_key_def split: option.split list.split)

lemma vault_view_key: "vault_view c v = (case va_file v of None \<Rightarrow> [] | Some x \<Rightarrow> if x = [] then [] else
    (case Option.bind (ci_decrypt c (case va_key v of Some k \<Rightarrow> k | None \<Rightarrow> fst (pick_key c v)) x) (ci_loads c) of Some d \<Rightarrow> d | None \<Rightarrow> []))"
  by (cases "va_file v"; cases "va_key v"; cases "pick_key c v") (simp_all add: vault_view_def load_vault_data_def get_fernet_def)

lemma vault_view_frame [simp]:
  "vault_view c (fire_hooks n x v) = vault_view c v" "vault_view c (vault_event a b n o' v) = vault_view c v"
  unfolding vault_view_key by (simp_all add: fire_hooks_def vault_event_def pick_key_other split: option.split)

lemma store_then_view:
  assumes "cipher_ok c" "va_disk v" "key_known c v"
  shows "vault_view c (store_secret c n x actor v) = dset n x (vault_view c v)"
proof -
  obtain d w where d: "load_vault_data c v = (d, w)" by fastforce
  have "va_disk w" "key_known c w" using load_frame[OF d] load_key_known[OF assms(1,3) d] assms(2) by simp_all
  then show ?thesis using save_then_load[OF assms(1)] d by (simp add: store_secret_def key_known_def) (simp add: vault_view_def d)
qed

text \<open>What is stored is what was there with the new secret, whatever the key turned out to be.\<close>

lemma secret_roundtrip:
  assumes "cipher_ok c" "va_disk v" "key_known c v"
  shows "fst (get_secret c m who (store_secret c n x actor v)) = (if m = n then Some x else fst (get_secret c m who v))"
proof -
  have view: "fst (get_secret c m who u) = dget (vault_view c u) m" for u by (simp add: get_secret_def vault_view_def Let_def split: prod.split)
  show ?thesis by (simp add: view store_then_view[OF assms])
qed

text \<open>
  A file that cannot be read counts as empty, so that storing one secret replaces all the others by it: a key that was
  changed in the environment, or a key file that could not be read and was overwritten, costs the whole vault.
\<close>

lemma unreadable_vault_replaced:
  assumes "cipher_ok c" "va_disk v" "key_known c v" "va_file v = Some f" "ci_decrypt c (fst (get_fernet c v)) f = None"
  shows "vault_view c (store_secret c n x actor v) = [(n, x)]"
proof -
  have "vault_view c v = []" using assms(4,5) by (auto simp: vault_view_def load_vault_data_def Let_def split: prod.splits)
  then show ?thesis by (simp add: store_then_view[OF assms(1-3)])
qed

lemma bad_key_file_overwritten:
  assumes "va_key v = None" "va_env v = None" "va_key_file v = Some k" "\<not> ci_valid c k" "va_disk v"
  shows "va_key_file (snd (get_fernet c v)) = Some (ci_key c (va_seed v))"
  using assms by (simp add: get_fernet_def pick_key_def key_from_file_def fresh_key_def)

section \<open>Properties of the ring\<close>






definition version :: "nat \<Rightarrow> string" where "version n = ''v'' @ show_nat n"

text \<open>The invariant of a ring: the versions are numbered, the active one is the highest, and every key is valid.\<close>

definition ring_ok :: "cipher \<Rightarrow> keyring \<Rightarrow> bool" where
  "ring_ok c r \<longleftrightarrow>
     (\<exists>n. kr_active r = version n \<and> dhas (kr_keks r) (version n) \<and> (\<forall>v\<in>set (dkeys (kr_keks r)). \<exists>i\<le>n. v = version i))
     \<and> (\<forall>v k. dget (kr_keks r) v = Some k \<longrightarrow> ci_valid c k \<and> k \<noteq> [])"






lemma unseal_sealed:
  assumes "cipher_ok c" "ring_ok c r" "seal c x meta r = Some (e, r0)"
    and "\<forall>v k. dget (kr_keks r) v = Some k \<longrightarrow> dget (kr_keks r') v = Some k"
  shows "unseal c e r' = utf8_decode x"
proof -
  obtain kek where k: "dget (kr_keks r) (kr_active r) = Some kek" using assms(3) by (auto simp: seal_def)
  then have "ci_valid c kek" "kek \<noteq> []" using assms(2) unfolding ring_ok_def by blast+
  moreover have "dget (kr_keks r') (kr_active r) = Some kek" using assms(4) k by blast
  moreover have "e = \<lparr>ev_version = kr_active r, ev_dek = ci_b64 c (ci_encrypt c kek (kr_seed r + 2) (ci_key c (kr_seed r))),
      ev_cipher = ci_b64 c (ci_encrypt c (ci_key c (kr_seed r)) (kr_seed r + 1) x), ev_metadata = meta\<rparr>"
    using assms(3) k by (simp add: seal_def Let_def)
  ultimately show ?thesis using assms(1) by (cases kek) (simp_all add: unseal_def cipher_ok_def)
qed


text \<open>An envelope wrapped anew is under the active key and holds the same text.\<close>

lemma re_wrap_keeps_text:
  assumes "cipher_ok c" "ring_ok c r" "re_wrap c e r = Some (e', r')" "unseal c e r = Some x"
  shows "ev_version e' = kr_active r \<and> unseal c e' r' = Some x \<and> (ev_version e \<noteq> kr_active r \<longrightarrow> ev_metadata e' = ev_metadata e)"
proof (cases "ev_version e = kr_active r")
  case True
  then show ?thesis using assms by (simp add: re_wrap_def)
next
  case False
  then obtain r1 where s: "seal c x (ev_metadata e) r = Some (e', r1)" "kr_keks r' = kr_keks r1"
    using assms(3,4) by (auto simp: re_wrap_def)
  have "kr_keks r1 = kr_keks r" "ev_version e' = kr_active r" "ev_metadata e' = ev_metadata e"
    using s(1) by (auto simp: seal_def Let_def)
  moreover have "utf8_decode x = Some x"
    using assms(4) by (auto simp: unseal_def utf8_decode_def bind_eq_Some_conv split: option.splits list.splits if_splits)
  ultimately show ?thesis using unseal_sealed[OF assms(1,2) s(1), of r'] s(2) by simp
qed

text \<open>A ring is read back from its file as it was; a file that is damaged is replaced by a ring with one new key.\<close>

lemma read_keks_all:
  assumes "cipher_ok c"
  shows "read_keks c (map (\<lambda>(v, k). (v, ci_b64 c k)) vs) d = (True, fold (\<lambda>(v, k). dset v k) vs d)"
  using assms by (induction vs arbitrary: d) (auto simp: cipher_ok_def)

lemma fold_dset_distinct: "distinct (dkeys vs) \<Longrightarrow> set (dkeys d) \<inter> set (dkeys vs) = {} \<Longrightarrow> fold (\<lambda>(v, k). dset v k) vs d = d @ vs"
proof (induction vs arbitrary: d)
  case (Cons a vs)
  have "dset (fst a) (snd a) d = d @ [a]" using Cons.prems by (induction d) auto
  then show ?case using Cons by (auto simp: case_prod_unfold)
qed simp

lemma keystore_roundtrip:
  assumes "cipher_ok c" "dict_ok (kr_keks r)" "\<forall>a d. ks_loads f (ks_dumps f a d) = Some (Some a, d)"
  shows "kr_keks (init_keystore c f (kr_file (persist_keystore c f r)) seed) = kr_keks r
    \<and> kr_active (init_keystore c f (kr_file (persist_keystore c f r)) seed) = kr_active r"
  using assms read_keks_all[OF assms(1)] fold_dset_distinct[of "kr_keks r" "[]"]
  by (simp add: init_keystore_def persist_keystore_def Let_def dict_ok_def)

lemma damaged_keystore_replaced:
  assumes "ks_loads f x = None"
  shows "kr_keks (init_keystore c f (Some x) seed) = [(''v1'', ci_key c seed)]
    \<and> kr_file (init_keystore c f (Some x) seed) = Some (ks_dumps f ''v1'' [(''v1'', ci_b64 c (ci_key c seed))])"
  using assms by (simp add: init_keystore_def Let_def persist_keystore_def)


text \<open>A cipher that satisfies the hypothesis.\<close>

definition plain_cipher :: cipher where
  "plain_cipher =
     \<lparr>ci_valid = (\<lambda>k. True), ci_key = (\<lambda>n. CHR ''k'' # show_nat n), ci_encrypt = (\<lambda>k n x. CHR ''x'' # x),
      ci_decrypt = (\<lambda>k y. Some (tl y)), ci_dumps = (\<lambda>d. replicate (to_nat d) CHR ''a''), ci_loads = (\<lambda>s. Some (from_nat (length s))),
      ci_b64 = id, ci_unb64 = Some\<rparr>"

lemma plain_cipher_ok: "cipher_ok plain_cipher"
  by (simp add: cipher_ok_def plain_cipher_def)



lemma secret_roundtrip_witness:
  "fst (get_secret plain_cipher ''b'' ''me'' (store_secret plain_cipher ''a'' ''1'' ''me''
     \<lparr>va_key = None, va_env = None, va_key_file = None, va_file = None, va_disk = True, va_seed = 0, va_hooks = [], va_fired = [], va_audit = []\<rparr>)) = None"
  by (subst secret_roundtrip[OF plain_cipher_ok]) (simp_all add: key_known_def get_secret_def load_vault_data_def)

end
