(* ===== verification/Siem_Export.thy ===== *)
theory Siem_Export
  imports Audit_Chain
begin

text \<open>
  \<open>security/siem.py\<close>: audit events in the formats of log collectors, and the pruning of the security log, which archives
  old entries and chains the others anew. The name of the host, the clock, the reading of timestamps, the sender and
  \<open>json.dumps\<close> are parameters; hashes and the verifier are those of \<open>Audit_Chain\<close>.
\<close>

section \<open>Formats\<close>

datatype siem_format = RFC5424_SYSLOG | CEF | JSON_NDJSON

definition syslog_pri :: "string \<Rightarrow> int" where
  "syslog_pri outcome =
     16 * 8 + (if outcome \<in> {''denied'', ''failure'', ''compromised''} then 4 else if outcome \<in> {''blocked'', ''emergency''} then 1 else 6)"

definition quote :: string where "quote = [CHR 0x22]"

definition attribute :: "string \<Rightarrow> string \<Rightarrow> string" where "attribute k v = k @ ''='' @ quote @ v @ quote"

fun joined_lines :: "string \<Rightarrow> string list \<Rightarrow> string" where
  "joined_lines sep [] = []"
| "joined_lines sep [x] = x"
| "joined_lines sep (x # xs) = x @ sep @ joined_lines sep xs"

text \<open>The entries of the metadata that are strings, numbers or booleans.\<close>

definition meta_pairs :: "hash_env \<Rightarrow> json \<Rightarrow> string" where
  "meta_pairs env m =
     (case m of
        JObj d \<Rightarrow> joined_lines '' '' (map (\<lambda>(k, v). attribute k (fstr env v))
                    (filter (\<lambda>(k, v). case v of JStr s \<Rightarrow> True | JInt i \<Rightarrow> True | JFloat x \<Rightarrow> True | JBool b \<Rightarrow> True | _ \<Rightarrow> False) d))
      | _ \<Rightarrow> [])"

record siem_env =
  sx_hash :: hash_env
  sx_host :: string
  sx_now :: string
  sx_dumps :: "json \<Rightarrow> string"

definition or_else :: "string \<Rightarrow> string \<Rightarrow> string" where "or_else s d = (if s = [] then d else s)"

definition format_syslog_rfc5424 :: "siem_env \<Rightarrow> string \<Rightarrow> security_event \<Rightarrow> string" where
  "format_syslog_rfc5424 x app ev =
     ''<'' @ show_int (syslog_pri (se_outcome ev)) @ ''>1 '' @ or_else (se_timestamp ev) (sx_now x) @ '' '' @ or_else (sx_host x) ''localhost''
     @ '' '' @ app @ '' - '' @ or_else (se_correlation ev) ''-''
     @ '' [amberclaw@60416 '' @ attribute ''action'' (se_action ev) @ '' '' @ attribute ''actor'' (se_actor ev) @ '' '' @ attribute ''tenant'' (se_tenant ev)
     @ '' '' @ attribute ''outcome'' (se_outcome ev) @ '' '' @ attribute ''resource'' (se_resource_type ev @ '':'' @ se_resource_id ev)
     @ (let p = meta_pairs (sx_hash x) (se_metadata ev) in if p = [] then [] else '' '' @ p) @ ''] ''
     @ ''Audit action '' @ se_action ev @ '' by '' @ se_actor ev @ '' outcome='' @ se_outcome ev"

definition cef_severity :: "string \<Rightarrow> int" where
  "cef_severity outcome = (if outcome \<in> {''denied'', ''failure''} then 7 else if outcome \<in> {''blocked'', ''compromised''} then 10 else 3)"

definition format_cef :: "security_event \<Rightarrow> string" where
  "format_cef ev =
     ''CEF:0|AmberClaw|AI_OS|2026.0.1|'' @ se_action ev @ ''|'' @ se_action ev @ ''|'' @ show_int (cef_severity (se_outcome ev)) @ ''|''
     @ joined_lines '' ''
         ([''suser='' @ se_actor ev, ''act='' @ se_action ev, ''outcome='' @ se_outcome ev, ''cs1='' @ se_resource_type ev,
           ''cs1Label=ResourceType'', ''cs2='' @ se_resource_id ev, ''cs2Label=ResourceID'', ''cs3='' @ se_tenant ev, ''cs3Label=Tenant'']
          @ (if se_correlation ev = [] then [] else [''externalId='' @ se_correlation ev]))"

text \<open>\<open>model_dump\<close>: the fields of the event, without what the log adds.\<close>

definition model_dump :: "security_event \<Rightarrow> json" where
  "model_dump ev =
     JObj [(''actor'', JStr (se_actor ev)), (''tenant'', JStr (se_tenant ev)), (''action'', JStr (se_action ev)),
       (''resource_type'', JStr (se_resource_type ev)), (''resource_id'', JStr (se_resource_id ev)), (''outcome'', JStr (se_outcome ev)),
       (''timestamp_utc'', JStr (se_timestamp ev)), (''correlation_id'', JStr (se_correlation ev)),
       (''integrity_proof'', JStr (se_proof ev)), (''metadata'', se_metadata ev)]"

definition format_event :: "siem_env \<Rightarrow> siem_format \<Rightarrow> security_event \<Rightarrow> string" where
  "format_event x f ev =
     (case f of RFC5424_SYSLOG \<Rightarrow> format_syslog_rfc5424 x ''AmberClaw'' ev | CEF \<Rightarrow> format_cef ev | JSON_NDJSON \<Rightarrow> sx_dumps x (model_dump ev))"

definition newline :: string where "newline = [CHR 0x0A]"

definition export_events :: "siem_env \<Rightarrow> security_event list \<Rightarrow> siem_format \<Rightarrow> string" where
  "export_events x evs f = joined_lines newline (map (format_event x f) evs)"

text \<open>The receiver answers with a status, or the request raises.\<close>

definition forward_to_webhook ::
  "siem_env \<Rightarrow> (string \<Rightarrow> string \<Rightarrow> (string, string) pydict \<Rightarrow> int option) \<Rightarrow> security_event list \<Rightarrow> string \<Rightarrow> siem_format
     \<Rightarrow> (string, string) pydict \<Rightarrow> bool" where
  "forward_to_webhook x post evs url f headers =
     (let own = [(''Content-Type'', if f = JSON_NDJSON then ''application/json'' else ''text/plain'')]
      in post url (export_events x evs f) (fold (\<lambda>(k, v). dset k v) headers own) \<in> Some ` {200, 201, 202})"

section \<open>Pruning\<close>

text \<open>What \<open>fromisoformat\<close> makes of a timestamp: nothing, a time without a zone, or an instant.\<close>

datatype parsed_time = Unparsed | Naive | Instant timestamp

record prune_env =
  pr_hash :: hash_env
  pr_parse :: "string \<Rightarrow> parsed_time"
  pr_today :: string

definition entry_time :: "prune_env \<Rightarrow> timestamp \<Rightarrow> (string, json) pydict \<Rightarrow> timestamp option" where
  "entry_time env now e =
     (case dgetd e ''timestamp_utc'' (dgetd e ''timestamp'' JNull) of
        JStr s \<Rightarrow> (case pr_parse env s of Unparsed \<Rightarrow> Some now | Naive \<Rightarrow> None | Instant t \<Rightarrow> Some t)
      | _ \<Rightarrow> Some now)"

text \<open>Old entries first, the others second; \<open>None\<close> is the exception of comparing a time without a zone.\<close>

fun split_entries ::
  "prune_env \<Rightarrow> timestamp \<Rightarrow> timestamp \<Rightarrow> (string, json) pydict list \<Rightarrow> ((string, json) pydict list \<times> (string, json) pydict list) option" where
  "split_entries env now cutoff [] = Some ([], [])"
| "split_entries env now cutoff (e # es) =
     (case entry_time env now e of
        None \<Rightarrow> None
      | Some t \<Rightarrow> map_option (\<lambda>(old, kept). if t < cutoff then (e # old, kept) else (old, e # kept)) (split_entries env now cutoff es))"

definition relink_record :: "hash_env \<Rightarrow> int \<Rightarrow> string \<Rightarrow> (string, json) pydict \<Rightarrow> (string, json) pydict \<times> string" where
  "relink_record h i prev e =
     (let e = dset ''previous_hash'' (JStr prev) (dset ''index'' (JInt i) e);
          proof' = he_sha256 h (show_int i @ ''|'' @ fstr h (dgetd e ''timestamp_utc'' (JStr [])) @ ''|'' @ fstr h (dgetd e ''actor'' (JStr []))
            @ ''|'' @ fstr h (dgetd e ''action'' (JStr [])) @ ''|'' @ he_dumps h (details_object e) @ ''|'' @ prev)
      in (dset ''hash'' (JStr proof') (dset ''integrity_proof'' (JStr proof') e), proof'))"

fun relink_all :: "hash_env \<Rightarrow> int \<Rightarrow> string \<Rightarrow> (string, json) pydict list \<Rightarrow> (string, json) pydict list" where
  "relink_all h i prev [] = []"
| "relink_all h i prev (e # es) = (let (e', p) = relink_record h i prev e in e' # relink_all h (i + 1) p es)"

record prune_state =
  ps_log :: "log_line list option"
  ps_archives :: "(string, (string, json) pydict list) pydict"

datatype prune_result =
    NoFile
  | Tampered
  | UnreadableTime
  | Pruned nat nat "string option"

definition prune_and_archive :: "prune_env \<Rightarrow> timestamp \<Rightarrow> int \<Rightarrow> string \<Rightarrow> prune_state \<Rightarrow> prune_result \<times> prune_state" where
  "prune_and_archive env now days dir s =
     (case ps_log s of
        None \<Rightarrow> (NoFile, s)
      | Some ls \<Rightarrow>
          (if \<not> sec_verify_integrity (pr_hash env) ls then (Tampered, s)
           else case split_entries env now (now - of_int days * 86400) (entries ls) of
             None \<Rightarrow> (UnreadableTime, s)
           | Some (old, kept) \<Rightarrow>
               (let path = dir @ ''/audit_archive_'' @ pr_today env @ ''.jsonl.gz'';
                    s = (if old \<noteq> [] then s\<lparr>ps_archives := dset path old (ps_archives s)\<rparr> else s)
                in (Pruned (length old) (length kept) (if old \<noteq> [] then Some path else None),
                    s\<lparr>ps_log := Some (map Fields (relink_all (pr_hash env) 0 zero_hash kept))\<rparr>))))"

section \<open>Properties\<close>

text \<open>The two formats disagree on how bad a compromise is.\<close>

lemma compromise_severities:
  "syslog_pri ''compromised'' = syslog_pri ''denied''" "syslog_pri ''blocked'' < syslog_pri ''compromised''"
  "cef_severity ''compromised'' = cef_severity ''blocked''" "cef_severity ''denied'' < cef_severity ''compromised''"
  by (simp_all add: syslog_pri_def cef_severity_def)

text \<open>Nothing is escaped, so that two different events can have the same line.\<close>

definition plain_event :: "string \<Rightarrow> string \<Rightarrow> security_event" where
  "plain_event outcome kind =
     \<lparr>se_actor = ''bob'', se_tenant = ''default'', se_action = ''login'', se_resource_type = kind, se_resource_id = ''1'', se_outcome = outcome,
      se_timestamp = ''t'', se_correlation = [], se_proof = [], se_metadata = JObj []\<rparr>"

lemma cef_ambiguous:
  "plain_event ''success'' ''file cs1=secret'' \<noteq> plain_event ''success cs1=file'' ''secret''"
  "format_cef (plain_event ''success'' ''file cs1=secret'') = format_cef (plain_event ''success cs1=file'' ''secret'')"
  by (simp add: plain_event_def) code_simp

text \<open>A log that fails the check is left as it is.\<close>

lemma tampered_untouched:
  assumes "ps_log s = Some ls" "\<not> sec_verify_integrity (pr_hash env) ls"
  shows "prune_and_archive env now days dir s = (Tampered, s)"
  using assms by (simp add: prune_and_archive_def)

lemma split_entries_parts:
  "split_entries env now cutoff es = Some (old, kept) \<Longrightarrow>
     old = filter (\<lambda>e. \<exists>t. entry_time env now e = Some t \<and> t < cutoff) es
     \<and> kept = filter (\<lambda>e. \<not> (\<exists>t. entry_time env now e = Some t \<and> t < cutoff)) es"
  by (induction es arbitrary: old kept) (auto split: option.splits if_splits)

text \<open>The entries that are kept say what they said.\<close>

lemma relink_frame:
  "k \<notin> {''index'', ''previous_hash'', ''integrity_proof'', ''hash''} \<Longrightarrow> dget (fst (relink_record h i p e)) k = dget e k"
  by (simp add: relink_record_def Let_def)

lemma relink_all_frame:
  "k \<notin> {''index'', ''previous_hash'', ''integrity_proof'', ''hash''} \<Longrightarrow>
     map (\<lambda>e. dget e k) (relink_all h i p es) = map (\<lambda>e. dget e k) es"
proof (induction h i p es rule: relink_all.induct)
  case (2 h i prev e es)
  obtain e' q where r: "relink_record h i prev e = (e', q)" by fastforce
  show ?case using 2(1)[OF r[symmetric] refl 2(2)] relink_frame[OF 2(2), of h i prev e] r by simp
qed simp

definition present_keys :: "(string, json) pydict \<Rightarrow> bool" where
  "present_keys e \<longleftrightarrow>
     (dhas e ''timestamp_utc'' \<or> \<not> dhas e ''timestamp'') \<and> (dhas e ''actor'' \<or> \<not> dhas e ''agent_id'')"

lemma dgetd_fallback: "dhas e k \<or> \<not> dhas e j \<Longrightarrow> dgetd e k (dgetd e j x) = dgetd e k x"
  by (auto simp: dgetd_def dhas_def split: option.split)

lemma relink_proof:
  assumes "present_keys e"
  shows "sec_calculate_hash h (fst (relink_record h i p e)) p = snd (relink_record h i p e)"
proof -
  have "dgetd e ''timestamp_utc'' (dgetd e ''timestamp'' (JStr [])) = dgetd e ''timestamp_utc'' (JStr [])"
    "dgetd e ''actor'' (dgetd e ''agent_id'' (JStr [])) = dgetd e ''actor'' (JStr [])"
    using assms by (simp_all add: present_keys_def dgetd_fallback)
  then show ?thesis by (simp add: relink_record_def Let_def sec_calculate_hash_def sec_head_def details_object_def)
qed

lemma relink_accepted:
  assumes "present_keys e" "relink_record h i p e = (e', q)"
  shows "json_eq_int (dget e' ''index'') i" "dget e' ''previous_hash'' = Some (JStr p)" "stored_proof e' = Some (JStr q)" "sec_calculate_hash h e' p = q"
proof -
  show "sec_calculate_hash h e' p = q" using relink_proof[OF assms(1), of h i p] assms(2) by simp
  show "json_eq_int (dget e' ''index'') i" "dget e' ''previous_hash'' = Some (JStr p)" "stored_proof e' = Some (JStr q)"
    using assms(2) by (auto simp: relink_record_def Let_def stored_proof_def)
qed

lemma relinked_verifies:
  "list_all present_keys es \<Longrightarrow> sec_verify_lines h i p (map Fields (relink_all h i p es))"
proof (induction h i p es rule: relink_all.induct)
  case (2 h i p e es)
  obtain e' q where r: "relink_record h i p e = (e', q)" by fastforce
  have e: "present_keys e" "list_all present_keys es" using 2(2) by simp_all
  show ?case using 2(1)[OF r[symmetric] refl e(2)] relink_accepted[OF e(1) r] by (simp add: r Let_def)
qed simp

text \<open>
  The new log verifies when the entries kept name their time and their actor by the present keys; the verifier also
  reads those of older logs, which the pruning does not.
\<close>

lemma pruned_log_verifies:
  assumes "prune_and_archive env now days dir s = (Pruned a k path, s')" "ps_log s = Some ls" "list_all present_keys (entries ls)"
  shows "\<exists>ls'. ps_log s' = Some ls' \<and> sec_verify_integrity (pr_hash env) ls' \<and> length ls' = k \<and> a + k = length (entries ls)"
proof -
  obtain old kept where sp: "split_entries env now (now - of_int days * 86400) (entries ls) = Some (old, kept)"
    and s': "ps_log s' = Some (map Fields (relink_all (pr_hash env) 0 zero_hash kept))" "a = length old" "k = length kept"
    using assms(1,2) by (auto simp: prune_and_archive_def Let_def split: if_splits option.splits)
  have "set kept \<subseteq> set (entries ls)" using split_entries_parts[OF sp] by auto
  then have "list_all present_keys kept" using assms(3) by (auto simp: list_all_iff)
  then have "sec_verify_integrity (pr_hash env) (map Fields (relink_all (pr_hash env) 0 zero_hash kept))"
    using relinked_verifies by (simp add: sec_verify_integrity_def)
  moreover have "length (relink_all h i p es) = length es" for h i p es
    by (induction h i p es rule: relink_all.induct) (simp_all split: prod.split)
  moreover have "length old + length kept = length (entries ls)"
    using split_entries_parts[OF sp] sum_length_filter_compl[of "\<lambda>e. \<exists>t. entry_time env now e = Some t \<and> t < now - of_int days * 86400" "entries ls"] by simp
  ultimately show ?thesis using s' by simp
qed

text \<open>The archive of a day is written anew: what a pruning of the same day put there is gone.\<close>

lemma archive_overwritten:
  assumes "prune_and_archive env now days dir s = (Pruned a k (Some path), s')"
  shows "path = dir @ ''/audit_archive_'' @ pr_today env @ ''.jsonl.gz'' \<and> (\<exists>old. dget (ps_archives s') path = Some old \<and> length old = a)"
  using assms by (auto simp: prune_and_archive_def Let_def split: if_splits option.splits)

text \<open>An older log with its time under the old key verifies, and its pruned form does not.\<close>

definition legacy_entry :: "(string, json) pydict" where
  "legacy_entry =
     (let e = [(''timestamp'', JStr ''t''), (''actor'', JStr ''a''), (''action'', JStr ''x''), (''index'', JInt 0), (''previous_hash'', JStr zero_hash)]
      in dset ''hash'' (JStr (sec_calculate_hash toy_env e zero_hash)) e)"

definition recent :: prune_env where "recent = \<lparr>pr_hash = toy_env, pr_parse = (\<lambda>s. Instant 0), pr_today = ''20260101''\<rparr>"

lemma legacy_log_broken:
  "sec_verify_integrity toy_env [Fields legacy_entry]"
  "map_option (sec_verify_integrity toy_env)
     (ps_log (snd (prune_and_archive recent 0 90 ''a'' \<lparr>ps_log = Some [Fields legacy_entry], ps_archives = []\<rparr>))) = Some False"
  by (code_simp, code_simp)

lemma pruned_log_verifies_witness:
  "\<exists>s' ls'. prune_and_archive recent 0 90 ''a'' \<lparr>ps_log = Some [], ps_archives = []\<rparr> = (Pruned 0 0 None, s')
     \<and> ps_log s' = Some ls' \<and> sec_verify_integrity toy_env ls'"
proof -
  obtain s' where s': "prune_and_archive recent 0 90 ''a'' \<lparr>ps_log = Some [], ps_archives = []\<rparr> = (Pruned 0 0 None, s')"
    by (simp add: prune_and_archive_def sec_verify_integrity_def)
  then show ?thesis using pruned_log_verifies[OF s', of "[]"] by (auto simp: recent_def)
qed

end
