(* ===== verification/File_Tools.thy ===== *)
theory File_Tools
  imports Posix_Paths Py_Regex Difflib
begin

text \<open>
  The tools on files (\<open>agent/tools/filesystem.py\<close>) and on the shell (\<open>agent/tools/shell.py\<close>). A disk has files and
  directories, without symbolic links; texts are ASCII, but for the signs the code adds, which are their bytes in UTF-8.
  The messages of the operating system, the difference of two texts and the processes are parameters.
\<close>

section \<open>Disks\<close>

record disk =
  dk_files :: "(location, string) pydict"
  dk_dirs :: "location list"

definition is_file :: "disk \<Rightarrow> location \<Rightarrow> bool" where "is_file d p = dhas (dk_files d) p"

definition is_dir :: "disk \<Rightarrow> location \<Rightarrow> bool" where "is_dir d p = (p = [] \<or> p \<in> set (dk_dirs d))"

definition exists_path :: "disk \<Rightarrow> location \<Rightarrow> bool" where "exists_path d p = (is_file d p \<or> is_dir d p)"

definition ancestors :: "location \<Rightarrow> location list" where "ancestors p = map (\<lambda>n. take n p) [1..<Suc (length p)]"

text \<open>\<open>mkdir(parents=True, exist_ok=True)\<close> fails where a file is in the way.\<close>

definition make_dirs :: "location \<Rightarrow> disk \<Rightarrow> disk option" where
  "make_dirs p d =
     (if list_ex (is_file d) (ancestors p) then None
      else Some (d\<lparr>dk_dirs := dk_dirs d @ filter (\<lambda>q. q \<notin> set (dk_dirs d)) (ancestors p)\<rparr>))"

definition put_file :: "location \<Rightarrow> string \<Rightarrow> disk \<Rightarrow> disk option" where
  "put_file p s d = (if is_dir d p then None else Some (d\<lparr>dk_files := dset p s (dk_files d)\<rparr>))"

section \<open>Paths\<close>

record file_env =
  fe_cwd :: location
  fe_home :: location
  fe_users :: "string \<Rightarrow> location option"
  fe_os_error :: "location \<Rightarrow> string"
  fe_diff :: "string list \<Rightarrow> string list \<Rightarrow> string \<Rightarrow> nat \<Rightarrow> string"

record file_tool =
  ft_workspace :: "location option"
  ft_allowed :: "location option"

text \<open>\<open>expanduser\<close>; \<open>None\<close> for a user without a home.\<close>

definition expand_user :: "file_env \<Rightarrow> path \<Rightarrow> path option" where
  "expand_user e p =
     (case pt_parts p of
        (c # user) # rest \<Rightarrow>
          if pt_absolute p \<or> c \<noteq> CHR 0x7E then Some p
          else (case (if user = [] then Some (fe_home e) else fe_users e user) of
                  None \<Rightarrow> None | Some h \<Rightarrow> Some \<lparr>pt_absolute = True, pt_parts = h @ rest\<rparr>)
      | _ \<Rightarrow> Some p)"

definition below :: "location \<Rightarrow> location \<Rightarrow> bool" where "below d p = (take (length d) p = d)"

datatype path_error = Outside string | NoHome

definition tool_root :: "file_tool \<Rightarrow> location option" where
  "tool_root t = (case ft_allowed t of Some a \<Rightarrow> Some a | None \<Rightarrow> ft_workspace t)"

definition resolve_tool_path :: "file_env \<Rightarrow> file_tool \<Rightarrow> string \<Rightarrow> path_error + location" where
  "resolve_tool_path e t path =
     (case expand_user e (parse_path path) of
        None \<Rightarrow> Inl NoHome
      | Some p \<Rightarrow>
          (let p = (case ft_workspace t of Some w \<Rightarrow> if pt_absolute p then p else \<lparr>pt_absolute = True, pt_parts = w @ pt_parts p\<rparr> | None \<Rightarrow> p);
               resolved = resolve_path (fe_cwd e) p
           in case tool_root t of
                None \<Rightarrow> Inr resolved
              | Some base \<Rightarrow>
                  if below (walk [] base) resolved then Inr resolved
                  else Inl (Outside (''Path '' @ path @ '' is outside allowed directory '' @ show_location base))))"

definition path_error_text :: "string \<Rightarrow> path_error \<Rightarrow> string" where
  "path_error_text prefix' err =
     (case err of Outside m \<Rightarrow> ''Error: '' @ m | NoHome \<Rightarrow> prefix' @ ''Could not determine home directory.'')"

section \<open>Reading and writing\<close>

definition max_chars :: nat where "max_chars = 128000"

fun grouped :: "string \<Rightarrow> string" where
  "grouped (a # b # c # d # rest) = a # b # c # CHR '','' # grouped (d # rest)"
| "grouped s = s"

text \<open>\<open>format(n, ",")\<close>.\<close>

definition with_commas :: "nat \<Rightarrow> string" where "with_commas n = rev (grouped (rev (show_nat n)))"

definition newline :: char where "newline = CHR 0x0A"

definition em_dash :: string where "em_dash = [CHR 0xE2, CHR 0x80, CHR 0x94]"

definition read_file :: "file_env \<Rightarrow> file_tool \<Rightarrow> string \<Rightarrow> disk \<Rightarrow> string" where
  "read_file e t path d =
     (case resolve_tool_path e t path of
        Inl err \<Rightarrow> path_error_text ''Error reading file: '' err
      | Inr p \<Rightarrow>
          (if \<not> exists_path d p then ''Error: File not found: '' @ path
           else case dget (dk_files d) p of
             None \<Rightarrow> ''Error: Not a file: '' @ path
           | Some s \<Rightarrow>
               (if length s > max_chars * 4
                then ''Error: File too large ('' @ with_commas (length s) @ '' bytes). Use exec tool with head/tail/grep to read portions.''
                else if length s > max_chars
                then take max_chars s @ [newline, newline] @ ''... (truncated '' @ em_dash @ '' file is '' @ with_commas (length s) @ '' chars, limit ''
                       @ with_commas max_chars @ '')''
                else s)))"

definition write_file :: "file_env \<Rightarrow> file_tool \<Rightarrow> string \<Rightarrow> string \<Rightarrow> disk \<Rightarrow> string \<times> disk" where
  "write_file e t path content d =
     (case resolve_tool_path e t path of
        Inl err \<Rightarrow> (path_error_text ''Error writing file: '' err, d)
      | Inr p \<Rightarrow>
          (case make_dirs (butlast p) d of
             None \<Rightarrow> (''Error writing file: '' @ fe_os_error e p, d)
           | Some d1 \<Rightarrow>
               (case put_file p content d1 of
                  None \<Rightarrow> (''Error writing file: '' @ fe_os_error e p, d1)
                | Some d2 \<Rightarrow> (''Successfully wrote '' @ show_nat (length content) @ '' bytes to '' @ show_location p, d2))))"

section \<open>Editing\<close>

text \<open>What is before and after the first occurrence of a text; the number of occurrences that do not overlap.\<close>

fun cut_at :: "string \<Rightarrow> string \<Rightarrow> (string \<times> string) option" where
  "cut_at w [] = (if w = [] then Some ([], []) else None)"
| "cut_at w (c # s) =
     (if startswith (c # s) w then Some ([], drop (length w) (c # s)) else map_option (\<lambda>(a, b). (c # a, b)) (cut_at w s))"

primrec count_from :: "nat \<Rightarrow> string \<Rightarrow> string \<Rightarrow> nat" where
  "count_from 0 w s = 0"
| "count_from (Suc n) w s = (case cut_at w s of None \<Rightarrow> 0 | Some (a, b) \<Rightarrow> Suc (count_from n w b))"

definition occurrences :: "string \<Rightarrow> string \<Rightarrow> nat" where
  "occurrences w s = (if w = [] then length s + 1 else count_from (length s) w s)"

definition line_break :: "char \<Rightarrow> bool" where
  "line_break c = (let n = (of_char c :: nat) in 10 \<le> n \<and> n \<le> 13 \<or> 28 \<le> n \<and> n \<le> 30)"

text \<open>\<open>splitlines(keepends=True)\<close>.\<close>

fun split_lines :: "string \<Rightarrow> string list" where
  "split_lines [] = []"
| "split_lines (c # s) =
     (if c = CHR 0x0D \<and> s \<noteq> [] \<and> hd s = CHR 0x0A
      then [c, CHR 0x0A] # split_lines (tl s)
      else if line_break c then [c] # split_lines s
      else case split_lines s of [] \<Rightarrow> [[c]] | l # ls \<Rightarrow> (c # l) # ls)"

definition best_window :: "string list \<Rightarrow> string list \<Rightarrow> rat \<times> nat" where
  "best_window old ls =
     fold (\<lambda>i (best, start). let r = match_ratio old (take (length old) (drop i ls)) in if r > best then (r, i) else (best, start))
       [0..<max 1 (length ls + 1 - length old)] (0, 0)"

definition not_found_message :: "file_env \<Rightarrow> string \<Rightarrow> string \<Rightarrow> string \<Rightarrow> string" where
  "not_found_message e old content path =
     (let ls = split_lines content; os = split_lines old; (r, i) = best_window os ls
      in if r > 1 / 2
         then ''Error: old_text not found in '' @ path @ ''.'' @ [newline] @ ''Best match ('' @ show_int (round_half_even (100 * r))
                @ ''% similar) at line '' @ show_nat (i + 1) @ '':'' @ [newline] @ fe_diff e os (take (length os) (drop i ls)) path (i + 1)
         else ''Error: old_text not found in '' @ path @ ''. No similar text found. Verify the file content.'')"

definition edit_file :: "file_env \<Rightarrow> file_tool \<Rightarrow> string \<Rightarrow> string \<Rightarrow> string \<Rightarrow> disk \<Rightarrow> string \<times> disk" where
  "edit_file e t path old new d =
     (case resolve_tool_path e t path of
        Inl err \<Rightarrow> (path_error_text ''Error editing file: '' err, d)
      | Inr p \<Rightarrow>
          (if \<not> exists_path d p then (''Error: File not found: '' @ path, d)
           else case dget (dk_files d) p of
             None \<Rightarrow> (''Error editing file: '' @ fe_os_error e p, d)
           | Some s \<Rightarrow>
               (case cut_at old s of
                  None \<Rightarrow> (not_found_message e old s path, d)
                | Some (a, b) \<Rightarrow>
                    (if occurrences old s > 1
                     then (''Warning: old_text appears '' @ show_nat (occurrences old s) @ '' times. Please provide more context to make it unique.'', d)
                     else (''Successfully edited '' @ show_location p, d\<lparr>dk_files := dset p (a @ new @ b) (dk_files d)\<rparr>)))))"

section \<open>Listing\<close>

definition dir_mark :: string where "dir_mark = [CHR 0xF0, CHR 0x9F, CHR 0x93, CHR 0x81, CHR '' '']"

definition file_mark :: string where "file_mark = [CHR 0xF0, CHR 0x9F, CHR 0x93, CHR 0x84, CHR '' '']"

definition children :: "disk \<Rightarrow> location \<Rightarrow> string list" where
  "children d p =
     remdups (map last (filter (\<lambda>q. q \<noteq> [] \<and> butlast q = p) (dkeys (dk_files d) @ dk_dirs d)))"

definition list_dir :: "file_env \<Rightarrow> file_tool \<Rightarrow> string \<Rightarrow> disk \<Rightarrow> string" where
  "list_dir e t path d =
     (case resolve_tool_path e t path of
        Inl err \<Rightarrow> path_error_text ''Error listing directory: '' err
      | Inr p \<Rightarrow>
          (if \<not> exists_path d p then ''Error: Directory not found: '' @ path
           else if \<not> is_dir d p then ''Error: Not a directory: '' @ path
           else if children d p = [] then ''Directory '' @ path @ '' is empty''
           else join_with [newline] (map (\<lambda>n. (if is_dir d (p @ [n]) then dir_mark else file_mark) @ n) (sort (children d p)))))"

section \<open>The shell\<close>

text \<open>The patterns that are refused, searched in the command in lower case.\<close>

definition blanks :: rx where "blanks = any_of (Cls space_char)"

definition deny_patterns :: "rx list" where
  "deny_patterns =
     [seq [WordEdge, lit ''rm'', some_of (Cls space_char), lit ''-'', Rep 1 (Some 2) True (Cls (one_of ''rf'')), WordEdge],
      seq [WordEdge, lit ''del'', some_of (Cls space_char), lit ''/'', Cls (one_of ''fq''), WordEdge],
      seq [WordEdge, lit ''rmdir'', some_of (Cls space_char), lit ''/s'', WordEdge],
      seq [Alt TextStart (seq [Cls (one_of '';&|''), blanks]), lit ''format'', WordEdge],
      seq [WordEdge, alts [lit ''mkfs'', lit ''diskpart''], WordEdge],
      seq [WordEdge, lit ''dd'', some_of (Cls space_char), lit ''if=''],
      seq [lit ''>'', blanks, lit ''/dev/sd''],
      seq [WordEdge, alts [lit ''shutdown'', lit ''reboot'', lit ''poweroff''], WordEdge],
      seq [lit '':()'', blanks, lit ''{'', any_of (Cls (\<lambda>c. c \<noteq> newline)), lit ''};'', blanks, lit '':'']]"

record exec_tool =
  ex_deny :: "rx list"
  ex_allow :: "rx list"
  ex_restrict :: bool
  ex_cwd :: "location option"

definition new_exec :: "rx list option \<Rightarrow> rx list option \<Rightarrow> bool \<Rightarrow> location option \<Rightarrow> exec_tool" where
  "new_exec deny allow restrict cwd =
     \<lparr>ex_deny = (case deny of Some ps \<Rightarrow> ps | None \<Rightarrow> deny_patterns), ex_allow = (case allow of Some ps \<Rightarrow> ps | None \<Rightarrow> []),
      ex_restrict = restrict, ex_cwd = cwd\<rparr>"

text \<open>The words that look like absolute paths: after a blank, a bar, a greater sign or at the beginning.\<close>

definition path_stop :: "char \<Rightarrow> bool" where "path_stop c = (space_char c \<or> c = CHR 0x22 \<or> c = CHR 0x27 \<or> c = CHR ''>'')"

definition posix_pattern :: rx where
  "posix_pattern = seq [Alt TextStart (Cls (\<lambda>c. space_char c \<or> c = CHR ''|'' \<or> c = CHR ''>'')), lit ''/'', some_of (Cls (\<lambda>c. \<not> path_stop c))]"

definition windows_pattern :: rx where
  "windows_pattern =
     seq [Cls (\<lambda>c. is_upper c \<or> is_lower c), lit '':'', Cls (\<lambda>c. c = CHR 0x5C),
          some_of (Cls (\<lambda>c. \<not> (path_stop c \<or> c \<in> {CHR ''|'', CHR ''<'', CHR '';''})))]"

definition extract_absolute_paths :: "string \<Rightarrow> string list" where
  "extract_absolute_paths cmd =
     map (\<lambda>(i, j). substr cmd i j) (finditer windows_pattern cmd)
     @ map (\<lambda>(i, j). dropWhile (\<lambda>c. c \<noteq> CHR ''/'') (substr cmd i j)) (finditer posix_pattern cmd)"

datatype shell_guard_error = DangerousPattern | NotAllowed | Traversal | OutsideWorkdir

definition guard_text :: "shell_guard_error \<Rightarrow> string" where
  "guard_text g = ''Error: Command blocked by safety guard ('' @
     (case g of DangerousPattern \<Rightarrow> ''dangerous pattern detected'' | NotAllowed \<Rightarrow> ''not in allowlist''
      | Traversal \<Rightarrow> ''path traversal detected'' | OutsideWorkdir \<Rightarrow> ''path outside working dir'') @ '')''"

definition guard_command :: "exec_tool \<Rightarrow> string \<Rightarrow> location \<Rightarrow> shell_guard_error option" where
  "guard_command t command cwd =
     (let cmd = strip command; low = lower cmd
      in if list_ex (\<lambda>p. search p low) (ex_deny t) then Some DangerousPattern
         else if ex_allow t \<noteq> [] \<and> \<not> list_ex (\<lambda>p. search p low) (ex_allow t) then Some NotAllowed
         else if ex_restrict t then
           (if str_in (''..'' @ [CHR 0x5C]) cmd \<or> str_in ''../'' cmd then Some Traversal
            else if list_ex (\<lambda>raw. \<not> below (walk [] cwd) (resolve_path cwd (parse_path (strip raw)))) (extract_absolute_paths cmd)
            then Some OutsideWorkdir else None)
         else None)"

text \<open>What running a command comes to.\<close>

datatype process_end = Ended string string int | Overran | NotStarted string

definition max_output :: nat where "max_output = 10000"

definition truncated_note :: "nat \<Rightarrow> string" where
  "truncated_note n = newline # ''... (truncated, '' @ show_nat n @ '' more chars)''"

definition clip_output :: "string \<Rightarrow> string" where
  "clip_output r = (if length r > max_output then take max_output r @ truncated_note (length r - max_output) else r)"

definition exec_output :: "string \<Rightarrow> string \<Rightarrow> int \<Rightarrow> string" where
  "exec_output out err code =
     (let parts = (if out \<noteq> [] then [out] else [])
                  @ (if err \<noteq> [] \<and> strip err \<noteq> [] then [''STDERR:'' @ newline # err] else [])
                  @ (if code \<noteq> 0 then [newline # ''Exit code: '' @ show_int code] else [])
      in clip_output (if parts = [] then ''(no output)'' else join_with [newline] parts))"

definition exec_run :: "exec_tool \<Rightarrow> nat \<Rightarrow> (string \<Rightarrow> location \<Rightarrow> process_end) \<Rightarrow> location \<Rightarrow> string \<Rightarrow> location option \<Rightarrow> string" where
  "exec_run t timeout process here command dir =
     (let cwd = (case dir of Some d \<Rightarrow> d | None \<Rightarrow> (case ex_cwd t of Some d \<Rightarrow> d | None \<Rightarrow> here))
      in case guard_command t command cwd of
           Some g \<Rightarrow> guard_text g
         | None \<Rightarrow>
             (case process command cwd of
                Ended out err code \<Rightarrow> exec_output out err code
              | Overran \<Rightarrow> ''Error: Command timed out after '' @ show_nat timeout @ '' seconds''
              | NotStarted x \<Rightarrow> ''Error executing command: '' @ x))"

section \<open>Properties\<close>

text \<open>
  A location is inside a directory when it is below it and written without \<open>..\<close>: a name that has a step upwards is taken
  elsewhere by the operating system. A path is only accepted inside the directory the tool is held to.
\<close>

definition inside :: "location \<Rightarrow> location \<Rightarrow> bool" where
  "inside base q \<longleftrightarrow> below (walk [] base) q \<and> ''..'' \<notin> set q"

lemma resolved_no_dots: "''..'' \<notin> set (resolve_path cwd p)"
  unfolding resolve_path_def by (rule walk_clean) simp

lemma resolved_inside:
  assumes "resolve_tool_path e t path = Inr p" "tool_root t = Some base"
  shows "inside base p"
  using assms resolved_no_dots by (auto simp: resolve_tool_path_def inside_def Let_def split: option.splits if_splits)

lemma make_dirs_files: "make_dirs p d = Some d' \<Longrightarrow> dk_files d' = dk_files d"
  by (auto simp: make_dirs_def split: if_splits)

lemma set_ancestors: "q \<in> set (ancestors p) \<longleftrightarrow> q \<noteq> [] \<and> below q p"
proof
  assume "q \<in> set (ancestors p)"
  then show "q \<noteq> [] \<and> below q p" by (auto simp: ancestors_def below_def)
next
  assume q: "q \<noteq> [] \<and> below q p"
  then have "q = take (length q) p" by (simp add: below_def)
  moreover have "length q \<le> length p" using q by (metis below_def length_take min.cobounded1)
  moreover have "1 \<le> length q" using q by (cases q) simp_all
  ultimately have "q \<in> (\<lambda>n. take n p) ` set [1..<Suc (length p)]" by (intro image_eqI [of _ _ "length q"]) auto
  then show "q \<in> set (ancestors p)" by (simp only: ancestors_def list.set_map)
qed

lemma make_dirs_dirs: "make_dirs p d = Some d' \<Longrightarrow> is_dir d' q \<longleftrightarrow> is_dir d q \<or> below q p"
  by (auto simp: make_dirs_def is_dir_def set_ancestors below_def split: if_splits)

lemma below_chain: "below a q \<Longrightarrow> below b q \<Longrightarrow> below a b \<or> below b a"
  unfolding below_def by (metis nat_le_linear take_all_iff take_take min_def)

lemma below_trans: "below a b \<Longrightarrow> below b c \<Longrightarrow> below a c"
  unfolding below_def by (metis length_take min.absorb2 min.cobounded1 take_take)

lemma below_dots: "below q p \<Longrightarrow> ''..'' \<notin> set p \<Longrightarrow> ''..'' \<notin> set q"
  unfolding below_def by (metis in_set_takeD)

text \<open>Two disks that agree outside a directory: in their files, and in the directories but those that lead to it.\<close>

definition outside_as :: "location \<Rightarrow> disk \<Rightarrow> disk \<Rightarrow> bool" where
  "outside_as base d0 d \<longleftrightarrow>
     (\<forall>q. \<not> inside base q \<longrightarrow>
        dget (dk_files d) q = dget (dk_files d0) q \<and> (\<not> below q (walk [] base) \<longrightarrow> is_dir d q = is_dir d0 q))"

lemma outside_refl: "outside_as base d d"
  by (simp add: outside_as_def)

lemma outside_trans: "outside_as base a b \<Longrightarrow> outside_as base b c \<Longrightarrow> outside_as base a c"
  by (simp add: outside_as_def)

lemma outside_dirs:
  assumes "make_dirs p d = Some d'" "inside base p \<or> below p (walk [] base)"
  shows "outside_as base d d'"
proof -
  have "is_dir d' q = is_dir d q" if q: "\<not> inside base q" "\<not> below q (walk [] base)" for q
  proof -
    have "\<not> below q p"
    proof
      assume b: "below q p"
      from assms(2) show False
      proof
        assume p: "inside base p"
        then have "below (walk [] base) q" using q(2) b below_chain by (auto simp: inside_def)
        moreover have "''..'' \<notin> set q" using p b below_dots by (auto simp: inside_def)
        ultimately show False using q(1) by (simp add: inside_def)
      qed (use q(2) b below_trans in blast)
    qed
    then show ?thesis using make_dirs_dirs [OF assms(1)] by simp
  qed
  then show ?thesis using make_dirs_files [OF assms(1)] by (simp add: outside_as_def)
qed

lemma outside_parent:
  assumes "make_dirs (butlast p) d = Some d'" "inside base p"
  shows "outside_as base d d'"
proof (rule outside_dirs [OF assms(1)])
  have "below (walk [] base) p" using assms(2) by (simp add: inside_def)
  moreover have "below (butlast p) p" by (simp add: below_def butlast_conv_take)
  ultimately have "below (walk [] base) (butlast p) \<or> below (butlast p) (walk [] base)" by (rule below_chain)
  moreover have "''..'' \<notin> set (butlast p)" using assms(2) in_set_butlastD [of "''..''" p] by (auto simp: inside_def)
  ultimately show "inside base (butlast p) \<or> below (butlast p) (walk [] base)" by (auto simp: inside_def)
qed

lemma outside_store: "inside base p \<Longrightarrow> outside_as base d (d\<lparr>dk_files := dset p s (dk_files d)\<rparr>)"
  by (auto simp: outside_as_def is_dir_def)

lemma outside_put: "put_file p s d = Some d' \<Longrightarrow> inside base p \<Longrightarrow> outside_as base d d'"
  using outside_store by (auto simp: put_file_def split: if_splits)

datatype file_op = WriteFile string string | EditFile string string string

fun file_step :: "file_env \<times> file_tool \<times> file_op \<Rightarrow> disk \<Rightarrow> disk" where
  "file_step (e, t, WriteFile path s) d = snd (write_file e t path s d)"
| "file_step (e, t, EditFile path old new) d = snd (edit_file e t path old new d)"

lemma write_file_frame:
  assumes "tool_root t = Some base"
  shows "outside_as base d (snd (write_file e t path s d))"
proof (cases "resolve_tool_path e t path")
  case (Inr p)
  note p = resolved_inside [OF Inr assms]
  show ?thesis
  proof (cases "make_dirs (butlast p) d")
    case (Some d1)
    then show ?thesis
      using Inr p outside_parent [OF Some p] outside_put [of p s d1 _ base] outside_trans
      by (auto simp: write_file_def split: option.splits)
  qed (simp add: write_file_def Inr outside_refl)
qed (simp add: write_file_def outside_refl)

lemma edit_file_frame:
  assumes "tool_root t = Some base"
  shows "outside_as base d (snd (edit_file e t path old new d))"
  using resolved_inside [OF _ assms, of e path] outside_store
  by (auto simp: edit_file_def outside_refl split: sum.splits option.splits)

definition held_to :: "location \<Rightarrow> file_env \<times> file_tool \<times> file_op \<Rightarrow> bool" where
  "held_to base call = (tool_root (fst (snd call)) = Some base)"

definition guarded_step :: "location \<Rightarrow> file_env \<times> file_tool \<times> file_op \<Rightarrow> disk \<Rightarrow> disk" where
  "guarded_step base call d = (if held_to base call then file_step call d else d)"

interpretation file_tools: machine "guarded_step base" "outside_as base d0" for base d0
proof
  fix d :: disk and call :: "file_env \<times> file_tool \<times> file_op"
  assume inv: "outside_as base d0 d"
  obtain e t k where call: "call = (e, t, k)" by (metis prod_cases3)
  show "outside_as base d0 (guarded_step base call d)"
    using inv by (cases k) (auto simp: guarded_step_def held_to_def call intro: outside_trans [OF _ write_file_frame] outside_trans [OF _ edit_file_frame])
qed

lemma guarded_run: "list_all (held_to base) cs \<Longrightarrow> fold (guarded_step base) cs d = fold file_step cs d"
  by (induction cs arbitrary: d) (auto simp: guarded_step_def)

text \<open>
  C21. No sequence of writes and edits of tools held to a directory changes anything outside it: no file that is not below
  the directory, no name with a step upwards, and no directory but those that lead to it.
\<close>

theorem file_tools_confined:
  assumes "list_all (held_to base) calls" "\<not> below (walk [] base) q \<or> ''..'' \<in> set q"
  shows "dget (dk_files (fold file_step calls d)) q = dget (dk_files d) q
    \<and> (\<not> below q (walk [] base) \<longrightarrow> is_dir (fold file_step calls d) q = is_dir d q)"
proof -
  have "outside_as base d (fold (guarded_step base) calls d)" by (rule file_tools.run_inv) (rule outside_refl)
  then show ?thesis using assms by (auto simp: guarded_run outside_as_def inside_def)
qed

text \<open>What was written is read back, up to the limit of the reader.\<close>

theorem write_read:
  assumes "write_file e t path s d = (m, d')" "startswith m ''Successfully''" "length s \<le> max_chars"
  shows "read_file e t path d' = s"
proof -
  have no: "\<not> startswith (''Error'' @ x) ''Successfully''" for x by (simp add: startswith_def)
  have no': "\<not> startswith (path_error_text ''Error writing file: '' err) ''Successfully''" for err
    by (cases err) (simp_all add: path_error_text_def startswith_def)
  obtain p d1 where p: "resolve_tool_path e t path = Inr p" "put_file p s d1 = Some d'"
    using assms(1,2) no' by (auto simp: write_file_def startswith_def split: sum.splits option.splits)
  then have "dget (dk_files d') p = Some s" by (auto simp: put_file_def split: if_splits)
  then show ?thesis using p assms(3) by (simp add: read_file_def exists_path_def is_file_def dhas_def)
qed

text \<open>An edit that succeeds replaces the only occurrence of the old text.\<close>

lemma cut_at_parts: "cut_at w s = Some (a, b) \<Longrightarrow> s = a @ w @ b"
proof (induction s arbitrary: a b)
  case (Cons c s)
  show ?case
  proof (cases "startswith (c # s) w")
    case True
    then show ?thesis using Cons.prems by (auto simp: startswith_def) (metis append_take_drop_id)
  next
    case False
    then obtain a' where "cut_at w s = Some (a', b)" "a = c # a'" using Cons.prems by auto
    then show ?thesis using Cons.IH by auto
  qed
qed (auto split: if_splits)

lemma cut_at_None: "cut_at w s = None \<longleftrightarrow> \<not> str_in w s"
  by (induction s) (auto simp: startswith_def)

lemma edit_replaces:
  assumes "edit_file e t path old new d = (m, d')" "d' \<noteq> d"
  shows "\<exists>p a b. resolve_tool_path e t path = Inr p \<and> dget (dk_files d) p = Some (a @ old @ b) \<and> occurrences old (a @ old @ b) \<le> 1
    \<and> d' = d\<lparr>dk_files := dset p (a @ new @ b) (dk_files d)\<rparr>"
proof -
  obtain p s a b where p: "resolve_tool_path e t path = Inr p" "dget (dk_files d) p = Some s" "cut_at old s = Some (a, b)"
    and o: "\<not> occurrences old s > 1" "d' = d\<lparr>dk_files := dset p (a @ new @ b) (dk_files d)\<rparr>"
    using assms by (auto simp: edit_file_def split: sum.splits option.splits if_splits)
  then show ?thesis using cut_at_parts[OF p(3)] by (intro exI[of _ p] exI[of _ a] exI[of _ b]) simp
qed

lemma edit_missing_untouched:
  assumes "resolve_tool_path e t path = Inr p" "dget (dk_files d) p = Some s" "\<not> str_in old s"
  shows "edit_file e t path old new d = (not_found_message e old s path, d)"
  using assms cut_at_None[of old s] by (simp add: edit_file_def exists_path_def is_file_def dhas_def)

text \<open>An empty text occurs once in an empty file, so that editing it writes the file.\<close>

lemma empty_edit: "cut_at [] [] = Some ([], []) \<and> occurrences [] [] = 1"
  by (simp add: occurrences_def)

text \<open>The output of a command is cut to its limit and a note.\<close>

lemma clip_output_cases: "length (clip_output r) \<le> max_output \<or> (\<exists>q n. clip_output r = q @ truncated_note n \<and> length q = max_output)"
proof (cases "length r > max_output")
  case True
  then have "clip_output r = take max_output r @ truncated_note (length r - max_output)" "length (take max_output r) = max_output"
    by (simp_all add: clip_output_def)
  then show ?thesis by blast
qed (simp add: clip_output_def)

lemma exec_output_bound:
  "length (exec_output out err code) \<le> max_output
   \<or> (\<exists>q n. exec_output out err code = q @ truncated_note n \<and> length q = max_output)"
  unfolding exec_output_def Let_def by (rule clip_output_cases)

text \<open>
  A command that passes the guard of a restricted tool has no step upwards, and every word the guard takes for an absolute
  path is below the working directory.
\<close>

lemma guard_paths_inside:
  assumes "guard_command t cmd cwd = None" "ex_restrict t" "raw \<in> set (extract_absolute_paths (strip cmd))"
  shows "below (walk [] cwd) (resolve_path cwd (parse_path (strip raw))) \<and> \<not> str_in ''../'' (strip cmd)"
  using assms by (auto simp: guard_command_def Let_def list_ex_iff split: if_splits)

lemma guard_refuses_patterns:
  assumes "p \<in> set (ex_deny t)" "search p (lower (strip cmd))"
  shows "guard_command t cmd cwd = Some DangerousPattern"
  using assms by (auto simp: guard_command_def Let_def list_ex_iff)

text \<open>What the guard does not see: an option between the two letters, the home directory, a file after a smaller sign.\<close>

definition usual_exec :: exec_tool where "usual_exec = new_exec None None True (Some [''work''])"

lemma guard_examples:
  "guard_command usual_exec ''rm -rf data'' [''work''] = Some DangerousPattern"
  "guard_command usual_exec ''rm -rvf data'' [''work''] = None"
  "guard_command usual_exec ''cat /etc/passwd'' [''work''] = Some OutsideWorkdir"
  "guard_command usual_exec ''cat</etc/passwd'' [''work''] = None"
  "guard_command usual_exec ''cat ~/.ssh/id_rsa'' [''work''] = None"
  "guard_command usual_exec ''cd ..;cat secrets'' [''work''] = None"
  by code_simp+

definition plain_env :: file_env where
  "plain_env = \<lparr>fe_cwd = [''w''], fe_home = [''h''], fe_users = (\<lambda>u. None), fe_os_error = (\<lambda>p. ''denied''), fe_diff = (\<lambda>a b p n. [])\<rparr>"

definition plain_tool :: file_tool where "plain_tool = \<lparr>ft_workspace = Some [''w''], ft_allowed = None\<rparr>"

definition plain_disk :: disk where "plain_disk = \<lparr>dk_files = [([''h'', ''key''], ''secret'')], dk_dirs = [[''w''], [''h'']]\<rparr>"

theorem file_tools_confined_witness:
  "let d = fold file_step [(plain_env, plain_tool, WriteFile ''../h/key'' ''x''), (plain_env, plain_tool, WriteFile ''b/../../h/key'' ''y''),
          (plain_env, plain_tool, WriteFile ''b/../a'' ''z'')] plain_disk
   in dget (dk_files d) [''h'', ''key''] = Some ''secret'' \<and> dget (dk_files d) [''w'', ''b'', ''..'', ''a''] = None
      \<and> dget (dk_files d) [''w'', ''a''] = Some ''z''"
  (is "let d = fold file_step ?calls plain_disk in _")
proof -
  have held: "list_all (held_to [''w'']) ?calls" by (simp add: held_to_def tool_root_def plain_tool_def)
  have "dget (dk_files (fold file_step ?calls plain_disk)) [''h'', ''key''] = Some ''secret''"
    using file_tools_confined [OF held, of "[''h'', ''key'']" plain_disk] by (simp add: below_def plain_disk_def)
  moreover have "dget (dk_files (fold file_step ?calls plain_disk)) [''w'', ''b'', ''..'', ''a''] = None"
    using file_tools_confined [OF held, of "[''w'', ''b'', ''..'', ''a'']" plain_disk] by (simp add: plain_disk_def)
  moreover have "dget (dk_files (fold file_step ?calls plain_disk)) [''w'', ''a''] = Some ''z''" by code_simp
  ultimately show ?thesis by (simp only: Let_def)
qed

theorem write_read_witness:
  "\<exists>m d'. write_file plain_env plain_tool ''a'' ''text'' plain_disk = (m, d') \<and> read_file plain_env plain_tool ''a'' d' = ''text''"
proof -
  obtain m d' where w: "write_file plain_env plain_tool ''a'' ''text'' plain_disk = (m, d')" by fastforce
  have "startswith (fst (write_file plain_env plain_tool ''a'' ''text'' plain_disk)) ''Successfully''" by code_simp
  then show ?thesis using w write_read[OF w] by (simp add: max_chars_def)
qed

end
