(* ===== verification/Code_Sandbox.thy ===== *)
theory Code_Sandbox
  imports File_Tools "HOL-Library.Word"
begin

unbundle bit_operations_syntax

text \<open>
  \<open>security/sandbox.py\<close>: the seccomp program as 32-bit words, the execution of code with its fallback, the guards
  against archives, addresses and sockets, and the ephemeral directory. The kernel that runs the program, processes, name
  resolution and the splitting of URLs are parameters.
\<close>

section \<open>The seccomp program\<close>

record sock_filter =
  sf_code :: "16 word"
  sf_jt :: "8 word"
  sf_jf :: "8 word"
  sf_k :: "32 word"

definition bpf_load :: "16 word" where "bpf_load = 0x00 OR 0x00 OR 0x20"
definition bpf_jump_eq :: "16 word" where "bpf_jump_eq = 0x05 OR 0x10 OR 0x00"
definition bpf_return :: "16 word" where "bpf_return = 0x06"

definition ret_allow :: "32 word" where "ret_allow = 0x7FFF0000"
definition ret_denied :: "32 word" where "ret_denied = 0x00050000 OR 13"

definition load_at :: "32 word \<Rightarrow> sock_filter" where "load_at k = \<lparr>sf_code = bpf_load, sf_jt = 0, sf_jf = 0, sf_k = k\<rparr>"
definition jump_eq :: "8 word \<Rightarrow> 8 word \<Rightarrow> 32 word \<Rightarrow> sock_filter" where
  "jump_eq t f k = \<lparr>sf_code = bpf_jump_eq, sf_jt = t, sf_jf = f, sf_k = k\<rparr>"
definition return_k :: "32 word \<Rightarrow> sock_filter" where "return_k k = \<lparr>sf_code = bpf_return, sf_jt = 0, sf_jf = 0, sf_k = k\<rparr>"

record syscall_numbers =
  sy_execve :: "32 word"
  sy_ptrace :: "32 word"
  sy_arch :: "32 word"

definition numbers_for :: "string \<Rightarrow> syscall_numbers option" where
  "numbers_for arch =
     (if arch = ''x86_64'' then Some \<lparr>sy_execve = 59, sy_ptrace = 101, sy_arch = 0xC000003E\<rparr>
      else if arch \<in> {''aarch64'', ''arm64''} then Some \<lparr>sy_execve = 221, sy_ptrace = 117, sy_arch = 0xC00000B7\<rparr>
      else None)"

definition seccomp_filters :: "syscall_numbers \<Rightarrow> sock_filter list" where
  "seccomp_filters n =
     [load_at 4, jump_eq 1 0 (sy_arch n), return_k ret_denied, load_at 0, jump_eq 0 1 (sy_execve n), return_k ret_denied,
      jump_eq 0 1 (sy_ptrace n), return_k ret_denied, return_k ret_allow]"

text \<open>Whether the kernel took the two calls of \<open>prctl\<close> is the last two parameters.\<close>

definition apply_seccomp_filters :: "string \<Rightarrow> string \<Rightarrow> bool \<Rightarrow> bool \<Rightarrow> bool \<Rightarrow> sock_filter list option \<times> bool" where
  "apply_seccomp_filters system arch has_libc privs_ok filter_ok =
     (if system \<noteq> ''Linux'' then (None, False)
      else case numbers_for arch of
        None \<Rightarrow> (None, False)
      | Some n \<Rightarrow>
          (if \<not> has_libc \<or> \<not> privs_ok then (None, False)
           else if filter_ok then (Some (seccomp_filters n), True) else (None, False)))"

text \<open>
  What the documentation of the kernel says of the three instructions used: \<open>run p i a d\<close> is the verdict of the program
  \<open>p\<close> from the instruction \<open>i\<close> with the accumulator \<open>a\<close> on the data \<open>d\<close> of the call, the number at 0, the architecture at 4.
\<close>

definition bpf_documented :: "(sock_filter list \<Rightarrow> nat \<Rightarrow> 32 word \<Rightarrow> (32 word \<Rightarrow> 32 word) \<Rightarrow> 32 word) \<Rightarrow> bool" where
  "bpf_documented run \<longleftrightarrow>
     (\<forall>p i a d. i < length p \<longrightarrow>
        (sf_code (p ! i) = bpf_load \<longrightarrow> run p i a d = run p (i + 1) (d (sf_k (p ! i))) d)
        \<and> (sf_code (p ! i) = bpf_jump_eq \<longrightarrow> run p i a d = run p (i + 1 + unat (if a = sf_k (p ! i) then sf_jt (p ! i) else sf_jf (p ! i))) a d)
        \<and> (sf_code (p ! i) = bpf_return \<longrightarrow> run p i a d = sf_k (p ! i)))"

section \<open>Addresses\<close>

definition digit_value :: "char \<Rightarrow> nat" where
  "digit_value c = (if is_digit c then of_char c - 48 else if is_lower c then of_char c - 87 else of_char c - 55)"

definition number_in :: "nat \<Rightarrow> string \<Rightarrow> nat" where "number_in base s = foldl (\<lambda>n c. base * n + digit_value c) 0 s"

definition octet :: "string \<Rightarrow> nat option" where
  "octet s =
     (if s \<noteq> [] \<and> list_all is_digit s \<and> length s \<le> 3 \<and> \<not> (length s > 1 \<and> hd s = CHR ''0'') \<and> number_in 10 s \<le> 255
      then Some (number_in 10 s) else None)"

definition parse_v4 :: "string \<Rightarrow> 32 word option" where
  "parse_v4 s =
     (let parts = split_char CHR ''.'' s
      in if length parts \<noteq> 4 then None
         else map_option (\<lambda>ns. foldl (\<lambda>w n. push_bit 8 w OR of_nat n) 0 ns) (those (map octet parts)))"

definition hex_digit :: "char \<Rightarrow> bool" where
  "hex_digit c = (is_digit c \<or> between CHR ''a'' CHR ''f'' c \<or> between CHR ''A'' CHR ''F'' c)"

definition hextet :: "string \<Rightarrow> nat option" where
  "hextet s = (if s \<noteq> [] \<and> list_all hex_digit s \<and> length s \<le> 4 then Some (number_in 16 s) else None)"

text \<open>The parts of an address, an IPv4 address at its end as two of them.\<close>

definition v6_parts :: "string \<Rightarrow> (nat option \<times> bool) list option" where
  "v6_parts s =
     (let parts = split_char CHR '':'' s; plain = (\<lambda>ps. map (\<lambda>p. (hextet p, p = [])) ps)
      in if length parts < 3 then None
         else if CHR ''.'' \<in> set (last parts)
         then map_option (\<lambda>w. plain (butlast parts) @ [(Some (unat (drop_bit 16 w)), False), (Some (unat (w AND 0xFFFF)), False)]) (parse_v4 (last parts))
         else Some (plain parts))"

definition join_hextets :: "nat option list \<Rightarrow> nat \<Rightarrow> nat option list \<Rightarrow> 128 word option" where
  "join_hextets hi skipped lo =
     map_option (\<lambda>ns. foldl (\<lambda>w n. push_bit 16 w OR of_nat n) 0 ns) (those (hi @ replicate skipped (Some 0) @ lo))"

definition parse_v6_plain :: "string \<Rightarrow> 128 word option" where
  "parse_v6_plain s =
     (case v6_parts s of
        None \<Rightarrow> None
      | Some ps \<Rightarrow>
          (let gaps = filter (\<lambda>i. snd (ps ! i)) [1..<length ps - 1]
           in if length ps > 9 \<or> length gaps > 1 then None
              else case gaps of
                [] \<Rightarrow> if length ps \<noteq> 8 then None else join_hextets (map fst ps) 0 []
              | g # _ \<Rightarrow>
                  (let hi = (if snd (hd ps) then g - 1 else g); lo = (if snd (last ps) then length ps - g - 2 else length ps - g - 1)
                   in if snd (hd ps) \<and> hi > 0 \<or> snd (last ps) \<and> lo > 0 \<or> hi + lo \<ge> 8 then None
                      else join_hextets (map fst (take hi ps)) (8 - (hi + lo)) (map fst (drop (length ps - lo) ps)))))"

definition parse_v6 :: "string \<Rightarrow> 128 word option" where
  "parse_v6 s =
     (let addr = takeWhile (\<lambda>c. c \<noteq> CHR ''%'') s; scope = drop (length addr) s
      in if CHR ''/'' \<in> set s \<or> scope \<noteq> [] \<and> (tl scope = [] \<or> CHR ''%'' \<in> set (tl scope)) then None else parse_v6_plain addr)"

definition v4_networks :: "(32 word \<times> nat) list" where
  "v4_networks =
     [(0x00000000, 8), (0x0A000000, 8), (0x64400000, 10), (0x7F000000, 8), (0xA9FE0000, 16), (0xAC100000, 12), (0xC0A80000, 16),
      (0xE0000000, 4), (0xF0000000, 4)]"

definition v6_networks :: "(128 word \<times> nat) list" where
  "v6_networks = [(1, 128), (0xFE80 * 2 ^ 112, 10), (0xFC00 * 2 ^ 112, 7)]"

definition in_v4 :: "32 word \<Rightarrow> 32 word \<times> nat \<Rightarrow> bool" where "in_v4 ip net = (drop_bit (32 - snd net) ip = drop_bit (32 - snd net) (fst net))"

definition in_v6 :: "128 word \<Rightarrow> 128 word \<times> nat \<Rightarrow> bool" where "in_v6 ip net = (drop_bit (128 - snd net) ip = drop_bit (128 - snd net) (fst net))"

definition is_forbidden_ip :: "string \<Rightarrow> bool" where
  "is_forbidden_ip s =
     (case parse_v4 s of
        Some ip \<Rightarrow> list_ex (in_v4 ip) v4_networks
      | None \<Rightarrow> (case parse_v6 s of Some ip \<Rightarrow> list_ex (in_v6 ip) v6_networks | None \<Rightarrow> True))"

definition forbidden_hostnames :: "string list" where
  "forbidden_hostnames = [''instance-data'', ''metadata.google.internal'', ''metadata'', ''169.254.169.254'', ''169.254.170.2'']"

text \<open>The resolver gives the addresses of a name, or fails.\<close>

definition verify_destination_host :: "(string \<Rightarrow> string list option) \<Rightarrow> string \<Rightarrow> bool" where
  "verify_destination_host resolver host =
     (let cleaned = lower (strip host)
      in if cleaned \<in> set forbidden_hostnames then False
         else case resolver cleaned of None \<Rightarrow> False | Some ips \<Rightarrow> ips \<noteq> [] \<and> \<not> list_ex is_forbidden_ip ips)"

datatype redirect_error = BadScheme string | NoHost | ForbiddenHost string

definition verify_redirect_url ::
  "(string \<Rightarrow> string \<times> string option) \<Rightarrow> (string \<Rightarrow> string list option) \<Rightarrow> string \<Rightarrow> redirect_error + string" where
  "verify_redirect_url split_url resolver url =
     (case split_url url of (scheme, host) \<Rightarrow>
        if scheme \<notin> {''http'', ''https''} then Inl (BadScheme scheme)
        else case host of
          Some (c # cs) \<Rightarrow> if verify_destination_host resolver (c # cs) then Inr url else Inl (ForbiddenHost (c # cs))
        | _ \<Rightarrow> Inl NoHost)"

definition forbidden_socket_names :: "string list" where
  "forbidden_socket_names = [''docker.sock'', ''containerd.sock'', ''dockershim.sock'', ''crio.sock'', ''podman.sock'']"

definition is_host_socket_path :: "string \<Rightarrow> bool" where
  "is_host_socket_path p = list_ex (\<lambda>n. str_in n (lower p)) forbidden_socket_names"

section \<open>Archives\<close>

record zip_member =
  zi_name :: string
  zi_size :: nat
  zi_packed :: nat
  zi_attr :: "32 word"
  zi_data :: string

datatype archive_error =
    TooManyFiles | TooLarge | BombRatio rat | Slip string | LinkInside string | WriteFailed location

text \<open>\<open>stat.S_ISLNK(external_attr >> 16)\<close>.\<close>

definition is_link_attr :: "32 word \<Rightarrow> bool" where "is_link_attr a = (drop_bit 16 a AND 0xF000 = 0xA000)"

definition archive_target :: "location \<Rightarrow> string \<Rightarrow> location" where
  "archive_target dest name = resolve_path [] (join_path (at_location dest) name)"

definition store_member :: "location \<Rightarrow> string \<Rightarrow> disk \<Rightarrow> disk option" where
  "store_member p s d = Option.bind (make_dirs (butlast p) d) (put_file p s)"

record extraction =
  xt_disk :: disk
  xt_paths :: "location list"
  xt_total :: nat
  xt_packed :: nat

definition zip_check :: "location \<Rightarrow> nat \<Rightarrow> rat \<Rightarrow> zip_member \<Rightarrow> extraction \<Rightarrow> archive_error option" where
  "zip_check dest max_bytes max_ratio m x =
     (let total = xt_total x + zi_size m; packed = xt_packed x + max (zi_packed m) 1; ratio = of_nat total / of_nat packed
      in if total > max_bytes then Some TooLarge
         else if total > 1024 * 1024 \<and> ratio > max_ratio then Some (BombRatio ratio)
         else if \<not> below dest (archive_target dest (zi_name m)) then Some (Slip (zi_name m))
         else if is_link_attr (zi_attr m) then Some (LinkInside (zi_name m)) else None)"

definition zip_member_step :: "location \<Rightarrow> zip_member \<Rightarrow> extraction \<Rightarrow> archive_error option \<times> extraction" where
  "zip_member_step dest m x =
     (let p = archive_target dest (zi_name m)
      in if endswith (zi_name m) ''/''
         then (case make_dirs p (xt_disk x) of None \<Rightarrow> (Some (WriteFailed p), x) | Some d \<Rightarrow> (None, x\<lparr>xt_disk := d\<rparr>))
         else (case store_member p (zi_data m) (xt_disk x) of
                 None \<Rightarrow> (Some (WriteFailed p), x) | Some d \<Rightarrow> (None, x\<lparr>xt_disk := d, xt_paths := xt_paths x @ [p]\<rparr>)))"

text \<open>Members in order; what was extracted before a member that is refused stays.\<close>

fun zip_members :: "location \<Rightarrow> nat \<Rightarrow> rat \<Rightarrow> zip_member list \<Rightarrow> extraction \<Rightarrow> archive_error option \<times> extraction" where
  "zip_members dest max_bytes max_ratio [] x = (None, x)"
| "zip_members dest max_bytes max_ratio (m # ms) x =
     (case zip_check dest max_bytes max_ratio m x of
        Some err \<Rightarrow> (Some err, x)
      | None \<Rightarrow>
          (case zip_member_step dest m (x\<lparr>xt_total := xt_total x + zi_size m, xt_packed := xt_packed x + max (zi_packed m) 1\<rparr>) of
             (Some err, x') \<Rightarrow> (Some err, x') | (None, x') \<Rightarrow> zip_members dest max_bytes max_ratio ms x'))"

definition start_extraction :: "location \<Rightarrow> disk \<Rightarrow> extraction option" where
  "start_extraction dest d = map_option (\<lambda>d. \<lparr>xt_disk = d, xt_paths = [], xt_total = 0, xt_packed = 0\<rparr>) (make_dirs dest d)"

definition extract_zip ::
  "location \<Rightarrow> nat \<Rightarrow> nat \<Rightarrow> rat \<Rightarrow> zip_member list \<Rightarrow> disk \<Rightarrow> (archive_error + location list) \<times> disk" where
  "extract_zip target max_bytes max_files max_ratio ms d =
     (let dest = walk [] target
      in case start_extraction dest d of
           None \<Rightarrow> (Inl (WriteFailed dest), d)
         | Some x \<Rightarrow>
             (if length ms > max_files then (Inl TooManyFiles, xt_disk x)
              else case zip_members dest max_bytes max_ratio ms x of
                (Some err, x') \<Rightarrow> (Inl err, xt_disk x') | (None, x') \<Rightarrow> (Inr (xt_paths x'), xt_disk x')))"

text \<open>A member of a tar archive without content, such as a device, has \<open>None\<close> for its data.\<close>

record tar_member =
  ta_name :: string
  ta_size :: nat
  ta_dir :: bool
  ta_link :: bool
  ta_data :: "string option"

definition tar_member_step :: "location \<Rightarrow> tar_member \<Rightarrow> extraction \<Rightarrow> archive_error option \<times> extraction" where
  "tar_member_step dest m x =
     (let p = archive_target dest (ta_name m)
      in if ta_dir m
         then (case make_dirs p (xt_disk x) of None \<Rightarrow> (Some (WriteFailed p), x) | Some d \<Rightarrow> (None, x\<lparr>xt_disk := d\<rparr>))
         else case make_dirs (butlast p) (xt_disk x) of
                None \<Rightarrow> (Some (WriteFailed p), x)
              | Some d \<Rightarrow>
                  (case ta_data m of
                     None \<Rightarrow> (None, x\<lparr>xt_disk := d, xt_paths := xt_paths x @ [p]\<rparr>)
                   | Some s \<Rightarrow>
                       (case put_file p s d of
                          None \<Rightarrow> (Some (WriteFailed p), x\<lparr>xt_disk := d\<rparr>)
                        | Some d' \<Rightarrow> (None, x\<lparr>xt_disk := d', xt_paths := xt_paths x @ [p]\<rparr>))))"

fun tar_members :: "location \<Rightarrow> nat \<Rightarrow> nat \<Rightarrow> tar_member list \<Rightarrow> extraction \<Rightarrow> archive_error option \<times> extraction" where
  "tar_members dest max_bytes left [] x = (None, x)"
| "tar_members dest max_bytes left (m # ms) x =
     (if left = 0 then (Some TooManyFiles, x)
      else if xt_total x + ta_size m > max_bytes then (Some TooLarge, x)
      else if \<not> below dest (archive_target dest (ta_name m)) then (Some (Slip (ta_name m)), x)
      else if ta_link m then (Some (LinkInside (ta_name m)), x)
      else case tar_member_step dest m (x\<lparr>xt_total := xt_total x + ta_size m\<rparr>) of
             (Some err, x') \<Rightarrow> (Some err, x') | (None, x') \<Rightarrow> tar_members dest max_bytes (left - 1) ms x')"

definition extract_tar :: "location \<Rightarrow> nat \<Rightarrow> nat \<Rightarrow> tar_member list \<Rightarrow> disk \<Rightarrow> (archive_error + location list) \<times> disk" where
  "extract_tar target max_bytes max_files ms d =
     (let dest = walk [] target
      in case start_extraction dest d of
           None \<Rightarrow> (Inl (WriteFailed dest), d)
         | Some x \<Rightarrow>
             (case tar_members dest max_bytes max_files ms x of
                (Some err, x') \<Rightarrow> (Inl err, xt_disk x') | (None, x') \<Rightarrow> (Inr (xt_paths x'), xt_disk x')))"

section \<open>The ephemeral directory\<close>

type_synonym ephemeral_dir = "location option"

datatype ephemeral_error = NotInitialized | Escapes string

definition enter_ephemeral :: "location \<Rightarrow> ephemeral_dir \<Rightarrow> ephemeral_dir" where "enter_ephemeral tmp s = Some (walk [] tmp)"

definition exit_ephemeral :: "ephemeral_dir \<Rightarrow> ephemeral_dir" where "exit_ephemeral s = None"

definition resolve_safe_path :: "string \<Rightarrow> ephemeral_dir \<Rightarrow> ephemeral_error + location" where
  "resolve_safe_path relative s =
     (case s of
        None \<Rightarrow> Inl NotInitialized
      | Some p \<Rightarrow> (let q = archive_target p relative in if below p q then Inr q else Inl (Escapes relative)))"

section \<open>Running code\<close>

record execution_result =
  er_stdout :: string
  er_stderr :: string
  er_exit :: int
  er_time :: rat

datatype local_run = Finished string string "int option" rat | LateRun string string | BrokenRun string

text \<open>\<open>docker\<close> is absent, fails, or answers; the local run is only made when there is no answer.\<close>

definition local_result :: "nat \<Rightarrow> local_run \<Rightarrow> execution_result" where
  "local_result timeout r =
     (case r of
        Finished out err code ms \<Rightarrow> \<lparr>er_stdout = out, er_stderr = err, er_exit = (case code of Some c \<Rightarrow> c | None \<Rightarrow> 0), er_time = ms\<rparr>
      | LateRun out err \<Rightarrow>
          \<lparr>er_stdout = out, er_stderr = err @ newline # ''Timeout Error: Exceeded '' @ show_nat timeout @ '' seconds.'', er_exit = -1,
           er_time = of_nat timeout * 1000\<rparr>
      | BrokenRun x \<Rightarrow> \<lparr>er_stdout = [], er_stderr = x, er_exit = 1, er_time = 0\<rparr>)"

definition execute_in_sandbox :: "nat \<Rightarrow> execution_result option option \<Rightarrow> (unit \<Rightarrow> local_run) \<Rightarrow> execution_result" where
  "execute_in_sandbox timeout docker local_code =
     (case docker of Some (Some r) \<Rightarrow> r | _ \<Rightarrow> local_result timeout (local_code ()))"

text \<open>The environment of the local run of Python code.\<close>

definition python_env :: "string \<Rightarrow> (string, string) pydict option \<Rightarrow> (string, string) pydict \<Rightarrow> (string, string) pydict" where
  "python_env parent vars os_environ =
     (let env = (case vars of Some (x # xs) \<Rightarrow> x # xs | _ \<Rightarrow> os_environ)
      in dset ''PYTHONPATH'' (parent @ (case dget env ''PYTHONPATH'' of Some (c # cs) \<Rightarrow> CHR '':'' # c # cs | _ \<Rightarrow> [])) env)"

text \<open>The four probes of the escape tests.\<close>

definition run_all_checks :: "execution_result \<Rightarrow> (string \<Rightarrow> string list option) \<Rightarrow> (string, bool) pydict" where
  "run_all_checks probe resolver =
     [(''filesystem_containment'', str_in ''PASS'' (er_stdout probe)),
      (''host_socket_blocked'', is_host_socket_path ''/var/run/docker.sock''),
      (''cloud_metadata_blocked'', \<not> verify_destination_host resolver ''169.254.169.254''),
      (''private_ip_blocked'', \<not> verify_destination_host resolver ''127.0.0.1'')]"

section \<open>Properties\<close>

lemma seccomp_steps:
  assumes "bpf_documented run" "i < length p"
  shows "sf_code (p ! i) = bpf_load \<Longrightarrow> run p i a d = run p (i + 1) (d (sf_k (p ! i))) d"
    and "sf_code (p ! i) = bpf_jump_eq \<Longrightarrow> run p i a d = run p (i + 1 + unat (if a = sf_k (p ! i) then sf_jt (p ! i) else sf_jf (p ! i))) a d"
    and "sf_code (p ! i) = bpf_return \<Longrightarrow> run p i a d = sf_k (p ! i)"
  using assms unfolding bpf_documented_def by blast+

lemma seccomp_codes: "bpf_load \<noteq> bpf_jump_eq" "bpf_return \<noteq> bpf_jump_eq" "bpf_load \<noteq> bpf_return"
  by (simp_all add: bpf_load_def bpf_jump_eq_def bpf_return_def)

text \<open>
  C11. On any data of a call the program denies every call of another architecture and the two it is to block, and lets pass all
  others; a call of the x32 kind, which has the same architecture and one more bit in its number, is such another.
\<close>

theorem seccomp_verdict:
  assumes "bpf_documented run"
  shows "run (seccomp_filters n) 0 a d = (if d 4 = sy_arch n \<and> d 0 \<notin> {sy_execve n, sy_ptrace n} then ret_allow else ret_denied)"
proof -
  let ?p = "seccomp_filters n"
  note step = seccomp_steps[OF assms, of _ ?p]
  have len: "length ?p = 9" by (simp add: seccomp_filters_def)
  have at: "?p ! Suc 0 = jump_eq 1 0 (sy_arch n)" "?p ! 0 = load_at 4" "?p ! 2 = return_k ret_denied" "?p ! 3 = load_at 0"
    "?p ! 4 = jump_eq 0 1 (sy_execve n)" "?p ! 5 = return_k ret_denied" "?p ! 6 = jump_eq 0 1 (sy_ptrace n)"
    "?p ! 7 = return_k ret_denied" "?p ! 8 = return_k ret_allow"
    by (simp_all add: seccomp_filters_def eval_nat_numeral)
  have ret: "run ?p 2 x d = ret_denied" "run ?p 5 x d = ret_denied" "run ?p 7 x d = ret_denied" "run ?p 8 x d = ret_allow" for x
    using step(3)[of 2 x d] step(3)[of 5 x d] step(3)[of 7 x d] step(3)[of 8 x d] by (simp_all add: len at return_k_def)
  have "run ?p 6 x d = (if x = sy_ptrace n then ret_denied else ret_allow)" for x
    using step(2)[of 6 x d] ret by (simp add: len at jump_eq_def)
  then have "run ?p 4 x d = (if x \<in> {sy_execve n, sy_ptrace n} then ret_denied else ret_allow)" for x
    using step(2)[of 4 x d] ret by (simp add: len at jump_eq_def)
  then have "run ?p 3 x d = (if d 0 \<in> {sy_execve n, sy_ptrace n} then ret_denied else ret_allow)" for x
    using step(1)[of 3 x d] by (simp add: len at load_at_def)
  then have "run ?p 1 x d = (if x = sy_arch n \<and> d 0 \<notin> {sy_execve n, sy_ptrace n} then ret_allow else ret_denied)" for x
    using step(2)[of "Suc 0" x d] ret by (simp add: len at(1) jump_eq_def flip: numeral_2_eq_2 numeral_3_eq_3)
  then show ?thesis using step(1)[of 0 a d] by (simp add: len at load_at_def)
qed


text \<open>The three instructions run as documented: a run after the end of the program, which the kernel refuses to load, is a denial.\<close>

function bpf_run :: "sock_filter list \<Rightarrow> nat \<Rightarrow> 32 word \<Rightarrow> (32 word \<Rightarrow> 32 word) \<Rightarrow> 32 word" where
  "bpf_run p i a d =
     (if i \<ge> length p then ret_denied
      else if sf_code (p ! i) = bpf_load then bpf_run p (i + 1) (d (sf_k (p ! i))) d
      else if sf_code (p ! i) = bpf_jump_eq
        then bpf_run p (i + 1 + unat (if a = sf_k (p ! i) then sf_jt (p ! i) else sf_jf (p ! i))) a d
      else sf_k (p ! i))"
  by pat_completeness auto
termination by (relation "measure (\<lambda>(p, i, a, d). length p - i)") auto

declare bpf_run.simps [simp del]

lemma bpf_run_documented: "bpf_documented bpf_run"
  unfolding bpf_documented_def by (intro allI impI conjI; subst bpf_run.simps; use seccomp_codes in auto)

definition x86_numbers :: syscall_numbers where "x86_numbers = \<lparr>sy_execve = 59, sy_ptrace = 101, sy_arch = 0xC000003E\<rparr>"

theorem seccomp_verdict_witness:
  "bpf_run (seccomp_filters x86_numbers) 0 0 (\<lambda>k. if k = 4 then 0xC000003E else 59) = ret_denied"
  using seccomp_verdict[OF bpf_run_documented, of x86_numbers 0 "\<lambda>k. if k = 4 then 0xC000003E else 59"] by (simp add: x86_numbers_def)

text \<open>The same call by its x32 number, with bit 30 set, passes.\<close>

lemma x32_execve_passes:
  "bpf_run (seccomp_filters x86_numbers) 0 0 (\<lambda>k. if k = 4 then 0xC000003E else 59 OR 0x40000000) = ret_allow"
  using seccomp_verdict[OF bpf_run_documented, of x86_numbers 0 "\<lambda>k. if k = 4 then 0xC000003E else 59 OR 0x40000000"]
  by (simp add: x86_numbers_def)

lemma archive_target_inside: "below (walk [] target) (archive_target (walk [] target) name) \<Longrightarrow> inside target (archive_target (walk [] target) name)"
  using resolved_no_dots by (simp add: inside_def archive_target_def)

definition held_below :: "location \<Rightarrow> disk \<Rightarrow> extraction \<Rightarrow> bool" where
  "held_below target d0 x \<longleftrightarrow> outside_as target d0 (xt_disk x) \<and> list_all (inside target) (xt_paths x)"

lemma member_dirs: "make_dirs p d = Some d' \<Longrightarrow> inside target p \<Longrightarrow> outside_as target d0 d \<Longrightarrow> outside_as target d0 d'"
  using outside_dirs outside_trans by blast

lemma member_parent: "make_dirs (butlast p) d = Some d' \<Longrightarrow> inside target p \<Longrightarrow> outside_as target d0 d \<Longrightarrow> outside_as target d0 d'"
  using outside_parent outside_trans by blast

lemma member_put: "put_file p s d = Some d' \<Longrightarrow> inside target p \<Longrightarrow> outside_as target d0 d \<Longrightarrow> outside_as target d0 d'"
  using outside_put outside_trans by blast

lemma member_stored: "store_member p s d = Some d' \<Longrightarrow> inside target p \<Longrightarrow> outside_as target d0 d \<Longrightarrow> outside_as target d0 d'"
  unfolding store_member_def bind_eq_Some_conv using member_parent member_put by blast

lemma zip_step_held:
  assumes "held_below target d0 x" "below (walk [] target) (archive_target (walk [] target) (zi_name m))"
  shows "held_below target d0 (snd (zip_member_step (walk [] target) m x))"
  using assms archive_target_inside [OF assms(2)]
  by (auto simp: held_below_def zip_member_step_def Let_def intro: member_dirs member_stored split: option.splits)

lemma tar_step_held:
  assumes "held_below target d0 x" "below (walk [] target) (archive_target (walk [] target) (ta_name m))"
  shows "held_below target d0 (snd (tar_member_step (walk [] target) m x))"
  using assms archive_target_inside [OF assms(2)]
  by (auto simp: held_below_def tar_member_step_def Let_def intro: member_dirs member_parent member_put split: option.splits)

lemma held_below_counts: "held_below target d0 (x\<lparr>xt_total := n\<rparr>) = held_below target d0 x"
  "held_below target d0 (x\<lparr>xt_total := n, xt_packed := k\<rparr>) = held_below target d0 x"
  by (simp_all add: held_below_def)

lemma zip_members_held:
  "held_below target d0 x \<Longrightarrow> held_below target d0 (snd (zip_members (walk [] target) b r ms x))"
proof (induction ms arbitrary: x)
  case (Cons m ms)
  let ?y = "x\<lparr>xt_total := xt_total x + zi_size m, xt_packed := xt_packed x + max (zi_packed m) 1\<rparr>"
  show ?case
  proof (cases "zip_check (walk [] target) b r m x")
    case None
    then have "below (walk [] target) (archive_target (walk [] target) (zi_name m))"
      by (auto simp: zip_check_def Let_def split: if_splits)
    then have "held_below target d0 (snd (zip_member_step (walk [] target) m ?y))"
      using zip_step_held[of target d0 ?y m] Cons.prems by (simp only: held_below_counts)
    then show ?thesis using None Cons.IH by (auto split: prod.splits option.splits)
  qed (use Cons.prems in simp)
qed simp

lemma tar_members_held:
  "held_below target d0 x \<Longrightarrow> held_below target d0 (snd (tar_members (walk [] target) b k ms x))"
proof (induction ms arbitrary: x k)
  case (Cons m ms)
  let ?y = "x\<lparr>xt_total := xt_total x + ta_size m\<rparr>"
  have "held_below target d0 (snd (tar_member_step (walk [] target) m ?y))"
    if "below (walk [] target) (archive_target (walk [] target) (ta_name m))"
    using tar_step_held[OF _ that, of d0 ?y] Cons.prems by (simp only: held_below_counts)
  then show ?case using Cons.prems Cons.IH by (auto split: prod.splits option.splits)
qed simp

lemma start_held: "start_extraction (walk [] target) d = Some x \<Longrightarrow> held_below target d x"
  using outside_dirs [of "walk [] target" d _ target] by (auto simp: start_extraction_def held_below_def below_def)

lemma extract_zip_outside: "outside_as target d (snd (extract_zip target b k r ms d))"
proof (cases "start_extraction (walk [] target) d")
  case (Some x)
  note held = start_held [OF Some]
  have "outside_as target d (xt_disk (snd (zip_members (walk [] target) b r ms x)))"
    using zip_members_held [OF held] by (simp add: held_below_def)
  then show ?thesis using Some held by (auto simp: extract_zip_def held_below_def Let_def split: prod.splits option.splits)
qed (simp add: extract_zip_def outside_refl)

lemma extract_tar_outside: "outside_as target d (snd (extract_tar target b k ts d))"
proof (cases "start_extraction (walk [] target) d")
  case (Some x)
  have "outside_as target d (xt_disk (snd (tar_members (walk [] target) b k ts x)))"
    using tar_members_held [OF start_held [OF Some]] by (simp add: held_below_def)
  then show ?thesis using Some by (auto simp: extract_tar_def Let_def split: prod.splits option.splits)
qed (simp add: extract_tar_def outside_refl)

text \<open>The type of a file is in the four highest bits of the attributes; that of a symbolic link is 10.\<close>

lemma is_link_type: "is_link_attr a \<longleftrightarrow> drop_bit 28 a = 10"
proof -
  have mask: "(0xF000 :: 32 word) = push_bit 12 (mask 4)" by (simp add: mask_eq_exp_minus_1 push_bit_eq_mult)
  have "drop_bit 16 a AND 0xF000 = push_bit 12 (drop_bit 28 a)"
    unfolding mask by (rule bit_word_eqI) (auto simp: bit_simps dest: bit_imp_le_length)
  moreover have "drop_bit 12 (push_bit 12 (drop_bit 28 a)) = drop_bit 28 a"
    by (rule bit_word_eqI) (auto simp: bit_simps dest: bit_imp_le_length)
  moreover have "drop_bit 12 (0xA000 :: 32 word) = 10" "push_bit 12 (10 :: 32 word) = 0xA000" by simp_all
  ultimately show ?thesis unfolding is_link_attr_def by metis
qed

lemma zip_members_done:
  assumes "zip_members dest b r ms x = (None, x')"
  shows "list_all (\<lambda>m. drop_bit 28 (zi_attr m) \<noteq> 10) ms
    \<and> xt_paths x' = xt_paths x @ map (\<lambda>m. archive_target dest (zi_name m)) (filter (\<lambda>m. \<not> endswith (zi_name m) ''/'') ms)"
  using assms
proof (induction ms arbitrary: x)
  case (Cons m ms)
  let ?y = "x\<lparr>xt_total := xt_total x + zi_size m, xt_packed := xt_packed x + max (zi_packed m) 1\<rparr>"
  obtain y where y: "zip_member_step dest m ?y = (None, y)" "zip_members dest b r ms y = (None, x')" "\<not> is_link_attr (zi_attr m)"
    using Cons.prems by (auto simp: zip_check_def Let_def split: option.splits prod.splits if_splits)
  have "xt_paths y = xt_paths x @ (if endswith (zi_name m) ''/'' then [] else [archive_target dest (zi_name m)])"
    using y(1) by (auto simp: zip_member_step_def Let_def split: if_splits option.splits)
  then show ?case using Cons.IH [OF y(2)] y(3) by (simp add: is_link_type)
qed simp

lemma tar_members_done:
  assumes "tar_members dest b k ts x = (None, x')"
  shows "list_all (\<lambda>m. \<not> ta_link m) ts
    \<and> xt_paths x' = xt_paths x @ map (\<lambda>m. archive_target dest (ta_name m)) (filter (\<lambda>m. \<not> ta_dir m) ts)"
  using assms
proof (induction ts arbitrary: x k)
  case (Cons m ts)
  obtain y where y: "tar_member_step dest m (x\<lparr>xt_total := xt_total x + ta_size m\<rparr>) = (None, y)"
      "tar_members dest b (k - 1) ts y = (None, x')" "\<not> ta_link m"
    using Cons.prems by (auto simp: Let_def split: option.splits prod.splits if_splits)
  have "xt_paths y = xt_paths x @ (if ta_dir m then [] else [archive_target dest (ta_name m)])"
    using y(1) by (auto simp: tar_member_step_def Let_def split: if_splits option.splits)
  then show ?case using Cons.IH [OF y(2)] y(3) by simp
qed simp

lemma extract_zip_done:
  assumes "fst (extract_zip target b k r ms d) = Inr ps"
  shows "list_all (\<lambda>m. drop_bit 28 (zi_attr m) \<noteq> 10) ms
    \<and> ps = map (\<lambda>m. archive_target (walk [] target) (zi_name m)) (filter (\<lambda>m. \<not> endswith (zi_name m) ''/'') ms)"
  using assms zip_members_done [of "walk [] target" b r ms]
  by (fastforce simp: extract_zip_def start_extraction_def Let_def split: option.splits prod.splits if_splits)

lemma extract_tar_done:
  assumes "fst (extract_tar target b k ts d) = Inr ps"
  shows "list_all (\<lambda>m. \<not> ta_link m) ts \<and> ps = map (\<lambda>m. archive_target (walk [] target) (ta_name m)) (filter (\<lambda>m. \<not> ta_dir m) ts)"
  using assms tar_members_done [of "walk [] target" b k ts]
  by (fastforce simp: extract_tar_def start_extraction_def Let_def split: option.splits prod.splits)

lemma extract_zip_inside:
  assumes "fst (extract_zip target b k r ms d) = Inr ps" shows "list_all (inside target) ps"
proof -
  obtain x x' where x: "start_extraction (walk [] target) d = Some x" "zip_members (walk [] target) b r ms x = (None, x')" "ps = xt_paths x'"
    using assms by (auto simp: extract_zip_def Let_def split: option.splits prod.splits if_splits)
  then show ?thesis using zip_members_held [OF start_held [OF x(1)], of b r ms] by (simp add: held_below_def)
qed

lemma extract_tar_inside:
  assumes "fst (extract_tar target b k ts d) = Inr ps" shows "list_all (inside target) ps"
proof -
  obtain x x' where x: "start_extraction (walk [] target) d = Some x" "tar_members (walk [] target) b k ts x = (None, x')" "ps = xt_paths x'"
    using assms by (auto simp: extract_tar_def Let_def split: option.splits prod.splits if_splits)
  then show ?thesis using tar_members_held [OF start_held [OF x(1)], of b k ts] by (simp add: held_below_def)
qed

lemma strays: "\<not> below (walk [] target) q \<or> ''..'' \<in> set q \<Longrightarrow> \<not> inside target q"
  by (auto simp: inside_def)

text \<open>
  C25. An archive is unpacked inside its directory: whatever the names of its members and whether it is refused half-way or
  not, no file that is not below the directory changes, no name with a step upwards is written, and no directory changes
  but those that lead to it. An archive that is accepted has no member that is a link, and the paths reported are those its
  members' names lead to.
\<close>

theorem archive_confined:
  assumes "\<not> below (walk [] target) q \<or> ''..'' \<in> set q"
  shows "dget (dk_files (snd (extract_zip target b k r ms d))) q = dget (dk_files d) q
    \<and> dget (dk_files (snd (extract_tar target b k ts d))) q = dget (dk_files d) q
    \<and> (\<not> below q (walk [] target) \<longrightarrow>
      is_dir (snd (extract_zip target b k r ms d)) q = is_dir d q \<and> is_dir (snd (extract_tar target b k ts d)) q = is_dir d q)
    \<and> (fst (extract_zip target b k r ms d) = Inr ps \<longrightarrow>
      (\<forall>m \<in> set ms. drop_bit 28 (zi_attr m) \<noteq> 10) \<and> q \<notin> set ps
      \<and> ps = map (\<lambda>m. archive_target (walk [] target) (zi_name m)) (filter (\<lambda>m. \<not> endswith (zi_name m) ''/'') ms))
    \<and> (fst (extract_tar target b k ts d) = Inr ps \<longrightarrow>
      (\<forall>m \<in> set ts. \<not> ta_link m) \<and> q \<notin> set ps
      \<and> ps = map (\<lambda>m. archive_target (walk [] target) (ta_name m)) (filter (\<lambda>m. \<not> ta_dir m) ts))"
proof -
  note q = strays [OF assms]
  have r1: "dget (dk_files (snd (extract_zip target b k r ms d))) q = dget (dk_files d) q"
    using q extract_zip_outside [of target d b k r ms] by (simp add: outside_as_def)
  have r2: "dget (dk_files (snd (extract_tar target b k ts d))) q = dget (dk_files d) q"
    using q extract_tar_outside [of target d b k ts] by (simp add: outside_as_def)
  have r3: "is_dir (snd (extract_zip target b k r ms d)) q = is_dir d q \<and> is_dir (snd (extract_tar target b k ts d)) q = is_dir d q"
    if "\<not> below q (walk [] target)"
    using q that extract_zip_outside [of target d b k r ms] extract_tar_outside [of target d b k ts] by (simp add: outside_as_def)
  have r4: "(\<forall>m \<in> set ms. drop_bit 28 (zi_attr m) \<noteq> 10) \<and> q \<notin> set ps
      \<and> ps = map (\<lambda>m. archive_target (walk [] target) (zi_name m)) (filter (\<lambda>m. \<not> endswith (zi_name m) ''/'') ms)"
    if "fst (extract_zip target b k r ms d) = Inr ps"
    using extract_zip_done [OF that] extract_zip_inside [OF that] q by (auto simp: list_all_iff)
  have r5: "(\<forall>m \<in> set ts. \<not> ta_link m) \<and> q \<notin> set ps
      \<and> ps = map (\<lambda>m. archive_target (walk [] target) (ta_name m)) (filter (\<lambda>m. \<not> ta_dir m) ts)"
    if "fst (extract_tar target b k ts d) = Inr ps"
    using extract_tar_done [OF that] extract_tar_inside [OF that] q by (auto simp: list_all_iff)
  show ?thesis by (intro conjI [OF r1] conjI [OF r2] conjI [OF impI [OF r3]] conjI [OF impI [OF r4]] impI [OF r5]) assumption+
qed

definition slip_zip :: "zip_member list" where
  "slip_zip = [\<lparr>zi_name = ''../etc/passwd'', zi_size = 1, zi_packed = 1, zi_attr = 0, zi_data = ''x''\<rparr>]"

definition plain_zip :: "zip_member list" where
  "plain_zip = [\<lparr>zi_name = ''a/../b'', zi_size = 1, zi_packed = 1, zi_attr = 0x81A40000, zi_data = ''x''\<rparr>]"

definition etc_disk :: disk where "etc_disk = \<lparr>dk_files = [([''etc'', ''passwd''], ''root'')], dk_dirs = [[''etc'']]\<rparr>"

lemma slip_places:
  "archive_target [''tmp''] ''../etc/passwd'' = [''etc'', ''passwd'']" "archive_target [''tmp''] ''a/../b'' = [''tmp'', ''b'']"
  by code_simp+

theorem archive_confined_witness:
  "dget (dk_files (snd (extract_zip [''tmp''] 100 10 100 slip_zip etc_disk))) [''etc'', ''passwd''] = Some ''root''
   \<and> fst (extract_zip [''tmp''] 100 10 100 slip_zip etc_disk) = Inl (Slip ''../etc/passwd'')
   \<and> fst (extract_zip [''tmp''] 100 10 100 plain_zip etc_disk) = Inr [[''tmp'', ''b'']]
   \<and> dget (dk_files (snd (extract_zip [''tmp''] 100 10 100 plain_zip etc_disk))) [''tmp'', ''a'', ''..'', ''b''] = None"
proof -
  have "dget (dk_files (snd (extract_zip [''tmp''] 100 10 100 slip_zip etc_disk))) [''etc'', ''passwd''] = Some ''root''"
    using archive_confined [of "[''tmp'']" "[''etc'', ''passwd'']" 100 10 100 slip_zip etc_disk] by (simp add: below_def etc_disk_def)
  moreover have "fst (extract_zip [''tmp''] 100 10 100 slip_zip etc_disk) = Inl (Slip ''../etc/passwd'')"
    by (simp add: extract_zip_def start_extraction_def zip_check_def slip_zip_def slip_places make_dirs_def ancestors_def is_file_def
        dhas_def etc_disk_def below_def)
  moreover have "fst (extract_zip [''tmp''] 100 10 100 plain_zip etc_disk) = Inr [[''tmp'', ''b'']]"
    by (simp add: extract_zip_def start_extraction_def zip_check_def plain_zip_def slip_places make_dirs_def ancestors_def is_file_def
        dhas_def etc_disk_def below_def Let_def zip_member_step_def store_member_def put_file_def is_dir_def endswith_def is_link_attr_def)
  moreover have "dget (dk_files (snd (extract_zip [''tmp''] 100 10 100 plain_zip etc_disk))) [''tmp'', ''a'', ''..'', ''b''] = None"
    using archive_confined [of "[''tmp'']" "[''tmp'', ''a'', ''..'', ''b'']" 100 10 100 plain_zip etc_disk] by (simp add: etc_disk_def)
  ultimately show ?thesis by blast
qed

text \<open>An archive that is unpacked keeps to the two limits, and reports only paths below its directory.\<close>

lemma zip_step_total:
  "zip_member_step dest m x = (e, x') \<Longrightarrow> xt_total x' = xt_total x \<and> length (xt_paths x') \<le> Suc (length (xt_paths x))"
  by (auto simp: zip_member_step_def Let_def split: if_splits option.splits)

lemma tar_step_total:
  "tar_member_step dest m x = (e, x') \<Longrightarrow> xt_total x' = xt_total x \<and> length (xt_paths x') \<le> Suc (length (xt_paths x))"
  by (auto simp: tar_member_step_def Let_def split: if_splits option.splits)

lemma zip_members_bound:
  assumes "zip_members dest b r ms x = (None, x')" "xt_total x \<le> b"
  shows "xt_total x + sum_list (map zi_size ms) \<le> b \<and> length (xt_paths x') \<le> length (xt_paths x) + length ms"
  using assms
proof (induction ms arbitrary: x)
  case (Cons m ms)
  let ?y = "x\<lparr>xt_total := xt_total x + zi_size m, xt_packed := xt_packed x + max (zi_packed m) 1\<rparr>"
  obtain y where y: "zip_member_step dest m ?y = (None, y)" "zip_members dest b r ms y = (None, x')" "xt_total x + zi_size m \<le> b"
    using Cons.prems(1) by (auto simp: zip_check_def Let_def split: option.splits prod.splits if_splits)
  then show ?case using zip_step_total[OF y(1)] Cons.IH[OF y(2)] by (simp add: ac_simps)
qed simp

lemma tar_members_bound:
  assumes "tar_members dest b k ms x = (None, x')" "xt_total x \<le> b"
  shows "xt_total x + sum_list (map ta_size ms) \<le> b \<and> length ms \<le> k \<and> length (xt_paths x') \<le> length (xt_paths x) + length ms"
  using assms
proof (induction ms arbitrary: x k)
  case (Cons m ms)
  obtain y where y: "tar_member_step dest m (x\<lparr>xt_total := xt_total x + ta_size m\<rparr>) = (None, y)"
      "tar_members dest b (k - 1) ms y = (None, x')" "xt_total x + ta_size m \<le> b" "k \<noteq> 0"
    using Cons.prems(1) by (auto simp: Let_def split: option.splits prod.splits if_splits)
  then show ?case using tar_step_total[OF y(1)] Cons.IH[OF y(2)] by (auto simp: ac_simps)
qed simp

lemma started: "start_extraction dest d = Some x \<Longrightarrow> xt_total x = 0 \<and> xt_paths x = []"
  by (auto simp: start_extraction_def)

theorem archive_bounded:
  shows "fst (extract_zip target b k r ms d) = Inr ps \<Longrightarrow>
      sum_list (map zi_size ms) \<le> b \<and> length ps \<le> k \<and> list_all (below (walk [] target)) ps"
    and "fst (extract_tar target b k ts d) = Inr ps \<Longrightarrow>
      sum_list (map ta_size ts) \<le> b \<and> length ps \<le> k \<and> list_all (below (walk [] target)) ps"
proof -
  assume "fst (extract_zip target b k r ms d) = Inr ps"
  then obtain x x' where x: "start_extraction (walk [] target) d = Some x" "length ms \<le> k"
      "zip_members (walk [] target) b r ms x = (None, x')" "ps = xt_paths x'"
    by (auto simp: extract_zip_def Let_def split: option.splits prod.splits if_splits)
  then show "sum_list (map zi_size ms) \<le> b \<and> length ps \<le> k \<and> list_all (below (walk [] target)) ps"
    using zip_members_bound[OF x(3)] started[OF x(1)] zip_members_held[OF start_held[OF x(1)], of b r ms]
    by (auto simp: held_below_def inside_def list_all_iff)
next
  assume "fst (extract_tar target b k ts d) = Inr ps"
  then obtain x x' where x: "start_extraction (walk [] target) d = Some x"
      "tar_members (walk [] target) b k ts x = (None, x')" "ps = xt_paths x'"
    by (auto simp: extract_tar_def Let_def split: option.splits prod.splits if_splits)
  then show "sum_list (map ta_size ts) \<le> b \<and> length ps \<le> k \<and> list_all (below (walk [] target)) ps"
    using tar_members_bound[OF x(2)] started[OF x(1)] tar_members_held[OF start_held[OF x(1)], of b k ts]
    by (auto simp: held_below_def inside_def list_all_iff)
qed

text \<open>What was unpacked before the refusal stays on the disk, and a device without content is reported although there is no file.\<close>

lemma partial_archive_left:
  assumes "zip_members dest b r ms x = (None, y)" "zip_check dest b r m y = Some err"
  shows "zip_members dest b r (ms @ m # ms') x = (Some err, y)"
  using assms by (induction ms arbitrary: x) (auto split: option.splits prod.splits)

lemma device_reported:
  fixes dest m defines "p \<equiv> archive_target dest (ta_name m)"
  assumes "\<not> ta_dir m" "ta_data m = None" "make_dirs (butlast p) (xt_disk x) = Some d"
  shows "fst (tar_member_step dest m x) = None \<and> last (xt_paths (snd (tar_member_step dest m x))) = p
    \<and> dk_files (xt_disk (snd (tar_member_step dest m x))) = dk_files (xt_disk x)"
  using assms make_dirs_files[OF assms(4)] by (simp add: tar_member_step_def)

text \<open>The networks that are refused, and the forms of an address of version 6 that reach them all the same.\<close>

lemma replicate_numeral: "replicate (numeral k) x = x # replicate (pred_numeral k) x"
  by (simp add: numeral_eq_Suc)

lemma split_char_case:
  "split_char c (x # s) = (case split_char c s of [] \<Rightarrow> [] | p # ps \<Rightarrow> if x = c then [] # p # ps else (x # p) # ps)"
  by (cases "split_char c s") auto

lemmas address_defs = is_forbidden_ip_def parse_v4_def octet_def number_in_def digit_value_def parse_v6_def parse_v6_plain_def
  v6_parts_def hextet_def hex_digit_def join_hextets_def v4_networks_def v6_networks_def in_v4_def in_v6_def is_digit_def
  is_lower_def between_def less_eq_char_def replicate_numeral split_char_case

lemma refused_addresses:
  "is_forbidden_ip ''127.0.0.1''" "is_forbidden_ip ''10.1.2.3''" "is_forbidden_ip ''169.254.169.254''" "is_forbidden_ip ''::1''"
  "is_forbidden_ip ''fe80::1''" "is_forbidden_ip ''localhost''" "\<not> is_forbidden_ip ''8.8.8.8''"
  by (simp_all add: address_defs del: split_char.simps(2))

lemma mapped_addresses_pass:
  "\<not> is_forbidden_ip ''::ffff:127.0.0.1''" "\<not> is_forbidden_ip ''::ffff:169.254.169.254''" "\<not> is_forbidden_ip ''::''"
  by (simp_all add: address_defs del: split_char.simps(2))

text \<open>A redirect is only followed to a name all of whose addresses are outside the refused networks.\<close>

theorem redirect_destination:
  assumes "verify_redirect_url split_url resolver url = Inr u"
  shows "\<exists>scheme host ips. u = url \<and> split_url url = (scheme, Some host) \<and> scheme \<in> {''http'', ''https''}
    \<and> lower (strip host) \<notin> set forbidden_hostnames \<and> resolver (lower (strip host)) = Some ips \<and> ips \<noteq> []
    \<and> list_all (\<lambda>ip. \<not> is_forbidden_ip ip) ips"
  using assms
  by (auto simp: verify_redirect_url_def verify_destination_host_def Let_def list_ex_iff list_all_iff
      split: prod.splits if_splits option.splits list.splits)

lemma host_a: "verify_destination_host (\<lambda>h. Some [''8.8.8.8'']) ''a''"
  using refused_addresses(7) by (simp add: verify_destination_host_def forbidden_hostnames_def strip_def lower_def)

theorem redirect_destination_witness:
  "\<exists>scheme host ips. ''https://a/'' = ''https://a/'' \<and> (''https'', Some ''a'') = (scheme, Some host) \<and> scheme \<in> {''http'', ''https''}
    \<and> lower (strip host) \<notin> set forbidden_hostnames \<and> Some [''8.8.8.8''] = Some ips \<and> ips \<noteq> []
    \<and> list_all (\<lambda>ip. \<not> is_forbidden_ip ip) ips"
  by (rule redirect_destination[of "\<lambda>u. (''https'', Some ''a'')" "\<lambda>h. Some [''8.8.8.8'']"]) (simp add: verify_redirect_url_def host_a)

text \<open>A path of the ephemeral directory is inside it, and there is none before it is entered or after it is left.\<close>

lemma safe_path_below: "resolve_safe_path s (Some p) = Inr q \<Longrightarrow> below p q"
  by (auto simp: resolve_safe_path_def Let_def split: if_splits)

lemma safe_path_needs_entry: "resolve_safe_path s (exit_ephemeral e) = Inl NotInitialized"
  by (simp add: resolve_safe_path_def exit_ephemeral_def)

text \<open>A failing container is answered by a run on the host, and an empty environment by the one of the process.\<close>

lemma docker_falls_back: "execute_in_sandbox t (Some None) f = execute_in_sandbox t None f"
  by (simp add: execute_in_sandbox_def)

lemma empty_env_inherits: "python_env parent (Some []) os = python_env parent None os"
  by (simp add: python_env_def)

text \<open>The two probes of addresses do not depend on the resolver where the address resolves to itself, or fails to.\<close>

lemma address_probes:
  assumes "resolver ''127.0.0.1'' \<in> {None, Some [''127.0.0.1'']}"
  shows "dget (run_all_checks probe resolver) ''cloud_metadata_blocked'' = Some True"
    and "dget (run_all_checks probe resolver) ''private_ip_blocked'' = Some True"
    and "dget (run_all_checks probe resolver) ''host_socket_blocked'' = Some True"
proof -
  have n: "lower (strip ''169.254.169.254'') = ''169.254.169.254''" "lower (strip ''127.0.0.1'') = ''127.0.0.1''"
    "is_host_socket_path ''/var/run/docker.sock''" by code_simp+
  show "dget (run_all_checks probe resolver) ''cloud_metadata_blocked'' = Some True"
    "dget (run_all_checks probe resolver) ''private_ip_blocked'' = Some True"
    "dget (run_all_checks probe resolver) ''host_socket_blocked'' = Some True"
    using assms n refused_addresses(1) by (auto simp: run_all_checks_def verify_destination_host_def forbidden_hostnames_def)
qed

end
