(* ===== verification/Spec2Isabelle.thy ===== *)
theory Spec2Isabelle
  imports Provider_Resilience Resilient_Cache Governance_Policies Governance_Board Governance_Workflow Audit_Chain
    Access_Control Tool_Approval Token_Lifecycle Ticket_Desk Org_Chart Channel_Resilience Message_Bus
    Kernel_Supervisor Cron_Service Subagent_Pool Tool_Calls Rag_Index Heartbeat Mfa Message_Split Dm_Pairing
    Network_Policy Pii_Redaction Secret_Scan Tool_Filter Data_Retention Identity_Continuity Subagent_Rpc
    Inference_Router Plugin_Manager Tenant_Isolation Backup_Restore Slo_Monitor Tracing Request_Metrics
    Provider_Registry Cron_Races Provider_Errors LiteLLM_Chat
    Secret_Stores Siem_Export File_Tools Code_Sandbox
begin

text \<open>
  AmberClaw is an assistant that answers messages of chat channels with the help of language models and tools. This
  development models the core of its Python code under \<open>src/src/amberclaw\<close> and proves what makes each part
  correct; where a part is not, the theorem says what it does instead, and the findings of the manifest name
  the line.

  \<^bold>\<open>How the parts interact.\<close> A channel publishes an inbound message on the bus (\<open>Message_Bus\<close>); the agent loop
  (\<open>Agent_Loop\<close>) takes it, looks up the conversation (\<open>Sessions\<close>), builds the context shown to the model, runs
  the graph of nodes (\<open>Agent_Graph\<close>) that asks the model and executes tools until the model answers or the
  iterations are used up, stores the turn, consolidates old messages (\<open>Agent_Memory\<close>) and publishes the reply,
  which a channel cuts to its length (\<open>Message_Split\<close>) and sends within its rate (\<open>Channel_Resilience\<close>). Calls
  of a model go through breakers and health scores (\<open>Provider_Resilience\<close>), tool calls through schemas and
  roles (\<open>Tool_Calls\<close>), the loop guard and approvals (\<open>Tool_Approval\<close>) and, for governed actions, policies,
  boards and workflows (\<open>Governance_Policies\<close>, \<open>Governance_Board\<close>, \<open>Governance_Workflow\<close>) whose decisions are
  logged in hash chains (\<open>Audit_Chain\<close>). Jobs of the crontab (\<open>Cron_Service\<close>), subagents (\<open>Subagent_Pool\<close>) and
  the kernel's services (\<open>Kernel_Supervisor\<close>) feed the same bus, watched by the heartbeat (\<open>Heartbeat\<close>).

  \<^bold>\<open>Prelude.\<close> \<open>Amber_Prelude\<close> holds the Python values the code manipulates: floats and timestamps as exact
  rationals, dictionaries as association lists in insertion order with their update laws, JSON values, ASCII
  strings, slices and rounding; and the interfaces stated as locales. \<open>keyed_store\<close> is what every manager keeps (a
  lookup after an update), interpreted on dictionaries and on the JSON store; \<open>machine\<close> is a state with calls that
  keep an invariant, interpreted on the breaker, the bulkhead, the cache, the bus, the crontab, the issues, the
  org chart, the elevations, the subagent pool, the retrieval index, the audit log, the linked accounts, the calls
  between subagents, the connection to a plugin, the session database, the counters of requests, the file tools and
  others, so that each invariant holds along every sequence of calls; \<open>measured_machine\<close> adds a quantity that never decreases.
  \<open>Audit_Chain\<close> states \<open>chained_log\<close>, interpreted on both audit logs, and \<open>Heartbeat\<close> states \<open>priority_queue\<close>,
  interpreted on the queue of pings.

  \<^bold>\<open>Conversations.\<close> \<open>Sessions\<close> (\<open>session/manager.py\<close>): a \<open>session\<close> is the dataclass, \<open>get_history\<close> the window shown to
  the model, \<open>manager\<close> the cache with Redis, database and files. \<open>Agent_Memory\<close> (\<open>agent/memory.py\<close>): consolidation
  in two steps around the call of the model. \<open>Reflection\<close> (\<open>agent/learning_loop.py\<close>) and \<open>Agent_Graph\<close>
  (\<open>agent/graph.py\<close>): nodes, routers and edges on the documented behaviour of LangGraph; every mode ends within
  \<open>4 * max_iterations + 3\<close> node runs, which is the fuel given, and a smaller limit of the runtime is what ends
  long runs. \<open>Agent_Loop\<close> (\<open>agent/loop.py\<close>, \<open>agent/context.py\<close> and others): \<open>agent\<close> is the state of the loop,
  \<open>loop_env\<close> its configuration and the outside world; \<open>dispatch\<close> is a whole turn. \<open>Dm_Pairing\<close>: one-time codes.
  \<open>Message_Split\<close>: a partial function, total for every positive length.

  \<^bold>\<open>Providers, caches and channels.\<close> \<open>Provider_Resilience\<close> (\<open>providers/resilience.py\<close>): circuit breaker, health
  tracker, bulkhead, canary routing. \<open>Resilient_Cache\<close> (\<open>cache/resilience.py\<close>): two tiers with tags.
  \<open>Channel_Resilience\<close> (\<open>channels/capabilities.py\<close>, \<open>channels/resilience.py\<close>): profiles, the token bucket (the
  waiting loop is given fifty polls, each of which waits until a token is due), metrics and back-off.
  \<open>Message_Bus\<close> (\<open>bus\<close>, \<open>core/events.py\<close>): bounded queues, dead letters and patterns.

  \<^bold>\<open>Governance and security.\<close> \<open>Governance_Policies\<close>, \<open>Governance_Board\<close>, \<open>Governance_Workflow\<close> (\<open>governance\<close>),
  \<open>Audit_Chain\<close> (\<open>governance/audit.py\<close>, \<open>security/audit.py\<close>), \<open>Access_Control\<close> (\<open>security/abac.py\<close>), \<open>Tool_Approval\<close>
  (\<open>security/approval.py\<close>), \<open>Token_Lifecycle\<close> (\<open>security/tokens.py\<close>), \<open>Mfa\<close> (\<open>security/mfa.py\<close>), \<open>Tool_Calls\<close>
  (\<open>agent/tools\<close>, \<open>security/auth.py\<close>).

  \<^bold>\<open>Services.\<close> \<open>State_Store\<close> (\<open>storage/persistence.py\<close>), \<open>Ticket_Desk\<close> (\<open>tickets\<close>), \<open>Org_Chart\<close> (\<open>org\<close>),
  \<open>Kernel_Supervisor\<close> (\<open>core/kernel.py\<close>), \<open>Cron_Service\<close> (\<open>cron\<close>), \<open>Subagent_Pool\<close> (\<open>subagent\<close>), \<open>Rag_Index\<close> (\<open>rag\<close>),
  \<open>Heartbeat\<close> (\<open>heartbeat\<close>).

  \<^bold>\<open>What leaves the machine and what comes in.\<close> \<open>Network_Policy\<close> (\<open>security/network_policy.py\<close>,
  \<open>security/egress_controller.py\<close>): the rules for connections and their enforcement. \<open>Py_Regex\<close>: the part of \<open>re\<close>
  that the scanners use, a datatype of patterns with a matcher that backtracks; \<open>Dlp_Engine\<close>, \<open>Pii_Redaction\<close>,
  \<open>Prompt_Guard\<close>, \<open>Secret_Scan\<close> and \<open>Tool_Filter\<close> (\<open>security/dlp.py\<close>, \<open>pii.py\<close>, \<open>prompt_guard.py\<close>, \<open>secret_scanner.py\<close>,
  \<open>filters.py\<close>, \<open>inference/pii_scanner.py\<close>, \<open>memory/sanitizer.py\<close>) hold the patterns of the sources and what is done
  with their matches. \<open>Siem_Export\<close> (\<open>security/siem.py\<close>): lines for log collectors, and the pruning of the log of
  \<open>Audit_Chain\<close>, whose check the pruned log passes. \<open>Secret_Stores\<close> (\<open>security/vault.py\<close>, \<open>security/envelope.py\<close>): over a
  cipher with the law that opening undoes sealing. \<open>Data_Retention\<close> (\<open>security/retention.py\<close>).

  \<^bold>\<open>Running code.\<close> \<open>File_Tools\<close> (\<open>agent/tools/filesystem.py\<close>, \<open>agent/tools/shell.py\<close>): paths and a disk of files
  and directories without symbolic links; every sequence of calls leaves what is outside the workspace alone.
  \<open>Code_Sandbox\<close> (\<open>security/sandbox.py\<close>): the seccomp program in 32-bit words with the verdict of every run that follows
  the kernel's documentation, archives on the same disk, addresses of versions 4 and 6. \<open>Plugin_Sandbox\<close>
  (\<open>security/landlock.py\<close>, \<open>plugins/capabilities.py\<close>), \<open>Plugin_Manager\<close> (the rest of \<open>plugins\<close>). \<open>Subagent_Rpc\<close>
  (\<open>subagent/rpc.py\<close>): messages and calls with what is pending. \<open>Posix_Paths\<close>: the part of \<open>pathlib\<close> these share.

  \<^bold>\<open>Keeping data.\<close> \<open>Session_Database\<close> (\<open>memory/session_db.py\<close>): two tables with their constraints and triggers.
  \<open>Tenant_Isolation\<close> and \<open>Backup_Restore\<close> (\<open>storage\<close>): one database for each tenant, copies and their restoration.
  \<open>Identity_Continuity\<close> (\<open>channels/continuity.py\<close>): accounts of one user. \<open>Cron_Races\<close>: a run of the crontab beside a
  process that writes its file, step by step.

  \<^bold>\<open>Choosing and calling a model.\<close> \<open>Provider_Registry\<close> (\<open>providers/registry.py\<close>, \<open>providers/factory.py\<close>),
  \<open>Inference_Router\<close> (\<open>inference\<close>), \<open>Model_Routing\<close> (\<open>providers/capabilities.py\<close>, \<open>deprecations.py\<close>, \<open>catalog.py\<close>,
  \<open>router.py\<close>; close names by the ratio of \<open>Difflib\<close>), \<open>Provider_Errors\<close> (\<open>providers/errors.py\<close>, the retries of
  \<open>providers/base.py\<close>), \<open>Request_Messages\<close> and \<open>LiteLLM_Chat\<close> (\<open>providers/litellm_provider.py\<close>): messages, arguments,
  requests with their fall back, and streams as lists of pieces, whose result does not depend on the cuts.

  \<^bold>\<open>Watching.\<close> \<open>Slo_Monitor\<close>, \<open>Tracing\<close>, \<open>Request_Metrics\<close> (\<open>observability\<close>).

  \<^bold>\<open>Conventions.\<close> A record is a class of the code with one field for each attribute; an operation takes and
  returns the state explicitly; an exception is \<open>Inl\<close> of an error, or \<open>None\<close> where the code distinguishes none;
  the time, random draws and whether an outside call succeeds are arguments. A coroutine that suspends is
  split at the suspension, or is a list of steps (\<open>Subagent_Pool\<close>). Everything evaluates, and the witnesses
  evaluate it.

  \<^bold>\<open>Not modelled.\<close> Rounding of binary floating point; logging; locks around single operations; the text of log
  lines. What is not code of the repository is a parameter with its documented behaviour as named hypotheses:
  Pydantic, JWT, SHA-256, HMAC and Fernet, \<open>json\<close>, croniter, Redis, PostgreSQL, the search of SQLite, LangGraph's
  tool node, the kernel, the resolver of names, the language models. Adapters of single platforms, providers,
  terminals and voices, the web and command-line front ends and the database schema are calls of such libraries
  and are left out, as are vector and graph memories, which rest on what such a library finds; symbolic links are
  left out of the disk; the manifest lists every part with its status.
\<close>

end
